(* ===== verification/Prelude.thy ===== *)
theory Prelude
  imports Complex_Main "HOL-Library.Sublist" "HOL-Library.Word"
begin

text \<open>
  Shared vocabulary of the development: the JavaScript string and array operations the gateway
  uses, on lists; JavaScript \<open>Map\<close> objects as association lists that keep insertion order, behind
  the interface \<open>ordered_map\<close>; and the generic transfer of an invariant from one step to a whole
  run, the interface \<open>stepwise\<close>.

  A JavaScript string is a list of code units. The text the gateway passes through is
  \<open>string\<close> (the code units below 256); the few characters outside that range occur in fixed
  message texts only and are spelled there by their UTF-8 bytes. Times are integer milliseconds,
  as \<open>Date.now()\<close> returns them; fractions are exact rationals.
\<close>

named_theorems js_simps "evaluation rules for the JavaScript string and array operations"

type_synonym ms = int

section \<open>Substrings\<close>

fun starts_with :: "'a list \<Rightarrow> 'a list \<Rightarrow> bool" where
  "starts_with xs [] = True"
| "starts_with [] (p # ps) = False"
| "starts_with (x # xs) (p # ps) = (x = p \<and> starts_with xs ps)"

lemma starts_with_iff_prefix: "starts_with xs p \<longleftrightarrow> prefix p xs"
  by (induction xs p rule: starts_with.induct) auto

lemma starts_with_take: "starts_with xs p \<longleftrightarrow> take (length p) xs = p"
  by (metis append_eq_conv_conj prefix_def starts_with_iff_prefix take_is_prefix)

lemma starts_with_append: "starts_with xs p \<Longrightarrow> starts_with (xs @ ys) p"
  by (simp add: starts_with_iff_prefix)

lemma starts_with_append_cases:
  "starts_with (xs @ ys) p \<Longrightarrow> starts_with xs p \<or> (starts_with p xs \<and> length xs < length p)"
proof -
  assume "starts_with (xs @ ys) p"
  then consider "prefix p xs" | zs where "p = xs @ zs" "prefix zs ys"
    by (auto simp: starts_with_iff_prefix prefix_append)
  then show ?thesis
  proof cases
    case (2 zs)
    then show ?thesis by (cases zs) (auto simp: starts_with_iff_prefix)
  qed (simp add: starts_with_iff_prefix)
qed

lemma starts_with_refl [simp]: "starts_with xs xs"
  by (simp add: starts_with_iff_prefix)

lemma starts_with_drop_append:
  "starts_with xs p \<Longrightarrow> p @ drop (length p) xs = xs"
  by (metis append_take_drop_id starts_with_take)

definition ends_with :: "'a list \<Rightarrow> 'a list \<Rightarrow> bool" where
  "ends_with xs p = starts_with (rev xs) (rev p)"

lemma ends_with_iff_suffix: "ends_with xs p \<longleftrightarrow> suffix p xs"
  by (simp add: ends_with_def starts_with_iff_prefix suffix_to_prefix)

text \<open>\<open>s.indexOf(p)\<close>: the first position at which \<open>p\<close> occurs, \<open>None\<close> for \<open>-1\<close>.\<close>

fun index_of :: "'a list \<Rightarrow> 'a list \<Rightarrow> nat option" where
  "index_of [] p = (if p = [] then Some 0 else None)"
| "index_of (x # xs) p = (if starts_with (x # xs) p then Some 0 else map_option Suc (index_of xs p))"

definition str_includes :: "'a list \<Rightarrow> 'a list \<Rightarrow> bool" where
  "str_includes xs p = (index_of xs p \<noteq> None)"

lemma index_of_Some:
  "index_of xs p = Some i \<Longrightarrow>
     i \<le> length xs \<and> starts_with (drop i xs) p \<and> (\<forall>j<i. \<not> starts_with (drop j xs) p)"
proof (induction xs arbitrary: i)
  case Nil
  then show ?case by (auto split: if_splits)
next
  case (Cons x xs)
  show ?case
  proof (cases "starts_with (x # xs) p")
    case True
    with Cons.prems show ?thesis by auto
  next
    case False
    with Cons.prems obtain k where k: "index_of xs p = Some k" and i: "i = Suc k" by auto
    from Cons.IH [OF k] have *: "k \<le> length xs" "starts_with (drop k xs) p"
      "\<And>j. j < k \<Longrightarrow> \<not> starts_with (drop j xs) p" by auto
    have "\<not> starts_with (drop j (x # xs)) p" if "j < i" for j
      using that False * i by (cases j) auto
    with * i show ?thesis by simp
  qed
qed

lemma index_of_None: "index_of xs p = None \<Longrightarrow> i \<le> length xs \<Longrightarrow> \<not> starts_with (drop i xs) p"
proof (induction xs arbitrary: i)
  case Nil
  then show ?case by (auto split: if_splits simp: starts_with_take)
next
  case (Cons x xs)
  then show ?case by (cases i) (auto split: if_splits)
qed

lemma index_of_eqI:
  assumes "i \<le> length xs" "starts_with (drop i xs) p"
    and "\<And>j. j < i \<Longrightarrow> \<not> starts_with (drop j xs) p"
  shows "index_of xs p = Some i"
proof (cases "index_of xs p")
  case None
  with assms index_of_None show ?thesis by blast
next
  case (Some k)
  from index_of_Some [OF Some] have k: "starts_with (drop k xs) p"
    "\<And>j. j < k \<Longrightarrow> \<not> starts_with (drop j xs) p" by auto
  from k assms have "\<not> i < k" "\<not> k < i" by blast+
  with Some show ?thesis by simp
qed

lemma index_of_NoneI:
  assumes "\<And>i. i \<le> length xs \<Longrightarrow> \<not> starts_with (drop i xs) p"
  shows "index_of xs p = None"
proof (cases "index_of xs p")
  case (Some k)
  from index_of_Some [OF this] assms show ?thesis by blast
qed simp

lemma str_includes_iff: "str_includes xs p \<longleftrightarrow> (\<exists>i \<le> length xs. starts_with (drop i xs) p)"
  by (metis str_includes_def index_of_None not_None_eq index_of_Some)

text \<open>\<open>s.lastIndexOf(c)\<close> for a one-character needle.\<close>

definition last_index_of :: "'a list \<Rightarrow> 'a \<Rightarrow> nat option" where
  "last_index_of xs c =
     (if c \<in> set xs then Some (length xs - Suc (length (takeWhile (\<lambda>x. x \<noteq> c) (rev xs)))) else None)"

lemma last_index_of_append_Cons:
  assumes "c \<notin> set ys"
  shows "last_index_of (xs @ c # ys) c = Some (length xs)"
proof -
  from assms have "takeWhile (\<lambda>x. x \<noteq> c) (rev ys @ c # rev xs) = rev ys"
    by (subst takeWhile_append2) auto
  then show ?thesis by (simp add: last_index_of_def)
qed

text \<open>\<open>s.slice(-n)\<close>: the last \<open>n\<close> elements (all of them for \<open>n = 0\<close>, which the code never uses).\<close>

definition slice_last :: "nat \<Rightarrow> 'a list \<Rightarrow> 'a list" where
  "slice_last n xs = drop (length xs - n) xs"

lemma length_slice_last [simp]: "length (slice_last n xs) = min n (length xs)"
  by (simp add: slice_last_def)

section \<open>Characters\<close>

text \<open>\<open>\\s\<close> and the characters \<open>trim()\<close> removes, among the code units below 256.\<close>

definition is_space :: "char \<Rightarrow> bool" where
  "is_space c = (let n = of_char c :: nat in n \<in> {9, 10, 11, 12, 13, 32, 160})"

definition trim :: "string \<Rightarrow> string" where
  "trim s = rev (dropWhile is_space (rev (dropWhile is_space s)))"

definition to_lower_char :: "char \<Rightarrow> char" where
  "to_lower_char c = (let n = of_char c :: nat in
     if (65 \<le> n \<and> n \<le> 90) \<or> (192 \<le> n \<and> n \<le> 222 \<and> n \<noteq> 215) then char_of (n + 32) else c)"

definition to_lower :: "string \<Rightarrow> string" where
  "to_lower s = map to_lower_char s"

definition is_digit :: "char \<Rightarrow> bool" where
  "is_digit c = (let n = of_char c :: nat in 48 \<le> n \<and> n \<le> 57)"

definition nl :: string where
  "nl = [CHR 0x0A]"

definition em_dash :: string where
  "em_dash = [CHR 0xE2, CHR 0x80, CHR 0x94]"

text \<open>\<open>s.split(sep)\<close> for a character class \<open>sep\<close>, and \<open>parts.join(sep)\<close>.\<close>

fun split_on :: "('a \<Rightarrow> bool) \<Rightarrow> 'a list \<Rightarrow> 'a list list" where
  "split_on p [] = [[]]"
| "split_on p (x # xs) =
     (if p x then [] # split_on p xs
      else (case split_on p xs of [] \<Rightarrow> [[x]] | y # ys \<Rightarrow> (x # y) # ys))"

fun join :: "'a list \<Rightarrow> 'a list list \<Rightarrow> 'a list" where
  "join sep [] = []"
| "join sep [x] = x"
| "join sep (x # y # zs) = x @ sep @ join sep (y # zs)"

lemma split_on_nonempty [simp]: "split_on p xs \<noteq> []"
  by (induction xs) (auto split: list.splits)

lemma split_on_no_sep: "ys \<in> set (split_on p xs) \<Longrightarrow> y \<in> set ys \<Longrightarrow> \<not> p y"
  by (induction xs arbitrary: ys y) (fastforce split: list.splits if_splits)+

lemma length_join_le: "length (join sep xss) \<le> sum_list (map length xss) + length sep * (length xss - 1)"
  by (induction sep xss rule: join.induct) auto

text \<open>\<open>String(n)\<close> for a natural number.\<close>

fun show_nat :: "nat \<Rightarrow> string" where
  "show_nat n = (if n < 10 then [char_of (48 + n)] else show_nat (n div 10) @ [char_of (48 + n mod 10)])"

declare show_nat.simps [simp del]

definition show_int :: "int \<Rightarrow> string" where
  "show_int i = (if i < 0 then ''-'' @ show_nat (nat (- i)) else show_nat (nat i))"

fun read_nat :: "nat \<Rightarrow> string \<Rightarrow> nat" where
  "read_nat acc [] = acc"
| "read_nat acc (c # cs) = read_nat (10 * acc + (of_char c - 48)) cs"

lemma read_nat_append: "read_nat acc (xs @ ys) = read_nat (read_nat acc xs) ys"
  by (induction acc xs rule: read_nat.induct) auto

lemma of_char_digit [simp]: "n < 10 \<Longrightarrow> (of_char (char_of (48 + n) :: char) :: nat) = 48 + n"
  by simp

lemma show_nat_ne [simp]: "show_nat n \<noteq> []"
  by (subst show_nat.simps) simp

lemma show_nat_digits: "c \<in> set (show_nat n) \<Longrightarrow> is_digit c"
proof (induction n rule: show_nat.induct)
  case (1 n)
  show ?case
  proof (cases "n < 10")
    case True
    with "1.prems" show ?thesis
      by (subst (asm) show_nat.simps) (auto simp: is_digit_def Let_def)
  next
    case False
    then have "show_nat n = show_nat (n div 10) @ [char_of (48 + n mod 10)]"
      by (subst show_nat.simps) simp
    with "1.IH" [OF False] "1.prems" show ?thesis
      by (auto simp: is_digit_def Let_def)
  qed
qed

lemma read_show_nat: "read_nat 0 (show_nat n) = n"
proof (induction n rule: show_nat.induct)
  case (1 n)
  show ?case
  proof (cases "n < 10")
    case True
    then show ?thesis by (subst show_nat.simps) simp
  next
    case False
    with "1.IH" have "read_nat 0 (show_nat (n div 10)) = n div 10" by simp
    with False show ?thesis
      by (subst show_nat.simps) (simp add: read_nat_append)
  qed
qed

section \<open>JavaScript \<open>Map\<close> objects\<close>

text \<open>
  A \<open>Map\<close> iterates in insertion order, \<open>set\<close> on a present key keeps its place, \<open>delete\<close> removes it.
\<close>

type_synonym ('k, 'v) jsmap = "('k \<times> 'v) list"

fun jm_set :: "'k \<Rightarrow> 'v \<Rightarrow> ('k, 'v) jsmap \<Rightarrow> ('k, 'v) jsmap" where
  "jm_set k v [] = [(k, v)]"
| "jm_set k v ((k', v') # m) = (if k = k' then (k, v) # m else (k', v') # jm_set k v m)"

definition jm_del :: "'k \<Rightarrow> ('k, 'v) jsmap \<Rightarrow> ('k, 'v) jsmap" where
  "jm_del k m = filter (\<lambda>e. fst e \<noteq> k) m"

definition jm_wf :: "('k, 'v) jsmap \<Rightarrow> bool" where
  "jm_wf m = distinct (map fst m)"

lemma map_of_jm_set [simp]: "map_of (jm_set k v m) = (map_of m)(k \<mapsto> v)"
  by (induction m) (auto simp: fun_eq_iff)

lemma map_of_jm_del [simp]: "map_of (jm_del k m) = (map_of m)(k := None)"
  by (induction m) (auto simp: fun_eq_iff jm_del_def)

lemma keys_jm_set:
  "map fst (jm_set k v m) = (if k \<in> fst ` set m then map fst m else map fst m @ [k])"
  by (induction m) (force simp: image_iff)+

lemma fst_set_jm_set [simp]: "fst ` set (jm_set k v m) = insert k (fst ` set m)"
proof -
  have "set (map fst (jm_set k v m)) = insert k (set (map fst m))"
    by (simp only: keys_jm_set) auto
  then show ?thesis by simp
qed

lemma jm_wf_jm_set: "jm_wf m \<Longrightarrow> jm_wf (jm_set k v m)"
  by (auto simp: jm_wf_def keys_jm_set)

lemma jm_wf_jm_del: "jm_wf m \<Longrightarrow> jm_wf (jm_del k m)"
  by (simp add: jm_wf_def jm_del_def distinct_map_filter)

lemma length_jm_set:
  "length (jm_set k v m) = (if k \<in> fst ` set m then length m else Suc (length m))"
  using arg_cong [OF keys_jm_set [of k v m], of length] by (simp split: if_splits)

lemma jm_set_fresh: "k \<notin> fst ` set m \<Longrightarrow> jm_set k v m = m @ [(k, v)]"
  by (induction m) auto

locale ordered_map =
  fixes empty :: "'m"
    and get :: "'m \<Rightarrow> 'k \<Rightarrow> 'v option"
    and put :: "'k \<Rightarrow> 'v \<Rightarrow> 'm \<Rightarrow> 'm"
    and del :: "'k \<Rightarrow> 'm \<Rightarrow> 'm"
    and keys :: "'m \<Rightarrow> 'k list"
    and wf :: "'m \<Rightarrow> bool"
  assumes wf_empty: "wf empty"
    and wf_put: "wf m \<Longrightarrow> wf (put k v m)"
    and wf_del: "wf m \<Longrightarrow> wf (del k m)"
    and keys_empty: "keys empty = []"
    and get_put: "get (put k v m) = (get m)(k \<mapsto> v)"
    and get_del: "get (del k m) = (get m)(k := None)"
    and keys_dom: "set (keys m) = dom (get m)"
    and keys_distinct: "wf m \<Longrightarrow> distinct (keys m)"
    and keys_put_new: "get m k = None \<Longrightarrow> keys (put k v m) = keys m @ [k]"
    and keys_put_old: "get m k = Some w \<Longrightarrow> keys (put k v m) = keys m"
    and keys_del: "keys (del k m) = filter (\<lambda>j. j \<noteq> k) (keys m)"
begin

lemma size_put_le: "length (keys (put k v m)) \<le> Suc (length (keys m))"
  by (cases "get m k") (simp_all add: keys_put_new keys_put_old)

lemma size_del:
  assumes "wf m" "get m k = Some v"
  shows "Suc (length (keys (del k m))) = length (keys m)"
proof -
  from assms(2) have k: "k \<in> set (keys m)" by (simp add: keys_dom domI)
  have "filter (\<lambda>j. j \<noteq> k) (keys m) = remove1 k (keys m)"
    using keys_distinct [OF assms(1)]
    by (simp add: distinct_remove1_removeAll removeAll_filter_not_eq eq_commute)
  with k have "length (keys (del k m)) = length (keys m) - 1"
    by (simp only: keys_del length_remove1) simp
  with length_pos_if_in_set [OF k] show ?thesis by linarith
qed

lemma get_put_other: "j \<noteq> k \<Longrightarrow> get (put k v m) j = get m j"
  by (simp add: get_put)

end

interpretation jm: ordered_map "[]" map_of jm_set jm_del "map fst" jm_wf
proof unfold_locales
  show "map fst (jm_del k m) = filter (\<lambda>j. j \<noteq> k) (map fst m)" for k :: 'a and m :: "('a, 'b) jsmap"
    by (induction m) (auto simp: jm_del_def)
  show "jm_wf (jm_del k m)" if "jm_wf m" for k :: 'a and m :: "('a, 'b) jsmap"
    using that by (rule jm_wf_jm_del)
qed (auto simp: jm_wf_jm_set keys_jm_set map_of_eq_None_iff dom_map_of_conv_image_fst
    jm_wf_def dest: map_of_SomeD intro: rev_image_eqI)

section \<open>Runs of a step function\<close>

text \<open>
  A component's history is a list of operations applied one after the other. \<open>ok_run\<close> says that
  each operation was allowed in the state it met.
\<close>

fun ok_run :: "('s \<Rightarrow> 'e \<Rightarrow> 's) \<Rightarrow> ('s \<Rightarrow> 'e \<Rightarrow> bool) \<Rightarrow> 's \<Rightarrow> 'e list \<Rightarrow> bool" where
  "ok_run step ok s [] = True"
| "ok_run step ok s (e # es) = (ok s e \<and> ok_run step ok (step s e) es)"

lemma ok_run_True: "ok_run step (\<lambda>_ _. True) s es"
  by (induction es arbitrary: s) auto

locale stepwise =
  fixes step :: "'s \<Rightarrow> 'e \<Rightarrow> 's"
    and ok :: "'s \<Rightarrow> 'e \<Rightarrow> bool"
    and inv :: "'s \<Rightarrow> bool"
  assumes step_inv: "inv s \<Longrightarrow> ok s e \<Longrightarrow> inv (step s e)"
begin

lemma run_inv: "inv s \<Longrightarrow> ok_run step ok s es \<Longrightarrow> inv (foldl step s es)"
  by (induction es arbitrary: s) (auto dest: step_inv)

lemma run_inv_prefix:
  "inv s \<Longrightarrow> ok_run step ok s (es @ fs) \<Longrightarrow> inv (foldl step s es)"
  by (induction es arbitrary: s) (auto dest: step_inv)

end

section \<open>Searching lists\<close>

lemma find_SomeD: "find P xs = Some x \<Longrightarrow> x \<in> set xs \<and> P x"
  by (induction xs) (auto split: if_splits)

lemma find_append_Cons: "\<forall>x \<in> set xs. \<not> P x \<Longrightarrow> P y \<Longrightarrow> find P (xs @ y # ys) = Some y"
  by (induction xs) auto

lemma find_map_upt:
  assumes "a \<le> k" "k < b" "P (f k)" "\<forall>j. a \<le> j \<and> j < k \<longrightarrow> \<not> P (f j)"
  shows "find P (map f [a..<b]) = Some (f k)"
proof -
  have "[a..<b] = [a..<k] @ k # [Suc k..<b]"
    using assms(1,2) by (metis le_add_diff_inverse less_imp_le upt_add_eq_append upt_conv_Cons)
  with assms(3,4) show ?thesis by (simp add: find_append_Cons)
qed

lemma nth_mod_mem: "xs \<noteq> [] \<Longrightarrow> xs ! (k mod length xs) \<in> set xs"
  by (rule nth_mem) simp

lemma length_takeWhile_first:
  assumes "i < length xs" "\<not> P (xs ! i)" "\<forall>j < i. P (xs ! j)"
  shows "length (takeWhile P xs) = i"
proof -
  have "takeWhile P xs = take i xs"
    using assms by (metis takeWhile_eq_take_P_nth)
  with assms(1) show ?thesis by simp
qed

lemma subseq_set: "subseq xs ys \<Longrightarrow> set xs \<subseteq> set ys"
  by (auto dest: list_emb_set)

section \<open>Optional values\<close>

text \<open>\<open>a ?? b\<close>.\<close>

fun coalesce :: "'a option \<Rightarrow> 'a option \<Rightarrow> 'a option" where
  "coalesce (Some a) b = Some a"
| "coalesce None b = b"

definition or_else :: "'a option \<Rightarrow> 'a \<Rightarrow> 'a" where
  "or_else x d = (case x of Some a \<Rightarrow> a | None \<Rightarrow> d)"

lemma or_else_simps [simp]: "or_else (Some a) d = a" "or_else None d = d"
  by (simp_all add: or_else_def)

lemmas js_string_defs = is_space_def trim_def to_lower_char_def to_lower_def is_digit_def
  ends_with_def str_includes_def

end
