(* ===== verification/Semaphore.thy ===== *)
theory Semaphore
  imports Prelude
begin

text \<open>
  The request gateway's semaphore, class \<open>GatewaySemaphore\<close> of \<open>src/server/semaphore.ts\<close>: a bounded
  number of running agy processes and a bounded queue of parked calls in front of them.

  A parked call is a \<open>Waiter\<close> object; the objects live in a store from identities to their
  \<open>settled\<close> latch, because the abort listener and \<open>release\<close> hold references to the same object.
  A waiter's promise settles by an effect: \<open>Wake\<close> (the slot was transferred) or \<open>Drop\<close> (the call
  fails with \<open>ABORTED\<close>). The limits \<open>max()\<close> and \<open>maxQueued()\<close> are read afresh at every acquire, so
  they are arguments of the operation.

  The gateway around the semaphore is the system of calls: each call acquires once, may be aborted
  while parked, and calls the release closure it obtained once (the engine does so in a \<open>finally\<close>).
\<close>

section \<open>State and operations\<close>

record semaphore =
  active :: int
  waiting :: "nat list"
  settled :: "nat \<rightharpoonup> bool"

definition new_semaphore :: semaphore where
  "new_semaphore = \<lparr>active = 0, waiting = [], settled = Map.empty\<rparr>"

datatype acquire_result =
    Acquired
  | Parked
  | Aborted_early
  | Queue_full int int

definition acquire :: "int \<Rightarrow> int \<Rightarrow> bool \<Rightarrow> nat \<Rightarrow> semaphore \<Rightarrow> acquire_result \<times> semaphore" where
  "acquire max_active max_queued aborted w s =
     (if active s \<ge> max_active \<or> length (waiting s) > 0 then
        (if aborted then (Aborted_early, s)
         else if int (length (waiting s)) \<ge> max_queued
         then (Queue_full (int (length (waiting s))) max_queued, s)
         else (Parked, s\<lparr>waiting := waiting s @ [w], settled := (settled s)(w \<mapsto> False)\<rparr>))
      else (Acquired, s\<lparr>active := active s + 1\<rparr>))"

datatype effect = Wake nat | Drop nat

definition on_abort :: "nat \<Rightarrow> semaphore \<Rightarrow> effect list \<times> semaphore" where
  "on_abort w s =
     (if settled s w = Some True then ([], s)
      else ([Drop w], s\<lparr>settled := (settled s)(w \<mapsto> True), waiting := remove1 w (waiting s)\<rparr>))"

fun release_loop :: "nat list \<Rightarrow> semaphore \<Rightarrow> effect list \<times> semaphore" where
  "release_loop [] s = ([], s\<lparr>waiting := [], active := active s - 1\<rparr>)"
| "release_loop (w # ws) s =
     (if settled s w = Some True then release_loop ws s
      else ([Wake w], s\<lparr>waiting := ws, settled := (settled s)(w \<mapsto> True)\<rparr>))"

definition release :: "semaphore \<Rightarrow> effect list \<times> semaphore" where
  "release s = release_loop (waiting s) s"

definition depth :: "semaphore \<Rightarrow> nat" where
  "depth s = length (waiting s)"

definition inFlight :: "semaphore \<Rightarrow> int" where
  "inFlight s = active s"

section \<open>The system of calls\<close>

text \<open>
  \<open>holders\<close> are the calls whose \<open>acquire\<close> has returned and whose release closure has not been called;
  \<open>parked\<close> and \<open>woken\<close> log the calls in the order in which they were parked and woken; \<open>dropped\<close>
  and \<open>refused\<close> are the calls that failed.
\<close>

record gateway =
  sem :: semaphore
  holders :: "nat list"
  parked :: "nat list"
  woken :: "nat list"
  dropped :: "nat list"
  refused :: "nat list"

definition new_gateway :: gateway where
  "new_gateway = \<lparr>sem = new_semaphore, holders = [], parked = [], woken = [], dropped = [], refused = []\<rparr>"

datatype call_op =
    Acquire int int bool nat
  | Abort nat
  | Release nat

fun settle :: "effect list \<Rightarrow> gateway \<Rightarrow> gateway" where
  "settle [] g = g"
| "settle (Wake w # es) g = settle es (g\<lparr>holders := holders g @ [w], woken := woken g @ [w]\<rparr>)"
| "settle (Drop w # es) g = settle es (g\<lparr>dropped := dropped g @ [w]\<rparr>)"

fun gateway_step :: "gateway \<Rightarrow> call_op \<Rightarrow> gateway" where
  "gateway_step g (Acquire m q aborted w) =
     (let (r, s) = acquire m q aborted w (sem g)
      in case r of
           Acquired \<Rightarrow> g\<lparr>sem := s, holders := holders g @ [w]\<rparr>
         | Parked \<Rightarrow> g\<lparr>sem := s, parked := parked g @ [w]\<rparr>
         | _ \<Rightarrow> g\<lparr>sem := s, refused := refused g @ [w]\<rparr>)"
| "gateway_step g (Abort w) = (let (es, s) = on_abort w (sem g) in settle es (g\<lparr>sem := s\<rparr>))"
| "gateway_step g (Release w) =
     (let (es, s) = release (sem g) in settle es (g\<lparr>sem := s, holders := remove1 w (holders g)\<rparr>))"

definition calls_of :: "gateway \<Rightarrow> nat set" where
  "calls_of g = set (holders g) \<union> set (parked g) \<union> set (woken g) \<union> set (dropped g) \<union> set (refused g)"

text \<open>
  A call is new when it acquires, an abort listener exists only for a call that was parked, and
  only a call that holds a slot releases it.
\<close>

fun call_ok :: "gateway \<Rightarrow> call_op \<Rightarrow> bool" where
  "call_ok g (Acquire m q aborted w) = (w \<notin> calls_of g)"
| "call_ok g (Abort w) = (w \<in> set (parked g))"
| "call_ok g (Release w) = (w \<in> set (holders g))"

text \<open>The same with constant limits.\<close>

fun call_ok_const :: "int \<Rightarrow> int \<Rightarrow> gateway \<Rightarrow> call_op \<Rightarrow> bool" where
  "call_ok_const M Q g (Acquire m q aborted w) = (m = M \<and> q = Q \<and> w \<notin> calls_of g)"
| "call_ok_const M Q g op = call_ok g op"

section \<open>The slot invariant\<close>

definition gateway_inv :: "gateway \<Rightarrow> bool" where
  "gateway_inv g =
     (active (sem g) = int (length (holders g)) \<and>
      distinct (parked g) \<and> distinct (holders g) \<and>
      subseq (woken g @ waiting (sem g)) (parked g) \<and>
      (\<forall>w \<in> set (waiting (sem g)). settled (sem g) w = Some False \<and> w \<notin> set (holders g)) \<and>
      (\<forall>w \<in> set (parked g). settled (sem g) w =
         Some (w \<notin> set (waiting (sem g)))) \<and>
      set (dropped g) \<inter> set (holders g) = {} \<and> set (dropped g) \<subseteq> set (parked g) \<and>
      (\<forall>w \<in> set (parked g). w \<in> set (waiting (sem g)) \<or> w \<in> set (woken g) \<or> w \<in> set (dropped g)) \<and>
      set (dropped g) \<inter> set (woken g @ waiting (sem g)) = {})"

lemma gateway_inv_new: "gateway_inv new_gateway"
  by (simp add: gateway_inv_def new_gateway_def new_semaphore_def)

lemma release_unsettled:
  assumes "\<forall>w \<in> set (waiting s). settled s w = Some False"
  shows "release s = (case waiting s of [] \<Rightarrow> ([], s\<lparr>waiting := [], active := active s - 1\<rparr>)
    | w # ws \<Rightarrow> ([Wake w], s\<lparr>waiting := ws, settled := (settled s)(w \<mapsto> True)\<rparr>))"
  using assms by (cases "waiting s") (auto simp: release_def)

lemma subseq_distinct: "subseq xs ys \<Longrightarrow> distinct ys \<Longrightarrow> distinct xs"
  by (induction rule: list_emb.induct) (auto dest: list_emb_set)

lemma subseq_remove1: "subseq (remove1 x xs) xs"
  by (induction xs) auto

lemma gateway_inv_acquire:
  assumes inv: "gateway_inv g" and new: "w \<notin> calls_of g"
  shows "gateway_inv (gateway_step g (Acquire m q aborted w))"
proof -
  obtain r s where a: "acquire m q aborted w (sem g) = (r, s)" by (cases "acquire m q aborted w (sem g)")
  show ?thesis
  proof (cases r)
    case Parked
    with a have s: "s = (sem g)\<lparr>waiting := waiting (sem g) @ [w], settled := (settled (sem g))(w \<mapsto> False)\<rparr>"
      by (auto simp: acquire_def split: if_splits)
    from inv have "subseq ((woken g @ waiting (sem g)) @ [w]) (parked g @ [w])"
      unfolding gateway_inv_def by (intro list_emb_append_mono) auto
    moreover from inv new have "w \<notin> set (waiting (sem g))"
      by (auto simp: gateway_inv_def calls_of_def dest: list_emb_set)
    ultimately show ?thesis
      using inv new a Parked s by (auto simp: gateway_inv_def calls_of_def)
  next
    case Acquired
    with a have s: "s = (sem g)\<lparr>active := active (sem g) + 1\<rparr>"
      by (auto simp: acquire_def split: if_splits)
    from inv new have "w \<notin> set (waiting (sem g))"
      by (auto simp: gateway_inv_def calls_of_def dest: list_emb_set)
    with inv new a Acquired s show ?thesis
      by (auto simp: gateway_inv_def calls_of_def)
  next
    case Aborted_early
    with a have "s = sem g" by (auto simp: acquire_def split: if_splits)
    with inv a Aborted_early show ?thesis by (simp add: gateway_inv_def)
  next
    case (Queue_full n k)
    with a have "s = sem g" by (auto simp: acquire_def split: if_splits)
    with inv a Queue_full show ?thesis by (simp add: gateway_inv_def)
  qed
qed

lemma gateway_inv_abort:
  assumes inv: "gateway_inv g" and p: "w \<in> set (parked g)"
  shows "gateway_inv (gateway_step g (Abort w))"
proof (cases "w \<in> set (waiting (sem g))")
  case False
  with inv p have "settled (sem g) w = Some True" by (simp add: gateway_inv_def)
  with inv show ?thesis by (simp add: on_abort_def gateway_inv_def)
next
  case True
  let ?ws = "waiting (sem g)"
  from inv have sub: "subseq (woken g @ ?ws) (parked g)" and dp: "distinct (parked g)"
    by (simp_all add: gateway_inv_def)
  then have dist: "distinct (woken g @ ?ws)" by (rule subseq_distinct)
  have "subseq (remove1 w ?ws) ?ws" by (rule subseq_remove1)
  then have "subseq (woken g @ remove1 w ?ws) (parked g)"
    using sub by (meson list_emb_append_mono subseq_order.order_refl subseq_order.order_trans)
  moreover from True inv have "settled (sem g) w = Some False" by (simp add: gateway_inv_def)
  ultimately show ?thesis
    using inv p True dist by (auto simp: on_abort_def gateway_inv_def)
qed

lemma gateway_inv_release:
  assumes inv: "gateway_inv g" and h: "w \<in> set (holders g)"
  shows "gateway_inv (gateway_step g (Release w))"
proof -
  have r: "release (sem g) = (case waiting (sem g) of
        [] \<Rightarrow> ([], (sem g)\<lparr>waiting := [], active := active (sem g) - 1\<rparr>)
      | v # ws \<Rightarrow> ([Wake v], (sem g)\<lparr>waiting := ws, settled := (settled (sem g))(v \<mapsto> True)\<rparr>))"
    using inv by (intro release_unsettled) (simp add: gateway_inv_def)
  have len: "int (length (remove1 w (holders g))) = int (length (holders g)) - 1"
    using length_pos_if_in_set [OF h] h by (cases "length (holders g)") (simp_all add: length_remove1)
  show ?thesis
  proof (cases "waiting (sem g)")
    case Nil
    with inv h r len show ?thesis by (auto simp: gateway_inv_def)
  next
    case (Cons v ws)
    from inv have dist: "distinct (woken g @ waiting (sem g))"
      unfolding gateway_inv_def by (blast intro: subseq_distinct)
    with inv h r len Cons show ?thesis by (auto simp: gateway_inv_def)
  qed
qed

lemma gateway_step_inv: "gateway_inv g \<Longrightarrow> call_ok g op \<Longrightarrow> gateway_inv (gateway_step g op)"
  by (cases op) (simp_all only: call_ok.simps gateway_inv_acquire gateway_inv_abort gateway_inv_release not_False_eq_True)

interpretation gw: stepwise gateway_step call_ok gateway_inv
  by unfold_locales (rule gateway_step_inv)

section \<open>The capacity invariant\<close>

definition cap_inv :: "int \<Rightarrow> int \<Rightarrow> gateway \<Rightarrow> bool" where
  "cap_inv M Q g =
     (gateway_inv g \<and> active (sem g) \<le> M \<and> int (length (waiting (sem g))) \<le> Q \<and>
      (waiting (sem g) \<noteq> [] \<longrightarrow> active (sem g) = M))"

lemma acquire_cases:
  assumes "acquire m q aborted w s = (r, s1)"
  obtains (got) "r = Acquired" "active s < m" "waiting s = []" "s1 = s\<lparr>active := active s + 1\<rparr>"
  | (parks) "r = Parked" "active s \<ge> m \<or> waiting s \<noteq> []" "int (length (waiting s)) < q"
      "s1 = s\<lparr>waiting := waiting s @ [w], settled := (settled s)(w \<mapsto> False)\<rparr>"
  | (fails) "r \<noteq> Acquired" "r \<noteq> Parked" "s1 = s"
proof -
  consider "active s < m \<and> waiting s = []"
    | "active s \<ge> m \<or> waiting s \<noteq> []" "\<not> aborted" "int (length (waiting s)) < q"
    | "active s \<ge> m \<or> waiting s \<noteq> []" "aborted \<or> int (length (waiting s)) \<ge> q"
    by linarith
  then show thesis
  proof cases
    case 1
    with assms show thesis by (intro got) (simp_all add: acquire_def)
  next
    case 2
    with assms show thesis by (intro parks) (simp_all add: acquire_def)
  next
    case 3
    with assms show thesis by (intro fails) (auto simp: acquire_def split: if_splits)
  qed
qed

lemma settle_sem [simp]: "sem (settle es g) = sem g"
  by (induction es g rule: settle.induct) auto

lemma gateway_step_acquire_sem:
  "sem (gateway_step g (Acquire m q aborted w)) = snd (acquire m q aborted w (sem g))"
  by (auto split: prod.splits acquire_result.splits)

lemma cap_inv_step:
  assumes inv: "cap_inv M Q g" and ok: "call_ok_const M Q g op"
  shows "cap_inv M Q (gateway_step g op)"
proof -
  from ok have "call_ok g op" by (cases op) auto
  with inv have g1: "gateway_inv (gateway_step g op)" by (auto simp: cap_inv_def intro: gateway_step_inv)
  have "active (sem (gateway_step g op)) \<le> M \<and> int (length (waiting (sem (gateway_step g op)))) \<le> Q \<and>
      (waiting (sem (gateway_step g op)) \<noteq> [] \<longrightarrow> active (sem (gateway_step g op)) = M)"
  proof (cases op)
    case (Acquire m q aborted w)
    obtain r s where a: "acquire m q aborted w (sem g) = (r, s)" by (cases "acquire m q aborted w (sem g)")
    with ok Acquire have mq: "m = M" "q = Q" by auto
    have s: "sem (gateway_step g op) = s"
      unfolding Acquire gateway_step_acquire_sem a by simp
    from a show ?thesis
      using inv unfolding s cap_inv_def mq by (cases rule: acquire_cases) auto
  next
    case (Abort w)
    with inv show ?thesis
      by (auto simp: cap_inv_def on_abort_def length_remove1)
  next
    case (Release w)
    from inv have "\<forall>w \<in> set (waiting (sem g)). settled (sem g) w = Some False"
      by (simp add: cap_inv_def gateway_inv_def)
    from release_unsettled [OF this] inv Release show ?thesis
      by (cases "waiting (sem g)") (auto simp: cap_inv_def)
  qed
  with g1 show ?thesis by (simp add: cap_inv_def)
qed

interpretation gwc: stepwise gateway_step "call_ok_const M Q" "cap_inv M Q" for M Q
  by unfold_locales (rule cap_inv_step)

lemma releases_wake:
  assumes "gateway_inv g" "ok_run gateway_step call_ok g (map Release hs)"
    and "length hs \<le> length (waiting (sem g))"
  shows "woken (foldl gateway_step g (map Release hs)) = woken g @ take (length hs) (waiting (sem g))"
  using assms
proof (induction hs arbitrary: g)
  case (Cons h hs)
  obtain v ws where w: "waiting (sem g) = v # ws" using Cons.prems(3) by (cases "waiting (sem g)") auto
  from Cons.prems(1) have "\<forall>w \<in> set (waiting (sem g)). settled (sem g) w = Some False"
    by (simp add: gateway_inv_def)
  from release_unsettled [OF this] w
  have g1: "woken (gateway_step g (Release h)) = woken g @ [v]" "waiting (sem (gateway_step g (Release h))) = ws"
    by simp_all
  from Cons.prems have "gateway_inv (gateway_step g (Release h))" by (intro gateway_step_inv) auto
  from Cons.IH [OF this] Cons.prems g1 w show ?case by simp
qed simp

section \<open>Properties\<close>

text \<open>
  C1. With constant limits, after any history of acquires, aborts and releases the number of calls
  that hold a slot is the semaphore's count, it never exceeds the concurrency limit, the queue never
  exceeds its cap, and while anybody waits every slot is in use (so some call will release one).
\<close>

theorem gateway_capacity:
  assumes "0 \<le> M" "0 \<le> Q" "ok_run gateway_step (call_ok_const M Q) new_gateway ops"
  shows "let g = foldl gateway_step new_gateway ops in
    inFlight (sem g) = int (length (holders g)) \<and> inFlight (sem g) \<le> M \<and> int (depth (sem g)) \<le> Q \<and>
    (depth (sem g) > 0 \<longrightarrow> inFlight (sem g) = M)"
proof -
  have "cap_inv M Q new_gateway"
    using assms(1,2) gateway_inv_new by (simp add: cap_inv_def new_gateway_def new_semaphore_def)
  from gwc.run_inv [OF this assms(3)] show ?thesis
    unfolding cap_inv_def gateway_inv_def inFlight_def depth_def Let_def length_greater_0_conv by blast
qed

theorem gateway_capacity_witness:
  "let g = foldl gateway_step new_gateway [Acquire 1 2 False 0, Acquire 1 2 False 1, Acquire 1 2 False 2,
      Acquire 1 2 False 3, Abort 1, Release 0]
   in inFlight (sem g) = 1 \<and> holders g = [2] \<and> dropped g = [1] \<and> refused g = [3] \<and> inFlight (sem g) \<le> 1"
  using gateway_capacity [of 1 2 "[Acquire 1 2 False 0, Acquire 1 2 False 1, Acquire 1 2 False 2,
      Acquire 1 2 False 3, Abort 1, Release 0]"]
  by (simp add: new_gateway_def new_semaphore_def acquire_def on_abort_def release_def calls_of_def Let_def
      inFlight_def)

text \<open>
  C2. Whatever the limits do from call to call, slots are conserved and handed on in order: the count
  equals the number of holders; the calls woken so far followed by the calls still waiting are the
  parked calls in parking order with the dropped ones left out; a parked call is waiting, woken or
  dropped, and a dropped one never holds a slot.
\<close>

theorem gateway_fifo:
  assumes "ok_run gateway_step call_ok new_gateway ops"
  shows "let g = foldl gateway_step new_gateway ops in
    active (sem g) = int (length (holders g)) \<and>
    subseq (woken g @ waiting (sem g)) (parked g) \<and>
    set (parked g) = set (waiting (sem g)) \<union> set (woken g) \<union> set (dropped g) \<and>
    set (dropped g) \<inter> (set (holders g) \<union> set (woken g) \<union> set (waiting (sem g))) = {}"
proof -
  have inv: "gateway_inv (foldl gateway_step new_gateway ops)"
    using gateway_inv_new assms by (rule gw.run_inv)
  then have "set (woken (foldl gateway_step new_gateway ops) @
      waiting (sem (foldl gateway_step new_gateway ops))) \<subseteq> set (parked (foldl gateway_step new_gateway ops))"
    unfolding gateway_inv_def by (intro subseq_set) simp
  with inv show ?thesis unfolding gateway_inv_def Let_def set_append by blast
qed

theorem gateway_fifo_witness:
  "woken (foldl gateway_step new_gateway [Acquire 1 5 False 0, Acquire 1 5 False 1, Acquire 1 5 False 2,
     Acquire 1 5 False 3, Abort 2, Release 0, Release 1]) = [1, 3] \<and> subseq [1, 3] [1, 2, 3::nat]"
  using gateway_fifo [of "[Acquire 1 5 False 0, Acquire 1 5 False 1, Acquire 1 5 False 2,
     Acquire 1 5 False 3, Abort 2, Release 0, Release 1]"]
  by (simp add: new_gateway_def new_semaphore_def acquire_def on_abort_def release_def calls_of_def Let_def)

text \<open>
  C3. No call starves: in any reachable state each release by a holder wakes the next waiting call, so
  after \<open>n\<close> releases exactly the first \<open>n\<close> waiting calls own slots, in order.
\<close>

theorem gateway_no_starvation:
  assumes "ok_run gateway_step call_ok new_gateway ops"
    and "ok_run gateway_step call_ok (foldl gateway_step new_gateway ops) (map Release hs)"
    and "length hs \<le> depth (sem (foldl gateway_step new_gateway ops))"
  shows "woken (foldl gateway_step new_gateway (ops @ map Release hs)) =
    woken (foldl gateway_step new_gateway ops) @
    take (length hs) (waiting (sem (foldl gateway_step new_gateway ops)))"
  using releases_wake [OF gw.run_inv [OF gateway_inv_new assms(1)] assms(2)] assms(3)
  by (simp add: depth_def)

theorem gateway_no_starvation_witness:
  "woken (foldl gateway_step new_gateway ([Acquire 1 5 False 0, Acquire 1 5 False 1, Acquire 1 5 False 2] @
     map Release [0, 1])) = [1, 2]"
  using gateway_no_starvation [of "[Acquire 1 5 False 0, Acquire 1 5 False 1, Acquire 1 5 False 2]" "[0, 1]"]
  by (simp add: new_gateway_def new_semaphore_def acquire_def release_def calls_of_def depth_def)

text \<open>
  A raised concurrency limit is not used while calls are queued: with one running call, one parked
  call and the limit raised to five, a new call is parked although four slots are free.
\<close>

lemma acquire_ignores_raised_limit:
  "fst (acquire 5 10 False 2 (snd (acquire 1 10 False 1 (snd (acquire 1 10 False 0 new_semaphore))))) = Parked"
  by (simp add: acquire_def new_semaphore_def)

end
