(* ===== verification/Regex.thy ===== *)
theory Regex
  imports Prelude
begin

text \<open>
  The part of JavaScript's regular expressions the gateway uses, as a backtracking matcher.

  \<open>rx_match e s\<close> lists the ways \<open>e\<close> can match at the front of \<open>s\<close>, in the order in which a
  backtracking matcher tries them: each result is the captures set on the way and the rest of the
  text. \<open>RegExp.prototype.exec\<close> takes the first result at the first position that has one. A
  repetition only goes on after an iteration that consumed something, as ECMAScript prescribes.
\<close>

datatype rx =
    RxEps
  | RxChar "char \<Rightarrow> bool"
  | RxSeq rx rx
  | RxAlt rx rx
  | RxStar rx
  | RxCap nat rx
  | RxWordEnd
  | RxEnd

type_synonym captures = "(nat \<times> string) list"

definition word_char :: "char \<Rightarrow> bool" where
  "word_char c = (let n = of_char c :: nat in
     (48 \<le> n \<and> n \<le> 57) \<or> (65 \<le> n \<and> n \<le> 90) \<or> n = 95 \<or> (97 \<le> n \<and> n \<le> 122))"

text \<open>
  \<open>RxWordEnd\<close> is \<open>\\b\<close> after a word character: the next character, if any, is not one. \<open>RxEnd\<close>
  is \<open>$\<close>.
\<close>

function rx_match :: "rx \<Rightarrow> string \<Rightarrow> (captures \<times> string) list" where
  "rx_match RxEps s = [([], s)]"
| "rx_match (RxChar p) s = (case s of [] \<Rightarrow> [] | c # cs \<Rightarrow> if p c then [([], cs)] else [])"
| "rx_match (RxSeq a b) s =
     concat (map (\<lambda>(c1, s1). map (\<lambda>(c2, s2). (c1 @ c2, s2)) (rx_match b s1)) (rx_match a s))"
| "rx_match (RxAlt a b) s = rx_match a s @ rx_match b s"
| "rx_match (RxStar a) s =
     concat (map (\<lambda>(c1, s1). if length s1 < length s
                then map (\<lambda>(c2, s2). (c1 @ c2, s2)) (rx_match (RxStar a) s1) else [])
            (rx_match a s)) @ [([], s)]"
| "rx_match (RxCap n a) s =
     map (\<lambda>(c1, s1). (c1 @ [(n, take (length s - length s1) s)], s1)) (rx_match a s)"
| "rx_match RxWordEnd s = (case s of [] \<Rightarrow> [([], s)] | c # cs \<Rightarrow> if word_char c then [] else [([], s)])"
| "rx_match RxEnd s = (if s = [] then [([], s)] else [])"
  by pat_completeness auto

termination
  by (relation "measures [\<lambda>(e, s). size e, \<lambda>(e, s). length s]") auto

declare rx_match.simps(5) [simp del]

lemma rx_match_star_Nil [simp]: "rx_match (RxStar a) [] = [([], [])]"
  by (subst rx_match.simps(5)) (induction "rx_match a []", auto)

lemma rx_match_star_Cons [simp]:
  "rx_match (RxStar a) (c # cs) =
     concat (map (\<lambda>(c1, s1). if length s1 < length (c # cs)
                then map (\<lambda>(c2, s2). (c1 @ c2, s2)) (rx_match (RxStar a) s1) else [])
            (rx_match a (c # cs))) @ [([], c # cs)]"
  by (rule rx_match.simps(5))

definition rx_plus :: "rx \<Rightarrow> rx" where
  "rx_plus a = RxSeq a (RxStar a)"

definition rx_opt :: "rx \<Rightarrow> rx" where
  "rx_opt a = RxAlt a RxEps"

fun rx_seqs :: "rx list \<Rightarrow> rx" where
  "rx_seqs [] = RxEps"
| "rx_seqs [a] = a"
| "rx_seqs (a # b # es) = RxSeq a (rx_seqs (b # es))"

fun rx_alts :: "rx list \<Rightarrow> rx" where
  "rx_alts [] = RxChar (\<lambda>c. False)"
| "rx_alts [a] = a"
| "rx_alts (a # b # es) = RxAlt a (rx_alts (b # es))"

definition rx_lit :: "string \<Rightarrow> rx" where
  "rx_lit s = rx_seqs (map (\<lambda>c. RxChar (\<lambda>d. d = c)) s)"

text \<open>A literal under the \<open>i\<close> flag.\<close>

definition rx_lit_i :: "string \<Rightarrow> rx" where
  "rx_lit_i s = rx_seqs (map (\<lambda>c. RxChar (\<lambda>d. to_lower_char d = to_lower_char c)) s)"

definition rx_times :: "nat \<Rightarrow> rx \<Rightarrow> rx" where
  "rx_times n a = rx_seqs (replicate n a)"

text \<open>\<open>text.match(re)\<close>: the first match, with what was matched and its captures.\<close>

fun rx_exec :: "rx \<Rightarrow> string \<Rightarrow> (string \<times> captures) option" where
  "rx_exec e s =
     (case rx_match e s of
        (cs, rest) # _ \<Rightarrow> Some (take (length s - length rest) s, cs)
      | [] \<Rightarrow> (case s of [] \<Rightarrow> None | _ # t \<Rightarrow> rx_exec e t))"

declare rx_exec.simps [simp del]

definition rx_test :: "rx \<Rightarrow> string \<Rightarrow> bool" where
  "rx_test e s = (rx_exec e s \<noteq> None)"

text \<open>A capture group holds what its last iteration matched; an unmatched group is absent.\<close>

definition capture :: "captures \<Rightarrow> nat \<Rightarrow> string option" where
  "capture cs n = map_of (rev cs) n"

text \<open>
  \<open>s.replace(re, rep)\<close> with the \<open>g\<close> flag. \<open>st\<close> is the condition on the character before the match,
  which stands for a leading \<open>\\b\<close>.
\<close>

function rx_replace :: "(char option \<Rightarrow> bool) \<Rightarrow> rx \<Rightarrow> string \<Rightarrow> char option \<Rightarrow> string \<Rightarrow> string" where
  "rx_replace st e rep prev [] = []"
| "rx_replace st e rep prev (c # cs) =
     (case (if st prev then rx_match e (c # cs) else []) of
        (_, rest) # _ \<Rightarrow>
          if length rest < length (c # cs)
          then rep @ rx_replace st e rep (Some (last (take (length (c # cs) - length rest) (c # cs)))) rest
          else c # rx_replace st e rep (Some c) cs
      | [] \<Rightarrow> c # rx_replace st e rep (Some c) cs)"
  by pat_completeness auto

termination
  by (relation "measure (\<lambda>(st, e, rep, prev, s). length s)") auto

section \<open>Lemmas\<close>

text \<open>The match a backtracking matcher finds first.\<close>

definition first_match :: "rx \<Rightarrow> string \<Rightarrow> captures \<Rightarrow> string \<Rightarrow> bool" where
  "first_match e s cs rest = (\<exists>ms. rx_match e s = (cs, rest) # ms)"

named_theorems first_match_intros "rules that follow the first path of the matcher"

lemma fm_eps [first_match_intros]: "first_match RxEps s [] s"
  by (simp add: first_match_def)

lemma fm_char [first_match_intros]: "p c \<Longrightarrow> first_match (RxChar p) (c # cs) [] cs"
  by (simp add: first_match_def)

lemma fm_seq:
  "first_match a s c1 s1 \<Longrightarrow> first_match b s1 c2 s2 \<Longrightarrow> first_match (RxSeq a b) s (c1 @ c2) s2"
  by (auto simp: first_match_def)

lemma fm_alt_left: "first_match a s c r \<Longrightarrow> first_match (RxAlt a b) s c r"
  by (auto simp: first_match_def)

lemma fm_opt: "first_match a s c r \<Longrightarrow> first_match (rx_opt a) s c r"
  by (simp add: rx_opt_def fm_alt_left)

lemma fm_cap:
  assumes "first_match a (xs @ r) c r"
  shows "first_match (RxCap n a) (xs @ r) (c @ [(n, xs)]) r"
  using assms by (auto simp: first_match_def)

lemma fm_star_chars:
  assumes "\<forall>c \<in> set xs. p c" "case r of [] \<Rightarrow> True | c # _ \<Rightarrow> \<not> p c"
  shows "first_match (RxStar (RxChar p)) (xs @ r) [] r"
  using assms by (induction xs) (auto simp: first_match_def split: list.splits)

lemma fm_plus_chars:
  assumes "xs \<noteq> []" "\<forall>c \<in> set xs. p c" "case r of [] \<Rightarrow> True | c # _ \<Rightarrow> \<not> p c"
  shows "first_match (rx_plus (RxChar p)) (xs @ r) [] r"
proof -
  from assms obtain x ys where xs: "xs = x # ys" by (cases xs) auto
  have "first_match (RxChar p) (xs @ r) [] (ys @ r)"
    using assms xs by (simp add: fm_char)
  from fm_seq [OF this fm_star_chars [of ys p r]] assms xs show ?thesis by (simp add: rx_plus_def)
qed

lemma fm_lit_i: "map to_lower_char w = map to_lower_char v \<Longrightarrow> first_match (rx_lit_i v) (w @ r) [] r"
proof (induction v arbitrary: w)
  case Nil
  then show ?case by (simp add: rx_lit_i_def fm_eps)
next
  case (Cons c v)
  then obtain d w' where w: "w = d # w'" by (cases w) auto
  show ?case
  proof (cases v)
    case Nil
    with Cons w show ?thesis by (auto simp: rx_lit_i_def intro: fm_char)
  next
    case (Cons c' v')
    have "first_match (RxChar (\<lambda>d. to_lower_char d = to_lower_char c)) (d # w' @ r) [] (w' @ r)"
      using Cons.prems w by (intro fm_char) simp
    from fm_seq [OF this Cons.IH [of w']] Cons.prems w Cons show ?thesis
      by (simp add: rx_lit_i_def)
  qed
qed

lemma rx_exec_first: "first_match e (xs @ r) cs r \<Longrightarrow> rx_exec e (xs @ r) = Some (xs, cs)"
  by (auto simp: first_match_def rx_exec.simps)

end
