(* ===== verification/Json.thy ===== *)
theory Json
  imports Prelude
begin

text \<open>
  JSON values as \<open>JSON.parse\<close> returns them, with the accessors and type tests the gateway uses on
  values of type \<open>unknown\<close>. An object keeps its keys in order; \<open>undefined\<close> is \<open>None\<close>.
\<close>

datatype json =
    JNull
  | JBool bool
  | JNum rat
  | JStr string
  | JArr "json list"
  | JObj "(string \<times> json) list"

fun jget :: "json \<Rightarrow> string \<Rightarrow> json option" where
  "jget (JObj kvs) k = map_of kvs k"
| "jget _ k = None"

fun as_str :: "json option \<Rightarrow> string option" where
  "as_str (Some (JStr s)) = Some s"
| "as_str _ = None"

fun as_num :: "json option \<Rightarrow> rat option" where
  "as_num (Some (JNum n)) = Some n"
| "as_num _ = None"

fun as_bool :: "json option \<Rightarrow> bool option" where
  "as_bool (Some (JBool b)) = Some b"
| "as_bool _ = None"

fun as_arr :: "json option \<Rightarrow> json list option" where
  "as_arr (Some (JArr xs)) = Some xs"
| "as_arr _ = None"

fun as_obj :: "json option \<Rightarrow> (string \<times> json) list option" where
  "as_obj (Some (JObj kvs)) = Some kvs"
| "as_obj _ = None"

fun is_obj :: "json \<Rightarrow> bool" where
  "is_obj (JObj kvs) = True"
| "is_obj _ = False"

text \<open>\<open>Number.isInteger\<close>.\<close>

definition is_integer :: "rat \<Rightarrow> bool" where
  "is_integer r = (of_int \<lfloor>r\<rfloor> = r)"

text \<open>JavaScript truthiness.\<close>

fun truthy :: "json option \<Rightarrow> bool" where
  "truthy None = False"
| "truthy (Some JNull) = False"
| "truthy (Some (JBool b)) = b"
| "truthy (Some (JNum n)) = (n \<noteq> 0)"
| "truthy (Some (JStr s)) = (s \<noteq> [])"
| "truthy (Some (JArr xs)) = True"
| "truthy (Some (JObj kvs)) = True"

definition truthy_str :: "string option \<Rightarrow> bool" where
  "truthy_str s = (case s of None \<Rightarrow> False | Some t \<Rightarrow> t \<noteq> [])"

text \<open>\<open>x || d\<close> on an optional string.\<close>

definition str_or :: "string option \<Rightarrow> string \<Rightarrow> string" where
  "str_or s d = (case s of Some t \<Rightarrow> if t = [] then d else t | None \<Rightarrow> d)"

fun map_filter_opt :: "('a \<Rightarrow> 'b option) \<Rightarrow> 'a list \<Rightarrow> 'b list" where
  "map_filter_opt f [] = []"
| "map_filter_opt f (x # xs) = (case f x of None \<Rightarrow> map_filter_opt f xs | Some y \<Rightarrow> y # map_filter_opt f xs)"

lemma set_map_filter_opt: "set (map_filter_opt f xs) = {y. \<exists>x \<in> set xs. f x = Some y}"
  by (induction xs) (auto split: option.splits)

section \<open>Numbers as text\<close>

text \<open>
  \<open>Number(s)\<close>: \<open>None\<close> is \<open>NaN\<close> (or an infinity, which every caller treats alike). Decimal literals
  with sign, fraction and exponent and the hexadecimal form are read exactly.
\<close>

definition all_digits :: "string \<Rightarrow> bool" where
  "all_digits s = (s \<noteq> [] \<and> list_all is_digit s)"

definition hex_digit :: "char \<Rightarrow> nat option" where
  "hex_digit c = (let n = of_char c :: nat in
     if 48 \<le> n \<and> n \<le> 57 then Some (n - 48)
     else if 97 \<le> n \<and> n \<le> 102 then Some (n - 87)
     else if 65 \<le> n \<and> n \<le> 70 then Some (n - 55) else None)"

fun read_hex :: "nat \<Rightarrow> string \<Rightarrow> nat option" where
  "read_hex acc [] = Some acc"
| "read_hex acc (c # cs) = (case hex_digit c of None \<Rightarrow> None | Some d \<Rightarrow> read_hex (16 * acc + d) cs)"

definition split_at :: "(char \<Rightarrow> bool) \<Rightarrow> string \<Rightarrow> string \<times> string option" where
  "split_at p s = (let a = takeWhile (\<lambda>c. \<not> p c) s in
     (a, if length a < length s then Some (drop (Suc (length a)) s) else None))"

definition strip_sign :: "string \<Rightarrow> int \<times> string" where
  "strip_sign s = (case s of
     c # cs \<Rightarrow> if c = CHR ''-'' then (-1, cs) else if c = CHR ''+'' then (1, cs) else (1, s)
   | [] \<Rightarrow> (1, s))"

definition read_decimal :: "string \<Rightarrow> rat option" where
  "read_decimal s =
     (let (sg, u) = strip_sign s;
          (mant, ex) = split_at (\<lambda>c. c = CHR ''e'' \<or> c = CHR ''E'') u;
          (ip, fp) = split_at (\<lambda>c. c = CHR ''.'') mant;
          f = or_else fp [];
          (esg, eu) = strip_sign (or_else ex ''0'')
      in if list_all is_digit ip \<and> list_all is_digit f \<and> ip @ f \<noteq> [] \<and> all_digits eu
         then (let m = of_nat (read_nat 0 (ip @ f)) / 10 ^ length f; k = read_nat 0 eu
               in Some (of_int sg * (if esg < 0 then m / 10 ^ k else m * 10 ^ k)))
         else None)"

definition js_number :: "string \<Rightarrow> rat option" where
  "js_number s =
     (let t = trim s in
      if t = [] then Some 0
      else if starts_with t ''0x'' \<or> starts_with t ''0X''
      then (if length t > 2 then map_option of_nat (read_hex 0 (drop 2 t)) else None)
      else read_decimal t)"

text \<open>\<open>Number.isSafeInteger\<close>.\<close>

definition is_safe_integer :: "rat \<Rightarrow> bool" where
  "is_safe_integer r = (is_integer r \<and> \<bar>r\<bar> \<le> 9007199254740991)"

lemma digits_trim: "list_all is_digit s \<Longrightarrow> trim s = s"
proof -
  assume d: "list_all is_digit s"
  have ns: "\<not> is_space c" if "is_digit c" for c
    using that by (auto simp: is_digit_def is_space_def Let_def)
  have dw: "dropWhile is_space xs = xs" if "list_all is_digit xs" for xs
    using that ns by (cases xs) auto
  from d have "list_all is_digit (rev s)" by (simp add: list_all_iff)
  with d dw show ?thesis by (simp add: trim_def)
qed

lemma split_at_none: "list_all (\<lambda>c. \<not> p c) s \<Longrightarrow> split_at p s = (s, None)"
  by (simp add: split_at_def Let_def list_all_iff takeWhile_eq_all_conv [THEN iffD2])

lemma read_decimal_digits:
  assumes "all_digits s"
  shows "read_decimal s = Some (of_nat (read_nat 0 s))"
proof -
  from assms obtain c cs where s: "s = c # cs" "is_digit c" by (cases s) (auto simp: all_digits_def)
  then have sg: "strip_sign s = (1, s)" by (auto simp: strip_sign_def is_digit_def)
  have n: "list_all (\<lambda>c. \<not> (c = CHR ''e'' \<or> c = CHR ''E'')) s" "list_all (\<lambda>c. \<not> c = CHR ''.'') s"
    using assms by (auto simp: all_digits_def list_all_iff is_digit_def)
  have z: "strip_sign ''0'' = (1, ''0'')" "is_digit (CHR ''0'')" by (simp_all add: strip_sign_def is_digit_def)
  show ?thesis
    using assms by (simp add: read_decimal_def sg split_at_none [OF n(1)] split_at_none [OF n(2)] z all_digits_def Let_def)
qed

lemma js_number_show_nat: "js_number (show_nat n) = Some (of_nat n)"
proof -
  have d: "all_digits (show_nat n)" by (auto simp: all_digits_def list_all_iff show_nat_digits)
  then have "\<not> starts_with (show_nat n) ''0x''" "\<not> starts_with (show_nat n) ''0X''"
    by (auto simp: all_digits_def starts_with_iff_prefix prefix_def is_digit_def)
  with d show ?thesis
    by (simp add: js_number_def digits_trim [of "show_nat n"] read_decimal_digits all_digits_def read_show_nat Let_def)
qed

section \<open>\<open>JSON.stringify\<close>\<close>

text \<open>
  Fractions print as their decimal expansion, cut after seventeen places, which is exact for the
  short decimals that occur in requests.
\<close>

fun frac_digits :: "nat \<Rightarrow> rat \<Rightarrow> string" where
  "frac_digits 0 r = []"
| "frac_digits (Suc k) r =
     (if r = 0 then [] else let d = \<lfloor>10 * r\<rfloor> in char_of (48 + nat d) # frac_digits k (10 * r - of_int d))"

definition show_rat :: "rat \<Rightarrow> string" where
  "show_rat r =
     (if is_integer r then show_int \<lfloor>r\<rfloor>
      else let a = \<bar>r\<bar> in (if r < 0 then ''-'' else []) @ show_int \<lfloor>a\<rfloor> @ ''.'' @ frac_digits 17 (a - of_int \<lfloor>a\<rfloor>))"

definition hex_char :: "nat \<Rightarrow> char" where
  "hex_char n = char_of (if n < 10 then 48 + n else 87 + n)"

definition escape_char :: "char \<Rightarrow> string" where
  "escape_char c =
     (if c = CHR 0x22 then [CHR 0x5C, CHR 0x22]
      else if c = CHR 0x5C then [CHR 0x5C, CHR 0x5C]
      else if c = CHR 0x08 then [CHR 0x5C, CHR ''b'']
      else if c = CHR 0x0C then [CHR 0x5C, CHR ''f'']
      else if c = CHR 0x0A then [CHR 0x5C, CHR ''n'']
      else if c = CHR 0x0D then [CHR 0x5C, CHR ''r'']
      else if c = CHR 0x09 then [CHR 0x5C, CHR ''t'']
      else (let n = of_char c :: nat in
        if n < 32 then [CHR 0x5C, CHR ''u'', CHR ''0'', CHR ''0'', hex_char (n div 16), hex_char (n mod 16)] else [c]))"

definition quote :: "string \<Rightarrow> string" where
  "quote s = [CHR 0x22] @ concat (map escape_char s) @ [CHR 0x22]"

fun json_stringify :: "json \<Rightarrow> string" where
  "json_stringify JNull = ''null''"
| "json_stringify (JBool b) = (if b then ''true'' else ''false'')"
| "json_stringify (JNum n) = show_rat n"
| "json_stringify (JStr s) = quote s"
| "json_stringify (JArr xs) = ''['' @ join '','' (map json_stringify xs) @ '']''"
| "json_stringify (JObj kvs) =
     ''{'' @ join '','' (map (\<lambda>kv. quote (fst kv) @ '':'' @ json_stringify (snd kv)) kvs) @ ''}''"

text \<open>
  \<open>String(v)\<close>, the template \<open>${v}\<close> and \<open>join\<close>; a null inside an array prints as the empty string. \<open>None\<close> is the
  \<open>TypeError\<close> the conversion throws for an object that has a \<open>toString\<close> property of its own: no JSON value is
  callable, and the inherited \<open>valueOf\<close> (or a \<open>valueOf\<close> of its own) gives no primitive value.
\<close>

fun js_string :: "json \<Rightarrow> string option" where
  "js_string JNull = Some ''null''"
| "js_string (JBool b) = Some (if b then ''true'' else ''false'')"
| "js_string (JNum n) = Some (show_rat n)"
| "js_string (JStr s) = Some s"
| "js_string (JArr xs) = map_option (join '','') (those (map (\<lambda>x. if x = JNull then Some [] else js_string x) xs))"
| "js_string (JObj kvs) = (if map_of kvs ''toString'' = None then Some ''[object Object]'' else None)"

definition js_string_opt :: "json option \<Rightarrow> string option" where
  "js_string_opt v = (case v of None \<Rightarrow> Some ''undefined'' | Some j \<Rightarrow> js_string j)"

text \<open>The message of that \<open>TypeError\<close>, and the values it is thrown for.\<close>

definition no_primitive :: string where
  "no_primitive = ''Cannot convert object to primitive value''"

definition unprintable :: "json option \<Rightarrow> bool" where
  "unprintable v = (js_string_opt v = None)"

lemma js_string_opt_unprintable: "js_string_opt v = None \<longleftrightarrow> unprintable v"
  by (simp add: unprintable_def)

lemma unprintable_simps [simp]:
  "\<not> unprintable None" "\<not> unprintable (Some JNull)" "\<not> unprintable (Some (JBool b))" "\<not> unprintable (Some (JNum n))"
  "\<not> unprintable (Some (JStr s))" "unprintable (Some (JObj kvs)) \<longleftrightarrow> map_of kvs ''toString'' \<noteq> None"
  by (simp_all add: unprintable_def js_string_opt_def)

lemma those_None: "those xs = None \<longleftrightarrow> None \<in> set xs"
  by (induction xs) (auto split: option.splits)

lemma unprintable_array [simp]: "unprintable (Some (JArr xs)) \<longleftrightarrow> (\<exists>x \<in> set xs. unprintable (Some x))"
proof -
  have "(\<exists>x \<in> set xs. (if x = JNull then Some [] else js_string x) = None) \<longleftrightarrow> (\<exists>x \<in> set xs. js_string x = None)"
    by (intro bex_cong) auto
  then show ?thesis
    unfolding unprintable_def js_string_opt_def option.case js_string.simps option.map_disc_iff those_None set_map image_iff
      eq_commute [of None] .
qed

text \<open>\<open>v !== null && typeof v === 'object'\<close>: arrays are objects.\<close>

fun is_object :: "json option \<Rightarrow> bool" where
  "is_object (Some (JObj kvs)) = True"
| "is_object (Some (JArr xs)) = True"
| "is_object _ = False"

end
