(* ===== verification/Types.thy ===== *)
theory Types
  imports Regex Json
begin

text \<open>
  The shared vocabulary: \<open>src/common/types.ts\<close> (error codes, the normalized agy events, the
  classifiers of failure texts), \<open>src/host/stream-types.ts\<close> (the streaming protocol between the
  engine and the protocol adapters) and the model families of \<open>src/common/pool-types.ts\<close>.

  Token counts are JSON numbers, hence exact rationals. \<open>Date.parse\<close> is the parameter \<open>dparse\<close> of
  the definitions that use it, \<open>None\<close> standing for \<open>NaN\<close>; \<open>now\<close> is the clock reading.
\<close>

section \<open>Error codes and failures\<close>

datatype err_code =
    AUTH | AGY_NOT_INSTALLED | AGY_VERSION_UNSUPPORTED | AGY_ERROR | TIMEOUT | PROCESS_EXIT
  | INVALID_OUTPUT | UNKNOWN_MODEL | UNSUPPORTED_REASONING_EFFORT | BUSY | POOL_EXHAUSTED
  | VALIDATION_REQUIRED | MODEL_NOT_ALLOWED | ABORTED | OTHER_CODE string

record llm_failure =
  message :: string
  code :: err_code
  status :: "int option"
  providerRetryAfterMs :: "ms option"
  requestId :: "string option"

definition failure :: "string \<Rightarrow> err_code \<Rightarrow> llm_failure" where
  "failure msg c = \<lparr>message = msg, code = c, status = None, providerRetryAfterMs = None, requestId = None\<rparr>"

section \<open>The streaming protocol\<close>

datatype content_block =
    TextBlock string
  | ReasoningBlock string
  | ToolCallBlock string string string
  | ToolResultBlock string "content_block list" "bool option"

datatype finish_reason =
    FStop
  | FToolCalls
  | FMaxTokens
  | FAborted llm_failure
  | FError llm_failure

record token_usage =
  inputTokens :: rat
  outputTokens :: rat
  cacheReadTokens :: "rat option"
  cacheWriteTokens :: "rat option"
  reasoningTokens :: "rat option"

datatype block_type = BText | BReasoning | BToolCall

datatype stream_chunk =
    BlockStart nat block_type
  | TextDelta nat string
  | ReasoningDelta nat string
  | BlockEnd nat content_block
  | UsageChunk token_usage
  | Finish finish_reason "string option"

section \<open>Agy events\<close>

record raw_usage =
  input_tokens :: "rat option"
  output_tokens :: "rat option"
  thinking_tokens :: "rat option"
  cache_read_tokens :: "rat option"
  cache_write_tokens :: "rat option"
  total_tokens :: "rat option"

definition no_usage :: raw_usage where
  "no_usage = \<lparr>input_tokens = None, output_tokens = None, thinking_tokens = None,
     cache_read_tokens = None, cache_write_tokens = None, total_tokens = None\<rparr>"

datatype agy_step_kind = KText | KThinking | KTool | KTitle | KSubagent | KUserInput | KUnknown

record agy_tool_info =
  tool_name :: string
  tool_args :: "json option"
  tool_output :: "json option"
  tool_error :: "string option"

record step_event =
  stepKey :: string
  stepKind :: agy_step_kind
  step_text :: string
  fragment :: bool
  tool :: "agy_tool_info option"
  step_state :: "string option"
  step_usage :: "raw_usage option"

record result_event =
  res_conversationId :: string
  res_ok :: bool
  response :: string
  res_error :: "string option"
  res_usage :: raw_usage

datatype agy_event =
    InitEvent "string option" "string option"
  | StepEvent step_event
  | ResultEvent result_event
  | GarbageEvent string

section \<open>Classifying failure texts\<close>

definition re_auth_failure :: rx where
  "re_auth_failure = rx_alts (map rx_lit_i [''authentication required'', ''authentication failed'',
     ''please sign in'', ''not signed in'', ''timed out waiting for authentication''])"

definition looksLikeAuthFailure :: "string \<Rightarrow> bool" where
  "looksLikeAuthFailure t = rx_test re_auth_failure t"

text \<open>\<open>m[0].replace(/[...]+$/, '')\<close>: trailing punctuation removed.\<close>

definition trim_trailing :: "(char \<Rightarrow> bool) \<Rightarrow> string \<Rightarrow> string" where
  "trim_trailing p s = rev (dropWhile p (rev s))"

definition extractAuthUrl :: "string \<Rightarrow> string option" where
  "extractAuthUrl t =
     map_option (\<lambda>(m, _). trim_trailing (\<lambda>c. c \<in> set '')]>.,;'' \<or> c = CHR 0x27 \<or> c = CHR 0x22) m)
       (rx_exec (RxSeq (rx_lit ''https://accounts.google.com/'') (rx_plus (RxChar (\<lambda>c. \<not> is_space c)))) t)"

definition re_code_429 :: "string \<Rightarrow> rx" where
  "re_code_429 w = rx_seqs [rx_lit_i w, rx_opt (RxChar (\<lambda>c. c = CHR '' '' \<or> c = CHR '':'')), rx_lit ''429'', RxWordEnd]"

definition re_hard_rate_limit :: rx where
  "re_hard_rate_limit = rx_alts
     [rx_lit_i ''RESOURCE_EXHAUSTED'', re_code_429 ''code'', re_code_429 ''status'', re_code_429 ''HTTP'',
      rx_lit_i ''too many requests'', rx_lit_i ''individual quota reached'',
      RxSeq (rx_lit_i ''quota '') (rx_alts (map rx_lit_i [''exceeded'', ''reached'', ''exhausted''])),
      rx_seqs [rx_lit_i ''rate'', rx_opt (RxChar (\<lambda>c. c = CHR '' '' \<or> c = CHR ''-'')), rx_lit_i ''limit'',
        rx_opt (rx_lit_i ''ed''), rx_lit_i '' '', rx_alts (map rx_lit_i [''exceeded'', ''reached'', ''hit''])],
      rx_seqs [rx_lit_i ''exceeded '', rx_opt (rx_alts (map rx_lit_i [''your '', ''the ''])), rx_lit_i ''quota'']]"

definition looksLikeHardRateLimit :: "string option \<Rightarrow> bool" where
  "looksLikeHardRateLimit t =
     (case t of None \<Rightarrow> False | Some s \<Rightarrow> if s = [] then False else rx_test re_hard_rate_limit s)"

definition looksLikeRateLimit :: "string option \<Rightarrow> bool" where
  "looksLikeRateLimit t =
     (case t of None \<Rightarrow> False
      | Some s \<Rightarrow> if s = [] then False
          else looksLikeHardRateLimit t \<or>
            rx_test (rx_alts (map rx_lit_i [''model overloaded'', ''experiencing high traffic''])) s)"

definition looksLikeValidationRequired :: "string option \<Rightarrow> bool" where
  "looksLikeValidationRequired t =
     (case t of None \<Rightarrow> False | Some s \<Rightarrow> s \<noteq> [] \<and> rx_test (rx_lit_i ''VALIDATION_REQUIRED'') s)"

definition url_char :: "char \<Rightarrow> bool" where
  "url_char c = (\<not> is_space c \<and> c \<notin> {CHR 0x22, CHR 0x27, CHR 0x60, CHR ''<'', CHR ''>'', CHR 0x5C})"

definition extractValidationUrl :: "string option \<Rightarrow> string option" where
  "extractValidationUrl t =
     (case t of None \<Rightarrow> None
      | Some s \<Rightarrow> if \<not> looksLikeValidationRequired t then None
          else map_option (\<lambda>(m, _). trim_trailing (\<lambda>c. c \<in> set '')]>.,;'') m)
            (rx_exec (RxSeq (rx_lit ''https://'') (rx_plus (RxChar url_char))) s))"

section \<open>Reset durations\<close>

definition rx_spaces :: rx where
  "rx_spaces = RxStar (RxChar is_space)"

definition rx_digits :: rx where
  "rx_digits = rx_plus (RxChar is_digit)"

definition re_resets_in :: rx where
  "re_resets_in = rx_seqs [rx_lit_i ''reset'', rx_opt (rx_lit_i ''s''), rx_plus (RxChar is_space), rx_lit_i ''in'',
     rx_plus (RxChar is_space)]"

definition re_unit :: "nat \<Rightarrow> string \<Rightarrow> rx" where
  "re_unit n u = rx_opt (rx_seqs [RxCap n rx_digits, rx_spaces, rx_lit_i u])"

definition re_compact :: rx where
  "re_compact = RxSeq re_resets_in (RxCap 1 (rx_seqs [re_unit 2 ''h'', rx_spaces, re_unit 3 ''m'', rx_spaces, re_unit 4 ''s'']))"

definition re_word :: rx where
  "re_word = rx_seqs [RxAlt (RxSeq (rx_lit_i ''reset'') (rx_opt (rx_lit_i ''s''))) (rx_lit_i ''retry''),
     rx_plus (RxChar is_space), RxAlt (rx_lit_i ''in'') (rx_lit_i ''after''), rx_plus (RxChar is_space),
     RxCap 1 rx_digits, rx_spaces,
     RxCap 2 (rx_alts (map rx_lit_i [''hour'', ''hr'', ''minute'', ''min'', ''second'', ''sec''])),
     rx_opt (rx_lit_i ''s'')]"

definition re_iso :: rx where
  "re_iso = (let d = RxChar is_digit in rx_seqs
     [rx_times 4 d, rx_lit ''-'', rx_times 2 d, rx_lit ''-'', rx_times 2 d, rx_lit ''T'',
      rx_times 2 d, rx_lit '':'', rx_times 2 d, rx_lit '':'', rx_times 2 d,
      rx_opt (RxSeq (rx_lit ''.'') (rx_plus d)),
      RxAlt (rx_lit ''Z'') (rx_seqs [RxChar (\<lambda>c. c = CHR ''+'' \<or> c = CHR ''-''), rx_times 2 d, rx_lit '':'', rx_times 2 d])])"

text \<open>\<open>parseInt(group || '0', 10)\<close> for a group of digits.\<close>

definition group_int :: "captures \<Rightarrow> nat \<Rightarrow> int" where
  "group_int cs n = int (read_nat 0 (str_or (capture cs n) ''0''))"

definition compact_ms :: "string \<Rightarrow> ms option" where
  "compact_ms t =
     (case rx_exec re_compact t of
        None \<Rightarrow> None
      | Some (_, cs) \<Rightarrow>
          if truthy_str (map_option trim (capture cs 1)) then
            (let totalMs = (group_int cs 2 * 3600 + group_int cs 3 * 60 + group_int cs 4) * 1000
             in if totalMs > 0 then Some totalMs else None)
          else None)"

definition word_ms :: "string \<Rightarrow> ms option" where
  "word_ms t =
     (case rx_exec re_word t of
        None \<Rightarrow> None
      | Some (_, cs) \<Rightarrow>
          (let num = group_int cs 1; u = to_lower (str_or (capture cs 2) [])
           in if starts_with u ''h'' then Some (num * 3600 * 1000)
              else if starts_with u ''m'' then Some (num * 60 * 1000)
              else if starts_with u ''s'' then Some (num * 1000) else None))"

definition parseResetDurationMs :: "(string \<Rightarrow> ms option) \<Rightarrow> ms \<Rightarrow> string option \<Rightarrow> ms option" where
  "parseResetDurationMs dparse now t =
     (case t of None \<Rightarrow> None
      | Some s \<Rightarrow>
          if s = [] then None
          else case compact_ms s of Some r \<Rightarrow> Some r
          | None \<Rightarrow>
              (case word_ms s of Some r \<Rightarrow> Some r
               | None \<Rightarrow>
                   (case rx_exec re_iso s of
                      None \<Rightarrow> None
                    | Some (m, _) \<Rightarrow>
                        (case dparse m of
                           None \<Rightarrow> None
                         | Some p \<Rightarrow> if p > now then Some (p - now) else None))))"

section \<open>Model families\<close>

datatype model_family = Google | Anthropic | Openai | UnknownFamily

definition modelFamilyOf :: "string option \<Rightarrow> model_family" where
  "modelFamilyOf modelId =
     (if \<not> truthy_str modelId then UnknownFamily
      else let i = to_lower (or_else modelId [])
        in if starts_with i ''claude-'' \<or> str_includes i ''claude'' then Anthropic
           else if starts_with i ''gemini-'' \<or> starts_with i ''gemma-'' \<or> str_includes i ''gemini'' then Google
           else if starts_with i ''gpt-'' \<or> starts_with i ''openai/'' \<or> str_includes i ''gpt-oss'' then Openai
           else UnknownFamily)"

lemma UNIV_model_family: "UNIV = {Google, Anthropic, Openai, UnknownFamily}"
  by (auto intro: model_family.exhaust)

instantiation model_family :: enum
begin

definition enum_model_family :: "model_family list" where
  "enum_model_family = [Google, Anthropic, Openai, UnknownFamily]"

definition enum_all_model_family :: "(model_family \<Rightarrow> bool) \<Rightarrow> bool" where
  "enum_all_model_family P \<longleftrightarrow> P Google \<and> P Anthropic \<and> P Openai \<and> P UnknownFamily"

definition enum_ex_model_family :: "(model_family \<Rightarrow> bool) \<Rightarrow> bool" where
  "enum_ex_model_family P \<longleftrightarrow> P Google \<or> P Anthropic \<or> P Openai \<or> P UnknownFamily"

instance
  by standard (auto simp: enum_model_family_def enum_all_model_family_def enum_ex_model_family_def
      UNIV_model_family)

end

lemma parseResetDurationMs_nonneg:
  "parseResetDurationMs dparse now t = Some r \<Longrightarrow> 0 \<le> r"
  by (auto simp: parseResetDurationMs_def compact_ms_def word_ms_def group_int_def Let_def
      split: option.splits if_splits prod.splits)

section \<open>Compact durations read back\<close>

definition show_compact :: "nat \<Rightarrow> nat \<Rightarrow> nat \<Rightarrow> string" where
  "show_compact h m s = show_nat h @ ''h'' @ show_nat m @ ''m'' @ show_nat s @ ''s''"

lemma fm_digits:
  assumes "case r of [] \<Rightarrow> True | c # _ \<Rightarrow> \<not> is_digit c"
  shows "first_match rx_digits (show_nat n @ r) [] r"
  unfolding rx_digits_def using assms by (intro fm_plus_chars) (auto simp: show_nat_digits)

lemma fm_unit:
  assumes "to_lower_char c = to_lower_char u" "\<not> is_digit c" "\<not> is_space c"
  shows "first_match (re_unit n [u]) (show_nat k @ c # r) [(n, show_nat k)] r"
proof -
  have a: "first_match (RxCap n rx_digits) (show_nat k @ c # r) ([] @ [(n, show_nat k)]) (c # r)"
    using assms by (intro fm_cap fm_digits) simp
  have b: "first_match rx_spaces (c # r) [] (c # r)"
    unfolding rx_spaces_def using fm_star_chars [of "[]" is_space "c # r"] assms by simp
  have c: "first_match (rx_lit_i [u]) (c # r) [] r"
    using fm_lit_i [of "[c]" "[u]" r] assms by simp
  from fm_seq [OF a fm_seq [OF b c]] show ?thesis by (simp add: re_unit_def fm_opt)
qed

lemma digit_not_space: "is_digit c \<Longrightarrow> \<not> is_space c"
  by (auto simp: is_digit_def is_space_def Let_def)

lemma fm_no_spaces: "first_match rx_spaces (show_nat k @ r) [] (show_nat k @ r)"
proof -
  obtain c cs where c: "show_nat k = c # cs" by (cases "show_nat k") auto
  then have "\<not> is_space c" using show_nat_digits [of c k] digit_not_space by auto
  with fm_star_chars [of "[]" is_space "show_nat k @ r"] c show ?thesis by (simp add: rx_spaces_def)
qed

lemma fm_compact_body:
  "first_match (rx_seqs [re_unit 2 ''h'', rx_spaces, re_unit 3 ''m'', rx_spaces, re_unit 4 ''s''])
     (show_compact h m s @ r) [(2, show_nat h), (3, show_nat m), (4, show_nat s)] r"
proof -
  have h: "first_match (re_unit 2 ''h'') (show_nat h @ CHR ''h'' # x) [(2, show_nat h)] x" for x
    by (rule fm_unit) (simp_all add: is_digit_def is_space_def)
  have m: "first_match (re_unit 3 ''m'') (show_nat m @ CHR ''m'' # x) [(3, show_nat m)] x" for x
    by (rule fm_unit) (simp_all add: is_digit_def is_space_def)
  have s: "first_match (re_unit 4 ''s'') (show_nat s @ CHR ''s'' # x) [(4, show_nat s)] x" for x
    by (rule fm_unit) (simp_all add: is_digit_def is_space_def)
  from fm_seq [OF h fm_seq [OF fm_no_spaces fm_seq [OF m fm_seq [OF fm_no_spaces s]]]]
  show ?thesis by (simp add: show_compact_def)
qed

lemma fm_resets_in:
  assumes "d = show_compact h m s"
  shows "first_match re_resets_in (''Resets in '' @ d @ r) [] (d @ r)"
proof -
  obtain c cs where c: "d = c # cs" "is_digit c"
    using assms show_nat_digits [of _ h] by (cases "show_nat h") (auto simp: show_compact_def)
  have sp: "first_match (rx_plus (RxChar is_space)) ('' '' @ x) [] x" if "case x of [] \<Rightarrow> True | c # _ \<Rightarrow> \<not> is_space c" for x
    using that by (intro fm_plus_chars) (simp_all add: is_space_def)
  have 1: "first_match (rx_lit_i ''reset'') (''Reset'' @ x) [] x" for x
    by (rule fm_lit_i) code_simp
  have 2: "first_match (rx_opt (rx_lit_i ''s'')) (''s'' @ x) [] x" for x
    by (intro fm_opt fm_lit_i) simp
  have 3: "first_match (rx_lit_i ''in'') (''in'' @ x) [] x" for x
    by (rule fm_lit_i) simp
  have 4: "first_match (rx_plus (RxChar is_space)) ('' '' @ ''in'' @ x) [] (''in'' @ x)" for x
    by (rule sp) (simp add: is_space_def)
  have 5: "first_match (rx_plus (RxChar is_space)) ('' '' @ d @ r) [] (d @ r)"
    by (rule sp) (simp add: c digit_not_space)
  from fm_seq [OF 1 fm_seq [OF 2 fm_seq [OF 4 fm_seq [OF 3 5]]]] show ?thesis
    by (simp add: re_resets_in_def)
qed

lemma compact_ms_show:
  assumes "0 < h + m + s"
  shows "compact_ms (''Resets in '' @ show_compact h m s @ r) = Some ((int h * 3600 + int m * 60 + int s) * 1000)"
proof -
  let ?d = "show_compact h m s"
  let ?cs = "[(2, show_nat h), (3, show_nat m), (4, show_nat s)] @ [(1, ?d)]"
  have "first_match (RxCap 1 (rx_seqs [re_unit 2 ''h'', rx_spaces, re_unit 3 ''m'', rx_spaces, re_unit 4 ''s'']))
      (?d @ r) ?cs r"
    by (rule fm_cap) (rule fm_compact_body)
  from fm_seq [OF fm_resets_in [OF refl] this] have "first_match re_compact ((''Resets in '' @ ?d) @ r) ?cs r"
    by (simp add: re_compact_def)
  from rx_exec_first [OF this] have x: "rx_exec re_compact (''Resets in '' @ ?d @ r) = Some (''Resets in '' @ ?d, ?cs)"
    by simp
  have "trim ?d \<noteq> []"
  proof -
    obtain c cs where c: "?d = c # cs" "is_digit c"
      using show_nat_digits [of _ h] by (cases "show_nat h") (auto simp: show_compact_def)
    then have "dropWhile is_space ?d = c # cs" by (simp add: digit_not_space)
    moreover have "dropWhile is_space (rev (c # cs)) \<noteq> []"
      using c(2) digit_not_space by (auto simp: dropWhile_eq_Nil_conv)
    ultimately show ?thesis by (simp add: trim_def del: rev.simps)
  qed
  moreover have "group_int ?cs 2 = int h" "group_int ?cs 3 = int m" "group_int ?cs 4 = int s"
    by (simp_all add: group_int_def capture_def str_or_def read_show_nat)
  moreover have "capture ?cs 1 = Some ?d" by (simp add: capture_def)
  moreover have "(int h * 3600 + int m * 60 + int s) * 1000 > 0"
  proof -
    have "0 < int (h + m + s)" using assms by (simp only: of_nat_0_less_iff)
    then have "0 < int h * 3600 + int m * 60 + int s"
      using of_nat_0_le_iff [of h, where 'a = int] of_nat_0_le_iff [of m, where 'a = int]
        of_nat_0_le_iff [of s, where 'a = int] by linarith
    then show ?thesis by simp
  qed
  ultimately show ?thesis
    unfolding compact_ms_def x by (simp only: option.case prod.case option.map truthy_str_def Let_def) simp
qed

text \<open>
  A compact reset notice reads back exactly: for any hours, minutes and seconds not all zero and
  any continuation of the message, the text "Resets in \<open>h\<close>h\<open>m\<close>m\<open>s\<close>s" parses to that many
  milliseconds, whatever the clock and the date parser say.
\<close>

lemma parseResetDurationMs_compact:
  assumes "0 < h + m + s"
  shows "parseResetDurationMs dparse now (Some (''Resets in '' @ show_compact h m s @ rest)) =
    Some ((int h * 3600 + int m * 60 + int s) * 1000)"
  using compact_ms_show [OF assms, of rest] by (simp add: parseResetDurationMs_def)


end
