(* ===== verification/Config.thy ===== *)
theory Config
  imports Types
begin

text \<open>
  Configuration, \<open>src/common/config.ts\<close> and the configuration part of \<open>src/common/types.ts\<close>: the layering
  environment over overrides file over defaults, and the two memos that keep the hot path from reading the
  file. Numbers are exact rationals. The overrides file is one entry of a file system \<open>disk\<close>: what \<open>statSync\<close>
  reports and what reading returns; \<open>jparse\<close> is \<open>JSON.parse\<close>.
\<close>

section \<open>Data\<close>

datatype permission_mode = Skip | Plan | AcceptEdits

text \<open>
  A fallback model as the catalog reads it: a name that is not a string is \<open>None\<close>, and the efforts keep
  what the array held.
\<close>

record fallback_def =
  def_id :: string
  def_name :: "string option"
  def_efforts :: "json list option"

record gateway_config =
  cfg_enabled :: bool
  agyBin :: string
  extraArgs :: "string list"
  permissionMode :: permission_mode
  defaultModel :: string
  defaultEffort :: string
  timeoutMs :: rat
  maxConcurrent :: rat
  maxQueueDepth :: rat
  contextWindowDefault :: rat
  maxTokensDefault :: rat
  modelsCacheTtlMs :: rat
  mediaDir :: string
  mediaTtlMs :: rat
  mediaMaxBytes :: rat
  mediaMaxImages :: rat
  workspaceRoot :: string
  fallbackModels :: "fallback_def list"
  rateLimitPerMinute :: rat
  autoFallbackModel :: bool
  logRetentionDays :: rat
  quotaPollIntervalMs :: rat
  disableTelemetry :: bool
  cfg_dataDir :: string
  cfg_port :: rat
  cfg_host :: string
  adminAllowCidr :: string
  adminPassword :: string
  trustedProxies :: string
  apiKey :: string
  sseHeartbeatMs :: rat
  dbPath :: string
  adminSessionTtlMs :: rat
  shutdownGraceMs :: rat
  webDist :: string
  debugMetricsMs :: rat
  usageRetentionDays :: rat

definition fallback_model :: "string \<Rightarrow> string \<Rightarrow> string list option \<Rightarrow> fallback_def" where
  "fallback_model i n es = \<lparr>def_id = i, def_name = Some n, def_efforts = map_option (map JStr) es\<rparr>"

definition DEFAULT_FALLBACK_MODELS :: "fallback_def list" where
  "DEFAULT_FALLBACK_MODELS =
     [fallback_model ''gemini-3.8-flash'' ''Gemini 3.8 Flash'' (Some [''low'', ''medium'', ''high'']),
      fallback_model ''gemini-3.7-flash'' ''Gemini 3.7 Flash'' (Some [''low'', ''medium'', ''high'']),
      fallback_model ''gemini-3.6-flash'' ''Gemini 3.6 Flash'' (Some [''low'', ''medium'', ''high'']),
      fallback_model ''gemini-3.5-flash'' ''Gemini 3.5 Flash'' (Some [''low'', ''medium'', ''high'']),
      fallback_model ''gemini-3.1-pro'' ''Gemini 3.1 Pro'' (Some [''low'', ''high'']),
      fallback_model ''claude-sonnet-4-6'' ''Claude Sonnet 4.6 (Thinking)'' None,
      fallback_model ''claude-opus-4-6-thinking'' ''Claude Opus 4.6 (Thinking)'' None,
      fallback_model ''gpt-oss-120b-medium'' ''GPT-OSS 120B (Medium)'' None]"

definition defaultConfig :: gateway_config where
  "defaultConfig =
     \<lparr>cfg_enabled = True, agyBin = [], extraArgs = [], permissionMode = Plan, defaultModel = [], defaultEffort = [],
      timeoutMs = 600000, maxConcurrent = 3, maxQueueDepth = 64, contextWindowDefault = 1048576,
      maxTokensDefault = 65536, modelsCacheTtlMs = 300000, mediaDir = [], mediaTtlMs = 86400000,
      mediaMaxBytes = 10 * 1024 * 1024, mediaMaxImages = 8, workspaceRoot = [],
      fallbackModels = DEFAULT_FALLBACK_MODELS, rateLimitPerMinute = 0, autoFallbackModel = False,
      logRetentionDays = 7, quotaPollIntervalMs = 15 * 60000, disableTelemetry = True, cfg_dataDir = [],
      cfg_port = 8080, cfg_host = ''0.0.0.0'', adminAllowCidr = [], adminPassword = [], trustedProxies = [],
      apiKey = [], sseHeartbeatMs = 60000, dbPath = [], adminSessionTtlMs = 7 * 86400000,
      shutdownGraceMs = 25000, webDist = [], debugMetricsMs = 0, usageRetentionDays = 0\<rparr>"

section \<open>Coercions\<close>

type_synonym env = "string \<Rightarrow> string option"

fun asString :: "json option \<Rightarrow> string option" where
  "asString (Some (JStr s)) = Some s"
| "asString _ = None"

fun asBool :: "json option \<Rightarrow> bool option" where
  "asBool (Some (JBool b)) = Some b"
| "asBool (Some (JStr s)) =
     (if s = ''true'' \<or> s = ''1'' then Some True else if s = ''false'' \<or> s = ''0'' then Some False else None)"
| "asBool _ = None"

fun asNum :: "json option \<Rightarrow> rat option" where
  "asNum (Some (JNum n)) = Some n"
| "asNum (Some (JStr s)) = (if trim s \<noteq> [] then js_number s else None)"
| "asNum _ = None"

definition accept :: "('a \<Rightarrow> bool) \<Rightarrow> 'a option \<Rightarrow> 'a option" where
  "accept p v = (case v of Some n \<Rightarrow> if p n then Some n else None | None \<Rightarrow> None)"

definition asGraceMs :: "json option \<Rightarrow> rat option" where
  "asGraceMs v = accept (\<lambda>n. n \<ge> 1000) (asNum v)"

definition asMaxTokensFloor :: "json option \<Rightarrow> rat option" where
  "asMaxTokensFloor v = accept (\<lambda>n. is_integer n \<and> n \<ge> 0) (asNum v)"

fun show_mode :: "permission_mode \<Rightarrow> string" where
  "show_mode Skip = ''skip''"
| "show_mode Plan = ''plan''"
| "show_mode AcceptEdits = ''accept-edits''"

definition MODES :: "permission_mode list" where
  "MODES = [Skip, Plan, AcceptEdits]"

fun asMode :: "json option \<Rightarrow> permission_mode option" where
  "asMode (Some (JStr s)) = find (\<lambda>m. show_mode m = s) MODES"
| "asMode _ = None"

definition env_json :: "env \<Rightarrow> string \<Rightarrow> json option" where
  "env_json env k = map_option JStr (env k)"

section \<open>Layering\<close>

type_synonym overrides_file = "(string \<times> json) list"

definition get_override :: "overrides_file \<Rightarrow> string \<Rightarrow> json option" where
  "get_override ov k =
     (case map_of ov k of Some v \<Rightarrow> if v = JNull \<or> v = JStr [] then None else Some v | None \<Rightarrow> None)"

definition fallback_of_json :: "json \<Rightarrow> fallback_def option" where
  "fallback_of_json x =
     (case as_str (jget x ''id'') of
        Some i \<Rightarrow> Some \<lparr>def_id = i, def_name = as_str (jget x ''name''), def_efforts = as_arr (jget x ''efforts'')\<rparr>
      | None \<Rightarrow> None)"

definition buildBase :: "overrides_file \<Rightarrow> gateway_config" where
  "buildBase ov =
     (let base = defaultConfig; g = get_override ov
      in \<lparr>cfg_enabled = or_else (asBool (g ''enabled'')) (cfg_enabled base),
          agyBin = or_else (asString (g ''agyBin'')) (agyBin base),
          extraArgs = (case as_arr (g ''extraArgs'') of
             Some xs \<Rightarrow> map_filter_opt (\<lambda>x. as_str (Some x)) xs | None \<Rightarrow> extraArgs base),
          permissionMode = or_else (asMode (g ''permissionMode'')) (permissionMode base),
          defaultModel = or_else (asString (g ''defaultModel'')) (defaultModel base),
          defaultEffort = or_else (asString (g ''defaultEffort'')) (defaultEffort base),
          timeoutMs = or_else (asNum (g ''timeoutMs'')) (timeoutMs base),
          maxConcurrent = or_else (asNum (g ''maxConcurrent'')) (maxConcurrent base),
          maxQueueDepth = or_else (asNum (g ''maxQueueDepth'')) (maxQueueDepth base),
          contextWindowDefault = or_else (asNum (g ''contextWindowDefault'')) (contextWindowDefault base),
          maxTokensDefault = or_else (asMaxTokensFloor (g ''maxTokensDefault'')) (maxTokensDefault base),
          modelsCacheTtlMs = or_else (asNum (g ''modelsCacheTtlMs'')) (modelsCacheTtlMs base),
          mediaDir = or_else (asString (g ''mediaDir'')) (mediaDir base),
          mediaTtlMs = or_else (asNum (g ''mediaTtlMs'')) (mediaTtlMs base),
          mediaMaxBytes = or_else (asNum (g ''mediaMaxBytes'')) (mediaMaxBytes base),
          mediaMaxImages = or_else (asNum (g ''mediaMaxImages'')) (mediaMaxImages base),
          workspaceRoot = or_else (asString (g ''workspaceRoot'')) (workspaceRoot base),
          fallbackModels = (case as_arr (g ''fallbackModels'') of
             Some xs \<Rightarrow> map_filter_opt fallback_of_json xs | None \<Rightarrow> fallbackModels base),
          rateLimitPerMinute = or_else (asNum (g ''rateLimitPerMinute'')) (rateLimitPerMinute base),
          autoFallbackModel = or_else (asBool (g ''autoFallbackModel'')) (autoFallbackModel base),
          logRetentionDays = or_else (asNum (g ''logRetentionDays'')) (logRetentionDays base),
          quotaPollIntervalMs = or_else (asNum (g ''quotaPollIntervalMs'')) (quotaPollIntervalMs base),
          disableTelemetry = or_else (asBool (g ''disableTelemetry'')) (disableTelemetry base),
          cfg_dataDir = or_else (asString (g ''dataDir'')) (cfg_dataDir base),
          cfg_port = or_else (asNum (g ''port'')) (cfg_port base),
          cfg_host = or_else (asString (g ''host'')) (cfg_host base),
          adminAllowCidr = or_else (asString (g ''adminAllowCidr'')) (adminAllowCidr base),
          adminPassword = or_else (asString (g ''adminPassword'')) (adminPassword base),
          trustedProxies = or_else (asString (g ''trustedProxies'')) (trustedProxies base),
          apiKey = apiKey base,
          sseHeartbeatMs = sseHeartbeatMs base,
          dbPath = or_else (asString (g ''dbPath'')) (dbPath base),
          adminSessionTtlMs = or_else (asNum (g ''adminSessionTtlMs'')) (adminSessionTtlMs base),
          shutdownGraceMs = or_else (asGraceMs (g ''shutdownGraceMs'')) (shutdownGraceMs base),
          webDist = or_else (asString (g ''webDist'')) (webDist base),
          debugMetricsMs = debugMetricsMs base,
          usageRetentionDays = or_else (asNum (g ''usageRetentionDays'')) (usageRetentionDays base)\<rparr>)"

text \<open>
  The environment layer. \<open>num p k\<close> is the value of variable \<open>k\<close> when it is a number the guard \<open>p\<close> accepts;
  an empty variable is no number, so the truthiness test and the test against \<open>undefined\<close> agree on it.
\<close>

definition applyEnv :: "gateway_config \<Rightarrow> env \<Rightarrow> gateway_config" where
  "applyEnv cfg env =
     (let num = (\<lambda>p k. accept p (asNum (env_json env k)));
          bln = (\<lambda>k. asBool (env_json env k));
          mode1 = (if truthy_str (env ''AGY_PROXY_MODE'')
                   then or_else (asMode (env_json env ''AGY_PROXY_MODE'')) (permissionMode cfg) else permissionMode cfg);
          mode2 = (case bln ''AGY_PROXY_SKIP_PERMISSIONS'' of
                     Some skip \<Rightarrow> if skip then Skip else Plan | None \<Rightarrow> mode1)
      in cfg\<lparr>cfg_enabled := or_else (bln ''AGY_PROXY_ENABLED'') (cfg_enabled cfg),
             agyBin := str_or (env ''AGY_PROXY_BIN'') (agyBin cfg),
             permissionMode := mode2,
             defaultModel := str_or (env ''AGY_PROXY_DEFAULT_MODEL'') (defaultModel cfg),
             defaultEffort := str_or (env ''AGY_PROXY_DEFAULT_EFFORT'') (defaultEffort cfg),
             timeoutMs := or_else (num (\<lambda>t. t > 0) ''AGY_PROXY_TIMEOUT_MS'') (timeoutMs cfg),
             extraArgs := (if truthy_str (env ''AGY_PROXY_EXTRA_ARGS'')
                then filter (\<lambda>w. w \<noteq> []) (split_on is_space (or_else (env ''AGY_PROXY_EXTRA_ARGS'') []))
                else extraArgs cfg),
             maxConcurrent := or_else (num (\<lambda>c. c \<ge> 1) ''AGY_PROXY_MAX_CONCURRENT'') (maxConcurrent cfg),
             maxQueueDepth := or_else (num (\<lambda>q. q \<ge> 0) ''AGY_PROXY_MAX_QUEUE_DEPTH'') (maxQueueDepth cfg),
             maxTokensDefault :=
               or_else (asMaxTokensFloor (env_json env ''AGY_PROXY_MAX_TOKENS_DEFAULT'')) (maxTokensDefault cfg),
             workspaceRoot := str_or (env ''AGY_PROXY_WORKSPACE_ROOT'') (workspaceRoot cfg),
             mediaDir := str_or (env ''AGY_PROXY_MEDIA_DIR'') (mediaDir cfg),
             mediaTtlMs := or_else (num (\<lambda>t. t > 0) ''AGY_PROXY_MEDIA_TTL_MS'') (mediaTtlMs cfg),
             rateLimitPerMinute :=
               or_else (num (\<lambda>r. r \<ge> 0) ''AGY_PROXY_RATE_LIMIT_PER_MINUTE'') (rateLimitPerMinute cfg),
             autoFallbackModel := or_else (bln ''AGY_PROXY_AUTO_FALLBACK_MODEL'') (autoFallbackModel cfg),
             logRetentionDays := or_else (num (\<lambda>l. l > 0) ''AGY_PROXY_LOG_RETENTION_DAYS'') (logRetentionDays cfg),
             usageRetentionDays :=
               or_else (map_option (\<lambda>d. of_int \<lfloor>d\<rfloor>) (num (\<lambda>d. d > 0) ''AGY_PROXY_USAGE_RETENTION_DAYS''))
                 (usageRetentionDays cfg),
             quotaPollIntervalMs :=
               or_else (num (\<lambda>q. q \<ge> 60000) ''AGY_PROXY_QUOTA_POLL_INTERVAL_MS'') (quotaPollIntervalMs cfg),
             cfg_dataDir := str_or (env ''AGY_PROXY_DATA_DIR'') (cfg_dataDir cfg),
             cfg_port := or_else (num (\<lambda>p. p > 0 \<and> p < 65536) ''AGY_PROXY_PORT'') (cfg_port cfg),
             cfg_host := str_or (env ''AGY_PROXY_HOST'') (cfg_host cfg),
             adminAllowCidr := str_or (env ''AGY_PROXY_ADMIN_ALLOW_CIDR'') (adminAllowCidr cfg),
             adminPassword := str_or (env ''AGY_PROXY_ADMIN_PASSWORD'') (adminPassword cfg),
             trustedProxies := str_or (env ''AGY_PROXY_TRUSTED_PROXIES'') (trustedProxies cfg),
             dbPath := str_or (env ''AGY_PROXY_DB_PATH'') (dbPath cfg),
             adminSessionTtlMs :=
               or_else (num (\<lambda>t. t \<ge> 60000) ''AGY_PROXY_ADMIN_SESSION_TTL_MS'') (adminSessionTtlMs cfg),
             shutdownGraceMs := or_else (num (\<lambda>t. t \<ge> 1000) ''AGY_PROXY_SHUTDOWN_GRACE_MS'') (shutdownGraceMs cfg),
             webDist := str_or (env ''AGY_PROXY_WEB_DIST'') (webDist cfg),
             debugMetricsMs := or_else (num (\<lambda>d. d \<ge> 0) ''AGY_PROXY_DEBUG_METRICS_MS'') (debugMetricsMs cfg),
             apiKey := or_else (env ''AGY_PROXY_API_KEY'') (apiKey cfg),
             sseHeartbeatMs :=
               (case env ''AGY_PROXY_SSE_HEARTBEAT_MS'' of
                  Some s \<Rightarrow> or_else (accept (\<lambda>v. v \<ge> 0) (js_number s)) (sseHeartbeatMs cfg)
                | None \<Rightarrow> sseHeartbeatMs cfg)\<rparr>)"

definition finishConfig :: "gateway_config \<Rightarrow> env \<Rightarrow> gateway_config" where
  "finishConfig cfg env =
     (let c = applyEnv cfg env
      in c\<lparr>maxConcurrent := max 1 (maxConcurrent c), maxQueueDepth := max 0 (maxQueueDepth c)\<rparr>)"

section \<open>The overrides file and its memos\<close>

type_synonym stat = "rat \<times> nat"

record file_entry =
  f_stat :: "stat option"
  f_exists :: bool
  f_body :: "string option"

type_synonym disk = "string \<Rightarrow> file_entry"

type_synonym stat_key = "string \<times> stat"

record config_cache =
  overridesCache :: "(stat_key \<times> overrides_file) option"
  baseCache :: "(stat_key \<times> gateway_config) option"

record overrides_read =
  rd_stat :: "stat option"
  rd_parsed :: bool
  rd_data :: overrides_file

definition invalidateOverridesCache :: "config_cache \<Rightarrow> config_cache" where
  "invalidateOverridesCache c = \<lparr>overridesCache = None, baseCache = None\<rparr>"

text \<open>\<open>v && typeof v === 'object'\<close>: an array passes too, with its indices as keys.\<close>

fun overrides_of_json :: "json \<Rightarrow> overrides_file" where
  "overrides_of_json (JObj kvs) = kvs"
| "overrides_of_json (JArr xs) = zip (map show_nat [0..<length xs]) xs"
| "overrides_of_json _ = []"

text \<open>Reading the file without a memo: \<open>None\<close> when reading or parsing throws.\<close>

definition parse_overrides :: "(string \<Rightarrow> json option) \<Rightarrow> file_entry \<Rightarrow> overrides_file option" where
  "parse_overrides jparse e =
     (if f_exists e
      then (case f_body e of Some b \<Rightarrow> map_option overrides_of_json (jparse b) | None \<Rightarrow> None)
      else Some [])"

definition readOverridesWithStat ::
  "(string \<Rightarrow> json option) \<Rightarrow> disk \<Rightarrow> string \<Rightarrow> config_cache \<Rightarrow> overrides_read \<times> config_cache" where
  "readOverridesWithStat jparse fs file c =
     (let st = f_stat (fs file);
          c1 = (if st = None then c\<lparr>overridesCache := None\<rparr> else c);
          fresh =
            (case parse_overrides jparse (fs file) of
               None \<Rightarrow> (\<lparr>rd_stat = st, rd_parsed = False, rd_data = []\<rparr>, c1)
             | Some d \<Rightarrow> (\<lparr>rd_stat = st, rd_parsed = True, rd_data = d\<rparr>,
                 case st of Some s \<Rightarrow> c1\<lparr>overridesCache := Some ((file, s), d)\<rparr> | None \<Rightarrow> c1))
      in case (st, overridesCache c1) of
           (Some s, Some (k, d)) \<Rightarrow> if k = (file, s) then (\<lparr>rd_stat = st, rd_parsed = True, rd_data = d\<rparr>, c1) else fresh
         | _ \<Rightarrow> fresh)"

definition resolveConfig_with :: "env \<Rightarrow> overrides_file \<Rightarrow> gateway_config" where
  "resolveConfig_with env ov = finishConfig (buildBase ov) env"

definition resolveConfig ::
  "(string \<Rightarrow> json option) \<Rightarrow> disk \<Rightarrow> string \<Rightarrow> env \<Rightarrow> config_cache \<Rightarrow> gateway_config \<times> config_cache" where
  "resolveConfig jparse fs file env c =
     (let (rd, c1) = readOverridesWithStat jparse fs file c
      in case (rd_stat rd, rd_parsed rd) of
           (Some s, True) \<Rightarrow>
             (case baseCache c1 of
                Some (k, b) \<Rightarrow>
                  if k = (file, s) then (finishConfig b env, c1)
                  else (finishConfig (buildBase (rd_data rd)) env,
                        c1\<lparr>baseCache := Some ((file, s), buildBase (rd_data rd))\<rparr>)
              | None \<Rightarrow> (finishConfig (buildBase (rd_data rd)) env,
                        c1\<lparr>baseCache := Some ((file, s), buildBase (rd_data rd))\<rparr>))
         | _ \<Rightarrow> (finishConfig (buildBase (rd_data rd)) env, c1))"


section \<open>The memos are transparent\<close>

text \<open>What an unmemoized read returns.\<close>

definition fresh_data :: "(string \<Rightarrow> json option) \<Rightarrow> file_entry \<Rightarrow> overrides_file" where
  "fresh_data jparse e = or_else (parse_overrides jparse e) []"

text \<open>A memo entry is good when, as long as the file still has its stat identity, it is what a read returns.\<close>

definition cache_ok :: "(string \<Rightarrow> json option) \<Rightarrow> disk \<Rightarrow> config_cache \<Rightarrow> bool" where
  "cache_ok jparse fs c =
     ((\<forall>file s d. overridesCache c = Some ((file, s), d) \<longrightarrow> f_stat (fs file) = Some s \<longrightarrow>
         parse_overrides jparse (fs file) = Some d) \<and>
      (\<forall>file s b. baseCache c = Some ((file, s), b) \<longrightarrow> f_stat (fs file) = Some s \<longrightarrow>
         (\<exists>d. parse_overrides jparse (fs file) = Some d \<and> b = buildBase d)))"

text \<open>An edit of a file is visible when it does not reproduce the stat identity of a memo of that file.\<close>

definition visible_edit :: "config_cache \<Rightarrow> string \<Rightarrow> file_entry \<Rightarrow> bool" where
  "visible_edit c file e =
     (\<forall>s. f_stat e = Some s \<longrightarrow> map_option fst (overridesCache c) \<noteq> Some (file, s) \<and>
        map_option fst (baseCache c) \<noteq> Some (file, s))"

lemma cache_ok_empty: "cache_ok jparse fs \<lparr>overridesCache = None, baseCache = None\<rparr>"
  by (simp add: cache_ok_def)

lemma cache_ok_edit: "cache_ok jparse fs c \<Longrightarrow> visible_edit c file e \<Longrightarrow> cache_ok jparse (fs(file := e)) c"
  by (fastforce simp: cache_ok_def visible_edit_def)

lemma cache_ok_drop: "cache_ok jparse fs c \<Longrightarrow> cache_ok jparse fs (c\<lparr>overridesCache := None\<rparr>)"
  by (simp add: cache_ok_def)

lemma readOverridesWithStat_correct:
  assumes "cache_ok jparse fs c" "readOverridesWithStat jparse fs file c = (rd, c1)"
  shows "rd_data rd = fresh_data jparse (fs file) \<and> rd_stat rd = f_stat (fs file) \<and>
    rd_parsed rd = (parse_overrides jparse (fs file) \<noteq> None) \<and> cache_ok jparse fs c1 \<and> baseCache c1 = baseCache c"
proof (cases "f_stat (fs file)")
  case None
  with assms show ?thesis
    by (auto simp: readOverridesWithStat_def fresh_data_def cache_ok_drop Let_def split: option.splits)
next
  case (Some s)
  show ?thesis
  proof (cases "\<exists>d. overridesCache c = Some ((file, s), d)")
    case True
    then obtain d where d: "overridesCache c = Some ((file, s), d)" by blast
    with assms(1) Some have "parse_overrides jparse (fs file) = Some d" by (simp add: cache_ok_def)
    with assms Some d show ?thesis by (auto simp: readOverridesWithStat_def fresh_data_def)
  next
    case False
    have ok: "cache_ok jparse fs (c\<lparr>overridesCache := Some ((file, s), d)\<rparr>)"
      if "parse_overrides jparse (fs file) = Some d" for d
      using assms(1) that by (simp add: cache_ok_def)
    from assms(2) Some False
    have "(rd, c1) = (case parse_overrides jparse (fs file) of
        None \<Rightarrow> (\<lparr>rd_stat = Some s, rd_parsed = False, rd_data = []\<rparr>, c)
      | Some d \<Rightarrow> (\<lparr>rd_stat = Some s, rd_parsed = True, rd_data = d\<rparr>, c\<lparr>overridesCache := Some ((file, s), d)\<rparr>))"
      by (auto simp: readOverridesWithStat_def Let_def split: option.splits prod.splits if_splits)
    with assms(1) Some ok show ?thesis by (auto simp: fresh_data_def split: option.splits)
  qed
qed

lemma resolveConfig_correct:
  assumes "cache_ok jparse fs c" "resolveConfig jparse fs file env c = (cfg, c1)"
  shows "cfg = resolveConfig_with env (fresh_data jparse (fs file)) \<and> cache_ok jparse fs c1"
proof -
  obtain rd c2 where r: "readOverridesWithStat jparse fs file c = (rd, c2)"
    by (cases "readOverridesWithStat jparse fs file c")
  note rd = readOverridesWithStat_correct [OF assms(1) r]
  show ?thesis
  proof (cases "\<exists>s d. f_stat (fs file) = Some s \<and> parse_overrides jparse (fs file) = Some d")
    case False
    then have "\<not> (\<exists>s. rd_stat rd = Some s \<and> rd_parsed rd)" using rd by auto
    with assms(2) r have "cfg = finishConfig (buildBase (rd_data rd)) env \<and> c1 = c2"
      by (auto simp: resolveConfig_def split: option.splits bool.splits)
    with rd show ?thesis by (simp add: resolveConfig_with_def)
  next
    case True
    then obtain s d where sd: "f_stat (fs file) = Some s" "parse_overrides jparse (fs file) = Some d" by blast
    with rd have v: "rd_stat rd = Some s" "rd_parsed rd" "rd_data rd = d" by (simp_all add: fresh_data_def)
    show ?thesis
    proof (cases "\<exists>b. baseCache c2 = Some ((file, s), b)")
      case True
      then obtain b where b: "baseCache c2 = Some ((file, s), b)" by blast
      with rd sd have "b = buildBase d" by (simp add: cache_ok_def)
      with assms(2) r b v rd sd show ?thesis by (simp add: resolveConfig_def resolveConfig_with_def fresh_data_def)
    next
      case False
      with assms(2) r v
      have "cfg = finishConfig (buildBase d) env \<and> c1 = c2\<lparr>baseCache := Some ((file, s), buildBase d)\<rparr>"
        by (auto simp: resolveConfig_def split: option.splits if_splits)
      moreover have "cache_ok jparse fs (c2\<lparr>baseCache := Some ((file, s), buildBase d)\<rparr>)"
        using rd sd by (simp add: cache_ok_def)
      ultimately show ?thesis using sd by (simp add: resolveConfig_with_def fresh_data_def)
    qed
  qed
qed

section \<open>Floors\<close>

lemma finishConfig_sel:
  "maxConcurrent (finishConfig cfg env) =
     max 1 (or_else (accept (\<lambda>c. c \<ge> 1) (asNum (env_json env ''AGY_PROXY_MAX_CONCURRENT''))) (maxConcurrent cfg))"
  "maxQueueDepth (finishConfig cfg env) =
     max 0 (or_else (accept (\<lambda>q. q \<ge> 0) (asNum (env_json env ''AGY_PROXY_MAX_QUEUE_DEPTH''))) (maxQueueDepth cfg))"
  by (simp_all add: finishConfig_def applyEnv_def Let_def)

end
