(* ===== verification/Settings.thy ===== *)
theory Settings
  imports Config
begin

text \<open>
  The settings write path, \<open>src/server/settings.ts\<close>: the allowlist of writable keys, the report of keys the
  environment owns, validation of a settings request, and the merge into the overrides file.
\<close>

section \<open>Keys\<close>

datatype writable_key =
    K_defaultModel | K_defaultEffort | K_timeoutMs | K_maxConcurrent | K_maxQueueDepth
  | K_permissionMode | K_enabled | K_autoFallbackModel | K_quotaPollIntervalMs

fun key_name :: "writable_key \<Rightarrow> string" where
  "key_name K_defaultModel = ''defaultModel''"
| "key_name K_defaultEffort = ''defaultEffort''"
| "key_name K_timeoutMs = ''timeoutMs''"
| "key_name K_maxConcurrent = ''maxConcurrent''"
| "key_name K_maxQueueDepth = ''maxQueueDepth''"
| "key_name K_permissionMode = ''permissionMode''"
| "key_name K_enabled = ''enabled''"
| "key_name K_autoFallbackModel = ''autoFallbackModel''"
| "key_name K_quotaPollIntervalMs = ''quotaPollIntervalMs''"

definition WRITABLE_KEYS :: "writable_key list" where
  "WRITABLE_KEYS = [K_defaultModel, K_defaultEffort, K_timeoutMs, K_maxConcurrent, K_maxQueueDepth,
     K_permissionMode, K_enabled, K_autoFallbackModel, K_quotaPollIntervalMs]"

definition MAX_STRING_LENGTH :: nat where
  "MAX_STRING_LENGTH = 200"

definition holds :: "('a \<Rightarrow> bool) \<Rightarrow> 'a option \<Rightarrow> bool" where
  "holds p v = (case v of Some x \<Rightarrow> p x | None \<Rightarrow> False)"

fun wins :: "writable_key \<Rightarrow> env \<Rightarrow> bool" where
  "wins K_defaultModel e = truthy_str (e ''AGY_PROXY_DEFAULT_MODEL'')"
| "wins K_defaultEffort e = truthy_str (e ''AGY_PROXY_DEFAULT_EFFORT'')"
| "wins K_timeoutMs e = holds (\<lambda>t. t > 0) (asNum (env_json e ''AGY_PROXY_TIMEOUT_MS''))"
| "wins K_maxConcurrent e = holds (\<lambda>c. c \<ge> 1) (asNum (env_json e ''AGY_PROXY_MAX_CONCURRENT''))"
| "wins K_maxQueueDepth e = holds (\<lambda>q. q \<ge> 0) (asNum (env_json e ''AGY_PROXY_MAX_QUEUE_DEPTH''))"
| "wins K_permissionMode e =
     (if truthy_str (e ''AGY_PROXY_MODE'') then asMode (env_json e ''AGY_PROXY_MODE'') \<noteq> None
      else asBool (env_json e ''AGY_PROXY_SKIP_PERMISSIONS'') \<noteq> None)"
| "wins K_enabled e = (asBool (env_json e ''AGY_PROXY_ENABLED'') \<noteq> None)"
| "wins K_autoFallbackModel e = (asBool (env_json e ''AGY_PROXY_AUTO_FALLBACK_MODEL'') \<noteq> None)"
| "wins K_quotaPollIntervalMs e = holds (\<lambda>q. q \<ge> 60000) (asNum (env_json e ''AGY_PROXY_QUOTA_POLL_INTERVAL_MS''))"

definition envLockedKeys :: "env \<Rightarrow> writable_key list" where
  "envLockedKeys e = filter (\<lambda>k. wins k e) WRITABLE_KEYS"

section \<open>Validation\<close>

definition squote :: "string \<Rightarrow> string" where
  "squote s = [CHR 0x27] @ s @ [CHR 0x27]"

definition num_setting :: "(rat \<Rightarrow> bool) \<Rightarrow> string \<Rightarrow> string \<Rightarrow> json \<Rightarrow> string + json" where
  "num_setting p key msg v =
     (case asNum (Some v) of
        Some n \<Rightarrow> if p n then Inr (JNum n) else Inl (squote key @ msg)
      | None \<Rightarrow> Inl (squote key @ msg))"

fun check_setting :: "writable_key \<Rightarrow> json \<Rightarrow> string + json" where
  "check_setting K_timeoutMs v = num_setting (\<lambda>n. n > 0) ''timeoutMs'' '' must be a positive number of milliseconds'' v"
| "check_setting K_maxConcurrent v = num_setting (\<lambda>n. n \<ge> 1) ''maxConcurrent'' '' must be a number >= 1'' v"
| "check_setting K_maxQueueDepth v = num_setting (\<lambda>n. n \<ge> 0) ''maxQueueDepth'' '' must be a number >= 0'' v"
| "check_setting K_quotaPollIntervalMs v =
     num_setting (\<lambda>n. n \<ge> 60000) ''quotaPollIntervalMs'' '' must be a number >= 60000 (clamped floor in config)'' v"
| "check_setting K_permissionMode v =
     (case asMode (Some v) of
        Some m \<Rightarrow> Inr (JStr (show_mode m))
      | None \<Rightarrow> Inl (squote ''permissionMode'' @ '' must be one of: '' @ join '', '' (map show_mode MODES)))"
| "check_setting K_enabled v =
     (case v of JBool b \<Rightarrow> Inr v | _ \<Rightarrow> Inl (squote ''enabled'' @ '' must be a boolean''))"
| "check_setting K_autoFallbackModel v =
     (case v of JBool b \<Rightarrow> Inr v | _ \<Rightarrow> Inl (squote ''autoFallbackModel'' @ '' must be a boolean''))"
| "check_setting key v =
     (let msg = squote (key_name key) @ '' must be a string of at most '' @ show_nat MAX_STRING_LENGTH @ '' chars''
      in case v of JStr s \<Rightarrow> if length s > MAX_STRING_LENGTH then Inl msg else Inr v | _ \<Rightarrow> Inl msg)"

fun sanitize_loop :: "(string \<times> json) list \<Rightarrow> string list \<Rightarrow> overrides_file \<Rightarrow> string list \<times> overrides_file" where
  "sanitize_loop [] errors patch = (errors, patch)"
| "sanitize_loop ((rawKey, v) # rest) errors patch =
     (case find (\<lambda>k. key_name k = rawKey) WRITABLE_KEYS of
        None \<Rightarrow> sanitize_loop rest (errors @ [''unknown setting '' @ squote rawKey]) patch
      | Some key \<Rightarrow>
          (case check_setting key v of
             Inl e \<Rightarrow> sanitize_loop rest (errors @ [e]) patch
           | Inr w \<Rightarrow> sanitize_loop rest errors (jm_set rawKey w patch)))"

definition sanitizeSettings :: "(string \<times> json) list \<Rightarrow> string + overrides_file" where
  "sanitizeSettings input =
     (let (errors, patch) = sanitize_loop input [] []
      in if length errors > 0 then Inl (join ''; '' errors) else Inr patch)"

section \<open>Writing and viewing\<close>

text \<open>\<open>JSON.stringify(value, null, 2)\<close>.\<close>

definition indent :: "nat \<Rightarrow> string" where
  "indent n = nl @ replicate (2 * n) CHR '' ''"

fun json_pretty :: "nat \<Rightarrow> json \<Rightarrow> string" where
  "json_pretty d (JArr xs) =
     (if xs = [] then ''[]''
      else ''['' @ join '','' (map (\<lambda>x. indent (Suc d) @ json_pretty (Suc d) x) xs) @ indent d @ '']'')"
| "json_pretty d (JObj kvs) =
     (if kvs = [] then ''{}''
      else ''{'' @ join '','' (map (\<lambda>kv. indent (Suc d) @ quote (fst kv) @ '': '' @ json_pretty (Suc d) (snd kv)) kvs) @
        indent d @ ''}'')"
| "json_pretty d v = json_stringify v"

definition merge_overrides :: "overrides_file \<Rightarrow> overrides_file \<Rightarrow> overrides_file" where
  "merge_overrides old patch = foldl (\<lambda>m (k, v). jm_set k v m) old patch"

definition overrides_body :: "overrides_file \<Rightarrow> string" where
  "overrides_body ov = json_pretty 0 (JObj ov) @ nl"

text \<open>
  \<open>outcome\<close> is what the file system does with the write and the rename: \<open>None\<close> when it fails (the error is
  rethrown, the file is untouched), otherwise the stat of the new file. The result says whether it threw.
\<close>

definition writeOverridesPatch ::
  "(string \<Rightarrow> json option) \<Rightarrow> string \<Rightarrow> stat option \<Rightarrow> overrides_file \<Rightarrow> disk \<times> config_cache \<Rightarrow> bool \<times> disk \<times> config_cache" where
  "writeOverridesPatch jparse file outcome patch = (\<lambda>(fs, c).
     if length patch = 0 then (True, fs, c)
     else
       (let (rd, c1) = readOverridesWithStat jparse fs file c;
            merged = merge_overrides (rd_data rd) patch
        in case outcome of
             None \<Rightarrow> (False, fs, c1)
           | Some st \<Rightarrow>
               (True, fs(file := \<lparr>f_stat = Some st, f_exists = True, f_body = Some (overrides_body merged)\<rparr>),
                invalidateOverridesCache c1)))"

record settings_view =
  requested :: "(writable_key \<times> json) list"
  effective :: "writable_key \<Rightarrow> json"
  envLocked :: "writable_key list"

fun effective_of :: "gateway_config \<Rightarrow> writable_key \<Rightarrow> json" where
  "effective_of cfg K_defaultModel = JStr (defaultModel cfg)"
| "effective_of cfg K_defaultEffort = JStr (defaultEffort cfg)"
| "effective_of cfg K_timeoutMs = JNum (timeoutMs cfg)"
| "effective_of cfg K_maxConcurrent = JNum (maxConcurrent cfg)"
| "effective_of cfg K_maxQueueDepth = JNum (maxQueueDepth cfg)"
| "effective_of cfg K_permissionMode = JStr (show_mode (permissionMode cfg))"
| "effective_of cfg K_enabled = JBool (cfg_enabled cfg)"
| "effective_of cfg K_autoFallbackModel = JBool (autoFallbackModel cfg)"
| "effective_of cfg K_quotaPollIntervalMs = JNum (quotaPollIntervalMs cfg)"

definition settingsView ::
  "(string \<Rightarrow> json option) \<Rightarrow> env \<Rightarrow> string \<Rightarrow> disk \<times> config_cache \<Rightarrow> settings_view \<times> config_cache" where
  "settingsView jparse env file = (\<lambda>(fs, c).
     let (rd, c1) = readOverridesWithStat jparse fs file c;
         cfg = resolveConfig_with env (rd_data rd)
     in (\<lparr>requested = map_filter_opt (\<lambda>k. map_option (Pair k) (map_of (rd_data rd) (key_name k))) WRITABLE_KEYS,
          effective = effective_of cfg, envLocked = envLockedKeys env\<rparr>, c1))"


section \<open>Environment locks\<close>

lemmas config_layer_defs = resolveConfig_with_def finishConfig_def applyEnv_def Let_def

lemma holds_accept: "\<not> holds p v \<Longrightarrow> accept p v = None" "holds p v \<Longrightarrow> \<exists>x. accept p v = Some x"
  by (auto simp: holds_def accept_def split: option.splits)

lemma str_or_truthy: "truthy_str s \<Longrightarrow> str_or s d = the s" "\<not> truthy_str s \<Longrightarrow> str_or s d = d"
  by (auto simp: truthy_str_def str_or_def split: option.splits)

lemma env_json_none [simp]: "env_json (\<lambda>_. None) k = None"
  by (simp add: env_json_def)

lemma mem_envLockedKeys: "k \<in> set (envLockedKeys e) \<longleftrightarrow> wins k e"
  by (cases k) (simp_all add: envLockedKeys_def WRITABLE_KEYS_def)

text \<open>The mode variable does not hide a valid skip variable.\<close>

definition mode_clean :: "env \<Rightarrow> bool" where
  "mode_clean e =
     (truthy_str (e ''AGY_PROXY_MODE'') \<and> asMode (env_json e ''AGY_PROXY_MODE'') = None \<longrightarrow>
      asBool (env_json e ''AGY_PROXY_SKIP_PERMISSIONS'') = None)"

lemma locked_indep:
  assumes "wins k e"
  shows "effective_of (resolveConfig_with e ov) k = effective_of (resolveConfig_with e ov1) k"
  using assms
  by (cases k) (auto simp: config_layer_defs str_or_truthy dest!: holds_accept(2) split: option.splits if_splits)

lemma unlocked_env:
  assumes "\<not> wins k e" "k = K_permissionMode \<longrightarrow> mode_clean e"
  shows "effective_of (resolveConfig_with e ov) k = effective_of (resolveConfig_with (\<lambda>_. None) ov) k"
  using assms
  by (cases k)
    (auto simp: config_layer_defs str_or_truthy mode_clean_def holds_accept(1) accept_def [of _ None]
      truthy_str_def [of None] str_or_def [of None] split: option.splits if_splits)

text \<open>
  The report of environment-locked settings agrees with the layering: a reported key has the same effective
  value whatever the overrides file holds, and a key not reported has the value it would have with no
  environment at all. The permission mode needs the side condition that no valid skip variable stands beside
  an unusable mode variable.
\<close>

lemma envLocked_exact:
  assumes "k = K_permissionMode \<longrightarrow> mode_clean env"
  shows "if k \<in> set (envLockedKeys env)
    then effective_of (resolveConfig_with env ov) k = effective_of (resolveConfig_with env ov1) k
    else effective_of (resolveConfig_with env ov) k = effective_of (resolveConfig_with (\<lambda>_. None) ov) k"
  using assms locked_indep [of k env ov ov1] unlocked_env [of k env ov] by (simp add: mem_envLockedKeys)



text \<open>
  The side condition is needed: with an unusable mode variable beside a valid skip variable the environment
  decides the permission mode although the key is reported as unlocked.
\<close>

lemma permissionMode_lock_missed:
  defines "e \<equiv> [''AGY_PROXY_MODE'' \<mapsto> ''bogus'', ''AGY_PROXY_SKIP_PERMISSIONS'' \<mapsto> ''true'']"
  shows "K_permissionMode \<notin> set (envLockedKeys e) \<and>
    effective_of (resolveConfig_with e [(''permissionMode'', JStr ''plan'')]) K_permissionMode = JStr ''skip''"
  unfolding mem_envLockedKeys e_def
  by (simp add: truthy_str_def env_json_def MODES_def config_layer_defs)

section \<open>Writes take effect\<close>

definition valid_setting :: "writable_key \<Rightarrow> json \<Rightarrow> bool" where
  "valid_setting k w = (check_setting k w = Inr w)"

lemma check_setting_valid: "check_setting k v = Inr w \<Longrightarrow> valid_setting k w"
  by (cases k; cases v)
    (auto simp: valid_setting_def num_setting_def Let_def MODES_def split: option.splits if_splits)

lemma key_name_inj: "key_name k = key_name j \<Longrightarrow> k = j"
  by (cases k; cases j) simp_all

lemma find_key: "find (\<lambda>k. key_name k = key_name j) WRITABLE_KEYS = Some j"
  by (cases j) (simp_all add: WRITABLE_KEYS_def)

lemma sanitize_loop_errors: "\<exists>es. fst (sanitize_loop input errors patch) = errors @ es"
proof (induction input errors patch rule: sanitize_loop.induct)
  case (2 rawKey v rest errors patch)
  then show ?case
    by (cases "find (\<lambda>k. key_name k = rawKey) WRITABLE_KEYS")
      (fastforce split: sum.split simp: append_assoc)+
qed simp

lemma sanitize_loop_valid:
  assumes "sanitize_loop input [] patch = ([], p1)" "jm_wf patch"
    "\<forall>k w. map_of patch (key_name k) = Some w \<longrightarrow> valid_setting k w"
  shows "jm_wf p1 \<and> (\<forall>k w. map_of p1 (key_name k) = Some w \<longrightarrow> valid_setting k w)"
  using assms
proof (induction input arbitrary: patch)
  case (Cons kv rest)
  obtain rawKey v where kv: "kv = (rawKey, v)" by (cases kv)
  have no_err: "sanitize_loop rest [e] patch \<noteq> ([], p1)" for e
    using sanitize_loop_errors [of rest "[e]" patch] by (metis append_Cons append_Nil fst_conv list.distinct(1))
  from Cons.prems(1) kv no_err obtain j w where
    j: "find (\<lambda>k. key_name k = rawKey) WRITABLE_KEYS = Some j" "check_setting j v = Inr w"
    and r: "sanitize_loop rest [] (jm_set rawKey w patch) = ([], p1)"
    by (auto split: option.splits sum.splits)
  from find_SomeD [OF j(1)] have jn: "rawKey = key_name j" by simp
  show ?case
    by (rule Cons.IH [OF r jm_wf_jm_set [OF Cons.prems(2)]])
      (use Cons.prems(3) j(2) in \<open>auto simp: jn jm.get_put check_setting_valid dest: key_name_inj\<close>)
qed simp

lemma sanitizeSettings_valid:
  assumes "sanitizeSettings input = Inr patch"
  shows "jm_wf patch \<and> (\<forall>k w. map_of patch (key_name k) = Some w \<longrightarrow> valid_setting k w)"
proof -
  from assms have "sanitize_loop input [] [] = ([], patch)"
    by (auto simp: sanitizeSettings_def split: if_splits prod.splits)
  then show ?thesis by (rule sanitize_loop_valid) (simp_all add: jm_wf_def)
qed

lemma map_of_merge:
  "jm_wf patch \<Longrightarrow> map_of (merge_overrides old patch) k = (case map_of patch k of Some v \<Rightarrow> Some v | None \<Rightarrow> map_of old k)"
proof (induction patch arbitrary: old)
  case (Cons kv rest)
  obtain j v where kv: "kv = (j, v)" by (cases kv)
  from Cons.prems kv have "map_of rest j = None" "jm_wf rest" by (auto simp: jm_wf_def map_of_eq_None_iff)
  with Cons.IH [of "jm_set j v old"] kv show ?case
    by (auto simp: merge_overrides_def jm.get_put split: option.splits)
qed (simp add: merge_overrides_def)

lemma effective_stored:
  assumes "map_of ov (key_name k) = Some w" "valid_setting k w" "w \<noteq> JStr []"
  shows "effective_of (resolveConfig_with (\<lambda>_. None) ov) k = w"
proof -
  have g: "get_override ov (key_name k) = Some w" if "w \<noteq> JNull"
    using assms(1,3) that by (simp add: get_override_def)
  show ?thesis
    using assms(2) g
    by (cases k; cases w)
      (auto simp: valid_setting_def config_layer_defs buildBase_def num_setting_def accept_def truthy_str_def str_or_def
        MODES_def split: option.splits if_splits)
qed


lemma settingsView_effective:
  assumes "cache_ok jparse fs c"
  shows "effective (fst (settingsView jparse env file (fs, c))) =
    effective_of (resolveConfig_with env (fresh_data jparse (fs file)))"
  using readOverridesWithStat_correct [OF assms, of "file"]
  by (cases "readOverridesWithStat jparse fs file c") (simp add: settingsView_def)

lemma writeOverridesPatch_lands:
  assumes "cache_ok jparse fs c" "patch \<noteq> []"
    "writeOverridesPatch jparse file (Some st) patch (fs, c) = (ok, fs1, c1)"
    "jparse (overrides_body (merge_overrides (fresh_data jparse (fs file)) patch)) =
       Some (JObj (merge_overrides (fresh_data jparse (fs file)) patch))"
  shows "ok \<and> cache_ok jparse fs1 c1 \<and>
    fresh_data jparse (fs1 file) = merge_overrides (fresh_data jparse (fs file)) patch"
proof -
  obtain rd c2 where r: "readOverridesWithStat jparse fs file c = (rd, c2)"
    by (cases "readOverridesWithStat jparse fs file c")
  from readOverridesWithStat_correct [OF assms(1) r] have d: "rd_data rd = fresh_data jparse (fs file)" by simp
  from assms(2,3) r have "ok" "c1 = invalidateOverridesCache c2"
    "fs1 = fs(file := \<lparr>f_stat = Some st, f_exists = True, f_body = Some (overrides_body (merge_overrides (rd_data rd) patch))\<rparr>)"
    by (auto simp: writeOverridesPatch_def)
  with assms(4) d show ?thesis
    by (simp add: invalidateOverridesCache_def cache_ok_empty fresh_data_def parse_overrides_def)
qed

text \<open>
  A validated settings request takes effect at once and touches nothing else: after the write, every key of
  the patch that the environment does not own is served with exactly the value that was stored (an empty string
  clears the override instead), both in the settings view and to every later request, and every key outside the
  patch keeps the raw value it had in the file. \<open>JSON.parse\<close> is required to read back the text that was written.
\<close>

lemma settings_write_effective:
  assumes "sanitizeSettings input = Inr patch"
    and "cache_ok jparse fs c"
    and "writeOverridesPatch jparse file (Some st) patch (fs, c) = (ok, fs1, c1)"
    and "jparse (overrides_body (merge_overrides (fresh_data jparse (fs file)) patch)) =
      Some (JObj (merge_overrides (fresh_data jparse (fs file)) patch))"
    and "map_of patch (key_name k) = Some w" "w \<noteq> JStr []"
    and "k \<notin> set (envLockedKeys env)" "k = K_permissionMode \<longrightarrow> mode_clean env"
  shows "ok \<and> effective (fst (settingsView jparse env file (fs1, c1))) k = w \<and>
    effective_of (fst (resolveConfig jparse fs1 file env c1)) k = w \<and>
    (\<forall>j. map_of patch j = None \<longrightarrow> map_of (fresh_data jparse (fs1 file)) j = map_of (fresh_data jparse (fs file)) j)"
proof -
  from sanitizeSettings_valid [OF assms(1)] assms(5) have v: "jm_wf patch" "valid_setting k w" by auto
  have ne: "patch \<noteq> []" using assms(5) by auto
  note lands = writeOverridesPatch_lands [OF assms(2) ne assms(3,4)]
  have m: "map_of (fresh_data jparse (fs1 file)) j =
      (case map_of patch j of Some v \<Rightarrow> Some v | None \<Rightarrow> map_of (fresh_data jparse (fs file)) j)" for j
    using lands map_of_merge [OF v(1)] by simp
  have "effective_of (resolveConfig_with env (fresh_data jparse (fs1 file))) k = w"
    using unlocked_env [of k env] effective_stored [OF _ v(2) assms(6)] m assms(5,7,8)
    by (simp add: mem_envLockedKeys)
  moreover have "fst (resolveConfig jparse fs1 file env c1) = resolveConfig_with env (fresh_data jparse (fs1 file))"
    using resolveConfig_correct lands by (metis prod.collapse)
  ultimately show ?thesis using lands m by (simp add: settingsView_effective)
qed


section \<open>Histories\<close>

datatype config_event = ResolveE env | WriteE overrides_file "stat option" | EditE file_entry

fun config_step :: "(string \<Rightarrow> json option) \<Rightarrow> string \<Rightarrow> disk \<times> config_cache \<Rightarrow> config_event \<Rightarrow> disk \<times> config_cache" where
  "config_step jparse file (fs, c) (ResolveE env) = (fs, snd (resolveConfig jparse fs file env c))"
| "config_step jparse file (fs, c) (WriteE patch outcome) = snd (writeOverridesPatch jparse file outcome patch (fs, c))"
| "config_step jparse file (fs, c) (EditE e) = (fs(file := e), c)"

text \<open>Every edit from outside is visible in the stat of the file; the gateway's own writes need not be.\<close>

fun config_ok :: "string \<Rightarrow> disk \<times> config_cache \<Rightarrow> config_event \<Rightarrow> bool" where
  "config_ok file (fs, c) (EditE e) = visible_edit c file e"
| "config_ok file s _ = True"

lemma cache_ok_write:
  assumes "cache_ok jparse fs c"
  shows "case snd (writeOverridesPatch jparse file outcome patch (fs, c)) of (fs1, c1) \<Rightarrow> cache_ok jparse fs1 c1"
proof -
  obtain rd c2 where r: "readOverridesWithStat jparse fs file c = (rd, c2)"
    by (cases "readOverridesWithStat jparse fs file c")
  with readOverridesWithStat_correct [OF assms r] assms show ?thesis
    by (auto simp: writeOverridesPatch_def invalidateOverridesCache_def cache_ok_empty split: option.splits)
qed

interpretation config_run: stepwise "config_step jparse path" "config_ok path" "\<lambda>(fs, c). cache_ok jparse fs c"
  for jparse path
proof
  fix s e
  assume inv: "case s of (fs, c) \<Rightarrow> cache_ok jparse fs c" and ok: "config_ok path s e"
  obtain fs c where s: "s = (fs, c)" by (cases s)
  show "case config_step jparse path s e of (fs, c) \<Rightarrow> cache_ok jparse fs c"
  proof (cases e)
    case (ResolveE env)
    with inv s show ?thesis
      using resolveConfig_correct [of jparse fs c path env] by (cases "resolveConfig jparse fs path env c") simp
  next
    case (WriteE patch outcome)
    with inv s show ?thesis using cache_ok_write [of jparse fs c path outcome patch] by simp
  next
    case (EditE e)
    with inv ok s show ?thesis by (simp add: cache_ok_edit)
  qed
qed

text \<open>
  The two configuration memos are invisible: after any history of configuration reads, settings writes and
  outside edits that change the file's stat identity, a configuration read returns exactly what reading and
  layering the file afresh gives, and the concurrency limits it returns are at least one slot and a queue of
  at least zero.
\<close>

lemma resolveConfig_transparent:
  assumes "ok_run (config_step jparse file) (config_ok file) (fs, \<lparr>overridesCache = None, baseCache = None\<rparr>) es"
    and "foldl (config_step jparse file) (fs, \<lparr>overridesCache = None, baseCache = None\<rparr>) es = (fs1, c1)"
  shows "fst (resolveConfig jparse fs1 file env c1) = resolveConfig_with env (fresh_data jparse (fs1 file)) \<and>
    maxConcurrent (fst (resolveConfig jparse fs1 file env c1)) \<ge> 1 \<and>
    maxQueueDepth (fst (resolveConfig jparse fs1 file env c1)) \<ge> 0"
proof -
  from config_run.run_inv [OF _ assms(1)] assms(2) have "cache_ok jparse fs1 c1" by (simp add: cache_ok_empty)
  then have e: "fst (resolveConfig jparse fs1 file env c1) = resolveConfig_with env (fresh_data jparse (fs1 file))"
    using resolveConfig_correct by (metis prod.collapse)
  show ?thesis unfolding e by (simp add: resolveConfig_with_def finishConfig_sel)
qed


end
