(* ===== verification/Models.thy ===== *)
theory Models
  imports Config
begin

text \<open>
  Model discovery and the model catalog, \<open>src/host/models.ts\<close>: reading the output of \<open>agy models\<close>, folding
  Gemini effort variants into base models, the fallback catalog, the catalog cache and the alias table.
  \<open>JSON.parse\<close> is the parameter \<open>jparse\<close>; a discovery run is an argument of the refresh.
\<close>

section \<open>Data\<close>

record raw_model =
  slug :: string
  label :: string

record catalog_entry =
  entry_id :: string
  entry_name :: string
  efforts :: "string list option"

datatype catalog_source = Discovered | Fallback

record catalog =
  cat_source :: catalog_source
  cat_models :: "catalog_entry list"
  discoveredAt :: ms
  lastError :: "string option"

section \<open>Reading the output of \<open>agy models\<close>\<close>

definition nullish_first :: "json \<Rightarrow> string list \<Rightarrow> json option" where
  "nullish_first o1 ks =
     foldr (\<lambda>k rest. case jget o1 k of Some JNull \<Rightarrow> rest | Some v \<Rightarrow> Some v | None \<Rightarrow> rest) ks None"

definition model_item :: "json \<Rightarrow> raw_model option" where
  "model_item item =
     (case item of
        JStr s \<Rightarrow> Some \<lparr>slug = s, label = s\<rparr>
      | JObj kvs \<Rightarrow>
          (case nullish_first item [''slug'', ''id'', ''name'', ''model''] of
             Some (JStr s) \<Rightarrow>
               (if s \<noteq> [] then
                  Some \<lparr>slug = s, label = (case nullish_first item [''label'', ''display_name'', ''displayName'', ''title''] of
                     Some (JStr l) \<Rightarrow> l | _ \<Rightarrow> s)\<rparr>
                else None)
           | _ \<Rightarrow> None)
      | _ \<Rightarrow> None)"

definition extractModelList :: "json \<Rightarrow> raw_model list option" where
  "extractModelList parsed =
     (let arr = (case parsed of
                   JArr xs \<Rightarrow> Some xs
                 | JObj kvs \<Rightarrow>
                     foldr (\<lambda>k rest. case as_arr (jget parsed k) of Some xs \<Rightarrow> Some xs | None \<Rightarrow> rest)
                       [''models'', ''items'', ''data'', ''result''] None
                 | _ \<Rightarrow> None)
      in map_option (map_filter_opt model_item) arr)"

fun dedupe_loop :: "string list \<Rightarrow> raw_model list \<Rightarrow> raw_model list" where
  "dedupe_loop seen [] = []"
| "dedupe_loop seen (r # rs) =
     (let s = trim (slug r)
      in if s = [] \<or> s \<in> set seen then dedupe_loop seen rs
         else \<lparr>slug = s, label = (if trim (label r) \<noteq> [] then trim (label r) else s)\<rparr> # dedupe_loop (s # seen) rs)"

definition dedupeBySlug :: "raw_model list \<Rightarrow> raw_model list" where
  "dedupeBySlug raw = dedupe_loop [] raw"

text \<open>A regular expression anchored at the start.\<close>

definition rx_anchored :: "rx \<Rightarrow> string \<Rightarrow> captures option" where
  "rx_anchored e s = (case rx_match e s of (cs, _) # _ \<Rightarrow> Some cs | [] \<Rightarrow> None)"

definition re_two_columns :: rx where
  "re_two_columns = rx_seqs
     [RxCap 1 (rx_plus (RxChar (\<lambda>c. \<not> is_space c))),
      RxAlt (rx_plus (RxChar (\<lambda>c. c = CHR 0x09))) (RxSeq (rx_times 2 (RxChar is_space)) (RxStar (RxChar is_space))),
      RxCap 2 (rx_plus (RxChar (\<lambda>c. c \<noteq> CHR 0x0A \<and> c \<noteq> CHR 0x0D))), RxEnd]"

definition skip_line :: "string \<Rightarrow> bool" where
  "skip_line t = (t = [] \<or> starts_with t ''Fetching'' \<or> starts_with t ''Error'' \<or>
     rx_anchored (rx_alts (map rx_lit_i [''please sign in'', ''warning'', ''tip:''])) t \<noteq> None)"

definition text_model :: "string \<Rightarrow> raw_model option" where
  "text_model l =
     (let t = trim l
      in if skip_line t then None
         else case rx_anchored re_two_columns t of
                Some cs \<Rightarrow> Some \<lparr>slug = or_else (capture cs 1) [], label = trim (or_else (capture cs 2) [])\<rparr>
              | None \<Rightarrow> if list_all (\<lambda>c. \<not> is_space c) t then Some \<lparr>slug = t, label = t\<rparr> else None)"

definition parseModelsOutput :: "(string \<Rightarrow> json option) \<Rightarrow> string \<Rightarrow> raw_model list" where
  "parseModelsOutput jparse stdout =
     (let t = trim stdout
      in if t = [] then []
         else case (case jparse t of Some p \<Rightarrow> extractModelList p | None \<Rightarrow> None) of
                Some xs \<Rightarrow> dedupeBySlug xs
              | None \<Rightarrow> dedupeBySlug (map_filter_opt text_model (split_on (\<lambda>c. c = CHR 0x0A) t)))"

section \<open>Folding effort variants\<close>

definition EFFORT_SUFFIXES :: "string list" where
  "EFFORT_SUFFIXES = [''low'', ''medium'', ''high'']"

definition stripEffortLabel :: "string \<Rightarrow> string \<Rightarrow> string" where
  "stripEffortLabel lab eff =
     (let e = rx_seqs [RxStar (RxChar is_space), rx_opt (rx_lit ''(''), rx_lit_i eff, rx_opt (rx_lit '')''),
                RxStar (RxChar is_space), RxEnd]
      in trim (case rx_exec e lab of Some (m, _) \<Rightarrow> take (length lab - length m) lab | None \<Rightarrow> lab))"

definition fold_base :: "raw_model list \<Rightarrow> raw_model \<Rightarrow> (string \<times> string) option" where
  "fold_base raw r =
     foldr (\<lambda>eff rest.
       let suffix = ''-'' @ eff
       in if ends_with (slug r) suffix then
            (let base = take (length (slug r) - length suffix) (slug r);
                 hasBare = (base \<in> set (map slug raw));
                 hasSibling = list_ex (\<lambda>x. starts_with (slug x) (base @ ''-'') \<and>
                                list_ex (\<lambda>e. ends_with (slug x) (''-'' @ e)) EFFORT_SUFFIXES \<and> slug x \<noteq> slug r) raw
             in if hasBare \<or> hasSibling then Some (base, eff) else rest)
          else rest) EFFORT_SUFFIXES None"

type_synonym bases = "(string, string \<times> string list) jsmap"

fun fold_loop :: "raw_model list \<Rightarrow> raw_model list \<Rightarrow> bases \<Rightarrow> catalog_entry list \<Rightarrow> bases \<times> catalog_entry list" where
  "fold_loop raw [] bs verbatim = (bs, verbatim)"
| "fold_loop raw (r # rs) bs verbatim =
     (let keep = verbatim @ [\<lparr>entry_id = slug r, entry_name = label r, efforts = None\<rparr>]
      in if \<not> starts_with (slug r) ''gemini'' then fold_loop raw rs bs keep
         else case fold_base raw r of
                Some (base, eff) \<Rightarrow>
                  (let (lab, effs) = or_else (map_of bs base) (stripEffortLabel (label r) eff, [])
                   in fold_loop raw rs (jm_set base (lab, List.insert eff effs) bs) verbatim)
              | None \<Rightarrow> fold_loop raw rs bs keep)"

definition rank :: "raw_model list \<Rightarrow> catalog_entry \<Rightarrow> nat" where
  "rank raw e =
     foldr (\<lambda>i best. let s = slug (raw ! i) in
       if s = entry_id e \<or> starts_with s (entry_id e @ ''-'') then min i best else best)
       [0..<length raw] (length raw)"

definition folded_entry :: "string \<times> string \<times> string list \<Rightarrow> catalog_entry" where
  "folded_entry = (\<lambda>(i, lab, effs).
     let es = filter (\<lambda>e. e \<in> set effs) EFFORT_SUFFIXES
     in \<lparr>entry_id = i, entry_name = (if lab \<noteq> [] then lab else i), efforts = (if es \<noteq> [] then Some es else None)\<rparr>)"

definition foldEfforts :: "raw_model list \<Rightarrow> catalog_entry list" where
  "foldEfforts raw =
     (let (bs, verbatim) = fold_loop raw raw [] [];
          folded = map folded_entry bs
      in sort_key (rank raw) folded @
         filter (\<lambda>e. entry_id e \<notin> set (map fst bs)) (sort_key (rank raw) verbatim))"

definition buildFallbackCatalog :: "fallback_def list \<Rightarrow> catalog_entry list" where
  "buildFallbackCatalog defs =
     map (\<lambda>d. \<lparr>entry_id = trim (def_id d),
               entry_name = (case def_name d of
                  Some n \<Rightarrow> if trim n \<noteq> [] then trim n else trim (def_id d) | None \<Rightarrow> trim (def_id d)),
               efforts = (case def_efforts d of
                  Some es \<Rightarrow>
                    if length es > 0
                    then Some (filter (\<lambda>e. trim e \<noteq> []) (map_filter_opt (\<lambda>e. as_str (Some e)) es)) else None
                | None \<Rightarrow> None)\<rparr>)
       (filter (\<lambda>d. trim (def_id d) \<noteq> []) defs)"

section \<open>The catalog cache\<close>

text \<open>What one discovery run delivers: its stdout, or the error it threw.\<close>

datatype refresh_result = Fresh | Refreshed | RefreshFailed

definition refresh :: "(string \<Rightarrow> json option) \<Rightarrow> ms \<Rightarrow> string + string \<Rightarrow> catalog \<Rightarrow> refresh_result \<times> catalog" where
  "refresh jparse t run c =
     (case run of
        Inl err \<Rightarrow> (RefreshFailed, c\<lparr>lastError := Some err\<rparr>)
      | Inr stdout \<Rightarrow>
          (let raw = parseModelsOutput jparse stdout
           in if length raw > 0
              then (Refreshed, \<lparr>cat_source = Discovered, cat_models = foldEfforts raw, discoveredAt = t, lastError = None\<rparr>)
              else (RefreshFailed, c\<lparr>lastError := Some ''agy models returned no entries''\<rparr>)))"

definition new_catalog :: "fallback_def list \<Rightarrow> catalog" where
  "new_catalog defs = \<lparr>cat_source = Fallback, cat_models = buildFallbackCatalog defs, discoveredAt = 0, lastError = None\<rparr>"

definition refreshIfNeeded ::
  "(string \<Rightarrow> json option) \<Rightarrow> ms \<Rightarrow> ms \<Rightarrow> string + string \<Rightarrow> catalog \<Rightarrow> refresh_result \<times> catalog" where
  "refreshIfNeeded jparse ttlMs t run c =
     (if cat_source c = Discovered \<and> t - discoveredAt c < ttlMs then (Fresh, c) else refresh jparse t run c)"

section \<open>Aliases and lookups\<close>

definition resolveModelSlug :: "string \<Rightarrow> string" where
  "resolveModelSlug i =
     (let s = to_lower (trim i)
      in if s \<in> set [''claude-opus-4-6'', ''claude-opus-4-8'', ''claude-opus'', ''claude-opus-4.6'', ''claude-opus-4-5'']
         then ''claude-opus-4-6-thinking''
         else if s \<in> set [''claude-sonnet'', ''claude-sonnet-4.6'', ''claude-sonnet-4-5''] then ''claude-sonnet-4-6''
         else if s \<in> set [''gpt-oss-120b'', ''gpt-oss-20b'', ''gpt-oss''] then ''gpt-oss-120b-medium''
         else trim i)"

definition findEntry :: "catalog \<Rightarrow> string \<Rightarrow> catalog_entry option" where
  "findEntry c i =
     (case find (\<lambda>m. entry_id m = i) (cat_models c) of
        Some e \<Rightarrow> Some e
      | None \<Rightarrow>
          (let resolved = resolveModelSlug i
           in if resolved \<noteq> i then find (\<lambda>m. entry_id m = resolved) (cat_models c) else None))"

definition defaultEffortFor :: "catalog_entry \<Rightarrow> gateway_config \<Rightarrow> string option" where
  "defaultEffortFor e cfg =
     (case efforts e of
        None \<Rightarrow> None
      | Some es \<Rightarrow>
          if es = [] then None
          else if defaultEffort cfg \<noteq> [] \<and> defaultEffort cfg \<in> set es then Some (defaultEffort cfg)
          else (case find (\<lambda>p. p \<in> set es) [''high'', ''medium'', ''low''] of
                  Some p \<Rightarrow> Some p
                | None \<Rightarrow> Some (last es)))"

section \<open>Lemmas\<close>

lemma dedupe_loop_fresh: "r \<in> set (dedupe_loop seen raw) \<Longrightarrow> slug r \<notin> set seen"
  by (induction seen raw rule: dedupe_loop.induct) (auto simp: Let_def split: if_splits)

lemma dedupe_loop_distinct: "distinct (map slug (dedupe_loop seen raw))"
proof (induction seen raw rule: dedupe_loop.induct)
  case (2 seen r rs)
  show ?case
  proof (cases "trim (slug r) = [] \<or> trim (slug r) \<in> set seen")
    case True
    with 2(1) [OF refl True] show ?thesis by (simp add: Let_def)
  next
    case False
    have "trim (slug r) \<notin> slug ` set (dedupe_loop (trim (slug r) # seen) rs)"
      by (metis dedupe_loop_fresh imageE list.set_intros(1))
    with 2(2) [OF refl False] False show ?thesis by (simp add: Let_def)
  qed
qed simp

lemma parseModelsOutput_distinct: "distinct (map slug (parseModelsOutput jparse out))"
  by (simp add: parseModelsOutput_def dedupeBySlug_def dedupe_loop_distinct Let_def split: option.split)

lemma fold_loop_inv:
  assumes "fold_loop raw rs bs vb = (bs1, vb1)" "jm_wf bs" "distinct (map entry_id vb @ map slug rs)"
  shows "jm_wf bs1 \<and> distinct (map entry_id vb1)"
  using assms
proof (induction raw rs bs vb rule: fold_loop.induct)
  case (2 raw r rs bs vb)
  let ?k = "vb @ [\<lparr>entry_id = slug r, entry_name = label r, efforts = None\<rparr>]"
  have k: "distinct (map entry_id ?k @ map slug rs)" and v: "distinct (map entry_id vb @ map slug rs)"
    using "2.prems"(3) by auto
  show ?case
  proof (cases "starts_with (slug r) ''gemini''")
    case False
    with "2.prems"(1) have "fold_loop raw rs bs ?k = (bs1, vb1)" by (simp add: Let_def)
    from "2.IH"(1) [OF refl _ this "2.prems"(2) k] False show ?thesis by simp
  next
    case True
    show ?thesis
    proof (cases "fold_base raw r")
      case None
      with True "2.prems"(1) have "fold_loop raw rs bs ?k = (bs1, vb1)" by (simp add: Let_def)
      from "2.IH"(2) [OF refl _ None this "2.prems"(2) k] True show ?thesis by simp
    next
      case (Some be)
      obtain base eff where be: "be = (base, eff)" by (cases be)
      obtain lab effs where le: "or_else (map_of bs base) (stripEffortLabel (label r) eff, []) = (lab, effs)"
        by (metis surj_pair)
      from "2.prems"(1) True Some be le
      have "fold_loop raw rs (jm_set base (lab, List.insert eff effs) bs) vb = (bs1, vb1)" by (simp add: Let_def)
      from "2.IH"(3) [OF refl _ Some be [symmetric] le [symmetric] refl this jm_wf_jm_set [OF "2.prems"(2)] v] True
      show ?thesis by simp
    qed
  qed
qed simp

lemma entry_id_folded: "map entry_id (map folded_entry bs) = map fst bs"
  by (induction bs) (auto simp: folded_entry_def Let_def)

lemma distinct_map_sort_key: "distinct (map f (sort_key k xs)) = distinct (map f xs)"
  by (metis distinct_map distinct_sort set_sort)

lemma disjoint_image_filter: "S \<inter> f ` {x \<in> A. f x \<notin> S} = {}"
  by blast

lemma foldEfforts_distinct:
  assumes "distinct (map slug raw)"
  shows "distinct (map entry_id (foldEfforts raw))"
proof -
  obtain bs vb where f: "fold_loop raw raw [] [] = (bs, vb)" by (cases "fold_loop raw raw [] []")
  from fold_loop_inv [OF f] assms have inv: "distinct (map fst bs)" "distinct (map entry_id vb)"
    by (auto simp: jm_wf_def)
  have a: "distinct (map entry_id (sort_key (rank raw) (map folded_entry bs)))"
    unfolding distinct_map_sort_key entry_id_folded by (rule inv(1))
  have b: "distinct (map entry_id (filter (\<lambda>e. entry_id e \<notin> set (map fst bs)) (sort_key (rank raw) vb)))"
    using inv(2) by (intro distinct_map_filter) (simp add: distinct_map_sort_key)
  have c: "entry_id ` set (sort_key (rank raw) (map folded_entry bs)) = fst ` set bs"
    using arg_cong [OF entry_id_folded [of bs], of set] by (simp only: set_sort set_map)
  have d: "entry_id ` set (sort_key (rank raw) (map folded_entry bs)) \<inter>
      entry_id ` set (filter (\<lambda>e. entry_id e \<notin> set (map fst bs)) (sort_key (rank raw) vb)) = {}"
    unfolding c set_map set_filter by (rule disjoint_image_filter)
  show ?thesis
    unfolding foldEfforts_def f Let_def prod.case map_append distinct_append set_map [of entry_id] using a b d by blast
qed

text \<open>
  Whatever \<open>agy models\<close> prints (JSON or a table, with repeated or effort-suffixed slugs), the model ids of
  the catalog built from it are pairwise different, so the model listing never shows a model twice.
\<close>

lemma catalog_ids_unique: "distinct (map entry_id (foldEfforts (parseModelsOutput jparse out)))"
  by (intro foldEfforts_distinct parseModelsOutput_distinct)

end
