(* ===== verification/Recording.thy ===== *)
theory Recording
  imports Types
begin

text \<open>
  Run recordings: \<open>src/host/recording.ts\<close> (the append-only event log of one agy run, the call ids that
  address its tool steps, the bounded registry of runs) and the replaying tool of \<open>src/host/mirror.ts\<close>.

  A recording's waiters are the consumers parked in \<open>eventsFrom\<close>. A consumer is a cursor with what it
  has yielded so far; it runs until it blocks on the live end of the log or ends because the recording
  settled. Run identities come from \<open>randomUUID\<close> and are arguments.
\<close>

section \<open>One recording\<close>

datatype failure_kind = KindError | KindAborted

record recording_failure =
  rf_kind :: failure_kind
  rf_code :: err_code
  rf_message :: string

record run_recording =
  runId :: string
  events :: "agy_event list"
  rec_settled :: bool
  rec_failure :: "recording_failure option"
  resultConversationId :: "string option"
  lastStepUsageRaw :: "raw_usage option"
  droppedEvents :: nat
  keepForContinuation :: bool
  waiters :: "nat list"

definition MAX_EVENTS_PER_RUN :: nat where
  "MAX_EVENTS_PER_RUN = 20000"

definition new_recording :: "string \<Rightarrow> run_recording" where
  "new_recording i = \<lparr>runId = i, events = [], rec_settled = False, rec_failure = None, resultConversationId = None,
     lastStepUsageRaw = None, droppedEvents = 0, keepForContinuation = False, waiters = []\<rparr>"

definition is_result :: "agy_event \<Rightarrow> bool" where
  "is_result ev = (case ev of ResultEvent _ \<Rightarrow> True | _ \<Rightarrow> False)"

definition noteStepUsage :: "raw_usage \<Rightarrow> run_recording \<Rightarrow> run_recording" where
  "noteStepUsage raw r = r\<lparr>lastStepUsageRaw := Some raw\<rparr>"

definition finalUsage :: "run_recording \<Rightarrow> raw_usage \<Rightarrow> raw_usage" where
  "finalUsage r resultRaw = or_else (lastStepUsageRaw r) resultRaw"

definition wake :: "run_recording \<Rightarrow> run_recording" where
  "wake r = r\<lparr>waiters := []\<rparr>"

definition append_event :: "agy_event \<Rightarrow> run_recording \<Rightarrow> run_recording" where
  "append_event ev r =
     (if rec_settled r then r
      else
        let r1 = (case ev of
                    ResultEvent e \<Rightarrow> r\<lparr>resultConversationId := Some (res_conversationId e)\<rparr>
                  | StepEvent e \<Rightarrow>
                      (case step_usage e of
                         Some u \<Rightarrow> if u \<noteq> no_usage then noteStepUsage u r else r
                       | None \<Rightarrow> r)
                  | _ \<Rightarrow> r);
            r2 = (if \<not> is_result ev \<and> length (events r1) \<ge> MAX_EVENTS_PER_RUN
                  then r1\<lparr>droppedEvents := droppedEvents r1 + 1\<rparr>
                  else r1\<lparr>events := events r1 @ [ev]\<rparr>)
        in wake r2)"

definition settle_rec :: "recording_failure option \<Rightarrow> run_recording \<Rightarrow> run_recording" where
  "settle_rec f r = (if rec_settled r then r else wake (r\<lparr>rec_settled := True, rec_failure := f\<rparr>))"

definition hasResult :: "run_recording \<Rightarrow> bool" where
  "hasResult r = (resultConversationId r \<noteq> None \<or> list_ex is_result (events r))"

definition last_result :: "run_recording \<Rightarrow> result_event option" where
  "last_result r = (case find is_result (rev (events r)) of Some (ResultEvent e) \<Rightarrow> Some e | _ \<Rightarrow> None)"

definition getResultEvent :: "run_recording \<Rightarrow> (bool \<times> string) option" where
  "getResultEvent r = map_option (\<lambda>e. (res_ok e, response e)) (last_result r)"

definition getResultRawUsage :: "run_recording \<Rightarrow> raw_usage option" where
  "getResultRawUsage r =
     (case last_result r of
        Some e \<Rightarrow> if res_usage e \<noteq> no_usage then Some (res_usage e) else None
      | None \<Rightarrow> None)"

definition eventAt :: "run_recording \<Rightarrow> nat \<Rightarrow> agy_event option" where
  "eventAt r i = (if i < length (events r) then Some (events r ! i) else None)"

definition sawTextBefore :: "run_recording \<Rightarrow> nat \<Rightarrow> bool" where
  "sawTextBefore r index =
     list_ex (\<lambda>ev. case ev of StepEvent e \<Rightarrow> stepKind e = KText \<and> step_text e \<noteq> [] | _ \<Rightarrow> False)
       (take (min index (length (events r))) (events r))"

definition hasClientMappedEvents :: "run_recording \<Rightarrow> bool" where
  "hasClientMappedEvents r = list_ex (\<lambda>ev. case ev of StepEvent e \<Rightarrow> True | _ \<Rightarrow> False) (events r)"

definition toolEventAt :: "run_recording \<Rightarrow> nat \<Rightarrow> agy_tool_info option" where
  "toolEventAt r i =
     (case eventAt r i of
        Some (StepEvent e) \<Rightarrow> if stepKind e = KTool then tool e else None
      | _ \<Rightarrow> None)"

section \<open>Consumers\<close>

record consumer =
  con_id :: nat
  cursor :: nat
  yielded :: "agy_event list"
  ended :: bool

definition new_consumer :: "nat \<Rightarrow> nat \<Rightarrow> consumer" where
  "new_consumer i from_index = \<lparr>con_id = i, cursor = from_index, yielded = [], ended = False\<rparr>"

text \<open>One resumption of \<open>eventsFrom\<close>: yield what is there, then end or park.\<close>

definition eventsFrom_run :: "run_recording \<Rightarrow> consumer \<Rightarrow> run_recording \<times> consumer" where
  "eventsFrom_run r c =
     (if ended c then (r, c)
      else let c1 = c\<lparr>yielded := yielded c @ drop (cursor c) (events r), cursor := max (cursor c) (length (events r))\<rparr>
        in if rec_settled r then (r, c1\<lparr>ended := True\<rparr>)
           else (r\<lparr>waiters := List.insert (con_id c) (waiters r)\<rparr>, c1))"

section \<open>Call ids\<close>

definition AGY_CALL_PREFIX :: string where
  "AGY_CALL_PREFIX = ''agytc-''"

definition mirrorCallId :: "string \<Rightarrow> nat \<Rightarrow> string" where
  "mirrorCallId run eventIndex = AGY_CALL_PREFIX @ run @ ''-'' @ show_nat eventIndex"

definition parseMirrorCallId :: "string \<Rightarrow> (string \<times> nat) option" where
  "parseMirrorCallId callId =
     (if \<not> starts_with callId AGY_CALL_PREFIX then None
      else let rest = drop (length AGY_CALL_PREFIX) callId
        in case last_index_of rest (CHR ''-'') of
             None \<Rightarrow> None
           | Some idx \<Rightarrow>
               if idx \<le> 0 then None
               else (case js_number (drop (idx + 1) rest) of
                       None \<Rightarrow> None
                     | Some n \<Rightarrow> if \<not> is_safe_integer n \<or> n < 0 then None else Some (take idx rest, nat \<lfloor>n\<rfloor>)))"

section \<open>The registry\<close>

type_synonym registry = "(string, run_recording) jsmap"

definition MAX_RETAINED_RUNS :: nat where
  "MAX_RETAINED_RUNS = 8"

definition evict_class :: "run_recording \<Rightarrow> nat" where
  "evict_class r = (if rec_settled r then (if keepForContinuation r then 2 else 1) else 3)"

fun pick_victim_loop :: "registry \<Rightarrow> string option \<Rightarrow> nat \<Rightarrow> string option" where
  "pick_victim_loop [] fallback fallbackClass = fallback"
| "pick_victim_loop ((i, r) # rest) fallback fallbackClass =
     (if evict_class r < fallbackClass
      then (if evict_class r = 1 then Some i else pick_victim_loop rest (Some i) (evict_class r))
      else pick_victim_loop rest fallback fallbackClass)"

definition pickVictim :: "registry \<Rightarrow> string option" where
  "pickVictim runs = pick_victim_loop runs None 4"

function evict :: "nat \<Rightarrow> registry \<Rightarrow> registry" where
  "evict cap runs =
     (if length runs > max 1 cap then
        (case pickVictim runs of
           None \<Rightarrow> runs
         | Some v \<Rightarrow> if length (jm_del v runs) < length runs then evict cap (jm_del v runs) else runs)
      else runs)"
  by pat_completeness auto

termination
  by (relation "measure (\<lambda>(cap, runs). length runs)") auto

declare evict.simps [simp del]

definition remember :: "nat \<Rightarrow> run_recording \<Rightarrow> registry \<Rightarrow> registry" where
  "remember cap r runs = evict cap (jm_set (runId r) r runs)"

definition forget :: "string \<Rightarrow> registry \<Rightarrow> registry" where
  "forget i runs = jm_del i runs"

section \<open>The mirror tool\<close>

definition MIRROR_TOOL_NAME :: string where
  "MIRROR_TOOL_NAME = ''agy_tool''"

text \<open>\<open>JSON.stringify(out, null, 2)\<close> is the parameter \<open>pretty\<close>; only its result is passed on.\<close>

definition executeMirrorTool :: "(json \<Rightarrow> string) \<Rightarrow> registry \<Rightarrow> json \<Rightarrow> string + string" where
  "executeMirrorTool pretty runs args =
     (let run = or_else (as_str (jget args ''run'')) [];
          step = or_else (as_num (jget args ''step'')) (- 1)
      in case map_of runs run of
           None \<Rightarrow> Inl (''agy_tool: no recorded agy run '' @ [CHR 0x22] @ run @ [CHR 0x22] @ '' '' @ em_dash @
             '' this tool only replays bridge-recorded activity'')
         | Some r \<Rightarrow>
             (case (if is_integer step \<and> 0 \<le> step then toolEventAt r (nat \<lfloor>step\<rfloor>) else None) of
                None \<Rightarrow> Inl (''agy_tool: event '' @ show_rat step @ '' of run '' @ run @ '' is not a completed tool step'')
              | Some t \<Rightarrow>
                  (case tool_error t of
                     Some e \<Rightarrow> Inl (''agy tool '' @ tool_name t @ '' failed: '' @ e)
                   | None \<Rightarrow>
                       (case tool_output t of
                          None \<Rightarrow> Inr []
                        | Some JNull \<Rightarrow> Inr []
                        | Some (JStr s) \<Rightarrow> Inr s
                        | Some v \<Rightarrow> Inr (pretty v)))))"

section \<open>Call ids read back\<close>

text \<open>Parsing a minted call id gives back the run and the event index, hyphens in the run id included.\<close>

lemma mirrorCallId_roundtrip:
  assumes "run \<noteq> []" "n \<le> 9007199254740991"
  shows "parseMirrorCallId (mirrorCallId run n) = Some (run, n)"
proof -
  have nd: "CHR ''-'' \<notin> set (show_nat n)" using show_nat_digits [of "CHR ''-''" n] by (auto simp: is_digit_def)
  have rest: "drop (length AGY_CALL_PREFIX) (mirrorCallId run n) = run @ CHR ''-'' # show_nat n"
    by (simp add: mirrorCallId_def)
  have "starts_with (mirrorCallId run n) AGY_CALL_PREFIX"
    by (simp add: mirrorCallId_def starts_with_iff_prefix)
  moreover have "is_safe_integer (of_nat n)"
    using assms(2) by (simp add: is_safe_integer_def is_integer_def)
  ultimately show ?thesis
    unfolding parseMirrorCallId_def Let_def rest last_index_of_append_Cons [OF nd]
    using assms(1) by (simp add: js_number_show_nat)
qed

section \<open>Eviction\<close>

lemma evict_class_pos: "1 \<le> evict_class r" "evict_class r \<le> 3"
  by (simp_all add: evict_class_def)

text \<open>\<open>first_min runs v\<close>: \<open>v\<close> is the oldest recording of the lowest class.\<close>

definition first_min :: "registry \<Rightarrow> string \<Rightarrow> bool" where
  "first_min runs v =
     (\<exists>pre r post. runs = pre @ (v, r) # post \<and> (\<forall>(j, s) \<in> set pre. evict_class r < evict_class s) \<and>
        (\<forall>(j, s) \<in> set post. evict_class r \<le> evict_class s))"

lemma pick_victim_loop_spec:
  "(\<forall>(j, s) \<in> set runs. fc \<le> evict_class s) \<and> pick_victim_loop runs fb fc = fb \<or>
   (\<exists>pre v r post. pick_victim_loop runs fb fc = Some v \<and> runs = pre @ (v, r) # post \<and> evict_class r < fc \<and>
      (\<forall>(j, s) \<in> set pre. evict_class r < evict_class s) \<and> (\<forall>(j, s) \<in> set post. evict_class r \<le> evict_class s))"
proof (induction runs fb fc rule: pick_victim_loop.induct)
  case (2 i r rest fb fc)
  show ?case
  proof (cases "evict_class r < fc")
    case False
    from "2.IH"(2) [OF False] show ?thesis
    proof (elim disjE exE conjE)
      fix pre v s post
      assume *: "pick_victim_loop rest fb fc = Some v" "rest = pre @ (v, s) # post" "evict_class s < fc"
        "\<forall>(j, t) \<in> set pre. evict_class s < evict_class t" "\<forall>(j, t) \<in> set post. evict_class s \<le> evict_class t"
      with False show ?thesis
        by (intro disjI2 exI [of _ "(i, r) # pre"] exI [of _ v] exI [of _ s] exI [of _ post]) auto
    qed (use False in auto)
  next
    case True
    show ?thesis
    proof (cases "evict_class r = 1")
      case one: True
      with True evict_class_pos(1) show ?thesis
        by (intro disjI2 exI [of _ "[]"] exI [of _ i] exI [of _ r] exI [of _ rest]) auto
    next
      case False
      from "2.IH"(1) [OF True False] show ?thesis
      proof (elim disjE exE conjE)
        assume "\<forall>(j, s) \<in> set rest. evict_class r \<le> evict_class s"
          "pick_victim_loop rest (Some i) (evict_class r) = Some i"
        with True False show ?thesis
          by (intro disjI2 exI [of _ "[]"] exI [of _ i] exI [of _ r] exI [of _ rest]) auto
      next
        fix pre v s post
        assume "pick_victim_loop rest (Some i) (evict_class r) = Some v" "rest = pre @ (v, s) # post"
          "evict_class s < evict_class r" "\<forall>(j, t) \<in> set pre. evict_class s < evict_class t"
          "\<forall>(j, t) \<in> set post. evict_class s \<le> evict_class t"
        with True False show ?thesis
          by (intro disjI2 exI [of _ "(i, r) # pre"] exI [of _ v] exI [of _ s] exI [of _ post]) auto
      qed
    qed
  qed
qed auto

lemma pickVictim_first_min: "runs \<noteq> [] \<Longrightarrow> \<exists>v. pickVictim runs = Some v \<and> first_min runs v"
proof -
  assume "runs \<noteq> []"
  then obtain i r rest where "runs = (i, r) # rest" by (metis list.exhaust surj_pair)
  with evict_class_pos(2) [of r] have "\<not> (\<forall>(j, s) \<in> set runs. 4 \<le> evict_class s)" by auto
  with pick_victim_loop_spec [of runs 4 None] show ?thesis
    unfolding pickVictim_def first_min_def by blast
qed

lemma pickVictim_Some: "pickVictim runs = Some v \<Longrightarrow> first_min runs v"
  using pickVictim_first_min [of runs] by (cases "runs = []") (auto simp: pickVictim_def)

lemma first_min_del:
  assumes "first_min runs v" "jm_wf runs"
  obtains pre r post where "runs = pre @ (v, r) # post" "jm_del v runs = pre @ post"
    "\<forall>(j, s) \<in> set (pre @ post). evict_class r \<le> evict_class s"
proof -
  from assms(1) obtain pre r post where *: "runs = pre @ (v, r) # post"
    "\<forall>(j, s) \<in> set pre. evict_class r < evict_class s" "\<forall>(j, s) \<in> set post. evict_class r \<le> evict_class s"
    by (auto simp: first_min_def)
  from assms(2) *(1) have "\<forall>e \<in> set pre. fst e \<noteq> v" "\<forall>e \<in> set post. fst e \<noteq> v"
    by (auto simp: jm_wf_def image_iff)
  then have "jm_del v runs = pre @ post" by (simp add: *(1) jm_del_def filter_id_conv)
  with * that show thesis by fastforce
qed

lemma evict_step:
  assumes "jm_wf runs" "length runs > max 1 cap"
  obtains pre v r post where "runs = pre @ (v, r) # post" "evict cap runs = evict cap (pre @ post)"
    "jm_wf (pre @ post)" "\<forall>j s. (j, s) \<in> set (pre @ post) \<longrightarrow> evict_class r \<le> evict_class s"
proof -
  from assms(2) have "runs \<noteq> []" by auto
  then obtain v where v: "pickVictim runs = Some v" "first_min runs v" using pickVictim_first_min by blast
  from first_min_del [OF v(2) assms(1)] obtain pre r post where p: "runs = pre @ (v, r) # post"
    "jm_del v runs = pre @ post" "\<forall>(j, s) \<in> set (pre @ post). evict_class r \<le> evict_class s" by blast
  have len: "length (jm_del v runs) < length runs" unfolding p(2) by (simp add: p(1))
  have "evict cap runs = evict cap (jm_del v runs)"
    by (subst evict.simps) (simp only: assms(2) v(1) len if_True option.case)
  moreover have "jm_wf (pre @ post)" using jm_wf_jm_del [OF assms(1), of v] by (simp only: p(2))
  moreover have "\<forall>j s. (j, s) \<in> set (pre @ post) \<longrightarrow> evict_class r \<le> evict_class s"
    using p(3) by fast
  ultimately show thesis by (intro that [OF p(1)]) (simp_all only: p(2))
qed

lemma evict_done: "\<not> length runs > max 1 cap \<Longrightarrow> evict cap runs = runs"
  by (subst evict.simps) (simp only: if_False)

lemma evict_length: "jm_wf runs \<Longrightarrow> length (evict cap runs) \<le> max 1 cap"
proof (induction "length runs" arbitrary: runs rule: less_induct)
  case less
  show ?case
  proof (cases "length runs > max 1 cap")
    case True
    from evict_step [OF less.prems True] obtain pre v r post where
      "runs = pre @ (v, r) # post" "evict cap runs = evict cap (pre @ post)" "jm_wf (pre @ post)" by metis
    with less.hyps [of "pre @ post"] show ?thesis by simp
  next
    case False
    from leI [OF this] show ?thesis by (simp only: evict_done [OF False])
  qed
qed

lemma evict_subseq: "jm_wf runs \<Longrightarrow> subseq (evict cap runs) runs"
proof (induction "length runs" arbitrary: runs rule: less_induct)
  case less
  show ?case
  proof (cases "length runs > max 1 cap")
    case True
    from evict_step [OF less.prems True] obtain pre v r post where p:
      "runs = pre @ (v, r) # post" "evict cap runs = evict cap (pre @ post)" "jm_wf (pre @ post)" by metis
    from less.hyps [of "pre @ post"] p have "subseq (evict cap runs) (pre @ post)" by simp
    moreover have "subseq (pre @ post) runs" unfolding p(1)
      by (rule list_emb_append_mono [OF subseq_order.order_refl]) (rule list_emb_Cons, rule subseq_order.order_refl)
    ultimately show ?thesis by (rule subseq_order.order_trans)
  next
    case False
    show ?thesis by (simp only: evict_done [OF False] subseq_order.order_refl)
  qed
qed

lemma evict_prefers:
  "jm_wf runs \<Longrightarrow> (v, x) \<in> set runs \<Longrightarrow> (v, x) \<notin> set (evict cap runs) \<Longrightarrow> (k, s) \<in> set (evict cap runs) \<Longrightarrow>
   evict_class x \<le> evict_class s"
proof (induction "length runs" arbitrary: runs rule: less_induct)
  case less
  show ?case
  proof (cases "length runs > max 1 cap")
    case True
    show ?thesis
    proof (rule evict_step [OF less.prems(1) True])
      fix pre w r post
      assume p: "runs = pre @ (w, r) # post" "evict cap runs = evict cap (pre @ post)" "jm_wf (pre @ post)"
        "\<forall>j s. (j, s) \<in> set (pre @ post) \<longrightarrow> evict_class r \<le> evict_class s"
      from less.prems(3,4) have ev: "(v, x) \<notin> set (evict cap (pre @ post))" "(k, s) \<in> set (evict cap (pre @ post))"
        by (simp_all add: p(2))
      have "(k, s) \<in> set (pre @ post)"
        by (rule subsetD [OF subseq_set [OF evict_subseq [OF p(3)]] ev(2)])
      then have rs: "evict_class r \<le> evict_class s" using p(4) by blast
      from less.prems(2) consider "x = r" | "(v, x) \<in> set (pre @ post)"
        unfolding p(1) by auto
      then show ?thesis
      proof cases
        case 2
        have "length (pre @ post) < length runs" by (simp add: p(1))
        from less.hyps [OF this p(3) 2 ev] show ?thesis .
      qed (simp add: rs)
    qed
  next
    case False
    from less.prems(2,3) show ?thesis unfolding evict_done [OF False] by contradiction
  qed
qed

text \<open>
  The registry of runs stays within its capacity, keeps the surviving runs in insertion order, and never
  evicts a run while keeping one of a more dispensable class: an in-flight run goes only when no settled
  run is left, a run awaiting its continuation only when no finished one is left.
\<close>

lemma remember_bounded_preferring:
  assumes "jm_wf runs" "runs' = jm_set (runId r) r runs" "kept = remember cap r runs"
  shows "length kept \<le> max 1 cap \<and> subseq kept runs' \<and>
    (\<forall>(v, x) \<in> set runs' - set kept. \<forall>(k, s) \<in> set kept. evict_class x \<le> evict_class s)"
proof -
  have wf: "jm_wf runs'" unfolding assms(2) by (rule jm_wf_jm_set [OF assms(1)])
  have k: "kept = evict cap runs'" by (simp add: assms(2,3) remember_def)
  show ?thesis
    unfolding k using evict_length [OF wf] evict_subseq [OF wf] evict_prefers [OF wf] by fast
qed


section \<open>Consumers see every event\<close>

datatype rec_op = RAppend agy_event | RSettle "recording_failure option" | RRun

fun rec_step :: "run_recording \<times> consumer \<Rightarrow> rec_op \<Rightarrow> run_recording \<times> consumer" where
  "rec_step (r, c) (RAppend ev) = (append_event ev r, c)"
| "rec_step (r, c) (RSettle f) = (settle_rec f r, c)"
| "rec_step (r, c) RRun = eventsFrom_run r c"

definition consumer_inv :: "nat \<Rightarrow> run_recording \<times> consumer \<Rightarrow> bool" where
  "consumer_inv start = (\<lambda>(r, c).
     start \<le> cursor c \<and> yielded c = drop start (take (cursor c) (events r)) \<and>
     (cursor c \<le> length (events r) \<or> cursor c = start) \<and>
     (con_id c \<in> set (waiters r) \<longrightarrow> length (events r) \<le> cursor c \<and> \<not> rec_settled r) \<and>
     (ended c \<longrightarrow> rec_settled r \<and> length (events r) \<le> cursor c))"

lemma append_event_events:
  "events (append_event ev r) = events r \<or> (events (append_event ev r) = events r @ [ev] \<and> \<not> rec_settled r)"
  "rec_settled (append_event ev r) = rec_settled r"
  "rec_settled r \<or> waiters (append_event ev r) = []"
  by (auto simp: append_event_def Let_def wake_def noteStepUsage_def split: agy_event.splits option.splits)

lemma consumer_inv_append: "consumer_inv start (r, c) \<Longrightarrow> consumer_inv start (append_event ev r, c)"
proof (cases "rec_settled r")
  case True
  then show "consumer_inv start (r, c) \<Longrightarrow> ?thesis" by (simp add: append_event_def)
next
  case False
  assume inv: "consumer_inv start (r, c)"
  show ?thesis
    using append_event_events [where ev = ev and r = r] inv False by (auto simp: consumer_inv_def)
qed

lemma consumer_inv_run: "consumer_inv start (r, c) \<Longrightarrow> consumer_inv start (eventsFrom_run r c)"
proof -
  assume inv: "consumer_inv start (r, c)"
  have "drop start (take (cursor c) (events r)) @ drop (cursor c) (events r) = drop start (events r)"
    if "start \<le> cursor c" "cursor c \<le> length (events r)"
  proof -
    have "drop start (take (cursor c) (events r) @ drop (cursor c) (events r)) =
        drop start (take (cursor c) (events r)) @ drop (cursor c) (events r)"
      using that by (simp only: drop_append length_take) (simp add: min_def)
    then show ?thesis by simp
  qed
  with inv show ?thesis
    by (auto simp: consumer_inv_def eventsFrom_run_def Let_def max_def split: if_splits)
qed

lemma rec_step_inv: "consumer_inv start s \<Longrightarrow> True \<Longrightarrow> consumer_inv start (rec_step s op)"
proof -
  assume inv: "consumer_inv start s"
  obtain r c where s: "s = (r, c)" by (cases s)
  show ?thesis
  proof (cases op)
    case (RSettle f)
    with inv s show ?thesis by (auto simp: consumer_inv_def settle_rec_def wake_def)
  qed (use inv s consumer_inv_append consumer_inv_run in auto)
qed

interpretation rec_run: stepwise rec_step "\<lambda>_ _. True" "consumer_inv start" for start
  by unfold_locales (rule rec_step_inv)

text \<open>
  C14. A span sees exactly the recorded events: however appends, settlement and the consumer's own progress
  interleave, what it has yielded is the log from its start index up to its cursor, in order and without
  gaps; it never sleeps while there is something to read (a parked consumer has read everything of a live
  run); and once it has ended it has yielded the whole rest of the log.
\<close>

theorem eventsFrom_complete:
  assumes "(r, c) = foldl rec_step (new_recording i, new_consumer k start) ops"
  shows "yielded c = drop start (take (cursor c) (events r)) \<and>
    (con_id c \<in> set (waiters r) \<longrightarrow> drop (cursor c) (events r) = [] \<and> \<not> rec_settled r) \<and>
    (ended c \<longrightarrow> yielded c = drop start (events r))"
proof -
  have "consumer_inv start (new_recording i, new_consumer k start)"
    by (simp add: consumer_inv_def new_recording_def new_consumer_def)
  from rec_run.run_inv [OF this ok_run_True, of ops] show ?thesis
    by (auto simp: assms [symmetric] consumer_inv_def)
qed

theorem eventsFrom_complete_witness:
  "let (r, c) = foldl rec_step (new_recording ''a'', new_consumer 0 1)
       [RAppend (GarbageEvent ''x''), RRun, RAppend (GarbageEvent ''y''), RRun, RAppend (GarbageEvent ''z''), RSettle None, RRun]
   in ended c \<and> yielded c = [GarbageEvent ''y'', GarbageEvent ''z'']"
proof -
  let ?ops = "[RAppend (GarbageEvent ''x''), RRun, RAppend (GarbageEvent ''y''), RRun, RAppend (GarbageEvent ''z''),
      RSettle None, RRun]"
  obtain r c where rc: "(r, c) = foldl rec_step (new_recording ''a'', new_consumer 0 1) ?ops"
    by (metis surj_pair)
  then have "ended c \<and> events r = [GarbageEvent ''x'', GarbageEvent ''y'', GarbageEvent ''z'']"
    by (simp add: new_recording_def new_consumer_def append_event_def settle_rec_def eventsFrom_run_def wake_def
        is_result_def MAX_EVENTS_PER_RUN_def Let_def)
  moreover from this have "yielded c = [GarbageEvent ''y'', GarbageEvent ''z'']"
    using eventsFrom_complete [OF rc, THEN conjunct2, THEN conjunct2] by simp
  ultimately show ?thesis unfolding rc [symmetric] by simp
qed

text \<open>
  Recorded events never move: appending keeps every stored event at its index, so a call id stays valid
  for the life of the recording; and beyond the cap only result envelopes are stored.
\<close>

lemma append_event_stable:
  "prefix (events r) (events (append_event ev r)) \<and>
   length (filter (\<lambda>e. \<not> is_result e) (events (append_event ev r))) \<le>
     max MAX_EVENTS_PER_RUN (length (filter (\<lambda>e. \<not> is_result e) (events r)))"
proof -
  have "length (filter (\<lambda>e. \<not> is_result e) (events r)) \<le> length (events r)" by simp
  then have "Suc (length (filter (\<lambda>e. \<not> is_result e) (events r))) \<le> max MAX_EVENTS_PER_RUN x"
    if "\<not> MAX_EVENTS_PER_RUN \<le> length (events r)" for x
    using that by linarith
  then show ?thesis
    by (auto simp: append_event_def Let_def wake_def noteStepUsage_def split: agy_event.splits option.splits)
qed

end
