(* ===== verification/Persist.thy ===== *)
theory Persist
  imports Prelude
begin

text \<open>
  The contract of the gateway's debounced JSON stores (the account pool and the session bindings): a change
  marks the store dirty and arms a timer, saving writes the whole content. A store is \<open>safe\<close> when what is
  not on disk has a pending write.
\<close>

locale debounced =
  fixes content :: "'m \<Rightarrow> 'd"
    and dirty :: "'m \<Rightarrow> bool"
    and armed :: "'m \<Rightarrow> bool"
    and stored :: "'m \<Rightarrow> 'd"
    and save :: "'m \<Rightarrow> 'm"
    and mark :: "'m \<Rightarrow> 'm"
  assumes save_content: "content (save m) = content m"
    and save_clean: "\<not> dirty (save m)"
    and save_stored: "stored (save m) = content m"
    and mark_content: "content (mark m) = content m"
    and mark_dirty: "dirty (mark m)"
    and mark_armed: "armed (mark m)"
begin

definition safe :: "'m \<Rightarrow> bool" where
  "safe m = ((dirty m \<longrightarrow> armed m) \<and> (\<not> dirty m \<longrightarrow> stored m = content m))"

lemma safe_save: "safe (save m)"
  by (simp add: safe_def save_clean save_stored save_content)

lemma safe_mark: "safe (mark m)"
  by (simp add: safe_def mark_dirty mark_armed)

lemma flush_stored: "safe m \<Longrightarrow> stored (if dirty m then save m else m) = content m"
  by (simp add: safe_def save_stored)

end

end
