(* ===== verification/Sessions.thy ===== *)
theory Sessions
  imports Persist
begin

text \<open>
  The session binding store, class \<open>SessionStore\<close> of \<open>src/host/sessions.ts\<close>: gateway session keys to agy
  conversations, with the same debounced persistence as the account pool. \<open>sfile\<close> is what the file holds;
  \<open>ok\<close> says whether the file system accepts a write or a rename.
\<close>

record session_binding =
  conversationId :: string
  lastMessageCount :: nat
  bound_at :: ms
  bound_model :: "string option"

datatype session_file = NoSessions | BadSessions | Sessions "(string, session_binding) jsmap"

record session_store =
  bindings :: "(string, session_binding) jsmap"
  sess_dirty :: bool
  sess_timer :: bool
  lastPersistWarn :: ms
  sfile :: session_file
  bad_files :: "session_file list"

definition SESS_WARN_MS :: ms where
  "SESS_WARN_MS = 60000"

definition load_sessions :: "bool \<Rightarrow> session_store \<Rightarrow> session_store" where
  "load_sessions ok s =
     (case sfile s of
        NoSessions \<Rightarrow> s
      | Sessions m \<Rightarrow> s\<lparr>bindings := m\<rparr>
      | BadSessions \<Rightarrow> if ok then s\<lparr>sfile := NoSessions, bad_files := bad_files s @ [sfile s]\<rparr> else s)"

definition new_store :: "bool \<Rightarrow> session_file \<Rightarrow> session_store" where
  "new_store ok f = load_sessions ok
     \<lparr>bindings = [], sess_dirty = False, sess_timer = False, lastPersistWarn = 0, sfile = f, bad_files = []\<rparr>"

definition persist_sessions :: "bool \<Rightarrow> ms \<Rightarrow> session_store \<Rightarrow> session_store" where
  "persist_sessions ok t s =
     (let s1 = s\<lparr>sess_dirty := False, sess_timer := False\<rparr>
      in if ok then s1\<lparr>sfile := Sessions (bindings s1)\<rparr>
         else if t - lastPersistWarn s1 > SESS_WARN_MS then s1\<lparr>lastPersistWarn := t\<rparr> else s1)"

definition sessions_soon :: "session_store \<Rightarrow> session_store" where
  "sessions_soon s = s\<lparr>sess_dirty := True, sess_timer := True\<rparr>"

definition sessions_timer :: "bool \<Rightarrow> ms \<Rightarrow> session_store \<Rightarrow> session_store" where
  "sessions_timer ok t s =
     (let s1 = s\<lparr>sess_timer := False\<rparr> in if sess_dirty s1 then persist_sessions ok t s1 else s1)"

definition flush_sessions :: "bool \<Rightarrow> ms \<Rightarrow> session_store \<Rightarrow> session_store" where
  "flush_sessions ok t s = (if sess_dirty s then persist_sessions ok t s else s)"

definition get_binding :: "session_store \<Rightarrow> string \<Rightarrow> session_binding option" where
  "get_binding s k = map_of (bindings s) k"

definition set_binding :: "string \<Rightarrow> session_binding \<Rightarrow> session_store \<Rightarrow> session_store" where
  "set_binding k b s = sessions_soon (s\<lparr>bindings := jm_set k b (bindings s)\<rparr>)"

definition delete_binding :: "string \<Rightarrow> session_store \<Rightarrow> session_store" where
  "delete_binding k s = sessions_soon (s\<lparr>bindings := jm_del k (bindings s)\<rparr>)"

definition clear_bindings :: "session_store \<Rightarrow> session_store" where
  "clear_bindings s = sessions_soon (s\<lparr>bindings := []\<rparr>)"

interpretation sess: debounced bindings sess_dirty sess_timer "\<lambda>s. bindings (new_store True (sfile s))"
  "persist_sessions True t" sessions_soon for t
  by unfold_locales (simp_all add: persist_sessions_def sessions_soon_def new_store_def load_sessions_def Let_def)

lemma get_set_binding: "get_binding (set_binding k b s) j = (if j = k then Some b else get_binding s j)"
  by (simp add: get_binding_def set_binding_def sessions_soon_def)

lemma get_delete_binding: "get_binding (delete_binding k s) j = (if j = k then None else get_binding s j)"
  by (simp add: get_binding_def delete_binding_def sessions_soon_def)

lemma sessions_safe:
  "sess.safe (set_binding k b s)" "sess.safe (delete_binding k s)" "sess.safe (clear_bindings s)"
  "sess.safe (persist_sessions True t s)"
  by (simp_all add: set_binding_def delete_binding_def clear_bindings_def sess.safe_mark sess.safe_save)

text \<open>
  A binding survives a restart: once it is set, a successful flush followed by loading the file returns it
  for its key and leaves the other keys as they were.
\<close>

lemma binding_survives_restart:
  "get_binding (new_store ok (sfile (flush_sessions True t (set_binding k b s)))) j =
     (if j = k then Some b else get_binding s j)"
  by (simp add: get_binding_def flush_sessions_def new_store_def load_sessions_def persist_sessions_def set_binding_def
      sessions_soon_def Let_def)

end
