(* ===== verification/Tokens.thy ===== *)
theory Tokens
  imports Prelude
begin

text \<open>
  Token estimation and output budgets: \<open>src/server/tokens.ts\<close>, \<open>src/server/max-tokens.ts\<close> and the
  class \<open>OutputBudget\<close> of \<open>src/server/stream-guards.ts\<close>.

  Text is a list of 16-bit code units here, because the estimator walks code units and its
  equivalence with a walk over code points hangs on the surrogate range. The estimate is
  accumulated in multiples of one sixteenth, which a double represents exactly for any text shorter
  than \<open>2 ^ 49\<close>, so exact rationals stand for the doubles.
\<close>

type_synonym code_unit = "16 word"

section \<open>Classification\<close>

definition cjk_re :: "code_unit \<Rightarrow> bool" where
  "cjk_re c = ((0x3000 \<le> c \<and> c \<le> 0x9fff) \<or> (0x3040 \<le> c \<and> c \<le> 0x30ff) \<or>
     (0xf900 \<le> c \<and> c \<le> 0xfaff) \<or> (0xff00 \<le> c \<and> c \<le> 0xffef) \<or> (0xac00 \<le> c \<and> c \<le> 0xd7af))"

text \<open>The regular expression \<open>\\s\<close> on one code unit.\<close>

definition ws_re :: "code_unit \<Rightarrow> bool" where
  "ws_re c = ((9 \<le> c \<and> c \<le> 13) \<or> c = 32 \<or> c = 160 \<or> c = 0x1680 \<or> (0x2000 \<le> c \<and> c \<le> 0x200a) \<or>
     c = 0x2028 \<or> c = 0x2029 \<or> c = 0x202f \<or> c = 0x205f \<or> c = 0x3000 \<or> c = 0xfeff)"

datatype cls = CLS_OTHER | CLS_CJK | CLS_WS

definition CLS :: "code_unit \<Rightarrow> cls" where
  "CLS c = (if cjk_re c then CLS_CJK else if ws_re c then CLS_WS else CLS_OTHER)"

definition high_surrogate :: "code_unit \<Rightarrow> bool" where
  "high_surrogate c = (0xd800 \<le> c \<and> c < 0xdc00)"

definition low_surrogate :: "code_unit \<Rightarrow> bool" where
  "low_surrogate c = (0xdc00 \<le> c \<and> c < 0xe000)"

section \<open>The estimator\<close>

definition step_cls :: "cls \<Rightarrow> rat \<times> rat \<Rightarrow> rat \<times> rat" where
  "step_cls k = (\<lambda>(tokens, latinRun).
     case k of
       CLS_CJK \<Rightarrow> (tokens + (1 + latinRun / 4), 0)
     | CLS_WS \<Rightarrow> (tokens, latinRun + 1 / 4)
     | CLS_OTHER \<Rightarrow> (tokens, latinRun + 1))"

fun estimate_loop :: "rat \<times> rat \<Rightarrow> code_unit list \<Rightarrow> rat \<times> rat" where
  "estimate_loop st [] = st"
| "estimate_loop st [c] = step_cls (CLS c) st"
| "estimate_loop st (c # d # cs) =
     (if high_surrogate c \<and> low_surrogate d then estimate_loop (fst st, snd st + 1) cs
      else estimate_loop (step_cls (CLS c) st) (d # cs))"

definition js_round :: "rat \<Rightarrow> int" where
  "js_round x = \<lfloor>x + 1 / 2\<rfloor>"

definition estimateTokens :: "code_unit list \<Rightarrow> int" where
  "estimateTokens tx =
     (if tx = [] then 0
      else let (tokens, latinRun) = estimate_loop (0, 0) tx
           in max 1 (js_round (tokens + latinRun / 4)))"

definition IMAGE_TOKEN_ESTIMATE :: int where
  "IMAGE_TOKEN_ESTIMATE = 1000"

text \<open>A string of the other theories as code units.\<close>

definition units :: "string \<Rightarrow> code_unit list" where
  "units s = map (\<lambda>c. of_nat (of_char c)) s"

section \<open>The reference: one step per code point\<close>

text \<open>
  \<open>for (const ch of text)\<close> yields one string per code point: a surrogate pair is one string of two
  units. A regular expression without the \<open>u\<close> flag matches it when some unit matches.
\<close>

fun code_points :: "code_unit list \<Rightarrow> code_unit list list" where
  "code_points [] = []"
| "code_points [c] = [[c]]"
| "code_points (c # d # cs) =
     (if high_surrogate c \<and> low_surrogate d then [c, d] # code_points cs else [c] # code_points (d # cs))"

definition oracle_step :: "rat \<times> rat \<Rightarrow> code_unit list \<Rightarrow> rat \<times> rat" where
  "oracle_step st ch =
     (if list_ex cjk_re ch then (fst st + (1 + snd st / 4), 0)
      else if list_ex ws_re ch then (fst st, snd st + 1 / 4)
      else (fst st, snd st + 1))"

definition estimateTokensOracle :: "code_unit list \<Rightarrow> int" where
  "estimateTokensOracle tx =
     (if tx = [] then 0
      else let st = foldl oracle_step (0, 0) (code_points tx)
           in max 1 (js_round (fst st + snd st / 4)))"

section \<open>Output budgets\<close>

definition resolveEffectiveMaxTokens :: "int option \<Rightarrow> int \<Rightarrow> int option" where
  "resolveEffectiveMaxTokens client floor_tokens =
     (if \<not> floor_tokens > 0 then client
      else case client of None \<Rightarrow> Some floor_tokens | Some c \<Rightarrow> Some (max c floor_tokens))"

record output_budget =
  max_tokens :: int
  spent :: int

definition new_budget :: "int \<Rightarrow> output_budget" where
  "new_budget n = \<lparr>max_tokens = n, spent = 0\<rparr>"

definition charge :: "output_budget \<Rightarrow> code_unit list \<Rightarrow> bool \<times> output_budget" where
  "charge b tx =
     (if spent b \<ge> max_tokens b then (True, b)
      else let b1 = b\<lparr>spent := spent b + estimateTokens tx\<rparr> in (spent b1 \<ge> max_tokens b1, b1))"

fun charges :: "output_budget \<Rightarrow> code_unit list list \<Rightarrow> bool list \<times> output_budget" where
  "charges b [] = ([], b)"
| "charges b (t # ts) = (let (hit, b1) = charge b t; (hits, b2) = charges b1 ts in (hit # hits, b2))"

section \<open>Lemmas\<close>

lemmas surrogate_defs = high_surrogate_def low_surrogate_def cjk_re_def ws_re_def

lemma surrogate_plain:
  assumes "high_surrogate c \<or> low_surrogate c"
  shows "\<not> cjk_re c" "\<not> ws_re c"
  using assms by (auto simp: surrogate_defs word_le_nat_alt word_less_nat_alt)

lemma oracle_step_single: "oracle_step st [c] = step_cls (CLS c) st"
  by (auto simp: oracle_step_def step_cls_def CLS_def split: prod.splits)

lemma oracle_step_pair:
  "high_surrogate c \<Longrightarrow> low_surrogate d \<Longrightarrow> oracle_step st [c, d] = (fst st, snd st + 1)"
  by (simp add: oracle_step_def surrogate_plain)

lemma estimate_loop_oracle: "estimate_loop st tx = foldl oracle_step st (code_points tx)"
  by (induction st tx rule: estimate_loop.induct)
    (simp_all add: oracle_step_single oracle_step_pair)

text \<open>The value a state stands for: \<open>tokens + latinRun / 4\<close>. Each step adds between a sixteenth
  and one.\<close>

definition tok_value :: "rat \<times> rat \<Rightarrow> rat" where
  "tok_value st = fst st + snd st / 4"

lemma tok_value_step:
  "tok_value (step_cls k st) \<le> tok_value st + 1" "tok_value st + 1 / 16 \<le> tok_value (step_cls k st)"
  by (auto simp: tok_value_def step_cls_def split: cls.splits prod.splits)

lemma tok_value_loop_le: "tok_value (estimate_loop st tx) \<le> tok_value st + of_nat (length tx)"
proof (induction st tx rule: estimate_loop.induct)
  case (2 st c)
  then show ?case using tok_value_step(1) [of "CLS c" st] by simp
next
  case (3 st c d cs)
  show ?case
  proof (cases "high_surrogate c \<and> low_surrogate d")
    case True
    with 3(1) [OF True] show ?thesis by (simp add: tok_value_def add_divide_distrib)
  next
    case False
    then have "\<not> (high_surrogate c \<and> low_surrogate d)" .
    with 3(2) [OF False] tok_value_step(1) [of "CLS c" st] show ?thesis by (simp del: de_Morgan_conj)
  qed
qed simp

lemma tok_value_loop_ge: "tok_value st + of_nat (length tx) / 32 \<le> tok_value (estimate_loop st tx)"
proof (induction st tx rule: estimate_loop.induct)
  case (2 st c)
  then show ?case using tok_value_step(2) [of st "CLS c"] by simp
next
  case (3 st c d cs)
  show ?case
  proof (cases "high_surrogate c \<and> low_surrogate d")
    case True
    with 3(1) [OF True] show ?thesis by (simp add: tok_value_def add_divide_distrib)
  next
    case False
    then have "\<not> (high_surrogate c \<and> low_surrogate d)" .
    with 3(2) [OF False] tok_value_step(2) [of st "CLS c"] show ?thesis
      by (simp del: de_Morgan_conj add: add_divide_distrib)
  qed
qed simp

lemma estimateTokens_nonneg: "0 \<le> estimateTokens tx"
  by (auto simp: estimateTokens_def Let_def split: prod.splits)

lemma charge_spent:
  "charge b t = (hit, b1) \<Longrightarrow>
     max_tokens b1 = max_tokens b \<and> (hit \<longleftrightarrow> spent b1 \<ge> max_tokens b) \<and>
     spent b1 = (if spent b \<ge> max_tokens b then spent b else spent b + estimateTokens t)"
  by (auto simp: charge_def Let_def split: if_splits)

lemma charges_hits:
  assumes "charges b ts = (hits, b1)" "n < length ts"
  shows "hits ! n \<longleftrightarrow> max_tokens b \<le> spent b + sum_list (map estimateTokens (take (Suc n) ts))"
  using assms
proof (induction ts arbitrary: b hits n)
  case (Cons t ts)
  obtain h c where c: "charge b t = (h, c)" by (cases "charge b t")
  with Cons.prems obtain hs where hs: "charges c ts = (hs, b1)" "hits = h # hs"
    by (auto split: prod.splits)
  note sp = charge_spent [OF c]
  have nonneg: "0 \<le> sum_list (map estimateTokens us)" for us
    by (induction us) (simp_all add: estimateTokens_nonneg)
  show ?case
  proof (cases n)
    case 0
    with sp hs(2) estimateTokens_nonneg [of t] show ?thesis by (auto split: if_splits)
  next
    case (Suc k)
    with Cons.IH [OF hs(1), of k] Cons.prems(2) hs(2) sp estimateTokens_nonneg [of t]
      nonneg [of "take (Suc k) ts"]
    show ?thesis by (auto split: if_splits)
  qed
qed simp

section \<open>Properties\<close>

text \<open>
  C28. The table-driven estimator, which walks code units, returns on every text exactly what the
  walk over code points with the two regular expressions returns: a surrogate pair counts once and
  a lone surrogate like any other character.
\<close>

theorem estimateTokens_eq_oracle: "estimateTokens tx = estimateTokensOracle tx"
  by (simp add: estimateTokens_def estimateTokensOracle_def estimate_loop_oracle Let_def split: prod.splits)

text \<open>
  The estimate of a non-empty text is at least one token and at most one token per code unit, and
  at least a thirty-second of the code units, rounded down; the estimate is zero only for the empty
  text.
\<close>

lemma estimateTokens_bounds:
  "(estimateTokens tx = 0 \<longleftrightarrow> tx = []) \<and> estimateTokens tx \<le> int (length tx) \<and>
   int (length tx div 32) \<le> estimateTokens tx"
proof (cases "tx = []")
  case False
  let ?v = "tok_value (estimate_loop (0, 0) tx)"
  have e: "estimateTokens tx = max 1 (js_round ?v)"
    using False by (simp add: estimateTokens_def tok_value_def Let_def split: prod.splits)
  have "?v \<le> of_nat (length tx)"
    using tok_value_loop_le [of "(0, 0)" tx] by (simp add: tok_value_def)
  then have "js_round ?v \<le> int (length tx)"
    unfolding js_round_def by (simp add: floor_le_iff)
  moreover have "of_nat (length tx) / 32 \<le> ?v"
    using tok_value_loop_ge [of "(0, 0)" tx] by (simp add: tok_value_def)
  then have "int (length tx div 32) \<le> js_round ?v"
  proof -
    have "rat_of_nat (length tx div 32) \<le> rat_of_nat (length tx) / 32"
      by (metis of_nat_div_le_of_nat of_nat_numeral)
    with \<open>of_nat (length tx) / 32 \<le> ?v\<close> show ?thesis
      unfolding js_round_def le_floor_iff by simp
  qed
  moreover have "1 \<le> int (length tx)" using False by (cases tx) auto
  ultimately show ?thesis using e False by auto
qed (simp add: estimateTokens_def)

text \<open>
  The streaming budget trips on exactly the first delta at which the estimates of the deltas so
  far add up to the limit, and stays tripped on every later one.
\<close>

lemma charges_trip:
  assumes "charges (new_budget n) ts = (hits, b)" "k < length ts"
  shows "hits ! k \<longleftrightarrow> n \<le> sum_list (map estimateTokens (take (Suc k) ts))"
  using charges_hits [OF assms] by (simp add: new_budget_def)


text \<open>
  The effective output limit is never below the configured floor when the floor is positive, never
  lowers what the client asked for, and with the floor disabled is exactly the client's value.
\<close>

lemma resolveEffectiveMaxTokens_floor:
  "(if f > 0 then (\<exists>m. resolveEffectiveMaxTokens client f = Some m \<and> f \<le> m \<and>
                     (\<exists>c. client = Some c \<and> c \<le> m \<and> m \<in> {c, f} \<or> client = None \<and> m = f))
    else resolveEffectiveMaxTokens client f = client)"
  by (auto simp: resolveEffectiveMaxTokens_def max_def split: option.splits)

end
