(* ===== verification/Prompt.thy ===== *)
theory Prompt
  imports Models Recording Sessions Tokens
begin

text \<open>
  What the engine (\<open>src/host/engine.ts\<close>) derives from one call: messages and calls, the continuation test,
  the digest of unseen turns, prompt assembly, the effort check, the argv of the agy process, and the retry
  delay. Text lengths are counted in characters of the model's strings.
\<close>

section \<open>Calls\<close>

datatype role = RUser | RAssistant | RSystem | RTool

record engine_image =
  img_name :: "string option"
  mediaType :: string
  img_bytes :: nat

record engine_message =
  msg_role :: role
  msg_text :: string
  images :: "engine_image list"
  toolCallId :: "string option"
  provider :: "string option"

record engine_call =
  call_model :: string
  reasoningEffort :: "string option"
  messages :: "engine_message list"
  system_prompt :: "string option"
  sessionKey :: "string option"
  jsonSchema :: "json option"
  keyId :: "json option"

record engine_error =
  err_message :: string
  err_is :: err_code
  retryAfterSec :: "int option"

definition engine_err :: "string \<Rightarrow> err_code \<Rightarrow> engine_error" where
  "engine_err msg c = \<lparr>err_message = msg, err_is = c, retryAfterSec = None\<rparr>"

section \<open>Retry policy\<close>

definition RETRYABLE_CODES :: "err_code list" where
  "RETRYABLE_CODES = [TIMEOUT, PROCESS_EXIT, INVALID_OUTPUT]"

record retry_policy =
  maxRetries :: nat
  initialDelayMs :: rat
  maxDelayMs :: rat
  jitterRatio :: rat

definition RETRY_POLICY :: retry_policy where
  "RETRY_POLICY = \<lparr>maxRetries = 1, initialDelayMs = 2000, maxDelayMs = 10000, jitterRatio = 1 / 10\<rparr>"

definition computeRetryDelayMs :: "rat \<Rightarrow> rat \<Rightarrow> rat \<Rightarrow> rat" where
  "computeRetryDelayMs baseMs rand maxMs =
     (let jittered = baseMs * (1 + (2 * rand - 1) * jitterRatio RETRY_POLICY)
      in max 0 (min maxMs (of_int (js_round jittered))))"

section \<open>Continuations\<close>

definition detectContinuation :: "engine_message list \<Rightarrow> (string \<times> nat) option" where
  "detectContinuation ms =
     (if ms = [] then None
      else let l = last ms
        in if msg_role l \<noteq> RTool then None
           else case toolCallId l of
                  None \<Rightarrow> None
                | Some c \<Rightarrow> if c = [] then None else parseMirrorCallId c)"

section \<open>Digest and prompt\<close>

definition PROVIDER_ID :: string where
  "PROVIDER_ID = ''antigravity''"

definition isForeignAssistant :: "engine_message \<Rightarrow> bool" where
  "isForeignAssistant m = (msg_role m = RAssistant \<and> provider m \<noteq> Some PROVIDER_ID)"

definition digest_line :: "engine_message \<Rightarrow> string" where
  "digest_line m = (if msg_role m = RUser then ''User: '' else ''Assistant: '') @ msg_text m"

text \<open>The loop of \<open>buildDigest\<close>: messages from the last to the first, the parts collected at the front.\<close>

fun digest_loop :: "nat \<Rightarrow> engine_message list \<Rightarrow> string list \<Rightarrow> string list" where
  "digest_loop budget [] parts = parts"
| "digest_loop budget (m # ms) parts =
     (if msg_role m = RSystem then digest_loop budget ms parts
      else if msg_text m = [] then digest_loop budget ms parts
      else let line = digest_line m
        in if length line > budget then take budget line # parts
           else digest_loop (budget - length line) ms (line # parts))"

definition digest_open :: string where
  "digest_open = ''[conversation so far]'' @ nl"

definition digest_close :: string where
  "digest_close = nl @ ''[end of conversation so far]'' @ nl @ nl"

definition buildDigest :: "engine_message list \<Rightarrow> nat \<Rightarrow> nat \<Rightarrow> string" where
  "buildDigest ms fromIdx maxChars =
     (let parts = digest_loop maxChars (rev (drop fromIdx ms)) []
      in if parts = [] then [] else digest_open @ join (nl @ nl) parts @ digest_close)"

text \<open>One past the last assistant message, zero if there is none: \<open>lastAssistantIdx + 1\<close>.\<close>

definition after_assistant :: "engine_message list \<Rightarrow> nat" where
  "after_assistant ms = length (dropWhile (\<lambda>m. msg_role m \<noteq> RAssistant) (rev ms))"

definition trailingUser :: "engine_message list \<Rightarrow> engine_message list" where
  "trailingUser ms = filter (\<lambda>m. msg_role m = RUser) (drop (after_assistant ms) ms)"

definition DIGEST_MAX_CHARS :: nat where
  "DIGEST_MAX_CHARS = 8000"

definition assemble_prompt :: "engine_message list \<Rightarrow> session_binding option \<Rightarrow> string option \<Rightarrow> string" where
  "assemble_prompt ms binding sys =
     (let base = join (nl @ nl) (filter (\<lambda>s. s \<noteq> []) (map msg_text (trailingUser ms)));
          with_digest =
            (case binding of
               None \<Rightarrow> if after_assistant ms > 0 then buildDigest ms 0 DIGEST_MAX_CHARS @ base else base
             | Some b \<Rightarrow>
                 (let from_idx = min (lastMessageCount b) (length ms);
                      end_idx = max from_idx (after_assistant ms);
                      span = filter (\<lambda>m. msg_role m \<noteq> RAssistant \<or> isForeignAssistant m)
                               (take (end_idx - from_idx) (drop from_idx ms))
                  in if list_ex (\<lambda>m. msg_role m = RAssistant) span
                     then buildDigest span 0 DIGEST_MAX_CHARS @ base else base))
      in if truthy_str sys
         then ''System instructions:'' @ nl @ or_else sys [] @ nl @ nl @ with_digest
         else with_digest)"

section \<open>Reasoning effort\<close>

definition is_gemini :: "string \<Rightarrow> bool" where
  "is_gemini m = starts_with (to_lower m) ''gemini''"

definition resolve_effort :: "gateway_config \<Rightarrow> catalog \<Rightarrow> engine_call \<Rightarrow> engine_error + string option" where
  "resolve_effort cfg cat call =
     (let model = resolveModelSlug (call_model call);
          entry = findEntry cat model
      in if \<not> is_gemini (if model = [] then defaultModel cfg else model) then Inr None
         else case reasoningEffort call of
                Some wanted \<Rightarrow>
                  (case entry of
                     None \<Rightarrow> Inr (Some wanted)
                   | Some e \<Rightarrow>
                       (case efforts e of
                          None \<Rightarrow> Inl (engine_err (''model '' @ model @ '' has no selectable reasoning efforts'')
                                         UNSUPPORTED_REASONING_EFFORT)
                        | Some es \<Rightarrow>
                            if wanted \<notin> set es
                            then Inl (engine_err (''reasoning effort '' @ wanted @ '' is not supported by '' @ model)
                                        UNSUPPORTED_REASONING_EFFORT)
                            else Inr (Some wanted)))
              | None \<Rightarrow>
                  (case entry of
                     Some e \<Rightarrow> (case efforts e of Some es \<Rightarrow> Inr (defaultEffortFor e cfg) | None \<Rightarrow> Inr None)
                   | None \<Rightarrow> Inr None))"

section \<open>Arguments\<close>

record args_opts =
  opt_prompt :: string
  opt_model :: string
  opt_effort :: "string option"
  opt_conversationId :: "string option"
  opt_permissionMode :: permission_mode
  opt_timeoutMs :: rat
  opt_extraArgs :: "string list"
  opt_addDirs :: "string list"
  opt_printTimeoutMinutes :: "int option"

definition buildArgs :: "args_opts \<Rightarrow> string list" where
  "buildArgs o1 =
     (let ptMins = or_else (opt_printTimeoutMinutes o1) (max 1 \<lceil>opt_timeoutMs o1 / 60000\<rceil>);
          effectiveModel = resolveModelSlug (opt_model o1);
          isGemini = (effectiveModel = [] \<or> is_gemini effectiveModel)
      in [''--output-format'', ''stream-json'', ''--print-timeout'', show_int ptMins @ ''m''] @
         (if opt_permissionMode o1 = Skip then [''--dangerously-skip-permissions'']
          else [''--mode'', show_mode (opt_permissionMode o1)]) @
         (if effectiveModel \<noteq> [] then [''--model'', effectiveModel] else []) @
         (if isGemini \<and> truthy_str (opt_effort o1) then [''--effort'', or_else (opt_effort o1) []] else []) @
         (if truthy_str (opt_conversationId o1) then [''--conversation'', or_else (opt_conversationId o1) []] else []) @
         concat (map (\<lambda>d. [''--add-dir'', d]) (opt_addDirs o1)) @
         opt_extraArgs o1 @
         [''-p'', opt_prompt o1])"

section \<open>Lemmas\<close>

definition digest_lines :: "engine_message list \<Rightarrow> string list" where
  "digest_lines ms = map digest_line (filter (\<lambda>m. msg_role m \<noteq> RSystem \<and> msg_text m \<noteq> []) ms)"

lemma digest_lines_simps [simp]:
  "digest_lines [] = []" "digest_lines (xs @ ys) = digest_lines xs @ digest_lines ys"
  "digest_lines (m # ms) = (if msg_role m \<noteq> RSystem \<and> msg_text m \<noteq> [] then digest_line m # digest_lines ms else digest_lines ms)"
  by (simp_all add: digest_lines_def)

text \<open>What the loop collects: the last lines, as many as fit, the oldest of them cut to the budget.\<close>

lemma digest_loop_spec:
  "\<exists>new. digest_loop budget ms parts = new @ parts \<and> sum_list (map length new) \<le> budget \<and>
     (new = digest_lines (rev ms) \<or>
      (\<exists>pre line rest k. digest_lines (rev ms) = pre @ line # rest \<and> new = take k line # rest \<and> k < length line))"
proof (induction budget ms parts rule: digest_loop.induct)
  case (2 budget m ms parts)
  let ?l = "digest_line m"
  consider (skip) "msg_role m = RSystem \<or> msg_text m = []"
    | (cut) "msg_role m \<noteq> RSystem" "msg_text m \<noteq> []" "length ?l > budget"
    | (fits) "msg_role m \<noteq> RSystem" "msg_text m \<noteq> []" "\<not> length ?l > budget" by blast
  then show ?case
  proof cases
    case skip
    with "2.IH"(1,2) show ?thesis by (cases "msg_role m = RSystem") auto
  next
    case cut
    have "digest_loop budget (m # ms) parts = [take budget ?l] @ parts" using cut by (simp add: Let_def)
    moreover have "digest_lines (rev (m # ms)) = digest_lines (rev ms) @ ?l # []" using cut by simp
    moreover have "sum_list (map length [take budget ?l]) \<le> budget" by simp
    ultimately show ?thesis using cut(3) by blast
  next
    case fits
    from "2.IH"(3) [OF fits(1,2) refl fits(3)] obtain new where n:
      "digest_loop (budget - length ?l) ms (?l # parts) = new @ ?l # parts"
      "sum_list (map length new) \<le> budget - length ?l"
      "new = digest_lines (rev ms) \<or>
       (\<exists>pre line rest k. digest_lines (rev ms) = pre @ line # rest \<and> new = take k line # rest \<and> k < length line)" by blast
    show ?thesis
    proof (intro exI [of _ "new @ [?l]"] conjI)
      show "digest_loop budget (m # ms) parts = (new @ [?l]) @ parts" using fits n(1) by (simp add: Let_def)
      show "sum_list (map length (new @ [?l])) \<le> budget" using n(2) fits(3) by simp
      show "new @ [?l] = digest_lines (rev (m # ms)) \<or> (\<exists>pre line rest k. digest_lines (rev (m # ms)) = pre @ line # rest \<and>
          new @ [?l] = take k line # rest \<and> k < length line)"
        using n(3) fits(1,2) by auto
    qed
  qed
qed simp

text \<open>
  The digest of unseen turns is bounded and recent: it is empty when no turn has anything to say,
  otherwise it frames the most recent turns in order, unabridged except that the oldest
  one kept may be cut to a prefix, and the text of the turns never exceeds the budget.
\<close>

lemma buildDigest_recent:
  "\<exists>parts. buildDigest ms k n = (if parts = [] then [] else digest_open @ join (nl @ nl) parts @ digest_close) \<and>
     sum_list (map length parts) \<le> n \<and>
     (parts = digest_lines (drop k ms) \<or>
      (\<exists>pre line rest j. digest_lines (drop k ms) = pre @ line # rest \<and> parts = take j line # rest \<and> j < length line))"
proof -
  from digest_loop_spec [of n "rev (drop k ms)" "[]"] obtain parts where p:
    "digest_loop n (rev (drop k ms)) [] = parts" "sum_list (map length parts) \<le> n"
    "parts = digest_lines (drop k ms) \<or>
     (\<exists>pre line rest j. digest_lines (drop k ms) = pre @ line # rest \<and> parts = take j line # rest \<and> j < length line)"
    unfolding rev_rev_ident append_Nil2 by blast
  from p(1) have "buildDigest ms k n = (if parts = [] then [] else digest_open @ join (nl @ nl) parts @ digest_close)"
    by (simp add: buildDigest_def Let_def)
  with p(2,3) show ?thesis by blast
qed

end
