(* ===== verification/Mapper.thy ===== *)
theory Mapper
  imports Recording
begin

text \<open>
  The event mapper: \<open>src/host/mapper.ts\<close>, with the scrub of token-shaped material of
  \<open>src/host/diagnostics.ts\<close>. It turns the normalized agy events of one span into the chunk protocol that
  both protocol adapters consume.

  A generator is a function that returns the list of chunks it yields and the state it leaves. The
  usage tracker the mapper shares with the recording is the field \<open>tracker\<close>.

  The protocol is an automaton, \<open>proto_step\<close>: one content block open at a time, consecutive block
  indexes, a \<open>block-end\<close> that carries exactly the deltas of its block, one usage chunk right before the
  finish chunk, and nothing after it. The interface \<open>chunk_source\<close> states that a component keeps to it;
  the adapters rely on that and nothing else.
\<close>

section \<open>Scrubbing\<close>

definition token_char :: "char \<Rightarrow> bool" where
  "token_char c = (let n = of_char c :: nat in
     (48 \<le> n \<and> n \<le> 57) \<or> (65 \<le> n \<and> n \<le> 90) \<or> (97 \<le> n \<and> n \<le> 122) \<or> c \<in> {CHR ''.'', CHR ''_'', CHR ''-''})"

definition code_char :: "char \<Rightarrow> bool" where
  "code_char c = (token_char c \<or> c = CHR ''+'' \<or> c = CHR ''='')"

definition always_start :: "char option \<Rightarrow> bool" where
  "always_start prev = True"

definition word_start :: "char option \<Rightarrow> bool" where
  "word_start prev = (case prev of None \<Rightarrow> True | Some c \<Rightarrow> \<not> word_char c)"

definition scrubTokenMaterial :: "string \<Rightarrow> string" where
  "scrubTokenMaterial s =
     (let s1 = rx_replace always_start (RxSeq (rx_lit ''ya29.'') (rx_plus (RxChar token_char))) ''<oauth-token-redacted>'' None s;
          s2 = rx_replace always_start (rx_seqs [rx_lit_i ''Bearer'', rx_plus (RxChar is_space), rx_plus (RxChar (\<lambda>c. \<not> is_space c))])
                 ''Bearer <redacted>'' None s1
      in rx_replace word_start (rx_seqs [rx_lit ''4/'', rx_times 20 (RxChar code_char), RxStar (RxChar code_char)])
           ''<code-redacted>'' None s2)"

section \<open>The mapper\<close>

definition usageFromRaw :: "raw_usage \<Rightarrow> token_usage" where
  "usageFromRaw raw = \<lparr>inputTokens = or_else (input_tokens raw) 0, outputTokens = or_else (output_tokens raw) 0,
     cacheReadTokens = cache_read_tokens raw, cacheWriteTokens = cache_write_tokens raw,
     reasoningTokens = thinking_tokens raw\<rparr>"

definition zero_usage :: token_usage where
  "zero_usage = \<lparr>inputTokens = 0, outputTokens = 0, cacheReadTokens = None, cacheWriteTokens = None, reasoningTokens = None\<rparr>"

definition suffixDelta :: "string \<Rightarrow> string \<Rightarrow> string" where
  "suffixDelta prev nxt =
     (if nxt = prev then []
      else if prev = [] then nxt
      else if starts_with nxt prev then drop (length prev) nxt
      else nl @ nxt)"

record mapper =
  m_runId :: string
  cutOnTool :: bool
  tracker :: "raw_usage option option"
  blockIdx :: nat
  openType :: "block_type option"
  openAcc :: string
  emittedByKey :: "(string, string) jsmap"
  announcedTools :: "string list"
  sawTextStep :: bool
  finished :: bool

definition new_mapper :: "string \<Rightarrow> bool \<Rightarrow> bool \<Rightarrow> raw_usage option option \<Rightarrow> mapper" where
  "new_mapper run cut_tools initialSawText tr = \<lparr>m_runId = run, cutOnTool = cut_tools, tracker = tr, blockIdx = 0,
     openType = None, openAcc = [], emittedByKey = [], announcedTools = [], sawTextStep = initialSawText, finished = False\<rparr>"

definition closeOpen :: "mapper \<Rightarrow> stream_chunk list \<times> mapper" where
  "closeOpen m =
     (case openType m of
        None \<Rightarrow> ([], m)
      | Some ty \<Rightarrow>
          ([BlockEnd (blockIdx m) (if ty = BText then TextBlock (openAcc m) else ReasoningBlock (openAcc m))],
           m\<lparr>blockIdx := blockIdx m + 1, openType := None, openAcc := []\<rparr>))"

definition ensureBlock :: "block_type \<Rightarrow> mapper \<Rightarrow> stream_chunk list \<times> mapper" where
  "ensureBlock ty m =
     (if openType m = Some ty then ([], m)
      else let (c, m1) = closeOpen m
        in (c @ [BlockStart (blockIdx m1) ty], m1\<lparr>openType := Some ty, openAcc := []\<rparr>))"

definition appendDelta :: "string \<Rightarrow> mapper \<Rightarrow> stream_chunk list \<times> mapper" where
  "appendDelta delta m =
     (if delta = [] then ([], m)
      else ([if openType m = Some BText then TextDelta (blockIdx m) delta else ReasoningDelta (blockIdx m) delta],
            m\<lparr>openAcc := openAcc m @ delta\<rparr>))"

definition emit_block :: "block_type \<Rightarrow> string \<Rightarrow> mapper \<Rightarrow> stream_chunk list \<times> mapper" where
  "emit_block ty delta m = (let (c1, m1) = ensureBlock ty m; (c2, m2) = appendDelta delta m1 in (c1 @ c2, m2))"

definition noteUsage :: "raw_usage option \<Rightarrow> mapper \<Rightarrow> mapper" where
  "noteUsage u m = (case (u, tracker m) of (Some raw, Some _) \<Rightarrow> m\<lparr>tracker := Some (Some raw)\<rparr> | _ \<Rightarrow> m)"

definition tracked_usage :: "mapper \<Rightarrow> raw_usage \<Rightarrow> raw_usage" where
  "tracked_usage m raw = (case tracker m of Some (Some u) \<Rightarrow> u | _ \<Rightarrow> raw)"

definition map_text :: "step_event \<Rightarrow> mapper \<Rightarrow> stream_chunk list \<times> mapper" where
  "map_text ev m =
     (if step_text ev = [] \<and> \<not> fragment ev then ([], m)
      else let (c1, m1) = ensureBlock BText (m\<lparr>sawTextStep := True\<rparr>);
               prev = or_else (map_of (emittedByKey m1) (stepKey ev)) []
        in if fragment ev then
             (let (c2, m2) = appendDelta (step_text ev)
                    (m1\<lparr>emittedByKey := jm_set (stepKey ev) (prev @ step_text ev) (emittedByKey m1)\<rparr>)
              in (c1 @ c2, m2))
           else
             (let (c2, m2) = appendDelta (suffixDelta prev (step_text ev))
                    (m1\<lparr>emittedByKey := jm_set (stepKey ev) (step_text ev) (emittedByKey m1)\<rparr>)
              in (c1 @ c2, m2)))"

definition map_reasoning :: "step_event \<Rightarrow> mapper \<Rightarrow> stream_chunk list \<times> mapper" where
  "map_reasoning ev m =
     (let (c1, m1) = ensureBlock BReasoning m
      in if stepKind ev = KThinking then
           (let prev = or_else (map_of (emittedByKey m1) (stepKey ev)) [];
                (c2, m2) = appendDelta (suffixDelta prev (step_text ev))
                  (m1\<lparr>emittedByKey := jm_set (stepKey ev) (step_text ev) (emittedByKey m1)\<rparr>)
            in (c1 @ c2, m2))
         else
           (let (c2, m2) = appendDelta (''[agy subagent] '' @ step_text ev @ nl) m1 in (c1 @ c2, m2)))"

definition tool_arguments :: "string \<Rightarrow> nat \<Rightarrow> agy_tool_info \<Rightarrow> string" where
  "tool_arguments run i t =
     json_stringify (JObj ([(''run'', JStr run), (''step'', JNum (of_nat i)), (''tool'', JStr (tool_name t))] @
       (case tool_args t of Some a \<Rightarrow> [(''input'', a)] | None \<Rightarrow> [])))"

definition map_tool :: "step_event \<Rightarrow> agy_tool_info \<Rightarrow> nat \<Rightarrow> mapper \<Rightarrow> stream_chunk list \<times> mapper" where
  "map_tool ev t absIndex m =
     (if tool_output t = None \<and> tool_error t = None then ([], m)
      else if stepKey ev \<in> set (announcedTools m) then ([], m)
      else let m1 = m\<lparr>announcedTools := announcedTools m @ [stepKey ev]\<rparr>
        in if \<not> cutOnTool m1 then ([], m1)
           else let (c, m2) = closeOpen m1; i = blockIdx m2
             in (c @ [BlockStart i BToolCall,
                      BlockEnd i (ToolCallBlock (mirrorCallId (m_runId m2) absIndex) MIRROR_TOOL_NAME
                        (tool_arguments (m_runId m2) absIndex t)),
                      UsageChunk zero_usage, Finish FToolCalls None],
                 m2\<lparr>blockIdx := blockIdx m2 + 1, finished := True\<rparr>))"

definition finish_stop :: "result_event \<Rightarrow> mapper \<Rightarrow> stream_chunk list \<times> mapper" where
  "finish_stop ev m =
     (let (c, m1) = closeOpen m
      in (c @ [UsageChunk (usageFromRaw (tracked_usage m1 (res_usage ev))),
               Finish FStop (if res_conversationId ev \<noteq> [] then Some (res_conversationId ev) else None)],
          m1\<lparr>finished := True\<rparr>))"

definition map_result :: "result_event \<Rightarrow> mapper \<Rightarrow> stream_chunk list \<times> mapper" where
  "map_result ev m =
     (if \<not> res_ok ev then
        (if response ev = [] then ([], m)
         else let (c1, m1) = (if \<not> sawTextStep m then emit_block BText (response ev) m else ([], m));
                  (c2, m2) = (if truthy_str (res_error ev)
                              then emit_block BReasoning (''[agy finished with error] '' @ or_else (res_error ev) [] @ nl) m1
                              else ([], m1));
                  (c3, m3) = finish_stop ev m2
           in (c1 @ c2 @ c3, m3))
      else let (c1, m1) = (if \<not> sawTextStep m \<and> response ev \<noteq> [] then emit_block BText (response ev) m else ([], m));
               (c2, m2) = finish_stop ev m1
        in (c1 @ c2, m2))"

definition map_step :: "step_event \<Rightarrow> nat \<Rightarrow> mapper \<Rightarrow> stream_chunk list \<times> mapper" where
  "map_step ev absIndex m0 =
     (let m = noteUsage (step_usage ev) m0
      in case stepKind ev of
           KText \<Rightarrow> map_text ev m
         | KThinking \<Rightarrow> map_reasoning ev m
         | KSubagent \<Rightarrow> map_reasoning ev m
         | KTool \<Rightarrow> (case tool ev of Some t \<Rightarrow> map_tool ev t absIndex m | None \<Rightarrow> ([], m))
         | _ \<Rightarrow> ([], m))"

definition map_event :: "agy_event \<Rightarrow> nat \<Rightarrow> mapper \<Rightarrow> stream_chunk list \<times> mapper" where
  "map_event ev absIndex m =
     (if finished m then ([], m)
      else case ev of
             InitEvent _ _ \<Rightarrow> ([], m)
           | GarbageEvent _ \<Rightarrow> ([], m)
           | StepEvent e \<Rightarrow> map_step e absIndex m
           | ResultEvent e \<Rightarrow> map_result e m)"

definition emitFailure :: "failure_kind \<Rightarrow> err_code \<Rightarrow> string \<Rightarrow> mapper \<Rightarrow> stream_chunk list \<times> mapper" where
  "emitFailure k cd msg m =
     (if finished m then ([], m)
      else let clean = scrubTokenMaterial msg; (c, m1) = closeOpen m
        in (c @ [UsageChunk zero_usage,
                 Finish (case k of KindError \<Rightarrow> FError (failure clean cd) | KindAborted \<Rightarrow> FAborted (failure clean cd)) None],
            m1\<lparr>finished := True\<rparr>))"

section \<open>The chunk protocol\<close>

datatype phase = Body | UsageSeen | Ended

type_synonym proto = "nat \<times> (block_type \<times> string) option \<times> phase"

fun proto_step :: "proto \<Rightarrow> stream_chunk \<Rightarrow> proto option" where
  "proto_step (n, None, Body) (BlockStart i ty) = (if i = n then Some (n, Some (ty, []), Body) else None)"
| "proto_step (n, Some (BText, acc), Body) (TextDelta i t) =
     (if i = n \<and> t \<noteq> [] then Some (n, Some (BText, acc @ t), Body) else None)"
| "proto_step (n, Some (BReasoning, acc), Body) (ReasoningDelta i t) =
     (if i = n \<and> t \<noteq> [] then Some (n, Some (BReasoning, acc @ t), Body) else None)"
| "proto_step (n, Some (ty, acc), Body) (BlockEnd i b) =
     (if i = n \<and> (case b of TextBlock t \<Rightarrow> ty = BText \<and> t = acc
                   | ReasoningBlock t \<Rightarrow> ty = BReasoning \<and> t = acc
                   | ToolCallBlock c nm a \<Rightarrow> ty = BToolCall
                   | ToolResultBlock c bs e \<Rightarrow> False)
      then Some (n + 1, None, Body) else None)"
| "proto_step (n, None, Body) (UsageChunk u) = Some (n, None, UsageSeen)"
| "proto_step (n, None, UsageSeen) (Finish r rs) = Some (n, None, Ended)"
| "proto_step _ _ = None"

fun proto_run :: "proto \<Rightarrow> stream_chunk list \<Rightarrow> proto option" where
  "proto_run p [] = Some p"
| "proto_run p (c # cs) = (case proto_step p c of None \<Rightarrow> None | Some q \<Rightarrow> proto_run q cs)"

definition proto_start :: proto where
  "proto_start = (0, None, Body)"

text \<open>A complete span.\<close>

definition wf_span :: "stream_chunk list \<Rightarrow> bool" where
  "wf_span cs = (case proto_run proto_start cs of Some (_, _, Ended) \<Rightarrow> True | _ \<Rightarrow> False)"

lemma proto_run_append:
  "proto_run p (cs @ ds) = (case proto_run p cs of None \<Rightarrow> None | Some q \<Rightarrow> proto_run q ds)"
  by (induction cs arbitrary: p) (auto split: option.splits)

lemma proto_ended_stuck: "proto_run (n, op, Ended) cs = Some q \<Longrightarrow> cs = []"
proof (cases cs)
  case (Cons c ds)
  assume "proto_run (n, op, Ended) cs = Some q"
  moreover have "proto_step (n, op, Ended) c = None"
    by (cases "((n, op, Ended), c)" rule: proto_step.cases) auto
  ultimately show ?thesis using Cons by simp
qed simp

locale chunk_source =
  fixes emit :: "'s \<Rightarrow> 'e \<Rightarrow> stream_chunk list \<times> 's"
    and view :: "'s \<Rightarrow> proto"
    and good :: "'s \<Rightarrow> bool"
  assumes emit_ok: "good s \<Longrightarrow> emit s e = (cs, s1) \<Longrightarrow> proto_run (view s) cs = Some (view s1) \<and> good s1"
begin

fun emits :: "'s \<Rightarrow> 'e list \<Rightarrow> stream_chunk list \<times> 's" where
  "emits s [] = ([], s)"
| "emits s (e # es) = (let (c1, s1) = emit s e; (c2, s2) = emits s1 es in (c1 @ c2, s2))"

lemma emits_ok: "good s \<Longrightarrow> emits s es = (cs, s1) \<Longrightarrow> proto_run (view s) cs = Some (view s1) \<and> good s1"
proof (induction es arbitrary: s cs)
  case (Cons e es)
  obtain c1 t where c1: "emit s e = (c1, t)" by (cases "emit s e")
  with Cons.prems(2) obtain c2 where c2: "emits t es = (c2, s1)" "cs = c1 @ c2" by (auto split: prod.splits)
  from emit_ok [OF Cons.prems(1) c1] Cons.IH [OF _ c2(1)] c2(2) show ?case by (simp add: proto_run_append)
qed simp

end

section \<open>The mapper keeps to the protocol\<close>

definition proto_of :: "mapper \<Rightarrow> proto" where
  "proto_of m = (blockIdx m, map_option (\<lambda>ty. (ty, openAcc m)) (openType m), if finished m then Ended else Body)"

definition mapper_good :: "mapper \<Rightarrow> bool" where
  "mapper_good m = (openType m \<noteq> Some BToolCall \<and> (finished m \<longrightarrow> openType m = None))"

text \<open>\<open>conforms m r\<close>: the chunks of \<open>r\<close> are legal after \<open>m\<close> and its state is good.\<close>

definition conforms :: "mapper \<Rightarrow> stream_chunk list \<times> mapper \<Rightarrow> bool" where
  "conforms m r = (proto_run (proto_of m) (fst r) = Some (proto_of (snd r)) \<and> mapper_good (snd r))"

lemma conforms_refl: "mapper_good m \<Longrightarrow> conforms m ([], m)"
  by (simp add: conforms_def)

lemma conforms_trans: "conforms m (c1, m1) \<Longrightarrow> conforms m1 (c2, m2) \<Longrightarrow> conforms m (c1 @ c2, m2)"
  by (simp add: conforms_def proto_run_append)

text \<open>Updates of the bookkeeping fields are invisible to the protocol.\<close>

lemma proto_of_bookkeeping [simp]:
  "proto_of (m\<lparr>emittedByKey := e\<rparr>) = proto_of m" "proto_of (m\<lparr>announcedTools := a\<rparr>) = proto_of m"
  "proto_of (m\<lparr>sawTextStep := b\<rparr>) = proto_of m" "proto_of (m\<lparr>tracker := t\<rparr>) = proto_of m"
  "mapper_good (m\<lparr>emittedByKey := e\<rparr>) = mapper_good m" "mapper_good (m\<lparr>announcedTools := a\<rparr>) = mapper_good m"
  "mapper_good (m\<lparr>sawTextStep := b\<rparr>) = mapper_good m" "mapper_good (m\<lparr>tracker := t\<rparr>) = mapper_good m"
  by (simp_all add: proto_of_def mapper_good_def)

lemma conforms_cong: "proto_of m = proto_of m' \<Longrightarrow> conforms m r = conforms m' r"
  by (simp add: conforms_def)

lemma noteUsage_invisible [simp]:
  "proto_of (noteUsage u m) = proto_of m" "mapper_good (noteUsage u m) = mapper_good m"
  "finished (noteUsage u m) = finished m" "sawTextStep (noteUsage u m) = sawTextStep m"
  by (auto simp: noteUsage_def split: option.splits)

lemma closeOpen_conforms:
  assumes "mapper_good m" "\<not> finished m"
  shows "conforms m (closeOpen m) \<and> openType (snd (closeOpen m)) = None \<and> \<not> finished (snd (closeOpen m))"
proof (cases "openType m")
  case (Some ty)
  with assms show ?thesis
    by (cases ty) (auto simp: conforms_def closeOpen_def proto_of_def mapper_good_def)
qed (use assms in \<open>simp add: closeOpen_def conforms_refl\<close>)

lemma ensureBlock_conforms:
  assumes "mapper_good m" "\<not> finished m" "ty \<noteq> BToolCall"
  shows "conforms m (ensureBlock ty m) \<and> openType (snd (ensureBlock ty m)) = Some ty \<and>
    \<not> finished (snd (ensureBlock ty m))"
proof (cases "openType m = Some ty")
  case False
  obtain c m1 where c: "closeOpen m = (c, m1)" by (cases "closeOpen m")
  from closeOpen_conforms [OF assms(1,2)] c
  have "conforms m (c, m1)" "openType m1 = None" "\<not> finished m1" by auto
  moreover from this(2,3) have "conforms m1 ([BlockStart (blockIdx m1) ty], m1\<lparr>openType := Some ty, openAcc := []\<rparr>)"
    using assms(3) by (simp add: conforms_def proto_of_def mapper_good_def)
  ultimately show ?thesis
    using False c by (auto simp: ensureBlock_def intro: conforms_trans)
qed (use assms in \<open>simp add: ensureBlock_def conforms_refl\<close>)

lemma appendDelta_conforms:
  assumes "mapper_good m" "\<not> finished m" "openType m = Some ty" "ty \<noteq> BToolCall"
  shows "conforms m (appendDelta d m) \<and> \<not> finished (snd (appendDelta d m))"
  using assms by (cases ty) (auto simp: appendDelta_def conforms_def proto_of_def mapper_good_def)

lemma ensure_append_conforms:
  assumes "mapper_good m" "\<not> finished m" "ty \<noteq> BToolCall"
    and "ensureBlock ty m = (c1, m1)" "appendDelta d (m1\<lparr>emittedByKey := e\<rparr>) = (c2, m2)"
  shows "conforms m (c1 @ c2, m2) \<and> \<not> finished m2"
proof -
  from ensureBlock_conforms [OF assms(1-3)] assms(4)
  have 1: "conforms m (c1, m1)" "openType m1 = Some ty" "\<not> finished m1" by auto
  then have "mapper_good m1" by (simp add: conforms_def)
  with appendDelta_conforms [of "m1\<lparr>emittedByKey := e\<rparr>" ty d] 1 assms(3,5)
  have "conforms (m1\<lparr>emittedByKey := e\<rparr>) (c2, m2)" "\<not> finished m2" by auto
  with 1(1) show ?thesis by (auto intro: conforms_trans simp: conforms_cong [of "m1\<lparr>emittedByKey := e\<rparr>" m1])
qed

lemma emit_block_conforms:
  assumes "mapper_good m" "\<not> finished m" "ty \<noteq> BToolCall" "emit_block ty d m = (c, m1)"
  shows "conforms m (c, m1) \<and> \<not> finished m1"
proof -
  obtain c1 m2 where e: "ensureBlock ty m = (c1, m2)" by (cases "ensureBlock ty m")
  from ensure_append_conforms [OF assms(1-3) e, of d "emittedByKey m2"] assms(4) e show ?thesis
    by (auto simp: emit_block_def split: prod.splits)
qed

lemma map_text_conforms:
  assumes "mapper_good m" "\<not> finished m"
  shows "conforms m (map_text ev m)"
proof -
  let ?m = "m\<lparr>sawTextStep := True\<rparr>"
  obtain c1 m1 where e: "ensureBlock BText ?m = (c1, m1)" by (cases "ensureBlock BText ?m")
  have good: "mapper_good ?m" "\<not> finished ?m" using assms by simp_all
  have a: "conforms m (c1 @ fst r, snd r)" if "r = appendDelta d (m1\<lparr>emittedByKey := k\<rparr>)" for d k r
    using ensure_append_conforms [OF good _ e, of d k "fst r" "snd r"] that
    by (simp add: conforms_cong [of ?m m])
  show ?thesis
    using a [OF refl] conforms_refl [OF assms(1)]
    by (simp add: map_text_def e Let_def case_prod_beta)
qed

lemma map_reasoning_conforms:
  assumes "mapper_good m" "\<not> finished m"
  shows "conforms m (map_reasoning ev m)"
proof -
  obtain c1 m1 where e: "ensureBlock BReasoning m = (c1, m1)" by (cases "ensureBlock BReasoning m")
  have "conforms m (c1 @ c2, m2)" if "appendDelta d m1 = (c2, m2)" for d c2 m2
    using ensure_append_conforms [OF assms _ e, of d "emittedByKey m1" c2 m2] that by simp
  with ensure_append_conforms [OF assms _ e] show ?thesis
    by (auto simp: map_reasoning_def e Let_def split: prod.splits)
qed

lemma close_finish_conforms:
  assumes "mapper_good m" "\<not> finished m" "closeOpen m = (c, m1)"
  shows "conforms m (c @ [UsageChunk u, Finish r s], m1\<lparr>finished := True\<rparr>)"
proof -
  from closeOpen_conforms [OF assms(1,2)] assms(3)
  have 1: "conforms m (c, m1)" "openType m1 = None" "\<not> finished m1" by auto
  then have "conforms m1 ([UsageChunk u, Finish r s], m1\<lparr>finished := True\<rparr>)"
    by (simp add: conforms_def proto_of_def mapper_good_def)
  with 1(1) show ?thesis by (rule conforms_trans)
qed

lemma map_tool_conforms:
  assumes "mapper_good m" "\<not> finished m"
  shows "conforms m (map_tool ev t i m)"
proof -
  let ?m1 = "m\<lparr>announcedTools := announcedTools m @ [stepKey ev]\<rparr>"
  obtain c m2 where c: "closeOpen ?m1 = (c, m2)" by (cases "closeOpen ?m1")
  from closeOpen_conforms [of ?m1] assms c
  have 1: "conforms ?m1 (c, m2)" "openType m2 = None" "\<not> finished m2" by auto
  have "conforms m2 ([BlockStart (blockIdx m2) BToolCall, BlockEnd (blockIdx m2) (ToolCallBlock x y z),
      UsageChunk zero_usage, Finish FToolCalls None], m2\<lparr>blockIdx := blockIdx m2 + 1, finished := True\<rparr>)" for x y z
    using 1 by (simp add: conforms_def proto_of_def mapper_good_def)
  from conforms_trans [OF 1(1) this] assms show ?thesis
    by (auto simp: map_tool_def Let_def c conforms_def)
qed

lemma finish_stop_conforms: "mapper_good m \<Longrightarrow> \<not> finished m \<Longrightarrow> conforms m (finish_stop ev m)"
  by (auto simp: finish_stop_def split: prod.splits intro: close_finish_conforms)

lemma map_result_conforms:
  assumes "mapper_good m" "\<not> finished m"
  shows "conforms m (map_result ev m)"
proof -
  have opt: "conforms m' (c, m1) \<and> \<not> finished m1 \<and> mapper_good m1"
    if "mapper_good m'" "\<not> finished m'" "(if b then emit_block ty d m' else ([], m')) = (c, m1)" "ty \<noteq> BToolCall" for b ty d m' c m1
    using that emit_block_conforms [of m' ty d c m1] by (auto simp: conforms_refl conforms_def split: if_splits)
  show ?thesis
  proof (cases "res_ok ev")
    case True
    obtain c1 m1 where 1: "(if \<not> sawTextStep m \<and> response ev \<noteq> [] then emit_block BText (response ev) m else ([], m)) = (c1, m1)"
      by (metis surj_pair)
    obtain c2 m2 where 2: "finish_stop ev m1 = (c2, m2)" by (cases "finish_stop ev m1")
    note a = opt [OF assms 1]
    from a have "conforms m1 (c2, m2)" using finish_stop_conforms [of m1 ev] 2 by simp
    with a True 1 2 show ?thesis by (auto simp: map_result_def intro: conforms_trans)
  next
    case False
    obtain c1 m1 where 1: "(if \<not> sawTextStep m then emit_block BText (response ev) m else ([], m)) = (c1, m1)"
      by (metis surj_pair)
    obtain c2 m2 where 2: "(if truthy_str (res_error ev)
        then emit_block BReasoning (''[agy finished with error] '' @ or_else (res_error ev) [] @ nl) m1 else ([], m1)) = (c2, m2)"
      by (metis surj_pair)
    obtain c3 m3 where 3: "finish_stop ev m2 = (c3, m3)" by (cases "finish_stop ev m2")
    note a = opt [OF assms 1]
    with opt [OF _ _ 2] have b: "conforms m1 (c2, m2) \<and> \<not> finished m2 \<and> mapper_good m2" by simp
    then have "conforms m2 (c3, m3)" using finish_stop_conforms [of m2 ev] 3 by simp
    with a b have "conforms m (c1 @ c2 @ c3, m3)" by (auto intro: conforms_trans)
    with False 1 2 3 assms show ?thesis by (auto simp: map_result_def conforms_refl)
  qed
qed

lemma map_event_conforms:
  assumes "mapper_good m"
  shows "conforms m (map_event ev i m)"
proof (cases "finished m")
  case False
  have "conforms m (map_step e i m)" for e
  proof -
    let ?m = "noteUsage (step_usage e) m"
    have "mapper_good ?m" "\<not> finished ?m" using assms False by simp_all
    then have "conforms ?m (map_step e i m)"
      by (auto simp: map_step_def Let_def map_text_conforms map_reasoning_conforms map_tool_conforms conforms_refl
          split: agy_step_kind.split option.split)
    then show ?thesis by (simp add: conforms_cong [of ?m m])
  qed
  with assms False show ?thesis
    by (auto simp: map_event_def map_result_conforms conforms_refl split: agy_event.split)
qed (use assms in \<open>simp add: map_event_def conforms_refl\<close>)

lemma emitFailure_conforms: "mapper_good m \<Longrightarrow> conforms m (emitFailure k cd msg m)"
  by (auto simp: emitFailure_def conforms_refl Let_def split: prod.splits intro: close_finish_conforms)

text \<open>What a span feeds its mapper: events with their index, and at most a terminal failure.\<close>

datatype span_input = MapEvent agy_event nat | Fail failure_kind err_code string

fun map_input :: "mapper \<Rightarrow> span_input \<Rightarrow> stream_chunk list \<times> mapper" where
  "map_input m (MapEvent ev i) = map_event ev i m"
| "map_input m (Fail k cd msg) = emitFailure k cd msg m"

lemma map_input_conforms: "mapper_good m \<Longrightarrow> conforms m (map_input m e)"
  by (cases e) (simp_all add: map_event_conforms emitFailure_conforms)

interpretation mp: chunk_source map_input proto_of mapper_good
proof
  fix m e cs m1 assume "mapper_good m" "map_input m e = (cs, m1)"
  with map_input_conforms [of m e] show "proto_run (proto_of m) cs = Some (proto_of m1) \<and> mapper_good m1"
    by (simp add: conforms_def)
qed

section \<open>Properties\<close>

text \<open>All the chunks of one span.\<close>

fun span_chunks :: "mapper \<Rightarrow> span_input list \<Rightarrow> stream_chunk list \<times> mapper" where
  "span_chunks m [] = ([], m)"
| "span_chunks m (x # xs) = (let (c1, m1) = map_input m x; (c2, m2) = span_chunks m1 xs in (c1 @ c2, m2))"

lemma span_chunks_emits: "span_chunks m xs = mp.emits m xs"
  by (induction xs arbitrary: m) (auto split: prod.splits)

lemma new_mapper_good: "mapper_good (new_mapper run ct st tr)" "proto_of (new_mapper run ct st tr) = proto_start"
  by (simp_all add: mapper_good_def new_mapper_def proto_of_def proto_start_def)

lemma span_chunks_proto:
  assumes "span_chunks (new_mapper run ct st tr) xs = (cs, m)"
  shows "proto_run proto_start cs = Some (proto_of m) \<and> mapper_good m"
  using mp.emits_ok [OF new_mapper_good(1), of run ct st tr xs cs m] assms
  by (simp add: span_chunks_emits new_mapper_good)

text \<open>
  C12. The mapper keeps to the chunk protocol on every sequence of agy events and failures: the chunks it
  emits are legal (one block open at a time, indexes consecutive from zero, a block's end carries exactly its
  deltas, usage right before finish, nothing after finish), and once it reports that it has finished they
  form a complete span.
\<close>

theorem mapper_protocol:
  assumes "span_chunks (new_mapper run ct st tr) xs = (cs, m)"
  shows "proto_run proto_start cs \<noteq> None \<and> (wf_span cs \<longleftrightarrow> finished m)"
  using span_chunks_proto [OF assms] by (auto simp: wf_span_def proto_of_def)

theorem mapper_protocol_witness:
  "wf_span (fst (span_chunks (new_mapper ''r'' True False None)
     [MapEvent (StepEvent \<lparr>stepKey = ''1'', stepKind = KText, step_text = ''hi'', fragment = True, tool = None,
        step_state = None, step_usage = None\<rparr>) 0,
      MapEvent (ResultEvent \<lparr>res_conversationId = ''c'', res_ok = True, response = ''hi'', res_error = None,
        res_usage = no_usage\<rparr>) 1]))"
proof -
  let ?xs = "[MapEvent (StepEvent \<lparr>stepKey = ''1'', stepKind = KText, step_text = ''hi'', fragment = True, tool = None,
        step_state = None, step_usage = None\<rparr>) 0,
      MapEvent (ResultEvent \<lparr>res_conversationId = ''c'', res_ok = True, response = ''hi'', res_error = None,
        res_usage = no_usage\<rparr>) 1]"
  obtain cs m where s: "span_chunks (new_mapper ''r'' True False None) ?xs = (cs, m)"
    by (cases "span_chunks (new_mapper ''r'' True False None) ?xs")
  then have "finished m"
    by (auto simp: new_mapper_def map_event_def map_step_def noteUsage_def map_text_def ensureBlock_def closeOpen_def
        appendDelta_def map_result_def finish_stop_def Let_def)
  with mapper_protocol [OF s] s show ?thesis by simp
qed

lemma finish_stop_shape:
  "finish_stop ev m = (c, m1) \<Longrightarrow> finished m1 \<and> (\<exists>pre u s. c = pre @ [UsageChunk u, Finish FStop s])"
  by (auto simp: finish_stop_def split: prod.splits)

text \<open>
  A span always ends when agy delivers a result: mapping a result envelope that succeeded or carries a
  response finishes the mapper with a usage chunk and a \<open>stop\<close> finish, whatever was streamed before.
\<close>

lemma map_result_finishes:
  assumes "\<not> finished m" "res_ok ev \<or> response ev \<noteq> []" "map_event (ResultEvent ev) i m = (cs, m1)"
  shows "finished m1 \<and> (\<exists>pre u s. cs = pre @ [UsageChunk u, Finish FStop s])"
  using assms by (auto simp: map_event_def map_result_def split: prod.splits if_splits dest!: finish_stop_shape)


section \<open>Snapshots stream as deltas\<close>

fun text_of :: "stream_chunk list \<Rightarrow> string" where
  "text_of [] = []"
| "text_of (TextDelta i t # cs) = t @ text_of cs"
| "text_of (c # cs) = text_of cs"

lemma text_of_append: "text_of (cs @ ds) = text_of cs @ text_of ds"
  by (induction cs rule: text_of.induct) auto

lemma suffixDelta_grow: "prefix prev nxt \<Longrightarrow> prev @ suffixDelta prev nxt = nxt"
  by (auto simp: suffixDelta_def starts_with_iff_prefix prefix_def)

definition snapshot :: "string \<Rightarrow> string \<Rightarrow> step_event" where
  "snapshot k t = \<lparr>stepKey = k, stepKind = KText, step_text = t, fragment = False, tool = None, step_state = None,
     step_usage = None\<rparr>"

fun growing :: "string \<Rightarrow> string list \<Rightarrow> bool" where
  "growing prev [] = True"
| "growing prev (t # ts) = (t \<noteq> [] \<and> prefix prev t \<and> growing t ts)"

lemma closeOpen_text: "text_of (fst (closeOpen m)) = []" "emittedByKey (snd (closeOpen m)) = emittedByKey m"
  by (auto simp: closeOpen_def split: option.splits)

lemma ensureBlock_text:
  "text_of (fst (ensureBlock ty m)) = []" "emittedByKey (snd (ensureBlock ty m)) = emittedByKey m"
  "openType (snd (ensureBlock ty m)) = Some ty" "finished (snd (ensureBlock ty m)) = finished m"
  using closeOpen_text [of m]
  by (auto simp: ensureBlock_def text_of_append closeOpen_def split: prod.splits option.splits)

lemma map_snapshot:
  assumes "\<not> finished m" "or_else (map_of (emittedByKey m) k) [] = prev" "prefix prev t" "t \<noteq> []"
    and "map_event (StepEvent (snapshot k t)) i m = (cs, m1)"
  shows "prev @ text_of cs = t \<and> or_else (map_of (emittedByKey m1) k) [] = t \<and> \<not> finished m1"
proof -
  let ?m = "m\<lparr>sawTextStep := True\<rparr>"
  obtain c1 m2 where e: "ensureBlock BText ?m = (c1, m2)" by (cases "ensureBlock BText ?m")
  note es = ensureBlock_text [of BText ?m, unfolded e fst_conv snd_conv]
  let ?r = "appendDelta (suffixDelta prev t) (m2\<lparr>emittedByKey := jm_set k t (emittedByKey m2)\<rparr>)"
  have r: "(cs, m1) = (c1 @ fst ?r, snd ?r)"
    using assms e es by (simp add: map_event_def map_step_def noteUsage_def snapshot_def map_text_def Let_def case_prod_beta)
  have "text_of (fst ?r) = suffixDelta prev t" "emittedByKey (snd ?r) = jm_set k t (emittedByKey m2)"
    "finished (snd ?r) = finished m2"
    using es(3) by (auto simp: appendDelta_def)
  with r es assms(1) suffixDelta_grow [OF assms(3)] show ?thesis by (simp add: text_of_append)
qed

text \<open>
  Cumulative snapshots stream without loss or repetition: if the snapshots of one text step only grow,
  the text deltas the mapper emits for them concatenate to exactly the last snapshot.
\<close>

lemma snapshots_stream:
  assumes "growing [] ts" "ts \<noteq> []"
  shows "text_of (fst (span_chunks (new_mapper run ct st tr) (map (\<lambda>t. MapEvent (StepEvent (snapshot k t)) 0) ts))) = last ts"
proof -
  have "prev @ text_of (fst (span_chunks m (map (\<lambda>t. MapEvent (StepEvent (snapshot k t)) 0) ts))) = last (prev # ts)"
    if "growing prev ts" "\<not> finished m" "or_else (map_of (emittedByKey m) k) [] = prev" for prev m
    using that
  proof (induction ts arbitrary: prev m)
    case (Cons t ts)
    obtain c1 m1 where 1: "map_event (StepEvent (snapshot k t)) 0 m = (c1, m1)"
      by (cases "map_event (StepEvent (snapshot k t)) 0 m")
    have t: "prefix prev t" "t \<noteq> []" "growing t ts" using Cons.prems(1) by simp_all
    from map_snapshot [OF Cons.prems(2,3) t(1,2) 1] have m1: "prev @ text_of c1 = t"
      "or_else (map_of (emittedByKey m1) k) [] = t" "\<not> finished m1" by simp_all
    from Cons.IH [OF t(3) m1(3,2)] m1(1) show ?case
      by (simp add: 1 text_of_append case_prod_beta) (metis append.assoc)
  qed simp
  from this [of "[]" "new_mapper run ct st tr"] assms show ?thesis by (simp add: new_mapper_def)
qed


end
