(* ===== verification/Spans.thy ===== *)
theory Spans
  imports Prompt Mapper
begin

text \<open>
  Spans of the engine (\<open>src/host/engine.ts\<close>): the queue between the span pump and its consumer, \<open>driveSpan\<close>,
  the lifecycle of recordings around a span, and continuation spans.

  \<open>drive_span\<close> is what a span delivers when its recording is complete; that a consumer of the growing
  recording sees exactly its events from the start index on is shown for \<open>eventsFrom\<close> in theory
  Recording.
\<close>

section \<open>The chunk queue\<close>

record chunk_queue =
  q_chunks :: "stream_chunk list"
  q_head :: nat
  q_waiting :: bool
  q_closed :: bool

definition new_queue :: chunk_queue where
  "new_queue = \<lparr>q_chunks = [], q_head = 0, q_waiting = False, q_closed = False\<rparr>"

definition q_push :: "stream_chunk \<Rightarrow> chunk_queue \<Rightarrow> chunk_queue" where
  "q_push ch q = q\<lparr>q_chunks := q_chunks q @ [ch], q_waiting := False\<rparr>"

definition q_close :: "chunk_queue \<Rightarrow> chunk_queue" where
  "q_close q = q\<lparr>q_closed := True, q_waiting := False\<rparr>"

text \<open>
  \<open>drain_next\<close> is the generator up to its next \<open>yield\<close>: a chunk, the end, or (\<open>None\<close>) the wait for a wake-up.
\<close>

datatype drained = Chunk stream_chunk | Done

definition drain_next :: "chunk_queue \<Rightarrow> drained option \<times> chunk_queue" where
  "drain_next q =
     (if q_head q < length (q_chunks q) then (Some (Chunk (q_chunks q ! q_head q)), q\<lparr>q_head := q_head q + 1\<rparr>)
      else let q1 = (if q_head q > 0 then q\<lparr>q_chunks := drop (q_head q) (q_chunks q), q_head := 0\<rparr> else q)
        in if q_closed q1 then (Some Done, q1) else (None, q1\<lparr>q_waiting := True\<rparr>))"

text \<open>The queue with its history: what was pushed and what the consumer received.\<close>

datatype queue_op = QPush stream_chunk | QClose | QNext

fun queue_step :: "chunk_queue \<times> stream_chunk list \<times> stream_chunk list \<Rightarrow> queue_op \<Rightarrow>
    chunk_queue \<times> stream_chunk list \<times> stream_chunk list" where
  "queue_step (q, pushed, got) (QPush ch) = (q_push ch q, pushed @ [ch], got)"
| "queue_step (q, pushed, got) QClose = (q_close q, pushed, got)"
| "queue_step (q, pushed, got) QNext =
     (case drain_next q of (Some (Chunk ch), q1) \<Rightarrow> (q1, pushed, got @ [ch]) | (_, q1) \<Rightarrow> (q1, pushed, got))"

definition queue_inv :: "chunk_queue \<times> stream_chunk list \<times> stream_chunk list \<Rightarrow> bool" where
  "queue_inv = (\<lambda>(q, pushed, got). q_head q \<le> length (q_chunks q) \<and> got @ drop (q_head q) (q_chunks q) = pushed \<and>
     (q_waiting q \<longrightarrow> got = pushed \<and> \<not> q_closed q))"

interpretation queue_run: stepwise queue_step "\<lambda>_ _. True" queue_inv
proof
  fix s e assume i: "queue_inv s"
  obtain q pushed got where s: "s = (q, pushed, got)" by (cases s)
  show "queue_inv (queue_step s e)"
  proof (cases e)
    case (QPush ch)
    with i s show ?thesis by (auto simp: queue_inv_def q_push_def)
  next
    case QClose
    with i s show ?thesis by (auto simp: queue_inv_def q_close_def)
  next
    case QNext
    with i s show ?thesis
      by (auto simp: queue_inv_def drain_next_def Let_def Cons_nth_drop_Suc split: if_splits)
  qed
qed

lemma drain_complete:
  "queue_inv (q, pushed, got) \<Longrightarrow> drain_next q = (Some Done, q1) \<Longrightarrow> got = pushed"
  by (auto simp: queue_inv_def drain_next_def Let_def split: if_splits)

section \<open>Driving a span\<close>

fun span_loop :: "mapper \<Rightarrow> nat \<Rightarrow> agy_event list \<Rightarrow> stream_chunk list \<times> mapper" where
  "span_loop m i [] = ([], m)"
| "span_loop m i (ev # evs) =
     (let (c, m1) = map_event ev i m
      in if finished m1 then (c, m1) else (let (d, m2) = span_loop m1 (Suc i) evs in (c @ d, m2)))"

definition span_mapper :: "run_recording \<Rightarrow> nat \<Rightarrow> mapper" where
  "span_mapper r start = new_mapper (runId r) True (sawTextBefore r start) (Some (lastStepUsageRaw r))"

definition span_failure :: "run_recording \<Rightarrow> mapper \<Rightarrow> stream_chunk list \<times> mapper" where
  "span_failure r m =
     (case rec_failure r of
        Some f \<Rightarrow> emitFailure (rf_kind f) (rf_code f) (rf_message f) m
      | None \<Rightarrow> emitFailure KindError INVALID_OUTPUT ''agy stream ended without a result event'' m)"

definition is_tool_cut :: "stream_chunk \<Rightarrow> bool" where
  "is_tool_cut ch = (case ch of Finish FToolCalls _ \<Rightarrow> True | _ \<Rightarrow> False)"

definition drive_span :: "run_recording \<Rightarrow> nat \<Rightarrow> stream_chunk list \<times> bool" where
  "drive_span r start =
     (let (c, m) = span_loop (span_mapper r start) start (drop start (events r));
          d = (if finished m then [] else fst (span_failure r m))
      in (c @ d, list_ex is_tool_cut c))"

text \<open>The tail after a span that ran to its end, and the \<open>finally\<close> of one its consumer left early.\<close>

definition keep_recording :: "bool \<Rightarrow> run_recording \<Rightarrow> registry \<Rightarrow> registry" where
  "keep_recording keep r runs =
     (if \<not> keep \<and> rec_settled r then forget (runId r) runs
      else (case map_of runs (runId r) of
              Some _ \<Rightarrow> jm_set (runId r) (r\<lparr>keepForContinuation := keep\<rparr>) runs
            | None \<Rightarrow> runs))"

definition span_tail :: "bool \<Rightarrow> run_recording \<Rightarrow> registry \<Rightarrow> registry" where
  "span_tail cut_tool r runs = keep_recording cut_tool r runs"

definition is_tool_block :: "stream_chunk \<Rightarrow> bool" where
  "is_tool_block ch = (case ch of BlockEnd _ (ToolCallBlock _ _ _) \<Rightarrow> True | _ \<Rightarrow> False)"

definition span_left :: "stream_chunk list \<Rightarrow> run_recording \<Rightarrow> registry \<Rightarrow> registry" where
  "span_left delivered r runs = keep_recording (list_ex is_tool_block delivered \<or> keepForContinuation r) r runs"

section \<open>Continuations\<close>

definition lost_run_chunks :: "string \<Rightarrow> stream_chunk list" where
  "lost_run_chunks i =
     [UsageChunk zero_usage,
      Finish (FError (failure (''agy run '' @ i @ '' is no longer available (server restarted?) '' @ em_dash @
        '' please resend your message'') AGY_ERROR)) None]"

definition stream_continuation :: "engine_message list \<Rightarrow> registry \<Rightarrow> (stream_chunk list \<times> registry) option" where
  "stream_continuation ms runs =
     (case detectContinuation ms of
        None \<Rightarrow> None
      | Some (i, idx) \<Rightarrow>
          (case map_of runs i of
             None \<Rightarrow> Some (lost_run_chunks i, runs)
           | Some r \<Rightarrow> (let (cs, cut_tool) = drive_span r (idx + 1) in Some (cs, span_tail cut_tool r runs))))"

section \<open>Spans are complete\<close>




lemma span_mapper_good: "mapper_good (span_mapper r s)" "proto_of (span_mapper r s) = proto_start" "\<not> finished (span_mapper r s)"
  using new_mapper_good by (simp_all add: span_mapper_def new_mapper_def)



lemma lost_run_wf: "wf_span (lost_run_chunks i)"
  by (simp add: lost_run_chunks_def wf_span_def proto_start_def)




lemma closeOpen_last: "list_ex is_tool_cut (fst (closeOpen m)) = False" "finished (snd (closeOpen m)) = finished m"
  "cutOnTool (snd (closeOpen m)) = cutOnTool m" "m_runId (snd (closeOpen m)) = m_runId m"
  by (auto simp: closeOpen_def is_tool_cut_def split: option.splits)

lemma ensureBlock_nocut:
  "\<not> list_ex is_tool_cut (fst (ensureBlock ty m))" "finished (snd (ensureBlock ty m)) = finished m"
  "cutOnTool (snd (ensureBlock ty m)) = cutOnTool m" "m_runId (snd (ensureBlock ty m)) = m_runId m"
  using closeOpen_last [of m] by (auto simp: ensureBlock_def is_tool_cut_def split: prod.splits)

lemma appendDelta_nocut:
  "\<not> list_ex is_tool_cut (fst (appendDelta d m))" "finished (snd (appendDelta d m)) = finished m"
  "cutOnTool (snd (appendDelta d m)) = cutOnTool m" "m_runId (snd (appendDelta d m)) = m_runId m"
  by (auto simp: appendDelta_def is_tool_cut_def)

lemmas block_nocut = closeOpen_last ensureBlock_nocut appendDelta_nocut

lemma map_text_nocut:
  "\<not> list_ex is_tool_cut (fst (map_text e m))" "finished (snd (map_text e m)) = finished m"
  "cutOnTool (snd (map_text e m)) = cutOnTool m" "m_runId (snd (map_text e m)) = m_runId m"
  by (simp_all add: map_text_def Let_def case_prod_beta block_nocut)

lemma map_reasoning_nocut:
  "\<not> list_ex is_tool_cut (fst (map_reasoning e m))" "finished (snd (map_reasoning e m)) = finished m"
  "cutOnTool (snd (map_reasoning e m)) = cutOnTool m" "m_runId (snd (map_reasoning e m)) = m_runId m"
  by (simp_all add: map_reasoning_def Let_def case_prod_beta block_nocut)

lemma map_result_nocut:
  "\<not> list_ex is_tool_cut (fst (map_result e m))" "m_runId (snd (map_result e m)) = m_runId m"
  by (auto simp: map_result_def finish_stop_def emit_block_def Let_def case_prod_beta block_nocut is_tool_cut_def)

lemma noteUsage_keeps: "cutOnTool (noteUsage u m) = cutOnTool m" "m_runId (noteUsage u m) = m_runId m"
  by (auto simp: noteUsage_def split: option.splits)


definition consumable :: "agy_event \<Rightarrow> bool" where
  "consumable ev = (case ev of ResultEvent e \<Rightarrow> res_ok e \<or> response e \<noteq> [] | _ \<Rightarrow> False)"

definition tool_cut_chunks :: "string \<Rightarrow> nat \<Rightarrow> stream_chunk list \<Rightarrow> bool" where
  "tool_cut_chunks run i c =
     (\<exists>pre k a. c = pre @ [BlockStart k BToolCall, BlockEnd k (ToolCallBlock (mirrorCallId run i) MIRROR_TOOL_NAME a),
        UsageChunk zero_usage, Finish FToolCalls None])"

lemma map_result_outcome:
  assumes "\<not> finished m" "map_result e m = (c, m1)"
  shows "\<not> list_ex is_tool_cut c \<and> (if res_ok e \<or> response e \<noteq> []
     then finished m1 \<and> (\<exists>pre u s. c = pre @ [UsageChunk u, Finish FStop s]) else c = [] \<and> m1 = m)"
proof (cases "res_ok e \<or> response e \<noteq> []")
  case True
  from assms(2) have "list_ex is_tool_cut c = False" using map_result_nocut [of e m] by simp
  moreover from True assms(2) have "finished m1 \<and> (\<exists>pre u s. c = pre @ [UsageChunk u, Finish FStop s])"
    by (auto simp: map_result_def split: prod.splits if_splits dest!: finish_stop_shape)
  ultimately show ?thesis using True by simp
next
  case False
  with assms(2) show ?thesis by (simp add: map_result_def)
qed

lemma map_tool_outcome:
  assumes "\<not> finished m" "cutOnTool m" "map_tool e t i m = (c, m1)"
  shows "(if finished m1 then tool_cut_chunks (m_runId m) i c \<and> (tool_output t \<noteq> None \<or> tool_error t \<noteq> None)
     else c = []) \<and> cutOnTool m1 \<and> m_runId m1 = m_runId m"
  using assms closeOpen_last [of "m\<lparr>announcedTools := announcedTools m @ [stepKey e]\<rparr>"]
  by (auto simp: map_tool_def tool_cut_chunks_def Let_def case_prod_beta split: if_splits)

text \<open>One mapped event either leaves the span open, or ends it on a usable result, or on a completed tool step.\<close>

lemma map_event_outcome:
  assumes "\<not> finished m" "cutOnTool m" "map_event ev i m = (c, m1)"
  shows "(\<not> finished m1 \<and> \<not> list_ex is_tool_cut c \<and> cutOnTool m1 \<and> m_runId m1 = m_runId m \<and> \<not> consumable ev) \<or>
    (finished m1 \<and> \<not> list_ex is_tool_cut c \<and> consumable ev \<and> (\<exists>pre u s. c = pre @ [UsageChunk u, Finish FStop s])) \<or>
    (finished m1 \<and> tool_cut_chunks (m_runId m) i c \<and>
      (\<exists>e t. ev = StepEvent e \<and> stepKind e = KTool \<and> tool e = Some t \<and> (tool_output t \<noteq> None \<or> tool_error t \<noteq> None)))"
proof (cases ev)
  case (StepEvent e)
  let ?n = "noteUsage (step_usage e) m"
  have n: "\<not> finished ?n" "cutOnTool ?n" "m_runId ?n = m_runId m" using assms(1,2) by (simp_all add: noteUsage_keeps)
  have s: "map_step e i m = (c, m1)" using assms(1,3) StepEvent by (simp add: map_event_def)
  have cons: "\<not> consumable ev" using StepEvent by (simp add: consumable_def)
  show ?thesis
  proof (cases "stepKind e = KTool \<and> tool e \<noteq> None")
    case True
    then obtain t where t: "stepKind e = KTool" "tool e = Some t" by auto
    with s have "map_tool e t i ?n = (c, m1)" by (simp add: map_step_def)
    from map_tool_outcome [OF n(1,2) this] t n(3) StepEvent cons show ?thesis by (cases "finished m1") auto
  next
    case False
    with s n map_text_nocut [of e ?n] map_reasoning_nocut [of e ?n] cons show ?thesis
      by (cases "stepKind e") (auto simp: map_step_def Let_def split: option.splits)
  qed
next
  case (ResultEvent e)
  with assms(1,3) have r: "map_result e m = (c, m1)" by (simp add: map_event_def)
  from map_result_outcome [OF assms(1) r] ResultEvent assms(1,2) show ?thesis
    by (auto simp: consumable_def split: if_splits)
qed (use assms in \<open>auto simp: map_event_def consumable_def\<close>)

text \<open>How the loop of a span ends, and on which event.\<close>

lemma span_loop_outcome:
  assumes "\<not> finished m" "cutOnTool m" "span_loop m i evs = (c, m1)"
  shows "(\<not> finished m1 \<and> \<not> list_ex is_tool_cut c \<and> (\<forall>ev \<in> set evs. \<not> consumable ev)) \<or>
    (finished m1 \<and> \<not> list_ex is_tool_cut c \<and> (\<exists>ev \<in> set evs. consumable ev) \<and>
      (\<exists>pre u s. c = pre @ [UsageChunk u, Finish FStop s])) \<or>
    (\<exists>k e t. finished m1 \<and> k < length evs \<and> tool_cut_chunks (m_runId m) (i + k) c \<and> evs ! k = StepEvent e \<and>
      stepKind e = KTool \<and> tool e = Some t \<and> (tool_output t \<noteq> None \<or> tool_error t \<noteq> None) \<and>
      span_loop m i (take (Suc k) evs) = (c, m1))"
  using assms
proof (induction m i evs arbitrary: c m1 rule: span_loop.induct)
  case (2 m i ev evs)
  obtain c1 n where 1: "map_event ev i m = (c1, n)" by (cases "map_event ev i m")
  note out = map_event_outcome [OF "2.prems"(1,2) 1]
  show ?case
  proof (cases "finished n")
    case True
    with "2.prems"(3) 1 have eq: "c = c1" "m1 = n" by simp_all
    from out True show ?thesis
    proof (elim disjE)
      assume "finished n \<and> tool_cut_chunks (m_runId m) i c1 \<and>
        (\<exists>e t. ev = StepEvent e \<and> stepKind e = KTool \<and> tool e = Some t \<and> (tool_output t \<noteq> None \<or> tool_error t \<noteq> None))"
      with eq 1 True show ?thesis by (intro disjI2) (rule exI [of _ 0], auto)
    qed (auto simp: eq)
  next
    case False
    obtain d k where d: "span_loop n (Suc i) evs = (d, k)" by (cases "span_loop n (Suc i) evs")
    with "2.prems"(3) 1 False have eq: "c = c1 @ d" "m1 = k" by simp_all
    from out False have o: "\<not> list_ex is_tool_cut c1" "cutOnTool n" "m_runId n = m_runId m" "\<not> consumable ev" by auto
    from "2.IH" [OF 1 [symmetric] refl False False o(2) d] show ?thesis
    proof (elim disjE)
      assume "\<exists>j e t. finished k \<and> j < length evs \<and> tool_cut_chunks (m_runId n) (Suc i + j) d \<and> evs ! j = StepEvent e \<and>
        stepKind e = KTool \<and> tool e = Some t \<and> (tool_output t \<noteq> None \<or> tool_error t \<noteq> None) \<and>
        span_loop n (Suc i) (take (Suc j) evs) = (d, k)"
      then obtain j e t where j: "finished k" "j < length evs" "tool_cut_chunks (m_runId n) (Suc i + j) d" "evs ! j = StepEvent e"
        "stepKind e = KTool" "tool e = Some t" "tool_output t \<noteq> None \<or> tool_error t \<noteq> None"
        "span_loop n (Suc i) (take (Suc j) evs) = (d, k)" by blast
      have "tool_cut_chunks (m_runId m) (i + Suc j) c"
        using j(3) o(3) by (auto simp: tool_cut_chunks_def eq)
      moreover have "span_loop m i (take (Suc (Suc j)) (ev # evs)) = (c, m1)" using 1 False j(8) by (simp add: eq)
      ultimately show ?thesis using j by (intro disjI2) (rule exI [of _ "Suc j"], auto simp: eq)
    qed (use o eq in auto)
  qed
qed simp

lemma span_mapper_flags: "cutOnTool (span_mapper r s)" "m_runId (span_mapper r s) = runId r"
  by (simp_all add: span_mapper_def new_mapper_def)





text \<open>
  C22. A client that answers a mirrored tool call resumes the run exactly where its span was cut. When a span ends on a
  tool step, the tool-call block it delivered carries the id of a completed tool step of the recording; the registry
  keeps the recording; and when the client sends the result of that call, the engine, by then holding the recording
  \<open>r2\<close> of the same run with possibly more events, answers with the span that starts at the event after that step. The
  events the first span was made from, followed by those the continuation is made from, are the events from the start
  of the first span on: none is repeated and none is skipped.
\<close>

theorem continuation_resumes:
  assumes "drive_span r start = (cs, True)" "runId r \<noteq> []" "length (events r) \<le> 9007199254740991"
    and "map_of runs (runId r) \<noteq> None" and "map_of runs2 (runId r) = Some r2" "prefix (events r) (events r2)"
  shows "map_of (span_tail True r runs) (runId r) = Some (r\<lparr>keepForContinuation := True\<rparr>) \<and>
    (\<exists>idx callId a pre k first. cs = pre @ [BlockEnd k (ToolCallBlock callId MIRROR_TOOL_NAME a), UsageChunk zero_usage, Finish FToolCalls None] \<and>
      toolEventAt r idx \<noteq> None \<and>
      stream_continuation (ms @ [\<lparr>msg_role = RTool, msg_text = out, images = [], toolCallId = Some callId, provider = p\<rparr>]) runs2 =
        (let (cs2, again) = drive_span r2 (Suc idx) in Some (cs2, span_tail again r2 runs2)) \<and>
      cs = fst (span_loop (span_mapper r start) start first) \<and>
      first @ drop (Suc idx) (events r2) = drop start (events r2))"
proof -
  let ?m = "span_mapper r start"
  obtain c m where l: "span_loop ?m start (drop start (events r)) = (c, m)"
    by (cases "span_loop ?m start (drop start (events r))")
  with assms(1) have cs: "cs = c @ (if finished m then [] else fst (span_failure r m))" "list_ex is_tool_cut c"
    by (simp_all add: drive_span_def)
  from span_loop_outcome [OF span_mapper_good(3) span_mapper_flags(1) l] cs(2)
  obtain k e t where o: "finished m" "k < length (drop start (events r))" "tool_cut_chunks (runId r) (start + k) c"
    "drop start (events r) ! k = StepEvent e" "stepKind e = KTool" "tool e = Some t"
    "span_loop ?m start (take (Suc k) (drop start (events r))) = (c, m)"
    by (auto simp: span_mapper_flags)
  from o(3) obtain pre a b where c: "c = pre @ [BlockStart a BToolCall,
      BlockEnd a (ToolCallBlock (mirrorCallId (runId r) (start + k)) MIRROR_TOOL_NAME b),
      UsageChunk zero_usage, Finish FToolCalls None]" by (auto simp: tool_cut_chunks_def)
  have "mirrorCallId (runId r) (start + k) \<noteq> []" by (simp add: mirrorCallId_def AGY_CALL_PREFIX_def)
  moreover have "parseMirrorCallId (mirrorCallId (runId r) (start + k)) = Some (runId r, start + k)"
    using assms(2,3) o(2) by (intro mirrorCallId_roundtrip) auto
  ultimately have d: "detectContinuation (ms @ [\<lparr>msg_role = RTool, msg_text = out, images = [],
      toolCallId = Some (mirrorCallId (runId r) (start + k)), provider = p\<rparr>]) = Some (runId r, start + k)"
    by (simp add: detectContinuation_def)
  have te: "toolEventAt r (start + k) \<noteq> None" using o(2,4,5,6) by (simp add: toolEventAt_def eventAt_def)
  from assms(6) obtain more where more: "events r2 = events r @ more" by (auto simp: prefix_def)
  have "take (Suc k) (drop start (events r)) @ drop (Suc (start + k)) (events r2) = drop start (events r2)"
  proof -
    have "drop start (events r2) = drop start (events r) @ more" using more o(2) by simp
    moreover have "drop (Suc (start + k)) (events r2) = drop (Suc k) (drop start (events r)) @ more"
      using more o(2) by (simp add: add.commute)
    ultimately show ?thesis by (metis append_assoc append_take_drop_id)
  qed
  then have "\<exists>idx callId a pre k first. cs = pre @ [BlockEnd k (ToolCallBlock callId MIRROR_TOOL_NAME a), UsageChunk zero_usage, Finish FToolCalls None] \<and>
      toolEventAt r idx \<noteq> None \<and>
      stream_continuation (ms @ [\<lparr>msg_role = RTool, msg_text = out, images = [], toolCallId = Some callId, provider = p\<rparr>]) runs2 =
        (let (cs2, again) = drive_span r2 (Suc idx) in Some (cs2, span_tail again r2 runs2)) \<and>
      cs = fst (span_loop (span_mapper r start) start first) \<and>
      first @ drop (Suc idx) (events r2) = drop start (events r2)"
    using c o cs(1) d te assms(5)
    by (intro exI [of _ "start + k"] exI [of _ "mirrorCallId (runId r) (start + k)"] exI [of _ b]
        exI [of _ "pre @ [BlockStart a BToolCall]"] exI [of _ a] exI [of _ "take (Suc k) (drop start (events r))"])
      (simp add: stream_continuation_def)
  moreover have "map_of (span_tail True r runs) (runId r) = Some (r\<lparr>keepForContinuation := True\<rparr>)"
    using assms(4) by (auto simp: span_tail_def keep_recording_def)
  ultimately show ?thesis by blast
qed

definition demo_tool_run :: run_recording where
  "demo_tool_run = (new_recording ''r-1'')\<lparr>events :=
     [GarbageEvent ''x'', StepEvent \<lparr>stepKey = ''1'', stepKind = KTool, step_text = [], fragment = False,
        tool = Some \<lparr>tool_name = ''ls'', tool_args = None, tool_output = Some (JStr ''ok''), tool_error = None\<rparr>,
        step_state = None, step_usage = None\<rparr>]\<rparr>"

text \<open>The tool step is the last event; after the answer the continuation starts behind it and finds the run's result.\<close>

definition demo_resumed_run :: run_recording where
  "demo_resumed_run = demo_tool_run\<lparr>events := events demo_tool_run @
     [ResultEvent \<lparr>res_conversationId = [], res_ok = True, response = ''done'', res_error = None, res_usage = no_usage\<rparr>]\<rparr>"

theorem continuation_resumes_witness:
  "\<exists>callId. map_option fst (stream_continuation [\<lparr>msg_role = RTool, msg_text = [], images = [], toolCallId = Some callId, provider = None\<rparr>]
      [(''r-1'', demo_resumed_run)]) = Some (fst (drive_span demo_resumed_run 2))"
proof -
  have "drive_span demo_tool_run 0 = (fst (drive_span demo_tool_run 0), True)"
    by (simp add: demo_tool_run_def drive_span_def span_mapper_def new_mapper_def new_recording_def map_event_def map_step_def
        noteUsage_def map_tool_def closeOpen_def is_tool_cut_def)
  from continuation_resumes [OF this, of "[(''r-1'', demo_tool_run)]" "[(''r-1'', demo_resumed_run)]" demo_resumed_run "[]" "[]" None]
  obtain idx callId where i: "toolEventAt demo_tool_run idx \<noteq> None"
    "stream_continuation [\<lparr>msg_role = RTool, msg_text = [], images = [], toolCallId = Some callId, provider = None\<rparr>]
       [(''r-1'', demo_resumed_run)] = (let (cs2, again) = drive_span demo_resumed_run (Suc idx)
       in Some (cs2, span_tail again demo_resumed_run [(''r-1'', demo_resumed_run)]))"
    by (auto simp: demo_tool_run_def demo_resumed_run_def new_recording_def)
  from i(1) have "idx = 1" by (cases idx) (auto simp: demo_tool_run_def toolEventAt_def eventAt_def nth_Cons' split: if_splits)
  with i(2) show ?thesis by (auto simp: Let_def case_prod_unfold numeral_2_eq_2)
qed

end
