(* ===== verification/Pool.thy ===== *)
theory Pool
  imports Types Persist "HOL-Library.Multiset"
begin

text \<open>
  The account pool: \<open>src/common/pool-types.ts\<close> and class \<open>AccountPoolManager\<close> of
  \<open>src/host/pool.ts\<close>: accounts with cooldowns and quotas per model family, the sticky sequential
  drain that picks the account of the next run, the administrative mutations, and the debounced
  persistence of the pool file.

  The manager's state is a record that also holds what the manager reads and writes outside itself:
  the pool file, the account directories and the agy log files. A \<open>world\<close> says, for one operation,
  what the clock reads and whether the file system cooperates. Account identities come from the
  clock and \<open>Math.random\<close>, so the creating operations take the new identity as an argument;
  \<open>Date.parse\<close> is the parameter \<open>dparse\<close>. The thresholds 0.02 and 0.01 are the exact fractions.
\<close>

section \<open>Data\<close>

record family_cooldown =
  cooldownUntil :: ms
  reason :: string
  consecutiveFailures :: int

record model_quota =
  mq_modelId :: string
  mq_displayName :: "string option"
  mq_remainingFraction :: "rat option"
  mq_resetTime :: "string option"

record family_quota =
  remainingFraction :: "rat option"
  resetTime :: "string option"
  weeklyFraction :: "rat option"
  weeklyResetTime :: "string option"
  description :: "string option"
  updatedAt :: "ms option"
  quota_models :: "model_quota list option"

record managed_account =
  acc_id :: string
  acc_alias :: string
  email :: "string option"
  acc_dir :: string
  systemHome :: "bool option"
  proxyUrl :: "string option"
  enabled :: bool
  createdAt :: ms
  lastUsedAt :: "ms option"
  authRequired :: bool
  authError :: "string option"
  cooldowns :: "model_family \<rightharpoonup> family_cooldown"
  quotas :: "model_family \<rightharpoonup> family_quota"

datatype pool_mode = Sequential | RoundRobin

record pool_data =
  mode :: pool_mode
  defaultCooldownMs :: ms
  maxCooldownMs :: ms
  primaryAccountId :: "string option"
  activeAccountIds :: "model_family \<rightharpoonup> string"
  accounts :: "managed_account list"

definition defaultPoolData :: pool_data where
  "defaultPoolData = \<lparr>mode = Sequential, defaultCooldownMs = 15 * 60 * 1000, maxCooldownMs = 60 * 60 * 1000,
     primaryAccountId = None, activeAccountIds = Map.empty, accounts = []\<rparr>"

datatype health = Disabled string | AuthRequired string | Cooldown string ms | Healthy

definition shouldPollAccount :: "ms \<Rightarrow> managed_account \<Rightarrow> bool" where
  "shouldPollAccount now a =
     (if \<not> enabled a then False
      else if authRequired a then False
      else \<not> list_ex (\<lambda>f. case cooldowns a f of None \<Rightarrow> False | Some cd \<Rightarrow> cooldownUntil cd > now)
              [Google, Anthropic, Openai, UnknownFamily])"

definition getAccountHealth :: "ms \<Rightarrow> managed_account \<Rightarrow> model_family \<Rightarrow> health" where
  "getAccountHealth now a family =
     (if \<not> enabled a then Disabled ''Account disabled''
      else if authRequired a then AuthRequired (str_or (authError a) ''Authentication required'')
      else case cooldowns a family of
             Some cd \<Rightarrow> if cooldownUntil cd > now then Cooldown (reason cd) (cooldownUntil cd - now) else Healthy
           | None \<Rightarrow> Healthy)"

section \<open>The manager and its persistence\<close>

text \<open>The pool file: a file written by an older version may lack any field but the accounts.\<close>

record stored_pool =
  st_mode :: "pool_mode option"
  st_defaultCooldownMs :: "ms option"
  st_maxCooldownMs :: "ms option"
  st_primaryAccountId :: "string option"
  st_activeAccountIds :: "(model_family \<rightharpoonup> string) option"
  st_accounts :: "managed_account list"

datatype pool_file = NoFile | Unreadable | WrongShape | PoolFile stored_pool

record world =
  now :: ms
  write_ok :: bool
  fs_ok :: bool

record pool_manager =
  data :: pool_data
  baseDir :: string
  persistDirty :: bool
  persistTimer :: bool
  lastPersistWarnAt :: ms
  pool_file :: pool_file
  quarantined :: "pool_file list"
  warned :: nat
  notified :: nat
  dirs :: "string list"
  logs :: "(string \<times> string \<times> ms) list"

definition to_stored :: "pool_data \<Rightarrow> stored_pool" where
  "to_stored d = \<lparr>st_mode = Some (mode d), st_defaultCooldownMs = Some (defaultCooldownMs d),
     st_maxCooldownMs = Some (maxCooldownMs d), st_primaryAccountId = primaryAccountId d,
     st_activeAccountIds = Some (activeAccountIds d), st_accounts = accounts d\<rparr>"

definition from_stored :: "stored_pool \<Rightarrow> pool_data" where
  "from_stored p = \<lparr>mode = or_else (st_mode p) (mode defaultPoolData),
     defaultCooldownMs = or_else (st_defaultCooldownMs p) (defaultCooldownMs defaultPoolData),
     maxCooldownMs = or_else (st_maxCooldownMs p) (maxCooldownMs defaultPoolData),
     primaryAccountId = st_primaryAccountId p,
     activeAccountIds = or_else (st_activeAccountIds p) Map.empty,
     accounts = st_accounts p\<rparr>"

definition quarantineCorrupt :: "world \<Rightarrow> pool_manager \<Rightarrow> pool_manager" where
  "quarantineCorrupt w m =
     (if fs_ok w then m\<lparr>pool_file := NoFile, quarantined := quarantined m @ [pool_file m], warned := warned m + 1\<rparr>
      else m\<lparr>warned := warned m + 1\<rparr>)"

definition load :: "world \<Rightarrow> pool_manager \<Rightarrow> pool_manager" where
  "load w m =
     (case pool_file m of
        PoolFile p \<Rightarrow> m\<lparr>data := from_stored p\<rparr>
      | WrongShape \<Rightarrow> (quarantineCorrupt w m)\<lparr>data := defaultPoolData\<rparr>
      | Unreadable \<Rightarrow> (quarantineCorrupt w m)\<lparr>data := defaultPoolData\<rparr>
      | NoFile \<Rightarrow> m\<lparr>data := defaultPoolData\<rparr>)"

text \<open>The constructor, on what a previous process left on disk.\<close>

definition new_manager :: "world \<Rightarrow> string \<Rightarrow> pool_file \<Rightarrow> string list \<Rightarrow> (string \<times> string \<times> ms) list \<Rightarrow> pool_manager" where
  "new_manager w base file ds ls =
     load w \<lparr>data = defaultPoolData, baseDir = base, persistDirty = False, persistTimer = False,
       lastPersistWarnAt = 0, pool_file = file, quarantined = [], warned = 0, notified = 0, dirs = ds, logs = ls\<rparr>"

definition PERSIST_WARN_MS :: ms where
  "PERSIST_WARN_MS = 60000"

definition notify :: "pool_manager \<Rightarrow> pool_manager" where
  "notify m = m\<lparr>notified := notified m + 1\<rparr>"

definition persist :: "world \<Rightarrow> pool_manager \<Rightarrow> pool_manager" where
  "persist w m =
     (let m1 = m\<lparr>persistDirty := False, persistTimer := False\<rparr>;
          m2 = (if write_ok w then m1\<lparr>pool_file := PoolFile (to_stored (data m1))\<rparr>
                else if now w - lastPersistWarnAt m1 > PERSIST_WARN_MS
                then m1\<lparr>lastPersistWarnAt := now w, warned := warned m1 + 1\<rparr>
                else m1)
      in notify m2)"

definition persistSoon :: "pool_manager \<Rightarrow> pool_manager" where
  "persistSoon m = m\<lparr>persistDirty := True, persistTimer := True\<rparr>"

definition persistTimer_fires :: "world \<Rightarrow> pool_manager \<Rightarrow> pool_manager" where
  "persistTimer_fires w m =
     (let m1 = m\<lparr>persistTimer := False\<rparr> in if persistDirty m1 then persist w m1 else m1)"

definition flush :: "world \<Rightarrow> pool_manager \<Rightarrow> pool_manager" where
  "flush w m = (if persistDirty m then persist w m else m)"

section \<open>Reading and updating accounts\<close>

definition getAccount :: "pool_data \<Rightarrow> string \<Rightarrow> managed_account option" where
  "getAccount d i = find (\<lambda>a. acc_id a = i) (accounts d)"

text \<open>An assignment to fields of the object \<open>getAccount\<close> returned.\<close>

fun upd_first :: "string \<Rightarrow> (managed_account \<Rightarrow> managed_account) \<Rightarrow> managed_account list \<Rightarrow> managed_account list" where
  "upd_first i f [] = []"
| "upd_first i f (a # as) = (if acc_id a = i then f a # as else a # upd_first i f as)"

definition upd_account :: "string \<Rightarrow> (managed_account \<Rightarrow> managed_account) \<Rightarrow> pool_manager \<Rightarrow> pool_manager" where
  "upd_account i f m = m\<lparr>data := (data m)\<lparr>accounts := upd_first i f (accounts (data m))\<rparr>\<rparr>"

definition drop_active :: "string \<Rightarrow> pool_manager \<Rightarrow> pool_manager" where
  "drop_active i m = m\<lparr>data := (data m)\<lparr>activeAccountIds :=
     (\<lambda>f. if activeAccountIds (data m) f = Some i then None else activeAccountIds (data m) f)\<rparr>\<rparr>"

definition path_join :: "string \<Rightarrow> string \<Rightarrow> string" where
  "path_join a b = a @ ''/'' @ b"

section \<open>Account slots\<close>

definition createStagingSlot :: "string \<Rightarrow> pool_manager \<Rightarrow> (string \<times> string) \<times> pool_manager" where
  "createStagingSlot i m =
     (let d = path_join (baseDir m) (''staging_'' @ i) in ((i, d), m\<lparr>dirs := List.insert d (dirs m)\<rparr>))"

text \<open>The default aliases, in UTF-8: the words for "spare account" before and after the number.\<close>

definition spare :: string where
  "spare = [CHR 0xE5, CHR 0xA4, CHR 0x87, CHR 0xE7, CHR 0x94, CHR 0xA8]"

definition account_word :: string where
  "account_word = [CHR 0xE8, CHR 0xB4, CHR 0xA6, CHR 0xE5, CHR 0x8F, CHR 0xB7]"

definition blank_account :: "ms \<Rightarrow> string \<Rightarrow> string \<Rightarrow> string \<Rightarrow> managed_account" where
  "blank_account t i al d = \<lparr>acc_id = i, acc_alias = al, email = None, acc_dir = d, systemHome = None, proxyUrl = None,
     enabled = True, createdAt = t, lastUsedAt = None, authRequired = False, authError = None,
     cooldowns = Map.empty, quotas = Map.empty\<rparr>"

definition add_account :: "managed_account \<Rightarrow> pool_manager \<Rightarrow> pool_manager" where
  "add_account a m = m\<lparr>data := (data m)\<lparr>accounts := accounts (data m) @ [a]\<rparr>\<rparr>"

definition commitStagingAccount ::
  "world \<Rightarrow> string \<Rightarrow> string \<Rightarrow> string option \<Rightarrow> string option \<Rightarrow> string option \<Rightarrow> pool_manager \<Rightarrow> managed_account \<times> pool_manager" where
  "commitStagingAccount w i d al em px m =
     (let finalDir = path_join (baseDir m) i;
          m1 = (if d \<in> set (dirs m) \<and> fs_ok w then m\<lparr>dirs := List.insert finalDir (removeAll d (dirs m))\<rparr> else m);
          count = length (accounts (data m1)) + 1;
          a = (blank_account (now w) i (str_or al (spare @ '' Google '' @ account_word @ '' '' @ show_nat count))
                (if finalDir \<in> set (dirs m1) then finalDir else d))
              \<lparr>email := (if truthy_str em then em else None), proxyUrl := (if truthy_str px then px else None)\<rparr>
      in (a, persist w (add_account a m1)))"

definition cleanupStagingSlot :: "world \<Rightarrow> string \<Rightarrow> pool_manager \<Rightarrow> pool_manager" where
  "cleanupStagingSlot w d m = (if d \<in> set (dirs m) \<and> fs_ok w then m\<lparr>dirs := removeAll d (dirs m)\<rparr> else m)"

definition sweepStaleStaging :: "world \<Rightarrow> pool_manager \<Rightarrow> nat \<times> pool_manager" where
  "sweepStaleStaging w m =
     (if fs_ok w then
        (let stale = filter (\<lambda>d. starts_with d (path_join (baseDir m) ''staging_'')) (dirs m)
         in (length stale, m\<lparr>dirs := filter (\<lambda>d. d \<notin> set stale) (dirs m)\<rparr>))
      else (0, m))"

definition sweepOldLogs :: "world \<Rightarrow> int \<Rightarrow> pool_manager \<Rightarrow> nat \<times> pool_manager" where
  "sweepOldLogs w maxDays m =
     (let maxAgeMs = max 1 maxDays * 86400000;
          targetLogDirs = map (\<lambda>a. path_join (acc_dir a) ''.gemini/antigravity-cli/log'')
                            (filter (\<lambda>a. acc_dir a \<noteq> []) (accounts (data m)));
          old = (\<lambda>(d, f, mtime). d \<in> set targetLogDirs \<and> starts_with f ''cli-'' \<and> ends_with f ''.log'' \<and>
                   now w - mtime > maxAgeMs)
      in if fs_ok w then (length (filter old (logs m)), m\<lparr>logs := filter (\<lambda>l. \<not> old l) (logs m)\<rparr>) else (0, m))"

definition createAccountSlot :: "world \<Rightarrow> string \<Rightarrow> string option \<Rightarrow> pool_manager \<Rightarrow> managed_account \<times> pool_manager" where
  "createAccountSlot w i al m =
     (let d = path_join (baseDir m) i;
          m1 = m\<lparr>dirs := List.insert d (dirs m)\<rparr>;
          count = length (accounts (data m1)) + 1;
          a = blank_account (now w) i (str_or al
                (spare @ account_word @ '' '' @ show_nat count @ '' (Account '' @ show_nat count @ '')'')) d
      in (a, persist w (add_account a m1)))"

fun remove_first :: "string \<Rightarrow> managed_account list \<Rightarrow> managed_account list" where
  "remove_first i [] = []"
| "remove_first i (a # as) = (if acc_id a = i then as else a # remove_first i as)"

definition deleteAccount :: "world \<Rightarrow> string \<Rightarrow> pool_manager \<Rightarrow> bool \<times> pool_manager" where
  "deleteAccount w i m =
     (case getAccount (data m) i of
        None \<Rightarrow> (False, m)
      | Some removed \<Rightarrow>
          (let m1 = m\<lparr>data := (data m)\<lparr>accounts := remove_first i (accounts (data m))\<rparr>\<rparr>;
               m2 = (if acc_dir removed \<in> set (dirs m1) \<and> fs_ok w
                     then m1\<lparr>dirs := removeAll (acc_dir removed) (dirs m1)\<rparr> else m1);
               m3 = (if primaryAccountId (data m2) = Some i
                     then m2\<lparr>data := (data m2)\<lparr>primaryAccountId := None\<rparr>\<rparr> else m2)
           in (True, persist w (drop_active i m3))))"

section \<open>Administrative mutations\<close>

definition setAccountProxy :: "world \<Rightarrow> string \<Rightarrow> string option \<Rightarrow> pool_manager \<Rightarrow> bool \<times> pool_manager" where
  "setAccountProxy w i px m =
     (case getAccount (data m) i of
        None \<Rightarrow> (False, m)
      | Some _ \<Rightarrow>
          (let p = (if truthy_str (map_option trim px) then map_option trim px else None)
           in (True, persist w (upd_account i (\<lambda>a. a\<lparr>proxyUrl := p\<rparr>) m))))"

definition setAccountAlias :: "world \<Rightarrow> string \<Rightarrow> string \<Rightarrow> pool_manager \<Rightarrow> bool \<times> pool_manager" where
  "setAccountAlias w i al m =
     (case getAccount (data m) i of
        None \<Rightarrow> (False, m)
      | Some _ \<Rightarrow> (True, persist w (upd_account i (\<lambda>a. a\<lparr>acc_alias := trim al\<rparr>) m)))"

definition setAccountEnabled :: "world \<Rightarrow> string \<Rightarrow> bool \<Rightarrow> pool_manager \<Rightarrow> bool \<times> pool_manager" where
  "setAccountEnabled w i en m =
     (case getAccount (data m) i of
        None \<Rightarrow> (False, m)
      | Some _ \<Rightarrow>
          (let m1 = upd_account i (\<lambda>a. a\<lparr>enabled := en\<rparr>) m;
               m2 = (if \<not> en then drop_active i m1 else m1)
           in (True, persist w m2)))"

definition markAuthRequired :: "world \<Rightarrow> string \<Rightarrow> string option \<Rightarrow> pool_manager \<Rightarrow> pool_manager" where
  "markAuthRequired w i why m =
     (case getAccount (data m) i of
        None \<Rightarrow> m
      | Some _ \<Rightarrow>
          persist w (drop_active i (upd_account i (\<lambda>a. a\<lparr>authRequired := True,
            authError := Some (str_or why ''Authentication expired or revoked (invalid_grant)'')\<rparr>) m)))"

definition clearAuthRequired :: "world \<Rightarrow> string \<Rightarrow> pool_manager \<Rightarrow> pool_manager" where
  "clearAuthRequired w i m =
     (case getAccount (data m) i of
        None \<Rightarrow> m
      | Some _ \<Rightarrow> persist w (upd_account i (\<lambda>a. a\<lparr>authRequired := False, authError := None\<rparr>) m))"

definition resetAccountIdentity :: "world \<Rightarrow> string \<Rightarrow> string \<Rightarrow> pool_manager \<Rightarrow> pool_manager" where
  "resetAccountIdentity w i newEmail m =
     (case getAccount (data m) i of
        None \<Rightarrow> m
      | Some _ \<Rightarrow> persist w (upd_account i (\<lambda>a. a\<lparr>email := Some newEmail, cooldowns := Map.empty,
          quotas := Map.empty, authRequired := False, authError := None\<rparr>) m))"

fun reorder_loop :: "string list \<Rightarrow> (string, managed_account) jsmap \<Rightarrow> managed_account list \<Rightarrow> managed_account list" where
  "reorder_loop [] mp out = out @ map snd mp"
| "reorder_loop (i # is) mp out =
     (case map_of mp i of
        Some a \<Rightarrow> reorder_loop is (jm_del i mp) (out @ [a])
      | None \<Rightarrow> reorder_loop is mp out)"

definition reorderAccounts :: "world \<Rightarrow> string list \<Rightarrow> pool_manager \<Rightarrow> bool \<times> pool_manager" where
  "reorderAccounts w is m =
     (let mp = foldl (\<lambda>mp a. jm_set (acc_id a) a mp) [] (accounts (data m))
      in (True, persist w (m\<lparr>data := (data m)\<lparr>accounts := reorder_loop is mp []\<rparr>\<rparr>)))"

definition setMode :: "world \<Rightarrow> pool_mode \<Rightarrow> pool_manager \<Rightarrow> pool_manager" where
  "setMode w md m = persist w (m\<lparr>data := (data m)\<lparr>mode := md\<rparr>\<rparr>)"

definition updateAccountQuotas ::
  "string \<Rightarrow> (model_family \<rightharpoonup> family_quota) \<Rightarrow> string option \<Rightarrow> pool_manager \<Rightarrow> pool_manager" where
  "updateAccountQuotas i qs em m =
     (case getAccount (data m) i of
        None \<Rightarrow> m
      | Some _ \<Rightarrow> persistSoon (upd_account i (\<lambda>a. a\<lparr>quotas := quotas a ++ qs,
          email := (if truthy_str em then em else email a)\<rparr>) m))"

definition failure_until ::
  "(string \<Rightarrow> ms option) \<Rightarrow> ms \<Rightarrow> pool_data \<Rightarrow> int \<Rightarrow> string \<Rightarrow> string option \<Rightarrow> ms" where
  "failure_until dparse t d failures why serverResetTime =
     (let parsedDuration = parseResetDurationMs dparse t (Some (str_or serverResetTime why));
          no_duration = (case parsedDuration of None \<Rightarrow> True | Some r \<Rightarrow> r = 0);
          tiered = t + min (defaultCooldownMs d * failures) (maxCooldownMs d)
      in if truthy_str serverResetTime \<and> no_duration then
           (case dparse (or_else serverResetTime []) of
              Some p \<Rightarrow> if p > t then p + 10000 else tiered
            | None \<Rightarrow> tiered)
         else (case parsedDuration of
                 Some r \<Rightarrow> if r > 0 then t + r + 10000 else tiered
               | None \<Rightarrow> tiered))"

definition recordFailure ::
  "(string \<Rightarrow> ms option) \<Rightarrow> ms \<Rightarrow> string \<Rightarrow> model_family \<Rightarrow> string \<Rightarrow> string option \<Rightarrow> pool_manager \<Rightarrow> pool_manager" where
  "recordFailure dparse t i family why serverResetTime m =
     (case getAccount (data m) i of
        None \<Rightarrow> m
      | Some acc \<Rightarrow>
          (let failures = (case cooldowns acc family of Some cd \<Rightarrow> consecutiveFailures cd | None \<Rightarrow> 0) + 1;
               until = failure_until dparse t (data m) failures why serverResetTime
           in persistSoon (upd_account i (\<lambda>a. a\<lparr>cooldowns := (cooldowns a)(family \<mapsto>
                \<lparr>cooldownUntil = until, reason = why, consecutiveFailures = failures\<rparr>)\<rparr>) m)))"

definition recordSuccess :: "ms \<Rightarrow> string \<Rightarrow> model_family \<Rightarrow> pool_manager \<Rightarrow> pool_manager" where
  "recordSuccess t i family m =
     (case getAccount (data m) i of
        None \<Rightarrow> m
      | Some _ \<Rightarrow> persistSoon (upd_account i (\<lambda>a. a\<lparr>lastUsedAt := Some t, authRequired := False,
          authError := (if authRequired a then None else authError a),
          cooldowns := (cooldowns a)(family := None)\<rparr>) m))"

definition clear_cd :: "model_family option \<Rightarrow> managed_account \<Rightarrow> managed_account" where
  "clear_cd family a =
     (case family of Some f \<Rightarrow> a\<lparr>cooldowns := (cooldowns a)(f := None)\<rparr> | None \<Rightarrow> a\<lparr>cooldowns := Map.empty\<rparr>)"

definition clearCooldown :: "world \<Rightarrow> string option \<Rightarrow> model_family option \<Rightarrow> pool_manager \<Rightarrow> pool_manager" where
  "clearCooldown w i family m =
     (if truthy_str i then
        (case getAccount (data m) (or_else i []) of
           None \<Rightarrow> m
         | Some _ \<Rightarrow> persist w (upd_account (or_else i []) (clear_cd family) m))
      else persist w (m\<lparr>data := (data m)\<lparr>accounts := map (clear_cd family) (accounts (data m))\<rparr>\<rparr>))"

section \<open>Selection\<close>

definition quota_blocks :: "(string \<Rightarrow> ms option) \<Rightarrow> ms \<Rightarrow> rat option \<Rightarrow> rat \<Rightarrow> string option \<Rightarrow> bool" where
  "quota_blocks dparse t fraction limit reset =
     (case fraction of
        None \<Rightarrow> False
      | Some r \<Rightarrow> r \<le> limit \<and> truthy_str reset \<and>
          (case dparse (or_else reset []) of None \<Rightarrow> False | Some resetMs \<Rightarrow> resetMs > t))"

definition eligible :: "(string \<Rightarrow> ms option) \<Rightarrow> ms \<Rightarrow> model_family \<Rightarrow> managed_account \<Rightarrow> bool" where
  "eligible dparse t family acc =
     (if \<not> enabled acc \<or> authRequired acc then False
      else if (case cooldowns acc family of Some cd \<Rightarrow> cooldownUntil cd > t | None \<Rightarrow> False) then False
      else case quotas acc family of
             None \<Rightarrow> True
           | Some q \<Rightarrow>
               \<not> quota_blocks dparse t (remainingFraction q) (2 / 100) (resetTime q) \<and>
               \<not> quota_blocks dparse t (weeklyFraction q) (1 / 100) (weeklyResetTime q))"

definition candidates_of ::
  "(string \<Rightarrow> ms option) \<Rightarrow> ms \<Rightarrow> model_family \<Rightarrow> string list option \<Rightarrow> pool_data \<Rightarrow> managed_account list" where
  "candidates_of dparse t family busy d =
     filter (\<lambda>a. \<not> (case busy of Some b \<Rightarrow> acc_id a \<in> set b | None \<Rightarrow> False) \<and> eligible dparse t family a) (accounts d)"

definition next_cyclic :: "managed_account list \<Rightarrow> managed_account list \<Rightarrow> string option \<Rightarrow> managed_account" where
  "next_cyclic accs cands activeId =
     (case activeId of
        None \<Rightarrow> hd cands
      | Some i \<Rightarrow>
          if \<not> list_ex (\<lambda>a. acc_id a = i) accs then hd cands
          else (let currentIndex = length (takeWhile (\<lambda>a. acc_id a \<noteq> i) accs); total = length accs
                in or_else (find (\<lambda>a. list_ex (\<lambda>c. acc_id c = acc_id a) cands)
                              (map (\<lambda>k. accs ! ((currentIndex + k) mod total)) [1..<total])) (hd cands)))"

definition pick :: "model_family \<Rightarrow> managed_account list \<Rightarrow> pool_manager \<Rightarrow> managed_account option \<times> pool_manager" where
  "pick family cands m =
     (if mode (data m) = RoundRobin \<and> length cands > 1 then
        (Some (hd (sort_key (\<lambda>a. or_else (lastUsedAt a) 0) cands)), m)
      else
        (let activeId = (if truthy_str (activeAccountIds (data m) family) then activeAccountIds (data m) family else None)
         in case (case activeId of None \<Rightarrow> None | Some i \<Rightarrow> find (\<lambda>a. acc_id a = i) cands) of
              Some a \<Rightarrow> (Some a, m)
            | None \<Rightarrow>
                (let nx = next_cyclic (accounts (data m)) cands activeId
                 in (Some nx, persistSoon (m\<lparr>data := (data m)\<lparr>activeAccountIds :=
                       (activeAccountIds (data m))(family \<mapsto> acc_id nx)\<rparr>\<rparr>)))))"

definition selectAccount ::
  "(string \<Rightarrow> ms option) \<Rightarrow> ms \<Rightarrow> model_family \<Rightarrow> string list option \<Rightarrow> pool_manager \<Rightarrow> managed_account option \<times> pool_manager" where
  "selectAccount dparse t family busy m =
     (case candidates_of dparse t family busy (data m) of
        [] \<Rightarrow>
          (if (case busy of Some b \<Rightarrow> b \<noteq> [] | None \<Rightarrow> False) then
             (case candidates_of dparse t family None (data m) of
                [] \<Rightarrow> (None, m)
              | c # cs \<Rightarrow> pick family (c # cs) m)
           else (None, m))
      | c # cs \<Rightarrow> pick family (c # cs) m)"

definition getEarliestResetCountdown :: "ms \<Rightarrow> model_family \<Rightarrow> pool_data \<Rightarrow> ms option" where
  "getEarliestResetCountdown t family d =
     map_option (\<lambda>e. max 0 (e - t))
       (foldl (\<lambda>earliest acc.
          if \<not> enabled acc then earliest
          else case cooldowns acc family of
                 None \<Rightarrow> earliest
               | Some cd \<Rightarrow>
                   if cooldownUntil cd > t \<and> (case earliest of None \<Rightarrow> True | Some e \<Rightarrow> cooldownUntil cd < e)
                   then Some (cooldownUntil cd) else earliest) None (accounts d))"

section \<open>What selection returns\<close>

lemma candidates_subset: "set (candidates_of dparse t family busy d) \<subseteq> set (accounts d)"
  by (auto simp: candidates_of_def)

lemma distinct_ids_eq:
  "distinct (map acc_id as) \<Longrightarrow> a \<in> set as \<Longrightarrow> b \<in> set as \<Longrightarrow> acc_id a = acc_id b \<Longrightarrow> a = b"
  by (simp add: distinct_map inj_on_def)

lemma next_cyclic_in:
  assumes "distinct (map acc_id accs)" "set cands \<subseteq> set accs" "cands \<noteq> []"
  shows "next_cyclic accs cands activeId \<in> set cands"
proof -
  let ?cyc = "\<lambda>i. map (\<lambda>k. accs ! ((length (takeWhile (\<lambda>a. acc_id a \<noteq> i) accs) + k) mod length accs)) [1..<length accs]"
  have found: "b \<in> set cands" if f: "find (\<lambda>a. list_ex (\<lambda>c. acc_id c = acc_id a) cands) (?cyc i) = Some b" for i b
  proof -
    from f have b: "b \<in> set (?cyc i)" "list_ex (\<lambda>c. acc_id c = acc_id b) cands"
      by (auto dest: find_SomeD)
    then have "b \<in> set accs"
      by (auto intro!: nth_mod_mem)
    moreover from b(2) obtain c where "c \<in> set cands" "acc_id c = acc_id b" by (auto simp: list_ex_iff)
    ultimately show ?thesis using assms(1,2) distinct_ids_eq by fastforce
  qed
  show ?thesis
    using assms(3) found by (auto simp: next_cyclic_def Let_def or_else_def split: option.splits)
qed

lemma sort_key_hd_in: "cands \<noteq> [] \<Longrightarrow> hd (sort_key k cands) \<in> set cands"
  by (metis hd_in_set length_0_conv length_sort set_sort)

lemma sort_key_hd_min:
  assumes "a \<in> set cands"
  shows "k (hd (sort_key k cands)) \<le> k a"
proof -
  have "a \<in> set (sort_key k cands)" using assms by simp
  moreover have "sorted (map k (sort_key k cands))" by simp
  ultimately show ?thesis by (cases "sort_key k cands") auto
qed

lemma pick_in:
  assumes "distinct (map acc_id (accounts (data m)))" "set cands \<subseteq> set (accounts (data m))" "cands \<noteq> []"
    and "pick family cands m = (r, m1)"
  shows "\<exists>a \<in> set cands. r = Some a"
  using assms sort_key_hd_in [OF assms(3)] next_cyclic_in [OF assms(1-3)]
  by (auto simp: pick_def Let_def find_Some_iff split: if_splits option.splits)

lemma selectAccount_cases:
  obtains (nobody) "\<forall>a \<in> set (accounts (data m)). \<not> eligible dparse t family a"
      "selectAccount dparse t family busy m = (None, m)"
  | (free) "candidates_of dparse t family busy (data m) \<noteq> []"
      "selectAccount dparse t family busy m = pick family (candidates_of dparse t family busy (data m)) m"
  | (all_busy) b where "busy = Some b" "candidates_of dparse t family busy (data m) = []"
      "candidates_of dparse t family None (data m) \<noteq> []"
      "selectAccount dparse t family busy m = pick family (candidates_of dparse t family None (data m)) m"
proof (cases "candidates_of dparse t family busy (data m)")
  case (Cons c cs)
  then show thesis by (intro free) (simp_all add: selectAccount_def)
next
  case Nil
  show thesis
  proof (cases "candidates_of dparse t family None (data m)")
    case none: Nil
    then have "\<forall>a \<in> set (accounts (data m)). \<not> eligible dparse t family a"
      by (auto simp: candidates_of_def filter_empty_conv)
    moreover have "selectAccount dparse t family busy m = (None, m)"
      using Nil none by (simp add: selectAccount_def split: option.splits)
    ultimately show thesis by (rule nobody)
  next
    case (Cons c cs)
    have "\<exists>b. busy = Some b \<and> b \<noteq> []"
    proof (rule ccontr)
      assume "\<nexists>b. busy = Some b \<and> b \<noteq> []"
      then have "candidates_of dparse t family busy (data m) = candidates_of dparse t family None (data m)"
        by (cases busy) (auto simp: candidates_of_def)
      with Nil Cons show False by simp
    qed
    then obtain b where "busy = Some b" "b \<noteq> []" by blast
    with Nil Cons show thesis by (intro all_busy) (simp_all add: selectAccount_def)
  qed
qed

lemma selectAccount_eligible:
  assumes "distinct (map acc_id (accounts (data m)))" "selectAccount dparse t family busy m = (Some a, m1)"
  shows "a \<in> set (accounts (data m)) \<and> eligible dparse t family a"
proof -
  have p: "a \<in> set (accounts (data m)) \<and> eligible dparse t family a"
    if "candidates_of dparse t family b (data m) \<noteq> []"
      "pick family (candidates_of dparse t family b (data m)) m = (Some a, m1)" for b
    using pick_in [OF assms(1) candidates_subset that] by (auto simp: candidates_of_def)
  show ?thesis
    using assms(2) p by (cases rule: selectAccount_cases [of m dparse t family busy]) auto
qed

text \<open>
  C6. Selection only ever returns an account of the pool that is enabled, not quarantined, not in
  cooldown and not out of quota for the family; it avoids the busy accounts whenever some eligible
  account is not busy; and it returns none exactly when no account is eligible.
\<close>

theorem selectAccount_sound:
  assumes "distinct (map acc_id (accounts (data m)))" "selectAccount dparse t family busy m = (r, m1)"
  shows "(case r of
      None \<Rightarrow> (\<forall>a \<in> set (accounts (data m)). \<not> eligible dparse t family a) \<and> m1 = m
    | Some a \<Rightarrow> a \<in> set (accounts (data m)) \<and> eligible dparse t family a \<and>
        ((\<exists>b \<in> set (accounts (data m)). eligible dparse t family b \<and> acc_id b \<notin> set (or_else busy [])) \<longrightarrow>
           acc_id a \<notin> set (or_else busy [])))"
proof (cases rule: selectAccount_cases [of m dparse t family busy])
  case nobody
  with assms(2) show ?thesis by simp
next
  case free
  then obtain a where "a \<in> set (candidates_of dparse t family busy (data m))" "r = Some a"
    using pick_in [OF assms(1) candidates_subset free(1), of family r m1] assms(2) by auto
  then show ?thesis by (cases busy) (auto simp: candidates_of_def)
next
  case (all_busy b)
  then obtain a where "a \<in> set (candidates_of dparse t family None (data m))" "r = Some a"
    using pick_in [OF assms(1) candidates_subset all_busy(3), of family r m1] assms(2) by auto
  moreover have "\<not> (\<exists>c \<in> set (accounts (data m)). eligible dparse t family c \<and> acc_id c \<notin> set b)"
    using all_busy(1,2) by (auto simp: candidates_of_def filter_empty_conv)
  ultimately show ?thesis using all_busy(1) by (auto simp: candidates_of_def)
qed

definition acct :: "string \<Rightarrow> managed_account" where
  "acct i = blank_account 0 i i (path_join ''base'' i)"

definition pool_of :: "string list \<Rightarrow> pool_manager" where
  "pool_of is = (let m = new_manager \<lparr>now = 0, write_ok = True, fs_ok = True\<rparr> ''base'' NoFile [] []
     in m\<lparr>data := (data m)\<lparr>accounts := map acct is\<rparr>\<rparr>)"

lemmas pool_eval = pool_of_def acct_def blank_account_def new_manager_def load_def defaultPoolData_def
  selectAccount_def candidates_of_def eligible_def pick_def next_cyclic_def truthy_str_def Let_def

theorem selectAccount_sound_witness:
  "\<exists>a. fst (selectAccount (\<lambda>_. None) 5 Google (Some [''x'']) (pool_of [''x'', ''y''])) = Some a \<and>
     acc_id a = ''y'' \<and> eligible (\<lambda>_. None) 5 Google a"
proof -
  obtain r m1 where s: "selectAccount (\<lambda>_. None) 5 Google (Some [''x'']) (pool_of [''x'', ''y'']) = (r, m1)"
    by (cases "selectAccount (\<lambda>_. None) 5 Google (Some [''x'']) (pool_of [''x'', ''y''])")
  have "r = Some (acct ''y'')" using s by (simp add: pool_eval)
  with selectAccount_sound [OF _ s] s show ?thesis by (simp add: pool_of_def acct_def blank_account_def Let_def)
qed

text \<open>
  Sequential drain sticks: as long as the active account of a family is eligible and not busy,
  selection returns it and changes nothing.
\<close>

lemma selectAccount_sticky:
  assumes "distinct (map acc_id (accounts (data m)))" "mode (data m) = Sequential"
    and "activeAccountIds (data m) family = Some (acc_id a)" "acc_id a \<noteq> []"
    and "a \<in> set (accounts (data m))" "eligible dparse t family a" "acc_id a \<notin> set (or_else busy [])"
  shows "selectAccount dparse t family busy m = (Some a, m)"
proof -
  let ?c = "candidates_of dparse t family busy (data m)"
  have a: "a \<in> set ?c" using assms(5-7) by (auto simp: candidates_of_def split: option.splits)
  have "find (\<lambda>b. acc_id b = acc_id a) ?c = Some a"
  proof (cases "find (\<lambda>b. acc_id b = acc_id a) ?c")
    case None
    with a show ?thesis by (auto simp: find_None_iff)
  next
    case (Some b)
    then have "b \<in> set ?c" "acc_id b = acc_id a" by (auto simp: find_Some_iff)
    with distinct_ids_eq [OF assms(1) _ assms(5)] Some candidates_subset show ?thesis by blast
  qed
  moreover have "selectAccount dparse t family busy m = pick family ?c m"
    using a by (cases ?c) (auto simp: selectAccount_def)
  ultimately show ?thesis using assms(2-4) by (simp add: pick_def truthy_str_def)
qed


text \<open>
  Sequential drain advances in cyclic order: when the active account is not a candidate, the account
  returned is the first candidate after it in cyclic pool order, and it becomes the active one.
\<close>

lemma selectAccount_advances:
  assumes "distinct (map acc_id (accounts (data m)))" "mode (data m) = Sequential"
    and "n = length (accounts (data m))" "i < n" "acc_id (accounts (data m) ! i) \<noteq> []"
    and "activeAccountIds (data m) family = Some (acc_id (accounts (data m) ! i))"
    and "\<not> eligible dparse t family (accounts (data m) ! i)"
    and "0 < k" "k < n" "eligible dparse t family (accounts (data m) ! ((i + k) mod n))"
    and "\<forall>j. 0 < j \<and> j < k \<longrightarrow> \<not> eligible dparse t family (accounts (data m) ! ((i + j) mod n))"
  shows "fst (selectAccount dparse t family None m) = Some (accounts (data m) ! ((i + k) mod n)) \<and>
    activeAccountIds (data (snd (selectAccount dparse t family None m))) family =
      Some (acc_id (accounts (data m) ! ((i + k) mod n)))"
proof -
  let ?as = "accounts (data m)" and ?c = "candidates_of dparse t family None (data m)"
  have cand: "list_ex (\<lambda>c. acc_id c = acc_id a) ?c \<longleftrightarrow> eligible dparse t family a" if "a \<in> set ?as" for a
    using that distinct_ids_eq [OF assms(1)] by (auto simp: candidates_of_def list_ex_iff)
  have mem: "?as ! (x mod n) \<in> set ?as" for x
    unfolding assms(3) by (rule nth_mod_mem) (use assms(3,4) in auto)
  have ne: "?c \<noteq> []"
    using assms(10) mem [of "i + k"] by (auto simp: candidates_of_def filter_empty_conv)
  have idx: "length (takeWhile (\<lambda>a. acc_id a \<noteq> acc_id (?as ! i)) ?as) = i"
    using assms(1,3,4) by (intro length_takeWhile_first) (auto simp: distinct_conv_nth)
  have "find (\<lambda>a. list_ex (\<lambda>c. acc_id c = acc_id a) ?c) (map (\<lambda>k. ?as ! ((i + k) mod n)) [1..<n]) =
      Some (?as ! ((i + k) mod n))"
    using assms(8-11) by (intro find_map_upt) (auto simp: cand mem)
  moreover have "list_ex (\<lambda>a. acc_id a = acc_id (?as ! i)) ?as"
    using assms(3,4) by (auto simp: list_ex_iff)
  ultimately have nx: "next_cyclic ?as ?c (Some (acc_id (?as ! i))) = ?as ! ((i + k) mod n)"
    by (simp add: next_cyclic_def idx assms(3) Let_def)
  have nf: "find (\<lambda>a. acc_id a = acc_id (?as ! i)) ?c = None"
    using distinct_ids_eq [OF assms(1), of _ "?as ! i"] assms(3,4,7)
    by (auto simp: find_None_iff candidates_of_def)
  have "selectAccount dparse t family None m = pick family ?c m"
    using ne by (cases ?c) (auto simp: selectAccount_def)
  with nx nf assms(2,5,6) show ?thesis
    by (simp add: pick_def truthy_str_def persistSoon_def Let_def)
qed


text \<open>
  Round robin takes the least recently used candidate: among the eligible accounts that are not busy
  none was used earlier than the one returned.
\<close>

lemma selectAccount_round_robin:
  assumes "mode (data m) = RoundRobin" "selectAccount dparse t family busy m = (Some a, m1)"
    and "b \<in> set (accounts (data m))" "eligible dparse t family b" "acc_id b \<notin> set (or_else busy [])"
    and "distinct (map acc_id (accounts (data m)))"
  shows "or_else (lastUsedAt a) 0 \<le> or_else (lastUsedAt b) 0"
proof -
  let ?c = "candidates_of dparse t family busy (data m)"
  have b: "b \<in> set ?c" using assms(3-5) by (auto simp: candidates_of_def split: option.splits)
  then have s: "selectAccount dparse t family busy m = pick family ?c m"
    by (cases ?c) (auto simp: selectAccount_def)
  show ?thesis
  proof (cases "length ?c > 1")
    case True
    with s assms(1,2) have "a = hd (sort_key (\<lambda>a. or_else (lastUsedAt a) 0) ?c)" by (simp add: pick_def)
    then show ?thesis using sort_key_hd_min [OF b] by simp
  next
    case False
    with b have "?c = [b]" by (cases ?c) auto
    moreover have p: "pick family ?c m = (Some a, m1)" using s assms(2) by simp
    moreover have "\<exists>c \<in> set ?c. Some a = Some c"
      by (rule pick_in [OF assms(6) candidates_subset _ p]) (use b in auto)
    ultimately show ?thesis by simp
  qed
qed


section \<open>The pool invariant\<close>

text \<open>
  Identities are unique, an active entry names an account that is enabled and not quarantined, every
  failure counter is at least one and the cooldown tiers are positive.
\<close>

definition pool_inv :: "pool_data \<Rightarrow> bool" where
  "pool_inv d =
     (distinct (map acc_id (accounts d)) \<and>
      (\<forall>f i. activeAccountIds d f = Some i \<longrightarrow>
         (\<exists>a \<in> set (accounts d). acc_id a = i \<and> enabled a \<and> \<not> authRequired a)) \<and>
      (\<forall>a \<in> set (accounts d). \<forall>f cd. cooldowns a f = Some cd \<longrightarrow> 1 \<le> consecutiveFailures cd) \<and>
      0 < defaultCooldownMs d \<and> 0 < maxCooldownMs d)"

datatype pool_op =
    OpCommit world string string "string option" "string option" "string option"
  | OpCreate world string "string option"
  | OpDelete world string
  | OpProxy world string "string option"
  | OpAlias world string string
  | OpEnabled world string bool
  | OpMark world string "string option"
  | OpClearAuth world string
  | OpResetIdentity world string string
  | OpReorder world "string list"
  | OpMode world pool_mode
  | OpQuotas string "model_family \<rightharpoonup> family_quota" "string option"
  | OpFailure "string \<Rightarrow> ms option" ms string model_family string "string option"
  | OpSuccess ms string model_family
  | OpClearCooldown world "string option" "model_family option"
  | OpSelect "string \<Rightarrow> ms option" ms model_family "string list option"
  | OpTimer world
  | OpFlush world

fun pool_step :: "pool_manager \<Rightarrow> pool_op \<Rightarrow> pool_manager" where
  "pool_step m (OpCommit w i d al em px) = snd (commitStagingAccount w i d al em px m)"
| "pool_step m (OpCreate w i al) = snd (createAccountSlot w i al m)"
| "pool_step m (OpDelete w i) = snd (deleteAccount w i m)"
| "pool_step m (OpProxy w i px) = snd (setAccountProxy w i px m)"
| "pool_step m (OpAlias w i al) = snd (setAccountAlias w i al m)"
| "pool_step m (OpEnabled w i en) = snd (setAccountEnabled w i en m)"
| "pool_step m (OpMark w i why) = markAuthRequired w i why m"
| "pool_step m (OpClearAuth w i) = clearAuthRequired w i m"
| "pool_step m (OpResetIdentity w i em) = resetAccountIdentity w i em m"
| "pool_step m (OpReorder w is) = snd (reorderAccounts w is m)"
| "pool_step m (OpMode w md) = setMode w md m"
| "pool_step m (OpQuotas i qs em) = updateAccountQuotas i qs em m"
| "pool_step m (OpFailure dparse t i f why srv) = recordFailure dparse t i f why srv m"
| "pool_step m (OpSuccess t i f) = recordSuccess t i f m"
| "pool_step m (OpClearCooldown w i f) = clearCooldown w i f m"
| "pool_step m (OpSelect dparse t f busy) = snd (selectAccount dparse t f busy m)"
| "pool_step m (OpTimer w) = persistTimer_fires w m"
| "pool_step m (OpFlush w) = flush w m"

text \<open>New identities are fresh.\<close>

fun pool_ok :: "pool_manager \<Rightarrow> pool_op \<Rightarrow> bool" where
  "pool_ok m (OpCommit w i d al em px) = (i \<notin> acc_id ` set (accounts (data m)))"
| "pool_ok m (OpCreate w i al) = (i \<notin> acc_id ` set (accounts (data m)))"
| "pool_ok m op = True"

named_theorems pool_data_simps "what an operation does to the pool data"

lemma data_persist [pool_data_simps]: "data (persist w m) = data m"
  by (simp add: persist_def notify_def Let_def)

lemma data_persistSoon [pool_data_simps]: "data (persistSoon m) = data m"
  by (simp add: persistSoon_def)

lemma data_timer [pool_data_simps]: "data (persistTimer_fires w m) = data m"
  by (simp add: persistTimer_fires_def pool_data_simps Let_def)

lemma data_flush [pool_data_simps]: "data (flush w m) = data m"
  by (simp add: flush_def pool_data_simps)

lemma ids_upd_first: "(\<And>a. acc_id (f a) = acc_id a) \<Longrightarrow> map acc_id (upd_first i f as) = map acc_id as"
  by (induction as) auto

lemma set_upd_first: "set (upd_first i f as) \<subseteq> set as \<union> f ` {a \<in> set as. acc_id a = i}"
  by (induction as) auto

lemma upd_first_mem:
  "a \<in> set as \<Longrightarrow> a \<in> set (upd_first i f as) \<or> (acc_id a = i \<and> f a \<in> set (upd_first i f as))"
  by (induction as) auto

definition counted :: "managed_account \<Rightarrow> bool" where
  "counted a = (\<forall>f cd. cooldowns a f = Some cd \<longrightarrow> 1 \<le> consecutiveFailures cd)"

lemma pool_inv_counted: "pool_inv d \<Longrightarrow> a \<in> set (accounts d) \<Longrightarrow> counted a"
  by (simp add: pool_inv_def counted_def)

text \<open>An update of one account that neither renames, disables nor quarantines it.\<close>

lemma pool_inv_upd_account:
  assumes "pool_inv (data m)" "\<And>a. acc_id (f a) = acc_id a"
    and "\<And>a. enabled a \<Longrightarrow> \<not> authRequired a \<Longrightarrow> enabled (f a) \<and> \<not> authRequired (f a)"
    and "\<And>a. counted a \<Longrightarrow> counted (f a)"
  shows "pool_inv (data (upd_account i f m))"
proof -
  let ?as = "upd_first i f (accounts (data m))"
  have "\<exists>a \<in> set ?as. acc_id a = j \<and> enabled a \<and> \<not> authRequired a"
    if "activeAccountIds (data m) g = Some j" for g j
  proof -
    from assms(1) that obtain a where "a \<in> set (accounts (data m))" "acc_id a = j" "enabled a" "\<not> authRequired a"
      by (auto simp: pool_inv_def)
    with upd_first_mem [of a _ i f] assms(2,3) show ?thesis by blast
  qed
  moreover have "counted a" if "a \<in> set ?as" for a
    using that set_upd_first [of i f "accounts (data m)"] pool_inv_counted [OF assms(1)] assms(4) by blast
  ultimately show ?thesis
    using assms(1) ids_upd_first [of f, OF assms(2)] by (simp add: pool_inv_def upd_account_def counted_def)
qed

text \<open>An arbitrary update of one account after which it is active nowhere.\<close>

lemma pool_inv_upd_drop:
  assumes "pool_inv (data m)" "\<And>a. acc_id (f a) = acc_id a" "\<And>a. counted a \<Longrightarrow> counted (f a)"
  shows "pool_inv (data (drop_active i (upd_account i f m)))"
proof -
  let ?as = "upd_first i f (accounts (data m))"
  have "\<exists>a \<in> set ?as. acc_id a = j \<and> enabled a \<and> \<not> authRequired a"
    if "activeAccountIds (data m) g = Some j" "j \<noteq> i" for g j
  proof -
    from assms(1) that obtain a where "a \<in> set (accounts (data m))" "acc_id a = j" "enabled a" "\<not> authRequired a"
      by (auto simp: pool_inv_def)
    with upd_first_mem [of a _ i f] that(2) show ?thesis by blast
  qed
  moreover have "counted a" if "a \<in> set ?as" for a
    using that set_upd_first [of i f "accounts (data m)"] pool_inv_counted [OF assms(1)] assms(3) by blast
  ultimately show ?thesis
    using assms(1) ids_upd_first [of f, OF assms(2)]
    by (auto simp: pool_inv_def upd_account_def drop_active_def counted_def split: if_splits)
qed

lemma pool_inv_add:
  assumes "pool_inv (data m)" "acc_id a \<notin> acc_id ` set (accounts (data m))" "cooldowns a = Map.empty"
  shows "pool_inv (data (add_account a m))"
  using assms by (auto simp: pool_inv_def add_account_def)

lemma set_remove_first:
  "distinct (map acc_id as) \<Longrightarrow> set (remove_first i as) = {a \<in> set as. acc_id a \<noteq> i}"
  by (induction as) (auto simp: image_iff)

lemma pool_inv_remove:
  assumes "pool_inv (data m)"
  shows "pool_inv (data (drop_active i (m\<lparr>data := (data m)\<lparr>accounts := remove_first i (accounts (data m))\<rparr>\<rparr>)))"
proof -
  have d: "distinct (map acc_id (accounts (data m)))" using assms by (simp add: pool_inv_def)
  have "distinct (map acc_id (remove_first i as))" if "distinct (map acc_id as)" for as
    using that by (induction as) (auto simp: set_remove_first)
  with d assms show ?thesis
    by (auto simp: pool_inv_def drop_active_def set_remove_first split: if_splits) blast
qed

lemma pool_inv_cong:
  "accounts d = accounts d' \<Longrightarrow> activeAccountIds d = activeAccountIds d' \<Longrightarrow>
   defaultCooldownMs d = defaultCooldownMs d' \<Longrightarrow> maxCooldownMs d = maxCooldownMs d' \<Longrightarrow>
   pool_inv d \<longleftrightarrow> pool_inv d'"
  by (simp add: pool_inv_def)

lemma pool_inv_same:
  "pool_inv d \<Longrightarrow> set (accounts d') = set (accounts d) \<Longrightarrow> distinct (map acc_id (accounts d')) \<Longrightarrow>
   activeAccountIds d' = activeAccountIds d \<Longrightarrow> defaultCooldownMs d' = defaultCooldownMs d \<Longrightarrow>
   maxCooldownMs d' = maxCooldownMs d \<Longrightarrow> pool_inv d'"
  by (simp add: pool_inv_def)

text \<open>Reordering, against the invariant that keys are the identities of their accounts.\<close>

lemma account_map_append:
  "distinct (map acc_id as) \<Longrightarrow> fst ` set mp \<inter> acc_id ` set as = {} \<Longrightarrow>
   foldl (\<lambda>mp a. jm_set (acc_id a) a mp) mp as = mp @ map (\<lambda>a. (acc_id a, a)) as"
proof (induction as arbitrary: mp)
  case (Cons a as)
  then have "jm_set (acc_id a) a mp = mp @ [(acc_id a, a)]" by (intro jm_set_fresh) simp
  moreover have "fst ` set (mp @ [(acc_id a, a)]) \<inter> acc_id ` set as = {}" using Cons.prems by auto
  ultimately show ?case using Cons.IH [of "mp @ [(acc_id a, a)]"] Cons.prems by simp
qed simp

lemma reorder_loop_perm:
  assumes "\<forall>(k, a) \<in> set mp. k = acc_id a" "distinct (map fst mp)"
  shows "mset (reorder_loop is mp out) = mset out + mset (map snd mp)"
  using assms
proof (induction "is" arbitrary: mp out)
  case (Cons i "is")
  show ?case
  proof (cases "map_of mp i")
    case None
    with Cons show ?thesis by simp
  next
    case (Some a)
    then obtain xs ys where mp: "mp = xs @ (i, a) # ys" by (meson map_of_SomeD split_list)
    with Cons.prems(2) have "\<forall>e \<in> set xs. fst e \<noteq> i" "\<forall>e \<in> set ys. fst e \<noteq> i" by (auto simp: image_iff)
    with mp have "jm_del i mp = xs @ ys" by (simp add: jm_del_def filter_id_conv)
    with Cons.IH [of "xs @ ys" "out @ [a]"] Cons.prems mp Some show ?thesis by auto
  qed
qed simp

lemma reorderAccounts_perm:
  assumes "distinct (map acc_id (accounts (data m)))"
  shows "mset (accounts (data (snd (reorderAccounts w is m)))) = mset (accounts (data m))"
proof -
  have k: "foldl (\<lambda>mp a. jm_set (acc_id a) a mp) [] (accounts (data m)) = map (\<lambda>a. (acc_id a, a)) (accounts (data m))"
    using account_map_append [of "accounts (data m)" "[]"] assms by simp
  show ?thesis
    using assms reorder_loop_perm [of "map (\<lambda>a. (acc_id a, a)) (accounts (data m))" "is" "[]"]
    by (simp add: reorderAccounts_def Let_def k pool_data_simps comp_def)
qed

lemma pool_inv_reorder:
  assumes "pool_inv (data m)"
  shows "pool_inv (data (snd (reorderAccounts w is m)))"
proof -
  have p: "mset (accounts (data (snd (reorderAccounts w is m)))) = mset (accounts (data m))"
    using assms by (intro reorderAccounts_perm) (simp add: pool_inv_def)
  then have "mset (map acc_id (accounts (data (snd (reorderAccounts w is m))))) = mset (map acc_id (accounts (data m)))"
    by simp
  then have "distinct (map acc_id (accounts (data (snd (reorderAccounts w is m)))))"
    using assms by (metis mset_eq_imp_distinct_iff pool_inv_def)
  with p [THEN mset_eq_setD] assms show ?thesis
    by (intro pool_inv_same [OF assms]) (simp_all add: reorderAccounts_def Let_def pool_data_simps)
qed

lemma pool_inv_select:
  assumes "pool_inv (data m)"
  shows "pool_inv (data (snd (selectAccount dparse t family busy m)))"
proof -
  have d: "distinct (map acc_id (accounts (data m)))" using assms by (simp add: pool_inv_def)
  have "pool_inv (data (snd (pick family cands m)))"
    if c: "cands \<noteq> []" "cands = candidates_of dparse t family b (data m)" for cands b
  proof -
    from c(2) have "set cands \<subseteq> set (accounts (data m))" by (simp add: candidates_subset)
    from next_cyclic_in [OF d this c(1)] have "next_cyclic (accounts (data m)) cands ai \<in> set cands" for ai .
    moreover have "a \<in> set (accounts (data m)) \<and> enabled a \<and> \<not> authRequired a" if "a \<in> set cands" for a
      using that by (auto simp: c(2) candidates_of_def eligible_def split: if_splits)
    ultimately have "\<exists>a \<in> set (accounts (data m)). acc_id a = acc_id (next_cyclic (accounts (data m)) cands ai) \<and>
        enabled a \<and> \<not> authRequired a" for ai
      by blast
    with assms show ?thesis
      by (auto simp: pick_def Let_def pool_data_simps pool_inv_def split: option.splits)
  qed
  then show ?thesis
    using assms by (cases rule: selectAccount_cases [of m dparse t family busy]) auto
qed

lemma pool_step_inv:
  assumes inv: "pool_inv (data m)" and ok: "pool_ok m op"
  shows "pool_inv (data (pool_step m op))"
proof (cases op)
  case (OpCommit w i d al em px)
  with inv ok show ?thesis
    by (auto simp: commitStagingAccount_def Let_def pool_data_simps blank_account_def intro!: pool_inv_add)
next
  case (OpCreate w i al)
  with inv ok show ?thesis
    by (auto simp: createAccountSlot_def Let_def pool_data_simps blank_account_def intro!: pool_inv_add)
next
  case (OpDelete w i)
  have "pool_inv (data (drop_active i m'))" if "accounts (data m') = remove_first i (accounts (data m))"
    "activeAccountIds (data m') = activeAccountIds (data m)" "defaultCooldownMs (data m') = defaultCooldownMs (data m)"
    "maxCooldownMs (data m') = maxCooldownMs (data m)" for m'
    by (rule pool_inv_cong [THEN iffD1, OF _ _ _ _ pool_inv_remove [OF inv, of i]])
      (simp_all add: drop_active_def that cong: if_cong)
  with inv OpDelete show ?thesis
    by (simp add: deleteAccount_def Let_def pool_data_simps split: option.split)
next
  case (OpReorder w "is")
  with pool_inv_reorder [OF inv] show ?thesis by simp
next
  case (OpSelect dparse t f busy)
  with pool_inv_select [OF inv] show ?thesis by simp
next
  case (OpMark w i why)
  with inv show ?thesis
    by (auto simp: markAuthRequired_def pool_data_simps counted_def split: option.split intro!: pool_inv_upd_drop)
next
  case (OpEnabled w i en)
  with inv show ?thesis
    by (cases en) (auto simp: setAccountEnabled_def pool_data_simps counted_def Let_def split: option.split
        intro!: pool_inv_upd_drop pool_inv_upd_account)
next
  case (OpFailure dparse t i f why srv)
  show ?thesis
  proof (cases "getAccount (data m) i")
    case (Some acc)
    then have "acc \<in> set (accounts (data m))" by (auto simp: getAccount_def dest: find_SomeD)
    from pool_inv_counted [OF inv this]
    have "0 \<le> (case cooldowns acc f of Some cd \<Rightarrow> consecutiveFailures cd | None \<Rightarrow> 0)"
      by (force simp: counted_def split: option.splits)
    with inv Some OpFailure show ?thesis
      by (auto simp: recordFailure_def Let_def pool_data_simps counted_def intro!: pool_inv_upd_account)
  qed (use inv OpFailure in \<open>simp add: recordFailure_def\<close>)
next
  case (OpClearCooldown w i f)
  have all: "pool_inv ((data m)\<lparr>accounts := map (clear_cd f) (accounts (data m))\<rparr>)"
  proof -
    have c: "acc_id (clear_cd f a) = acc_id a" "enabled (clear_cd f a) = enabled a"
      "authRequired (clear_cd f a) = authRequired a" "counted a \<Longrightarrow> counted (clear_cd f a)" for a
      by (auto simp: clear_cd_def counted_def split: option.splits)
    with inv show ?thesis by (fastforce simp: pool_inv_def counted_def comp_def)
  qed
  have one: "pool_inv (data (upd_account j (clear_cd f) m))" for j
    using inv by (rule pool_inv_upd_account) (auto simp: clear_cd_def counted_def split: option.splits)
  from all one inv OpClearCooldown show ?thesis
    by (simp add: clearCooldown_def pool_data_simps split: option.split)
qed (use inv in \<open>auto simp: setAccountProxy_def setAccountAlias_def clearAuthRequired_def resetAccountIdentity_def
      setMode_def updateAccountQuotas_def recordSuccess_def pool_data_simps counted_def Let_def
      split: option.split if_splits intro!: pool_inv_upd_account, simp_all add: pool_inv_def\<close>)

interpretation pool: stepwise pool_step pool_ok "\<lambda>m. pool_inv (data m)"
  by unfold_locales (rule pool_step_inv)

section \<open>Properties of the manager\<close>

text \<open>
  C10. From an empty pool, any sequence of account creations, deletions, administrative changes, run
  outcomes and selections keeps identities unique, and the account that is active for a family is
  always one that exists, is enabled and is not quarantined.
\<close>

theorem pool_reachable_inv:
  assumes "ok_run pool_step pool_ok (new_manager w base NoFile ds ls) ops"
    and "d = data (foldl pool_step (new_manager w base NoFile ds ls) ops)"
  shows "distinct (map acc_id (accounts d)) \<and>
    (\<forall>f i. activeAccountIds d f = Some i \<longrightarrow>
       (\<exists>a \<in> set (accounts d). acc_id a = i \<and> enabled a \<and> \<not> authRequired a))"
proof -
  have "pool_inv (data (new_manager w base NoFile ds ls))"
    by (simp add: new_manager_def load_def defaultPoolData_def pool_inv_def)
  from pool.run_inv [OF this assms(1)] show ?thesis unfolding assms(2) pool_inv_def by blast
qed

lemmas pool_op_eval = createAccountSlot_def add_account_def persist_def notify_def persistSoon_def
  to_stored_def upd_account_def drop_active_def getAccount_def markAuthRequired_def recordFailure_def

theorem pool_reachable_inv_witness:
  "let w = \<lparr>now = 0, write_ok = True, fs_ok = True\<rparr>;
       d = data (foldl pool_step (new_manager w ''base'' NoFile [] [])
             [OpCreate w ''x'' None, OpCreate w ''y'' None, OpSelect (\<lambda>_. None) 1 Google None, OpMark w ''x'' None,
              OpSelect (\<lambda>_. None) 2 Google None])
   in activeAccountIds d Google = Some ''y'' \<and> distinct (map acc_id (accounts d))"
proof -
  let ?w = "\<lparr>now = 0, write_ok = True, fs_ok = True\<rparr> :: world"
  let ?ops = "[OpCreate ?w ''x'' None, OpCreate ?w ''y'' None, OpSelect (\<lambda>_. None) 1 Google None, OpMark ?w ''x'' None,
              OpSelect (\<lambda>_. None) 2 Google None]"
  let ?m = "new_manager ?w ''base'' NoFile [] []"
  have ok: "ok_run pool_step pool_ok ?m ?ops"
    by (simp add: pool_eval pool_op_eval)
  have "activeAccountIds (data (foldl pool_step ?m ?ops)) Google = Some ''y''"
    by (simp add: pool_eval pool_op_eval)
  with pool_reachable_inv [OF ok refl] show ?thesis unfolding Let_def by blast
qed

lemma failure_until_later:
  assumes "pool_inv d" "1 \<le> failures"
  shows "t < failure_until dparse t d failures why srv"
proof -
  from assms have "1 * 1 \<le> defaultCooldownMs d * failures"
    by (intro mult_mono) (auto simp: pool_inv_def)
  with assms have "0 < min (defaultCooldownMs d * failures) (maxCooldownMs d)" by (simp add: pool_inv_def)
  then show ?thesis
    by (auto simp: failure_until_def Let_def split: option.splits)
qed

lemma upd_first_found:
  "distinct (map acc_id as) \<Longrightarrow> (\<And>a. acc_id (f a) = acc_id a) \<Longrightarrow> b \<in> set (upd_first i f as) \<Longrightarrow> acc_id b = i \<Longrightarrow>
   \<exists>a \<in> set as. acc_id a = i \<and> b = f a"
proof (induction as)
  case (Cons c as)
  show ?case
  proof (cases "acc_id c = i")
    case True
    with Cons.prems show ?thesis by (auto simp: image_iff)
  next
    case False
    with Cons.prems(3,4) have "b \<in> set (upd_first i f as)" by auto
    with Cons False show ?thesis by auto
  qed
qed simp

text \<open>
  Failover: after a rate-limit failure is recorded for an account and family, the account is not
  selected for that family before its cooldown ends, which lies strictly in the future.
\<close>

lemma recordFailure_failover:
  assumes "pool_inv (data m)" "getAccount (data m) i = Some a"
    and "m1 = recordFailure dparse t i family why srv m"
    and "selectAccount dparse2 t2 family busy m1 = (Some b, m2)" "acc_id b = i"
  shows "\<exists>cd. cooldowns b family = Some cd \<and> t < cooldownUntil cd \<and> cooldownUntil cd \<le> t2"
proof -
  let ?n = "(case cooldowns a family of Some cd \<Rightarrow> consecutiveFailures cd | None \<Rightarrow> 0) + 1"
  let ?f = "\<lambda>a. a\<lparr>cooldowns := (cooldowns a)(family \<mapsto> \<lparr>cooldownUntil = failure_until dparse t (data m) ?n why srv,
      reason = why, consecutiveFailures = ?n\<rparr>)\<rparr>"
  have inv1: "pool_inv (data m1)" using pool_step_inv [OF assms(1), of "OpFailure dparse t i family why srv"] assms(3) by simp
  from assms(2) have "a \<in> set (accounts (data m))" by (auto simp: getAccount_def dest: find_SomeD)
  from pool_inv_counted [OF assms(1) this] have n: "1 \<le> ?n"
    by (force simp: counted_def split: option.splits)
  have acc: "accounts (data m1) = upd_first i ?f (accounts (data m))"
    using assms(2,3) by (simp add: recordFailure_def Let_def pool_data_simps upd_account_def)
  have b: "b \<in> set (accounts (data m1))" "eligible dparse2 t2 family b"
    using selectAccount_eligible [OF _ assms(4)] inv1 by (simp_all add: pool_inv_def)
  from upd_first_found [of "accounts (data m)" ?f b i] assms(1,5) b(1) acc obtain a' where "b = ?f a'"
    by (auto simp: pool_inv_def)
  with b(2) failure_until_later [OF assms(1) n, of t dparse why srv] show ?thesis
    by (auto simp: eligible_def split: if_splits)
qed


text \<open>
  Reordering is a permutation: whatever list of identities the administrator sends (with unknown,
  repeated or missing ones), the pool holds exactly the same accounts afterwards.
\<close>

lemma reorderAccounts_permutes:
  assumes "distinct (map acc_id (accounts (data m)))"
  shows "mset (accounts (data (snd (reorderAccounts w is m)))) = mset (accounts (data m))"
  using assms by (rule reorderAccounts_perm)


section \<open>Durability\<close>

definition restart :: "world \<Rightarrow> pool_manager \<Rightarrow> pool_manager" where
  "restart w m = new_manager w (baseDir m) (pool_file m) (dirs m) (logs m)"

definition durable :: "pool_manager \<Rightarrow> bool" where
  "durable m =
     ((persistDirty m \<longrightarrow> persistTimer m) \<and>
      (\<not> persistDirty m \<longrightarrow>
         (pool_file m = NoFile \<and> data m = defaultPoolData \<or> (\<exists>p. pool_file m = PoolFile p \<and> from_stored p = data m))))"

fun writes_ok :: "pool_manager \<Rightarrow> pool_op \<Rightarrow> bool" where
  "writes_ok m (OpCommit w i d al em px) = write_ok w"
| "writes_ok m (OpCreate w i al) = write_ok w"
| "writes_ok m (OpDelete w i) = write_ok w"
| "writes_ok m (OpProxy w i px) = write_ok w"
| "writes_ok m (OpAlias w i al) = write_ok w"
| "writes_ok m (OpEnabled w i en) = write_ok w"
| "writes_ok m (OpMark w i why) = write_ok w"
| "writes_ok m (OpClearAuth w i) = write_ok w"
| "writes_ok m (OpResetIdentity w i em) = write_ok w"
| "writes_ok m (OpReorder w is) = write_ok w"
| "writes_ok m (OpMode w md) = write_ok w"
| "writes_ok m (OpClearCooldown w i f) = write_ok w"
| "writes_ok m (OpTimer w) = write_ok w"
| "writes_ok m (OpFlush w) = write_ok w"
| "writes_ok m op = True"

lemma from_to_stored: "from_stored (to_stored d) = d"
  by (simp add: from_stored_def to_stored_def)

interpretation pool_store: debounced data persistDirty persistTimer "\<lambda>m. data (restart w m)"
  "persist (w\<lparr>write_ok := True\<rparr>)" persistSoon for w
  by unfold_locales (simp_all add: persist_def notify_def persistSoon_def restart_def new_manager_def load_def
      from_to_stored Let_def)

lemma durable_persist: "write_ok w \<Longrightarrow> durable (persist w m)"
  by (simp add: durable_def persist_def notify_def Let_def from_to_stored)

lemma durable_persistSoon: "durable (persistSoon m)"
  by (simp add: durable_def persistSoon_def)

lemma durable_pick: "durable m \<Longrightarrow> durable (snd (pick family cands m))"
  by (auto simp: pick_def Let_def durable_persistSoon split: option.splits)

lemma durable_step: "durable m \<Longrightarrow> writes_ok m op \<Longrightarrow> durable (pool_step m op)"
  by (cases op; auto simp: commitStagingAccount_def createAccountSlot_def deleteAccount_def setAccountProxy_def
      setAccountAlias_def setAccountEnabled_def markAuthRequired_def clearAuthRequired_def resetAccountIdentity_def
      reorderAccounts_def setMode_def updateAccountQuotas_def recordFailure_def recordSuccess_def clearCooldown_def
      selectAccount_def Let_def durable_persist durable_persistSoon durable_pick flush_def persistTimer_fires_def
      split: option.split list.split; simp add: durable_def)

interpretation pool_disk: stepwise pool_step writes_ok durable
  by unfold_locales (rule durable_step)

text \<open>
  Nothing is lost across a restart: if the file system accepts the writes, then after any sequence of
  operations a flush followed by a restart restores exactly the pool data, and a change that is not on
  disk yet always has a pending write.
\<close>

lemma pool_durable:
  assumes "ok_run pool_step writes_ok (new_manager w0 base NoFile ds ls) ops" "write_ok w"
    and "m = foldl pool_step (new_manager w0 base NoFile ds ls) ops"
  shows "data (restart w (flush w m)) = data m \<and> (persistDirty m \<longrightarrow> persistTimer m)"
proof -
  have "durable (new_manager w0 base NoFile ds ls)" by (simp add: new_manager_def load_def durable_def)
  from pool_disk.run_inv [OF this assms(1)] have d: "durable m" by (simp add: assms(3))
  then have "durable (flush w m)" using assms(2) by (auto simp: flush_def durable_persist)
  moreover have "\<not> persistDirty (flush w m)" by (simp add: flush_def persist_def notify_def Let_def)
  ultimately have "data (restart w (flush w m)) = data (flush w m)"
    by (auto simp: durable_def restart_def new_manager_def load_def)
  with d show ?thesis by (simp add: pool_data_simps durable_def)
qed


end
