(* ===== verification/Engine.thy ===== *)
theory Engine
  imports Spans Pool
begin

text \<open>
  The engine before a process is spawned, class \<open>AgyEngine\<close> of \<open>src/host/engine.ts\<close>: busy marks, the reset
  estimate, the sliding window, account choice with model fallback, the model whitelist of a key, session keys
  and binding invalidation, the duplicate debounce, and hand-back on every early failure.

  \<open>stream\<close> runs without interruption between its awaits, so each such section is one definition on the engine
  state: \<open>admit\<close> up to the wait of the rate window, \<open>prepare\<close> up to image staging, \<open>pre_dispatch\<close> up to
  the semaphore, \<open>after_acquire\<close> behind it. What an await delivers (the clock, whether the caller has gone, what
  staging and the semaphore returned) is an argument. \<open>dparse\<close> is \<open>Date.parse\<close>. Steering a running session
  (\<open>activeRuns\<close>) is not modelled: the gateway's routes never set a session key.
\<close>

section \<open>State\<close>

record engine_state =
  eng_pool :: "pool_manager option"
  eng_store :: session_store
  activeSessionPrompts :: "(string, string \<times> ms) jsmap"
  requestTimestamps :: "ms list"
  inFlightCount :: "(string, nat) jsmap"
  busyAccounts :: "string list"

definition trackBusy :: "string option \<Rightarrow> engine_state \<Rightarrow> engine_state" where
  "trackBusy i s =
     (case i of
        None \<Rightarrow> s
      | Some a \<Rightarrow> s\<lparr>inFlightCount := jm_set a (or_else (map_of (inFlightCount s) a) 0 + 1) (inFlightCount s),
                    busyAccounts := (if a \<in> set (busyAccounts s) then busyAccounts s else busyAccounts s @ [a])\<rparr>)"

definition untrackBusy :: "string option \<Rightarrow> engine_state \<Rightarrow> engine_state" where
  "untrackBusy i s =
     (case i of
        None \<Rightarrow> s
      | Some a \<Rightarrow>
          (let left = or_else (map_of (inFlightCount s) a) 1 - 1
           in if left \<le> 0
              then s\<lparr>inFlightCount := jm_del a (inFlightCount s), busyAccounts := filter (\<lambda>b. b \<noteq> a) (busyAccounts s)\<rparr>
              else s\<lparr>inFlightCount := jm_set a left (inFlightCount s)\<rparr>))"

section \<open>Reset estimate\<close>

definition consider_reset :: "ms \<Rightarrow> ms option \<Rightarrow> ms option" where
  "consider_reset x earliest = (case earliest of None \<Rightarrow> Some x | Some e \<Rightarrow> Some (if x < e then x else e))"

definition quota_reset :: "(string \<Rightarrow> ms option) \<Rightarrow> ms \<Rightarrow> string option \<Rightarrow> ms option \<Rightarrow> ms option" where
  "quota_reset dparse t rt earliest =
     (if truthy_str rt
      then (case dparse (or_else rt []) of Some p \<Rightarrow> if p > t then consider_reset p earliest else earliest | None \<Rightarrow> earliest)
      else earliest)"

definition earliestResetMs :: "(string \<Rightarrow> ms option) \<Rightarrow> ms \<Rightarrow> model_family \<Rightarrow> pool_manager option \<Rightarrow> ms option" where
  "earliestResetMs dparse t family pool =
     (case pool of
        None \<Rightarrow> None
      | Some p \<Rightarrow>
          (let e0 = (case getEarliestResetCountdown t family (data p) of Some c \<Rightarrow> consider_reset (t + c) None | None \<Rightarrow> None);
               e1 = foldl (\<lambda>e acc. if \<not> enabled acc then e
                      else case quotas acc family of
                             None \<Rightarrow> e
                           | Some q \<Rightarrow> quota_reset dparse t (weeklyResetTime q) (quota_reset dparse t (resetTime q) e))
                    e0 (accounts (data p))
           in map_option (\<lambda>e. max 0 (e - t)) e1))"

section \<open>The sliding window\<close>

definition rate_prune :: "ms \<Rightarrow> ms list \<Rightarrow> ms list" where
  "rate_prune t ts = dropWhile (\<lambda>x. x < t - 60000) ts"

definition rate_delay :: "rat \<Rightarrow> ms \<Rightarrow> ms list \<Rightarrow> ms option" where
  "rate_delay limit t ts =
     (if of_nat (length ts) \<ge> limit \<and> hd ts + 60000 - t > 0 then Some (hd ts + 60000 - t) else None)"

text \<open>Up to the wait: the binary, the effort, the pruned window. The result is the effort and the delay.\<close>

definition admit ::
  "bool \<Rightarrow> gateway_config \<Rightarrow> catalog \<Rightarrow> engine_call \<Rightarrow> ms \<Rightarrow> engine_state \<Rightarrow>
   (engine_error + string option \<times> ms option) \<times> engine_state" where
  "admit has_bin cfg cat call t s =
     (if \<not> has_bin
      then (Inl (engine_err (''agy binary not found on PATH '' @ em_dash @
              '' install it via https://antigravity.google/docs/cli/install'') AGY_NOT_INSTALLED), s)
      else case resolve_effort cfg cat call of
             Inl e \<Rightarrow> (Inl e, s)
           | Inr eff \<Rightarrow>
               if rateLimitPerMinute cfg > 0
               then (let ts = rate_prune t (requestTimestamps s)
                     in (Inr (eff, rate_delay (rateLimitPerMinute cfg) t ts), s\<lparr>requestTimestamps := ts\<rparr>))
               else (Inr (eff, None), s))"

section \<open>Choosing an account\<close>

fun show_family :: "model_family \<Rightarrow> string" where
  "show_family Google = ''google''"
| "show_family Anthropic = ''anthropic''"
| "show_family Openai = ''openai''"
| "show_family UnknownFamily = ''unknown''"

definition FALLBACK_SLUGS :: "string list" where
  "FALLBACK_SLUGS = [''gemini-3.5-flash'', ''gemini-3.6-flash'']"

fun fallback_loop ::
  "(string \<Rightarrow> ms option) \<Rightarrow> ms \<Rightarrow> string list \<Rightarrow> pool_manager \<Rightarrow> (managed_account \<times> model_family \<times> string) option \<times> pool_manager" where
  "fallback_loop dparse t [] p = (None, p)"
| "fallback_loop dparse t (fb # fbs) p =
     (let fam = modelFamilyOf (Some fb); (acc, p1) = selectAccount dparse t fam None p
      in case acc of Some a \<Rightarrow> (Some (a, fam, fb), p1) | None \<Rightarrow> fallback_loop dparse t fbs p1)"

definition exhausted :: "(string \<Rightarrow> ms option) \<Rightarrow> ms \<Rightarrow> model_family \<Rightarrow> pool_manager \<Rightarrow> engine_error" where
  "exhausted dparse t family p =
     (let countdown = earliestResetMs dparse t family (Some p);
          secs = map_option (\<lambda>c. \<lceil>(of_int c :: rat) / 1000\<rceil>) countdown
      in \<lparr>err_message = ''All Antigravity accounts in pool are in cooldown for '' @ show_family family @
            (case secs of Some n \<Rightarrow> '' (earliest reset in '' @ show_int n @ ''s)'' | None \<Rightarrow> []) @
            ''. Add an account or wait for reset.'',
          err_is = POOL_EXHAUSTED, retryAfterSec = map_option (max 1) secs\<rparr>)"

definition choose_account ::
  "(string \<Rightarrow> ms option) \<Rightarrow> ms \<Rightarrow> gateway_config \<Rightarrow> string \<Rightarrow> string list \<Rightarrow> pool_manager option \<Rightarrow>
   (engine_error + managed_account option \<times> model_family \<times> string) \<times> pool_manager option" where
  "choose_account dparse t cfg activeModel busy pool =
     (let family = modelFamilyOf (Some activeModel)
      in case pool of
           None \<Rightarrow> (Inr (None, family, activeModel), None)
         | Some p \<Rightarrow>
             (let (acc, p1) = selectAccount dparse t family (Some busy) p
              in if accounts (data p1) \<noteq> [] \<and> acc = None
                 then (case (if autoFallbackModel cfg then fallback_loop dparse t FALLBACK_SLUGS p1 else (None, p1)) of
                         (Some (a, fam, fb), p2) \<Rightarrow> (Inr (Some a, fam, fb), Some p2)
                       | (None, p2) \<Rightarrow> (Inl (exhausted dparse t family p2), Some p2))
                 else (Inr (acc, family, activeModel), Some p1)))"

section \<open>Keys, scopes and bindings\<close>

definition key_of :: "engine_call \<Rightarrow> string option" where
  "key_of call = (case keyId call of Some (JStr k) \<Rightarrow> if k \<noteq> [] then Some k else None | _ \<Rightarrow> None)"

definition tenantKey :: "engine_call \<Rightarrow> string" where
  "tenantKey call = or_else (key_of call) ''root''"

definition session_of :: "engine_call \<Rightarrow> string" where
  "session_of call = or_else (sessionKey call) []"

definition steerKey :: "engine_call \<Rightarrow> string" where
  "steerKey call = (if session_of call \<noteq> [] then tenantKey call @ '':'' @ session_of call else [])"

definition sessionAccountKey :: "engine_call \<Rightarrow> managed_account option \<Rightarrow> string" where
  "sessionAccountKey call acc =
     (case acc of
        Some a \<Rightarrow> tenantKey call @ '':'' @ session_of call @ '':'' @ acc_id a
      | None \<Rightarrow> steerKey call)"

definition serving_model :: "gateway_config \<Rightarrow> string \<Rightarrow> string" where
  "serving_model cfg activeModel = (if activeModel = [] then defaultModel cfg else activeModel)"

definition check_scopes ::
  "(string option \<Rightarrow> string list option) option \<Rightarrow> gateway_config \<Rightarrow> engine_call \<Rightarrow> string \<Rightarrow> engine_error option" where
  "check_scopes getScopes cfg call activeModel =
     (case getScopes of
        None \<Rightarrow> None
      | Some gs \<Rightarrow>
          (case gs (key_of call) of
             None \<Rightarrow> None
           | Some allowed \<Rightarrow>
               if length allowed > 0 \<and> serving_model cfg activeModel \<notin> set allowed
               then Some (engine_err (''model '' @ serving_model cfg activeModel @ '' is not in this key'' @ [CHR 0x27] @
                 ''s allowed model list '' @ em_dash @ '' patch the key scopes in the admin UI (MODEL_NOT_ALLOWED)'') MODEL_NOT_ALLOWED)
               else None))"

definition load_binding ::
  "string \<Rightarrow> string \<Rightarrow> nat \<Rightarrow> session_store \<Rightarrow> session_binding option \<times> session_store" where
  "load_binding key currentModel n_msgs st =
     (let b0 = (if key \<noteq> [] then get_binding st key else None);
          (b1, s1) = (case b0 of
             Some b \<Rightarrow> if truthy_str (bound_model b) \<and> bound_model b \<noteq> Some currentModel
                       then (None, if key \<noteq> [] then delete_binding key st else st) else (b0, st)
           | None \<Rightarrow> (b0, st))
      in case b1 of
           Some b \<Rightarrow> if n_msgs < lastMessageCount b
                     then (None, if key \<noteq> [] then delete_binding key s1 else s1) else (b1, s1)
         | None \<Rightarrow> (b1, s1))"

section \<open>Preparation\<close>

record prepared =
  pr_model :: string
  pr_account :: "managed_account option"
  pr_family :: model_family
  pr_activeModel :: string
  pr_effort :: "string option"
  pr_key :: string
  pr_steerKey :: string
  pr_binding :: "session_binding option"
  pr_prompt :: string

text \<open>From the end of the rate wait to image staging.\<close>

definition prepare ::
  "(string \<Rightarrow> ms option) \<Rightarrow> (string option \<Rightarrow> string list option) option \<Rightarrow> gateway_config \<Rightarrow> engine_call \<Rightarrow>
   string option \<Rightarrow> bool \<Rightarrow> ms \<Rightarrow> engine_state \<Rightarrow> (engine_error + prepared) \<times> engine_state" where
  "prepare dparse getScopes cfg call eff aborted t s =
     (if rateLimitPerMinute cfg > 0 \<and> aborted
      then (Inl (engine_err ''request aborted before dispatch'' ABORTED), s)
      else
        let s1 = (if rateLimitPerMinute cfg > 0 then s\<lparr>requestTimestamps := requestTimestamps s @ [t]\<rparr> else s);
            model = resolveModelSlug (call_model call);
            (r, pool1) = choose_account dparse t cfg (serving_model cfg model) (busyAccounts s1) (eng_pool s1);
            s2 = s1\<lparr>eng_pool := pool1\<rparr>
        in case r of
             Inl e \<Rightarrow> (Inl e, s2)
           | Inr (acc, family, activeModel) \<Rightarrow>
               (case check_scopes getScopes cfg call activeModel of
                  Some e \<Rightarrow> (Inl e, s2)
                | None \<Rightarrow>
                    (let key = sessionAccountKey call acc;
                         (b, store1) = load_binding key (serving_model cfg activeModel) (length (messages call)) (eng_store s2)
                     in (Inr \<lparr>pr_model = model, pr_account = acc, pr_family = family, pr_activeModel = activeModel,
                              pr_effort = eff, pr_key = key, pr_steerKey = steerKey call, pr_binding = b,
                              pr_prompt = assemble_prompt (messages call) b (system_prompt call)\<rparr>,
                         trackBusy (map_option acc_id acc) (s2\<lparr>eng_store := store1\<rparr>)))))"

text \<open>
  From image staging to the semaphore. \<open>staged\<close> is \<open>None\<close> when there is nothing to stage, an error when staging
  threw, otherwise the prompt suffix and the staged directories; \<open>schema\<close> is the path of the schema file.
\<close>

definition image_hint :: string where
  "image_hint = nl @ nl @ ''[Please inspect the attached image(s) using view_file and assist the user.]''"

definition staged_prompt :: "string \<Rightarrow> string \<Rightarrow> string" where
  "staged_prompt sfx prompt =
     (if sfx \<noteq> [] then (if prompt = [] then sfx @ image_hint else prompt @ nl @ nl @ sfx) else prompt)"

definition agy_args :: "gateway_config \<Rightarrow> prepared \<Rightarrow> string \<Rightarrow> string list \<Rightarrow> string option \<Rightarrow> string list" where
  "agy_args cfg p prompt dirs1 schema =
     buildArgs \<lparr>opt_prompt = prompt, opt_model = serving_model cfg (pr_activeModel p), opt_effort = pr_effort p,
       opt_conversationId = map_option conversationId (pr_binding p), opt_permissionMode = permissionMode cfg,
       opt_timeoutMs = timeoutMs cfg, opt_extraArgs = extraArgs cfg, opt_addDirs = dirs1,
       opt_printTimeoutMinutes = Some (max 240 \<lceil>timeoutMs cfg / 60000\<rceil>)\<rparr> @
     (case schema of Some f \<Rightarrow> [''--json-schema'', f] | None \<Rightarrow> [])"

definition duplicate :: "string \<Rightarrow> string \<Rightarrow> ms \<Rightarrow> engine_state \<Rightarrow> bool" where
  "duplicate key prompt t s =
     (case map_of (activeSessionPrompts s) key of
        Some (p, started) \<Rightarrow> p = prompt \<and> t - started < 3000
      | None \<Rightarrow> False)"

definition pre_dispatch ::
  "gateway_config \<Rightarrow> engine_call \<Rightarrow> prepared \<Rightarrow> (engine_error + string \<times> string list) option \<Rightarrow> string option \<Rightarrow> ms \<Rightarrow>
   engine_state \<Rightarrow> (engine_error + string list) \<times> engine_state" where
  "pre_dispatch cfg call p staged schema t s =
     (let undo = untrackBusy (map_option acc_id (pr_account p)); key = steerKey call
      in case or_else staged (Inr ([], [])) of
           Inl e \<Rightarrow> (Inl e, undo s)
         | Inr (sfx, dirs1) \<Rightarrow>
             (let prompt = staged_prompt sfx (pr_prompt p)
              in if trim prompt = []
                 then (Inl (engine_err ''request carries no user text or images to forward to agy'' AGY_ERROR), undo s)
                 else if key \<noteq> [] \<and> duplicate key prompt t s
                 then (Inl (engine_err ''Duplicate request ignored: an identical request is already running for this session.'' BUSY),
                       undo s)
                 else (Inr (agy_args cfg p prompt dirs1 schema),
                       if key \<noteq> [] then s\<lparr>activeSessionPrompts := jm_set key (prompt, t) (activeSessionPrompts s)\<rparr> else s)))"

text \<open>
  Behind the semaphore: its error, or a slot. The first component says whether the slot is handed back here.
\<close>

definition after_acquire ::
  "prepared \<Rightarrow> engine_error + unit \<Rightarrow> bool \<Rightarrow> engine_state \<Rightarrow> (engine_error + unit) \<times> bool \<times> engine_state" where
  "after_acquire p got aborted s =
     (let undo = untrackBusy (map_option acc_id (pr_account p))
      in case got of
           Inl e \<Rightarrow> (Inl e, False, undo s)
         | Inr _ \<Rightarrow>
             if aborted
             then (Inl (engine_err ''request aborted while waiting for a concurrency slot'' ABORTED), True, undo s)
             else (Inr (), False, s))"


section \<open>Busy marks\<close>

text \<open>An account is marked busy exactly while some call is counted on it.\<close>

definition busy_ok :: "engine_state \<Rightarrow> bool" where
  "busy_ok s = (jm_wf (inFlightCount s) \<and> distinct (busyAccounts s) \<and>
     set (busyAccounts s) = fst ` set (inFlightCount s) \<and> (\<forall>n \<in> snd ` set (inFlightCount s). 0 < n))"

definition calls_on :: "engine_state \<Rightarrow> string \<Rightarrow> nat" where
  "calls_on s a = or_else (map_of (inFlightCount s) a) 0"

lemma set_jm_set: "set (jm_set k v m) \<subseteq> insert (k, v) (set m)"
  by (induction m) (auto split: if_splits)

lemma keys_jm_set_set: "fst ` set (jm_set k v m) = insert k (fst ` set m)"
  using jm.keys_dom [of "jm_set k v m"] jm.keys_dom [of m] by (auto simp: jm.get_put)

lemma keys_jm_del_set: "fst ` set (jm_del k m) = fst ` set m - {k}"
  by (auto simp: jm_del_def)

lemma trackBusy_ok:
  assumes "busy_ok s"
  shows "busy_ok (trackBusy i s) \<and> calls_on (trackBusy i s) = (\<lambda>a. calls_on s a + (if i = Some a then 1 else 0))"
proof (cases i)
  case (Some b)
  have "0 < n" if "n \<in> snd ` set (jm_set b (Suc k) (inFlightCount s))" for n k
    using that set_jm_set [of b "Suc k" "inFlightCount s"] assms by (fastforce simp: busy_ok_def)
  then have "busy_ok (trackBusy i s)"
    using assms Some by (auto simp: busy_ok_def trackBusy_def jm_wf_jm_set keys_jm_set_set)
  with Some show ?thesis by (auto simp: calls_on_def trackBusy_def jm.get_put)
qed (use assms in \<open>auto simp: trackBusy_def\<close>)

lemma untrackBusy_ok:
  assumes "busy_ok s"
  shows "busy_ok (untrackBusy i s) \<and> calls_on (untrackBusy i s) = (\<lambda>a. calls_on s a - (if i = Some a then 1 else 0))"
proof (cases i)
  case (Some b)
  show ?thesis
  proof (cases "or_else (map_of (inFlightCount s) b) 1 - 1 = 0")
    case True
    have "calls_on s b \<le> 1" using True by (cases "map_of (inFlightCount s) b") (auto simp: calls_on_def)
    moreover have "0 < n" if "(a, n) \<in> set (jm_del b (inFlightCount s))" for a n
      using that assms by (force simp: jm_del_def busy_ok_def)
    ultimately show ?thesis
      using assms Some True
      by (auto simp: untrackBusy_def busy_ok_def jm_wf_jm_del keys_jm_del_set calls_on_def jm.get_del fun_eq_iff)
  next
    case False
    then obtain n where n: "map_of (inFlightCount s) b = Some n" "1 < n" by (cases "map_of (inFlightCount s) b") auto
    have "0 < x" if "x \<in> snd ` set (jm_set b (n - 1) (inFlightCount s))" for x
      using that set_jm_set [of b "n - 1" "inFlightCount s"] assms n(2) by (fastforce simp: busy_ok_def)
    moreover have "b \<in> fst ` set (inFlightCount s)" using n(1) by (force dest: map_of_SomeD)
    ultimately show ?thesis
      using assms Some n
      by (auto simp: untrackBusy_def busy_ok_def jm_wf_jm_set keys_jm_set_set calls_on_def jm.get_put insert_absorb fun_eq_iff)
  qed
qed (use assms in \<open>auto simp: untrackBusy_def\<close>)

lemma track_untrack: "busy_ok s \<Longrightarrow> calls_on (untrackBusy i (trackBusy i s)) = calls_on s"
  using trackBusy_ok [of s i] untrackBusy_ok [of "trackBusy i s" i] by (auto simp: fun_eq_iff)

lemma busy_fields:
  "busy_ok (s\<lparr>eng_pool := p\<rparr>) = busy_ok s" "busy_ok (s\<lparr>eng_store := st\<rparr>) = busy_ok s"
  "busy_ok (s\<lparr>requestTimestamps := ts\<rparr>) = busy_ok s" "busy_ok (s\<lparr>activeSessionPrompts := ps\<rparr>) = busy_ok s"
  "calls_on (s\<lparr>eng_pool := p\<rparr>) = calls_on s" "calls_on (s\<lparr>eng_store := st\<rparr>) = calls_on s"
  "calls_on (s\<lparr>requestTimestamps := ts\<rparr>) = calls_on s" "calls_on (s\<lparr>activeSessionPrompts := ps\<rparr>) = calls_on s"
  by (simp_all add: busy_ok_def calls_on_def fun_eq_iff)

section \<open>Preparation is sound\<close>

lemma selectAccount_keeps_accounts:
  "accounts (data (snd (selectAccount dparse t family busy p))) = accounts (data p)"
  by (auto simp: selectAccount_def pick_def Let_def pool_data_simps split: list.splits option.splits)

lemma selectAccount_none:
  assumes "distinct (map acc_id (accounts (data p)))" "selectAccount dparse t family busy p = (None, p1)"
  shows "\<forall>a \<in> set (accounts (data p)). \<not> eligible dparse t family a"
proof (cases rule: selectAccount_cases [of p dparse t family busy])
  case free
  then show ?thesis using pick_in [OF assms(1) candidates_subset free(1), of family None p1] assms(2) by simp
next
  case (all_busy b)
  then show ?thesis using pick_in [OF assms(1) candidates_subset all_busy(3), of family None p1] assms(2) by simp
qed simp

lemma fallback_loop_sound:
  assumes "distinct (map acc_id (accounts (data p)))" "fallback_loop dparse t fbs p = (r, p1)"
  shows "accounts (data p1) = accounts (data p) \<and> (case r of
      None \<Rightarrow> \<forall>fb \<in> set fbs. \<forall>a \<in> set (accounts (data p)). \<not> eligible dparse t (modelFamilyOf (Some fb)) a
    | Some (a, fam, fb) \<Rightarrow> fb \<in> set fbs \<and> fam = modelFamilyOf (Some fb) \<and> a \<in> set (accounts (data p)) \<and> eligible dparse t fam a)"
  using assms
proof (induction fbs arbitrary: p r)
  case (Cons fb fbs)
  let ?fam = "modelFamilyOf (Some fb)"
  obtain acc q where q: "selectAccount dparse t ?fam None p = (acc, q)" by (cases "selectAccount dparse t ?fam None p")
  have k: "accounts (data q) = accounts (data p)" using selectAccount_keeps_accounts [of dparse t ?fam None p] q by simp
  show ?case
  proof (cases acc)
    case None
    then have "\<forall>a \<in> set (accounts (data p)). \<not> eligible dparse t ?fam a"
      using selectAccount_none [OF Cons.prems(1)] q by blast
    with Cons.IH [of q r] Cons.prems None q k show ?thesis by (auto split: option.splits prod.splits)
  next
    case (Some a)
    with Cons.prems q k selectAccount_eligible [OF Cons.prems(1)] show ?thesis by auto
  qed
qed simp


definition pool_ids_ok :: "engine_state \<Rightarrow> bool" where
  "pool_ids_ok s = (case eng_pool s of Some p \<Rightarrow> distinct (map acc_id (accounts (data p))) | None \<Rightarrow> True)"

definition pool_accounts :: "engine_state \<Rightarrow> managed_account list" where
  "pool_accounts s = (case eng_pool s of Some p \<Rightarrow> accounts (data p) | None \<Rightarrow> [])"

lemma choose_account_sound:
  assumes "choose_account dparse t cfg model busy pool = (r, pool1)"
    "case pool of Some p \<Rightarrow> distinct (map acc_id (accounts (data p))) | None \<Rightarrow> True"
  defines "as \<equiv> (case pool of Some p \<Rightarrow> accounts (data p) | None \<Rightarrow> [])"
  shows "case r of
      Inl e \<Rightarrow> err_is e = POOL_EXHAUSTED \<and> (\<forall>a \<in> set as. \<not> eligible dparse t (modelFamilyOf (Some model)) a) \<and>
        (case retryAfterSec e of Some n \<Rightarrow> 1 \<le> n | None \<Rightarrow> True)
    | Inr (acc, family, served) \<Rightarrow>
        (served = model \<or> (autoFallbackModel cfg \<and> served \<in> set FALLBACK_SLUGS \<and>
           (\<forall>a \<in> set as. \<not> eligible dparse t (modelFamilyOf (Some model)) a))) \<and>
        family = modelFamilyOf (Some served) \<and> (as \<noteq> [] \<longrightarrow> acc \<noteq> None) \<and>
        (case acc of Some a \<Rightarrow> a \<in> set as \<and> eligible dparse t family a | None \<Rightarrow> True)"
proof (cases pool)
  case None
  with assms show ?thesis by (auto simp: choose_account_def)
next
  case (Some p)
  let ?f = "modelFamilyOf (Some model)"
  have d: "distinct (map acc_id (accounts (data p)))" using assms(2) Some by simp
  obtain acc p1 where q: "selectAccount dparse t ?f (Some busy) p = (acc, p1)"
    by (cases "selectAccount dparse t ?f (Some busy) p")
  have k: "accounts (data p1) = accounts (data p)"
    using selectAccount_keeps_accounts [of dparse t ?f "Some busy" p] q by simp
  show ?thesis
  proof (cases acc)
    case (Some a)
    with assms(1) q k \<open>pool = Some p\<close> selectAccount_eligible [OF d, of dparse t ?f "Some busy" a p1]
    show ?thesis by (auto simp: choose_account_def as_def)
  next
    case None
    then have ne: "\<forall>a \<in> set (accounts (data p)). \<not> eligible dparse t ?f a" using selectAccount_none [OF d] q by blast
    show ?thesis
    proof (cases "accounts (data p1) = []")
      case True
      with None assms(1) q k \<open>pool = Some p\<close> show ?thesis by (auto simp: choose_account_def as_def)
    next
      case False
      obtain fr p2 where f: "(if autoFallbackModel cfg then fallback_loop dparse t FALLBACK_SLUGS p1 else (None, p1)) = (fr, p2)"
        by (metis surj_pair)
      show ?thesis
      proof (cases fr)
        case None
        then have "r = Inl (exhausted dparse t ?f p2)"
          using \<open>acc = None\<close> False assms(1) q f \<open>pool = Some p\<close> by (auto simp: choose_account_def)
        with ne \<open>pool = Some p\<close> show ?thesis by (auto simp: exhausted_def as_def Let_def split: option.splits)
      next
        case (Some x)
        obtain a fam fb where x: "x = (a, fam, fb)" by (cases x)
        from Some f have af: "autoFallbackModel cfg" "fallback_loop dparse t FALLBACK_SLUGS p1 = (Some (a, fam, fb), p2)"
          using x by (auto split: if_splits)
        have "r = Inr (Some a, fam, fb)"
          using \<open>acc = None\<close> False assms(1) q f Some x \<open>pool = Some p\<close> by (auto simp: choose_account_def)
        with fallback_loop_sound [OF _ af(2)] d k af(1) ne \<open>pool = Some p\<close> show ?thesis by (auto simp: as_def)
      qed
    qed
  qed
qed

lemma choose_account_pool:
  assumes "choose_account dparse t cfg model busy pool = (r, pool1)"
    "case pool of Some p \<Rightarrow> distinct (map acc_id (accounts (data p))) | None \<Rightarrow> True"
  shows "map_option (\<lambda>p. accounts (data p)) pool1 = map_option (\<lambda>p. accounts (data p)) pool"
proof (cases pool)
  case (Some p)
  let ?f = "modelFamilyOf (Some model)"
  obtain acc p1 where q: "selectAccount dparse t ?f (Some busy) p = (acc, p1)"
    by (cases "selectAccount dparse t ?f (Some busy) p")
  have k: "accounts (data p1) = accounts (data p)"
    using selectAccount_keeps_accounts [of dparse t ?f "Some busy" p] q by simp
  obtain fr p2 where f: "fallback_loop dparse t FALLBACK_SLUGS p1 = (fr, p2)"
    by (cases "fallback_loop dparse t FALLBACK_SLUGS p1")
  with fallback_loop_sound [OF _ f] k assms(2) Some have "accounts (data p2) = accounts (data p)" by simp
  with assms(1) q k f Some show ?thesis
    by (auto simp: choose_account_def Let_def split: if_splits option.splits prod.splits)
qed (use assms in \<open>auto simp: choose_account_def\<close>)

text \<open>
  C11. Preparing a call is sound on every path. If it succeeds: the account it chose is a member of the pool that
  is eligible for the family of the model that will be served, a non-empty pool always yields one, the served
  model is the requested one or, with automatic fallback on and nobody eligible for the requested family, one of
  the fallback models, the key's whitelist allows the served model, and the account carries exactly one more busy
  mark. If it fails: marks, bindings, running prompts and the accounts of the pool are as they were, and only two
  things may have changed, the rate window by the stamp of this call and the pool's current selection; and an
  exhausted pool is reported only when no account is eligible, with a retry delay of at least one second if one is
  given.
\<close>

theorem prepare_sound:
  assumes "busy_ok s" "pool_ids_ok s" "prepare dparse getScopes cfg call eff aborted t s = (r, s1)"
  defines "want \<equiv> serving_model cfg (resolveModelSlug (call_model call))"
  shows "busy_ok s1 \<and> (case r of
      Inl e \<Rightarrow>
        (\<exists>ts pool1. s1 = s\<lparr>requestTimestamps := ts, eng_pool := pool1\<rparr> \<and>
           (ts = requestTimestamps s \<or> ts = requestTimestamps s @ [t]) \<and>
           map_option (\<lambda>p. accounts (data p)) pool1 = map_option (\<lambda>p. accounts (data p)) (eng_pool s)) \<and>
        (err_is e = POOL_EXHAUSTED \<longrightarrow>
           (\<forall>a \<in> set (pool_accounts s). \<not> eligible dparse t (modelFamilyOf (Some want)) a) \<and>
           (case retryAfterSec e of Some n \<Rightarrow> 1 \<le> n | None \<Rightarrow> True))
    | Inr p \<Rightarrow>
        calls_on s1 = (\<lambda>i. calls_on s i + (if map_option acc_id (pr_account p) = Some i then 1 else 0)) \<and>
        (pr_activeModel p = want \<or> (autoFallbackModel cfg \<and> pr_activeModel p \<in> set FALLBACK_SLUGS \<and>
           (\<forall>a \<in> set (pool_accounts s). \<not> eligible dparse t (modelFamilyOf (Some want)) a))) \<and>
        pr_family p = modelFamilyOf (Some (pr_activeModel p)) \<and>
        (pool_accounts s \<noteq> [] \<longrightarrow> pr_account p \<noteq> None) \<and>
        (case pr_account p of Some a \<Rightarrow> a \<in> set (pool_accounts s) \<and> eligible dparse t (pr_family p) a | None \<Rightarrow> True) \<and>
        (\<forall>gs allowed. getScopes = Some gs \<and> gs (key_of call) = Some allowed \<and> allowed \<noteq> [] \<longrightarrow>
           serving_model cfg (pr_activeModel p) \<in> set allowed))"
proof (cases "rateLimitPerMinute cfg > 0 \<and> aborted")
  case True
  have same: "\<exists>ts pool1. s = s\<lparr>requestTimestamps := ts, eng_pool := pool1\<rparr> \<and>
      (ts = requestTimestamps s \<or> ts = requestTimestamps s @ [t]) \<and>
      map_option (\<lambda>p. accounts (data p)) pool1 = map_option (\<lambda>p. accounts (data p)) (eng_pool s)"
    by (intro exI [of _ "requestTimestamps s"] exI [of _ "eng_pool s"]) simp
  have "r = Inl (engine_err ''request aborted before dispatch'' ABORTED)" "s1 = s"
    using True assms(3) by (auto simp: prepare_def)
  with assms(1) same show ?thesis by (simp add: engine_err_def)
next
  case False
  define s0 where "s0 = (if rateLimitPerMinute cfg > 0 then s\<lparr>requestTimestamps := requestTimestamps s @ [t]\<rparr> else s)"
  have s0: "busy_ok s0" "calls_on s0 = calls_on s" "eng_pool s0 = eng_pool s"
    using assms(1) by (simp_all add: s0_def busy_fields)
  obtain cr pool1 where c: "choose_account dparse t cfg want (busyAccounts s0) (eng_pool s0) = (cr, pool1)"
    by (cases "choose_account dparse t cfg want (busyAccounts s0) (eng_pool s0)")
  note cs = choose_account_sound [OF c, folded pool_accounts_def [of s0]]
  have pa: "pool_accounts s0 = pool_accounts s" using s0(3) by (simp add: pool_accounts_def)
  have ids: "case eng_pool s0 of Some p \<Rightarrow> distinct (map acc_id (accounts (data p))) | None \<Rightarrow> True"
    using assms(2) s0(3) by (simp add: pool_ids_ok_def)
  have trace: "\<exists>ts pool2. s0\<lparr>eng_pool := pool1\<rparr> = s\<lparr>requestTimestamps := ts, eng_pool := pool2\<rparr> \<and>
      (ts = requestTimestamps s \<or> ts = requestTimestamps s @ [t]) \<and>
      map_option (\<lambda>p. accounts (data p)) pool2 = map_option (\<lambda>p. accounts (data p)) (eng_pool s)"
    using choose_account_pool [OF c ids] s0(3)
    by (intro exI [of _ "requestTimestamps s0"] exI [of _ pool1]) (simp add: s0_def)
  show ?thesis
  proof (cases cr)
    case (Inl e)
    with False assms(3) c have "r = Inl e" "s1 = s0\<lparr>eng_pool := pool1\<rparr>"
      by (auto simp: prepare_def want_def s0_def Let_def)
    with cs ids Inl s0 pa trace show ?thesis by (simp add: busy_fields)
  next
    case (Inr x)
    obtain acc family active1 where x: "x = (acc, family, active1)" by (cases x)
    show ?thesis
    proof (cases "check_scopes getScopes cfg call active1")
      case (Some e)
      with False assms(3) c Inr x have "r = Inl e" "s1 = s0\<lparr>eng_pool := pool1\<rparr>"
        by (auto simp: prepare_def want_def s0_def Let_def)
      moreover from Some have "err_is e = MODEL_NOT_ALLOWED"
        by (auto simp: check_scopes_def engine_err_def split: option.splits if_splits)
      ultimately show ?thesis using s0 trace by (simp add: busy_fields)
    next
      case None
      obtain b st where l: "load_binding (sessionAccountKey call acc) (serving_model cfg active1) (length (messages call)) (eng_store s0) = (b, st)"
        by (metis surj_pair)
      let ?s2 = "s0\<lparr>eng_pool := pool1, eng_store := st\<rparr>"
      from False assms(3) c Inr x None l obtain p where p: "r = Inr p" "s1 = trackBusy (map_option acc_id acc) ?s2"
        "pr_account p = acc" "pr_family p = family" "pr_activeModel p = active1"
        by (auto simp: prepare_def want_def s0_def Let_def split: if_splits)
      have b2: "busy_ok ?s2" "calls_on ?s2 = calls_on s" using s0 by (simp_all add: busy_fields)
      have sc: "\<forall>gs allowed. getScopes = Some gs \<and> gs (key_of call) = Some allowed \<and> allowed \<noteq> [] \<longrightarrow>
          serving_model cfg active1 \<in> set allowed"
        using None by (auto simp: check_scopes_def split: if_splits)
      note cs1 = cs [OF ids, unfolded pa Inr x sum.case prod.case]
      show ?thesis
        unfolding p(1) sum.case p(3-5) using trackBusy_ok [OF b2(1), of "map_option acc_id acc"] b2(2) cs1 sc
        unfolding p(2) by simp
    qed
  qed
qed


definition demo_call :: engine_call where
  "demo_call = \<lparr>call_model = ''gemini-3.5-flash'', reasoningEffort = None,
     messages = [\<lparr>msg_role = RUser, msg_text = ''hi'', images = [], toolCallId = None, provider = None\<rparr>],
     system_prompt = None, sessionKey = None, jsonSchema = None, keyId = Some (JStr ''k1'')\<rparr>"

definition demo_state :: "string list \<Rightarrow> engine_state" where
  "demo_state ids = \<lparr>eng_pool = Some (pool_of ids), eng_store = new_store True NoSessions, activeSessionPrompts = [],
     requestTimestamps = [], inFlightCount = [], busyAccounts = []\<rparr>"

lemma demo_state_ok: "busy_ok (demo_state ids)"
  by (simp add: busy_ok_def demo_state_def jm_wf_def)

theorem prepare_sound_witness:
  "calls_on (snd (prepare (\<lambda>_. None) (Some (\<lambda>_. Some [''gemini-3.1-pro''])) defaultConfig demo_call None False 0
     (demo_state [''a'', ''b'']))) = calls_on (demo_state [''a'', ''b''])"
proof -
  let ?r = "prepare (\<lambda>_. None) (Some (\<lambda>_. Some [''gemini-3.1-pro''])) defaultConfig demo_call None False 0 (demo_state [''a'', ''b''])"
  have ids: "pool_ids_ok (demo_state [''a'', ''b''])"
    by (simp add: pool_ids_ok_def demo_state_def pool_eval)
  from prepare_sound [OF demo_state_ok ids, of "\<lambda>_. None" "Some (\<lambda>_. Some [''gemini-3.1-pro''])" defaultConfig demo_call None False 0
      "fst ?r" "snd ?r"]
  show ?thesis
    by (cases "fst ?r")
      (auto simp: busy_fields serving_model_def FALLBACK_SLUGS_def defaultConfig_def demo_call_def resolveModelSlug_def js_string_defs
        split: if_splits)
qed

section \<open>Early failures\<close>

text \<open>
  Every failure before a process is spawned hands back what the call holds: when staging, the empty-prompt
  check, the duplicate debounce, the semaphore or a disconnect behind it fails the call, exactly its own busy mark
  is removed, and a slot is released exactly when the semaphore had granted one; otherwise the marks stay.
\<close>

lemma early_failure_hands_back:
  assumes "busy_ok s"
  defines "own \<equiv> \<lambda>p i. if map_option acc_id (pr_account p) = Some i then (1::nat) else 0"
  shows "(case pre_dispatch cfg call p staged schema t s of (r, s1) \<Rightarrow>
      busy_ok s1 \<and> calls_on s1 = (\<lambda>i. calls_on s i - (if isl r then own p i else 0))) \<and>
    (case after_acquire p got aborted s of (r, released, s1) \<Rightarrow>
      busy_ok s1 \<and> calls_on s1 = (\<lambda>i. calls_on s i - (if isl r then own p i else 0)) \<and>
      (released \<longleftrightarrow> isl r \<and> \<not> isl got))"
proof -
  note u = untrackBusy_ok [OF assms(1), of "map_option acc_id (pr_account p)"]
  have "case pre_dispatch cfg call p staged schema t s of (r, s1) \<Rightarrow>
      busy_ok s1 \<and> calls_on s1 = (\<lambda>i. calls_on s i - (if isl r then own p i else 0))"
    using u assms(1) by (auto simp: pre_dispatch_def own_def busy_fields Let_def split: sum.splits prod.splits)
  moreover have "case after_acquire p got aborted s of (r, released, s1) \<Rightarrow>
      busy_ok s1 \<and> calls_on s1 = (\<lambda>i. calls_on s i - (if isl r then own p i else 0)) \<and>
      (released \<longleftrightarrow> isl r \<and> \<not> isl got)"
    using u assms(1) by (auto simp: after_acquire_def own_def Let_def split: sum.splits)
  ultimately show ?thesis by blast
qed


section \<open>Tenants\<close>

lemma takeWhile_colon: "CHR '':'' \<notin> set t \<Longrightarrow> takeWhile (\<lambda>c. c \<noteq> CHR '':'') (t @ CHR '':'' # r) = t"
  by (induction t) auto

lemma tenant_of_key:
  "CHR '':'' \<notin> set (tenantKey call) \<Longrightarrow> sessionAccountKey call acc \<noteq> [] \<Longrightarrow>
   takeWhile (\<lambda>c. c \<noteq> CHR '':'') (sessionAccountKey call acc) = tenantKey call"
  by (cases acc) (auto simp: sessionAccountKey_def steerKey_def takeWhile_colon split: if_splits)

text \<open>
  Tenants never share a conversation: what a call of one API key stores or drops under its session key, on any
  account, leaves the binding that a call of another key would find as it was, and the same holds for the keys of
  the duplicate debounce. Key ids contain no colon.
\<close>

lemma tenants_isolated:
  assumes "CHR '':'' \<notin> set (tenantKey c1)" "CHR '':'' \<notin> set (tenantKey c2)" "tenantKey c1 \<noteq> tenantKey c2"
  shows "(sessionAccountKey c2 a2 \<noteq> [] \<longrightarrow>
      get_binding (set_binding (sessionAccountKey c1 a1) b st) (sessionAccountKey c2 a2) = get_binding st (sessionAccountKey c2 a2) \<and>
      get_binding (delete_binding (sessionAccountKey c1 a1) st) (sessionAccountKey c2 a2) = get_binding st (sessionAccountKey c2 a2)) \<and>
    (steerKey c2 \<noteq> [] \<longrightarrow> steerKey c1 \<noteq> steerKey c2)"
proof -
  have ne: "sessionAccountKey c1 x \<noteq> sessionAccountKey c2 y" if "sessionAccountKey c2 y \<noteq> []" for x y
    using tenant_of_key [OF assms(1), of x] tenant_of_key [OF assms(2), of y] assms(3) that by metis
  have "steerKey c1 \<noteq> steerKey c2" if "steerKey c2 \<noteq> []"
    using ne [of None None] that by (simp add: sessionAccountKey_def)
  with ne [of a2 a1] show ?thesis by (auto simp: get_set_binding get_delete_binding)
qed


end
