(* ===== verification/Parser.thy ===== *)
theory Parser
  imports Types
begin

text \<open>
  The stream-json parser, \<open>src/host/parser.ts\<close>: agy's stdout, in arbitrary slices, to normalized events.

  \<open>JSON.parse\<close> is the parameter \<open>jparse\<close> (\<open>None\<close> when it throws): nothing below depends on which
  texts are JSON. \<open>classifyEvent\<close> calls itself on rewritten objects; the model gives it a call depth,
  \<open>None\<close> standing for an exhausted call stack, and the lemmas show for which objects two nested calls
  are enough and for which no depth is.
\<close>

section \<open>Classifying one object\<close>

definition TEXT_STEP_TYPES :: "string list" where
  "TEXT_STEP_TYPES = [''agent_text'', ''agenttext'', ''text'', ''model_response'', ''modelresponse'', ''message'',
     ''response_text'', ''agent_response'', ''agentresponse'']"

definition THINKING_STEP_TYPES :: "string list" where
  "THINKING_STEP_TYPES = [''thinking'', ''thought'', ''reasoning'']"

definition TOOL_STEP_TYPES :: "string list" where
  "TOOL_STEP_TYPES = [''tool_call'', ''toolcall'', ''tool'', ''tool_use'', ''tooluse'', ''tool_run'', ''toolrun'', ''function_call'']"

definition SUBAGENT_STEP_TYPES :: "string list" where
  "SUBAGENT_STEP_TYPES = [''subagent'', ''subagent_message'', ''subagent_result'']"

definition USER_INPUT_STEP_TYPES :: "string list" where
  "USER_INPUT_STEP_TYPES = [''user_input'', ''userinput'', ''user_message'']"

definition NUMERIC_STEP_TYPES :: "(rat \<times> agy_step_kind) list" where
  "NUMERIC_STEP_TYPES = [(14, KThinking), (15, KText), (23, KTitle), (5, KTool), (7, KTool), (8, KTool), (9, KTool),
     (17, KTool), (21, KTool), (33, KTool), (101, KTool), (132, KTool), (138, KTool), (139, KTool)]"

text \<open>A nullish value counts as absent.\<close>

fun non_null :: "json option \<Rightarrow> json option" where
  "non_null (Some JNull) = None"
| "non_null v = v"

fun pick_key :: "json \<Rightarrow> string list \<Rightarrow> json option" where
  "pick_key obj [] = None"
| "pick_key obj (k # ks) = (case non_null (jget obj k) of Some v \<Rightarrow> Some v | None \<Rightarrow> pick_key obj ks)"

definition normalizeStepKind :: "json option \<Rightarrow> agy_step_kind" where
  "normalizeStepKind v =
     (case v of
        Some (JNum n) \<Rightarrow> or_else (map_of NUMERIC_STEP_TYPES n) KUnknown
      | Some (JStr t) \<Rightarrow>
          (let s = to_lower t in
           if s \<in> set TEXT_STEP_TYPES then KText
           else if s \<in> set THINKING_STEP_TYPES then KThinking
           else if s \<in> set TOOL_STEP_TYPES then KTool
           else if s = ''title'' then KTitle
           else if s \<in> set SUBAGENT_STEP_TYPES then KSubagent
           else if s \<in> set USER_INPUT_STEP_TYPES then KUserInput
           else KUnknown)
      | _ \<Rightarrow> KUnknown)"

fun is_objectlike :: "json \<Rightarrow> bool" where
  "is_objectlike (JObj kvs) = True"
| "is_objectlike (JArr xs) = True"
| "is_objectlike _ = False"

definition extractText :: "json \<Rightarrow> string" where
  "extractText obj =
     (case pick_key obj [''text'', ''content'', ''agent_text'', ''agentText'', ''output_text'', ''payload_text''] of
        Some (JStr s) \<Rightarrow> s
      | _ \<Rightarrow>
          (case pick_key obj [''payload'', ''step_payload'', ''stepPayload''] of
             Some p \<Rightarrow>
               (if is_objectlike p
                then or_else (as_str (pick_key p [''text'', ''content'', ''agent_text'', ''agentText''])) []
                else [])
           | None \<Rightarrow> []))"

definition extractTextDelta :: "json \<Rightarrow> string option" where
  "extractTextDelta obj = as_str (pick_key obj [''text_delta'', ''textDelta''])"

definition extractTool :: "json \<Rightarrow> agy_tool_info option" where
  "extractTool obj =
     (let info = pick_key obj [''tool_info'', ''toolInfo'', ''tool'', ''tool_call'', ''toolCall''];
          src = (case info of Some i \<Rightarrow> if is_objectlike i then i else obj | None \<Rightarrow> obj)
      in case pick_key src [''name'', ''tool_name'', ''toolName'', ''canonical_name''] of
           Some (JStr nm) \<Rightarrow>
             (if nm = [] then None
              else let error = (case jget src ''error'' of
                                  Some (JStr e) \<Rightarrow> Some e
                                | Some e \<Rightarrow> (case jget e ''message'' of
                                             Some (JStr msg) \<Rightarrow> if msg \<noteq> [] then Some msg else None
                                           | _ \<Rightarrow> None)
                                | None \<Rightarrow> None)
                in Some \<lparr>tool_name = nm,
                     tool_args = pick_key src [''parameters'', ''params'', ''input'', ''args'', ''input_json'', ''inputJson''],
                     tool_output = pick_key src [''output'', ''result'', ''output_text''], tool_error = error\<rparr>)
         | _ \<Rightarrow> None)"

definition parseUsage :: "json option \<Rightarrow> raw_usage" where
  "parseUsage v =
     (case v of
        Some o1 \<Rightarrow>
          (if is_objectlike o1 then
             \<lparr>input_tokens = as_num (jget o1 ''input_tokens''), output_tokens = as_num (jget o1 ''output_tokens''),
              thinking_tokens = as_num (jget o1 ''thinking_tokens''), cache_read_tokens = as_num (jget o1 ''cache_read_tokens''),
              cache_write_tokens = as_num (jget o1 ''cache_write_tokens''), total_tokens = as_num (jget o1 ''total_tokens'')\<rparr>
           else no_usage)
      | None \<Rightarrow> no_usage)"

definition event_tag :: "json \<Rightarrow> string" where
  "event_tag o1 =
     (case jget o1 ''event'' of
        Some (JStr e) \<Rightarrow> e
      | _ \<Rightarrow> or_else (as_str (jget o1 ''type'')) [])"

definition nonempty_str :: "json option \<Rightarrow> string option" where
  "nonempty_str v = (case v of Some (JStr s) \<Rightarrow> if s \<noteq> [] then Some s else None | _ \<Rightarrow> None)"

definition classify_init :: "json \<Rightarrow> agy_event" where
  "classify_init o1 =
     (let initSrc = (case jget o1 ''init'' of Some i \<Rightarrow> if is_obj i then i else JObj [] | None \<Rightarrow> JObj []);
          names = [''model'', ''model_name'', ''modelName''];
          model = (case pick_key o1 names of Some v \<Rightarrow> Some v | None \<Rightarrow> pick_key initSrc names);
          convId = (case nonempty_str (pick_key o1 [''conversation_id'', ''conversationId'', ''session_id'', ''sessionId'']) of
                      Some c \<Rightarrow> Some c
                    | None \<Rightarrow> nonempty_str (pick_key initSrc [''conversation_id'', ''conversationId'']))
      in InitEvent convId (as_str model))"

definition classify_step :: "json \<Rightarrow> nat \<Rightarrow> agy_event" where
  "classify_step o1 seq =
     (let src = (case pick_key o1 [''step_update'', ''stepUpdate'', ''step''] of
                   Some (JObj kvs) \<Rightarrow> if kvs \<noteq> [] then JObj kvs else o1
                 | _ \<Rightarrow> o1);
          idxV = pick_key src [''step_index'', ''stepIndex'', ''idx'', ''index'', ''step_idx'', ''stepIdx'', ''id'', ''step_id'', ''stepId''];
          key = (case idxV of Some (JNum n) \<Rightarrow> show_rat n | Some (JStr s) \<Rightarrow> s | _ \<Rightarrow> show_nat seq);
          kind = normalizeStepKind (pick_key src [''step_type'', ''stepType'', ''type'']);
          delta = extractTextDelta src;
          usageRaw = pick_key src [''usage'']
      in StepEvent \<lparr>stepKey = key, stepKind = kind,
           step_text = (case delta of Some d \<Rightarrow> d | None \<Rightarrow> extractText src),
           fragment = (delta \<noteq> None),
           tool = (if kind = KTool then extractTool src else None),
           step_state = as_str (pick_key src [''state'']),
           step_usage = (case usageRaw of Some u \<Rightarrow> if is_objectlike u then Some (parseUsage usageRaw) else None | None \<Rightarrow> None)\<rparr>)"

definition upper_char :: "char \<Rightarrow> char" where
  "upper_char c = (let n = of_char c :: nat in if 97 \<le> n \<and> n \<le> 122 then char_of (n - 32) else c)"

text \<open>The payload of a result line; its status may have no string form, and then \<open>String(status)\<close> throws (\<open>None\<close>).\<close>

definition result_inner :: "json \<Rightarrow> json" where
  "result_inner o1 =
     (let r = (case non_null (jget o1 ''result'') of Some v \<Rightarrow> v | None \<Rightarrow> o1) in if is_objectlike r then r else JObj [])"

definition classify_result :: "json \<Rightarrow> agy_event option" where
  "classify_result o1 =
     (let inner = result_inner o1;
          status = pick_key inner [''status''];
          error = pick_key inner [''error'', ''error_message'', ''errorMessage'']
      in map_option (\<lambda>status_text.
           ResultEvent \<lparr>res_conversationId = or_else (as_str (pick_key inner [''conversation_id'', ''conversationId''])) [],
             res_ok = (case status of None \<Rightarrow> \<not> truthy error | Some _ \<Rightarrow> map upper_char status_text \<noteq> ''ERROR''),
             response = or_else (as_str (pick_key inner [''structured_output'', ''response'', ''text'', ''content''])) [],
             res_error = as_str error,
             res_usage = parseUsage (jget inner ''usage'')\<rparr>) (js_string_opt status))"

text \<open>\<open>{ event: 'step_update', ...o }\<close>: a property of \<open>o\<close> wins over the first one.\<close>

definition with_event :: "json \<Rightarrow> json" where
  "with_event o1 = (case o1 of
     JObj kvs \<Rightarrow> JObj (foldl (\<lambda>acc (k, v). jm_set k v acc) [(''event'', JStr ''step_update'')] kvs)
   | _ \<Rightarrow> o1)"

definition INIT_TAGS :: "string list" where
  "INIT_TAGS = [''init'', ''initialized'']"

definition STEP_TAGS :: "string list" where
  "STEP_TAGS = [''step_update'', ''step'', ''stepUpdate'']"

definition RESULT_TAGS :: "string list" where
  "RESULT_TAGS = [''result'', ''done'', ''final'']"

text \<open>The outer \<open>None\<close> is an exception: the call depth is used up, or the conversion of a status throws.\<close>

fun classifyEvent :: "nat \<Rightarrow> json \<Rightarrow> nat \<Rightarrow> agy_event option option" where
  "classifyEvent 0 o1 seq = None"
| "classifyEvent (Suc depth) o1 seq =
     (if \<not> is_obj o1 then Some None
      else let evt = event_tag o1
        in if evt \<in> set INIT_TAGS then Some (Some (classify_init o1))
           else if evt \<in> set STEP_TAGS then Some (Some (classify_step o1 seq))
           else if evt \<in> set RESULT_TAGS then map_option Some (classify_result o1)
           else if (case jget o1 ''usage'' of Some u \<Rightarrow> is_objectlike u | None \<Rightarrow> False) \<and>
                   (jget o1 ''status'' \<noteq> None \<or> jget o1 ''response'' \<noteq> None)
           then classifyEvent depth (JObj [(''event'', JStr ''result''), (''result'', o1)]) seq
           else if jget o1 ''step_type'' \<noteq> None \<or> jget o1 ''stepType'' \<noteq> None
           then classifyEvent depth (with_event o1) seq
           else (case pick_key o1 [''step_update'', ''stepUpdate''] of
                   Some s \<Rightarrow>
                     if is_objectlike s
                     then classifyEvent depth (JObj [(''event'', JStr ''step_update''), (''step_update'', s)]) seq
                     else Some None
                 | None \<Rightarrow> Some None))"

section \<open>The parser\<close>

record parser =
  buffer :: string
  seq :: nat
  stat_lines :: nat
  garbage :: nat
  consecutiveGarbage :: nat
  authUrl :: "string option"
  sawAuthFailure :: bool
  lastResultError :: "string option"
  overflowDrops :: nat
  recentLines :: "string list"

definition new_parser :: parser where
  "new_parser = \<lparr>buffer = [], seq = 0, stat_lines = 0, garbage = 0, consecutiveGarbage = 0, authUrl = None,
     sawAuthFailure = False, lastResultError = None, overflowDrops = 0, recentLines = []\<rparr>"

definition MAX_PENDING_CHARS :: nat where
  "MAX_PENDING_CHARS = 1048576"

definition MAX_STORED_LINE_CHARS :: nat where
  "MAX_STORED_LINE_CHARS = 4000"

definition RECENT_BATCH :: nat where
  "RECENT_BATCH = 512"

definition maxRecent :: nat where
  "maxRecent = 2000"

definition truncateStored :: "string \<Rightarrow> string" where
  "truncateStored l = (if length l > MAX_STORED_LINE_CHARS then take MAX_STORED_LINE_CHARS l else l)"

definition note_line :: "string \<Rightarrow> parser \<Rightarrow> parser" where
  "note_line l p =
     (let ls = recentLines p @ [truncateStored l]
      in p\<lparr>stat_lines := stat_lines p + 1,
           recentLines := (if length ls > maxRecent + RECENT_BATCH then drop RECENT_BATCH ls else ls),
           sawAuthFailure := (sawAuthFailure p \<or> looksLikeAuthFailure l),
           authUrl := (case authUrl p of
                         Some u \<Rightarrow> Some u
                       | None \<Rightarrow> (case extractAuthUrl l of Some u \<Rightarrow> if u \<noteq> [] then Some u else None | None \<Rightarrow> None))\<rparr>)"

definition count_garbage :: "parser \<Rightarrow> parser" where
  "count_garbage p = p\<lparr>garbage := garbage p + 1, consecutiveGarbage := consecutiveGarbage p + 1\<rparr>"

text \<open>The result is \<open>None\<close> when \<open>classifyEvent\<close> throws: the call stack overflows, or a status has no string form.\<close>

definition takeLine :: "(string \<Rightarrow> json option) \<Rightarrow> nat \<Rightarrow> string \<Rightarrow> parser \<Rightarrow> (agy_event option \<times> parser) option" where
  "takeLine jparse depth l p =
     (if trim l = [] then Some (None, p)
      else let p1 = note_line l p
        in case jparse l of
             None \<Rightarrow> Some (Some (GarbageEvent (truncateStored l)), count_garbage p1)
           | Some obj \<Rightarrow>
               (let p2 = p1\<lparr>seq := seq p1 + 1\<rparr>
                in case classifyEvent depth obj (seq p1) of
                     None \<Rightarrow> None
                   | Some None \<Rightarrow> Some (Some (GarbageEvent l), count_garbage p2)
                   | Some (Some ev) \<Rightarrow>
                       (let p3 = (case ev of ResultEvent e \<Rightarrow> p2\<lparr>lastResultError := res_error e\<rparr> | _ \<Rightarrow> p2)
                        in Some (Some ev, p3\<lparr>consecutiveGarbage := 0\<rparr>))))"

definition strip_cr :: "string \<Rightarrow> string" where
  "strip_cr l = (if l \<noteq> [] \<and> last l = CHR 0x0D then butlast l else l)"

definition opt_cons :: "'a option \<Rightarrow> 'a list \<Rightarrow> 'a list" where
  "opt_cons x xs = (case x of Some y \<Rightarrow> y # xs | None \<Rightarrow> xs)"

function feed_lines ::
  "(string \<Rightarrow> json option) \<Rightarrow> nat \<Rightarrow> string \<Rightarrow> parser \<Rightarrow> (agy_event list \<times> string \<times> parser) option" where
  "feed_lines jparse depth pending p =
     (if CHR 0x0A \<in> set pending then
        (let l = takeWhile (\<lambda>c. c \<noteq> CHR 0x0A) pending; rest = drop (Suc (length l)) pending
         in case takeLine jparse depth (strip_cr l) p of
              None \<Rightarrow> None
            | Some (ev, p1) \<Rightarrow>
                map_option (\<lambda>(evs, b, p2). (opt_cons ev evs, b, p2)) (feed_lines jparse depth rest p1))
      else Some ([], pending, p))"
  by pat_completeness auto

termination
proof (relation "measure (\<lambda>(jparse, depth, pending, p). length pending)", goal_cases)
  case (2 jparse depth pending p)
  then show ?case by (cases pending) auto
qed simp

declare feed_lines.simps [simp del]

definition feed :: "(string \<Rightarrow> json option) \<Rightarrow> nat \<Rightarrow> string \<Rightarrow> parser \<Rightarrow> (agy_event list \<times> parser) option" where
  "feed jparse depth chunk p =
     map_option (\<lambda>(evs, b, p1).
       (evs, if length b > MAX_PENDING_CHARS
             then p1\<lparr>buffer := [], overflowDrops := overflowDrops p1 + 1, consecutiveGarbage := consecutiveGarbage p1 + 1\<rparr>
             else p1\<lparr>buffer := b\<rparr>))
       (feed_lines jparse depth (buffer p @ chunk) p)"

definition flush_parser :: "(string \<Rightarrow> json option) \<Rightarrow> nat \<Rightarrow> parser \<Rightarrow> (agy_event list \<times> parser) option" where
  "flush_parser jparse depth p =
     (let rest = buffer p; p1 = p\<lparr>buffer := []\<rparr>
      in if trim rest = [] then Some ([], p1)
         else map_option (\<lambda>(ev, p2). (opt_cons ev [], p2)) (takeLine jparse depth rest p1))"

fun feeds :: "(string \<Rightarrow> json option) \<Rightarrow> nat \<Rightarrow> string list \<Rightarrow> parser \<Rightarrow> (agy_event list \<times> parser) option" where
  "feeds jparse depth [] p = Some ([], p)"
| "feeds jparse depth (c # cs) p =
     (case feed jparse depth c p of
        None \<Rightarrow> None
      | Some (e1, p1) \<Rightarrow> map_option (\<lambda>(e2, p2). (e1 @ e2, p2)) (feeds jparse depth cs p1))"

section \<open>The call depth of \<open>classifyEvent\<close>\<close>

definition known_tag :: "string \<Rightarrow> bool" where
  "known_tag t = (t \<in> set INIT_TAGS \<or> t \<in> set STEP_TAGS \<or> t \<in> set RESULT_TAGS)"

definition has_result_shape :: "json \<Rightarrow> bool" where
  "has_result_shape o1 = ((case jget o1 ''usage'' of Some u \<Rightarrow> is_objectlike u | None \<Rightarrow> False) \<and>
     (jget o1 ''status'' \<noteq> None \<or> jget o1 ''response'' \<noteq> None))"

definition has_step_type :: "json \<Rightarrow> bool" where
  "has_step_type o1 = (jget o1 ''step_type'' \<noteq> None \<or> jget o1 ''stepType'' \<noteq> None)"

text \<open>The objects on which \<open>String(status)\<close> throws: a status without a string form, in a result line or in an object of that shape.\<close>

definition status_throws :: "json \<Rightarrow> bool" where
  "status_throws o1 =
     (let tag = event_tag o1 in
      if tag \<in> set INIT_TAGS \<or> tag \<in> set STEP_TAGS then False
      else if tag \<in> set RESULT_TAGS then unprintable (pick_key (result_inner o1) [''status''])
      else has_result_shape o1 \<and> unprintable (pick_key o1 [''status'']))"

text \<open>The objects that are rewritten to themselves.\<close>

definition rewritten_to_itself :: "json \<Rightarrow> bool" where
  "rewritten_to_itself o1 = (jget o1 ''event'' \<noteq> None \<and> \<not> known_tag (event_tag o1) \<and> \<not> has_result_shape o1 \<and> has_step_type o1)"

lemma classify_result_Some: "(\<exists>r. classify_result o1 = Some r) \<longleftrightarrow> \<not> unprintable (pick_key (result_inner o1) [''status''])"
  by (auto simp: classify_result_def Let_def unprintable_def)

lemma result_inner_wrapped: "is_obj o1 \<Longrightarrow> result_inner (JObj [(''event'', e), (''result'', o1)]) = o1"
  by (cases o1) (simp_all add: result_inner_def)

lemma map_of_spread:
  "map_of (foldl (\<lambda>acc (k, v). jm_set k v acc) acc kvs) = map_of acc ++ map_of (rev kvs)"
  by (induction kvs arbitrary: acc) (auto simp: fun_eq_iff map_add_def split: option.splits)

lemma jget_with_event:
  assumes "distinct (map fst kvs)"
  shows "jget (with_event (JObj kvs)) k =
    (case map_of kvs k of Some v \<Rightarrow> Some v | None \<Rightarrow> if k = ''event'' then Some (JStr ''step_update'') else None)"
proof -
  have "map_of (rev kvs) = map_of kvs"
    using assms by (intro map_of_eqI) (auto simp: map_of_eq_Some_iff rev_map [symmetric])
  then show ?thesis by (auto simp: with_event_def map_of_spread map_add_def split: option.splits)
qed

lemma known_tag_step: "event_tag o1 = ''step_update'' \<Longrightarrow> is_obj o1 \<Longrightarrow>
    classifyEvent (Suc d) o1 sq = Some (Some (classify_step o1 sq))"
  by (simp add: INIT_TAGS_def STEP_TAGS_def)

text \<open>The two calls a rewritten object can lead to.\<close>

lemma classifyEvent_result:
  assumes "is_obj o1" "\<not> known_tag (event_tag o1)" "has_result_shape o1"
  shows "classifyEvent (Suc (Suc d)) o1 sq =
    map_option Some (classify_result (JObj [(''event'', JStr ''result''), (''result'', o1)]))"
proof -
  have inner: "classifyEvent (Suc d) (JObj [(''event'', JStr ''result''), (''result'', o1)]) sq =
      map_option Some (classify_result (JObj [(''event'', JStr ''result''), (''result'', o1)]))"
    by (simp add: event_tag_def INIT_TAGS_def STEP_TAGS_def RESULT_TAGS_def Let_def)
  show ?thesis
    unfolding inner [symmetric] classifyEvent.simps(2) [of "Suc d"]
    using assms by (simp add: Let_def known_tag_def has_result_shape_def del: classifyEvent.simps)
qed

lemma classifyEvent_rewritten:
  assumes "is_obj o1" "\<not> known_tag (event_tag o1)" "\<not> has_result_shape o1" "has_step_type o1"
  shows "classifyEvent (Suc d) o1 sq = classifyEvent d (with_event o1) sq"
  using assms by (auto simp: Let_def known_tag_def has_result_shape_def has_step_type_def)

lemma classifyEvent_two:
  assumes "o1 = JObj kvs" "distinct (map fst kvs)" "\<not> rewritten_to_itself o1" "\<not> status_throws o1"
  shows "\<exists>r. classifyEvent (Suc (Suc d)) o1 sq = Some r"
proof -
  have n: "\<exists>r. classifyEvent (Suc d) (JObj [(''event'', JStr ''step_update''), (''step_update'', v)]) sq = Some r" for v
    by (simp add: event_tag_def INIT_TAGS_def STEP_TAGS_def Let_def)
  note step = classifyEvent.simps(2) [of "Suc d" o1 sq, unfolded Let_def]
  have obj: "is_obj o1" by (simp add: assms(1))
  consider (known) "known_tag (event_tag o1)"
    | (res) "\<not> known_tag (event_tag o1)" "has_result_shape o1"
    | (stp) "\<not> known_tag (event_tag o1)" "\<not> has_result_shape o1" "has_step_type o1" "map_of kvs ''event'' = None"
    | (bare) "\<not> known_tag (event_tag o1)" "\<not> has_result_shape o1" "\<not> has_step_type o1"
    using assms(1,3) by (auto simp: rewritten_to_itself_def)
  then show ?thesis
  proof cases
    case known
    show ?thesis
    proof (cases "event_tag o1 \<in> set INIT_TAGS \<or> event_tag o1 \<in> set STEP_TAGS")
      case True
      then show ?thesis unfolding step using obj by auto
    next
      case False
      with known have res: "event_tag o1 \<in> set RESULT_TAGS" by (simp add: known_tag_def)
      with False assms(4) have "\<exists>r. classify_result o1 = Some r" by (simp add: status_throws_def classify_result_Some)
      with False res obj show ?thesis unfolding step by auto
    qed
  next
    case res
    from res assms(4) have "\<exists>r. classify_result (JObj [(''event'', JStr ''result''), (''result'', o1)]) = Some r"
      unfolding classify_result_Some result_inner_wrapped [OF obj] by (simp add: status_throws_def known_tag_def)
    then show ?thesis unfolding classifyEvent_result [OF obj res] by auto
  next
    case stp
    have tag: "event_tag (with_event o1) = ''step_update''"
      using jget_with_event [OF assms(2), of "''event''"] stp(4) by (simp add: event_tag_def assms(1))
    have "is_obj (with_event o1)" by (simp add: with_event_def assms(1))
    with tag show ?thesis unfolding classifyEvent_rewritten [OF obj stp(1-3)] by (simp only: known_tag_step) simp
  next
    case bare
    then show ?thesis
      unfolding step using obj n
      by (auto simp: known_tag_def has_result_shape_def has_step_type_def simp del: classifyEvent.simps split: option.split)
  qed
qed

lemma classifyEvent_throws:
  assumes "is_obj o1" "status_throws o1"
  shows "classifyEvent d o1 sq = None"
proof (cases "known_tag (event_tag o1)")
  case True
  with assms(2) have out: "event_tag o1 \<notin> set INIT_TAGS" "event_tag o1 \<notin> set STEP_TAGS" "event_tag o1 \<in> set RESULT_TAGS"
    and "unprintable (pick_key (result_inner o1) [''status''])"
    by (auto simp: status_throws_def known_tag_def Let_def split: if_splits)
  then have "classify_result o1 = None" using classify_result_Some [of o1] by (cases "classify_result o1") auto
  with out show ?thesis using assms(1) by (cases d) (simp_all add: Let_def)
next
  case False
  with assms(2) have res: "has_result_shape o1" "unprintable (pick_key o1 [''status''])"
    by (auto simp: status_throws_def known_tag_def Let_def)
  then have c: "classify_result (JObj [(''event'', JStr ''result''), (''result'', o1)]) = None"
    using classify_result_Some [of "JObj [(''event'', JStr ''result''), (''result'', o1)]"]
    unfolding result_inner_wrapped [OF assms(1)]
    by (cases "classify_result (JObj [(''event'', JStr ''result''), (''result'', o1)])") auto
  consider "d = 0" | "d = Suc 0" | n where "d = Suc (Suc n)" by (metis nat.exhaust)
  then show ?thesis
  proof cases
    case 2
    then show ?thesis using assms(1) False res(1) by (simp add: Let_def known_tag_def has_result_shape_def)
  next
    case 3
    then show ?thesis unfolding 3 classifyEvent_result [OF assms(1) False res(1)] c by simp
  qed simp
qed

lemma classifyEvent_loops:
  assumes "o1 = JObj kvs" "distinct (map fst kvs)" "rewritten_to_itself o1"
  shows "classifyEvent d o1 sq = None"
  using assms
proof (induction d arbitrary: o1 kvs)
  case (Suc d)
  let ?w = "with_event o1"
  note here = Suc.prems(3) [unfolded rewritten_to_itself_def]
  obtain kvs' where w: "?w = JObj kvs'" "kvs' = foldl (\<lambda>acc (k, v). jm_set k v acc) [(''event'', JStr ''step_update'')] kvs"
    by (simp add: with_event_def Suc.prems(1))
  have ge: "jget ?w = jget o1"
    using jget_with_event [OF Suc.prems(2)] here Suc.prems(1) by (auto simp: fun_eq_iff split: option.splits)
  have dist: "distinct (map fst kvs')"
  proof -
    have "jm_wf (foldl (\<lambda>acc (k, v). jm_set k v acc) acc xs)" if "jm_wf acc" for acc :: "(string, json) jsmap" and xs
      using that by (induction xs arbitrary: acc) (auto intro: jm_wf_jm_set)
    from this [of "[(''event'', JStr ''step_update'')]" kvs] show ?thesis by (simp add: w(2) jm_wf_def)
  qed
  have "rewritten_to_itself ?w"
    using Suc.prems(3) unfolding rewritten_to_itself_def event_tag_def has_result_shape_def has_step_type_def ge .
  then have "classifyEvent d ?w sq = None" by (rule Suc.IH [OF w(1) dist])
  moreover have "is_obj o1" by (simp add: Suc.prems(1))
  ultimately show ?case using here by (simp add: classifyEvent_rewritten del: classifyEvent.simps)
qed simp

text \<open>
  C38. The classifier does not return on every JSON object. It returns within two nested calls, except on two kinds
  of objects, on which no call depth is enough. The first kind has an own \<open>event\<close> property that is none of the known
  tags, no result shape (a \<open>usage\<close> object beside a \<open>status\<close> or a \<open>response\<close>), and a \<open>step_type\<close>: the rewritten object
  has the same \<open>event\<close> property again, and the recursion does not end. The second kind is a result line, or an object
  of that shape, whose status has no string form: \<open>String(status)\<close> throws.
\<close>

theorem classifyEvent_depth:
  assumes "distinct (map fst kvs)"
  shows "(\<exists>r. classifyEvent (Suc (Suc d)) (JObj kvs) sq = Some r) \<longleftrightarrow>
    \<not> rewritten_to_itself (JObj kvs) \<and> \<not> status_throws (JObj kvs)"
  using classifyEvent_two [OF refl assms, of d sq] classifyEvent_loops [OF refl assms, of "Suc (Suc d)" sq]
    classifyEvent_throws [of "JObj kvs" "Suc (Suc d)" sq]
  by (auto simp del: classifyEvent.simps)

theorem classifyEvent_depth_witness:
  "(\<nexists>r. classifyEvent 1000 (JObj [(''event'', JStr ''progress''), (''step_type'', JStr ''text'')]) 0 = Some r) \<and>
   (\<nexists>r. classifyEvent 1000 (JObj [(''event'', JStr ''done''), (''status'', JObj [(''toString'', JNull)])]) 0 = Some r) \<and>
   (\<exists>r. classifyEvent 2 (JObj [(''event'', JStr ''x''), (''step_type'', JStr ''t''), (''usage'', JObj []), (''status'', JStr ''ok'')]) 0 = Some r)"
proof -
  have d: "(1000 :: nat) = Suc (Suc 998)" "(2 :: nat) = Suc (Suc 0)" by simp_all
  note tags = known_tag_def INIT_TAGS_def STEP_TAGS_def RESULT_TAGS_def event_tag_def has_result_shape_def
    has_step_type_def rewritten_to_itself_def status_throws_def result_inner_def
  show ?thesis
    unfolding d
    using classifyEvent_depth [of "[(''event'', JStr ''progress''), (''step_type'', JStr ''text'')]" 998 0]
      classifyEvent_depth [of "[(''event'', JStr ''done''), (''status'', JObj [(''toString'', JNull)])]" 998 0]
      classifyEvent_depth [of "[(''event'', JStr ''x''), (''step_type'', JStr ''t''), (''usage'', JObj []), (''status'', JStr ''ok'')]" 0 0]
    by (simp add: tags del: classifyEvent.simps)
qed

section \<open>Slicing does not matter\<close>

lemma takeWhile_nl_append:
  "c \<in> set xs \<Longrightarrow> takeWhile (\<lambda>x. x \<noteq> c) (xs @ ys) = takeWhile (\<lambda>x. x \<noteq> c) xs"
  by (induction xs) auto

lemma length_takeWhile_nl: "c \<in> set xs \<Longrightarrow> length (takeWhile (\<lambda>x. x \<noteq> c) xs) < length xs"
  by (induction xs) auto

lemma feed_lines_append:
  "feed_lines jparse depth (xs @ ys) p =
     (case feed_lines jparse depth xs p of
        None \<Rightarrow> None
      | Some (e1, b, p1) \<Rightarrow> map_option (\<lambda>(e2, b2, p2). (e1 @ e2, b2, p2)) (feed_lines jparse depth (b @ ys) p1))"
proof (induction jparse depth xs p rule: feed_lines.induct)
  case (1 jparse depth xs p)
  show ?case
  proof (cases "CHR 0x0A \<in> set xs")
    case False
    have "feed_lines jparse depth xs p = Some ([], xs, p)" using False by (subst feed_lines.simps) simp
    then show ?thesis by (cases "feed_lines jparse depth (xs @ ys) p") auto
  next
    case True
    let ?l = "takeWhile (\<lambda>c. c \<noteq> CHR 0x0A) xs"
    have tw: "takeWhile (\<lambda>c. c \<noteq> CHR 0x0A) (xs @ ys) = ?l" by (rule takeWhile_nl_append [OF True])
    have dr: "drop (Suc (length ?l)) (xs @ ys) = drop (Suc (length ?l)) xs @ ys"
      using length_takeWhile_nl [OF True] by simp
    show ?thesis
    proof (cases "takeLine jparse depth (strip_cr ?l) p")
      case None
      with True show ?thesis
        by (subst (1 2) feed_lines.simps) (simp add: tw Let_def)
    next
      case (Some ep)
      obtain ev p1 where ep: "ep = (ev, p1)" by (cases ep)
      note ih = "1.IH" [OF True refl refl Some ep [symmetric]]
      have a: "feed_lines jparse depth xs p = map_option (\<lambda>(evs, b, p2). (opt_cons ev evs, b, p2))
          (feed_lines jparse depth (drop (Suc (length ?l)) xs) p1)"
        using True Some ep by (subst feed_lines.simps) (simp add: Let_def)
      have b: "feed_lines jparse depth (xs @ ys) p = map_option (\<lambda>(evs, b, p2). (opt_cons ev evs, b, p2))
          (feed_lines jparse depth (drop (Suc (length ?l)) xs @ ys) p1)"
        using True Some ep by (subst feed_lines.simps) (simp add: Let_def tw dr del: drop_append)
      show ?thesis
        unfolding a b ih
        by (auto simp: option.map_comp comp_def opt_cons_def case_prod_unfold split: option.splits)
    qed
  qed
qed

lemma takeLine_any_buffer:
  "takeLine jparse depth l (p\<lparr>buffer := b\<rparr>) = map_option (\<lambda>(ev, p1). (ev, p1\<lparr>buffer := b\<rparr>)) (takeLine jparse depth l p)"
  by (auto simp: takeLine_def Let_def note_line_def count_garbage_def split: option.splits agy_event.splits)

lemma feed_lines_any_buffer:
  "feed_lines jparse depth pending (p\<lparr>buffer := b\<rparr>) =
     map_option (\<lambda>(evs, r, p1). (evs, r, p1\<lparr>buffer := b\<rparr>)) (feed_lines jparse depth pending p)"
proof (induction jparse depth pending p rule: feed_lines.induct)
  case (1 jparse depth pending p)
  show ?case
  proof (cases "CHR 0x0A \<in> set pending")
    case True
    let ?l = "takeWhile (\<lambda>c. c \<noteq> CHR 0x0A) pending"
    show ?thesis
    proof (cases "takeLine jparse depth (strip_cr ?l) p")
      case None
      with True show ?thesis by (subst (1 2) feed_lines.simps) (simp add: Let_def takeLine_any_buffer)
    next
      case (Some ep)
      obtain ev p1 where ep: "ep = (ev, p1)" by (cases ep)
      from "1.IH" [OF True refl refl Some ep [symmetric]] True Some ep show ?thesis
        by (subst (1 2) feed_lines.simps) (simp add: Let_def takeLine_any_buffer option.map_comp comp_def case_prod_beta)
    qed
  qed (subst (1 2) feed_lines.simps, simp)
qed

text \<open>The unterminated last line.\<close>

definition torn_line :: "string \<Rightarrow> string" where
  "torn_line s = rev (takeWhile (\<lambda>c. c \<noteq> CHR 0x0A) (rev s))"

lemma torn_line_no_nl: "CHR 0x0A \<notin> set s \<Longrightarrow> torn_line s = s"
proof -
  assume "CHR 0x0A \<notin> set s"
  then have "takeWhile (\<lambda>c. c \<noteq> CHR 0x0A) (rev s) = rev s" by (intro takeWhile_eq_all_conv [THEN iffD2]) auto
  then show ?thesis by (simp only: torn_line_def rev_rev_ident)
qed

lemma torn_line_append_nl: "torn_line (xs @ CHR 0x0A # ys) = torn_line ys"
  by (simp add: torn_line_def takeWhile_tail)

lemma feed_lines_rest: "feed_lines jparse depth pending p = Some (e, r, q) \<Longrightarrow> r = torn_line pending"
proof (induction jparse depth pending p arbitrary: e rule: feed_lines.induct)
  case (1 jparse depth pending p)
  show ?case
  proof (cases "CHR 0x0A \<in> set pending")
    case False
    with "1.prems" show ?thesis by (subst (asm) feed_lines.simps) (simp add: torn_line_no_nl)
  next
    case True
    let ?l = "takeWhile (\<lambda>c. c \<noteq> CHR 0x0A) pending" and ?rest = "drop (Suc (length (takeWhile (\<lambda>c. c \<noteq> CHR 0x0A) pending))) pending"
    from "1.prems" True obtain ev p1 e2 where t: "takeLine jparse depth (strip_cr ?l) p = Some (ev, p1)"
      "feed_lines jparse depth ?rest p1 = Some (e2, r, q)"
      by (subst (asm) feed_lines.simps) (auto simp: Let_def split: option.splits)
    from "1.IH" [OF True refl refl t(1) refl t(2)] have "r = torn_line ?rest" .
    moreover have "pending = ?l @ CHR 0x0A # ?rest"
    proof -
      obtain xs ys where "pending = xs @ CHR 0x0A # ys" "CHR 0x0A \<notin> set xs"
        using True by (auto dest: split_list_first)
      then have "?l = xs" by (auto simp: takeWhile_tail takeWhile_eq_all_conv)
      with \<open>pending = xs @ CHR 0x0A # ys\<close> show ?thesis by simp
    qed
    ultimately show ?thesis using torn_line_append_nl [of ?l ?rest] by simp
  qed
qed

lemma feed_append:
  assumes "feed jparse depth a p = Some (e1, p1)" "length (torn_line (buffer p @ a)) \<le> MAX_PENDING_CHARS"
  shows "feed jparse depth (a @ b) p = map_option (\<lambda>(e2, p2). (e1 @ e2, p2)) (feed jparse depth b p1)"
proof -
  from assms(1) obtain r q where f: "feed_lines jparse depth (buffer p @ a) p = Some (e1, r, q)"
    and p1: "p1 = (if length r > MAX_PENDING_CHARS
             then q\<lparr>buffer := [], overflowDrops := overflowDrops q + 1, consecutiveGarbage := consecutiveGarbage q + 1\<rparr>
             else q\<lparr>buffer := r\<rparr>)"
    by (auto simp: feed_def)
  from feed_lines_rest [OF f] assms(2) p1 have p1: "p1 = q\<lparr>buffer := r\<rparr>" by simp
  show ?thesis
    unfolding p1 feed_def
    by (simp add: feed_lines_any_buffer feed_lines_append [of _ _ "buffer p @ a" b, simplified] f
        option.map_comp comp_def case_prod_beta cong: if_cong)
qed

lemma feed_none_append: "feed jparse depth a p = None \<Longrightarrow> feed jparse depth (a @ b) p = None"
  by (simp add: feed_def feed_lines_append [of _ _ "buffer p @ a" b, simplified])

lemma feeds_snoc:
  "feeds jparse depth (cs @ [c]) p =
     (case feeds jparse depth cs p of
        None \<Rightarrow> None
      | Some (e1, p1) \<Rightarrow> map_option (\<lambda>(e2, p2). (e1 @ e2, p2)) (feed jparse depth c p1))"
  by (induction cs arbitrary: p) (auto simp: option.map_comp comp_def case_prod_unfold split: option.splits)

text \<open>
  Slicing does not matter: as long as no unterminated line outgrows the pending limit between two slices,
  feeding agy's output slice by slice yields the same events, the same statistics and the same pending text
  as feeding it in one piece.
\<close>

lemma feeds_eq_feed:
  assumes "\<forall>k \<le> length cs. length (torn_line (concat (take k cs))) \<le> MAX_PENDING_CHARS"
  shows "feeds jparse depth cs new_parser = feed jparse depth (concat cs) new_parser"
  using assms
proof (induction cs rule: rev_induct)
  case Nil
  have "feed_lines jparse depth [] new_parser = Some ([], [], new_parser)" by (subst feed_lines.simps) simp
  then show ?case by (simp add: feed_def new_parser_def MAX_PENDING_CHARS_def)
next
  case (snoc c cs)
  have ih: "feeds jparse depth cs new_parser = feed jparse depth (concat cs) new_parser"
  proof (rule snoc.IH, intro allI impI)
    fix k assume "k \<le> length cs"
    with snoc.prems [rule_format, of k] show "length (torn_line (concat (take k cs))) \<le> MAX_PENDING_CHARS" by simp
  qed
  show ?case
  proof (cases "feed jparse depth (concat cs) new_parser")
    case None
    then show ?thesis by (simp add: feeds_snoc ih feed_none_append)
  next
    case (Some ep)
    obtain e1 p1 where ep: "ep = (e1, p1)" by (cases ep)
    have "length (torn_line (buffer new_parser @ concat cs)) \<le> MAX_PENDING_CHARS"
      using snoc.prems [rule_format, of "length cs"] by (simp add: new_parser_def)
    from feed_append [OF Some [unfolded ep] this, of c] show ?thesis by (simp add: feeds_snoc ih Some ep)
  qed
qed


definition ring_ok :: "parser \<Rightarrow> bool" where
  "ring_ok p = (length (recentLines p) \<le> maxRecent + RECENT_BATCH \<and>
     (\<forall>l \<in> set (recentLines p). length l \<le> MAX_STORED_LINE_CHARS))"

lemma ring_ok_note: "ring_ok p \<Longrightarrow> ring_ok (note_line l p)"
  by (auto simp: ring_ok_def note_line_def Let_def truncateStored_def RECENT_BATCH_def dest: in_set_dropD)

lemma ring_ok_takeLine: "ring_ok p \<Longrightarrow> takeLine jparse depth l p = Some (ev, p1) \<Longrightarrow> ring_ok p1"
  using ring_ok_note [of p l]
  by (auto simp: takeLine_def Let_def count_garbage_def ring_ok_def split: if_splits option.splits agy_event.splits)

lemma ring_ok_feed_lines: "ring_ok p \<Longrightarrow> feed_lines jparse depth pending p = Some (e, r, q) \<Longrightarrow> ring_ok q"
proof (induction jparse depth pending p arbitrary: e rule: feed_lines.induct)
  case (1 jparse depth pending p)
  show ?case
  proof (cases "CHR 0x0A \<in> set pending")
    case False
    with "1.prems" show ?thesis by (subst (asm) feed_lines.simps) simp
  next
    case True
    from "1.prems"(2) True obtain ev p1 e2 where t:
      "takeLine jparse depth (strip_cr (takeWhile (\<lambda>c. c \<noteq> CHR 0x0A) pending)) p = Some (ev, p1)"
      "feed_lines jparse depth (drop (Suc (length (takeWhile (\<lambda>c. c \<noteq> CHR 0x0A) pending))) pending) p1 = Some (e2, r, q)"
      by (subst (asm) feed_lines.simps) (auto simp: Let_def split: option.splits)
    from "1.IH" [OF True refl refl t(1) refl ring_ok_takeLine [OF "1.prems"(1) t(1)] t(2)] show ?thesis .
  qed
qed

lemma feed_bounds: "ring_ok p \<Longrightarrow> feed jparse depth c p = Some (e, q) \<Longrightarrow> ring_ok q \<and> length (buffer q) \<le> MAX_PENDING_CHARS"
proof -
  assume r: "ring_ok p" and f: "feed jparse depth c p = Some (e, q)"
  then obtain b p1 where fl: "feed_lines jparse depth (buffer p @ c) p = Some (e, b, p1)"
    and q: "q = (if length b > MAX_PENDING_CHARS
             then p1\<lparr>buffer := [], overflowDrops := overflowDrops p1 + 1, consecutiveGarbage := consecutiveGarbage p1 + 1\<rparr>
             else p1\<lparr>buffer := b\<rparr>)"
    by (auto simp: feed_def)
  from ring_ok_feed_lines [OF r fl] show ?thesis
    by (cases "length b > MAX_PENDING_CHARS") (simp_all add: q ring_ok_def)
qed

text \<open>
  Memory stays bounded whatever agy prints: after any number of slices the pending text is at most the
  pending limit, and the diagnostic ring holds at most 2512 lines of at most 4000 characters each.
\<close>

lemma parser_bounded:
  assumes "feeds jparse depth cs new_parser = Some (evs, p)"
  shows "length (buffer p) \<le> MAX_PENDING_CHARS \<and> length (recentLines p) \<le> 2512 \<and>
    (\<forall>l \<in> set (recentLines p). length l \<le> 4000)"
proof -
  have "ring_ok q \<and> length (buffer q) \<le> MAX_PENDING_CHARS"
    if "feeds jparse depth ds p0 = Some (e, q)" "ring_ok p0 \<and> length (buffer p0) \<le> MAX_PENDING_CHARS" for ds p0 e q
    using that by (induction ds arbitrary: p0 e) (auto split: option.splits prod.splits dest: feed_bounds)
  from this [OF assms] show ?thesis
    by (simp add: ring_ok_def new_parser_def maxRecent_def RECENT_BATCH_def MAX_STORED_LINE_CHARS_def)
qed


end
