(* ===== verification/Dispatch.thy ===== *)
theory Dispatch
  imports Engine Parser
begin

text \<open>
  The engine from the first spawn to settlement (\<open>stream\<close> of \<open>src/host/engine.ts\<close>): classification of one
  attempt, the single retry, re-selection of the account, and the effects of settling on the recording, the
  registry, the pool and the session store.

  What happens outside the engine during an attempt is a record \<open>attempt_world\<close>: the events parsed from the
  process, its outcome, whether the caller or a newer prompt aborted the run at the points where the code
  checks, and what the other requests did to the engine state and the registry while this run awaited its
  attempt (\<open>aw_others\<close>) and the delay before the retry (\<open>aw_gap_others\<close>). These two are arbitrary functions of the
  account the run holds and of the shared state; \<open>polite\<close> says that they keep the invariants and leave the run's own
  busy mark in place. \<open>ds_others\<close> sums what they changed in the busy counts; the code has no such variable.
  The queue that serialises attempts of one account and the spacing of spawns only delay an attempt.
  Nothing in the modelled part throws, so the guard around the dispatch is not modelled.
\<close>

section \<open>Attempts\<close>

record run_outcome =
  out_code :: "int option"
  out_signal :: "string option"
  timedOut :: bool
  out_aborted :: bool
  out_stdout :: string
  stderrTail :: string
  durationMs :: ms

record attempt_world =
  aw_gone :: bool
  aw_steer :: bool
  aw_reason :: "string option"
  aw_spawn_error :: "string option"
  aw_fed :: "agy_event list"
  aw_flushed :: "agy_event list"
  aw_parser :: parser
  aw_outcome :: run_outcome
  aw_diffed :: "string option"
  aw_gone_after :: bool
  aw_gone_gap :: bool
  aw_gap_steer :: bool
  aw_gap_reason :: "string option"
  aw_time :: ms
  aw_others :: "string option \<Rightarrow> engine_state \<times> registry \<Rightarrow> engine_state \<times> registry"
  aw_gap_others :: "string option \<Rightarrow> engine_state \<times> registry \<Rightarrow> engine_state \<times> registry"

record attempt_result =
  at_failure :: "recording_failure option"
  at_outcome :: run_outcome
  at_rawErrText :: string
  at_conversationId :: "string option"
  at_result :: "(bool \<times> string) option"
  at_account :: "managed_account option"

definition run_error :: "err_code \<Rightarrow> string \<Rightarrow> recording_failure" where
  "run_error c msg = \<lparr>rf_kind = KindError, rf_code = c, rf_message = msg\<rparr>"

definition run_aborted :: "string \<Rightarrow> recording_failure" where
  "run_aborted msg = \<lparr>rf_kind = KindAborted, rf_code = ABORTED, rf_message = msg\<rparr>"

fun collapse_ws :: "string \<Rightarrow> string" where
  "collapse_ws [] = []"
| "collapse_ws (c # cs) =
     (if is_space c then (case cs of d # ds \<Rightarrow> if is_space d then collapse_ws cs else CHR '' '' # collapse_ws cs | [] \<Rightarrow> '' '')
      else c # collapse_ws cs)"

definition brief :: "string \<Rightarrow> string" where
  "brief s = (let flat = collapse_ws (trim s) in if length flat > 300 then take 300 flat @ ''...'' else flat)"

definition abortFailure :: "bool \<Rightarrow> string option \<Rightarrow> recording_failure option" where
  "abortFailure steered why =
     (if steered then Some (run_aborted ''superseded by a newer prompt on the same session'')
      else if why = Some ''output-budget'' then None
      else if why = Some ''client disconnected'' then Some (run_aborted ''client disconnected mid-generation'')
      else if why = Some ''server shutting down'' then Some (run_aborted ''server shutting down (grace drain)'')
      else Some (run_aborted ''agy run aborted by caller''))"

definition no_outcome :: "bool \<Rightarrow> run_outcome" where
  "no_outcome ab = \<lparr>out_code = None, out_signal = None, timedOut = False, out_aborted = ab, out_stdout = [], stderrTail = [],
     durationMs = 0\<rparr>"

definition spawnFailed :: "string \<Rightarrow> managed_account option \<Rightarrow> attempt_result" where
  "spawnFailed msg acc = \<lparr>at_failure = Some (run_error PROCESS_EXIT msg), at_outcome = no_outcome False, at_rawErrText = [],
     at_conversationId = None, at_result = None, at_account = acc\<rparr>"

definition spawnFailedAbort :: "bool \<Rightarrow> string option \<Rightarrow> managed_account option \<Rightarrow> attempt_result" where
  "spawnFailedAbort steered why acc =
     \<lparr>at_failure = Some (or_else (abortFailure steered why) (run_aborted ''agy run aborted by caller'')),
      at_outcome = no_outcome True, at_rawErrText = [], at_conversationId = None, at_result = None, at_account = acc\<rparr>"

section \<open>Classification\<close>

definition sawAuth :: "parser \<Rightarrow> run_outcome \<Rightarrow> bool" where
  "sawAuth p out = (sawAuthFailure p \<or> looksLikeAuthFailure (stderrTail out) \<or> looksLikeAuthFailure (take 4000 (out_stdout out)))"

definition canceledEmpty :: "run_recording \<Rightarrow> bool" where
  "canceledEmpty r =
     (case getResultEvent r of
        Some (ok, resp) \<Rightarrow> ok \<and> resp = [] \<and> \<not> sawTextBefore r (length (events r))
      | None \<Rightarrow> False)"

definition consumable_result :: "run_recording \<Rightarrow> bool" where
  "consumable_result r =
     (case getResultEvent r of
        Some (ok, resp) \<Rightarrow> (ok \<or> resp \<noteq> []) \<and> \<not> canceledEmpty r
      | None \<Rightarrow> False)"

definition raw_err_text :: "parser \<Rightarrow> run_outcome \<Rightarrow> string" where
  "raw_err_text p out = join '' '' (filter (\<lambda>s. s \<noteq> []) [stderrTail out, or_else (lastResultError p) []])"

definition exit_failure :: "parser \<Rightarrow> run_outcome \<Rightarrow> recording_failure" where
  "exit_failure p out =
     (let detail = or_else (lastResultError p) (if stderrTail out \<noteq> [] then brief (stderrTail out) else []);
          suffix1 = (if detail \<noteq> [] then '': '' @ detail else [])
      in case out_code out of
           None \<Rightarrow>
             run_error PROCESS_EXIT
               (case out_signal out of
                  Some sg \<Rightarrow> ''agy process was terminated (signal '' @ sg @ '')'' @ suffix1
                | None \<Rightarrow> ''failed to spawn agy: '' @
                    (if detail \<noteq> [] then detail else ''unknown spawn error (binary missing or not executable?)''))
         | Some c \<Rightarrow> run_error PROCESS_EXIT (''agy exited with code '' @ show_int c @ suffix1))"

definition validation_failure :: "parser \<Rightarrow> run_outcome \<Rightarrow> recording_failure" where
  "validation_failure p out =
     (let detail = or_else (lastResultError p)
            (if stderrTail out \<noteq> [] then brief (stderrTail out) else ''upstream requires re-validation (VALIDATION_REQUIRED)'')
      in run_error VALIDATION_REQUIRED
           (case extractValidationUrl (Some detail) of
              Some url \<Rightarrow> detail @ '' (validation_url: '' @ url @ '')''
            | None \<Rightarrow> detail))"

definition classify_attempt ::
  "gateway_config \<Rightarrow> bool \<Rightarrow> string option \<Rightarrow> parser \<Rightarrow> run_outcome \<Rightarrow> run_recording \<Rightarrow> recording_failure option" where
  "classify_attempt cfg steered why p out r =
     (let raw = raw_err_text p out
      in if out_aborted out then abortFailure steered why
         else if timedOut out
         then Some (run_error TIMEOUT (''agy run was idle for '' @ show_rat (timeoutMs cfg) @ ''ms without output''))
         else if sawAuth p out
         then Some (run_error AUTH (''agy is not signed in '' @ em_dash @
                '' add a Google account to the pool (admin UI) to login''))
         else if looksLikeValidationRequired (Some raw) then Some (validation_failure p out)
         else if looksLikeRateLimit (Some raw)
         then Some (run_error AGY_ERROR (''Google Antigravity quota / rate limit reached: '' @
                str_or (lastResultError p)
                  (if stderrTail out \<noteq> [] then brief (stderrTail out) else ''Rate limit or quota reached'')))
         else if \<not> consumable_result r
         then Some (if out_code out \<noteq> Some 0 then exit_failure p out
                    else if canceledEmpty r
                    then run_error INVALID_OUTPUT ''agy ended with an empty response (CANCELED, google antigravity #902)''
                    else if truthy_str (lastResultError p)
                    then run_error AGY_ERROR (''agy reported an error: '' @ or_else (lastResultError p) [])
                    else run_error INVALID_OUTPUT
                           (''agy produced no result event ('' @ show_nat (garbage p) @ '' unparseable lines)''))
         else None)"

definition stream_cid :: "bool \<Rightarrow> agy_event list \<Rightarrow> string option \<Rightarrow> string option" where
  "stream_cid inits evs cid =
     foldl (\<lambda>c ev. case ev of
         InitEvent i _ \<Rightarrow> if inits \<and> truthy_str i then i else c
       | ResultEvent e \<Rightarrow> if res_conversationId e \<noteq> [] then Some (res_conversationId e) else c
       | _ \<Rightarrow> c) cid evs"

definition append_all :: "agy_event list \<Rightarrow> run_recording \<Rightarrow> run_recording" where
  "append_all evs r = foldl (\<lambda>r ev. append_event ev r) r evs"

definition runOnce ::
  "gateway_config \<Rightarrow> attempt_world \<Rightarrow> managed_account option \<Rightarrow> run_recording \<Rightarrow> attempt_result \<times> run_recording" where
  "runOnce cfg w acc r =
     (if rec_settled r \<or> aw_gone w then (spawnFailedAbort (aw_steer w) (aw_reason w) acc, r)
      else case aw_spawn_error w of
             Some e \<Rightarrow> (spawnFailed (''failed to spawn agy: '' @ brief e) acc, r)
           | None \<Rightarrow>
               (let r1 = append_all (aw_fed w @ aw_flushed w) r;
                    cid = stream_cid False (aw_flushed w) (stream_cid True (aw_fed w) None)
                in (\<lparr>at_failure = classify_attempt cfg (aw_steer w) (aw_reason w) (aw_parser w) (aw_outcome w) r1,
                     at_outcome = aw_outcome w, at_rawErrText = raw_err_text (aw_parser w) (aw_outcome w),
                     at_conversationId = coalesce cid (aw_diffed w), at_result = getResultEvent r1, at_account = acc\<rparr>, r1)))"

text \<open>Once a process has exited, its session may submit the same prompt again.\<close>

definition clear_prompt :: "prepared \<Rightarrow> attempt_world \<Rightarrow> run_recording \<Rightarrow> engine_state \<Rightarrow> engine_state" where
  "clear_prompt p w r s =
     (if rec_settled r \<or> aw_gone w \<or> aw_spawn_error w \<noteq> None \<or> pr_steerKey p = [] then s
      else s\<lparr>activeSessionPrompts := jm_del (pr_steerKey p) (activeSessionPrompts s)\<rparr>)"

section \<open>The dispatch loop\<close>

record run_info =
  ri_ok :: bool
  ri_code :: "err_code option"
  ri_attempt :: nat
  ri_final :: bool
  ri_failureMessage :: "string option"
  ri_durationMs :: ms
  ri_model :: string
  ri_providerModel :: string
  ri_usage :: "token_usage option"
  ri_accountId :: "string option"
  ri_family :: model_family
  ri_conversationId :: "string option"

record dispatch =
  ds_rec :: run_recording
  ds_eng :: engine_state
  ds_runs :: registry
  ds_fired :: "run_info list"
  ds_released :: bool
  ds_releases :: nat
  ds_account :: "managed_account option"
  ds_others :: "string \<Rightarrow> int"

text \<open>The account the run holds a busy mark on, and a step of the other requests while the run awaits.\<close>

definition own :: "dispatch \<Rightarrow> string option" where
  "own d = map_option acc_id (ds_account d)"

definition by_others :: "(string option \<Rightarrow> engine_state \<times> registry \<Rightarrow> engine_state \<times> registry) \<Rightarrow> dispatch \<Rightarrow> dispatch" where
  "by_others f d =
     (let (s, runs) = f (own d) (ds_eng d, ds_runs d)
      in d\<lparr>ds_eng := s, ds_runs := runs,
           ds_others := (\<lambda>i. ds_others d i + int (calls_on s i) - int (calls_on (ds_eng d) i))\<rparr>)"

definition fireRun :: "gateway_config \<Rightarrow> prepared \<Rightarrow> attempt_result \<Rightarrow> nat \<Rightarrow> bool \<Rightarrow> dispatch \<Rightarrow> dispatch" where
  "fireRun cfg p a idx fin d = d\<lparr>ds_fired := ds_fired d @
     [\<lparr>ri_ok = (at_failure a = None), ri_code = map_option rf_code (at_failure a), ri_attempt = idx, ri_final = fin,
       ri_failureMessage = map_option rf_message (at_failure a), ri_durationMs = durationMs (at_outcome a),
       ri_model = pr_model p, ri_providerModel = serving_model cfg (pr_activeModel p),
       ri_usage = map_option (\<lambda>u. usageFromRaw (finalUsage (ds_rec d) u)) (getResultRawUsage (ds_rec d)),
       ri_accountId = map_option acc_id (at_account a), ri_family = pr_family p,
       ri_conversationId = (if truthy_str (at_conversationId a) then at_conversationId a else None)\<rparr>]\<rparr>"

definition releaseOnce :: "dispatch \<Rightarrow> dispatch" where
  "releaseOnce d = (if ds_released d then d else d\<lparr>ds_released := True, ds_releases := ds_releases d + 1\<rparr>)"

definition shapeOnly :: "attempt_result \<Rightarrow> bool" where
  "shapeOnly a = (case at_result a of None \<Rightarrow> True | Some (ok, resp) \<Rightarrow> \<not> ok \<and> resp = [])"

definition canRetry :: "attempt_result \<Rightarrow> run_recording \<Rightarrow> bool" where
  "canRetry a r =
     (case at_failure a of
        None \<Rightarrow> False
      | Some f \<Rightarrow> shapeOnly a \<and> rf_code f \<in> set RETRYABLE_CODES \<and> \<not> hasClientMappedEvents r)"

text \<open>The account of the retry: \<open>None\<close> ends the loop with the failure at hand.\<close>

definition reselect :: "(string \<Rightarrow> ms option) \<Rightarrow> ms \<Rightarrow> prepared \<Rightarrow> dispatch \<Rightarrow> bool \<times> dispatch" where
  "reselect dparse t p d =
     (case eng_pool (ds_eng d) of
        None \<Rightarrow> (True, d)
      | Some pool \<Rightarrow>
          if accounts (data pool) = [] then (True, d)
          else
            (let e1 = untrackBusy (map_option acc_id (ds_account d)) (ds_eng d);
                 (nxt, pool1) = selectAccount dparse t (pr_family p) (Some (busyAccounts e1)) pool;
                 e2 = e1\<lparr>eng_pool := Some pool1\<rparr>
             in case nxt of
                  None \<Rightarrow> (False, d\<lparr>ds_eng := trackBusy (map_option acc_id (ds_account d)) e2\<rparr>)
                | Some a \<Rightarrow> (True, d\<lparr>ds_eng := trackBusy (Some (acc_id a)) e2, ds_account := Some a\<rparr>)))"

function dispatch_loop ::
  "(string \<Rightarrow> ms option) \<Rightarrow> gateway_config \<Rightarrow> prepared \<Rightarrow> (nat \<Rightarrow> attempt_world) \<Rightarrow> nat \<Rightarrow> dispatch \<Rightarrow>
   attempt_result option \<times> dispatch" where
  "dispatch_loop dparse cfg p ws n d =
     (if rec_settled (ds_rec d) then (None, releaseOnce d)
      else
        let (a, r1) = runOnce cfg (ws n) (ds_account d) (ds_rec d);
            d0 = by_others (aw_others (ws n)) d;
            d1 = d0\<lparr>ds_rec := r1, ds_eng := clear_prompt p (ws n) (ds_rec d) (ds_eng d0)\<rparr>;
            fin = (\<not> canRetry a r1 \<or> n \<ge> maxRetries RETRY_POLICY \<or> aw_gone_after (ws n));
            d2 = fireRun cfg p a n fin d1
        in if fin then (Some a, d2)
           else
             let dg = by_others (aw_gap_others (ws n)) d2
             in if rec_settled r1 \<or> aw_gone_gap (ws n)
                then (let a2 = spawnFailedAbort (aw_gap_steer (ws n)) (aw_gap_reason (ws n)) (ds_account dg)
                      in (Some a2, fireRun cfg p a2 (n + 1) True dg))
                else (case reselect dparse (aw_time (ws n)) p dg of
                        (False, d3) \<Rightarrow> (Some a, d3)
                      | (True, d3) \<Rightarrow> dispatch_loop dparse cfg p ws (n + 1) d3))"
  by pat_completeness auto

termination
  by (relation "measure (\<lambda>(dparse, cfg, p, ws, n, d). maxRetries RETRY_POLICY - n)") auto

declare dispatch_loop.simps [simp del]

section \<open>Settling\<close>

definition re_auth_message :: rx where
  "re_auth_message = rx_alts (map rx_lit_i [''invalid_grant'', ''not signed in'', ''auth''])"

definition rx_dots :: rx where
  "rx_dots = RxStar (RxChar (\<lambda>c. c \<noteq> CHR 0x0A \<and> c \<noteq> CHR 0x0D))"

definition re_stale_conversation :: rx where
  "re_stale_conversation = rx_alts
     [rx_seqs [rx_lit_i ''conversation'', rx_dots,
        rx_alts (map rx_lit_i [''not found'', ''invalid'', ''not recognized'', ''expired'', ''does not exist''])],
      rx_seqs [rx_lit_i ''session'', rx_dots, rx_alts (map rx_lit_i [''expired'', ''invalid''])]]"

definition on_pool :: "(pool_manager \<Rightarrow> pool_manager) \<Rightarrow> engine_state \<Rightarrow> engine_state" where
  "on_pool f s = s\<lparr>eng_pool := map_option f (eng_pool s)\<rparr>"

definition settle_success :: "world \<Rightarrow> engine_call \<Rightarrow> prepared \<Rightarrow> attempt_result \<Rightarrow> engine_state \<Rightarrow> engine_state" where
  "settle_success w call p a s =
     (let s1 = (case at_account a of Some acc \<Rightarrow> on_pool (recordSuccess (now w) (acc_id acc) (pr_family p)) s | None \<Rightarrow> s);
          finalId = (case pr_binding p of Some b \<Rightarrow> Some (conversationId b) | None \<Rightarrow> at_conversationId a)
      in if pr_key p \<noteq> [] \<and> truthy_str finalId
         then s1\<lparr>eng_store := set_binding (pr_key p) \<lparr>conversationId = or_else finalId [],
                lastMessageCount = length (messages call), bound_at = now w, bound_model = Some (pr_activeModel p)\<rparr> (eng_store s1)\<rparr>
         else s1)"

definition settle_failure ::
  "(string \<Rightarrow> ms option) \<Rightarrow> world \<Rightarrow> prepared \<Rightarrow> attempt_result \<Rightarrow> recording_failure \<Rightarrow> engine_state \<Rightarrow> engine_state" where
  "settle_failure dparse w p a f s =
     (let effectiveRateLimit = (looksLikeRateLimit (Some (at_rawErrText a)) \<or> looksLikeRateLimit (Some (rf_message f)));
          s1 = (case at_account a of
                  Some acc \<Rightarrow>
                    if looksLikeHardRateLimit (Some (at_rawErrText a))
                    then on_pool (recordFailure dparse (now w) (acc_id acc) (pr_family p) (rf_message f) None) s else s
                | None \<Rightarrow> s);
          s2 = (case at_account a of
                  Some acc \<Rightarrow>
                    if rf_code f = AUTH \<or> rf_code f = VALIDATION_REQUIRED \<or> rx_test re_auth_message (rf_message f)
                    then on_pool (markAuthRequired w (acc_id acc) (Some (rf_message f))) s1 else s1
                | None \<Rightarrow> s1)
      in if pr_key p \<noteq> [] \<and>
            (rf_code f = AUTH \<or> effectiveRateLimit \<or> (rf_message f \<noteq> [] \<and> rx_test re_stale_conversation (rf_message f)))
         then s2\<lparr>eng_store := delete_binding (pr_key p) (eng_store s2)\<rparr> else s2)"

definition settle_run ::
  "(string \<Rightarrow> ms option) \<Rightarrow> world \<Rightarrow> engine_call \<Rightarrow> prepared \<Rightarrow> attempt_result \<Rightarrow> dispatch \<Rightarrow> dispatch" where
  "settle_run dparse w call p a d =
     (let d1 = releaseOnce d;
          d2 = d1\<lparr>ds_rec := settle_rec (at_failure a) (ds_rec d1)\<rparr>;
          d3 = (if \<not> keepForContinuation (ds_rec d2) then d2\<lparr>ds_runs := forget (runId (ds_rec d2)) (ds_runs d2)\<rparr> else d2)
      in d3\<lparr>ds_eng := (case at_failure a of
               None \<Rightarrow> settle_success w call p a (ds_eng d3)
             | Some f \<Rightarrow> settle_failure dparse w p a f (ds_eng d3))\<rparr>)"

definition run_dispatch ::
  "(string \<Rightarrow> ms option) \<Rightarrow> gateway_config \<Rightarrow> world \<Rightarrow> engine_call \<Rightarrow> prepared \<Rightarrow> (nat \<Rightarrow> attempt_world) \<Rightarrow> dispatch \<Rightarrow> dispatch" where
  "run_dispatch dparse cfg w call p ws d =
     (let (l, d1) = dispatch_loop dparse cfg p ws 0 d;
          d2 = (case l of None \<Rightarrow> d1 | Some a \<Rightarrow> settle_run dparse w call p a d1)
      in d2\<lparr>ds_eng := untrackBusy (map_option acc_id (ds_account d2)) (ds_eng d2)\<rparr>)"

text \<open>What the dispatch starts from: the busy mark of the chosen account is set and the slot is held.\<close>

definition start_dispatch :: "prepared \<Rightarrow> run_recording \<Rightarrow> registry \<Rightarrow> engine_state \<Rightarrow> dispatch" where
  "start_dispatch p r runs s = \<lparr>ds_rec = r, ds_eng = s, ds_runs = runs, ds_fired = [], ds_released = False, ds_releases = 0,
     ds_account = pr_account p, ds_others = (\<lambda>_. 0)\<rparr>"

section \<open>The loop\<close>

lemma append_all_settled: "rec_settled (append_all evs r) = rec_settled r"
  by (induction evs arbitrary: r) (simp_all add: append_all_def append_event_events)

lemma runOnce_settled: "runOnce cfg w acc r = (a, r1) \<Longrightarrow> rec_settled r1 = rec_settled r"
  by (auto simp: runOnce_def append_all_settled Let_def split: if_splits option.splits)

text \<open>The marks of the other calls, and that the own mark is counted.\<close>

definition other_calls :: "dispatch \<Rightarrow> string \<Rightarrow> nat" where
  "other_calls d i = calls_on (ds_eng d) i - (if own d = Some i then 1 else 0)"

definition marks_ok :: "dispatch \<Rightarrow> bool" where
  "marks_ok d = (busy_ok (ds_eng d) \<and> (\<forall>i. own d = Some i \<longrightarrow> 0 < calls_on (ds_eng d) i))"

text \<open>
  What the other requests may do to the shared state: they keep its invariants and leave one mark on the account
  \<open>i\<close> of this run.
\<close>

definition polite :: "(string option \<Rightarrow> engine_state \<times> registry \<Rightarrow> engine_state \<times> registry) \<Rightarrow> bool" where
  "polite f = (\<forall>i s runs. busy_ok s \<and> (\<forall>x. i = Some x \<longrightarrow> 0 < calls_on s x) \<longrightarrow>
     (let s1 = fst (f i (s, runs)) in
      busy_ok s1 \<and> (\<forall>x. i = Some x \<longrightarrow> 0 < calls_on s1 x) \<and> (pool_ids_ok s \<longrightarrow> pool_ids_ok s1)))"

definition polite_worlds :: "(nat \<Rightarrow> attempt_world) \<Rightarrow> bool" where
  "polite_worlds ws = (\<forall>n. polite (aw_others (ws n)) \<and> polite (aw_gap_others (ws n)))"

lemma clear_prompt_fields:
  "busy_ok (clear_prompt p w r s) = busy_ok s" "calls_on (clear_prompt p w r s) = calls_on s"
  "eng_pool (clear_prompt p w r s) = eng_pool s"
  by (simp_all add: clear_prompt_def busy_fields)

lemma fireRun_fields:
  "ds_eng (fireRun cfg p a n f d) = ds_eng d" "ds_account (fireRun cfg p a n f d) = ds_account d"
  "ds_rec (fireRun cfg p a n f d) = ds_rec d" "ds_releases (fireRun cfg p a n f d) = ds_releases d"
  "ds_released (fireRun cfg p a n f d) = ds_released d" "ds_others (fireRun cfg p a n f d) = ds_others d"
  by (simp_all add: fireRun_def)

text \<open>Re-selection keeps the account, finds none, or moves the mark to another one.\<close>

definition freed :: "dispatch \<Rightarrow> pool_manager \<Rightarrow> engine_state" where
  "freed d pool = (untrackBusy (own d) (ds_eng d))\<lparr>eng_pool := Some pool\<rparr>"

lemma reselect_cases:
  assumes "reselect dparse t p d = (b, d1)"
  obtains (same) "b" "d1 = d"
    | (lost) pool pool1 busy where "\<not> b" "eng_pool (ds_eng d) = Some pool" "accounts (data pool) \<noteq> []"
        "selectAccount dparse t (pr_family p) (Some busy) pool = (None, pool1)"
        "d1 = d\<lparr>ds_eng := trackBusy (own d) (freed d pool1)\<rparr>"
    | (moved) pool pool1 busy a where "b" "eng_pool (ds_eng d) = Some pool"
        "selectAccount dparse t (pr_family p) (Some busy) pool = (Some a, pool1)"
        "d1 = d\<lparr>ds_eng := trackBusy (Some (acc_id a)) (freed d pool1), ds_account := Some a\<rparr>"
  using assms by (auto simp: reselect_def Let_def own_def freed_def split: option.splits if_splits prod.splits)

lemma freed_marks:
  assumes "marks_ok d"
  shows "busy_ok (freed d pool)" "calls_on (freed d pool) = other_calls d"
  using untrackBusy_ok [of "ds_eng d" "own d"] assms
  by (auto simp: freed_def marks_ok_def other_calls_def busy_fields)

lemma trackBusy_pool: "eng_pool (trackBusy i s) = eng_pool s"
  by (simp add: trackBusy_def split: option.splits)

lemma reselect_marks:
  assumes "marks_ok d" "reselect dparse t p d = (b, d1)"
  shows "marks_ok d1 \<and> other_calls d1 = other_calls d"
  using assms(2)
proof (cases rule: reselect_cases)
  case (lost pool pool1 busy)
  with trackBusy_ok [OF freed_marks(1) [OF assms(1), of pool1], of "own d"] freed_marks(2) [OF assms(1), of pool1]
  show ?thesis by (auto simp: marks_ok_def other_calls_def own_def fun_eq_iff)
next
  case (moved pool pool1 busy a)
  with trackBusy_ok [OF freed_marks(1) [OF assms(1), of pool1], of "Some (acc_id a)"] freed_marks(2) [OF assms(1), of pool1]
  show ?thesis by (auto simp: marks_ok_def other_calls_def own_def fun_eq_iff)
qed (use assms(1) in simp)

lemma reselect_fields:
  assumes "reselect dparse t p d = (b, d1)"
  shows "ds_rec d1 = ds_rec d \<and> ds_releases d1 = ds_releases d \<and> ds_released d1 = ds_released d \<and> ds_fired d1 = ds_fired d \<and>
    ds_others d1 = ds_others d"
  using assms by (cases rule: reselect_cases) simp_all

lemma reselect_accounts:
  assumes "reselect dparse t p d = (b, d1)"
  shows "pool_accounts (ds_eng d1) = pool_accounts (ds_eng d) \<and> pool_ids_ok (ds_eng d1) = pool_ids_ok (ds_eng d)"
proof -
  have k: "accounts (data pool1) = accounts (data pool)"
    if "selectAccount dparse t (pr_family p) (Some busy) pool = (x, pool1)" for x pool pool1 busy
    using selectAccount_keeps_accounts [of dparse t "pr_family p" "Some busy" pool] that by simp
  from assms show ?thesis
    by (cases rule: reselect_cases)
      (auto dest!: k simp: pool_accounts_def pool_ids_ok_def trackBusy_pool freed_def)
qed

text \<open>The pool has accounts and none of them may serve the family.\<close>

definition none_eligible :: "(string \<Rightarrow> ms option) \<Rightarrow> ms \<Rightarrow> model_family \<Rightarrow> engine_state \<Rightarrow> bool" where
  "none_eligible dparse t f s = (pool_accounts s \<noteq> [] \<and> (\<forall>x \<in> set (pool_accounts s). \<not> eligible dparse t f x))"

lemma reselect_fails:
  assumes "reselect dparse t p d = (False, d1)" "pool_ids_ok (ds_eng d)"
  shows "none_eligible dparse t (pr_family p) (ds_eng d)"
  using assms(1)
proof (cases rule: reselect_cases)
  case (lost pool pool1 busy)
  with assms(2) selectAccount_none [OF _ lost(4)] show ?thesis
    by (simp add: none_eligible_def pool_ids_ok_def pool_accounts_def)
qed simp_all

text \<open>
  What one pass through the loop leaves untouched: the marks of the other calls, up to what the others changed
  themselves, the slot, and that the recording is open.
\<close>

definition balance :: "dispatch \<Rightarrow> string \<Rightarrow> int" where
  "balance d i = int (other_calls d i) - ds_others d i"

definition same_run :: "dispatch \<Rightarrow> dispatch \<Rightarrow> bool" where
  "same_run d d1 = (marks_ok d1 \<and> balance d1 = balance d \<and> ds_releases d1 = ds_releases d \<and>
     ds_released d1 = ds_released d \<and> \<not> rec_settled (ds_rec d1) \<and> (pool_ids_ok (ds_eng d) \<longrightarrow> pool_ids_ok (ds_eng d1)))"

lemma same_run_trans: "same_run d d1 \<Longrightarrow> same_run d1 d2 \<Longrightarrow> same_run d d2"
  by (simp add: same_run_def)

lemma by_others_fields [simp]:
  "ds_rec (by_others f d) = ds_rec d" "ds_fired (by_others f d) = ds_fired d" "ds_account (by_others f d) = ds_account d"
  "ds_released (by_others f d) = ds_released d" "ds_releases (by_others f d) = ds_releases d" "own (by_others f d) = own d"
  "ds_eng (by_others f d) = fst (f (own d) (ds_eng d, ds_runs d))" "ds_runs (by_others f d) = snd (f (own d) (ds_eng d, ds_runs d))"
  by (simp_all add: by_others_def own_def split: prod.splits)

lemma same_run_others:
  assumes "polite f" "marks_ok d" "\<not> rec_settled (ds_rec d)"
  shows "same_run d (by_others f d)"
proof -
  let ?s = "fst (f (own d) (ds_eng d, ds_runs d))"
  from assms(1,2) have s: "busy_ok ?s" "\<forall>x. own d = Some x \<longrightarrow> 0 < calls_on ?s x" "pool_ids_ok (ds_eng d) \<longrightarrow> pool_ids_ok ?s"
    unfolding marks_ok_def polite_def Let_def by blast+
  have "ds_others (by_others f d) i = ds_others d i + int (calls_on ?s i) - int (calls_on (ds_eng d) i)" for i
    by (simp add: by_others_def case_prod_unfold Let_def)
  with s assms(2) have "balance (by_others f d) i = balance d i" for i
    by (cases "own d = Some i") (auto simp: balance_def other_calls_def marks_ok_def of_nat_diff)
  with s assms(3) show ?thesis by (simp add: same_run_def marks_ok_def fun_eq_iff)
qed

lemma same_run_attempt:
  assumes "marks_ok d" "\<not> rec_settled r1"
  shows "same_run d (fireRun cfg p a n f (d\<lparr>ds_rec := r1, ds_eng := clear_prompt p w r (ds_eng d)\<rparr>))"
  using assms
  by (simp add: same_run_def balance_def fireRun_fields marks_ok_def other_calls_def own_def clear_prompt_fields
      pool_ids_ok_def fun_eq_iff)

lemma same_run_fire: "same_run d d1 \<Longrightarrow> same_run d (fireRun cfg p a n f d1)"
  by (simp add: same_run_def balance_def fireRun_fields marks_ok_def other_calls_def own_def fun_eq_iff)

lemma same_run_reselect:
  "marks_ok d \<Longrightarrow> \<not> rec_settled (ds_rec d) \<Longrightarrow> reselect dparse t p d = (b, d1) \<Longrightarrow> same_run d d1"
  using reselect_marks [of d dparse t p b d1] reselect_fields [of dparse t p d b d1] reselect_accounts [of dparse t p d b d1]
  by (simp add: same_run_def balance_def fun_eq_iff)

definition booked :: "run_info list \<Rightarrow> attempt_result \<Rightarrow> bool \<Rightarrow> bool" where
  "booked new a lost = ((length new = 1 \<or> length new = 2) \<and> map ri_attempt new = [0..<length new] \<and> (\<forall>x \<in> set (butlast new). \<not> ri_final x) \<and>
     ri_code (last new) = map_option rf_code (at_failure a) \<and> (ri_final (last new) \<or> length new = 1 \<and> lost))"

lemma fireRun_fired:
  "\<exists>x. ds_fired (fireRun cfg p a n f d) = ds_fired d @ [x] \<and> ri_attempt x = n \<and> ri_final x = f \<and>
     ri_code x = map_option rf_code (at_failure a)"
  by (simp add: fireRun_def)

text \<open>The state after attempt \<open>n\<close> has been booked.\<close>

definition attempted ::
  "gateway_config \<Rightarrow> prepared \<Rightarrow> (nat \<Rightarrow> attempt_world) \<Rightarrow> nat \<Rightarrow> dispatch \<Rightarrow> attempt_result \<Rightarrow> run_recording \<Rightarrow> bool \<Rightarrow> dispatch" where
  "attempted cfg p ws n d a r1 f =
     (let d0 = by_others (aw_others (ws n)) d
      in fireRun cfg p a n f (d0\<lparr>ds_rec := r1, ds_eng := clear_prompt p (ws n) (ds_rec d) (ds_eng d0)\<rparr>))"

lemma attempted_spec:
  assumes "marks_ok d" "\<not> rec_settled (ds_rec d)" "polite_worlds ws" "runOnce cfg (ws n) (ds_account d) (ds_rec d) = (a, r1)"
  shows "same_run d (attempted cfg p ws n d a r1 f) \<and>
    (\<exists>x. ds_fired (attempted cfg p ws n d a r1 f) = ds_fired d @ [x] \<and> ri_attempt x = n \<and> ri_final x = f \<and>
       ri_code x = map_option rf_code (at_failure a))"
proof -
  let ?d0 = "by_others (aw_others (ws n)) d"
  have s0: "same_run d ?d0" using same_run_others assms(1-3) by (simp add: polite_worlds_def)
  then have "marks_ok ?d0" by (simp add: same_run_def)
  from same_run_trans [OF s0 same_run_attempt [OF this, of r1 cfg p a n f "ws n" "ds_rec d"]] runOnce_settled [OF assms(4)] assms(2)
    fireRun_fired [of cfg p a n f "?d0\<lparr>ds_rec := r1, ds_eng := clear_prompt p (ws n) (ds_rec d) (ds_eng ?d0)\<rparr>"]
  show ?thesis unfolding attempted_def Let_def by simp
qed

text \<open>The state in which the retry selects its account, after the attempt and the delay.\<close>

definition before_retry ::
  "gateway_config \<Rightarrow> prepared \<Rightarrow> (nat \<Rightarrow> attempt_world) \<Rightarrow> nat \<Rightarrow> dispatch \<Rightarrow> attempt_result \<Rightarrow> run_recording \<Rightarrow> dispatch" where
  "before_retry cfg p ws n d a r1 = by_others (aw_gap_others (ws n)) (attempted cfg p ws n d a r1 False)"

definition retry_state :: "prepared \<Rightarrow> attempt_world \<Rightarrow> dispatch \<Rightarrow> engine_state" where
  "retry_state p w d =
     (let (s1, runs1) = aw_others w (own d) (ds_eng d, ds_runs d)
      in fst (aw_gap_others w (own d) (clear_prompt p w (ds_rec d) s1, runs1)))"

lemma before_retry_spec:
  assumes "marks_ok d" "\<not> rec_settled (ds_rec d)" "polite_worlds ws" "runOnce cfg (ws n) (ds_account d) (ds_rec d) = (a, r1)"
  shows "same_run d (before_retry cfg p ws n d a r1) \<and> ds_eng (before_retry cfg p ws n d a r1) = retry_state p (ws n) d \<and>
    (\<exists>x. ds_fired (before_retry cfg p ws n d a r1) = ds_fired d @ [x] \<and> ri_attempt x = n \<and> \<not> ri_final x \<and>
       ri_code x = map_option rf_code (at_failure a))"
proof -
  let ?d2 = "attempted cfg p ws n d a r1 False"
  from attempted_spec [OF assms, of p False] have at: "same_run d ?d2"
    "\<exists>x. ds_fired ?d2 = ds_fired d @ [x] \<and> ri_attempt x = n \<and> \<not> ri_final x \<and> ri_code x = map_option rf_code (at_failure a)" by auto
  then have "same_run ?d2 (before_retry cfg p ws n d a r1)"
    using same_run_others assms(3) by (simp add: before_retry_def same_run_def polite_worlds_def)
  moreover have "ds_eng (before_retry cfg p ws n d a r1) = retry_state p (ws n) d"
    by (simp add: before_retry_def retry_state_def attempted_def fireRun_def own_def Let_def case_prod_unfold)
  ultimately show ?thesis using same_run_trans [OF at(1)] at(2) by (simp add: before_retry_def)
qed

lemma dispatch_loop_cases:
  assumes "dispatch_loop dparse cfg p ws n d = (l, d1)" "\<not> rec_settled (ds_rec d)"
    "runOnce cfg (ws n) (ds_account d) (ds_rec d) = (a, r1)"
  obtains (final) "l = Some a" "d1 = attempted cfg p ws n d a r1 True"
    | (gap) a2 where "n < maxRetries RETRY_POLICY" "canRetry a r1" "l = Some a2"
        "d1 = fireRun cfg p a2 (n + 1) True (before_retry cfg p ws n d a r1)"
    | (lost) "n < maxRetries RETRY_POLICY" "canRetry a r1" "l = Some a"
        "reselect dparse (aw_time (ws n)) p (before_retry cfg p ws n d a r1) = (False, d1)"
    | (again) d3 where "n < maxRetries RETRY_POLICY" "canRetry a r1"
        "reselect dparse (aw_time (ws n)) p (before_retry cfg p ws n d a r1) = (True, d3)"
        "dispatch_loop dparse cfg p ws (n + 1) d3 = (l, d1)"
proof (cases "canRetry a r1 \<and> n < maxRetries RETRY_POLICY \<and> \<not> aw_gone_after (ws n)")
  case False
  then have "(\<not> canRetry a r1 \<or> n \<ge> maxRetries RETRY_POLICY \<or> aw_gone_after (ws n)) = True" by auto
  with assms show thesis by (intro final) (auto simp: dispatch_loop.simps [of dparse cfg p ws n d] attempted_def before_retry_def Let_def)
next
  case True
  then have f: "(\<not> canRetry a r1 \<or> n \<ge> maxRetries RETRY_POLICY \<or> aw_gone_after (ws n)) = False" by auto
  have u: "\<not> rec_settled r1" using runOnce_settled [OF assms(3)] assms(2) by simp
  show thesis
  proof (cases "aw_gone_gap (ws n)")
    case g: True
    with assms f True u show thesis
      by (intro gap) (auto simp: dispatch_loop.simps [of dparse cfg p ws n d] attempted_def before_retry_def Let_def)
  next
    case g: False
    obtain b d3 where rs: "reselect dparse (aw_time (ws n)) p (before_retry cfg p ws n d a r1) = (b, d3)"
      by (cases "reselect dparse (aw_time (ws n)) p (before_retry cfg p ws n d a r1)")
    with assms f u g have e: "(case b of False \<Rightarrow> (Some a, d3) | True \<Rightarrow> dispatch_loop dparse cfg p ws (n + 1) d3) = (l, d1)"
      by (simp add: dispatch_loop.simps [of dparse cfg p ws n d] attempted_def before_retry_def Let_def split: bool.splits)
    show thesis
      using True rs e again [of d3] lost by (cases b) auto
  qed
qed

lemma dispatch_last:
  assumes "dispatch_loop dparse cfg p ws n d = (l, d1)" "\<not> rec_settled (ds_rec d)" "marks_ok d" "polite_worlds ws"
    and "maxRetries RETRY_POLICY \<le> n"
  shows "\<exists>a x. l = Some a \<and> same_run d d1 \<and> ds_fired d1 = ds_fired d @ [x] \<and> ri_attempt x = n \<and> ri_final x \<and>
    ri_code x = map_option rf_code (at_failure a)"
proof -
  obtain a r1 where ro: "runOnce cfg (ws n) (ds_account d) (ds_rec d) = (a, r1)"
    by (cases "runOnce cfg (ws n) (ds_account d) (ds_rec d)")
  from assms(1,2) ro show ?thesis
    by (cases rule: dispatch_loop_cases) (use assms(5) attempted_spec [OF assms(3,2,4) ro, of p True] in auto)
qed

lemma dispatch_loop_spec:
  assumes "dispatch_loop dparse cfg p ws 0 d = (l, d1)" "\<not> rec_settled (ds_rec d)" "marks_ok d" "pool_ids_ok (ds_eng d)"
    and "polite_worlds ws"
  shows "\<exists>a new. l = Some a \<and> same_run d d1 \<and> ds_fired d1 = ds_fired d @ new \<and>
    booked new a (none_eligible dparse (aw_time (ws 0)) (pr_family p) (retry_state p (ws 0) d))"
proof -
  obtain a r1 where ro: "runOnce cfg (ws 0) (ds_account d) (ds_rec d) = (a, r1)"
    by (cases "runOnce cfg (ws 0) (ds_account d) (ds_rec d)")
  let ?d2 = "before_retry cfg p ws 0 d a r1"
  from before_retry_spec [OF assms(3,2,5) ro, of p] obtain x where x: "same_run d ?d2" "ds_fired ?d2 = ds_fired d @ [x]"
    "ri_attempt x = 0" "\<not> ri_final x" "ri_code x = map_option rf_code (at_failure a)" "ds_eng ?d2 = retry_state p (ws 0) d" by auto
  have m2: "marks_ok ?d2" "\<not> rec_settled (ds_rec ?d2)" "pool_ids_ok (ds_eng ?d2)"
    using x(1) assms(4) by (simp_all add: same_run_def)
  from assms(1,2) ro show ?thesis
  proof (cases rule: dispatch_loop_cases)
    case final
    with attempted_spec [OF assms(3,2,5) ro, of p True] show ?thesis by (auto simp: booked_def)
  next
    case (gap a2)
    from fireRun_fired [of cfg p a2 "0 + 1" True ?d2] gap(4) obtain y where
      y: "ds_fired d1 = ds_fired ?d2 @ [y]" "ri_attempt y = 1" "ri_final y" "ri_code y = map_option rf_code (at_failure a2)" by auto
    with x gap show ?thesis by (intro exI [of _ a2] exI [of _ "[x, y]"]) (auto simp: booked_def same_run_fire upt_rec)
  next
    case lost
    from reselect_fails [OF lost(4) m2(3)] reselect_fields [OF lost(4)] x lost(3)
      same_run_trans [OF x(1) same_run_reselect [OF m2(1,2) lost(4)]]
    show ?thesis by (intro exI [of _ a] exI [of _ "[x]"]) (auto simp: booked_def)
  next
    case (again d3)
    have s3: "same_run ?d2 d3" by (rule same_run_reselect [OF m2(1,2) again(3)])
    then have m3: "marks_ok d3" "\<not> rec_settled (ds_rec d3)" by (simp_all add: same_run_def)
    from dispatch_last [OF again(4) m3(2,1) assms(5)] obtain a1 y where
      y: "l = Some a1" "same_run d3 d1" "ds_fired d1 = ds_fired d3 @ [y]" "ri_attempt y = 1" "ri_final y"
        "ri_code y = map_option rf_code (at_failure a1)"
      by (auto simp: RETRY_POLICY_def)
    with x reselect_fields [OF again(3)] same_run_trans [OF same_run_trans [OF x(1) s3] y(2)] show ?thesis
      by (intro exI [of _ a1] exI [of _ "[x, y]"]) (auto simp: booked_def upt_rec)
  qed
qed

section \<open>Settlement\<close>

lemma on_pool_busy: "busy_ok (on_pool f s) = busy_ok s" "calls_on (on_pool f s) = calls_on s"
  by (simp_all add: on_pool_def busy_fields)

lemma settle_busy:
  "busy_ok (settle_success w call p a s) = busy_ok s" "calls_on (settle_success w call p a s) = calls_on s"
  "busy_ok (settle_failure dparse w p a f s) = busy_ok s" "calls_on (settle_failure dparse w p a f s) = calls_on s"
  by (simp_all add: settle_success_def settle_failure_def Let_def busy_fields on_pool_busy split: option.splits)

lemma settle_run_fields:
  "ds_fired (settle_run dparse w call p a d) = ds_fired d" "ds_account (settle_run dparse w call p a d) = ds_account d"
  "busy_ok (ds_eng (settle_run dparse w call p a d)) = busy_ok (ds_eng d)"
  "calls_on (ds_eng (settle_run dparse w call p a d)) = calls_on (ds_eng d)" "ds_others (settle_run dparse w call p a d) = ds_others d"
  by (simp_all add: settle_run_def releaseOnce_def settle_busy Let_def split: option.splits)

lemma settle_run_settles:
  assumes "\<not> rec_settled (ds_rec d)" "\<not> ds_released d"
  shows "rec_settled (ds_rec (settle_run dparse w call p a d)) \<and> rec_failure (ds_rec (settle_run dparse w call p a d)) = at_failure a \<and>
    ds_releases (settle_run dparse w call p a d) = Suc (ds_releases d)"
  using assms by (simp add: settle_run_def releaseOnce_def settle_rec_def wake_def Let_def)

text \<open>A run is the loop, the settling and the removal of its own busy mark.\<close>

lemma run_dispatch_parts:
  assumes "busy_ok s" "\<forall>acc. pr_account p = Some acc \<longrightarrow> 0 < calls_on s (acc_id acc)" "pool_ids_ok s" "\<not> rec_settled r" "polite_worlds ws"
    and run: "run_dispatch dparse cfg w call p ws (start_dispatch p r runs s) = d"
  obtains a d1 where "same_run (start_dispatch p r runs s) d1"
    "booked (ds_fired d1) a (none_eligible dparse (aw_time (ws 0)) (pr_family p) (retry_state p (ws 0) (start_dispatch p r runs s)))"
    "d = (settle_run dparse w call p a d1)\<lparr>ds_eng := untrackBusy (own (settle_run dparse w call p a d1)) (ds_eng (settle_run dparse w call p a d1))\<rparr>"
proof -
  let ?d0 = "start_dispatch p r runs s"
  obtain l d1 where l: "dispatch_loop dparse cfg p ws 0 ?d0 = (l, d1)" by (cases "dispatch_loop dparse cfg p ws 0 ?d0")
  have m0: "marks_ok ?d0" "\<not> rec_settled (ds_rec ?d0)" "pool_ids_ok (ds_eng ?d0)" "ds_fired ?d0 = []" "ds_eng ?d0 = s"
    using assms(1-4) by (auto simp: marks_ok_def own_def start_dispatch_def)
  from dispatch_loop_spec [OF l m0(2,1,3) assms(5)] m0(4,5) obtain a where a: "l = Some a" "same_run ?d0 d1"
    "booked (ds_fired d1) a (none_eligible dparse (aw_time (ws 0)) (pr_family p) (retry_state p (ws 0) (start_dispatch p r runs s)))" by auto
  show ?thesis
    by (rule that [OF a(2,3)]) (simp add: run [symmetric] run_dispatch_def own_def Let_def l a(1))
qed

text \<open>
  C4. A dispatched run settles exactly once and leaks nothing, whatever its attempts do and whatever other requests
  do to the engine, the pool and the registry while it awaits (as long as they keep the invariants and leave its own
  mark): the recording is settled, the concurrency slot is released exactly once, of its own the run removes exactly
  its busy mark (also when the retry moved to another account; \<open>ds_others\<close> is what the others changed), and one or two
  attempts were reported, numbered from zero, all but the last as not final, the last with the code the recording was
  settled with. The last report is final, except when the account for the retry could not be selected because the
  pool, as the others left it by then, had no eligible account any more.
\<close>

theorem dispatch_settles_once:
  assumes "busy_ok s" "\<forall>acc. pr_account p = Some acc \<longrightarrow> 0 < calls_on s (acc_id acc)" "pool_ids_ok s" "\<not> rec_settled r"
    and "polite_worlds ws" and run: "run_dispatch dparse cfg w call p ws (start_dispatch p r runs s) = d"
  shows "rec_settled (ds_rec d) \<and> ds_releases d = 1 \<and> busy_ok (ds_eng d) \<and>
    (\<forall>i. int (calls_on (ds_eng d) i) =
       int (calls_on s i) - (if map_option acc_id (pr_account p) = Some i then 1 else 0) + ds_others d i) \<and>
    (length (ds_fired d) = 1 \<or> length (ds_fired d) = 2) \<and> map ri_attempt (ds_fired d) = [0..<length (ds_fired d)] \<and>
    (\<forall>x \<in> set (butlast (ds_fired d)). \<not> ri_final x) \<and>
    ri_code (last (ds_fired d)) = map_option rf_code (rec_failure (ds_rec d)) \<and>
    (ri_final (last (ds_fired d)) \<or> length (ds_fired d) = 1 \<and>
     none_eligible dparse (aw_time (ws 0)) (pr_family p) (retry_state p (ws 0) (start_dispatch p r runs s)))"
proof -
  let ?d0 = "start_dispatch p r runs s"
  obtain a d1 where a: "same_run ?d0 d1"
    "booked (ds_fired d1) a (none_eligible dparse (aw_time (ws 0)) (pr_family p) (retry_state p (ws 0) ?d0))"
    and d: "d = (settle_run dparse w call p a d1)\<lparr>ds_eng := untrackBusy (own (settle_run dparse w call p a d1)) (ds_eng (settle_run dparse w call p a d1))\<rparr>"
    by (rule run_dispatch_parts [OF assms(1-5) run])
  let ?d2 = "settle_run dparse w call p a d1"
  have m0: "marks_ok ?d0" "\<not> rec_settled (ds_rec ?d0)" "\<not> ds_released ?d0" "ds_releases ?d0 = 0"
    using assms(1,2,4) by (auto simp: marks_ok_def own_def start_dispatch_def)
  have o: "own ?d2 = own d1" by (simp add: own_def settle_run_fields)
  from a(1) m0 have m1: "\<not> rec_settled (ds_rec d1)" "\<not> ds_released d1" "ds_releases d1 = 0" "marks_ok d1"
    "balance d1 = balance ?d0" by (simp_all add: same_run_def)
  have b2: "busy_ok (ds_eng ?d2)" using m1(4) by (simp add: settle_run_fields marks_ok_def)
  have c: "calls_on (ds_eng d) = other_calls d1" "busy_ok (ds_eng d)" "ds_others d = ds_others d1"
    using untrackBusy_ok [OF b2, of "own ?d2"] o by (simp_all add: d settle_run_fields other_calls_def fun_eq_iff)
  have "int (calls_on (ds_eng d) i) = int (calls_on s i) - (if map_option acc_id (pr_account p) = Some i then 1 else 0) + ds_others d i" for i
  proof -
    have "int (other_calls d1 i) - ds_others d1 i = int (other_calls ?d0 i)"
      using fun_cong [OF m1(5), of i] by (simp add: balance_def start_dispatch_def)
    moreover have "int (other_calls ?d0 i) = int (calls_on s i) - (if map_option acc_id (pr_account p) = Some i then 1 else 0)"
      using assms(2) by (auto simp: other_calls_def own_def start_dispatch_def of_nat_diff)
    ultimately show ?thesis using c by simp
  qed
  with c settle_run_settles [OF m1(1,2), of dparse w call p a] m1(3) a(2) show ?thesis
    by (simp add: d settle_run_fields booked_def)
qed

section \<open>Retries are invisible\<close>

text \<open>Events that put nothing on the wire.\<close>

definition silent :: "agy_event \<Rightarrow> bool" where
  "silent ev = (case ev of StepEvent e \<Rightarrow> False | ResultEvent e \<Rightarrow> \<not> res_ok e \<and> response e = [] | _ \<Rightarrow> True)"

lemma map_silent: "silent ev \<Longrightarrow> map_event ev i m = ([], m)"
  by (auto simp: silent_def map_event_def map_result_def split: agy_event.splits)

lemma span_loop_silent: "\<forall>ev \<in> set evs. silent ev \<Longrightarrow> \<not> finished m \<Longrightarrow> span_loop m i (evs @ evs2) = span_loop m (i + length evs) evs2"
  by (induction evs arbitrary: i) (simp_all add: map_silent)

lemma canRetry_silent:
  assumes "canRetry a r" "at_result a = getResultEvent r" "length (filter is_result (events r)) \<le> 1"
  shows "\<forall>ev \<in> set (events r). silent ev"
proof
  fix ev assume ev: "ev \<in> set (events r)"
  from assms(1) have c: "shapeOnly a" "\<not> hasClientMappedEvents r" by (auto simp: canRetry_def split: option.splits)
  show "silent ev"
  proof (cases ev)
    case (StepEvent e)
    with c(2) ev show ?thesis by (force simp: hasClientMappedEvents_def list_ex_iff)
  next
    case (ResultEvent e)
    then have ir: "is_result ev" by (simp add: is_result_def)
    from ev ir obtain pre post where sp: "events r = pre @ ev # post" by (meson split_list)
    with assms(3) ir have "filter is_result post = []" by auto
    then have "\<forall>x \<in> set (rev post). \<not> is_result x" by (auto simp: filter_empty_conv)
    then have "find is_result (rev (events r)) = Some ev" using sp ir by (simp add: find_append_Cons)
    with ResultEvent have "getResultEvent r = Some (res_ok e, response e)" by (simp add: getResultEvent_def last_result_def)
    with c(1) assms(2) ResultEvent show ?thesis by (simp add: shapeOnly_def silent_def)
  qed (simp_all add: silent_def)
qed


text \<open>
  A retry cannot be noticed by the client: when the engine decides to retry the first attempt of a run, every
  event that attempt recorded (agy delivers at most one result envelope per process) maps to no chunk at all, so a
  span over the whole recording is exactly what the events of the second attempt map to.
\<close>

lemma retry_invisible:
  assumes "runOnce cfg w acc r = (a, r1)" "events r = []" "canRetry a r1" "length (filter is_result (events r1)) \<le> 1"
    and "\<not> finished m"
  shows "span_loop m 0 (events r1 @ evs2) = span_loop m (length (events r1)) evs2"
proof -
  have "getResultEvent r = None" using assms(2) by (simp add: getResultEvent_def last_result_def)
  then have "at_result a = getResultEvent r1"
    using assms(1) by (auto simp: runOnce_def spawnFailed_def spawnFailedAbort_def Let_def split: if_splits option.splits)
  from span_loop_silent [OF canRetry_silent [OF assms(3) this assms(4)] assms(5), of 0 evs2] show ?thesis by simp
qed

definition quiet_world :: "agy_event list \<Rightarrow> int option \<Rightarrow> string \<Rightarrow> attempt_world" where
  "quiet_world evs cd err = \<lparr>aw_gone = False, aw_steer = False, aw_reason = None, aw_spawn_error = None, aw_fed = evs,
     aw_flushed = [], aw_parser = new_parser, aw_outcome = \<lparr>out_code = cd, out_signal = None, timedOut = False,
       out_aborted = False, out_stdout = [], stderrTail = err, durationMs = 5\<rparr>, aw_diffed = None, aw_gone_after = False,
     aw_gone_gap = False, aw_gap_steer = False, aw_gap_reason = None, aw_time = 0, aw_others = (\<lambda>_ x. x), aw_gap_others = (\<lambda>_ x. x)\<rparr>"

lemma polite_nothing: "polite (\<lambda>_ x. x)"
  by (simp add: polite_def)

lemma polite_call: "polite (\<lambda>_ (s, runs). (trackBusy (Some i) s, runs))"
  by (auto simp: polite_def trackBusy_ok pool_ids_ok_def trackBusy_pool)

lemma quiet_polite: "polite_worlds (\<lambda>n. quiet_world evs cd err)"
  by (simp add: polite_worlds_def quiet_world_def polite_nothing)

definition demo_prepared :: prepared where
  "demo_prepared = \<lparr>pr_model = [], pr_account = None, pr_family = Google, pr_activeModel = [], pr_effort = None, pr_key = [],
     pr_steerKey = [], pr_binding = None, pr_prompt = []\<rparr>"

text \<open>Two calls hold account \<open>a\<close> by the time the run ends: another one starts on it during each attempt.\<close>

definition shared_worlds :: "nat \<Rightarrow> attempt_world" where
  "shared_worlds n = (quiet_world [] (Some 1) [])\<lparr>aw_others := (\<lambda>_ (s, runs). (trackBusy (Some ''a'') s, runs))\<rparr>"

theorem dispatch_settles_once_witness:
  "let d = run_dispatch (\<lambda>_. None) defaultConfig \<lparr>now = 0, write_ok = True, fs_ok = True\<rparr> demo_call
       (demo_prepared\<lparr>pr_account := Some (acct ''a'')\<rparr>) shared_worlds
       (start_dispatch (demo_prepared\<lparr>pr_account := Some (acct ''a'')\<rparr>) (new_recording ''r'') [] (trackBusy (Some ''a'') (demo_state [''a''])))
   in ds_releases d = 1 \<and> int (calls_on (ds_eng d) ''a'') = ds_others d ''a''"
proof -
  let ?s = "trackBusy (Some ''a'') (demo_state [''a''])"
  note b = trackBusy_ok [OF demo_state_ok, of "Some ''a''"]
  have c: "calls_on ?s ''a'' = 1" using b by (simp add: demo_state_def calls_on_def)
  have "pool_ids_ok ?s" by (simp add: pool_ids_ok_def trackBusy_pool demo_state_def pool_eval)
  moreover have "acc_id (acct ''a'') = ''a''" by (simp add: acct_def blank_account_def)
  moreover have "polite_worlds shared_worlds"
    using polite_call polite_nothing by (simp add: polite_worlds_def shared_worlds_def quiet_world_def)
  ultimately show ?thesis
    using dispatch_settles_once [of ?s "demo_prepared\<lparr>pr_account := Some (acct ''a'')\<rparr>" "new_recording ''r''" shared_worlds, OF _ _ _ _ _ refl] b c
    by (simp add: new_recording_def Let_def)
qed

section \<open>Outcomes reach the client\<close>

lemma classify_success:
  assumes "classify_attempt cfg st why p out r = None" "\<not> out_aborted out"
  shows "consumable_result r"
  using assms by (auto simp: classify_attempt_def Let_def split: if_splits)

lemma consumable_result_event: "consumable_result r \<Longrightarrow> \<exists>ev \<in> set (events r). consumable ev"
  by (auto simp: consumable_result_def getResultEvent_def last_result_def consumable_def is_result_def
      split: option.splits agy_event.splits dest!: find_SomeD)

text \<open>
  A run that the engine books as a success (and that was not cut by an abort) ends at the client as one: the
  first span over its recording finishes with \<open>stop\<close> or on a tool call, never with a failure.
\<close>

lemma success_reaches_client:
  assumes "runOnce cfg w acc r = (a, r1)" "at_failure a = None" "\<not> out_aborted (at_outcome a)"
  shows "\<exists>pre u reason s. fst (drive_span (settle_rec None r1) 0) = pre @ [UsageChunk u, Finish reason s] \<and>
    (reason = FStop \<or> reason = FToolCalls)"
proof -
  have "classify_attempt cfg (aw_steer w) (aw_reason w) (aw_parser w) (aw_outcome w) r1 = None \<and> aw_outcome w = at_outcome a"
    using assms(1,2) by (auto simp: runOnce_def spawnFailed_def spawnFailedAbort_def Let_def split: if_splits option.splits)
  with assms(3) classify_success have c: "\<exists>ev \<in> set (events r1). consumable ev" by (metis consumable_result_event)
  let ?r = "settle_rec None r1"
  have ev: "events ?r = events r1" by (simp add: settle_rec_def wake_def)
  obtain c m where l: "span_loop (span_mapper ?r 0) 0 (events ?r) = (c, m)"
    by (cases "span_loop (span_mapper ?r 0) 0 (events ?r)")
  from span_loop_outcome [OF span_mapper_good(3) span_mapper_flags(1) l] c ev show ?thesis
  proof (elim disjE)
    assume "\<exists>k e t. finished m \<and> k < length (events ?r) \<and> tool_cut_chunks (m_runId (span_mapper ?r 0)) (0 + k) c \<and>
      events ?r ! k = StepEvent e \<and> stepKind e = KTool \<and> tool e = Some t \<and> (tool_output t \<noteq> None \<or> tool_error t \<noteq> None) \<and>
      span_loop (span_mapper ?r 0) 0 (take (Suc k) (events ?r)) = (c, m)"
    then obtain k where "finished m" "tool_cut_chunks (m_runId (span_mapper ?r 0)) k c" by auto
    then show ?thesis using l by (auto simp: drive_span_def tool_cut_chunks_def)
  qed (use l in \<open>auto simp: drive_span_def\<close>)
qed



section \<open>Penalties\<close>

lemma map_le_refl_del: "(f(k := None)) \<subseteq>\<^sub>m f"
  by (auto simp: map_le_def)

lemma upd_first_keeps:
  assumes "\<And>a. Q (f a) a" "\<And>a. Q a a" "b \<in> set (upd_first i f as)"
  shows "\<exists>a \<in> set as. Q b a"
  using assms(3) by (induction as) (use assms(1,2) in \<open>auto split: if_splits\<close>)

definition no_new_cooldown :: "pool_manager \<Rightarrow> pool_manager \<Rightarrow> bool" where
  "no_new_cooldown p q =
     (\<forall>b \<in> set (accounts (data q)). \<exists>a \<in> set (accounts (data p)). acc_id b = acc_id a \<and> cooldowns b \<subseteq>\<^sub>m cooldowns a)"

lemma no_new_cooldown_refl: "no_new_cooldown p p"
  by (auto simp: no_new_cooldown_def)

lemma no_new_cooldown_success: "no_new_cooldown p (recordSuccess t i fam p)"
  unfolding no_new_cooldown_def recordSuccess_def
  by (auto simp: pool_data_simps upd_account_def map_le_refl_del split: option.splits
      dest!: upd_first_keeps [where Q = "\<lambda>b a. acc_id b = acc_id a \<and> cooldowns b \<subseteq>\<^sub>m cooldowns a", rotated 2])

lemma no_new_cooldown_mark: "no_new_cooldown p (markAuthRequired w i why p)"
  unfolding no_new_cooldown_def markAuthRequired_def
  by (auto simp: pool_data_simps upd_account_def drop_active_def split: option.splits
      dest!: upd_first_keeps [where Q = "\<lambda>b a. acc_id b = acc_id a \<and> cooldowns b \<subseteq>\<^sub>m cooldowns a", rotated 2])

text \<open>
  No ghost cooldowns: settling a run puts no account into cooldown and prolongs none unless stderr or the
  result envelope carries one of the hard, server-issued rate-limit signatures; a text the model streamed, a soft
  overload signal or any other failure never does.
\<close>

lemma cooldown_needs_hard_limit:
  assumes "\<not> looksLikeHardRateLimit (Some (at_rawErrText a))" "eng_pool (ds_eng d) = Some p0"
  shows "\<exists>p1. eng_pool (ds_eng (settle_run dparse w call p a d)) = Some p1 \<and> no_new_cooldown p0 p1"
  using assms
  by (auto simp: settle_run_def releaseOnce_def settle_success_def settle_failure_def on_pool_def Let_def
      no_new_cooldown_refl no_new_cooldown_success no_new_cooldown_mark split: option.splits)



text \<open>
  The exception of the dispatch does occur: the only account fails with a retryable error and is disabled during the
  delay, and the run is settled without a final report.
\<close>

lemma final_report_lost:
  assumes "pr_account p = Some acc" "eng_pool (retry_state p (ws 0) (start_dispatch p r runs s)) = Some pool"
    and "accounts (data pool) = [acc\<lparr>enabled := False\<rparr>]" "\<not> rec_settled r" "events r = []"
    and "aw_spawn_error (ws 0) = Some e" "\<not> aw_gone (ws 0)" "\<not> aw_gone_after (ws 0)" "\<not> aw_gone_gap (ws 0)"
  shows "list_all (\<lambda>x. \<not> ri_final x) (ds_fired (run_dispatch dparse cfg w call p ws (start_dispatch p r runs s)))"
proof -
  let ?d = "start_dispatch p r runs s"
  define a where "a = spawnFailed (''failed to spawn agy: '' @ brief e) (Some acc)"
  have none: "selectAccount dparse t f b pool = (None, pool)" for t f b
    using assms(3) by (auto simp: selectAccount_def candidates_of_def eligible_def split: option.splits)
  have r: "runOnce cfg (ws 0) (ds_account ?d) (ds_rec ?d) = (a, r)"
    using assms(1,4,6,7) by (simp add: runOnce_def start_dispatch_def a_def)
  have c: "canRetry a r"
    using assms(5) by (simp add: a_def canRetry_def spawnFailed_def run_error_def shapeOnly_def RETRYABLE_CODES_def hasClientMappedEvents_def)
  let ?d2 = "before_retry cfg p ws 0 ?d a r"
  have "ds_eng ?d2 = retry_state p (ws 0) ?d"
    by (simp add: before_retry_def retry_state_def attempted_def fireRun_def own_def Let_def case_prod_unfold)
  with assms(2) have eng: "eng_pool (ds_eng ?d2) = Some pool" by simp
  obtain d3 where rs: "reselect dparse (aw_time (ws 0)) p ?d2 = (False, d3)"
    using none assms(3) by (simp add: reselect_def eng Let_def)
  have l: "dispatch_loop dparse cfg p ws 0 ?d = (Some a, d3)"
  proof -
    have "\<not> rec_settled (ds_rec ?d)" using assms(4) by (simp add: start_dispatch_def)
    with r c rs assms(4,8,9) show ?thesis
      by (simp add: dispatch_loop.simps [of dparse cfg p ws 0 ?d] attempted_def before_retry_def RETRY_POLICY_def Let_def)
  qed
  have "ds_fired d3 = ds_fired ?d2" using reselect_fields [OF rs] by simp
  also have "list_all (\<lambda>x. \<not> ri_final x) \<dots>"
    by (simp add: before_retry_def attempted_def fireRun_def start_dispatch_def Let_def)
  finally show ?thesis by (simp add: run_dispatch_def l settle_run_fields Let_def)
qed

end
