(* ===== verification/Errors.thy ===== *)
theory Errors
  imports Mapper Tokens
begin

text \<open>
  The HTTP error model of both protocols: \<open>src/server/errors.ts\<close>, and the redaction of log lines of
  \<open>src/host/diagnostics.ts\<close>.

  An error body is a value of \<open>error_body\<close>, with the constructor of its protocol; response headers are
  name and value pairs, \<open>None\<close> where the source leaves them out.
\<close>

section \<open>Bodies\<close>

datatype error_body =
    OpenAiErrorBody (eb_message: string) (eb_type: string) (eb_code: string)
  | AnthropicErrorBody (eb_type: string) (eb_message: string) (request_id: "string option")

record http_error =
  statusCode :: nat
  err_body :: error_body
  err_headers :: "(string \<times> string) list option"

definition openAiError :: "string \<Rightarrow> string \<Rightarrow> string \<Rightarrow> error_body" where
  "openAiError msg ty cd = OpenAiErrorBody msg ty cd"

definition anthropicError :: "string \<Rightarrow> string \<Rightarrow> string option \<Rightarrow> error_body" where
  "anthropicError ty msg rid = AnthropicErrorBody ty msg rid"

definition gatewayHttpError :: "nat \<Rightarrow> error_body \<Rightarrow> (string \<times> string) list option \<Rightarrow> http_error" where
  "gatewayHttpError st b hs = \<lparr>statusCode = st, err_body = b, err_headers = hs\<rparr>"

definition httpError :: "nat \<Rightarrow> string \<Rightarrow> string \<Rightarrow> string \<Rightarrow> http_error" where
  "httpError st msg ty cd = gatewayHttpError st (openAiError msg ty cd) None"

section \<open>Error codes to status and type\<close>

text \<open>\<open>Err\<close> maps each code to its own name.\<close>

fun err_str :: "err_code \<Rightarrow> string" where
  "err_str AUTH = ''AUTH''"
| "err_str AGY_NOT_INSTALLED = ''AGY_NOT_INSTALLED''"
| "err_str AGY_VERSION_UNSUPPORTED = ''AGY_VERSION_UNSUPPORTED''"
| "err_str AGY_ERROR = ''AGY_ERROR''"
| "err_str TIMEOUT = ''TIMEOUT''"
| "err_str PROCESS_EXIT = ''PROCESS_EXIT''"
| "err_str INVALID_OUTPUT = ''INVALID_OUTPUT''"
| "err_str UNKNOWN_MODEL = ''UNKNOWN_MODEL''"
| "err_str UNSUPPORTED_REASONING_EFFORT = ''UNSUPPORTED_REASONING_EFFORT''"
| "err_str BUSY = ''BUSY''"
| "err_str POOL_EXHAUSTED = ''POOL_EXHAUSTED''"
| "err_str VALIDATION_REQUIRED = ''VALIDATION_REQUIRED''"
| "err_str MODEL_NOT_ALLOWED = ''MODEL_NOT_ALLOWED''"
| "err_str ABORTED = ''ABORTED''"
| "err_str (OTHER_CODE s) = s"

fun errorStatus :: "err_code \<Rightarrow> nat \<times> string" where
  "errorStatus AUTH = (401, ''authentication_error'')"
| "errorStatus UNKNOWN_MODEL = (404, ''invalid_request_error'')"
| "errorStatus BUSY = (429, ''rate_limit_error'')"
| "errorStatus POOL_EXHAUSTED = (429, ''rate_limit_error'')"
| "errorStatus VALIDATION_REQUIRED = (403, ''permission_error'')"
| "errorStatus MODEL_NOT_ALLOWED = (403, ''permission_error'')"
| "errorStatus UNSUPPORTED_REASONING_EFFORT = (400, ''invalid_request_error'')"
| "errorStatus AGY_NOT_INSTALLED = (503, ''api_error'')"
| "errorStatus ABORTED = (503, ''api_error'')"
| "errorStatus TIMEOUT = (502, ''api_error'')"
| "errorStatus PROCESS_EXIT = (502, ''api_error'')"
| "errorStatus INVALID_OUTPUT = (502, ''api_error'')"
| "errorStatus AGY_ERROR = (502, ''api_error'')"
| "errorStatus AGY_VERSION_UNSUPPORTED = (502, ''api_error'')"
| "errorStatus (OTHER_CODE s) = (500, ''api_error'')"

definition engineFailureToHttp :: "string \<Rightarrow> err_code \<Rightarrow> (string \<times> string) list option \<Rightarrow> http_error" where
  "engineFailureToHttp msg cd hs =
     (let (st, ty) = errorStatus cd in gatewayHttpError st (openAiError msg ty (err_str cd)) hs)"

fun anthropic_table :: "err_code \<Rightarrow> nat \<times> string" where
  "anthropic_table AUTH = (401, ''authentication_error'')"
| "anthropic_table UNKNOWN_MODEL = (404, ''not_found_error'')"
| "anthropic_table BUSY = (429, ''rate_limit_error'')"
| "anthropic_table POOL_EXHAUSTED = (429, ''rate_limit_error'')"
| "anthropic_table VALIDATION_REQUIRED = (403, ''permission_error'')"
| "anthropic_table MODEL_NOT_ALLOWED = (403, ''permission_error'')"
| "anthropic_table UNSUPPORTED_REASONING_EFFORT = (400, ''invalid_request_error'')"
| "anthropic_table AGY_NOT_INSTALLED = (503, ''api_error'')"
| "anthropic_table ABORTED = (503, ''api_error'')"
| "anthropic_table TIMEOUT = (502, ''api_error'')"
| "anthropic_table PROCESS_EXIT = (502, ''api_error'')"
| "anthropic_table INVALID_OUTPUT = (502, ''api_error'')"
| "anthropic_table AGY_ERROR = (502, ''api_error'')"
| "anthropic_table AGY_VERSION_UNSUPPORTED = (502, ''api_error'')"
| "anthropic_table (OTHER_CODE s) = (500, ''api_error'')"

definition anthropicStatusFor :: "err_code \<Rightarrow> string \<Rightarrow> nat \<times> string" where
  "anthropicStatusFor cd msg =
     (if rx_test (rx_lit_i ''overloaded'') msg then (529, ''overloaded_error'') else anthropic_table cd)"

definition engineFailureToAnthropic :: "string \<Rightarrow> err_code \<Rightarrow> (string \<times> string) list option \<Rightarrow> http_error" where
  "engineFailureToAnthropic msg cd hs =
     (let (st, ty) = anthropicStatusFor cd msg in gatewayHttpError st (anthropicError ty msg None) hs)"

section \<open>Paths, auth and quota rejections\<close>

fun stampRequestId :: "error_body \<Rightarrow> string \<Rightarrow> error_body" where
  "stampRequestId (AnthropicErrorBody ty msg rid) r = AnthropicErrorBody ty msg (Some r)"
| "stampRequestId (OpenAiErrorBody msg ty cd) r = OpenAiErrorBody msg ty cd"

definition url_path :: "string \<Rightarrow> string" where
  "url_path url = takeWhile (\<lambda>c. c \<noteq> CHR ''?'') url"

definition isAnthropicPath :: "string \<Rightarrow> bool" where
  "isAnthropicPath url =
     (starts_with (url_path url) ''/v1/messages'' \<or> starts_with (url_path url) ''/v1/anthropic/'')"

definition authErrorFor :: "string \<Rightarrow> string \<Rightarrow> string option \<Rightarrow> http_error" where
  "authErrorFor url msg rid =
     (if isAnthropicPath url then gatewayHttpError 401 (anthropicError ''authentication_error'' msg rid) None
      else httpError 401 msg ''authentication_error'' ''invalid_api_key'')"

definition quotaRejectFor :: "string \<Rightarrow> string \<Rightarrow> rat \<Rightarrow> string option \<Rightarrow> http_error" where
  "quotaRejectFor url msg retryAfter rid =
     (let hs = [(''retry-after'', show_int (max 1 (js_round retryAfter)))]
      in if isAnthropicPath url then gatewayHttpError 429 (anthropicError ''rate_limit_error'' msg rid) (Some hs)
         else gatewayHttpError 429 (openAiError msg ''rate_limit_error'' ''rate_limit_exceeded'') (Some hs))"

text \<open>\<open>retryHeaders\<close> of \<open>src/server/app.ts\<close>; the engine's \<open>retryAfterSec\<close> is a whole number.\<close>

definition retryHeaders :: "int option \<Rightarrow> (string \<times> string) list option" where
  "retryHeaders s = map_option (\<lambda>n. [(''retry-after'', show_int (max 1 n))]) s"

section \<open>Redaction\<close>

definition redactLine :: "string \<Rightarrow> string" where
  "redactLine line =
     (let s1 = rx_replace always_start (RxSeq (rx_lit ''https://accounts.google.com/'') (rx_plus (RxChar (\<lambda>c. \<not> is_space c))))
                 ''<auth-url-redacted>'' None line;
          s2 = rx_replace word_start (rx_seqs [rx_times 4 (RxChar is_digit), RxStar (RxChar is_digit), rx_lit ''/''])
                 ''4/<code-redacted>'' None s1;
          s3 = rx_replace always_start (RxSeq (rx_lit ''ya29.'') (rx_plus (RxChar token_char))) ''<oauth-token-redacted>'' None s2
      in rx_replace always_start (rx_seqs [rx_lit_i ''Bearer'', rx_plus (RxChar is_space), rx_plus (RxChar (\<lambda>c. \<not> is_space c))])
           ''Bearer <redacted>'' None s3)"

text \<open>The rule for authorization codes wants four digits before the slash; a code begins with one, and stays.\<close>

lemma code_survives_redaction: "redactLine ''code=4/0AX4XfWh_abcdefghijklmnop'' = ''code=4/0AX4XfWh_abcdefghijklmnop''"
  by code_simp

section \<open>The two tables agree\<close>

lemma overloaded_test: "rx_test (rx_lit_i ''overloaded'') [] = False"
  by code_simp

lemma anthropic_table_status: "fst (anthropic_table cd) = fst (errorStatus cd)"
  by (cases cd) simp_all

lemma anthropic_table_type:
  "snd (anthropic_table cd) = (if cd = UNKNOWN_MODEL then ''not_found_error'' else snd (errorStatus cd))"
  by (cases cd) simp_all

text \<open>No code is answered with a success or redirect status.\<close>

lemma errorStatus_is_error: "400 \<le> fst (errorStatus cd) \<and> fst (errorStatus cd) < 600"
  by (cases cd) simp_all

end
