(* ===== verification/Base64.thy ===== *)
theory Base64
  imports Json
begin

text \<open>
  Base64 as \<open>Buffer\<close> has it: \<open>to_base64\<close> is \<open>toString('base64')\<close>, three bytes to four characters with padding, and
  \<open>base64_bytes\<close> is \<open>Buffer.from(s, 'base64')\<close>, which takes both alphabets and skips every other character. Decoding
  what was encoded gives the bytes back (\<open>base64_roundtrip\<close>), and no encoded text contains a full stop.
\<close>

section \<open>Decoding\<close>

definition b64_val :: "char \<Rightarrow> nat option" where
  "b64_val c = (let n = of_char c :: nat in
     if 65 \<le> n \<and> n \<le> 90 then Some (n - 65)
     else if 97 \<le> n \<and> n \<le> 122 then Some (n - 71)
     else if 48 \<le> n \<and> n \<le> 57 then Some (n + 4)
     else if c = CHR ''+'' \<or> c = CHR ''-'' then Some 62
     else if c = CHR ''/'' \<or> c = CHR ''_'' then Some 63 else None)"

fun b64_groups :: "nat list \<Rightarrow> nat list" where
  "b64_groups (a # b # c # d # r) =
     (a * 4 + b div 16) # (b mod 16 * 16 + c div 4) # (c mod 4 * 64 + d) # b64_groups r"
| "b64_groups [a, b, c] = [a * 4 + b div 16, b mod 16 * 16 + c div 4]"
| "b64_groups [a, b] = [a * 4 + b div 16]"
| "b64_groups _ = []"

definition base64_bytes :: "string \<Rightarrow> nat list" where
  "base64_bytes s = b64_groups (map_filter_opt b64_val s)"

section \<open>Encoding\<close>

definition b64_char :: "nat \<Rightarrow> char" where
  "b64_char n = (if n < 26 then char_of (n + 65) else if n < 52 then char_of (n + 71) else if n < 62 then char_of (n - 4)
     else if n = 62 then CHR ''+'' else CHR ''/'')"

fun to_base64 :: "nat list \<Rightarrow> string" where
  "to_base64 (a # b # c # r) =
     [b64_char (a div 4), b64_char (a mod 4 * 16 + b div 16), b64_char (b mod 16 * 4 + c div 64), b64_char (c mod 64)] @ to_base64 r"
| "to_base64 [a, b] = [b64_char (a div 4), b64_char (a mod 4 * 16 + b div 16), b64_char (b mod 16 * 4), CHR ''='']"
| "to_base64 [a] = [b64_char (a div 4), b64_char (a mod 4 * 16), CHR ''='', CHR ''='']"
| "to_base64 [] = []"

definition is_bytes :: "nat list \<Rightarrow> bool" where
  "is_bytes bs = list_all (\<lambda>b. b < 256) bs"

section \<open>The round trip\<close>

lemma b64_val_char:
  assumes "n < 64"
  shows "b64_val (b64_char n) = Some n"
proof -
  consider "n < 26" | "26 \<le> n" "n < 52" | "52 \<le> n" "n < 62" | "n = 62" | "n = 63" using assms by linarith
  then show ?thesis
  proof cases
    case 1
    then have "(of_char (char_of (n + 65) :: char) :: nat) = n + 65" by simp
    with 1 show ?thesis by (simp add: b64_char_def b64_val_def)
  next
    case 2
    then have "(of_char (char_of (n + 71) :: char) :: nat) = n + 71" by simp
    with 2 show ?thesis by (simp add: b64_char_def b64_val_def)
  next
    case 3
    then have "(of_char (char_of (n - 4) :: char) :: nat) = n - 4" by simp
    moreover have "\<not> 65 \<le> n - 4" "\<not> 97 \<le> n - 4" "48 \<le> n - 4" "n - 4 \<le> 57" using 3 by linarith+
    ultimately show ?thesis using 3 by (simp add: b64_char_def b64_val_def Let_def)
  qed (simp_all add: b64_char_def b64_val_def)
qed

lemma b64_val_pad: "b64_val (CHR ''='') = None"
  by (simp add: b64_val_def)

lemma b64_char_dot: "n < 64 \<Longrightarrow> (CHR ''.'' = b64_char n) = False"
  using b64_val_char [of n] by (auto simp: b64_val_def dest!: arg_cong [of _ _ b64_val])

lemma base64_roundtrip: "is_bytes bs \<Longrightarrow> base64_bytes (to_base64 bs) = bs"
  unfolding base64_bytes_def is_bytes_def
proof (induction bs rule: to_base64.induct)
  case (1 a b c r)
  then have "a div 4 < 64" "a mod 4 * 16 + b div 16 < 64" "b mod 16 * 4 + c div 64 < 64" by auto
  with 1 show ?case by (simp add: b64_val_char) (auto simp: algebra_simps)
next
  case (2 a b)
  then have "a div 4 < 64" "a mod 4 * 16 + b div 16 < 64" "b mod 16 * 4 < 64" by auto
  with 2 show ?case by (simp add: b64_val_char b64_val_pad) (auto simp: algebra_simps)
qed (auto simp: b64_val_char b64_val_pad)

lemma to_base64_dot: "is_bytes bs \<Longrightarrow> CHR ''.'' \<notin> set (to_base64 bs)"
  unfolding is_bytes_def
proof (induction bs rule: to_base64.induct)
  case (1 a b c r)
  then have "a div 4 < 64" "a mod 4 * 16 + b div 16 < 64" "b mod 16 * 4 + c div 64 < 64" "c mod 64 < 64" by auto
  with 1 show ?case by (simp add: b64_char_dot)
next
  case (2 a b)
  then have "a div 4 < 64" "a mod 4 * 16 + b div 16 < 64" "b mod 16 * 4 < 64" by auto
  then show ?case by (simp add: b64_char_dot)
qed (simp_all add: b64_char_dot)

end
