(* ===== verification/OpenAI.thy ===== *)
theory OpenAI
  imports Errors Prompt Base64
begin

text \<open>
  The request half of the OpenAI adapter, \<open>src/server/openai-adapter.ts\<close>: a chat-completions body becomes
  an engine call and the metadata of the response, or an HTTP error.

  A body is a value of \<open>json\<close>. Everything that throws returns \<open>Inl\<close> of the error. A lookup in an object
  literal with a client-supplied key also finds the members every object inherits; such a member is carried
  as its string form. \<open>Buffer.from(s, 'base64')\<close> accepts both alphabets and skips other characters.
\<close>

section \<open>Errors as values\<close>

fun ebind :: "'e + 'a \<Rightarrow> ('a \<Rightarrow> 'e + 'b) \<Rightarrow> 'e + 'b" where
  "ebind (Inl e) f = Inl e"
| "ebind (Inr x) f = f x"

lemma ebind_Inr: "ebind m f = Inr y \<longleftrightarrow> (\<exists>x. m = Inr x \<and> f x = Inr y)"
  by (cases m) auto

lemma ebind_Inl: "ebind m f = Inl e \<longleftrightarrow> m = Inl e \<or> (\<exists>x. m = Inr x \<and> f x = Inl e)"
  by (cases m) auto

definition throw_if :: "bool \<Rightarrow> 'e \<Rightarrow> 'e + unit" where
  "throw_if c e = (if c then Inl e else Inr ())"

lemma throw_if_iff [simp]: "throw_if c e = Inr u \<longleftrightarrow> \<not> c" "throw_if c e = Inl x \<longleftrightarrow> c \<and> x = e"
  by (auto simp: throw_if_def)

text \<open>\<open>outcome E Q m\<close>: a computation that throws only errors in \<open>E\<close> and returns only results in \<open>Q\<close>.\<close>

definition outcome :: "('e \<Rightarrow> bool) \<Rightarrow> ('a \<Rightarrow> bool) \<Rightarrow> 'e + 'a \<Rightarrow> bool" where
  "outcome E Q m = (case m of Inl e \<Rightarrow> E e | Inr x \<Rightarrow> Q x)"

lemma outcome_bind:
  "outcome E R m \<Longrightarrow> (\<And>x. m = Inr x \<Longrightarrow> R x \<Longrightarrow> outcome E Q (f x)) \<Longrightarrow> outcome E Q (ebind m f)"
  by (cases m) (auto simp: outcome_def)

lemma outcome_throw_if: "(c \<Longrightarrow> E e) \<Longrightarrow> outcome E (\<lambda>_. \<not> c) (throw_if c e)"
  by (auto simp: outcome_def throw_if_def)

lemma outcome_Inr: "Q x \<Longrightarrow> outcome E Q (Inr x)"
  by (simp add: outcome_def)

lemma outcomeI: "(\<And>e. m = Inl e \<Longrightarrow> E e) \<Longrightarrow> (\<And>x. m = Inr x \<Longrightarrow> Q x) \<Longrightarrow> outcome E Q m"
  by (cases m) (auto simp: outcome_def)

section \<open>Inherited members\<close>

text \<open>The members of \<open>Object.prototype\<close>, each with its string form.\<close>

definition native :: "string \<Rightarrow> string" where
  "native f = ''function '' @ f @ ''() { [native code] }''"

definition inherited :: "(string \<times> string) list" where
  "inherited = (''constructor'', native ''Object'') # (''__proto__'', ''[object Object]'') #
     map (\<lambda>f. (f, native f)) [''__defineGetter__'', ''__defineSetter__'', ''hasOwnProperty'', ''__lookupGetter__'',
       ''__lookupSetter__'', ''isPrototypeOf'', ''propertyIsEnumerable'', ''toString'', ''valueOf'', ''toLocaleString'']"

section \<open>Request metadata\<close>

type_synonym image_bytes = "(string, nat list) jsmap"

record request_meta =
  warnings :: "string list"
  maxTokens :: "int option"
  stop :: "string list"
  imageBytes :: image_bytes
  includeUsage :: bool
  stream :: bool

section \<open>Effort and content\<close>

definition bad :: "string \<Rightarrow> http_error" where
  "bad msg = httpError 400 msg ''invalid_request_error'' ''invalid_request''"

text \<open>
  \<open>String(v)\<close> inside the mapping: the \<open>TypeError\<close> it may throw is no \<open>GatewayHttpError\<close>, and the value stands for
  what the shared error handler answers.
\<close>

definition text_error :: http_error where
  "text_error = gatewayHttpError 500
     (openAiError (''Internal server error: '' @ redactLine no_primitive) ''api_error'' ''internal_error'') None"

definition js_text :: "json option \<Rightarrow> http_error + string" where
  "js_text v = (case js_string_opt v of Some s \<Rightarrow> Inr s | None \<Rightarrow> Inl text_error)"

definition EFFORT_MAP :: "(string \<times> string option) list" where
  "EFFORT_MAP = [(''none'', None), (''minimal'', Some ''low''), (''low'', Some ''low''), (''medium'', Some ''medium''),
     (''high'', Some ''high''), (''xhigh'', Some ''high''), (''max'', Some ''high'')]"

fun mapEffort :: "json option \<Rightarrow> http_error + string option" where
  "mapEffort None = Inr None"
| "mapEffort (Some JNull) = Inr None"
| "mapEffort (Some (JStr e)) =
     (case map_of EFFORT_MAP e of
        Some v \<Rightarrow> Inr v
      | None \<Rightarrow>
          (case map_of inherited e of
             Some v \<Rightarrow> Inr (Some v)
           | None \<Rightarrow> Inl (bad ''reasoning_effort must be one of none, minimal, low, medium, high, xhigh, max'')))"
| "mapEffort (Some _) = Inl (bad ''reasoning_effort must be one of none, minimal, low, medium, high, xhigh, max'')"

definition text_part :: "string \<Rightarrow> json \<Rightarrow> http_error + string" where
  "text_part role part =
     (if \<not> is_object (Some part) then Inl (bad (role @ '' content part must be an object''))
      else if jget part ''type'' = Some (JStr ''text'') then
        (case as_str (jget part ''text'') of
           Some t \<Rightarrow> Inr t
         | None \<Rightarrow> Inl (bad (role @ '' text part must carry a string `text`'')))
      else if jget part ''type'' = Some (JStr ''image_url'')
      then Inl (bad (role @ '' image_url parts are only supported on user messages''))
      else if jget part ''type'' = Some (JStr ''input_audio'') then Inl (bad ''audio input is not supported by this gateway'')
      else ebind (js_text (jget part ''type'')) (\<lambda>ty. Inl (bad (''unsupported '' @ role @ '' content part type: '' @ ty))))"

fun text_parts :: "string \<Rightarrow> json list \<Rightarrow> http_error + string list" where
  "text_parts role [] = Inr []"
| "text_parts role (p # ps) = ebind (text_part role p) (\<lambda>t. ebind (text_parts role ps) (\<lambda>ts. Inr (t # ts)))"

fun contentToText :: "json option \<Rightarrow> string \<Rightarrow> http_error + string" where
  "contentToText None role = Inr []"
| "contentToText (Some JNull) role = Inr []"
| "contentToText (Some (JStr s)) role = Inr s"
| "contentToText (Some (JArr ps)) role = ebind (text_parts role ps) (\<lambda>ts. Inr (concat ts))"
| "contentToText (Some _) role = Inl (bad (role @ '' content must be a string or an array of content parts''))"

definition IMAGE_MIME :: "(string \<times> string) list" where
  "IMAGE_MIME = map (\<lambda>t. (t, t)) [''image/png'', ''image/jpeg'', ''image/webp'', ''image/gif'']"

text \<open>\<open>IMAGE_MIME[mime]\<close>.\<close>

definition image_mime :: "string \<Rightarrow> string option" where
  "image_mime mime = coalesce (map_of IMAGE_MIME mime) (map_of inherited mime)"

definition bare_base64 :: "string \<Rightarrow> bool" where
  "bare_base64 url = (url \<noteq> [] \<and> list_all (\<lambda>c. (let n = of_char c :: nat in
     (65 \<le> n \<and> n \<le> 90) \<or> (97 \<le> n \<and> n \<le> 122) \<or> is_digit c \<or> c \<in> set ''+/='' \<or> is_space c)) url)"

text \<open>The name and the staged bytes of one more image.\<close>

definition stage_image :: "string \<Rightarrow> nat list \<Rightarrow> image_bytes \<Rightarrow> engine_image \<times> image_bytes" where
  "stage_image media bytes ib =
     (let name = ''img-'' @ show_nat (length ib + 1)
      in (\<lparr>img_name = Some name, mediaType = media, img_bytes = length bytes\<rparr>, jm_set name bytes ib))"

definition data_url_rest :: "string \<Rightarrow> http_error + string" where
  "data_url_rest url =
     (if starts_with url ''data:'' then Inr (drop 5 url)
      else if \<not> bare_base64 url
      then Inl (bad (''image_url must be a data: URL (http(s) URLs are not fetched by this gateway '' @ em_dash @ '' see docs)''))
      else Inr (''image/png;base64,'' @ filter (\<lambda>c. \<not> is_space c) url))"

definition decode_payload :: "string \<Rightarrow> string \<Rightarrow> image_bytes \<Rightarrow> http_error + engine_image \<times> image_bytes" where
  "decode_payload meta payload ib =
     (let mime = takeWhile (\<lambda>c. c \<noteq> CHR '';'') meta
      in case image_mime mime of
           None \<Rightarrow> Inl (bad (''unsupported image media type '' @ [CHR 0x27] @ mime @ [CHR 0x27] @ '' '' @ em_dash @
                    '' supported: image/png, image/jpeg, image/webp, image/gif''))
         | Some media \<Rightarrow>
             if \<not> str_includes meta ''base64'' then Inl (bad ''image_url data: URL must be base64-encoded'')
             else if base64_bytes payload = [] then Inl (bad ''image_url base64 payload is empty'')
             else Inr (stage_image media (base64_bytes payload) ib))"

definition decodeDataImageUrl :: "string \<Rightarrow> image_bytes \<Rightarrow> http_error + engine_image \<times> image_bytes" where
  "decodeDataImageUrl url ib =
     ebind (data_url_rest url) (\<lambda>rest.
       let (head, payload) = split_at (\<lambda>c. c = CHR '','') rest
       in case payload of
            None \<Rightarrow> Inl (bad ''image_url data: URL must carry base64 payload'')
          | Some p \<Rightarrow> decode_payload (to_lower head) p ib)"

fun user_parts :: "json list \<Rightarrow> image_bytes \<Rightarrow> http_error + string list \<times> engine_image list \<times> image_bytes" where
  "user_parts [] ib = Inr ([], [], ib)"
| "user_parts (part # ps) ib =
     (if \<not> is_object (Some part) then Inl (bad ''user content part must be an object'')
      else if jget part ''type'' = Some (JStr ''text'') then
        (case as_str (jget part ''text'') of
           Some t \<Rightarrow> ebind (user_parts ps ib) (\<lambda>(ts, is, ib1). Inr (t # ts, is, ib1))
         | None \<Rightarrow> Inl (bad ''user text part must carry a string `text`''))
      else if jget part ''type'' = Some (JStr ''image_url'') then
        (case as_str (Option.bind (jget part ''image_url'') (\<lambda>iu. jget iu ''url'')) of
           Some url \<Rightarrow> ebind (decodeDataImageUrl url ib) (\<lambda>(i, ib0).
             ebind (user_parts ps ib0) (\<lambda>(ts, is, ib1). Inr (ts, i # is, ib1)))
         | None \<Rightarrow> Inl (bad ''image_url part must carry image_url.url''))
      else if jget part ''type'' = Some (JStr ''input_audio'') then Inl (bad ''audio input is not supported by this gateway'')
      else ebind (js_text (jget part ''type'')) (\<lambda>ty. Inl (bad (''unsupported user content part type: '' @ ty))))"

fun contentToTextAndImages :: "json option \<Rightarrow> image_bytes \<Rightarrow> http_error + string \<times> engine_image list \<times> image_bytes" where
  "contentToTextAndImages None ib = Inr ([], [], ib)"
| "contentToTextAndImages (Some JNull) ib = Inr ([], [], ib)"
| "contentToTextAndImages (Some (JStr s)) ib = Inr (s, [], ib)"
| "contentToTextAndImages (Some (JArr ps)) ib = ebind (user_parts ps ib) (\<lambda>(ts, is, ib1). Inr (concat ts, is, ib1))"
| "contentToTextAndImages (Some _) ib = Inl (bad ''user content must be a string or an array of content parts'')"

section \<open>Releasing the image payloads\<close>

fun jset :: "string \<Rightarrow> json \<Rightarrow> json \<Rightarrow> json" where
  "jset k v (JObj kvs) = JObj (jm_set k v kvs)"
| "jset k v j = j"

text \<open>Rewriting the array under one key of an object, where there is one.\<close>

definition update_items :: "string \<Rightarrow> (json \<Rightarrow> json) \<Rightarrow> json \<Rightarrow> json" where
  "update_items k f j =
     (case as_arr (jget j k) of Some xs \<Rightarrow> jset k (JArr (map f xs)) j | None \<Rightarrow> j)"

definition release_part :: "json \<Rightarrow> json" where
  "release_part part =
     (if jget part ''type'' = Some (JStr ''image_url'') \<and> is_object (jget part ''image_url'')
      then jset ''image_url'' (jset ''url'' (JStr []) (or_else (jget part ''image_url'') JNull)) part
      else part)"

definition releaseBodyImageData :: "json \<Rightarrow> json" where
  "releaseBodyImageData b = update_items ''messages'' (update_items ''content'' release_part) b"

section \<open>The request\<close>

definition unknown_model :: "string \<Rightarrow> catalog \<Rightarrow> bool" where
  "unknown_model model cat =
     (cat_source cat = Discovered \<and> findEntry cat model = None \<and> resolveModelSlug model = model)"

definition not_found_text :: "string \<Rightarrow> catalog \<Rightarrow> string" where
  "not_found_text model cat =
     ''model '' @ [CHR 0x27] @ model @ [CHR 0x27] @ '' was not found by this gateway '' @ em_dash @
     '' available models: '' @ join '', '' (map entry_id (cat_models cat))"

definition request_model :: "(string \<Rightarrow> http_error) \<Rightarrow> json \<Rightarrow> gateway_config \<Rightarrow> http_error + string" where
  "request_model err b cfg =
     (let model = or_else (as_str (jget b ''model'')) (defaultModel cfg) in
      ebind (throw_if (jget b ''model'' \<noteq> None \<and> as_str (jget b ''model'') = None) (err ''model must be a string'')) (\<lambda>_.
      ebind (throw_if (\<exists>s \<in> set_option (as_str (jget b ''model'')). trim s = []) (err ''model must be a non-empty string'')) (\<lambda>_.
      ebind (throw_if (model = []) (err ''model is required'')) (\<lambda>_. Inr model))))"

record chat_acc =
  acc_messages :: "engine_message list"
  acc_system :: "string list"
  acc_images :: image_bytes

definition plain_message :: "role \<Rightarrow> string \<Rightarrow> engine_message" where
  "plain_message r t = \<lparr>msg_role = r, msg_text = t, images = [], toolCallId = None, provider = None\<rparr>"

definition push_message :: "engine_message \<Rightarrow> chat_acc \<Rightarrow> chat_acc" where
  "push_message m acc = acc\<lparr>acc_messages := acc_messages acc @ [m]\<rparr>"

definition chat_message :: "json \<Rightarrow> chat_acc \<Rightarrow> http_error + chat_acc" where
  "chat_message m acc =
     (if \<not> is_object (Some m) then Inl (bad ''each message must be an object'')
      else if jget m ''role'' = Some (JStr ''system'') \<or> jget m ''role'' = Some (JStr ''developer'') then
        ebind (js_text (jget m ''role'')) (\<lambda>role.
        ebind (contentToText (jget m ''content'') role) (\<lambda>t.
          Inr (acc\<lparr>acc_system := acc_system acc @ [t]\<rparr>)))
      else if jget m ''role'' = Some (JStr ''user'') then
        (if jget m ''tool_calls'' \<noteq> None then Inl (bad ''user messages cannot carry tool_calls'')
         else ebind (contentToTextAndImages (jget m ''content'') (acc_images acc)) (\<lambda>(t, is, ib).
           Inr (push_message ((plain_message RUser t)\<lparr>images := is\<rparr>) (acc\<lparr>acc_images := ib\<rparr>))))
      else if jget m ''role'' = Some (JStr ''assistant'') then
        ebind (contentToText (jget m ''content'') ''assistant'') (\<lambda>t. Inr (push_message (plain_message RAssistant t) acc))
      else if jget m ''role'' = Some (JStr ''tool'') then
        (case as_str (jget m ''tool_call_id'') of
           Some callId \<Rightarrow>
             if parseMirrorCallId callId = None
             then Inl (bad (''tool messages are only accepted as continuations of this gateway'' @ [CHR 0x27] @ ''s own tool calls (agytc- cursor)''))
             else ebind (contentToText (jget m ''content'') ''tool'') (\<lambda>t.
               Inr (push_message ((plain_message RTool t)\<lparr>toolCallId := Some callId\<rparr>) acc))
         | None \<Rightarrow> Inl (bad (''tool messages are only accepted as continuations of this gateway'' @ [CHR 0x27] @ ''s own tool calls (agytc- cursor)'')))
      else if jget m ''role'' = Some (JStr ''function'')
      then Inl (bad (''the legacy function role is not supported '' @ em_dash @ '' use tools in M2''))
      else ebind (js_text (jget m ''role'')) (\<lambda>role. Inl (bad (''unsupported message role: '' @ role))))"

fun chat_messages :: "json list \<Rightarrow> chat_acc \<Rightarrow> http_error + chat_acc" where
  "chat_messages [] acc = Inr acc"
| "chat_messages (m # ms) acc = ebind (chat_message m acc) (chat_messages ms)"

definition positive_int :: "json option \<Rightarrow> int option" where
  "positive_int v = (case as_num v of Some n \<Rightarrow> if is_integer n \<and> n > 0 then Some \<lfloor>n\<rfloor> else None | None \<Rightarrow> None)"

definition chat_max_tokens :: "json \<Rightarrow> http_error + int option \<times> string list" where
  "chat_max_tokens b =
     (if jget b ''max_completion_tokens'' \<noteq> None then
        (case positive_int (jget b ''max_completion_tokens'') of
           None \<Rightarrow> Inl (bad ''max_completion_tokens must be a positive integer'')
         | Some n \<Rightarrow> Inr (Some n, if jget b ''max_tokens'' \<noteq> None
             then [''both max_tokens and max_completion_tokens were sent; max_completion_tokens wins''] else []))
      else if jget b ''max_tokens'' \<noteq> None then
        (case positive_int (jget b ''max_tokens'') of
           None \<Rightarrow> Inl (bad ''max_tokens must be a positive integer'')
         | Some n \<Rightarrow> Inr (Some n, [''max_tokens is deprecated by OpenAI; prefer max_completion_tokens'']))
      else Inr (None, []))"

definition IGNORED_PARAMS :: "string list" where
  "IGNORED_PARAMS = [''temperature'', ''top_p'', ''frequency_penalty'', ''presence_penalty'', ''seed'', ''logprobs'',
     ''top_logprobs'', ''service_tier'', ''store'', ''parallel_tool_calls'', ''logit_bias'', ''verbosity'', ''modalities'',
     ''prediction'', ''top_k'']"

definition ignored_warnings :: "string list \<Rightarrow> json \<Rightarrow> string list" where
  "ignored_warnings ks b =
     map (\<lambda>k. k @ '' is accepted but not forwarded (agy has no corresponding knob)'') (filter (\<lambda>k. jget b k \<noteq> None) ks)"

definition stop_strings :: "json list \<Rightarrow> string list option" where
  "stop_strings ss =
     (if list_all (\<lambda>s. \<exists>t \<in> set_option (as_str (Some s)). t \<noteq> []) ss then Some (map_filter_opt (\<lambda>s. as_str (Some s)) ss) else None)"

fun chat_stop :: "json option \<Rightarrow> http_error + string list" where
  "chat_stop None = Inr []"
| "chat_stop (Some JNull) = Inr []"
| "chat_stop (Some (JStr s)) = (if s = [] then Inl (bad ''stop must not be an empty string'') else Inr [s])"
| "chat_stop (Some (JArr ss)) =
     (if length ss > 4 then Inl (bad ''stop accepts at most 4 sequences'')
      else case stop_strings ss of
             None \<Rightarrow> Inl (bad ''stop sequences must be non-empty strings'')
           | Some st \<Rightarrow> Inr st)"
| "chat_stop (Some _) = Inl (bad ''stop must be a string or an array of strings'')"

text \<open>The system prompt part, the schema and the warning of \<open>response_format\<close>.\<close>

definition chat_format :: "json option \<Rightarrow> http_error + string list \<times> json option \<times> string list" where
  "chat_format v =
     (case v of
        None \<Rightarrow> Inr ([], None, [])
      | Some JNull \<Rightarrow> Inr ([], None, [])
      | Some rf \<Rightarrow>
          if jget rf ''type'' = Some (JStr ''json_object'') then
            Inr ([''Respond with a single valid JSON document and nothing else.''], None,
                 [''response_format json_object is best-effort: enforced by prompt instruction only, output validity is not a hard guarantee''])
          else if jget rf ''type'' = Some (JStr ''json_schema'') then
            (let schema = Option.bind (jget rf ''json_schema'') (\<lambda>js. jget js ''schema'')
             in if \<not> is_object schema then Inl (bad ''response_format json_schema requires json_schema.schema'')
                else Inr ([], schema, []))
          else if jget rf ''type'' = Some (JStr ''text'') then Inr ([], None, [])
          else ebind (js_text (jget rf ''type'')) (\<lambda>ty. Inl (bad (''unsupported response_format type: '' @ ty))))"

definition chat_include_usage :: "json option \<Rightarrow> http_error + bool" where
  "chat_include_usage v =
     (case v of
        None \<Rightarrow> Inr False
      | Some so \<Rightarrow>
          if \<not> is_object v \<or> (jget so ''include_usage'' \<noteq> None \<and> as_bool (jget so ''include_usage'') = None)
          then Inl (bad ''stream_options must be an object with an optional boolean include_usage'')
          else Inr (jget so ''include_usage'' = Some (JBool True)))"

definition non_empty_items :: "json option \<Rightarrow> bool" where
  "non_empty_items v = (case as_arr v of Some xs \<Rightarrow> xs \<noteq> [] | None \<Rightarrow> False)"

definition tool_warnings :: "json \<Rightarrow> string list" where
  "tool_warnings b =
     (if non_empty_items (jget b ''tools'')
      then [''tools were accepted but are not executed by this gateway (agy runs its own tool loop); tool_calls in responses mirror agy activity'']
      else []) @
     (if jget b ''tool_choice'' \<noteq> None
      then [''tool_choice is accepted but not forwarded (client tool definitions are not executed)''] else [])"

definition metadata_warnings :: "json \<Rightarrow> string list" where
  "metadata_warnings b =
     (if jget b ''metadata'' \<noteq> None \<or> jget b ''user'' \<noteq> None \<or> jget b ''safety_identifier'' \<noteq> None
      then [''metadata/user/safety_identifier are logged context only '' @ em_dash @ '' never forwarded upstream''] else [])"

definition new_call :: "string \<Rightarrow> engine_message list \<Rightarrow> string option \<Rightarrow> string option \<Rightarrow> json option \<Rightarrow> engine_call" where
  "new_call model ms effort sys schema = \<lparr>call_model = model, reasoningEffort = effort, messages = ms,
     system_prompt = sys, sessionKey = None, jsonSchema = schema, keyId = None\<rparr>"

definition mapChatRequest :: "json option \<Rightarrow> gateway_config \<Rightarrow> catalog option \<Rightarrow> http_error + engine_call \<times> request_meta \<times> json" where
  "mapChatRequest body cfg cat =
     (let b = or_else body JNull in
      ebind (throw_if (\<not> is_object body) (bad ''request body must be a JSON object'')) (\<lambda>_.
      ebind (throw_if (jget b ''stream'' \<noteq> None \<and> as_bool (jget b ''stream'') = None) (bad ''stream must be a boolean'')) (\<lambda>_.
      ebind (request_model bad b cfg) (\<lambda>model.
      ebind (throw_if (\<exists>c \<in> set_option cat. unknown_model model c)
        (gatewayHttpError 404 (openAiError (not_found_text model (the cat)) ''invalid_request_error'' ''model_not_found'') None)) (\<lambda>_.
      ebind (throw_if (\<not> non_empty_items (jget b ''messages'')) (bad ''messages must be a non-empty array'')) (\<lambda>_.
      ebind (chat_messages (or_else (as_arr (jget b ''messages'')) []) \<lparr>acc_messages = [], acc_system = [], acc_images = []\<rparr>) (\<lambda>acc.
      ebind (throw_if (jget b ''functions'' \<noteq> None \<or> jget b ''function_call'' \<noteq> None)
        (bad (''the legacy functions API is not supported '' @ em_dash @ '' use tools''))) (\<lambda>_.
      ebind (throw_if (\<exists>n \<in> set_option (as_num (jget b ''n'')). n > 1) (bad ''n > 1 is not supported (single candidate only)'')) (\<lambda>_.
      ebind (mapEffort (jget b ''reasoning_effort'')) (\<lambda>effort.
      ebind (chat_max_tokens b) (\<lambda>(client_max, max_warnings).
      ebind (throw_if (jget b ''temperature'' \<noteq> None \<and> as_num (jget b ''temperature'') = None) (bad ''temperature must be a number'')) (\<lambda>_.
      ebind (throw_if (jget b ''top_p'' \<noteq> None \<and> as_num (jget b ''top_p'') = None) (bad ''top_p must be a number'')) (\<lambda>_.
      ebind (chat_stop (jget b ''stop'')) (\<lambda>stops.
      ebind (chat_format (jget b ''response_format'')) (\<lambda>(format_system, schema, format_warnings).
      ebind (chat_include_usage (jget b ''stream_options'')) (\<lambda>usage_frame.
      let systemParts = acc_system acc @ format_system in
      Inr (new_call model (acc_messages acc) effort
             (if systemParts \<noteq> [] then Some (join (nl @ nl) systemParts) else None) schema,
           \<lparr>warnings = tool_warnings b @ max_warnings @ ignored_warnings IGNORED_PARAMS b @ format_warnings @ metadata_warnings b,
             maxTokens = resolveEffectiveMaxTokens client_max \<lfloor>maxTokensDefault cfg\<rfloor>, stop = stops,
             imageBytes = acc_images acc, includeUsage = usage_frame, stream = (jget b ''stream'' = Some (JBool True))\<rparr>,
           releaseBodyImageData b)))))))))))))))))"

section \<open>What an accepted request looks like\<close>

text \<open>\<open>client_error e\<close>: a 400 or a 404 in the OpenAI error shape.\<close>

definition client_error :: "http_error \<Rightarrow> bool" where
  "client_error e = ((statusCode e = 400 \<or> statusCode e = 404) \<and>
     (\<exists>msg cd. err_body e = OpenAiErrorBody msg ''invalid_request_error'' cd) \<and> err_headers e = None)"

lemma client_error_bad [simp]: "client_error (bad msg)"
  by (simp add: client_error_def bad_def httpError_def gatewayHttpError_def openAiError_def)

text \<open>
  \<open>chat_error vs e\<close>: a client error, or the 500 of the shared handler, the latter only where one of the values \<open>vs\<close>
  that the mapping prints has no string form.
\<close>

definition chat_error :: "json option list \<Rightarrow> http_error \<Rightarrow> bool" where
  "chat_error vs e = (client_error e \<or> e = text_error \<and> list_ex unprintable vs)"

lemma chat_error_client: "client_error e \<Longrightarrow> chat_error vs e"
  by (simp add: chat_error_def)

lemma chat_error_bad [simp]: "chat_error vs (bad msg)"
  by (rule chat_error_client) simp

lemma chat_error_mono: "chat_error vs e \<Longrightarrow> set vs \<subseteq> set ws \<Longrightarrow> chat_error ws e"
  by (auto simp: chat_error_def list_ex_iff)

lemma js_text_error: "js_text v = Inl e \<Longrightarrow> v \<in> set vs \<Longrightarrow> chat_error vs e"
  by (auto simp: js_text_def chat_error_def list_ex_iff unprintable_def split: option.splits)

text \<open>What the mapping of a message prints: its role, and the types of its content parts.\<close>

definition content_types :: "json option \<Rightarrow> json option list" where
  "content_types c = map (\<lambda>p. jget p ''type'') (or_else (as_arr c) [])"

definition printed_values :: "json \<Rightarrow> json option list" where
  "printed_values m = jget m ''role'' # content_types (jget m ''content'')"

text \<open>Staged images are numbered from one, in order, and none is empty.\<close>

definition img_key :: "nat \<Rightarrow> string" where
  "img_key k = ''img-'' @ show_nat (k + 1)"

definition staged :: "image_bytes \<Rightarrow> bool" where
  "staged ib = (map fst ib = map img_key [0..<length ib] \<and> (\<forall>e \<in> set ib. snd e \<noteq> []))"

definition image_refs :: "image_bytes \<Rightarrow> (string option \<times> nat) list" where
  "image_refs ib = map (\<lambda>e. (Some (fst e), length (snd e))) ib"

definition ref_of :: "engine_image \<Rightarrow> string option \<times> nat" where
  "ref_of i = (img_name i, img_bytes i)"

lemma img_key_inj: "img_key i = img_key j \<Longrightarrow> i = j"
  using read_show_nat [of "i + 1"] read_show_nat [of "j + 1"] by (simp add: img_key_def)

lemma staged_fresh: "staged ib \<Longrightarrow> img_key (length ib) \<notin> fst ` set ib"
proof -
  assume "staged ib"
  then have "fst ` set ib = img_key ` {0..<length ib}" by (metis staged_def set_map set_upt)
  then show ?thesis by (auto dest: img_key_inj)
qed

lemma stage_image_staged:
  assumes "stage_image media bytes ib = (i, ib1)" "staged ib" "bytes \<noteq> []"
  shows "staged ib1 \<and> image_refs ib1 = image_refs ib @ [ref_of i]"
  using assms staged_fresh [OF assms(2)]
  by (auto simp: stage_image_def Let_def jm_set_fresh img_key_def [symmetric, simplified] staged_def image_refs_def ref_of_def)

lemma decode_payload_staged:
  "decode_payload meta payload ib = Inr (i, ib1) \<Longrightarrow> staged ib \<Longrightarrow>
     staged ib1 \<and> image_refs ib1 = image_refs ib @ [ref_of i]"
  by (auto simp: decode_payload_def Let_def stage_image_staged split: option.splits if_splits)

lemma decodeDataImageUrl_staged:
  "decodeDataImageUrl url ib = Inr (i, ib1) \<Longrightarrow> staged ib \<Longrightarrow>
     staged ib1 \<and> image_refs ib1 = image_refs ib @ [ref_of i]"
  by (auto simp: decodeDataImageUrl_def ebind_Inr Let_def case_prod_unfold split: option.split_asm dest: decode_payload_staged)

lemma decode_payload_error: "decode_payload meta payload ib = Inl e \<Longrightarrow> client_error e"
  by (auto simp: decode_payload_def Let_def split: option.splits if_splits)

lemma data_url_rest_error: "data_url_rest url = Inl e \<Longrightarrow> client_error e"
  by (auto simp: data_url_rest_def split: if_splits)

lemma decodeDataImageUrl_error: "decodeDataImageUrl url ib = Inl e \<Longrightarrow> client_error e"
  by (auto simp: decodeDataImageUrl_def ebind_Inl Let_def case_prod_unfold split: option.split_asm
      dest: decode_payload_error data_url_rest_error)

lemma user_parts_staged:
  "user_parts ps ib = Inr (ts, is, ib1) \<Longrightarrow> staged ib \<Longrightarrow>
     staged ib1 \<and> image_refs ib1 = image_refs ib @ map ref_of is"
proof (induction ps arbitrary: ib ts "is")
  case (Cons p ps)
  from Cons.prems(1) show ?case
    by (auto simp: ebind_Inr split: if_splits option.splits
        dest!: decodeDataImageUrl_staged [OF _ Cons.prems(2)] dest: Cons.IH Cons.IH [OF _ Cons.prems(2)])
qed simp

lemma user_parts_error: "user_parts ps ib = Inl e \<Longrightarrow> chat_error (map (\<lambda>p. jget p ''type'') ps) e"
proof (induction ps arbitrary: ib)
  case (Cons p ps)
  have tail: "user_parts ps ib1 = Inl e \<Longrightarrow> chat_error (map (\<lambda>p. jget p ''type'') (p # ps)) e" for ib1
    by (drule Cons.IH) (auto elim: chat_error_mono)
  from Cons.prems show ?case
    by (auto simp: ebind_Inl split: if_splits option.splits
        dest: decodeDataImageUrl_error [THEN chat_error_client] tail js_text_error simp del: list.map)
      (auto intro: js_text_error)
qed simp

lemma text_part_error: "text_part role p = Inl e \<Longrightarrow> chat_error [jget p ''type''] e"
  by (auto simp: text_part_def ebind_Inl intro: js_text_error split: if_splits option.splits)

lemma text_parts_error: "text_parts role ps = Inl e \<Longrightarrow> chat_error (map (\<lambda>p. jget p ''type'') ps) e"
proof (induction ps)
  case (Cons p ps)
  from Cons.prems consider "text_part role p = Inl e" | "text_parts role ps = Inl e" by (auto simp: ebind_Inl)
  then show ?case
    by cases (auto dest!: text_part_error Cons.IH elim!: chat_error_mono)
qed simp

lemma contentToText_error: "contentToText c role = Inl e \<Longrightarrow> chat_error (content_types c) e"
  by (cases "(c, role)" rule: contentToText.cases) (auto simp: ebind_Inl content_types_def dest: text_parts_error)

lemma contentToTextAndImages_error: "contentToTextAndImages c ib = Inl e \<Longrightarrow> chat_error (content_types c) e"
  by (cases "(c, ib)" rule: contentToTextAndImages.cases) (auto simp: ebind_Inl content_types_def dest: user_parts_error)

lemma contentToTextAndImages_staged:
  "contentToTextAndImages c ib = Inr (t, is, ib1) \<Longrightarrow> staged ib \<Longrightarrow>
     staged ib1 \<and> image_refs ib1 = image_refs ib @ map ref_of is"
  by (cases "(c, ib)" rule: contentToTextAndImages.cases) (auto simp: ebind_Inr dest: user_parts_staged)

text \<open>Messages the engine accepts: roles, images on user turns only, tool results with a cursor.\<close>

definition message_ok :: "engine_message \<Rightarrow> bool" where
  "message_ok m = (msg_role m \<noteq> RSystem \<and> (images m \<noteq> [] \<longrightarrow> msg_role m = RUser) \<and>
     (msg_role m = RTool \<longleftrightarrow> toolCallId m \<noteq> None) \<and> (\<forall>c \<in> set_option (toolCallId m). parseMirrorCallId c \<noteq> None))"

definition acc_ok :: "chat_acc \<Rightarrow> bool" where
  "acc_ok acc = (list_all message_ok (acc_messages acc) \<and> staged (acc_images acc) \<and>
     image_refs (acc_images acc) = map ref_of (concat (map images (acc_messages acc))))"

lemma chat_message_ok: "chat_message m acc = Inr acc1 \<Longrightarrow> acc_ok acc \<Longrightarrow> acc_ok acc1"
  by (auto simp: chat_message_def ebind_Inr acc_ok_def push_message_def plain_message_def message_ok_def
      split: if_splits option.splits dest!: contentToTextAndImages_staged)

lemma chat_message_error: "chat_message m acc = Inl e \<Longrightarrow> chat_error (printed_values m) e"
  by (auto simp: chat_message_def ebind_Inl printed_values_def intro: js_text_error split: if_splits option.splits
      dest!: contentToText_error contentToTextAndImages_error elim!: chat_error_mono)

lemma chat_messages_ok: "chat_messages ms acc = Inr acc1 \<Longrightarrow> acc_ok acc \<Longrightarrow> acc_ok acc1"
  by (induction ms arbitrary: acc) (auto simp: ebind_Inr dest: chat_message_ok)

lemma chat_messages_error: "chat_messages ms acc = Inl e \<Longrightarrow> chat_error (concat (map printed_values ms)) e"
proof (induction ms arbitrary: acc)
  case (Cons m ms)
  from Cons.prems consider "chat_message m acc = Inl e" | acc1 where "chat_messages ms acc1 = Inl e" by (auto simp: ebind_Inl)
  then show ?case by cases (auto dest!: chat_message_error Cons.IH elim!: chat_error_mono)
qed simp

definition stops_ok :: "string list \<Rightarrow> bool" where
  "stops_ok ss = (length ss \<le> 4 \<and> list_all (\<lambda>s. s \<noteq> []) ss)"

lemma length_map_filter_opt: "length (map_filter_opt f xs) \<le> length xs"
  by (induction xs) (auto split: option.splits)

lemma stop_strings_ok: "stop_strings ss = Some st \<Longrightarrow> length ss \<le> 4 \<Longrightarrow> stops_ok st"
  using length_map_filter_opt [of "\<lambda>s. as_str (Some s)" ss]
  by (fastforce simp: stop_strings_def stops_ok_def list_all_iff set_map_filter_opt split: if_splits)

lemma chat_stop_ok: "chat_stop v = Inr st \<Longrightarrow> stops_ok st"
  by (cases v rule: chat_stop.cases) (auto simp: stops_ok_def [of "[]"] stops_ok_def [of "[s]" for s]
      intro: stop_strings_ok split: if_splits option.splits)

lemma chat_stop_error: "chat_stop v = Inl e \<Longrightarrow> client_error e"
  by (cases v rule: chat_stop.cases) (auto split: if_splits option.splits)

definition budget_ok :: "gateway_config \<Rightarrow> int option \<Rightarrow> bool" where
  "budget_ok cfg mt =
     (case mt of None \<Rightarrow> \<lfloor>maxTokensDefault cfg\<rfloor> \<le> 0 | Some n \<Rightarrow> 0 < n \<and> \<lfloor>maxTokensDefault cfg\<rfloor> \<le> n)"

lemma positive_int_pos: "positive_int v = Some n \<Longrightarrow> 0 < n"
  by (auto simp: positive_int_def is_integer_def split: option.splits if_splits)

lemma resolve_at_least:
  "\<forall>n \<in> set_option mt. 0 < n \<Longrightarrow>
     (case resolveEffectiveMaxTokens mt f of None \<Rightarrow> f \<le> 0 | Some n \<Rightarrow> 0 < n \<and> f \<le> n)"
  by (auto simp: resolveEffectiveMaxTokens_def split: option.splits)

lemma resolve_budget_ok:
  "\<forall>n \<in> set_option mt. 0 < n \<Longrightarrow> budget_ok cfg (resolveEffectiveMaxTokens mt \<lfloor>maxTokensDefault cfg\<rfloor>)"
  unfolding budget_ok_def by (rule resolve_at_least)

lemma chat_max_tokens_pos: "chat_max_tokens b = Inr (mt, w) \<Longrightarrow> \<forall>n \<in> set_option mt. 0 < n"
  by (auto simp: chat_max_tokens_def dest: positive_int_pos split: if_splits option.splits)

lemma mapEffort_error: "mapEffort v = Inl e \<Longrightarrow> client_error e"
  by (cases v rule: mapEffort.cases) (auto split: option.splits)

lemma chat_max_tokens_error: "chat_max_tokens b = Inl e \<Longrightarrow> client_error e"
  by (auto simp: chat_max_tokens_def split: if_splits option.splits)

lemma chat_format_error: "chat_format v = Inl e \<Longrightarrow> chat_error [Option.bind v (\<lambda>rf. jget rf ''type'')] e"
  by (auto simp: chat_format_def Let_def ebind_Inl intro: js_text_error split: option.split_asm json.split_asm if_splits)

lemma chat_include_usage_error: "chat_include_usage v = Inl e \<Longrightarrow> client_error e"
  by (auto simp: chat_include_usage_def split: option.splits if_splits)

lemma request_model_error: "request_model err b cfg = Inl e \<Longrightarrow> \<exists>msg. e = err msg"
  by (auto simp: request_model_def ebind_Inl Let_def)

lemma request_model_bad: "request_model bad b cfg = Inl e \<Longrightarrow> client_error e"
  by (auto dest: request_model_error)

lemma request_model_ok: "request_model err b cfg = Inr model \<Longrightarrow> model \<noteq> []"
  by (auto simp: request_model_def ebind_Inr Let_def)

lemma outcome_mono: "outcome E Q m \<Longrightarrow> (\<And>e. E e \<Longrightarrow> E' e) \<Longrightarrow> outcome E' Q m"
  by (cases m) (auto simp: outcome_def)

text \<open>What the mapping of a body prints: roles and content types of its messages, and the type of the response format.\<close>

definition message_values :: "json \<Rightarrow> json option list" where
  "message_values b = concat (map printed_values (or_else (as_arr (jget b ''messages'')) []))"

definition chat_values :: "json \<Rightarrow> json option list" where
  "chat_values b = message_values b @ [Option.bind (jget b ''response_format'') (\<lambda>rf. jget rf ''type'')]"

lemma chat_messages_outcome:
  "outcome (chat_error (concat (map printed_values ms))) acc_ok (chat_messages ms \<lparr>acc_messages = [], acc_system = [], acc_images = []\<rparr>)"
  by (rule outcomeI, erule chat_messages_error, erule chat_messages_ok)
    (simp add: acc_ok_def staged_def image_refs_def)

lemma chat_max_tokens_outcome: "outcome client_error (\<lambda>r. \<forall>n \<in> set_option (fst r). 0 < n) (chat_max_tokens b)"
  by (rule outcomeI) (auto dest: chat_max_tokens_error chat_max_tokens_pos)

lemma body_messages_outcome:
  "outcome (chat_error (chat_values b)) acc_ok
     (chat_messages (or_else (as_arr (jget b ''messages'')) []) \<lparr>acc_messages = [], acc_system = [], acc_images = []\<rparr>)"
  by (rule outcome_mono [OF chat_messages_outcome], erule chat_error_mono) (auto simp: chat_values_def message_values_def)

lemma body_format_outcome: "outcome (chat_error (chat_values b)) (\<lambda>_. True) (chat_format (jget b ''response_format''))"
  by (rule outcome_mono [OF outcomeI [OF chat_format_error TrueI]], assumption, erule chat_error_mono) (simp add: chat_values_def)

text \<open>Each stage of the mapping throws client errors only, unless the stage prints a value.\<close>

lemmas mapping_outcomes = outcome_throw_if body_messages_outcome body_format_outcome
  outcome_mono [OF chat_max_tokens_outcome chat_error_client]
  outcome_mono [OF outcomeI [OF request_model_bad request_model_ok] chat_error_client]
  outcome_mono [OF outcomeI [OF chat_stop_error chat_stop_ok] chat_error_client]
  outcome_mono [OF outcomeI [OF mapEffort_error TrueI] chat_error_client]
  outcome_mono [OF outcomeI [OF chat_include_usage_error TrueI] chat_error_client]

text \<open>\<open>well_formed cfg cat r\<close>: what the engine and the response half rely on.\<close>

definition well_formed :: "gateway_config \<Rightarrow> catalog option \<Rightarrow> engine_call \<Rightarrow> request_meta \<Rightarrow> bool" where
  "well_formed cfg cat call meta =
     (call_model call \<noteq> [] \<and> (\<forall>c \<in> set_option cat. \<not> unknown_model (call_model call) c) \<and>
      list_all message_ok (messages call) \<and> stops_ok (stop meta) \<and> budget_ok cfg (maxTokens meta) \<and> staged (imageBytes meta))"

lemma mapChatRequest_outcome:
  "outcome (chat_error (chat_values (or_else body JNull))) (\<lambda>(call, meta, released). well_formed cfg cat call meta \<and>
     image_refs (imageBytes meta) = map ref_of (concat (map images (messages call)))) (mapChatRequest body cfg cat)"
proof -
  have nf: "chat_error vs (gatewayHttpError 404 (openAiError msg ''invalid_request_error'' cd) None)" for vs msg cd
    by (rule chat_error_client) (simp add: client_error_def gatewayHttpError_def openAiError_def)
  show ?thesis
    unfolding mapChatRequest_def Let_def case_prod_unfold
    by (rule outcome_bind mapping_outcomes chat_error_bad nf outcome_Inr | assumption |
        simp add: well_formed_def new_call_def acc_ok_def resolve_budget_ok)+
qed

text \<open>
  C20. Every chat-completions body is either rejected with a 400 or 404 in the OpenAI error shape, or answered with
  a 500, or mapped to a well-formed call. The 500 comes only from a value of the body that the mapping prints and
  that has no string form (the role of a message, the type of a content part, the type of the response format: an
  object with a \<open>toString\<close> property of its own, or an array that holds one). A well-formed call has a non-empty model that a live catalog knows, messages of the engine's roles whose
  tool results carry one of this gateway's own cursors, at most four non-empty stop sequences, a positive
  token budget not below the configured floor, and staged images numbered in order that are exactly the
  images the messages refer to.
\<close>

theorem mapChatRequest_sound:
  "case mapChatRequest body cfg cat of
     Inl e \<Rightarrow> chat_error (chat_values (or_else body JNull)) e
   | Inr (call, meta, released) \<Rightarrow> well_formed cfg cat call meta \<and>
       image_refs (imageBytes meta) = map ref_of (concat (map images (messages call)))"
  using mapChatRequest_outcome [of body cfg cat] by (simp add: outcome_def)

end
