(* ===== verification/Anthropic.thy ===== *)
theory Anthropic
  imports OpenAI
begin

text \<open>
  The request half of the Anthropic adapter, \<open>src/server/anthropic-adapter.ts\<close>: a messages body becomes an
  engine call and the metadata of the response, or an HTTP error; and the token estimate of a body.

  The trailing user turn that answers this gateway's own tool calls collapses into one tool message, the
  continuation cursor of the engine.
\<close>

section \<open>Thinking and system\<close>

definition abad :: "string \<Rightarrow> http_error" where
  "abad msg = gatewayHttpError 400 (anthropicError ''invalid_request_error'' msg None) None"

definition BUDGET_TIERS :: "(int \<times> string) list" where
  "BUDGET_TIERS = [(4096, ''low''), (16384, ''medium''), (9007199254740991, ''high'')]"

definition mapBudget :: "json option \<Rightarrow> http_error + string" where
  "mapBudget v =
     (case as_num v of
        None \<Rightarrow> Inl (abad ''thinking.budget_tokens must be an integer >= 1024'')
      | Some n \<Rightarrow>
          if \<not> is_integer n \<or> n < 1024 then Inl (abad ''thinking.budget_tokens must be an integer >= 1024'')
          else case find (\<lambda>(upTo, _). n \<le> of_int upTo) BUDGET_TIERS of
                 Some (_, eff) \<Rightarrow> Inr eff
               | None \<Rightarrow> Inr ''high'')"

definition mapThinking :: "json option \<Rightarrow> http_error + string option" where
  "mapThinking v =
     (case v of
        None \<Rightarrow> Inr None
      | Some JNull \<Rightarrow> Inr None
      | Some t \<Rightarrow>
          if \<not> is_object v then Inl (abad ''thinking must be an object'')
          else if jget t ''type'' = Some (JStr ''disabled'') then Inr None
          else if jget t ''type'' = Some (JStr ''adaptive'') then Inr None
          else if jget t ''type'' = Some (JStr ''enabled'')
          then ebind (mapBudget (jget t ''budget_tokens'')) (\<lambda>e. Inr (Some e))
          else Inl (abad ''thinking.type must be enabled, adaptive, or disabled''))"

fun system_parts :: "json list \<Rightarrow> http_error + string list" where
  "system_parts [] = Inr []"
| "system_parts (b # bs) =
     (if \<not> is_object (Some b) then Inl (abad ''system blocks must be objects'')
      else case (jget b ''type'' = Some (JStr ''text''), as_str (jget b ''text'')) of
             (True, Some t) \<Rightarrow> ebind (system_parts bs) (\<lambda>ts. Inr (t # ts))
           | _ \<Rightarrow> Inl (abad (''system blocks must be {type:'' @ [CHR 0x22] @ ''text'' @ [CHR 0x22] @ '', text}'')))"

fun systemText :: "json option \<Rightarrow> http_error + string" where
  "systemText None = Inr []"
| "systemText (Some JNull) = Inr []"
| "systemText (Some (JStr s)) = Inr s"
| "systemText (Some (JArr bs)) = ebind (system_parts bs) (\<lambda>ts. Inr (join (nl @ nl) ts))"
| "systemText (Some _) = Inl (abad ''system must be a string or an array of text blocks'')"

section \<open>Images\<close>

definition decodeImageSource :: "json option \<Rightarrow> image_bytes \<Rightarrow> http_error + engine_image \<times> image_bytes" where
  "decodeImageSource source ib =
     (if \<not> is_object source then Inl (abad ''image source must be an object'')
      else let s = or_else source JNull
        in if jget s ''type'' \<noteq> Some (JStr ''base64'')
           then Inl (abad (''only base64 image sources are accepted (url sources are not fetched by this gateway '' @ em_dash @ '' see docs)''))
           else case Option.bind (as_str (jget s ''media_type'')) image_mime of
                  None \<Rightarrow> Inl (abad ''image source media_type must be image/png, image/jpeg, image/webp, or image/gif'')
                | Some media \<Rightarrow>
                    (case as_str (jget s ''data'') of
                       None \<Rightarrow> Inl (abad ''image source data must be a base64 string'')
                     | Some d \<Rightarrow>
                         if d = [] then Inl (abad ''image source data must be a base64 string'')
                         else if base64_bytes d = [] then Inl (abad ''image source base64 payload is empty'')
                         else Inr (stage_image media (base64_bytes d) ib)))"

definition release_block :: "json \<Rightarrow> json" where
  "release_block block =
     (if jget block ''type'' = Some (JStr ''image'') \<and>
         Option.bind (jget block ''source'') (\<lambda>s. jget s ''type'') = Some (JStr ''base64'')
      then jset ''source'' (jset ''data'' (JStr []) (or_else (jget block ''source'') JNull)) block
      else block)"

definition releaseMessageImages :: "json \<Rightarrow> json" where
  "releaseMessageImages b = update_items ''messages'' (update_items ''content'' release_block) b"

section \<open>Message content\<close>

text \<open>The text parts of a \<open>tool_result\<close> payload.\<close>

definition result_text :: "json \<Rightarrow> string option" where
  "result_text p = (if jget p ''type'' = Some (JStr ''text'') then as_str (jget p ''text'') else None)"

fun tool_result_parts :: "json option \<Rightarrow> string list" where
  "tool_result_parts (Some (JStr s)) = [s]"
| "tool_result_parts (Some (JArr ps)) = map_filter_opt result_text ps"
| "tool_result_parts _ = []"

fun nullish :: "json option \<Rightarrow> bool" where
  "nullish None = True"
| "nullish (Some JNull) = True"
| "nullish _ = False"

text \<open>A \<open>TypeError\<close> thrown inside the mapping: the value stands for what the shared error handler answers.\<close>

definition type_error :: "string \<Rightarrow> http_error" where
  "type_error msg = gatewayHttpError 500 (anthropicError ''api_error'' (''Internal server error: '' @ redactLine msg) None) None"

text \<open>\<open>String(v)\<close> of a role or of a block type.\<close>

definition block_text :: "json option \<Rightarrow> http_error + string" where
  "block_text v = (case js_string_opt v of Some s \<Rightarrow> Inr s | None \<Rightarrow> Inl (type_error no_primitive))"

text \<open>One content block: its text parts, its image, the staged bytes.\<close>

definition map_block :: "string \<Rightarrow> json \<Rightarrow> image_bytes \<Rightarrow> http_error + string list \<times> engine_image list \<times> image_bytes" where
  "map_block role b ib =
     (if \<not> is_object (Some b) then Inl (abad (role @ '' content blocks must be objects''))
      else if jget b ''type'' = Some (JStr ''text'') then
        (case as_str (jget b ''text'') of
           Some t \<Rightarrow> Inr ([t], [], ib)
         | None \<Rightarrow> Inl (abad ''text blocks must carry a string `text`''))
      else if jget b ''type'' = Some (JStr ''image'') then
        (if role \<noteq> ''user'' then Inl (abad ''image blocks are only supported on user messages'')
         else ebind (decodeImageSource (jget b ''source'') ib) (\<lambda>(i, ib1). Inr ([], [i], ib1)))
      else if jget b ''type'' = Some (JStr ''thinking'') \<or> jget b ''type'' = Some (JStr ''redacted_thinking'') then
        (let th = (if nullish (jget b ''thinking'') then jget b ''data'' else jget b ''thinking'')
         in Inr (case as_str th of Some t \<Rightarrow> if t = [] then [] else [''[thinking replay] '' @ t] | None \<Rightarrow> [], [], ib))
      else if jget b ''type'' = Some (JStr ''tool_use'') then
        Inr (case as_str (jget b ''name'') of Some nm \<Rightarrow> [''[tool_use replay] '' @ nm] | None \<Rightarrow> [], [], ib)
      else if jget b ''type'' = Some (JStr ''tool_result'') then Inr (tool_result_parts (jget b ''content''), [], ib)
      else ebind (block_text (jget b ''type'')) (\<lambda>ty. Inl (abad (''unsupported '' @ role @ '' content block type: '' @ ty))))"

fun map_blocks :: "string \<Rightarrow> json list \<Rightarrow> image_bytes \<Rightarrow> http_error + string list \<times> engine_image list \<times> image_bytes" where
  "map_blocks role [] ib = Inr ([], [], ib)"
| "map_blocks role (b # bs) ib =
     ebind (map_block role b ib) (\<lambda>(ts, is, ib1).
     ebind (map_blocks role bs ib1) (\<lambda>(us, js, ib2). Inr (ts @ us, is @ js, ib2)))"

fun mapContent :: "json option \<Rightarrow> string \<Rightarrow> image_bytes \<Rightarrow> http_error + string \<times> engine_image list \<times> image_bytes" where
  "mapContent (Some (JStr s)) role ib = Inr (s, [], ib)"
| "mapContent (Some (JArr bs)) role ib = ebind (map_blocks role bs ib) (\<lambda>(ts, is, ib1). Inr (concat ts, is, ib1))"
| "mapContent _ role ib = Inl (abad (role @ '' content must be a string or an array of blocks''))"

section \<open>Messages and the continuation cursor\<close>

definition map_message :: "json \<Rightarrow> engine_message list \<times> image_bytes \<Rightarrow> http_error + engine_message list \<times> image_bytes" where
  "map_message m acc =
     (if \<not> is_object (Some m) then Inl (abad ''each message must be an object'')
      else if jget m ''role'' = Some (JStr ''user'') then
        ebind (mapContent (jget m ''content'') ''user'' (snd acc)) (\<lambda>(t, is, ib).
          Inr (fst acc @ [(plain_message RUser t)\<lparr>images := is\<rparr>], ib))
      else if jget m ''role'' = Some (JStr ''assistant'') then
        ebind (mapContent (jget m ''content'') ''assistant'' (snd acc)) (\<lambda>(t, is, ib).
          Inr (fst acc @ [plain_message RAssistant t], ib))
      else ebind (block_text (jget m ''role'')) (\<lambda>role. Inl (abad (''unsupported message role: '' @ role))))"

fun map_messages :: "json list \<Rightarrow> engine_message list \<times> image_bytes \<Rightarrow> http_error + engine_message list \<times> image_bytes" where
  "map_messages [] acc = Inr acc"
| "map_messages (m # ms) acc = ebind (map_message m acc) (map_messages ms)"

record cursor =
  cur_parts :: "string list"
  cur_callId :: "string option"
  furthest :: int

fun cursor_part :: "json option \<Rightarrow> string" where
  "cursor_part (Some (JStr s)) = s"
| "cursor_part (Some (JArr ps)) = concat (map_filter_opt result_text ps)"
| "cursor_part _ = ''ok''"

definition cursor_block :: "json \<Rightarrow> cursor \<Rightarrow> http_error + cursor" where
  "cursor_block b c =
     (if \<not> is_object (Some b) then Inr c
      else if jget b ''type'' = Some (JStr ''tool_result'') then
        (case Option.bind (as_str (jget b ''tool_use_id'')) (\<lambda>i. map_option (\<lambda>p. (i, p)) (parseMirrorCallId i)) of
           None \<Rightarrow> Inl (abad (''tool_result blocks are only accepted as continuations of this gateway'' @ [CHR 0x27] @
                     ''s own tool_use blocks (agytc- ids)''))
         | Some (i, _, idx) \<Rightarrow>
             (let c1 = c\<lparr>cur_parts := cur_parts c @ [cursor_part (jget b ''content'')]\<rparr>
              in Inr (if int idx > furthest c1 then c1\<lparr>furthest := int idx, cur_callId := Some i\<rparr> else c1)))
      else if jget b ''type'' = Some (JStr ''text'') then
        (case as_str (jget b ''text'') of
           Some t \<Rightarrow> Inr (if t = [] then c else c\<lparr>cur_parts := cur_parts c @ [''[user context] '' @ t]\<rparr>)
         | None \<Rightarrow> Inr c)
      else Inr c)"

fun cursor_blocks :: "json list \<Rightarrow> cursor \<Rightarrow> http_error + cursor" where
  "cursor_blocks [] c = Inr c"
| "cursor_blocks (b # bs) c = ebind (cursor_block b c) (cursor_blocks bs)"

definition collapse :: "json list \<Rightarrow> engine_message list \<Rightarrow> http_error + engine_message list" where
  "collapse raw ms =
     (let lst = last raw
      in if raw = [] \<or> jget lst ''role'' \<noteq> Some (JStr ''user'') then Inr ms
         else case as_arr (jget lst ''content'') of
                None \<Rightarrow> Inr ms
              | Some bs \<Rightarrow>
                  ebind (cursor_blocks bs \<lparr>cur_parts = [], cur_callId = None, furthest = -1\<rparr>) (\<lambda>c.
                    Inr (case cur_callId c of
                           None \<Rightarrow> ms
                         | Some i \<Rightarrow> butlast ms @ [(plain_message RTool (join (nl @ nl) (cur_parts c)))\<lparr>toolCallId := Some i\<rparr>])))"

section \<open>The request\<close>

definition message_stops :: "json option \<Rightarrow> http_error + string list" where
  "message_stops v =
     (if nullish v then Inr []
      else case as_arr v of
             None \<Rightarrow> Inl (abad ''stop_sequences must be an array of at most 4 strings'')
           | Some ss \<Rightarrow>
               if length ss > 4 then Inl (abad ''stop_sequences must be an array of at most 4 strings'')
               else case stop_strings ss of
                      None \<Rightarrow> Inl (abad ''stop_sequences entries must be non-empty strings'')
                    | Some st \<Rightarrow> Inr st)"

text \<open>\<open>output_config\<close>. A \<open>format\<close> of \<open>null\<close> makes \<open>format.type\<close> throw a \<open>TypeError\<close>.\<close>

definition message_format :: "json option \<Rightarrow> http_error + json option" where
  "message_format v =
     (if nullish v then Inr None
      else case jget (or_else v JNull) ''format'' of
             None \<Rightarrow> Inr None
           | Some f \<Rightarrow>
               if f = JNull
               then Inl (type_error (''Cannot read properties of null (reading '' @ [CHR 0x27] @ ''type'' @ [CHR 0x27] @ '')''))
               else if jget f ''type'' \<noteq> Some (JStr ''json_schema'') then Inl (abad ''output_config.format.type must be json_schema'')
               else if \<not> is_object (jget f ''schema'') then Inl (abad ''output_config.format requires a schema'')
               else Inr (jget f ''schema''))"

definition message_warnings :: "json \<Rightarrow> string list" where
  "message_warnings b =
     (if non_empty_items (jget b ''tools'')
      then [''tools were accepted but are not executed by this gateway (agy runs its own tool loop); tool_use blocks in responses mirror agy activity'']
      else []) @
     (if jget b ''metadata'' \<noteq> None then [''metadata is logged context only '' @ em_dash @ '' never forwarded upstream''] else []) @
     ignored_warnings [''temperature'', ''top_p'', ''top_k''] b @
     ignored_warnings [''tool_choice'', ''betas'', ''mcp_servers'', ''service_tier'', ''output_format''] b"

definition message_max_tokens :: "json option \<Rightarrow> http_error + int" where
  "message_max_tokens v =
     (if v = None then Inl (abad ''max_tokens is required'')
      else case positive_int v of
             None \<Rightarrow> Inl (abad ''max_tokens must be a positive integer'')
           | Some n \<Rightarrow> Inr n)"

definition mapMessagesRequest :: "json option \<Rightarrow> gateway_config \<Rightarrow> catalog option \<Rightarrow> http_error + engine_call \<times> request_meta \<times> json" where
  "mapMessagesRequest body cfg cat =
     (let b = or_else body JNull; raw = or_else (as_arr (jget b ''messages'')) [] in
      ebind (throw_if (\<not> is_object body) (abad ''request body must be a JSON object'')) (\<lambda>_.
      ebind (request_model abad b cfg) (\<lambda>model.
      ebind (throw_if (\<exists>c \<in> set_option cat. unknown_model model c)
        (gatewayHttpError 404 (anthropicError ''not_found_error'' (not_found_text model (the cat)) None) None)) (\<lambda>_.
      ebind (throw_if (\<not> non_empty_items (jget b ''messages'')) (abad ''messages must be a non-empty array'')) (\<lambda>_.
      ebind (message_max_tokens (jget b ''max_tokens'')) (\<lambda>client_max.
      ebind (map_messages raw ([], [])) (\<lambda>(ms0, ib).
      ebind (collapse raw ms0) (\<lambda>ms.
      ebind (mapThinking (jget b ''thinking'')) (\<lambda>effort.
      ebind (message_stops (jget b ''stop_sequences'')) (\<lambda>stops.
      ebind (systemText (jget b ''system'')) (\<lambda>sys.
      ebind (message_format (jget b ''output_config'')) (\<lambda>schema.
      Inr (new_call model ms effort (if sys \<noteq> [] then Some sys else None) schema,
           \<lparr>warnings = message_warnings b,
             maxTokens = resolveEffectiveMaxTokens (Some client_max) \<lfloor>maxTokensDefault cfg\<rfloor>, stop = stops,
             imageBytes = ib, includeUsage = False, stream = (jget b ''stream'' = Some (JBool True))\<rparr>,
           releaseMessageImages b)))))))))))))"

section \<open>The token estimate\<close>

definition str_tokens :: "json option \<Rightarrow> int" where
  "str_tokens v = (case as_str v of Some s \<Rightarrow> estimateTokens (units s) | None \<Rightarrow> 0)"

definition block_tokens :: "json \<Rightarrow> int" where
  "block_tokens b =
     (if \<not> is_object (Some b) then 0
      else str_tokens (jget b ''text'') +
        (if jget b ''type'' = Some (JStr ''image'') then IMAGE_TOKEN_ESTIMATE else 0) +
        str_tokens (jget b ''thinking'') +
        (if jget b ''type'' = Some (JStr ''tool_result'')
         then sum_list (map (\<lambda>s. estimateTokens (units s)) (tool_result_parts (jget b ''content''))) else 0))"

definition message_tokens :: "json \<Rightarrow> int" where
  "message_tokens m =
     (case jget m ''content'' of
        Some (JStr s) \<Rightarrow> estimateTokens (units s)
      | Some (JArr bs) \<Rightarrow> sum_list (map block_tokens bs)
      | _ \<Rightarrow> 0)"

definition tool_tokens :: "json \<Rightarrow> int" where
  "tool_tokens t = (if is_object (Some t) then estimateTokens (units (json_stringify t)) else 0)"

definition estimateInputTokens :: "json option \<Rightarrow> http_error + int" where
  "estimateInputTokens body =
     (if \<not> is_object body then Inr 0
      else let b = or_else body JNull
        in ebind (systemText (jget b ''system'')) (\<lambda>sys.
             Inr (estimateTokens (units sys) + sum_list (map tool_tokens (or_else (as_arr (jget b ''tools'')) [])) +
                  sum_list (map message_tokens (or_else (as_arr (jget b ''messages'')) [])))))"

section \<open>Releasing the images keeps the estimate\<close>

lemma jget_jset: "jget (jset k v j) k' = (if k = k' \<and> is_obj j then Some v else jget j k')"
  by (cases j) auto

lemma is_object_jset [simp]: "is_object (Some (jset k v j)) = is_object (Some j)"
  by (cases j) auto

lemma is_obj_jget: "jget j k = Some v \<Longrightarrow> is_obj j"
  by (cases j) auto

lemma as_arr_Some: "as_arr v = Some xs \<longleftrightarrow> v = Some (JArr xs)"
  by (cases v rule: as_arr.cases) auto

lemma jget_update_items:
  "jget (update_items k f j) k' =
     (if k = k' then (case jget j k of Some (JArr xs) \<Rightarrow> Some (JArr (map f xs)) | v \<Rightarrow> v) else jget j k')"
  by (auto simp: update_items_def jget_jset as_arr_Some dest: is_obj_jget split: option.splits json.splits)

lemma is_object_update_items [simp]: "is_object (Some (update_items k f j)) = is_object (Some j)"
  by (simp add: update_items_def split: option.splits)

lemma block_tokens_release: "block_tokens (release_block b) = block_tokens b"
  by (simp add: release_block_def block_tokens_def jget_jset)

lemma message_tokens_release: "message_tokens (update_items ''content'' release_block m) = message_tokens m"
  by (auto simp: message_tokens_def jget_update_items block_tokens_release o_def split: option.splits json.splits)

text \<open>
  Blanking the image payloads of a request body after they are staged leaves its token estimate as it
  was, whatever the body holds.
\<close>

lemma release_keeps_estimate:
  "estimateInputTokens (Some (releaseMessageImages b)) = estimateInputTokens (Some b)"
proof -
  have "sum_list (map message_tokens (or_else (as_arr (jget (releaseMessageImages b) ''messages'')) [])) =
      sum_list (map message_tokens (or_else (as_arr (jget b ''messages'')) []))"
    by (auto simp: releaseMessageImages_def jget_update_items message_tokens_release o_def split: option.splits json.splits)
  then show ?thesis
    by (simp add: estimateInputTokens_def releaseMessageImages_def jget_update_items Let_def or_else_def)
qed

section \<open>What an accepted request looks like\<close>

definition message_error :: "http_error \<Rightarrow> bool" where
  "message_error e = (\<exists>msg. e = abad msg \<or>
     e = gatewayHttpError 404 (anthropicError ''not_found_error'' msg None) None)"

lemma message_error_abad [simp]: "message_error (abad msg)"
  by (auto simp: message_error_def)

lemma request_model_abad: "request_model abad b cfg = Inl e \<Longrightarrow> message_error e"
  by (auto dest: request_model_error)

lemma decodeImageSource_staged:
  "decodeImageSource s ib = Inr (i, ib1) \<Longrightarrow> staged ib \<Longrightarrow> staged ib1"
  by (auto simp: decodeImageSource_def Let_def split: if_splits option.splits dest!: stage_image_staged)

lemma decodeImageSource_error: "decodeImageSource s ib = Inl e \<Longrightarrow> message_error e"
  by (auto simp: decodeImageSource_def Let_def split: if_splits option.splits)

text \<open>
  \<open>printing_error vs e\<close>: an error of the Messages API, or the 500 of the shared handler, the latter only where one of
  the values \<open>vs\<close> that the mapping prints has no string form.
\<close>

definition printing_error :: "json option list \<Rightarrow> http_error \<Rightarrow> bool" where
  "printing_error vs e = (message_error e \<or> e = type_error no_primitive \<and> list_ex unprintable vs)"

lemma printing_error_message: "message_error e \<Longrightarrow> printing_error vs e"
  by (simp add: printing_error_def)

lemma printing_error_mono: "printing_error vs e \<Longrightarrow> set vs \<subseteq> set ws \<Longrightarrow> printing_error ws e"
  by (auto simp: printing_error_def list_ex_iff)

lemma outcome_printing_mono: "outcome (printing_error vs) Q m \<Longrightarrow> set vs \<subseteq> set ws \<Longrightarrow> outcome (printing_error ws) Q m"
  by (erule outcome_mono, erule printing_error_mono)

lemma block_text_error: "block_text v = Inl e \<Longrightarrow> v \<in> set vs \<Longrightarrow> printing_error vs e"
  by (auto simp: block_text_def printing_error_def list_ex_iff unprintable_def split: option.splits)

lemma map_block_outcome:
  "staged ib \<Longrightarrow> outcome (printing_error [jget b ''type'']) (\<lambda>r. staged (snd (snd r))) (map_block role b ib)"
  by (rule outcomeI)
    (auto simp: map_block_def ebind_Inl ebind_Inr Let_def intro: block_text_error printing_error_message
      split: if_splits option.splits dest: decodeImageSource_error decodeImageSource_staged)

lemma map_blocks_outcome:
  "staged ib \<Longrightarrow> outcome (printing_error (map (\<lambda>b. jget b ''type'') bs)) (\<lambda>r. staged (snd (snd r))) (map_blocks role bs ib)"
proof (induction bs arbitrary: ib)
  case (Cons b bs)
  let ?vs = "map (\<lambda>b. jget b ''type'') (b # bs)"
  have one: "outcome (printing_error ?vs) (\<lambda>r. staged (snd (snd r))) (map_block role b ib)"
    by (rule outcome_printing_mono [OF map_block_outcome [OF Cons.prems]]) simp
  have rest: "staged ib1 \<Longrightarrow> outcome (printing_error ?vs) (\<lambda>r. staged (snd (snd r))) (map_blocks role bs ib1)" for ib1
    by (rule outcome_printing_mono [OF Cons.IH]) auto
  show ?case
    unfolding map_blocks.simps case_prod_unfold
    by (rule outcome_bind [OF one], rule outcome_bind [OF rest]) (simp_all add: outcome_Inr)
qed (simp add: outcome_Inr)

lemma mapContent_outcome:
  "staged ib \<Longrightarrow> outcome (printing_error (content_types c)) (\<lambda>r. staged (snd (snd r))) (mapContent c role ib)"
proof (cases "(c, role, ib)" rule: mapContent.cases)
  case (2 bs role1 ib1)
  assume "staged ib"
  then show ?thesis
    using outcome_bind [OF map_blocks_outcome [of ib bs role], where Q = "\<lambda>r. staged (snd (snd r))"
        and f = "\<lambda>(ts, is, ib1). Inr (concat ts, is, ib1)"] 2
    by (simp add: outcome_Inr case_prod_unfold content_types_def)
qed (simp_all add: outcome_def printing_error_message)

definition mapped_ok :: "engine_message list \<times> image_bytes \<Rightarrow> bool" where
  "mapped_ok acc = (list_all message_ok (fst acc) \<and> staged (snd acc))"

lemma map_message_outcome:
  assumes "mapped_ok acc"
  shows "outcome (printing_error (printed_values m)) mapped_ok (map_message m acc)"
proof -
  have content: "outcome (printing_error (printed_values m)) (\<lambda>r. staged (snd (snd r)))
      (mapContent (jget m ''content'') role (snd acc))" for role
    by (rule outcome_printing_mono [OF mapContent_outcome])
      (use assms in \<open>auto simp: mapped_ok_def printed_values_def\<close>)
  have printed: "outcome (printing_error (printed_values m)) (\<lambda>_. True) (block_text (jget m ''role''))"
    by (rule outcomeI, erule block_text_error) (simp_all add: printed_values_def)
  show ?thesis
    using assms unfolding map_message_def case_prod_unfold
    by (auto simp: mapped_ok_def outcome_def [of _ _ "Inl e" for e] plain_message_def message_ok_def printing_error_message
        intro!: outcome_bind [OF content] outcome_bind [OF printed] outcome_Inr)
qed

lemma map_messages_outcome:
  "mapped_ok acc \<Longrightarrow> outcome (printing_error (concat (map printed_values ms))) mapped_ok (map_messages ms acc)"
proof (induction ms arbitrary: acc)
  case (Cons m ms)
  show ?case
    unfolding map_messages.simps
    by (rule outcome_bind [OF outcome_printing_mono [OF map_message_outcome [OF Cons.prems]]])
      (auto intro: outcome_printing_mono [OF Cons.IH])
qed (simp add: outcome_Inr)

text \<open>The cursor: the tool-use ids seen so far that name a recorded run, and the furthest of them.\<close>

definition result_ids :: "json list \<Rightarrow> string list" where
  "result_ids bs = map_filter_opt (\<lambda>b. if jget b ''type'' = Some (JStr ''tool_result'') then as_str (jget b ''tool_use_id'') else None) bs"

definition event_index :: "string \<Rightarrow> int" where
  "event_index i = (case parseMirrorCallId i of Some (_, k) \<Rightarrow> int k | None \<Rightarrow> -1)"

definition cursor_ok :: "string list \<Rightarrow> cursor \<Rightarrow> bool" where
  "cursor_ok ids c =
     ((\<forall>i \<in> set ids. parseMirrorCallId i \<noteq> None \<and> event_index i \<le> furthest c) \<and>
      (case cur_callId c of
         None \<Rightarrow> ids = [] \<and> furthest c = -1
       | Some i \<Rightarrow> i \<in> set ids \<and> event_index i = furthest c))"

lemma result_ids_append: "result_ids (xs @ ys) = result_ids xs @ result_ids ys"
  by (induction xs) (auto simp: result_ids_def split: option.splits)

lemma result_ids_object: "\<not> is_object (Some b) \<Longrightarrow> result_ids [b] = []"
  by (cases b) (auto simp: result_ids_def)

lemma cursor_block_outcome:
  assumes "cursor_ok ids c"
  shows "outcome message_error (cursor_ok (ids @ result_ids [b])) (cursor_block b c)"
proof (cases "is_object (Some b)")
  case False
  then show ?thesis using assms by (simp add: cursor_block_def outcome_Inr result_ids_object)
next
  case True
  with assms show ?thesis
    by (auto simp: cursor_block_def outcome_def result_ids_def Let_def event_index_def cursor_ok_def
        split: option.splits if_splits)
qed

lemma cursor_blocks_outcome:
  "cursor_ok ids c \<Longrightarrow> outcome message_error (cursor_ok (ids @ result_ids bs)) (cursor_blocks bs c)"
proof (induction bs arbitrary: ids c)
  case (Cons b bs)
  have "outcome message_error (cursor_ok ((ids @ result_ids [b]) @ result_ids bs)) (cursor_blocks (b # bs) c)"
    unfolding cursor_blocks.simps
    by (rule outcome_bind [OF cursor_block_outcome [OF Cons.prems]]) (rule Cons.IH)
  then show ?case by (simp only: append_assoc result_ids_append [symmetric] append_Cons append_Nil)
qed (simp add: outcome_Inr result_ids_def)

definition trailing_ids :: "json list \<Rightarrow> string list" where
  "trailing_ids raw =
     (if raw = [] \<or> jget (last raw) ''role'' \<noteq> Some (JStr ''user'') then []
      else case as_arr (jget (last raw) ''content'') of None \<Rightarrow> [] | Some bs \<Rightarrow> result_ids bs)"

text \<open>\<open>resumes ids ms\<close>: the call continues the run named by the furthest of the ids, if there is any.\<close>

definition resumes :: "string list \<Rightarrow> engine_message list \<Rightarrow> bool" where
  "resumes ids ms = (ids = [] \<or> (\<exists>i \<in> set ids. parseMirrorCallId i \<noteq> None \<and>
     detectContinuation ms = parseMirrorCallId i \<and> list_all (\<lambda>j. event_index j \<le> event_index i) ids))"

lemma detectContinuation_tool:
  "parseMirrorCallId i \<noteq> None \<Longrightarrow>
     detectContinuation (ms @ [(plain_message RTool t)\<lparr>toolCallId := Some i\<rparr>]) = parseMirrorCallId i"
  by (auto simp: detectContinuation_def plain_message_def Let_def parseMirrorCallId_def AGY_CALL_PREFIX_def)

lemma cursor_message_ok:
  assumes "cursor_ok ids c" "list_all message_ok ms"
    and "ms1 = (case cur_callId c of None \<Rightarrow> ms | Some i \<Rightarrow> butlast ms @ [(plain_message RTool t)\<lparr>toolCallId := Some i\<rparr>])"
  shows "list_all message_ok ms1 \<and> resumes ids ms1"
  using assms
  by (auto simp: cursor_ok_def resumes_def list_all_iff plain_message_def [of RTool] message_ok_def
      detectContinuation_tool [unfolded plain_message_def, simplified] split: option.splits dest: in_set_butlastD)

lemma collapse_outcome:
  assumes "list_all message_ok ms"
  shows "outcome message_error (\<lambda>ms1. list_all message_ok ms1 \<and> resumes (trailing_ids raw) ms1) (collapse raw ms)"
proof (cases "raw = [] \<or> jget (last raw) ''role'' \<noteq> Some (JStr ''user'') \<or> as_arr (jget (last raw) ''content'') = None")
  case True
  with assms show ?thesis
    by (auto simp: collapse_def trailing_ids_def resumes_def outcome_def Let_def)
next
  case False
  then obtain bs where bs: "as_arr (jget (last raw) ''content'') = Some bs" by auto
  have start: "cursor_ok [] \<lparr>cur_parts = [], cur_callId = None, furthest = -1\<rparr>" by (simp add: cursor_ok_def)
  from False bs have ids: "trailing_ids raw = [] @ result_ids bs" by (simp add: trailing_ids_def)
  show ?thesis
    unfolding ids
    using False bs
    by (auto simp: collapse_def Let_def intro!: outcome_bind [OF cursor_blocks_outcome [OF start]] outcome_Inr
        cursor_message_ok [OF _ assms, THEN conjunct1] cursor_message_ok [OF _ assms, THEN conjunct2])
qed

lemma mapThinking_error: "mapThinking v = Inl e \<Longrightarrow> message_error e"
  by (auto simp: mapThinking_def mapBudget_def ebind_Inl split: option.split_asm json.split_asm if_splits)

lemma message_stops_error: "message_stops v = Inl e \<Longrightarrow> message_error e"
  by (auto simp: message_stops_def split: option.splits if_splits)

lemma message_stops_ok: "message_stops v = Inr st \<Longrightarrow> stops_ok st"
  by (auto simp: message_stops_def stops_ok_def [of "[]"] intro: stop_strings_ok split: option.splits if_splits)

lemma system_parts_error: "system_parts bs = Inl e \<Longrightarrow> message_error e"
  by (induction bs) (auto simp: ebind_Inl split: if_splits option.splits bool.splits)

lemma systemText_error: "systemText v = Inl e \<Longrightarrow> message_error e"
  by (cases v rule: systemText.cases) (auto simp: ebind_Inl dest: system_parts_error)

lemma message_max_tokens_outcome: "outcome message_error (\<lambda>n. 0 < n) (message_max_tokens v)"
  by (auto simp: message_max_tokens_def outcome_def dest: positive_int_pos split: option.splits)

text \<open>The one body field whose absence of a value crashes the mapping.\<close>

definition null_format :: "json option \<Rightarrow> bool" where
  "null_format v = (Option.bind v (\<lambda>oc. jget oc ''format'') = Some JNull)"

definition null_error :: http_error where
  "null_error = type_error (''Cannot read properties of null (reading '' @ [CHR 0x27] @ ''type'' @ [CHR 0x27] @ '')'')"

text \<open>
  \<open>mapping_error b e\<close>: an error of the Messages API; or the 500 of the shared handler, for a null format, or for a
  role or a block type of the body that has no string form.
\<close>

definition mapping_error :: "json \<Rightarrow> http_error \<Rightarrow> bool" where
  "mapping_error b e =
     (message_error e \<or> e = null_error \<and> null_format (jget b ''output_config'') \<or>
      e = type_error no_primitive \<and> list_ex unprintable (message_values b))"

lemma mapping_error_message: "message_error e \<Longrightarrow> mapping_error b e"
  by (simp add: mapping_error_def)

lemma mapping_error_printing: "printing_error (message_values b) e \<Longrightarrow> mapping_error b e"
  by (auto simp: mapping_error_def printing_error_def)

lemma message_format_error:
  "message_format (jget b ''output_config'') = Inl e \<Longrightarrow> mapping_error b e"
  by (auto simp: message_format_def mapping_error_def null_format_def null_error_def or_else_def
      split: option.splits if_splits)

lemma body_map_outcome:
  assumes "mapped_ok acc"
  shows "outcome (mapping_error b) mapped_ok (map_messages (or_else (as_arr (jget b ''messages'')) []) acc)"
  using outcome_mono [OF map_messages_outcome [OF assms] mapping_error_printing [of b, unfolded message_values_def]]
  by simp

text \<open>Each stage of the mapping throws errors of the Messages API only.\<close>

lemmas message_outcomes = outcome_throw_if
  outcome_mono [OF outcomeI [OF request_model_abad request_model_ok] mapping_error_message]
  outcome_mono [OF message_max_tokens_outcome mapping_error_message]
  body_map_outcome
  outcome_mono [OF collapse_outcome mapping_error_message]
  outcome_mono [OF outcomeI [OF mapThinking_error TrueI] mapping_error_message]
  outcome_mono [OF outcomeI [OF message_stops_error message_stops_ok] mapping_error_message]
  outcome_mono [OF outcomeI [OF systemText_error TrueI] mapping_error_message]
  outcomeI [OF message_format_error TrueI]

text \<open>
  C21. Every messages body is rejected with a 400 or 404 in the Anthropic error shape, or answered with a 500, or
  mapped to a well-formed call. The 500 comes only from an output configuration whose format is null, or from a role
  or a block type that has no string form (an object with a \<open>toString\<close> property of its own, or an array that holds
  one). Where the trailing user
  turn answers this gateway's own tool calls, the call continues the run of the furthest of them, however
  many results the turn carries and in whatever order.
\<close>

theorem mapMessagesRequest_sound:
  "case mapMessagesRequest (Some b) cfg cat of
     Inl e \<Rightarrow> mapping_error b e
   | Inr (call, meta, released) \<Rightarrow> well_formed cfg cat call meta \<and>
       resumes (trailing_ids (or_else (as_arr (jget b ''messages'')) [])) (messages call)"
proof -
  let ?Q = "\<lambda>(call, meta, released). well_formed cfg cat call meta \<and>
       resumes (trailing_ids (or_else (as_arr (jget b ''messages'')) [])) (messages call)"
  have nf: "mapping_error b (gatewayHttpError 404 (anthropicError ''not_found_error'' msg None) None)" for msg
    by (rule mapping_error_message) (auto simp: message_error_def)
  have ab: "mapping_error b (abad msg)" for msg by (rule mapping_error_message) simp
  have start: "mapped_ok ([], [])" by (simp add: mapped_ok_def staged_def)
  have "outcome (mapping_error b) ?Q (mapMessagesRequest (Some b) cfg cat)"
    unfolding mapMessagesRequest_def Let_def case_prod_unfold or_else_def [of "Some b"] option.case
    by (rule outcome_bind message_outcomes ab nf outcome_Inr start | assumption |
        simp add: well_formed_def new_call_def mapped_ok_def resolve_budget_ok)+
  then show ?thesis by (simp add: outcome_def)
qed

end
