(* ===== verification/StopGuard.thy ===== *)
theory StopGuard
  imports Prelude
begin

text \<open>
  The stop-sequence guard of the streaming legs, class \<open>StopHoldback\<close> of
  \<open>src/server/stream-guards.ts\<close>, and the cut the non-streaming leg makes on the assembled text,
  \<open>applyStopWithHit\<close> of \<open>src/server/openai-adapter.ts\<close>.

  The guard withholds the longest tail of the text that may still grow into a stop sequence. The
  lemmas show that what it lets through never contains a stop sequence, that nothing is lost
  while no stop sequence occurs, and that, unless one stop sequence lies inside another, every way
  of slicing the text into deltas gives the same output as the cut on the whole text. The client
  of the guard is the streaming loop; the interface \<open>text_filter\<close> states what it relies on.
\<close>

section \<open>The guard\<close>

record 'c holdback =
  hb_stops :: "'c list list"
  hb_buffer :: "'c list"
  hb_matched :: "'c list option"

definition new_holdback :: "'c list list \<Rightarrow> 'c holdback" where
  "new_holdback stops = \<lparr>hb_stops = filter (\<lambda>s. s \<noteq> []) stops, hb_buffer = [], hb_matched = None\<rparr>"

fun earliest_match :: "'c list \<Rightarrow> (nat \<times> 'c list) option \<Rightarrow> 'c list list \<Rightarrow> (nat \<times> 'c list) option" where
  "earliest_match buf best [] = best"
| "earliest_match buf best (s # ss) =
     (case index_of buf s of
        None \<Rightarrow> earliest_match buf best ss
      | Some idx \<Rightarrow>
          (case best of
             None \<Rightarrow> earliest_match buf (Some (idx, s)) ss
           | Some (i, t) \<Rightarrow>
               if idx < i then earliest_match buf (Some (idx, s)) ss else earliest_match buf best ss))"

fun hold_scan :: "'c list \<Rightarrow> 'c list \<Rightarrow> nat \<Rightarrow> nat \<Rightarrow> nat" where
  "hold_scan buf s hold 0 = hold"
| "hold_scan buf s hold (Suc k) =
     (if hold < Suc k then (if ends_with buf (take (Suc k) s) then Suc k else hold_scan buf s hold k)
      else hold)"

definition hold_of :: "'c list \<Rightarrow> 'c list list \<Rightarrow> nat" where
  "hold_of buf stops =
     foldl (\<lambda>hold s. hold_scan buf s hold (min (length s - 1) (length buf))) 0 stops"

definition drain :: "'c holdback \<Rightarrow> 'c list \<times> 'c holdback" where
  "drain h =
     (case earliest_match (hb_buffer h) None (hb_stops h) of
        Some (idx, s) \<Rightarrow>
          (take idx (hb_buffer h), h\<lparr>hb_buffer := drop idx (hb_buffer h), hb_matched := Some s\<rparr>)
      | None \<Rightarrow>
          (let keep = length (hb_buffer h) - hold_of (hb_buffer h) (hb_stops h)
           in (take keep (hb_buffer h), h\<lparr>hb_buffer := drop keep (hb_buffer h)\<rparr>)))"

definition push :: "'c holdback \<Rightarrow> 'c list \<Rightarrow> 'c list \<times> 'c holdback" where
  "push h text =
     (case hb_matched h of
        Some s \<Rightarrow> ([], h)
      | None \<Rightarrow> drain (h\<lparr>hb_buffer := hb_buffer h @ text\<rparr>))"

definition close :: "'c holdback \<Rightarrow> 'c list \<times> 'c list option \<times> 'c holdback" where
  "close h =
     (case hb_matched h of
        Some s \<Rightarrow> ([], Some s, h)
      | None \<Rightarrow>
          (case earliest_match (hb_buffer h) None (hb_stops h) of
             Some (idx, s) \<Rightarrow>
               (take idx (hb_buffer h), Some s, h\<lparr>hb_buffer := [], hb_matched := Some s\<rparr>)
           | None \<Rightarrow> (hb_buffer h, None, h\<lparr>hb_buffer := []\<rparr>)))"

fun pushes :: "'c holdback \<Rightarrow> 'c list list \<Rightarrow> 'c list \<times> 'c holdback" where
  "pushes h [] = ([], h)"
| "pushes h (c # cs) =
     (let (out, h1) = push h c; (outs, h2) = pushes h1 cs in (out @ outs, h2))"

text \<open>A whole streamed span: every delta pushed, then the terminal flush.\<close>

definition stream_stops :: "'c list list \<Rightarrow> 'c list list \<Rightarrow> 'c list \<times> 'c list option" where
  "stream_stops stops chunks =
     (let (out, h) = pushes (new_holdback stops) chunks; (tail, m, _) = close h in (out @ tail, m))"

text \<open>The non-streaming cut.\<close>

fun stop_scan :: "'c list \<Rightarrow> (nat \<times> 'c list) option \<Rightarrow> 'c list list \<Rightarrow> (nat \<times> 'c list) option" where
  "stop_scan text best [] = best"
| "stop_scan text best (s # ss) =
     (case index_of text s of
        Some i \<Rightarrow>
          stop_scan text (if (case best of None \<Rightarrow> True | Some (cut_at, _) \<Rightarrow> i < cut_at) then Some (i, s) else best) ss
      | None \<Rightarrow> stop_scan text best ss)"

definition applyStopWithHit :: "'c list \<Rightarrow> 'c list list \<Rightarrow> 'c list \<times> 'c list option" where
  "applyStopWithHit text stop =
     (case stop_scan text None stop of
        Some (keep, hit) \<Rightarrow> (take keep text, Some hit)
      | None \<Rightarrow> (text, None))"

section \<open>The earliest match\<close>

text \<open>\<open>best_of buf ss b\<close>: \<open>b\<close> is the leftmost occurrence of a sequence of \<open>ss\<close> in \<open>buf\<close>, the first
  listed one where several start at the same place.\<close>

definition best_of :: "'c list \<Rightarrow> 'c list list \<Rightarrow> (nat \<times> 'c list) option \<Rightarrow> bool" where
  "best_of buf ss b =
     (case b of
        None \<Rightarrow> (\<forall>t \<in> set ss. index_of buf t = None)
      | Some (i, s) \<Rightarrow> find (\<lambda>t. index_of buf t = Some i) ss = Some s \<and>
          (\<forall>t \<in> set ss. \<forall>j. index_of buf t = Some j \<longrightarrow> i \<le> j))"

lemma find_Some_iff_first:
  "find P (xs @ [y]) = (case find P xs of Some z \<Rightarrow> Some z | None \<Rightarrow> if P y then Some y else None)"
  by (induction xs) auto

lemma best_of_snoc_None:
  "best_of buf ss b \<Longrightarrow> index_of buf s = None \<Longrightarrow> best_of buf (ss @ [s]) b"
  by (auto simp: best_of_def find_Some_iff_first split: option.splits)

lemma best_of_snoc_Some:
  assumes "best_of buf ss b" "index_of buf s = Some idx"
  shows "best_of buf (ss @ [s]) (case b of None \<Rightarrow> Some (idx, s)
    | Some (i, t) \<Rightarrow> if idx < i then Some (idx, s) else Some (i, t))"
proof (cases b)
  case None
  with assms(1) have "find (\<lambda>t. index_of buf t = Some idx) ss = None"
    by (auto simp: best_of_def find_None_iff)
  with None assms show ?thesis
    by (auto simp: best_of_def find_Some_iff_first)
next
  case (Some p)
  obtain i t where p: "p = (i, t)" by (cases p)
  have "find (\<lambda>t. index_of buf t = Some idx) ss = None" if "idx < i"
    using assms(1) that Some p by (fastforce simp: best_of_def find_None_iff)
  with Some p assms show ?thesis
    by (auto simp: best_of_def find_Some_iff_first)
qed

lemma earliest_match_best:
  "best_of buf ds b \<Longrightarrow> best_of buf (ds @ ss) (earliest_match buf b ss)"
proof (induction ss arbitrary: ds b)
  case Nil
  then show ?case by simp
next
  case (Cons s ss)
  show ?case
  proof (cases "index_of buf s")
    case None
    with Cons.prems have "best_of buf (ds @ [s]) b" by (rule best_of_snoc_None)
    from Cons.IH [OF this] None show ?thesis by simp
  next
    case (Some idx)
    note step = Cons.IH [OF best_of_snoc_Some [OF Cons.prems Some]]
    show ?thesis
      using step Some by (cases b) (auto split: prod.splits if_splits)
  qed
qed

lemma earliest_match_None_best: "best_of buf ss (earliest_match buf None ss)"
  using earliest_match_best [of buf "[]" None ss] by (simp add: best_of_def)

lemma best_of_Some_iff:
  "best_of buf ss (Some (i, s)) \<longleftrightarrow> find (\<lambda>t. index_of buf t = Some i) ss = Some s \<and>
     (\<forall>t \<in> set ss. \<forall>j. index_of buf t = Some j \<longrightarrow> i \<le> j)"
  by (simp add: best_of_def)

lemma best_of_SomeD:
  "best_of buf ss (Some (i, s)) \<Longrightarrow> s \<in> set ss \<and> index_of buf s = Some i"
  by (auto simp: best_of_Some_iff find_Some_iff)

lemma best_of_le:
  "best_of buf ss (Some (i, s)) \<Longrightarrow> best_of buf ss (Some (j, t)) \<Longrightarrow> i \<le> j"
  by (drule best_of_SomeD [of _ _ j t], drule best_of_Some_iff [THEN iffD1]) blast

lemma best_of_None_Some: "best_of buf ss None \<Longrightarrow> best_of buf ss (Some p) \<Longrightarrow> False"
  using best_of_SomeD [of buf ss "fst p" "snd p"] by (auto simp: best_of_def split: prod.splits)

lemma best_of_unique:
  assumes "best_of buf ss b" "best_of buf ss b'"
  shows "b = b'"
proof (cases b; cases b')
  fix p p' assume p: "b = Some p" "b' = Some p'"
  obtain i s i' s' where q: "p = (i, s)" "p' = (i', s')" by (cases p; cases p')
  with assms p have b: "best_of buf ss (Some (i, s))" "best_of buf ss (Some (i', s'))" by auto
  then have "i = i'" by (intro antisym best_of_le)
  with b p q show ?thesis by (simp add: best_of_Some_iff)
qed (use assms best_of_None_Some in auto)

lemma stop_scan_eq: "stop_scan text best ss = earliest_match text best ss"
  by (induction ss arbitrary: best) (auto split: option.splits)

text \<open>The same, by occurrences instead of \<open>index_of\<close>.\<close>

definition occurs_at :: "'c list \<Rightarrow> 'c list list \<Rightarrow> nat \<Rightarrow> bool" where
  "occurs_at text ss i = (\<exists>t \<in> set ss. starts_with (drop i text) t)"

lemma best_of_Some_occurs:
  assumes "best_of buf ss (Some (i, s))"
  shows "s \<in> set ss" "i \<le> length buf" "starts_with (drop i buf) s"
    "find (starts_with (drop i buf)) ss = Some s" "\<And>j. j < i \<Longrightarrow> \<not> occurs_at buf ss j"
proof -
  from assms have f: "find (\<lambda>t. index_of buf t = Some i) ss = Some s"
    and le: "\<And>t j. t \<in> set ss \<Longrightarrow> index_of buf t = Some j \<Longrightarrow> i \<le> j"
    by (auto simp: best_of_def)
  from f have s: "s \<in> set ss" "index_of buf s = Some i" by (auto simp: find_Some_iff)
  from s show "s \<in> set ss" by simp
  from index_of_Some [OF s(2)] show i: "i \<le> length buf" and "starts_with (drop i buf) s" by auto
  show no: "\<not> occurs_at buf ss j" if "j < i" for j
  proof
    assume "occurs_at buf ss j"
    then obtain t where t: "t \<in> set ss" "starts_with (drop j buf) t" by (auto simp: occurs_at_def)
    from that i have "j \<le> length buf" by simp
    with t(2) index_of_None obtain k where k: "index_of buf t = Some k" by (metis not_None_eq)
    from index_of_Some [OF k] t(2) have "k \<le> j" by (meson leI)
    with le [OF t(1) k] that show False by simp
  qed
  have "index_of buf t = Some i \<longleftrightarrow> starts_with (drop i buf) t" if "t \<in> set ss" for t
    using that no i by (auto simp: occurs_at_def dest: index_of_Some intro!: index_of_eqI)
  with f show "find (starts_with (drop i buf)) ss = Some s"
    by (subst (asm) find_cong [OF refl, where Q = "starts_with (drop i buf)"]) auto
qed

lemma best_of_SomeI:
  assumes "i \<le> length buf" "find (starts_with (drop i buf)) ss = Some s"
    and "\<And>j. j < i \<Longrightarrow> \<not> occurs_at buf ss j"
  shows "best_of buf ss (Some (i, s))"
proof -
  have eq: "index_of buf t = Some i \<longleftrightarrow> starts_with (drop i buf) t" if "t \<in> set ss" for t
    using that assms by (auto simp: occurs_at_def dest: index_of_Some intro!: index_of_eqI)
  have "find (\<lambda>t. index_of buf t = Some i) ss = Some s"
    using assms(2) by (subst find_cong [OF refl, where Q = "starts_with (drop i buf)"]) (auto simp: eq)
  moreover have "i \<le> j" if "t \<in> set ss" "index_of buf t = Some j" for t j
  proof (rule ccontr)
    assume "\<not> i \<le> j"
    with assms(3) [of j] that index_of_Some [OF that(2)] show False by (auto simp: occurs_at_def)
  qed
  ultimately show ?thesis by (auto simp: best_of_def)
qed

lemma best_of_None_occurs:
  "best_of buf ss None \<longleftrightarrow> (\<forall>i \<le> length buf. \<not> occurs_at buf ss i)"
  by (auto simp: best_of_def occurs_at_def intro: index_of_NoneI dest: index_of_None)

section \<open>The withheld tail\<close>

lemma hold_scan_ge: "hold \<le> hold_scan buf s hold m"
  by (induction m) auto

lemma hold_scan_covers:
  "k \<le> m \<Longrightarrow> ends_with buf (take k s) \<Longrightarrow> k \<le> hold_scan buf s hold m"
proof (induction m)
  case (Suc m)
  then show ?case by (cases "k = Suc m") (auto simp: not_less)
qed simp

lemma hold_foldl_ge:
  "h \<le> foldl (\<lambda>hold s. hold_scan buf s hold (min (length s - 1) (length buf))) h ss"
proof (induction ss arbitrary: h)
  case (Cons s ss)
  from Cons [of "hold_scan buf s h (min (length s - 1) (length buf))"]
    hold_scan_ge [of h buf s "min (length s - 1) (length buf)"]
  show ?case by simp
qed simp

lemma hold_of_covers:
  assumes "s \<in> set ss" "k < length s" "k \<le> length buf" "ends_with buf (take k s)"
  shows "k \<le> hold_of buf ss"
proof -
  from assms(1) obtain pre post where ss: "ss = pre @ s # post" by (auto dest: split_list)
  let ?f = "\<lambda>hold s. hold_scan buf s hold (min (length s - 1) (length buf))"
  have "k \<le> ?f (foldl ?f 0 pre) s" using assms by (intro hold_scan_covers) auto
  also have "\<dots> \<le> foldl ?f (?f (foldl ?f 0 pre) s) post" by (rule hold_foldl_ge)
  finally show ?thesis by (simp add: hold_of_def ss)
qed

section \<open>The streaming invariant\<close>

text \<open>
  \<open>E\<close> is what was let through, \<open>B\<close> the buffer: no stop sequence occurs in \<open>E @ B\<close>, and no tail of
  it that starts inside \<open>E\<close> can still grow into one.
\<close>

definition open_inv :: "'c list list \<Rightarrow> 'c list \<Rightarrow> 'c list \<Rightarrow> bool" where
  "open_inv ss E B =
     ((\<forall>i \<le> length (E @ B). \<not> occurs_at (E @ B) ss i) \<and>
      (\<forall>i < length E. \<forall>s \<in> set ss. \<not> starts_with s (drop i (E @ B))))"

lemma open_inv_no_later:
  assumes "open_inv ss E B" "i < length E"
  shows "\<not> occurs_at (E @ B @ R) ss i"
proof
  assume "occurs_at (E @ B @ R) ss i"
  then obtain s where s: "s \<in> set ss" "starts_with (drop i (E @ B) @ R) s"
    using assms(2) by (auto simp: occurs_at_def)
  from assms(2) have "i \<le> length (E @ B)" by simp
  with starts_with_append_cases [OF s(2)] s(1) assms show False
    by (auto simp: open_inv_def occurs_at_def simp del: drop_append)
qed

lemma occurs_at_shift:
  "length E \<le> i \<Longrightarrow> occurs_at (E @ B) ss i \<longleftrightarrow> occurs_at B ss (i - length E)"
  by (simp add: occurs_at_def)

lemma push_no_match:
  assumes inv: "open_inv ss E B" and none: "earliest_match (B @ c) None ss = None"
  defines "keep \<equiv> length (B @ c) - hold_of (B @ c) ss"
  shows "open_inv ss (E @ take keep (B @ c)) (drop keep (B @ c))"
proof -
  let ?B = "B @ c" and ?T = "E @ B @ c"
  have noB: "\<not> occurs_at ?B ss i" if "i \<le> length ?B" for i
    using earliest_match_None_best [of ?B ss] none that by (simp add: best_of_None_occurs)
  have noT: "\<not> occurs_at ?T ss i" if "i \<le> length ?T" for i
    using that noB [of "i - length E"] open_inv_no_later [OF inv, of i c] occurs_at_shift [of E i ?B ss]
    by (cases "i < length E") auto
  have "\<not> starts_with s (drop i ?T)" if i: "i < length (E @ take keep ?B)" and s: "s \<in> set ss" for i s
  proof
    assume pre: "starts_with s (drop i ?T)"
    show False
    proof (cases "i < length E")
      case True
      with pre have "starts_with s (drop i (E @ B) @ c)" by simp
      then have "starts_with s (drop i (E @ B))"
        unfolding starts_with_iff_prefix by (rule append_prefixD)
      with inv True s show False by (auto simp: open_inv_def)
    next
      case False
      define k where "k = length ?B - (i - length E)"
      define u where "u = drop (i - length E) ?B"
      from False i have ik: "i - length E < keep" by auto
      then have k: "hold_of ?B ss < k" "k \<le> length ?B" by (auto simp: k_def keep_def)
      from pre False have u: "starts_with s u" by (simp add: u_def)
      have lu: "length u = k" by (simp add: u_def k_def)
      from u lu have tk: "take k s = u" by (simp add: starts_with_take)
      have ends: "ends_with ?B (take k s)"
        unfolding tk u_def ends_with_iff_suffix by (rule suffix_drop)
      have "\<not> starts_with u s"
        using noB [of "i - length E"] s ik by (auto simp: occurs_at_def u_def keep_def)
      with u lu tk have "k < length s"
        by (metis linorder_not_le starts_with_refl take_all)
      from hold_of_covers [OF s this k(2) ends] k(1) show False by simp
    qed
  qed
  moreover have "(E @ take keep ?B) @ drop keep ?B = ?T" by (simp only: append_assoc append_take_drop_id)
  ultimately show ?thesis using noT unfolding open_inv_def by (simp only:) blast
qed

lemma push_match:
  assumes inv: "open_inv ss E B" and hit: "earliest_match (B @ c) None ss = Some (idx, s)"
  shows "best_of (E @ B @ c) ss (Some (length E + idx, s))"
proof -
  from hit earliest_match_None_best [of "B @ c" ss] have b: "best_of (B @ c) ss (Some (idx, s))" by simp
  note b = best_of_Some_occurs [OF b]
  show ?thesis
  proof (rule best_of_SomeI)
    show "length E + idx \<le> length (E @ B @ c)" using b(2) by simp
    show "find (starts_with (drop (length E + idx) (E @ B @ c))) ss = Some s"
      using b(4) by simp
    show "\<not> occurs_at (E @ B @ c) ss j" if "j < length E + idx" for j
      using that b(5) [of "j - length E"] open_inv_no_later [OF inv, of j c]
        occurs_at_shift [of E j "B @ c" ss]
      by (cases "j < length E") auto
  qed
qed

text \<open>What a run of pushes leaves behind, from an unmatched state.\<close>

lemma pushes_matched:
  "hb_matched h = Some s \<Longrightarrow> pushes h cs = ([], h)"
  by (induction cs) (auto simp: push_def)

lemma pushes_outcome:
  assumes "open_inv ss E (hb_buffer h)" "hb_matched h = None" "hb_stops h = ss"
    and "pushes h cs = (out, h')"
  shows "(hb_matched h' = None \<and> hb_stops h' = ss \<and> open_inv ss (E @ out) (hb_buffer h') \<and>
            out @ hb_buffer h' = hb_buffer h @ concat cs) \<or>
         (\<exists>pre post i s. hb_matched h' = Some s \<and> hb_buffer h @ concat cs = pre @ post \<and>
            best_of (E @ pre) ss (Some (i, s)) \<and> E @ out = take i (E @ pre))"
  using assms
proof (induction cs arbitrary: h E out)
  case Nil
  then show ?case by auto
next
  case (Cons c cs)
  let ?B = "hb_buffer h @ c"
  obtain o1 h1 where p1: "push h c = (o1, h1)" by (cases "push h c")
  obtain o2 where p2: "pushes h1 cs = (o2, h')" and out: "out = o1 @ o2"
    using Cons.prems(4) p1 by (auto split: prod.splits)
  show ?case
  proof (cases "earliest_match ?B None ss")
    case None
    let ?cut = "length ?B - hold_of ?B ss"
    from p1 None Cons.prems have o1: "o1 = take ?cut ?B" and h1: "h1 = h\<lparr>hb_buffer := drop ?cut ?B\<rparr>"
      by (simp_all add: push_def drain_def Let_def)
    from push_no_match [OF Cons.prems(1) None]
    have inv: "open_inv ss (E @ o1) (hb_buffer h1)" by (simp add: o1 h1)
    have split: "o1 @ hb_buffer h1 = ?B" by (simp add: o1 h1 del: take_append drop_append)
    from Cons.IH [OF inv _ _ p2] Cons.prems h1
    consider "hb_matched h' = None \<and> hb_stops h' = ss \<and> open_inv ss ((E @ o1) @ o2) (hb_buffer h') \<and>
            o2 @ hb_buffer h' = hb_buffer h1 @ concat cs"
      | pre post i s where "hb_matched h' = Some s" "hb_buffer h1 @ concat cs = pre @ post"
            "best_of ((E @ o1) @ pre) ss (Some (i, s))" "(E @ o1) @ o2 = take i ((E @ o1) @ pre)"
      by fastforce
    then show ?thesis
    proof cases
      case 1
      with out split show ?thesis by (metis append.assoc concat.simps(2))
    next
      case (2 pre post i s)
      from 2(2) split have "hb_buffer h @ concat (c # cs) = (o1 @ pre) @ post"
        by (metis append.assoc concat.simps(2))
      with 2 out have "hb_matched h' = Some s \<and> hb_buffer h @ concat (c # cs) = (o1 @ pre) @ post \<and>
          best_of (E @ o1 @ pre) ss (Some (i, s)) \<and> E @ out = take i (E @ o1 @ pre)"
        by (simp del: take_append)
      then show ?thesis by blast
    qed
  next
    case (Some p)
    obtain idx s where p: "p = (idx, s)" by (cases p)
    with p1 Some Cons.prems have o1: "o1 = take idx ?B" and h1: "hb_matched h1 = Some s"
      by (auto simp: push_def drain_def)
    from pushes_matched [OF h1] p2 have o2: "o2 = []" and h': "h' = h1" by auto
    from push_match [OF Cons.prems(1)] Some p
    have b: "best_of (E @ ?B) ss (Some (length E + idx, s))" by simp
    have "E @ out = take (length E + idx) (E @ ?B)" by (simp add: out o1 o2)
    with b h1 h' have "hb_matched h' = Some s \<and> hb_buffer h @ concat (c # cs) = ?B @ concat cs \<and>
        best_of (E @ ?B) ss (Some (length E + idx, s)) \<and> E @ out = take (length E + idx) (E @ ?B)"
      by simp
    then show ?thesis by blast
  qed
qed

lemma open_inv_start: "\<forall>s \<in> set ss. s \<noteq> [] \<Longrightarrow> open_inv ss [] []"
  by (auto simp: open_inv_def occurs_at_def neq_Nil_conv)

text \<open>The two ways a streamed span ends.\<close>

lemma stream_stops_cases:
  assumes "stream_stops stops chunks = (out, m)"
  defines "ss \<equiv> filter (\<lambda>s. s \<noteq> []) stops" and "T \<equiv> concat chunks"
  obtains (unmatched) "m = None" "out = T" "best_of T ss None"
    | (matched) pre post i s where "m = Some s" "T = pre @ post" "best_of pre ss (Some (i, s))"
        "out = take i pre"
proof -
  obtain o1 h where p: "pushes (new_holdback stops) chunks = (o1, h)"
    by (cases "pushes (new_holdback stops) chunks")
  have h0: "hb_buffer (new_holdback stops) = []" "hb_matched (new_holdback stops) = None"
    "hb_stops (new_holdback stops) = ss"
    by (simp_all add: new_holdback_def ss_def)
  have start: "open_inv ss [] (hb_buffer (new_holdback stops))"
    by (simp only: h0) (simp add: open_inv_start ss_def)
  from pushes_outcome [OF start h0(2,3) p]
  consider (a) "hb_matched h = None" "hb_stops h = ss" "open_inv ss o1 (hb_buffer h)" "o1 @ hb_buffer h = T"
    | (b) pre post i s where "hb_matched h = Some s" "T = pre @ post" "best_of pre ss (Some (i, s))"
        "o1 = take i pre"
    by (fastforce simp: h0 T_def)
  then show thesis
  proof cases
    case a
    have none: "best_of T ss None"
      using a(3,4) by (auto simp: best_of_None_occurs open_inv_def)
    have "best_of (hb_buffer h) ss None"
      unfolding best_of_None_occurs
    proof (intro allI impI)
      fix i assume "i \<le> length (hb_buffer h)"
      with none a(4) occurs_at_shift [of o1 "length o1 + i" "hb_buffer h" ss]
      show "\<not> occurs_at (hb_buffer h) ss i" by (auto simp: best_of_None_occurs)
    qed
    then have "earliest_match (hb_buffer h) None ss = None"
      using best_of_unique earliest_match_None_best by blast
    with assms(1) p a have "m = None" "out = T"
      by (auto simp: stream_stops_def close_def)
    with none show thesis by (intro unmatched) auto
  next
    case b
    with assms(1) p have "m = Some s" "out = take i pre"
      by (auto simp: stream_stops_def close_def)
    with b show thesis by (intro matched) auto
  qed
qed

section \<open>Stop sequences that lie inside one another\<close>

definition unnested :: "'c list list \<Rightarrow> bool" where
  "unnested stops = (\<forall>s \<in> set stops. \<forall>t \<in> set stops. s \<noteq> [] \<longrightarrow> \<not> str_includes (butlast t) s)"

lemma starts_with_inside:
  assumes "starts_with (drop j (pre @ post)) t" "length pre < j + length t"
    and "starts_with (drop i pre) s" "j \<le> i" "i \<le> length pre" "s \<noteq> []"
  shows "str_includes (butlast t) s"
proof -
  let ?k = "i - j"
  have s: "take (length s) (drop i pre) = s" using assms(3) by (simp add: starts_with_take)
  then have ls: "i + length s \<le> length pre"
    using assms(5) by (metis add.commute le_diff_conv2 length_drop length_take min.cobounded1 min.commute)
  have lt: "?k + length s < length t" using ls assms(2,4) by linarith
  from assms(1) obtain r where r: "drop j (pre @ post) = t @ r"
    by (auto simp: starts_with_iff_prefix prefix_def)
  have "take (length s) (drop ?k (butlast t)) = take (length s) (drop ?k (t @ r))"
    using lt by (simp add: butlast_conv_take take_drop)
  also have "\<dots> = take (length s) (drop i (pre @ post))"
    using assms(4) by (simp only: r [symmetric] drop_drop) simp
  also have "\<dots> = s" using s ls by simp
  finally have "starts_with (drop ?k (butlast t)) s" by (simp add: starts_with_take)
  moreover have "?k \<le> length (butlast t)" using lt by simp
  ultimately show ?thesis by (auto simp: str_includes_iff)
qed

lemma best_of_extend:
  assumes un: "unnested ss" and ne: "\<forall>s \<in> set ss. s \<noteq> []" and b: "best_of pre ss (Some (i, s))"
  shows "best_of (pre @ post) ss (Some (i, s))"
proof -
  note b' = best_of_Some_occurs [OF b]
  have within: "starts_with (drop j pre) t"
    if t: "t \<in> set ss" "starts_with (drop j (pre @ post)) t" and j: "j \<le> i" for t j
  proof (rule ccontr)
    assume no: "\<not> starts_with (drop j pre) t"
    have jl: "j \<le> length pre" using j b'(2) by simp
    have "length pre < j + length t"
    proof -
      from t(2) jl have "starts_with (drop j pre @ post) t" by simp
      from starts_with_append_cases [OF this] no jl show ?thesis by auto
    qed
    from starts_with_inside [OF t(2) this b'(3) j b'(2)] ne b'(1) t(1) un
    show False by (auto simp: unnested_def)
  qed
  show ?thesis
  proof (rule best_of_SomeI)
    show "i \<le> length (pre @ post)" using b'(2) by simp
    have "starts_with (drop i (pre @ post)) t \<longleftrightarrow> starts_with (drop i pre) t" if "t \<in> set ss" for t
      using within [OF that _ order.refl] b'(2) starts_with_append by auto
    then show "find (starts_with (drop i (pre @ post))) ss = Some s"
      using b'(4) by (subst find_cong [OF refl, where Q = "starts_with (drop i pre)"]) auto
    show "\<not> occurs_at (pre @ post) ss j" if "j < i" for j
      using b'(5) [OF that] within that by (fastforce simp: occurs_at_def)
  qed
qed

lemma applyStop_best:
  assumes "best_of text ss b"
  shows "applyStopWithHit text ss =
    (case b of Some (keep, hit) \<Rightarrow> (take keep text, Some hit) | None \<Rightarrow> (text, None))"
  using best_of_unique [OF assms earliest_match_None_best]
  by (simp add: applyStopWithHit_def stop_scan_eq)

section \<open>The interface the streaming loop relies on\<close>

text \<open>
  A filter on streamed text: what comes out is a prefix of what goes in, and once the filter has
  fired nothing more comes out.
\<close>

locale text_filter =
  fixes feed :: "'h \<Rightarrow> 'c list \<Rightarrow> 'c list \<times> 'h"
    and held :: "'h \<Rightarrow> 'c list"
    and fired :: "'h \<Rightarrow> bool"
  assumes feed_open: "\<not> fired h \<Longrightarrow> feed h t = (o1, h1) \<Longrightarrow> o1 @ held h1 = held h @ t"
    and feed_fired: "fired h \<Longrightarrow> feed h t = ([], h)"
begin

fun feeds :: "'h \<Rightarrow> 'c list list \<Rightarrow> 'c list \<times> 'h" where
  "feeds h [] = ([], h)"
| "feeds h (t # ts) = (let (o1, h1) = feed h t; (o2, h2) = feeds h1 ts in (o1 @ o2, h2))"

lemma feeds_fired: "fired h \<Longrightarrow> feeds h ts = ([], h)"
  by (induction ts) (auto simp: feed_fired)

lemma feeds_prefix: "feeds h ts = (out, h1) \<Longrightarrow> prefix out (held h @ concat ts)"
proof (induction ts arbitrary: h out)
  case (Cons t ts)
  obtain o1 g where g: "feed h t = (o1, g)" by (cases "feed h t")
  with Cons.prems obtain o2 where o2: "feeds g ts = (o2, h1)" "out = o1 @ o2"
    by (auto split: prod.splits)
  show ?case
  proof (cases "fired h")
    case True
    with g o2 Cons.IH show ?thesis by (simp add: feed_fired feeds_fired)
  next
    case False
    from feed_open [OF this g] Cons.IH [OF o2(1)] o2(2) show ?thesis
      by (metis append.assoc concat.simps(2) same_prefix_prefix)
  qed
qed simp

end

lemma push_conserves:
  "hb_matched h = None \<Longrightarrow> push h t = (o1, h1) \<Longrightarrow> o1 @ hb_buffer h1 = hb_buffer h @ t"
  by (auto simp: push_def drain_def Let_def simp del: take_append drop_append split: option.splits)

interpretation hb: text_filter push hb_buffer "\<lambda>h. hb_matched h \<noteq> None"
  by unfold_locales (auto simp: push_conserves push_def)

section \<open>Properties\<close>

lemma best_of_prefix_clean:
  assumes "best_of pre ss (Some (i, s))" "t \<in> set ss" "t \<noteq> []"
  shows "\<not> str_includes (take i pre) t"
proof
  assume "str_includes (take i pre) t"
  then obtain j where j: "j \<le> length (take i pre)" "starts_with (drop j (take i pre)) t"
    by (auto simp: str_includes_iff)
  then have "j < i"
    using assms(3) by (cases "j < i") (auto simp: starts_with_iff_prefix)
  have "starts_with (drop j pre) t"
  proof -
    have "pre = take i pre @ drop i pre" by simp
    then have "drop j pre = drop j (take i pre) @ drop i pre"
      using j(1) by (metis drop_append diff_is_0_eq drop0)
    with j(2) show ?thesis by (simp add: starts_with_append)
  qed
  with assms(2) best_of_Some_occurs(5) [OF assms(1) \<open>j < i\<close>] show False
    by (auto simp: occurs_at_def)
qed

lemma best_of_None_clean: "best_of T ss None \<Longrightarrow> t \<in> set ss \<Longrightarrow> \<not> str_includes T t"
  by (auto simp: best_of_def str_includes_def)

lemmas holdback_eval = stream_stops_def new_holdback_def push_def drain_def close_def hold_of_def
  ends_with_def applyStopWithHit_def

lemma stream_stops_cut:
  assumes "\<forall>s \<in> set stops. s \<noteq> []" and "unnested stops"
  shows "stream_stops stops chunks = applyStopWithHit (concat chunks) stops"
proof -
  obtain out m where r: "stream_stops stops chunks = (out, m)" by (cases "stream_stops stops chunks")
  have f: "filter (\<lambda>s. s \<noteq> []) stops = stops" using assms(1) by (simp add: filter_id_conv)
  show ?thesis
    using r
  proof (cases rule: stream_stops_cases)
    case unmatched
    then show ?thesis using applyStop_best [of "concat chunks" stops None] r by (simp add: f)
  next
    case (matched pre post i s)
    then have b: "best_of (pre @ post) stops (Some (i, s))" and i: "i \<le> length pre"
      using best_of_extend [OF assms(2,1)] best_of_Some_occurs(2) [of pre stops i s] by (auto simp: f)
    from applyStop_best [OF b] matched i show ?thesis by (simp add: r)
  qed
qed

text \<open>
  C26. Whatever way a text is sliced into deltas, the streaming guard and the non-streaming cut agree
  on the text that reaches the client and on the stop sequence reported, provided the stop sequences
  are non-empty and none of them lies inside a proper prefix of another.
\<close>

theorem stream_stops_eq_cut:
  assumes "\<forall>s \<in> set stops. s \<noteq> []" and "unnested stops"
  shows "stream_stops stops chunks = applyStopWithHit (concat chunks) stops"
  using assms by (rule stream_stops_cut)

theorem stream_stops_eq_cut_witness:
  "stream_stops [''END'', ''stop''] [''abst'', ''op c'', ''END''] = (''ab'', Some ''stop'')"
  using stream_stops_eq_cut [of "[''END'', ''stop'']" "[''abst'', ''op c'', ''END'']"]
  by (simp add: unnested_def applyStopWithHit_def str_includes_def)

text \<open>
  With any stop sequences at all, and however the text is sliced, the guard lets through a prefix
  of the text that contains no (non-empty) stop sequence; it reports no match exactly when no stop
  sequence occurs in the text, and then lets everything through.
\<close>

lemma stream_stops_safe:
  assumes "stream_stops stops chunks = (out, m)"
  shows "prefix out (concat chunks) \<and>
    (\<forall>s \<in> set stops. s \<noteq> [] \<longrightarrow> \<not> str_includes out s) \<and>
    (m = None \<longleftrightarrow> (\<forall>s \<in> set stops. s \<noteq> [] \<longrightarrow> \<not> str_includes (concat chunks) s)) \<and>
    (m = None \<longrightarrow> out = concat chunks)"
  using assms
proof (cases rule: stream_stops_cases)
  case unmatched
  have "\<forall>t \<in> set stops. t \<noteq> [] \<longrightarrow> \<not> str_includes (concat chunks) t"
    using best_of_None_clean [OF unmatched(3)] by simp
  with unmatched(1,2) show ?thesis by simp
next
  case (matched pre post i s)
  note b = best_of_Some_occurs [OF matched(3)]
  have hit: "str_includes (concat chunks) s"
    unfolding matched(2) str_includes_iff
    using b(2,3) by (intro exI [of _ i]) (simp add: starts_with_append)
  have pre: "prefix out (concat chunks)"
    unfolding matched(2,4) by (rule prefix_prefix) (rule take_is_prefix)
  have "\<forall>t \<in> set stops. t \<noteq> [] \<longrightarrow> \<not> str_includes out t"
    using best_of_prefix_clean [OF matched(3)] matched(4) by simp
  moreover have "s \<in> set stops" "s \<noteq> []" using b(1) by auto
  ultimately show ?thesis using hit pre matched(1) by (metis option.distinct(1))
qed


text \<open>
  Where one stop sequence lies inside another the two legs differ: the streaming guard fires on
  the inner one as soon as it is complete, the non-streaming cut looks at the whole text and takes
  the outer one, which starts earlier.
\<close>

lemma stream_stops_nested_differs:
  "stream_stops [''abcd'', ''bc''] [''abc'', ''d''] = (''a'', Some ''bc'') \<and>
   stream_stops [''abcd'', ''bc''] [''abcd''] = ([], Some ''abcd'') \<and>
   applyStopWithHit ''abcd'' [''abcd'', ''bc''] = ([], Some ''abcd'')"
  by (simp add: holdback_eval)

end
