(* ===== verification/Completion.thy ===== *)
theory Completion
  imports OpenAI StopGuard
begin

text \<open>
  The response half of the OpenAI adapter, \<open>src/server/openai-adapter.ts\<close>: the completion body assembled
  from a collected span, and the chunk frames of the streaming form.

  A generator returns the list of frames it yields and the state it leaves. An optional field of a frame
  that is absent is \<open>None\<close>; \<open>usage: null\<close> is \<open>Some None\<close>.
\<close>

section \<open>Bodies\<close>

record openai_usage =
  prompt_tokens :: rat
  completion_tokens :: rat
  usage_total :: rat
  cached_tokens :: rat
  reasoning_tokens :: rat

record openai_tool_call =
  tc_id :: string
  tc_name :: string
  tc_arguments :: string

record openai_completion =
  oc_id :: string
  oc_created :: int
  oc_model :: string
  oc_content :: "string option"
  oc_tool_calls :: "openai_tool_call list option"
  oc_finish_reason :: string
  oc_usage :: openai_usage

section \<open>Collecting a span\<close>

record collected =
  co_text :: string
  reasoningChars :: nat
  co_toolCalls :: "(string \<times> string \<times> string) list"
  co_usage :: "token_usage option"
  co_finish :: "finish_reason option"

definition collect_chunk :: "collected \<Rightarrow> stream_chunk \<Rightarrow> collected" where
  "collect_chunk c ch =
     (case ch of
        TextDelta i t \<Rightarrow> c\<lparr>co_text := co_text c @ t\<rparr>
      | ReasoningDelta i t \<Rightarrow> c\<lparr>reasoningChars := reasoningChars c + length t\<rparr>
      | BlockEnd i (ToolCallBlock cid nm a) \<Rightarrow> c\<lparr>co_toolCalls := co_toolCalls c @ [(cid, nm, a)]\<rparr>
      | UsageChunk u \<Rightarrow> c\<lparr>co_usage := Some u\<rparr>
      | Finish r rs \<Rightarrow> c\<lparr>co_finish := Some r\<rparr>
      | _ \<Rightarrow> c)"

definition collectChunks :: "stream_chunk list \<Rightarrow> collected" where
  "collectChunks chunks =
     foldl collect_chunk \<lparr>co_text = [], reasoningChars = 0, co_toolCalls = [], co_usage = None, co_finish = None\<rparr> chunks"

definition mapUsage :: "token_usage \<Rightarrow> openai_usage" where
  "mapUsage u = \<lparr>prompt_tokens = inputTokens u, completion_tokens = outputTokens u,
     usage_total = inputTokens u + outputTokens u, cached_tokens = or_else (cacheReadTokens u) 0,
     reasoning_tokens = or_else (reasoningTokens u) 0\<rparr>"

fun finishReasonOf :: "finish_reason \<Rightarrow> string" where
  "finishReasonOf FToolCalls = ''tool_calls''"
| "finishReasonOf FMaxTokens = ''length''"
| "finishReasonOf _ = ''stop''"

definition keep_chars :: "nat \<Rightarrow> int \<Rightarrow> rat \<Rightarrow> nat" where
  "keep_chars len mt output = nat (max 0 \<lfloor>of_nat len * of_int mt / output\<rfloor>)"

definition applyMaxTokens :: "collected \<Rightarrow> int option \<Rightarrow> collected" where
  "applyMaxTokens c mt =
     (case mt of
        None \<Rightarrow> c
      | Some m \<Rightarrow>
          if co_finish c \<noteq> Some FStop then c
          else let output = (case co_usage c of Some u \<Rightarrow> outputTokens u | None \<Rightarrow> 0)
            in if output \<le> 0 \<or> output \<le> of_int m \<or> co_text c = [] then c
               else let keep = keep_chars (length (co_text c)) m output
                 in if keep \<ge> length (co_text c) then c
                    else c\<lparr>co_text := take keep (co_text c), co_finish := Some FMaxTokens\<rparr>)"

definition applyStop :: "string \<Rightarrow> string list \<Rightarrow> string" where
  "applyStop t stops = fst (applyStopWithHit t stops)"

definition assembleCompletion ::
  "string \<Rightarrow> int \<Rightarrow> string \<Rightarrow> collected \<Rightarrow> string list \<Rightarrow> int option \<Rightarrow> openai_completion" where
  "assembleCompletion i created requestModel raw stops mt =
     (let c = applyMaxTokens raw mt;
          kind = (case co_finish c of Some FToolCalls \<Rightarrow> FToolCalls | Some FMaxTokens \<Rightarrow> FMaxTokens | _ \<Rightarrow> FStop);
          t = applyStop (co_text c) stops;
          calls = map (\<lambda>(cid, nm, a). \<lparr>tc_id = cid, tc_name = nm, tc_arguments = a\<rparr>) (co_toolCalls c)
      in \<lparr>oc_id = i, oc_created = created, oc_model = requestModel,
          oc_content = (if t = [] \<and> calls \<noteq> [] then None else Some t),
          oc_tool_calls = (if calls \<noteq> [] then Some calls else None),
          oc_finish_reason = finishReasonOf kind,
          oc_usage = mapUsage (or_else (co_usage c) zero_usage)\<rparr>)"

section \<open>Stream frames\<close>

record delta_tool =
  dt_index :: nat
  dt_id :: string
  dt_name :: string
  dt_arguments :: string

record openai_delta =
  d_role :: "string option"
  d_content :: "string option"
  d_reasoning :: "string option"
  d_tool :: "delta_tool option"

record openai_choice =
  ch_delta :: openai_delta
  ch_finish :: "string option"

record openai_chunk =
  ck_id :: string
  ck_created :: int
  ck_model :: string
  ck_choices :: "openai_choice list"
  ck_usage :: "openai_usage option option"

datatype openai_frame = ChunkFrame openai_chunk | ErrorFrame error_body | DoneFrame

record openai_stream =
  firstSent :: bool
  toolIndex :: nat
  sawToolThisSpan :: bool

record stream_ids =
  si_id :: string
  si_created :: int
  si_model :: string
  si_includeUsage :: bool

definition no_delta :: openai_delta where
  "no_delta = \<lparr>d_role = None, d_content = None, d_reasoning = None, d_tool = None\<rparr>"

definition openAiChunkOf :: "stream_ids \<Rightarrow> openai_delta \<Rightarrow> string option \<Rightarrow> openai_chunk" where
  "openAiChunkOf a d f = \<lparr>ck_id = si_id a, ck_created = si_created a, ck_model = si_model a,
     ck_choices = [\<lparr>ch_delta = d, ch_finish = f\<rparr>], ck_usage = None\<rparr>"

definition chunk_frame :: "stream_ids \<Rightarrow> openai_delta \<Rightarrow> openai_frame" where
  "chunk_frame a d = ChunkFrame (openAiChunkOf a d None)"

definition role_frames :: "stream_ids \<Rightarrow> openai_stream \<Rightarrow> openai_frame list" where
  "role_frames a st =
     (if firstSent st then [] else [chunk_frame a (no_delta\<lparr>d_role := Some ''assistant'', d_content := Some []\<rparr>)])"

definition usage_chunk :: "stream_ids \<Rightarrow> token_usage option \<Rightarrow> openai_chunk" where
  "usage_chunk a u = \<lparr>ck_id = si_id a, ck_created = si_created a, ck_model = si_model a, ck_choices = [],
     ck_usage = Some (Some (mapUsage (or_else u zero_usage)))\<rparr>"

definition finish_frames :: "stream_ids \<Rightarrow> finish_reason \<Rightarrow> token_usage option \<Rightarrow> openai_frame list" where
  "finish_frames a r u =
     [ChunkFrame (openAiChunkOf a no_delta (Some (finishReasonOf r)))] @
     (if si_includeUsage a then [ChunkFrame (usage_chunk a u)] else []) @ [DoneFrame]"

definition openAiStreamFramesCore ::
  "stream_ids \<Rightarrow> stream_chunk \<Rightarrow> openai_stream \<Rightarrow> token_usage option \<Rightarrow> openai_frame list \<times> openai_stream" where
  "openAiStreamFramesCore a ch st0 u =
     (let first = role_frames a st0; st = st0\<lparr>firstSent := True\<rparr>
      in case ch of
           TextDelta i t \<Rightarrow> (first @ (if t \<noteq> [] then [chunk_frame a (no_delta\<lparr>d_content := Some t\<rparr>)] else []), st)
         | ReasoningDelta i t \<Rightarrow> (first @ (if t \<noteq> [] then [chunk_frame a (no_delta\<lparr>d_reasoning := Some t\<rparr>)] else []), st)
         | BlockEnd i (ToolCallBlock cid nm args) \<Rightarrow>
             (first @ [chunk_frame a (no_delta\<lparr>d_tool := Some \<lparr>dt_index = toolIndex st, dt_id = cid, dt_name = nm, dt_arguments = args\<rparr>\<rparr>)],
              st\<lparr>toolIndex := toolIndex st + 1, sawToolThisSpan := True\<rparr>)
         | Finish r rs \<Rightarrow> (first @ finish_frames a r u, st)
         | _ \<Rightarrow> (first, st))"

fun null_usage :: "openai_frame \<Rightarrow> openai_frame" where
  "null_usage (ChunkFrame c) = ChunkFrame (if ck_usage c = None then c\<lparr>ck_usage := Some None\<rparr> else c)"
| "null_usage f = f"

definition openAiStreamFrames ::
  "stream_ids \<Rightarrow> stream_chunk \<Rightarrow> openai_stream \<Rightarrow> token_usage option \<Rightarrow> openai_frame list \<times> openai_stream" where
  "openAiStreamFrames a ch st u =
     (let (fs, st1) = openAiStreamFramesCore a ch st u
      in (if si_includeUsage a then map null_usage fs else fs, st1))"

section \<open>The frame protocol\<close>

text \<open>
  The chunk stream as an automaton: first the role frame, then content, reasoning and tool-call frames
  with consecutive tool indexes, one frame with a finish reason, the usage frame exactly when it was asked
  for, and \<open>[DONE]\<close>; or, before any finish reason, one error body and \<open>[DONE]\<close>. Every chunk carries the same id,
  time and model, and its usage key is absent, null or filled as the request's options demand.
\<close>

datatype oa_phase = ONew | OBody nat | OFinished | OLast | OEnd

definition oa_labelled :: "stream_ids \<Rightarrow> openai_chunk \<Rightarrow> bool" where
  "oa_labelled a c = (ck_id c = si_id a \<and> ck_created c = si_created a \<and> ck_model c = si_model a)"

definition body_delta :: "nat \<Rightarrow> openai_delta \<Rightarrow> nat option" where
  "body_delta n d =
     (case (d_role d, d_content d, d_reasoning d, d_tool d) of
        (None, Some t, None, None) \<Rightarrow> if t \<noteq> [] then Some n else None
      | (None, None, Some t, None) \<Rightarrow> if t \<noteq> [] then Some n else None
      | (None, None, None, Some tc) \<Rightarrow> if dt_index tc = n then Some (n + 1) else None
      | _ \<Rightarrow> None)"

fun oa_chunk_step :: "stream_ids \<Rightarrow> oa_phase \<Rightarrow> openai_choice list \<Rightarrow> openai_usage option option \<Rightarrow> oa_phase option" where
  "oa_chunk_step a ONew [c] u =
     (if u = (if si_includeUsage a then Some None else None) \<and> ch_finish c = None \<and>
         ch_delta c = no_delta\<lparr>d_role := Some ''assistant'', d_content := Some []\<rparr> then Some (OBody 0) else None)"
| "oa_chunk_step a (OBody n) [c] u =
     (if u \<noteq> (if si_includeUsage a then Some None else None) then None
      else case ch_finish c of
             None \<Rightarrow> map_option OBody (body_delta n (ch_delta c))
           | Some r \<Rightarrow> if r \<in> {''stop'', ''length'', ''tool_calls''} \<and> ch_delta c = no_delta then Some OFinished else None)"
| "oa_chunk_step a OFinished [] (Some (Some v)) = (if si_includeUsage a then Some OLast else None)"
| "oa_chunk_step _ _ _ _ = None"

fun oa_step :: "stream_ids \<Rightarrow> oa_phase \<Rightarrow> openai_frame \<Rightarrow> oa_phase option" where
  "oa_step a p (ChunkFrame c) = (if oa_labelled a c then oa_chunk_step a p (ck_choices c) (ck_usage c) else None)"
| "oa_step a ONew (ErrorFrame b) = Some OLast"
| "oa_step a (OBody n) (ErrorFrame b) = Some OLast"
| "oa_step a OFinished DoneFrame = (if si_includeUsage a then None else Some OEnd)"
| "oa_step a OLast DoneFrame = Some OEnd"
| "oa_step _ _ _ = None"

fun oa_run :: "stream_ids \<Rightarrow> oa_phase \<Rightarrow> openai_frame list \<Rightarrow> oa_phase option" where
  "oa_run a p [] = Some p"
| "oa_run a p (f # fs) = (case oa_step a p f of None \<Rightarrow> None | Some q \<Rightarrow> oa_run a q fs)"

lemma oa_run_append: "oa_run a p (es @ fs) = (case oa_run a p es of None \<Rightarrow> None | Some q \<Rightarrow> oa_run a q fs)"
  by (induction es arbitrary: p) (auto split: option.splits)

definition oa_view :: "openai_stream \<Rightarrow> oa_phase" where
  "oa_view st = (if firstSent st then OBody (toolIndex st) else ONew)"

definition oa_good :: "openai_stream \<Rightarrow> bool" where
  "oa_good st = (\<not> firstSent st \<longrightarrow> toolIndex st = 0)"

lemmas frame_defs = chunk_frame_def openAiChunkOf_def role_frames_def usage_chunk_def finish_frames_def oa_labelled_def
  no_delta_def body_delta_def

lemma finishReasonOf_known: "finishReasonOf r = ''stop'' \<or> finishReasonOf r = ''length'' \<or> finishReasonOf r = ''tool_calls''"
  by (cases r) simp_all

lemma role_frames_run:
  "oa_good st \<Longrightarrow> oa_run a (oa_view st) (if si_includeUsage a then map null_usage (role_frames a st) else role_frames a st) =
     Some (oa_view (st\<lparr>firstSent := True\<rparr>))"
  by (auto simp: oa_view_def oa_good_def frame_defs)

text \<open>Every chunk but the finish leaves the stream inside the body; the finish completes it.\<close>

fun is_finish :: "stream_chunk \<Rightarrow> bool" where
  "is_finish (Finish r rs) = True"
| "is_finish _ = False"

lemma openAiStreamFrames_run:
  assumes "openAiStreamFrames a ch st u = (fs, st1)" "oa_good st"
  shows "oa_run a (oa_view st) fs = Some (if is_finish ch then OEnd else oa_view st1) \<and> oa_good st1 \<and> firstSent st1"
proof -
  note first = role_frames_run [OF assms(2), of a]
  show ?thesis
  proof (cases ch)
    case (BlockEnd i b)
    with assms first show ?thesis
      by (cases b) (auto simp: openAiStreamFrames_def openAiStreamFramesCore_def oa_run_append oa_view_def oa_good_def
          frame_defs Let_def split: if_splits)
  next
    case (Finish r rs)
    with assms first finishReasonOf_known [of r] show ?thesis
      by (auto simp: openAiStreamFrames_def openAiStreamFramesCore_def oa_run_append oa_view_def oa_good_def
          frame_defs Let_def split: if_splits)
  qed (use assms first in \<open>auto simp: openAiStreamFrames_def openAiStreamFramesCore_def oa_run_append oa_view_def oa_good_def
          frame_defs Let_def split: if_splits\<close>)
qed

end
