(* ===== verification/Message.thy ===== *)
theory Message
  imports Anthropic Completion
begin

text \<open>
  The response half of the Anthropic adapter, \<open>src/server/anthropic-adapter.ts\<close>: the message body assembled
  from a collected span, and the event sequence of the streaming form. \<open>JSON.parse\<close> is the parameter
  \<open>jparse\<close>, \<open>None\<close> where it throws.
\<close>

section \<open>Bodies\<close>

record anthropic_usage =
  an_input_tokens :: rat
  an_output_tokens :: rat
  cache_read_input_tokens :: "rat option"
  an_thinking_tokens :: "rat option"

datatype anthropic_block =
    ABText string
  | ABThinking string
  | ABToolUse string string json

record anthropic_message =
  am_id :: string
  am_model :: string
  am_content :: "anthropic_block list"
  am_stop_reason :: string
  am_stop_sequence :: "string option"
  am_usage :: anthropic_usage

record an_collected =
  ac_text :: string
  ac_thinking :: string
  ac_toolCalls :: "(string \<times> string \<times> string) list"
  ac_usage :: "token_usage option"
  ac_finish :: "finish_reason option"

definition an_collect_chunk :: "an_collected \<Rightarrow> stream_chunk \<Rightarrow> an_collected" where
  "an_collect_chunk c ch =
     (case ch of
        TextDelta i t \<Rightarrow> c\<lparr>ac_text := ac_text c @ t\<rparr>
      | ReasoningDelta i t \<Rightarrow> c\<lparr>ac_thinking := ac_thinking c @ t\<rparr>
      | BlockEnd i (ToolCallBlock cid nm a) \<Rightarrow> c\<lparr>ac_toolCalls := ac_toolCalls c @ [(cid, nm, a)]\<rparr>
      | UsageChunk u \<Rightarrow> c\<lparr>ac_usage := Some u\<rparr>
      | Finish r rs \<Rightarrow> c\<lparr>ac_finish := Some r\<rparr>
      | _ \<Rightarrow> c)"

definition collectAnthropicChunks :: "stream_chunk list \<Rightarrow> an_collected" where
  "collectAnthropicChunks chunks =
     foldl an_collect_chunk \<lparr>ac_text = [], ac_thinking = [], ac_toolCalls = [], ac_usage = None, ac_finish = None\<rparr> chunks"

definition mapAnthropicUsage :: "token_usage \<Rightarrow> anthropic_usage" where
  "mapAnthropicUsage u = \<lparr>an_input_tokens = inputTokens u, an_output_tokens = outputTokens u,
     cache_read_input_tokens = cacheReadTokens u, an_thinking_tokens = reasoningTokens u\<rparr>"

definition an_cut_stop :: "an_collected \<Rightarrow> string list \<Rightarrow> an_collected \<times> string option" where
  "an_cut_stop c stops =
     (case stop_scan (ac_text c) None stops of
        Some (keep, hit) \<Rightarrow> if ac_finish c = Some FStop then (c\<lparr>ac_text := take keep (ac_text c)\<rparr>, Some hit) else (c, None)
      | None \<Rightarrow> (c, None))"

text \<open>The test \<open>!stopHit\<close> is also true of an empty stop sequence.\<close>

definition applyFinishTransforms :: "an_collected \<Rightarrow> string list \<Rightarrow> int option \<Rightarrow> an_collected \<times> string option" where
  "applyFinishTransforms raw stops mt =
     (let (c, hit) = an_cut_stop raw stops
      in case mt of
           None \<Rightarrow> (c, hit)
         | Some m \<Rightarrow>
             if ac_finish c = Some FStop \<and> \<not> truthy_str hit then
               (let output = (case ac_usage c of Some u \<Rightarrow> outputTokens u | None \<Rightarrow> 0)
                in if output > of_int m \<and> ac_text c \<noteq> [] then
                     (let keep = keep_chars (length (ac_text c)) m output
                      in if keep < length (ac_text c)
                         then (c\<lparr>ac_text := take keep (ac_text c), ac_finish := Some FMaxTokens\<rparr>, hit) else (c, hit))
                   else (c, hit))
             else (c, hit))"

definition stopReasonOf :: "finish_reason \<Rightarrow> string option \<Rightarrow> string" where
  "stopReasonOf kind hit =
     (if hit \<noteq> None then ''stop_sequence''
      else case kind of FToolCalls \<Rightarrow> ''tool_use'' | FMaxTokens \<Rightarrow> ''max_tokens'' | _ \<Rightarrow> ''end_turn'')"

definition safeParse :: "(string \<Rightarrow> json option) \<Rightarrow> string \<Rightarrow> json" where
  "safeParse jparse s = or_else (jparse s) (JObj [])"

definition assembleMessage ::
  "(string \<Rightarrow> json option) \<Rightarrow> string \<Rightarrow> string \<Rightarrow> an_collected \<Rightarrow> string list \<Rightarrow> int option \<Rightarrow> anthropic_message" where
  "assembleMessage jparse i requestModel raw stops mt =
     (let (c, hit) = applyFinishTransforms raw stops mt;
          kind = (case ac_finish c of Some FToolCalls \<Rightarrow> FToolCalls | Some FMaxTokens \<Rightarrow> FMaxTokens | _ \<Rightarrow> FStop)
      in \<lparr>am_id = i, am_model = requestModel,
          am_content =
            (if ac_thinking c \<noteq> [] then [ABThinking (ac_thinking c)] else []) @
            (if ac_text c \<noteq> [] \<or> ac_toolCalls c = [] then [ABText (ac_text c)] else []) @
            map (\<lambda>(cid, nm, a). ABToolUse cid nm (safeParse jparse a)) (ac_toolCalls c),
          am_stop_reason = stopReasonOf kind hit, am_stop_sequence = hit,
          am_usage = mapAnthropicUsage (or_else (ac_usage c) zero_usage)\<rparr>)"

section \<open>Stream events\<close>

datatype an_type = TText | TThinking | TToolUse

datatype an_delta = TextDeltaE string | ThinkingDeltaE string | InputJsonDeltaE string

datatype an_event =
    MessageStart string string int
  | Ping
  | ContentBlockStart nat an_type "(string \<times> string) option"
  | ContentBlockDelta nat an_delta
  | ContentBlockStop nat
  | MessageDelta string "string option" rat "rat option"
  | MessageStop
  | ErrorEvent string string

record an_stream =
  messageStarted :: bool
  blockIndex :: nat
  an_open :: "an_type option"

record an_args =
  aa_id :: string
  aa_model :: string
  aa_inputTokens :: int

text \<open>Closing the open block, as every case of the switch does first.\<close>

definition stop_open :: "an_stream \<Rightarrow> an_event list \<times> an_stream" where
  "stop_open st =
     (if an_open st \<noteq> None then ([ContentBlockStop (blockIndex st)], st\<lparr>blockIndex := blockIndex st + 1\<rparr>) else ([], st))"

definition open_block :: "an_type \<Rightarrow> an_stream \<Rightarrow> an_event list \<times> an_stream" where
  "open_block ty st =
     (if an_open st = Some ty then ([], st)
      else let (es, st1) = stop_open st
        in (es @ [ContentBlockStart (blockIndex st1) ty None], st1\<lparr>an_open := Some ty\<rparr>))"

definition message_start :: "an_args \<Rightarrow> an_stream \<Rightarrow> an_event list" where
  "message_start a st = (if messageStarted st then [] else [MessageStart (aa_id a) (aa_model a) (aa_inputTokens a)])"

definition anthropicStreamErrorEvent :: "string \<Rightarrow> string \<Rightarrow> an_event" where
  "anthropicStreamErrorEvent msg ty = ErrorEvent ty msg"

definition finish_events :: "finish_reason \<Rightarrow> token_usage option \<Rightarrow> string option \<Rightarrow> an_event list" where
  "finish_events r u stopSeq =
     (case r of
        FError f \<Rightarrow> [anthropicStreamErrorEvent (message f) (snd (anthropicStatusFor (code f) (message f)))]
      | FAborted f \<Rightarrow> [anthropicStreamErrorEvent (message f) (snd (anthropicStatusFor (code f) (message f)))]
      | _ \<Rightarrow> (let au = mapAnthropicUsage (or_else u zero_usage)
             in [MessageDelta (stopReasonOf r stopSeq) stopSeq (an_output_tokens au) (an_thinking_tokens au), MessageStop]))"

definition anthropicStreamEvents ::
  "an_args \<Rightarrow> stream_chunk \<Rightarrow> an_stream \<Rightarrow> token_usage option \<Rightarrow> string option \<Rightarrow> an_event list \<times> an_stream" where
  "anthropicStreamEvents a ch st0 u stopSeq =
     (let first = message_start a st0; st = st0\<lparr>messageStarted := True\<rparr>
      in case ch of
           ReasoningDelta i t \<Rightarrow>
             (let (es, st1) = open_block TThinking st
              in (first @ es @ (if t \<noteq> [] then [ContentBlockDelta (blockIndex st1) (ThinkingDeltaE t)] else []), st1))
         | TextDelta i t \<Rightarrow>
             (let (es, st1) = open_block TText st
              in (first @ es @ (if t \<noteq> [] then [ContentBlockDelta (blockIndex st1) (TextDeltaE t)] else []), st1))
         | BlockEnd i (ToolCallBlock cid nm args) \<Rightarrow>
             (let (es, st1) = stop_open st; n = blockIndex st1
              in (first @ es @ [ContentBlockStart n TToolUse (Some (cid, nm)), ContentBlockDelta n (InputJsonDeltaE args), ContentBlockStop n],
                  st1\<lparr>blockIndex := n + 1, an_open := None\<rparr>))
         | Finish r rs \<Rightarrow>
             (let (es, st1) = stop_open st
              in (first @ es @ finish_events r u stopSeq, st1\<lparr>an_open := None\<rparr>))
         | _ \<Rightarrow> (first, st))"

section \<open>The event protocol\<close>

text \<open>
  The Messages streaming protocol as an automaton: one \<open>message_start\<close>, then content blocks one at a time
  with consecutive indexes and deltas of the block's own type, then \<open>message_delta\<close> and \<open>message_stop\<close>; or an
  \<open>error\<close> event, which ends the sequence where it occurs. Nothing comes after that.
\<close>

datatype an_phase = ANew | ABody nat "an_type option" | ADelta | AEnd

fun delta_type :: "an_delta \<Rightarrow> an_type" where
  "delta_type (TextDeltaE t) = TText"
| "delta_type (ThinkingDeltaE t) = TThinking"
| "delta_type (InputJsonDeltaE t) = TToolUse"

fun an_step :: "an_phase \<Rightarrow> an_event \<Rightarrow> an_phase option" where
  "an_step ANew (MessageStart i m n) = Some (ABody 0 None)"
| "an_step (ABody n None) (ContentBlockStart i ty named) = (if i = n then Some (ABody n (Some ty)) else None)"
| "an_step (ABody n (Some ty)) (ContentBlockDelta i d) = (if i = n \<and> delta_type d = ty then Some (ABody n (Some ty)) else None)"
| "an_step (ABody n (Some ty)) (ContentBlockStop i) = (if i = n then Some (ABody (n + 1) None) else None)"
| "an_step (ABody n None) (MessageDelta r s o1 t) = Some ADelta"
| "an_step ANew (ErrorEvent ty m) = Some AEnd"
| "an_step (ABody n op) (ErrorEvent ty m) = Some AEnd"
| "an_step ADelta MessageStop = Some AEnd"
| "an_step _ _ = None"

fun an_run :: "an_phase \<Rightarrow> an_event list \<Rightarrow> an_phase option" where
  "an_run p [] = Some p"
| "an_run p (e # es) = (case an_step p e of None \<Rightarrow> None | Some q \<Rightarrow> an_run q es)"

lemma an_run_append: "an_run p (es @ fs) = (case an_run p es of None \<Rightarrow> None | Some q \<Rightarrow> an_run q fs)"
  by (induction es arbitrary: p) (auto split: option.splits)

definition an_view :: "an_stream \<Rightarrow> an_phase" where
  "an_view st = (if messageStarted st then ABody (blockIndex st) (an_open st) else ANew)"

definition an_good :: "an_stream \<Rightarrow> bool" where
  "an_good st = ((\<not> messageStarted st \<longrightarrow> blockIndex st = 0 \<and> an_open st = None) \<and> an_open st \<noteq> Some TToolUse)"

lemma stop_open_run:
  "messageStarted st \<Longrightarrow> stop_open st = (es, st1) \<Longrightarrow>
     an_run (an_view st) es = Some (ABody (blockIndex st1) None) \<and> messageStarted st1 \<and> an_open st1 = an_open st"
  by (auto simp: stop_open_def an_view_def split: if_splits)

lemma open_block_run:
  "messageStarted st \<Longrightarrow> open_block ty st = (es, st1) \<Longrightarrow>
     an_run (an_view st) es = Some (ABody (blockIndex st1) (Some ty)) \<and> messageStarted st1 \<and> an_open st1 = Some ty"
  by (auto simp: open_block_def an_view_def stop_open_def split: if_splits prod.splits)

lemma message_start_run:
  "an_good st \<Longrightarrow> an_run (an_view st) (message_start a st) = Some (an_view (st\<lparr>messageStarted := True\<rparr>))"
  by (auto simp: message_start_def an_view_def an_good_def)

text \<open>Every chunk but the finish leaves the sequence inside the body; the finish completes it.\<close>

lemma anthropicStreamEvents_run:
  assumes "anthropicStreamEvents a ch st u ss = (es, st1)" "an_good st"
  shows "an_run (an_view st) es = Some (if is_finish ch then AEnd else an_view st1) \<and> an_good st1 \<and> messageStarted st1"
proof -
  let ?st = "st\<lparr>messageStarted := True\<rparr>"
  have g: "messageStarted ?st" "an_open ?st \<noteq> Some TToolUse" using assms(2) by (auto simp: an_good_def)
  note first = message_start_run [OF assms(2), of a]
  show ?thesis
  proof (cases ch)
    case (TextDelta i t)
    obtain es1 st2 where o: "open_block TText ?st = (es1, st2)" by (cases "open_block TText ?st")
    with TextDelta assms(1) open_block_run [OF g(1) o] first show ?thesis
      by (auto simp: anthropicStreamEvents_def an_run_append an_good_def an_view_def [of st1] Let_def)
  next
    case (ReasoningDelta i t)
    obtain es1 st2 where o: "open_block TThinking ?st = (es1, st2)" by (cases "open_block TThinking ?st")
    with ReasoningDelta assms(1) open_block_run [OF g(1) o] first show ?thesis
      by (auto simp: anthropicStreamEvents_def an_run_append an_good_def an_view_def [of st1] Let_def)
  next
    case (BlockEnd i b)
    obtain es1 st2 where o: "stop_open ?st = (es1, st2)" by (cases "stop_open ?st")
    with BlockEnd assms(1) stop_open_run [OF g(1) o] first g show ?thesis
      by (cases b) (auto simp: anthropicStreamEvents_def an_run_append an_good_def an_view_def [of st1] Let_def)
  next
    case (Finish r rs)
    obtain es1 st2 where o: "stop_open ?st = (es1, st2)" by (cases "stop_open ?st")
    with Finish assms(1) stop_open_run [OF g(1) o] first g show ?thesis
      by (cases r) (auto simp: anthropicStreamEvents_def finish_events_def anthropicStreamErrorEvent_def an_run_append
          an_good_def Let_def)
  qed (use assms(1) first g in \<open>auto simp: anthropicStreamEvents_def an_good_def Let_def\<close>)
qed

end
