(* ===== verification/Legs.thy ===== *)
theory Legs
  imports Message
begin

text \<open>
  The streaming routes of \<open>src/server/app.ts\<close>: \<open>streamOpenAiChat\<close> and \<open>streamAnthropicMessages\<close>. Both run the
  same loop over the engine's chunks, with the stop-sequence holdback and the output budget in between; they
  differ in how a chunk is written and in what a failed span writes. So the loop is one definition with the
  two as arguments.

  The engine's side is the list of chunks it yields and what it throws after them, if anything. The frames
  are those handed to the SSE writer. \<open>lg_abort\<close> records that the loop aborted the run because its budget was
  spent.
\<close>

section \<open>The guarded loop\<close>

record 's leg =
  lg_state :: 's
  lg_usage :: "token_usage option"
  lg_hold :: "char holdback option"
  lg_budget :: "output_budget option"
  lg_stop :: "string option"
  lg_cut :: bool
  lg_kind :: string
  lg_abort :: bool

definition new_leg :: "'s \<Rightarrow> request_meta \<Rightarrow> 's leg" where
  "new_leg st meta = \<lparr>lg_state = st, lg_usage = None,
     lg_hold = (if stop meta \<noteq> [] then Some (new_holdback (stop meta)) else None),
     lg_budget = map_option new_budget (maxTokens meta), lg_stop = None, lg_cut = False, lg_kind = ''stop'', lg_abort = False\<rparr>"

fun finish_kind :: "finish_reason \<Rightarrow> string" where
  "finish_kind FStop = ''stop''"
| "finish_kind FToolCalls = ''tool-calls''"
| "finish_kind FMaxTokens = ''max-tokens''"
| "finish_kind (FAborted f) = ''aborted''"
| "finish_kind (FError f) = ''error''"

fun charged_text :: "stream_chunk \<Rightarrow> string option" where
  "charged_text (TextDelta i t) = Some t"
| "charged_text (ReasoningDelta i t) = Some t"
| "charged_text (BlockEnd i (ToolCallBlock c n a)) = Some a"
| "charged_text _ = None"

definition charge_raw :: "stream_chunk \<Rightarrow> 's leg \<Rightarrow> 's leg" where
  "charge_raw raw l =
     (case (lg_budget l, charged_text raw) of
        (Some b, Some t) \<Rightarrow>
          if lg_cut l then l else (let (cut, b1) = charge b (units t) in l\<lparr>lg_budget := Some b1, lg_cut := cut\<rparr>)
      | _ \<Rightarrow> l)"

text \<open>What a span is charged, as the guarded loop estimates it, and a budget that these charges do not use up.\<close>

definition spent_on :: "stream_chunk list \<Rightarrow> int" where
  "spent_on cs = sum_list (map (\<lambda>c. case charged_text c of Some t \<Rightarrow> estimateTokens (units t) | None \<Rightarrow> 0) cs)"

definition fits :: "output_budget option \<Rightarrow> stream_chunk list \<Rightarrow> bool" where
  "fits b cs = (case b of None \<Rightarrow> True | Some b \<Rightarrow> spent b + spent_on cs < max_tokens b)"

definition within_budget :: "int option \<Rightarrow> stream_chunk list \<Rightarrow> bool" where
  "within_budget mt cs = fits (map_option new_budget mt) cs"

type_synonym ('s, 'f) emitter = "'s leg \<Rightarrow> stream_chunk \<Rightarrow> 'f list \<times> 's leg"

text \<open>\<open>holdback.close()\<close> with its tail written: the frames, the sequence that matched.\<close>

definition flush_hold :: "('s, 'f) emitter \<Rightarrow> 's leg \<Rightarrow> 'f list \<times> string option \<times> 's leg" where
  "flush_hold emit l =
     (case lg_hold l of
        None \<Rightarrow> ([], None, l)
      | Some h \<Rightarrow>
          (let (tail, m, h1) = close h; l1 = l\<lparr>lg_hold := Some h1\<rparr>
           in if tail \<noteq> [] then (let (fs, l2) = emit l1 (TextDelta 0 tail) in (fs, m, l2)) else ([], m, l1)))"

definition finish_leg :: "('s, 'f) emitter \<Rightarrow> finish_reason \<Rightarrow> stream_chunk \<Rightarrow> 's leg \<Rightarrow> 'f list \<times> 's leg" where
  "finish_leg emit r raw l =
     (let (fs, m, l1) = flush_hold emit l;
          l2 = (if m \<noteq> None \<and> r \<noteq> FToolCalls then l1\<lparr>lg_stop := m\<rparr> else l1);
          (gs, l3) = emit l2 (if lg_cut l2 \<or> lg_stop l2 \<noteq> None
                              then Finish (if lg_cut l2 then FMaxTokens else FStop) None else raw)
      in (fs @ gs, l3))"

definition cut_leg :: "('s, 'f) emitter \<Rightarrow> 's leg \<Rightarrow> 'f list \<times> 's leg" where
  "cut_leg emit l =
     (let (fs, m, l1) = flush_hold emit (l\<lparr>lg_abort := True\<rparr>);
          (gs, l2) = emit (l1\<lparr>lg_kind := ''max-tokens''\<rparr>) (Finish FMaxTokens None)
      in (fs @ gs, l2))"

definition forward :: "('s, 'f) emitter \<Rightarrow> stream_chunk \<Rightarrow> 's leg \<Rightarrow> 'f list \<times> 's leg" where
  "forward emit raw l =
     (case (raw, lg_hold l) of
        (TextDelta i t, Some h) \<Rightarrow> (let (out, h1) = push h t in emit (l\<lparr>lg_hold := Some h1\<rparr>) (TextDelta i out))
      | _ \<Rightarrow> emit l raw)"

text \<open>One turn of the loop; the flag says that the loop is left.\<close>

definition leg_step ::
  "('s, 'f) emitter \<Rightarrow> ('s leg \<Rightarrow> stream_chunk \<Rightarrow> llm_failure \<Rightarrow> 'f list \<times> 's leg) \<Rightarrow> stream_chunk \<Rightarrow> 's leg \<Rightarrow>
   'f list \<times> 's leg \<times> bool" where
  "leg_step emit fail raw l0 =
     (case raw of
        UsageChunk u \<Rightarrow> ([], l0\<lparr>lg_usage := Some u\<rparr>, False)
      | Finish r rs \<Rightarrow>
          (let l = (charge_raw raw l0)\<lparr>lg_kind := finish_kind r\<rparr>
           in case r of
                FError f \<Rightarrow> (let (fs, l1) = fail l raw f in (fs, l1, True))
              | FAborted f \<Rightarrow> (let (fs, l1) = fail l raw f in (fs, l1, True))
              | _ \<Rightarrow> (let (fs, l1) = finish_leg emit r raw l in (fs, l1, False)))
      | _ \<Rightarrow>
          (let l = charge_raw raw l0; (fs, l1) = forward emit raw l
           in if lg_cut l1 then (let (gs, l2) = cut_leg emit l1 in (fs @ gs, l2, True)) else (fs, l1, False)))"

fun leg_loop ::
  "('s, 'f) emitter \<Rightarrow> ('s leg \<Rightarrow> stream_chunk \<Rightarrow> llm_failure \<Rightarrow> 'f list \<times> 's leg) \<Rightarrow> stream_chunk list \<Rightarrow> 's leg \<Rightarrow>
   'f list \<times> 's leg \<times> bool" where
  "leg_loop emit fail [] l = ([], l, False)"
| "leg_loop emit fail (c # cs) l =
     (let (fs, l1, left) = leg_step emit fail c l
      in if left then (fs, l1, True) else (let (gs, l2, left2) = leg_loop emit fail cs l1 in (fs @ gs, l2, left2)))"

section \<open>What the engine may throw\<close>

datatype stream_throw = ThrownHttp http_error | ThrownEngine engine_error | ThrownError string | ThrownOther

section \<open>Chat completions\<close>

definition openai_emit :: "stream_ids \<Rightarrow> (openai_stream, openai_frame) emitter" where
  "openai_emit a l ch = (let (fs, st) = openAiStreamFrames a ch (lg_state l) (lg_usage l) in (fs, l\<lparr>lg_state := st\<rparr>))"

definition openai_fail :: "openai_stream leg \<Rightarrow> stream_chunk \<Rightarrow> llm_failure \<Rightarrow> openai_frame list \<times> openai_stream leg" where
  "openai_fail l raw f =
     (let b = err_body (engineFailureToHttp (message f) (code f) None)
      in ([ErrorFrame (openAiError (eb_message b) (eb_type b) (eb_code b)), DoneFrame], l))"

definition openai_caught :: "stream_throw \<Rightarrow> error_body" where
  "openai_caught e =
     (case e of
        ThrownHttp h \<Rightarrow> openAiError (eb_message (err_body h)) (eb_type (err_body h))
          (case err_body h of OpenAiErrorBody m t c \<Rightarrow> c | AnthropicErrorBody t m r \<Rightarrow> ''api_error'')
      | ThrownEngine g \<Rightarrow>
          (let b = err_body (engineFailureToHttp (redactLine (err_message g)) (err_is g) None)
           in openAiError (eb_message b) (eb_type b) (err_str (err_is g)))
      | ThrownError msg \<Rightarrow> openAiError (''Internal server error: '' @ redactLine msg) ''api_error'' ''internal_error''
      | ThrownOther \<Rightarrow> openAiError ''Internal server error'' ''api_error'' ''internal_error'')"

definition streamOpenAiChat ::
  "stream_ids \<Rightarrow> request_meta \<Rightarrow> stream_chunk list \<Rightarrow> stream_throw option \<Rightarrow> openai_frame list \<times> openai_stream leg" where
  "streamOpenAiChat a meta chunks thrown =
     (let (fs, l, left) = leg_loop (openai_emit a) openai_fail chunks
            (new_leg \<lparr>firstSent = False, toolIndex = 0, sawToolThisSpan = False\<rparr> meta)
      in case thrown of
           Some e \<Rightarrow> if left then (fs, l) else (fs @ [ErrorFrame (openai_caught e), DoneFrame], l)
         | None \<Rightarrow> (fs, l))"

section \<open>Messages\<close>

definition anthropic_emit :: "an_args \<Rightarrow> (an_stream, an_event) emitter" where
  "anthropic_emit a l ch =
     (let (es, st) = anthropicStreamEvents a ch (lg_state l) (lg_usage l) (lg_stop l) in (es, l\<lparr>lg_state := st\<rparr>))"

definition anthropic_fail :: "an_args \<Rightarrow> an_stream leg \<Rightarrow> stream_chunk \<Rightarrow> llm_failure \<Rightarrow> an_event list \<times> an_stream leg" where
  "anthropic_fail a l raw f =
     (let (es, m, l1) = flush_hold (anthropic_emit a) l; (gs, l2) = anthropic_emit a l1 raw in (es @ gs, l2))"

definition anthropic_caught :: "stream_throw \<Rightarrow> an_event" where
  "anthropic_caught e =
     (case e of
        ThrownHttp h \<Rightarrow> ErrorEvent (eb_type (err_body h)) (eb_message (err_body h))
      | ThrownEngine g \<Rightarrow>
          (let b = err_body (engineFailureToAnthropic (redactLine (err_message g)) (err_is g) None)
           in ErrorEvent (eb_type b) (eb_message b))
      | ThrownError msg \<Rightarrow> ErrorEvent ''api_error'' (''Internal server error: '' @ redactLine msg)
      | ThrownOther \<Rightarrow> ErrorEvent ''api_error'' ''Internal server error'')"

definition streamAnthropicMessages ::
  "an_args \<Rightarrow> request_meta \<Rightarrow> stream_chunk list \<Rightarrow> stream_throw option \<Rightarrow> an_event list \<times> an_stream leg" where
  "streamAnthropicMessages a meta chunks thrown =
     (let (es, l, left) = leg_loop (anthropic_emit a) (anthropic_fail a) chunks
            (new_leg \<lparr>messageStarted = False, blockIndex = 0, an_open = None\<rparr> meta)
      in case thrown of
           Some e \<Rightarrow> if left then (es, l) else (es @ [anthropic_caught e], l)
         | None \<Rightarrow> (es, l))"

section \<open>The interface of a chunk writer\<close>

definition deltas :: "stream_chunk list \<Rightarrow> string list" where
  "deltas cs = map_filter_opt (\<lambda>c. case c of TextDelta i t \<Rightarrow> Some t | _ \<Rightarrow> None) cs"

text \<open>The text an optional holdback lets through, what it still holds and what it matched.\<close>

definition hold_run :: "char holdback option \<Rightarrow> string list \<Rightarrow> string \<times> char holdback option" where
  "hold_run ho ts = (case ho of None \<Rightarrow> (concat ts, None) | Some h \<Rightarrow> (let (out, h1) = pushes h ts in (out, Some h1)))"

definition hold_tail :: "char holdback option \<Rightarrow> string" where
  "hold_tail ho = (case ho of None \<Rightarrow> [] | Some h \<Rightarrow> fst (close h))"

definition hold_hit :: "char holdback option \<Rightarrow> string option" where
  "hold_hit ho = (case ho of None \<Rightarrow> None | Some h \<Rightarrow> fst (snd (close h)))"

definition hold_all :: "char holdback option \<Rightarrow> string list \<Rightarrow> string" where
  "hold_all ho ts = fst (hold_run ho ts) @ hold_tail (snd (hold_run ho ts))"

lemma deltas_append: "deltas (xs @ ys) = deltas xs @ deltas ys"
  by (induction xs) (auto simp: deltas_def split: option.splits)

lemma deltas_Nil [simp]: "deltas [] = []"
  by (simp add: deltas_def)

lemma hold_run_Nil [simp]: "hold_run ho [] = ([], ho)"
  by (simp add: hold_run_def split: option.splits)

lemma hold_run_append:
  "hold_run ho (ts @ us) = (let (o1, ho1) = hold_run ho ts; (o2, ho2) = hold_run ho1 us in (o1 @ o2, ho2))"
proof (cases ho)
  case (Some h)
  have "pushes h (ts @ us) = (let (o1, h1) = pushes h ts; (o2, h2) = pushes h1 us in (o1 @ o2, h2))"
    by (induction ts arbitrary: h) (auto simp: Let_def split: prod.splits)
  with Some show ?thesis by (auto simp: hold_run_def Let_def split: prod.splits)
qed (simp add: hold_run_def)

lemma hold_all_stops:
  "hold_all (if stops \<noteq> [] then Some (new_holdback stops) else None) ts = fst (stream_stops stops ts)"
  "hold_hit (snd (hold_run (if stops \<noteq> [] then Some (new_holdback stops) else None) ts)) = snd (stream_stops stops ts)"
proof -
  have e: "stream_stops [] ts = (concat ts, None)"
  proof -
    obtain out m where r: "stream_stops [] ts = (out, m)" by (cases "stream_stops [] ts")
    then have "out = concat ts \<and> m = None" by (cases rule: stream_stops_cases) (auto simp: best_of_def)
    with r show ?thesis by simp
  qed
  show "hold_all (if stops \<noteq> [] then Some (new_holdback stops) else None) ts = fst (stream_stops stops ts)"
    "hold_hit (snd (hold_run (if stops \<noteq> [] then Some (new_holdback stops) else None) ts)) = snd (stream_stops stops ts)"
    using e by (auto simp: hold_all_def hold_run_def hold_tail_def hold_hit_def stream_stops_def Let_def split: prod.splits)
qed

text \<open>
  What the loop relies on: the frames of a chunk are legal after those before it, the finish chunk
  completes the sequence, and the text of the frames is the text of the chunk.
\<close>

lemma spent_on_nonneg: "0 \<le> spent_on cs"
  by (induction cs) (auto simp: spent_on_def estimateTokens_nonneg split: option.splits)

lemma spent_on_append: "spent_on (cs @ ds) = spent_on cs + spent_on ds"
  by (simp add: spent_on_def)

lemma fits_append: "fits b (cs @ ds) \<Longrightarrow> fits b cs"
  using spent_on_nonneg [of ds] by (auto simp: fits_def spent_on_append split: option.splits)

locale chunk_writer =
  fixes emit :: "('s, 'f) emitter"
    and run :: "'p \<Rightarrow> 'f list \<Rightarrow> 'p option"
    and view :: "'s \<Rightarrow> 'p"
    and good :: "'s \<Rightarrow> bool"
    and ended :: 'p
    and frame_text :: "'f \<Rightarrow> string"
  assumes run_nil: "run p [] = Some p"
    and run_append: "run p (fs @ gs) = (case run p fs of None \<Rightarrow> None | Some q \<Rightarrow> run q gs)"
    and emit_leg: "emit l c = (fs, l1) \<Longrightarrow> \<exists>st. l1 = l\<lparr>lg_state := st\<rparr>"
    and emit_run: "good (lg_state l) \<Longrightarrow> emit l c = (fs, l1) \<Longrightarrow>
      run (view (lg_state l)) fs = Some (if is_finish c then ended else view (lg_state l1)) \<and> good (lg_state l1)"
    and emit_text: "emit l c = (fs, l1) \<Longrightarrow> concat (map frame_text fs) = concat (deltas [c])"
begin

lemma flush_run:
  assumes "good (lg_state l)" "flush_hold emit l = (fs, m, l1)"
  shows "run (view (lg_state l)) fs = Some (view (lg_state l1)) \<and> good (lg_state l1)"
  using assms emit_run [of "l\<lparr>lg_hold := h\<rparr>" for h]
  by (fastforce simp: flush_hold_def run_nil Let_def split: option.splits prod.splits if_splits)

lemma finish_run:
  assumes "good (lg_state l)" "finish_leg emit r (Finish r rs) l = (fs, l1)"
  shows "run (view (lg_state l)) fs = Some ended"
proof -
  obtain f1 m l2 where f: "flush_hold emit l = (f1, m, l2)" by (cases "flush_hold emit l")
  let ?l3 = "if m \<noteq> None \<and> r \<noteq> FToolCalls then l2\<lparr>lg_stop := m\<rparr> else l2"
  let ?ch = "if lg_cut ?l3 \<or> lg_stop ?l3 \<noteq> None then Finish (if lg_cut ?l3 then FMaxTokens else FStop) None else Finish r rs"
  obtain g l4 where g: "emit ?l3 ?ch = (g, l4)" by (cases "emit ?l3 ?ch")
  from flush_run [OF assms(1) f] have "good (lg_state ?l3)" by simp
  from emit_run [OF this g] flush_run [OF assms(1) f] assms(2) f g show ?thesis
    by (auto simp: finish_leg_def run_append Let_def split: if_splits)
qed

lemma cut_run:
  assumes "good (lg_state l)" "cut_leg emit l = (fs, l1)"
  shows "run (view (lg_state l)) fs = Some ended"
proof -
  obtain f1 m l2 where f: "flush_hold emit (l\<lparr>lg_abort := True\<rparr>) = (f1, m, l2)" by (cases "flush_hold emit (l\<lparr>lg_abort := True\<rparr>)")
  obtain g l3 where g: "emit (l2\<lparr>lg_kind := ''max-tokens''\<rparr>) (Finish FMaxTokens None) = (g, l3)"
    by (cases "emit (l2\<lparr>lg_kind := ''max-tokens''\<rparr>) (Finish FMaxTokens None)")
  from flush_run [OF _ f] assms(1) have 1: "run (view (lg_state l)) f1 = Some (view (lg_state l2))" "good (lg_state l2)"
    by simp_all
  from emit_run [OF _ g] 1 assms(2) f g show ?thesis by (auto simp: cut_leg_def run_append Let_def)
qed

lemma forward_cases:
  obtains (held) i t h out h1 where "c = TextDelta i t" "lg_hold l = Some h" "push h t = (out, h1)"
      "forward emit c l = emit (l\<lparr>lg_hold := Some h1\<rparr>) (TextDelta i out)"
    | (plain) "forward emit c l = emit l c" "\<And>i t. c = TextDelta i t \<Longrightarrow> lg_hold l = None"
proof (cases "\<exists>i t h. c = TextDelta i t \<and> lg_hold l = Some h")
  case True
  then obtain i t h where "c = TextDelta i t" "lg_hold l = Some h" by blast
  then show thesis by (cases "push h t") (auto intro!: held simp: forward_def)
next
  case False
  then show thesis by (intro plain) (auto simp: forward_def split: stream_chunk.splits option.splits)
qed

lemma forward_run:
  assumes "good (lg_state l)" "\<not> is_finish c" "forward emit c l = (fs, l1)"
  shows "run (view (lg_state l)) fs = Some (view (lg_state l1)) \<and> good (lg_state l1)"
proof (cases rule: forward_cases [of c l])
  case (held i t h out h1)
  with assms emit_run [of "l\<lparr>lg_hold := Some h1\<rparr>" "TextDelta i out" fs l1] show ?thesis by simp
next
  case plain
  with assms emit_run [of l c fs l1] show ?thesis by simp
qed

lemma charge_state [simp]: "lg_state (charge_raw c l) = lg_state l"
  by (auto simp: charge_raw_def Let_def split: option.splits prod.splits)

abbreviation frames_text :: "'f list \<Rightarrow> string" where
  "frames_text fs \<equiv> concat (map frame_text fs)"

lemma flush_text:
  assumes "flush_hold emit l = (fs, m, l1)"
  shows "frames_text fs = hold_tail (lg_hold l) \<and> m = hold_hit (lg_hold l) \<and>
    lg_cut l1 = lg_cut l \<and> lg_stop l1 = lg_stop l \<and> lg_abort l1 = lg_abort l"
proof (cases "lg_hold l")
  case (Some h)
  obtain tail m1 h1 where c: "close h = (tail, m1, h1)" by (cases "close h")
  obtain g l2 where e: "emit (l\<lparr>lg_hold := Some h1\<rparr>) (TextDelta 0 tail) = (g, l2)"
    by (cases "emit (l\<lparr>lg_hold := Some h1\<rparr>) (TextDelta 0 tail)")
  from assms Some c e have r: "(fs, m, l1) = (if tail \<noteq> [] then (g, m1, l2) else ([], m1, l\<lparr>lg_hold := Some h1\<rparr>))"
    by (simp add: flush_hold_def Let_def split: if_splits)
  from emit_text [OF e] have "frames_text g = tail" by (simp add: deltas_def)
  with r emit_leg [OF e] Some c show ?thesis by (auto simp: hold_tail_def hold_hit_def split: if_splits)
qed (use assms in \<open>auto simp: flush_hold_def hold_tail_def hold_hit_def\<close>)

lemma forward_text:
  assumes "forward emit c l = (fs, l1)"
  shows "(frames_text fs, lg_hold l1) = hold_run (lg_hold l) (deltas [c]) \<and>
    lg_cut l1 = lg_cut l \<and> lg_stop l1 = lg_stop l \<and> lg_abort l1 = lg_abort l"
proof (cases rule: forward_cases [of c l])
  case (held i t h out h1)
  with assms emit_leg [of "l\<lparr>lg_hold := Some h1\<rparr>" "TextDelta i out" fs l1] emit_text [of "l\<lparr>lg_hold := Some h1\<rparr>" "TextDelta i out" fs l1]
  show ?thesis by (auto simp: hold_run_def deltas_def)
next
  case plain
  with assms emit_leg [of l c fs l1] emit_text [of l c fs l1] show ?thesis
    by (cases c) (auto simp: hold_run_def deltas_def split: option.splits)
qed

lemma charge_fields [simp]:
  "lg_hold (charge_raw c l) = lg_hold l" "lg_stop (charge_raw c l) = lg_stop l" "lg_abort (charge_raw c l) = lg_abort l"
  by (auto simp: charge_raw_def Let_def split: option.splits prod.splits)

lemma cut_text:
  assumes "cut_leg emit l = (fs, l1)"
  shows "frames_text fs = hold_tail (lg_hold l) \<and> lg_abort l1"
proof -
  obtain f1 m l2 where f: "flush_hold emit (l\<lparr>lg_abort := True\<rparr>) = (f1, m, l2)" by (cases "flush_hold emit (l\<lparr>lg_abort := True\<rparr>)")
  obtain g l3 where g: "emit (l2\<lparr>lg_kind := ''max-tokens''\<rparr>) (Finish FMaxTokens None) = (g, l3)"
    by (cases "emit (l2\<lparr>lg_kind := ''max-tokens''\<rparr>) (Finish FMaxTokens None)")
  from flush_text [OF f] emit_text [OF g] emit_leg [OF g] assms f g show ?thesis
    by (auto simp: cut_leg_def deltas_def)
qed

lemma body_step:
  assumes "\<not> is_finish c" "\<And>u. c \<noteq> UsageChunk u" "forward emit c (charge_raw c l) = (f1, l2)" "cut_leg emit l2 = (g, l3)"
  shows "leg_step emit fail c l = (if lg_cut l2 then (f1 @ g, l3, True) else (f1, l2, False))"
  using assms by (cases c) (auto simp: leg_step_def Let_def)

lemma step_text:
  assumes "\<not> is_finish c" "leg_step emit fail c l = (fs, l1, left)"
  shows "if left then frames_text fs = hold_all (lg_hold l) (deltas [c]) \<and> lg_abort l1
    else (frames_text fs, lg_hold l1) = hold_run (lg_hold l) (deltas [c]) \<and> lg_stop l1 = lg_stop l \<and> lg_abort l1 = lg_abort l \<and>
      (\<not> lg_cut l \<longrightarrow> \<not> lg_cut l1)"
proof (cases "\<exists>u. c = UsageChunk u")
  case True
  with assms show ?thesis by (auto simp: leg_step_def deltas_def)
next
  case False
  obtain f1 l2 where f: "forward emit c (charge_raw c l) = (f1, l2)" by (cases "forward emit c (charge_raw c l)")
  obtain g l3 where g: "cut_leg emit l2 = (g, l3)" by (cases "cut_leg emit l2")
  have "leg_step emit fail c l = (if lg_cut l2 then (f1 @ g, l3, True) else (f1, l2, False))"
    by (rule body_step [OF assms(1) _ f g]) (use False in blast)
  with forward_text [OF f] cut_text [OF g] assms(2) show ?thesis
    by (auto simp: hold_all_def split: if_splits dest: sym)
qed

text \<open>The text written for a span without its finish: all of it, or up to the chunk that spent the budget.\<close>

lemma loop_text:
  assumes "list_all (\<lambda>c. \<not> is_finish c) cs" "leg_loop emit fail cs l = (fs, l1, left)" "\<not> lg_cut l"
  shows "if left then (\<exists>n \<le> length cs. frames_text fs = hold_all (lg_hold l) (deltas (take n cs))) \<and> lg_abort l1
    else (frames_text fs, lg_hold l1) = hold_run (lg_hold l) (deltas cs) \<and> lg_stop l1 = lg_stop l \<and> lg_abort l1 = lg_abort l \<and> \<not> lg_cut l1"
  using assms
proof (induction cs arbitrary: l fs l1 left)
  case (Cons c cs)
  obtain f1 l2 left1 where s: "leg_step emit fail c l = (f1, l2, left1)" by (cases "leg_step emit fail c l")
  from Cons.prems(1) have c: "\<not> is_finish c" "list_all (\<lambda>c. \<not> is_finish c) cs" by simp_all
  note st = step_text [OF c(1) s]
  have d: "deltas (c # xs) = deltas [c] @ deltas xs" for xs using deltas_append [of "[c]" xs] by simp
  show ?case
  proof (cases left1)
    case True
    with s Cons.prems(2) st show ?thesis by (auto intro!: exI [of _ "Suc 0"])
  next
    case False
    obtain f2 l3 left2 where r: "leg_loop emit fail cs l2 = (f2, l3, left2)" by (cases "leg_loop emit fail cs l2")
    from False s r Cons.prems(2) have eq: "fs = f1 @ f2" "l1 = l3" "left = left2" by auto
    from False st Cons.prems(3) have h: "hold_run (lg_hold l) (deltas [c]) = (frames_text f1, lg_hold l2)" "\<not> lg_cut l2"
      "lg_stop l2 = lg_stop l" "lg_abort l2 = lg_abort l" by simp_all
    have all: "hold_all (lg_hold l) (deltas [c] @ us) = frames_text f1 @ hold_all (lg_hold l2) us" for us
      by (simp add: hold_all_def hold_run_append h(1) Let_def case_prod_unfold)
    show ?thesis
    proof (cases left)
      case True
      with Cons.IH [OF c(2) r h(2)] eq obtain n where "n \<le> length cs" "frames_text f2 = hold_all (lg_hold l2) (deltas (take n cs))" "lg_abort l1"
        by auto
      with True eq show ?thesis by (auto intro!: exI [of _ "Suc n"] simp: d [of "take n cs"] all)
    next
      case no: False
      with Cons.IH [OF c(2) r h(2)] eq h show ?thesis
        by (auto simp: d [of cs] hold_run_append Let_def split: prod.splits)
    qed
  qed
qed simp

text \<open>A span that stops normally, within its budget: the terminal frames report the sequence that matched.\<close>

lemma loop_append:
  "leg_loop emit fail (cs @ ds) l =
     (let (fs, l1, left) = leg_loop emit fail cs l
      in if left then (fs, l1, True) else (let (gs, l2, left2) = leg_loop emit fail ds l1 in (fs @ gs, l2, left2)))"
  by (induction cs arbitrary: l) (auto simp: Let_def split: prod.splits)

lemma finish_text:
  assumes "finish_leg emit r (Finish r rs) l = (fs, l1)"
  shows "\<exists>pre l2 g rs1. fs = pre @ g \<and> emit l2 (Finish (if lg_cut l then FMaxTokens else if lg_stop l2 \<noteq> None then FStop else r) rs1) = (g, l1) \<and>
    lg_stop l2 = (if hold_hit (lg_hold l) \<noteq> None \<and> r \<noteq> FToolCalls then hold_hit (lg_hold l) else lg_stop l) \<and>
    frames_text fs = hold_tail (lg_hold l) \<and> lg_abort l1 = lg_abort l"
proof -
  obtain f1 m l2 where f: "flush_hold emit l = (f1, m, l2)" by (cases "flush_hold emit l")
  let ?l3 = "if m \<noteq> None \<and> r \<noteq> FToolCalls then l2\<lparr>lg_stop := m\<rparr> else l2"
  let ?rs = "if lg_cut ?l3 \<or> lg_stop ?l3 \<noteq> None then None else rs"
  let ?r = "if lg_cut l then FMaxTokens else if lg_stop ?l3 \<noteq> None then FStop else r"
  note t = flush_text [OF f]
  obtain g l4 where g: "emit ?l3 (Finish ?r ?rs) = (g, l4)" by (cases "emit ?l3 (Finish ?r ?rs)")
  have c: "lg_cut ?l3 = lg_cut l" using t by simp
  have fin: "fs = f1 @ g \<and> l1 = l4"
    using assms f g c by (auto simp: finish_leg_def Let_def split: if_splits)
  have "lg_abort ?l3 = lg_abort l" using t by simp
  then have "lg_abort l4 = lg_abort l" using emit_leg [OF g] by (metis leg.select_convs(8) leg.surjective leg.update_convs(1))
  moreover have "frames_text g = []" using emit_text [OF g] by (simp add: deltas_def)
  ultimately show ?thesis
    using t fin g by (intro exI [of _ f1] exI [of _ ?l3] exI [of _ g] exI [of _ ?rs]) auto
qed

lemma span_text:
  assumes "list_all (\<lambda>c. \<not> is_finish c) cs" "leg_loop emit fail (cs @ [Finish r rs]) l = (fs, l1, left)" "\<not> lg_cut l"
    and "\<not> lg_abort l" "r = FStop \<or> r = FToolCalls \<or> r = FMaxTokens"
  shows "\<exists>n \<le> length cs. frames_text fs = hold_all (lg_hold l) (deltas (take n cs)) \<and> (lg_abort l1 \<or> n = length cs)"
proof -
  obtain f1 l2 left1 where c: "leg_loop emit fail cs l = (f1, l2, left1)" by (cases "leg_loop emit fail cs l")
  note t = loop_text [OF assms(1) c assms(3)]
  show ?thesis
  proof (cases left1)
    case True
    with assms(2) c t show ?thesis by (auto simp: loop_append)
  next
    case False
    let ?l = "(charge_raw (Finish r rs) l2)\<lparr>lg_kind := finish_kind r\<rparr>"
    obtain f2 l3 where f: "finish_leg emit r (Finish r rs) ?l = (f2, l3)" by (cases "finish_leg emit r (Finish r rs) ?l")
    from finish_text [OF f] have "frames_text f2 = hold_tail (lg_hold l2)" by auto
    moreover have "fs = f1 @ f2"
      using assms(2,5) c f False by (auto simp: loop_append leg_step_def Let_def)
    ultimately show ?thesis
      using t False by (intro exI [of _ "length cs"]) (auto simp: hold_all_def dest: sym)
  qed
qed

lemma charge_fits:
  assumes "fits (lg_budget l) (c # cs)" "\<not> lg_cut l"
  shows "\<not> lg_cut (charge_raw c l) \<and> fits (lg_budget (charge_raw c l)) cs"
proof (cases "\<exists>b t. lg_budget l = Some b \<and> charged_text c = Some t")
  case True
  then obtain b t where b: "lg_budget l = Some b" and t: "charged_text c = Some t" by blast
  let ?n = "estimateTokens (units t)"
  have room: "spent b + ?n + spent_on cs < max_tokens b" using assms(1) b t by (simp add: fits_def spent_on_def)
  then have "charge b (units t) = (False, b\<lparr>spent := spent b + ?n\<rparr>)"
    using spent_on_nonneg [of cs] estimateTokens_nonneg [of "units t"] by (simp add: charge_def Let_def)
  with room assms(2) b t show ?thesis by (simp add: charge_raw_def fits_def)
next
  case False
  with assms show ?thesis by (auto simp: charge_raw_def fits_def spent_on_def split: option.splits)
qed

lemma forward_budget: "forward emit c l = (fs, l1) \<Longrightarrow> lg_budget l1 = lg_budget l"
  by (cases rule: forward_cases [of c l]) (auto dest!: emit_leg [OF sym] emit_leg)

lemma loop_free:
  assumes "leg_loop emit fail cs l = (fs, l1, left)" "list_all (\<lambda>c. \<not> is_finish c) cs" "fits (lg_budget l) cs" "\<not> lg_cut l"
  shows "\<not> left"
  using assms
proof (induction cs arbitrary: l fs)
  case (Cons c cs)
  obtain f1 l2 where f: "forward emit c (charge_raw c l) = (f1, l2)" by (cases "forward emit c (charge_raw c l)")
  obtain g l3 where g: "cut_leg emit l2 = (g, l3)" by (cases "cut_leg emit l2")
  show ?case
  proof (cases "\<exists>u. c = UsageChunk u")
    case True
    then obtain u where u: "c = UsageChunk u" by blast
    let ?l = "l\<lparr>lg_usage := Some u\<rparr>"
    obtain f2 l4 left2 where r: "leg_loop emit fail cs ?l = (f2, l4, left2)" by (cases "leg_loop emit fail cs ?l")
    from Cons.prems u r have "leg_loop emit fail cs ?l = (f2, l1, left)" by (simp add: leg_step_def)
    from Cons.IH [OF this] Cons.prems u show ?thesis by (simp add: fits_def spent_on_def split: option.splits)
  next
    case False
    have s: "leg_step emit fail c l = (if lg_cut l2 then (f1 @ g, l3, True) else (f1, l2, False))"
      by (rule body_step [OF _ _ f g]) (use Cons.prems False in auto)
    have n: "\<not> lg_cut l2" "fits (lg_budget l2) cs"
      using forward_text [OF f] forward_budget [OF f] charge_fits [OF Cons.prems(3,4)] by simp_all
    obtain f2 l4 left2 where r: "leg_loop emit fail cs l2 = (f2, l4, left2)" by (cases "leg_loop emit fail cs l2")
    from Cons.prems(1) s n r have "leg_loop emit fail cs l2 = (f2, l1, left)" by simp
    from Cons.IH [OF this] Cons.prems n show ?thesis by simp
  qed
qed simp

text \<open>Within its budget a span that stops normally is written to its end.\<close>

lemma span_stop:
  assumes "list_all (\<lambda>c. \<not> is_finish c) cs" "leg_loop emit fail (cs @ [Finish FStop rs]) l = (fs, l1, left)"
    and "fits (lg_budget l) cs" "\<not> lg_cut l" "lg_stop l = None"
  shows "\<exists>pre l2 g rs1. fs = pre @ g \<and> emit l2 (Finish FStop rs1) = (g, l1) \<and>
    lg_stop l2 = hold_hit (snd (hold_run (lg_hold l) (deltas cs))) \<and> frames_text fs = hold_all (lg_hold l) (deltas cs)"
proof -
  obtain f1 l2 left1 where c: "leg_loop emit fail cs l = (f1, l2, left1)" by (cases "leg_loop emit fail cs l")
  from loop_free [OF c assms(1,3,4)] have nl: "\<not> left1" by simp
  with loop_text [OF assms(1) c assms(4)] have h: "hold_run (lg_hold l) (deltas cs) = (frames_text f1, lg_hold l2)"
    "lg_stop l2 = None" "\<not> lg_cut l2" using assms(5) by simp_all
  let ?l = "(charge_raw (Finish FStop rs) l2)\<lparr>lg_kind := finish_kind FStop\<rparr>"
  obtain f2 l3 where f: "finish_leg emit FStop (Finish FStop rs) ?l = (f2, l3)" by (cases "finish_leg emit FStop (Finish FStop rs) ?l")
  have cut: "\<not> lg_cut ?l" using h(3) by (simp add: charge_raw_def split: option.splits)
  have eq: "fs = f1 @ f2" "l1 = l3" using assms(2) c f nl by (auto simp: loop_append leg_step_def)
  from finish_text [OF f] obtain pre l4 g rs1 where
    g: "f2 = pre @ g" "emit l4 (Finish FStop rs1) = (g, l3)" "lg_stop l4 = hold_hit (lg_hold l2)" "frames_text f2 = hold_tail (lg_hold l2)"
    using cut h(2) by (auto split: if_splits)
  then show ?thesis using eq h(1) by (intro exI [of _ "f1 @ pre"] exI [of _ l4] exI [of _ g] exI [of _ rs1]) (simp add: hold_all_def)
qed

lemma span_fail:
  assumes "list_all (\<lambda>c. \<not> is_finish c) cs" "leg_loop emit fail (cs @ [Finish r rs]) l = (fs, l1, left)"
    and "fits (lg_budget l) cs" "\<not> lg_cut l" "r = FError f \<or> r = FAborted f"
  shows "\<exists>pre l2. fs = pre @ fst (fail l2 (Finish r rs) f)"
proof -
  obtain f1 l2 left1 where c: "leg_loop emit fail cs l = (f1, l2, left1)" by (cases "leg_loop emit fail cs l")
  from loop_free [OF c assms(1,3,4)] have "\<not> left1" by simp
  with assms(2,5) c show ?thesis
    by (auto simp: loop_append leg_step_def Let_def split: prod.splits) (metis fst_conv)+
qed

end

locale failing_writer = chunk_writer emit run view good ended frame_text
  for emit :: "('s, 'f) emitter"
    and run :: "'p \<Rightarrow> 'f list \<Rightarrow> 'p option"
    and view :: "'s \<Rightarrow> 'p"
    and good :: "'s \<Rightarrow> bool"
    and ended :: 'p
    and frame_text :: "'f \<Rightarrow> string" +
  fixes fail :: "'s leg \<Rightarrow> stream_chunk \<Rightarrow> llm_failure \<Rightarrow> 'f list \<times> 's leg"
  assumes fail_run: "good (lg_state l) \<Longrightarrow> fail l (Finish r rs) f = (fs, l1) \<Longrightarrow> r = FError f \<or> r = FAborted f \<Longrightarrow>
      run (view (lg_state l)) fs = Some ended"
begin

lemma step_run:
  assumes "good (lg_state l)" "leg_step emit fail c l = (fs, l1, left)"
  shows "if left \<or> is_finish c then run (view (lg_state l)) fs = Some ended
    else run (view (lg_state l)) fs = Some (view (lg_state l1)) \<and> good (lg_state l1)"
proof (cases "is_finish c")
  case True
  then obtain r rs where c: "c = Finish r rs" by (cases c) auto
  let ?l = "(charge_raw c l)\<lparr>lg_kind := finish_kind r\<rparr>"
  have g: "good (lg_state ?l)" using assms(1) by simp
  show ?thesis
    using assms(2) c finish_run [OF g, of r rs] fail_run [OF g, of r rs]
    by (cases r) (auto simp: leg_step_def Let_def split: prod.splits)
next
  case False
  show ?thesis
  proof (cases "\<exists>u. c = UsageChunk u")
    case True
    with assms show ?thesis by (auto simp: leg_step_def run_nil)
  next
    case no_usage: False
    obtain f1 l2 where f: "forward emit c (charge_raw c l) = (f1, l2)" by (cases "forward emit c (charge_raw c l)")
    obtain g l3 where g: "cut_leg emit l2 = (g, l3)" by (cases "cut_leg emit l2")
    have "leg_step emit fail c l = (if lg_cut l2 then (f1 @ g, l3, True) else (f1, l2, False))"
      by (rule body_step [OF False _ f g]) (use no_usage in blast)
    with forward_run [OF _ False f] cut_run [OF _ g] assms False show ?thesis
      by (auto simp: run_append split: if_splits)
  qed
qed

text \<open>A span that ends with its only finish chunk is written as a complete sequence.\<close>

lemma loop_run:
  assumes "good (lg_state l)" "list_all (\<lambda>c. \<not> is_finish c) cs" "leg_loop emit fail cs l = (fs, l1, left)"
  shows "if left then run (view (lg_state l)) fs = Some ended
    else run (view (lg_state l)) fs = Some (view (lg_state l1)) \<and> good (lg_state l1)"
  using assms
proof (induction cs arbitrary: l fs l1 left)
  case (Cons c cs)
  obtain f1 l2 left1 where s: "leg_step emit fail c l = (f1, l2, left1)" by (cases "leg_step emit fail c l")
  from Cons.prems(2) have c: "\<not> is_finish c" "list_all (\<lambda>c. \<not> is_finish c) cs" by simp_all
  show ?case
  proof (cases left1)
    case True
    with s Cons.prems(3) step_run [OF Cons.prems(1) s] show ?thesis by auto
  next
    case False
    obtain f2 l3 left2 where r: "leg_loop emit fail cs l2 = (f2, l3, left2)" by (cases "leg_loop emit fail cs l2")
    from step_run [OF Cons.prems(1) s] False c Cons.IH [OF _ c(2) r] r s Cons.prems(3) show ?thesis
      by (auto simp: run_append split: if_splits)
  qed
qed (simp add: run_nil)

lemma span_run:
  assumes "good (lg_state l)" "list_all (\<lambda>c. \<not> is_finish c) cs" "leg_loop emit fail (cs @ [Finish r rs]) l = (fs, l1, left)"
  shows "run (view (lg_state l)) fs = Some ended"
proof -
  obtain f1 l2 left1 where c: "leg_loop emit fail cs l = (f1, l2, left1)" by (cases "leg_loop emit fail cs l")
  obtain f2 l3 left2 where s: "leg_step emit fail (Finish r rs) l2 = (f2, l3, left2)"
    by (cases "leg_step emit fail (Finish r rs) l2")
  from assms(3) c s have fs: "fs = (if left1 then f1 else f1 @ f2)"
    by (auto simp: loop_append Let_def split: if_splits)
  show ?thesis
    using loop_run [OF assms(1,2) c] step_run [OF _ s] fs by (auto simp: run_append split: if_splits)
qed

end

end
