(* ===== verification/Routes.thy ===== *)
theory Routes
  imports Legs Spans
begin

text \<open>
  The generation routes of \<open>src/server/app.ts\<close> with its error handler, the two streaming forms against their
  protocols, and their agreement with the non-streaming forms.

  The engine is an argument of a route: what \<open>engine.stream\<close> yields for a call and what it throws after that.
  Request ids, response ids and the clock are arguments too.
\<close>

section \<open>The error handler\<close>

datatype handler_error =
    GatewayError http_error
  | OtherError string "nat option" bool

datatype reply_body = ApiError error_body | AdminError string

definition onError :: "string \<Rightarrow> string \<Rightarrow> string option \<Rightarrow> handler_error \<Rightarrow> nat \<times> (string \<times> string) list \<times> reply_body" where
  "onError url rid contentType e =
     (case e of
        GatewayError h \<Rightarrow> (statusCode h, or_else (err_headers h) [], ApiError (stampRequestId (err_body h) rid))
      | OtherError msg st validation \<Rightarrow>
          if \<not> validation \<and> st = Some 415 then
            (let text = msg @ '' (content-type: '' @ or_else contentType ''unknown'' @ '')''
             in (415, [],
                 if starts_with url ''/admin'' then AdminError text
                 else ApiError (if isAnthropicPath url then anthropicError ''invalid_request_error'' text (Some rid)
                                else openAiError text ''invalid_request_error'' ''unsupported_media_type'')))
          else if validation \<or> st = Some 400 \<or> st = Some 413 then
            (or_else st 400, [],
             ApiError (if isAnthropicPath url then anthropicError ''invalid_request_error'' msg (Some rid)
                       else openAiError msg ''invalid_request_error'' ''invalid_request''))
          else
            (let text = ''Internal server error: '' @ redactLine msg
             in (500, [],
                 ApiError (if isAnthropicPath url then anthropicError ''api_error'' text (Some rid)
                           else openAiError text ''api_error'' ''internal_error''))))"

text \<open>The two values that stand for a \<open>TypeError\<close> of the mapping are what the handler answers to it.\<close>

lemma text_error_onError:
  "\<not> isAnthropicPath url \<Longrightarrow>
     onError url rid ct (OtherError no_primitive None False) = onError url rid ct (GatewayError text_error)"
  by (simp add: onError_def text_error_def gatewayHttpError_def openAiError_def Let_def)

lemma type_error_onError:
  "isAnthropicPath url \<Longrightarrow> onError url rid ct (OtherError msg None False) = onError url rid ct (GatewayError (type_error msg))"
  by (simp add: onError_def type_error_def gatewayHttpError_def anthropicError_def Let_def)

definition onNotFound :: "string \<Rightarrow> string \<Rightarrow> nat \<times> error_body" where
  "onNotFound url rid =
     (404, if isAnthropicPath url then anthropicError ''not_found_error'' ''Not found.'' (Some rid)
           else err_body (httpError 404 ''Not found.'' ''invalid_request_error'' ''not_found''))"

section \<open>Routes\<close>

record request =
  rq_id :: string
  rq_clientId :: "string option"
  rq_keyId :: "string option"
  rq_body :: "json option"

record routed_call = engine_call +
  reqId :: string
  clientReqId :: "string option"
  protocol :: string
  readImage :: "(string \<Rightarrow> nat list option) option"

type_synonym engine_stream = "routed_call \<Rightarrow> stream_chunk list \<times> stream_throw option"

definition stagedImageReader :: "request_meta \<Rightarrow> (string \<Rightarrow> nat list option) option" where
  "stagedImageReader meta = (if imageBytes meta = [] then None else Some (map_of (imageBytes meta)))"

definition withCallMeta :: "request \<Rightarrow> engine_call \<Rightarrow> string \<Rightarrow> (string \<Rightarrow> nat list option) option \<Rightarrow> routed_call" where
  "withCallMeta rq call proto reader =
     engine_call.extend (call\<lparr>keyId := Some (case rq_keyId rq of Some k \<Rightarrow> JStr k | None \<Rightarrow> JNull)\<rparr>)
       (routed_call.fields (rq_id rq)
         (case rq_clientId rq of Some h \<Rightarrow> if trim h \<noteq> [] then Some (trim h) else None | None \<Rightarrow> None) proto reader)"

datatype reply =
    CompletionReply openai_completion
  | ChatStream "openai_frame list"
  | MessageReply anthropic_message
  | EventStream "an_event list"
  | TokenCount int

definition disabled_text :: string where
  "disabled_text = ''gateway is disabled by config (enabled=false)''"

text \<open>The \<open>catch\<close> of the chat route.\<close>

definition chat_caught :: "stream_throw \<Rightarrow> stream_throw" where
  "chat_caught e =
     (case e of
        ThrownEngine g \<Rightarrow> ThrownHttp (engineFailureToHttp (redactLine (err_message g)) (err_is g) (retryHeaders (retryAfterSec g)))
      | _ \<Rightarrow> e)"

definition chat_body :: "string \<Rightarrow> int \<Rightarrow> engine_call \<Rightarrow> request_meta \<Rightarrow> stream_chunk list \<Rightarrow> stream_throw option \<Rightarrow> stream_throw + reply" where
  "chat_body i created call meta chunks thrown =
     (case thrown of
        Some e \<Rightarrow> Inl (chat_caught e)
      | None \<Rightarrow>
          (let c = collectChunks chunks
           in case co_finish c of
                Some (FError f) \<Rightarrow> Inl (ThrownHttp (engineFailureToHttp (message f) (code f) None))
              | Some (FAborted f) \<Rightarrow> Inl (ThrownHttp (engineFailureToHttp (message f) (code f) None))
              | _ \<Rightarrow> Inr (CompletionReply (assembleCompletion i created (call_model call) c (stop meta) (maxTokens meta)))))"

definition chatCompletions ::
  "gateway_config \<Rightarrow> catalog option \<Rightarrow> engine_stream \<Rightarrow> string \<Rightarrow> int \<Rightarrow> request \<Rightarrow> stream_throw + reply" where
  "chatCompletions cfg cat engine i created rq =
     (if \<not> cfg_enabled cfg then Inl (ThrownHttp (httpError 503 disabled_text ''api_error'' ''gateway_disabled''))
      else case mapChatRequest (rq_body rq) cfg cat of
             Inl e \<Rightarrow> Inl (ThrownHttp e)
           | Inr (call, meta, released) \<Rightarrow>
               (let (chunks, thrown) = engine (withCallMeta rq call ''openai'' (stagedImageReader meta))
                in if stream meta
                   then Inr (ChatStream (fst (streamOpenAiChat
                     \<lparr>si_id = i, si_created = created, si_model = call_model call, si_includeUsage = includeUsage meta\<rparr> meta chunks thrown)))
                   else chat_body i created call meta chunks thrown))"

definition message_caught :: "stream_throw \<Rightarrow> stream_throw" where
  "message_caught e =
     (case e of
        ThrownEngine g \<Rightarrow> ThrownHttp (engineFailureToAnthropic (redactLine (err_message g)) (err_is g) (retryHeaders (retryAfterSec g)))
      | _ \<Rightarrow> e)"

definition message_body ::
  "(string \<Rightarrow> json option) \<Rightarrow> string \<Rightarrow> engine_call \<Rightarrow> request_meta \<Rightarrow> stream_chunk list \<Rightarrow> stream_throw option \<Rightarrow> stream_throw + reply" where
  "message_body jparse i call meta chunks thrown =
     (case thrown of
        Some e \<Rightarrow> Inl (message_caught e)
      | None \<Rightarrow>
          (let c = collectAnthropicChunks chunks
           in case ac_finish c of
                Some (FError f) \<Rightarrow> Inl (ThrownHttp (engineFailureToAnthropic (message f) (code f) None))
              | Some (FAborted f) \<Rightarrow> Inl (ThrownHttp (engineFailureToAnthropic (message f) (code f) None))
              | _ \<Rightarrow> Inr (MessageReply (assembleMessage jparse i (call_model call) c (stop meta) (maxTokens meta)))))"

text \<open>The estimate of the released body cannot throw here: the mapping has read the same system prompt.\<close>

definition messagesRoute ::
  "(string \<Rightarrow> json option) \<Rightarrow> gateway_config \<Rightarrow> catalog option \<Rightarrow> engine_stream \<Rightarrow> string \<Rightarrow> request \<Rightarrow> stream_throw + reply" where
  "messagesRoute jparse cfg cat engine i rq =
     (if \<not> cfg_enabled cfg then Inl (ThrownHttp (gatewayHttpError 503 (anthropicError ''api_error'' disabled_text None) None))
      else case mapMessagesRequest (rq_body rq) cfg cat of
             Inl e \<Rightarrow> Inl (ThrownHttp e)
           | Inr (call, meta, released) \<Rightarrow>
               (let (chunks, thrown) = engine (withCallMeta rq call ''anthropic'' (stagedImageReader meta))
                in if stream meta
                   then (case estimateInputTokens (Some released) of
                           Inl e \<Rightarrow> Inl (ThrownHttp e)
                         | Inr n \<Rightarrow> Inr (EventStream (fst (streamAnthropicMessages
                             \<lparr>aa_id = i, aa_model = call_model call, aa_inputTokens = n\<rparr> meta chunks thrown))))
                   else message_body jparse i call meta chunks thrown))"

definition countTokens :: "gateway_config \<Rightarrow> request \<Rightarrow> stream_throw + reply" where
  "countTokens cfg rq =
     (if \<not> cfg_enabled cfg then Inl (ThrownHttp (gatewayHttpError 503 (anthropicError ''api_error'' disabled_text None) None))
      else case estimateInputTokens (rq_body rq) of
             Inl e \<Rightarrow> Inl (ThrownHttp e)
           | Inr n \<Rightarrow> Inr (TokenCount n))"

section \<open>Both adapters are chunk writers\<close>

fun oa_frame_text :: "openai_frame \<Rightarrow> string" where
  "oa_frame_text (ChunkFrame c) = concat (map (\<lambda>ch. or_else (d_content (ch_delta ch)) []) (ck_choices c))"
| "oa_frame_text _ = []"

fun an_event_text :: "an_event \<Rightarrow> string" where
  "an_event_text (ContentBlockDelta i (TextDeltaE t)) = t"
| "an_event_text _ = []"

lemma null_usage_text [simp]: "oa_frame_text (null_usage f) = oa_frame_text f"
  by (cases f) auto

lemma openAiStreamFrames_text:
  assumes "openAiStreamFrames a ch st u = (fs, st1)"
  shows "concat (map oa_frame_text fs) = concat (deltas [ch])"
proof -
  obtain gs where g: "openAiStreamFramesCore a ch st u = (gs, st1)" "concat (map oa_frame_text fs) = concat (map oa_frame_text gs)"
    using assms by (cases "openAiStreamFramesCore a ch st u") (auto simp: openAiStreamFrames_def o_def split: if_splits)
  show ?thesis
    using g by (cases ch) (auto simp: openAiStreamFramesCore_def frame_defs deltas_def or_else_def Let_def
      split: content_block.splits if_splits)
qed

interpretation oa: chunk_writer "openai_emit a" "oa_run a" oa_view oa_good OEnd oa_frame_text for a
proof unfold_locales
  show "oa_run a p [] = Some p" for p by simp
  show "oa_run a p (fs @ gs) = (case oa_run a p fs of None \<Rightarrow> None | Some q \<Rightarrow> oa_run a q gs)" for p fs gs
    by (rule oa_run_append)
  fix l c fs and l1 :: "openai_stream leg"
  assume e: "openai_emit a l c = (fs, l1)"
  then obtain st where st: "openAiStreamFrames a c (lg_state l) (lg_usage l) = (fs, st)" "l1 = l\<lparr>lg_state := st\<rparr>"
    by (auto simp: openai_emit_def split: prod.splits)
  show "\<exists>st. l1 = l\<lparr>lg_state := st\<rparr>" using st by blast
  show "concat (map oa_frame_text fs) = concat (deltas [c])" by (rule openAiStreamFrames_text [OF st(1)])
  assume "oa_good (lg_state l)"
  from openAiStreamFrames_run [OF st(1) this] st(2)
  show "oa_run a (oa_view (lg_state l)) fs = Some (if is_finish c then OEnd else oa_view (lg_state l1)) \<and> oa_good (lg_state l1)"
    by simp
qed

interpretation oaf: failing_writer "openai_emit a" "oa_run a" oa_view oa_good OEnd oa_frame_text openai_fail for a
  by unfold_locales (auto simp: openai_fail_def oa_view_def Let_def)

lemma anthropicStreamEvents_text:
  assumes "anthropicStreamEvents a ch st u ss = (es, st1)"
  shows "concat (map an_event_text es) = concat (deltas [ch])"
  using assms
  by (cases ch) (auto simp: anthropicStreamEvents_def message_start_def open_block_def stop_open_def finish_events_def
      anthropicStreamErrorEvent_def deltas_def Let_def split: content_block.splits finish_reason.splits if_splits)

interpretation an: chunk_writer "anthropic_emit a" an_run an_view an_good AEnd an_event_text for a
proof unfold_locales
  show "an_run p [] = Some p" for p by simp
  show "an_run p (fs @ gs) = (case an_run p fs of None \<Rightarrow> None | Some q \<Rightarrow> an_run q gs)" for p fs gs
    by (rule an_run_append)
  fix l c fs and l1 :: "an_stream leg"
  assume e: "anthropic_emit a l c = (fs, l1)"
  then obtain st where st: "anthropicStreamEvents a c (lg_state l) (lg_usage l) (lg_stop l) = (fs, st)" "l1 = l\<lparr>lg_state := st\<rparr>"
    by (auto simp: anthropic_emit_def split: prod.splits)
  show "\<exists>st. l1 = l\<lparr>lg_state := st\<rparr>" using st by blast
  show "concat (map an_event_text fs) = concat (deltas [c])" by (rule anthropicStreamEvents_text [OF st(1)])
  assume "an_good (lg_state l)"
  from anthropicStreamEvents_run [OF st(1) this] st(2)
  show "an_run (an_view (lg_state l)) fs = Some (if is_finish c then AEnd else an_view (lg_state l1)) \<and> an_good (lg_state l1)"
    by simp
qed

interpretation anf: failing_writer "anthropic_emit a" an_run an_view an_good AEnd an_event_text "anthropic_fail a" for a
proof unfold_locales
  fix l r rs f fs and l1 :: "an_stream leg"
  assume g: "an_good (lg_state l)" and e: "anthropic_fail a l (Finish r rs) f = (fs, l1)"
  obtain es m l2 where f: "flush_hold (anthropic_emit a) l = (es, m, l2)" by (cases "flush_hold (anthropic_emit a) l")
  obtain gs l3 where h: "anthropic_emit a l2 (Finish r rs) = (gs, l3)" by (cases "anthropic_emit a l2 (Finish r rs)")
  from an.flush_run [OF g f] an.emit_run [OF _ h] e f h show "an_run (an_view (lg_state l)) fs = Some AEnd"
    by (auto simp: anthropic_fail_def an_run_append)
qed

section \<open>Spans end with their only finish\<close>

lemma proto_run_finish:
  assumes "proto_run p cs = Some (n, op, Ended)" "snd (snd p) \<noteq> Ended"
  shows "\<exists>pre r rs. cs = pre @ [Finish r rs] \<and> list_all (\<lambda>c. \<not> is_finish c) pre"
  using assms
proof (induction cs arbitrary: p)
  case (Cons c cs)
  then obtain q where q: "proto_step p c = Some q" "proto_run q cs = Some (n, op, Ended)"
    by (auto split: option.splits)
  show ?case
  proof (cases "is_finish c")
    case True
    then obtain r rs where c: "c = Finish r rs" by (cases c) auto
    with q(1) have "snd (snd q) = Ended" by (cases "(p, c)" rule: proto_step.cases) auto
    with q(2) proto_ended_stuck have "cs = []" by (cases q) auto
    with c show ?thesis by auto
  next
    case False
    with q(1) have "snd (snd q) \<noteq> Ended"
      by (cases "(p, c)" rule: proto_step.cases) (auto split: if_splits)
    with Cons.IH [OF q(2)] obtain pre r rs where "cs = pre @ [Finish r rs]" "list_all (\<lambda>c. \<not> is_finish c) pre" by blast
    with False show ?thesis by (intro exI [of _ "c # pre"]) auto
  qed
qed (auto simp: proto_start_def)

lemma wf_span_finish:
  assumes "wf_span cs"
  obtains pre r rs where "cs = pre @ [Finish r rs]" "list_all (\<lambda>c. \<not> is_finish c) pre"
proof -
  from assms obtain n op where "proto_run proto_start cs = Some (n, op, Ended)"
    by (auto simp: wf_span_def split: option.splits prod.splits phase.splits)
  from proto_run_finish [OF this] that show thesis by (auto simp: proto_start_def)
qed

text \<open>What one call of the engine delivers: a complete span, or an exception before any finish.\<close>

definition engine_ok :: "stream_chunk list \<Rightarrow> stream_throw option \<Rightarrow> bool" where
  "engine_ok chunks thrown =
     (if thrown = None then wf_span chunks else list_all (\<lambda>c. \<not> is_finish c) chunks)"

lemma streamOpenAiChat_complete:
  assumes "engine_ok chunks thrown"
  shows "oa_run a ONew (fst (streamOpenAiChat a meta chunks thrown)) = Some OEnd"
proof -
  let ?l = "new_leg \<lparr>firstSent = False, toolIndex = 0, sawToolThisSpan = False\<rparr> meta"
  obtain fs l left where r: "leg_loop (openai_emit a) openai_fail chunks ?l = (fs, l, left)"
    by (cases "leg_loop (openai_emit a) openai_fail chunks ?l")
  have g: "oa_good (lg_state ?l)" and v: "oa_view (lg_state ?l) = ONew" by (simp_all add: new_leg_def oa_good_def oa_view_def)
  show ?thesis
  proof (cases thrown)
    case None
    with assms obtain pre f rs where "chunks = pre @ [Finish f rs]" "list_all (\<lambda>c. \<not> is_finish c) pre"
      by (auto simp: engine_ok_def elim: wf_span_finish)
    with oaf.span_run [OF g, of pre a f rs] r v None show ?thesis by (simp add: streamOpenAiChat_def)
  next
    case (Some e)
    with assms have nf: "list_all (\<lambda>c. \<not> is_finish c) chunks" by (simp add: engine_ok_def)
    from oaf.loop_run [OF g nf r] v Some r show ?thesis
      by (auto simp: streamOpenAiChat_def oa_run_append oa_view_def split: if_splits)
  qed
qed

text \<open>
  C16. Whatever the engine delivers, whatever stop sequences and budget the request carries, the chat stream is
  one complete frame sequence: the role frame, then content, reasoning and tool calls with consecutive
  indexes, one finish reason, the usage frame exactly when asked for, and a single final \<open>[DONE]\<close>; or one error
  body before \<open>[DONE]\<close>.
\<close>

theorem streamOpenAiChat_protocol:
  assumes "engine_ok chunks thrown"
  shows "oa_run a ONew (fst (streamOpenAiChat a meta chunks thrown)) = Some OEnd"
  using assms by (rule streamOpenAiChat_complete)

theorem streamOpenAiChat_protocol_witness:
  "oa_run \<lparr>si_id = ''c1'', si_created = 0, si_model = ''m'', si_includeUsage = True\<rparr> ONew
     (fst (streamOpenAiChat \<lparr>si_id = ''c1'', si_created = 0, si_model = ''m'', si_includeUsage = True\<rparr>
        \<lparr>warnings = [], maxTokens = Some 100, stop = [''END''], imageBytes = [], includeUsage = True, stream = True\<rparr>
        [BlockStart 0 BText, TextDelta 0 ''Hi'', BlockEnd 0 (TextBlock ''Hi''), UsageChunk zero_usage, Finish FStop None] None)) = Some OEnd"
  by (rule streamOpenAiChat_protocol) (simp add: engine_ok_def wf_span_def proto_start_def)

text \<open>
  C15. The messages stream refines the protocol automaton in the same way: \<open>message_start\<close>, content blocks one
  at a time with consecutive indexes, then \<open>message_delta\<close> and \<open>message_stop\<close>, or a final error event.
\<close>

theorem streamAnthropicMessages_protocol:
  assumes "engine_ok chunks thrown"
  shows "an_run ANew (fst (streamAnthropicMessages a meta chunks thrown)) = Some AEnd"
proof -
  let ?l = "new_leg \<lparr>messageStarted = False, blockIndex = 0, an_open = None\<rparr> meta"
  obtain es l left where r: "leg_loop (anthropic_emit a) (anthropic_fail a) chunks ?l = (es, l, left)"
    by (cases "leg_loop (anthropic_emit a) (anthropic_fail a) chunks ?l")
  have g: "an_good (lg_state ?l)" and v: "an_view (lg_state ?l) = ANew" by (simp_all add: new_leg_def an_good_def an_view_def)
  show ?thesis
  proof (cases thrown)
    case None
    with assms obtain pre f rs where "chunks = pre @ [Finish f rs]" "list_all (\<lambda>c. \<not> is_finish c) pre"
      by (auto simp: engine_ok_def elim: wf_span_finish)
    with anf.span_run [OF g, of pre a f rs] r v None show ?thesis by (simp add: streamAnthropicMessages_def)
  next
    case (Some e)
    have "an_step (an_view st) (anthropic_caught e) = Some AEnd" for st
      by (cases e) (auto simp: anthropic_caught_def an_view_def Let_def)
    moreover from Some assms have nf: "list_all (\<lambda>c. \<not> is_finish c) chunks" by (simp add: engine_ok_def)
    ultimately show ?thesis
      using anf.loop_run [OF g nf r] v Some r by (auto simp: streamAnthropicMessages_def an_run_append split: if_splits)
  qed
qed

theorem streamAnthropicMessages_protocol_witness:
  "an_run ANew (fst (streamAnthropicMessages \<lparr>aa_id = ''m1'', aa_model = ''m'', aa_inputTokens = 5\<rparr>
     \<lparr>warnings = [], maxTokens = None, stop = [''END''], imageBytes = [], includeUsage = False, stream = True\<rparr>
     [BlockStart 0 BText, TextDelta 0 ''Hi''] (Some (ThrownError ''boom'')))) = Some AEnd"
  by (rule streamAnthropicMessages_protocol) (simp add: engine_ok_def)

section \<open>Streaming and non-streaming agree\<close>

lemma collect_deltas: "co_text (foldl collect_chunk c cs) = co_text c @ concat (deltas cs)"
proof (induction cs arbitrary: c)
  case (Cons x xs)
  have "co_text (collect_chunk c x) = co_text c @ concat (deltas [x])"
    by (auto simp: collect_chunk_def deltas_def split: stream_chunk.splits content_block.splits)
  then show ?case using deltas_append [of "[x]" xs] by (simp add: Cons.IH)
qed simp

lemma an_collect_deltas: "ac_text (foldl an_collect_chunk c cs) = ac_text c @ concat (deltas cs)"
proof (induction cs arbitrary: c)
  case (Cons x xs)
  have "ac_text (an_collect_chunk c x) = ac_text c @ concat (deltas [x])"
    by (auto simp: an_collect_chunk_def deltas_def split: stream_chunk.splits content_block.splits)
  then show ?case using deltas_append [of "[x]" xs] by (simp add: Cons.IH)
qed simp

lemma deltas_no_finish: "deltas (cs @ [Finish r rs]) = deltas cs"
  by (simp add: deltas_append) (simp add: deltas_def)

definition message_text :: "anthropic_message \<Rightarrow> string" where
  "message_text m = concat (map (\<lambda>b. case b of ABText t \<Rightarrow> t | _ \<Rightarrow> []) (am_content m))"

lemma message_text_assembled:
  "message_text (assembleMessage jparse i m c stops mt) = ac_text (fst (applyFinishTransforms c stops mt))"
proof -
  have "concat (map ((\<lambda>b. case b of ABText t \<Rightarrow> t | _ \<Rightarrow> []) \<circ> (\<lambda>(cid, nm, a). ABToolUse cid nm (safeParse jparse a))) ts) = []" for ts
    by (induction ts) auto
  then show ?thesis
    by (auto simp: message_text_def assembleMessage_def Let_def split: prod.splits)
qed

definition finish_of :: "openai_frame \<Rightarrow> string option" where
  "finish_of f = (case f of ChunkFrame k \<Rightarrow> (case ck_choices k of [c] \<Rightarrow> ch_finish c | _ \<Rightarrow> None) | _ \<Rightarrow> None)"

lemma emit_finish_of: "openai_emit a l (Finish r rs) = (g, l1) \<Longrightarrow> Some (finishReasonOf r) \<in> finish_of ` set g"
  by (auto simp: openai_emit_def openAiStreamFrames_def openAiStreamFramesCore_def finish_frames_def openAiChunkOf_def
      finish_of_def Let_def image_Un split: if_splits prod.splits)

lemma completion_content:
  "or_else (oc_content (assembleCompletion i t m c stops mt)) [] = applyStop (co_text (applyMaxTokens c mt)) stops"
  by (auto simp: assembleCompletion_def Let_def or_else_def)

lemma collected_text: "co_text (collectChunks cs) = concat (deltas cs)"
  by (simp add: collectChunks_def collect_deltas)

lemma an_collected_text: "ac_text (collectAnthropicChunks cs) = concat (deltas cs)"
  by (simp add: collectAnthropicChunks_def an_collect_deltas)

lemma collected_finish: "co_finish (collectChunks (cs @ [Finish r rs])) = Some r"
  by (simp add: collectChunks_def collect_chunk_def)

lemma an_collected_finish: "ac_finish (collectAnthropicChunks (cs @ [Finish r rs])) = Some r"
  by (simp add: collectAnthropicChunks_def an_collect_chunk_def)

lemma new_leg_fields:
  "lg_hold (new_leg st meta) = (if stop meta \<noteq> [] then Some (new_holdback (stop meta)) else None)"
  "lg_budget (new_leg st meta) = map_option new_budget (maxTokens meta)"
  "lg_stop (new_leg st meta) = None" "\<not> lg_cut (new_leg st meta)" "\<not> lg_abort (new_leg st meta)"
  by (simp_all add: new_leg_def)

text \<open>The stop sequences of a mapped request are non-empty, so the guard and the cut agree on them.\<close>

lemma stops_agree:
  "stops_ok ss \<Longrightarrow> unnested ss \<Longrightarrow> stream_stops ss ts = applyStopWithHit (concat ts) ss"
  by (rule stream_stops_cut) (auto simp: stops_ok_def list_all_iff)

text \<open>
  For a span that stops normally within its token budget, and stop sequences of which none lies inside a
  proper prefix of another, the two forms of a chat completion agree: the content the stream delivers is the
  content of the completion body, and one of its frames carries the body's finish reason.
\<close>

text \<open>What the agent reported stays within the request's limit: the body is then not cut by \<open>applyMaxTokens\<close> or its counterpart.\<close>

definition reported_within :: "int option \<Rightarrow> stream_chunk list \<Rightarrow> bool" where
  "reported_within mt cs =
     (case mt of None \<Rightarrow> True
      | Some m \<Rightarrow> list_all (\<lambda>c. case c of UsageChunk u \<Rightarrow> outputTokens u \<le> of_int m | _ \<Rightarrow> True) cs)"

lemma collected_usage: "co_usage (foldl collect_chunk c cs) = Some u \<Longrightarrow> co_usage c = Some u \<or> UsageChunk u \<in> set cs"
proof (induction cs arbitrary: c)
  case (Cons x xs)
  then have "co_usage (collect_chunk c x) = Some u \<or> UsageChunk u \<in> set xs" by simp
  then show ?case by (auto simp: collect_chunk_def split: stream_chunk.splits content_block.splits)
qed simp

lemma an_collected_usage: "ac_usage (foldl an_collect_chunk c cs) = Some u \<Longrightarrow> ac_usage c = Some u \<or> UsageChunk u \<in> set cs"
proof (induction cs arbitrary: c)
  case (Cons x xs)
  then have "ac_usage (an_collect_chunk c x) = Some u \<or> UsageChunk u \<in> set xs" by simp
  then show ?case by (auto simp: an_collect_chunk_def split: stream_chunk.splits content_block.splits)
qed simp

lemma reported_usage:
  assumes "reported_within (Some m) chunks"
  shows "co_usage (collectChunks chunks) = Some u \<Longrightarrow> outputTokens u \<le> of_int m"
    and "ac_usage (collectAnthropicChunks chunks) = Some u \<Longrightarrow> outputTokens u \<le> of_int m"
  using assms
  by (auto simp: reported_within_def list_all_iff collectChunks_def collectAnthropicChunks_def
      dest!: collected_usage an_collected_usage)

lemma maxTokens_uncut: "reported_within mt chunks \<Longrightarrow> applyMaxTokens (collectChunks chunks) mt = collectChunks chunks"
  using reported_usage(1) by (auto simp: applyMaxTokens_def split: option.splits)

lemma finish_uncut:
  assumes "reported_within mt chunks" "an_cut_stop (collectAnthropicChunks chunks) stops = (c, hit)" "ac_usage c = ac_usage (collectAnthropicChunks chunks)"
    and "within_budget mt chunks"
  shows "applyFinishTransforms (collectAnthropicChunks chunks) stops mt = (c, hit)"
proof (cases mt)
  case (Some m)
  have "0 \<le> m" using assms(4) spent_on_nonneg [of chunks] by (simp add: Some within_budget_def fits_def new_budget_def)
  moreover have "outputTokens u \<le> of_int m" if "ac_usage c = Some u" for u
    using reported_usage(2) [of m chunks u] assms(1,3) that Some by simp
  ultimately have "(case ac_usage c of Some u \<Rightarrow> outputTokens u | None \<Rightarrow> 0) \<le> of_int m" by (simp split: option.split)
  then show ?thesis using assms(2) by (simp add: applyFinishTransforms_def Some Let_def not_less)
qed (use assms(2) in \<open>simp add: applyFinishTransforms_def\<close>)

lemma within_budget_pre: "within_budget mt (pre @ cs) \<Longrightarrow> fits (map_option new_budget mt) pre"
  by (auto simp: within_budget_def dest: fits_append)

lemma openai_forms_agree:
  assumes "wf_span chunks" "last chunks = Finish FStop rs" "within_budget (maxTokens meta) chunks" "reported_within (maxTokens meta) chunks"
    and "stops_ok (stop meta)" "unnested (stop meta)"
    and "body = assembleCompletion i t m (collectChunks chunks) (stop meta) (maxTokens meta)"
    and "frames = fst (streamOpenAiChat a meta chunks None)"
  shows "concat (map oa_frame_text frames) = or_else (oc_content body) [] \<and>
    Some (oc_finish_reason body) \<in> finish_of ` set frames"
proof -
  obtain pre where c: "chunks = pre @ [Finish FStop rs]" "list_all (\<lambda>c. \<not> is_finish c) pre"
    using assms(1,2) by (auto elim: wf_span_finish)
  let ?l = "new_leg \<lparr>firstSent = False, toolIndex = 0, sawToolThisSpan = False\<rparr> meta"
  obtain fs l left where r: "leg_loop (openai_emit a) openai_fail (pre @ [Finish FStop rs]) ?l = (fs, l, left)"
    by (cases "leg_loop (openai_emit a) openai_fail (pre @ [Finish FStop rs]) ?l")
  from oa.span_stop [OF c(2) r] within_budget_pre [OF assms(3) [unfolded c(1)]] obtain p l2 g rs1 where
    g: "fs = p @ g" "openai_emit a l2 (Finish FStop rs1) = (g, l)" "concat (map oa_frame_text fs) = hold_all (lg_hold ?l) (deltas pre)"
    by (auto simp: new_leg_fields)
  have frames: "frames = fs" using assms(8) c(1) r by (simp add: streamOpenAiChat_def)
  have "concat (map oa_frame_text fs) = applyStop (concat (deltas pre)) (stop meta)"
    using g(3) hold_all_stops(1) [of "stop meta" "deltas pre"] stops_agree [OF assms(5,6)]
    by (simp add: new_leg_fields applyStop_def)
  moreover have "or_else (oc_content body) [] = applyStop (concat (deltas pre)) (stop meta)"
    using assms(7) c(1) maxTokens_uncut [OF assms(4)] by (simp add: completion_content collected_text deltas_no_finish)
  moreover have "oc_finish_reason body = finishReasonOf FStop"
    using assms(7) c(1) maxTokens_uncut [OF assms(4)] by (simp add: assembleCompletion_def collected_finish Let_def)
  ultimately show ?thesis
    using emit_finish_of [OF g(2)] frames g(1) by (auto simp: image_Un)
qed

definition demo_meta :: "string list \<Rightarrow> request_meta" where
  "demo_meta ss = \<lparr>warnings = [], maxTokens = Some 40, stop = ss, imageBytes = [], includeUsage = False, stream = True\<rparr>"

definition demo_span :: "stream_chunk list" where
  "demo_span = [BlockStart 0 BText, TextDelta 0 ''ab E'', TextDelta 0 ''ND cd'', BlockEnd 0 (TextBlock ''ab END cd''),
     UsageChunk zero_usage, Finish FStop None]"

lemma demo_ok: "wf_span demo_span" "last demo_span = Finish FStop None" "stops_ok [''END'']" "unnested [''END'']"
  by (simp_all add: demo_span_def wf_span_def proto_start_def stops_ok_def unnested_def str_includes_def)


lemma an_cut_eq:
  assumes "ac_finish c = Some FStop" "applyStopWithHit (ac_text c) stops = (t, hit)"
  shows "an_cut_stop c stops = (c\<lparr>ac_text := t\<rparr>, hit)"
  using assms by (auto simp: an_cut_stop_def applyStopWithHit_def split: option.splits)

text \<open>
  C17. The two forms of a message agree. For a span that finishes with \<open>stop\<close>, whose charged text stays below the
  request's token limit and whose reported output does not exceed it, and for stop sequences of which none lies
  inside a proper prefix of another: the non-streaming route answers with a message, the text of the stream is the text
  of that message, and the stream ends with a \<open>message_delta\<close> that carries its stop reason and stop sequence.
\<close>

theorem anthropic_forms_agree:
  assumes "wf_span chunks" "last chunks = Finish FStop rs"
    and "within_budget (maxTokens meta) chunks" "reported_within (maxTokens meta) chunks"
    and "stops_ok (stop meta)" "unnested (stop meta)"
    and "sent = fst (streamAnthropicMessages a meta chunks None)"
  shows "\<exists>body. message_body jparse i call meta chunks None = Inr (MessageReply body) \<and>
    concat (map an_event_text sent) = message_text body \<and>
    (\<exists>pre ot tt. sent = pre @ [MessageDelta (am_stop_reason body) (am_stop_sequence body) ot tt, MessageStop])"
proof -
  define body where "body = assembleMessage jparse i (call_model call) (collectAnthropicChunks chunks) (stop meta) (maxTokens meta)"
  obtain pre where c: "chunks = pre @ [Finish FStop rs]" "list_all (\<lambda>c. \<not> is_finish c) pre"
    using assms(1,2) by (auto elim: wf_span_finish)
  let ?l = "new_leg \<lparr>messageStarted = False, blockIndex = 0, an_open = None\<rparr> meta"
  obtain es l left where r: "leg_loop (anthropic_emit a) (anthropic_fail a) (pre @ [Finish FStop rs]) ?l = (es, l, left)"
    by (cases "leg_loop (anthropic_emit a) (anthropic_fail a) (pre @ [Finish FStop rs]) ?l")
  obtain tx hit where h: "applyStopWithHit (concat (deltas pre)) (stop meta) = (tx, hit)"
    by (cases "applyStopWithHit (concat (deltas pre)) (stop meta)")
  note st = stops_agree [OF assms(5,6), of "deltas pre", unfolded h]
  from an.span_stop [OF c(2) r] within_budget_pre [OF assms(3) [unfolded c(1)]] hold_all_stops [of "stop meta" "deltas pre"] st obtain p l2 g rs1 where
    g: "es = p @ g" "anthropic_emit a l2 (Finish FStop rs1) = (g, l)" "concat (map an_event_text es) = tx" "lg_stop l2 = hit"
    by (auto simp: new_leg_fields)
  have sent: "sent = es" using assms(7) c(1) r by (simp add: streamAnthropicMessages_def)
  have "an_cut_stop (collectAnthropicChunks chunks) (stop meta) = ((collectAnthropicChunks chunks)\<lparr>ac_text := tx\<rparr>, hit)"
    using h c(1) an_cut_eq [of "collectAnthropicChunks chunks" "stop meta" tx hit]
    by (simp add: an_collected_finish an_collected_text deltas_no_finish)
  from finish_uncut [OF assms(4) this _ assms(3)] have
    "applyFinishTransforms (collectAnthropicChunks chunks) (stop meta) (maxTokens meta) =
      ((collectAnthropicChunks chunks)\<lparr>ac_text := tx\<rparr>, hit)"
    by simp
  then have b: "message_text body = tx" "am_stop_sequence body = hit" "am_stop_reason body = stopReasonOf FStop hit"
    using c(1) by (simp_all add: body_def message_text_assembled) (simp_all add: assembleMessage_def an_collected_finish)
  have "message_body jparse i call meta chunks None = Inr (MessageReply body)"
    using c(1) by (simp add: message_body_def an_collected_finish body_def)
  from g(2,4) obtain q ot tt where "g = q @ [MessageDelta (stopReasonOf FStop hit) hit ot tt, MessageStop]"
    by (auto simp: anthropic_emit_def anthropicStreamEvents_def finish_events_def Let_def split: prod.splits)
  with b g sent \<open>message_body jparse i call meta chunks None = Inr (MessageReply body)\<close> show ?thesis by auto
qed

definition demo_body :: json where
  "demo_body = JObj [(''model'', JStr ''m''), (''max_tokens'', JNum 40), (''stop_sequences'', JArr [JStr ''END'']),
     (''messages'', JArr [JObj [(''role'', JStr ''user''), (''content'', JStr ''go'')]])]"

definition demo_mapped :: "(engine_call \<times> request_meta) option" where
  "demo_mapped = (case mapMessagesRequest (Some demo_body) defaultConfig None of Inl e \<Rightarrow> None | Inr (call, meta, released) \<Rightarrow> Some (call, meta))"

theorem anthropic_forms_agree_witness:
  "case demo_mapped of
     None \<Rightarrow> False
   | Some (call, meta) \<Rightarrow>
       maxTokens meta = Some 65536 \<and>
       (\<exists>body. message_body (\<lambda>_. None) ''m1'' call meta demo_span None = Inr (MessageReply body) \<and>
          concat (map an_event_text (fst (streamAnthropicMessages
            \<lparr>aa_id = ''m1'', aa_model = call_model call, aa_inputTokens = 0\<rparr> meta demo_span None))) = message_text body)"
proof -
  have "map_option (\<lambda>(call, meta). (maxTokens meta, stop meta)) demo_mapped = Some (Some 65536, [''END''])" by code_simp
  then obtain call meta where m: "demo_mapped = Some (call, meta)" "maxTokens meta = Some 65536" "stop meta = [''END'']" by auto
  have b: "within_budget (Some 65536) demo_span" "reported_within (Some 65536) demo_span" by code_simp+
  from anthropic_forms_agree [OF demo_ok(1,2), of meta, OF _ _ _ _ refl, of "\<lambda>_. None" "''m1''" call
      "\<lparr>aa_id = ''m1'', aa_model = call_model call, aa_inputTokens = 0\<rparr>"] m b demo_ok(3,4)
  obtain body where "message_body (\<lambda>_. None) ''m1'' call meta demo_span None = Inr (MessageReply body)"
    "concat (map an_event_text (fst (streamAnthropicMessages \<lparr>aa_id = ''m1'', aa_model = call_model call, aa_inputTokens = 0\<rparr>
       meta demo_span None))) = message_text body"
    by metis
  then show ?thesis unfolding m(1) option.case prod.case using m(2) by blast
qed

section \<open>Failed spans are errors\<close>

lemma failure_fields:
  "statusCode (engineFailureToHttp msg cd hs) = fst (errorStatus cd)"
  "err_body (engineFailureToHttp msg cd hs) = OpenAiErrorBody msg (snd (errorStatus cd)) (err_str cd)"
  "statusCode (engineFailureToAnthropic msg cd hs) = fst (anthropicStatusFor cd msg)"
  "err_body (engineFailureToAnthropic msg cd hs) = AnthropicErrorBody (snd (anthropicStatusFor cd msg)) msg None"
  by (simp_all add: engineFailureToHttp_def engineFailureToAnthropic_def gatewayHttpError_def openAiError_def
      anthropicError_def case_prod_unfold Let_def)

lemma anthropic_status: "fst (anthropicStatusFor cd msg) = (if rx_test (rx_lit_i ''overloaded'') msg then 529 else fst (errorStatus cd))"
  by (simp add: anthropicStatusFor_def anthropic_table_status)

lemma is_http_error: "400 \<le> statusCode (engineFailureToHttp msg cd hs)" "400 \<le> statusCode (engineFailureToAnthropic msg cd hs)"
  using errorStatus_is_error [of cd] by (simp_all add: failure_fields anthropic_status)

lemma openai_failed_body:
  "openai_fail l raw f = ([ErrorFrame (err_body (engineFailureToHttp (message f) (code f) None)), DoneFrame], l)"
  by (simp add: openai_fail_def failure_fields openAiError_def)

lemma anthropic_failed_event:
  assumes "r = FError f \<or> r = FAborted f"
  shows "\<exists>es. fst (anthropic_fail a l (Finish r rs) f) =
    es @ [ErrorEvent (snd (anthropicStatusFor (code f) (message f))) (message f)]"
  using assms
  by (auto simp: anthropic_fail_def anthropic_emit_def anthropicStreamEvents_def finish_events_def
      anthropicStreamErrorEvent_def Let_def split: prod.splits)

text \<open>
  C18. A span that ends in a failure before its charged text has used up the token limit of the request is an error
  in all four forms of a reply, with the engine's own message. The two non-streaming routes answer with a status of 400
  or more: the chat route that of the error table, the messages route the same, except that a message that reports an
  overload is a 529. The streams, whose status line has gone out before, carry the error in their frames: the
  chat stream ends with the error body of the chat route and \<open>[DONE]\<close>, the messages stream with an error event of the
  type that the messages route answers. (A stream whose budget is used up first is cut there and ends as
  \<open>max_tokens\<close>.)
\<close>

theorem failed_span_is_error:
  assumes "wf_span chunks" "last chunks = Finish r rs" "r = FError f \<or> r = FAborted f" "within_budget (maxTokens meta) chunks"
    and "e1 = engineFailureToHttp (message f) (code f) None" "e2 = engineFailureToAnthropic (message f) (code f) None"
  shows "chat_body i t call meta chunks None = Inl (ThrownHttp e1) \<and>
    message_body jparse i call meta chunks None = Inl (ThrownHttp e2) \<and>
    400 \<le> statusCode e1 \<and> statusCode e2 = (if rx_test (rx_lit_i ''overloaded'') (message f) then 529 else statusCode e1) \<and>
    eb_message (err_body e1) = message f \<and> eb_message (err_body e2) = message f \<and>
    (\<exists>pre. fst (streamOpenAiChat a meta chunks None) = pre @ [ErrorFrame (err_body e1), DoneFrame]) \<and>
    (\<exists>pre. fst (streamAnthropicMessages b meta chunks None) = pre @ [ErrorEvent (eb_type (err_body e2)) (message f)])"
proof -
  obtain pre where c: "chunks = pre @ [Finish r rs]" "list_all (\<lambda>c. \<not> is_finish c) pre"
    using assms(1,2) by (auto elim: wf_span_finish)
  have bodies: "chat_body i t call meta chunks None = Inl (ThrownHttp e1)"
    "message_body jparse i call meta chunks None = Inl (ThrownHttp e2)"
    using assms(3,5,6) c(1) by (auto simp: chat_body_def message_body_def collected_finish an_collected_finish)
  let ?l = "new_leg \<lparr>firstSent = False, toolIndex = 0, sawToolThisSpan = False\<rparr> meta"
  let ?m = "new_leg \<lparr>messageStarted = False, blockIndex = 0, an_open = None\<rparr> meta"
  obtain fs l left where rl: "leg_loop (openai_emit a) openai_fail (pre @ [Finish r rs]) ?l = (fs, l, left)"
    by (cases "leg_loop (openai_emit a) openai_fail (pre @ [Finish r rs]) ?l")
  obtain es l' left' where rm: "leg_loop (anthropic_emit b) (anthropic_fail b) (pre @ [Finish r rs]) ?m = (es, l', left')"
    by (cases "leg_loop (anthropic_emit b) (anthropic_fail b) (pre @ [Finish r rs]) ?m")
  have "\<exists>pre. fs = pre @ [ErrorFrame (err_body e1), DoneFrame]"
    using oa.span_fail [OF c(2) rl _ _ assms(3)] within_budget_pre [OF assms(4) [unfolded c(1)]] assms(5) by (auto simp: new_leg_fields openai_failed_body)
  moreover have "\<exists>pre. es = pre @ [ErrorEvent (eb_type (err_body e2)) (message f)]"
  proof -
    from an.span_fail [OF c(2) rm _ _ assms(3)] within_budget_pre [OF assms(4) [unfolded c(1)]] obtain p l2 where p: "es = p @ fst (anthropic_fail b l2 (Finish r rs) f)"
      by (auto simp: new_leg_fields)
    from anthropic_failed_event [OF assms(3), of b l2 rs] obtain q where
      "fst (anthropic_fail b l2 (Finish r rs) f) = q @ [ErrorEvent (snd (anthropicStatusFor (code f) (message f))) (message f)]" by blast
    with p assms(6) show ?thesis by (simp add: failure_fields)
  qed
  moreover have "statusCode e2 = (if rx_test (rx_lit_i ''overloaded'') (message f) then 529 else statusCode e1)"
    "eb_message (err_body e1) = message f" "eb_message (err_body e2) = message f" "400 \<le> statusCode e1"
    using assms(5,6) is_http_error(1) by (simp_all add: failure_fields anthropic_status)
  ultimately show ?thesis
    using bodies rl rm c(1) by (simp add: streamOpenAiChat_def streamAnthropicMessages_def)
qed

definition failed_span :: "stream_chunk list" where
  "failed_span = [UsageChunk zero_usage, Finish (FError (failure ''agy timed out'' TIMEOUT)) None]"

theorem failed_span_is_error_witness:
  "chat_body [] 0 (new_call ''m'' [] None None None) (demo_meta []) failed_span None =
     Inl (ThrownHttp (engineFailureToHttp ''agy timed out'' TIMEOUT None))"
  using failed_span_is_error [of failed_span "FError (failure ''agy timed out'' TIMEOUT)" None "failure ''agy timed out'' TIMEOUT" "demo_meta []"]
  by (simp add: failed_span_def wf_span_def proto_start_def demo_meta_def failure_def within_budget_def fits_def spent_on_def new_budget_def)

section \<open>Whole routes\<close>

text \<open>Every image that a mapped chat request refers to can be read back through the reader of its call.\<close>

lemma staged_readable:
  assumes "mapChatRequest body cfg cat = Inr (call, meta, released)" "i \<in> set (concat (map images (messages call)))"
  shows "\<exists>rd n bs. stagedImageReader meta = Some rd \<and> img_name i = Some n \<and> rd n = Some bs \<and> length bs = img_bytes i"
proof -
  from mapChatRequest_outcome [of body cfg cat] assms(1)
  have w: "staged (imageBytes meta)" "image_refs (imageBytes meta) = map ref_of (concat (map images (messages call)))"
    by (simp_all add: outcome_def well_formed_def)
  from assms(2) w(2) have "ref_of i \<in> set (image_refs (imageBytes meta))" by (simp only: w(2)) force
  then obtain n bs where e: "(n, bs) \<in> set (imageBytes meta)" "img_name i = Some n" "length bs = img_bytes i"
    by (auto simp: image_refs_def ref_of_def)
  have "distinct (map fst (imageBytes meta))"
    using w(1) by (auto simp: staged_def distinct_map inj_on_def dest: img_key_inj)
  with e(1) have "map_of (imageBytes meta) n = Some bs" by simp
  with e show ?thesis by (auto simp: stagedImageReader_def)
qed

text \<open>What may leave the chat route: a rejection, what the engine threw, a completion, or a complete stream.\<close>

definition chat_outcome :: "engine_stream \<Rightarrow> stream_throw + reply \<Rightarrow> bool" where
  "chat_outcome engine r =
     (case r of
        Inl (ThrownHttp e) \<Rightarrow> 400 \<le> statusCode e
      | Inl e \<Rightarrow> (\<exists>call. snd (engine call) = Some e)
      | Inr (CompletionReply c) \<Rightarrow> oc_finish_reason c \<in> {''stop'', ''length'', ''tool_calls''}
      | Inr (ChatStream fs) \<Rightarrow> (\<exists>a. oa_run a ONew fs = Some OEnd)
      | _ \<Rightarrow> False)"

lemma chat_body_outcome:
  assumes "\<And>h. thrown = Some (ThrownHttp h) \<Longrightarrow> 400 \<le> statusCode h" "snd (engine call1) = thrown"
  shows "chat_outcome engine (chat_body i t call meta chunks thrown)"
proof (cases thrown)
  case (Some e)
  with assms is_http_error show ?thesis
    by (cases e) (auto simp: chat_body_def chat_outcome_def chat_caught_def)
next
  case None
  have "oc_finish_reason (assembleCompletion i t (call_model call) c (stop meta) (maxTokens meta)) \<in> {''stop'', ''length'', ''tool_calls''}" for c
    using finishReasonOf_known by (simp add: assembleCompletion_def Let_def)
  with None is_http_error(1) show ?thesis
    by (auto simp: chat_body_def chat_outcome_def Let_def split: option.splits finish_reason.splits)
qed

text \<open>
  The chat route as a whole: for any configuration, catalog and request, as long as the engine delivers
  complete spans and throws client errors only before a finish, the reply is an HTTP error of status 400 or
  more, an exception of the engine that the error handler answers with a 500, a completion with a known finish
  reason, or one complete frame sequence.
\<close>

lemma chatCompletions_outcome:
  assumes "\<And>call. engine_ok (fst (engine call)) (snd (engine call))"
    and "\<And>call h. snd (engine call) = Some (ThrownHttp h) \<Longrightarrow> 400 \<le> statusCode h"
  shows "chat_outcome engine (chatCompletions cfg cat engine i created rq)"
proof (cases "cfg_enabled cfg")
  case True
  show ?thesis
  proof (cases "mapChatRequest (rq_body rq) cfg cat")
    case (Inl e)
    have "chat_error (chat_values (or_else (rq_body rq) JNull)) e"
      using mapChatRequest_outcome [of "rq_body rq" cfg cat] Inl by (simp add: outcome_def)
    with True Inl show ?thesis
      by (auto simp: chatCompletions_def chat_outcome_def chat_error_def client_error_def text_error_def gatewayHttpError_def)
  next
    case (Inr r)
    obtain call meta rel where r: "r = (call, meta, rel)" by (cases r)
    obtain chunks thrown where e: "engine (withCallMeta rq call ''openai'' (stagedImageReader meta)) = (chunks, thrown)" by (cases "engine (withCallMeta rq call ''openai'' (stagedImageReader meta))")
    have ok: "engine_ok chunks thrown" using assms(1) [of "withCallMeta rq call ''openai'' (stagedImageReader meta)"] e by simp
    have http: "thrown = Some (ThrownHttp h) \<Longrightarrow> 400 \<le> statusCode h" for h
      using assms(2) [of "withCallMeta rq call ''openai'' (stagedImageReader meta)" h] e by simp
    have th: "snd (engine (withCallMeta rq call ''openai'' (stagedImageReader meta))) = thrown" using e by simp
    have "chat_outcome engine (chat_body i created call meta chunks thrown)"
      by (rule chat_body_outcome) (use http th in auto)
    then show ?thesis
      using True Inr r e streamOpenAiChat_complete [OF ok]
      by (auto simp: chatCompletions_def chat_outcome_def [of _ "Inr (ChatStream fs)" for fs])
  qed
qed (simp add: chatCompletions_def chat_outcome_def httpError_def gatewayHttpError_def)

text \<open>An engine that answers every call with the span of a finished run, replayed from its recording.\<close>

definition replay_engine :: "run_recording \<Rightarrow> engine_stream" where
  "replay_engine r = (\<lambda>call. (fst (drive_span r 0), None))"


end
