(* ===== verification/Keys.thy ===== *)
theory Keys
  imports Base64
begin

text \<open>
  The API key store: \<open>src/server/key-store.ts\<close>.

  The \<open>api_keys\<close> table is the list of its rows in insertion order, with the primary key and the \<open>UNIQUE\<close>
  constraint on the hash. SHA-256 is the parameter \<open>sha\<close>; a \<open>key_vault\<close> holds the master key, absent (\<open>None\<close>) where
  none is wired, and AES-256-GCM as Node's \<open>crypto\<close> offers it, of which \<open>gcm_ok\<close> states that decryption undoes
  encryption. The stored form of a secret, three base64 segments, is the program's own (\<open>sealSecret\<close>, \<open>openSecret\<close>).
  Random ids, plaintexts and initialisation vectors, and the clock, are arguments.
\<close>

section \<open>Rows and state\<close>

record key_row =
  key_id :: string
  key_name :: string
  key_hash :: string
  key_prefix :: string
  key_createdAt :: ms
  disabledAt :: "ms option"
  dailyTokenLimit :: int
  rpmLimit :: int
  key_scopes :: "string option"
  lastUsedAt :: "ms option"
  secret_enc :: "string option"

record key_store =
  key_rows :: "key_row list"
  lastWritten :: "(string, ms) jsmap"
  touchPending :: "(string, ms) jsmap"
  scopesCache :: "(string, string list option) jsmap"

definition new_keys :: "key_row list \<Rightarrow> key_store" where
  "new_keys rows = \<lparr>key_rows = rows, lastWritten = [], touchPending = [], scopesCache = []\<rparr>"

datatype verdict = VOk key_row | VUnknown | VDisabled key_row

section \<open>Helpers\<close>

definition KEY_MARK :: string where
  "KEY_MARK = ''sk-agy-''"

definition parseKeyScopes :: "string option \<Rightarrow> string list option" where
  "parseKeyScopes sc =
     (case sc of
        None \<Rightarrow> None
      | Some s \<Rightarrow>
          (let parts = filter (\<lambda>p. p \<noteq> []) (map trim (split_on (\<lambda>c. c \<in> set (nl @ '',;'')) s))
           in if parts \<noteq> [] then Some parts else None))"

text \<open>\<open>secret\<close> is the random part, 32 characters of base64url.\<close>

definition generateApiKey :: "string \<Rightarrow> string \<times> string" where
  "generateApiKey secret =
     (let plaintext = KEY_MARK @ secret in (plaintext, take 8 (drop (length KEY_MARK) plaintext)))"

definition positiveIntOrZero :: "rat option \<Rightarrow> int" where
  "positiveIntOrZero n = (case n of None \<Rightarrow> 0 | Some r \<Rightarrow> if r < 0 then 0 else \<lfloor>r\<rfloor>)"

text \<open>\<open>s?.trim() || d\<close>.\<close>

definition name_or :: "string option \<Rightarrow> string \<Rightarrow> string" where
  "name_or s d = (case s of Some t \<Rightarrow> if trim t \<noteq> [] then trim t else d | None \<Rightarrow> d)"

text \<open>
  \<open>v_encrypt\<close> takes the key, the initialisation vector and the plaintext, and gives the ciphertext and the tag;
  \<open>v_decrypt\<close> takes the key, the vector, the ciphertext and the tag, and throws (\<open>None\<close>) when the tag does not fit. Texts
  are their UTF-8 bytes.
\<close>

record key_vault =
  v_master :: "string option"
  v_encrypt :: "string \<Rightarrow> nat list \<Rightarrow> nat list \<Rightarrow> nat list \<times> nat list"
  v_decrypt :: "string \<Rightarrow> nat list \<Rightarrow> nat list \<Rightarrow> nat list \<Rightarrow> nat list option"

definition gcm_ok :: "key_vault \<Rightarrow> bool" where
  "gcm_ok v = (\<forall>m iv p. is_bytes iv \<longrightarrow> is_bytes p \<longrightarrow>
     (let (ct, tag) = v_encrypt v m iv p in is_bytes ct \<and> is_bytes tag \<and> v_decrypt v m iv ct tag = Some p))"

definition bytes_of :: "string \<Rightarrow> nat list" where
  "bytes_of s = map of_char s"

definition text_of :: "nat list \<Rightarrow> string" where
  "text_of bs = map char_of bs"

text \<open>\<open>iv.ciphertext.authTag\<close>.\<close>

definition sealSecret :: "key_vault \<Rightarrow> string \<Rightarrow> nat list \<Rightarrow> string \<Rightarrow> string" where
  "sealSecret v master iv plaintext =
     (let (ct, tag) = v_encrypt v master iv (bytes_of plaintext)
      in to_base64 iv @ ''.'' @ to_base64 ct @ ''.'' @ to_base64 tag)"

definition openSecret :: "key_vault \<Rightarrow> string \<Rightarrow> string \<Rightarrow> string option" where
  "openSecret v master blob =
     (case split_on (\<lambda>c. c = CHR ''.'') blob of
        ivB64 # ctB64 # tagB64 # _ \<Rightarrow>
          map_option text_of (v_decrypt v master (base64_bytes ivB64) (base64_bytes ctB64) (base64_bytes tagB64))
      | _ \<Rightarrow> None)"

definition key_sealed :: "key_vault \<Rightarrow> nat list \<Rightarrow> string \<Rightarrow> string option" where
  "key_sealed v iv plaintext = map_option (\<lambda>m. sealSecret v m iv plaintext) (v_master v)"

text \<open>
  The sidecar master key: what reading the file gave, the 64 fresh hex digits, the key (the bytes as lower-case
  hex digits) and the content written, if any. \<open>Inl\<close>: the boot fails.
\<close>

datatype sidecar = Absent | Unreadable string | Content string

definition MASTER_KEY_FILE :: string where
  "MASTER_KEY_FILE = ''keys-enc.key''"

definition is_hex :: "char \<Rightarrow> bool" where
  "is_hex c = (is_digit c \<or> c \<in> set ''abcdefABCDEF'')"

definition loadOrCreateMasterKey :: "string \<Rightarrow> sidecar \<Rightarrow> string \<Rightarrow> string + string \<times> string option" where
  "loadOrCreateMasterKey dataDir f fresh =
     (case f of
        Unreadable e \<Rightarrow> Inl e
      | Content c \<Rightarrow>
          (if length (trim c) = 64 \<and> list_all is_hex (trim c) then Inr (to_lower (trim c), None)
           else Inl (''master key sidecar '' @ dataDir @ ''/'' @ MASTER_KEY_FILE @ '' exists but is not a 64-hex-digit key '' @ em_dash @
             '' refusing to regenerate (that would orphan all stored key ciphertext); restore the '' @ MASTER_KEY_FILE @ ''/DB pair from backup''))
      | Absent \<Rightarrow> Inr (fresh, Some (fresh @ nl)))"

section \<open>Operations\<close>

definition count_keys :: "key_store \<Rightarrow> nat" where
  "count_keys s = length (key_rows s)"

definition list_keys :: "key_store \<Rightarrow> key_row list" where
  "list_keys s = sort_key key_createdAt (key_rows s)"

definition get_key :: "string \<Rightarrow> key_store \<Rightarrow> key_row option" where
  "get_key i s = find (\<lambda>r. key_id r = i) (key_rows s)"

text \<open>\<open>None\<close>: the insert broke a constraint and threw.\<close>

definition create_key ::
  "(string \<Rightarrow> string) \<Rightarrow> key_vault \<Rightarrow> nat list \<Rightarrow> string \<Rightarrow> string \<Rightarrow> ms \<Rightarrow> string option \<Rightarrow> rat option \<Rightarrow> rat option \<Rightarrow>
   key_store \<Rightarrow> (key_row \<times> string \<times> key_store) option" where
  "create_key sha v iv secret rid t name daily rpm s =
     (let (plaintext, pre) = generateApiKey secret;
          row = \<lparr>key_id = ''key_'' @ rid, key_name = name_or name ''default'', key_hash = sha plaintext, key_prefix = pre,
                 key_createdAt = t, disabledAt = None, dailyTokenLimit = positiveIntOrZero daily, rpmLimit = positiveIntOrZero rpm,
                 key_scopes = None, lastUsedAt = None, secret_enc = key_sealed v iv plaintext\<rparr>
      in if list_ex (\<lambda>r. key_id r = key_id row \<or> key_hash r = key_hash row) (key_rows s) then None
         else Some (row, plaintext, s\<lparr>key_rows := key_rows s @ [row]\<rparr>))"

definition verify_key :: "(string \<Rightarrow> string) \<Rightarrow> string \<Rightarrow> key_store \<Rightarrow> verdict" where
  "verify_key sha plaintext s =
     (case find (\<lambda>r. key_hash r = sha plaintext) (key_rows s) of
        None \<Rightarrow> VUnknown
      | Some r \<Rightarrow> if disabledAt r \<noteq> None then VDisabled r else VOk r)"

definition scopesOf :: "string \<Rightarrow> key_store \<Rightarrow> string list option \<times> key_store" where
  "scopesOf i s =
     (case map_of (scopesCache s) i of
        Some hit \<Rightarrow> (hit, s)
      | None \<Rightarrow>
          (case get_key i s of
             None \<Rightarrow> (None, s)
           | Some r \<Rightarrow> (let parsed = parseKeyScopes (key_scopes r) in (parsed, s\<lparr>scopesCache := jm_set i parsed (scopesCache s)\<rparr>))))"

definition map_row :: "string \<Rightarrow> (key_row \<Rightarrow> key_row) \<Rightarrow> key_store \<Rightarrow> key_store" where
  "map_row i f s = s\<lparr>key_rows := map (\<lambda>r. if key_id r = i then f r else r) (key_rows s)\<rparr>"

record key_patch =
  p_name :: "string option"
  p_disabled :: "bool option"
  p_daily :: "rat option"
  p_rpm :: "rat option"
  p_scopes :: "string option option"

definition patch_row :: "ms \<Rightarrow> key_patch \<Rightarrow> key_row \<Rightarrow> key_row" where
  "patch_row t p r = r\<lparr>key_name := name_or (p_name p) (key_name r),
     disabledAt := (case p_disabled p of None \<Rightarrow> disabledAt r | Some True \<Rightarrow> Some t | Some False \<Rightarrow> None),
     dailyTokenLimit := positiveIntOrZero (coalesce (p_daily p) (Some (of_int (dailyTokenLimit r)))),
     rpmLimit := positiveIntOrZero (coalesce (p_rpm p) (Some (of_int (rpmLimit r)))),
     key_scopes := (case p_scopes p of None \<Rightarrow> key_scopes r | Some None \<Rightarrow> None | Some (Some v) \<Rightarrow> if v = [] then None else Some v)\<rparr>"

definition update_key :: "ms \<Rightarrow> string \<Rightarrow> key_patch \<Rightarrow> key_store \<Rightarrow> key_row option \<times> key_store" where
  "update_key t i p s =
     (case get_key i s of
        None \<Rightarrow> (None, s)
      | Some r \<Rightarrow>
          (let s1 = (map_row i (\<lambda>_. patch_row t p r) s)\<lparr>scopesCache := jm_del i (scopesCache s)\<rparr> in (get_key i s1, s1)))"

definition remove_key :: "string \<Rightarrow> key_store \<Rightarrow> bool \<times> key_store" where
  "remove_key i s =
     (list_ex (\<lambda>r. key_id r = i) (key_rows s),
      s\<lparr>key_rows := filter (\<lambda>r. key_id r \<noteq> i) (key_rows s), lastWritten := jm_del i (lastWritten s),
        touchPending := jm_del i (touchPending s), scopesCache := jm_del i (scopesCache s)\<rparr>)"

definition reveal_key :: "key_vault \<Rightarrow> string \<Rightarrow> key_store \<Rightarrow> string option" where
  "reveal_key v i s =
     (case (get_key i s, v_master v) of
        (Some r, Some master) \<Rightarrow> (case secret_enc r of Some b \<Rightarrow> openSecret v master b | None \<Rightarrow> None)
      | _ \<Rightarrow> None)"

text \<open>\<open>None\<close> in the first place: no such key; \<open>None\<close> outside: the update broke the constraint on the hash.\<close>

definition rotate_key ::
  "(string \<Rightarrow> string) \<Rightarrow> key_vault \<Rightarrow> nat list \<Rightarrow> string \<Rightarrow> string \<Rightarrow> key_store \<Rightarrow> (string option \<times> key_store) option" where
  "rotate_key sha v iv secret i s =
     (case get_key i s of
        None \<Rightarrow> Some (None, s)
      | Some r \<Rightarrow>
          (let (plaintext, pre) = generateApiKey secret
           in if list_ex (\<lambda>q. key_id q \<noteq> i \<and> key_hash q = sha plaintext) (key_rows s) then None
              else Some (Some plaintext,
                map_row i (\<lambda>q. q\<lparr>key_hash := sha plaintext, key_prefix := pre, secret_enc := key_sealed v iv plaintext\<rparr>) s)))"

definition TOUCH_DEBOUNCE_MS :: ms where
  "TOUCH_DEBOUNCE_MS = 60000"

definition set_used :: "string \<Rightarrow> ms \<Rightarrow> key_store \<Rightarrow> key_store" where
  "set_used i ts s = (map_row i (\<lambda>r. r\<lparr>lastUsedAt := Some ts\<rparr>) s)\<lparr>lastWritten := jm_set i ts (lastWritten s)\<rparr>"

definition writeTouch :: "string \<Rightarrow> ms \<Rightarrow> key_store \<Rightarrow> key_store" where
  "writeTouch i ts s = (set_used i ts s)\<lparr>touchPending := jm_del i (touchPending s)\<rparr>"

text \<open>\<open>up\<close>: the database takes the write. A refused write leaves the store as it is.\<close>

definition touch :: "bool \<Rightarrow> ms \<Rightarrow> string \<Rightarrow> key_store \<Rightarrow> key_store" where
  "touch up t i s =
     (if t - or_else (map_of (lastWritten s) i) 0 < TOUCH_DEBOUNCE_MS
      then s\<lparr>touchPending := jm_set i t (touchPending s)\<rparr>
      else if up then writeTouch i t s
      else s)"

definition land :: "(string \<times> ms) list \<Rightarrow> key_store \<Rightarrow> key_store" where
  "land ps s = foldl (\<lambda>s (i, ts). set_used i ts s) s ps"

text \<open>\<open>broke\<close>: the index of the write the database refused; the buffer is then kept.\<close>

definition flushTouch :: "nat option \<Rightarrow> key_store \<Rightarrow> key_store" where
  "flushTouch broke s =
     (if touchPending s = [] then s
      else (case broke of
              Some n \<Rightarrow> land (take n (touchPending s)) s
            | None \<Rightarrow> (land (touchPending s) s)\<lparr>touchPending := []\<rparr>))"

section \<open>Histories of the store\<close>

datatype key_op =
    KCreate "nat list" string string ms "string option" "rat option" "rat option"
  | KUpdate ms string key_patch
  | KRemove string
  | KRotate "nat list" string string
  | KScopes string
  | KTouch bool ms string
  | KFlush "nat option"

fun key_step :: "(string \<Rightarrow> string) \<Rightarrow> key_vault \<Rightarrow> key_store \<Rightarrow> key_op \<Rightarrow> key_store" where
  "key_step sha v s (KCreate iv secret rid t name daily rpm) =
     (case create_key sha v iv secret rid t name daily rpm s of None \<Rightarrow> s | Some (r, p, s1) \<Rightarrow> s1)"
| "key_step sha v s (KUpdate t i p) = snd (update_key t i p s)"
| "key_step sha v s (KRemove i) = snd (remove_key i s)"
| "key_step sha v s (KRotate iv secret i) = (case rotate_key sha v iv secret i s of None \<Rightarrow> s | Some (p, s1) \<Rightarrow> s1)"
| "key_step sha v s (KScopes i) = snd (scopesOf i s)"
| "key_step sha v s (KTouch up t i) = touch up t i s"
| "key_step sha v s (KFlush broke) = flushTouch broke s"

section \<open>The seal\<close>

lemma split_on_cut: "\<forall>x \<in> set xs. \<not> p x \<Longrightarrow> p c \<Longrightarrow> split_on p (xs @ c # ys) = xs # split_on p ys"
  by (induction xs) auto

lemma split_on_whole: "\<forall>x \<in> set xs. \<not> p x \<Longrightarrow> split_on p xs = [xs]"
  by (induction xs) auto

lemma text_of_bytes [simp]: "text_of (bytes_of s) = s" "is_bytes (bytes_of s)"
  by (simp_all add: text_of_def bytes_of_def is_bytes_def list_all_iff comp_def)

text \<open>A sealed secret opens to its plaintext under the same master key.\<close>

lemma open_sealed:
  assumes "gcm_ok v" "is_bytes iv"
  shows "openSecret v m (sealSecret v m iv plaintext) = Some plaintext"
proof -
  obtain ct tag where e: "v_encrypt v m iv (bytes_of plaintext) = (ct, tag)" by (cases "v_encrypt v m iv (bytes_of plaintext)")
  from assms(1) [unfolded gcm_ok_def, rule_format, OF assms(2), of "bytes_of plaintext" m] e
  have ok: "is_bytes ct" "is_bytes tag" "v_decrypt v m iv ct tag = Some (bytes_of plaintext)" by simp_all
  have "\<forall>x \<in> set (to_base64 bs). x \<noteq> CHR ''.''" if "is_bytes bs" for bs
    using to_base64_dot [OF that] by auto
  with assms(2) ok(1,2) have "split_on (\<lambda>c. c = CHR ''.'') (sealSecret v m iv plaintext) = [to_base64 iv, to_base64 ct, to_base64 tag]"
    by (simp add: sealSecret_def e split_on_cut split_on_whole)
  with assms(2) ok show ?thesis by (simp add: openSecret_def base64_roundtrip)
qed

text \<open>The whitelist of a key as the table has it now.\<close>

definition whitelist :: "string \<Rightarrow> key_store \<Rightarrow> string list option" where
  "whitelist i s = (case get_key i s of Some r \<Rightarrow> parseKeyScopes (key_scopes r) | None \<Rightarrow> None)"

definition rows_unique :: "key_row list \<Rightarrow> bool" where
  "rows_unique rows \<longleftrightarrow> distinct (map key_id rows) \<and> distinct (map key_hash rows) \<and>
     list_all (\<lambda>r. 0 \<le> dailyTokenLimit r \<and> 0 \<le> rpmLimit r) rows"

definition cache_current :: "key_store \<Rightarrow> bool" where
  "cache_current s \<longleftrightarrow> (\<forall>i v. map_of (scopesCache s) i = Some v \<longrightarrow>
     (\<exists>r \<in> set (key_rows s). key_id r = i \<and> parseKeyScopes (key_scopes r) = v))"

definition keys_inv :: "key_store \<Rightarrow> bool" where
  "keys_inv s \<longleftrightarrow> rows_unique (key_rows s) \<and> jm_wf (touchPending s) \<and> cache_current s"

subsection \<open>Rows\<close>

lemma find_unique: "distinct (map f xs) \<Longrightarrow> find (\<lambda>x. f x = k) xs = Some x \<longleftrightarrow> x \<in> set xs \<and> f x = k"
  unfolding find_Some_iff by (auto simp: distinct_map inj_on_def in_set_conv_nth distinct_conv_nth)

lemma find_none_iff: "find (\<lambda>x. f x = k) xs = None \<longleftrightarrow> k \<notin> f ` set xs"
  by (auto simp: find_None_iff)

lemma get_key_iff: "rows_unique (key_rows s) \<Longrightarrow> get_key i s = Some r \<longleftrightarrow> r \<in> set (key_rows s) \<and> key_id r = i"
  by (simp add: get_key_def rows_unique_def find_unique)

lemma verify_key_iff:
  assumes "rows_unique (key_rows s)"
  shows "verify_key sha p s = VOk r \<longleftrightarrow> r \<in> set (key_rows s) \<and> key_hash r = sha p \<and> disabledAt r = None"
    and "verify_key sha p s = VDisabled r \<longleftrightarrow> r \<in> set (key_rows s) \<and> key_hash r = sha p \<and> disabledAt r \<noteq> None"
proof -
  have f: "find (\<lambda>r. key_hash r = sha p) (key_rows s) = Some q \<longleftrightarrow> q \<in> set (key_rows s) \<and> key_hash q = sha p" for q
    using assms by (simp add: rows_unique_def find_unique)
  show "verify_key sha p s = VOk r \<longleftrightarrow> r \<in> set (key_rows s) \<and> key_hash r = sha p \<and> disabledAt r = None"
    using f [of r] by (auto simp: verify_key_def split: option.splits)
  show "verify_key sha p s = VDisabled r \<longleftrightarrow> r \<in> set (key_rows s) \<and> key_hash r = sha p \<and> disabledAt r \<noteq> None"
    using f [of r] by (cases "find (\<lambda>r. key_hash r = sha p) (key_rows s)") (auto simp: verify_key_def)
qed

lemma verify_key_unknown: "verify_key sha p s = VUnknown \<longleftrightarrow> sha p \<notin> key_hash ` set (key_rows s)"
  using find_none_iff [of key_hash "sha p" "key_rows s"]
  by (cases "find (\<lambda>r. key_hash r = sha p) (key_rows s)") (simp_all add: verify_key_def)

lemma limit_nonneg [simp]: "0 \<le> positiveIntOrZero n"
  by (simp add: positiveIntOrZero_def split: option.splits)

lemma positiveIntOrZero_int [simp]: "0 \<le> n \<Longrightarrow> positiveIntOrZero (Some (of_int n)) = n"
  by (simp add: positiveIntOrZero_def)

text \<open>Rewriting rows in place keeps the table well formed when ids and hashes are kept.\<close>

definition keeps :: "(key_row \<Rightarrow> key_row) \<Rightarrow> bool" where
  "keeps g \<longleftrightarrow> (\<forall>r. key_id (g r) = key_id r \<and> key_hash (g r) = key_hash r \<and>
     (0 \<le> dailyTokenLimit r \<and> 0 \<le> rpmLimit r \<longrightarrow> 0 \<le> dailyTokenLimit (g r) \<and> 0 \<le> rpmLimit (g r)))"

lemma map_row_rows: "key_rows (map_row i f s) = map (\<lambda>r. if key_id r = i then f r else r) (key_rows s)"
  by (simp add: map_row_def)

lemma map_row_frame [simp]:
  "scopesCache (map_row i f s) = scopesCache s" "touchPending (map_row i f s) = touchPending s" "lastWritten (map_row i f s) = lastWritten s"
  by (simp_all add: map_row_def)

lemma rows_unique_map: "rows_unique rows \<Longrightarrow> keeps g \<Longrightarrow> rows_unique (map g rows)"
  by (auto simp: rows_unique_def keeps_def comp_def list_all_iff)

lemma keeps_row: "keeps f \<Longrightarrow> keeps (\<lambda>r. if key_id r = i then f r else r)"
  by (simp add: keeps_def)

lemma patch_keeps: "keeps (patch_row t p)"
  by (simp add: keeps_def patch_row_def)

lemma used_keeps: "keeps (\<lambda>r. r\<lparr>lastUsedAt := Some ts\<rparr>)"
  by (simp add: keeps_def)

text \<open>The row an update writes is computed from the row it read: the same as patching it in place.\<close>

lemma map_row_const:
  assumes "rows_unique (key_rows s)" "get_key i s = Some r"
  shows "map_row i (\<lambda>_. g r) s = map_row i g s"
proof -
  have "map (\<lambda>q. if key_id q = i then g r else q) (key_rows s) = map (\<lambda>q. if key_id q = i then g q else q) (key_rows s)"
    using assms get_key_iff [OF assms(1)] by (auto simp: rows_unique_def distinct_map inj_on_def)
  then show ?thesis by (simp add: map_row_def)
qed

lemma get_key_map_row:
  assumes "\<And>r. key_id (f r) = key_id r"
  shows "get_key j (map_row i f s) = map_option (\<lambda>r. if j = i then f r else r) (get_key j s)"
proof -
  have "find (\<lambda>r. key_id r = j) (map (\<lambda>r. if key_id r = i then f r else r) rows) =
      map_option (\<lambda>r. if j = i then f r else r) (find (\<lambda>r. key_id r = j) rows)" for rows
    by (induction rows) (auto simp: assms)
  then show ?thesis by (simp add: get_key_def map_row_def)
qed

subsection \<open>The whitelist cache\<close>

lemma cache_current_map_row:
  assumes "cache_current s" "\<And>r. key_id (f r) = key_id r" "\<And>r. key_scopes (f r) = key_scopes r"
  shows "cache_current (map_row i f s)"
  unfolding cache_current_def map_row_frame map_row_rows
proof (intro allI impI)
  fix j v
  assume "map_of (scopesCache s) j = Some v"
  with assms(1) obtain r where "r \<in> set (key_rows s)" "key_id r = j" "parseKeyScopes (key_scopes r) = v"
    by (auto simp: cache_current_def)
  with assms(2,3) show "\<exists>r \<in> set (map (\<lambda>r. if key_id r = i then f r else r) (key_rows s)). key_id r = j \<and> parseKeyScopes (key_scopes r) = v"
    by (intro bexI [of _ "if key_id r = i then f r else r"]) auto
qed

lemma whitelist_cached:
  assumes "rows_unique (key_rows s)" "cache_current s" "map_of (scopesCache s) i = Some v"
  shows "whitelist i s = v"
proof -
  from assms(2,3) obtain r where "r \<in> set (key_rows s)" "key_id r = i" "parseKeyScopes (key_scopes r) = v"
    by (auto simp: cache_current_def)
  with get_key_iff [OF assms(1), of i r] show ?thesis by (simp add: whitelist_def)
qed

lemma scopesOf_current: "rows_unique (key_rows s) \<Longrightarrow> cache_current s \<Longrightarrow> fst (scopesOf i s) = whitelist i s"
  using whitelist_cached [of s i] by (auto simp: scopesOf_def whitelist_def Let_def split: option.splits)

lemma scopesOf_inv:
  assumes "keys_inv s"
  shows "keys_inv (snd (scopesOf i s))"
proof (cases "map_of (scopesCache s) i = None \<and> get_key i s \<noteq> None")
  case True
  then obtain r where r: "get_key i s = Some r" by blast
  with assms get_key_iff [of s i r] have "r \<in> set (key_rows s)" "key_id r = i" by (simp_all add: keys_inv_def)
  with True r assms show ?thesis by (auto simp: scopesOf_def Let_def keys_inv_def cache_current_def)
qed (use assms in \<open>auto simp: scopesOf_def split: option.splits\<close>)

lemma keys_inv_cong:
  "key_rows s1 = key_rows s \<Longrightarrow> touchPending s1 = touchPending s \<Longrightarrow> scopesCache s1 = scopesCache s \<Longrightarrow> keys_inv s1 = keys_inv s"
  by (simp add: keys_inv_def cache_current_def)

lemma map_row_inv:
  assumes "keys_inv s" "keeps f" "\<And>r. key_scopes (f r) = key_scopes r"
  shows "keys_inv (map_row i f s)"
  using assms cache_current_map_row [of s f i] rows_unique_map [OF _ keeps_row, of "key_rows s" f i]
  by (simp add: keys_inv_def map_row_rows keeps_def)

lemma set_used_inv: "keys_inv s \<Longrightarrow> keys_inv (set_used i ts s)"
  using map_row_inv [OF _ used_keeps, of s ts i] by (simp add: set_used_def keys_inv_def cache_current_def)

lemma land_inv: "keys_inv s \<Longrightarrow> keys_inv (land ps s)"
  by (induction ps arbitrary: s) (auto simp: land_def set_used_inv)

lemma pending_inv: "keys_inv s \<Longrightarrow> jm_wf m \<Longrightarrow> keys_inv (s\<lparr>touchPending := m\<rparr>)"
  by (simp add: keys_inv_def cache_current_def)

lemma touch_inv: "keys_inv s \<Longrightarrow> keys_inv (touch up t i s)"
  using pending_inv [of s "jm_set i t (touchPending s)"] pending_inv [OF set_used_inv [of s i t], of "jm_del i (touchPending s)"]
  by (simp add: touch_def writeTouch_def keys_inv_def jm_wf_jm_set jm_wf_jm_del)

lemma flushTouch_inv: "keys_inv s \<Longrightarrow> keys_inv (flushTouch broke s)"
  by (auto simp: flushTouch_def land_inv jm_wf_def intro!: pending_inv split: option.splits)

lemma create_inv: "keys_inv s \<Longrightarrow> create_key sha v iv secret rid t name daily rpm s = Some (r, p, s1) \<Longrightarrow> keys_inv s1"
  by (fastforce simp: create_key_def generateApiKey_def Let_def keys_inv_def rows_unique_def cache_current_def list_ex_iff split: if_splits)

lemma update_inv: "keys_inv s \<Longrightarrow> keys_inv (snd (update_key t i p s))"
proof (cases "get_key i s")
  case (Some r)
  assume inv: "keys_inv s"
  then have u: "rows_unique (key_rows s)" and c: "cache_current s" by (simp_all add: keys_inv_def)
  have "cache_current ((map_row i (patch_row t p) s)\<lparr>scopesCache := jm_del i (scopesCache s)\<rparr>)"
    using c by (fastforce simp: cache_current_def map_row_rows split: if_splits)
  with inv rows_unique_map [OF u keeps_row [OF patch_keeps]] Some show ?thesis
    by (simp add: update_key_def Let_def map_row_const [OF u Some] keys_inv_def map_row_rows)
qed (simp add: update_key_def)

lemma remove_inv: "keys_inv s \<Longrightarrow> keys_inv (snd (remove_key i s))"
  by (fastforce simp: remove_key_def keys_inv_def rows_unique_def cache_current_def distinct_map_filter list_all_iff jm_wf_jm_del split: if_splits)

lemma rotate_inv: "keys_inv s \<Longrightarrow> rotate_key sha v iv secret i s = Some (p, s1) \<Longrightarrow> keys_inv s1"
proof (cases "get_key i s")
  case (Some r)
  let ?p = "KEY_MARK @ secret"
  let ?f = "\<lambda>q. q\<lparr>key_hash := sha ?p, key_prefix := take 8 secret, secret_enc := key_sealed v iv ?p\<rparr>"
  assume inv: "keys_inv s" and rot: "rotate_key sha v iv secret i s = Some (p, s1)"
  from rot Some have s1: "s1 = map_row i ?f s" and free: "\<forall>q \<in> set (key_rows s). key_id q \<noteq> i \<longrightarrow> key_hash q \<noteq> sha ?p"
    by (auto simp: rotate_key_def generateApiKey_def list_ex_iff split: if_splits)
  have "rows_unique (key_rows s1)"
    using inv free unfolding s1 map_row_rows by (auto simp: keys_inv_def rows_unique_def distinct_map inj_on_def list_all_iff)
  with inv cache_current_map_row [of s ?f i] show ?thesis by (simp add: s1 keys_inv_def)
qed (simp add: rotate_key_def)

lemma key_step_inv: "keys_inv s \<Longrightarrow> keys_inv (key_step sha v s op)"
  by (cases op) (auto simp: update_inv remove_inv scopesOf_inv touch_inv flushTouch_inv split: option.splits dest: create_inv rotate_inv)

interpretation keys_run: stepwise "key_step sha v" "\<lambda>_ _. True" keys_inv for sha v
  by unfold_locales (rule key_step_inv)

subsection \<open>Last use\<close>

text \<open>When a key was last used, read through the debounce buffer.\<close>

definition used_at :: "key_store \<Rightarrow> string \<Rightarrow> ms option" where
  "used_at s i = (case get_key i s of None \<Rightarrow> None | Some r \<Rightarrow> coalesce (map_of (touchPending s) i) (lastUsedAt r))"

lemma get_key_set_used:
  "get_key j (set_used i ts s) = map_option (\<lambda>r. if j = i then r\<lparr>lastUsedAt := Some ts\<rparr> else r) (get_key j s)"
proof -
  have "get_key j (set_used i ts s) = get_key j (map_row i (\<lambda>r. r\<lparr>lastUsedAt := Some ts\<rparr>) s)"
    by (simp add: set_used_def get_key_def)
  then show ?thesis by (simp add: get_key_map_row)
qed

lemma get_key_land:
  "jm_wf ps \<Longrightarrow> get_key j (land ps s) =
     map_option (\<lambda>r. case map_of ps j of Some ts \<Rightarrow> r\<lparr>lastUsedAt := Some ts\<rparr> | None \<Rightarrow> r) (get_key j s)"
proof (induction ps arbitrary: s)
  case (Cons p ps)
  obtain i ts where p: "p = (i, ts)" by (cases p)
  with Cons have ih: "get_key j (land ps (set_used i ts s)) =
      map_option (\<lambda>r. case map_of ps j of Some ts \<Rightarrow> r\<lparr>lastUsedAt := Some ts\<rparr> | None \<Rightarrow> r) (get_key j (set_used i ts s))"
    by (simp add: jm_wf_def)
  from Cons.prems p have "map_of ps i = None" by (simp add: jm_wf_def map_of_eq_None_iff)
  with ih p show ?case by (cases "get_key j s") (auto simp: land_def get_key_set_used split: option.splits)
qed (simp add: land_def option.map_ident)

lemma touch_used:
  assumes "get_key i s \<noteq> None" "up"
  shows "used_at (touch up t i s) = (used_at s)(i \<mapsto> t)"
proof
  fix j
  have g: "get_key j (s\<lparr>touchPending := m\<rparr>) = get_key j s" for m s j by (simp add: get_key_def)
  have p: "touchPending (set_used i t s) = touchPending s" by (simp add: set_used_def)
  from assms(1) obtain r where "get_key i s = Some r" by blast
  with assms(2) show "used_at (touch up t i s) j = ((used_at s)(i \<mapsto> t)) j"
    by (cases "get_key j s") (auto simp: touch_def writeTouch_def used_at_def g p get_key_set_used)
qed

lemma flushTouch_used:
  assumes "jm_wf (touchPending s)"
  shows "used_at (flushTouch None s) = used_at s \<and> touchPending (flushTouch None s) = []"
proof (cases "touchPending s = []")
  case False
  have g: "get_key j (s\<lparr>touchPending := m\<rparr>) = get_key j s" for m s j by (simp add: get_key_def)
  have "used_at (flushTouch None s) j = used_at s j" for j
    using False get_key_land [OF assms, of j s] by (auto simp: flushTouch_def used_at_def g split: option.splits)
  with False show ?thesis by (auto simp: flushTouch_def)
qed (simp add: flushTouch_def)

section \<open>Properties\<close>

text \<open>
  In every history of the key store, whatever the hash function: key ids and hashes stay unique, limits are
  never negative, and the model whitelist that the engine reads through the cache is the one the table holds now,
  also right after an update, a removal or the re-creation of a key.
\<close>

lemma scopes_current:
  assumes "rows_unique rows"
  shows "let s = foldl (key_step sha v) (new_keys rows) ops
    in rows_unique (key_rows s) \<and> fst (scopesOf i s) = whitelist i s"
proof -
  have "keys_inv (new_keys rows)" using assms by (simp add: keys_inv_def new_keys_def jm_wf_def cache_current_def)
  then have "keys_inv (foldl (key_step sha v) (new_keys rows) ops)" by (rule keys_run.run_inv) (rule ok_run_True)
  then show ?thesis by (simp add: keys_inv_def scopesOf_current)
qed

definition demo_key :: key_row where
  "demo_key = \<lparr>key_id = ''key_1'', key_name = ''a'', key_hash = ''h'', key_prefix = ''p'', key_createdAt = 0, disabledAt = None,
     dailyTokenLimit = 100, rpmLimit = 2, key_scopes = Some ''m1, m2'', lastUsedAt = None, secret_enc = None\<rparr>"

definition scopes_patch :: "string \<Rightarrow> key_patch" where
  "scopes_patch v = \<lparr>p_name = None, p_disabled = None, p_daily = None, p_rpm = None, p_scopes = Some (Some v)\<rparr>"


text \<open>
  Rotating a key replaces its secret at once: the fresh plaintext verifies to the same key, with its id,
  limits, whitelist and disabled state unchanged, every plaintext whose hash was the old one is unknown, no
  other plaintext's verdict changes, and the fresh plaintext is what reveal decrypts.
\<close>

lemma rotate_replaces:
  assumes inv: "keys_inv s" and old: "get_key i s = Some r" and rot: "rotate_key sha v iv secret i s = Some (Some p, s1)"
    and fresh: "sha p \<noteq> key_hash r" and vault: "gcm_ok v" "is_bytes iv" "v_master v = Some m"
  shows "verify_key sha p s1 =
      (let r1 = r\<lparr>key_hash := sha p, key_prefix := take 8 secret, secret_enc := Some (sealSecret v m iv p)\<rparr>
       in if disabledAt r = None then VOk r1 else VDisabled r1) \<and>
    (\<forall>q. sha q = key_hash r \<longrightarrow> verify_key sha q s1 = VUnknown) \<and>
    (\<forall>q. sha q \<noteq> key_hash r \<and> sha q \<noteq> sha p \<longrightarrow> verify_key sha q s1 = verify_key sha q s) \<and>
    reveal_key v i s1 = Some p"
proof -
  let ?f = "\<lambda>q. q\<lparr>key_hash := sha p, key_prefix := take 8 secret, secret_enc := Some (sealSecret v m iv p)\<rparr>"
  from rot old vault(3) have s1: "s1 = map_row i ?f s" and p: "p = KEY_MARK @ secret"
    by (auto simp: rotate_key_def generateApiKey_def key_sealed_def split: if_splits)
  have u: "rows_unique (key_rows s)" using inv by (simp add: keys_inv_def)
  have u1: "rows_unique (key_rows s1)" using rotate_inv [OF inv rot] by (simp add: keys_inv_def)
  have r: "r \<in> set (key_rows s)" "key_id r = i" using get_key_iff [OF u] old by auto
  have rows: "set (key_rows s1) = insert (?f r) (set (key_rows s) - {r})"
  proof -
    have "key_id x = i \<longleftrightarrow> x = r" if "x \<in> set (key_rows s)" for x
      using that r u by (auto simp: rows_unique_def distinct_map inj_on_def)
    then have "(\<lambda>q. if key_id q = i then ?f q else q) ` set (key_rows s) = (\<lambda>q. if q = r then ?f q else q) ` set (key_rows s)"
      by (intro image_cong) auto
    also have "\<dots> = insert (?f r) (set (key_rows s) - {r})" using r(1) by (auto simp: image_iff)
    finally show ?thesis unfolding s1 map_row_rows by simp
  qed
  have same: "key_hash x = key_hash r \<Longrightarrow> x \<in> set (key_rows s) \<Longrightarrow> x = r" for x
    using r u by (auto simp: rows_unique_def distinct_map inj_on_def)
  have "verify_key sha p s1 = (if disabledAt r = None then VOk (?f r) else VDisabled (?f r))"
    using rows by (auto simp: verify_key_iff [OF u1])
  moreover have "verify_key sha q s1 = VUnknown" if "sha q = key_hash r" for q
    using that fresh same rows by (auto simp: verify_key_unknown)
  moreover have "verify_key sha q s1 = verify_key sha q s" if "sha q \<noteq> key_hash r \<and> sha q \<noteq> sha p" for q
    using that rows verify_key_iff [OF u, of sha q] verify_key_iff [OF u1, of sha q] verify_key_unknown [of sha q s] verify_key_unknown [of sha q s1]
    by (cases "verify_key sha q s") auto
  moreover have "get_key i s1 = Some (?f r)" using rows r by (simp add: get_key_iff [OF u1])
  ultimately show ?thesis using open_sealed [OF vault(1,2)] vault(3) by (auto simp: reveal_key_def Let_def)
qed


text \<open>The debounce loses nothing: touches, then the flush at shutdown, leave each touched key's time of last use in its row.\<close>

lemma last_use_lands:
  assumes "keys_inv s" "get_key i s \<noteq> None"
  shows "\<exists>r. get_key i (flushTouch None (touch True t i s)) = Some r \<and> lastUsedAt r = Some t"
proof -
  let ?s = "touch True t i s"
  have "jm_wf (touchPending ?s)" using touch_inv [OF assms(1)] by (simp add: keys_inv_def)
  from flushTouch_used [OF this] touch_used [OF assms(2), of True t]
  have "used_at (flushTouch None ?s) i = Some t" "touchPending (flushTouch None ?s) = []" by simp_all
  then show ?thesis by (auto simp: used_at_def split: option.splits)
qed

lemma master_key_kept: "list_all is_hex k \<Longrightarrow> length k = 64 \<Longrightarrow> to_lower k = k \<Longrightarrow>
   loadOrCreateMasterKey d Absent k = Inr (k, Some (k @ nl)) \<and> loadOrCreateMasterKey d (Content (k @ nl)) x = Inr (k, None)"
proof -
  assume k: "list_all is_hex k" "length k = 64" "to_lower k = k"
  have sp: "is_hex c \<Longrightarrow> \<not> is_space c" for c by (auto simp: is_hex_def is_digit_def is_space_def Let_def)
  have dw: "list_all is_hex z \<Longrightarrow> dropWhile is_space z = z" for z using sp by (cases z) auto
  have "dropWhile is_space (k @ nl) = k @ nl" using k(1,2) sp by (cases k) auto
  moreover have "dropWhile is_space (rev (k @ nl)) = rev k" using dw [of "rev k"] k(1) by (simp add: nl_def is_space_def)
  ultimately have "trim (k @ nl) = k" by (simp add: trim_def)
  with k show ?thesis by (simp add: loadOrCreateMasterKey_def)
qed

end
