(* ===== verification/Ledger.thy ===== *)
theory Ledger
  imports Prelude
begin

text \<open>
  The usage ledger: the class \<open>UsageLedger\<close> of \<open>src/server/usage-ledger.ts\<close>.

  The \<open>usage\<close> table is the list of its rows in insertion order; \<open>INSERT OR IGNORE\<close> skips a row whose request
  id is present, the \<open>UNIQUE\<close> constraint of the schema. Every operation takes the clock reading; the start of
  the local day is the parameter \<open>midnight\<close>, and the argument \<open>err\<close> of a write is the error text of a transaction SQLite refused, or \<open>None\<close>.
  Token counts are JSON numbers.
\<close>

section \<open>Rows and state\<close>

record usage_record =
  u_requestId :: string
  u_keyId :: "string option"
  u_accountId :: "string option"
  u_model :: string
  u_family :: string
  u_protocol :: string
  u_promptTokens :: rat
  u_completionTokens :: rat
  u_reasoningTokens :: "rat option"
  u_cacheReadTokens :: "rat option"
  u_status :: string
  u_durationMs :: "rat option"
  u_errorText :: "string option"

record usage_row = usage_record +
  totalTokens :: rat
  createdAt :: ms
  seq :: nat

record ledger =
  led_buffer :: "usage_row list"
  led_table :: "usage_row list"
  led_seq :: nat
  led_closed :: bool
  tokensTodayCache :: "(string, ms \<times> rat) jsmap"
  warnedClosed :: bool
  lastWarnAt :: ms
  led_log :: "string list"
  maxPendingRows :: nat

definition MAX_PENDING_ROWS :: nat where
  "MAX_PENDING_ROWS = 5000"

definition WARN_INTERVAL_MS :: ms where
  "WARN_INTERVAL_MS = 60000"

definition ERROR_TEXT_MAX :: nat where
  "ERROR_TEXT_MAX = 500"

definition new_ledger :: "usage_row list \<Rightarrow> nat \<Rightarrow> nat option \<Rightarrow> ledger" where
  "new_ledger rows sq maxPending = \<lparr>led_buffer = [], led_table = rows, led_seq = sq, led_closed = False, tokensTodayCache = [],
     warnedClosed = False, lastWarnAt = 0, led_log = [], maxPendingRows = max 1 (or_else maxPending MAX_PENDING_ROWS)\<rparr>"

section \<open>Operations\<close>

definition led_warn :: "string \<Rightarrow> ledger \<Rightarrow> ledger" where
  "led_warn msg l = l\<lparr>led_log := led_log l @ [msg]\<rparr>"

definition warnThrottled :: "ms \<Rightarrow> string \<Rightarrow> ledger \<Rightarrow> ledger" where
  "warnThrottled t msg l =
     (if t - lastWarnAt l < WARN_INTERVAL_MS then l else led_warn msg (l\<lparr>lastWarnAt := t\<rparr>))"

text \<open>\<open>INSERT OR IGNORE\<close> of one row, stamped with the flush time.\<close>

definition insert_row :: "ms \<Rightarrow> usage_row \<Rightarrow> ledger \<Rightarrow> ledger" where
  "insert_row ts r l =
     (if u_requestId r \<in> u_requestId ` set (led_table l) then l
      else l\<lparr>led_table := led_table l @ [r\<lparr>createdAt := ts, seq := led_seq l + 1\<rparr>], led_seq := led_seq l + 1\<rparr>)"

definition insertBatch :: "ms \<Rightarrow> usage_row list \<Rightarrow> ledger \<Rightarrow> ledger" where
  "insertBatch ts rows l = foldl (\<lambda>l r. insert_row ts r l) l rows"

definition flush_failed :: "ms \<Rightarrow> string \<Rightarrow> usage_row list \<Rightarrow> ledger \<Rightarrow> ledger" where
  "flush_failed t err batch l =
     (let kept = batch @ led_buffer l; head = ''usage ledger flush failed ('' @ err @ '') '' @ em_dash @ '' ''
      in if length kept > maxPendingRows l
         then warnThrottled t (head @ show_nat (length kept - maxPendingRows l) @ '' oldest row(s) dropped, keeping the newest '' @
                show_nat (maxPendingRows l) @ '' for retry'') (l\<lparr>led_buffer := slice_last (maxPendingRows l) kept\<rparr>)
         else warnThrottled t (head @ show_nat (length kept) @ '' row(s) requeued for the next window'') (l\<lparr>led_buffer := kept\<rparr>))"

definition flush_ledger :: "ms \<Rightarrow> string option \<Rightarrow> ledger \<Rightarrow> ledger" where
  "flush_ledger t err l =
     (if led_closed l \<or> led_buffer l = [] then l
      else let batch = led_buffer l; l1 = l\<lparr>led_buffer := []\<rparr>
        in case err of None \<Rightarrow> insertBatch t batch l1 | Some e \<Rightarrow> flush_failed t e batch l1)"

definition buffer_row :: "usage_record \<Rightarrow> string \<Rightarrow> usage_row" where
  "buffer_row rec uuid =
     usage_record.extend
       (rec\<lparr>u_requestId := (if u_requestId rec \<noteq> [] then u_requestId rec else uuid),
            u_errorText := (case u_errorText rec of Some t \<Rightarrow> if t \<noteq> [] then Some (take ERROR_TEXT_MAX t) else None | None \<Rightarrow> None)\<rparr>)
       (usage_row.fields (u_promptTokens rec + u_completionTokens rec) 0 0)"

definition advance_cache :: "(ms \<Rightarrow> ms) \<Rightarrow> ms \<Rightarrow> usage_record \<Rightarrow> ledger \<Rightarrow> ledger" where
  "advance_cache midnight t rec l =
     (case u_keyId rec of
        None \<Rightarrow> l
      | Some k \<Rightarrow>
          (case map_of (tokensTodayCache l) k of
             Some (day, tot) \<Rightarrow>
               if day = midnight t
               then l\<lparr>tokensTodayCache := jm_set k (day, tot + u_promptTokens rec + u_completionTokens rec) (tokensTodayCache l)\<rparr>
               else l
           | None \<Rightarrow> l))"

definition record_usage :: "(ms \<Rightarrow> ms) \<Rightarrow> ms \<Rightarrow> usage_record \<Rightarrow> string \<Rightarrow> string option \<Rightarrow> ledger \<Rightarrow> ledger" where
  "record_usage midnight t rec uuid err l =
     (if led_closed l then
        (if warnedClosed l then l
         else led_warn (''usage ledger received a record after close '' @ em_dash @ '' dropped'') (l\<lparr>warnedClosed := True\<rparr>))
      else let l1 = advance_cache midnight t rec (l\<lparr>led_buffer := led_buffer l @ [buffer_row rec uuid]\<rparr>)
        in if length (led_buffer l1) \<ge> 500 then flush_ledger t err l1 else l1)"

text \<open>Rows of one key, and the sum of their tokens.\<close>

definition key_sum :: "string \<Rightarrow> usage_row list \<Rightarrow> rat" where
  "key_sum k rows = sum_list (map totalTokens (filter (\<lambda>r. u_keyId r = Some k) rows))"

definition table_today :: "ms \<Rightarrow> usage_row list \<Rightarrow> usage_row list" where
  "table_today day rows = filter (\<lambda>r. createdAt r \<ge> day) rows"

definition tokensUsedToday :: "(ms \<Rightarrow> ms) \<Rightarrow> ms \<Rightarrow> string \<Rightarrow> ledger \<Rightarrow> rat \<times> ledger" where
  "tokensUsedToday midnight t k l =
     (let day = midnight t;
          tot = key_sum k (table_today day (led_table l)) + key_sum k (led_buffer l)
      in case map_of (tokensTodayCache l) k of
           Some (d, cached) \<Rightarrow>
             if d = day then (cached, l) else (tot, l\<lparr>tokensTodayCache := jm_set k (day, tot) (tokensTodayCache l)\<rparr>)
         | None \<Rightarrow> (tot, l\<lparr>tokensTodayCache := jm_set k (day, tot) (tokensTodayCache l)\<rparr>))"

record usage_summary =
  sum_requests :: nat
  sum_promptTokens :: rat
  sum_completionTokens :: rat
  sum_totalTokens :: rat

definition summarizeToday :: "(ms \<Rightarrow> ms) \<Rightarrow> ms \<Rightarrow> ledger \<Rightarrow> usage_summary" where
  "summarizeToday midnight t l =
     (let rows = table_today (midnight t) (led_table l)
      in \<lparr>sum_requests = length rows, sum_promptTokens = sum_list (map u_promptTokens rows),
          sum_completionTokens = sum_list (map u_completionTokens rows), sum_totalTokens = sum_list (map totalTokens rows)\<rparr>)"

definition pruneOlderThan :: "(ms \<Rightarrow> ms) \<Rightarrow> ms \<Rightarrow> rat \<Rightarrow> string option \<Rightarrow> ledger \<Rightarrow> nat \<times> ledger" where
  "pruneOlderThan midnight t days err l =
     (if days \<le> 0 then (0, l)
      else let cutoff = midnight t - \<lfloor>days\<rfloor> * 86400000;
               kept = filter (\<lambda>r. \<not> createdAt r < cutoff) (led_table l)
        in case err of
             None \<Rightarrow> (length (led_table l) - length kept, l\<lparr>led_table := kept\<rparr>)
           | Some e \<Rightarrow> (0, warnThrottled t (''usage ledger prune failed ('' @ e @ '')'') l))"

definition close_ledger :: "ms \<Rightarrow> string option \<Rightarrow> ledger \<Rightarrow> ledger" where
  "close_ledger t err l =
     (if led_closed l then l
      else let l1 = l\<lparr>led_closed := True, tokensTodayCache := []\<rparr>
        in if led_buffer l1 = [] then l1
           else let batch = led_buffer l1; l2 = l1\<lparr>led_buffer := []\<rparr>
             in case err of
                  None \<Rightarrow> insertBatch t batch l2
                | Some e \<Rightarrow> warnThrottled t (''usage ledger close: final flush failed ('' @ e @ '') '' @ em_dash @ '' rows dropped'') l2)"

section \<open>Queries\<close>

record usage_query =
  q_keyId :: "string option"
  q_accountId :: "string option"
  q_model :: "string option"
  q_family :: "string option"
  q_protocol :: "string option"
  q_status :: "string option"
  q_from :: "ms option"
  q_to :: "ms option"
  q_limit :: "int option"
  q_offset :: "int option"

definition opt_eq :: "'a option \<Rightarrow> 'a \<Rightarrow> bool" where
  "opt_eq q v = (case q of None \<Rightarrow> True | Some x \<Rightarrow> v = x)"

text \<open>The \<open>WHERE\<close> clause; a comparison with a \<open>NULL\<close> column is not true.\<close>

definition matches :: "usage_query \<Rightarrow> usage_row \<Rightarrow> bool" where
  "matches q r =
     ((q_keyId q = None \<or> u_keyId r = q_keyId q) \<and> (q_accountId q = None \<or> u_accountId r = q_accountId q) \<and>
      opt_eq (q_model q) (u_model r) \<and> opt_eq (q_family q) (u_family r) \<and> opt_eq (q_protocol q) (u_protocol r) \<and>
      opt_eq (q_status q) (u_status r) \<and>
      (case q_from q of None \<Rightarrow> True | Some a \<Rightarrow> createdAt r \<ge> a) \<and>
      (case q_to q of None \<Rightarrow> True | Some b \<Rightarrow> createdAt r \<le> b))"

text \<open>The table is in the order of \<open>seq\<close>, so \<open>ORDER BY seq DESC\<close> reverses it.\<close>

definition query_usage :: "usage_query \<Rightarrow> ledger \<Rightarrow> nat \<times> usage_row list" where
  "query_usage q l =
     (let hits = filter (matches q) (led_table l);
          limit = min (max 1 (or_else (q_limit q) 50)) 500;
          offset = max 0 (or_else (q_offset q) 0)
      in (length hits, take (nat limit) (drop (nat offset) (rev hits))))"

section \<open>Histories\<close>

datatype ledger_op =
    LRecord ms usage_record string "string option"
  | LFlush ms "string option"
  | LRead ms string
  | LPrune ms rat "string option"
  | LClose ms "string option"

fun op_time :: "ledger_op \<Rightarrow> ms" where
  "op_time (LRecord t rec uuid err) = t"
| "op_time (LFlush t err) = t"
| "op_time (LRead t k) = t"
| "op_time (LPrune t days err) = t"
| "op_time (LClose t err) = t"

text \<open>The state of a history: the ledger and the last clock reading.\<close>

fun ledger_step :: "(ms \<Rightarrow> ms) \<Rightarrow> ledger \<times> ms \<Rightarrow> ledger_op \<Rightarrow> ledger \<times> ms" where
  "ledger_step midnight (l, now0) (LRecord t rec uuid err) = (record_usage midnight t rec uuid err l, t)"
| "ledger_step midnight (l, now0) (LFlush t err) = (flush_ledger t err l, t)"
| "ledger_step midnight (l, now0) (LRead t k) = (snd (tokensUsedToday midnight t k l), t)"
| "ledger_step midnight (l, now0) (LPrune t days err) = (snd (pruneOlderThan midnight t days err l), t)"
| "ledger_step midnight (l, now0) (LClose t err) = (close_ledger t err l, t)"

text \<open>The clock does not run backwards and counts are not negative.\<close>

definition op_ok :: "ledger \<times> ms \<Rightarrow> ledger_op \<Rightarrow> bool" where
  "op_ok s op = (snd s \<le> op_time op \<and>
     (case op of LRecord t rec uuid err \<Rightarrow> 0 \<le> u_promptTokens rec \<and> 0 \<le> u_completionTokens rec | _ \<Rightarrow> True))"

text \<open>
  The invariant: request ids are unique in the table, the buffer is bounded, counts are not negative, and
  a cached total of the current day is at least what the table and the buffer hold for its key.
\<close>

definition today_sum :: "ms \<Rightarrow> string \<Rightarrow> ledger \<Rightarrow> rat" where
  "today_sum day k l = key_sum k (table_today day (led_table l)) + key_sum k (led_buffer l)"

definition nonneg :: "usage_row list \<Rightarrow> bool" where
  "nonneg rows = list_all (\<lambda>r. 0 \<le> totalTokens r) rows"

definition buffer_ok :: "ledger \<Rightarrow> bool" where
  "buffer_ok l = (length (led_buffer l) \<le> max 499 (maxPendingRows l))"

definition cache_safe :: "(ms \<Rightarrow> ms) \<Rightarrow> ms \<Rightarrow> ledger \<Rightarrow> bool" where
  "cache_safe midnight t l =
     (\<forall>(k, day, tot) \<in> set (tokensTodayCache l). day \<le> midnight t \<and> (day = midnight t \<longrightarrow> today_sum day k l \<le> tot))"

definition ledger_inv :: "(ms \<Rightarrow> ms) \<Rightarrow> ledger \<times> ms \<Rightarrow> bool" where
  "ledger_inv midnight s = (let (l, t) = s in
     distinct (map u_requestId (led_table l)) \<and> nonneg (led_table l) \<and> nonneg (led_buffer l) \<and> buffer_ok l \<and>
     jm_wf (tokensTodayCache l) \<and> cache_safe midnight t l)"

lemma key_sum_append [simp]: "key_sum k (xs @ ys) = key_sum k xs + key_sum k ys"
  by (simp add: key_sum_def)

lemma key_sum_Nil [simp]: "key_sum k [] = 0"
  by (simp add: key_sum_def)

lemma key_sum_one: "key_sum k [r] = (if u_keyId r = Some k then totalTokens r else 0)"
  by (simp add: key_sum_def)

lemma key_sum_nonneg: "nonneg xs \<Longrightarrow> 0 \<le> key_sum k xs"
  by (auto simp: key_sum_def nonneg_def list_all_iff intro!: sum_list_nonneg)

lemma nonneg_append [simp]: "nonneg (xs @ ys) \<longleftrightarrow> nonneg xs \<and> nonneg ys"
  by (simp add: nonneg_def)

lemma key_sum_slice: "nonneg xs \<Longrightarrow> key_sum k (slice_last n xs) \<le> key_sum k xs"
proof -
  assume "nonneg xs"
  moreover have "xs = take (length xs - n) xs @ slice_last n xs" by (simp add: slice_last_def)
  ultimately show ?thesis using key_sum_nonneg [of "take (length xs - n) xs" k] key_sum_append nonneg_append
    by (metis le_add_same_cancel2)
qed

lemma nonneg_slice: "nonneg xs \<Longrightarrow> nonneg (slice_last n xs)"
  by (auto simp: nonneg_def list_all_iff slice_last_def dest: in_set_dropD)

lemma table_today_append: "table_today day (xs @ ys) = table_today day xs @ table_today day ys"
  by (simp add: table_today_def)

text \<open>A batch of inserts.\<close>

lemma insert_row_inv:
  assumes "distinct (map u_requestId (led_table l))" "nonneg (led_table l)" "0 \<le> totalTokens r"
  shows "distinct (map u_requestId (led_table (insert_row ts r l))) \<and> nonneg (led_table (insert_row ts r l)) \<and>
    key_sum k (table_today day (led_table (insert_row ts r l))) \<le> key_sum k (table_today day (led_table l)) + key_sum k [r]"
  using assms by (auto simp: insert_row_def table_today_append nonneg_def key_sum_one) (auto simp: table_today_def key_sum_one)

lemma insert_row_frame:
  "led_buffer (insert_row ts r l) = led_buffer l" "tokensTodayCache (insert_row ts r l) = tokensTodayCache l"
  "maxPendingRows (insert_row ts r l) = maxPendingRows l" "led_closed (insert_row ts r l) = led_closed l"
  by (simp_all add: insert_row_def)

lemma insertBatch_inv:
  "distinct (map u_requestId (led_table l)) \<Longrightarrow> nonneg (led_table l) \<Longrightarrow> nonneg rows \<Longrightarrow>
   distinct (map u_requestId (led_table (insertBatch ts rows l))) \<and> nonneg (led_table (insertBatch ts rows l)) \<and>
   key_sum k (table_today day (led_table (insertBatch ts rows l))) \<le> key_sum k (table_today day (led_table l)) + key_sum k rows"
proof (induction rows arbitrary: l)
  case (Cons r rows)
  have r: "0 \<le> totalTokens r" "nonneg rows" using Cons.prems(3) by (simp_all add: nonneg_def)
  note i = insert_row_inv [OF Cons.prems(1,2) r(1), of ts k day]
  have "key_sum k (r # rows) = key_sum k [r] + key_sum k rows" using key_sum_append [of k "[r]" rows] by simp
  with i Cons.IH [of "insert_row ts r l"] r(2) show ?case by (auto simp: insertBatch_def)
qed (simp add: insertBatch_def)

lemma insertBatch_frame:
  "led_buffer (insertBatch ts rows l) = led_buffer l" "tokensTodayCache (insertBatch ts rows l) = tokensTodayCache l"
  "maxPendingRows (insertBatch ts rows l) = maxPendingRows l" "led_closed (insertBatch ts rows l) = led_closed l"
  by (induction rows arbitrary: l) (simp_all add: insertBatch_def insert_row_frame)

lemma warnThrottled_frame [simp]:
  "led_table (warnThrottled t m l) = led_table l" "led_buffer (warnThrottled t m l) = led_buffer l"
  "tokensTodayCache (warnThrottled t m l) = tokensTodayCache l" "maxPendingRows (warnThrottled t m l) = maxPendingRows l"
  by (simp_all add: warnThrottled_def led_warn_def)

section \<open>The invariant holds in every history\<close>

definition rows_ok :: "ledger \<Rightarrow> bool" where
  "rows_ok l = (distinct (map u_requestId (led_table l)) \<and> nonneg (led_table l) \<and> nonneg (led_buffer l))"

text \<open>\<open>shrinks l l'\<close>: the rows stay well-formed, no key gains tokens, the cache is untouched.\<close>

definition shrinks :: "ledger \<Rightarrow> ledger \<Rightarrow> bool" where
  "shrinks l l1 = (rows_ok l1 \<and> (\<forall>day k. today_sum day k l1 \<le> today_sum day k l) \<and>
     tokensTodayCache l1 = tokensTodayCache l \<and> maxPendingRows l1 = maxPendingRows l)"

lemma insertBatch_shrinks:
  assumes "rows_ok l" "led_buffer l = rows"
  shows "shrinks l (insertBatch t rows (l\<lparr>led_buffer := []\<rparr>))"
  using insertBatch_inv [of "l\<lparr>led_buffer := []\<rparr>" rows t] assms
  by (auto simp: shrinks_def rows_ok_def today_sum_def insertBatch_frame nonneg_def)

lemma flush_failed_shrinks:
  assumes "rows_ok l" "led_buffer l = rows"
  shows "shrinks l (flush_failed t e rows (l\<lparr>led_buffer := []\<rparr>))"
  using assms by (auto simp: shrinks_def rows_ok_def today_sum_def flush_failed_def Let_def nonneg_slice key_sum_slice)

lemma shrinks_refl: "rows_ok l \<Longrightarrow> shrinks l l"
  by (simp add: shrinks_def)

lemma flush_ledger_shrinks: "rows_ok l \<Longrightarrow> shrinks l (flush_ledger t err l)"
  by (auto simp: flush_ledger_def Let_def shrinks_refl insertBatch_shrinks flush_failed_shrinks split: option.splits)

lemma flush_ledger_bound:
  "length (led_buffer l) \<le> max 499 (maxPendingRows l) \<Longrightarrow> length (led_buffer (flush_ledger t err l)) \<le> max 499 (maxPendingRows l)"
  "\<not> led_closed l \<Longrightarrow> length (led_buffer (flush_ledger t err l)) \<le> maxPendingRows l"
  by (auto simp: flush_ledger_def flush_failed_def insertBatch_frame Let_def split: option.splits)

lemma prune_shrinks: "rows_ok l \<Longrightarrow> shrinks l (snd (pruneOlderThan midnight t days err l))"
proof -
  assume ok: "rows_ok l"
  have le: "key_sum k (filter P (table_today day xs)) \<le> key_sum k (table_today day xs)" if "nonneg xs" for P k day xs
    using that by (induction xs) (auto simp: key_sum_def table_today_def nonneg_def)
  have comm: "table_today day (filter P xs) = filter P (table_today day xs)" for P day xs
    by (simp add: table_today_def conj_commute)
  show ?thesis
    using ok le by (auto simp: pruneOlderThan_def Let_def shrinks_def rows_ok_def today_sum_def comm distinct_map_filter nonneg_def list_all_iff
        split: option.splits)
qed

lemma cache_safe_later:
  assumes "cache_safe midnight t0 l" "mono midnight" "t0 \<le> t"
  shows "cache_safe midnight t l"
proof -
  have "midnight t0 \<le> midnight t" using assms(2,3) by (rule monoD)
  with assms(1) show ?thesis by (fastforce simp: cache_safe_def)
qed

lemma cache_safe_shrinks: "cache_safe midnight t l \<Longrightarrow> shrinks l l1 \<Longrightarrow> cache_safe midnight t l1"
  by (fastforce simp: cache_safe_def shrinks_def intro: order_trans)

lemma ledger_inv_alt:
  "ledger_inv midnight (l, t) \<longleftrightarrow> rows_ok l \<and> buffer_ok l \<and> jm_wf (tokensTodayCache l) \<and> cache_safe midnight t l"
  by (auto simp: ledger_inv_def rows_ok_def)

lemma jm_set_entry: "(k1, v1) \<in> set (jm_set k v m) \<Longrightarrow> jm_wf m \<Longrightarrow> (k1 = k \<and> v1 = v) \<or> (k1 \<noteq> k \<and> (k1, v1) \<in> set m)"
proof -
  assume a: "(k1, v1) \<in> set (jm_set k v m)" and w: "jm_wf m"
  from w have w1: "jm_wf (jm_set k v m)" by (rule jm_wf_jm_set)
  with a have "map_of (jm_set k v m) k1 = Some v1" unfolding jm_wf_def by (rule map_of_is_SomeI [rotated])
  with w show ?thesis by (auto split: if_splits dest: map_of_SomeD)
qed

text \<open>Recording one row adds its tokens to its key and to the cached total of that key.\<close>

lemma advance_cache_frame:
  "led_buffer (advance_cache midnight t rec l) = led_buffer l" "led_table (advance_cache midnight t rec l) = led_table l"
  "maxPendingRows (advance_cache midnight t rec l) = maxPendingRows l" "led_closed (advance_cache midnight t rec l) = led_closed l"
  by (auto simp: advance_cache_def split: option.splits prod.splits)

lemma advance_cache_cases:
  obtains (same) "tokensTodayCache (advance_cache midnight t rec l) = tokensTodayCache l"
    | (set) k2 v w where "u_keyId rec = Some k2" "map_of (tokensTodayCache l) k2 = Some (midnight t, v)"
        "tokensTodayCache (advance_cache midnight t rec l) = jm_set k2 (midnight t, w) (tokensTodayCache l)"
proof (cases "\<exists>k v. u_keyId rec = Some k \<and> map_of (tokensTodayCache l) k = Some (midnight t, v)")
  case True
  then show thesis by (auto intro!: set simp: advance_cache_def)
next
  case False
  then show thesis by (auto intro!: same simp: advance_cache_def split: option.splits)
qed

lemma buffer_row_fields:
  "u_keyId (buffer_row rec uuid) = u_keyId rec" "totalTokens (buffer_row rec uuid) = u_promptTokens rec + u_completionTokens rec"
  by (simp_all add: buffer_row_def usage_record.defs usage_row.defs)

lemma push_today_sum:
  "today_sum day k (l\<lparr>led_buffer := led_buffer l @ [buffer_row rec uuid]\<rparr>) =
     today_sum day k l + (if u_keyId rec = Some k then u_promptTokens rec + u_completionTokens rec else 0)"
  by (simp add: today_sum_def key_sum_one buffer_row_fields)

lemma advance_cache_safe:
  assumes "cache_safe midnight t l" "jm_wf (tokensTodayCache l)"
  shows "cache_safe midnight t (advance_cache midnight t rec (l\<lparr>led_buffer := led_buffer l @ [buffer_row rec uuid]\<rparr>)) \<and>
    jm_wf (tokensTodayCache (advance_cache midnight t rec (l\<lparr>led_buffer := led_buffer l @ [buffer_row rec uuid]\<rparr>)))"
proof -
  let ?l = "l\<lparr>led_buffer := led_buffer l @ [buffer_row rec uuid]\<rparr>"
  let ?l1 = "advance_cache midnight t rec ?l"
  have sums: "today_sum day k ?l1 = today_sum day k l + (if u_keyId rec = Some k then u_promptTokens rec + u_completionTokens rec else 0)" for day k
    using push_today_sum [of day k l rec uuid] by (simp add: today_sum_def advance_cache_frame)
  have wf: "jm_wf (tokensTodayCache ?l1)"
    using assms(2) by (auto simp: advance_cache_def jm_wf_jm_set split: option.splits)
  have entry: "day \<le> midnight t \<and> (day = midnight t \<longrightarrow> today_sum day k ?l1 \<le> tot)" if e: "(k, day, tot) \<in> set (tokensTodayCache ?l1)" for k day tot
  proof (cases "\<exists>d v. u_keyId rec = Some k \<and> map_of (tokensTodayCache l) k = Some (d, v) \<and> d = midnight t")
    case True
    then obtain v where v: "u_keyId rec = Some k" "map_of (tokensTodayCache l) k = Some (midnight t, v)" by blast
    then have c: "tokensTodayCache ?l1 = jm_set k (midnight t, v + u_promptTokens rec + u_completionTokens rec) (tokensTodayCache l)"
      by (simp add: advance_cache_def)
    from jm_set_entry [OF e [unfolded c] assms(2)] have "day = midnight t" "tot = v + u_promptTokens rec + u_completionTokens rec" by auto
    moreover from v(2) assms(1) have "today_sum (midnight t) k l \<le> v" by (auto simp: cache_safe_def dest!: map_of_SomeD)
    ultimately show ?thesis using sums [of "midnight t" k] v(1) by simp
  next
    case False
    have "(k, day, tot) \<in> set (tokensTodayCache l) \<and> (u_keyId rec \<noteq> Some k \<or> day \<noteq> midnight t)"
    proof (cases rule: advance_cache_cases [of midnight t rec ?l])
      case same
      with e have m: "(k, day, tot) \<in> set (tokensTodayCache l)" by simp
      with assms(2) have "map_of (tokensTodayCache l) k = Some (day, tot)" by (simp add: jm_wf_def)
      with m False show ?thesis by auto
    next
      case (set k2 v w)
      with False have "k2 \<noteq> k" by auto
      with set jm_set_entry [OF e [unfolded set(3)]] assms(2) show ?thesis by auto
    qed
    with assms(1) sums [of day k] show ?thesis by (auto simp: cache_safe_def)
  qed
  with wf show ?thesis by (auto simp: cache_safe_def)
qed

lemma record_usage_inv:
  assumes "ledger_inv midnight (l, t)" "0 \<le> u_promptTokens rec" "0 \<le> u_completionTokens rec"
  shows "ledger_inv midnight (record_usage midnight t rec uuid err l, t)"
proof (cases "led_closed l")
  case True
  with assms(1) show ?thesis
    by (auto simp: ledger_inv_alt record_usage_def led_warn_def rows_ok_def buffer_ok_def cache_safe_def today_sum_def)
next
  case False
  let ?l = "advance_cache midnight t rec (l\<lparr>led_buffer := led_buffer l @ [buffer_row rec uuid]\<rparr>)"
  from assms(1) have i: "rows_ok l" "buffer_ok l" "jm_wf (tokensTodayCache l)" "cache_safe midnight t l"
    by (simp_all add: ledger_inv_alt)
  have c: "cache_safe midnight t ?l" "jm_wf (tokensTodayCache ?l)" using advance_cache_safe [OF i(4,3)] by blast+
  have r: "rows_ok ?l" using i(1) assms(2,3) by (simp add: rows_ok_def advance_cache_frame nonneg_def buffer_row_fields)
  show ?thesis
  proof (cases "length (led_buffer ?l) \<ge> 500")
    case True
    have "buffer_ok (flush_ledger t err ?l)"
      using flush_ledger_bound(2) [of ?l t err] False flush_ledger_shrinks [OF r, of t err]
      by (simp add: buffer_ok_def shrinks_def advance_cache_frame)
    with True False c r flush_ledger_shrinks [OF r, of t err] show ?thesis
      by (auto simp: record_usage_def ledger_inv_alt shrinks_def [of ?l] intro: cache_safe_shrinks [OF c(1) flush_ledger_shrinks [OF r]])
  next
    case short: False
    with False c r show ?thesis by (simp add: record_usage_def ledger_inv_alt buffer_ok_def)
  qed
qed

lemma read_inv:
  assumes "ledger_inv midnight (l, t)"
  shows "ledger_inv midnight (snd (tokensUsedToday midnight t k l), t)"
proof -
  from assms have i: "rows_ok l" "buffer_ok l" "jm_wf (tokensTodayCache l)" "cache_safe midnight t l"
    by (simp_all add: ledger_inv_alt)
  let ?l = "l\<lparr>tokensTodayCache := jm_set k (midnight t, today_sum (midnight t) k l) (tokensTodayCache l)\<rparr>"
  have "cache_safe midnight t ?l"
    using i(4) jm_set_entry [OF _ i(3)] by (fastforce simp: cache_safe_def today_sum_def)
  then have "ledger_inv midnight (?l, t)"
    using i by (simp add: ledger_inv_alt rows_ok_def buffer_ok_def jm_wf_jm_set)
  with assms show ?thesis by (simp add: tokensUsedToday_def Let_def today_sum_def split: option.splits prod.splits)
qed

lemma shrinks_inv:
  assumes "ledger_inv midnight (l, t)" "shrinks l l1" "buffer_ok l1"
  shows "ledger_inv midnight (l1, t)"
  using assms cache_safe_shrinks [of midnight t l l1] by (simp add: ledger_inv_alt shrinks_def)

lemma close_inv:
  assumes "ledger_inv midnight (l, t)"
  shows "ledger_inv midnight (close_ledger t err l, t)"
proof (cases "led_closed l")
  case False
  from assms have r: "rows_ok l" by (simp add: ledger_inv_alt)
  let ?l = "l\<lparr>led_closed := True, tokensTodayCache := []\<rparr>"
  have "rows_ok ?l" using r by (simp add: rows_ok_def)
  from insertBatch_shrinks [OF this refl, of t] False r show ?thesis
    by (auto simp: close_ledger_def Let_def ledger_inv_alt shrinks_def rows_ok_def buffer_ok_def insertBatch_frame jm_wf_def
        cache_safe_def nonneg_def split: option.splits)
qed (use assms in \<open>simp add: close_ledger_def\<close>)

lemma ledger_step_inv:
  assumes "mono midnight" "ledger_inv midnight s" "op_ok s op"
  shows "ledger_inv midnight (ledger_step midnight s op)"
proof -
  obtain l t0 where s: "s = (l, t0)" by (cases s)
  with assms have now: "ledger_inv midnight (l, op_time op)"
    using cache_safe_later [of midnight t0 l "op_time op"] by (simp add: ledger_inv_alt op_ok_def)
  then have r: "rows_ok l" "buffer_ok l" by (simp_all add: ledger_inv_alt)
  show ?thesis
  proof (cases op)
    case (LRecord t rec uuid err)
    with now s assms(3) record_usage_inv show ?thesis by (simp add: op_ok_def)
  next
    case (LFlush t err)
    have "buffer_ok (flush_ledger t err l)"
      using flush_ledger_bound(1) [of l t err] r(2) flush_ledger_shrinks [OF r(1), of t err] by (simp add: buffer_ok_def shrinks_def)
    with LFlush now s shrinks_inv [OF _ flush_ledger_shrinks [OF r(1)]] show ?thesis by simp
  next
    case (LPrune t days err)
    have "buffer_ok (snd (pruneOlderThan midnight t days err l))"
      using r(2) by (simp add: pruneOlderThan_def buffer_ok_def Let_def split: option.splits)
    with LPrune now s shrinks_inv [OF _ prune_shrinks [OF r(1)]] show ?thesis by simp
  qed (use now s read_inv close_inv in simp_all)
qed

interpretation ledger_run: stepwise "ledger_step midnight" op_ok "\<lambda>s. mono midnight \<and> ledger_inv midnight s" for midnight
  by unfold_locales (blast intro: ledger_step_inv)

lemma budget_gate:
  assumes "ledger_inv midnight (l, t0)" "mono midnight" "t0 \<le> t"
  shows "today_sum (midnight t) k l \<le> fst (tokensUsedToday midnight t k l)"
proof -
  from assms(1) cache_safe_later [OF _ assms(2,3)] have c: "cache_safe midnight t l" by (simp add: ledger_inv_alt)
  show ?thesis
  proof (cases "map_of (tokensTodayCache l) k")
    case (Some e)
    obtain d v where e: "e = (d, v)" by (cases e)
    from c Some e have "d = midnight t \<longrightarrow> today_sum d k l \<le> v" by (auto simp: cache_safe_def dest!: map_of_SomeD)
    with Some e show ?thesis by (auto simp: tokensUsedToday_def today_sum_def Let_def)
  qed (simp add: tokensUsedToday_def today_sum_def Let_def)
qed

text \<open>
  C29. In every history of the ledger, whatever transactions SQLite refuses and whatever is pruned: no request id
  is booked twice, the buffer stays within its bound, and the daily budget gate never reads less for a key than
  what the table holds for today plus what is still buffered, provided the clock does not run backwards, the
  start of the day is monotone in it, and counts are not negative.
\<close>

theorem budget_never_underreports:
  assumes "mono midnight" "ok_run (ledger_step midnight) op_ok (new_ledger [] 0 mp, t0) ops"
    and "foldl (ledger_step midnight) (new_ledger [] 0 mp, t0) ops = (l, now1)" "now1 \<le> t"
  shows "distinct (map u_requestId (led_table l)) \<and> length (led_buffer l) \<le> max 499 (maxPendingRows l) \<and>
    today_sum (midnight t) k l \<le> fst (tokensUsedToday midnight t k l)"
proof -
  have "ledger_inv midnight (new_ledger [] 0 mp, t0)"
    by (simp add: ledger_inv_alt new_ledger_def rows_ok_def buffer_ok_def cache_safe_def nonneg_def jm_wf_def)
  with ledger_run.run_inv [of midnight, OF _ assms(2)] assms(1,3) have i: "ledger_inv midnight (l, now1)" by simp
  with budget_gate [OF i assms(1,4), of k] show ?thesis by (simp add: ledger_inv_alt rows_ok_def buffer_ok_def)
qed

definition day_floor :: "ms \<Rightarrow> ms" where
  "day_floor t = 86400000 * (t div 86400000)"

definition demo_usage :: "string \<Rightarrow> usage_record" where
  "demo_usage i = \<lparr>u_requestId = i, u_keyId = Some ''k'', u_accountId = None, u_model = ''m'', u_family = ''google'', u_protocol = ''openai'',
     u_promptTokens = 3, u_completionTokens = 4, u_reasoningTokens = None, u_cacheReadTokens = None, u_status = ''OK'',
     u_durationMs = None, u_errorText = None\<rparr>"

lemma day_floor_mono: "mono day_floor"
  by (rule monoI) (simp add: day_floor_def zdiv_mono1)

theorem budget_never_underreports_witness:
  "\<exists>l. foldl (ledger_step day_floor) (new_ledger [] 0 None, 0)
      [LRead 5 ''k'', LRecord 6 (demo_usage ''a'') [] None, LFlush 7 (Some ''disk full''), LRecord 8 (demo_usage ''a'') [] None, LFlush 9 None] = (l, 9) \<and>
    today_sum (day_floor 10) ''k'' l \<le> fst (tokensUsedToday day_floor 10 ''k'' l)"
proof -
  let ?ops = "[LRead 5 ''k'', LRecord 6 (demo_usage ''a'') [] None, LFlush 7 (Some ''disk full''), LRecord 8 (demo_usage ''a'') [] None, LFlush 9 None]"
  have "ok_run (ledger_step day_floor) op_ok (new_ledger [] 0 None, 0) ?ops"
    by (simp add: op_ok_def demo_usage_def)
  moreover obtain l where l: "foldl (ledger_step day_floor) (new_ledger [] 0 None, 0) ?ops = (l, 9)" by simp
  ultimately have "today_sum (day_floor 10) ''k'' l \<le> fst (tokensUsedToday day_floor 10 ''k'' l)"
    using budget_never_underreports [OF day_floor_mono, of None 0 ?ops l 9 10 "''k''"] by simp
  with l show ?thesis by blast
qed

end
