(* ===== verification/Auth.thy ===== *)
theory Auth
  imports Keys Ledger Errors Config
begin

text \<open>
  The API-key hook in front of every \<open>/v1\<close> route: \<open>src/server/auth.ts\<close>.

  The rate limiter of the package rate-limiter-flexible is a parameter: \<open>new_limiter rpm\<close> builds one,
  \<open>consume t l\<close> takes one point (\<open>None\<close>: granted; \<open>Some w\<close>: refused with \<open>msBeforeNext = w\<close>) and
  \<open>expired t l\<close> says that its record is gone from memory (\<open>get\<close> resolves \<open>null\<close>). SHA-256 is \<open>sha\<close>, the start
  of the local day \<open>midnight\<close>, the next local midnight \<open>next_day\<close>, the ISO date \<open>isoDate\<close>.
\<close>

section \<open>State\<close>

record 'l auth_state =
  expectedKeyCache :: "(string \<times> string) option"
  limiters :: "(string, 'l) jsmap"
  limiterSweeper :: bool
  auth_keys :: "key_store option"
  auth_ledger :: "ledger option"

datatype x_api_key = XNone | XOne string | XMany "string list"

record auth_request =
  q_url :: string
  q_id :: string
  q_authorization :: "string option"
  q_xKey :: x_api_key

text \<open>The annotation of the request with its key (\<open>None\<close>: left unannotated), or the reply sent.\<close>

datatype auth_verdict = Admit "(string option \<times> string) option" | Refuse http_error

section \<open>Header extraction\<close>

definition bearerToken :: "string option \<Rightarrow> string option" where
  "bearerToken header =
     (case header of
        None \<Rightarrow> None
      | Some h \<Rightarrow>
          (let gap = drop 6 h; tok = dropWhile is_space gap
           in if to_lower (take 6 h) = ''bearer'' \<and> tok \<noteq> gap \<and> tok \<noteq> [] \<and> list_all (\<lambda>c. \<not> is_space c) tok
              then Some tok else None))"

definition apiKeyFrom :: "auth_request \<Rightarrow> string option" where
  "apiKeyFrom q =
     (case q_xKey q of
        XOne x \<Rightarrow> if trim x \<noteq> [] then Some (trim x) else bearerToken (q_authorization q)
      | XMany xs \<Rightarrow>
          (case find (\<lambda>v. trim v \<noteq> []) xs of
             Some x \<Rightarrow> Some (trim x)
           | None \<Rightarrow> bearerToken (q_authorization q))
      | XNone \<Rightarrow> bearerToken (q_authorization q))"

definition keyMatches :: "(string \<Rightarrow> string) \<Rightarrow> string \<Rightarrow> string \<Rightarrow> 'l auth_state \<Rightarrow> bool \<times> 'l auth_state" where
  "keyMatches sha expected provided s =
     (let c = (case expectedKeyCache s of
                 Some (src, digest) \<Rightarrow> if src = expected then (src, digest) else (expected, sha expected)
               | None \<Rightarrow> (expected, sha expected))
      in (snd c = sha provided, s\<lparr>expectedKeyCache := Some c\<rparr>))"

section \<open>Rate limiters\<close>

definition limiter_key :: "string \<Rightarrow> int \<Rightarrow> string" where
  "limiter_key i rpm = i @ '':'' @ show_int rpm"

definition getLimiter :: "(int \<Rightarrow> 'l) \<Rightarrow> string \<Rightarrow> int \<Rightarrow> 'l auth_state \<Rightarrow> 'l \<times> 'l auth_state" where
  "getLimiter new_limiter i rpm s =
     (case map_of (limiters s) (limiter_key i rpm) of
        Some l \<Rightarrow> (l, s)
      | None \<Rightarrow>
          (let l = new_limiter rpm
           in (l, s\<lparr>limiters := jm_set (limiter_key i rpm) l (limiters s), limiterSweeper := True\<rparr>)))"

text \<open>\<open>await limiter.consume(1)\<close>: the limiter is an object, so its new state is written back to its slot.\<close>

definition consume_point ::
  "(int \<Rightarrow> 'l) \<Rightarrow> (ms \<Rightarrow> 'l \<Rightarrow> rat option option \<times> 'l) \<Rightarrow> ms \<Rightarrow> string \<Rightarrow> int \<Rightarrow> 'l auth_state \<Rightarrow> rat option option \<times> 'l auth_state" where
  "consume_point new_limiter consume t i rpm s =
     (let (l, s1) = getLimiter new_limiter i rpm s; (res, l1) = consume t l
      in (res, s1\<lparr>limiters := jm_set (limiter_key i rpm) l1 (limiters s1)\<rparr>))"

definition sweepIdleLimiters :: "(ms \<Rightarrow> 'l \<Rightarrow> bool) \<Rightarrow> ms \<Rightarrow> 'l auth_state \<Rightarrow> nat \<times> 'l auth_state" where
  "sweepIdleLimiters expired t s =
     (let kept = filter (\<lambda>(k, l). \<not> expired t l) (limiters s)
      in (length (limiters s) - length kept,
          s\<lparr>limiters := kept, limiterSweeper := (limiterSweeper s \<and> kept \<noteq> [])\<rparr>))"

section \<open>The hook\<close>

definition ellipsis :: string where
  "ellipsis = [CHR 0xE2, CHR 0x80, CHR 0xA6]"

definition ceil_sec :: "rat \<Rightarrow> int" where
  "ceil_sec w = max 1 \<lceil>w / 1000\<rceil>"

definition refuse401 :: "auth_request \<Rightarrow> string \<Rightarrow> auth_verdict" where
  "refuse401 q msg = Refuse (gatewayHttpError 401 (err_body (authErrorFor (q_url q) msg (Some (q_id q)))) None)"

definition refuse_disabled :: "auth_request \<Rightarrow> key_row \<Rightarrow> auth_verdict" where
  "refuse_disabled q r =
     (let msg = ''API key '' @ [CHR 0x27] @ key_prefix r @ ellipsis @ [CHR 0x27] @ '' is disabled.''
      in Refuse (gatewayHttpError 403
           (if isAnthropicPath (q_url q) then anthropicError ''permission_error'' msg (Some (q_id q))
            else err_body (httpError 403 msg ''permission_error'' ''key_disabled'')) None))"

definition refuse_rpm :: "auth_request \<Rightarrow> int \<Rightarrow> rat option \<Rightarrow> auth_verdict" where
  "refuse_rpm q rpm w =
     (let sec = ceil_sec (or_else w 1000)
      in Refuse (quotaRejectFor (q_url q)
           (''Requests per-minute limit reached for this key (rpm='' @ show_int rpm @ ''). Retry in '' @ show_int sec @ ''s.'')
           (of_int sec) (Some (q_id q))))"

definition refuse_daily :: "(ms \<Rightarrow> ms) \<Rightarrow> (ms \<Rightarrow> string) \<Rightarrow> ms \<Rightarrow> auth_request \<Rightarrow> rat \<Rightarrow> int \<Rightarrow> auth_verdict" where
  "refuse_daily next_day isoDate t q used daily =
     (let resetMs = next_day t - t; sec = ceil_sec (of_int resetMs)
      in Refuse (quotaRejectFor (q_url q)
           (''Daily token limit reached for this key: used '' @ show_rat used @ '' of '' @ show_int daily @
            '' tokens (daily_token_limit). Resets at '' @ isoDate (t + resetMs) @ '' (in '' @ show_int sec @ ''s).'')
           (of_int sec) (Some (q_id q))))"

text \<open>The budget stages for a verified key, then the annotation and \<open>touch\<close>. \<open>up\<close>: the database takes the write.\<close>

definition check_daily ::
  "(ms \<Rightarrow> ms) \<Rightarrow> (ms \<Rightarrow> ms) \<Rightarrow> (ms \<Rightarrow> string) \<Rightarrow> bool \<Rightarrow> ms \<Rightarrow> auth_request \<Rightarrow> key_row \<Rightarrow> key_store \<Rightarrow> 'l auth_state \<Rightarrow>
   auth_verdict \<times> 'l auth_state" where
  "check_daily midnight next_day isoDate up t q r ks s =
     (let admit = (\<lambda>s. (Admit (Some (Some (key_id r), key_name r)), s\<lparr>auth_keys := Some (touch up t (key_id r) ks)\<rparr>))
      in case auth_ledger s of
           Some l \<Rightarrow>
             (if dailyTokenLimit r > 0 then
                (let (used, l1) = tokensUsedToday midnight t (key_id r) l; s1 = s\<lparr>auth_ledger := Some l1\<rparr>
                 in if used \<ge> of_int (dailyTokenLimit r)
                    then (refuse_daily next_day isoDate t q used (dailyTokenLimit r), s1)
                    else admit s1)
              else admit s)
         | None \<Rightarrow> admit s)"

definition check_budgets ::
  "(int \<Rightarrow> 'l) \<Rightarrow> (ms \<Rightarrow> 'l \<Rightarrow> rat option option \<times> 'l) \<Rightarrow> (ms \<Rightarrow> ms) \<Rightarrow> (ms \<Rightarrow> ms) \<Rightarrow> (ms \<Rightarrow> string) \<Rightarrow> bool \<Rightarrow> ms \<Rightarrow>
   auth_request \<Rightarrow> key_row \<Rightarrow> key_store \<Rightarrow> 'l auth_state \<Rightarrow> auth_verdict \<times> 'l auth_state" where
  "check_budgets new_limiter consume midnight next_day isoDate up t q r ks s =
     (if rpmLimit r > 0 then
        (let (res, s1) = consume_point new_limiter consume t (key_id r) (rpmLimit r) s
         in case res of
              Some w \<Rightarrow> (refuse_rpm q (rpmLimit r) w, s1)
            | None \<Rightarrow> check_daily midnight next_day isoDate up t q r ks s1)
      else check_daily midnight next_day isoDate up t q r ks s)"

definition authHook ::
  "(string \<Rightarrow> string) \<Rightarrow> (int \<Rightarrow> 'l) \<Rightarrow> (ms \<Rightarrow> 'l \<Rightarrow> rat option option \<times> 'l) \<Rightarrow> (ms \<Rightarrow> ms) \<Rightarrow> (ms \<Rightarrow> ms) \<Rightarrow> (ms \<Rightarrow> string) \<Rightarrow>
   gateway_config \<Rightarrow> bool \<Rightarrow> ms \<Rightarrow> auth_request \<Rightarrow> 'l auth_state \<Rightarrow> auth_verdict \<times> 'l auth_state" where
  "authHook sha new_limiter consume midnight next_day isoDate cfg up t q s =
     (if apiKey cfg = [] \<and> (case auth_keys s of None \<Rightarrow> True | Some ks \<Rightarrow> count_keys ks = 0)
      then (Admit (Some (None, ''anon'')), s)
      else case apiKeyFrom q of
        None \<Rightarrow> (refuse401 q ''Missing API key. Pass it as `Authorization: Bearer <key>` or `x-api-key: <key>`.'', s)
      | Some provided \<Rightarrow>
          (let (root, s1) = (if apiKey cfg \<noteq> [] then keyMatches sha (apiKey cfg) provided s else (False, s))
           in if root then (Admit (Some (None, ''root'')), s1)
              else case auth_keys s1 of
                None \<Rightarrow>
                  (if apiKey cfg = [] then (Admit None, s1)
                   else (let (again, s2) = keyMatches sha (apiKey cfg) provided s1
                         in if again then (Admit None, s2) else (refuse401 q ''Invalid API key provided.'', s2)))
              | Some ks \<Rightarrow>
                  (case verify_key sha provided ks of
                     VUnknown \<Rightarrow> (refuse401 q ''Invalid API key provided.'', s1)
                   | VDisabled r \<Rightarrow> (refuse_disabled q r, s1)
                   | VOk r \<Rightarrow> check_budgets new_limiter consume midnight next_day isoDate up t q r ks s1)))"

section \<open>Admission\<close>

definition memo_ok :: "(string \<Rightarrow> string) \<Rightarrow> 'l auth_state \<Rightarrow> bool" where
  "memo_ok sha s \<longleftrightarrow> (case expectedKeyCache s of None \<Rightarrow> True | Some (src, digest) \<Rightarrow> digest = sha src)"

lemma keyMatches_eq:
  assumes "memo_ok sha s" "keyMatches sha expected provided s = (ok, s1)"
  shows "ok \<longleftrightarrow> sha expected = sha provided" "memo_ok sha s1"
  using assms by (auto simp: keyMatches_def memo_ok_def Let_def split: option.splits if_splits)

lemma keyMatches_frame:
  assumes "keyMatches sha expected provided s = (ok, s1)"
  shows "limiters s1 = limiters s" "auth_keys s1 = auth_keys s" "auth_ledger s1 = auth_ledger s" "limiterSweeper s1 = limiterSweeper s"
  using assms by (auto simp: keyMatches_def Let_def)

lemma consume_point_res: "fst (consume_point new_limiter consume t i rpm s) = fst (consume t (fst (getLimiter new_limiter i rpm s)))"
  by (simp add: consume_point_def Let_def split: prod.splits)

lemma consume_point_frame:
  assumes "consume_point new_limiter consume t i rpm s = (res, s1)"
  shows "auth_keys s1 = auth_keys s" "auth_ledger s1 = auth_ledger s"
  using assms by (auto simp: consume_point_def getLimiter_def Let_def split: prod.splits option.splits)

lemma check_daily_admits:
  assumes "check_daily midnight next_day isoDate up t q r ks s = (Admit who, s1)"
  shows "who = Some (Some (key_id r), key_name r)"
    and "\<And>l. auth_ledger s = Some l \<Longrightarrow> dailyTokenLimit r > 0 \<Longrightarrow> fst (tokensUsedToday midnight t (key_id r) l) < of_int (dailyTokenLimit r)"
  using assms by (auto simp: check_daily_def refuse_daily_def Let_def split: option.splits prod.splits if_splits)

lemma check_budgets_admits:
  assumes "check_budgets new_limiter consume midnight next_day isoDate up t q r ks s = (Admit who, s1)"
  shows "who = Some (Some (key_id r), key_name r)"
    and "rpmLimit r > 0 \<Longrightarrow> fst (consume t (fst (getLimiter new_limiter (key_id r) (rpmLimit r) s))) = None"
    and "\<And>l. auth_ledger s = Some l \<Longrightarrow> dailyTokenLimit r > 0 \<Longrightarrow> fst (tokensUsedToday midnight t (key_id r) l) < of_int (dailyTokenLimit r)"
proof -
  obtain res s2 where c: "consume_point new_limiter consume t (key_id r) (rpmLimit r) s = (res, s2)" by fastforce
  let ?s = "if rpmLimit r > 0 then s2 else s"
  from assms c have d: "check_daily midnight next_day isoDate up t q r ks ?s = (Admit who, s1)" and res: "rpmLimit r > 0 \<Longrightarrow> res = None"
    by (auto simp: check_budgets_def refuse_rpm_def Let_def split: option.splits if_splits)
  from check_daily_admits(1) [OF d] show "who = Some (Some (key_id r), key_name r)" .
  from res c consume_point_res [of new_limiter consume t "key_id r" "rpmLimit r" s]
  show "rpmLimit r > 0 \<Longrightarrow> fst (consume t (fst (getLimiter new_limiter (key_id r) (rpmLimit r) s))) = None" by simp
  show "fst (tokensUsedToday midnight t (key_id r) l) < of_int (dailyTokenLimit r)" if "auth_ledger s = Some l" "dailyTokenLimit r > 0" for l
    using check_daily_admits(2) [OF d, of l] that consume_point_frame(2) [OF c] by (simp split: if_splits)
qed

text \<open>
  C8. Who gets in. A request that the hook admits came in while no key was configured at all, or carried the root
  key, or carried the plaintext of a managed key that is stored and not disabled, whose rate limiter granted the
  point, and whose usage today, booked and still buffered, is below its daily limit. The annotation names that key.
\<close>

theorem authHook_admits:
  assumes "memo_ok sha s" "mono midnight" "t0 \<le> t"
    and "\<And>ks. auth_keys s = Some ks \<Longrightarrow> keys_inv ks" "\<And>l. auth_ledger s = Some l \<Longrightarrow> ledger_inv midnight (l, t0)"
    and adm: "authHook sha new_limiter consume midnight next_day isoDate cfg up t q s = (Admit who, s1)"
  shows "(apiKey cfg = [] \<and> (\<forall>ks. auth_keys s = Some ks \<longrightarrow> key_rows ks = []) \<and> who = Some (None, ''anon'')) \<or>
    (\<exists>p. apiKeyFrom q = Some p \<and> apiKey cfg \<noteq> [] \<and> sha p = sha (apiKey cfg) \<and> who = Some (None, ''root'')) \<or>
    (\<exists>p ks r. apiKeyFrom q = Some p \<and> auth_keys s = Some ks \<and> r \<in> set (key_rows ks) \<and> key_hash r = sha p \<and> disabledAt r = None \<and>
       who = Some (Some (key_id r), key_name r) \<and>
       (rpmLimit r > 0 \<longrightarrow> fst (consume t (fst (getLimiter new_limiter (key_id r) (rpmLimit r) s))) = None) \<and>
       (\<forall>l. dailyTokenLimit r > 0 \<and> auth_ledger s = Some l \<longrightarrow> today_sum (midnight t) (key_id r) l < of_int (dailyTokenLimit r)))"
    (is "?open \<or> ?root \<or> ?managed")
proof (cases "apiKey cfg = [] \<and> (case auth_keys s of None \<Rightarrow> True | Some ks \<Rightarrow> count_keys ks = 0)")
  case True
  with adm have ?open by (auto simp: authHook_def count_keys_def)
  then show ?thesis ..
next
  case False
  with adm obtain p where p: "apiKeyFrom q = Some p" by (auto simp: authHook_def refuse401_def split: option.splits)
  obtain ok s2 where m: "(if apiKey cfg \<noteq> [] then keyMatches sha (apiKey cfg) p s else (False, s)) = (ok, s2)" by fastforce
  have ok: "ok \<longleftrightarrow> apiKey cfg \<noteq> [] \<and> sha (apiKey cfg) = sha p" and m2: "memo_ok sha s2"
    using m keyMatches_eq [OF assms(1), of "apiKey cfg" p] assms(1) by (auto split: if_splits)
  have fr: "limiters s2 = limiters s" "auth_keys s2 = auth_keys s" "auth_ledger s2 = auth_ledger s"
    using m keyMatches_frame [of sha "apiKey cfg" p s ok s2] by (auto split: if_splits)
  show ?thesis
  proof (cases ok)
    case True
    from adm [unfolded authHook_def if_not_P [OF False] p option.case m Let_def prod.case if_P [OF True]]
    have ?root using p ok True by auto
    then show ?thesis by blast
  next
    case nok: False
    note hook = adm [unfolded authHook_def if_not_P [OF False] p option.case m Let_def prod.case if_not_P [OF nok] fr(2)]
    have "\<exists>ks. auth_keys s = Some ks"
    proof (cases "auth_keys s")
      case None
      with False have a: "apiKey cfg \<noteq> []" by simp
      obtain b s3 where b: "keyMatches sha (apiKey cfg) p s2 = (b, s3)" by fastforce
      with keyMatches_eq(1) [OF m2 b] ok nok a have "\<not> b" by simp
      with hook None a b show ?thesis by (simp add: refuse401_def)
    qed simp
    then obtain ks where ks: "auth_keys s = Some ks" ..
    with hook obtain r where r: "verify_key sha p ks = VOk r"
      by (auto simp: refuse401_def refuse_disabled_def Let_def split: verdict.splits)
    with hook ks have b: "check_budgets new_limiter consume midnight next_day isoDate up t q r ks s2 = (Admit who, s1)" by simp
    have u: "rows_unique (key_rows ks)" using assms(4) [OF ks] by (simp add: keys_inv_def)
    have lim: "fst (getLimiter new_limiter i n s2) = fst (getLimiter new_limiter i n s)" for i n
      by (simp add: getLimiter_def fr Let_def split: option.splits)
    have "today_sum (midnight t) (key_id r) l < of_int (dailyTokenLimit r)" if "dailyTokenLimit r > 0" "auth_ledger s = Some l" for l
      using check_budgets_admits(3) [OF b] that fr(3) budget_gate [OF assms(5) [OF that(2)] assms(2,3), of "key_id r"] by fastforce
    with p ks r check_budgets_admits(1,2) [OF b] lim have ?managed by (auto simp: verify_key_iff [OF u])
    then show ?thesis by blast
  qed
qed

text \<open>A fixed-window limiter, and a store with one managed key, for the examples.\<close>

definition window_new :: "int \<Rightarrow> int \<times> (int \<times> ms) option" where
  "window_new n = (n, None)"

fun window_expired :: "ms \<Rightarrow> int \<times> (int \<times> ms) option \<Rightarrow> bool" where
  "window_expired t (n, w) = (case w of None \<Rightarrow> True | Some (u, e) \<Rightarrow> e \<le> t)"

fun window_consume :: "ms \<Rightarrow> int \<times> (int \<times> ms) option \<Rightarrow> rat option option \<times> int \<times> (int \<times> ms) option" where
  "window_consume t (n, w) =
     (if window_expired t (n, w) then (if n \<ge> 1 then None else Some (Some 60000), n, Some (1, t + 60000))
      else (case w of
              Some (u, e) \<Rightarrow> (if u < n then None else Some (Some (of_int (e - t))), n, Some (u + 1, e))
            | None \<Rightarrow> (None, n, None)))"

definition demo_auth :: "(int \<times> (int \<times> ms) option) auth_state" where
  "demo_auth = \<lparr>expectedKeyCache = None, limiters = [], limiterSweeper = False, auth_keys = Some (new_keys [demo_key]),
     auth_ledger = Some (new_ledger [] 0 None)\<rparr>"

definition demo_req :: "string \<Rightarrow> auth_request" where
  "demo_req k = \<lparr>q_url = ''/v1/messages?beta=true'', q_id = ''req_1'', q_authorization = Some (''bearer '' @ k), q_xKey = XNone\<rparr>"

definition demo_cfg :: gateway_config where
  "demo_cfg = defaultConfig\<lparr>apiKey := ''root-key''\<rparr>"

abbreviation demo_hook where
  "demo_hook t k s \<equiv> authHook rev window_new window_consume day_floor (\<lambda>t. day_floor t + 86400000) (\<lambda>_. ''date'') demo_cfg True t (demo_req k) s"

lemma demo_keys_inv: "keys_inv (new_keys [demo_key])"
  by (simp add: keys_inv_def new_keys_def demo_key_def rows_unique_def jm_wf_def cache_current_def)

theorem authHook_admits_witness:
  "\<exists>s1. demo_hook 100 ''h'' demo_auth = (Admit (Some (Some ''key_1'', ''a'')), s1) \<and> today_sum (day_floor 100) ''key_1'' (new_ledger [] 0 None) < 100"
proof -
  obtain s1 where s1: "demo_hook 100 ''h'' demo_auth = (Admit (Some (Some ''key_1'', ''a'')), s1)"
    by (rule that [of "snd (demo_hook 100 ''h'' demo_auth)"]) code_simp
  have "memo_ok rev demo_auth" by (simp add: memo_ok_def demo_auth_def)
  moreover have "ks = new_keys [demo_key] \<Longrightarrow> keys_inv ks" for ks using demo_keys_inv by simp
  moreover have "ledger_inv day_floor (new_ledger [] 0 None, 0)" 
    by (simp add: ledger_inv_alt new_ledger_def rows_ok_def buffer_ok_def cache_safe_def nonneg_def jm_wf_def)
  ultimately have "today_sum (day_floor 100) ''key_1'' (new_ledger [] 0 None) < 100"
    using authHook_admits [OF _ day_floor_mono _ _ _ s1, of 0]
    by (auto simp: demo_auth_def demo_cfg_def new_keys_def demo_key_def)
  with s1 show ?thesis by blast
qed

section \<open>Refusals\<close>

fun is_anthropic_body :: "error_body \<Rightarrow> bool" where
  "is_anthropic_body (AnthropicErrorBody ty msg rid) = True"
| "is_anthropic_body (OpenAiErrorBody msg ty cd) = False"

definition refusal_ok :: "auth_request \<Rightarrow> http_error \<Rightarrow> bool" where
  "refusal_ok q e \<longleftrightarrow> (is_anthropic_body (err_body e) \<longleftrightarrow> isAnthropicPath (q_url q)) \<and>
     (statusCode e, eb_type (err_body e)) \<in> {(401, ''authentication_error''), (403, ''permission_error''), (429, ''rate_limit_error'')} \<and>
     (if statusCode e = 429 then (\<exists>n \<ge> 1. err_headers e = Some [(''retry-after'', show_int n)]) else err_headers e = None)"

lemma quota_refusal_ok: "refusal_ok q (quotaRejectFor (q_url q) msg sec rid)"
  by (auto simp: refusal_ok_def quotaRejectFor_def gatewayHttpError_def anthropicError_def openAiError_def Let_def intro!: exI [of _ "max 1 _"])

lemma refusals_ok:
  "refuse401 q msg = Refuse e \<Longrightarrow> refusal_ok q e" "refuse_disabled q r = Refuse e \<Longrightarrow> refusal_ok q e"
  "refuse_rpm q rpm w = Refuse e \<Longrightarrow> refusal_ok q e" "refuse_daily next_day isoDate t q used daily = Refuse e \<Longrightarrow> refusal_ok q e"
  by (auto simp: refuse_rpm_def refuse_daily_def Let_def quota_refusal_ok)
    (auto simp: refuse401_def refuse_disabled_def refusal_ok_def authErrorFor_def httpError_def gatewayHttpError_def anthropicError_def
      openAiError_def Let_def split: if_splits)

lemma refuse_not_admit [simp]:
  "refuse401 q msg \<noteq> Admit who" "refuse_disabled q r \<noteq> Admit who" "refuse_rpm q rpm w \<noteq> Admit who"
  "refuse_daily next_day isoDate t q used daily \<noteq> Admit who"
  by (simp_all add: refuse401_def refuse_disabled_def refuse_rpm_def refuse_daily_def Let_def)

lemma check_daily_refuses:
  assumes "check_daily midnight next_day isoDate up t q r ks s = (Refuse e, s1)"
  shows "refusal_ok q e" "auth_keys s1 = auth_keys s"
  using assms by (auto simp: check_daily_def Let_def refusals_ok split: option.splits prod.splits if_splits)

lemma check_budgets_refuses:
  assumes "check_budgets new_limiter consume midnight next_day isoDate up t q r ks s = (Refuse e, s1)"
  shows "refusal_ok q e \<and> auth_keys s1 = auth_keys s"
proof -
  obtain res s2 where c: "consume_point new_limiter consume t (key_id r) (rpmLimit r) s = (res, s2)" by fastforce
  with assms consume_point_frame(1) [OF c] check_daily_refuses [of midnight next_day isoDate up t q r ks _ e s1] show ?thesis
    by (fastforce simp: check_budgets_def refusals_ok split: option.splits if_splits)
qed

text \<open>
  A refusal is one of three: 401 \<open>authentication_error\<close>, 403 \<open>permission_error\<close>, or 429 \<open>rate_limit_error\<close> with
  a \<open>Retry-After\<close> of at least one second; its body has the shape of the protocol of the path; and it leaves the key
  store, the last-use time included, as it was.
\<close>

lemma authHook_refuses:
  assumes "authHook sha new_limiter consume midnight next_day isoDate cfg up t q s = (Refuse e, s1)"
  shows "refusal_ok q e \<and> auth_keys s1 = auth_keys s"
proof (cases "apiKeyFrom q")
  case None
  with assms show ?thesis by (auto simp: authHook_def refusals_ok split: if_splits)
next
  case (Some p)
  obtain ok s2 where m: "(if apiKey cfg \<noteq> [] then keyMatches sha (apiKey cfg) p s else (False, s)) = (ok, s2)" by fastforce
  have fr: "auth_keys s2 = auth_keys s" using m keyMatches_frame(2) [of sha "apiKey cfg" p s ok s2] by (auto split: if_splits)
  show ?thesis
  proof (cases "auth_keys s")
    case None
    with assms Some m fr show ?thesis
      by (auto simp: authHook_def refusals_ok dest: keyMatches_frame(2) split: if_splits prod.splits)
  next
    case (Some ks)
    with assms \<open>apiKeyFrom q = Some p\<close> m fr show ?thesis
      by (auto simp: authHook_def refusals_ok Let_def dest: check_budgets_refuses split: if_splits verdict.splits)
  qed
qed


section \<open>Sweeping idle limiters\<close>

datatype auth_op = AHook gateway_config bool ms auth_request | ASweep ms

fun aop_time :: "auth_op \<Rightarrow> ms" where
  "aop_time (AHook cfg up t q) = t"
| "aop_time (ASweep t) = t"

text \<open>The verdicts of a history.\<close>

fun auth_run ::
  "(string \<Rightarrow> string) \<Rightarrow> (int \<Rightarrow> 'l) \<Rightarrow> (ms \<Rightarrow> 'l \<Rightarrow> rat option option \<times> 'l) \<Rightarrow> (ms \<Rightarrow> 'l \<Rightarrow> bool) \<Rightarrow> (ms \<Rightarrow> ms) \<Rightarrow> (ms \<Rightarrow> ms) \<Rightarrow>
   (ms \<Rightarrow> string) \<Rightarrow> 'l auth_state \<Rightarrow> auth_op list \<Rightarrow> auth_verdict list" where
  "auth_run sha new_limiter consume expired midnight next_day isoDate s [] = []"
| "auth_run sha new_limiter consume expired midnight next_day isoDate s (AHook cfg up t q # ops) =
     (let (v, s1) = authHook sha new_limiter consume midnight next_day isoDate cfg up t q s
      in v # auth_run sha new_limiter consume expired midnight next_day isoDate s1 ops)"
| "auth_run sha new_limiter consume expired midnight next_day isoDate s (ASweep t # ops) =
     auth_run sha new_limiter consume expired midnight next_day isoDate (snd (sweepIdleLimiters expired t s)) ops"

definition limiter_laws ::
  "(int \<Rightarrow> 'l) \<Rightarrow> (ms \<Rightarrow> 'l \<Rightarrow> rat option option \<times> 'l) \<Rightarrow> (ms \<Rightarrow> 'l \<Rightarrow> bool) \<Rightarrow> ('l \<Rightarrow> int) \<Rightarrow> bool" where
  "limiter_laws new_limiter consume expired points \<longleftrightarrow>
     (\<forall>n. points (new_limiter n) = n) \<and> (\<forall>t l. points (snd (consume t l)) = points l) \<and>
     (\<forall>t u l. expired t l \<and> t \<le> u \<longrightarrow> expired u l) \<and>
     (\<forall>t l. expired t l \<longrightarrow> consume t l = consume t (new_limiter (points l)))"

text \<open>The registry without the swept entries: what is missing had expired.\<close>

definition swept :: "(ms \<Rightarrow> 'l \<Rightarrow> bool) \<Rightarrow> ms \<Rightarrow> (string, 'l) jsmap \<Rightarrow> (string, 'l) jsmap \<Rightarrow> bool" where
  "swept expired t m n \<longleftrightarrow> (\<forall>k. map_of n k = map_of m k \<or> map_of n k = None \<and> (\<exists>l. map_of m k = Some l \<and> expired t l))"

definition sized :: "('l \<Rightarrow> int) \<Rightarrow> (string, 'l) jsmap \<Rightarrow> bool" where
  "sized points m \<longleftrightarrow> (\<forall>i n l. 0 < n \<and> map_of m (limiter_key i n) = Some l \<longrightarrow> points l = n)"

text \<open>Two states that differ in the registry only.\<close>

definition same_but :: "'l auth_state \<Rightarrow> 'l auth_state \<Rightarrow> bool" where
  "same_but s u \<longleftrightarrow> expectedKeyCache s = expectedKeyCache u \<and> auth_keys s = auth_keys u \<and> auth_ledger s = auth_ledger u"

definition sweep_rel :: "(ms \<Rightarrow> 'l \<Rightarrow> bool) \<Rightarrow> ('l \<Rightarrow> int) \<Rightarrow> ms \<Rightarrow> 'l auth_state \<Rightarrow> 'l auth_state \<Rightarrow> bool" where
  "sweep_rel expired points t s u \<longleftrightarrow> same_but s u \<and> sized points (limiters s) \<and> jm_wf (limiters u) \<and> swept expired t (limiters s) (limiters u)"

lemma limiter_key_inj:
  assumes "limiter_key i n = limiter_key j m" "0 < n" "0 < m"
  shows "n = m"
proof -
  have *: "takeWhile is_digit (rev (limiter_key i n)) = rev (show_nat (nat n))" if "0 < n" for i n
  proof -
    have "rev (limiter_key i n) = rev (show_nat (nat n)) @ '':'' @ rev i" using that by (simp add: limiter_key_def show_int_def)
    moreover have "\<not> is_digit (CHR '':'')" by (simp add: is_digit_def)
    moreover have "takeWhile is_digit (rev (show_nat k) @ z) = rev (show_nat k) @ takeWhile is_digit z" for k z
      by (rule takeWhile_append2) (simp add: show_nat_digits)
    ultimately show ?thesis by simp
  qed
  from * [OF assms(2), of i] * [OF assms(3), of j] assms(1) have "show_nat (nat n) = show_nat (nat m)" by simp
  then have "nat n = nat m" using read_show_nat by metis
  with assms(2,3) show ?thesis by simp
qed

definition limiter_for :: "(int \<Rightarrow> 'l) \<Rightarrow> string \<Rightarrow> int \<Rightarrow> (string, 'l) jsmap \<Rightarrow> 'l" where
  "limiter_for new_limiter i n m = or_else (map_of m (limiter_key i n)) (new_limiter n)"

lemma consume_point_alt:
  "fst (consume_point new_limiter consume t i n s) = fst (consume t (limiter_for new_limiter i n (limiters s)))"
  "map_of (limiters (snd (consume_point new_limiter consume t i n s))) =
     (map_of (limiters s))(limiter_key i n \<mapsto> snd (consume t (limiter_for new_limiter i n (limiters s))))"
  "jm_wf (limiters s) \<Longrightarrow> jm_wf (limiters (snd (consume_point new_limiter consume t i n s)))"
  "same_but s (snd (consume_point new_limiter consume t i n s))"
  by (auto simp: limiter_for_def consume_point_def getLimiter_def Let_def same_but_def jm_wf_jm_set split: option.splits prod.splits)

lemma swept_later: "limiter_laws new_limiter consume expired points \<Longrightarrow> swept expired t m n \<Longrightarrow> t \<le> u \<Longrightarrow> swept expired u m n"
  by (fastforce simp: limiter_laws_def swept_def)

lemma consume_same:
  assumes "limiter_laws new_limiter consume expired points" "swept expired t m m1" "sized points m" "0 < n"
  shows "consume t (limiter_for new_limiter i n m1) = consume t (limiter_for new_limiter i n m)"
    and "points (limiter_for new_limiter i n m) = n"
proof -
  let ?k = "limiter_key i n"
  show p: "points (limiter_for new_limiter i n m) = n"
    using assms(1,3,4) by (cases "map_of m ?k") (auto simp: limiter_for_def sized_def limiter_laws_def)
  show "consume t (limiter_for new_limiter i n m1) = consume t (limiter_for new_limiter i n m)"
  proof (cases "map_of m1 ?k = map_of m ?k")
    case False
    with assms(2) obtain l where l: "map_of m1 ?k = None" "map_of m ?k = Some l" "expired t l" by (auto simp: swept_def)
    with p have "points l = n" by (simp add: limiter_for_def)
    with l assms(1) show ?thesis by (simp add: limiter_for_def limiter_laws_def)
  qed (simp add: limiter_for_def)
qed

lemma consume_point_sim:
  assumes laws: "limiter_laws new_limiter consume expired points" and rel: "sweep_rel expired points t s u" and n: "0 < n"
  shows "fst (consume_point new_limiter consume t i n u) = fst (consume_point new_limiter consume t i n s)"
    and "sweep_rel expired points t (snd (consume_point new_limiter consume t i n s)) (snd (consume_point new_limiter consume t i n u))"
proof -
  from rel have r: "same_but s u" "sized points (limiters s)" "jm_wf (limiters u)" "swept expired t (limiters s) (limiters u)"
    by (simp_all add: sweep_rel_def)
  note c = consume_same [OF laws r(4,2) n, of i]
  show "fst (consume_point new_limiter consume t i n u) = fst (consume_point new_limiter consume t i n s)"
    by (simp add: consume_point_alt(1) c)
  have "points (snd (consume t (limiter_for new_limiter i n (limiters s)))) = n" using c(2) laws by (simp add: limiter_laws_def)
  with r(2) n have "sized points (limiters (snd (consume_point new_limiter consume t i n s)))"
    by (auto simp: sized_def consume_point_alt(2) dest: limiter_key_inj)
  moreover have "swept expired t (limiters (snd (consume_point new_limiter consume t i n s))) (limiters (snd (consume_point new_limiter consume t i n u)))"
    using r(4) by (auto simp: swept_def consume_point_alt(2) c(1))
  ultimately show "sweep_rel expired points t (snd (consume_point new_limiter consume t i n s)) (snd (consume_point new_limiter consume t i n u))"
    using r(1,3) consume_point_alt(3) [of u new_limiter consume t i n] consume_point_alt(4) [of s new_limiter consume t i n]
      consume_point_alt(4) [of u new_limiter consume t i n]
    by (simp add: sweep_rel_def same_but_def)
qed

lemma check_daily_sim:
  assumes "sweep_rel expired points t s u"
  shows "rel_prod (=) (sweep_rel expired points t) (check_daily midnight next_day isoDate up t q r ks s) (check_daily midnight next_day isoDate up t q r ks u)"
  using assms by (auto simp: check_daily_def sweep_rel_def same_but_def Let_def split: option.splits prod.splits)

lemma check_budgets_sim:
  assumes "limiter_laws new_limiter consume expired points" "sweep_rel expired points t s u"
  shows "rel_prod (=) (sweep_rel expired points t) (check_budgets new_limiter consume midnight next_day isoDate up t q r ks s)
    (check_budgets new_limiter consume midnight next_day isoDate up t q r ks u)"
proof (cases "rpmLimit r > 0")
  case True
  obtain a s1 where s1: "consume_point new_limiter consume t (key_id r) (rpmLimit r) s = (a, s1)" by fastforce
  obtain b u1 where u1: "consume_point new_limiter consume t (key_id r) (rpmLimit r) u = (b, u1)" by fastforce
  from consume_point_sim [OF assms True, of "key_id r"] s1 u1 have "b = a" "sweep_rel expired points t s1 u1" by simp_all
  with True s1 u1 check_daily_sim show ?thesis by (cases a) (auto simp: check_budgets_def)
qed (use check_daily_sim assms in \<open>simp add: check_budgets_def\<close>)

lemma keyMatches_sim:
  assumes "sweep_rel expired points t s u"
  shows "rel_prod (=) (sweep_rel expired points t) (keyMatches sha e p s) (keyMatches sha e p u)"
  using assms by (simp add: keyMatches_def sweep_rel_def same_but_def Let_def)

lemma authHook_sim:
  fixes s u :: "'l auth_state"
  assumes "limiter_laws new_limiter consume expired points" "sweep_rel expired points t s u"
  shows "rel_prod (=) (sweep_rel expired points t) (authHook sha new_limiter consume midnight next_day isoDate cfg up t q s)
    (authHook sha new_limiter consume midnight next_day isoDate cfg up t q u)"
proof -
  have k: "auth_keys v = auth_keys w" if "sweep_rel expired points t v w" for v w :: "'l auth_state" using that by (simp add: sweep_rel_def same_but_def)
  define first where "first = (\<lambda>p (v :: 'l auth_state). if apiKey cfg \<noteq> [] then keyMatches sha (apiKey cfg) p v else (False, v))"
  have f: "rel_prod (=) (sweep_rel expired points t) (first p s) (first p u)" for p
    using keyMatches_sim [OF assms(2)] assms(2) by (simp add: first_def)
  show ?thesis
  proof (cases "apiKeyFrom q")
    case (Some p)
    obtain a s1 where s1: "first p s = (a, s1)" by fastforce
    obtain b u1 where u1: "first p u = (b, u1)" by fastforce
    from f [of p] s1 u1 have ab: "b = a" "sweep_rel expired points t s1 u1" by simp_all
    show ?thesis
      using keyMatches_sim [OF ab(2), of sha "apiKey cfg" p] check_budgets_sim [OF assms(1) ab(2)] ab k [OF ab(2)] k [OF assms(2)] assms(2)
        s1 [unfolded first_def] u1 [unfolded first_def] Some
      by (auto simp: authHook_def split: option.splits verdict.splits prod.splits)
  qed (use k [OF assms(2)] assms(2) in \<open>simp add: authHook_def\<close>)
qed

lemma sweep_sim:
  assumes "sweep_rel expired points t s u"
  shows "sweep_rel expired points t s (snd (sweepIdleLimiters expired t u))"
proof -
  let ?kept = "filter (\<lambda>(k, l). \<not> expired t l) (limiters u)"
  from assms have w: "jm_wf (limiters u)" and sw: "swept expired t (limiters s) (limiters u)" by (simp_all add: sweep_rel_def)
  have "distinct (map fst m) \<Longrightarrow> map_of (filter (\<lambda>(k, l). \<not> expired t l) m) k =
      (case map_of m k of Some l \<Rightarrow> if expired t l then None else Some l | None \<Rightarrow> None)" for k m
    by (induction m) (auto simp: map_of_eq_None_iff image_iff split: option.splits)
  with w have kept: "map_of ?kept k = (case map_of (limiters u) k of Some l \<Rightarrow> if expired t l then None else Some l | None \<Rightarrow> None)" for k
    by (simp add: jm_wf_def)
  have "swept expired t (limiters s) ?kept"
    unfolding swept_def
  proof
    fix k
    show "map_of ?kept k = map_of (limiters s) k \<or> map_of ?kept k = None \<and> (\<exists>l. map_of (limiters s) k = Some l \<and> expired t l)"
      using sw [unfolded swept_def, rule_format, of k] kept [of k]
      by (cases "map_of (limiters u) k"; cases "map_of (limiters s) k") (auto split: if_splits)
  qed
  moreover have "jm_wf ?kept" using w by (simp add: jm_wf_def distinct_map_filter)
  ultimately show ?thesis using assms by (simp add: sweep_rel_def same_but_def sweepIdleLimiters_def Let_def)
qed

text \<open>
  Evicting idle rate limiters changes no client's window: a history of requests and sweeps gives every request
  the verdict it gets in the same history with the sweeps left out, for every limiter on which a point taken after
  the record expired is a point taken from a fresh limiter.
\<close>

lemma sweeps_invisible:
  assumes "limiter_laws new_limiter consume expired points" "sorted (map aop_time ops)"
    and "sized points (limiters s)" "jm_wf (limiters s)"
  shows "auth_run sha new_limiter consume expired midnight next_day isoDate s ops =
    auth_run sha new_limiter consume expired midnight next_day isoDate s (filter (\<lambda>op. \<not> (\<exists>t. op = ASweep t)) ops)"
proof -
  have "auth_run sha new_limiter consume expired midnight next_day isoDate u ops =
      auth_run sha new_limiter consume expired midnight next_day isoDate s (filter (\<lambda>op. \<not> (\<exists>t. op = ASweep t)) ops)"
    if "sweep_rel expired points t0 s u" "\<forall>op \<in> set ops. t0 \<le> aop_time op" for t0 s u
    using that assms(2)
  proof (induction ops arbitrary: t0 s u)
    case (Cons op ops)
    have now: "sweep_rel expired points (aop_time op) s u"
      using Cons.prems(1,2) swept_later [OF assms(1)] by (auto simp: sweep_rel_def)
    have later: "\<forall>o' \<in> set ops. aop_time op \<le> aop_time o'" "sorted (map aop_time ops)" using Cons.prems(3) by auto
    show ?case
    proof (cases op)
      case (AHook cfg up t q)
      from authHook_sim [OF assms(1) now, of sha midnight next_day isoDate cfg up q] AHook Cons.IH [OF _ later] show ?thesis
        by (auto simp: rel_prod_sel split: prod.splits)
    next
      case (ASweep t)
      with Cons.IH [OF sweep_sim [OF now] later] show ?thesis by simp
    qed
  qed simp
  moreover have "\<exists>t0. \<forall>op \<in> set ops. t0 \<le> aop_time op"
    by (intro exI [of _ "Min (aop_time ` set ops)"]) simp
  moreover have "sweep_rel expired points t0 s s" for t0 using assms(3,4) by (simp add: sweep_rel_def same_but_def swept_def)
  ultimately show ?thesis by blast
qed


end
