(* ===== verification/Events.thy ===== *)
theory Events
  imports Pool Json
begin

text \<open>
  The admin event bus: \<open>src/server/events.ts\<close>, and the route \<open>/admin/events\<close> of \<open>src/server/admin-api.ts\<close> that
  serves it over SSE.

  A subscriber is its id; what the bus hands to it is the list of deliveries an operation returns. The callback that
  ends a client's stream is the parameter \<open>fin\<close>: its effect on the bus. Timers are operations of a history.
\<close>

section \<open>Events and state\<close>

record run_event =
  re_ok :: bool
  re_status :: string
  re_durationMs :: rat
  re_model :: string
  re_family :: "string option"
  re_conversationId :: "string option"
  re_accountId :: "string option"
  re_keyId :: "string option"
  re_protocol :: string
  re_reqId :: string
  re_usage :: "token_usage option"

datatype event_body = Snapshot pool_data | RunEvent run_event | PoolEvent pool_data

record admin_event =
  ev_seq :: nat
  ev_at :: ms
  ev_body :: event_body

record bus =
  ring :: "admin_event list"
  subscribers :: "nat list"
  clients :: "(nat, ms) jsmap"
  bus_seq :: nat
  nextId :: nat
  debounceTimer :: bool
  clientSweeper :: bool
  capacity :: nat
  clientTtlMs :: ms

type_synonym deliveries = "(nat \<times> admin_event) list"

definition new_bus :: "nat option \<Rightarrow> ms option \<Rightarrow> bus" where
  "new_bus cap ttl = \<lparr>ring = [], subscribers = [], clients = [], bus_seq = 0, nextId = 1, debounceTimer = False,
     clientSweeper = False, capacity = or_else cap 200, clientTtlMs = or_else ttl (24 * 3600000)\<rparr>"

section \<open>Operations\<close>

text \<open>\<open>while (ring.length > capacity) ring.shift()\<close>.\<close>

definition bus_append :: "ms \<Rightarrow> event_body \<Rightarrow> bool \<Rightarrow> bus \<Rightarrow> admin_event \<times> deliveries \<times> bus" where
  "bus_append t body broadcast b =
     (let ev = \<lparr>ev_seq = bus_seq b + 1, ev_at = t, ev_body = body\<rparr>
      in (ev, if broadcast then map (\<lambda>s. (s, ev)) (subscribers b) else [],
          b\<lparr>bus_seq := bus_seq b + 1, ring := slice_last (capacity b) (ring b @ [ev])\<rparr>))"

definition currentSeq :: "bus \<Rightarrow> nat" where
  "currentSeq b = bus_seq b"

definition canReplayFrom :: "nat \<Rightarrow> bus \<Rightarrow> bool" where
  "canReplayFrom n b =
     (if n > bus_seq b then False
      else if n = bus_seq b then True
      else case ring b of [] \<Rightarrow> False | oldest # _ \<Rightarrow> n \<ge> ev_seq oldest \<and> n < bus_seq b)"

definition replayAfter :: "nat \<Rightarrow> bus \<Rightarrow> admin_event list" where
  "replayAfter n b = filter (\<lambda>ev. ev_seq ev > n) (ring b)"

definition subscribe :: "bus \<Rightarrow> nat \<times> bus" where
  "subscribe b = (nextId b, b\<lparr>nextId := nextId b + 1, subscribers := subscribers b @ [nextId b]\<rparr>)"

definition unsubscribe :: "nat \<Rightarrow> bus \<Rightarrow> bus" where
  "unsubscribe s b = b\<lparr>subscribers := filter (\<lambda>x. x \<noteq> s) (subscribers b)\<rparr>"

definition registerClient :: "ms \<Rightarrow> bus \<Rightarrow> nat \<times> bus" where
  "registerClient t b = (nextId b, b\<lparr>nextId := nextId b + 1, clients := jm_set (nextId b) t (clients b), clientSweeper := True\<rparr>)"

definition unregister :: "nat \<Rightarrow> bus \<Rightarrow> bus" where
  "unregister c b = b\<lparr>clients := jm_del c (clients b)\<rparr>"

definition sweepStaleClients :: "(nat \<Rightarrow> bus \<Rightarrow> bus) \<Rightarrow> ms \<Rightarrow> ms option \<Rightarrow> bus \<Rightarrow> nat \<times> bus" where
  "sweepStaleClients fin t maxAge b =
     (let stale = filter (\<lambda>(c, since). since \<le> t - or_else maxAge (clientTtlMs b)) (clients b)
      in (length stale, foldl (\<lambda>b (c, since). fin c (unregister c b)) b stale))"

definition publishRun :: "ms \<Rightarrow> run_event \<Rightarrow> bus \<Rightarrow> admin_event \<times> deliveries \<times> bus" where
  "publishRun t r b = bus_append t (RunEvent r) True b"

definition publishPoolNow :: "ms \<Rightarrow> pool_data \<Rightarrow> bus \<Rightarrow> admin_event \<times> deliveries \<times> bus" where
  "publishPoolNow t p b = bus_append t (PoolEvent p) True b"

definition publishSnapshot :: "ms \<Rightarrow> pool_data \<Rightarrow> bus \<Rightarrow> admin_event \<times> deliveries \<times> bus" where
  "publishSnapshot t p b = bus_append t (Snapshot p) False b"

definition schedulePoolChange :: "bus \<Rightarrow> bus" where
  "schedulePoolChange b = b\<lparr>debounceTimer := True\<rparr>"

text \<open>The debounce timer fires; the pool is read when it does.\<close>

definition debounce_fires :: "ms \<Rightarrow> pool_data \<Rightarrow> bus \<Rightarrow> deliveries \<times> bus" where
  "debounce_fires t p b =
     (let b1 = b\<lparr>debounceTimer := False\<rparr>
      in if clients b1 \<noteq> [] \<or> subscribers b1 \<noteq> [] then snd (publishPoolNow t p b1) else ([], b1))"

definition closeAll :: "(nat \<Rightarrow> bus \<Rightarrow> bus) \<Rightarrow> bus \<Rightarrow> bus" where
  "closeAll fin b =
     (let ends = map fst (clients b)
      in foldl (\<lambda>b c. fin c b) (b\<lparr>debounceTimer := False, clientSweeper := False, clients := [], subscribers := []\<rparr>) ends)"

section \<open>The route\<close>

text \<open>\<open>Last-Event-ID\<close>: \<open>/^\d+$/\<close> and \<open>Number\<close>.\<close>

definition last_event_id :: "string option \<Rightarrow> nat option" where
  "last_event_id h = (case h of Some s \<Rightarrow> if s \<noteq> [] \<and> list_all is_digit s then Some (read_nat 0 s) else None | None \<Rightarrow> None)"

text \<open>A connection: its subscriber and client ids.\<close>

definition end_conn :: "nat \<times> nat \<Rightarrow> bus \<Rightarrow> bus" where
  "end_conn conn b = unsubscribe (fst conn) (unregister (snd conn) b)"

definition admin_events :: "ms \<Rightarrow> pool_data \<Rightarrow> string option \<Rightarrow> bus \<Rightarrow> (nat \<times> nat) \<times> admin_event list \<times> bus" where
  "admin_events t p header b =
     (let (s, b1) = subscribe b; (c, b2) = registerClient t b1
      in case last_event_id header of
           Some n \<Rightarrow>
             (if canReplayFrom n b2 then ((s, c), replayAfter n b2, b2)
              else let (snap, _, b3) = publishSnapshot t p b2 in ((s, c), [snap], b3))
         | None \<Rightarrow> (let (snap, _, b3) = publishSnapshot t p b2 in ((s, c), [snap], b3)))"

section \<open>Histories\<close>

text \<open>
  The bus, every event it ever stamped, what each subscriber was sent (the initial delivery of its connection included),
  and the open connections.
\<close>

record bus_history =
  the_bus :: bus
  bus_log :: "admin_event list"
  sent :: deliveries
  conns :: "(nat \<times> nat) list"

datatype bus_op =
    BRun ms run_event
  | BSchedule
  | BTimer ms pool_data
  | BConnect ms pool_data "string option"
  | BEnd nat
  | BSweep ms "ms option"
  | BCloseAll

text \<open>The stream-end callback of a client is its connection's teardown.\<close>

definition end_client :: "(nat \<times> nat) list \<Rightarrow> nat \<Rightarrow> bus \<Rightarrow> bus" where
  "end_client cs c b = (case find (\<lambda>k. snd k = c) cs of Some k \<Rightarrow> end_conn k b | None \<Rightarrow> b)"

fun bus_step :: "bus_history \<Rightarrow> bus_op \<Rightarrow> bus_history" where
  "bus_step h (BRun t r) =
     (let (ev, ds, b) = publishRun t r (the_bus h)
      in h\<lparr>the_bus := b, bus_log := bus_log h @ [ev], sent := sent h @ ds\<rparr>)"
| "bus_step h BSchedule = h\<lparr>the_bus := schedulePoolChange (the_bus h)\<rparr>"
| "bus_step h (BTimer t p) =
     (if debounceTimer (the_bus h)
      then (let (ds, b) = debounce_fires t p (the_bus h)
            in h\<lparr>the_bus := b, sent := sent h @ ds,
                 bus_log := bus_log h @ (if bus_seq b = bus_seq (the_bus h) then []
                   else [\<lparr>ev_seq = bus_seq b, ev_at = t, ev_body = PoolEvent p\<rparr>])\<rparr>)
      else h)"
| "bus_step h (BConnect t p header) =
     (let (k, evs, b) = admin_events t p header (the_bus h)
      in h\<lparr>the_bus := b, conns := conns h @ [k], sent := sent h @ map (\<lambda>e. (fst k, e)) evs,
           bus_log := bus_log h @ (if bus_seq b = bus_seq (the_bus h) then [] else evs)\<rparr>)"
| "bus_step h (BEnd c) = h\<lparr>the_bus := end_client (conns h) c (the_bus h)\<rparr>"
| "bus_step h (BSweep t age) = h\<lparr>the_bus := snd (sweepStaleClients (end_client (conns h)) t age (the_bus h))\<rparr>"
| "bus_step h BCloseAll = h\<lparr>the_bus := closeAll (end_client (conns h)) (the_bus h)\<rparr>"

definition new_history :: "nat option \<Rightarrow> ms option \<Rightarrow> bus_history" where
  "new_history cap ttl = \<lparr>the_bus = new_bus cap ttl, bus_log = [], sent = [], conns = []\<rparr>"

definition received :: "nat \<Rightarrow> bus_history \<Rightarrow> admin_event list" where
  "received s h = map snd (filter (\<lambda>d. fst d = s) (sent h))"

fun is_snapshot :: "admin_event \<Rightarrow> bool" where
  "is_snapshot ev = (case ev_body ev of Snapshot p \<Rightarrow> True | _ \<Rightarrow> False)"

subsection \<open>The ring\<close>

lemma slice_last_snoc: "slice_last n (slice_last n xs @ [x]) = slice_last n (xs @ [x])"
  by (cases "n \<le> length xs") (auto simp: slice_last_def Suc_diff_le)

definition numbered :: "admin_event list \<Rightarrow> bool" where
  "numbered evs \<longleftrightarrow> map ev_seq evs = [1..<Suc (length evs)]"

lemma numbered_snoc: "numbered evs \<Longrightarrow> ev_seq ev = Suc (length evs) \<Longrightarrow> numbered (evs @ [ev])"
  by (simp add: numbered_def)

lemma numbered_nth: "numbered evs \<Longrightarrow> i < length evs \<Longrightarrow> ev_seq (evs ! i) = Suc i"
proof -
  assume a: "numbered evs" "i < length evs"
  then have "map ev_seq evs ! i = [1..<Suc (length evs)] ! i" by (simp add: numbered_def)
  with a(2) show ?thesis by (simp del: upt_Suc)
qed

lemma numbered_filter_drop:
  assumes "numbered evs" "d \<le> n"
  shows "filter (\<lambda>ev. ev_seq ev > n) (drop d evs) = drop n evs"
proof -
  have split: "drop d evs = take (n - d) (drop d evs) @ drop n evs"
    using append_take_drop_id [of "n - d" "drop d evs"] assms(2) by simp
  have low: "filter (\<lambda>ev. ev_seq ev > n) (take (n - d) (drop d evs)) = []"
    using assms by (auto simp: filter_empty_conv in_set_conv_nth numbered_nth)
  have high: "filter (\<lambda>ev. ev_seq ev > n) (drop n evs) = drop n evs"
    using assms by (auto simp: filter_id_conv in_set_conv_nth numbered_nth)
  show ?thesis by (subst split) (simp add: low high del: drop_drop)
qed

definition bus_inv :: "bus_history \<Rightarrow> bool" where
  "bus_inv h \<longleftrightarrow> numbered (bus_log h) \<and> bus_seq (the_bus h) = length (bus_log h) \<and>
     ring (the_bus h) = slice_last (capacity (the_bus h)) (bus_log h) \<and>
     distinct (subscribers (the_bus h)) \<and> (\<forall>s \<in> set (subscribers (the_bus h)). s < nextId (the_bus h)) \<and>
     (\<forall>d \<in> set (sent h). fst d < nextId (the_bus h))"

lemma replayAfter_exact:
  assumes "bus_inv h" "canReplayFrom n (the_bus h)"
  shows "replayAfter n (the_bus h) = drop n (bus_log h)"
proof -
  let ?log = "bus_log h" and ?d = "length (bus_log h) - capacity (the_bus h)"
  have num: "numbered ?log" and ring: "ring (the_bus h) = drop ?d ?log" and sq: "bus_seq (the_bus h) = length ?log"
    using assms(1) by (simp_all add: bus_inv_def slice_last_def)
  consider "n = length ?log" | "?d \<le> n"
  proof (cases "ring (the_bus h)")
    case (Cons oldest rest)
    then have "?d < length ?log" using ring by (cases "?d < length ?log") auto
    then have "ev_seq oldest = Suc ?d" using Cons ring num numbered_nth by (metis hd_drop_conv_nth list.sel(1))
    then show thesis using assms(2) sq Cons that by (auto simp: canReplayFrom_def split: if_splits)
  next
    case Nil
    then show thesis using assms(2) sq that by (auto simp: canReplayFrom_def split: if_splits)
  qed
  then show ?thesis
  proof cases
    case 1
    then show ?thesis using numbered_filter_drop [OF num, of ?d n] by (simp add: replayAfter_def ring)
  next
    case 2
    then show ?thesis using numbered_filter_drop [OF num] by (simp add: replayAfter_def ring)
  qed
qed

subsection \<open>Steps\<close>

text \<open>Ending connections only removes subscribers and clients.\<close>

definition trims :: "bus \<Rightarrow> bus \<Rightarrow> bool" where
  "trims b b1 \<longleftrightarrow> (\<exists>P. subscribers b1 = filter P (subscribers b)) \<and> ring b1 = ring b \<and> bus_seq b1 = bus_seq b \<and>
     capacity b1 = capacity b \<and> nextId b1 = nextId b"

lemma trims_refl: "trims b b"
  by (auto simp: trims_def intro: exI [of _ "\<lambda>_. True"])

lemma trims_trans:
  assumes "trims a b" "trims b c"
  shows "trims a c"
proof -
  from assms obtain P Q where "subscribers b = filter P (subscribers a)" "subscribers c = filter Q (subscribers b)"
    by (auto simp: trims_def)
  then have "subscribers c = filter (\<lambda>x. P x \<and> Q x) (subscribers a)" by simp
  with assms show ?thesis by (auto simp: trims_def)
qed

lemma end_client_trims: "trims b (end_client cs c b)"
proof (cases "find (\<lambda>k. snd k = c) cs")
  case (Some k)
  then show ?thesis by (auto simp: end_client_def end_conn_def unsubscribe_def unregister_def trims_def)
qed (simp add: end_client_def trims_refl)

lemma foldl_trims: "(\<And>b x. trims b (f b x)) \<Longrightarrow> trims b (foldl f b xs)"
  by (induction xs arbitrary: b) (auto intro: trims_refl trims_trans)

lemma sweep_trims: "trims b (snd (sweepStaleClients (end_client cs) t age b))"
proof -
  have "trims b (end_client cs c (unregister c b))" for b c
    using end_client_trims [of "unregister c b" cs c] by (simp add: trims_def unregister_def)
  then have "trims b (foldl (\<lambda>b (c, since). end_client cs c (unregister c b)) b xs)" for b and xs :: "(nat \<times> ms) list"
    by (intro foldl_trims) auto
  then show ?thesis by (simp add: sweepStaleClients_def Let_def)
qed

lemma closeAll_trims: "trims b (closeAll (end_client cs) b)"
proof -
  let ?b = "b\<lparr>debounceTimer := False, clientSweeper := False, clients := [], subscribers := []\<rparr>"
  have "trims b ?b" by (auto simp: trims_def intro: exI [of _ "\<lambda>_. False"])
  moreover have "trims ?b (foldl (\<lambda>b c. end_client cs c b) ?b (map fst (clients b)))" by (intro foldl_trims end_client_trims)
  ultimately show ?thesis unfolding closeAll_def Let_def by (rule trims_trans)
qed

text \<open>An appended event extends the log and reaches the subscribers of that moment.\<close>

lemma bus_append_fields:
  assumes "bus_append t body br b = (ev, ds, b1)"
  shows "ev_seq ev = Suc (bus_seq b)" "ev_body ev = body" "bus_seq b1 = Suc (bus_seq b)" "ring b1 = slice_last (capacity b) (ring b @ [ev])"
    "subscribers b1 = subscribers b" "nextId b1 = nextId b" "capacity b1 = capacity b" "ds = (if br then map (\<lambda>s. (s, ev)) (subscribers b) else [])"
  using assms by (auto simp: bus_append_def Let_def)

lemma step_append:
  assumes "bus_inv h" "bus_append t body br b = (ev, ds, b1)"
    and "bus_seq b = bus_seq (the_bus h)" "ring b = ring (the_bus h)" "capacity b = capacity (the_bus h)"
    and "distinct (subscribers b)" "\<forall>s \<in> set (subscribers b). s < nextId b" "nextId (the_bus h) \<le> nextId b"
    and "the_bus h1 = b1" "bus_log h1 = bus_log h @ [ev]" "sent h1 = sent h @ es" "\<forall>d \<in> set es. fst d < nextId b"
  shows "bus_inv h1"
  using assms bus_append_fields [OF assms(2)] by (auto simp: bus_inv_def numbered_snoc slice_last_snoc)

lemma step_trims: "bus_inv h \<Longrightarrow> trims (the_bus h) b \<Longrightarrow> bus_inv (h\<lparr>the_bus := b\<rparr>)"
  by (auto simp: bus_inv_def trims_def)

text \<open>How a step treats a subscriber that existed before it.\<close>

definition served :: "nat \<Rightarrow> bus_history \<Rightarrow> bus_history \<Rightarrow> bool" where
  "served s h h1 \<longleftrightarrow> (s \<in> set (subscribers (the_bus h1)) \<longrightarrow> s \<in> set (subscribers (the_bus h)) \<and>
     (\<exists>evs. bus_log h1 = bus_log h @ evs \<and> received s h1 = received s h @ filter (\<lambda>e. \<not> is_snapshot e) evs)) \<and>
     (\<exists>evs. bus_log h1 = bus_log h @ evs) \<and> nextId (the_bus h) \<le> nextId (the_bus h1)"

lemma received_broadcast:
  assumes "distinct subs" "sent h1 = sent h @ map (\<lambda>s. (s, ev)) subs"
  shows "received s h1 = received s h @ (if s \<in> set subs then [ev] else [])"
proof -
  have "map snd (filter (\<lambda>d. fst d = s) (map (\<lambda>s. (s, ev)) subs)) = (if s \<in> set subs then [ev] else [])"
    using assms(1) by (induction subs) auto
  then show ?thesis using assms(2) by (simp add: received_def)
qed

lemma received_fresh: "bus_inv h \<Longrightarrow> nextId (the_bus h) \<le> s \<Longrightarrow> received s h = []"
  by (auto simp: received_def bus_inv_def filter_empty_conv)

lemma step_broadcast:
  assumes inv: "bus_inv h" and ap: "bus_append t body True b = (ev, ds, b1)" and snap: "\<not> is_snapshot ev"
    and b: "bus_seq b = bus_seq (the_bus h)" "ring b = ring (the_bus h)" "capacity b = capacity (the_bus h)"
      "subscribers b = subscribers (the_bus h)" "nextId b = nextId (the_bus h)"
    and h1: "the_bus h1 = b1" "bus_log h1 = bus_log h @ [ev]" "sent h1 = sent h @ ds"
  shows "bus_inv h1 \<and> served s h h1"
proof
  note f = bus_append_fields [OF ap]
  from inv have subs: "distinct (subscribers b)" "\<forall>s \<in> set (subscribers b). s < nextId b" by (simp_all add: bus_inv_def b)
  show "bus_inv h1"
    by (rule step_append [OF inv ap b(1-3) subs _ h1]) (use f subs b in auto)
  have "received s h1 = received s h @ (if s \<in> set (subscribers b) then [ev] else [])"
    by (rule received_broadcast) (use f subs h1 in auto)
  then show "served s h h1" using f h1 b snap by (simp add: served_def)
qed

definition replayable :: "string option \<Rightarrow> bus \<Rightarrow> nat option" where
  "replayable header b = (case last_event_id header of Some n \<Rightarrow> if canReplayFrom n b then Some n else None | None \<Rightarrow> None)"

text \<open>The bus with the connection's subscriber and client entered.\<close>

definition joined :: "ms \<Rightarrow> bus \<Rightarrow> bus" where
  "joined t b = snd (registerClient t (snd (subscribe b)))"

lemma joined_fields:
  "ring (joined t b) = ring b" "bus_seq (joined t b) = bus_seq b" "capacity (joined t b) = capacity b"
  "subscribers (joined t b) = subscribers b @ [nextId b]" "nextId (joined t b) = nextId b + 2"
  "canReplayFrom n (joined t b) = canReplayFrom n b" "replayAfter n (joined t b) = replayAfter n b"
  by (simp_all add: joined_def subscribe_def registerClient_def canReplayFrom_def replayAfter_def split: list.splits)

lemma admin_events_alt:
  "admin_events t p header b =
     ((nextId b, nextId b + 1),
      case replayable header b of
        Some n \<Rightarrow> (replayAfter n b, joined t b)
      | None \<Rightarrow> (let (snap, _, b3) = publishSnapshot t p (joined t b) in ([snap], b3)))"
proof -
  have j: "subscribe b = (nextId b, snd (subscribe b))" "registerClient t (snd (subscribe b)) = (nextId b + 1, joined t b)"
    by (simp_all add: subscribe_def registerClient_def joined_def)
  show ?thesis
    unfolding admin_events_def by (subst j(1)) (simp add: j(2) [simplified] replayable_def joined_fields Let_def split: option.splits prod.splits)
qed

lemma step_connect:
  assumes inv: "bus_inv h" and h1: "h1 = bus_step h (BConnect t p header)"
    and s0: "s0 = nextId (the_bus h)"
  shows "bus_inv h1 \<and> (s < s0 \<longrightarrow> served s h h1) \<and> s0 < nextId (the_bus h1) \<and> s0 \<in> set (subscribers (the_bus h1)) \<and>
    (case replayable header (the_bus h) of
       Some n \<Rightarrow> received s0 h1 = drop n (bus_log h) \<and> bus_log h1 = bus_log h
     | None \<Rightarrow> (\<exists>snap. received s0 h1 = [snap] \<and> ev_body snap = Snapshot p \<and> bus_log h1 = bus_log h @ [snap]))"
proof -
  let ?b = "joined t (the_bus h)"
  have fresh: "received s0 h = []" unfolding s0 by (rule received_fresh [OF inv]) simp
  have subs: "distinct (subscribers ?b)" "\<forall>s \<in> set (subscribers ?b). s < nextId ?b"
    using inv by (auto simp: bus_inv_def joined_fields)
  have one: "received x h1 = received x h @ (if x = s0 then evs else [])" if "sent h1 = sent h @ map (\<lambda>e. (s0, e)) evs" for x evs
    using that by (induction evs arbitrary: h1) (auto simp: received_def filter_map comp_def)
  have other: "served s h h1" if "s < s0" "sent h1 = sent h @ map (\<lambda>e. (s0, e)) evs" "bus_log h1 = bus_log h @ new" "list_all is_snapshot new"
      "subscribers (the_bus h1) = subscribers ?b" "nextId (the_bus h1) = nextId ?b" for evs new
    using that one [OF that(2), of s] by (auto simp: served_def joined_fields s0 list_all_iff filter_empty_conv)
  show ?thesis
  proof (cases "replayable header (the_bus h)")
    case (Some n)
    then have "canReplayFrom n (the_bus h)" by (simp add: replayable_def split: option.splits if_splits)
    note replay = replayAfter_exact [OF inv this]
    have h: "the_bus h1 = ?b" "bus_log h1 = bus_log h" "sent h1 = sent h @ map (\<lambda>e. (s0, e)) (drop n (bus_log h))"
      by (simp_all add: h1 admin_events_alt Some joined_fields replay s0)
    then have "bus_inv h1" using inv subs by (auto simp: bus_inv_def joined_fields s0)
    then show ?thesis
      using other [OF _ h(3), of "[]"] one [OF h(3), of s0] fresh h Some by (simp add: joined_fields s0)
  next
    case None
    obtain snap ds b3 where ap: "bus_append t (Snapshot p) False ?b = (snap, ds, b3)" by (metis prod_cases3)
    note f = bus_append_fields [OF ap]
    have h: "the_bus h1 = b3" "bus_log h1 = bus_log h @ [snap]" "sent h1 = sent h @ map (\<lambda>e. (s0, e)) [snap]"
      using f by (simp_all add: h1 admin_events_alt None publishSnapshot_def ap joined_fields s0)
    have "bus_inv h1"
      by (rule step_append [OF inv ap _ _ _ subs _ h]) (simp_all add: joined_fields s0)
    then show ?thesis
      using other [OF _ h(3,2)] one [OF h(3), of s0] fresh h None f by (simp add: joined_fields s0)
  qed
qed

lemma trims_served: "trims (the_bus h) b \<Longrightarrow> served s h (h\<lparr>the_bus := b\<rparr>)"
  by (auto simp: trims_def served_def received_def)

lemma step_timer:
  assumes inv: "bus_inv h" and h1: "h1 = bus_step h (BTimer t p)"
  shows "bus_inv h1 \<and> served s h h1"
proof (cases "debounceTimer (the_bus h) \<and> (clients (the_bus h) \<noteq> [] \<or> subscribers (the_bus h) \<noteq> [])")
  case True
  let ?b = "(the_bus h)\<lparr>debounceTimer := False\<rparr>"
  obtain ev ds b1 where ap: "bus_append t (PoolEvent p) True ?b = (ev, ds, b1)" by (metis prod_cases3)
  then have ev: "ev = \<lparr>ev_seq = Suc (bus_seq (the_bus h)), ev_at = t, ev_body = PoolEvent p\<rparr>" by (auto simp: bus_append_def Let_def)
  have "the_bus h1 = b1" "bus_log h1 = bus_log h @ [ev]" "sent h1 = sent h @ ds"
    using True bus_append_fields(3) [OF ap] by (auto simp: h1 debounce_fires_def publishPoolNow_def ap ev Let_def)
  then show ?thesis by (intro step_broadcast [OF inv ap]) (simp_all add: ev)
next
  case False
  have "trims (the_bus h) ((the_bus h)\<lparr>debounceTimer := False\<rparr>)" by (auto simp: trims_def intro: exI [of _ "\<lambda>_. True"])
  from step_trims [OF inv this] trims_served [OF this] trims_served [OF trims_refl [of "the_bus h"]] False inv show ?thesis
    by (auto simp: h1 debounce_fires_def)
qed

lemma bus_step_ok:
  assumes "bus_inv h"
  shows "bus_inv (bus_step h op) \<and> (s < nextId (the_bus h) \<longrightarrow> served s h (bus_step h op))"
proof (cases op)
  case (BRun t r)
  obtain ev ds b1 where ap: "bus_append t (RunEvent r) True (the_bus h) = (ev, ds, b1)" by (metis prod_cases3)
  then have "\<not> is_snapshot ev" using bus_append_fields(2) [OF ap] by simp
  then show ?thesis unfolding BRun using step_broadcast [OF assms ap] by (simp add: publishRun_def ap)
next
  case BSchedule
  have "trims (the_bus h) (schedulePoolChange (the_bus h))" by (auto simp: trims_def schedulePoolChange_def intro: exI [of _ "\<lambda>_. True"])
  with BSchedule step_trims [OF assms] trims_served show ?thesis by simp
next
  case (BTimer t p)
  with step_timer [OF assms refl] show ?thesis by simp
next
  case (BConnect t p header)
  with step_connect [OF assms refl refl] show ?thesis by blast
qed (use step_trims [OF assms] trims_served end_client_trims sweep_trims closeAll_trims in simp_all)

lemma served_trans:
  assumes "served s h h1" "served s h1 h2"
  shows "served s h h2"
proof -
  from assms obtain e1 e2 where "bus_log h1 = bus_log h @ e1" "bus_log h2 = bus_log h1 @ e2" by (auto simp: served_def)
  with assms show ?thesis by (auto simp: served_def)
qed

interpretation bus_run: stepwise bus_step "\<lambda>_ _. True" bus_inv
  by unfold_locales (use bus_step_ok in blast)

lemma served_run: "bus_inv h \<Longrightarrow> s < nextId (the_bus h) \<Longrightarrow> served s h (foldl bus_step h ops)"
proof (induction ops arbitrary: h)
  case Nil
  then show ?case by (simp add: served_def)
next
  case (Cons op ops)
  from bus_step_ok [OF Cons.prems(1), of op s] Cons.prems(2)
  have st: "bus_inv (bus_step h op)" "served s h (bus_step h op)" by auto
  with Cons.prems(2) have "s < nextId (the_bus (bus_step h op))" by (simp add: served_def)
  from served_trans [OF st(2) Cons.IH [OF st(1) this]] show ?case by simp
qed

lemma new_history_inv: "bus_inv (new_history cap ttl)"
  by (simp add: new_history_def new_bus_def bus_inv_def numbered_def slice_last_def)

section \<open>Resuming\<close>

text \<open>
  Events are numbered from 1 without gaps. Whatever happened on the bus before, a client that connects with the id of an
  event still in the ring is sent exactly the events after it, in order, and any other client is sent one snapshot of the
  pool; from then on, as long as its connection lasts, it is sent every later event exactly once and in order, except the
  snapshots made for other clients.
\<close>

lemma resume_exact:
  fixes before after :: "bus_op list"
  assumes "h = foldl bus_step (new_history cap ttl) before" "s = nextId (the_bus h)"
    and "h2 = foldl bus_step h (BConnect t p header # after)" "s \<in> set (subscribers (the_bus h2))"
  shows "numbered (bus_log h2) \<and>
    (case replayable header (the_bus h) of
       Some n \<Rightarrow> received s h2 = drop n (bus_log h) @ filter (\<lambda>e. \<not> is_snapshot e) (drop (length (bus_log h)) (bus_log h2))
     | None \<Rightarrow> (\<exists>snap. ev_body snap = Snapshot p \<and> bus_log h2 ! length (bus_log h) = snap \<and>
         received s h2 = snap # filter (\<lambda>e. \<not> is_snapshot e) (drop (Suc (length (bus_log h))) (bus_log h2))))"
proof -
  from bus_run.run_inv [OF new_history_inv ok_run_True, of cap ttl before] assms(1) have inv: "bus_inv h" by simp
  define h1 where "h1 = bus_step h (BConnect t p header)"
  note c = step_connect [OF inv h1_def assms(2), of 0]
  from c have "bus_inv h1" "s < nextId (the_bus h1)" by blast+
  from served_run [OF this, of after] assms(3) have sv: "served s h1 h2" by (simp add: h1_def)
  then obtain evs where e: "bus_log h2 = bus_log h1 @ evs" "received s h2 = received s h1 @ filter (\<lambda>e. \<not> is_snapshot e) evs"
    using assms(4) by (auto simp: served_def)
  from bus_run.run_inv [OF \<open>bus_inv h1\<close> ok_run_True, of after] assms(3) have "numbered (bus_log h2)" by (simp add: bus_inv_def h1_def)
  with c e show ?thesis by (auto simp: nth_append split: option.splits)
qed

definition demo_run_event :: "string \<Rightarrow> run_event" where
  "demo_run_event i = \<lparr>re_ok = True, re_status = ''OK'', re_durationMs = 5, re_model = ''m'', re_family = None, re_conversationId = None,
     re_accountId = None, re_keyId = None, re_protocol = ''openai'', re_reqId = i, re_usage = None\<rparr>"

end
