(* ===== verification/Runner.thy ===== *)
theory Runner
  imports Dispatch
begin

text \<open>
  The process runner: \<open>src/host/runner.ts\<close>.

  A running child is a state that events move: output, the watchdog and the kill-ladder timers firing, abort and kill
  requests, and the exit of the child. Signals sent are recorded in order. The platform (\<open>win\<close>), the environment, the
  file system (\<open>present\<close>, the files that exist; \<open>nvm\<close>, the listing of the nvm directory) and Node's path join
  (\<open>jn\<close>) are arguments; \<open>throws\<close> says with which text the consumer throws on a line or chunk.
\<close>

section \<open>Finding the binary\<close>

definition binCandidates :: "(string list \<Rightarrow> string) \<Rightarrow> string \<Rightarrow> bool \<Rightarrow> string list" where
  "binCandidates jn dir win = map (\<lambda>e. jn [dir, ''agy'' @ e]) (if win then [''.exe'', ''.cmd'', ''.bat''] else [''''])"

definition isCmdShim :: "string \<Rightarrow> bool" where
  "isCmdShim bin = (ends_with (to_lower bin) ''.cmd'' \<or> ends_with (to_lower bin) ''.bat'')"

text \<open>\<open>/^([A-Za-z]:)(.*)$/\<close>: a drive letter, and the rest without line terminators.\<close>

definition is_alpha :: "char \<Rightarrow> bool" where
  "is_alpha c = (let n = of_char c :: nat in (65 \<le> n \<and> n \<le> 90) \<or> (97 \<le> n \<and> n \<le> 122))"

definition drive_split :: "string \<Rightarrow> (string \<times> string) option" where
  "drive_split dir =
     (case dir of
        d # c # rest \<Rightarrow> if is_alpha d \<and> c = CHR '':'' \<and> list_all (\<lambda>x. x \<notin> {CHR 0x0A, CHR 0x0D}) rest then Some ([d, c], rest) else None
      | _ \<Rightarrow> None)"

definition isolatedHomeEnv :: "(string list \<Rightarrow> string) \<Rightarrow> bool \<Rightarrow> string \<Rightarrow> (string, string) jsmap" where
  "isolatedHomeEnv jn win dir =
     [(''HOME'', dir), (''GEMINI_CLI_HOME'', jn [dir, ''.gemini''])] @
     (if win then (''USERPROFILE'', dir) # (case drive_split dir of Some (d, p) \<Rightarrow> [(''HOMEDRIVE'', d), (''HOMEPATH'', p)] | None \<Rightarrow> []) else [])"

definition proxyEnv :: "string \<Rightarrow> (string, string) jsmap" where
  "proxyEnv url = map (\<lambda>k. (k, url)) [''ALL_PROXY'', ''HTTPS_PROXY'', ''HTTP_PROXY'', ''all_proxy'', ''https_proxy'', ''http_proxy'']"

definition sanitizeChildEnv :: "(string \<times> string option) list \<Rightarrow> (string, string) jsmap" where
  "sanitizeChildEnv env =
     concat (map (\<lambda>(k, v). if starts_with k ''AGY_PROXY_'' then [] else case v of Some x \<Rightarrow> [(k, x)] | None \<Rightarrow> []) env)"

definition MIN_AGY_VERSION :: string where
  "MIN_AGY_VERSION = ''1.1.8''"

definition win_candidates :: "(string list \<Rightarrow> string) \<Rightarrow> string \<Rightarrow> string \<Rightarrow> string \<Rightarrow> string list" where
  "win_candidates jn loc appData home =
     (if loc \<noteq> [] then [jn [loc, ''Programs'', ''agy'', ''agy.exe''], jn [loc, ''pnpm'', ''agy.cmd''], jn [loc, ''pnpm'', ''agy.exe'']] else []) @
     (if appData \<noteq> [] then [jn [appData, ''npm'', ''agy.cmd''], jn [appData, ''Roaming'', ''npm'', ''agy.cmd'']] else []) @
     [jn [home, ''.local'', ''bin'', ''agy.exe''], jn [home, ''.local'', ''bin'', ''agy.cmd''], jn [home, ''.bun'', ''bin'', ''agy.exe''],
      jn [home, ''.cargo'', ''bin'', ''agy.exe''], jn [home, ''scoop'', ''shims'', ''agy.exe'']]"

definition unix_candidates :: "(string list \<Rightarrow> string) \<Rightarrow> string list \<Rightarrow> string \<Rightarrow> string list" where
  "unix_candidates jn nvm home =
     [jn [home, ''.local'', ''bin'', ''agy''], ''/usr/local/bin/agy'', ''/opt/homebrew/bin/agy'', ''/opt/homebrew/sbin/agy'',
      ''/home/linuxbrew/.linuxbrew/bin/agy'', jn [home, ''.bun'', ''bin'', ''agy''], jn [home, ''.cargo'', ''bin'', ''agy''],
      jn [home, ''.local'', ''share'', ''pnpm'', ''agy''], jn [home, ''Library'', ''pnpm'', ''agy''], jn [home, ''.yarn'', ''bin'', ''agy''],
      jn [home, ''.npm-global'', ''bin'', ''agy''], jn [home, ''.volta'', ''bin'', ''agy''], jn [home, ''.asdf'', ''shims'', ''agy''],
      jn [home, ''.nix-profile'', ''bin'', ''agy''], ''/run/current-system/sw/bin/agy''] @
     map (\<lambda>v. jn [jn [home, ''.nvm'', ''versions'', ''node''], v, ''bin'', ''agy'']) nvm @
     [jn [home, ''.local'', ''share'', ''fnm'', ''current'', ''bin'', ''agy''], jn [home, ''.fnm'', ''current'', ''bin'', ''agy''],
      jn [home, ''Library'', ''Application Support'', ''fnm'', ''current'', ''bin'', ''agy'']]"

definition pick_bin :: "string list \<Rightarrow> string option" where
  "pick_bin hits =
     (case find (\<lambda>h. \<not> isCmdShim h) hits of
        Some h \<Rightarrow> Some h
      | None \<Rightarrow> (case hits of [] \<Rightarrow> None | h # _ \<Rightarrow> Some h))"

definition resolveAgyBin ::
  "(string list \<Rightarrow> string) \<Rightarrow> bool \<Rightarrow> (string \<rightharpoonup> string) \<Rightarrow> string \<Rightarrow> string list \<Rightarrow> (string \<Rightarrow> bool) \<Rightarrow> string \<Rightarrow> string option" where
  "resolveAgyBin jn win env home nvm present binHint =
     (let delim = (if win then CHR '';'' else CHR '':'');
          dirs = filter (\<lambda>d. d \<noteq> []) (split_on (\<lambda>c. c = delim) (or_else (env ''PATH'') []));
          candidates = (if binHint \<noteq> [] then [binHint] else []) @ concat (map (\<lambda>d. binCandidates jn d win) dirs) @
            (if win then win_candidates jn (or_else (env ''LOCALAPPDATA'') []) (or_else (env ''APPDATA'') []) home
             else unix_candidates jn nvm home);
          hits = filter present candidates
      in pick_bin hits)"

text \<open>A version component is \<open>Number(part)\<close>, \<open>None\<close> for \<open>NaN\<close>; \<open>NaN\<close> differs from everything, itself included.\<close>

fun compare_loop :: "rat option list \<Rightarrow> rat option list \<Rightarrow> rat option" where
  "compare_loop [] [] = Some 0"
| "compare_loop xs ys =
     (let x = (case xs of a # _ \<Rightarrow> a | [] \<Rightarrow> Some 0); y = (case ys of b # _ \<Rightarrow> b | [] \<Rightarrow> Some 0)
      in case (x, y) of
           (Some a, Some b) \<Rightarrow> if a \<noteq> b then Some (a - b) else compare_loop (drop 1 xs) (drop 1 ys)
         | _ \<Rightarrow> None)"

definition compareVersions :: "string \<Rightarrow> string \<Rightarrow> rat option" where
  "compareVersions a b =
     (let parts = (\<lambda>s. map js_number (split_on (\<lambda>c. c = CHR ''.'') s)) in compare_loop (parts a) (parts b))"

text \<open>\<open>createBinCache\<close>: \<open>None\<close> is the undefined cache. \<open>resolve\<close> returns the binary and the cache.\<close>

definition cache_resolve :: "string option \<Rightarrow> string option option \<Rightarrow> string option \<times> string option option" where
  "cache_resolve found cached = (case cached of None \<Rightarrow> (found, Some found) | Some c \<Rightarrow> (c, cached))"

definition cache_invalidate :: "string option option \<Rightarrow> string option option" where
  "cache_invalidate cached = None"

definition rx_version :: rx where
  "rx_version = RxCap 1 (rx_seqs [rx_plus (RxChar is_digit), RxChar (\<lambda>c. c = CHR ''.''), rx_plus (RxChar is_digit),
     RxChar (\<lambda>c. c = CHR ''.''), rx_plus (RxChar is_digit)])"

definition parseVersion :: "string \<Rightarrow> string option" where
  "parseVersion out = (case rx_exec rx_version out of Some (_, caps) \<Rightarrow> map_of caps 1 | None \<Rightarrow> None)"

text \<open>No variable of the gateway reaches a child, a shim is chosen only where nothing else is there, and the cache is transparent.\<close>

lemma sanitize_no_secret: "(k, v) \<in> set (sanitizeChildEnv env) \<longleftrightarrow> (k, Some v) \<in> set env \<and> \<not> starts_with k ''AGY_PROXY_''"
  by (force simp: sanitizeChildEnv_def split: option.splits if_splits)

lemma pick_bin_exe: "pick_bin hits = Some bin \<Longrightarrow> bin \<in> set hits \<and> (isCmdShim bin \<longrightarrow> list_all isCmdShim hits)"
  by (auto simp: pick_bin_def find_None_iff list_all_iff split: option.splits list.splits dest!: find_SomeD)

lemma cache_transparent: "cached = None \<or> cached = Some found \<Longrightarrow> cache_resolve found cached = (found, Some found)"
  by (auto simp: cache_resolve_def)

section \<open>A running process\<close>

record proc_opts =
  po_win :: bool
  po_chunked :: bool
  po_timeoutMs :: "ms option"
  po_graceMs :: ms
  po_pid :: bool
  po_group :: bool

text \<open>
  Signals: \<open>taskkill /T /F\<close>, a signal to the process group, and one to the child. The flag is \<open>force\<close>: \<open>SIGKILL\<close>
  instead of \<open>SIGTERM\<close>. \<open>po_group\<close>: signalling the group does not throw.
\<close>

datatype blow = TaskKill | GroupKill bool | ChildKill bool

record process =
  p_stdout :: string
  p_stderr :: string
  stdoutHead :: string
  stdoutTail :: string
  stdoutTotal :: nat
  p_pending :: string
  p_timedOut :: bool
  p_aborted :: bool
  p_settled :: bool
  escalated :: bool
  escalationTimer :: bool
  finalKillTimer :: bool
  watchdog :: bool
  listening :: bool
  p_blows :: "blow list"
  p_calls :: "string list"
  p_outcome :: "run_outcome option"

definition GRACE_MS :: ms where
  "GRACE_MS = 5000"

definition HEAD_KEEP :: nat where
  "HEAD_KEEP = 4096"

definition TAIL_KEEP :: nat where
  "TAIL_KEEP = 65536"

definition sendKill :: "proc_opts \<Rightarrow> bool \<Rightarrow> process \<Rightarrow> process" where
  "sendKill o' force p =
     (if \<not> po_pid o' then p
      else p\<lparr>p_blows := p_blows p @ [if po_win o' then TaskKill else if po_group o' then GroupKill force else ChildKill force]\<rparr>)"

definition killTree :: "proc_opts \<Rightarrow> bool \<Rightarrow> process \<Rightarrow> process" where
  "killTree o' force p =
     (let p1 = sendKill o' force p
      in if force \<or> escalated p1 \<or> p_settled p1 \<or> po_graceMs o' = 0 then p1
         else p1\<lparr>escalated := True, escalationTimer := True, finalKillTimer := True\<rparr>)"

definition escalation_fires :: "proc_opts \<Rightarrow> process \<Rightarrow> process" where
  "escalation_fires o' p =
     (let p1 = p\<lparr>escalationTimer := False\<rparr> in if \<not> p_settled p1 then sendKill o' True p1 else p1)"

definition final_fires :: "process \<Rightarrow> process" where
  "final_fires p =
     (let p1 = p\<lparr>finalKillTimer := False\<rparr> in if \<not> p_settled p1 then p1\<lparr>p_blows := p_blows p1 @ [ChildKill True]\<rparr> else p1)"

definition disarmEscalation :: "process \<Rightarrow> process" where
  "disarmEscalation p = p\<lparr>escalationTimer := False, finalKillTimer := False\<rparr>"

definition refreshWatchdog :: "proc_opts \<Rightarrow> process \<Rightarrow> process" where
  "refreshWatchdog o' p =
     (if (case po_timeoutMs o' of None \<Rightarrow> True | Some ms \<Rightarrow> ms \<le> 0) \<or> p_settled p then p else p\<lparr>watchdog := True\<rparr>)"

definition watchdog_fires :: "proc_opts \<Rightarrow> process \<Rightarrow> process" where
  "watchdog_fires o' p = killTree o' False (p\<lparr>watchdog := False, p_timedOut := True\<rparr>)"

definition onAbort :: "proc_opts \<Rightarrow> process \<Rightarrow> process" where
  "onAbort o' p = killTree o' False (p\<lparr>listening := False, p_aborted := True\<rparr>)"

definition request_kill :: "proc_opts \<Rightarrow> bool \<Rightarrow> process \<Rightarrow> process" where
  "request_kill o' timeout p =
     killTree o' False ((if timeout then p\<lparr>p_timedOut := True\<rparr> else p\<lparr>p_aborted := True\<rparr>)\<lparr>watchdog := False\<rparr>)"

text \<open>A call of the consumer; what it throws is parked in the stderr tail.\<close>

definition safe_call :: "string \<Rightarrow> (string \<Rightarrow> string option) \<Rightarrow> string \<Rightarrow> process \<Rightarrow> process" where
  "safe_call tag throws x p =
     (let p1 = p\<lparr>p_calls := p_calls p @ [x]\<rparr>
      in case throws x of None \<Rightarrow> p1 | Some e \<Rightarrow> p1\<lparr>p_stderr := slice_last 4096 (p_stderr p1 @ tag @ e)\<rparr>)"

abbreviation safeOnLine where
  "safeOnLine \<equiv> safe_call ''[onLine] ''"

abbreviation safeOnChunk where
  "safeOnChunk \<equiv> safe_call ''[onChunk] ''"

definition strip_return :: "string \<Rightarrow> string" where
  "strip_return l = (if l \<noteq> [] \<and> last l = CHR 0x0D then butlast l else l)"

function take_lines :: "string \<Rightarrow> string list \<times> string" where
  "take_lines pending =
     (case index_of pending nl of
        None \<Rightarrow> ([], pending)
      | Some i \<Rightarrow> (let (ls, rest) = take_lines (drop (i + 1) pending) in (strip_return (take i pending) # ls, rest)))"
  by pat_completeness auto

termination
proof (relation "measure length")
  fix pending :: string and i
  assume "index_of pending nl = Some i"
  then have "pending \<noteq> []" by (auto simp: nl_def)
  then show "(drop (i + 1) pending, pending) \<in> measure length" by simp
qed simp

declare take_lines.simps [simp del]

definition on_stdout :: "proc_opts \<Rightarrow> (string \<Rightarrow> string option) \<Rightarrow> string \<Rightarrow> process \<Rightarrow> process" where
  "on_stdout o' throws chunk p =
     (let p0 = refreshWatchdog o' p
      in if po_chunked o' then
           (let tail = stdoutTail p0 @ chunk
            in safeOnChunk throws chunk
                 (p0\<lparr>stdoutTotal := stdoutTotal p0 + length chunk,
                     stdoutHead := (if length (stdoutHead p0) < HEAD_KEEP then take HEAD_KEEP (stdoutHead p0 @ chunk) else stdoutHead p0),
                     stdoutTail := (if length tail > TAIL_KEEP * 2 then slice_last (TAIL_KEEP * 2) tail else tail)\<rparr>))
         else
           (let out = p_stdout p0 @ chunk; (ls, rest) = take_lines (p_pending p0 @ chunk)
            in foldl (\<lambda>p l. safeOnLine throws l p)
                 (p0\<lparr>p_stdout := (if length out > 4000000 then slice_last 2000000 out else out), p_pending := rest\<rparr>) ls))"

definition on_stderr :: "proc_opts \<Rightarrow> string \<Rightarrow> process \<Rightarrow> process" where
  "on_stderr o' chunk p =
     (let p0 = refreshWatchdog o' p; err = p_stderr p0 @ chunk
      in p0\<lparr>p_stderr := (if length err > 8192 then slice_last 8192 err else err)\<rparr>)"

text \<open>\<open>finish\<close>; \<open>elapsed\<close> is the clock since the start.\<close>

definition finish_proc :: "proc_opts \<Rightarrow> (string \<Rightarrow> string option) \<Rightarrow> int option \<Rightarrow> string option \<Rightarrow> ms \<Rightarrow> process \<Rightarrow> process" where
  "finish_proc o' throws c sig elapsed p =
     (if p_settled p then p
      else let p1 = disarmEscalation (p\<lparr>p_settled := True, watchdog := False, listening := False\<rparr>);
               p2 = (if p_pending p1 \<noteq> [] then (safeOnLine throws (p_pending p1) p1)\<lparr>p_pending := []\<rparr> else p1)
        in p2\<lparr>p_outcome := Some \<lparr>out_code = c, out_signal = sig, timedOut = p_timedOut p2, out_aborted = p_aborted p2,
              out_stdout = (if po_chunked o'
                            then (if stdoutTotal p2 \<le> HEAD_KEEP then stdoutHead p2 else stdoutHead p2 @ slice_last TAIL_KEEP (stdoutTail p2))
                            else p_stdout p2),
              stderrTail = slice_last 4096 (p_stderr p2), durationMs = elapsed\<rparr>\<rparr>)"

definition on_error :: "proc_opts \<Rightarrow> (string \<Rightarrow> string option) \<Rightarrow> string \<Rightarrow> ms \<Rightarrow> process \<Rightarrow> process" where
  "on_error o' throws e elapsed p =
     finish_proc o' throws None None elapsed (p\<lparr>p_stderr := slice_last 4096 (p_stderr p @ e)\<rparr>)"

definition new_process :: process where
  "new_process = \<lparr>p_stdout = [], p_stderr = [], stdoutHead = [], stdoutTail = [], stdoutTotal = 0, p_pending = [], p_timedOut = False,
     p_aborted = False, p_settled = False, escalated = False, escalationTimer = False, finalKillTimer = False, watchdog = False,
     listening = True, p_blows = [], p_calls = [], p_outcome = None\<rparr>"

text \<open>\<open>Inl\<close>: the refusal of a command shim.\<close>

definition startAgyProcess :: "proc_opts \<Rightarrow> string \<Rightarrow> string + process" where
  "startAgyProcess o' bin =
     (if po_win o' \<and> isCmdShim bin
      then Inl (''Windows: agy resolved to a cmd shim ('' @ bin @ '') '' @ em_dash @
             '' install the official agy.exe; spawning through cmd.exe would let API request text inject shell commands'')
      else Inr (refreshWatchdog o' new_process))"

text \<open>\<open>probeProcess\<close>, given the outcome of the process.\<close>

definition probeProcess :: "proc_opts \<Rightarrow> string \<Rightarrow> run_outcome \<Rightarrow> string + string" where
  "probeProcess o' bin out =
     (case startAgyProcess o' bin of
        Inl e \<Rightarrow> Inl (''Error: '' @ e)
      | Inr p \<Rightarrow>
          (if out_code out \<noteq> Some 0
           then Inl (if trim (stderrTail out) \<noteq> [] then trim (stderrTail out)
                     else ''exited with code '' @ (case out_code out of Some n \<Rightarrow> show_int n | None \<Rightarrow> ''null''))
           else (case parseVersion (out_stdout out) of
                   Some v \<Rightarrow> Inr v
                 | None \<Rightarrow> Inl (''unparsable version output: '' @ take 200 (out_stdout out)))))"

section \<open>Histories\<close>

datatype proc_event =
    PChunk string | PErr string | PWatchdog | PAbort | PKill bool | PEscalate | PFinal
  | PExit "int option" "string option" ms | PFail string ms

text \<open>A timer or listener that is not armed does not fire.\<close>

fun proc_step :: "proc_opts \<Rightarrow> (string \<Rightarrow> string option) \<Rightarrow> process \<Rightarrow> proc_event \<Rightarrow> process" where
  "proc_step o' throws p (PChunk c) = on_stdout o' throws c p"
| "proc_step o' throws p (PErr c) = on_stderr o' c p"
| "proc_step o' throws p PWatchdog = (if watchdog p then watchdog_fires o' p else p)"
| "proc_step o' throws p PAbort = (if listening p then onAbort o' p else p)"
| "proc_step o' throws p (PKill timeout) = request_kill o' timeout p"
| "proc_step o' throws p PEscalate = (if escalationTimer p then escalation_fires o' p else p)"
| "proc_step o' throws p PFinal = (if finalKillTimer p then final_fires p else p)"
| "proc_step o' throws p (PExit c sig elapsed) = finish_proc o' throws c sig elapsed p"
| "proc_step o' throws p (PFail e elapsed) = on_error o' throws e elapsed p"

subsection \<open>The kill ladder\<close>

fun forced :: "blow \<Rightarrow> bool" where
  "forced TaskKill = False"
| "forced (GroupKill f) = f"
| "forced (ChildKill f) = f"

definition tree_blow :: "proc_opts \<Rightarrow> bool \<Rightarrow> blow" where
  "tree_blow o' force = (if po_win o' then TaskKill else if po_group o' then GroupKill force else ChildKill force)"

text \<open>The fields of the ladder; consumer calls and output leave them alone.\<close>

definition ladder_of :: "process \<Rightarrow> bool \<times> bool \<times> bool \<times> bool \<times> bool \<times> blow list \<times> run_outcome option" where
  "ladder_of p = (escalated p, escalationTimer p, finalKillTimer p, p_settled p, p_timedOut p \<or> p_aborted p, p_blows p, p_outcome p)"

fun ladder_ok :: "proc_opts \<Rightarrow> bool \<times> bool \<times> bool \<times> bool \<times> bool \<times> blow list \<times> run_outcome option \<Rightarrow> bool" where
  "ladder_ok o' (esc, et, ft, done, killed, bs, out) \<longleftrightarrow>
     (et \<or> ft \<longrightarrow> esc \<and> \<not> done) \<and>
     (esc \<and> \<not> done \<longrightarrow> (et \<or> tree_blow o' True \<in> set bs) \<and> (ft \<or> ChildKill True \<in> set bs)) \<and>
     (killed \<and> \<not> done \<longrightarrow> esc) \<and> (esc \<longrightarrow> bs \<noteq> []) \<and> (bs \<noteq> [] \<longrightarrow> \<not> forced (hd bs)) \<and> (done \<longleftrightarrow> out \<noteq> None)"

definition ladder_inv :: "proc_opts \<Rightarrow> process \<Rightarrow> bool" where
  "ladder_inv o' p \<longleftrightarrow> ladder_ok o' (ladder_of p)"

lemma ladder_inv_cong: "ladder_of p = ladder_of q \<Longrightarrow> ladder_inv o' p = ladder_inv o' q"
  by (simp add: ladder_inv_def)

lemma ladder_of_call [simp]: "ladder_of (safe_call tag throws x p) = ladder_of p"
  by (simp add: safe_call_def ladder_of_def Let_def split: option.splits)

lemma ladder_of_calls: "ladder_of (foldl (\<lambda>p l. safe_call tag throws l p) p ls) = ladder_of p"
  by (induction ls arbitrary: p) simp_all

lemma ladder_of_watchdog: "ladder_of (refreshWatchdog o' p) = ladder_of p"
  by (simp add: refreshWatchdog_def ladder_of_def)

lemma on_stdout_ladder: "ladder_of (on_stdout o' throws c p) = ladder_of p"
proof -
  have upd: "ladder_of (q\<lparr>stdoutTotal := a, stdoutHead := b, stdoutTail := d\<rparr>) = ladder_of q"
    "ladder_of (q\<lparr>p_stdout := b, p_pending := d\<rparr>) = ladder_of q" for q a b d
    by (simp_all add: ladder_of_def)
  show ?thesis by (simp add: on_stdout_def Let_def upd ladder_of_calls ladder_of_watchdog split: prod.splits)
qed

lemma on_stderr_ladder: "ladder_of (on_stderr o' c p) = ladder_of p"
  using ladder_of_watchdog [of o' p] by (simp add: on_stderr_def Let_def ladder_of_def)

text \<open>What each blow does to the ladder.\<close>

lemma killTree_ladder:
  assumes "po_pid o'" "po_graceMs o' \<noteq> 0" "ladder_of p = (esc, et, ft, done, killed, bs, out)"
  shows "ladder_of (killTree o' False p) =
    (if esc \<or> done then (esc, et, ft, done, killed, bs @ [tree_blow o' False], out) else (True, True, True, done, killed, bs @ [tree_blow o' False], out))"
  using assms by (auto simp: killTree_def sendKill_def tree_blow_def ladder_of_def Let_def)

lemma soft_blow [simp]: "\<not> forced (tree_blow o' False)"
  by (simp add: tree_blow_def)

lemma killTree_inv:
  assumes "ladder_inv o' p" "po_pid o'" "po_graceMs o' \<noteq> 0"
    and "ladder_of p = (esc, et, ft, done, killed, bs, out)" "ladder_of q = (esc, et, ft, done, k1, bs, out)"
  shows "ladder_inv o' (killTree o' False q)"
proof (cases "esc \<or> done")
  case True
  with assms killTree_ladder [OF assms(2,3,5)] show ?thesis by (cases out; cases esc) (auto simp: ladder_inv_def hd_append)
next
  case False
  with assms killTree_ladder [OF assms(2,3,5)] show ?thesis by (simp add: ladder_inv_def hd_append)
qed

lemma finish_ladder:
  assumes "ladder_inv o' p"
  shows "ladder_inv o' (finish_proc o' throws c sig elapsed p)"
proof (cases "p_settled p")
  case False
  let ?p1 = "disarmEscalation (p\<lparr>p_settled := True, watchdog := False, listening := False\<rparr>)"
  let ?p2 = "if p_pending ?p1 \<noteq> [] then (safeOnLine throws (p_pending ?p1) ?p1)\<lparr>p_pending := []\<rparr> else ?p1"
  have p2: "ladder_of ?p2 = (escalated p, False, False, True, p_timedOut p \<or> p_aborted p, p_blows p, p_outcome p)"
    using ladder_of_call [of "''[onLine] ''" throws "p_pending ?p1" ?p1] by (simp add: ladder_of_def disarmEscalation_def)
  have "\<exists>out. finish_proc o' throws c sig elapsed p = ?p2\<lparr>p_outcome := Some out\<rparr>"
    using False by (auto simp: finish_proc_def Let_def)
  then obtain out where "finish_proc o' throws c sig elapsed p = ?p2\<lparr>p_outcome := Some out\<rparr>" ..
  then have "ladder_of (finish_proc o' throws c sig elapsed p) = (escalated p, False, False, True, p_timedOut p \<or> p_aborted p, p_blows p, Some out)"
    using p2 by (simp add: ladder_of_def)
  with assms show ?thesis by (simp add: ladder_inv_def ladder_of_def)
qed (simp add: finish_proc_def assms)

lemma proc_step_ladder:
  assumes "ladder_inv o' p" "po_pid o'" "po_graceMs o' \<noteq> 0"
  shows "ladder_inv o' (proc_step o' throws p e)"
proof (cases e)
  case (PChunk c)
  with assms(1) ladder_inv_cong [OF on_stdout_ladder] show ?thesis by simp
next
  case (PErr c)
  with assms(1) ladder_inv_cong [OF on_stderr_ladder] show ?thesis by simp
next
  case PWatchdog
  with assms show ?thesis by (auto simp: watchdog_fires_def intro!: killTree_inv [OF assms ladder_of_def]) (simp add: ladder_of_def)
next
  case PAbort
  with assms show ?thesis by (auto simp: onAbort_def intro!: killTree_inv [OF assms ladder_of_def]) (simp add: ladder_of_def)
next
  case (PKill timeout)
  then show ?thesis by (auto simp: request_kill_def intro!: killTree_inv [OF assms ladder_of_def]) (simp_all add: ladder_of_def)
next
  case PEscalate
  have "ladder_of (escalation_fires o' p) = (escalated p, False, finalKillTimer p, p_settled p, p_timedOut p \<or> p_aborted p,
      p_blows p @ (if p_settled p then [] else [tree_blow o' True]), p_outcome p)"
    using assms(2) by (simp add: ladder_of_def escalation_fires_def sendKill_def tree_blow_def Let_def)
  with PEscalate assms show ?thesis by (auto simp: ladder_inv_def ladder_of_def hd_append)
next
  case PFinal
  have "ladder_of (final_fires p) = (escalated p, escalationTimer p, False, p_settled p, p_timedOut p \<or> p_aborted p,
      p_blows p @ (if p_settled p then [] else [ChildKill True]), p_outcome p)"
    by (simp add: ladder_of_def final_fires_def Let_def)
  with PFinal assms show ?thesis by (auto simp: ladder_inv_def ladder_of_def hd_append)
next
  case (PExit c sig elapsed)
  with finish_ladder [OF assms(1)] show ?thesis by simp
next
  case (PFail x elapsed)
  have "ladder_of (p\<lparr>p_stderr := slice_last 4096 (p_stderr p @ x)\<rparr>) = ladder_of p" by (simp add: ladder_of_def)
  with assms(1) have "ladder_inv o' (p\<lparr>p_stderr := slice_last 4096 (p_stderr p @ x)\<rparr>)" by (simp add: ladder_inv_def)
  from finish_ladder [OF this] PFail show ?thesis by (simp add: on_error_def)
qed

interpretation proc_run: stepwise "proc_step o' throws" "\<lambda>_ _. True" "\<lambda>p. po_pid o' \<and> po_graceMs o' \<noteq> 0 \<and> ladder_inv o' p" for o' throws
  by unfold_locales (blast intro: proc_step_ladder)

subsection \<open>Captured output\<close>

lemma slice_last_cong: "slice_last n xs = slice_last n ys \<Longrightarrow> slice_last n (xs @ zs) = slice_last n (ys @ zs)"
proof -
  have "slice_last n (us @ zs) = slice_last n (slice_last n us @ zs)" for us
    by (cases "n \<le> length us") (auto simp: slice_last_def add.commute)
  then show "slice_last n xs = slice_last n ys \<Longrightarrow> slice_last n (xs @ zs) = slice_last n (ys @ zs)" by metis
qed

lemma slice_last_nested: "n \<le> m \<Longrightarrow> slice_last n (slice_last m xs) = slice_last n xs"
proof -
  assume "n \<le> m"
  then have "length xs - (length xs - m + n) + (length xs - m) = length xs - n" by arith
  then show ?thesis by (simp add: slice_last_def)
qed

text \<open>What the events so far wrote, consumer errors included.\<close>

fun out_text :: "proc_event \<Rightarrow> string" where
  "out_text (PChunk c) = c"
| "out_text _ = []"

fun err_text :: "(string \<Rightarrow> string option) \<Rightarrow> proc_event \<Rightarrow> string" where
  "err_text throws (PChunk c) = (case throws c of None \<Rightarrow> [] | Some e \<Rightarrow> ''[onChunk] '' @ e)"
| "err_text throws (PErr c) = c"
| "err_text throws _ = []"

fun is_end :: "proc_event \<Rightarrow> bool" where
  "is_end (PExit c sig t) = True"
| "is_end (PFail x t) = True"
| "is_end _ = False"

definition captured :: "string \<Rightarrow> string \<Rightarrow> process \<Rightarrow> bool" where
  "captured out err p \<longleftrightarrow> stdoutHead p = take HEAD_KEEP out \<and> slice_last TAIL_KEEP (stdoutTail p) = slice_last TAIL_KEEP out \<and>
     stdoutTotal p = length out \<and> slice_last 4096 (p_stderr p) = slice_last 4096 err \<and> p_pending p = []"

text \<open>Timers, signals and the watchdog leave the capture alone.\<close>

definition capture_of :: "process \<Rightarrow> string \<times> string \<times> nat \<times> string \<times> string" where
  "capture_of p = (stdoutHead p, stdoutTail p, stdoutTotal p, p_stderr p, p_pending p)"

lemma captured_cong: "capture_of p = capture_of q \<Longrightarrow> captured out err p = captured out err q"
  by (simp add: capture_of_def captured_def)

lemma capture_kill [simp]:
  "capture_of (killTree o' force p) = capture_of p" "capture_of (sendKill o' force p) = capture_of p" "capture_of (refreshWatchdog o' p) = capture_of p"
  by (simp_all add: capture_of_def killTree_def sendKill_def refreshWatchdog_def Let_def)

lemma capture_flags [simp]:
  "capture_of (p\<lparr>watchdog := a\<rparr>) = capture_of p" "capture_of (p\<lparr>p_timedOut := a\<rparr>) = capture_of p" "capture_of (p\<lparr>p_aborted := a\<rparr>) = capture_of p"
  "capture_of (p\<lparr>listening := a\<rparr>) = capture_of p" "capture_of (p\<lparr>escalationTimer := a\<rparr>) = capture_of p"
  "capture_of (p\<lparr>finalKillTimer := a\<rparr>) = capture_of p" "capture_of (p\<lparr>p_blows := bs\<rparr>) = capture_of p" "capture_of (p\<lparr>p_settled := a\<rparr>) = capture_of p"
  by (simp_all add: capture_of_def)

lemma other_capture: "out_text e = [] \<Longrightarrow> err_text throws e = [] \<Longrightarrow> \<not> is_end e \<Longrightarrow> \<nexists>c. e = PChunk c \<or> e = PErr c \<Longrightarrow>
   capture_of (proc_step o' throws p e) = capture_of p"
  by (cases e) (simp_all add: watchdog_fires_def onAbort_def request_kill_def escalation_fires_def final_fires_def Let_def)

text \<open>Appending to a tail that is trimmed now and then.\<close>

lemma trimmed_append:
  assumes "slice_last n t = slice_last n out" "n \<le> m"
  shows "slice_last n (if length (t @ c) > m then slice_last m (t @ c) else t @ c) = slice_last n (out @ c)"
  using slice_last_cong [OF assms(1), of c] slice_last_nested [OF assms(2), of "t @ c"] by simp

lemma captured_call:
  assumes "captured out err p"
  shows "captured out (err @ (case throws x of None \<Rightarrow> [] | Some e \<Rightarrow> tag @ e)) (safe_call tag throws x p)"
proof (cases "throws x")
  case None
  then show ?thesis using assms by (simp add: captured_def safe_call_def)
next
  case (Some e)
  from assms have "slice_last 4096 (p_stderr p) = slice_last 4096 err" by (simp add: captured_def)
  from slice_last_cong [OF this, of "tag @ e"] Some assms show ?thesis
    by (simp add: captured_def safe_call_def slice_last_nested)
qed

lemma captured_chunk:
  assumes "captured out err p" "po_chunked o'"
  shows "captured (out @ c) (err @ err_text throws (PChunk c)) (on_stdout o' throws c p)"
proof -
  let ?p = "refreshWatchdog o' p"
  let ?tail = "stdoutTail ?p @ c"
  let ?q = "?p\<lparr>stdoutTotal := stdoutTotal ?p + length c,
    stdoutHead := (if length (stdoutHead ?p) < HEAD_KEEP then take HEAD_KEEP (stdoutHead ?p @ c) else stdoutHead ?p),
    stdoutTail := (if length ?tail > TAIL_KEEP * 2 then slice_last (TAIL_KEEP * 2) ?tail else ?tail)\<rparr>"
  have "captured out err ?p" using assms(1) captured_cong [of ?p p] by simp
  then have "stdoutHead ?q = take HEAD_KEEP (out @ c)" "slice_last TAIL_KEEP (stdoutTail ?q) = slice_last TAIL_KEEP (out @ c)"
    "stdoutTotal ?q = length (out @ c)" "p_stderr ?q = p_stderr ?p" "p_pending ?q = p_pending ?p"
    using trimmed_append [of TAIL_KEEP "stdoutTail ?p" out "TAIL_KEEP * 2" c] by (auto simp: captured_def take_append min_def)
  with \<open>captured out err ?p\<close> have "captured (out @ c) err ?q" by (simp add: captured_def)
  from captured_call [OF this] show ?thesis using assms(2) by (simp add: on_stdout_def Let_def)
qed

lemma captured_err:
  assumes "captured out err p"
  shows "captured out (err @ c) (on_stderr o' c p)"
proof -
  have "captured out err (refreshWatchdog o' p)" using assms captured_cong [of "refreshWatchdog o' p" p] by simp
  then show ?thesis
    using trimmed_append [of 4096 "p_stderr (refreshWatchdog o' p)" err 8192 c] by (simp add: captured_def on_stderr_def Let_def)
qed

definition chunks_of :: "proc_event list \<Rightarrow> string list" where
  "chunks_of es = concat (map (\<lambda>e. case e of PChunk c \<Rightarrow> [c] | _ \<Rightarrow> []) es)"

text \<open>Whether the process has settled, and what the consumer was called with.\<close>

definition call_log :: "process \<Rightarrow> bool \<times> string list" where
  "call_log p = (p_settled p, p_calls p)"

lemma calls_kill [simp]:
  "call_log (killTree o' force p) = call_log p" "call_log (sendKill o' force p) = call_log p" "call_log (refreshWatchdog o' p) = call_log p"
  by (simp_all add: call_log_def killTree_def sendKill_def refreshWatchdog_def Let_def)

lemma calls_step:
  assumes "\<not> is_end e" "po_chunked o'"
  shows "call_log (proc_step o' throws p e) = (p_settled p, p_calls p @ chunks_of [e])"
proof -
  have w: "p_settled (refreshWatchdog o' p) = p_settled p" "p_calls (refreshWatchdog o' p) = p_calls p"
    using calls_kill(3) [of o' p] by (simp_all add: call_log_def)
  have k: "p_settled (killTree o' f q) = p_settled q" "p_calls (killTree o' f q) = p_calls q"
    "p_settled (sendKill o' f q) = p_settled q" "p_calls (sendKill o' f q) = p_calls q" for f q
    using calls_kill(1,2) [of o' f q] by (simp_all add: call_log_def)
  show ?thesis
    using assms by (cases e) (auto simp: call_log_def chunks_of_def on_stdout_def on_stderr_def safe_call_def Let_def w k
        watchdog_fires_def onAbort_def request_kill_def escalation_fires_def final_fires_def split: option.splits)
qed

lemma captured_step:
  assumes "captured out err p" "po_chunked o'" "\<not> is_end e"
  shows "captured (out @ out_text e) (err @ err_text throws e) (proc_step o' throws p e)"
proof (cases "\<exists>c. e = PChunk c \<or> e = PErr c")
  case True
  then show ?thesis using captured_chunk [OF assms(1,2)] captured_err [OF assms(1)] by fastforce
next
  case False
  then have "out_text e = []" "err_text throws e = []" by (cases e; simp)+
  with other_capture [OF this assms(3) False, of o' p] captured_cong assms(1) show ?thesis by (metis append_Nil2)
qed

lemma captured_run:
  "captured out err p \<Longrightarrow> po_chunked o' \<Longrightarrow> \<not> list_ex is_end es \<Longrightarrow>
     captured (out @ concat (map out_text es)) (err @ concat (map (err_text throws) es)) (foldl (proc_step o' throws) p es) \<and>
     call_log (foldl (proc_step o' throws) p es) = (p_settled p, p_calls p @ chunks_of es)"
proof (induction es arbitrary: out err p)
  case Nil
  then show ?case by (simp add: call_log_def chunks_of_def)
next
  case (Cons e es)
  then have e: "\<not> is_end e" "\<not> list_ex is_end es" by simp_all
  from Cons.IH [OF captured_step [OF Cons.prems(1,2) e(1)] Cons.prems(2) e(2)] calls_step [OF e(1) Cons.prems(2), of throws p]
  show ?case by (simp add: call_log_def chunks_of_def)
qed

text \<open>Without a chunk consumer the lines handed over do not depend on how the output was cut.\<close>

lemma index_of_nl_append: "index_of xs nl = Some i \<Longrightarrow> index_of (xs @ ys) nl = Some i"
  by (induction xs arbitrary: i) (auto simp: nl_def split: if_splits)

lemma take_lines_append:
  "take_lines (a @ b) = (let (ls, r) = take_lines a; (ms, q) = take_lines (r @ b) in (ls @ ms, q))"
proof (induction a rule: take_lines.induct)
  case (1 a)
  show ?case
  proof (cases "index_of a nl")
    case None
    then show ?thesis by (subst (2) take_lines.simps) (simp split: prod.splits)
  next
    case (Some i)
    then have "i < length a" by (auto simp: nl_def dest!: index_of_Some) (cases "i = length a", auto)
    with 1 [OF Some] Some index_of_nl_append [OF Some, of b] show ?thesis
      by (subst (1 2) take_lines.simps) (auto split: prod.splits)
  qed
qed

lemma calls_foldl:
  "p_calls (foldl (\<lambda>p l. safe_call tag throws l p) p ls) = p_calls p @ ls \<and> p_pending (foldl (\<lambda>p l. safe_call tag throws l p) p ls) = p_pending p"
  by (induction ls arbitrary: p) (simp_all add: safe_call_def Let_def split: option.splits)

lemma on_stdout_lines:
  assumes "\<not> po_chunked o'"
  shows "(p_calls (on_stdout o' throws c q), p_pending (on_stdout o' throws c q)) =
    (let (ls, rest) = take_lines (p_pending q @ c) in (p_calls q @ ls, rest))"
proof -
  have "p_calls (refreshWatchdog o' q) = p_calls q" "p_pending (refreshWatchdog o' q) = p_pending q"
    by (simp_all add: refreshWatchdog_def)
  with assms show ?thesis by (auto simp: on_stdout_def calls_foldl Let_def split: prod.splits)
qed

lemma lines_exact:
  assumes "\<not> po_chunked o'" "take_lines (p_pending p) = ([], p_pending p)"
  shows "(p_calls (foldl (\<lambda>p c. on_stdout o' throws c p) p cs), p_pending (foldl (\<lambda>p c. on_stdout o' throws c p) p cs)) =
    (let (ls, rest) = take_lines (p_pending p @ concat cs) in (p_calls p @ ls, rest))"
proof (induction cs rule: rev_induct)
  case Nil
  then show ?case using assms(2) by simp
next
  case (snoc c cs)
  let ?q = "foldl (\<lambda>p c. on_stdout o' throws c p) p cs"
  note on_stdout_lines [OF assms(1), of throws c ?q]
  with snoc take_lines_append [of "p_pending p @ concat cs" c] show ?case by (auto split: prod.splits)
qed

definition excerpt :: "string \<Rightarrow> string" where
  "excerpt out = (if length out \<le> HEAD_KEEP then out else take HEAD_KEEP out @ slice_last TAIL_KEEP out)"

section \<open>Properties\<close>

text \<open>
  C13. The kill ladder. Once a run was timed out, aborted or killed and its process has not exited, the first signal sent was
  not forced, and when the ladder's timers fire the process group has been sent \<open>SIGKILL\<close> (the child where the group cannot be
  signalled, the tree through \<open>taskkill\<close> on Windows) and the child itself has been sent \<open>SIGKILL\<close>; this holds in every
  history of output, timers and repeated kill requests. An outcome, once there, never changes.
\<close>

theorem kill_ladder:
  assumes "po_pid o'" "0 < po_graceMs o'" "startAgyProcess o' bin = Inr p0" "p = foldl (proc_step o' throws) p0 es"
    and "p_timedOut p \<or> p_aborted p" "\<not> p_settled p" "p2 = foldl (proc_step o' throws) p [PEscalate, PFinal]"
  shows "\<not> forced (hd (p_blows p)) \<and> tree_blow o' True \<in> set (p_blows p2) \<and> ChildKill True \<in> set (p_blows p2)"
proof -
  have "ladder_of p0 = ladder_of new_process"
    using assms(3) ladder_of_watchdog by (auto simp: startAgyProcess_def split: if_splits)
  then have "ladder_inv o' p0" by (simp add: ladder_inv_def ladder_of_def new_process_def)
  with proc_run.run_inv [OF _ ok_run_True, of o' p0 throws es] assms(1,2,4) have i: "ladder_inv o' p" by simp
  with proc_run.run_inv [OF _ ok_run_True, of o' p throws "[PEscalate, PFinal]"] assms(1,2,7) have i2: "ladder_inv o' p2" by simp
  have esc: "escalated p2" "\<not> p_settled p2" "\<not> escalationTimer p2" "\<not> finalKillTimer p2"
    using i assms(5,6) unfolding assms(7) by (auto simp: ladder_inv_def ladder_of_def escalation_fires_def final_fires_def sendKill_def Let_def)
  with i i2 assms(5,6) show ?thesis by (auto simp: ladder_inv_def ladder_of_def)
qed

definition demo_opts :: proc_opts where
  "demo_opts = \<lparr>po_win = False, po_chunked = True, po_timeoutMs = Some 1000, po_graceMs = GRACE_MS, po_pid = True, po_group = True\<rparr>"

theorem kill_ladder_witness:
  "\<exists>p. foldl (proc_step demo_opts (\<lambda>_. None)) (refreshWatchdog demo_opts new_process) [PChunk ''x'', PWatchdog, PAbort, PEscalate, PFinal] = p \<and>
     GroupKill True \<in> set (p_blows p) \<and> ChildKill True \<in> set (p_blows p)"
proof -
  let ?st = "refreshWatchdog demo_opts new_process"
  let ?p = "foldl (proc_step demo_opts (\<lambda>_. None)) ?st [PChunk ''x'', PWatchdog, PAbort]"
  have s: "startAgyProcess demo_opts ''/usr/bin/agy'' = Inr ?st" by (simp add: startAgyProcess_def demo_opts_def)
  have "p_timedOut ?p \<or> p_aborted ?p" "\<not> p_settled ?p"
    by (simp_all add: on_stdout_def refreshWatchdog_def new_process_def demo_opts_def safe_call_def watchdog_fires_def killTree_def
        sendKill_def onAbort_def GRACE_MS_def HEAD_KEEP_def TAIL_KEEP_def)
  moreover have o': "po_pid demo_opts" "0 < po_graceMs demo_opts" "tree_blow demo_opts True = GroupKill True"
    by (simp_all add: demo_opts_def GRACE_MS_def tree_blow_def)
  ultimately show ?thesis using kill_ladder [OF o'(1,2) s refl _ _ refl, of "\<lambda>_. None" "[PChunk ''x'', PWatchdog, PAbort]"]
    by (simp add: o'(3) del: proc_step.simps)
qed

text \<open>
  Bounded capture is exact. With a chunk consumer, however the output is cut into chunks and whatever the timers, signals
  and a throwing consumer do meanwhile, the outcome carries the whole output when it fits the head window, else its first 4096
  and last 65536 characters, and the last 4096 characters of the error stream; the consumer was given every chunk, in order.
\<close>

lemma capture_exact:
  assumes "po_chunked o'" "startAgyProcess o' bin = Inr p0" "\<not> list_ex is_end es"
  shows "\<exists>out. p_outcome (foldl (proc_step o' throws) p0 (es @ [PExit c sig elapsed])) = Some out \<and> out_code out = c \<and>
    out_stdout out = excerpt (concat (map out_text es)) \<and> stderrTail out = slice_last 4096 (concat (map (err_text throws) es)) \<and>
    p_calls (foldl (proc_step o' throws) p0 (es @ [PExit c sig elapsed])) = chunks_of es"
proof -
  let ?p = "foldl (proc_step o' throws) p0 es"
  have p0: "p0 = refreshWatchdog o' new_process" using assms(2) by (auto simp: startAgyProcess_def split: if_splits)
  have "captured [] [] new_process" by (simp add: captured_def new_process_def slice_last_def)
  then have "captured [] [] p0" using captured_cong [of p0 new_process] by (simp add: p0)
  moreover have "call_log p0 = (False, [])" by (simp add: p0) (simp add: call_log_def new_process_def)
  ultimately have c: "captured (concat (map out_text es)) (concat (map (err_text throws) es)) ?p" "\<not> p_settled ?p" "p_calls ?p = chunks_of es"
    using captured_run [of "[]" "[]" p0 o' es throws] assms(1,3) by (auto simp: call_log_def)
  from c(1) have "p_pending ?p = []" by (simp add: captured_def)
  with c assms(1) show ?thesis by (auto simp: finish_proc_def disarmEscalation_def captured_def excerpt_def Let_def)
qed


end
