(* ===== verification/ModelRoutes.thy ===== *)
theory ModelRoutes
  imports Errors Settings Models
begin

text \<open>
  The model listing routes: \<open>src/server/models-routes.ts\<close>. The catalogue is the list of its entries; query values are
  the JSON values of the parsed query string; the ISO date of the fixed creation time is written out.
\<close>

section \<open>Entries\<close>

record openai_model =
  om_id :: string
  om_created :: nat
  om_owned_by :: string

record anthropic_model =
  am_id :: string
  am_display_name :: string
  am_created_at :: string

definition MODEL_CREATED :: nat where
  "MODEL_CREATED = 1767225600"

definition MODELS_PAGE_DEFAULT :: nat where
  "MODELS_PAGE_DEFAULT = 20"

definition MODELS_PAGE_MAX :: nat where
  "MODELS_PAGE_MAX = 1000"

definition toOpenAiEntries :: "catalog_entry list \<Rightarrow> openai_model list" where
  "toOpenAiEntries ms = map (\<lambda>m. \<lparr>om_id = entry_id m, om_created = MODEL_CREATED, om_owned_by = ''antigravity''\<rparr>) ms"

definition toAnthropicEntries :: "catalog_entry list \<Rightarrow> anthropic_model list" where
  "toAnthropicEntries ms =
     map (\<lambda>m. \<lparr>am_id = entry_id m, am_display_name = (if entry_name m \<noteq> [] then entry_name m else entry_id m),
               am_created_at = ''2026-01-01T00:00:00.000Z''\<rparr>) ms"

section \<open>Pages\<close>

record model_query =
  mq_limit :: "json option"
  mq_after :: "json option"
  mq_before :: "json option"

record 'a page =
  pg_data :: "'a list"
  first_id :: "string option"
  last_id :: "string option"
  has_more :: bool

definition page_limit :: "json option \<Rightarrow> http_error + nat" where
  "page_limit v =
     (case v of
        None \<Rightarrow> Inr MODELS_PAGE_DEFAULT
      | Some j \<Rightarrow>
          (case (case j of JStr s \<Rightarrow> js_number s | JNum n \<Rightarrow> Some n | _ \<Rightarrow> None) of
             Some n \<Rightarrow>
               if is_integer n \<and> n > 0 then Inr (min (nat \<lfloor>n\<rfloor>) MODELS_PAGE_MAX)
               else Inl (httpError 400 ''limit must be a positive integer'' ''invalid_request_error'' ''invalid_request'')
           | None \<Rightarrow> Inl (httpError 400 ''limit must be a positive integer'' ''invalid_request_error'' ''invalid_request'')))"

definition anchor :: "json option \<Rightarrow> string option" where
  "anchor v = (case v of Some (JStr s) \<Rightarrow> if s \<noteq> [] then Some s else None | _ \<Rightarrow> None)"

definition find_index :: "('a \<Rightarrow> bool) \<Rightarrow> 'a list \<Rightarrow> nat option" where
  "find_index P xs = (let i = length (takeWhile (\<lambda>x. \<not> P x) xs) in if i < length xs then Some i else None)"

definition page_bounds :: "('a \<Rightarrow> string) \<Rightarrow> 'a list \<Rightarrow> model_query \<Rightarrow> nat \<times> nat" where
  "page_bounds key entries q =
     ((case anchor (mq_after q) of
         None \<Rightarrow> 0
       | Some a \<Rightarrow> (case find_index (\<lambda>e. key e = a) entries of None \<Rightarrow> length entries | Some i \<Rightarrow> i + 1)),
      (case anchor (mq_before q) of
         None \<Rightarrow> length entries
       | Some b \<Rightarrow> or_else (find_index (\<lambda>e. key e = b) entries) 0))"

definition paginateModels :: "('a \<Rightarrow> string) \<Rightarrow> 'a list \<Rightarrow> model_query \<Rightarrow> http_error + 'a page" where
  "paginateModels key entries q =
     (case page_limit (mq_limit q) of
        Inl e \<Rightarrow> Inl e
      | Inr limit \<Rightarrow>
          (let (start, stp) = page_bounds key entries q;
               upto = (if start = 0 then min stp limit else min stp (start + limit));
               page = take (upto - start) (drop start entries);
               consumed = (if start = 0 then length page else start + length page);
               hasMore = (if length page > 0 then consumed < stp \<or> stp > start + length page else False)
           in Inr \<lparr>pg_data = page, first_id = (case page of [] \<Rightarrow> None | x # _ \<Rightarrow> Some (key x)),
                   last_id = (if page = [] then None else Some (key (last page))), has_more = (hasMore \<or> consumed < length entries)\<rparr>))"

section \<open>Routes\<close>

datatype models_reply =
    ModelsDisabled error_body
  | OpenAiList "openai_model list"
  | AnthropicPage "anthropic_model page"
  | OneModel openai_model
  | ModelMissing error_body

definition guard_models :: "gateway_config \<Rightarrow> error_body option" where
  "guard_models cfg = (if \<not> cfg_enabled cfg then Some (anthropicError ''api_error'' ''gateway is disabled by config (enabled=false)'' None) else None)"

definition get_models :: "gateway_config \<Rightarrow> catalog_entry list \<Rightarrow> string option \<Rightarrow> model_query \<Rightarrow> http_error + models_reply" where
  "get_models cfg ms version q =
     (case guard_models cfg of
        Some e \<Rightarrow> Inr (ModelsDisabled e)
      | None \<Rightarrow>
          (if or_else version [] \<noteq> []
           then (case paginateModels am_id (toAnthropicEntries ms) q of Inl e \<Rightarrow> Inl e | Inr p \<Rightarrow> Inr (AnthropicPage p))
           else Inr (OpenAiList (toOpenAiEntries ms))))"

definition get_anthropic_models :: "gateway_config \<Rightarrow> catalog_entry list \<Rightarrow> model_query \<Rightarrow> http_error + models_reply" where
  "get_anthropic_models cfg ms q =
     (case guard_models cfg of
        Some e \<Rightarrow> Inr (ModelsDisabled e)
      | None \<Rightarrow> (case paginateModels am_id (toAnthropicEntries ms) q of Inl e \<Rightarrow> Inl e | Inr p \<Rightarrow> Inr (AnthropicPage p)))"

definition get_model :: "gateway_config \<Rightarrow> catalog_entry list \<Rightarrow> string \<Rightarrow> models_reply" where
  "get_model cfg ms i =
     (case guard_models cfg of
        Some e \<Rightarrow> ModelsDisabled e
      | None \<Rightarrow>
          (case find (\<lambda>m. entry_id m = i) ms of
             None \<Rightarrow> ModelMissing (err_body (httpError 404 (''model '' @ squote i @ '' was not found'') ''invalid_request_error'' ''model_not_found''))
           | Some m \<Rightarrow> OneModel \<lparr>om_id = entry_id m, om_created = MODEL_CREATED, om_owned_by = ''antigravity''\<rparr>))"

section \<open>Walking the pages\<close>

text \<open>A client that asks for the page after the last id it saw until \<open>has_more\<close> is false; \<open>None\<close>: out of fuel or refused.\<close>

fun walk :: "('a \<Rightarrow> string) \<Rightarrow> 'a list \<Rightarrow> json option \<Rightarrow> nat \<Rightarrow> string option \<Rightarrow> 'a list list option" where
  "walk key entries limit 0 cur = None"
| "walk key entries limit (Suc fuel) cur =
     (case paginateModels key entries \<lparr>mq_limit = limit, mq_after = map_option JStr cur, mq_before = None\<rparr> of
        Inl e \<Rightarrow> None
      | Inr p \<Rightarrow> if has_more p then map_option (\<lambda>ps. pg_data p # ps) (walk key entries limit fuel (last_id p)) else Some [pg_data p])"

lemma find_index_nth:
  assumes "distinct (map key xs)" "i < length xs"
  shows "find_index (\<lambda>e. key e = key (xs ! i)) xs = Some i"
proof -
  have "length (takeWhile (\<lambda>x. key x \<noteq> key (xs ! i)) xs) = i"
    using assms by (intro length_takeWhile_first) (auto simp: distinct_conv_nth)
  then show ?thesis using assms(2) by (simp add: find_index_def)
qed

text \<open>The page that starts at position \<open>i\<close>.\<close>

lemma paginate_after:
  assumes "page_limit limit = Inr n" "page_bounds key entries \<lparr>mq_limit = limit, mq_after = cur, mq_before = None\<rparr> = (i, length entries)" "i \<le> length entries"
  shows "\<exists>p. paginateModels key entries \<lparr>mq_limit = limit, mq_after = cur, mq_before = None\<rparr> = Inr p \<and> pg_data p = take n (drop i entries) \<and>
    (has_more p \<longleftrightarrow> i + n < length entries) \<and> last_id p = (if take n (drop i entries) = [] then None else Some (key (last (take n (drop i entries)))))"
proof -
  have pg: "take ((if i = 0 then min (length entries) n else min (length entries) (i + n)) - i) (drop i entries) = take n (drop i entries)"
    by (auto simp: min_def take_all)
  show ?thesis
    unfolding paginateModels_def assms(1) model_query.simps sum.case assms(2) Let_def prod.case pg
    by (rule exI, rule conjI [OF refl]) (use assms(3) in \<open>auto simp: min_def\<close>)
qed

lemma page_limit_pos: "page_limit v = Inr n \<Longrightarrow> 0 < n"
proof -
  have "0 < \<lfloor>r\<rfloor>" if "is_integer r" "0 < r" for r :: rat
  proof -
    from that have "(of_int \<lfloor>r\<rfloor> :: rat) > 0" unfolding is_integer_def by (simp only:)
    then show ?thesis by (simp only: of_int_0_less_iff)
  qed
  then show "page_limit v = Inr n \<Longrightarrow> 0 < n"
    unfolding page_limit_def MODELS_PAGE_DEFAULT_def MODELS_PAGE_MAX_def
    by (fastforce simp del: zero_less_floor simp: min_def split: option.splits json.splits if_splits)
qed

lemma bounds_cursor:
  assumes "distinct (map key entries)" "\<forall>e \<in> set entries. key e \<noteq> []" "i < length entries"
  shows "page_bounds key entries \<lparr>mq_limit = limit, mq_after = map_option JStr (Some (key (entries ! i))), mq_before = None\<rparr> = (i + 1, length entries)"
  using assms find_index_nth [OF assms(1,3)] by (auto simp: page_bounds_def anchor_def)

lemma walk_from:
  assumes "distinct (map key entries)" "\<forall>e \<in> set entries. key e \<noteq> []" "page_limit limit = Inr n"
  shows "page_bounds key entries \<lparr>mq_limit = limit, mq_after = map_option JStr cur, mq_before = None\<rparr> = (i, length entries) \<Longrightarrow>
    i \<le> length entries \<Longrightarrow> length entries - i < fuel \<Longrightarrow>
    \<exists>ps. walk key entries limit fuel cur = Some ps \<and> concat ps = drop i entries \<and> list_all (\<lambda>p. length p \<le> n) ps"
proof (induction fuel arbitrary: i cur)
  case (Suc fuel)
  have n: "0 < n" using page_limit_pos [OF assms(3)] .
  from paginate_after [OF assms(3) Suc.prems(1,2)] obtain p where
    p: "paginateModels key entries \<lparr>mq_limit = limit, mq_after = map_option JStr cur, mq_before = None\<rparr> = Inr p"
      "pg_data p = take n (drop i entries)" "has_more p \<longleftrightarrow> i + n < length entries"
      "last_id p = (if take n (drop i entries) = [] then None else Some (key (last (take n (drop i entries)))))" by blast
  show ?case
  proof (cases "i + n < length entries")
    case True
    with n have "last (take n (drop i entries)) = entries ! (i + n - 1)" "take n (drop i entries) \<noteq> []"
      by (auto simp: last_conv_nth nth_append min_def)
    with p(4) have l: "last_id p = Some (key (entries ! (i + n - 1)))" by simp
    have j: "page_bounds key entries \<lparr>mq_limit = limit, mq_after = map_option JStr (last_id p), mq_before = None\<rparr> = (i + n, length entries)"
      using bounds_cursor [OF assms(1,2), of "i + n - 1" limit] True n unfolding l by simp
    from Suc.IH [OF j] True n Suc.prems obtain ps where
      "walk key entries limit fuel (last_id p) = Some ps" "concat ps = drop (i + n) entries" "list_all (\<lambda>p. length p \<le> n) ps"
      by fastforce
    moreover have "take n (drop i entries) @ drop (i + n) entries = drop i entries"
      using append_take_drop_id [of n "drop i entries"] by (simp add: add.commute)
    ultimately show ?thesis using p True by simp
  next
    case False
    with p show ?thesis by auto
  qed
qed simp

text \<open>
  Following \<open>last_id\<close> from page to page lists the whole catalogue: for every accepted limit, the walk ends, its pages put
  together are the entries in order, each once, and no page is longer than the limit.
\<close>

lemma pages_cover:
  assumes "distinct (map key entries)" "\<forall>e \<in> set entries. key e \<noteq> []" "page_limit limit = Inr n"
  shows "\<exists>ps. walk key entries limit (Suc (length entries)) None = Some ps \<and> concat ps = entries \<and> list_all (\<lambda>p. length p \<le> n) ps"
  using walk_from [OF assms, of None 0 "Suc (length entries)"] by (simp add: page_bounds_def anchor_def)


text \<open>With \<open>before_id\<close> the flag does not say whether more entries precede it: an unknown id gives an empty page that claims more.\<close>

lemma unknown_before_claims_more:
  assumes "page_limit limit = Inr n" "entries \<noteq> []" "b \<notin> key ` set entries" "b \<noteq> []"
  shows "\<exists>p. paginateModels key entries \<lparr>mq_limit = limit, mq_after = None, mq_before = Some (JStr b)\<rparr> = Inr p \<and> pg_data p = [] \<and> has_more p"
proof -
  have "find_index (\<lambda>e. key e = b) entries = None" 
  proof -
    have "takeWhile (\<lambda>x. \<not> key x = b) entries = entries" unfolding takeWhile_eq_all_conv using assms(3) by auto
    then show ?thesis unfolding find_index_def by (simp only: Let_def) simp
  qed
  with assms show ?thesis by (simp add: paginateModels_def page_bounds_def anchor_def)
qed

end
