(* ===== verification/Dates.thy ===== *)
theory Dates
  imports Json
begin

text \<open>
  The part of JavaScript's \<open>Date\<close> that token files rest on: the proleptic Gregorian calendar of
  ECMA-262 (\<open>DayFromYear\<close> and its inverse), \<open>Date.prototype.toISOString\<close>, \<open>formatLocalIso\<close> of
  \<open>src/host/oauth.ts\<close>, and the date-time string format every \<open>Date.parse\<close> accepts. Times are
  integral milliseconds since the epoch; the local time zone is a function from instants to its
  offset in minutes.
\<close>

section \<open>The calendar\<close>

definition day_from_year :: "int \<Rightarrow> int" where
  "day_from_year y = 365 * (y - 1970) + (y - 1969) div 4 - (y - 1901) div 100 + (y - 1601) div 400"

definition year_from_day :: "int \<Rightarrow> int" where
  "year_from_day d =
     (let y = 1970 + (400 * d) div 146097
      in if day_from_year (y + 1) \<le> d then y + 1 else if d < day_from_year y then y - 1 else y)"

definition leap_year :: "int \<Rightarrow> bool" where
  "leap_year y = (4 dvd y \<and> (\<not> 100 dvd y \<or> 400 dvd y))"

definition month_starts :: "int \<Rightarrow> int list" where
  "month_starts y = (let l = (if leap_year y then 1 else 0)
     in [0, 31, 59 + l, 90 + l, 120 + l, 151 + l, 181 + l, 212 + l, 243 + l, 273 + l, 304 + l, 334 + l, 365 + l])"

text \<open>The zero-based month of a day of the year.\<close>

definition month_from_day :: "int \<Rightarrow> int \<Rightarrow> nat" where
  "month_from_day y d = length (takeWhile (\<lambda>s. s \<le> d) (tl (month_starts y)))"

record date_fields =
  year :: int
  month :: nat
  day_of_month :: nat
  hours :: nat
  minutes :: nat
  seconds :: nat
  millis :: nat

definition fields_of :: "int \<Rightarrow> date_fields" where
  "fields_of t =
     (let d = t div 86400000; r = t mod 86400000; y = year_from_day d; k = d - day_from_year y; mo = month_from_day y k
      in \<lparr>year = y, month = mo + 1, day_of_month = nat (k - month_starts y ! mo + 1),
          hours = nat (r div 3600000), minutes = nat (r div 60000 mod 60), seconds = nat (r div 1000 mod 60),
          millis = nat (r mod 1000)\<rparr>)"

definition time_of :: "date_fields \<Rightarrow> int" where
  "time_of f = (day_from_year (year f) + month_starts (year f) ! (month f - 1) + int (day_of_month f) - 1) * 86400000
     + int (hours f) * 3600000 + int (minutes f) * 60000 + int (seconds f) * 1000 + int (millis f)"

definition fields_ok :: "date_fields \<Rightarrow> bool" where
  "fields_ok f = (1 \<le> month f \<and> month f \<le> 12 \<and> 1 \<le> day_of_month f \<and>
     int (day_of_month f) \<le> month_starts (year f) ! month f - month_starts (year f) ! (month f - 1) \<and>
     hours f < 24 \<and> minutes f < 60 \<and> seconds f < 60 \<and> millis f < 1000)"

lemma div_lower: "x div k * k \<le> x" if "0 < k" for x k :: int
  using that pos_mod_sign [of k x] div_mult_mod_eq [of x k] by linarith

lemma div_upper: "x < x div k * k + k" if "0 < k" for x k :: int
  using that pos_mod_bound [of k x] div_mult_mod_eq [of x k] by linarith

lemma day_from_year_near:
  "146097 * (y - 1970) \<le> 400 * day_from_year y + 799" "400 * day_from_year y \<le> 146097 * (y - 1970) + 800"
proof -
  define a b c where "a = (y - 1969) div 4" and "b = (y - 1901) div 100" and "c = (y - 1601) div 400"
  have "a * 4 \<le> y - 1969" "y - 1969 < a * 4 + 4" "b * 100 \<le> y - 1901" "y - 1901 < b * 100 + 100"
    "c * 400 \<le> y - 1601" "y - 1601 < c * 400 + 400"
    unfolding a_def b_def c_def by (rule div_lower div_upper; simp)+
  moreover have "day_from_year y = 365 * (y - 1970) + a - b + c"
    by (simp add: day_from_year_def a_def b_def c_def)
  ultimately show "146097 * (y - 1970) \<le> 400 * day_from_year y + 799" "400 * day_from_year y \<le> 146097 * (y - 1970) + 800"
    unfolding right_diff_distrib by linarith+
qed

lemma year_from_day_spec: "day_from_year (year_from_day d) \<le> d \<and> d < day_from_year (year_from_day d + 1)"
proof -
  define q where "q = (400 * d) div 146097"
  have b: "q * 146097 \<le> 400 * d" "400 * d < q * 146097 + 146097"
    unfolding q_def by (rule div_lower div_upper; simp)+
  have "d < day_from_year (1970 + q + 2)" "day_from_year (1970 + q - 1) \<le> d"
    using b day_from_year_near [of "1970 + q + 2"] day_from_year_near [of "1970 + q - 1"] unfolding right_diff_distrib distrib_left by linarith+
  then show ?thesis
    by (auto simp: year_from_day_def Let_def q_def [symmetric] add.assoc)
qed

lemma div_step:
  fixes x k :: int
  assumes "1 < k"
  shows "(x + 1) div k = x div k + (if k dvd x + 1 then 1 else 0)"
proof (cases "k dvd x + 1")
  case True
  then obtain m where m: "x + 1 = k * m" by (auto elim: dvdE)
  then have "x = k * (m - 1) + (k - 1)" by (simp add: algebra_simps)
  then have "x div k = m - 1" using assms by simp
  with m True assms show ?thesis by simp
next
  case False
  have "x mod k + 1 < k"
  proof (rule ccontr)
    assume "\<not> x mod k + 1 < k"
    with assms pos_mod_bound [of k x] have "x mod k + 1 = k" by linarith
    then have "x + 1 = k * (x div k + 1)" using mult_div_mod_eq [of k x] unfolding distrib_left by linarith
    with False show False by simp
  qed
  moreover have "x + 1 = k * (x div k) + (x mod k + 1)" by simp
  moreover have "0 \<le> x mod k + 1" using assms pos_mod_sign [of k x] by linarith
  ultimately have "(x + 1) div k = x div k"
    by (metis int_div_pos_eq)
  with False show ?thesis by simp
qed

lemma year_length: "day_from_year (y + 1) - day_from_year y = month_starts y ! 12"
proof -
  have s: "(y - 1968) div 4 = (y - 1969) div 4 + (if 4 dvd y - 1968 then 1 else 0)"
    "(y - 1900) div 100 = (y - 1901) div 100 + (if 100 dvd y - 1900 then 1 else 0)"
    "(y - 1600) div 400 = (y - 1601) div 400 + (if 400 dvd y - 1600 then 1 else 0)"
    using div_step [of 4 "y - 1969"] div_step [of 100 "y - 1901"] div_step [of 400 "y - 1601"] by simp_all
  have d: "4 dvd y - 1968 \<longleftrightarrow> 4 dvd y" "100 dvd y - 1900 \<longleftrightarrow> 100 dvd y" "400 dvd y - 1600 \<longleftrightarrow> 400 dvd y"
    using dvd_add_left_iff [of 4 "- 1968" y] dvd_add_left_iff [of 100 "- 1900" y] dvd_add_left_iff [of 400 "- 1600" y]
    by simp_all
  have i: "400 dvd y \<Longrightarrow> 100 dvd y" "100 dvd y \<Longrightarrow> 4 dvd y"
    using dvd_trans [of 100 400 y] dvd_trans [of 4 100 y] by simp_all
  have "day_from_year (y + 1) - day_from_year y =
      365 + (if 4 dvd y then 1 else 0) - (if 100 dvd y then 1 else 0) + (if 400 dvd y then 1 else 0)"
    unfolding day_from_year_def using s unfolding d by simp
  with i show ?thesis by (auto simp: month_starts_def leap_year_def)
qed

lemma month_from_day_spec:
  assumes "0 \<le> k" "k < month_starts y ! 12"
  shows "month_from_day y k < 12" "month_starts y ! month_from_day y k \<le> k" "k < month_starts y ! Suc (month_from_day y k)"
  using assms by (auto simp: month_from_day_def month_starts_def Let_def split: if_splits)

lemma month_length: "m < 12 \<Longrightarrow> month_starts y ! Suc m - month_starts y ! m \<le> 31"
proof -
  assume "m < 12"
  moreover have "list_all (\<lambda>m. month_starts y ! Suc m - month_starts y ! m \<le> 31) [0..<12]"
    by (simp add: month_starts_def Let_def upt_rec [of _ "numeral _"])
  ultimately show ?thesis by (simp add: list_all_iff)
qed

lemma mixed_radix:
  fixes a b c e s f r :: int
  shows "a * 60 + b = c \<Longrightarrow> c * 60 + e = s \<Longrightarrow> s * 1000 + f = r \<Longrightarrow> a * 3600000 + b * 60000 + e * 1000 + f = r"
  by linarith

lemma day_parts:
  fixes r :: int
  shows "r div 3600000 * 3600000 + r div 60000 mod 60 * 60000 + r div 1000 mod 60 * 1000 + r mod 1000 = r"
proof -
  have "r div 60000 = r div 1000 div 60" "r div 3600000 = r div 60000 div 60"
    using zdiv_zmult2_eq [of 60 r 1000] zdiv_zmult2_eq [of 60 r 60000] by simp_all
  then show ?thesis
    by (metis mixed_radix div_mult_mod_eq)
qed

lemma fields_of_eqs:
  assumes "d = t div 86400000" "r = t mod 86400000" "y = year_from_day d" "k = d - day_from_year y" "m = month_from_day y k"
  shows "year (fields_of t) = y" "month (fields_of t) = m + 1" "day_of_month (fields_of t) = nat (k - month_starts y ! m + 1)"
    "hours (fields_of t) = nat (r div 3600000)" "minutes (fields_of t) = nat (r div 60000 mod 60)"
    "seconds (fields_of t) = nat (r div 1000 mod 60)" "millis (fields_of t) = nat (r mod 1000)"
  unfolding fields_of_def Let_def assms by (simp_all only: date_fields.simps)

lemma fields_roundtrip: "time_of (fields_of t) = t" and fields_of_ok: "fields_ok (fields_of t)"
proof -
  obtain d r where dr: "d = t div 86400000" "r = t mod 86400000" by blast
  obtain y k m where ykm: "y = year_from_day d" "k = d - day_from_year y" "m = month_from_day y k" by blast
  note f = fields_of_eqs [OF dr ykm]
  have t: "d * 86400000 + r = t" unfolding dr by (rule div_mult_mod_eq)
  have r: "0 \<le> r" "r < 86400000" unfolding dr by simp_all
  have k: "0 \<le> k" "k < month_starts y ! 12"
    using year_from_day_spec [of d] year_length [of y] unfolding ykm(1,2) by linarith+
  note m = month_from_day_spec [OF k, folded ykm(3)]
  have p: "0 \<le> r div 3600000" "0 \<le> r div 60000 mod 60" "0 \<le> r div 1000 mod 60" "0 \<le> r mod 1000"
    using r by (simp_all add: pos_imp_zdiv_nonneg_iff)
  have u: "r div 3600000 < 24" "r div 60000 mod 60 < 60" "r div 1000 mod 60 < 60" "r mod 1000 < 1000"
    using r by simp_all
  have dm: "int (day_of_month (fields_of t)) = k - month_starts y ! m + 1" using m(2) unfolding f(3) by simp
  have ints: "int (hours (fields_of t)) = r div 3600000" "int (minutes (fields_of t)) = r div 60000 mod 60"
    "int (seconds (fields_of t)) = r div 1000 mod 60" "int (millis (fields_of t)) = r mod 1000"
    unfolding f using p by (simp_all only: int_nat_eq if_True)
  have "month_starts y ! (month (fields_of t) - 1) = month_starts y ! m" by (simp add: f(2))
  then have "time_of (fields_of t) = d * 86400000 + (r div 3600000 * 3600000 + r div 60000 mod 60 * 60000 +
      r div 1000 mod 60 * 1000 + r mod 1000)"
    unfolding time_of_def f(1) dm ints ykm(2) by (simp only: add.assoc) simp
  then show "time_of (fields_of t) = t" unfolding day_parts t .
  have "hours (fields_of t) < 24" "minutes (fields_of t) < 60" "seconds (fields_of t) < 60" "millis (fields_of t) < 1000"
    using u ints by linarith+
  moreover have "1 \<le> day_of_month (fields_of t)" using dm m(2) by linarith
  moreover have "1 \<le> month (fields_of t)" "month (fields_of t) \<le> 12" using f(2) m(1) by linarith+
  moreover have "int (day_of_month (fields_of t)) \<le> month_starts y ! Suc m - month_starts y ! m"
    unfolding dm using m(3) by linarith
  ultimately show "fields_ok (fields_of t)" unfolding fields_ok_def by (simp add: f(1,2))
qed

section \<open>Date strings\<close>

text \<open>\<open>String(n).padStart(w, '0')\<close>.\<close>

definition pad :: "nat \<Rightarrow> nat \<Rightarrow> string" where
  "pad w n = replicate (w - length (show_nat n)) (CHR ''0'') @ show_nat n"

definition show_fields :: "string \<Rightarrow> date_fields \<Rightarrow> string" where
  "show_fields y f = y @ ''-'' @ pad 2 (month f) @ ''-'' @ pad 2 (day_of_month f) @ ''T'' @
     pad 2 (hours f) @ '':'' @ pad 2 (minutes f) @ '':'' @ pad 2 (seconds f) @ ''.'' @ pad 3 (millis f)"

definition formatLocalIso :: "(int \<Rightarrow> int) \<Rightarrow> int \<Rightarrow> string" where
  "formatLocalIso tz t =
     (let offMin = tz t; a = nat \<bar>offMin\<bar>;
          f = fields_of (t + offMin * 60000)
      in show_fields (show_int (year f)) f @ (if offMin \<ge> 0 then ''+'' else ''-'') @
         pad 2 (a div 60) @ '':'' @ pad 2 (a mod 60))"

definition iso_year :: "int \<Rightarrow> string" where
  "iso_year y = (if 0 \<le> y \<and> y \<le> 9999 then pad 4 (nat y) else (if y < 0 then ''-'' else ''+'') @ pad 6 (nat \<bar>y\<bar>))"

text \<open>\<open>toISOString\<close> throws outside the range of \<open>Date\<close>.\<close>

definition toISOString :: "int \<Rightarrow> string option" where
  "toISOString t =
     (if \<bar>t\<bar> \<le> 8640000000000000 then Some (show_fields (iso_year (year (fields_of t))) (fields_of t) @ ''Z'') else None)"

definition take_num :: "nat \<Rightarrow> string \<Rightarrow> (nat \<times> string) option" where
  "take_num w s = (if w \<le> length s \<and> list_all is_digit (take w s) then Some (read_nat 0 (take w s), drop w s) else None)"

fun take_parts :: "(string \<times> nat) list \<Rightarrow> string \<Rightarrow> (nat list \<times> string) option" where
  "take_parts [] s = Some ([], s)"
| "take_parts ((sep, w) # ps) s =
     (if starts_with s sep then
        (case take_num w (drop (length sep) s) of
           None \<Rightarrow> None
         | Some (n, r) \<Rightarrow> map_option (\<lambda>(ns, r'). (n # ns, r')) (take_parts ps r))
      else None)"

definition iso_parts :: "(string \<times> nat) list" where
  "iso_parts = [([], 4), (''-'', 2), (''-'', 2), (''T'', 2), ('':'', 2), ('':'', 2), (''.'', 3)]"

definition parse_offset :: "string \<Rightarrow> int option" where
  "parse_offset s =
     (if s = ''Z'' then Some 0
      else case s of
             [] \<Rightarrow> None
           | c # r \<Rightarrow>
               if c = CHR ''+'' \<or> c = CHR ''-'' then
                 (case take_parts [([], 2), ('':'', 2)] r of
                    Some ([h, m], []) \<Rightarrow>
                      if h < 24 \<and> m < 60 then Some ((if c = CHR ''+'' then 1 else -1) * int (h * 60 + m)) else None
                  | _ \<Rightarrow> None)
               else None)"

text \<open>The date-time string format of ECMA-262, in the complete form \<open>YYYY-MM-DDTHH:mm:ss.sss\<close> with an offset.\<close>

definition iso_parse :: "string \<Rightarrow> int option" where
  "iso_parse s =
     (case take_parts iso_parts s of
        Some ([y, mo, d, h, mi, sec, msec], r) \<Rightarrow>
          (let f = \<lparr>year = int y, month = mo, day_of_month = d, hours = h, minutes = mi, seconds = sec, millis = msec\<rparr>
           in if fields_ok f then map_option (\<lambda>off. time_of f - off * 60000) (parse_offset r) else None)
      | _ \<Rightarrow> None)"

lemma length_show_nat_le: "0 < w \<Longrightarrow> n < 10 ^ w \<Longrightarrow> length (show_nat n) \<le> w"
proof (induction w arbitrary: n)
  case (Suc w)
  show ?case
  proof (cases "n < 10")
    case True
    then show ?thesis by (subst show_nat.simps) simp
  next
    case False
    then have "0 < w" using Suc.prems by (cases w) auto
    moreover have "n div 10 < 10 ^ w" using Suc.prems by (simp add: less_mult_imp_div_less mult.commute)
    ultimately have "length (show_nat (n div 10)) \<le> w" by (rule Suc.IH)
    with False show ?thesis by (subst show_nat.simps) simp
  qed
qed simp

lemma length_show_nat_ge: "10 ^ w \<le> n \<Longrightarrow> Suc w \<le> length (show_nat n)"
proof (induction w arbitrary: n)
  case 0
  then show ?case by (cases "show_nat n") auto
next
  case (Suc w)
  then have "10 ^ w \<le> n div 10" by (simp add: less_eq_div_iff_mult_less_eq mult.commute)
  moreover have "(1::nat) \<le> 10 ^ w" by simp
  with Suc.prems have "\<not> n < 10" unfolding power_Suc by linarith
  moreover note Suc.IH [of "n div 10"]
  ultimately show ?case by (subst show_nat.simps) simp
qed

lemma read_zeros: "read_nat 0 (replicate k (CHR ''0'') @ s) = read_nat 0 s"
  by (induction k) auto

lemma take_num_digits: "list_all is_digit s \<Longrightarrow> length s = w \<Longrightarrow> take_num w (s @ r) = Some (read_nat 0 s, r)"
  by (auto simp: take_num_def)

lemma take_num_pad: "0 < w \<Longrightarrow> n < 10 ^ w \<Longrightarrow> take_num w (pad w n @ r) = Some (n, r)"
proof -
  assume w: "0 < w" "n < 10 ^ w"
  have "list_all is_digit (pad w n)" "length (pad w n) = w"
    using length_show_nat_le [OF w] show_nat_digits [of _ n]
    by (auto simp: pad_def list_all_iff) (simp add: is_digit_def)
  then have "take_num w (pad w n @ r) = Some (read_nat 0 (pad w n), r)" by (rule take_num_digits)
  then show ?thesis by (simp add: pad_def read_zeros read_show_nat)
qed

lemma take_num_year:
  assumes y: "1000 \<le> y" "y \<le> 9999"
  shows "take_num 4 (show_int y @ r) = Some (nat y, r)" "take_num 4 (iso_year y @ r) = Some (nat y, r)"
proof -
  from y have "length (show_nat (nat y)) = 4"
    using length_show_nat_le [of 4 "nat y"] length_show_nat_ge [of 3 "nat y"] by (simp add: nat_le_iff le_nat_iff)
  moreover have "list_all is_digit (show_nat (nat y))" by (auto simp: list_all_iff show_nat_digits)
  ultimately show "take_num 4 (show_int y @ r) = Some (nat y, r)"
    using take_num_digits [of "show_nat (nat y)" 4 r] y by (simp add: show_int_def read_show_nat)
  show "take_num 4 (iso_year y @ r) = Some (nat y, r)"
    using y by (simp add: iso_year_def take_num_pad)
qed

lemma parse_show_fields:
  assumes "fields_ok f" "1000 \<le> year f" "year f \<le> 9999" "y \<in> {show_int (year f), iso_year (year f)}"
  shows "take_parts iso_parts (show_fields y f @ r) =
    Some ([nat (year f), month f, day_of_month f, hours f, minutes f, seconds f, millis f], r)"
proof -
  from assms(1) have "int (day_of_month f) \<le> 31"
    using month_length [of "month f - 1" "year f"] unfolding fields_ok_def by fastforce
  then have b: "month f < 10 ^ 2" "day_of_month f < 10 ^ 2" "hours f < 10 ^ 2" "minutes f < 10 ^ 2" "seconds f < 10 ^ 2"
    "millis f < 10 ^ 3"
    using assms(1) by (auto simp: fields_ok_def)
  show ?thesis
    using b assms(4)
    by (auto simp: iso_parts_def show_fields_def take_num_year [OF assms(2,3)] take_num_pad starts_with_iff_prefix)
qed

lemma parse_offset_show:
  assumes "\<bar>off\<bar> < 1440"
  shows "parse_offset ((if off \<ge> 0 then ''+'' else ''-'') @ pad 2 (nat \<bar>off\<bar> div 60) @ '':'' @ pad 2 (nat \<bar>off\<bar> mod 60)) = Some off"
proof -
  let ?a = "nat \<bar>off\<bar>"
  have a: "?a div 60 < 24" "?a div 60 < 10 ^ 2" "?a mod 60 < 60" "?a mod 60 < 10 ^ 2" using assms by (auto simp: less_mult_imp_div_less)
  have "?a div 60 * 60 + ?a mod 60 = ?a" by (rule div_mult_mod_eq)
  moreover have "take_parts [([], 2), ('':'', 2)] (pad 2 (?a div 60) @ '':'' @ pad 2 (?a mod 60)) = Some ([?a div 60, ?a mod 60], [])"
    using a take_num_pad [of 2 "?a mod 60" "[]"] by (simp add: take_num_pad starts_with_iff_prefix)
  ultimately show ?thesis using a by (auto simp: parse_offset_def)
qed

definition four_digit_year :: "int \<Rightarrow> bool" where
  "four_digit_year t = (1000 \<le> year (fields_of t) \<and> year (fields_of t) \<le> 9999)"

lemma iso_parse_fields:
  assumes "four_digit_year t" "parse_offset r = Some off"
    and "ys \<in> {show_int (year (fields_of t)), iso_year (year (fields_of t))}"
  shows "iso_parse (show_fields ys (fields_of t) @ r) = Some (t - off * 60000)"
proof -
  let ?f = "fields_of t"
  have y: "1000 \<le> year ?f" "year ?f \<le> 9999" using assms(1) by (simp_all add: four_digit_year_def)
  then have "\<lparr>year = int (nat (year ?f)), month = month ?f, day_of_month = day_of_month ?f, hours = hours ?f,
      minutes = minutes ?f, seconds = seconds ?f, millis = millis ?f\<rparr> = ?f" by simp
  with parse_show_fields [OF fields_of_ok y assms(3)] show ?thesis
    by (simp add: iso_parse_def assms(2) fields_of_ok fields_roundtrip Let_def)
qed

lemma year_fields_of: "year (fields_of t) = year_from_day (t div 86400000)"
  by (rule fields_of_eqs(1) [OF refl refl refl refl refl])

text \<open>What the two writers print, a conforming \<open>Date.parse\<close> reads back exactly.\<close>

lemma iso_parse_formatLocalIso:
  "\<bar>tz t\<bar> < 1440 \<Longrightarrow> four_digit_year (t + tz t * 60000) \<Longrightarrow> iso_parse (formatLocalIso tz t) = Some t"
  unfolding formatLocalIso_def Let_def by (subst iso_parse_fields [OF _ parse_offset_show]) simp_all

lemma iso_parse_toISOString:
  assumes "four_digit_year t" "toISOString t = Some s"
  shows "iso_parse s = Some t"
proof -
  have "parse_offset ''Z'' = Some 0" by (simp add: parse_offset_def)
  from iso_parse_fields [OF assms(1) this, of "iso_year (year (fields_of t))"] assms(2) show ?thesis
    by (auto simp: toISOString_def split: if_splits)
qed

end
