(* ===== verification/OAuth.thy ===== *)
theory OAuth
  imports Dates Pool
begin

text \<open>
  The OAuth client, \<open>src/host/oauth.ts\<close>: the authorization URL, the token endpoint's replies and
  errors, the token set made of them, the token file written for the agy binary, the loopback
  callback handler with its HTML escaping, and the reading of a pasted code or redirect URL.

  A network call is a function from the request to its fetch_outcome: the error it rejects with or a
  response with its status and its JSON body (\<open>None\<close> when the body is no JSON). The fields of a
  token reply keep the JSON values the endpoint sent, because the code casts without checking.
  \<open>new URL(s)\<close> is the parameter \<open>parse_url\<close>; the environment's two variables are arguments.
\<close>

section \<open>Constants and requests\<close>

definition AGY_PUBLIC_CLIENT_ID :: string where
  "AGY_PUBLIC_CLIENT_ID = ''1071006060591'' @ ''-'' @ ''tmhssin2h21lcre235vtolojh4g403ep'' @ ''.'' @ ''apps.googleusercontent.com''"

definition AGY_PUBLIC_CLIENT_SECRET :: string where
  "AGY_PUBLIC_CLIENT_SECRET = ''GOCSPX'' @ ''-'' @ ''K58FWR486LdL'' @ ''J1mLB8sXC4z6qDAf''"

record client_env =
  env_client_id :: "string option"
  env_client_secret :: "string option"

definition resolveClientCredentials :: "client_env \<Rightarrow> string \<times> string" where
  "resolveClientCredentials env =
     (str_or (env_client_id env) AGY_PUBLIC_CLIENT_ID, str_or (env_client_secret env) AGY_PUBLIC_CLIENT_SECRET)"

definition AGY_SCOPES :: "string list" where
  "AGY_SCOPES =
     [''https://www.googleapis.com/auth/cloud-platform'',
      ''https://www.googleapis.com/auth/userinfo.email'',
      ''https://www.googleapis.com/auth/userinfo.profile'',
      ''https://www.googleapis.com/auth/cclog'',
      ''https://www.googleapis.com/auth/experimentsandconfigs'']"

definition OAUTH_AUTHORIZE_URL :: string where
  "OAUTH_AUTHORIZE_URL = ''https://accounts.google.com/o/oauth2/v2/auth''"

definition OAUTH_CALLBACK_PORT :: nat where
  "OAUTH_CALLBACK_PORT = 51121"

definition OAUTH_CALLBACK_PATH :: string where
  "OAUTH_CALLBACK_PATH = ''/oauth-callback''"

definition OAUTH_REDIRECT_URI :: string where
  "OAUTH_REDIRECT_URI = ''http://localhost:'' @ show_nat OAUTH_CALLBACK_PORT @ OAUTH_CALLBACK_PATH"

definition AGY_ENDPOINTS :: "string list" where
  "AGY_ENDPOINTS =
     [''https://daily-cloudcode-pa.googleapis.com'',
      ''https://cloudcode-pa.googleapis.com'',
      ''https://daily-cloudcode-pa.sandbox.googleapis.com'',
      ''https://autopush-cloudcode-pa.sandbox.googleapis.com'']"

text \<open>The \<open>application/x-www-form-urlencoded\<close> serializer behind \<open>URLSearchParams\<close>.\<close>

definition form_byte :: "char \<Rightarrow> string" where
  "form_byte c =
     (let n = of_char c :: nat; up = (\<lambda>d. char_of (if d < 10 then 48 + d else 55 + d))
      in if word_char c \<or> c \<in> {CHR ''*'', CHR ''-'', CHR ''.''} then [c]
         else if c = CHR '' '' then ''+''
         else [CHR ''%'', up (n div 16), up (n mod 16)])"

definition form_text :: "string \<Rightarrow> string" where
  "form_text s = concat (map form_byte s)"

definition form_urlencoded :: "(string \<times> string) list \<Rightarrow> string" where
  "form_urlencoded ps = join ''&'' (map (\<lambda>(k, v). form_text k @ ''='' @ form_text v) ps)"

definition authorize_params :: "client_env \<Rightarrow> string \<Rightarrow> string \<Rightarrow> (string \<times> string) list" where
  "authorize_params env challenge st =
     [(''client_id'', fst (resolveClientCredentials env)), (''response_type'', ''code''),
      (''redirect_uri'', OAUTH_REDIRECT_URI), (''scope'', join '' '' AGY_SCOPES),
      (''code_challenge'', challenge), (''code_challenge_method'', ''S256''), (''state'', st),
      (''access_type'', ''offline''), (''prompt'', ''consent'')]"

definition buildAuthorizeUrl :: "client_env \<Rightarrow> string \<Rightarrow> string \<Rightarrow> string" where
  "buildAuthorizeUrl env challenge st = OAUTH_AUTHORIZE_URL @ ''?'' @ form_urlencoded (authorize_params env challenge st)"

section \<open>The token endpoint\<close>

record http_response =
  http_status :: nat
  http_json :: "json option"

text \<open>A thrown error: its name and its message; \<open>String(err)\<close> shows both.\<close>

type_synonym js_error = "string \<times> string"

definition js_error_text :: "js_error \<Rightarrow> string" where
  "js_error_text e = fst e @ '': '' @ snd e"

type_synonym fetch_outcome = "js_error + http_response"

definition res_ok :: "http_response \<Rightarrow> bool" where
  "res_ok r = (200 \<le> http_status r \<and> http_status r \<le> 299)"

record token_set =
  access_token :: json
  token_type :: json
  refresh_token :: "json option"
  expiryMs :: "rat option"

text \<open>\<open>v ?? undefined\<close>: null counts as absent.\<close>

definition present :: "json option \<Rightarrow> json option" where
  "present v = (if v = Some JNull then None else v)"

definition null_read :: "string \<Rightarrow> string" where
  "null_read field = ''Cannot read properties of null (reading '' @ [CHR 0x27] @ field @ [CHR 0x27] @ '')''"

definition error_parts :: "json \<Rightarrow> json option list" where
  "error_parts payload =
     (let err = jget payload ''error'';
          cd = (case err of Some (JStr s) \<Rightarrow> Some (JStr s) | Some e \<Rightarrow> jget e ''status'' | None \<Rightarrow> None);
          desc = coalesce (present (jget payload ''error_description''))
                   (if is_object err then (case err of Some e \<Rightarrow> jget e ''message'' | None \<Rightarrow> None) else None)
      in [cd, desc])"

text \<open>What is thrown for a reply without success: \<open>join\<close> throws itself when a part has no string form.\<close>

definition endpoint_error :: "nat \<Rightarrow> json \<Rightarrow> js_error" where
  "endpoint_error st payload =
     (case those (map js_string_opt (filter truthy (error_parts payload))) of
        None \<Rightarrow> (''TypeError'', no_primitive)
      | Some parts \<Rightarrow>
          (let txt = join ('' '' @ em_dash @ '' '') parts
           in (''Error'', ''token endpoint '' @ show_nat st @ '': '' @ (if txt = [] then ''unknown error'' else txt))))"

definition postTokenForm ::
  "client_env \<Rightarrow> (string option \<Rightarrow> (string \<times> string) list \<Rightarrow> fetch_outcome) \<Rightarrow> (string \<times> string) list \<Rightarrow> string option \<Rightarrow> js_error + json" where
  "postTokenForm env post flds px =
     (let (clientId, clientSecret) = resolveClientCredentials env
      in case post px ([(''client_id'', clientId), (''client_secret'', clientSecret)] @ flds) of
           Inl e \<Rightarrow> Inl e
         | Inr res \<Rightarrow>
             (let payload = or_else (http_json res) (JObj []) in
              if \<not> res_ok res then
                (if payload = JNull then Inl (''TypeError'', null_read ''error'')
                 else Inl (endpoint_error (http_status res) payload))
              else if payload = JNull then Inl (''TypeError'', null_read ''access_token'')
              else if \<not> truthy (jget payload ''access_token'') then Inl (''Error'', ''token endpoint returned no access_token'')
              else Inr payload))"

definition toTokenSet :: "ms \<Rightarrow> json \<Rightarrow> string option \<Rightarrow> token_set" where
  "toTokenSet t payload fallback =
     \<lparr>access_token = or_else (jget payload ''access_token'') JNull,
      token_type = or_else (present (jget payload ''token_type'')) (JStr ''Bearer''),
      refresh_token = coalesce (present (jget payload ''refresh_token'')) (map_option JStr fallback),
      expiryMs = map_option (\<lambda>n. of_int t + n * 1000) (as_num (jget payload ''expires_in''))\<rparr>"

definition exchangeCode ::
  "client_env \<Rightarrow> (string option \<Rightarrow> (string \<times> string) list \<Rightarrow> fetch_outcome) \<Rightarrow> ms \<Rightarrow> string \<Rightarrow> string \<Rightarrow> string option \<Rightarrow> js_error + token_set" where
  "exchangeCode env post t cd verifier px =
     map_sum id (\<lambda>payload. toTokenSet t payload None)
       (postTokenForm env post
          [(''grant_type'', ''authorization_code''), (''code'', trim cd), (''redirect_uri'', OAUTH_REDIRECT_URI),
           (''code_verifier'', verifier)] px)"

definition refreshTokens ::
  "client_env \<Rightarrow> (string option \<Rightarrow> (string \<times> string) list \<Rightarrow> fetch_outcome) \<Rightarrow> ms \<Rightarrow> string \<Rightarrow> string option \<Rightarrow> js_error + token_set" where
  "refreshTokens env post t rt px =
     map_sum id (\<lambda>payload. toTokenSet t payload (Some rt))
       (postTokenForm env post [(''grant_type'', ''refresh_token''), (''refresh_token'', rt)] px)"

text \<open>The userinfo call, given the bearer token the request carries.\<close>

definition fetchUserEmail :: "(string option \<Rightarrow> string \<Rightarrow> fetch_outcome) \<Rightarrow> json \<Rightarrow> string option \<Rightarrow> string option" where
  "fetchUserEmail get tok px =
     (case map_option (\<lambda>t. get px (''Bearer '' @ t)) (js_string tok) of
        None \<Rightarrow> None
      | Some (Inl _) \<Rightarrow> None
      | Some (Inr res) \<Rightarrow>
          if \<not> res_ok res then None
          else (case http_json res of
                  None \<Rightarrow> None
                | Some info \<Rightarrow> (case jget info ''email'' of Some (JStr s) \<Rightarrow> if s \<noteq> [] then Some s else None | _ \<Rightarrow> None)))"

section \<open>The token file\<close>

definition token_file :: "string \<Rightarrow> string" where
  "token_file home = path_join home ''.gemini/antigravity-cli/antigravity-oauth-token''"

text \<open>\<open>new Date(ms)\<close> drops the fraction of a millisecond.\<close>

definition js_trunc :: "rat \<Rightarrow> int" where
  "js_trunc r = (if r < 0 then \<lceil>r\<rceil> else \<lfloor>r\<rfloor>)"

definition agyTokenDoc :: "(int \<Rightarrow> int) \<Rightarrow> ms \<Rightarrow> token_set \<Rightarrow> json" where
  "agyTokenDoc tz t tokens =
     (let expiryIso = (case expiryMs tokens of
            Some e \<Rightarrow> if e \<noteq> 0 then formatLocalIso tz (js_trunc e) else formatLocalIso tz (t + 3600000)
          | None \<Rightarrow> formatLocalIso tz (t + 3600000))
      in JObj [(''token'', JObj ([(''access_token'', access_token tokens), (''token_type'', token_type tokens)] @
                 (if truthy (refresh_token tokens) then [(''refresh_token'', or_else (refresh_token tokens) JNull)] else []) @
                 [(''expiry'', JStr expiryIso)])),
               (''auth_method'', JStr ''consumer'')])"

text \<open>The token files on disk; \<open>None\<close> inside is a file that does not parse.\<close>

type_synonym token_files = "string \<rightharpoonup> json option"

definition writeAgyTokenFile :: "(int \<Rightarrow> int) \<Rightarrow> ms \<Rightarrow> string \<Rightarrow> token_set \<Rightarrow> token_files \<Rightarrow> token_files" where
  "writeAgyTokenFile tz t home tokens fs = fs(token_file home \<mapsto> Some (agyTokenDoc tz t tokens))"

section \<open>The loopback callback\<close>

definition html_entity :: "char \<Rightarrow> string" where
  "html_entity c =
     (if c = CHR ''&'' then ''&amp;''
      else if c = CHR ''<'' then ''&lt;''
      else if c = CHR ''>'' then ''&gt;''
      else if c = CHR 0x22 then ''&quot;''
      else if c = CHR 0x27 then ''&#39;''
      else [c])"

definition escapeHtml :: "string \<Rightarrow> string" where
  "escapeHtml s = concat (map html_entity s)"

definition CALLBACK_SUCCESS_HTML :: string where
  "CALLBACK_SUCCESS_HTML =
     ''<!doctype html><html><head><meta charset='' @ [CHR 0x22] @ ''utf-8'' @ [CHR 0x22] @ ''><title>'' @ [CHR
     0xE7, CHR 0x99, CHR 0xBB, CHR 0xE5, CHR 0xBD, CHR 0x95, CHR 0xE6, CHR 0x88, CHR 0x90, CHR 0xE5, CHR 0x8A, CHR
     0x9F] @ ''</title></head>'' @ nl @
     ''<body style='' @ [CHR 0x22] @ ''font-family:system-ui;text-align:center;padding:3rem'' @ [CHR 0x22] @ ''>'' @ nl @
     ''<h2>'' @ [CHR 0xE2, CHR 0x9C, CHR 0x93] @ '' '' @ [CHR 0xE6, CHR 0x8E, CHR 0x88, CHR 0xE6, CHR 0x9D, CHR
     0x83, CHR 0xE6, CHR 0x88, CHR 0x90, CHR 0xE5, CHR 0x8A, CHR 0x9F] @ ''</h2>'' @ nl @
     ''<p>'' @ [CHR 0xE5, CHR 0x8F, CHR 0xAF, CHR 0xE4, CHR 0xBB, CHR 0xA5, CHR 0xE5, CHR 0x85, CHR 0xB3, CHR 0xE9,
     CHR 0x97, CHR 0xAD, CHR 0xE6, CHR 0xAD, CHR 0xA4, CHR 0xE6, CHR 0xA0, CHR 0x87, CHR 0xE7, CHR 0xAD, CHR 0xBE,
     CHR 0xE9, CHR 0xA1, CHR 0xB5, CHR 0xEF, CHR 0xBC, CHR 0x8C, CHR 0xE8, CHR 0xBF, CHR 0x94, CHR 0xE5, CHR 0x9B,
     CHR 0x9E] @ '' agy-proxy'' @ [CHR 0xE3, CHR 0x80, CHR 0x82] @ ''</p>'' @ nl @
     ''</body></html>''"

record url =
  pathname :: string
  searchParams :: "(string \<times> string) list"

record cb_reply =
  cb_status :: nat
  cb_body :: string

datatype cb_effect = CbNothing | CbReject string | CbResolve string string | CbThrow

text \<open>
  The request handler of the listener: its answer and what it does to the result promise. A request
  target that \<open>new URL\<close> refuses throws out of the handler. A query value that is present and empty
  is as good as absent.
\<close>

definition handle_callback :: "url option \<Rightarrow> cb_reply option \<times> cb_effect" where
  "handle_callback u =
     (case u of
        None \<Rightarrow> (None, CbThrow)
      | Some u \<Rightarrow>
          if pathname u \<noteq> OAUTH_CALLBACK_PATH then (Some \<lparr>cb_status = 404, cb_body = ''Not found''\<rparr>, CbNothing)
          else (let cd = map_of (searchParams u) ''code''; st = map_of (searchParams u) ''state'';
                    oauthError = map_of (searchParams u) ''error''
                in if truthy_str oauthError then
                     (Some \<lparr>cb_status = 400,
                        cb_body = ''<h2>Authorization failed: '' @ escapeHtml (or_else oauthError []) @ ''</h2>''\<rparr>,
                      CbReject (''oauth error: '' @ or_else oauthError []))
                   else if \<not> truthy_str cd \<or> \<not> truthy_str st then
                     (Some \<lparr>cb_status = 400, cb_body = ''<h2>Missing code or state</h2>''\<rparr>, CbNothing)
                   else (Some \<lparr>cb_status = 200, cb_body = CALLBACK_SUCCESS_HTML\<rparr>,
                         CbResolve (or_else cd []) (or_else st []))))"

definition bind_error :: "bool \<Rightarrow> string \<Rightarrow> string" where
  "bind_error addr_in_use msg = (if addr_in_use then ''port '' @ show_nat OAUTH_CALLBACK_PORT @ '' is busy'' else msg)"

section \<open>Pasted codes\<close>

definition pasted_char :: "char \<Rightarrow> bool" where
  "pasted_char c = (word_char c \<or> c \<in> {CHR ''-'', CHR ''/'', CHR ''.'', CHR ''%''})"

definition parsePastedCode :: "(string \<Rightarrow> url option) \<Rightarrow> string \<Rightarrow> (string \<times> string option) option" where
  "parsePastedCode parse_url input =
     (let t = trim input in
      if t = [] then None
      else if starts_with (to_lower t) ''http://'' \<or> starts_with (to_lower t) ''https://'' then
        (case parse_url t of
           None \<Rightarrow> None
         | Some u \<Rightarrow>
             (let cd = map_of (searchParams u) ''code'' in
              if \<not> truthy_str cd then None else Some (or_else cd [], map_of (searchParams u) ''state'')))
      else if list_all pasted_char t \<and> length t \<ge> 10 then Some (t, None)
      else None)"

section \<open>Facts\<close>

text \<open>Whatever the query carries, the reflected text has no character that opens markup or leaves an attribute.\<close>

lemma escapeHtml_inert: "c \<in> set (escapeHtml s) \<Longrightarrow> c \<notin> {CHR ''<'', CHR ''>'', CHR 0x22, CHR 0x27}"
proof -
  have "c \<notin> {CHR ''<'', CHR ''>'', CHR 0x22, CHR 0x27}" if "c \<in> set (html_entity d)" for d
    using that by (auto simp: html_entity_def split: if_splits)
  then show "c \<in> set (escapeHtml s) \<Longrightarrow> c \<notin> {CHR ''<'', CHR ''>'', CHR 0x22, CHR 0x27}"
    unfolding escapeHtml_def by auto
qed

lemma postTokenForm_Inr:
  "postTokenForm env post flds px = Inr payload \<Longrightarrow> truthy (jget payload ''access_token'')"
  by (auto simp: postTokenForm_def Let_def split: prod.splits sum.splits if_splits)

lemma exchange_token_truthy: "exchangeCode env post t cd v px = Inr ts \<Longrightarrow> truthy (Some (access_token ts))"
  by (auto simp: exchangeCode_def toTokenSet_def map_sum_def or_else_def split: sum.splits option.splits
      dest!: postTokenForm_Inr)

lemma refresh_token_truthy: "refreshTokens env post t rt px = Inr ts \<Longrightarrow> truthy (Some (access_token ts))"
  by (auto simp: refreshTokens_def toTokenSet_def map_sum_def or_else_def split: sum.splits option.splits
      dest!: postTokenForm_Inr)

text \<open>A refresh keeps the refresh token it was made with, unless the endpoint sends a new one.\<close>

lemma refresh_keeps_token:
  assumes "refreshTokens env post t rt px = Inr ts"
  shows "refresh_token ts \<noteq> None"
proof -
  have "coalesce v (Some x) \<noteq> None" for v and x :: json by (cases v) auto
  then show ?thesis using assms by (auto simp: refreshTokens_def toTokenSet_def map_sum_def split: sum.splits)
qed

lemma handle_callback_resolves:
  assumes "handle_callback (Some u) = (r, CbResolve cd st)"
  shows "cd \<noteq> []" "st \<noteq> []" "map_of (searchParams u) ''code'' = Some cd" "map_of (searchParams u) ''state'' = Some st"
  using assms by (auto simp: handle_callback_def Let_def truthy_str_def split: if_splits option.splits)

lemma pasted_code_nonempty: "parsePastedCode parse_url inp = Some (cd, st) \<Longrightarrow> cd \<noteq> []"
  by (auto simp: parsePastedCode_def Let_def truthy_str_def split: if_splits option.splits)

end
