(* ===== verification/Quota.thy ===== *)
theory Quota
  imports OAuth
begin

text \<open>
  The quota service, \<open>src/host/quota.ts\<close>: the reading and rewriting of stored tokens, the refresh of
  an expired access token, the endpoint fallback chain, the ingestion of quota summaries and model
  lists into the pool, the identity checks, and one pass of the full-pool refresh, whose overlapping
  callers are in theory QuotaCycle.

  The service's state holds the pool manager, the token files and the service's own fields. The
  backend's replies are records with the fields the TypeScript interfaces declare. \<open>account\<close> in the
  code is a reference into the pool, so every read goes through \<open>live\<close>. One refresh reads the clock once.
\<close>

section \<open>Stored tokens\<close>

definition mergeFallbackFamilyQuota :: "family_quota option \<Rightarrow> family_quota \<Rightarrow> family_quota" where
  "mergeFallbackFamilyQuota prev fallback =
     (case prev of
        Some q \<Rightarrow> if remainingFraction q \<noteq> None then q else fallback
      | None \<Rightarrow> fallback)"

text \<open>The newest logs and the last address in the newest log that has one.\<close>

record log_file =
  log_name :: string
  mtimeMs :: ms
  log_text :: "string option"

definition email_char :: "char \<Rightarrow> bool" where
  "email_char c = ((word_char c \<and> c \<noteq> CHR ''_'') \<or> c \<in> {CHR ''.'', CHR ''_'', CHR ''%'', CHR ''+'', CHR ''-''})"

definition host_char :: "char \<Rightarrow> bool" where
  "host_char c = ((word_char c \<and> c \<noteq> CHR ''_'') \<or> c \<in> {CHR ''.'', CHR ''-''})"

definition letter :: "char \<Rightarrow> bool" where
  "letter c = (word_char c \<and> c \<noteq> CHR ''_'' \<and> \<not> is_digit c)"

definition re_email :: rx where
  "re_email = rx_seqs
     [rx_alts [rx_lit_i ''authenticated successfully as'',
               rx_seqs [rx_lit_i ''applyAuthResult:'', RxStar (RxChar is_space), rx_lit_i ''email=''],
               rx_seqs [rx_lit_i [CHR 0x22, CHR ''e'', CHR ''m'', CHR ''a'', CHR ''i'', CHR ''l'', CHR 0x22],
                        RxStar (RxChar is_space), rx_lit_i '':'', RxStar (RxChar is_space), rx_lit [CHR 0x22]],
               rx_seqs [rx_lit_i ''User:'', RxStar (RxChar is_space)]],
      RxStar (RxChar is_space),
      RxCap 1 (rx_seqs [rx_plus (RxChar email_char), rx_lit ''@'', rx_plus (RxChar host_char), rx_lit ''.'',
                        rx_times 2 (RxChar letter), RxStar (RxChar letter)])]"

text \<open>The \<open>re.exec\<close> loop with the \<open>g\<close> flag: every match from left to right, each after the end of the last.\<close>

function rx_all :: "rx \<Rightarrow> string \<Rightarrow> captures list" where
  "rx_all e s =
     (case s of
        [] \<Rightarrow> []
      | _ # t \<Rightarrow>
          (case rx_match e s of
             (cs, rest) # _ \<Rightarrow> cs # (if length rest < length s then rx_all e rest else rx_all e t)
           | [] \<Rightarrow> rx_all e t))"
  by pat_completeness auto

termination
  by (relation "measure (\<lambda>(e, s). length s)") auto

declare rx_all.simps [simp del]

definition last_email :: "string \<Rightarrow> string option" where
  "last_email content =
     foldl (\<lambda>acc cs. if truthy_str (capture cs 1) then capture cs 1 else acc) None (rx_all re_email content)"

fun scan_logs :: "log_file list \<Rightarrow> string option" where
  "scan_logs [] = None"
| "scan_logs (f # fs) =
     (case log_text f of
        None \<Rightarrow> scan_logs fs
      | Some content \<Rightarrow> (case last_email content of Some e \<Rightarrow> Some e | None \<Rightarrow> scan_logs fs))"

definition detectEmailFromAgyLogs :: "(string \<Rightarrow> log_file list option) \<Rightarrow> string \<Rightarrow> string option" where
  "detectEmailFromAgyLogs readdir home =
     (case readdir (path_join home ''.gemini/antigravity-cli/log'') of
        None \<Rightarrow> None
      | Some all \<Rightarrow>
          scan_logs (take 5 (sort_key (\<lambda>f. - mtimeMs f)
            (filter (\<lambda>f. starts_with (log_name f) ''cli-'' \<and> ends_with (log_name f) ''.log'') all))))"

record stored_token =
  accessToken :: "string option"
  refreshToken :: "string option"
  st_expiryMs :: "rat option"

definition parseExpiryMs :: "(string \<Rightarrow> ms option) \<Rightarrow> json option \<Rightarrow> rat option" where
  "parseExpiryMs dparse v =
     (case v of
        Some (JNum n) \<Rightarrow> Some (if n < 100000000000 then n * 1000 else n)
      | Some (JStr s) \<Rightarrow> map_option of_int (dparse s)
      | _ \<Rightarrow> None)"

fun stringField :: "json \<Rightarrow> string list \<Rightarrow> string option" where
  "stringField obj [] = None"
| "stringField obj (k # ks) =
     (case jget obj k of
        Some (JStr s) \<Rightarrow> if s \<noteq> [] then Some s else stringField obj ks
      | _ \<Rightarrow> stringField obj ks)"

text \<open>\<open>Number(v)\<close>; \<open>None\<close> is no finite number.\<close>

fun js_to_number :: "json \<Rightarrow> rat option" where
  "js_to_number JNull = Some 0"
| "js_to_number (JBool b) = Some (if b then 1 else 0)"
| "js_to_number (JNum n) = Some n"
| "js_to_number (JStr s) = js_number s"
| "js_to_number (JArr xs) = Option.bind (js_string (JArr xs)) js_number"
| "js_to_number (JObj kvs) = None"

definition expires_in_value :: "ms \<Rightarrow> json option \<Rightarrow> json option" where
  "expires_in_value t v =
     (if truthy v then map_option (\<lambda>n. JNum (of_int t / 1000 + n)) (js_to_number (or_else v JNull)) else None)"

definition token_source :: "json \<Rightarrow> json \<times> bool" where
  "token_source raw = (case jget raw ''token'' of Some (JObj kvs) \<Rightarrow> (JObj kvs, True) | _ \<Rightarrow> (raw, False))"

text \<open>
  \<open>None\<close>: the document holds no access token, or \<open>Number(expires_in)\<close>, reached when neither expiry parses, throws.
  Both callers read a token they cannot normalize as none.
\<close>

definition normalizeStoredToken :: "(string \<Rightarrow> ms option) \<Rightarrow> ms \<Rightarrow> json \<Rightarrow> stored_token option" where
  "normalizeStoredToken dparse t raw =
     (let (source, nested) = token_source raw;
          tk = stringField source [''access_token'', ''accessToken''];
          rt = coalesce (stringField source [''refresh_token'', ''refreshToken''])
                 (if nested then stringField raw [''refresh_token'', ''refreshToken''] else None);
          ex = coalesce (parseExpiryMs dparse (jget source ''expiry''))
                 (coalesce (parseExpiryMs dparse (jget source ''expiresAt''))
                   (coalesce (parseExpiryMs dparse (expires_in_value t (jget source ''expires_in'')))
                     (parseExpiryMs dparse (jget raw ''expiry''))));
          throws = (parseExpiryMs dparse (jget source ''expiry'') = None \<and> parseExpiryMs dparse (jget source ''expiresAt'') = None \<and>
                 unprintable (jget source ''expires_in''))
      in if tk = None \<or> throws then None else Some \<lparr>accessToken = tk, refreshToken = rt, st_expiryMs = ex\<rparr>)"

text \<open>
  The Keychain reader: \<open>run\<close> is what the \<open>security\<close> command printed (\<open>None\<close> when it failed),
  \<open>unbase64\<close> and \<open>jparse\<close> the library's decoders.
\<close>

definition readMacKeychainToken ::
  "(string \<Rightarrow> ms option) \<Rightarrow> (string \<Rightarrow> json option) \<Rightarrow> (string \<Rightarrow> string) \<Rightarrow> string \<Rightarrow> ms \<Rightarrow> string option \<Rightarrow> stored_token option" where
  "readMacKeychainToken dparse jparse unbase64 platform t run =
     (if platform \<noteq> ''darwin'' then None
      else case run of
             None \<Rightarrow> None
           | Some out \<Rightarrow>
               (let raw = trim out; pre = ''go-keyring-base64:'' in
                if raw = [] then None
                else case jparse (if starts_with raw pre then unbase64 (drop (length pre) raw) else raw) of
                       None \<Rightarrow> None
                     | Some parsed \<Rightarrow> normalizeStoredToken dparse t parsed))"

section \<open>The service\<close>

record quota_service =
  q_pool :: pool_manager
  q_files :: token_files
  preferredEndpointIndex :: nat
  lastErrors :: "(string, string \<times> ms) jsmap"
  q_notified :: nat

definition getQuotaError :: "quota_service \<Rightarrow> string \<Rightarrow> (string \<times> ms) option" where
  "getQuotaError s i = map_of (lastErrors s) i"

definition noteQuotaError :: "ms \<Rightarrow> string \<Rightarrow> string \<Rightarrow> quota_service \<Rightarrow> quota_service" where
  "noteQuotaError t i msg s = s\<lparr>lastErrors := jm_set i (msg, t) (lastErrors s), q_notified := q_notified s + 1\<rparr>"

definition clearQuotaError :: "string \<Rightarrow> quota_service \<Rightarrow> quota_service" where
  "clearQuotaError i s =
     (if map_of (lastErrors s) i \<noteq> None
      then s\<lparr>lastErrors := jm_del i (lastErrors s), q_notified := q_notified s + 1\<rparr> else s)"

text \<open>What one refresh meets outside the gateway.\<close>

datatype 'r endpoint_outcome = EpReject string | EpStatus nat | EpBadBody string | EpOk "'r option"

record discovered_model =
  dm_remainingFraction :: "rat option"
  dm_resetTime :: "string option"
  dm_displayName :: "string option"

record quota_bucket =
  bucketId :: "string option"
  qb_window :: "string option"
  qb_resetTime :: "string option"
  qb_remainingFraction :: "rat option"

record quota_group =
  qg_displayName :: "string option"
  qg_description :: "string option"
  buckets :: "quota_bucket list option"

record quota_summary =
  groups :: "quota_group list option"

record discovered_models =
  dm_models :: "(string \<times> discovered_model) list option"

record refresh_env =
  re_now :: ms
  re_world :: world
  homedir :: string
  keychain :: "stored_token option"
  readdir :: "string \<Rightarrow> log_file list option"
  date_parse :: "string \<Rightarrow> ms option"
  client :: client_env
  token_post :: "string option \<Rightarrow> (string \<times> string) list \<Rightarrow> fetch_outcome"
  token_write_ok :: bool
  userinfo :: "string option \<Rightarrow> string \<Rightarrow> fetch_outcome"
  summary_at :: "string \<Rightarrow> quota_summary endpoint_outcome"
  models_at :: "string \<Rightarrow> discovered_models endpoint_outcome"
  models_fail_last :: bool
  models_ok_last :: bool

definition live :: "quota_service \<Rightarrow> managed_account \<Rightarrow> managed_account" where
  "live s a = or_else (getAccount (data (q_pool s)) (acc_id a)) a"

definition on_system_home :: "managed_account \<Rightarrow> bool" where
  "on_system_home a = (systemHome a = Some True \<or> acc_dir a = [])"

definition home_of :: "string \<Rightarrow> managed_account \<Rightarrow> string" where
  "home_of sys a = (if on_system_home a then sys else acc_dir a)"

definition getTokenFilePath :: "string \<Rightarrow> managed_account \<Rightarrow> string" where
  "getTokenFilePath sys a = token_file (home_of sys a)"

definition usable :: "stored_token \<Rightarrow> bool" where
  "usable tok = (truthy_str (accessToken tok) \<or> truthy_str (refreshToken tok))"

definition disk_token :: "refresh_env \<Rightarrow> managed_account \<Rightarrow> token_files \<Rightarrow> stored_token option" where
  "disk_token env a fs =
     (case fs (getTokenFilePath (homedir env) a) of
        Some (Some raw) \<Rightarrow>
          (case normalizeStoredToken (date_parse env) (re_now env) raw of
             Some tok \<Rightarrow> if usable tok then Some tok else None
           | None \<Rightarrow> None)
      | _ \<Rightarrow> None)"

definition getStoredToken :: "refresh_env \<Rightarrow> managed_account \<Rightarrow> token_files \<Rightarrow> stored_token option" where
  "getStoredToken env a fs =
     (case (if on_system_home a then keychain env else None) of
        Some k \<Rightarrow> if usable k then Some k else disk_token env a fs
      | None \<Rightarrow> disk_token env a fs)"

text \<open>
  The rewritten document: setting a property of an array is lost when it is printed, setting one of
  null or of a primitive throws, and so does an expiry that no \<open>Date\<close> holds; then nothing is written.
\<close>

definition rewritten :: "json \<Rightarrow> rat option \<Rightarrow> json \<Rightarrow> json option" where
  "rewritten tok expiry raw =
     (let ex = (case expiry of Some e \<Rightarrow> if e \<noteq> 0 then Some e else None | None \<Rightarrow> None);
          put = (\<lambda>v kvs. (case ex of None \<Rightarrow> kvs | Some e \<Rightarrow> jm_set ''expiry'' v kvs))
      in case (case ex of None \<Rightarrow> Some [] | Some e \<Rightarrow> toISOString (js_trunc e)) of
           None \<Rightarrow> None
         | Some isoText \<Rightarrow>
             (case raw of
                JObj kvs \<Rightarrow>
                  (case map_of kvs ''token'' of
                     Some (JObj n) \<Rightarrow>
                       Some (JObj (jm_set ''token'' (JObj (put (JStr isoText) (jm_set ''access_token'' tok n))) kvs))
                   | Some (JArr xs) \<Rightarrow> Some raw
                   | _ \<Rightarrow> Some (JObj (put (JNum (or_else ex 0)) (jm_set ''access_token'' tok kvs))))
              | JArr xs \<Rightarrow> Some raw
              | _ \<Rightarrow> None))"

definition persistRefreshedToken :: "refresh_env \<Rightarrow> managed_account \<Rightarrow> json \<Rightarrow> rat option \<Rightarrow> token_files \<Rightarrow> token_files" where
  "persistRefreshedToken env a tok expiry fs =
     (let path = getTokenFilePath (homedir env) a;
          raw = (case fs path of Some (Some j) \<Rightarrow> j | _ \<Rightarrow> JObj [])
      in case rewritten tok expiry raw of
           Some doc \<Rightarrow> if token_write_ok env then fs(path \<mapsto> Some doc) else fs
         | None \<Rightarrow> fs)"

definition fresh :: "ms \<Rightarrow> stored_token \<Rightarrow> bool" where
  "fresh t tok = (truthy_str (accessToken tok) \<and>
     (case st_expiryMs tok of None \<Rightarrow> True | Some e \<Rightarrow> e = 0 \<or> e > of_int t + 60000))"

definition re_dead_credential :: rx where
  "re_dead_credential = rx_alts (map rx_lit_i
     [''invalid_grant'', ''revoked'', ''disabled'', ''unauthorized_client'', ''token endpoint 400''])"

definition or_null :: "string option \<Rightarrow> json option" where
  "or_null s = (if truthy_str s then map_option JStr s else None)"

definition getValidAccessToken :: "refresh_env \<Rightarrow> managed_account \<Rightarrow> quota_service \<Rightarrow> json option \<times> quota_service" where
  "getValidAccessToken env a0 s =
     (let a = live s a0 in
      case getStoredToken env a (q_files s) of
        None \<Rightarrow> (None, s)
      | Some tok \<Rightarrow>
          if fresh (re_now env) tok then (map_option JStr (accessToken tok), s)
          else if \<not> truthy_str (refreshToken tok) then (or_null (accessToken tok), s)
          else
            (case refreshTokens (client env) (token_post env) (re_now env) (or_else (refreshToken tok) []) (proxyUrl a) of
               Inr refreshed \<Rightarrow>
                 (let s1 = s\<lparr>q_files := persistRefreshedToken env a (access_token refreshed) (expiryMs refreshed) (q_files s)\<rparr>;
                      s2 = (if authRequired (live s1 a)
                            then s1\<lparr>q_pool := clearAuthRequired (re_world env) (acc_id a) (q_pool s1)\<rparr> else s1)
                  in (Some (access_token refreshed), s2))
             | Inl e \<Rightarrow>
                 (or_null (accessToken tok),
                  if rx_test re_dead_credential (js_error_text e)
                  then s\<lparr>q_pool := markAuthRequired (re_world env) (acc_id a) (Some (js_error_text e)) (q_pool s)\<rparr> else s)))"

definition fetchUserInfo :: "refresh_env \<Rightarrow> json \<Rightarrow> string option \<Rightarrow> json option" where
  "fetchUserInfo env tok px =
     (case map_option (\<lambda>t. userinfo env px (''Bearer '' @ t)) (js_string tok) of
        Some (Inr res) \<Rightarrow> if res_ok res then http_json res else None
      | _ \<Rightarrow> None)"

text \<open>\<open>info?.email\<close>, when it is a truthy string.\<close>

definition info_email :: "json option \<Rightarrow> string option" where
  "info_email info =
     (case info of
        Some j \<Rightarrow> (case jget j ''email'' of Some (JStr e) \<Rightarrow> if e \<noteq> [] then Some e else None | _ \<Rightarrow> None)
      | None \<Rightarrow> None)"

section \<open>The endpoint chain\<close>

definition getOrderedEndpoints :: "quota_service \<Rightarrow> string list" where
  "getOrderedEndpoints s =
     (let n = length AGY_ENDPOINTS
      in map (\<lambda>i. AGY_ENDPOINTS ! ((preferredEndpointIndex s + i) mod n)) [0..<n])"

text \<open>
  The loop of \<open>fetchQuotaSummary\<close> and \<open>fetchAvailableModels\<close>: the reply, the endpoint that answered
  with success last (its index becomes the preferred one even when its body does not parse), and the
  reasons handed to \<open>onFailure\<close>, in order.
\<close>

fun try_endpoints ::
  "string \<Rightarrow> (string \<Rightarrow> 'r endpoint_outcome) \<Rightarrow> string list \<Rightarrow> string option \<Rightarrow> string list \<Rightarrow> 'r option \<times> string option \<times> string list" where
  "try_endpoints what ask [] pref reasons = (None, pref, reasons)"
| "try_endpoints what ask (e # es) pref reasons =
     (case ask e of
        EpOk r \<Rightarrow> (r, Some e, reasons)
      | EpBadBody msg \<Rightarrow> try_endpoints what ask es (Some e) (reasons @ [msg])
      | EpReject msg \<Rightarrow> try_endpoints what ask es pref (reasons @ [msg])
      | EpStatus st \<Rightarrow>
          (let reasons1 = reasons @ [what @ '' endpoint returned '' @ show_nat st]
           in if st = 401 \<or> st = 403 then (None, pref, reasons1) else try_endpoints what ask es pref reasons1))"

definition fetchQuotaSummary :: "refresh_env \<Rightarrow> quota_service \<Rightarrow> quota_summary option \<times> string option \<times> string list" where
  "fetchQuotaSummary env s = try_endpoints ''quota summary'' (summary_at env) (getOrderedEndpoints s) None []"

definition fetchAvailableModels :: "refresh_env \<Rightarrow> quota_service \<Rightarrow> discovered_models option \<times> string option \<times> string list" where
  "fetchAvailableModels env s = try_endpoints ''available-models'' (models_at env) (getOrderedEndpoints s) None []"

text \<open>Both chains run at once: the one that writes last wins.\<close>

definition last_written :: "bool \<Rightarrow> 'a option \<Rightarrow> 'a option \<Rightarrow> 'a option" where
  "last_written second a b = (if second then coalesce b a else coalesce a b)"

definition last_reason :: "string list \<Rightarrow> string option" where
  "last_reason rs = (if rs = [] then None else Some (last rs))"

definition endpoint_index :: "string \<Rightarrow> nat" where
  "endpoint_index e = length (takeWhile (\<lambda>x. x \<noteq> e) AGY_ENDPOINTS)"

section \<open>Ingestion\<close>

definition mentions :: "string option \<Rightarrow> string \<Rightarrow> bool" where
  "mentions s w = str_includes (to_lower (str_or s [])) w"

definition group_families :: "quota_group \<Rightarrow> model_family list" where
  "group_families g =
     (let isGoogle = mentions (qg_displayName g) ''gemini'' \<or> mentions (qg_description g) ''gemini'';
          is3P = mentions (qg_displayName g) ''claude'' \<or> mentions (qg_displayName g) ''gpt'' \<or>
                 mentions (qg_description g) ''claude'' \<or> mentions (qg_description g) ''gpt''
      in if isGoogle then [Google] else if is3P then [Anthropic, Openai] else [])"

definition bucket_window :: "quota_bucket \<Rightarrow> string" where
  "bucket_window b = to_lower (str_or (qb_window b) (str_or (bucketId b) []))"

definition ingest_bucket :: "family_quota \<Rightarrow> quota_bucket \<Rightarrow> family_quota" where
  "ingest_bucket q b =
     (if str_includes (bucket_window b) ''5h'' then
        q\<lparr>remainingFraction := qb_remainingFraction b, resetTime := qb_resetTime b\<rparr>
      else if str_includes (bucket_window b) ''weekly'' then
        q\<lparr>weeklyFraction := qb_remainingFraction b, weeklyResetTime := qb_resetTime b\<rparr>
      else q)"

definition group_quota :: "ms \<Rightarrow> quota_group \<Rightarrow> family_quota" where
  "group_quota t g =
     foldl ingest_bucket
       \<lparr>remainingFraction = None, resetTime = None, weeklyFraction = None, weeklyResetTime = None,
        description = qg_description g, updatedAt = Some t, quota_models = None\<rparr> (or_else (buckets g) [])"

type_synonym family_quotas = "model_family \<rightharpoonup> family_quota"

definition ingest_group :: "ms \<Rightarrow> family_quotas \<Rightarrow> quota_group \<Rightarrow> family_quotas" where
  "ingest_group t qs g = foldl (\<lambda>qs f. qs(f \<mapsto> group_quota t g)) qs (group_families g)"

definition ingest_summary :: "ms \<Rightarrow> quota_summary option \<Rightarrow> family_quotas" where
  "ingest_summary t summary =
     (case summary of
        None \<Rightarrow> Map.empty
      | Some s \<Rightarrow> foldl (ingest_group t) Map.empty (or_else (groups s) []))"

text \<open>\<open>Date.parse(a) > Date.parse(b)\<close>, false when either is NaN.\<close>

definition date_after :: "(string \<Rightarrow> ms option) \<Rightarrow> string \<Rightarrow> string \<Rightarrow> bool" where
  "date_after dparse a b = (case (dparse a, dparse b) of (Some x, Some y) \<Rightarrow> x > y | _ \<Rightarrow> False)"

definition bare_quota :: "ms \<Rightarrow> rat \<Rightarrow> string option \<Rightarrow> family_quota" where
  "bare_quota t rem reset =
     \<lparr>remainingFraction = Some rem, resetTime = reset, weeklyFraction = None, weeklyResetTime = None,
      description = None, updatedAt = Some t, quota_models = None\<rparr>"

definition ingest_model ::
  "(string \<Rightarrow> ms option) \<Rightarrow> ms \<Rightarrow> family_quotas \<Rightarrow> family_quotas \<times> (model_family \<rightharpoonup> model_quota list) \<Rightarrow>
   string \<times> discovered_model \<Rightarrow> family_quotas \<times> (model_family \<rightharpoonup> model_quota list)" where
  "ingest_model dparse t prev acc me =
     (let (qs, ms) = acc; (modelId, entry) = me; fam = modelFamilyOf (Some modelId); reset = dm_resetTime entry in
      if fam = UnknownFamily then acc
      else case dm_remainingFraction entry of
             None \<Rightarrow> acc
           | Some rem \<Rightarrow>
               (let item = \<lparr>mq_modelId = modelId, mq_displayName = Some (str_or (dm_displayName entry) modelId),
                            mq_remainingFraction = Some rem, mq_resetTime = reset\<rparr>;
                    ms1 = ms(fam \<mapsto> or_else (ms fam) [] @ [item])
                in case qs fam of
                     None \<Rightarrow> (qs(fam \<mapsto> mergeFallbackFamilyQuota (prev fam) (bare_quota t rem reset)), ms1)
                   | Some q \<Rightarrow>
                       if remainingFraction q \<noteq> None then (qs, ms1)
                       else if rem < 1 then (qs(fam \<mapsto> q\<lparr>remainingFraction := Some rem, resetTime := reset\<rparr>), ms1)
                       else if rem = 1 \<and> truthy_str reset \<and>
                               (\<not> truthy_str (resetTime q) \<or> date_after dparse (or_else reset []) (or_else (resetTime q) []))
                       then (qs(fam \<mapsto> q\<lparr>resetTime := reset\<rparr>), ms1)
                       else (qs, ms1)))"

definition attach_models :: "family_quotas \<Rightarrow> (model_family \<rightharpoonup> model_quota list) \<Rightarrow> family_quotas" where
  "attach_models qs ms = (\<lambda>f. case (qs f, ms f) of (Some q, Some l) \<Rightarrow> Some (q\<lparr>quota_models := Some l\<rparr>) | _ \<Rightarrow> qs f)"

definition discovered_list :: "discovered_models option \<Rightarrow> (string \<times> discovered_model) list option" where
  "discovered_list d = (case d of None \<Rightarrow> None | Some r \<Rightarrow> dm_models r)"

definition familyQuotas ::
  "(string \<Rightarrow> ms option) \<Rightarrow> ms \<Rightarrow> family_quotas \<Rightarrow> quota_summary option \<Rightarrow> discovered_models option \<Rightarrow> family_quotas" where
  "familyQuotas dparse t prev summary discovered =
     (let (qs, ms) = foldl (ingest_model dparse t prev) (ingest_summary t summary, Map.empty)
                       (or_else (discovered_list discovered) [])
      in attach_models qs ms)"

section \<open>Refreshing one account\<close>

definition latest_update :: "managed_account \<Rightarrow> ms" where
  "latest_update a =
     foldl max 0 (map (\<lambda>f. case quotas a f of Some q \<Rightarrow> or_else (updatedAt q) 0 | None \<Rightarrow> 0) [Google, Anthropic, Openai, UnknownFamily])"

definition throttled :: "ms \<Rightarrow> managed_account \<Rightarrow> bool" where
  "throttled t a = (latest_update a > 0 \<and> t - latest_update a < 10000)"

definition detected_email :: "refresh_env \<Rightarrow> managed_account \<Rightarrow> string option" where
  "detected_email env a =
     (if systemHome a = Some True \<or> \<not> truthy_str (email a)
      then (case detectEmailFromAgyLogs (readdir env) (home_of (homedir env) a) of Some e \<Rightarrow> Some e | None \<Rightarrow> email a)
      else email a)"

text \<open>With the token in hand: the identity check.\<close>

definition settle_identity ::
  "refresh_env \<Rightarrow> bool \<Rightarrow> managed_account \<Rightarrow> string option \<Rightarrow> json \<Rightarrow> quota_service \<Rightarrow> string option \<times> quota_service" where
  "settle_identity env force a em tok s =
     (let em1 = (if force then coalesce (info_email (fetchUserInfo env tok (proxyUrl (live s a)))) em else em)
      in (em1, if truthy_str em1 \<and> em1 \<noteq> email (live s a)
               then s\<lparr>q_pool := resetAccountIdentity (re_world env) (acc_id a) (or_else em1 []) (q_pool s)\<rparr> else s))"

text \<open>With the replies of both chains in hand: the rest of the function.\<close>

definition apply_replies ::
  "refresh_env \<Rightarrow> managed_account \<Rightarrow> string option \<Rightarrow> json \<Rightarrow> quota_summary option \<Rightarrow> discovered_models option \<Rightarrow> string option \<Rightarrow>
   quota_service \<Rightarrow> family_quotas option \<times> quota_service" where
  "apply_replies env a em tok summary discovered why s =
     (let em1 = (if \<not> truthy_str em then coalesce (info_email (fetchUserInfo env tok (proxyUrl (live s a)))) em else em) in
      if summary = None \<and> discovered_list discovered = None then
        (None, noteQuotaError (re_now env) (acc_id a)
           (if truthy_str why then ''quota refresh failed: '' @ or_else why [] else ''quota refresh returned no data'') s)
      else
        (let s1 = clearQuotaError (acc_id a) s;
             s2 = (if authRequired (live s1 a)
                   then s1\<lparr>q_pool := clearAuthRequired (re_world env) (acc_id a) (q_pool s1)\<rparr> else s1);
             qs = familyQuotas (date_parse env) (re_now env) (quotas (live s2 a)) summary discovered
         in (Some qs, s2\<lparr>q_pool := updateAccountQuotas (acc_id a) qs em1 (q_pool s2)\<rparr>)))"

definition ask_endpoints ::
  "refresh_env \<Rightarrow> quota_service \<Rightarrow> (quota_summary option \<times> discovered_models option \<times> string option) \<times> quota_service" where
  "ask_endpoints env s =
     (let (summary, pref1, fails1) = fetchQuotaSummary env s; (discovered, pref2, fails2) = fetchAvailableModels env s
      in ((summary, discovered, last_written (models_fail_last env) (last_reason fails1) (last_reason fails2)),
          case last_written (models_ok_last env) pref1 pref2 of
            None \<Rightarrow> s
          | Some e \<Rightarrow> s\<lparr>preferredEndpointIndex := endpoint_index e\<rparr>))"

definition refreshAccountQuota ::
  "refresh_env \<Rightarrow> bool \<Rightarrow> managed_account \<Rightarrow> quota_service \<Rightarrow> family_quotas option \<times> quota_service" where
  "refreshAccountQuota env force a s =
     (if \<not> force \<and> throttled (re_now env) (live s a) then (Some (quotas (live s a)), s)
      else
        (let em = detected_email env (live s a) in
         case getValidAccessToken env a s of
           (None, s1) \<Rightarrow> (None, s1)
         | (Some tok, s1) \<Rightarrow>
             (let (em1, s2) = settle_identity env force a em tok s1;
                  ((summary, discovered, why), s3) = ask_endpoints env s2
              in apply_replies env a em1 tok summary discovered why s3)))"

section \<open>The synchronous part of a full pass\<close>

definition flagged :: "ms \<Rightarrow> managed_account \<Rightarrow> bool" where
  "flagged t a = (authRequired a \<or>
     list_ex (\<lambda>f. case cooldowns a f of None \<Rightarrow> False | Some cd \<Rightarrow> cooldownUntil cd > t) [Google, Anthropic, Openai, UnknownFamily])"

definition reconcile :: "refresh_env \<Rightarrow> quota_service \<Rightarrow> managed_account \<Rightarrow> quota_service" where
  "reconcile env s a0 =
     (let a = live s a0 in
      if systemHome a \<noteq> Some True \<or> \<not> flagged (re_now env) a then s
      else case detectEmailFromAgyLogs (readdir env) (home_of (homedir env) a) of
             None \<Rightarrow> s
           | Some e \<Rightarrow> if Some e \<noteq> email a
                then s\<lparr>q_pool := resetAccountIdentity (re_world env) (acc_id a) e (q_pool s)\<rparr> else s)"

definition pass_accounts :: "refresh_env \<Rightarrow> bool \<Rightarrow> quota_service \<Rightarrow> managed_account list \<times> quota_service" where
  "pass_accounts env force s =
     (if force then (accounts (data (q_pool s)), s)
      else (let s1 = foldl (reconcile env) s (accounts (data (q_pool s)))
            in (filter (shouldPollAccount (re_now env)) (accounts (data (q_pool s1))), s1)))"

text \<open>The refreshes of a pass, in the schedule that completes them in pool order.\<close>

definition runRefreshAllCycle :: "(string \<Rightarrow> refresh_env) \<Rightarrow> refresh_env \<Rightarrow> bool \<Rightarrow> quota_service \<Rightarrow> quota_service" where
  "runRefreshAllCycle envs env force s =
     (let (as, s1) = pass_accounts env force s
      in foldl (\<lambda>s a. snd (refreshAccountQuota (envs (acc_id a)) force a s)) s1 as)"

section \<open>Token files\<close>

text \<open>\<open>Date.parse\<close> accepts at least the format the language fixes.\<close>

definition date_parse_ok :: "(string \<Rightarrow> ms option) \<Rightarrow> bool" where
  "date_parse_ok dparse = (\<forall>s t. iso_parse s = Some t \<longrightarrow> dparse s = Some t)"

lemma parse_local_expiry:
  assumes "date_parse_ok dparse" "\<bar>tz t\<bar> < 1440" "four_digit_year (t + tz t * 60000)"
  shows "parseExpiryMs dparse (Some (JStr (formatLocalIso tz t))) = Some (of_int t)"
  using assms iso_parse_formatLocalIso [of tz t, OF assms(2,3)] by (simp add: date_parse_ok_def parseExpiryMs_def)

lemma parse_utc_expiry:
  assumes "date_parse_ok dparse" "four_digit_year t" "toISOString t = Some str"
  shows "parseExpiryMs dparse (Some (JStr str)) = Some (of_int t)"
  using assms iso_parse_toISOString [OF assms(2,3)] by (simp add: date_parse_ok_def parseExpiryMs_def)

definition plain_token :: "token_set \<Rightarrow> string \<Rightarrow> string option \<Rightarrow> bool" where
  "plain_token ts tk rt = (access_token ts = JStr tk \<and> tk \<noteq> [] \<and> refresh_token ts = map_option JStr rt \<and> rt \<noteq> Some [])"

lemma disk_token_own: "disk_token env a (fs(getTokenFilePath (homedir env) a \<mapsto> Some raw)) =
    (case normalizeStoredToken (date_parse env) (re_now env) raw of Some tok \<Rightarrow> if usable tok then Some tok else None | None \<Rightarrow> None)"
  by (simp add: disk_token_def)

text \<open>
  C30. A completed sign-in and the quota service agree on the token file: what the sign-in writes for
  an isolated account, the service reads back as the same access token, refresh token and expiry
  instant, for every time zone offset and every \<open>Date.parse\<close> that accepts the standard format.
\<close>

theorem signin_token_read_back:
  assumes "plain_token ts tk rt" "expiryMs ts = Some (of_int e)" "e \<noteq> 0"
    and "date_parse_ok (date_parse env)" "\<bar>tz e\<bar> < 1440" "four_digit_year (e + tz e * 60000)"
    and "\<not> on_system_home a"
  shows "getStoredToken env a (writeAgyTokenFile tz t (acc_dir a) ts fs) =
    Some \<lparr>accessToken = Some tk, refreshToken = rt, st_expiryMs = Some (of_int e)\<rparr>"
proof -
  have tr: "js_trunc (of_int e) = e" by (simp add: js_trunc_def)
  have path: "token_file (acc_dir a) = getTokenFilePath (homedir env) a"
    using assms(7) by (simp add: getTokenFilePath_def home_of_def)
  have "normalizeStoredToken (date_parse env) (re_now env) (agyTokenDoc tz t ts) =
      Some \<lparr>accessToken = Some tk, refreshToken = rt, st_expiryMs = Some (of_int e)\<rparr>"
    using assms(1-3) parse_local_expiry [of _ tz e, OF assms(4-6)]
    by (cases rt) (auto simp: normalizeStoredToken_def token_source_def agyTokenDoc_def plain_token_def tr)
  with assms(1,7) show ?thesis
    by (simp add: getStoredToken_def writeAgyTokenFile_def path disk_token_own usable_def truthy_str_def plain_token_def)
qed

definition demo_env :: refresh_env where
  "demo_env = \<lparr>re_now = 1000000000000, re_world = \<lparr>now = 1000000000000, write_ok = True, fs_ok = True\<rparr>,
     homedir = ''/root'', keychain = None, readdir = (\<lambda>_. None), date_parse = iso_parse,
     client = \<lparr>env_client_id = None, env_client_secret = None\<rparr>,
     token_post = (\<lambda>_ _. Inl (''TypeError'', ''fetch failed'')), token_write_ok = True,
     userinfo = (\<lambda>_ _. Inl (''TypeError'', ''fetch failed'')),
     summary_at = (\<lambda>_. EpStatus 500), models_at = (\<lambda>_. EpStatus 500),
     models_fail_last = True, models_ok_last = True\<rparr>"

definition demo_tokens :: token_set where
  "demo_tokens = \<lparr>access_token = JStr ''ya29'', token_type = JStr ''Bearer'', refresh_token = Some (JStr ''1//r''),
     expiryMs = Some 1700000000000\<rparr>"

lemma date_parse_ok_iso: "date_parse_ok iso_parse"
  by (simp add: date_parse_ok_def)

theorem signin_token_read_back_witness:
  "getStoredToken demo_env (acct ''x'') (writeAgyTokenFile (\<lambda>_. 480) 0 ''base/x'' demo_tokens Map.empty) =
     Some \<lparr>accessToken = Some ''ya29'', refreshToken = Some ''1//r'', st_expiryMs = Some 1700000000000\<rparr>"
proof -
  have "four_digit_year (1700000000000 + (\<lambda>_. 480) (1700000000000::int) * 60000)"
    by (simp add: four_digit_year_def year_fields_of year_from_day_def day_from_year_def Let_def)
  moreover have "plain_token demo_tokens ''ya29'' (Some ''1//r'')" "expiryMs demo_tokens = Some (of_int 1700000000000)"
    by (simp_all add: plain_token_def demo_tokens_def)
  moreover have "date_parse_ok (date_parse demo_env)" by (simp add: demo_env_def date_parse_ok_iso)
  moreover have "\<not> on_system_home (acct ''x'')" "acc_dir (acct ''x'') = ''base/x''"
    by (simp_all add: on_system_home_def acct_def blank_account_def path_join_def)
  ultimately show ?thesis
    using signin_token_read_back [of demo_tokens "''ya29''" "Some ''1//r''" 1700000000000 demo_env "\<lambda>_. 480" "acct ''x''" 0 Map.empty]
    by simp
qed

text \<open>
  Rewriting keeps the rest: a refreshed token replaces the access token and the expiry in whichever
  shape the document has, and the refresh token survives. A document whose \<open>token\<close> is an array is
  the exception: the reader takes it for the flat shape, the writer for the nested one.
\<close>

lemma stringField_set:
  "k \<notin> set ks \<Longrightarrow> stringField (JObj (jm_set k v kvs)) ks = stringField (JObj kvs) ks"
proof (induction ks)
  case (Cons a ks)
  then have "stringField (JObj (jm_set k v kvs)) ks = stringField (JObj kvs) ks" "map_of (jm_set k v kvs) a = map_of kvs a"
    by auto
  then show ?case unfolding stringField.simps jget.simps by (simp only:)
qed simp

lemma stringField_hit: "s \<noteq> [] \<Longrightarrow> stringField (JObj (jm_set k (JStr s) kvs)) (k # ks) = Some s"
  by simp

lemma stringField_other: "\<not> is_obj j \<Longrightarrow> stringField j ks = None"
  by (cases j; induction ks) simp_all

declare stringField.simps [simp del]

lemmas token_fields = stringField_set stringField_hit normalizeStoredToken_def

lemma rewritten_normalizes:
  assumes raw: "normalizeStoredToken dparse t raw = Some tok" and arr: "\<forall>xs. jget raw ''token'' \<noteq> Some (JArr xs)"
    and tk: "tk \<noteq> []" and d: "date_parse_ok dparse" "four_digit_year e" and big: "100000000000 \<le> e" "e \<le> 8640000000000000"
    and doc: "rewritten (JStr tk) (Some (of_int e)) raw = Some doc"
  shows "normalizeStoredToken dparse t doc = Some (tok\<lparr>accessToken := Some tk, st_expiryMs := Some (of_int e)\<rparr>)"
proof -
  obtain kvs where kvs: "raw = JObj kvs"
    using raw by (cases raw) (auto simp: normalizeStoredToken_def token_source_def stringField_other)
  have tr: "js_trunc (of_int e) = e" by (simp add: js_trunc_def)
  obtain str where str: "toISOString e = Some str" using big by (auto simp: toISOString_def)
  note p = parse_utc_expiry [OF d str]
  have pn: "parseExpiryMs dparse (Some (JNum (of_int e))) = Some (of_int e)"
    using big(1) by (simp add: parseExpiryMs_def)
  show ?thesis
  proof (cases "\<exists>n. map_of kvs ''token'' = Some (JObj n)")
    case True
    then obtain n where n: "map_of kvs ''token'' = Some (JObj n)" by blast
    with doc kvs str big have "doc = JObj (jm_set ''token'' (JObj (jm_set ''expiry'' (JStr str) (jm_set ''access_token'' (JStr tk) n))) kvs)"
      by (simp add: rewritten_def tr Let_def)
    moreover have "token_source raw = (JObj n, True)" by (simp add: token_source_def kvs n)
    moreover from calculation(1) have "token_source doc = (JObj (jm_set ''expiry'' (JStr str) (jm_set ''access_token'' (JStr tk) n)), True)"
      by (simp add: token_source_def)
    ultimately show ?thesis
      using raw kvs tk p by (auto simp: token_fields Let_def split: if_splits)
  next
    case False
    then have src: "token_source (JObj kvs') = (JObj kvs', False)" if "map_of kvs' ''token'' = map_of kvs ''token''" for kvs'
      using that by (auto simp: token_source_def split: option.splits json.splits)
    have doc: "doc = JObj (jm_set ''expiry'' (JNum (of_int e)) (jm_set ''access_token'' (JStr tk) kvs))"
    proof (cases "map_of kvs ''token''")
      case None
      with kvs doc str big show ?thesis by (simp add: rewritten_def tr)
    next
      case (Some j)
      with False arr kvs doc str big show ?thesis by (cases j) (simp_all add: rewritten_def tr)
    qed
    have "token_source doc = (doc, False)" "token_source raw = (raw, False)"
      unfolding doc kvs by (rule src; simp)+
    with doc raw kvs tk pn show ?thesis
      by (auto simp: token_fields Let_def split: if_splits)
  qed
qed

section \<open>What a refresh writes\<close>

text \<open>The models of one family that carry a fraction, in the order of the reply.\<close>

definition models_of :: "model_family \<Rightarrow> (string \<times> discovered_model) list \<Rightarrow> (string \<times> discovered_model \<times> rat) list" where
  "models_of f entries =
     map_filter_opt (\<lambda>(i, e). if modelFamilyOf (Some i) = f then map_option (\<lambda>r. (i, e, r)) (dm_remainingFraction e) else None) entries"

definition quota_item :: "string \<times> discovered_model \<times> rat \<Rightarrow> model_quota" where
  "quota_item = (\<lambda>(i, e, r). \<lparr>mq_modelId = i, mq_displayName = Some (str_or (dm_displayName e) i),
     mq_remainingFraction = Some r, mq_resetTime = dm_resetTime e\<rparr>)"

definition later_reset :: "(string \<Rightarrow> ms option) \<Rightarrow> string option \<Rightarrow> string option \<Rightarrow> string option" where
  "later_reset dparse old new =
     (if truthy_str new \<and> (\<not> truthy_str old \<or> date_after dparse (or_else new []) (or_else old [])) then new else old)"

text \<open>
  One family's entry after the model list, given what the summary said of it and what was known
  before: the first model that says something decides.
\<close>

fun complete_entry :: "(string \<Rightarrow> ms option) \<Rightarrow> family_quota \<Rightarrow> (string \<times> discovered_model \<times> rat) list \<Rightarrow> family_quota" where
  "complete_entry dparse q [] = q"
| "complete_entry dparse q ((i, e, r) # xs) =
     (if remainingFraction q \<noteq> None then q
      else if r < 1 then q\<lparr>remainingFraction := Some r, resetTime := dm_resetTime e\<rparr>
      else complete_entry dparse (if r = 1 then q\<lparr>resetTime := later_reset dparse (resetTime q) (dm_resetTime e)\<rparr> else q) xs)"

definition family_entry ::
  "(string \<Rightarrow> ms option) \<Rightarrow> ms \<Rightarrow> family_quota option \<Rightarrow> family_quota option \<Rightarrow> (string \<times> discovered_model \<times> rat) list \<Rightarrow> family_quota option" where
  "family_entry dparse t prev summary xs =
     (case summary of
        Some q \<Rightarrow> Some (complete_entry dparse q xs)
      | None \<Rightarrow>
          (case xs of
             [] \<Rightarrow> None
           | (i, e, r) # _ \<Rightarrow> Some (mergeFallbackFamilyQuota prev (bare_quota t r (dm_resetTime e)))))"

lemma complete_entry_done: "remainingFraction q \<noteq> None \<Longrightarrow> complete_entry dparse q xs = q"
  by (cases xs) auto

lemma complete_entry_snoc:
  "complete_entry dparse q (xs @ [(i, e, r)]) =
     (let q1 = complete_entry dparse q xs in complete_entry dparse q1 [(i, e, r)])"
  by (induction dparse q xs rule: complete_entry.induct) (auto simp: complete_entry_done Let_def)

lemma merged_complete: "remainingFraction (mergeFallbackFamilyQuota prev (bare_quota t r reset)) \<noteq> None"
  by (auto simp: mergeFallbackFamilyQuota_def bare_quota_def split: option.splits)

lemma models_of_snoc:
  "models_of f (es @ [(i, e)]) = models_of f es @
     (if modelFamilyOf (Some i) = f then (case dm_remainingFraction e of Some r \<Rightarrow> [(i, e, r)] | None \<Rightarrow> []) else [])"
  by (induction es) (auto simp: models_of_def split: option.splits)

lemma family_entry_snoc:
  "family_entry dparse t prev summary (xs @ [(i, e, r)]) =
     (case family_entry dparse t prev summary xs of
        None \<Rightarrow> Some (mergeFallbackFamilyQuota prev (bare_quota t r (dm_resetTime e)))
      | Some q \<Rightarrow> Some (complete_entry dparse q [(i, e, r)]))"
proof (cases summary)
  case None
  then show ?thesis
    by (cases xs) (auto simp: family_entry_def complete_entry_done [OF merged_complete] merged_complete)
next
  case (Some q)
  then show ?thesis by (simp only: family_entry_def option.case complete_entry_snoc Let_def)
qed

lemma ingest_models_spec:
  assumes "foldl (ingest_model dparse t prev) (base, Map.empty) es = (qs, ms)" "f \<noteq> UnknownFamily"
  shows "qs f = family_entry dparse t (prev f) (base f) (models_of f es) \<and>
    ms f = (if models_of f es = [] then None else Some (map quota_item (models_of f es)))"
  using assms(1)
proof (induction es arbitrary: qs ms rule: rev_induct)
  case Nil
  then show ?case by (auto simp: family_entry_def models_of_def split: option.splits)
next
  case (snoc x es)
  obtain i e where x: "x = (i, e)" by (cases x)
  obtain qs0 ms0 where f0: "foldl (ingest_model dparse t prev) (base, Map.empty) es = (qs0, ms0)"
    by (cases "foldl (ingest_model dparse t prev) (base, Map.empty) es")
  from snoc.IH [OF f0] have IH: "qs0 f = family_entry dparse t (prev f) (base f) (models_of f es)"
    "ms0 f = (if models_of f es = [] then None else Some (map quota_item (models_of f es)))" by auto
  have step: "ingest_model dparse t prev (qs0, ms0) (i, e) = (qs, ms)" using snoc.prems f0 x by simp
  show ?case
  proof (cases "modelFamilyOf (Some i) = f \<and> dm_remainingFraction e \<noteq> None")
    case False
    then have "models_of f (es @ [x]) = models_of f es" by (auto simp: models_of_snoc x split: option.splits)
    moreover have "qs f = qs0 f" "ms f = ms0 f"
      using step False by (auto simp: ingest_model_def Let_def split: if_splits option.splits)
    ultimately show ?thesis using IH by simp
  next
    case True
    then obtain r where r: "dm_remainingFraction e = Some r" by blast
    with True have m: "models_of f (es @ [x]) = models_of f es @ [(i, e, r)]" by (simp add: models_of_snoc x)
    show ?thesis
      using step True assms(2) r IH
      by (auto simp: m family_entry_snoc ingest_model_def quota_item_def later_reset_def Let_def
          split: if_splits option.splits)
  qed
qed

definition summary_entry :: "ms \<Rightarrow> quota_summary option \<Rightarrow> model_family \<Rightarrow> family_quota option" where
  "summary_entry t summary f =
     (case summary of
        None \<Rightarrow> None
      | Some sm \<Rightarrow>
          map_option (group_quota t) (find (\<lambda>g. f \<in> set (group_families g)) (rev (or_else (groups sm) []))))"

lemma ingest_group_at: "ingest_group t qs g f = (if f \<in> set (group_families g) then Some (group_quota t g) else qs f)"
  by (auto simp: ingest_group_def group_families_def Let_def)

lemma ingest_summary_at: "ingest_summary t summary f = summary_entry t summary f"
proof -
  have "foldl (ingest_group t) Map.empty gs f = map_option (group_quota t) (find (\<lambda>g. f \<in> set (group_families g)) (rev gs))" for gs
    by (induction gs rule: rev_induct) (auto simp: ingest_group_at)
  then show ?thesis by (simp add: ingest_summary_def summary_entry_def split: option.splits)
qed

text \<open>
  The two ingestion loops of a quota refresh, family by family: the entry written for a family is
  the one of the last summary group that names it, completed by the model list only while it has no
  fraction; without a summary group, a previously complete entry is kept over the partial data of the
  model list; and the family's models are attached in the order of the reply.
\<close>

lemma familyQuotas_by_family:
  assumes "f \<noteq> UnknownFamily"
  shows "familyQuotas dparse t prev summary discovered f =
    (let xs = models_of f (or_else (discovered_list discovered) [])
     in map_option (\<lambda>q. if xs = [] then q else q\<lparr>quota_models := Some (map quota_item xs)\<rparr>)
          (case summary_entry t summary f of
             Some q \<Rightarrow> Some (complete_entry dparse q xs)
           | None \<Rightarrow>
               (case xs of
                  [] \<Rightarrow> None
                | (i, e, r) # _ \<Rightarrow>
                    Some (case prev f of
                            Some p \<Rightarrow> if remainingFraction p \<noteq> None then p else bare_quota t r (dm_resetTime e)
                          | None \<Rightarrow> bare_quota t r (dm_resetTime e)))))"
proof -
  let ?es = "or_else (discovered_list discovered) []"
  obtain qs ms where f: "foldl (ingest_model dparse t prev) (ingest_summary t summary, Map.empty) ?es = (qs, ms)"
    by (cases "foldl (ingest_model dparse t prev) (ingest_summary t summary, Map.empty) ?es")
  have "familyQuotas dparse t prev summary discovered f = attach_models qs ms f"
    by (simp add: familyQuotas_def f)
  also have "\<dots> = map_option (\<lambda>q. if models_of f ?es = [] then q else q\<lparr>quota_models := Some (map quota_item (models_of f ?es))\<rparr>)
      (family_entry dparse t (prev f) (summary_entry t summary f) (models_of f ?es))"
    using ingest_models_spec [OF f assms] by (auto simp: attach_models_def ingest_summary_at split: option.splits)
  finally show ?thesis unfolding family_entry_def mergeFallbackFamilyQuota_def Let_def .
qed


text \<open>
  The family fraction is not the lowest of its models: of two models below one, the first decides.
\<close>

lemma first_model_decides:
  "let entry = (\<lambda>r. \<lparr>dm_remainingFraction = Some r, dm_resetTime = None, dm_displayName = None\<rparr>)
   in map_option remainingFraction
        (familyQuotas iso_parse 9 Map.empty None
          (Some \<lparr>dm_models = Some [(''gemini-3-pro'', entry (1 / 2)), (''gemini-3-flash'', entry (1 / 100))]\<rparr>) Google) =
      Some (Some (1 / 2))"
proof -
  have "modelFamilyOf (Some ''gemini-3-pro'') = Google" "modelFamilyOf (Some ''gemini-3-flash'') = Google" by code_simp+
  then show ?thesis
    by (simp add: familyQuotas_def ingest_summary_def discovered_list_def ingest_model_def mergeFallbackFamilyQuota_def
        attach_models_def bare_quota_def Let_def)
qed

section \<open>Whose quota it is\<close>

lemma find_upd_first:
  "(\<And>a. acc_id (f a) = acc_id a) \<Longrightarrow>
   find (\<lambda>a. acc_id a = j) (upd_first i f as) = (if j = i then map_option f (find (\<lambda>a. acc_id a = i) as) else find (\<lambda>a. acc_id a = j) as)"
  by (induction as) auto

lemma getAccount_upd:
  "(\<And>a. acc_id (f a) = acc_id a) \<Longrightarrow>
   getAccount (data (upd_account i f m)) j = (if j = i then map_option f (getAccount (data m) i) else getAccount (data m) j)"
  by (simp add: getAccount_def upd_account_def find_upd_first)

lemma getAccount_drop_active: "getAccount (data (drop_active i m)) j = getAccount (data m) j"
  by (simp add: getAccount_def drop_active_def)

lemma getAccount_id: "getAccount d i = Some a \<Longrightarrow> acc_id a = i"
  by (auto simp: getAccount_def dest: find_SomeD)

lemmas account_after = getAccount_upd getAccount_drop_active pool_data_simps

lemma getAccount_ops:
  "getAccount (data (clearAuthRequired w i m)) i = map_option (\<lambda>a. a\<lparr>authRequired := False, authError := None\<rparr>) (getAccount (data m) i)"
  "getAccount (data (markAuthRequired w i why m)) i = map_option (\<lambda>a. a\<lparr>authRequired := True,
     authError := Some (str_or why ''Authentication expired or revoked (invalid_grant)'')\<rparr>) (getAccount (data m) i)"
  "getAccount (data (resetAccountIdentity w i e m)) i = map_option (\<lambda>a. a\<lparr>email := Some e, cooldowns := Map.empty,
     quotas := Map.empty, authRequired := False, authError := None\<rparr>) (getAccount (data m) i)"
  "getAccount (data (updateAccountQuotas i qs em m)) i = map_option (\<lambda>a. a\<lparr>quotas := quotas a ++ qs,
     email := (if truthy_str em then em else email a)\<rparr>) (getAccount (data m) i)"
  by (simp_all add: clearAuthRequired_def markAuthRequired_def resetAccountIdentity_def updateAccountQuotas_def account_after
      split: option.splits)

lemma getValidAccessToken_frame:
  assumes "getValidAccessToken env a s = (r, s1)" "getAccount (data (q_pool s)) (acc_id a) = Some a"
  shows "preferredEndpointIndex s1 = preferredEndpointIndex s" "lastErrors s1 = lastErrors s"
    "\<exists>a1. getAccount (data (q_pool s1)) (acc_id a) = Some a1 \<and> email a1 = email a \<and> acc_id a1 = acc_id a"
proof -
  have l: "live s a = a" using assms(2) by (simp add: live_def)
  show "preferredEndpointIndex s1 = preferredEndpointIndex s" "lastErrors s1 = lastErrors s"
    "\<exists>a1. getAccount (data (q_pool s1)) (acc_id a) = Some a1 \<and> email a1 = email a \<and> acc_id a1 = acc_id a"
    using assms by (auto simp: getValidAccessToken_def l getAccount_ops Let_def split: option.splits if_splits sum.splits)
qed

definition fresh_identity :: "refresh_env \<Rightarrow> bool \<Rightarrow> managed_account \<Rightarrow> string \<Rightarrow> quota_service \<Rightarrow> bool" where
  "fresh_identity env force a e s = (e \<noteq> [] \<and> Some e \<noteq> email a \<and>
     (if force then \<forall>tok \<in> set_option (fst (getValidAccessToken env a s)). \<forall>px. info_email (fetchUserInfo env tok px) = Some e
      else detected_email env a = Some e))"

lemma ask_endpoints_pool:
  assumes "ask_endpoints env s = ((summary, discovered, why), s1)"
  shows "q_pool s1 = q_pool s" "lastErrors s1 = lastErrors s" "summary = fst (fetchQuotaSummary env s)"
    "discovered = fst (fetchAvailableModels env s)"
  using assms by (auto simp: ask_endpoints_def Let_def split: prod.splits option.splits)

lemma fetch_cong:
  "preferredEndpointIndex s = preferredEndpointIndex s1 \<Longrightarrow> fetchQuotaSummary env s = fetchQuotaSummary env s1"
  "preferredEndpointIndex s = preferredEndpointIndex s1 \<Longrightarrow> fetchAvailableModels env s = fetchAvailableModels env s1"
  by (simp_all add: fetchQuotaSummary_def fetchAvailableModels_def getOrderedEndpoints_def)

lemma refresh_cases:
  assumes "refreshAccountQuota env force a s = (r, s')" "force \<or> \<not> throttled (re_now env) (live s a)"
    and "getValidAccessToken env a s = (Some tok, s1)"
  obtains em1 s2 summary discovered why s3 where
    "settle_identity env force a (detected_email env (live s a)) tok s1 = (em1, s2)"
    "ask_endpoints env s2 = ((summary, discovered, why), s3)"
    "apply_replies env a em1 tok summary discovered why s3 = (r, s')"
  using assms by (auto simp: refreshAccountQuota_def Let_def split: prod.splits if_splits)

text \<open>
  C31. When a refresh that succeeds finds that the slot now belongs to another Google account, by the userinfo of a
  manual refresh or by the logs of a background one, nothing of the previous account is inherited:
  the slot carries the new address, no cooldown, no quarantine and exactly the quotas of this
  refresh, computed from the replies alone.
\<close>

theorem new_identity_inherits_nothing:
  assumes acc: "getAccount (data (q_pool s)) (acc_id a) = Some a"
    and new: "fresh_identity env force a e s" and due: "force \<or> \<not> throttled (re_now env) a"
    and run: "refreshAccountQuota env force a s = (Some qs, s')"
  shows "\<exists>b. getAccount (data (q_pool s')) (acc_id a) = Some b \<and> email b = Some e \<and> cooldowns b = Map.empty \<and>
    \<not> authRequired b \<and> authError b = None \<and> quotas b = qs \<and>
    qs = familyQuotas (date_parse env) (re_now env) Map.empty (fst (fetchQuotaSummary env s)) (fst (fetchAvailableModels env s))"
proof -
  have l: "live s a = a" using acc by (simp add: live_def)
  obtain tok s1 where g: "getValidAccessToken env a s = (Some tok, s1)"
    using run due by (auto simp: refreshAccountQuota_def l Let_def split: prod.splits option.splits if_splits)
  obtain a1 where a1: "getAccount (data (q_pool s1)) (acc_id a) = Some a1" "email a1 = email a"
    using getValidAccessToken_frame(3) [OF g acc] by blast
  obtain em1 s2 summary discovered why s3 where
    st: "settle_identity env force a (detected_email env a) tok s1 = (em1, s2)"
    and ask: "ask_endpoints env s2 = ((summary, discovered, why), s3)"
    and ap: "apply_replies env a em1 tok summary discovered why s3 = (Some qs, s')"
    using refresh_cases [OF run _ g] due l by metis
  have em1: "em1 = Some e" and s2: "s2 = s1\<lparr>q_pool := resetAccountIdentity (re_world env) (acc_id a) e (q_pool s1)\<rparr>"
    using st new a1 g by (auto simp: settle_identity_def fresh_identity_def live_def truthy_str_def Let_def split: if_splits)
  let ?b = "a1\<lparr>email := Some e, cooldowns := Map.empty, quotas := Map.empty, authRequired := False, authError := None\<rparr>"
  have b: "getAccount (data (q_pool s3)) (acc_id a) = Some ?b"
    using ask_endpoints_pool(1) [OF ask] s2 a1 by (simp add: getAccount_ops)
  have pre: "preferredEndpointIndex s2 = preferredEndpointIndex s"
    using s2 getValidAccessToken_frame(1) [OF g acc] by simp
  have q: "qs = familyQuotas (date_parse env) (re_now env) Map.empty summary discovered"
    and s': "getAccount (data (q_pool s')) (acc_id a) = Some (?b\<lparr>quotas := Map.empty ++ qs, email := Some e\<rparr>)"
    using ap b em1 new
    by (auto simp: apply_replies_def live_def clearQuotaError_def getAccount_ops truthy_str_def fresh_identity_def Let_def
        split: if_splits)
  from q s' show ?thesis
    using ask_endpoints_pool(3,4) [OF ask] fetch_cong [OF pre] by simp
qed

definition switch_env :: refresh_env where
  "switch_env = demo_env\<lparr>userinfo := (\<lambda>_ _. Inr \<lparr>http_status = 200, http_json = Some (JObj [(''email'', JStr ''new@x.y'')])\<rparr>),
     summary_at := (\<lambda>_. EpOk (Some \<lparr>groups = Some []\<rparr>))\<rparr>"

definition old_account :: managed_account where
  "old_account = (acct ''x'')\<lparr>email := Some ''old@x.y'', authRequired := True,
     cooldowns := [Google \<mapsto> \<lparr>cooldownUntil = 9000000000000, reason = ''429'', consecutiveFailures = 1\<rparr>],
     quotas := [Google \<mapsto> bare_quota 5 0 None]\<rparr>"

definition demo_service :: quota_service where
  "demo_service = \<lparr>q_pool = (pool_of [])\<lparr>data := (data (pool_of []))\<lparr>accounts := [old_account]\<rparr>\<rparr>,
     q_files = [''base/x/.gemini/antigravity-cli/antigravity-oauth-token'' \<mapsto> Some (JObj [(''access_token'', JStr ''tk'')])],
     preferredEndpointIndex = 0, lastErrors = [], q_notified = 0\<rparr>"

lemma demo_found: "getAccount (data (q_pool demo_service)) (acc_id old_account) = Some old_account"
  by (simp add: demo_service_def getAccount_def)

lemma demo_stored:
  "getStoredToken switch_env old_account (q_files demo_service) =
     Some \<lparr>accessToken = Some ''tk'', refreshToken = None, st_expiryMs = None\<rparr>"
  "getStoredToken (switch_env\<lparr>summary_at := f\<rparr>) old_account (q_files demo_service) =
     Some \<lparr>accessToken = Some ''tk'', refreshToken = None, st_expiryMs = None\<rparr>"
  by (simp_all add: getStoredToken_def disk_token_def on_system_home_def old_account_def acct_def blank_account_def
      getTokenFilePath_def home_of_def token_file_def path_join_def demo_service_def switch_env_def demo_env_def
      normalizeStoredToken_def token_source_def stringField.simps parseExpiryMs_def expires_in_value_def usable_def truthy_str_def)

lemma demo_token: "getValidAccessToken switch_env old_account demo_service = (Some (JStr ''tk''), demo_service)"
  using demo_found by (simp add: getValidAccessToken_def live_def demo_stored fresh_def truthy_str_def)

lemma demo_new: "fresh_identity switch_env True old_account ''new@x.y'' demo_service"
  by (simp add: fresh_identity_def demo_token) (simp add: old_account_def switch_env_def fetchUserInfo_def info_email_def res_ok_def)

lemma demo_summary: "fst (fetchQuotaSummary switch_env demo_service) = Some \<lparr>groups = Some []\<rparr>"
  by (simp add: fetchQuotaSummary_def getOrderedEndpoints_def AGY_ENDPOINTS_def switch_env_def upt_rec)

theorem new_identity_inherits_nothing_witness:
  "authRequired (live demo_service old_account) \<and>
   (let s' = snd (refreshAccountQuota switch_env True old_account demo_service)
    in email (live s' old_account) = Some ''new@x.y'' \<and> \<not> authRequired (live s' old_account) \<and>
       cooldowns (live s' old_account) Google = None)"
proof -
  obtain r s' where run: "refreshAccountQuota switch_env True old_account demo_service = (r, s')"
    by (cases "refreshAccountQuota switch_env True old_account demo_service")
  obtain em1 s2 summary discovered why s3 where
    st: "settle_identity switch_env True old_account (detected_email switch_env (live demo_service old_account)) (JStr ''tk'') demo_service = (em1, s2)"
    and ask: "ask_endpoints switch_env s2 = ((summary, discovered, why), s3)"
    and ap: "apply_replies switch_env old_account em1 (JStr ''tk'') summary discovered why s3 = (r, s')"
    using refresh_cases [OF run _ demo_token] by blast
  have "preferredEndpointIndex s2 = preferredEndpointIndex demo_service"
    using st by (auto simp: settle_identity_def Let_def split: if_splits)
  then have "summary = Some \<lparr>groups = Some []\<rparr>"
    using ask_endpoints_pool(3) [OF ask] fetch_cong demo_summary by metis
  with ap obtain qs where "r = Some qs" by (auto simp: apply_replies_def Let_def)
  with new_identity_inherits_nothing [OF demo_found demo_new _ run [unfolded this]] run demo_found show ?thesis
    by (auto simp: live_def old_account_def)
qed

lemma getQuotaError_simps [simp]:
  "getQuotaError (clearQuotaError i s) i = None" "getQuotaError (noteQuotaError t i msg s) i = Some (msg, t)"
  "getQuotaError (s\<lparr>q_pool := p\<rparr>) = getQuotaError s"
  by (cases "map_of (lastErrors s) i") (simp_all add: getQuotaError_def clearQuotaError_def noteQuotaError_def fun_eq_iff)

text \<open>
  A failed refresh is always on record and a successful one always clears it: once a token is at
  hand, the refresh returns nothing exactly when neither chain of endpoints delivered, and then, and
  only then, the account carries an error stamped with the time of the attempt.
\<close>

lemma refresh_error_exact:
  assumes "force \<or> \<not> throttled (re_now env) (live s a)" "getValidAccessToken env a s = (Some tok, s1)"
    and run: "refreshAccountQuota env force a s = (r, s')"
  shows "(r = None \<longleftrightarrow> fst (fetchQuotaSummary env s1) = None \<and> discovered_list (fst (fetchAvailableModels env s1)) = None) \<and>
    (case getQuotaError s' (acc_id a) of None \<Rightarrow> r \<noteq> None | Some (msg, t) \<Rightarrow> r = None \<and> msg \<noteq> [] \<and> t = re_now env)"
proof -
  obtain em1 s2 summary discovered why s3 where
    st: "settle_identity env force a (detected_email env (live s a)) tok s1 = (em1, s2)"
    and ask: "ask_endpoints env s2 = ((summary, discovered, why), s3)"
    and ap: "apply_replies env a em1 tok summary discovered why s3 = (r, s')"
    using refresh_cases [OF run assms(1,2)] by metis
  have "preferredEndpointIndex s2 = preferredEndpointIndex s1"
    using st by (auto simp: settle_identity_def Let_def split: if_splits)
  then have "summary = fst (fetchQuotaSummary env s1)" "discovered = fst (fetchAvailableModels env s1)"
    using ask_endpoints_pool(3,4) [OF ask] fetch_cong by metis+
  then show ?thesis
    using ap by (auto simp: apply_replies_def Let_def split: if_splits)
qed


section \<open>The chain and the pass\<close>

text \<open>The preferred endpoint comes first and every endpoint is tried.\<close>

lemma getOrderedEndpoints_rotate: "getOrderedEndpoints s = rotate (preferredEndpointIndex s) AGY_ENDPOINTS"
  by (rule nth_equalityI) (simp_all add: getOrderedEndpoints_def nth_rotate Let_def)

lemma try_endpoints_finds:
  assumes "\<forall>e \<in> set es. ask e \<noteq> EpStatus 401 \<and> ask e \<noteq> EpStatus 403 \<and> ask e \<noteq> EpOk None"
    and "e \<in> set es" "ask e = EpOk (Some r)"
  shows "fst (try_endpoints what ask es pref reasons) \<noteq> None"
  using assms
proof (induction es arbitrary: pref reasons)
  case (Cons x es)
  then show ?case by (cases "ask x") (auto simp: Let_def)
qed simp

lemma fetchQuotaSummary_finds:
  assumes "\<forall>e \<in> set AGY_ENDPOINTS. summary_at env e \<noteq> EpStatus 401 \<and> summary_at env e \<noteq> EpStatus 403 \<and> summary_at env e \<noteq> EpOk None"
    and "e \<in> set AGY_ENDPOINTS" "summary_at env e = EpOk (Some r)"
  shows "fst (fetchQuotaSummary env s) \<noteq> None"
  unfolding fetchQuotaSummary_def getOrderedEndpoints_rotate using assms by (intro try_endpoints_finds [of _ _ e]) simp_all

text \<open>A background pass never contacts the backend for an account that is disabled, quarantined or cooling down.\<close>

lemma pass_polls_only_healthy:
  assumes "pass_accounts env False s = (as, s1)" "a \<in> set as"
  shows "enabled a \<and> \<not> authRequired a \<and> (\<forall>f cd. cooldowns a f = Some cd \<longrightarrow> cooldownUntil cd \<le> re_now env)"
proof -
  have "shouldPollAccount (re_now env) a" using assms by (auto simp: pass_accounts_def Let_def)
  moreover have "cooldownUntil cd \<le> re_now env" if "cooldowns a f = Some cd" "shouldPollAccount (re_now env) a" for f cd
    using that by (cases f) (auto simp: shouldPollAccount_def split: if_splits)
  ultimately show ?thesis by (auto simp: shouldPollAccount_def split: if_splits)
qed

lemma pool_inv_ops:
  assumes "pool_inv (data m)"
  shows "pool_inv (data (clearAuthRequired w i m))" "pool_inv (data (markAuthRequired w i why m))"
    "pool_inv (data (resetAccountIdentity w i e m))" "pool_inv (data (updateAccountQuotas i qs em m))"
  using pool_step_inv [OF assms, of "OpClearAuth w i"] pool_step_inv [OF assms, of "OpMark w i why"]
    pool_step_inv [OF assms, of "OpResetIdentity w i e"] pool_step_inv [OF assms, of "OpQuotas i qs em"]
  by simp_all

lemma refresh_pool_inv:
  assumes "pool_inv (data (q_pool s))"
  shows "pool_inv (data (q_pool (snd (refreshAccountQuota env force a s))))"
proof -
  have t: "pool_inv (data (q_pool s1))" if "getValidAccessToken env a s = (r, s1)" for r s1
    using that assms by (auto simp: getValidAccessToken_def pool_inv_ops Let_def split: option.splits if_splits sum.splits)
  have i: "pool_inv (data (q_pool s2))" if "settle_identity env force a em tok s1 = (em1, s2)" "pool_inv (data (q_pool s1))"
    for em tok s1 em1 s2
    using that by (auto simp: settle_identity_def pool_inv_ops Let_def split: if_splits)
  have r: "pool_inv (data (q_pool (snd (apply_replies env a em tok summary discovered why s3))))"
    if "pool_inv (data (q_pool s3))" for em tok summary discovered why s3
    using that by (auto simp: apply_replies_def noteQuotaError_def clearQuotaError_def pool_inv_ops Let_def)
  obtain o1 s1 where g: "getValidAccessToken env a s = (o1, s1)" by (cases "getValidAccessToken env a s")
  show ?thesis
  proof (cases o1)
    case None
    with g t [OF g] assms show ?thesis by (simp add: refreshAccountQuota_def Let_def)
  next
    case (Some tok)
    obtain em1 s2 where st: "settle_identity env force a (detected_email env (live s a)) tok s1 = (em1, s2)"
      by (cases "settle_identity env force a (detected_email env (live s a)) tok s1")
    obtain summary discovered why s3 where ask: "ask_endpoints env s2 = ((summary, discovered, why), s3)"
      by (cases "ask_endpoints env s2") auto
    show ?thesis
      using assms g Some st ask r i [OF st t [OF g]] ask_endpoints_pool(1) [OF ask]
      by (simp add: refreshAccountQuota_def Let_def)
  qed
qed

lemma reconcile_pool_inv: "pool_inv (data (q_pool s)) \<Longrightarrow> pool_inv (data (q_pool (reconcile env s a)))"
  by (auto simp: reconcile_def pool_inv_ops Let_def split: option.splits)

lemma pass_pool_inv:
  assumes "pool_inv (data (q_pool s))"
  shows "pool_inv (data (q_pool (runRefreshAllCycle envs env force s)))"
proof -
  have fold: "pool_inv (data (q_pool (foldl g s as)))"
    if "pool_inv (data (q_pool s))" "\<And>s a. pool_inv (data (q_pool s)) \<Longrightarrow> pool_inv (data (q_pool (g s a)))" for g s and as :: "managed_account list"
    using that by (induction as arbitrary: s) auto
  show ?thesis
    using assms by (auto simp: runRefreshAllCycle_def pass_accounts_def refresh_pool_inv reconcile_pool_inv Let_def intro!: fold)
qed

end
