(* ===== verification/QuotaCycle.thy ===== *)
theory QuotaCycle
  imports Prelude
begin

text \<open>
  Overlapping callers of \<open>refreshAllQuotas\<close> in \<open>src/host/quota.ts\<close>, as a labelled transition system.
  A call either starts a pass or waits for the running one. When a pass settles, its reactions run in
  the order in which they were registered: the owner clears \<open>refreshAllCycle\<close> and returns, then each
  waiting caller goes on. The log records what happened, in order.
\<close>

section \<open>States and steps\<close>

datatype event = Called nat bool | Started nat bool | Ended nat | Returned nat

text \<open>\<open>Rides\<close> is a caller at its first await, \<open>Waits\<close> a force caller at its second.\<close>

datatype waiter = Rides nat bool nat | Waits nat nat

record refresh_all =
  refreshAllCycle :: "nat option"
  passes :: "(nat \<times> bool \<times> nat) list"
  waiters :: "waiter list"
  next_pass :: nat
  events_log :: "event list"

definition no_pass :: refresh_all where
  "no_pass = \<lparr>refreshAllCycle = None, passes = [], waiters = [], next_pass = 0, events_log = []\<rparr>"

definition note_event :: "event \<Rightarrow> refresh_all \<Rightarrow> refresh_all" where
  "note_event e st = st\<lparr>events_log := events_log st @ [e]\<rparr>"

text \<open>\<open>const cycle = this.runRefreshAllCycle(force); this.refreshAllCycle = cycle\<close>.\<close>

definition start_pass :: "nat \<Rightarrow> bool \<Rightarrow> refresh_all \<Rightarrow> refresh_all" where
  "start_pass c force st =
     (let k = next_pass st
      in note_event (Started k force)
           (st\<lparr>refreshAllCycle := Some k, passes := passes st @ [(k, force, c)], next_pass := k + 1\<rparr>))"

definition refreshAllQuotas :: "nat \<Rightarrow> bool \<Rightarrow> refresh_all \<Rightarrow> refresh_all" where
  "refreshAllQuotas c force st =
     (let st1 = note_event (Called c force) st
      in case refreshAllCycle st1 of
           Some k \<Rightarrow> st1\<lparr>waiters := waiters st1 @ [Rides c force k]\<rparr>
         | None \<Rightarrow> start_pass c force st1)"

fun waits_for :: "waiter \<Rightarrow> nat" where
  "waits_for (Rides c force k) = k"
| "waits_for (Waits c k) = k"

text \<open>What a waiting caller does when the pass it waits for has settled.\<close>

fun resume_caller :: "refresh_all \<Rightarrow> waiter \<Rightarrow> refresh_all" where
  "resume_caller st (Waits c k) = note_event (Returned c) st"
| "resume_caller st (Rides c force k) =
     (if \<not> force then note_event (Returned c) st
      else case refreshAllCycle st of
             Some j \<Rightarrow> st\<lparr>waiters := waiters st @ [Waits c j]\<rparr>
           | None \<Rightarrow> start_pass c True st)"

text \<open>The owner's continuation: the \<open>finally\<close> block and the return.\<close>

definition finish_owner :: "nat \<Rightarrow> nat \<Rightarrow> refresh_all \<Rightarrow> refresh_all" where
  "finish_owner k c st =
     note_event (Returned c) (if refreshAllCycle st = Some k then st\<lparr>refreshAllCycle := None\<rparr> else st)"

definition settle_pass :: "nat \<Rightarrow> nat \<Rightarrow> refresh_all \<Rightarrow> refresh_all" where
  "settle_pass k c st =
     (let mine = filter (\<lambda>w. waits_for w = k) (waiters st);
          st1 = note_event (Ended k) (st\<lparr>passes := filter (\<lambda>(j, _). j \<noteq> k) (passes st),
                  waiters := filter (\<lambda>w. waits_for w \<noteq> k) (waiters st)\<rparr>)
      in foldl resume_caller (finish_owner k c st1) mine)"

inductive pass_step :: "refresh_all \<Rightarrow> refresh_all \<Rightarrow> bool" where
  call: "(\<forall>f. Called c f \<notin> set (events_log st)) \<Longrightarrow> pass_step st (refreshAllQuotas c force st)"
| settled: "(k, force, c) \<in> set (passes st) \<Longrightarrow> pass_step st (settle_pass k c st)"

inductive pass_reachable :: "refresh_all \<Rightarrow> bool" where
  init: "pass_reachable no_pass"
| more: "pass_reachable st \<Longrightarrow> pass_step st st' \<Longrightarrow> pass_reachable st'"

inductive_cases pass_stepE: "pass_step st st'"

section \<open>What the log says of a caller\<close>

text \<open>The events after the call.\<close>

fun since_call :: "nat \<Rightarrow> event list \<Rightarrow> event list" where
  "since_call c [] = []"
| "since_call c (e # es) = (if (\<exists>f. e = Called c f) then es else since_call c es)"

definition was_called :: "nat \<Rightarrow> bool \<Rightarrow> event list \<Rightarrow> bool" where
  "was_called c f es = (Called c f \<in> set es)"

definition ended_passes :: "event list \<Rightarrow> nat" where
  "ended_passes es = length (filter (\<lambda>e. \<exists>k. e = Ended k) es)"

text \<open>A pass of the wanted kind started and ended in this stretch.\<close>

definition whole_pass :: "bool \<Rightarrow> event list \<Rightarrow> bool" where
  "whole_pass force es = (\<exists>k us vs ws. es = us @ Started k force # vs @ Ended k # ws)"

lemma since_snoc: "was_called c f es \<Longrightarrow> since_call c (es @ [e]) = since_call c es @ [e]"
  by (induction es) (auto simp: was_called_def)

lemma called_snoc: "was_called c f es \<Longrightarrow> was_called c f (es @ [e])"
  by (simp add: was_called_def)

lemma ended_passes_snoc: "ended_passes (es @ [e]) = ended_passes es + (case e of Ended _ \<Rightarrow> 1 | _ \<Rightarrow> 0)"
  by (auto simp: ended_passes_def split: event.splits)

lemma whole_pass_snoc: "whole_pass f es \<Longrightarrow> whole_pass f (es @ [e])"
  unfolding whole_pass_def by (metis append.assoc append_Cons)

lemma whole_pass_ended:
  assumes "Started k f \<in> set es"
  shows "whole_pass f (es @ [Ended k])"
proof -
  from assms obtain us vs where "es = us @ Started k f # vs" by (auto simp: in_set_conv_decomp)
  then show ?thesis unfolding whole_pass_def by (metis append.assoc append_Cons)
qed

section \<open>The invariant\<close>

definition call_pending :: "nat \<Rightarrow> bool \<Rightarrow> nat \<Rightarrow> event list \<Rightarrow> bool" where
  "call_pending c f n es = (was_called c f es \<and> Returned c \<notin> set es \<and> ended_passes (since_call c es) \<le> n)"

text \<open>A caller whose answer is the pass \<open>k\<close>.\<close>

definition answered_by :: "nat \<Rightarrow> nat \<Rightarrow> bool \<Rightarrow> event list \<Rightarrow> bool" where
  "answered_by c k f es = (call_pending c f 1 es \<and> Started k f \<in> set (since_call c es))"

fun waiter_ok :: "event list \<Rightarrow> waiter \<Rightarrow> bool" where
  "waiter_ok es (Rides c f k) = call_pending c f 0 es"
| "waiter_ok es (Waits c k) = answered_by c k True es"

text \<open>A caller whose first await is over.\<close>

fun woken_ok :: "event list \<Rightarrow> waiter \<Rightarrow> bool" where
  "woken_ok es (Rides c f k) = (call_pending c f 1 es \<and> ended_passes (since_call c es) = 1)"
| "woken_ok es (Waits c k) = (call_pending c True 2 es \<and> whole_pass True (since_call c es))"

fun waiter_caller :: "waiter \<Rightarrow> nat" where
  "waiter_caller (Rides c f k) = c"
| "waiter_caller (Waits c k) = c"

text \<open>The events between the call and the return.\<close>

definition call_window :: "nat \<Rightarrow> event list \<Rightarrow> event list" where
  "call_window c es = takeWhile (\<lambda>e. e \<noteq> Returned c) (since_call c es)"

definition all_served :: "event list \<Rightarrow> bool" where
  "all_served es = (\<forall>c. Returned c \<in> set es \<longrightarrow>
     (\<exists>f. was_called c f es) \<and> Returned c \<in> set (since_call c es) \<and>
     0 < ended_passes (call_window c es) \<and> (was_called c True es \<longrightarrow> whole_pass True (call_window c es)))"

definition one_call :: "event list \<Rightarrow> bool" where
  "one_call es = (\<forall>c f g. was_called c f es \<and> was_called c g es \<longrightarrow> f = g)"

fun quiet :: "event \<Rightarrow> bool" where
  "quiet (Called c f) = True"
| "quiet (Started k f) = True"
| "quiet e = False"

lemma pending_quiet: "call_pending c f n es \<Longrightarrow> quiet e \<Longrightarrow> call_pending c f n (es @ [e])"
  by (cases e) (auto simp: call_pending_def called_snoc since_snoc ended_passes_snoc)

lemma pending_other: "call_pending c f n es \<Longrightarrow> c \<noteq> d \<Longrightarrow> call_pending c f n (es @ [Returned d])"
  by (auto simp: call_pending_def called_snoc since_snoc ended_passes_snoc)

lemma pending_ended: "call_pending c f n es \<Longrightarrow> call_pending c f (Suc n) (es @ [Ended k])"
  by (auto simp: call_pending_def called_snoc since_snoc ended_passes_snoc)

lemma since_pending: "call_pending c f n es \<Longrightarrow> since_call c (es @ [e]) = since_call c es @ [e]"
  by (auto simp: call_pending_def since_snoc)

lemma answered_quiet: "answered_by c k f es \<Longrightarrow> quiet e \<Longrightarrow> answered_by c k f (es @ [e])"
  by (auto simp: answered_by_def pending_quiet since_pending)

lemma answered_other: "answered_by c k f es \<Longrightarrow> c \<noteq> d \<Longrightarrow> answered_by c k f (es @ [Returned d])"
  by (auto simp: answered_by_def pending_other since_pending)

lemma waiter_quiet: "waiter_ok es w \<Longrightarrow> quiet e \<Longrightarrow> waiter_ok (es @ [e]) w"
  by (cases w) (auto simp: pending_quiet answered_quiet)

lemma waiter_other: "waiter_ok es w \<Longrightarrow> waiter_caller w \<noteq> d \<Longrightarrow> waiter_ok (es @ [Returned d]) w"
  by (cases w) (auto simp: pending_other answered_other)

lemma woken_quiet: "woken_ok es w \<Longrightarrow> quiet e \<Longrightarrow> woken_ok (es @ [e]) w"
  by (cases w) (auto simp: pending_quiet since_pending ended_passes_snoc whole_pass_snoc split: event.splits)

lemma woken_other: "woken_ok es w \<Longrightarrow> waiter_caller w \<noteq> d \<Longrightarrow> woken_ok (es @ [Returned d]) w"
  by (cases w) (auto simp: pending_other since_pending ended_passes_snoc whole_pass_snoc)

lemma since_in: "e \<in> set (since_call c es) \<Longrightarrow> e \<in> set es"
  by (induction es) (auto split: if_splits)

lemma call_window_snoc: "was_called c f es \<Longrightarrow> Returned c \<in> set (since_call c es) \<Longrightarrow> call_window c (es @ [e]) = call_window c es"
  by (simp add: call_window_def since_snoc takeWhile_append1)

lemma since_uncalled: "\<forall>f. Called c f \<notin> set es \<Longrightarrow> since_call c (es @ [Called c g]) = []"
  by (induction es) auto

lemma served_snoc:
  assumes "all_served es" "\<forall>c. e \<noteq> Returned c" "\<And>c f. e = Called c f \<Longrightarrow> \<forall>g. \<not> was_called c g es"
  shows "all_served (es @ [e])"
proof -
  have "Returned c \<in> set (since_call c (es @ [e])) \<and> 0 < ended_passes (call_window c (es @ [e])) \<and> (\<exists>f. was_called c f (es @ [e])) \<and>
      (was_called c True (es @ [e]) \<longrightarrow> whole_pass True (call_window c (es @ [e])))" if r: "Returned c \<in> set (es @ [e])" for c
  proof -
    from r assms(2) have "Returned c \<in> set es" by auto
    with assms(1) obtain f where f: "was_called c f es" and s: "Returned c \<in> set (since_call c es)" "0 < ended_passes (call_window c es)"
      "was_called c True es \<Longrightarrow> whole_pass True (call_window c es)" by (auto simp: all_served_def)
    have "was_called c True (es @ [e]) \<Longrightarrow> was_called c True es" using f assms(3) by (auto simp: was_called_def)
    with f s called_snoc [OF f, of e] show ?thesis by (auto simp: since_snoc call_window_snoc)
  qed
  then show ?thesis by (auto simp: all_served_def)
qed

lemma served_return:
  assumes "all_served es" "one_call es" "call_pending c f n es" "0 < ended_passes (since_call c es)" "f \<Longrightarrow> whole_pass True (since_call c es)"
  shows "all_served (es @ [Returned c])"
proof -
  from assms(3) have f: "was_called c f es" "Returned c \<notin> set es" by (auto simp: call_pending_def)
  have w: "call_window c (es @ [Returned c]) = since_call c es"
    using f(2) since_in [of "Returned c" c es]
    unfolding call_window_def since_snoc [OF f(1)] by (subst takeWhile_append2) auto
  have c: "was_called c True (es @ [Returned c]) \<Longrightarrow> f" using assms(2) f(1) by (auto simp: one_call_def was_called_def)
  have "(\<exists>g. was_called d g (es @ [Returned c])) \<and> Returned d \<in> set (since_call d (es @ [Returned c])) \<and>
      0 < ended_passes (call_window d (es @ [Returned c])) \<and> (was_called d True (es @ [Returned c]) \<longrightarrow> whole_pass True (call_window d (es @ [Returned c])))"
    if d: "Returned d \<in> set (es @ [Returned c])" for d
  proof (cases "d = c")
    case True
    with f assms(4,5) c w called_snoc [OF f(1)] show ?thesis by (auto simp: since_snoc)
  next
    case False
    with d assms(1) obtain g where g: "was_called d g es" and s: "Returned d \<in> set (since_call d es)" "0 < ended_passes (call_window d es)"
      "was_called d True es \<Longrightarrow> whole_pass True (call_window d es)" by (auto simp: all_served_def)
    have "was_called d True (es @ [Returned c]) \<Longrightarrow> was_called d True es" by (simp add: was_called_def)
    with g s called_snoc [OF g, of "Returned c"] show ?thesis by (auto simp: since_snoc call_window_snoc)
  qed
  then show ?thesis by (auto simp: all_served_def)
qed

definition unfinished :: "refresh_all \<Rightarrow> nat list" where
  "unfinished st = map (\<lambda>(k, f, c). c) (passes st) @ map waiter_caller (waiters st)"

text \<open>At most one pass runs, it is the one \<open>refreshAllCycle\<close> holds, and everybody waits for it.\<close>

definition pass_shape :: "refresh_all \<Rightarrow> bool" where
  "pass_shape st =
     (case passes st of
        [] \<Rightarrow> refreshAllCycle st = None \<and> waiters st = []
      | (k, f, c) # rest \<Rightarrow> rest = [] \<and> refreshAllCycle st = Some k \<and> answered_by c k f (events_log st) \<and>
          (\<forall>w \<in> set (waiters st). waits_for w = k \<and> waiter_ok (events_log st) w))"

text \<open>The invariant while the callers \<open>ws\<close> still have to go on.\<close>

definition pass_inv :: "refresh_all \<Rightarrow> waiter list \<Rightarrow> bool" where
  "pass_inv st ws =
     (all_served (events_log st) \<and> one_call (events_log st) \<and> pass_shape st \<and>
      distinct (unfinished st @ map waiter_caller ws) \<and>
      (\<forall>c f. was_called c f (events_log st) \<longrightarrow> c \<in> set (unfinished st @ map waiter_caller ws) \<or> Returned c \<in> set (events_log st)) \<and>
      (\<forall>w \<in> set ws. woken_ok (events_log st) w) \<and>
      (\<forall>w \<in> set ws. \<forall>(k, f, c) \<in> set (passes st). f \<and> Started k True \<in> set (since_call (waiter_caller w) (events_log st))))"

lemma since_woken: "woken_ok es w \<Longrightarrow> since_call (waiter_caller w) (es @ [e]) = since_call (waiter_caller w) es @ [e]"
  by (cases w) (auto simp: since_pending)

lemma one_call_snoc: "one_call es \<Longrightarrow> \<forall>c f. e \<noteq> Called c f \<Longrightarrow> one_call (es @ [e])"
  by (auto simp: one_call_def was_called_def)

lemma mid_return:
  assumes "pass_inv st (w # ws)" "waiter_caller w = c" "call_pending c f n (events_log st)" "0 < ended_passes (since_call c (events_log st))"
    and "f \<Longrightarrow> whole_pass True (since_call c (events_log st))"
  shows "pass_inv (note_event (Returned c) st) ws"
proof -
  have d: "c \<notin> set (unfinished st)" "\<forall>v \<in> set ws. waiter_caller v \<noteq> c"
    using assms(1,2) by (auto simp: pass_inv_def image_iff)
  from d(1) have e: "\<forall>v \<in> set (waiters st). waiter_caller v \<noteq> c" "\<forall>(k, f, o1) \<in> set (passes st). o1 \<noteq> c"
    by (auto simp: unfinished_def image_iff)
  have "pass_shape (note_event (Returned c) st)"
    using assms(1) e by (auto simp: pass_inv_def pass_shape_def note_event_def answered_other waiter_other split: list.splits)
  moreover have "all_served (events_log st @ [Returned c])"
    using assms(1) by (intro served_return [OF _ _ assms(3,4,5)]) (auto simp: pass_inv_def)
  ultimately show ?thesis
    using assms(1,2) d
    by (auto simp: pass_inv_def note_event_def unfinished_def one_call_snoc woken_other was_called_def since_woken)
qed

lemma mid_start:
  assumes "pass_inv st (Rides c True k # ws)" "refreshAllCycle st = None"
  shows "pass_inv (start_pass c True st) ws"
proof -
  let ?es = "events_log st"
  from assms have p: "passes st = []" "waiters st = []"
    by (auto simp: pass_inv_def pass_shape_def split: list.splits prod.splits)
  have pc: "call_pending c True 1 ?es" using assms(1) by (simp add: pass_inv_def)
  have "all_served (?es @ [Started (next_pass st) True])"
    using assms(1) by (intro served_snoc) (auto simp: pass_inv_def)
  moreover have "answered_by c (next_pass st) True (?es @ [Started (next_pass st) True])"
    using pc by (simp add: answered_by_def pending_quiet since_pending)
  ultimately show ?thesis
    using assms(1) p
    by (auto simp: pass_inv_def start_pass_def note_event_def pass_shape_def unfinished_def one_call_snoc woken_quiet was_called_def since_woken Let_def)
qed

lemma mid_wait:
  assumes "pass_inv st (Rides c True k # ws)" "refreshAllCycle st = Some j"
  shows "pass_inv (st\<lparr>waiters := waiters st @ [Waits c j]\<rparr>) ws"
proof -
  from assms obtain f o1 where p: "passes st = [(j, f, o1)]"
    by (auto simp: pass_inv_def pass_shape_def split: list.splits prod.splits)
  with assms(1) have "answered_by c j True (events_log st)" by (auto simp: pass_inv_def answered_by_def)
  with assms p show ?thesis by (auto simp: pass_inv_def pass_shape_def unfinished_def)
qed

lemma mid_resume:
  assumes "pass_inv st (w # ws)"
  shows "pass_inv (resume_caller st w) ws"
proof (cases w)
  case (Waits c k)
  with assms have "call_pending c True 2 (events_log st)" "whole_pass True (since_call c (events_log st))" by (auto simp: pass_inv_def)
  moreover have "0 < ended_passes es" if "whole_pass True es" for es using that by (auto simp: whole_pass_def ended_passes_def)
  ultimately show ?thesis using mid_return [OF assms] Waits by simp
next
  case (Rides c f k)
  with assms have p: "call_pending c f 1 (events_log st)" "0 < ended_passes (since_call c (events_log st))" by (auto simp: pass_inv_def)
  show ?thesis
  proof (cases f)
    case False
    with mid_return [OF assms _ p] Rides show ?thesis by simp
  next
    case True
    with assms Rides show ?thesis by (cases "refreshAllCycle st") (auto simp: mid_start mid_wait)
  qed
qed

lemma mid_resumes: "pass_inv st ws \<Longrightarrow> pass_inv (foldl resume_caller st ws) []"
  by (induction ws arbitrary: st) (auto simp: mid_resume)

text \<open>A call.\<close>

lemma mid_call:
  assumes "pass_inv st []" "\<forall>f. Called c f \<notin> set (events_log st)"
  shows "pass_inv (refreshAllQuotas c force st) []"
proof -
  let ?es = "events_log st @ [Called c force]"
  have nc: "\<forall>f. \<not> was_called c f (events_log st)" using assms(2) by (simp add: was_called_def)
  have nr: "Returned c \<notin> set (events_log st)" using assms(1) nc by (auto simp: pass_inv_def all_served_def)
  have sv: "all_served ?es" using assms(1) nc by (intro served_snoc) (auto simp: pass_inv_def)
  have oc: "one_call ?es" using assms(1) nc by (auto simp: pass_inv_def one_call_def was_called_def)
  have s0: "since_call c ?es = []" using assms(2) by (rule since_uncalled)
  have pc: "call_pending c force 0 ?es" using nr s0 by (auto simp: call_pending_def was_called_def ended_passes_def)
  have acc: "\<forall>d f. was_called d f ?es \<longrightarrow> d = c \<or> d \<in> set (unfinished st) \<or> Returned d \<in> set (events_log st)"
    using assms(1) by (auto simp: pass_inv_def was_called_def)
  have un: "c \<notin> set (unfinished st)"
  proof -
    have "\<exists>g. was_called (waiter_caller w) g (events_log st)" if "waiter_ok (events_log st) w" for w
      using that by (cases w) (auto simp: answered_by_def call_pending_def)
    then have "\<exists>g. was_called d g (events_log st)" if "d \<in> set (unfinished st)" for d
      using assms(1) that
      by (auto simp: pass_inv_def pass_shape_def unfinished_def answered_by_def call_pending_def split: list.splits prod.splits)
    with nc show ?thesis by blast
  qed
  show ?thesis
  proof (cases "passes st")
    case Nil
    with assms(1) have "refreshAllCycle st = None" "waiters st = []" by (auto simp: pass_inv_def pass_shape_def)
    moreover have "answered_by c (next_pass st) force (?es @ [Started (next_pass st) force])"
      using pending_quiet [OF pc, of "Started (next_pass st) force"] since_pending [OF pc, of "Started (next_pass st) force"] s0
      by (simp add: answered_by_def call_pending_def)
    moreover have "all_served (?es @ [Started (next_pass st) force])" by (rule served_snoc [OF sv]) auto
    moreover have "one_call (?es @ [Started (next_pass st) force])" using oc by (rule one_call_snoc) simp
    ultimately show ?thesis
      using Nil acc un
      by (auto simp: pass_inv_def refreshAllQuotas_def start_pass_def note_event_def pass_shape_def unfinished_def one_call_snoc
          was_called_def Let_def)
  next
    case (Cons x rest)
    then obtain k f o1 where x: "passes st = [(k, f, o1)]" "refreshAllCycle st = Some k"
      using assms(1) by (auto simp: pass_inv_def pass_shape_def split: prod.splits)
    then show ?thesis
      using assms(1) sv oc acc un pc
      by (auto simp: pass_inv_def refreshAllQuotas_def note_event_def pass_shape_def unfinished_def answered_quiet waiter_quiet Let_def)
  qed
qed

text \<open>The end of a pass.\<close>

lemma waiter_woken:
  assumes "waiter_ok es w" "waits_for w = k"
  shows "woken_ok (es @ [Ended k]) w"
proof (cases w)
  case (Rides c f j)
  with assms have "call_pending c f 0 es" by simp
  moreover from this have "ended_passes (since_call c es) = 0" by (simp add: call_pending_def)
  ultimately show ?thesis using Rides pending_ended [of c f 0 es k] by (simp add: since_pending ended_passes_snoc)
next
  case (Waits c j)
  with assms have a: "answered_by c k True es" by simp
  then have "call_pending c True 1 es" "Started k True \<in> set (since_call c es)" by (auto simp: answered_by_def)
  with Waits pending_ended [of c True 1 es k] show ?thesis
    by (simp add: since_pending whole_pass_ended numeral_2_eq_2)
qed

lemma mid_settle:
  assumes "pass_inv st []" "(k, force, c) \<in> set (passes st)"
  shows "pass_inv (settle_pass k c st) []"
proof -
  let ?es = "events_log st"
  from assms have p: "passes st = [(k, force, c)]" "refreshAllCycle st = Some k"
    and a: "answered_by c k force ?es" and w: "\<forall>v \<in> set (waiters st). waits_for v = k \<and> waiter_ok ?es v"
    by (auto simp: pass_inv_def pass_shape_def split: list.splits prod.splits)
  then have f: "filter (\<lambda>v. waits_for v = k) (waiters st) = waiters st" "filter (\<lambda>v. waits_for v \<noteq> k) (waiters st) = []"
    by (simp_all add: filter_empty_conv)
  let ?st = "st\<lparr>passes := [], waiters := [], refreshAllCycle := None, events_log := ?es @ [Ended k]\<rparr>"
  have pend: "call_pending c force 2 (?es @ [Ended k])" and e1: "0 < ended_passes (since_call c (?es @ [Ended k]))"
    and wp: "force \<Longrightarrow> whole_pass True (since_call c (?es @ [Ended k]))"
    using a pending_ended [of c force 1 ?es k] whole_pass_ended [of k True "since_call c ?es"]
    by (auto simp: answered_by_def since_pending ended_passes_snoc numeral_2_eq_2)
  have "all_served (?es @ [Ended k])" using assms(1) by (intro served_snoc) (auto simp: pass_inv_def)
  then have "all_served (?es @ [Ended k, Returned c])"
    using assms(1) served_return [OF _ _ pend e1 wp] by (auto simp: pass_inv_def one_call_snoc)
  moreover have "woken_ok ((?es @ [Ended k]) @ [Returned c]) v" if "v \<in> set (waiters st)" for v
    using waiter_woken w that assms(1) p by (intro woken_other) (auto simp: pass_inv_def unfinished_def)
  moreover have "one_call (?es @ [Ended k, Returned c])"
    using assms(1) by (auto simp: pass_inv_def one_call_def was_called_def)
  ultimately have "pass_inv (note_event (Returned c) ?st) (waiters st)"
    using assms(1) p by (auto simp: pass_inv_def note_event_def pass_shape_def unfinished_def was_called_def)
  then show ?thesis
    using p f mid_resumes by (simp add: settle_pass_def finish_owner_def note_event_def Let_def)
qed

lemma mid_idle: "pass_inv no_pass []"
  by (simp add: pass_inv_def no_pass_def all_served_def one_call_def was_called_def pass_shape_def unfinished_def)

lemma reachable_mid: "pass_reachable st \<Longrightarrow> pass_inv st []"
  by (induction rule: pass_reachable.induct) (auto simp: mid_idle mid_call mid_settle elim!: pass_stepE)

section \<open>Properties\<close>

text \<open>
  C32. Overlapping full-pool refreshes never pile up and never drop a caller. In every reachable state
  at most one pass runs; every caller that has returned saw a pass end after its call, and a caller
  that asked for a forced pass saw a forced pass both start and end between its call and its return;
  and a caller that is still waiting has seen at most one pass end since its call, so the second one
  at the latest releases it.
\<close>

theorem refreshAll_serves_callers:
  assumes "pass_reachable st"
  shows "length (passes st) \<le> 1 \<and>
    (\<forall>c force. Called c force \<in> set (events_log st) \<longrightarrow>
       (if Returned c \<in> set (events_log st)
        then 0 < ended_passes (call_window c (events_log st)) \<and> (force \<longrightarrow> whole_pass True (call_window c (events_log st)))
        else ended_passes (since_call c (events_log st)) \<le> 1))"
proof -
  note m = reachable_mid [OF assms]
  have one: "length (passes st) \<le> 1" using m by (auto simp: pass_inv_def pass_shape_def split: list.splits prod.splits)
  have wait: "ended_passes (since_call c (events_log st)) \<le> 1" if "c \<in> set (unfinished st)" for c
  proof -
    have "ended_passes (since_call (waiter_caller w) (events_log st)) \<le> 1" if "waiter_ok (events_log st) w" for w
      using that by (cases w) (auto simp: answered_by_def call_pending_def)
    then show ?thesis
      using m that by (auto simp: pass_inv_def pass_shape_def unfinished_def answered_by_def call_pending_def split: list.splits prod.splits)
  qed
  show ?thesis
    using m one wait by (auto simp: pass_inv_def all_served_def was_called_def)
qed

theorem refreshAll_serves_callers_witness:
  "let st = settle_pass 0 1 (refreshAllQuotas 3 True (refreshAllQuotas 2 True (refreshAllQuotas 1 False no_pass)))
   in length (passes st) \<le> 1 \<and> (Returned 2 \<notin> set (events_log st) \<longrightarrow> ended_passes (since_call 2 (events_log st)) \<le> 1)"
proof -
  let ?a = "refreshAllQuotas 1 False no_pass"
  let ?b = "refreshAllQuotas 2 True ?a"
  let ?c = "refreshAllQuotas 3 True ?b"
  note defs = refreshAllQuotas_def start_pass_def note_event_def no_pass_def settle_pass_def finish_owner_def Let_def
  have "pass_reachable ?a" by (rule more [OF init call]) (simp add: no_pass_def)
  then have "pass_reachable ?b" by (rule more [OF _ call]) (simp add: defs)
  then have "pass_reachable ?c" by (rule more [OF _ call]) (simp add: defs)
  then have "pass_reachable (settle_pass 0 1 ?c)" by (rule more [OF _ settled [of _ False]]) (simp add: defs)
  note r = refreshAll_serves_callers [OF this]
  have "Called 2 True \<in> set (events_log (settle_pass 0 1 ?c))" by (simp add: defs)
  with r show ?thesis by (auto simp: Let_def split: if_splits)
qed

end
