(* ===== verification/LoginFlow.thy ===== *)
theory LoginFlow
  imports OAuth
begin

text \<open>
  The sign-in flow, class \<open>PoolAuthFlow\<close> of \<open>src/host/pool-auth.ts\<close>, as a transition system: one step
  per stretch of code between two awaits and per event from outside (a call of \<open>begin\<close>, \<open>submitCode\<close>
  or \<open>cancel\<close>, a request at the loopback listener, a reply of the token endpoint, a timer).
  A task is a continuation that waits for its promise; any task may be the next to go on.

  The state holds the fields of the class, the pool manager, the token files and the loopback
  listeners. \<open>trail\<close> records the codes presented, accepted and committed; no operation reads it.
\<close>

section \<open>Messages\<close>

text \<open>The browser could not be opened, open the link below by hand.\<close>

definition MSG_OPEN_BY_HAND :: string where
  "MSG_OPEN_BY_HAND =
     [CHR 0xE6, CHR 0x97, CHR 0xA0, CHR 0xE6, CHR 0xB3, CHR 0x95, CHR 0xE8, CHR 0x87, CHR 0xAA, CHR 0xE5, CHR 0x8A,
     CHR 0xA8, CHR 0xE6, CHR 0x89, CHR 0x93, CHR 0xE5, CHR 0xBC, CHR 0x80, CHR 0xE6, CHR 0xB5, CHR 0x8F, CHR 0xE8,
     CHR 0xA7, CHR 0x88, CHR 0xE5, CHR 0x99, CHR 0xA8, CHR 0xEF, CHR 0xBC, CHR 0x8C, CHR 0xE8, CHR 0xAF, CHR 0xB7,
     CHR 0xE6, CHR 0x89, CHR 0x8B, CHR 0xE5, CHR 0x8A, CHR 0xA8, CHR 0xE6, CHR 0x89, CHR 0x93, CHR 0xE5, CHR 0xBC,
     CHR 0x80, CHR 0xE4, CHR 0xB8, CHR 0x8B, CHR 0xE6, CHR 0x96, CHR 0xB9, CHR 0xE9, CHR 0x93, CHR 0xBE, CHR 0xE6,
     CHR 0x8E, CHR 0xA5]"

text \<open>The authorization callback failed.\<close>

definition MSG_CALLBACK_FAILED :: string where
  "MSG_CALLBACK_FAILED =
     [CHR 0xE6, CHR 0x8E, CHR 0x88, CHR 0xE6, CHR 0x9D, CHR 0x83, CHR 0xE5, CHR 0x9B, CHR 0x9E, CHR 0xE8, CHR 0xB0,
     CHR 0x83, CHR 0xE5, CHR 0xA4, CHR 0xB1, CHR 0xE8, CHR 0xB4, CHR 0xA5] @ '': ''"

text \<open>There is no authorization flow in progress.\<close>

definition MSG_NO_FLOW :: string where
  "MSG_NO_FLOW =
     [CHR 0xE5, CHR 0xBD, CHR 0x93, CHR 0xE5, CHR 0x89, CHR 0x8D, CHR 0xE6, CHR 0xB2, CHR 0xA1, CHR 0xE6, CHR 0x9C,
     CHR 0x89, CHR 0xE8, CHR 0xBF, CHR 0x9B, CHR 0xE8, CHR 0xA1, CHR 0x8C, CHR 0xE4, CHR 0xB8, CHR 0xAD, CHR 0xE7,
     CHR 0x9A, CHR 0x84, CHR 0xE6, CHR 0x8E, CHR 0x88, CHR 0xE6, CHR 0x9D, CHR 0x83, CHR 0xE6, CHR 0xB5, CHR 0x81,
     CHR 0xE7, CHR 0xA8, CHR 0x8B]"

text \<open>The code was not recognized, paste the code or the whole callback URL.\<close>

definition MSG_BAD_CODE :: string where
  "MSG_BAD_CODE =
     [CHR 0xE6, CHR 0x97, CHR 0xA0, CHR 0xE6, CHR 0xB3, CHR 0x95, CHR 0xE8, CHR 0xAF, CHR 0x86, CHR 0xE5, CHR 0x88,
     CHR 0xAB, CHR 0xE7, CHR 0x9A, CHR 0x84, CHR 0xE6, CHR 0x8E, CHR 0x88, CHR 0xE6, CHR 0x9D, CHR 0x83, CHR 0xE7,
     CHR 0xA0, CHR 0x81, CHR 0xEF, CHR 0xBC, CHR 0x8C, CHR 0xE8, CHR 0xAF, CHR 0xB7, CHR 0xE7, CHR 0xB2, CHR 0x98,
     CHR 0xE8, CHR 0xB4, CHR 0xB4, CHR 0xE6, CHR 0x8E, CHR 0x88, CHR 0xE6, CHR 0x9D, CHR 0x83, CHR 0xE7, CHR 0xA0,
     CHR 0x81, CHR 0xE6, CHR 0x88, CHR 0x96, CHR 0xE5, CHR 0xAE, CHR 0x8C, CHR 0xE6, CHR 0x95, CHR 0xB4, CHR 0xE7,
     CHR 0x9A, CHR 0x84, CHR 0xE5, CHR 0x9B, CHR 0x9E, CHR 0xE8, CHR 0xB0, CHR 0x83] @ '' URL''"

text \<open>The state check failed, this URL does not belong to this flow.\<close>

definition MSG_FOREIGN_URL :: string where
  "MSG_FOREIGN_URL =
     ''state '' @ [CHR 0xE6, CHR 0xA0, CHR 0xA1, CHR 0xE9, CHR 0xAA, CHR 0x8C, CHR 0xE5, CHR 0xA4, CHR 0xB1, CHR
     0xE8, CHR 0xB4, CHR 0xA5, CHR 0xEF, CHR 0xBC, CHR 0x9A, CHR 0xE8, CHR 0xBF, CHR 0x99, CHR 0xE6, CHR 0xAE, CHR
     0xB5] @ '' URL '' @ [CHR 0xE4, CHR 0xB8, CHR 0x8D, CHR 0xE5, CHR 0xB1, CHR 0x9E, CHR 0xE4, CHR 0xBA, CHR 0x8E,
     CHR 0xE6, CHR 0x9C, CHR 0xAC, CHR 0xE6, CHR 0xAC, CHR 0xA1, CHR 0xE6, CHR 0x8E, CHR 0x88, CHR 0xE6, CHR 0x9D,
     CHR 0x83, CHR 0xE6, CHR 0xB5, CHR 0x81, CHR 0xE7, CHR 0xA8, CHR 0x8B]"

text \<open>The state check failed, a possible CSRF or a stale callback.\<close>

definition MSG_STATE_MISMATCH :: string where
  "MSG_STATE_MISMATCH =
     ''state '' @ [CHR 0xE6, CHR 0xA0, CHR 0xA1, CHR 0xE9, CHR 0xAA, CHR 0x8C, CHR 0xE5, CHR 0xA4, CHR 0xB1, CHR
     0xE8, CHR 0xB4, CHR 0xA5, CHR 0xEF, CHR 0xBC, CHR 0x88, CHR 0xE5, CHR 0x8F, CHR 0xAF, CHR 0xE8, CHR 0x83, CHR
     0xBD, CHR 0xE7, CHR 0x9A, CHR 0x84] @ '' CSRF '' @ [CHR 0xE6, CHR 0x88, CHR 0x96, CHR 0xE8, CHR 0xBF, CHR
     0x87, CHR 0xE6, CHR 0x9C, CHR 0x9F, CHR 0xE5, CHR 0x9B, CHR 0x9E, CHR 0xE8, CHR 0xB0, CHR 0x83, CHR 0xEF, CHR
     0xBC, CHR 0x89]"

text \<open>The code exchange failed.\<close>

definition MSG_EXCHANGE_FAILED :: string where
  "MSG_EXCHANGE_FAILED =
     [CHR 0xE6, CHR 0x8E, CHR 0x88, CHR 0xE6, CHR 0x9D, CHR 0x83, CHR 0xE7, CHR 0xA0, CHR 0x81, CHR 0xE4, CHR 0xBA,
     CHR 0xA4, CHR 0xE6, CHR 0x8D, CHR 0xA2, CHR 0xE5, CHR 0xA4, CHR 0xB1, CHR 0xE8, CHR 0xB4, CHR 0xA5] @ '': ''"

definition MSG_ACTIVATED :: "string \<Rightarrow> string" where
  "MSG_ACTIVATED al =
     account_word @ '' '' @ al @ '' '' @ [CHR 0xE5, CHR 0xB7, CHR 0xB2, CHR 0xE6, CHR 0xBF, CHR 0x80, CHR 0xE6, CHR 0xB4, CHR 0xBB]"

section \<open>State\<close>

datatype auth_phase = PIdle | PWaiting | PExchanging | PDone | PFailed

datatype auth_mode = AutoMode | ManualMode

record pool_auth_status =
  phase :: auth_phase
  s_stagingId :: "string option"
  s_alias :: "string option"
  s_url :: "string option"
  s_mode :: "auth_mode option"
  browserOpened :: "bool option"
  s_message :: "string option"

definition idle_status :: pool_auth_status where
  "idle_status = \<lparr>phase = PIdle, s_stagingId = None, s_alias = None, s_url = None, s_mode = None, browserOpened = None,
     s_message = None\<rparr>"

text \<open>What \<open>begin\<close> hands to \<open>startFlow\<close>, and the flow it becomes.\<close>

record new_flow =
  stagingId :: string
  flow_dir :: string
  flow_alias :: "string option"
  flow_proxyUrl :: "string option"

record active_flow = new_flow +
  verifier :: string
  flow_state :: string
  flow_url :: string
  flow_mode :: auth_mode
  listener :: "nat option"

datatype cb_result = CbCode string string | CbFailed string

record loopback =
  listening :: bool
  cb_result :: "cb_result option"
  attached :: bool
  delivered :: bool

datatype after_abort = AStart new_flow | ACancel

datatype task =
    TAbort active_flow after_abort
  | TResume after_abort
  | TOpen new_flow string string string "nat option"
  | TExchange active_flow string
  | TEmail active_flow token_set

datatype mark =
    Presented string "string option"
  | Accepted active_flow string
  | Committed active_flow managed_account

record login =
  flow :: "active_flow option"
  statusValue :: pool_auth_status
  doneResetTimer :: bool
  l_pool :: pool_manager
  l_files :: token_files
  loopbacks :: "loopback list"
  tasks :: "task list"
  quota_requests :: "string list"
  trail :: "mark list"

definition new_login :: "pool_manager \<Rightarrow> token_files \<Rightarrow> login" where
  "new_login m fs = \<lparr>flow = None, statusValue = idle_status, doneResetTimer = False, l_pool = m, l_files = fs,
     loopbacks = [], tasks = [], quota_requests = [], trail = []\<rparr>"

section \<open>Operations\<close>

definition setStatus :: "(pool_auth_status \<Rightarrow> pool_auth_status) \<Rightarrow> login \<Rightarrow> login" where
  "setStatus patch st =
     (let v = patch (statusValue st) in st\<lparr>statusValue := v, doneResetTimer := (phase v = PDone)\<rparr>)"

definition done_timer_fires :: "login \<Rightarrow> login" where
  "done_timer_fires st =
     (if phase (statusValue st) = PDone then st\<lparr>statusValue := idle_status, doneResetTimer := False\<rparr>
      else st\<lparr>doneResetTimer := False\<rparr>)"

definition close_loopback :: "nat option \<Rightarrow> login \<Rightarrow> login" where
  "close_loopback l st =
     (case l of None \<Rightarrow> st | Some n \<Rightarrow> st\<lparr>loopbacks := (loopbacks st)[n := (loopbacks st ! n)\<lparr>listening := False\<rparr>]\<rparr>)"

definition with_pool :: "(pool_manager \<Rightarrow> pool_manager) \<Rightarrow> login \<Rightarrow> login" where
  "with_pool f st = st\<lparr>l_pool := f (l_pool st)\<rparr>"

definition enqueue :: "task \<Rightarrow> login \<Rightarrow> login" where
  "enqueue k st = st\<lparr>tasks := tasks st @ [k]\<rparr>"

definition fail :: "world \<Rightarrow> string \<Rightarrow> login \<Rightarrow> login" where
  "fail w msg st =
     (let st1 = (case flow st of
            None \<Rightarrow> st
          | Some f \<Rightarrow> (with_pool (cleanupStagingSlot w (flow_dir f)) (close_loopback (listener f) st))\<lparr>flow := None\<rparr>)
      in setStatus (\<lambda>v. v\<lparr>phase := PFailed, s_message := Some msg\<rparr>) st1)"

definition abortActive :: "world \<Rightarrow> after_abort \<Rightarrow> login \<Rightarrow> login" where
  "abortActive w nx st =
     (case flow st of
        None \<Rightarrow> enqueue (TResume nx) st
      | Some f \<Rightarrow>
          (let st1 = st\<lparr>flow := None\<rparr> in
           if listener f \<noteq> None then enqueue (TAbort f nx) (close_loopback (listener f) st1)
           else enqueue (TResume nx) (with_pool (cleanupStagingSlot w (flow_dir f)) st1)))"

definition abort_goes_on :: "world \<Rightarrow> active_flow \<Rightarrow> after_abort \<Rightarrow> login \<Rightarrow> login" where
  "abort_goes_on w f nx st = enqueue (TResume nx) (with_pool (cleanupStagingSlot w (flow_dir f)) st)"

definition begin_flow :: "world \<Rightarrow> string \<Rightarrow> string option \<Rightarrow> string option \<Rightarrow> login \<Rightarrow> login" where
  "begin_flow w i al px st =
     (let ((sid, d), m) = createStagingSlot i (l_pool st)
      in abortActive w (AStart \<lparr>stagingId = sid, flow_dir = d, flow_alias = al, flow_proxyUrl = px\<rparr>) (st\<lparr>l_pool := m\<rparr>))"

text \<open>
  \<open>startFlow\<close> up to the launch of the browser: \<open>bound\<close> says whether the listener survived its first
  300 milliseconds.
\<close>

definition start_listening :: "client_env \<Rightarrow> new_flow \<Rightarrow> string \<Rightarrow> string \<Rightarrow> string \<Rightarrow> bool \<Rightarrow> login \<Rightarrow> login" where
  "start_listening env nf ver challenge sta bound st =
     (let u = buildAuthorizeUrl env challenge sta
      in if bound
         then enqueue (TOpen nf ver sta u (Some (length (loopbacks st))))
                (st\<lparr>loopbacks := loopbacks st @ [\<lparr>listening = True, cb_result = None, attached = False, delivered = False\<rparr>]\<rparr>)
         else enqueue (TOpen nf ver sta u None) st)"

definition make_active :: "new_flow \<Rightarrow> string \<Rightarrow> string \<Rightarrow> string \<Rightarrow> nat option \<Rightarrow> active_flow" where
  "make_active nf ver sta u l =
     \<lparr>stagingId = stagingId nf, flow_dir = flow_dir nf, flow_alias = flow_alias nf, flow_proxyUrl = flow_proxyUrl nf,
      verifier = ver, flow_state = sta, flow_url = u, flow_mode = (if l = None then ManualMode else AutoMode), listener = l\<rparr>"

definition flow_opened :: "new_flow \<Rightarrow> string \<Rightarrow> string \<Rightarrow> string \<Rightarrow> nat option \<Rightarrow> bool \<Rightarrow> login \<Rightarrow> login" where
  "flow_opened nf ver sta u l opened st =
     (let f = make_active nf ver sta u l;
          st1 = setStatus (\<lambda>v. \<lparr>phase = PWaiting, s_stagingId = Some (stagingId f), s_alias = flow_alias f, s_url = Some u,
                  s_mode = Some (flow_mode f), browserOpened = Some opened,
                  s_message = (if opened then None else Some MSG_OPEN_BY_HAND)\<rparr>) (st\<lparr>flow := Some f\<rparr>)
      in case l of
           None \<Rightarrow> st1
         | Some n \<Rightarrow> st1\<lparr>loopbacks := (loopbacks st1)[n := (loopbacks st1 ! n)\<lparr>attached := True\<rparr>]\<rparr>)"

definition finishWithCode :: "world \<Rightarrow> string \<Rightarrow> string \<Rightarrow> login \<Rightarrow> login" where
  "finishWithCode w cd returnedState st =
     (case flow st of
        None \<Rightarrow> st
      | Some f \<Rightarrow>
          if phase (statusValue st) \<noteq> PWaiting then st
          else if returnedState \<noteq> flow_state f then fail w MSG_STATE_MISMATCH st
          else enqueue (TExchange f cd)
                 ((setStatus (\<lambda>v. v\<lparr>phase := PExchanging\<rparr>) st)\<lparr>trail := trail st @ [Accepted f cd]\<rparr>))"

text \<open>The token endpoint has answered: \<open>writable\<close> says whether the token file could be written.\<close>

definition exchanged ::
  "client_env \<Rightarrow> (int \<Rightarrow> int) \<Rightarrow> world \<Rightarrow> (string option \<Rightarrow> (string \<times> string) list \<Rightarrow> fetch_outcome) \<Rightarrow> string + unit \<Rightarrow> active_flow \<Rightarrow> string \<Rightarrow> login \<Rightarrow> login" where
  "exchanged env tz w post writable f cd st =
     (case exchangeCode env post (now w) cd (verifier f) (flow_proxyUrl f) of
        Inl e \<Rightarrow> fail w (MSG_EXCHANGE_FAILED @ snd e) st
      | Inr ts \<Rightarrow>
          (case writable of
             Inl msg \<Rightarrow> fail w (MSG_EXCHANGE_FAILED @ msg) st
           | Inr _ \<Rightarrow>
               enqueue (TEmail f ts)
                 (with_pool (\<lambda>m. m\<lparr>dirs := List.insert (flow_dir f) (dirs m)\<rparr>)
                   (st\<lparr>l_files := writeAgyTokenFile tz (now w) (flow_dir f) ts (l_files st)\<rparr>))))"

definition commit_flow :: "world \<Rightarrow> (string option \<Rightarrow> string \<Rightarrow> fetch_outcome) \<Rightarrow> active_flow \<Rightarrow> token_set \<Rightarrow> login \<Rightarrow> login" where
  "commit_flow w userinfo f ts st =
     (let em = fetchUserEmail userinfo (access_token ts) (flow_proxyUrl f);
          (acc, m) = commitStagingAccount w (stagingId f) (flow_dir f) (flow_alias f) em (flow_proxyUrl f) (l_pool st);
          st1 = st\<lparr>l_pool := m, quota_requests := quota_requests st @ [acc_id acc], flow := None,
                   trail := trail st @ [Committed f acc]\<rparr>
      in setStatus (\<lambda>v. v\<lparr>phase := PDone, s_alias := Some (acc_alias acc), s_message := Some (MSG_ACTIVATED (acc_alias acc))\<rparr>)
           (close_loopback (listener f) st1))"

text \<open>The synchronous answer of \<open>submitCode\<close>, \<open>None\<close> when it waits for \<open>finishWithCode\<close>.\<close>

definition submitCode :: "(string \<Rightarrow> url option) \<Rightarrow> world \<Rightarrow> string \<Rightarrow> login \<Rightarrow> (auth_phase \<times> string) option \<times> login" where
  "submitCode parse_url w inp st =
     (case flow st of
        None \<Rightarrow> (Some (phase (statusValue st), MSG_NO_FLOW), st)
      | Some f \<Rightarrow>
          if phase (statusValue st) \<noteq> PWaiting then (Some (phase (statusValue st), MSG_NO_FLOW), st)
          else case parsePastedCode parse_url inp of
                 None \<Rightarrow> (Some (PWaiting, MSG_BAD_CODE), st)
               | Some (cd, sta) \<Rightarrow>
                   if truthy_str sta \<and> sta \<noteq> Some (flow_state f) then (Some (PWaiting, MSG_FOREIGN_URL), st)
                   else (None, finishWithCode w cd (or_else sta (flow_state f)) (st\<lparr>trail := trail st @ [Presented cd sta]\<rparr>)))"

definition cancel_flow :: "world \<Rightarrow> login \<Rightarrow> login" where
  "cancel_flow w st = abortActive w ACancel st"

definition cancel_goes_on :: "login \<Rightarrow> login" where
  "cancel_goes_on st = setStatus (\<lambda>v. v\<lparr>phase := PIdle\<rparr>) st"

section \<open>The loopback listener\<close>

definition settle_result :: "nat \<Rightarrow> cb_result \<Rightarrow> login \<Rightarrow> login" where
  "settle_result l r st =
     (let x = loopbacks st ! l
      in if cb_result x \<noteq> None then st
         else st\<lparr>loopbacks := (loopbacks st)[l := x\<lparr>cb_result := Some r\<rparr>]\<rparr>)"

definition callback_request :: "nat \<Rightarrow> url \<Rightarrow> login \<Rightarrow> login" where
  "callback_request l u st =
     (case snd (handle_callback (Some u)) of
        CbResolve cd sta \<Rightarrow> settle_result l (CbCode cd sta) (st\<lparr>trail := trail st @ [Presented cd (Some sta)]\<rparr>)
      | CbReject msg \<Rightarrow> settle_result l (CbFailed msg) st
      | _ \<Rightarrow> st)"

definition listener_timeout :: "nat \<Rightarrow> login \<Rightarrow> login" where
  "listener_timeout l st =
     close_loopback (Some l) (settle_result l (CbFailed ''timed out waiting for the OAuth callback'') st)"

definition deliver :: "world \<Rightarrow> nat \<Rightarrow> login \<Rightarrow> login" where
  "deliver w l st =
     (let st1 = st\<lparr>loopbacks := (loopbacks st)[l := (loopbacks st ! l)\<lparr>delivered := True\<rparr>]\<rparr>
      in case cb_result (loopbacks st ! l) of
           Some (CbCode cd sta) \<Rightarrow> finishWithCode w cd sta st1
         | Some (CbFailed msg) \<Rightarrow>
             (case flow st1 of
                Some f \<Rightarrow> if listener f = Some l then fail w (MSG_CALLBACK_FAILED @ msg) st1 else st1
              | None \<Rightarrow> st1)
         | None \<Rightarrow> st1)"

section \<open>Runs\<close>

definition take_task :: "task \<Rightarrow> login \<Rightarrow> login" where
  "take_task k st = st\<lparr>tasks := remove1 k (tasks st)\<rparr>"

fun task_ids :: "task \<Rightarrow> string list" where
  "task_ids (TAbort f (AStart nf)) = [stagingId nf]"
| "task_ids (TAbort f ACancel) = []"
| "task_ids (TResume (AStart nf)) = [stagingId nf]"
| "task_ids (TResume ACancel) = []"
| "task_ids (TOpen nf ver sta u l) = [stagingId nf]"
| "task_ids (TExchange f cd) = [stagingId f]"
| "task_ids (TEmail f ts) = [stagingId f]"

text \<open>The identities that are taken or may still be committed.\<close>

definition waiting_ids :: "login \<Rightarrow> string list" where
  "waiting_ids st =
     (case flow st of Some f \<Rightarrow> if phase (statusValue st) = PWaiting then [stagingId f] else [] | None \<Rightarrow> [])"

definition live_ids :: "login \<Rightarrow> string list" where
  "live_ids st = waiting_ids st @ concat (map task_ids (tasks st)) @ map acc_id (accounts (data (l_pool st)))"

inductive login_step :: "client_env \<Rightarrow> (int \<Rightarrow> int) \<Rightarrow> (string \<Rightarrow> url option) \<Rightarrow> login \<Rightarrow> login \<Rightarrow> bool"
  for env :: client_env and tz :: "int \<Rightarrow> int" and parse_url :: "string \<Rightarrow> url option" where
  ls_begin: "i \<notin> set (live_ids st) \<Longrightarrow> login_step env tz parse_url st (begin_flow w i al px st)"
| ls_submit: "login_step env tz parse_url st (snd (submitCode parse_url w inp st))"
| ls_cancel: "login_step env tz parse_url st (cancel_flow w st)"
| ls_abort: "TAbort f nx \<in> set (tasks st) \<Longrightarrow>
    login_step env tz parse_url st (abort_goes_on w f nx (take_task (TAbort f nx) st))"
| ls_listen: "TResume (AStart nf) \<in> set (tasks st) \<Longrightarrow> bound \<longrightarrow> (\<forall>x \<in> set (loopbacks st). \<not> listening x) \<Longrightarrow>
    login_step env tz parse_url st (start_listening env nf ver challenge sta bound (take_task (TResume (AStart nf)) st))"
| ls_cancelled: "TResume ACancel \<in> set (tasks st) \<Longrightarrow>
    login_step env tz parse_url st (cancel_goes_on (take_task (TResume ACancel) st))"
| ls_opened: "TOpen nf ver sta u l \<in> set (tasks st) \<Longrightarrow>
    login_step env tz parse_url st (flow_opened nf ver sta u l opened (take_task (TOpen nf ver sta u l) st))"
| ls_exchanged: "TExchange f cd \<in> set (tasks st) \<Longrightarrow>
    login_step env tz parse_url st (exchanged env tz w post writable f cd (take_task (TExchange f cd) st))"
| ls_email: "TEmail f ts \<in> set (tasks st) \<Longrightarrow>
    login_step env tz parse_url st (commit_flow w userinfo f ts (take_task (TEmail f ts) st))"
| ls_callback: "l < length (loopbacks st) \<Longrightarrow> listening (loopbacks st ! l) \<Longrightarrow>
    login_step env tz parse_url st (callback_request l u st)"
| ls_timeout: "l < length (loopbacks st) \<Longrightarrow> login_step env tz parse_url st (listener_timeout l st)"
| ls_close: "l < length (loopbacks st) \<Longrightarrow> cb_result (loopbacks st ! l) \<noteq> None \<Longrightarrow>
    login_step env tz parse_url st (close_loopback (Some l) st)"
| ls_deliver: "l < length (loopbacks st) \<Longrightarrow> attached (loopbacks st ! l) \<Longrightarrow> \<not> delivered (loopbacks st ! l) \<Longrightarrow>
    cb_result (loopbacks st ! l) \<noteq> None \<Longrightarrow> login_step env tz parse_url st (deliver w l st)"
| ls_done: "doneResetTimer st \<Longrightarrow> login_step env tz parse_url st (done_timer_fires st)"
| ls_elsewhere: "pool_inv (data m) \<Longrightarrow> acc_id ` set (accounts (data m)) \<subseteq> acc_id ` set (accounts (data (l_pool st))) \<Longrightarrow>
    login_step env tz parse_url st (st\<lparr>l_pool := m\<rparr>)"

text \<open>\<open>ls_elsewhere\<close> is whatever the rest of the gateway does to the pool meanwhile.\<close>

inductive login_reachable :: "client_env \<Rightarrow> (int \<Rightarrow> int) \<Rightarrow> (string \<Rightarrow> url option) \<Rightarrow> pool_manager \<Rightarrow> login \<Rightarrow> bool"
  for env :: client_env and tz :: "int \<Rightarrow> int" and parse_url :: "string \<Rightarrow> url option" and m0 :: pool_manager where
  lr_init: "pool_inv (data m0) \<Longrightarrow> login_reachable env tz parse_url m0 (new_login m0 fs)"
| lr_step: "login_reachable env tz parse_url m0 st \<Longrightarrow> login_step env tz parse_url st st' \<Longrightarrow>
    login_reachable env tz parse_url m0 st'"

inductive_cases login_stepE: "login_step env tz parse_url st st'"

section \<open>Identities\<close>

definition pool_ids :: "login \<Rightarrow> string list" where
  "pool_ids st = map acc_id (accounts (data (l_pool st)))"

abbreviation id_mset :: "login \<Rightarrow> string multiset" where
  "id_mset st \<equiv> mset (live_ids st)"

lemma id_mset_eq: "id_mset st = mset (waiting_ids st) + mset (concat (map task_ids (tasks st))) + mset (pool_ids st)"
  by (simp add: live_ids_def pool_ids_def)

lemma distinct_submset: "mset xs \<subseteq># mset ys \<Longrightarrow> distinct ys \<Longrightarrow> distinct xs"
proof -
  assume sub: "mset xs \<subseteq># mset ys" and d: "distinct ys"
  from sub obtain M where "mset ys = mset xs + M" by (auto simp: subset_mset.le_iff_add)
  moreover obtain zs where "M = mset zs" by (metis ex_mset)
  ultimately have "mset ys = mset (xs @ zs)" by simp
  then have "distinct (xs @ zs)" using d by (metis mset_eq_imp_distinct_iff)
  then show "distinct xs" by simp
qed

lemma mset_task_ids_remove1:
  "k \<in> set ts \<Longrightarrow> mset (concat (map task_ids ts)) = mset (task_ids k) + mset (concat (map task_ids (remove1 k ts)))"
  by (induction ts) auto

lemma pool_only [simp]:
  "tasks (with_pool g st) = tasks st" "flow (with_pool g st) = flow st" "statusValue (with_pool g st) = statusValue st"
  "trail (with_pool g st) = trail st" "loopbacks (with_pool g st) = loopbacks st" "l_pool (with_pool g st) = g (l_pool st)"
  by (simp_all add: with_pool_def)

lemma enqueue_only [simp]:
  "tasks (enqueue k st) = tasks st @ [k]" "flow (enqueue k st) = flow st" "statusValue (enqueue k st) = statusValue st"
  "trail (enqueue k st) = trail st" "loopbacks (enqueue k st) = loopbacks st" "l_pool (enqueue k st) = l_pool st"
  by (simp_all add: enqueue_def)

lemma take_task_only [simp]:
  "tasks (take_task k st) = remove1 k (tasks st)" "flow (take_task k st) = flow st" "statusValue (take_task k st) = statusValue st"
  "trail (take_task k st) = trail st" "loopbacks (take_task k st) = loopbacks st" "l_pool (take_task k st) = l_pool st"
  by (simp_all add: take_task_def)

lemma close_only [simp]:
  "tasks (close_loopback l st) = tasks st" "flow (close_loopback l st) = flow st" "statusValue (close_loopback l st) = statusValue st"
  "trail (close_loopback l st) = trail st" "l_pool (close_loopback l st) = l_pool st"
  by (simp_all add: close_loopback_def split: option.splits)

lemma setStatus_only [simp]:
  "tasks (setStatus p st) = tasks st" "flow (setStatus p st) = flow st" "statusValue (setStatus p st) = p (statusValue st)"
  "trail (setStatus p st) = trail st" "loopbacks (setStatus p st) = loopbacks st" "l_pool (setStatus p st) = l_pool st"
  by (simp_all add: setStatus_def Let_def)

lemma settle_only [simp]:
  "tasks (settle_result l r st) = tasks st" "flow (settle_result l r st) = flow st" "statusValue (settle_result l r st) = statusValue st"
  "trail (settle_result l r st) = trail st" "l_pool (settle_result l r st) = l_pool st"
  by (simp_all add: settle_result_def Let_def)

lemma cleanup_data [simp]: "data (cleanupStagingSlot w d m) = data m"
  by (simp add: cleanupStagingSlot_def)

lemma staging_data: "createStagingSlot i m = (r, m1) \<Longrightarrow> data m1 = data m \<and> fst r = i"
  by (auto simp: createStagingSlot_def Let_def)

lemma commit_data:
  assumes "commitStagingAccount w i d al em px m = (acc, m1)"
  shows "acc_id acc = i" "accounts (data m1) = accounts (data m) @ [acc]"
  using assms by (auto simp: commitStagingAccount_def pool_data_simps add_account_def blank_account_def Let_def)

lemma waiting_ids_cong: "flow s = flow t \<Longrightarrow> statusValue s = statusValue t \<Longrightarrow> waiting_ids s = waiting_ids t"
  unfolding waiting_ids_def by (simp only:)

lemma waiting_only [simp]:
  "waiting_ids (enqueue k st) = waiting_ids st" "waiting_ids (with_pool g st) = waiting_ids st"
  "waiting_ids (take_task k st) = waiting_ids st" "waiting_ids (close_loopback l st) = waiting_ids st"
  "waiting_ids (settle_result n r st) = waiting_ids st" "waiting_ids (st\<lparr>trail := es\<rparr>) = waiting_ids st"
  "waiting_ids (st\<lparr>loopbacks := xs\<rparr>) = waiting_ids st" "waiting_ids (st\<lparr>l_pool := m\<rparr>) = waiting_ids st"
  "waiting_ids (st\<lparr>l_files := fs\<rparr>) = waiting_ids st" "waiting_ids (st\<lparr>flow := None\<rparr>) = []"
  by (rule waiting_ids_cong; simp)+ (simp add: waiting_ids_def)

lemma task_ids_abort [simp]: "task_ids (TAbort f nx) = task_ids (TResume nx)"
  by (cases nx) auto

text \<open>What an operation does to the pool data, the tasks and the waiting flow.\<close>

lemma fail_frame: "data (l_pool (fail w msg st)) = data (l_pool st)" "tasks (fail w msg st) = tasks st"
  "trail (fail w msg st) = trail st" "waiting_ids (fail w msg st) = []" "flow (fail w msg st) = None"
  by (simp_all add: fail_def waiting_ids_def Let_def split: option.splits)

lemma abort_frame: "data (l_pool (abortActive w nx st)) = data (l_pool st)"
  "\<exists>k. tasks (abortActive w nx st) = tasks st @ [k] \<and> (k = TResume nx \<or> (\<exists>f. k = TAbort f nx))"
  "trail (abortActive w nx st) = trail st" "waiting_ids (abortActive w nx st) = []"
  by (auto simp: abortActive_def waiting_ids_def Let_def split: option.splits)

lemma finish_frame:
  "data (l_pool (finishWithCode w cd sta st)) = data (l_pool st)"
  "mset (waiting_ids (finishWithCode w cd sta st)) + mset (concat (map task_ids (tasks (finishWithCode w cd sta st))))
     \<subseteq># mset (waiting_ids st) + mset (concat (map task_ids (tasks st)))"
proof -
  show "data (l_pool (finishWithCode w cd sta st)) = data (l_pool st)"
    by (auto simp: finishWithCode_def fail_frame split: option.splits)
  show "mset (waiting_ids (finishWithCode w cd sta st)) + mset (concat (map task_ids (tasks (finishWithCode w cd sta st))))
     \<subseteq># mset (waiting_ids st) + mset (concat (map task_ids (tasks st)))"
    by (auto simp: finishWithCode_def fail_frame waiting_ids_def split: option.splits)
qed

definition login_inv :: "login \<Rightarrow> bool" where
  "login_inv st = (pool_inv (data (l_pool st)) \<and> distinct (live_ids st))"

lemma login_invI:
  assumes "login_inv st" "data (l_pool st1) = data (l_pool st)"
    and "mset (waiting_ids st1) + mset (concat (map task_ids (tasks st1))) \<subseteq># mset (waiting_ids st) + mset (concat (map task_ids (tasks st)))"
  shows "login_inv st1"
proof -
  have "id_mset st1 \<subseteq># id_mset st" using assms(2,3) by (simp add: id_mset_eq pool_ids_def)
  with assms(1,2) show ?thesis by (auto simp: login_inv_def intro: distinct_submset)
qed

lemma inv_begin:
  assumes "login_inv st" "i \<notin> set (live_ids st)"
  shows "login_inv (begin_flow w i al px st)"
proof -
  obtain sid d m where c: "createStagingSlot i (l_pool st) = ((sid, d), m)" by (metis prod.exhaust)
  then have m: "data m = data (l_pool st)" "sid = i" using staging_data by fastforce+
  let ?nx = "AStart \<lparr>stagingId = i, flow_dir = d, flow_alias = al, flow_proxyUrl = px\<rparr>"
  let ?st = "abortActive w ?nx (st\<lparr>l_pool := m\<rparr>)"
  have b: "begin_flow w i al px st = ?st" by (simp add: begin_flow_def c m(2))
  obtain k where k: "tasks ?st = tasks st @ [k]" "k = TResume ?nx \<or> (\<exists>f. k = TAbort f ?nx)"
    using abort_frame(2) [of w ?nx "st\<lparr>l_pool := m\<rparr>"] by auto
  then have ki: "task_ids k = [i]" by auto
  have sub: "id_mset ?st \<subseteq># add_mset i (id_mset st)"
    using k(1) ki m(1) by (simp add: id_mset_eq abort_frame pool_ids_def)
  have "id_mset ?st \<subseteq># mset (i # live_ids st)" using sub by simp
  moreover have "distinct (i # live_ids st)" using assms by (simp add: login_inv_def)
  ultimately have "distinct (live_ids ?st)" by (rule distinct_submset)
  with assms(1) m(1) show ?thesis unfolding b by (simp add: login_inv_def abort_frame)
qed

lemma inv_task:
  assumes "login_inv st" "k \<in> set (tasks st)" "data (l_pool st1) = data (l_pool st)"
    and "mset (waiting_ids st1) + mset (concat (map task_ids (tasks st1)))
      \<subseteq># mset (waiting_ids st) + mset (task_ids k) + mset (concat (map task_ids (remove1 k (tasks st))))"
  shows "login_inv st1"
  by (rule login_invI [OF assms(1,3)]) (metis assms(4) mset_task_ids_remove1 [OF assms(2)] add.assoc)

lemma inv_commit:
  assumes "login_inv st" "TEmail f ts \<in> set (tasks st)"
  shows "login_inv (commit_flow w ui f ts (take_task (TEmail f ts) st))"
proof -
  let ?em = "fetchUserEmail ui (access_token ts) (flow_proxyUrl f)"
  obtain acc m where c: "commitStagingAccount w (stagingId f) (flow_dir f) (flow_alias f) ?em (flow_proxyUrl f) (l_pool st) = (acc, m)"
    by (metis prod.exhaust)
  note cd = commit_data [OF c]
  let ?st = "commit_flow w ui f ts (take_task (TEmail f ts) st)"
  have f: "l_pool ?st = m" "tasks ?st = remove1 (TEmail f ts) (tasks st)" "waiting_ids ?st = []"
    by (simp_all add: commit_flow_def c waiting_ids_def Let_def)
  have ids: "mset (concat (map task_ids (tasks st))) = add_mset (stagingId f) (mset (concat (map task_ids (tasks ?st))))"
    using mset_task_ids_remove1 [OF assms(2)] f(2) by simp
  have "id_mset ?st \<subseteq># id_mset st"
    using ids cd f by (simp add: id_mset_eq pool_ids_def)
  then have "distinct (live_ids ?st)" using assms(1) by (auto simp: login_inv_def intro: distinct_submset)
  moreover have "stagingId f \<notin> acc_id ` set (accounts (data (l_pool st)))"
  proof -
    have "distinct (live_ids st)" using assms(1) by (simp add: login_inv_def)
    moreover have "stagingId f \<in> set (concat (map task_ids (tasks st)))" using assms(2) by (auto intro!: bexI [of _ "TEmail f ts"])
    ultimately show ?thesis by (auto simp: live_ids_def)
  qed
  then have "pool_inv (data m)"
    using assms(1) pool_step_inv [of "l_pool st" "OpCommit w (stagingId f) (flow_dir f) (flow_alias f) ?em (flow_proxyUrl f)"] c
    by (simp add: login_inv_def)
  ultimately show ?thesis using f(1) by (simp add: login_inv_def)
qed

definition note_delivered :: "nat \<Rightarrow> login \<Rightarrow> login" where
  "note_delivered l st = st\<lparr>loopbacks := (loopbacks st)[l := (loopbacks st ! l)\<lparr>delivered := True\<rparr>]\<rparr>"

lemma deliver_cases:
  obtains "deliver w l st = note_delivered l st"
  | cd sta where "cb_result (loopbacks st ! l) = Some (CbCode cd sta)" "deliver w l st = finishWithCode w cd sta (note_delivered l st)"
  | msg where "deliver w l st = fail w msg (note_delivered l st)"
proof -
  have "deliver w l st = note_delivered l st \<or>
      (\<exists>cd sta. cb_result (loopbacks st ! l) = Some (CbCode cd sta) \<and> deliver w l st = finishWithCode w cd sta (note_delivered l st)) \<or>
      (\<exists>msg. deliver w l st = fail w msg (note_delivered l st))"
    unfolding deliver_def note_delivered_def [symmetric] Let_def by (auto split: option.splits cb_result.splits)
  with that show thesis by blast
qed

lemma submit_cases:
  obtains "snd (submitCode parse_url w inp st) = st"
  | cd sta f where "flow st = Some f" "sta = None \<or> sta = Some (flow_state f) \<or> sta = Some []"
    "snd (submitCode parse_url w inp st) =
       finishWithCode w cd (or_else sta (flow_state f)) (st\<lparr>trail := trail st @ [Presented cd sta]\<rparr>)"
proof (cases "\<exists>f cd sta. flow st = Some f \<and> phase (statusValue st) = PWaiting \<and> parsePastedCode parse_url inp = Some (cd, sta) \<and>
    \<not> (truthy_str sta \<and> sta \<noteq> Some (flow_state f))")
  case True
  then obtain f cd sta where f: "flow st = Some f" "phase (statusValue st) = PWaiting"
    "parsePastedCode parse_url inp = Some (cd, sta)" "\<not> (truthy_str sta \<and> sta \<noteq> Some (flow_state f))" by blast
  from f(4) have "sta = None \<or> sta = Some (flow_state f) \<or> sta = Some []" by (cases sta) (auto simp: truthy_str_def)
  with that(2) [of f sta cd] f show thesis by (simp add: submitCode_def)
next
  case False
  then have "snd (submitCode parse_url w inp st) = st" by (auto simp: submitCode_def split: option.splits)
  with that(1) show thesis .
qed

lemma distinct_tail: "distinct (xs @ ys) \<Longrightarrow> distinct zs \<Longrightarrow> set zs \<subseteq> set ys \<Longrightarrow> distinct (xs @ zs)"
  by auto

lemma inv_step:
  assumes "login_inv st" "login_step env tz parse_url st st'"
  shows "login_inv st'"
  using assms(2)
proof cases
  case (ls_begin i w al px)
  with assms(1) show ?thesis by (simp add: inv_begin)
next
  case (ls_submit w inp)
  show ?thesis
  proof (cases rule: submit_cases [of parse_url w inp st])
    case 1
    with ls_submit assms(1) show ?thesis by simp
  next
    case (2 cd sta f)
    show ?thesis
      unfolding ls_submit 2(3) using finish_frame [of w cd "or_else sta (flow_state f)" "st\<lparr>trail := trail st @ [Presented cd sta]\<rparr>"]
      by (intro login_invI [OF assms(1)]) simp_all
  qed
next
  case (ls_cancel w)
  obtain k where "tasks st' = tasks st @ [k]" "task_ids k = []"
    using abort_frame(2) [of w ACancel st] ls_cancel by (auto simp: cancel_flow_def)
  then show ?thesis
    using ls_cancel by (intro login_invI [OF assms(1)]) (simp_all add: cancel_flow_def abort_frame)
next
  case (ls_abort f nx w)
  then show ?thesis
    by (intro inv_task [OF assms(1), of "TAbort f nx"]) (auto simp: abort_goes_on_def)
next
  case (ls_listen nf bound ver challenge sta)
  then show ?thesis
    by (intro inv_task [OF assms(1), of "TResume (AStart nf)"]) (auto simp: start_listening_def Let_def)
next
  case ls_cancelled
  then show ?thesis
    by (intro inv_task [OF assms(1), of "TResume ACancel"]) (auto simp: cancel_goes_on_def waiting_ids_def split: option.splits)
next
  case (ls_opened nf ver sta u l opened)
  then show ?thesis
    by (intro inv_task [OF assms(1), of "TOpen nf ver sta u l"]) (auto simp: flow_opened_def make_active_def waiting_ids_def Let_def split: option.splits)
next
  case (ls_exchanged f cd w post writable)
  then show ?thesis
    by (intro inv_task [OF assms(1), of "TExchange f cd"]) (auto simp: exchanged_def fail_frame split: option.splits sum.splits)
next
  case (ls_email f ts w ui)
  with assms(1) show ?thesis by (simp add: inv_commit)
next
  case (ls_callback l u)
  then show ?thesis
    by (intro login_invI [OF assms(1)]) (auto simp: callback_request_def split: cb_effect.splits)
next
  case (ls_timeout l)
  then show ?thesis by (intro login_invI [OF assms(1)]) (auto simp: listener_timeout_def)
next
  case (ls_close l)
  then show ?thesis by (intro login_invI [OF assms(1)]) auto
next
  case (ls_deliver l w)
  have n: "login_inv (note_delivered l st)" by (intro login_invI [OF assms(1)]) (simp_all add: note_delivered_def)
  show ?thesis
    unfolding ls_deliver(1)
    by (cases rule: deliver_cases [of w l st]) (simp_all add: n login_invI [OF n] finish_frame fail_frame)
next
  case ls_done
  then show ?thesis by (intro login_invI [OF assms(1)]) (auto simp: done_timer_fires_def waiting_ids_def idle_status_def split: option.splits)
next
  case (ls_elsewhere m)
  have a: "distinct (map acc_id (accounts (data m)))" using ls_elsewhere(2) by (simp add: pool_inv_def)
  have b: "distinct ((waiting_ids st @ concat (map task_ids (tasks st))) @ map acc_id (accounts (data (l_pool st))))"
    using assms(1) by (simp only: login_inv_def live_ids_def append_assoc)
  have c: "set (map acc_id (accounts (data m))) \<subseteq> set (map acc_id (accounts (data (l_pool st))))"
    using ls_elsewhere(3) by simp
  from distinct_tail [OF b a c] have "distinct (live_ids (st\<lparr>l_pool := m\<rparr>))" by (simp add: live_ids_def)
  with ls_elsewhere(1,2) show ?thesis by (simp add: login_inv_def)
qed

section \<open>The trail\<close>

fun mark_ok :: "mark list \<Rightarrow> mark \<Rightarrow> bool" where
  "mark_ok earlier (Presented cd sta) = True"
| "mark_ok earlier (Accepted f cd) = (Presented cd (Some (flow_state f)) \<in> set earlier \<or> Presented cd None \<in> set earlier)"
| "mark_ok earlier (Committed f acc) = (acc_id acc = stagingId f \<and> (\<exists>cd. Accepted f cd \<in> set earlier))"

fun backed :: "mark list \<Rightarrow> bool" where
  "backed [] = True"
| "backed (m # earlier) = (mark_ok earlier m \<and> backed earlier)"

text \<open>Every mark rests on an earlier one.\<close>

definition trail_ok :: "mark list \<Rightarrow> bool" where
  "trail_ok es = backed (rev es)"

lemma trail_ok_snoc [simp]: "trail_ok (es @ [m]) = (mark_ok (rev es) m \<and> trail_ok es)"
  by (simp add: trail_ok_def)

fun task_backed :: "mark list \<Rightarrow> task \<Rightarrow> bool" where
  "task_backed es (TExchange f cd) = (Accepted f cd \<in> set es)"
| "task_backed es (TEmail f ts) = (\<exists>cd. Accepted f cd \<in> set es)"
| "task_backed es _ = True"

definition result_backed :: "mark list \<Rightarrow> loopback \<Rightarrow> bool" where
  "result_backed es x = (\<forall>cd sta. cb_result x = Some (CbCode cd sta) \<longrightarrow> Presented cd (Some sta) \<in> set es)"

definition trail_inv :: "pool_manager \<Rightarrow> login \<Rightarrow> bool" where
  "trail_inv m0 st =
     (trail_ok (trail st) \<and> list_all (task_backed (trail st)) (tasks st) \<and> list_all (result_backed (trail st)) (loopbacks st) \<and>
      (\<forall>i \<in> set (pool_ids st). i \<in> acc_id ` set (accounts (data m0)) \<or> (\<exists>f acc. Committed f acc \<in> set (trail st) \<and> acc_id acc = i)))"

lemma task_backed_mono: "task_backed es k \<Longrightarrow> set es \<subseteq> set es' \<Longrightarrow> task_backed es' k"
  by (cases "(es, k)" rule: task_backed.cases) auto

lemma result_backed_mono: "result_backed es x \<Longrightarrow> set es \<subseteq> set es' \<Longrightarrow> result_backed es' x"
  by (auto simp: result_backed_def)

text \<open>A step that adds no mark.\<close>

lemma trail_inv_same:
  assumes "trail_inv m0 st" "trail st1 = trail st" "set (tasks st1) \<subseteq> set (tasks st) \<union> {k. task_backed (trail st) k}"
    and "set (loopbacks st1) \<subseteq> {x. \<exists>y \<in> set (loopbacks st). cb_result x = cb_result y} \<union> {x. result_backed (trail st) x}"
    and "set (pool_ids st1) \<subseteq> set (pool_ids st)"
  shows "trail_inv m0 st1"
proof -
  have "list_all (task_backed (trail st)) (tasks st1)"
    using assms(1,3) by (auto simp: trail_inv_def list_all_iff)
  moreover have "list_all (result_backed (trail st)) (loopbacks st1)"
    using assms(1,4) by (fastforce simp: trail_inv_def list_all_iff result_backed_def)
  ultimately show ?thesis using assms(1,2,5) by (auto simp: trail_inv_def)
qed

lemma trail_inv_mark:
  assumes "trail_inv m0 st" "mark_ok (rev (trail st)) e"
  shows "trail_inv m0 (st\<lparr>trail := trail st @ [e]\<rparr>)"
proof -
  have "list_all (task_backed (trail st @ [e])) (tasks st)" "list_all (result_backed (trail st @ [e])) (loopbacks st)"
    using assms(1) by (auto simp: trail_inv_def list_all_iff intro: task_backed_mono result_backed_mono)
  moreover have "pool_ids (st\<lparr>trail := trail st @ [e]\<rparr>) = pool_ids st" by (simp add: pool_ids_def)
  ultimately show ?thesis using assms by (auto simp: trail_inv_def)
qed

lemma loopbacks_update:
  "n < length xs \<Longrightarrow> cb_result (g (xs ! n)) = cb_result (xs ! n) \<Longrightarrow> x \<in> set (xs[n := g (xs ! n)]) \<Longrightarrow> \<exists>y \<in> set xs. cb_result x = cb_result y"
  using set_update_subset_insert [of xs n "g (xs ! n)"] by (metis insert_iff nth_mem subset_iff)

lemma update_beyond: "\<not> n < length xs \<Longrightarrow> xs[n := y] = xs"
  by (simp add: list_update_beyond)

lemma close_results: "x \<in> set (loopbacks (close_loopback l st)) \<Longrightarrow> \<exists>y \<in> set (loopbacks st). cb_result x = cb_result y"
proof (cases l)
  case (Some n)
  assume x: "x \<in> set (loopbacks (close_loopback l st))"
  show ?thesis
  proof (cases "n < length (loopbacks st)")
    case True
    with x Some loopbacks_update [of n "loopbacks st" "\<lambda>y. y\<lparr>listening := False\<rparr>" x] show ?thesis by (simp add: close_loopback_def)
  next
    case False
    with x Some show ?thesis by (auto simp: close_loopback_def update_beyond)
  qed
qed (auto simp: close_loopback_def)

lemma trail_fail: "trail_inv m0 st \<Longrightarrow> trail_inv m0 (fail w msg st)"
proof (rule trail_inv_same [of m0 st])
  show "set (loopbacks (fail w msg st)) \<subseteq> {x. \<exists>y \<in> set (loopbacks st). cb_result x = cb_result y} \<union> {x. result_backed (trail st) x}"
    by (cases "flow st") (auto simp: fail_def Let_def dest: close_results)
qed (auto simp: fail_frame pool_ids_def)

lemma trail_finish:
  assumes "trail_inv m0 st"
    and "\<And>f. flow st = Some f \<Longrightarrow> sta = flow_state f \<Longrightarrow> Presented cd (Some sta) \<in> set (trail st) \<or> Presented cd None \<in> set (trail st)"
  shows "trail_inv m0 (finishWithCode w cd sta st)"
proof -
  have acc: "trail_inv m0 (enqueue (TExchange f cd) ((setStatus p st)\<lparr>trail := trail st @ [Accepted f cd]\<rparr>))"
    if "flow st = Some f" "sta = flow_state f" for f p
  proof -
    have "trail_inv m0 (st\<lparr>trail := trail st @ [Accepted f cd]\<rparr>)" using assms that by (intro trail_inv_mark) auto
    then show ?thesis
      by (rule trail_inv_same) (auto simp: pool_ids_def)
  qed
  show ?thesis
    using assms(1) acc trail_fail by (auto simp: finishWithCode_def split: option.splits)
qed

lemma trail_commit:
  assumes "trail_inv m0 st" "TEmail f ts \<in> set (tasks st)"
  shows "trail_inv m0 (commit_flow w ui f ts (take_task (TEmail f ts) st))"
proof -
  let ?em = "fetchUserEmail ui (access_token ts) (flow_proxyUrl f)"
  obtain acc m where c: "commitStagingAccount w (stagingId f) (flow_dir f) (flow_alias f) ?em (flow_proxyUrl f) (l_pool st) = (acc, m)"
    by (metis prod.exhaust)
  note cd = commit_data [OF c]
  let ?st = "commit_flow w ui f ts (take_task (TEmail f ts) st)"
  have "task_backed (trail st) (TEmail f ts)" using assms by (auto simp: trail_inv_def list_all_iff)
  then have "mark_ok (rev (trail st)) (Committed f acc)" using cd(1) by simp
  from trail_inv_mark [OF assms(1) this] have i: "trail_inv m0 (st\<lparr>trail := trail st @ [Committed f acc]\<rparr>)" .
  have l: "set (loopbacks ?st) \<subseteq> {x. \<exists>y \<in> set (loopbacks st). cb_result x = cb_result y}"
    using close_results by (fastforce simp: commit_flow_def c Let_def)
  have "trail_inv m0 (?st\<lparr>l_pool := l_pool st\<rparr>)"
  proof (rule trail_inv_same [OF i])
    show "set (tasks (?st\<lparr>l_pool := l_pool st\<rparr>)) \<subseteq> set (tasks (st\<lparr>trail := trail st @ [Committed f acc]\<rparr>)) \<union>
        {k. task_backed (trail (st\<lparr>trail := trail st @ [Committed f acc]\<rparr>)) k}"
      using set_remove1_subset by (fastforce simp: commit_flow_def c Let_def)
  qed (use l in \<open>auto simp: commit_flow_def c pool_ids_def Let_def\<close>)
  moreover have "set (pool_ids ?st) = insert (acc_id acc) (set (pool_ids st))" "Committed f acc \<in> set (trail ?st)"
    using cd(2) by (auto simp: commit_flow_def c pool_ids_def Let_def)
  ultimately show ?thesis
    by (auto simp: trail_inv_def pool_ids_def)
qed

lemma update_results:
  assumes "\<And>y. cb_result (g y) = cb_result y"
  shows "set (xs[n := g (xs ! n)]) \<subseteq> {x. \<exists>y \<in> set xs. cb_result x = cb_result y}"
  using loopbacks_update [of n xs g] assms update_beyond [of n xs] by (cases "n < length xs") auto

lemma trail_abort:
  assumes "trail_inv m0 st"
  shows "trail_inv m0 (abortActive w nx st)"
proof (rule trail_inv_same [OF assms])
  obtain k where "tasks (abortActive w nx st) = tasks st @ [k]" "task_backed (trail st) k"
    using abort_frame(2) [of w nx st] by auto
  then show "set (tasks (abortActive w nx st)) \<subseteq> set (tasks st) \<union> {k. task_backed (trail st) k}" by auto
  show "set (loopbacks (abortActive w nx st)) \<subseteq> {x. \<exists>y \<in> set (loopbacks st). cb_result x = cb_result y} \<union> {x. result_backed (trail st) x}"
    using close_results [of _ _ "st\<lparr>flow := None\<rparr>"]
    by (cases "flow st") (auto simp: abortActive_def Let_def)
qed (simp_all add: abort_frame pool_ids_def)

lemma trail_settle:
  assumes "trail_inv m0 st" "\<And>cd sta. r = CbCode cd sta \<Longrightarrow> Presented cd (Some sta) \<in> set (trail st)"
  shows "trail_inv m0 (settle_result l r st)"
proof (rule trail_inv_same [OF assms(1)])
  have "set ((loopbacks st)[l := (loopbacks st ! l)\<lparr>cb_result := Some r\<rparr>]) \<subseteq>
      insert ((loopbacks st ! l)\<lparr>cb_result := Some r\<rparr>) (set (loopbacks st))" by (rule set_update_subset_insert)
  moreover have "result_backed (trail st) ((loopbacks st ! l)\<lparr>cb_result := Some r\<rparr>)" using assms(2) by (simp add: result_backed_def)
  ultimately show "set (loopbacks (settle_result l r st)) \<subseteq>
      {x. \<exists>y \<in> set (loopbacks st). cb_result x = cb_result y} \<union> {x. result_backed (trail st) x}"
    by (auto simp: settle_result_def Let_def)
qed (auto simp: pool_ids_def)

lemma trail_close: "trail_inv m0 st \<Longrightarrow> trail_inv m0 (close_loopback l st)"
  by (rule trail_inv_same [of m0 st]) (auto simp: pool_ids_def dest: close_results)

lemma trail_step:
  assumes "trail_inv m0 st" "login_step env tz parse_url st st'"
  shows "trail_inv m0 st'"
  using assms(2)
proof cases
  case (ls_begin i w al px)
  obtain sid d m where c: "createStagingSlot i (l_pool st) = ((sid, d), m)" by (metis prod.exhaust)
  have "trail_inv m0 (st\<lparr>l_pool := m\<rparr>)"
    using staging_data [OF c] by (intro trail_inv_same [OF assms(1)]) (auto simp: pool_ids_def)
  then show ?thesis unfolding ls_begin(1) by (simp add: begin_flow_def c trail_abort)
next
  case (ls_submit w inp)
  show ?thesis
  proof (cases rule: submit_cases [of parse_url w inp st])
    case 1
    with ls_submit assms(1) show ?thesis by simp
  next
    case (2 cd sta f)
    have "trail_inv m0 (st\<lparr>trail := trail st @ [Presented cd sta]\<rparr>)" using assms(1) by (rule trail_inv_mark) simp
    then show ?thesis
      unfolding ls_submit 2(3) using 2(1,2) by (intro trail_finish) auto
  qed
next
  case (ls_cancel w)
  with assms(1) show ?thesis by (simp add: cancel_flow_def trail_abort)
next
  case (ls_abort f nx w)
  then show ?thesis
    using set_remove1_subset [of "TAbort f nx" "tasks st"]
    by (intro trail_inv_same [OF assms(1)]) (auto simp: abort_goes_on_def pool_ids_def)
next
  case (ls_listen nf bound ver challenge sta)
  then show ?thesis
    using set_remove1_subset [of "TResume (AStart nf)" "tasks st"]
    by (intro trail_inv_same [OF assms(1)]) (auto simp: start_listening_def pool_ids_def result_backed_def Let_def)
next
  case ls_cancelled
  then show ?thesis
    using set_remove1_subset [of "TResume ACancel" "tasks st"]
    by (intro trail_inv_same [OF assms(1)]) (auto simp: cancel_goes_on_def pool_ids_def)
next
  case (ls_opened nf ver sta u l opened)
  have "set (loopbacks st') \<subseteq> {x. \<exists>y \<in> set (loopbacks st). cb_result x = cb_result y}"
    using ls_opened(1) update_results [of "\<lambda>y. y\<lparr>attached := True\<rparr>" "loopbacks st"]
    by (cases l) (auto simp: flow_opened_def Let_def)
  then show ?thesis
    using set_remove1_subset [of "TOpen nf ver sta u l" "tasks st"] ls_opened(1)
    by (intro trail_inv_same [OF assms(1)]) (auto simp: flow_opened_def pool_ids_def Let_def split: option.splits)
next
  case (ls_exchanged f cd w post writable)
  let ?st = "take_task (TExchange f cd) st"
  have k: "Accepted f cd \<in> set (trail st)" using assms(1) ls_exchanged(2) by (auto simp: trail_inv_def list_all_iff)
  have t: "trail_inv m0 ?st"
    using set_remove1_subset [of "TExchange f cd" "tasks st"] by (intro trail_inv_same [OF assms(1)]) (auto simp: pool_ids_def)
  have e: "trail_inv m0 (enqueue (TEmail f ts) (with_pool (\<lambda>m. m\<lparr>dirs := List.insert d (dirs m)\<rparr>) (?st\<lparr>l_files := fs\<rparr>)))" for ts d fs
    using k by (intro trail_inv_same [OF t]) (auto simp: pool_ids_def)
  show ?thesis
    unfolding ls_exchanged(1) exchanged_def using t e trail_fail by (auto split: sum.splits)
next
  case (ls_email f ts w ui)
  with assms(1) show ?thesis by (simp add: trail_commit)
next
  case (ls_callback l u)
  have m: "trail_inv m0 (st\<lparr>trail := trail st @ [Presented cd sta]\<rparr>)" for cd sta using assms(1) by (rule trail_inv_mark) simp
  show ?thesis
    unfolding ls_callback(1) callback_request_def using assms(1) m by (auto intro!: trail_settle split: cb_effect.splits)
next
  case (ls_timeout l)
  show ?thesis unfolding ls_timeout(1) listener_timeout_def using assms(1) by (intro trail_close trail_settle) simp_all
next
  case (ls_close l)
  with assms(1) show ?thesis by (simp add: trail_close)
next
  case (ls_deliver l w)
  have n: "trail_inv m0 (note_delivered l st)"
    using update_results [of "\<lambda>y. y\<lparr>delivered := True\<rparr>" "loopbacks st" l]
    by (intro trail_inv_same [OF assms(1)]) (auto simp: note_delivered_def pool_ids_def)
  have p: "Presented cd (Some sta) \<in> set (trail (note_delivered l st))" if "cb_result (loopbacks st ! l) = Some (CbCode cd sta)" for cd sta
    using assms(1) that ls_deliver(2) by (auto simp: trail_inv_def list_all_length result_backed_def note_delivered_def)
  show ?thesis
    unfolding ls_deliver(1)
    by (cases rule: deliver_cases [of w l st]) (simp_all add: n p trail_finish trail_fail)
next
  case ls_done
  then show ?thesis by (intro trail_inv_same [OF assms(1)]) (auto simp: done_timer_fires_def pool_ids_def)
next
  case (ls_elsewhere m)
  then show ?thesis by (intro trail_inv_same [OF assms(1)]) (auto simp: pool_ids_def)
qed

lemma login_reachable_inv:
  assumes "login_reachable env tz parse_url m0 st"
  shows "login_inv st" "trail_inv m0 st"
proof -
  have "login_inv st \<and> trail_inv m0 st"
    using assms
  proof (induction rule: login_reachable.induct)
    case (lr_init fs)
    then show ?case
      by (auto simp: login_inv_def trail_inv_def new_login_def live_ids_def waiting_ids_def pool_ids_def trail_ok_def pool_inv_def)
  next
    case (lr_step st st')
    then show ?case by (auto intro: inv_step trail_step)
  qed
  then show "login_inv st" "trail_inv m0 st" by auto
qed

section \<open>Properties\<close>

lemma backed_split: "backed (rev (us @ e # vs)) \<Longrightarrow> mark_ok (rev us) e"
  by (induction vs rule: rev_induct) auto

text \<open>
  C27. Whatever order the calls, callbacks, replies and timers come in, a sign-in adds an account only
  for a code that was checked: the commit of a flow is preceded by the acceptance of a code for that
  very flow, and the acceptance by the presentation of that code, at the listener or pasted, with the
  state of this flow, or pasted bare. Every account that was not there before comes from such a
  commit under the identity of its flow, the pool invariant holds, and no identity is ever in use
  twice.
\<close>

theorem signin_sound:
  assumes "login_reachable env tz parse_url m0 st"
  shows "(\<forall>us f acc vs. trail st = us @ Committed f acc # vs \<longrightarrow>
      acc_id acc = stagingId f \<and>
      (\<exists>cd xs ys. us = xs @ Accepted f cd # ys \<and> (Presented cd (Some (flow_state f)) \<in> set xs \<or> Presented cd None \<in> set xs))) \<and>
    (\<forall>i \<in> set (pool_ids st). i \<in> acc_id ` set (accounts (data m0)) \<or> (\<exists>f acc. Committed f acc \<in> set (trail st) \<and> acc_id acc = i)) \<and>
    pool_inv (data (l_pool st)) \<and> distinct (live_ids st)"
proof -
  note inv = login_reachable_inv [OF assms]
  have "acc_id acc = stagingId f \<and>
      (\<exists>cd xs ys. us = xs @ Accepted f cd # ys \<and> (Presented cd (Some (flow_state f)) \<in> set xs \<or> Presented cd None \<in> set xs))"
    if t: "trail st = us @ Committed f acc # vs" for us f acc vs
  proof -
    have b: "backed (rev (us @ Committed f acc # vs))" using inv(2) t by (simp add: trail_inv_def trail_ok_def)
    then have m: "mark_ok (rev us) (Committed f acc)" by (rule backed_split)
    then obtain cd where "Accepted f cd \<in> set us" by auto
    then obtain xs ys where us: "us = xs @ Accepted f cd # ys" by (auto simp: in_set_conv_decomp)
    from b have "backed (rev (xs @ Accepted f cd # (ys @ Committed f acc # vs)))" by (simp add: us)
    then have "mark_ok (rev xs) (Accepted f cd)" by (rule backed_split)
    with m us show ?thesis by auto
  qed
  with inv show ?thesis by (simp add: login_inv_def trail_inv_def)
qed

definition demo_world :: world where
  "demo_world = \<lparr>now = 1000, write_ok = True, fs_ok = True\<rparr>"

definition demo_client :: client_env where
  "demo_client = \<lparr>env_client_id = None, env_client_secret = None\<rparr>"

definition demo_slot :: new_flow where
  "demo_slot = \<lparr>stagingId = ''a'', flow_dir = ''base/staging_a'', flow_alias = Some ''spare'', flow_proxyUrl = None\<rparr>"

definition demo_post :: "string option \<Rightarrow> (string \<times> string) list \<Rightarrow> fetch_outcome" where
  "demo_post px form = Inr \<lparr>http_status = 200, http_json = Some (JObj [(''access_token'', JStr ''tk'')])\<rparr>"

definition demo_flow :: active_flow where
  "demo_flow = make_active demo_slot ''v'' ''s'' (buildAuthorizeUrl demo_client ''c'' ''s'') None"

definition demo_waiting :: login where
  "demo_waiting = (new_login (pool_of []) Map.empty)\<lparr>flow := Some demo_flow,
     statusValue := \<lparr>phase = PWaiting, s_stagingId = Some ''a'', s_alias = Some ''spare'', s_url = Some (flow_url demo_flow),
       s_mode = Some ManualMode, browserOpened = Some True, s_message = None\<rparr>,
     l_pool := (pool_of [])\<lparr>dirs := [''base/staging_a'']\<rparr>\<rparr>"

definition demo_tokens_of :: token_set where
  "demo_tokens_of = \<lparr>access_token = JStr ''tk'', token_type = JStr ''Bearer'', refresh_token = None, expiryMs = None\<rparr>"

lemma demo_reachable: "login_reachable demo_client (\<lambda>_. 0) (\<lambda>_. None) (pool_of []) demo_waiting"
proof -
  let ?r = "login_reachable demo_client (\<lambda>_. 0) (\<lambda>_. None) (pool_of [])"
  let ?s0 = "new_login (pool_of []) Map.empty"
  let ?s1 = "?s0\<lparr>l_pool := (pool_of [])\<lparr>dirs := [''base/staging_a'']\<rparr>, tasks := [TResume (AStart demo_slot)]\<rparr>"
  let ?u = "buildAuthorizeUrl demo_client ''c'' ''s''"
  let ?s2 = "?s0\<lparr>l_pool := (pool_of [])\<lparr>dirs := [''base/staging_a'']\<rparr>, tasks := [TOpen demo_slot ''v'' ''s'' ?u None]\<rparr>"
  have r0: "?r ?s0" by (rule lr_init) (simp add: pool_inv_def pool_of_def new_manager_def load_def defaultPoolData_def Let_def)
  have "begin_flow demo_world ''a'' (Some ''spare'') None ?s0 = ?s1"
    by (simp add: begin_flow_def createStagingSlot_def abortActive_def new_login_def enqueue_def demo_slot_def pool_of_def
        new_manager_def load_def path_join_def defaultPoolData_def Let_def)
  then have r1: "?r ?s1" using lr_step [OF r0 ls_begin [of "''a''"]]
    by (simp add: live_ids_def waiting_ids_def new_login_def pool_of_def new_manager_def load_def defaultPoolData_def Let_def) metis
  have "start_listening demo_client demo_slot ''v'' ''c'' ''s'' False (take_task (TResume (AStart demo_slot)) ?s1) = ?s2"
    by (simp add: start_listening_def enqueue_def take_task_def)
  then have r2: "?r ?s2" using lr_step [OF r1 ls_listen [of demo_slot _ False]] by simp metis
  have "flow_opened demo_slot ''v'' ''s'' ?u None True (take_task (TOpen demo_slot ''v'' ''s'' ?u None) ?s2) = demo_waiting"
    by (simp add: flow_opened_def setStatus_def take_task_def demo_waiting_def demo_flow_def make_active_def demo_slot_def
        new_login_def Let_def)
  then show ?thesis using lr_step [OF r2 ls_opened [of demo_slot "''v''" "''s''" ?u None]] by simp metis
qed

definition demo_exchanging :: login where
  "demo_exchanging = demo_waiting\<lparr>statusValue := (statusValue demo_waiting)\<lparr>phase := PExchanging\<rparr>,
     tasks := [TExchange demo_flow ''4/0AbCdEfGh''],
     trail := [Presented ''4/0AbCdEfGh'' None, Accepted demo_flow ''4/0AbCdEfGh'']\<rparr>"

lemma demo_submitted: "login_step demo_client (\<lambda>_. 0) (\<lambda>_. None) demo_waiting demo_exchanging"
proof -
  have "parsePastedCode (\<lambda>_. None) ''4/0AbCdEfGh'' = Some (''4/0AbCdEfGh'', None)" by code_simp
  then have "snd (submitCode (\<lambda>_. None) demo_world ''4/0AbCdEfGh'' demo_waiting) = demo_exchanging"
    by (simp add: submitCode_def demo_waiting_def demo_exchanging_def finishWithCode_def truthy_str_def enqueue_def setStatus_def
        new_login_def Let_def)
  then show ?thesis using ls_submit [of demo_client "\<lambda>_. 0" "\<lambda>_. None" demo_waiting demo_world "''4/0AbCdEfGh''"] by simp
qed

lemma demo_exchange: "exchangeCode demo_client demo_post t ''4/0AbCdEfGh'' ''v'' None = Inr demo_tokens_of"
  by (simp add: exchangeCode_def postTokenForm_def demo_post_def resolveClientCredentials_def res_ok_def toTokenSet_def
      demo_tokens_of_def present_def Let_def)

text \<open>The end of a sign-in whose exchange and userinfo calls succeed, from any state that waits for them.\<close>

definition demo_commit :: "login \<Rightarrow> login" where
  "demo_commit st =
     commit_flow demo_world (\<lambda>_ _. Inl (''TypeError'', ''fetch failed'')) demo_flow demo_tokens_of
       (take_task (TEmail demo_flow demo_tokens_of)
         (exchanged demo_client (\<lambda>_. 0) demo_world demo_post (Inr ()) demo_flow ''4/0AbCdEfGh''
           (take_task (TExchange demo_flow ''4/0AbCdEfGh'') st)))"

lemma demo_commit_steps:
  assumes "login_reachable demo_client (\<lambda>_. 0) (\<lambda>_. None) m0 st" "TExchange demo_flow ''4/0AbCdEfGh'' \<in> set (tasks st)"
  shows "login_reachable demo_client (\<lambda>_. 0) (\<lambda>_. None) m0 (demo_commit st)"
    "\<exists>acc. trail (demo_commit st) = trail st @ [Committed demo_flow acc] \<and> pool_ids (demo_commit st) = pool_ids st @ [''a'']"
proof -
  let ?s = "exchanged demo_client (\<lambda>_. 0) demo_world demo_post (Inr ()) demo_flow ''4/0AbCdEfGh''
      (take_task (TExchange demo_flow ''4/0AbCdEfGh'') st)"
  have f: "verifier demo_flow = ''v''" "flow_proxyUrl demo_flow = None" "stagingId demo_flow = ''a''"
    by (simp_all add: demo_flow_def make_active_def demo_slot_def)
  have t: "TEmail demo_flow demo_tokens_of \<in> set (tasks ?s)" by (simp add: exchanged_def f demo_exchange)
  show "login_reachable demo_client (\<lambda>_. 0) (\<lambda>_. None) m0 (demo_commit st)"
    unfolding demo_commit_def
    by (rule lr_step [OF lr_step [OF assms(1) ls_exchanged [OF assms(2)]] ls_email [OF t]])
  have s: "l_pool ?s = (l_pool st)\<lparr>dirs := List.insert (flow_dir demo_flow) (dirs (l_pool st))\<rparr>" "trail ?s = trail st"
    by (simp_all add: exchanged_def f demo_exchange)
  obtain acc m where c: "commitStagingAccount demo_world ''a'' (flow_dir demo_flow) (flow_alias demo_flow)
      (fetchUserEmail (\<lambda>_ _. Inl (''TypeError'', ''fetch failed'')) (access_token demo_tokens_of) None) None (l_pool ?s) = (acc, m)"
    by (metis prod.exhaust)
  have "trail (demo_commit st) = trail st @ [Committed demo_flow acc]" "l_pool (demo_commit st) = m"
    unfolding demo_commit_def commit_flow_def using c s(2) f by (simp_all add: Let_def)
  with commit_data [OF c] s(1) show "\<exists>acc. trail (demo_commit st) = trail st @ [Committed demo_flow acc] \<and>
      pool_ids (demo_commit st) = pool_ids st @ [''a'']"
    by (auto simp: pool_ids_def)
qed

theorem signin_sound_witness:
  "\<exists>st f acc cd. login_reachable demo_client (\<lambda>_. 0) (\<lambda>_. None) (pool_of []) st \<and> Committed f acc \<in> set (trail st) \<and>
     Accepted f cd \<in> set (trail st) \<and> pool_ids st = [''a''] \<and> pool_inv (data (l_pool st))"
proof -
  have r: "login_reachable demo_client (\<lambda>_. 0) (\<lambda>_. None) (pool_of []) demo_exchanging"
    by (rule lr_step [OF demo_reachable demo_submitted])
  have t: "TExchange demo_flow ''4/0AbCdEfGh'' \<in> set (tasks demo_exchanging)" by (simp add: demo_exchanging_def)
  note c = demo_commit_steps [OF r t]
  from c(2) obtain acc where acc: "trail (demo_commit demo_exchanging) = trail demo_exchanging @ [Committed demo_flow acc]"
    "pool_ids (demo_commit demo_exchanging) = pool_ids demo_exchanging @ [''a'']" by blast
  have "pool_ids demo_exchanging = []"
    by (simp add: pool_ids_def demo_exchanging_def demo_waiting_def pool_of_def new_manager_def load_def defaultPoolData_def Let_def)
  with signin_sound [OF c(1)] c(1) acc show ?thesis by fastforce
qed

text \<open>
  Cancelling does not stop an exchange that is under way: the flow is gone and the status idle, and
  then the reply of the token endpoint still adds the account.
\<close>

lemma cancelled_signin_still_commits:
  "\<exists>st. login_reachable demo_client (\<lambda>_. 0) (\<lambda>_. None) (pool_of []) st \<and> flow st = None \<and> phase (statusValue st) = PIdle \<and>
     pool_ids st = [] \<and> login_reachable demo_client (\<lambda>_. 0) (\<lambda>_. None) (pool_of []) (demo_commit st) \<and>
     pool_ids (demo_commit st) = [''a''] \<and> phase (statusValue (demo_commit st)) = PDone"
proof -
  let ?r = "login_reachable demo_client (\<lambda>_. 0) (\<lambda>_. None) (pool_of [])"
  have r: "?r demo_exchanging" by (rule lr_step [OF demo_reachable demo_submitted])
  let ?c = "cancel_flow demo_world demo_exchanging"
  have f: "flow demo_exchanging = Some demo_flow" "listener demo_flow = None"
    by (simp_all add: demo_exchanging_def demo_waiting_def demo_flow_def make_active_def)
  have tk: "tasks demo_exchanging = [TExchange demo_flow ''4/0AbCdEfGh'']" and pi: "pool_ids demo_exchanging = []"
    by (simp_all add: demo_exchanging_def demo_waiting_def pool_ids_def pool_of_def new_manager_def load_def defaultPoolData_def Let_def)
  have t: "tasks ?c = [TExchange demo_flow ''4/0AbCdEfGh'', TResume ACancel]"
    using tk by (simp add: cancel_flow_def abortActive_def f)
  let ?d = "cancel_goes_on (take_task (TResume ACancel) ?c)"
  have rc: "?r ?c" by (rule lr_step [OF r ls_cancel])
  have rd: "?r ?d" by (rule lr_step [OF rc ls_cancelled]) (simp add: t)
  have d: "flow ?d = None" "phase (statusValue ?d) = PIdle" "tasks ?d = [TExchange demo_flow ''4/0AbCdEfGh'']" "pool_ids ?d = []"
    using t pi by (simp_all add: cancel_goes_on_def cancel_flow_def abortActive_def f pool_ids_def)
  have "phase (statusValue (demo_commit ?d)) = PDone" by (simp add: demo_commit_def commit_flow_def split: prod.splits)
  with rd d demo_commit_steps [OF rd] show ?thesis by fastforce
qed

end
