(* ===== verification/AdminSession.thy ===== *)
theory AdminSession
  imports Dates
begin

text \<open>
  The admin session primitives, \<open>src/server/admin-session.ts\<close>: the session table, the cookie header
  both ways, and the bootstrap and check of the admin password. \<open>sha256\<close> and argon2 are parameters;
  the random token and password come as arguments. The two database tables are a list of rows and an
  ordered map.
\<close>

section \<open>Sessions\<close>

definition ADMIN_COOKIE :: string where
  "ADMIN_COOKIE = ''agy_admin_session''"

record session_row =
  token_hash :: string
  created_at :: int
  expires_at :: int

record admin_db =
  admin_sessions :: "session_row list"
  admin_settings :: "(string, string) jsmap"

definition session_ttl :: "int option \<Rightarrow> int" where
  "session_ttl ttlMs = max 60000 (or_else ttlMs (7 * 86400000))"

text \<open>
  \<open>create\<close>: the insertion throws when the primary key is taken, after the sweep. The method is synchronous and reads the
  clock three times; here the three reads are one.
\<close>

definition create_session :: "(string \<Rightarrow> string) \<Rightarrow> int \<Rightarrow> int \<Rightarrow> string \<Rightarrow> admin_db \<Rightarrow> (string \<times> int) option \<times> admin_db" where
  "create_session sha ttl t token db =
     (let expiresAt = t + ttl;
          swept = filter (\<lambda>r. \<not> expires_at r \<le> t) (admin_sessions db)
      in if list_ex (\<lambda>r. token_hash r = sha token) swept then (None, db\<lparr>admin_sessions := swept\<rparr>)
         else (Some (token, expiresAt),
               db\<lparr>admin_sessions := swept @ [\<lparr>token_hash = sha token, created_at = t, expires_at = expiresAt\<rparr>]\<rparr>))"

definition delete_session :: "string \<Rightarrow> admin_db \<Rightarrow> admin_db" where
  "delete_session h db = db\<lparr>admin_sessions := filter (\<lambda>r. token_hash r \<noteq> h) (admin_sessions db)\<rparr>"

definition verify_session :: "(string \<Rightarrow> string) \<Rightarrow> int \<Rightarrow> string \<Rightarrow> admin_db \<Rightarrow> bool \<times> admin_db" where
  "verify_session sha t token db =
     (if token = [] then (False, db)
      else case find (\<lambda>r. token_hash r = sha token) (admin_sessions db) of
             None \<Rightarrow> (False, db)
           | Some row \<Rightarrow> if expires_at row \<le> t then (False, delete_session (sha token) db) else (True, db))"

definition revoke_session :: "(string \<Rightarrow> string) \<Rightarrow> string \<Rightarrow> admin_db \<Rightarrow> admin_db" where
  "revoke_session sha token db = delete_session (sha token) db"

definition revoke_all :: "admin_db \<Rightarrow> admin_db" where
  "revoke_all db = db\<lparr>admin_sessions := []\<rparr>"

section \<open>Cookies\<close>

definition hex_byte :: "char \<Rightarrow> char \<Rightarrow> nat option" where
  "hex_byte a b = (case (hex_digit a, hex_digit b) of (Some x, Some y) \<Rightarrow> Some (16 * x + y) | _ \<Rightarrow> None)"

text \<open>
  \<open>decodeURIComponent\<close>: an escape below 128 is that character; a leading byte takes its continuation
  bytes, escaped too, and the sequence has to be well-formed UTF-8. Everything else throws.
\<close>

fun escaped :: "string \<Rightarrow> (nat \<times> string) option" where
  "escaped (p # a # b # r) = (if p = CHR ''%'' then map_option (\<lambda>n. (n, r)) (hex_byte a b) else None)"
| "escaped _ = None"

fun continuation :: "nat \<Rightarrow> string \<Rightarrow> (nat list \<times> string) option" where
  "continuation 0 s = Some ([], s)"
| "continuation (Suc k) s =
     (case escaped s of
        None \<Rightarrow> None
      | Some (n, r) \<Rightarrow>
          if 128 \<le> n \<and> n < 192 then map_option (\<lambda>(ns, r'). (n # ns, r')) (continuation k r) else None)"

definition utf8_rest :: "nat \<Rightarrow> nat option" where
  "utf8_rest n =
     (if n < 128 then Some 0
      else if 194 \<le> n \<and> n < 224 then Some 1
      else if 224 \<le> n \<and> n < 240 then Some 2
      else if 240 \<le> n \<and> n < 245 then Some 3 else None)"

definition utf8_first_ok :: "nat \<Rightarrow> nat list \<Rightarrow> bool" where
  "utf8_first_ok n ns =
     (case ns of
        [] \<Rightarrow> True
      | m # _ \<Rightarrow> (n = 224 \<longrightarrow> 160 \<le> m) \<and> (n = 237 \<longrightarrow> m < 160) \<and> (n = 240 \<longrightarrow> 144 \<le> m) \<and> (n = 244 \<longrightarrow> m < 144))"

lemma escaped_shorter: "escaped s = Some (n, r) \<Longrightarrow> length r < length s"
  by (induction s rule: escaped.induct) (auto split: if_splits)

lemma continuation_shorter: "continuation k s = Some (ns, r) \<Longrightarrow> length r \<le> length s"
proof (induction k arbitrary: s ns r)
  case (Suc k)
  then obtain n r1 ms where e: "escaped s = Some (n, r1)" "continuation k r1 = Some (ms, r)"
    by (auto split: option.splits if_splits)
  from escaped_shorter [OF e(1)] Suc.IH [OF e(2)] show ?case by simp
qed simp

function decodeURIComponent :: "string \<Rightarrow> string option" where
  "decodeURIComponent [] = Some []"
| "decodeURIComponent (c # cs) =
     (if c \<noteq> CHR ''%'' then map_option (\<lambda>r. c # r) (decodeURIComponent cs)
      else case escaped (c # cs) of
             None \<Rightarrow> None
           | Some (n, r) \<Rightarrow>
               (case utf8_rest n of
                  None \<Rightarrow> None
                | Some k \<Rightarrow>
                    (case continuation k r of
                       None \<Rightarrow> None
                     | Some (ns, r') \<Rightarrow>
                         if utf8_first_ok n ns then map_option (\<lambda>d. map char_of (n # ns) @ d) (decodeURIComponent r') else None)))"
  by pat_completeness auto

termination
  by (relation "measure length") (auto dest!: escaped_shorter continuation_shorter)

declare decodeURIComponent.simps(2) [simp del]

text \<open>Assigning a string to \<open>__proto__\<close> of an object does nothing.\<close>

definition parse_cookie :: "(string, string) jsmap \<Rightarrow> string \<Rightarrow> (string, string) jsmap" where
  "parse_cookie out part =
     (let (a, b) = split_at (\<lambda>c. c = CHR ''='') part in
      case b of
        None \<Rightarrow> out
      | Some b \<Rightarrow>
          (let k = trim a; v = trim b in
           if k = [] then out
           else case decodeURIComponent v of
                  None \<Rightarrow> out
                | Some d \<Rightarrow> if k = ''__proto__'' then out else jm_set k d out))"

definition parseCookieHeader :: "string option \<Rightarrow> (string, string) jsmap" where
  "parseCookieHeader header =
     (case header of
        None \<Rightarrow> []
      | Some h \<Rightarrow> if h = [] then [] else foldl parse_cookie [] (split_on (\<lambda>c. c = CHR '';'') h))"

definition weekday :: "int \<Rightarrow> string" where
  "weekday t = [''Sun'', ''Mon'', ''Tue'', ''Wed'', ''Thu'', ''Fri'', ''Sat''] ! nat ((t div 86400000 + 4) mod 7)"

definition month_name :: "nat \<Rightarrow> string" where
  "month_name m = [''Jan'', ''Feb'', ''Mar'', ''Apr'', ''May'', ''Jun'', ''Jul'', ''Aug'', ''Sep'', ''Oct'', ''Nov'', ''Dec''] ! (m - 1)"

definition toUTCString :: "int \<Rightarrow> string" where
  "toUTCString t =
     (let f = fields_of t
      in weekday t @ '', '' @ pad 2 (day_of_month f) @ '' '' @ month_name (month f) @ '' '' @
         (if year f < 0 then ''-'' else []) @ pad 4 (nat \<bar>year f\<bar>) @ '' '' @
         pad 2 (hours f) @ '':'' @ pad 2 (minutes f) @ '':'' @ pad 2 (seconds f) @ '' GMT'')"

definition serializeSetCookie :: "string \<Rightarrow> int \<Rightarrow> string" where
  "serializeSetCookie token expiresAt =
     ADMIN_COOKIE @ ''='' @ token @ ''; Path=/; HttpOnly; SameSite=Lax; Expires='' @ toUTCString expiresAt"

definition serializeClearCookie :: string where
  "serializeClearCookie = ADMIN_COOKIE @ ''=; Path=/; HttpOnly; SameSite=Lax; Expires=Thu, 01 Jan 1970 00:00:00 GMT''"

section \<open>The admin password\<close>

definition SETTINGS_KEY :: string where
  "SETTINGS_KEY = ''admin_password_hash''"

datatype password_log = RehashFailed string | LookupFailed string | StoreFailed string | GeneratedShown string

text \<open>
  \<open>lookup_err\<close> and \<open>store_err\<close> are the errors the database or the hash throws, if any; \<open>phc\<close> is the
  argon2 hash of a password.
\<close>

definition ensureAdminPassword ::
  "(string \<Rightarrow> string) \<Rightarrow> string \<Rightarrow> string option \<Rightarrow> string option \<Rightarrow> string \<Rightarrow> admin_db \<Rightarrow> password_log option \<times> admin_db" where
  "ensureAdminPassword phc envPassword lookup_err store_err generated db =
     (let put = (\<lambda>p. db\<lparr>admin_settings := jm_set SETTINGS_KEY (phc p) (admin_settings db)\<rparr>) in
      if envPassword \<noteq> [] then
        (case store_err of Some e \<Rightarrow> (Some (RehashFailed e), db) | None \<Rightarrow> (None, put envPassword))
      else case lookup_err of
             Some e \<Rightarrow> (Some (LookupFailed e), db)
           | None \<Rightarrow>
               if map_of (admin_settings db) SETTINGS_KEY \<noteq> None then (None, db)
               else (case store_err of
                       Some e \<Rightarrow> (Some (StoreFailed e), db)
                     | None \<Rightarrow> (Some (GeneratedShown generated), put generated)))"

text \<open>\<open>check\<close> is argon2's verification, \<open>None\<close> when it throws.\<close>

definition verifyAdminPassword :: "(string \<Rightarrow> string \<Rightarrow> bool option) \<Rightarrow> admin_db \<Rightarrow> string \<Rightarrow> bool" where
  "verifyAdminPassword check db password =
     (case map_of (admin_settings db) SETTINGS_KEY of
        None \<Rightarrow> False
      | Some h \<Rightarrow> or_else (check h password) False)"

section \<open>Sessions against their specification\<close>

datatype session_op = SCreate int string | SVerify int string | SRevoke string | SRevokeAll

fun session_step :: "(string \<Rightarrow> string) \<Rightarrow> int \<Rightarrow> admin_db \<Rightarrow> session_op \<Rightarrow> admin_db" where
  "session_step sha ttl db (SCreate t token) = snd (create_session sha ttl t token db)"
| "session_step sha ttl db (SVerify t token) = snd (verify_session sha t token db)"
| "session_step sha ttl db (SRevoke token) = revoke_session sha token db"
| "session_step sha ttl db SRevokeAll = revoke_all db"

text \<open>What the store promises: a token is good until its expiry or its revocation.\<close>

fun session_spec :: "int \<Rightarrow> (string \<rightharpoonup> int) \<Rightarrow> session_op \<Rightarrow> (string \<rightharpoonup> int)" where
  "session_spec ttl m (SCreate t token) = m(token \<mapsto> t + ttl)"
| "session_spec ttl m (SVerify t token) = m"
| "session_spec ttl m (SRevoke token) = m(token := None)"
| "session_spec ttl m SRevokeAll = Map.empty"

fun session_time :: "session_op \<Rightarrow> int \<Rightarrow> int" where
  "session_time (SCreate t token) t0 = t"
| "session_time (SVerify t token) t0 = t"
| "session_time _ t0 = t0"

text \<open>The clock does not run backwards and a created token is new.\<close>

fun session_run_ok :: "int \<Rightarrow> string set \<Rightarrow> session_op list \<Rightarrow> int \<Rightarrow> bool" where
  "session_run_ok t0 seen [] t = (t0 \<le> t)"
| "session_run_ok t0 seen (op # ops) t =
     (t0 \<le> session_time op t0 \<and> (case op of SCreate _ token \<Rightarrow> token \<notin> seen | _ \<Rightarrow> True) \<and>
      session_run_ok (session_time op t0) (case op of SCreate _ token \<Rightarrow> insert token seen | _ \<Rightarrow> seen) ops t)"

definition sessions_rel :: "(string \<Rightarrow> string) \<Rightarrow> int \<Rightarrow> string set \<Rightarrow> (string \<rightharpoonup> int) \<Rightarrow> admin_db \<Rightarrow> bool" where
  "sessions_rel sha t seen m db =
     (distinct (map token_hash (admin_sessions db)) \<and> token_hash ` set (admin_sessions db) \<subseteq> sha ` seen \<and>
      (\<forall>token e. t < e \<longrightarrow>
         (m token = Some e \<longleftrightarrow> (\<exists>r \<in> set (admin_sessions db). token_hash r = sha token \<and> expires_at r = e))))"

lemma rel_later: "sessions_rel sha t seen m db \<Longrightarrow> t \<le> t' \<Longrightarrow> sessions_rel sha t' seen m db"
  unfolding sessions_rel_def by (meson le_less_trans)

lemma rel_sweep:
  "sessions_rel sha t seen m db \<Longrightarrow>
   sessions_rel sha t seen m (db\<lparr>admin_sessions := filter (\<lambda>r. \<not> expires_at r \<le> t) (admin_sessions db)\<rparr>)"
proof -
  assume r: "sessions_rel sha t seen m db"
  let ?sw = "filter (\<lambda>r. \<not> expires_at r \<le> t) (admin_sessions db)"
  have "(\<exists>r \<in> set ?sw. token_hash r = sha k \<and> expires_at r = e) \<longleftrightarrow>
      (\<exists>r \<in> set (admin_sessions db). token_hash r = sha k \<and> expires_at r = e)" if "t < e" for k e
    using that by auto
  moreover have "distinct (map token_hash ?sw)" "token_hash ` set ?sw \<subseteq> sha ` seen"
    using r by (auto simp: sessions_rel_def distinct_map_filter)
  ultimately show ?thesis using r by (simp add: sessions_rel_def)
qed

lemma rel_create:
  assumes "inj sha" "sessions_rel sha t seen m db" "token \<notin> seen"
  shows "sessions_rel sha t (insert token seen) (m(token \<mapsto> t + ttl)) (snd (create_session sha ttl t token db))"
proof -
  let ?sw = "filter (\<lambda>r. \<not> expires_at r \<le> t) (admin_sessions db)"
  have r: "sessions_rel sha t seen m (db\<lparr>admin_sessions := ?sw\<rparr>)" using assms(2) by (rule rel_sweep)
  have new: "\<forall>r \<in> set ?sw. token_hash r \<noteq> sha token"
  proof
    fix r
    assume "r \<in> set ?sw"
    moreover have "token_hash ` set ?sw \<subseteq> sha ` seen" using r unfolding sessions_rel_def by simp
    ultimately have "token_hash r \<in> sha ` seen" by (blast intro: subsetD [OF _ imageI])
    then obtain x where "x \<in> seen" "token_hash r = sha x" by blast
    with assms(1,3) show "token_hash r \<noteq> sha token" by (metis injD)
  qed
  then have "\<not> list_ex (\<lambda>r. token_hash r = sha token) ?sw" unfolding list_ex_iff by blast
  then have c: "snd (create_session sha ttl t token db) =
      db\<lparr>admin_sessions := ?sw @ [\<lparr>token_hash = sha token, created_at = t, expires_at = t + ttl\<rparr>]\<rparr>"
    unfolding create_session_def Let_def by (simp only: if_False snd_conv)
  have spec: "(m(token \<mapsto> t + ttl)) k = Some e \<longleftrightarrow>
      (\<exists>r \<in> set (?sw @ [\<lparr>token_hash = sha token, created_at = t, expires_at = t + ttl\<rparr>]). token_hash r = sha k \<and> expires_at r = e)"
    if "t < e" for k e
  proof (cases "k = token")
    case True
    have "\<not> (\<exists>r \<in> set ?sw. token_hash r = sha token \<and> expires_at r = e)" using new by blast
    then show ?thesis unfolding True set_append bex_Un by auto
  next
    case False
    then have ne: "sha token \<noteq> sha k" using assms(1) by (metis injD)
    have "m k = Some e \<longleftrightarrow> (\<exists>r \<in> set ?sw. token_hash r = sha k \<and> expires_at r = e)"
      using r that unfolding sessions_rel_def by simp
    with False ne show ?thesis unfolding set_append bex_Un by simp
  qed
  have "distinct (map token_hash ?sw)" "token_hash ` set ?sw \<subseteq> sha ` seen" using r by (simp_all add: sessions_rel_def)
  moreover from new have "sha token \<notin> token_hash ` set ?sw" by (metis imageE)
  ultimately have "distinct (map token_hash (?sw @ [\<lparr>token_hash = sha token, created_at = t, expires_at = t + ttl\<rparr>]))"
    "token_hash ` set (?sw @ [\<lparr>token_hash = sha token, created_at = t, expires_at = t + ttl\<rparr>]) \<subseteq> sha ` insert token seen"
    by auto
  with spec show ?thesis unfolding c sessions_rel_def by simp
qed

lemma rel_delete:
  assumes "inj sha" "sessions_rel sha t seen m db"
  shows "sessions_rel sha t seen (m(token := None)) (delete_session (sha token) db)"
  using assms by (auto simp: sessions_rel_def delete_session_def distinct_map_filter inj_eq)

lemma find_row:
  assumes "distinct (map token_hash rows)" "r \<in> set rows" "token_hash r = h"
  shows "find (\<lambda>r. token_hash r = h) rows = Some r"
  using assms by (induction rows) (auto simp: image_iff)

lemma rel_expired:
  assumes "inj sha" "sessions_rel sha t seen m db" "row \<in> set (admin_sessions db)" "token_hash row = sha token" "expires_at row \<le> t"
  shows "sessions_rel sha t seen m (delete_session (sha token) db)"
proof -
  have u: "r = row" if "r \<in> set (admin_sessions db)" "token_hash r = sha token" for r
    using assms(2-4) that by (auto simp: sessions_rel_def distinct_map dest: inj_onD [of token_hash _ r row])
  let ?rows = "filter (\<lambda>r. token_hash r \<noteq> sha token) (admin_sessions db)"
  have "(\<exists>r \<in> set ?rows. token_hash r = sha k \<and> expires_at r = e) \<longleftrightarrow>
      (\<exists>r \<in> set (admin_sessions db). token_hash r = sha k \<and> expires_at r = e)" if "t < e" for k e
    using u assms(5) that by fastforce
  moreover have "distinct (map token_hash ?rows)" "token_hash ` set ?rows \<subseteq> sha ` seen"
    using assms(2) by (auto simp: sessions_rel_def distinct_map_filter)
  ultimately show ?thesis using assms(2) by (simp add: sessions_rel_def delete_session_def)
qed

lemma rel_verify:
  assumes "inj sha" "sessions_rel sha t seen m db"
  shows "sessions_rel sha t seen m (snd (verify_session sha t token db))"
    "fst (verify_session sha t token db) \<longleftrightarrow> token \<noteq> [] \<and> (\<exists>e. m token = Some e \<and> t < e)"
proof -
  show "sessions_rel sha t seen m (snd (verify_session sha t token db))"
    using assms rel_expired [OF assms] by (auto simp: verify_session_def split: option.splits dest: find_SomeD)
  show "fst (verify_session sha t token db) \<longleftrightarrow> token \<noteq> [] \<and> (\<exists>e. m token = Some e \<and> t < e)"
  proof (cases "find (\<lambda>r. token_hash r = sha token) (admin_sessions db)")
    case None
    then have "\<not> fst (verify_session sha t token db)" by (simp add: verify_session_def)
    moreover from None have "\<forall>r \<in> set (admin_sessions db). token_hash r \<noteq> sha token" by (auto simp: find_None_iff)
    ultimately show ?thesis using assms(2) by (auto simp: sessions_rel_def)
  next
    case (Some row)
    then have row: "row \<in> set (admin_sessions db)" "token_hash row = sha token" by (auto dest: find_SomeD)
    have "(\<exists>e. m token = Some e \<and> t < e) \<longleftrightarrow> t < expires_at row"
    proof
      assume "\<exists>e. m token = Some e \<and> t < e"
      then obtain e where e: "m token = Some e" "t < e" by blast
      with assms(2) obtain r where "r \<in> set (admin_sessions db)" "token_hash r = sha token" "expires_at r = e"
        by (auto simp: sessions_rel_def)
      with find_row [of "admin_sessions db" r "sha token"] assms(2) Some e show "t < expires_at row" by (auto simp: sessions_rel_def)
    next
      assume "t < expires_at row"
      then have "m token = Some (expires_at row)" using assms(2) row unfolding sessions_rel_def by blast
      with \<open>t < expires_at row\<close> show "\<exists>e. m token = Some e \<and> t < e" by blast
    qed
    with Some show ?thesis by (auto simp: verify_session_def)
  qed
qed

lemma rel_step:
  assumes "inj sha" "sessions_rel sha t0 seen m db" "session_run_ok t0 seen (op # ops) t"
  shows "sessions_rel sha (session_time op t0) (case op of SCreate _ token \<Rightarrow> insert token seen | _ \<Rightarrow> seen)
    (session_spec ttl m op) (session_step sha ttl db op)"
proof (cases op)
  case (SCreate u token)
  with assms show ?thesis by (auto intro!: rel_create intro: rel_later)
next
  case (SVerify u token)
  with assms show ?thesis by (auto intro!: rel_verify(1) intro: rel_later)
next
  case (SRevoke token)
  with assms show ?thesis by (auto simp: revoke_session_def intro!: rel_delete)
next
  case SRevokeAll
  then show ?thesis by (auto simp: sessions_rel_def revoke_all_def)
qed

lemma rel_run:
  assumes "inj sha" "sessions_rel sha t0 seen m db" "session_run_ok t0 seen ops t"
  shows "\<exists>seen'. sessions_rel sha t seen' (foldl (session_spec ttl) m ops) (foldl (session_step sha ttl) db ops)"
  using assms(2,3)
proof (induction ops arbitrary: t0 seen m db)
  case Nil
  then have "sessions_rel sha t seen m db" by (auto intro: rel_later)
  then show ?case by auto
next
  case (Cons op ops)
  from rel_step [OF assms(1) Cons.prems] Cons.IH Cons.prems(2) show ?case by fastforce
qed

text \<open>
  C33. The session store implements its specification: after any run of logins, checks, logouts and
  revocations, a token is accepted exactly when it was issued, has not been revoked since and has
  not expired; the sweeps of expired rows are invisible. The digest is assumed collision-free, the
  clock monotone and issued tokens new.
\<close>

theorem session_valid_exactly:
  assumes "inj sha" "session_run_ok t0 {} ops t"
  shows "fst (verify_session sha t token (foldl (session_step sha ttl) \<lparr>admin_sessions = [], admin_settings = st\<rparr> ops)) \<longleftrightarrow>
    token \<noteq> [] \<and> (\<exists>e. foldl (session_spec ttl) Map.empty ops token = Some e \<and> t < e)"
proof -
  have "sessions_rel sha t0 {} Map.empty \<lparr>admin_sessions = [], admin_settings = st\<rparr>" by (simp add: sessions_rel_def)
  from rel_run [OF assms(1) this assms(2)] rel_verify(2) [OF assms(1)] show ?thesis by blast
qed

theorem session_valid_exactly_witness:
  "let db = foldl (session_step (\<lambda>s. s) 60000) \<lparr>admin_sessions = [], admin_settings = []\<rparr>
       [SCreate 0 ''a'', SCreate 70000 ''b'', SRevoke ''x'']
   in \<not> fst (verify_session (\<lambda>s. s) 80000 ''a'' db) \<and> fst (verify_session (\<lambda>s. s) 80000 ''b'' db)"
proof -
  have i: "inj (\<lambda>s :: string. s)" by simp
  have ok: "session_run_ok 0 {} [SCreate 0 ''a'', SCreate 70000 ''b'', SRevoke ''x''] 80000" by simp
  show ?thesis
    using session_valid_exactly [OF i ok, of "''a''" 60000 "[]"] session_valid_exactly [OF i ok, of "''b''" 60000 "[]"]
    by (simp add: Let_def)
qed

section \<open>The cookie round trip\<close>

definition plain_char :: "char \<Rightarrow> bool" where
  "plain_char c = (\<not> is_space c \<and> c \<notin> {CHR '';'', CHR ''='', CHR ''%''})"

lemma decode_plain: "list_all (\<lambda>c. c \<noteq> CHR ''%'') s \<Longrightarrow> decodeURIComponent s = Some s"
  by (induction s) (simp_all add: decodeURIComponent.simps(2))

lemma trim_plain: "list_all plain_char s \<Longrightarrow> trim s = s"
proof -
  assume p: "list_all plain_char s"
  have "dropWhile is_space xs = xs" if "list_all plain_char xs" for xs using that by (cases xs) (auto simp: plain_char_def)
  moreover from p have "list_all plain_char (rev s)" by (simp add: list_all_iff)
  ultimately show ?thesis using p by (simp add: trim_def)
qed

lemma split_at_first: "list_all (\<lambda>c. \<not> p c) a \<Longrightarrow> p x \<Longrightarrow> split_at p (a @ x # b) = (a, Some b)"
proof -
  assume a: "list_all (\<lambda>c. \<not> p c) a" "p x"
  then have "takeWhile (\<lambda>c. \<not> p c) (a @ x # b) = a" by (induction a) auto
  then show ?thesis by (simp add: split_at_def)
qed

lemma split_on_plain: "list_all (\<lambda>c. \<not> p c) a \<Longrightarrow> split_on p a = [a]"
  by (induction a) auto

lemma split_on_first: "list_all (\<lambda>c. \<not> p c) a \<Longrightarrow> p x \<Longrightarrow> split_on p (a @ x # b) = a # split_on p b"
  by (induction a) auto

text \<open>A session cookie that comes back alone is read as the token that was set.\<close>

lemma cookie_roundtrip:
  assumes "list_all plain_char token"
  shows "map_of (parseCookieHeader (Some (ADMIN_COOKIE @ ''='' @ token))) ADMIN_COOKIE = Some token"
proof -
  have k: "list_all (\<lambda>c. c \<noteq> CHR ''='') ADMIN_COOKIE" "trim ADMIN_COOKIE = ADMIN_COOKIE" "ADMIN_COOKIE \<noteq> []" "ADMIN_COOKIE \<noteq> ''__proto__''"
    by (simp_all add: ADMIN_COOKIE_def trim_def is_space_def Let_def)
  have t: "list_all (\<lambda>c. c \<noteq> CHR ''%'') token" using assms by (auto simp: list_all_iff plain_char_def)
  have "list_all (\<lambda>c. c \<noteq> CHR '';'') (ADMIN_COOKIE @ ''='' @ token)"
    using assms by (auto simp: ADMIN_COOKIE_def list_all_iff plain_char_def)
  then have "parseCookieHeader (Some (ADMIN_COOKIE @ ''='' @ token)) = parse_cookie [] (ADMIN_COOKIE @ CHR ''='' # token)"
    using split_on_plain [of "\<lambda>c. c = CHR '';''" "ADMIN_COOKIE @ ''='' @ token"] k(3) by (simp add: parseCookieHeader_def)
  then show ?thesis
    using split_at_first [of "\<lambda>c. c = CHR ''=''" ADMIN_COOKIE "CHR ''=''" token] k decode_plain [OF t] trim_plain [OF assms]
    by (simp add: parse_cookie_def)
qed

section \<open>The password\<close>

text \<open>A generated password is shown only when it was stored, and then it is the one that works.\<close>

lemma shown_password_works:
  assumes "ensureAdminPassword phc envp le se gen db = (Some (GeneratedShown p), db1)" "\<And>a b. check (phc a) b = Some (a = b)"
  shows "verifyAdminPassword check db1 q \<longleftrightarrow> q = p"
  using assms by (auto simp: ensureAdminPassword_def verifyAdminPassword_def Let_def split: if_splits option.splits)

text \<open>A stored hash is never replaced by a generated one, not even when it cannot be read.\<close>

lemma stored_hash_survives:
  assumes "ensureAdminPassword phc [] le se gen db = (l, db1)" "map_of (admin_settings db) SETTINGS_KEY = Some h"
  shows "db1 = db"
  using assms by (auto simp: ensureAdminPassword_def Let_def split: option.splits)

end
