(* ===== verification/AdminGuard.thy ===== *)
theory AdminGuard
  imports AdminSession Config
begin

text \<open>
  The front of the admin API, \<open>src/server/admin-api.ts\<close>: the address allowlist, the guard every route
  runs behind, and the login and logout routes. Addresses are 32-bit words, as the bit operations of
  the source make them. The store of failed logins (\<open>rate-limiter-flexible\<close>) is a parameter with its
  three operations.
\<close>

unbundle bit_operations_syntax

section \<open>The address allowlist\<close>

fun ipv4_loop :: "string list \<Rightarrow> 32 word \<Rightarrow> 32 word option" where
  "ipv4_loop [] out = Some out"
| "ipv4_loop (p # ps) out =
     (if \<not> all_digits p then None
      else let n = read_nat 0 p in if n > 255 then None else ipv4_loop ps (push_bit 8 out + of_nat n))"

definition ipv4ToInt :: "string \<Rightarrow> 32 word option" where
  "ipv4ToInt ip =
     (let parts = split_on (\<lambda>c. c = CHR ''.'') ip in if length parts \<noteq> 4 then None else ipv4_loop parts 0)"

definition normalizeIp :: "string \<Rightarrow> string" where
  "normalizeIp ip = (if starts_with ip ''::ffff:'' then drop 7 ip else if ip = ''::1'' then ''127.0.0.1'' else ip)"

definition cidr_bits :: "string list \<Rightarrow> nat option" where
  "cidr_bits parts =
     (case parts of
        _ # b # _ \<Rightarrow>
          if b = [] then Some 32
          else (case js_number b of
                  None \<Rightarrow> None
                | Some n \<Rightarrow> if \<not> is_integer n \<or> n < 0 \<or> n > 32 then None else Some (nat \<lfloor>n\<rfloor>))
      | _ \<Rightarrow> Some 32)"

definition ipInCidr :: "string \<Rightarrow> string \<Rightarrow> bool" where
  "ipInCidr ip cidr =
     (let parts = split_on (\<lambda>c. c = CHR ''/'') cidr in
      case (cidr_bits parts, ipv4ToInt ip, ipv4ToInt (hd parts)) of
        (Some bits, Some ipInt, Some rangeInt) \<Rightarrow>
          if bits = 0 then True
          else let mask = push_bit (32 - bits) (- 1) in ipInt AND mask = rangeInt AND mask
      | _ \<Rightarrow> False)"

definition ipAllowed :: "string \<Rightarrow> string \<Rightarrow> bool" where
  "ipAllowed ip allowlist =
     (let entries = filter (\<lambda>s. s \<noteq> []) (map trim (split_on (\<lambda>c. c = CHR '','') allowlist))
      in if length entries = 0 then True else list_ex (ipInCidr (normalizeIp ip)) entries)"

section \<open>The guard\<close>

record admin_request =
  rq_method :: string
  rq_ip :: string
  rq_cookie :: "string option"
  x_requested_with :: "string option"
  rq_body :: "json option"

record 'b admin_reply =
  r_status :: nat
  r_headers :: "(string \<times> string) list"
  r_body :: 'b

definition MUTATING :: "string list" where
  "MUTATING = [''POST'', ''PUT'', ''PATCH'', ''DELETE'']"

definition refusal :: "string \<Rightarrow> json" where
  "refusal msg = JObj [(''ok'', JBool False), (''error'', JStr msg)]"

definition refuse :: "nat \<Rightarrow> string \<Rightarrow> json admin_reply" where
  "refuse st msg = \<lparr>r_status = st, r_headers = [], r_body = refusal msg\<rparr>"

record guard_opts =
  g_mutating :: bool
  skipSession :: bool

definition session_cookie :: "admin_request \<Rightarrow> string" where
  "session_cookie rq = or_else (map_of (parseCookieHeader (rq_cookie rq)) ADMIN_COOKIE) []"

definition guarded ::
  "(string \<Rightarrow> string) \<Rightarrow> gateway_config \<Rightarrow> int \<Rightarrow> guard_opts \<Rightarrow> admin_request \<Rightarrow> admin_db \<Rightarrow> json admin_reply option \<times> admin_db" where
  "guarded sha cfg t opts rq db =
     (if \<not> ipAllowed (rq_ip rq) (adminAllowCidr cfg) then (Some (refuse 403 ''forbidden by admin allowlist''), db)
      else
        let (signed_in, db1) = (if skipSession opts then (True, db) else verify_session sha t (session_cookie rq) db)
        in if \<not> signed_in
           then (Some (refuse 401 (''unauthorized '' @ em_dash @ '' POST /admin/login first'')), db1)
           else if g_mutating opts \<and> rq_method rq \<in> set MUTATING \<and> x_requested_with rq = None
             then (Some (refuse 403 ''missing x-requested-with header (CSRF guard)''), db1)
             else (None, db1))"

section \<open>Login and logout\<close>

text \<open>
  The two awaited halves of the login route: the gate, which reads the failures of the address, and
  what follows the check of the password. The outer \<open>None\<close> of the second is an insertion that throws.
\<close>

definition LOGIN_WINDOW_MS :: int where
  "LOGIN_WINDOW_MS = 300000"

definition login_gate :: "(int \<Rightarrow> string \<Rightarrow> 'l \<Rightarrow> (nat \<times> int) option) \<Rightarrow> int \<Rightarrow> string \<Rightarrow> 'l \<Rightarrow> json admin_reply option" where
  "login_gate get t ip failures =
     (case get t ip failures of
        None \<Rightarrow> None
      | Some (consumedPoints, msBeforeNext) \<Rightarrow>
          if consumedPoints \<ge> 5 \<and> msBeforeNext > 0
          then let sec = max 1 \<lceil>(of_int msBeforeNext :: rat) / 1000\<rceil>
            in Some \<lparr>r_status = 429, r_headers = [(''retry-after'', show_int sec)],
                 r_body = refusal (''too many failed logins from this address '' @ em_dash @ '' retry in '' @ show_int sec @ ''s'')\<rparr>
          else None)"

definition password_ok :: "(string \<Rightarrow> string \<Rightarrow> bool option) \<Rightarrow> admin_db \<Rightarrow> json option \<Rightarrow> bool" where
  "password_ok check db body =
     (case as_str (jget (or_else body (JObj [])) ''password'') of
        None \<Rightarrow> False
      | Some p \<Rightarrow> p \<noteq> [] \<and> verifyAdminPassword check db p)"

definition login_checked ::
  "(int \<Rightarrow> string \<Rightarrow> 'l \<Rightarrow> 'l) \<Rightarrow> (string \<Rightarrow> 'l \<Rightarrow> 'l) \<Rightarrow> (string \<Rightarrow> string) \<Rightarrow> int \<Rightarrow> int \<Rightarrow> string \<Rightarrow> string \<Rightarrow> bool \<Rightarrow> 'l \<times> admin_db \<Rightarrow>
   json admin_reply option \<times> 'l \<times> admin_db" where
  "login_checked consume delete sha ttl t token ip ok = (\<lambda>(failures, db).
     if \<not> ok then (Some (refuse 401 ''invalid password''), consume t ip failures, db)
     else case create_session sha ttl t token db of
            (None, db1) \<Rightarrow> (None, delete ip failures, db1)
          | (Some (tok, expiresAt), db1) \<Rightarrow>
              (Some \<lparr>r_status = 200, r_headers = [(''set-cookie'', serializeSetCookie tok expiresAt)],
                 r_body = JObj [(''ok'', JBool True), (''expiresAt'', JNum (of_int expiresAt))]\<rparr>,
               delete ip failures, db1))"

text \<open>A login whose password check ends, at \<open>t1\<close>, before another request from the network is served.\<close>

definition admin_login ::
  "(int \<Rightarrow> string \<Rightarrow> 'l \<Rightarrow> (nat \<times> int) option) \<Rightarrow> (int \<Rightarrow> string \<Rightarrow> 'l \<Rightarrow> 'l) \<Rightarrow> (string \<Rightarrow> 'l \<Rightarrow> 'l) \<Rightarrow> (string \<Rightarrow> string) \<Rightarrow>
   (string \<Rightarrow> string \<Rightarrow> bool option) \<Rightarrow> int \<Rightarrow> int \<Rightarrow> int \<Rightarrow> string \<Rightarrow> admin_request \<Rightarrow> 'l \<times> admin_db \<Rightarrow>
   json admin_reply option \<times> 'l \<times> admin_db" where
  "admin_login get consume delete sha check ttl t t1 token rq s =
     (case login_gate get t (rq_ip rq) (fst s) of
        Some r \<Rightarrow> (Some r, s)
      | None \<Rightarrow> login_checked consume delete sha ttl t1 token (rq_ip rq) (password_ok check (snd s) (rq_body rq)) s)"

definition admin_logout :: "(string \<Rightarrow> string) \<Rightarrow> admin_request \<Rightarrow> admin_db \<Rightarrow> json admin_reply \<times> admin_db" where
  "admin_logout sha rq db =
     (\<lparr>r_status = 200, r_headers = [(''set-cookie'', serializeClearCookie)], r_body = JObj [(''ok'', JBool True)]\<rparr>,
      revoke_session sha (session_cookie rq) db)"

section \<open>The allowlist against address blocks\<close>

text \<open>Addresses and blocks as operators write them, and the value of an address.\<close>

type_synonym quad = "nat \<times> nat \<times> nat \<times> nat"

fun quad_ok :: "quad \<Rightarrow> bool" where
  "quad_ok (a, b, c, d) = (a < 256 \<and> b < 256 \<and> c < 256 \<and> d < 256)"

fun quad_value :: "quad \<Rightarrow> nat" where
  "quad_value (a, b, c, d) = ((a * 256 + b) * 256 + c) * 256 + d"

fun dotted :: "quad \<Rightarrow> string" where
  "dotted (a, b, c, d) = show_nat a @ ''.'' @ show_nat b @ ''.'' @ show_nat c @ ''.'' @ show_nat d"

definition block_text :: "quad \<times> nat \<Rightarrow> string" where
  "block_text = (\<lambda>(q, bits). dotted q @ ''/'' @ show_nat bits)"

definition in_block :: "quad \<Rightarrow> quad \<times> nat \<Rightarrow> bool" where
  "in_block q = (\<lambda>(r, bits). quad_value q div 2 ^ (32 - bits) = quad_value r div 2 ^ (32 - bits))"

lemma masked_eq_iff:
  fixes a b :: "32 word"
  shows "a AND push_bit k (- 1) = b AND push_bit k (- 1) \<longleftrightarrow> unat a div 2 ^ k = unat b div 2 ^ k"
proof -
  have "a AND push_bit k (- 1) = b AND push_bit k (- 1) \<longleftrightarrow> drop_bit k a = drop_bit k b"
  proof
    assume m: "a AND push_bit k (- 1) = b AND push_bit k (- 1)"
    show "drop_bit k a = drop_bit k b"
    proof (rule bit_word_eqI)
      fix n assume n: "n < LENGTH(32)"
      from m have "bit (a AND push_bit k (- 1)) (k + n) = bit (b AND push_bit k (- 1)) (k + n)" by simp
      then show "bit (drop_bit k a) n = bit (drop_bit k b) n"
        using bit_imp_le_length [of a "k + n"] bit_imp_le_length [of b "k + n"] by (auto simp: bit_simps)
    qed
  next
    assume d: "drop_bit k a = drop_bit k b"
    show "a AND push_bit k (- 1) = b AND push_bit k (- 1)"
    proof (rule bit_word_eqI)
      fix n assume n: "n < LENGTH(32)"
      from d have "bit (drop_bit k a) (n - k) = bit (drop_bit k b) (n - k)" by simp
      then show "bit (a AND push_bit k (- 1)) n = bit (b AND push_bit k (- 1)) n"
        by (auto simp: bit_simps)
    qed
  qed
  also have "\<dots> \<longleftrightarrow> unat (drop_bit k a) = unat (drop_bit k b)" by (simp add: word_unat_eq_iff)
  also have "\<dots> \<longleftrightarrow> unat a div 2 ^ k = unat b div 2 ^ k" by (simp only: unat_drop_bit_eq) (simp add: drop_bit_eq_div)
  finally show ?thesis .
qed

lemma show_nat_all_digits: "all_digits (show_nat n)"
  by (auto simp: all_digits_def list_all_iff show_nat_digits)

lemma show_nat_without: "\<not> is_digit x \<Longrightarrow> list_all (\<lambda>c. c \<noteq> x) (show_nat n)"
  by (auto simp: list_all_iff dest: show_nat_digits)

lemma shift_octet:
  fixes w :: "32 word"
  assumes "unat w < 2 ^ 24" "n < 256"
  shows "unat (push_bit 8 w + of_nat n) = unat w * 256 + n"
proof -
  have "push_bit 8 w + of_nat n = (of_nat (unat w * 256 + n) :: 32 word)" by (simp add: push_bit_eq_mult)
  moreover have "unat w * 256 + n < 2 ^ 32" using assms by simp
  ultimately show ?thesis by (simp add: unat_of_nat take_bit_eq_mod del: of_nat_add of_nat_mult)
qed

lemma split_dotted: "split_on (\<lambda>c. c = CHR ''.'') (dotted (a, b, c, d)) = [show_nat a, show_nat b, show_nat c, show_nat d]"
proof -
  have "\<not> is_digit (CHR ''.'')" by (simp add: is_digit_def)
  note n = show_nat_without [OF this]
  show ?thesis
    using split_on_first [of "\<lambda>c. c = CHR ''.''", OF n] split_on_plain [of "\<lambda>c. c = CHR ''.''", OF n] by simp
qed

lemma ipv4ToInt_dotted: "quad_ok q \<Longrightarrow> \<exists>w. ipv4ToInt (dotted q) = Some w \<and> unat w = quad_value q"
proof -
  assume ok: "quad_ok q"
  obtain a b c d where q: "q = (a, b, c, d)" by (cases q)
  from ok q have l: "a < 256" "b < 256" "c < 256" "d < 256" by auto
  let ?s = "\<lambda>w n. push_bit 8 w + of_nat n :: 32 word"
  have 1: "unat (?s 0 a) = a" using shift_octet [of 0 a] l by simp
  have 2: "unat (?s (?s 0 a) b) = a * 256 + b" using shift_octet [of "?s 0 a" b] 1 l by simp
  have 3: "unat (?s (?s (?s 0 a) b) c) = (a * 256 + b) * 256 + c" using shift_octet [of "?s (?s 0 a) b" c] 2 l by simp
  have 4: "unat (?s (?s (?s (?s 0 a) b) c) d) = ((a * 256 + b) * 256 + c) * 256 + d"
    using shift_octet [of "?s (?s (?s 0 a) b) c" d] 3 l by simp
  have "ipv4ToInt (dotted q) = Some (?s (?s (?s (?s 0 a) b) c) d)"
    using l by (simp add: ipv4ToInt_def q split_dotted show_nat_all_digits read_show_nat del: dotted.simps)
  with 4 q show ?thesis by auto
qed

lemma dotted_chars: "x \<in> set (dotted q) \<Longrightarrow> is_digit x \<or> x = CHR ''.''"
  by (cases q) (auto dest: show_nat_digits)

lemma quad_value_less: "quad_ok q \<Longrightarrow> quad_value q < 2 ^ 32"
  by (cases q) simp

lemma split_block: "split_on (\<lambda>c. c = CHR ''/'') (block_text (r, bits)) = [dotted r, show_nat bits]"
proof -
  have s: "\<not> is_digit (CHR ''/'')" by (simp add: is_digit_def)
  then have "list_all (\<lambda>c. c \<noteq> CHR ''/'') (dotted r)" by (auto simp: list_all_iff dest: dotted_chars)
  then show ?thesis
    using split_on_first [of "\<lambda>c. c = CHR ''/''" "dotted r" "CHR ''/''" "show_nat bits"]
      split_on_plain [of "\<lambda>c. c = CHR ''/''", OF show_nat_without [OF s]]
    by (simp add: block_text_def)
qed

lemma ipInCidr_block:
  assumes "quad_ok q" "quad_ok r" "bits \<le> 32"
  shows "ipInCidr (dotted q) (block_text (r, bits)) \<longleftrightarrow> in_block q (r, bits)"
proof -
  from ipv4ToInt_dotted [OF assms(1)] ipv4ToInt_dotted [OF assms(2)] obtain v w where
    vw: "ipv4ToInt (dotted q) = Some v" "unat v = quad_value q" "ipv4ToInt (dotted r) = Some w" "unat w = quad_value r" by blast
  have "cidr_bits [dotted r, show_nat bits] = Some bits"
    using assms(3) by (simp add: cidr_bits_def js_number_show_nat is_integer_def)
  with vw show ?thesis
    using quad_value_less [OF assms(1)] quad_value_less [OF assms(2)] masked_eq_iff [of v "32 - bits" w]
    by (simp add: ipInCidr_def split_block in_block_def Let_def)
qed

lemma split_on_join:
  "xs \<noteq> [] \<Longrightarrow> p x \<Longrightarrow> \<forall>a \<in> set xs. list_all (\<lambda>c. \<not> p c) a \<Longrightarrow> split_on p (join [x] xs) = xs"
  by (induction "[x]" xs rule: join.induct) (simp_all add: split_on_plain split_on_first)

lemma block_text_chars:
  "list_all plain_char (block_text b)" "list_all (\<lambda>c. c \<noteq> CHR '','') (block_text b)" "block_text b \<noteq> []"
proof -
  have "is_digit x \<or> x = CHR ''.'' \<or> x = CHR ''/''" if "x \<in> set (block_text b)" for x
    using that by (cases b) (auto simp: block_text_def dest: dotted_chars show_nat_digits)
  moreover have "plain_char x \<and> x \<noteq> CHR '',''" if "is_digit x \<or> x = CHR ''.'' \<or> x = CHR ''/''" for x
    using that by (auto simp: plain_char_def is_digit_def is_space_def Let_def)
  ultimately show "list_all plain_char (block_text b)" "list_all (\<lambda>c. c \<noteq> CHR '','') (block_text b)"
    by (auto simp: list_all_iff)
  show "block_text b \<noteq> []" by (cases b) (simp add: block_text_def)
qed

lemma normalizeIp_dotted: "normalizeIp (dotted q) = dotted q" "normalizeIp (''::ffff:'' @ dotted q) = dotted q"
proof -
  obtain a b c d where q: "q = (a, b, c, d)" by (cases q)
  obtain x xs where x: "show_nat a = x # xs" by (cases "show_nat a") auto
  then have "is_digit x" using show_nat_digits [of x a] by simp
  then have "x \<noteq> CHR '':''" by (auto simp: is_digit_def)
  then show "normalizeIp (dotted q) = dotted q" using x q by (simp add: normalizeIp_def starts_with_iff_prefix)
  show "normalizeIp (''::ffff:'' @ dotted q) = dotted q" by (simp add: normalizeIp_def starts_with_iff_prefix)
qed

text \<open>
  The allowlist admits exactly the addresses of its blocks: for a list of address blocks in the
  usual notation, an address, plain or mapped into IPv6, passes if and only if it agrees with one of
  the blocks in the leading bits the block names.
\<close>

lemma allowlist_admits_blocks:
  assumes "quad_ok q" "blocks \<noteq> []" "list_all (\<lambda>(r, bits). quad_ok r \<and> bits \<le> 32) blocks" "ip \<in> {dotted q, ''::ffff:'' @ dotted q}"
  shows "ipAllowed ip (join '','' (map block_text blocks)) \<longleftrightarrow> list_ex (in_block q) blocks"
proof -
  have entries: "split_on (\<lambda>c. c = CHR '','') (join '','' (map block_text blocks)) = map block_text blocks"
    using split_on_join [of "map block_text blocks" "\<lambda>c. c = CHR '',''" "CHR '',''"] assms(2) block_text_chars(2) by simp
  have "filter (\<lambda>s. s \<noteq> []) (map trim (map block_text blocks)) = map block_text blocks"
    by (simp add: trim_plain [OF block_text_chars(1)] block_text_chars(3) comp_def filter_id_conv)
  moreover have "normalizeIp ip = dotted q" using assms(4) normalizeIp_dotted [of q] by blast
  moreover have "list_ex (ipInCidr (dotted q)) (map block_text blocks) \<longleftrightarrow> list_ex (in_block q) blocks"
  proof -
    have "ipInCidr (dotted q) (block_text x) = in_block q x" if "x \<in> set blocks" for x
    proof -
      obtain r bits where x: "x = (r, bits)" by (cases x) auto
      with that assms(3) have "quad_ok r" "bits \<le> 32" by (auto simp: list_all_iff)
      from ipInCidr_block [OF assms(1) this] x show ?thesis by simp
    qed
    then show ?thesis by (auto simp: list_ex_iff)
  qed
  ultimately show ?thesis using assms(2) by (simp add: ipAllowed_def entries)
qed


section \<open>The lockout\<close>

text \<open>
  What the route relies on of the store of failures: the record of an address counts the points of a
  window that starts with its first failure, and disappears when the window ends.
\<close>

definition live_record :: "(int \<Rightarrow> string \<Rightarrow> 'l \<Rightarrow> (nat \<times> int) option) \<Rightarrow> int \<Rightarrow> string \<Rightarrow> 'l \<Rightarrow> (nat \<times> int) option" where
  "live_record get t k l = (case get t k l of None \<Rightarrow> None | Some (c, w) \<Rightarrow> if w > 0 then Some (c, w) else None)"

definition later :: "int \<Rightarrow> (nat \<times> int) option \<Rightarrow> (nat \<times> int) option" where
  "later d r = (case r of None \<Rightarrow> None | Some (c, w) \<Rightarrow> if d < w then Some (c, w - d) else None)"

definition failure_store_laws ::
  "(int \<Rightarrow> string \<Rightarrow> 'l \<Rightarrow> (nat \<times> int) option) \<Rightarrow> (int \<Rightarrow> string \<Rightarrow> 'l \<Rightarrow> 'l) \<Rightarrow> (string \<Rightarrow> 'l \<Rightarrow> 'l) \<Rightarrow> bool" where
  "failure_store_laws get consume delete \<longleftrightarrow>
     (\<forall>t u k l. t \<le> u \<longrightarrow> live_record get u k l = later (u - t) (live_record get t k l)) \<and>
     (\<forall>t k l. live_record get t k (consume t k l) =
        Some (case live_record get t k l of None \<Rightarrow> (1, LOGIN_WINDOW_MS) | Some (c, w) \<Rightarrow> (c + 1, w))) \<and>
     (\<forall>t u k j l. j \<noteq> k \<longrightarrow> live_record get u j (consume t k l) = live_record get u j l) \<and>
     (\<forall>u k j l. live_record get u j (delete k l) = (if j = k then None else live_record get u j l))"

lemma login_gate_live:
  "login_gate get t ip l = None \<longleftrightarrow> (case live_record get t ip l of None \<Rightarrow> True | Some (c, w) \<Rightarrow> c < 5)"
  "login_gate get t ip l = Some r \<Longrightarrow> r_status r = 429"
  by (auto simp: login_gate_def live_record_def Let_def split: option.splits if_splits)

record login_attempt =
  at_gate :: int
  at_done :: int
  at_token :: string
  at_request :: admin_request

definition attempt ::
  "(int \<Rightarrow> string \<Rightarrow> 'l \<Rightarrow> (nat \<times> int) option) \<Rightarrow> (int \<Rightarrow> string \<Rightarrow> 'l \<Rightarrow> 'l) \<Rightarrow> (string \<Rightarrow> 'l \<Rightarrow> 'l) \<Rightarrow> (string \<Rightarrow> string) \<Rightarrow>
   (string \<Rightarrow> string \<Rightarrow> bool option) \<Rightarrow> int \<Rightarrow> login_attempt \<Rightarrow> 'l \<times> admin_db \<Rightarrow> json admin_reply option \<times> 'l \<times> admin_db" where
  "attempt get consume delete sha check ttl a s =
     admin_login get consume delete sha check ttl (at_gate a) (at_done a) (at_token a) (at_request a) s"

text \<open>The statuses one address sees in a sequence of attempts from everywhere; a throw is a 500.\<close>

fun statuses_for ::
  "(int \<Rightarrow> string \<Rightarrow> 'l \<Rightarrow> (nat \<times> int) option) \<Rightarrow> (int \<Rightarrow> string \<Rightarrow> 'l \<Rightarrow> 'l) \<Rightarrow> (string \<Rightarrow> 'l \<Rightarrow> 'l) \<Rightarrow> (string \<Rightarrow> string) \<Rightarrow>
   (string \<Rightarrow> string \<Rightarrow> bool option) \<Rightarrow> int \<Rightarrow> string \<Rightarrow> login_attempt list \<Rightarrow> 'l \<times> admin_db \<Rightarrow> nat list" where
  "statuses_for get consume delete sha check ttl ip [] s = []"
| "statuses_for get consume delete sha check ttl ip (a # as) s =
     (let (r, s1) = attempt get consume delete sha check ttl a s;
          rest = statuses_for get consume delete sha check ttl ip as s1
      in if rq_ip (at_request a) = ip then (case r of Some x \<Rightarrow> r_status x | None \<Rightarrow> 500) # rest else rest)"

fun in_turn :: "int \<Rightarrow> int \<Rightarrow> login_attempt list \<Rightarrow> bool" where
  "in_turn t until [] = True"
| "in_turn t until (a # as) = (t \<le> at_gate a \<and> at_gate a \<le> at_done a \<and> at_done a < until \<and> in_turn (at_done a) until as)"

definition from_address :: "string \<Rightarrow> login_attempt list \<Rightarrow> login_attempt list" where
  "from_address ip as = filter (\<lambda>a. rq_ip (at_request a) = ip) as"

text \<open>\<open>n\<close> failures are on record, in a window that lasts until \<open>until\<close> at least.\<close>

definition failed_so_far :: "(int \<Rightarrow> string \<Rightarrow> 'l \<Rightarrow> (nat \<times> int) option) \<Rightarrow> int \<Rightarrow> int \<Rightarrow> string \<Rightarrow> nat \<Rightarrow> 'l \<Rightarrow> bool" where
  "failed_so_far get t until ip n l =
     (case live_record get t ip l of None \<Rightarrow> n = 0 | Some (c, w) \<Rightarrow> n = c \<and> 0 < n \<and> until \<le> t + w)"

lemma failed_later:
  assumes "failure_store_laws get consume delete" "failed_so_far get t until ip n l" "t \<le> u" "u < until"
  shows "failed_so_far get u until ip n l"
proof -
  have "live_record get u ip l = later (u - t) (live_record get t ip l)" using assms(1,3) by (auto simp: failure_store_laws_def)
  with assms(2,4) show ?thesis by (auto simp: failed_so_far_def later_def split: option.splits)
qed

lemma failed_consume:
  assumes "failure_store_laws get consume delete" "failed_so_far get t until ip n l" "until \<le> t + LOGIN_WINDOW_MS"
  shows "failed_so_far get t until ip (Suc n) (consume t ip l)"
proof -
  have "live_record get t ip (consume t ip l) =
      Some (case live_record get t ip l of None \<Rightarrow> (1, LOGIN_WINDOW_MS) | Some (c, w) \<Rightarrow> (c + 1, w))"
    using assms(1) by (auto simp: failure_store_laws_def)
  with assms(2,3) show ?thesis by (auto simp: failed_so_far_def split: option.splits)
qed

lemma attempt_settings: "admin_settings (snd (snd (attempt get consume delete sha check ttl a s))) = admin_settings (snd s)"
  by (auto simp: attempt_def admin_login_def login_checked_def create_session_def Let_def split: option.splits prod.splits if_splits)

lemma attempt_elsewhere:
  assumes "failure_store_laws get consume delete" "rq_ip (at_request a) \<noteq> ip"
  shows "live_record get u ip (fst (snd (attempt get consume delete sha check ttl a s))) = live_record get u ip (fst s)"
  using assms by (auto simp: attempt_def admin_login_def login_checked_def failure_store_laws_def split: option.splits prod.splits if_splits)

lemma attempt_wrong:
  assumes "\<not> password_ok check (snd s) (rq_body (at_request a))" "failed_so_far get (at_gate a) until (rq_ip (at_request a)) n (fst s)"
  shows "attempt get consume delete sha check ttl a s =
    (if n < 5 then (Some (refuse 401 ''invalid password''), consume (at_done a) (rq_ip (at_request a)) (fst s), snd s)
     else (login_gate get (at_gate a) (rq_ip (at_request a)) (fst s), s))"
    "\<not> n < 5 \<Longrightarrow> \<exists>r. login_gate get (at_gate a) (rq_ip (at_request a)) (fst s) = Some r \<and> r_status r = 429"
proof -
  have "login_gate get (at_gate a) (rq_ip (at_request a)) (fst s) = None \<longleftrightarrow> n < 5"
    using assms(2) by (auto simp: login_gate_live(1) failed_so_far_def split: option.splits)
  then show "attempt get consume delete sha check ttl a s =
    (if n < 5 then (Some (refuse 401 ''invalid password''), consume (at_done a) (rq_ip (at_request a)) (fst s), snd s)
     else (login_gate get (at_gate a) (rq_ip (at_request a)) (fst s), s))"
    "\<not> n < 5 \<Longrightarrow> \<exists>r. login_gate get (at_gate a) (rq_ip (at_request a)) (fst s) = Some r \<and> r_status r = 429"
    using assms(1) login_gate_live(2) by (auto simp: attempt_def admin_login_def login_checked_def split: prod.splits)
qed

lemma statuses_lockout:
  assumes laws: "failure_store_laws get consume delete"
  shows "in_turn t until as \<Longrightarrow> until \<le> t + LOGIN_WINDOW_MS \<Longrightarrow> t < until \<Longrightarrow>
    (\<forall>a \<in> set (from_address ip as). \<not> password_ok check (snd s) (rq_body (at_request a))) \<Longrightarrow>
    failed_so_far get t until ip n (fst s) \<Longrightarrow> m = length (from_address ip as) \<Longrightarrow>
    statuses_for get consume delete sha check ttl ip as s = replicate (min (5 - n) m) 401 @ replicate (m - (5 - n)) 429"
proof (induction as arbitrary: t s n m)
  case Nil
  then show ?case by (simp add: from_address_def)
next
  case (Cons a as)
  let ?s1 = "snd (attempt get consume delete sha check ttl a s)"
  have pw: "password_ok check (snd ?s1) b = password_ok check (snd s) b" for b
    using attempt_settings [of get consume delete sha check ttl a s]
    by (simp add: password_ok_def verifyAdminPassword_def split: option.splits)
  from Cons.prems have turn: "t \<le> at_gate a" "at_gate a \<le> at_done a" "at_done a < until" "in_turn (at_done a) until as"
    "until \<le> at_done a + LOGIN_WINDOW_MS" by auto
  have wrong: "\<forall>b \<in> set (from_address ip as). \<not> password_ok check (snd ?s1) (rq_body (at_request b))"
    using Cons.prems(4) by (auto simp: pw from_address_def)
  have g: "failed_so_far get (at_gate a) until ip n (fst s)" using failed_later [OF laws Cons.prems(5)] turn by simp
  have d: "failed_so_far get (at_done a) until ip n (fst s)" using failed_later [OF laws Cons.prems(5)] turn by simp
  note IH = Cons.IH [OF turn(4,5,3) wrong _ refl]
  show ?case
  proof (cases "rq_ip (at_request a) = ip")
    case False
    have "failed_so_far get (at_done a) until ip n (fst ?s1)"
      using d attempt_elsewhere [OF laws False, where u = "at_done a"] by (simp add: failed_so_far_def)
    from IH [OF this] False Cons.prems(6) show ?thesis by (simp add: from_address_def case_prod_unfold)
  next
    case True
    with Cons.prems(4) have "\<not> password_ok check (snd s) (rq_body (at_request a))" by (simp add: from_address_def)
    note aw = attempt_wrong [OF this, where get = get and until = until and n = n]
    have m: "m = Suc (length (from_address ip as))" using True Cons.prems(6) by (simp add: from_address_def)
    show ?thesis
    proof (cases "n < 5")
      case n: True
      have "failed_so_far get (at_done a) until ip (Suc n) (fst ?s1)"
        using aw(1) g True n failed_consume [OF laws d turn(5)] by simp
      from IH [OF this] aw(1) g True n m show ?thesis by (simp add: refuse_def Suc_diff_Suc flip: replicate_Suc)
    next
      case n: False
      with aw(1) g True have s1: "?s1 = s" by simp
      from aw(2) g True n obtain r where r: "login_gate get (at_gate a) ip (fst s) = Some r" "r_status r = 429" by auto
      from d s1 have "failed_so_far get (at_done a) until ip n (fst ?s1)" by simp
      from IH [OF this] aw(1) g True n m r show ?thesis by simp
    qed
  qed
qed

text \<open>
  C34. Guessing is bounded: for login attempts that do not overlap, an address with no failure on record
  that keeps sending wrong passwords has at most the first five checked in five minutes, whatever other
  addresses do meanwhile; each of these is answered 401 and every later one 429.
\<close>

theorem login_lockout:
  assumes "failure_store_laws get consume delete" "live_record get t ip failures = None"
    and "in_turn t (t + LOGIN_WINDOW_MS) as"
    and "\<forall>a \<in> set (from_address ip as). \<not> password_ok check db (rq_body (at_request a))"
  shows "statuses_for get consume delete sha check ttl ip as (failures, db) =
    replicate (min 5 (length (from_address ip as))) 401 @ replicate (length (from_address ip as) - 5) 429"
proof -
  have "failed_so_far get t (t + LOGIN_WINDOW_MS) ip 0 failures" using assms(2) by (simp add: failed_so_far_def)
  from statuses_lockout [OF assms(1,3), where s = "(failures, db)" and ip = ip and n = 0] this assms(4)
  show ?thesis by (simp add: LOGIN_WINDOW_MS_def)
qed

text \<open>A store that keeps the laws: points and the end of the window per address.\<close>

type_synonym window_store = "(string, nat \<times> int) jsmap"

definition window_get :: "int \<Rightarrow> string \<Rightarrow> window_store \<Rightarrow> (nat \<times> int) option" where
  "window_get t k l = map_option (\<lambda>(c, u). (c, u - t)) (map_of l k)"

definition window_hit :: "int \<Rightarrow> string \<Rightarrow> window_store \<Rightarrow> window_store" where
  "window_hit t k l =
     jm_set k (case map_of l k of
         None \<Rightarrow> (1, t + LOGIN_WINDOW_MS)
       | Some (c, u) \<Rightarrow> if t < u then (c + 1, u) else (1, t + LOGIN_WINDOW_MS)) l"

definition window_delete :: "string \<Rightarrow> window_store \<Rightarrow> window_store" where
  "window_delete k l = jm_del k l"

lemma window_laws: "failure_store_laws window_get window_hit window_delete"
proof -
  have w: "live_record window_get t k l = (case map_of l k of None \<Rightarrow> None | Some (c, u) \<Rightarrow> if t < u then Some (c, u - t) else None)" for t k l
    by (auto simp: live_record_def window_get_def split: option.splits)
  have d: "map_of (window_delete k l) j = (if j = k then None else map_of l j)" for k l j by (simp add: window_delete_def)
  have c: "map_of (window_hit t k l) j =
      (if j = k then Some (case map_of l k of
         None \<Rightarrow> (1, t + LOGIN_WINDOW_MS)
       | Some (c, u) \<Rightarrow> if t < u then (c + 1, u) else (1, t + LOGIN_WINDOW_MS)) else map_of l j)" for t k l j
    by (simp add: window_hit_def)
  show ?thesis
    unfolding failure_store_laws_def w d c
    by (auto simp: later_def LOGIN_WINDOW_MS_def split: option.splits)
qed

definition demo_db :: admin_db where
  "demo_db = \<lparr>admin_sessions = [], admin_settings = [(SETTINGS_KEY, ''hash-of-secret'')]\<rparr>"

definition demo_check :: "string \<Rightarrow> string \<Rightarrow> bool option" where
  "demo_check h p = Some (h = ''hash-of-'' @ p)"

definition demo_login :: "string \<Rightarrow> string \<Rightarrow> admin_request" where
  "demo_login ip pw = \<lparr>rq_method = ''POST'', rq_ip = ip, rq_cookie = None, x_requested_with = Some ''fetch'',
     rq_body = Some (JObj [(''password'', JStr pw)])\<rparr>"

definition demo_attempt :: "int \<Rightarrow> string \<Rightarrow> string \<Rightarrow> login_attempt" where
  "demo_attempt t ip pw = \<lparr>at_gate = t, at_done = t + 200, at_token = ''tok'', at_request = demo_login ip pw\<rparr>"

theorem login_lockout_witness:
  "statuses_for window_get window_hit window_delete (\<lambda>s. s) demo_check 60000 ''10.0.0.9''
     (demo_attempt 500 ''10.0.0.7'' ''secret'' # map (\<lambda>i. demo_attempt (1000 * int i) ''10.0.0.9'' ''guess'') [1, 2, 3, 4, 5, 6, 7]) ([], demo_db) =
   [401, 401, 401, 401, 401, 429, 429]"
proof -
  let ?as = "demo_attempt 500 ''10.0.0.7'' ''secret'' # map (\<lambda>i. demo_attempt (1000 * int i) ''10.0.0.9'' ''guess'') [1, 2, 3, 4, 5, 6, 7]"
  have "in_turn 0 (0 + LOGIN_WINDOW_MS) ?as" by (simp add: demo_attempt_def LOGIN_WINDOW_MS_def)
  moreover have f: "from_address ''10.0.0.9'' ?as = map (\<lambda>i. demo_attempt (1000 * int i) ''10.0.0.9'' ''guess'') [1, 2, 3, 4, 5, 6, 7]"
    by (simp add: from_address_def demo_attempt_def demo_login_def)
  moreover have "\<not> password_ok demo_check demo_db (Some (JObj [(''password'', JStr ''guess'')]))"
    by (simp add: password_ok_def verifyAdminPassword_def demo_check_def demo_db_def)
  ultimately show ?thesis
    using login_lockout [OF window_laws, of 0 "''10.0.0.9''" "[]" ?as demo_check demo_db "\<lambda>s. s" 60000]
    by (auto simp: live_record_def window_get_def demo_attempt_def demo_login_def numeral_eq_Suc)
qed

section \<open>A signed-in browser\<close>

lemma created_session_found:
  assumes "create_session sha ttl t token db = (Some (tok, e), db1)"
  shows "tok = token" "e = t + ttl"
    "find (\<lambda>r. token_hash r = sha token) (admin_sessions db1) = Some \<lparr>token_hash = sha token, created_at = t, expires_at = t + ttl\<rparr>"
proof -
  have "find P (xs @ [y]) = Some y" if "P y" "\<not> list_ex P xs" for P and xs :: "session_row list" and y
    using that by (induction xs) auto
  with assms show "tok = token" "e = t + ttl"
    "find (\<lambda>r. token_hash r = sha token) (admin_sessions db1) = Some \<lparr>token_hash = sha token, created_at = t, expires_at = t + ttl\<rparr>"
    by (auto simp: create_session_def Let_def split: if_splits)
qed

text \<open>What a browser sends back for a cookie it was given: the pair without the attributes.\<close>

definition cookie_pair :: "string \<Rightarrow> string" where
  "cookie_pair c = takeWhile (\<lambda>x. x \<noteq> CHR '';'') c"

lemma cookie_pair_set: "list_all plain_char token \<Longrightarrow> cookie_pair (serializeSetCookie token e) = ADMIN_COOKIE @ ''='' @ token"
proof -
  assume t: "list_all plain_char token"
  have "takeWhile (\<lambda>x. x \<noteq> CHR '';'') (a @ CHR '';'' # b) = a" if "list_all (\<lambda>x. x \<noteq> CHR '';'') a" for a b
    using that by (induction a) auto
  moreover have "list_all (\<lambda>x. x \<noteq> CHR '';'') (ADMIN_COOKIE @ ''='' @ token)"
    using t by (auto simp: ADMIN_COOKIE_def list_all_iff plain_char_def)
  ultimately show ?thesis unfolding cookie_pair_def serializeSetCookie_def
    by (metis append.assoc append_Cons)
qed

definition signed_out :: "json admin_reply" where
  "signed_out = refuse 401 (''unauthorized '' @ em_dash @ '' POST /admin/login first'')"

text \<open>
  A login lets its browser in, and only until the session ends: after a login answered 200, a
  request from an allowed address that carries the cookie of that answer and the custom header passes
  the guard of every route before the session expires, is refused with 401 from then on, and is refused
  with 401 at once after a logout with that cookie.
\<close>

lemma login_cookie_admits:
  assumes "admin_login get consume delete sha check ttl t t1 token rq (failures, db) = (Some r, failures1, db1)" "r_status r = 200"
    and "list_all plain_char token" "token \<noteq> []"
    and "map_of (r_headers r) ''set-cookie'' = Some c" "rq_cookie rq1 = Some (cookie_pair c)"
    and "ipAllowed (rq_ip rq1) (adminAllowCidr cfg)" "x_requested_with rq1 \<noteq> None" "\<not> skipSession opts"
  shows "fst (guarded sha cfg u opts rq1 db1) = (if u < t1 + ttl then None else Some signed_out) \<and>
    fst (guarded sha cfg u opts rq1 (snd (admin_logout sha rq1 db1))) = Some signed_out"
proof -
  from assms(1,2) obtain tok e where cs: "create_session sha ttl t1 token db = (Some (tok, e), db1)"
    and h: "r_headers r = [(''set-cookie'', serializeSetCookie tok e)]"
    by (auto simp: admin_login_def login_checked_def refuse_def dest: login_gate_live(2) split: option.splits if_splits prod.splits)
  note found = created_session_found [OF cs]
  have "cookie_pair c = ADMIN_COOKIE @ ''='' @ token" using assms(5) h found(1) cookie_pair_set [OF assms(3)] by auto
  then have "session_cookie rq1 = token"
    using assms(6) cookie_roundtrip [OF assms(3)] by (simp add: session_cookie_def or_else_def)
  moreover have "verify_session sha u token (delete_session (sha token) db1) = (False, delete_session (sha token) db1)"
  proof -
    have "find (\<lambda>r. token_hash r = sha token) (filter (\<lambda>r. token_hash r \<noteq> sha token) xs) = None" for xs :: "session_row list"
      by (auto simp: find_None_iff)
    then show ?thesis by (simp add: verify_session_def delete_session_def)
  qed
  ultimately show ?thesis
    using assms(4,7-9) found(3)
    by (auto simp: guarded_def verify_session_def admin_logout_def revoke_session_def signed_out_def)
qed


section \<open>Overlapping logins\<close>

text \<open>
  The gate reads the failures before the password is checked and the failure is written after it, so
  logins that are under way at the same time do not see each other: any number of them is checked.
\<close>

lemma overlapping_logins_all_checked:
  assumes "live_record get t ip failures = None" "\<not> ok"
  shows "login_gate get t ip failures = None"
    "map_option r_status (fst (login_checked consume delete sha ttl t1 token ip ok (l, db))) = Some 401"
  using assms by (simp_all add: login_gate_live(1) login_checked_def refuse_def)

end
