(* ===== verification/AdminApi.thy ===== *)
theory AdminApi
  imports AdminGuard LoginFlow Quota Keys Ledger Settings Models
begin

text \<open>
  The routes of the admin API, \<open>registerAdminApi\<close> in \<open>src/server/admin-api.ts\<close>, over the stores they
  share: the pool with the sign-in flow and the quota service, the keys, the ledger, the settings file,
  the catalog and the admin sessions. A route takes what it meets outside the gateway in \<open>admin_env\<close>
  and returns the value it hands to \<open>send\<close>. A route that awaits the sign-in flow makes its call here;
  its answer is computed from the status the flow has reached. The event stream is in \<open>Events\<close>.
\<close>

section \<open>State\<close>

record ('f) admin_state =
  a_failures :: 'f
  a_db :: admin_db
  a_login :: login
  a_quota :: quota_service
  a_catalog :: catalog
  a_keys :: key_store
  a_ledger :: ledger
  a_settings :: "disk \<times> config_cache"

record ('f) admin_env =
  e_now :: ms
  e_done :: ms
  e_world :: world
  e_cfg :: gateway_config
  e_sha :: "string \<Rightarrow> string"
  e_check :: "string \<Rightarrow> string \<Rightarrow> bool option"
  e_get :: "int \<Rightarrow> string \<Rightarrow> 'f \<Rightarrow> (nat \<times> int) option"
  e_consume :: "int \<Rightarrow> string \<Rightarrow> 'f \<Rightarrow> 'f"
  e_delete :: "string \<Rightarrow> 'f \<Rightarrow> 'f"
  e_ttl :: int
  e_random :: string
  e_random_id :: string
  e_vault :: key_vault
  e_iv :: "nat list"
  e_midnight :: "ms \<Rightarrow> ms"
  e_jparse :: "string \<Rightarrow> json option"
  e_env :: env
  e_file :: string
  e_write :: "stat option"
  e_parse_url :: "string \<Rightarrow> url option"
  e_refresh :: "string \<Rightarrow> refresh_env"
  e_discover :: "string + string"
  e_qr :: "string \<Rightarrow> string"

text \<open>One pool and one directory of token files behind the flow and the quota service.\<close>

definition the_pool :: "'f admin_state \<Rightarrow> pool_manager" where
  "the_pool st = l_pool (a_login st)"

definition set_pool :: "pool_manager \<Rightarrow> 'f admin_state \<Rightarrow> 'f admin_state" where
  "set_pool m st = st\<lparr>a_login := (a_login st)\<lparr>l_pool := m\<rparr>\<rparr>"

definition with_quota :: "(quota_service \<Rightarrow> quota_service) \<Rightarrow> 'f admin_state \<Rightarrow> 'f admin_state" where
  "with_quota f st =
     (let q = f ((a_quota st)\<lparr>q_pool := the_pool st, q_files := l_files (a_login st)\<rparr>)
      in st\<lparr>a_quota := q, a_login := (a_login st)\<lparr>l_pool := q_pool q, l_files := q_files q\<rparr>\<rparr>)"

section \<open>Replies\<close>

record account_view = managed_account +
  quotaError :: "string option"
  quotaErrorAt :: "ms option"

definition withQuotaError :: "quota_service \<Rightarrow> managed_account \<Rightarrow> account_view" where
  "withQuotaError q a =
     (let err = getQuotaError q (acc_id a)
      in managed_account.extend a (account_view.fields (map_option fst err) (map_option snd err)))"

definition poolWithQuotaErrors :: "quota_service \<Rightarrow> pool_data \<Rightarrow> pool_data \<times> account_view list" where
  "poolWithQuotaErrors q p = (p, map (withQuotaError q) (accounts p))"

text \<open>\<open>ApiKeyRecord\<close>: a row without the hash and the sealed secret.\<close>

record api_key =
  k_id :: string
  k_name :: string
  k_prefix :: string
  k_createdAt :: ms
  k_disabledAt :: "ms option"
  k_dailyTokenLimit :: int
  k_rpmLimit :: int
  k_scopes :: "string option"
  k_lastUsedAt :: "ms option"

definition fromRow :: "key_row \<Rightarrow> api_key" where
  "fromRow r = \<lparr>k_id = key_id r, k_name = key_row.key_name r, k_prefix = key_prefix r, k_createdAt = key_createdAt r,
     k_disabledAt = disabledAt r, k_dailyTokenLimit = dailyTokenLimit r, k_rpmLimit = rpmLimit r,
     k_scopes = key_scopes r, k_lastUsedAt = key_row.lastUsedAt r\<rparr>"

record created_key = api_key +
  plaintext :: string

definition keyWithoutPlaintext :: "created_key \<Rightarrow> api_key" where
  "keyWithoutPlaintext c = api_key.truncate c"

definition created_of :: "key_row \<Rightarrow> string \<Rightarrow> created_key" where
  "created_of r p = api_key.extend (fromRow r) (created_key.fields p)"

record usage_row_view = usage_row +
  accountAlias :: "string option"
  accountEmail :: "string option"

definition enrichUsageRows :: "usage_row list \<Rightarrow> managed_account list \<Rightarrow> usage_row_view list" where
  "enrichUsageRows rows accs =
     (let byId = map_of (rev (map (\<lambda>a. (acc_id a, a)) accs))
      in map (\<lambda>row. let account = Option.bind (u_accountId row) byId
           in usage_row.extend row (usage_row_view.fields (map_option acc_alias account) (Option.bind account email))) rows)"

record account_status =
  as_id :: string
  as_alias :: string
  as_email :: "string option"
  as_enabled :: bool
  as_lastUsedAt :: "ms option"
  as_authRequired :: bool
  as_cooldowns :: "model_family \<rightharpoonup> family_cooldown"
  as_quotas :: "model_family \<rightharpoonup> family_quota"

definition account_status_of :: "managed_account \<Rightarrow> account_status" where
  "account_status_of a = \<lparr>as_id = acc_id a, as_alias = acc_alias a, as_email = email a, as_enabled = enabled a,
     as_lastUsedAt = managed_account.lastUsedAt a, as_authRequired = authRequired a, as_cooldowns = cooldowns a, as_quotas = quotas a\<rparr>"

record catalog_status =
  cs_source :: catalog_source
  cs_count :: nat
  cs_discoveredAt :: ms
  cs_lastError :: "string option"

definition catalog_status_of :: "catalog \<Rightarrow> catalog_status" where
  "catalog_status_of c = \<lparr>cs_source = cat_source c, cs_count = length (cat_models c), cs_discoveredAt = discoveredAt c, cs_lastError = lastError c\<rparr>"

record gateway_status =
  gs_enabled :: bool
  gs_permissionMode :: permission_mode
  gs_maxConcurrent :: rat
  gs_maxQueueDepth :: rat

datatype admin_body =
    Plain json
  | PoolView "pool_data \<times> account_view list"
  | PoolBody pool_data
  | AccountBody "managed_account option"
  | AccountView "account_view option"
  | AuthStatus bool pool_auth_status
  | AuthStep bool pool_auth_status pool_data
  | StatusBody gateway_status pool_mode "account_status list" pool_auth_status catalog_status nat usage_summary
  | CatalogBody catalog_status
  | KeysBody "(api_key \<times> rat) list"
  | KeyBody api_key
  | KeyWithSecret api_key string
  | SecretBody "string option"
  | UsageBody nat "usage_row_view list"
  | SummaryBody usage_summary
  | SettingsBody settings_view
  | Png string

datatype answer = Reply "admin_body admin_reply" | Later | Thrown

definition send :: "nat \<Rightarrow> admin_body \<Rightarrow> answer" where
  "send st b = Reply \<lparr>r_status = st, r_headers = [], r_body = b\<rparr>"

definition send_error :: "nat \<Rightarrow> string \<Rightarrow> answer" where
  "send_error st msg = send st (Plain (refusal msg))"

definition send_plain :: "json admin_reply \<Rightarrow> answer" where
  "send_plain r = Reply \<lparr>r_status = r_status r, r_headers = r_headers r, r_body = Plain (r_body r)\<rparr>"

definition ok_body :: json where
  "ok_body = JObj [(''ok'', JBool True)]"

definition body_of :: "admin_request \<Rightarrow> json" where
  "body_of rq = (case rq_body rq of None \<Rightarrow> JObj [] | Some JNull \<Rightarrow> JObj [] | Some v \<Rightarrow> v)"

definition body_str :: "admin_request \<Rightarrow> string \<Rightarrow> string option" where
  "body_str rq k = (case as_str (jget (body_of rq) k) of Some s \<Rightarrow> if s = [] then None else Some s | None \<Rightarrow> None)"

section \<open>Session, status and catalog routes\<close>

definition post_login :: "'f admin_env \<Rightarrow> admin_request \<Rightarrow> 'f admin_state \<Rightarrow> answer \<times> 'f admin_state" where
  "post_login e rq st =
     (case admin_login (e_get e) (e_consume e) (e_delete e) (e_sha e) (e_check e) (e_ttl e) (e_now e) (e_done e) (e_random e) rq
             (a_failures st, a_db st) of
        (r, l, db) \<Rightarrow> (case r of None \<Rightarrow> Thrown | Some x \<Rightarrow> send_plain x, st\<lparr>a_failures := l, a_db := db\<rparr>))"

definition post_logout :: "'f admin_env \<Rightarrow> admin_request \<Rightarrow> 'f admin_state \<Rightarrow> answer \<times> 'f admin_state" where
  "post_logout e rq st = (let (r, db) = admin_logout (e_sha e) rq (a_db st) in (send_plain r, st\<lparr>a_db := db\<rparr>))"

definition get_status :: "'f admin_env \<Rightarrow> 'f admin_state \<Rightarrow> answer" where
  "get_status e st =
     (let cfg = e_cfg e; p = data (the_pool st) in
      send 200 (StatusBody
        \<lparr>gs_enabled = cfg_enabled cfg, gs_permissionMode = permissionMode cfg, gs_maxConcurrent = maxConcurrent cfg, gs_maxQueueDepth = maxQueueDepth cfg\<rparr>
        (mode p) (map account_status_of (accounts p)) (statusValue (a_login st)) (catalog_status_of (a_catalog st))
        (count_keys (a_keys st)) (summarizeToday (e_midnight e) (e_now e) (a_ledger st))))"

definition refresh_catalog :: "'f admin_env \<Rightarrow> 'f admin_state \<Rightarrow> 'f admin_state" where
  "refresh_catalog e st = st\<lparr>a_catalog := snd (refresh (e_jparse e) (e_now e) (e_discover e) (a_catalog st))\<rparr>"

definition post_catalog_refresh :: "'f admin_env \<Rightarrow> 'f admin_state \<Rightarrow> answer \<times> 'f admin_state" where
  "post_catalog_refresh e st =
     (let st1 = refresh_catalog e st in (send 200 (CatalogBody (catalog_status_of (a_catalog st1))), st1))"

section \<open>Sign-in routes\<close>

definition post_auth_begin :: "'f admin_env \<Rightarrow> admin_request \<Rightarrow> 'f admin_state \<Rightarrow> answer \<times> 'f admin_state" where
  "post_auth_begin e rq st =
     (Later, st\<lparr>a_login := begin_flow (e_world e) (e_random_id e) (body_str rq ''alias'') (body_str rq ''proxyUrl'') (a_login st)\<rparr>)"

definition auth_begun :: "pool_auth_status \<Rightarrow> answer" where
  "auth_begun v = send (if phase v = PFailed then 500 else 200) (AuthStatus (phase v \<noteq> PFailed) v)"

definition get_auth_status :: "'f admin_state \<Rightarrow> answer" where
  "get_auth_status st = (let v = statusValue (a_login st) in send 200 (AuthStatus (phase v \<noteq> PFailed) v))"

definition auth_completed :: "pool_auth_status \<Rightarrow> pool_data \<Rightarrow> answer" where
  "auth_completed v p = send (if phase v = PDone then 200 else 400) (AuthStep (phase v = PDone) v p)"

definition post_auth_complete :: "'f admin_env \<Rightarrow> admin_request \<Rightarrow> 'f admin_state \<Rightarrow> answer \<times> 'f admin_state" where
  "post_auth_complete e rq st =
     (case as_str (jget (body_of rq) ''code'') of
        Some cd \<Rightarrow>
          if trim cd = [] then (send_error 400 ''code is required (paste the full callback URL or the bare authorization code)'', st)
          else (let (r, lg) = submitCode (e_parse_url e) (e_world e) (trim cd) (a_login st); st1 = st\<lparr>a_login := lg\<rparr>
                in (case r of
                      None \<Rightarrow> Later
                    | Some (ph, msg) \<Rightarrow> auth_completed (idle_status\<lparr>phase := ph, s_message := Some msg\<rparr>) (data (the_pool st1)), st1))
      | None \<Rightarrow> (send_error 400 ''code is required (paste the full callback URL or the bare authorization code)'', st))"

definition post_auth_cancel :: "'f admin_env \<Rightarrow> 'f admin_state \<Rightarrow> answer \<times> 'f admin_state" where
  "post_auth_cancel e st = (Later, st\<lparr>a_login := cancel_flow (e_world e) (a_login st)\<rparr>)"

definition auth_cancelled :: "pool_auth_status \<Rightarrow> answer" where
  "auth_cancelled v = send 200 (AuthStatus True v)"

definition get_auth_qr :: "'f admin_env \<Rightarrow> 'f admin_state \<Rightarrow> answer" where
  "get_auth_qr e st =
     (let v = statusValue (a_login st) in
      if phase v \<noteq> PWaiting \<or> \<not> truthy_str (s_url v)
      then send_error 404 (''no login flow is waiting '' @ em_dash @ '' POST /admin/pool/auth/begin first'')
      else Reply \<lparr>r_status = 200, r_headers = [(''content-type'', ''image/png''), (''cache-control'', ''no-store'')],
             r_body = Png (e_qr e (or_else (s_url v) []))\<rparr>)"

section \<open>Pool routes\<close>

definition MODEL_FAMILIES :: "(string \<times> model_family) list" where
  "MODEL_FAMILIES = [(''google'', Google), (''anthropic'', Anthropic), (''openai'', Openai), (''unknown'', UnknownFamily)]"

definition get_pool :: "'f admin_state \<Rightarrow> answer" where
  "get_pool st = send 200 (PoolView (poolWithQuotaErrors (a_quota st) (data (the_pool st))))"

definition send_pool :: "'f admin_state \<Rightarrow> answer" where
  "send_pool st = send 200 (PoolBody (data (the_pool st)))"

definition patch_account :: "'f admin_env \<Rightarrow> string \<Rightarrow> admin_request \<Rightarrow> 'f admin_state \<Rightarrow> answer \<times> 'f admin_state" where
  "patch_account e i rq st =
     (let w = e_world e; b = body_of rq; m = the_pool st in
      if getAccount (data m) i = None then (send_error 404 ''unknown account id'', st)
      else
        (let m1 = (case body_str rq ''alias'' of Some al \<Rightarrow> snd (setAccountAlias w i al m) | None \<Rightarrow> m);
             m2 = (case jget b ''proxyUrl'' of
                     Some JNull \<Rightarrow> snd (setAccountProxy w i None m1)
                   | Some (JStr px) \<Rightarrow> snd (setAccountProxy w i (Some px) m1)
                   | _ \<Rightarrow> m1);
             m3 = (case as_bool (jget b ''enabled'') of Some en \<Rightarrow> snd (setAccountEnabled w i en m2) | None \<Rightarrow> m2)
         in (send 200 (AccountBody (getAccount (data m3) i)), set_pool m3 st)))"

definition delete_account :: "'f admin_env \<Rightarrow> string \<Rightarrow> 'f admin_state \<Rightarrow> answer \<times> 'f admin_state" where
  "delete_account e i st =
     (let (ok, m) = deleteAccount (e_world e) i (the_pool st); st1 = set_pool m st
      in if \<not> ok then (send_error 404 ''unknown account id'', st1) else (send_pool st1, st1))"

definition clear_cooldown_route :: "'f admin_env \<Rightarrow> string \<Rightarrow> admin_request \<Rightarrow> 'f admin_state \<Rightarrow> answer \<times> 'f admin_state" where
  "clear_cooldown_route e i rq st =
     (let family = Option.bind (as_str (jget (body_of rq) ''family'')) (map_of MODEL_FAMILIES);
          st1 = set_pool (clearCooldown (e_world e) (Some i) family (the_pool st)) st
      in (send_pool st1, st1))"

definition clear_auth_route :: "'f admin_env \<Rightarrow> string \<Rightarrow> 'f admin_state \<Rightarrow> answer \<times> 'f admin_state" where
  "clear_auth_route e i st =
     (if getAccount (data (the_pool st)) i = None then (send_error 404 ''unknown account id'', st)
      else let st1 = set_pool (clearAuthRequired (e_world e) i (the_pool st)) st in (send_pool st1, st1))"

text \<open>The catalog refresh that follows is not awaited.\<close>

definition refresh_quota_route :: "'f admin_env \<Rightarrow> string \<Rightarrow> 'f admin_state \<Rightarrow> answer \<times> 'f admin_state" where
  "refresh_quota_route e i st =
     (case getAccount (data (the_pool st)) i of
        None \<Rightarrow> (send_error 404 ''unknown account id'', st)
      | Some a \<Rightarrow>
          (let st1 = with_quota (\<lambda>q. snd (refreshAccountQuota (e_refresh e i) True a q)) st
           in (send 200 (AccountView (map_option (withQuotaError (a_quota st1)) (getAccount (data (the_pool st1)) i))),
               refresh_catalog e st1)))"

definition refresh_all_route :: "'f admin_env \<Rightarrow> admin_request \<Rightarrow> 'f admin_state \<Rightarrow> answer \<times> 'f admin_state" where
  "refresh_all_route e rq st =
     (let force = (jget (body_of rq) ''force'' \<noteq> Some (JBool False));
          st1 = with_quota (runRefreshAllCycle (e_refresh e) (e_refresh e []) force) st
      in (get_pool st1, st1))"

definition set_mode_route :: "'f admin_env \<Rightarrow> admin_request \<Rightarrow> 'f admin_state \<Rightarrow> answer \<times> 'f admin_state" where
  "set_mode_route e rq st =
     (case map_of [(''sequential'', Sequential), (''round-robin'', RoundRobin)] (or_else (as_str (jget (body_of rq) ''mode'')) []) of
        None \<Rightarrow> (send_error 400 (''mode must be '' @ squote ''sequential'' @ '' or '' @ squote ''round-robin''), st)
      | Some md \<Rightarrow> (let st1 = set_pool (setMode (e_world e) md (the_pool st)) st in (send_pool st1, st1)))"

definition string_array :: "json option \<Rightarrow> string list option" where
  "string_array v =
     (case as_arr v of
        None \<Rightarrow> None
      | Some xs \<Rightarrow> if list_all (\<lambda>x. as_str (Some x) \<noteq> None) xs then Some (map (\<lambda>x. the (as_str (Some x))) xs) else None)"

definition reorder_route :: "'f admin_env \<Rightarrow> admin_request \<Rightarrow> 'f admin_state \<Rightarrow> answer \<times> 'f admin_state" where
  "reorder_route e rq st =
     (case string_array (jget (body_of rq) ''ids'') of
        None \<Rightarrow> (send_error 400 ''ids must be a string array'', st)
      | Some ids \<Rightarrow>
          (let (ok, m) = reorderAccounts (e_world e) ids (the_pool st); st1 = set_pool m st
           in if \<not> ok then (send_error 400 ''ids must reference existing accounts exactly'', st1) else (send_pool st1, st1)))"

section \<open>Key routes\<close>

definition get_keys :: "'f admin_env \<Rightarrow> 'f admin_state \<Rightarrow> answer \<times> 'f admin_state" where
  "get_keys e st =
     (let (out, l) = foldl (\<lambda>(out, l) r. let (used, l1) = tokensUsedToday (e_midnight e) (e_now e) (key_id r) l
                              in (out @ [(fromRow r, used)], l1)) ([], a_ledger st) (list_keys (a_keys st))
      in (send 200 (KeysBody out), st\<lparr>a_ledger := l\<rparr>))"

fun limitIsInvalid :: "json option \<Rightarrow> bool" where
  "limitIsInvalid None = False"
| "limitIsInvalid (Some (JNum n)) = (\<not> (is_integer n \<and> n \<ge> 0))"
| "limitIsInvalid _ = True"

definition limits_invalid :: "json \<Rightarrow> bool" where
  "limits_invalid b = (limitIsInvalid (jget b ''dailyTokenLimit'') \<or> limitIsInvalid (jget b ''rpmLimit''))"

definition bad_limits :: answer where
  "bad_limits = send_error 400 ''dailyTokenLimit/rpmLimit must be non-negative integers''"

definition post_key :: "'f admin_env \<Rightarrow> admin_request \<Rightarrow> 'f admin_state \<Rightarrow> answer \<times> 'f admin_state" where
  "post_key e rq st =
     (let b = body_of rq in
      if limits_invalid b then (bad_limits, st)
      else case create_key (e_sha e) (e_vault e) (e_iv e) (e_random e) (e_random_id e) (e_now e) (body_str rq ''name'')
                  (as_num (jget b ''dailyTokenLimit'')) (as_num (jget b ''rpmLimit'')) (a_keys st) of
             None \<Rightarrow> (Thrown, st)
           | Some (row, p, ks) \<Rightarrow>
               (let c = created_of row p in (send 201 (KeyWithSecret (keyWithoutPlaintext c) (plaintext c)), st\<lparr>a_keys := ks\<rparr>)))"

definition key_patch_of :: "admin_request \<Rightarrow> key_patch" where
  "key_patch_of rq =
     (let b = body_of rq in
      \<lparr>p_name = body_str rq ''name'', p_disabled = as_bool (jget b ''disabled''), p_daily = as_num (jget b ''dailyTokenLimit''),
       p_rpm = as_num (jget b ''rpmLimit''),
       p_scopes = (case jget b ''scopes'' of Some (JStr v) \<Rightarrow> Some (Some v) | Some JNull \<Rightarrow> Some None | _ \<Rightarrow> None)\<rparr>)"

definition patch_key :: "'f admin_env \<Rightarrow> string \<Rightarrow> admin_request \<Rightarrow> 'f admin_state \<Rightarrow> answer \<times> 'f admin_state" where
  "patch_key e i rq st =
     (if limits_invalid (body_of rq) then (bad_limits, st)
      else (let (r, ks) = update_key (e_now e) i (key_patch_of rq) (a_keys st); st1 = st\<lparr>a_keys := ks\<rparr>
            in case r of None \<Rightarrow> (send_error 404 ''not found'', st1) | Some row \<Rightarrow> (send 200 (KeyBody (fromRow row)), st1)))"

definition delete_key :: "string \<Rightarrow> 'f admin_state \<Rightarrow> answer \<times> 'f admin_state" where
  "delete_key i st =
     (let (ok, ks) = remove_key i (a_keys st); st1 = st\<lparr>a_keys := ks\<rparr>
      in if \<not> ok then (send_error 404 ''not found'', st1) else (send 200 (Plain ok_body), st1))"

definition get_secret :: "'f admin_env \<Rightarrow> string \<Rightarrow> 'f admin_state \<Rightarrow> answer" where
  "get_secret e i st =
     (if get_key i (a_keys st) = None then send_error 404 ''not found''
      else send 200 (SecretBody (reveal_key (e_vault e) i (a_keys st))))"

definition post_rotate :: "'f admin_env \<Rightarrow> string \<Rightarrow> 'f admin_state \<Rightarrow> answer \<times> 'f admin_state" where
  "post_rotate e i st =
     (case rotate_key (e_sha e) (e_vault e) (e_iv e) (e_random e) i (a_keys st) of
        None \<Rightarrow> (Thrown, st)
      | Some (None, ks) \<Rightarrow> (send_error 404 ''not found'', st\<lparr>a_keys := ks\<rparr>)
      | Some (Some p, ks) \<Rightarrow>
          (case get_key i ks of
             None \<Rightarrow> (Thrown, st\<lparr>a_keys := ks\<rparr>)
           | Some row \<Rightarrow> (let c = created_of row p
               in (send 200 (KeyWithSecret (keyWithoutPlaintext c) (plaintext c)), st\<lparr>a_keys := ks\<rparr>))))"

section \<open>Usage routes\<close>

datatype query_value = QOne string | QMany "string list"

fun one_value :: "query_value option \<Rightarrow> string option" where
  "one_value None = None"
| "one_value (Some (QOne s)) = Some s"
| "one_value (Some (QMany [])) = None"
| "one_value (Some (QMany (s # ss))) = Some s"

definition num_value :: "query_value option \<Rightarrow> rat option" where
  "num_value v = (case one_value v of None \<Rightarrow> None | Some s \<Rightarrow> if s = [] then None else js_number s)"

definition text_value :: "query_value option \<Rightarrow> string option" where
  "text_value v = (case one_value v of None \<Rightarrow> None | Some s \<Rightarrow> if s = [] then None else Some s)"

definition protocol_value :: "query_value option \<Rightarrow> string option" where
  "protocol_value v =
     (let raw = one_value v in if raw = Some ''openai'' \<or> raw = Some ''anthropic'' then raw else None)"

text \<open>Integer columns compare with a fraction as with the integer next to it.\<close>

definition usage_query_of :: "(string \<times> query_value) list \<Rightarrow> usage_query" where
  "usage_query_of q =
     (let g = map_of q in
      \<lparr>q_keyId = text_value (g ''keyId''), q_accountId = text_value (g ''accountId''), q_model = text_value (g ''model''),
       q_family = text_value (g ''family''), q_protocol = protocol_value (g ''protocol''), q_status = text_value (g ''status''),
       q_from = map_option (\<lambda>r. \<lceil>r\<rceil>) (num_value (g ''from'')), q_to = map_option (\<lambda>r. \<lfloor>r\<rfloor>) (num_value (g ''to'')),
       q_limit = map_option (\<lambda>r. \<lfloor>r\<rfloor>) (num_value (g ''limit'')), q_offset = map_option (\<lambda>r. \<lfloor>r\<rfloor>) (num_value (g ''offset''))\<rparr>)"

text \<open>SQLite refuses a \<open>LIMIT\<close> or \<open>OFFSET\<close> that is not a 64-bit integer.\<close>

definition sqlite_integer :: "rat \<Rightarrow> bool" where
  "sqlite_integer r = (is_integer r \<and> r < 2 ^ 63)"

definition paging_ok :: "(string \<times> query_value) list \<Rightarrow> bool" where
  "paging_ok q =
     (sqlite_integer (min (max 1 (or_else (num_value (map_of q ''limit'')) 50)) 500) \<and>
      sqlite_integer (max 0 (or_else (num_value (map_of q ''offset'')) 0)))"

definition get_usage :: "(string \<times> query_value) list \<Rightarrow> 'f admin_state \<Rightarrow> answer" where
  "get_usage q st =
     (if \<not> paging_ok q then Thrown
      else let (total, rows) = query_usage (usage_query_of q) (a_ledger st)
        in send 200 (UsageBody total (enrichUsageRows rows (accounts (data (the_pool st))))))"

definition get_usage_summary :: "'f admin_env \<Rightarrow> 'f admin_state \<Rightarrow> answer" where
  "get_usage_summary e st = send 200 (SummaryBody (summarizeToday (e_midnight e) (e_now e) (a_ledger st)))"

section \<open>Settings routes\<close>

fun entries_of :: "json \<Rightarrow> (string \<times> json) list" where
  "entries_of (JObj kvs) = kvs"
| "entries_of (JArr xs) = zip (map show_nat [0..<length xs]) xs"
| "entries_of (JStr s) = zip (map show_nat [0..<length s]) (map (\<lambda>c. JStr [c]) s)"
| "entries_of _ = []"

definition get_settings :: "'f admin_env \<Rightarrow> 'f admin_state \<Rightarrow> answer \<times> 'f admin_state" where
  "get_settings e st =
     (let (v, c) = settingsView (e_jparse e) (e_env e) (e_file e) (a_settings st)
      in (send 200 (SettingsBody v), st\<lparr>a_settings := (fst (a_settings st), c)\<rparr>))"

definition put_settings :: "'f admin_env \<Rightarrow> admin_request \<Rightarrow> 'f admin_state \<Rightarrow> answer \<times> 'f admin_state" where
  "put_settings e rq st =
     (case sanitizeSettings (entries_of (body_of rq)) of
        Inl err \<Rightarrow> (send_error 400 err, st)
      | Inr patch \<Rightarrow>
          (let (ok, d) = writeOverridesPatch (e_jparse e) (e_file e) (e_write e) patch (a_settings st); st1 = st\<lparr>a_settings := d\<rparr>
           in if \<not> ok then (Thrown, st1) else get_settings e st1))"

section \<open>The routes behind their guards\<close>

datatype admin_route =
    RLogin | RLogout | RMe | RStatus | RCatalogRefresh
  | RPool | RAuthBegin | RAuthStatus | RAuthComplete | RAuthCancel | RAuthQr
  | RPatchAccount string | RDeleteAccount string | RClearCooldown string | RClearAuth string | RRefreshQuota string
  | RRefreshAll | RMode | RReorder
  | RKeys | RCreateKey | RPatchKey string | RDeleteKey string | RSecret string | RRotate string
  | RUsage "(string \<times> query_value) list" | RUsageSummary | RSettings | RPutSettings

fun route_method :: "admin_route \<Rightarrow> string" where
  "route_method (RPatchAccount i) = ''PATCH''"
| "route_method (RPatchKey i) = ''PATCH''"
| "route_method (RDeleteAccount i) = ''DELETE''"
| "route_method (RDeleteKey i) = ''DELETE''"
| "route_method RPutSettings = ''PUT''"
| "route_method RMe = ''GET''"
| "route_method RStatus = ''GET''"
| "route_method RPool = ''GET''"
| "route_method RAuthStatus = ''GET''"
| "route_method RAuthQr = ''GET''"
| "route_method RKeys = ''GET''"
| "route_method (RSecret i) = ''GET''"
| "route_method (RUsage q) = ''GET''"
| "route_method RUsageSummary = ''GET''"
| "route_method RSettings = ''GET''"
| "route_method _ = ''POST''"

definition route_opts :: "admin_route \<Rightarrow> guard_opts" where
  "route_opts r = \<lparr>g_mutating = (route_method r \<noteq> ''GET''), skipSession = (r = RLogin)\<rparr>"

fun route_handler :: "'f admin_env \<Rightarrow> admin_route \<Rightarrow> admin_request \<Rightarrow> 'f admin_state \<Rightarrow> answer \<times> 'f admin_state" where
  "route_handler e RLogin rq st = post_login e rq st"
| "route_handler e RLogout rq st = post_logout e rq st"
| "route_handler e RMe rq st = (send 200 (Plain ok_body), st)"
| "route_handler e RStatus rq st = (get_status e st, st)"
| "route_handler e RCatalogRefresh rq st = post_catalog_refresh e st"
| "route_handler e RPool rq st = (get_pool st, st)"
| "route_handler e RAuthBegin rq st = post_auth_begin e rq st"
| "route_handler e RAuthStatus rq st = (get_auth_status st, st)"
| "route_handler e RAuthComplete rq st = post_auth_complete e rq st"
| "route_handler e RAuthCancel rq st = post_auth_cancel e st"
| "route_handler e RAuthQr rq st = (get_auth_qr e st, st)"
| "route_handler e (RPatchAccount i) rq st = patch_account e i rq st"
| "route_handler e (RDeleteAccount i) rq st = delete_account e i st"
| "route_handler e (RClearCooldown i) rq st = clear_cooldown_route e i rq st"
| "route_handler e (RClearAuth i) rq st = clear_auth_route e i st"
| "route_handler e (RRefreshQuota i) rq st = refresh_quota_route e i st"
| "route_handler e RRefreshAll rq st = refresh_all_route e rq st"
| "route_handler e RMode rq st = set_mode_route e rq st"
| "route_handler e RReorder rq st = reorder_route e rq st"
| "route_handler e RKeys rq st = get_keys e st"
| "route_handler e RCreateKey rq st = post_key e rq st"
| "route_handler e (RPatchKey i) rq st = patch_key e i rq st"
| "route_handler e (RDeleteKey i) rq st = delete_key i st"
| "route_handler e (RSecret i) rq st = (get_secret e i st, st)"
| "route_handler e (RRotate i) rq st = post_rotate e i st"
| "route_handler e (RUsage q) rq st = (get_usage q st, st)"
| "route_handler e RUsageSummary rq st = (get_usage_summary e st, st)"
| "route_handler e RSettings rq st = get_settings e st"
| "route_handler e RPutSettings rq st = put_settings e rq st"

definition admin_handle :: "'f admin_env \<Rightarrow> admin_route \<Rightarrow> admin_request \<Rightarrow> 'f admin_state \<Rightarrow> answer \<times> 'f admin_state" where
  "admin_handle e r rq st =
     (let (refused, db) = guarded (e_sha e) (e_cfg e) (e_now e) (route_opts r) rq (a_db st); st1 = st\<lparr>a_db := db\<rparr>
      in case refused of Some x \<Rightarrow> (send_plain x, st1) | None \<Rightarrow> route_handler e r rq st1)"

section \<open>What a request may change\<close>

text \<open>Everything the routes keep, memos aside; the failures of logins and the sessions are treated apart.\<close>

definition stored :: "'f admin_state \<Rightarrow> login \<times> quota_service \<times> catalog \<times> key_store \<times> ledger \<times> disk" where
  "stored st = (a_login st, a_quota st, a_catalog st, a_keys st, (a_ledger st)\<lparr>tokensTodayCache := []\<rparr>, fst (a_settings st))"

definition signed_in :: "'f admin_env \<Rightarrow> admin_request \<Rightarrow> 'f admin_state \<Rightarrow> bool" where
  "signed_in e rq st = fst (verify_session (e_sha e) (e_now e) (session_cookie rq) (a_db st))"

definition new_sessions :: "'f admin_state \<Rightarrow> 'f admin_state \<Rightarrow> session_row set" where
  "new_sessions st st1 = set (admin_sessions (a_db st1)) - set (admin_sessions (a_db st))"

lemma tokensUsedToday_cache: "(snd (tokensUsedToday midnight t i l))\<lparr>tokensTodayCache := c\<rparr> = l\<lparr>tokensTodayCache := c\<rparr>"
  by (simp add: tokensUsedToday_def Let_def split: option.splits prod.splits)

lemma get_keys_stored: "stored (snd (get_keys e st)) = stored st" "a_failures (snd (get_keys e st)) = a_failures st" "a_db (snd (get_keys e st)) = a_db st"
proof -
  let ?f = "\<lambda>(out, l) r. let (used, l1) = tokensUsedToday (e_midnight e) (e_now e) (key_id r) l in (out @ [(fromRow r, used)], l1)"
  have "(snd (foldl ?f (out, l) rs))\<lparr>tokensTodayCache := []\<rparr> = l\<lparr>tokensTodayCache := []\<rparr>" for rs out l
  proof (induction rs arbitrary: out l)
    case (Cons r rs)
    then show ?case by (simp add: case_prod_unfold tokensUsedToday_cache Let_def)
  qed simp
  then show "stored (snd (get_keys e st)) = stored st" "a_failures (snd (get_keys e st)) = a_failures st" "a_db (snd (get_keys e st)) = a_db st"
    by (simp_all add: get_keys_def stored_def case_prod_unfold Let_def)
qed

lemma get_settings_stored:
  "stored (snd (get_settings e st)) = stored st" "a_failures (snd (get_settings e st)) = a_failures st" "a_db (snd (get_settings e st)) = a_db st"
  by (simp_all add: get_settings_def stored_def case_prod_unfold Let_def)

lemma read_routes:
  assumes "route_method r = ''GET''"
  shows "stored (snd (route_handler e r rq st)) = stored st" "a_failures (snd (route_handler e r rq st)) = a_failures st"
    "a_db (snd (route_handler e r rq st)) = a_db st"
  using assms by (cases r; simp add: get_keys_stored get_settings_stored)+

lemma login_route: "stored (snd (post_login e rq st)) = stored st"
  by (simp add: post_login_def stored_def split: prod.splits)

lemma verify_session_sessions: "set (admin_sessions (snd (verify_session sha t tok db))) \<subseteq> set (admin_sessions db)"
  by (auto simp: verify_session_def delete_session_def split: option.splits if_splits)

lemma guarded_cases:
  assumes "guarded sha cfg t opts rq db = (res, db1)"
  shows "set (admin_sessions db1) \<subseteq> set (admin_sessions db)"
    "res = None \<Longrightarrow> ipAllowed (rq_ip rq) (adminAllowCidr cfg) \<and> (skipSession opts \<or> fst (verify_session sha t (session_cookie rq) db)) \<and>
      (g_mutating opts \<longrightarrow> rq_method rq \<in> set MUTATING \<longrightarrow> x_requested_with rq \<noteq> None)"
  using assms verify_session_sessions [of sha t "session_cookie rq" db]
  by (auto simp: guarded_def Let_def split: prod.splits if_splits)

lemma route_methods: "route_method r \<noteq> ''GET'' \<Longrightarrow> route_method r \<in> set MUTATING"
  by (cases r) (simp_all add: MUTATING_def)

text \<open>
  C35. Nothing changes without authority. Whatever the route and the request, if the pool, the sign-in
  flow, the quota errors, the keys, the ledger, the settings file or the catalog changes, a failure is
  recorded or a session appears, then the address is on the allowlist, the method is a mutating one and
  the custom header is present; and for everything but the bookkeeping of logins the request carries a
  live session.
\<close>

theorem admin_changes_authorised:
  assumes "admin_handle e r rq st = (ans, st1)" "rq_method rq = route_method r"
    and "stored st1 \<noteq> stored st \<or> a_failures st1 \<noteq> a_failures st \<or> new_sessions st st1 \<noteq> {}"
  shows "ipAllowed (rq_ip rq) (adminAllowCidr (e_cfg e)) \<and> route_method r \<noteq> ''GET'' \<and> x_requested_with rq \<noteq> None \<and>
    (stored st1 \<noteq> stored st \<longrightarrow> signed_in e rq st)"
proof -
  obtain res db where g: "guarded (e_sha e) (e_cfg e) (e_now e) (route_opts r) rq (a_db st) = (res, db)" by (cases "guarded (e_sha e) (e_cfg e) (e_now e) (route_opts r) rq (a_db st)") auto
  note gc = guarded_cases [OF g]
  have base: "stored (st\<lparr>a_db := db\<rparr>) = stored st" by (simp add: stored_def)
  show ?thesis
  proof (cases res)
    case (Some x)
    with g assms(1) have "st1 = st\<lparr>a_db := db\<rparr>" by (auto simp: admin_handle_def)
    with assms(3) gc(1) base show ?thesis by (auto simp: new_sessions_def)
  next
    case None
    with g assms(1) have st1: "st1 = snd (route_handler e r rq (st\<lparr>a_db := db\<rparr>))" by (simp add: admin_handle_def)
    note ok = gc(2) [OF None]
    have m: "route_method r \<noteq> ''GET''"
    proof
      assume "route_method r = ''GET''"
      from read_routes [OF this, of e rq "st\<lparr>a_db := db\<rparr>"] base st1 assms(3) gc(1) show False by (auto simp: new_sessions_def)
    qed
    moreover have "signed_in e rq st" if "stored st1 \<noteq> stored st"
    proof (cases "r = RLogin")
      case True
      with st1 base that login_route [of e rq "st\<lparr>a_db := db\<rparr>"] show ?thesis by simp
    next
      case False
      with ok show ?thesis by (simp add: signed_in_def route_opts_def)
    qed
    ultimately show ?thesis using ok route_methods [OF m] assms(2) by (simp add: route_opts_def)
  qed
qed

section \<open>What a reply may show\<close>

text \<open>Other hashes and other sealed secrets in the rows of the keys.\<close>

definition rescrambled :: "(key_row \<Rightarrow> string) \<Rightarrow> (key_row \<Rightarrow> string option) \<Rightarrow> key_row \<Rightarrow> key_row" where
  "rescrambled h z r = r\<lparr>key_hash := h r, secret_enc := z r\<rparr>"

definition other_secrets :: "(key_row \<Rightarrow> string) \<Rightarrow> (key_row \<Rightarrow> string option) \<Rightarrow> 'f admin_state \<Rightarrow> 'f admin_state" where
  "other_secrets h z st = st\<lparr>a_keys := (a_keys st)\<lparr>key_rows := map (rescrambled h z) (key_rows (a_keys st))\<rparr>\<rparr>"

lemma rescrambled_simps [simp]:
  "key_id (rescrambled h z r) = key_id r" "fromRow (rescrambled h z r) = fromRow r" "key_createdAt (rescrambled h z r) = key_createdAt r"
  by (simp_all add: rescrambled_def fromRow_def)

lemma sort_key_map_same: "(\<And>x. f (g x) = f x) \<Longrightarrow> sort_key f (map g xs) = map g (sort_key f xs)"
proof (induction xs)
  case (Cons x xs)
  have "insort_key f (g x) (map g ys) = map g (insort_key f x ys)" for ys by (induction ys) (simp_all add: Cons.prems)
  with Cons show ?case by simp
qed simp

lemma other_secrets_proj [simp]:
  "a_failures (other_secrets h z st) = a_failures st" "a_db (other_secrets h z st) = a_db st" "a_login (other_secrets h z st) = a_login st"
  "a_quota (other_secrets h z st) = a_quota st" "a_catalog (other_secrets h z st) = a_catalog st" "a_ledger (other_secrets h z st) = a_ledger st"
  "a_settings (other_secrets h z st) = a_settings st" "the_pool (other_secrets h z st) = the_pool st"
  "count_keys (a_keys (other_secrets h z st)) = count_keys (a_keys st)"
  by (simp_all add: other_secrets_def the_pool_def count_keys_def)

lemma other_secrets_update [simp]:
  "set_pool m (other_secrets h z st) = other_secrets h z (set_pool m st)"
  "with_quota f (other_secrets h z st) = other_secrets h z (with_quota f st)"
  "refresh_catalog e (other_secrets h z st) = other_secrets h z (refresh_catalog e st)"
  "(other_secrets h z st)\<lparr>a_login := lg\<rparr> = other_secrets h z (st\<lparr>a_login := lg\<rparr>)"
  "(other_secrets h z st)\<lparr>a_db := db\<rparr> = other_secrets h z (st\<lparr>a_db := db\<rparr>)"
  "(other_secrets h z st)\<lparr>a_settings := d\<rparr> = other_secrets h z (st\<lparr>a_settings := d\<rparr>)"
  by (simp_all add: other_secrets_def set_pool_def with_quota_def refresh_catalog_def the_pool_def Let_def)

lemma get_key_other: "get_key i (a_keys (other_secrets h z st)) = map_option (rescrambled h z) (get_key i (a_keys st))"
proof -
  have "find (\<lambda>r. key_id r = i) (map (rescrambled h z) xs) = map_option (rescrambled h z) (find (\<lambda>r. key_id r = i) xs)" for xs
    by (induction xs) simp_all
  then show ?thesis by (simp add: get_key_def other_secrets_def)
qed

lemma get_keys_other: "fst (get_keys e (other_secrets h z st)) = fst (get_keys e st)"
proof -
  have "list_keys (a_keys (other_secrets h z st)) = map (rescrambled h z) (list_keys (a_keys st))"
    by (simp add: list_keys_def other_secrets_def sort_key_map_same)
  then show ?thesis by (simp add: get_keys_def foldl_map case_prod_unfold Let_def)
qed

lemma update_key_reply:
  "map_option fromRow (fst (update_key t i p s)) = map_option (\<lambda>r. fromRow (patch_row t p r)) (get_key i s)"
proof (cases "get_key i s")
  case (Some r)
  have "find (\<lambda>q. key_id q = i) (map (\<lambda>q. if key_id q = i then y else q) xs) = (if \<exists>q \<in> set xs. key_id q = i then Some y else None)"
    if "key_id y = i" for y :: key_row and xs
    using that by (induction xs) auto
  moreover from Some have "key_id r = i" "r \<in> set (key_rows s)" by (auto simp: get_key_def find_Some_iff)
  moreover from this have "key_id (patch_row t p r) = i" by (simp add: patch_row_def)
  ultimately have "find (\<lambda>q. key_id q = i) (map (\<lambda>q. if key_id q = i then patch_row t p r else q) (key_rows s)) = Some (patch_row t p r)"
    by auto
  then show ?thesis using Some by (simp add: update_key_def Let_def map_row_def get_key_def)
qed (simp add: update_key_def)

lemma patch_key_other: "fst (patch_key e i rq (other_secrets h z st)) = fst (patch_key e i rq st)"
proof -
  have s: "fst (patch_key e i rq st) =
      (if limits_invalid (body_of rq) then bad_limits
       else case map_option fromRow (fst (update_key (e_now e) i (key_patch_of rq) (a_keys st))) of
              None \<Rightarrow> send_error 404 ''not found'' | Some v \<Rightarrow> send 200 (KeyBody v))" for st :: "'a admin_state"
    by (auto simp: patch_key_def Let_def split: prod.splits option.splits)
  have "fromRow (patch_row t p (rescrambled h z r)) = fromRow (patch_row t p r)" for t p r
    by (simp add: fromRow_def patch_row_def rescrambled_def split: option.splits bool.splits)
  then show ?thesis by (simp add: s update_key_reply get_key_other option.map_comp comp_def)
qed

lemma delete_key_other: "fst (delete_key i (other_secrets h z st)) = fst (delete_key i st)"
  by (simp add: delete_key_def remove_key_def other_secrets_def list_ex_iff Let_def)

lemma get_settings_other: "fst (get_settings e (other_secrets h z st)) = fst (get_settings e st)"
  by (simp add: get_settings_def case_prod_unfold Let_def)

lemmas route_defs = post_login_def post_logout_def get_status_def post_catalog_refresh_def post_auth_begin_def get_auth_status_def
  post_auth_complete_def post_auth_cancel_def get_auth_qr_def get_pool_def send_pool_def patch_account_def delete_account_def
  clear_cooldown_route_def clear_auth_route_def refresh_quota_route_def refresh_all_route_def set_mode_route_def reorder_route_def
  get_usage_def get_usage_summary_def

fun shows_secret :: "admin_route \<Rightarrow> bool" where
  "shows_secret RCreateKey = True"
| "shows_secret (RSecret i) = True"
| "shows_secret (RRotate i) = True"
| "shows_secret _ = False"

lemma put_settings_other: "fst (put_settings e rq (other_secrets h z st)) = fst (put_settings e rq st)"
  by (simp add: put_settings_def case_prod_unfold Let_def get_settings_other split: sum.splits)

lemma route_handler_other:
  assumes "\<not> shows_secret r"
  shows "fst (route_handler e r rq (other_secrets h z st)) = fst (route_handler e r rq st)"
  using assms
  by (cases r; simp add: route_defs case_prod_unfold Let_def get_keys_other patch_key_other delete_key_other
      get_settings_other put_settings_other split: option.splits)

text \<open>
  C37. Key material leaves by three routes only: the answer of every other route, whatever the request,
  is the same if all hashes and all sealed secrets in the key table are replaced by others.
\<close>

theorem key_material_not_shown:
  assumes "\<not> shows_secret r"
  shows "fst (admin_handle e r rq (other_secrets h z st)) = fst (admin_handle e r rq st)"
  by (simp add: admin_handle_def case_prod_unfold Let_def route_handler_other [OF assms] split: option.splits)

section \<open>Paging\<close>

text \<open>A fractional limit passes the clamp and reaches SQLite.\<close>

lemma fractional_limit_throws: "get_usage [(''limit'', QOne ''1.5'')] st = Thrown"
proof -
  have n: "js_number ''1.5'' = Some (3 / 2)" by code_simp
  have "\<lfloor>3 / 2 :: rat\<rfloor> = 1" by (simp add: floor_eq_iff)
  then have "\<not> is_integer (3 / 2)" by (simp add: is_integer_def)
  then show ?thesis by (simp add: get_usage_def paging_ok_def num_value_def n sqlite_integer_def or_else_def min_def)
qed

section \<open>A key from the console\<close>

lemma create_key_cases:
  assumes "create_key sha v iv sec rid t nm d rp s = Some (row, p, s1)"
  shows "key_rows s1 = key_rows s @ [row]" "key_hash row = sha p" "secret_enc row = key_sealed v iv p" "disabledAt row = None"
    "\<forall>r \<in> set (key_rows s). key_id r \<noteq> key_id row \<and> key_hash r \<noteq> sha p"
  using assms by (auto simp: create_key_def Let_def list_ex_iff split: prod.splits if_splits)

lemma find_snoc_new: "\<forall>r \<in> set xs. \<not> P r \<Longrightarrow> P y \<Longrightarrow> find P (xs @ [y]) = Some y"
  by (induction xs) auto

lemma find_snoc_old: "\<not> P y \<Longrightarrow> find P (xs @ [y]) = find P xs"
  by (induction xs) auto

lemma created_parts: "plaintext (created_of r p) = p" "keyWithoutPlaintext (created_of r p) = fromRow r"
  by (simp_all add: created_of_def keyWithoutPlaintext_def api_key.defs created_key.defs)

text \<open>
  C36. A key issued by the console is usable at once and revocable at once: when the create route answers
  with a plaintext, that plaintext is verified as the key of the answer, the secret route shows exactly
  it, no other plaintext is judged differently than before, and after the delete route the plaintext
  is unknown again. A master key is wired, and decryption under AES-GCM undoes encryption.
\<close>

theorem issued_key_works:
  assumes "post_key e rq st = (Reply x, st1)" "r_body x = KeyWithSecret k p"
    and "v_master (e_vault e) \<noteq> None" "gcm_ok (e_vault e)" "is_bytes (e_iv e)"
  shows "(\<exists>row. verify_key (e_sha e) p (a_keys st1) = VOk row \<and> fromRow row = k) \<and>
    get_secret e (k_id k) st1 = send 200 (SecretBody (Some p)) \<and>
    (\<forall>q. e_sha e q \<noteq> e_sha e p \<longrightarrow> verify_key (e_sha e) q (a_keys st1) = verify_key (e_sha e) q (a_keys st)) \<and>
    verify_key (e_sha e) p (a_keys (snd (delete_key (k_id k) st1))) = VUnknown"
proof -
  obtain row ks where c: "create_key (e_sha e) (e_vault e) (e_iv e) (e_random e) (e_random_id e) (e_now e) (body_str rq ''name'')
      (as_num (jget (body_of rq) ''dailyTokenLimit'')) (as_num (jget (body_of rq) ''rpmLimit'')) (a_keys st) = Some (row, p, ks)"
    and k: "k = fromRow row" and st1: "a_keys st1 = ks"
    using assms(1,2)
    by (auto simp: post_key_def bad_limits_def send_error_def send_def created_parts Let_def split: if_splits option.splits)
  note cc = create_key_cases [OF c]
  have id: "k_id k = key_id row" by (simp add: k fromRow_def)
  have "verify_key (e_sha e) p ks = VOk row"
    using cc find_snoc_new [of "key_rows (a_keys st)" "\<lambda>r. key_hash r = e_sha e p" row] by (simp add: verify_key_def)
  moreover have "get_secret e (k_id k) st1 = send 200 (SecretBody (Some p))"
  proof -
    have "get_key (key_id row) ks = Some row"
      using cc find_snoc_new [of "key_rows (a_keys st)" "\<lambda>r. key_id r = key_id row" row] by (simp add: get_key_def)
    then show ?thesis using assms(3) open_sealed [OF assms(4,5)] cc(3) by (auto simp: get_secret_def id st1 reveal_key_def key_sealed_def)
  qed
  moreover have "verify_key (e_sha e) q ks = verify_key (e_sha e) q (a_keys st)" if "e_sha e q \<noteq> e_sha e p" for q
    using that cc(1,2) find_snoc_old [of "\<lambda>r. key_hash r = e_sha e q" row "key_rows (a_keys st)"] by (simp add: verify_key_def)
  moreover have "verify_key (e_sha e) p (a_keys (snd (delete_key (k_id k) st1))) = VUnknown"
  proof -
    have "key_rows (a_keys (snd (delete_key (k_id k) st1))) = filter (\<lambda>r. key_id r \<noteq> key_id row) (key_rows (a_keys st))"
      using cc(1) by (simp add: delete_key_def remove_key_def id st1 Let_def)
    moreover have "find (\<lambda>r. key_hash r = e_sha e p) (filter Q (key_rows (a_keys st))) = None" for Q
      using cc(5) by (auto simp: find_None_iff)
    ultimately show ?thesis by (simp add: verify_key_def)
  qed
  ultimately show ?thesis by (auto simp: st1 k)
qed

section \<open>Instances\<close>

text \<open>A cipher that reverses the plaintext and tags it with the vector.\<close>

definition demo_vault :: key_vault where
  "demo_vault = \<lparr>v_master = Some ''0badc0de'', v_encrypt = (\<lambda>m iv p. (rev p, iv)),
     v_decrypt = (\<lambda>m iv ct tag. if tag = iv then Some (rev ct) else None)\<rparr>"

lemma demo_vault_ok: "gcm_ok demo_vault"
  by (simp add: gcm_ok_def demo_vault_def is_bytes_def)

definition demo_admin :: "window_store admin_env" where
  "demo_admin = \<lparr>e_now = 1000, e_done = 1200, e_world = \<lparr>now = 1000, write_ok = True, fs_ok = True\<rparr>, e_cfg = defaultConfig,
     e_sha = (\<lambda>s. s), e_check = demo_check, e_get = window_get, e_consume = window_hit, e_delete = window_delete, e_ttl = 60000,
     e_random = ''s3cret'', e_random_id = ''7f'', e_vault = demo_vault, e_iv = [1, 2, 3], e_midnight = (\<lambda>t. 0),
     e_jparse = (\<lambda>_. None), e_env = (\<lambda>_. None), e_file = ''runtime-overrides.json'', e_write = None, e_parse_url = (\<lambda>_. None),
     e_refresh = (\<lambda>_. demo_env), e_discover = Inl ''spawn agy ENOENT'', e_qr = (\<lambda>u. u)\<rparr>"

definition console_state :: "window_store admin_state" where
  "console_state = \<lparr>a_failures = [],
     a_db = demo_db\<lparr>admin_sessions := [\<lparr>token_hash = ''f00d'', created_at = 0, expires_at = 60000\<rparr>]\<rparr>,
     a_login = new_login (pool_of [''a'']) (\<lambda>_. None), a_quota = demo_service, a_catalog = new_catalog [], a_keys = new_keys [demo_key],
     a_ledger = new_ledger [] 0 None,
     a_settings = ((\<lambda>_. \<lparr>f_stat = None, f_exists = False, f_body = None\<rparr>), \<lparr>overridesCache = None, baseCache = None\<rparr>)\<rparr>"

definition console_call :: "string \<Rightarrow> string \<Rightarrow> (string \<times> json) list \<Rightarrow> admin_request" where
  "console_call meth token kvs = \<lparr>rq_method = meth, rq_ip = ''10.0.0.9'', rq_cookie = Some (ADMIN_COOKIE @ ''='' @ token),
     x_requested_with = Some ''fetch'', rq_body = Some (JObj kvs)\<rparr>"

lemma demo_cookie: "list_all plain_char token \<Longrightarrow> session_cookie (console_call meth token kvs) = token"
  using cookie_roundtrip [of token] by (simp add: session_cookie_def console_call_def or_else_def)

text \<open>With its session the console switches the pool to round-robin; with a foreign cookie nothing happens.\<close>

theorem admin_changes_authorised_witness:
  "mode (data (the_pool (snd (admin_handle demo_admin RMode (console_call ''POST'' ''f00d'' [(''mode'', JStr ''round-robin'')]) console_state)))) = RoundRobin \<and>
   signed_in demo_admin (console_call ''POST'' ''f00d'' [(''mode'', JStr ''round-robin'')]) console_state \<and>
   stored (snd (admin_handle demo_admin RMode (console_call ''POST'' ''beef'' [(''mode'', JStr ''round-robin'')]) console_state)) = stored console_state"
proof -
  let ?rq = "console_call ''POST'' ''f00d'' [(''mode'', JStr ''round-robin'')]"
  let ?bad = "console_call ''POST'' ''beef'' [(''mode'', JStr ''round-robin'')]"
  have c: "session_cookie ?rq = ''f00d''" "session_cookie ?bad = ''beef''"
    by (rule demo_cookie, simp add: plain_char_def is_space_def Let_def)+
  have al: "ipAllowed x (adminAllowCidr defaultConfig)" for x by (simp add: ipAllowed_def defaultConfig_def trim_def)
  have "guarded (e_sha demo_admin) (e_cfg demo_admin) (e_now demo_admin) (route_opts RMode) ?rq (a_db console_state) = (None, a_db console_state)"
    using c al by (simp add: guarded_def route_opts_def verify_session_def demo_admin_def console_state_def console_call_def)
  then have run: "admin_handle demo_admin RMode ?rq console_state = set_mode_route demo_admin ?rq console_state"
    by (simp add: admin_handle_def)
  have md: "mode (data (the_pool (snd (set_mode_route demo_admin ?rq console_state)))) = RoundRobin"
    by (simp add: set_mode_route_def console_call_def body_of_def or_else_def set_pool_def the_pool_def setMode_def persist_def notify_def demo_admin_def Let_def)
  moreover have "mode (data (the_pool console_state)) = Sequential"
    by (simp add: the_pool_def console_state_def new_login_def pool_of_def new_manager_def load_def defaultPoolData_def Let_def)
  ultimately have changed: "stored (snd (admin_handle demo_admin RMode ?rq console_state)) \<noteq> stored console_state"
    by (auto simp: stored_def the_pool_def run)
  have "rq_method ?rq = route_method RMode" "rq_method ?bad = route_method RMode" by (simp_all add: console_call_def)
  note au = admin_changes_authorised [OF prod.collapse [symmetric] this(1)] admin_changes_authorised [OF prod.collapse [symmetric] this(2)]
  have "\<not> signed_in demo_admin ?bad console_state"
    using c by (simp add: signed_in_def verify_session_def demo_admin_def console_state_def)
  with au(1) [of demo_admin console_state] au(2) [of demo_admin console_state] changed md run show ?thesis by auto
qed

theorem key_material_not_shown_witness:
  "fst (admin_handle demo_admin RKeys (console_call ''GET'' ''f00d'' []) (other_secrets (\<lambda>_. ''x'') (\<lambda>_. Some (sealSecret demo_vault ''0badc0de'' [1] ''y'')) console_state)) = fst (admin_handle demo_admin RKeys (console_call ''GET'' ''f00d'' []) console_state) \<and>
   get_secret demo_admin ''key_1'' (other_secrets (\<lambda>_. ''x'') (\<lambda>_. Some (sealSecret demo_vault ''0badc0de'' [1] ''y'')) console_state) \<noteq> get_secret demo_admin ''key_1'' console_state"
  using key_material_not_shown [of RKeys demo_admin "console_call ''GET'' ''f00d'' []" "\<lambda>_. ''x''" "\<lambda>_. Some (sealSecret demo_vault ''0badc0de'' [1] ''y'')" console_state]
    open_sealed [OF demo_vault_ok, of "[1]" "''0badc0de''" "''y''"]
  by (simp add: get_secret_def get_key_def other_secrets_def rescrambled_def console_state_def new_keys_def demo_key_def demo_admin_def
      reveal_key_def send_def demo_vault_def is_bytes_def)

theorem issued_key_works_witness:
  "\<exists>x st1 k. post_key demo_admin (console_call ''POST'' ''f00d'' [(''name'', JStr ''ci'')]) console_state = (Reply x, st1) \<and>
     r_body x = KeyWithSecret k ''sk-agy-s3cret'' \<and> get_secret demo_admin (k_id k) st1 = send 200 (SecretBody (Some ''sk-agy-s3cret''))"
proof -
  let ?rq = "console_call ''POST'' ''f00d'' [(''name'', JStr ''ci'')]"
  obtain a st1 where run: "post_key demo_admin ?rq console_state = (a, st1)" by (cases "post_key demo_admin ?rq console_state")
  then have "\<exists>x k. a = Reply x \<and> r_body x = KeyWithSecret k ''sk-agy-s3cret''"
    by (auto simp: post_key_def console_call_def body_of_def limits_invalid_def body_str_def create_key_def generateApiKey_def KEY_MARK_def
        demo_admin_def console_state_def new_keys_def demo_key_def created_parts send_def Let_def split: prod.splits)
  then obtain x k where x: "a = Reply x" "r_body x = KeyWithSecret k ''sk-agy-s3cret''" by blast
  from issued_key_works [OF run [unfolded x(1)] x(2)] x run demo_vault_ok show ?thesis
    by (auto simp: demo_admin_def is_bytes_def) (auto simp: demo_vault_def)
qed

end
