(* ===== verification/Lifecycle.thy ===== *)
theory Lifecycle
  imports Dispatch Events Ledger Sessions Keys LoginFlow Runner
begin

text \<open>
  The life of the process: the start-up decisions and the wiring of \<open>src/index.ts\<close>, and the graceful
  shutdown of \<open>src/server/shutdown.ts\<close>. The probe of the binary, the outcome of \<open>app.close()\<close> and what the
  file system and the database do with writes are arguments; signals, timers and settled promises are
  the operations of a history.
\<close>

section \<open>Start-up\<close>

datatype startup_kind = Ready | DisabledBoot | BinaryMissing | BinaryProbeFailed | BinaryTooOld

record startup_report =
  rp_ok :: bool
  rp_kind :: startup_kind
  dormantReason :: "string option"
  rp_bin :: "string option"
  rp_version :: "string option"
  rp_dataDir :: string

text \<open>\<open>compareVersions\<close> of \<open>index.ts\<close>, not the one of the runner: three parts, a part that is no number counts as zero.\<close>

definition version_part :: "string list \<Rightarrow> nat \<Rightarrow> rat" where
  "version_part ps i = (if i < length ps then or_else (js_number (ps ! i)) 0 else 0)"

fun version_loop :: "rat list \<Rightarrow> rat" where
  "version_loop [] = 0"
| "version_loop (d # ds) = (if d \<noteq> 0 then d else version_loop ds)"

definition boot_compareVersions :: "string \<Rightarrow> string \<Rightarrow> rat" where
  "boot_compareVersions a b =
     (let pa = split_on (\<lambda>c. c = CHR ''.'') a; pb = split_on (\<lambda>c. c = CHR ''.'') b
      in version_loop (map (\<lambda>i. version_part pa i - version_part pb i) [0, 1, 2]))"

definition too_old :: "string \<Rightarrow> bool" where
  "too_old v = (v \<noteq> [] \<and> boot_compareVersions v MIN_AGY_VERSION < 0)"

text \<open>\<open>probe b\<close> runs \<open>agy --version\<close>: the error, or the version.\<close>

definition startup :: "string \<Rightarrow> gateway_config \<Rightarrow> string option \<Rightarrow> (string \<Rightarrow> string + string) \<Rightarrow> startup_report" where
  "startup dir cfg bin probe =
     (let r = \<lparr>rp_ok = False, rp_kind = Ready, dormantReason = None, rp_bin = None, rp_version = None, rp_dataDir = dir\<rparr> in
      if \<not> cfg_enabled cfg then r\<lparr>rp_kind := DisabledBoot, dormantReason := Some ''disabled by config (enabled=false)''\<rparr>
      else if \<not> truthy_str bin then
        r\<lparr>rp_kind := BinaryMissing, dormantReason := Some (''agy binary not found '' @ em_dash @
            '' install the official CLI (https://antigravity.google/cli) or set AGY_PROXY_BIN'')\<rparr>
      else
        (let b = or_else bin []; r1 = r\<lparr>rp_bin := Some b\<rparr>
         in case probe b of
              Inl e \<Rightarrow> r1\<lparr>rp_kind := BinaryProbeFailed, dormantReason := Some (''agy --version failed: '' @ e)\<rparr>
            | Inr v \<Rightarrow>
                (let r2 = r1\<lparr>rp_version := Some v\<rparr> in
                 if too_old v
                 then r2\<lparr>rp_kind := BinaryTooOld, dormantReason := Some (''agy '' @ v @ '' is too old (minimum '' @ MIN_AGY_VERSION @
                          '') '' @ em_dash @ '' upgrade the official CLI'')\<rparr>
                 else r2\<lparr>rp_ok := True\<rparr>)))"

text \<open>
  The rest of \<open>main\<close> as far as it decides: \<open>None\<close> is the exit with status 1, otherwise the gateway listens
  and the result says whether the pollers are armed. A disabled gateway looks for its binary here.
\<close>

definition disabled_healthy :: "string option \<Rightarrow> (string \<Rightarrow> string + string) \<Rightarrow> bool" where
  "disabled_healthy bin probe =
     (case bin of
        None \<Rightarrow> False
      | Some b \<Rightarrow> (case probe b of Inl e \<Rightarrow> False | Inr v \<Rightarrow> \<not> too_old v))"

definition boot :: "startup_report \<Rightarrow> string option \<Rightarrow> (string \<Rightarrow> string + string) \<Rightarrow> bool option" where
  "boot r bin probe =
     (if rp_kind r \<noteq> Ready \<and> rp_kind r \<noteq> DisabledBoot then None
      else if rp_kind r = DisabledBoot then Some (disabled_healthy bin probe)
      else if bin = None then None
      else Some True)"

text \<open>The pollers spawn only a binary that answered a probe with a version that is recent enough.\<close>

lemma pollers_need_healthy_binary:
  assumes "boot (startup dir cfg b1 probe1) b2 probe2 = Some True"
  shows "(\<exists>b v. b1 = Some b \<and> probe1 b = Inr v \<and> \<not> too_old v) \<or> (\<exists>b v. b2 = Some b \<and> probe2 b = Inr v \<and> \<not> too_old v)"
  using assms
  by (auto simp: boot_def startup_def disabled_healthy_def truthy_str_def Let_def split: if_splits option.splits sum.splits)

text \<open>A disabled gateway always comes up; an enabled one never without a binary that passed the probe.\<close>

lemma boot_listens_iff:
  "boot (startup dir cfg b1 probe1) b2 probe2 \<noteq> None \<longleftrightarrow>
     \<not> cfg_enabled cfg \<or> b2 \<noteq> None \<and> (\<exists>b v. b1 = Some b \<and> b \<noteq> [] \<and> probe1 b = Inr v \<and> \<not> too_old v)"
  by (auto simp: boot_def startup_def truthy_str_def Let_def split: if_splits option.splits sum.splits)

section \<open>The settle hook\<close>

fun code_text :: "err_code option \<Rightarrow> string" where
  "code_text None = ''OK''"
| "code_text (Some AUTH) = ''AUTH''"
| "code_text (Some AGY_NOT_INSTALLED) = ''AGY_NOT_INSTALLED''"
| "code_text (Some AGY_VERSION_UNSUPPORTED) = ''AGY_VERSION_UNSUPPORTED''"
| "code_text (Some AGY_ERROR) = ''AGY_ERROR''"
| "code_text (Some TIMEOUT) = ''TIMEOUT''"
| "code_text (Some PROCESS_EXIT) = ''PROCESS_EXIT''"
| "code_text (Some INVALID_OUTPUT) = ''INVALID_OUTPUT''"
| "code_text (Some UNKNOWN_MODEL) = ''UNKNOWN_MODEL''"
| "code_text (Some UNSUPPORTED_REASONING_EFFORT) = ''UNSUPPORTED_REASONING_EFFORT''"
| "code_text (Some BUSY) = ''BUSY''"
| "code_text (Some POOL_EXHAUSTED) = ''POOL_EXHAUSTED''"
| "code_text (Some VALIDATION_REQUIRED) = ''VALIDATION_REQUIRED''"
| "code_text (Some MODEL_NOT_ALLOWED) = ''MODEL_NOT_ALLOWED''"
| "code_text (Some ABORTED) = ''ABORTED''"
| "code_text (Some (OTHER_CODE s)) = s"

definition meta_reqId :: "string \<Rightarrow> json \<Rightarrow> string" where
  "meta_reqId uuid meta = or_else (as_str (jget meta ''reqId'')) uuid"

definition meta_keyId :: "json \<Rightarrow> string option" where
  "meta_keyId meta = as_str (jget meta ''keyId'')"

definition meta_protocol :: "json \<Rightarrow> string" where
  "meta_protocol meta = (if jget meta ''protocol'' = Some (JStr ''anthropic'') then ''anthropic'' else ''openai'')"

definition usage_of_run :: "string \<Rightarrow> json \<Rightarrow> run_info \<Rightarrow> usage_record" where
  "usage_of_run uuid meta i =
     \<lparr>u_requestId = meta_reqId uuid meta, u_keyId = meta_keyId meta, u_accountId = ri_accountId i, u_model = ri_providerModel i,
      u_family = show_family (ri_family i), u_protocol = meta_protocol meta,
      u_promptTokens = (case ri_usage i of Some u \<Rightarrow> inputTokens u | None \<Rightarrow> 0),
      u_completionTokens = (case ri_usage i of Some u \<Rightarrow> outputTokens u | None \<Rightarrow> 0),
      u_reasoningTokens = Option.bind (ri_usage i) reasoningTokens, u_cacheReadTokens = Option.bind (ri_usage i) cacheReadTokens,
      u_status = code_text (ri_code i), u_durationMs = Some (of_int (ri_durationMs i)),
      u_errorText = (if truthy_str (ri_failureMessage i) then ri_failureMessage i else None)\<rparr>"

definition event_of_run :: "string \<Rightarrow> json \<Rightarrow> run_info \<Rightarrow> run_event" where
  "event_of_run uuid meta i =
     \<lparr>re_ok = ri_ok i, re_status = code_text (ri_code i), re_durationMs = of_int (ri_durationMs i), re_model = ri_providerModel i,
      re_family = Some (show_family (ri_family i)), re_conversationId = ri_conversationId i, re_accountId = ri_accountId i,
      re_keyId = meta_keyId meta, re_protocol = meta_protocol meta, re_reqId = meta_reqId uuid meta,
      re_usage = map_option (\<lambda>u. u\<lparr>cacheWriteTokens := None\<rparr>) (ri_usage i)\<rparr>"

text \<open>\<open>uuid\<close> replaces a missing request id; \<open>err\<close> is the error of a flush this record triggers.\<close>

definition on_run ::
  "(ms \<Rightarrow> ms) \<Rightarrow> ms \<Rightarrow> string \<Rightarrow> string option \<Rightarrow> json \<Rightarrow> ledger \<times> bus \<Rightarrow> run_info \<Rightarrow> ledger \<times> bus" where
  "on_run midnight t uuid err meta = (\<lambda>(l, b) i.
     if \<not> ri_final i then (l, b)
     else (record_usage midnight t (usage_of_run uuid meta i) uuid err l, snd (snd (publishRun t (event_of_run uuid meta i) b))))"

text \<open>The event a run publishes says what its ledger row says.\<close>

lemma event_mirrors_row:
  "re_status (event_of_run uuid meta i) = u_status (usage_of_run uuid meta i) \<and>
   Some (re_durationMs (event_of_run uuid meta i)) = u_durationMs (usage_of_run uuid meta i) \<and>
   re_model (event_of_run uuid meta i) = u_model (usage_of_run uuid meta i) \<and>
   re_accountId (event_of_run uuid meta i) = u_accountId (usage_of_run uuid meta i) \<and>
   re_keyId (event_of_run uuid meta i) = u_keyId (usage_of_run uuid meta i) \<and>
   re_protocol (event_of_run uuid meta i) = u_protocol (usage_of_run uuid meta i) \<and>
   re_reqId (event_of_run uuid meta i) = u_requestId (usage_of_run uuid meta i) \<and>
   (case re_usage (event_of_run uuid meta i) of
      None \<Rightarrow> u_promptTokens (usage_of_run uuid meta i) = 0 \<and> u_completionTokens (usage_of_run uuid meta i) = 0
    | Some u \<Rightarrow> inputTokens u = u_promptTokens (usage_of_run uuid meta i) \<and> outputTokens u = u_completionTokens (usage_of_run uuid meta i))"
  by (simp add: event_of_run_def usage_of_run_def split: option.splits)

subsection \<open>One run, one row\<close>

text \<open>The request id under which a run is booked.\<close>

definition row_id :: "string \<Rightarrow> json \<Rightarrow> string" where
  "row_id uuid meta = (if meta_reqId uuid meta \<noteq> [] then meta_reqId uuid meta else uuid)"

definition rows_of :: "string \<Rightarrow> ledger \<Rightarrow> usage_row list" where
  "rows_of i l = filter (\<lambda>r. u_requestId r = i) (led_table l)"

lemma insert_row_other: "u_requestId r \<noteq> i \<Longrightarrow> rows_of i (insert_row t r l) = rows_of i l"
  by (simp add: insert_row_def rows_of_def)

lemma insertBatch_other: "i \<notin> u_requestId ` set rows \<Longrightarrow> rows_of i (insertBatch t rows l) = rows_of i l"
  by (induction rows arbitrary: l) (auto simp: insertBatch_def insert_row_other)

lemma insertBatch_new:
  assumes "i \<notin> u_requestId ` set rows" "rows_of i l = []" "u_requestId r = i"
  shows "\<exists>n. rows_of i (insertBatch t (rows @ [r]) l) = [r\<lparr>usage_row.createdAt := t, usage_row.seq := n\<rparr>]"
proof -
  let ?l = "insertBatch t rows l"
  have "rows_of i ?l = []" using insertBatch_other [OF assms(1)] assms(2) by simp
  then have "i \<notin> u_requestId ` set (led_table ?l)" by (auto simp: rows_of_def filter_empty_conv)
  moreover have "insertBatch t (rows @ [r]) l = insert_row t r ?l" by (simp add: insertBatch_def)
  ultimately show ?thesis using \<open>rows_of i ?l = []\<close> assms(3) by (auto simp: insert_row_def rows_of_def)
qed

lemma record_usage_lands:
  assumes "\<not> led_closed l" "row_id uuid meta \<notin> u_requestId ` set (led_buffer l @ led_table l)"
  shows "\<exists>ts n. rows_of (row_id uuid meta) (flush_ledger t2 None (record_usage midnight t (usage_of_run uuid meta i) uuid None l)) =
    [(buffer_row (usage_of_run uuid meta i) uuid)\<lparr>usage_row.createdAt := ts, usage_row.seq := n\<rparr>]"
proof -
  let ?row = "buffer_row (usage_of_run uuid meta i) uuid"
  let ?l1 = "advance_cache midnight t (usage_of_run uuid meta i) (l\<lparr>led_buffer := led_buffer l @ [?row]\<rparr>)"
  have id: "u_requestId ?row = row_id uuid meta"
    by (simp add: buffer_row_def row_id_def usage_of_run_def usage_record.defs)
  have l1: "led_buffer ?l1 = led_buffer l @ [?row]" "led_table ?l1 = led_table l" "led_closed ?l1 = led_closed l"
    by (simp_all add: advance_cache_frame)
  have "rows_of (row_id uuid meta) (?l1\<lparr>led_buffer := []\<rparr>) = []" using assms(2) l1(2) by (force simp: rows_of_def filter_empty_conv)
  note new = insertBatch_new [OF _ this id]
  have lands: "\<exists>n. rows_of (row_id uuid meta) (flush_ledger ts None ?l1) = [?row\<lparr>usage_row.createdAt := ts, usage_row.seq := n\<rparr>]" for ts
    using new [of "led_buffer l" ts] assms l1 by (simp add: flush_ledger_def image_Un)
  have twice: "flush_ledger t2 None (flush_ledger t None ?l1) = flush_ledger t None ?l1"
    using l1(3) assms(1) by (simp add: flush_ledger_def insertBatch_frame)
  show ?thesis
  proof (cases "length (led_buffer ?l1) \<ge> 500")
    case True
    then have "record_usage midnight t (usage_of_run uuid meta i) uuid None l = flush_ledger t None ?l1"
      using assms(1) by (simp add: record_usage_def Let_def)
    with twice lands [of t] show ?thesis by auto
  next
    case False
    then have "record_usage midnight t (usage_of_run uuid meta i) uuid None l = ?l1"
      using assms(1) by (simp add: record_usage_def Let_def)
    with lands [of t2] show ?thesis by auto
  qed
qed

lemma on_run_quiet: "\<forall>x \<in> set xs. \<not> ri_final x \<Longrightarrow> foldl (on_run midnight t uuid err meta) s xs = s"
  by (induction xs arbitrary: s) (auto simp: on_run_def)

text \<open>
  C9. A run is never billed twice, and is billed for what the client saw. Take a run whose request id is new, a ledger
  that is open, and a database that takes the writes of this run. When the dispatched run is over, however many
  attempts it took and whatever other requests did meanwhile, its reports have left exactly one row under its request
  id in the ledger, with the status the recording was settled with and the key of the caller, and exactly one event on
  the bus. There is one exception: when the retry found a pool in which no account was eligible, the only report is not
  final, and then nothing at all is booked and no event is published.
\<close>

theorem run_billed_once:
  assumes "busy_ok s" "\<forall>acc. pr_account p = Some acc \<longrightarrow> 0 < calls_on s (acc_id acc)" "pool_ids_ok s" "\<not> rec_settled r"
    and "polite_worlds ws" "run_dispatch dparse cfg w call p ws (start_dispatch p r runs s) = d"
    and "\<not> led_closed l" "row_id uuid meta \<notin> u_requestId ` set (led_buffer l @ led_table l)"
    and "foldl (on_run midnight t uuid None meta) (l, b) (ds_fired d) = (l1, b1)"
  shows "(\<exists>row. rows_of (row_id uuid meta) (flush_ledger t2 None l1) = [row] \<and>
      u_status row = code_text (map_option rf_code (rec_failure (ds_rec d))) \<and> u_keyId row = meta_keyId meta \<and>
      bus_seq b1 = bus_seq b + 1) \<or>
    (l1 = l \<and> b1 = b \<and> length (ds_fired d) = 1 \<and>
      none_eligible dparse (aw_time (ws 0)) (pr_family p) (retry_state p (ws 0) (start_dispatch p r runs s)))"
proof -
  let ?lost = "none_eligible dparse (aw_time (ws 0)) (pr_family p) (retry_state p (ws 0) (start_dispatch p r runs s))"
  obtain a d1 where d: "same_run (start_dispatch p r runs s) d1" "booked (ds_fired d1) a ?lost"
    "d = (settle_run dparse w call p a d1)\<lparr>ds_eng := untrackBusy (own (settle_run dparse w call p a d1)) (ds_eng (settle_run dparse w call p a d1))\<rparr>"
    by (rule run_dispatch_parts [OF assms(1-6)])
  have "\<not> rec_settled (ds_rec d1) \<and> \<not> ds_released d1" using d(1) assms(4) by (simp add: same_run_def start_dispatch_def)
  with settle_run_settles have f: "rec_failure (ds_rec d) = at_failure a" "ds_fired d = ds_fired d1" by (simp_all add: d(3) settle_run_fields)
  have "ds_fired d \<noteq> []" using d(2) f(2) by (auto simp: booked_def)
  then obtain pre x where x: "ds_fired d = pre @ [x]" by (metis append_butlast_last_id)
  have q: "\<forall>y \<in> set pre. \<not> ri_final y" "ri_code x = map_option rf_code (rec_failure (ds_rec d))"
    "\<not> ri_final x \<longrightarrow> length (ds_fired d) = 1 \<and> ?lost"
    using d(2) x f by (auto simp: booked_def)
  show ?thesis
  proof (cases "ri_final x")
    case True
    from assms(9) x on_run_quiet [OF q(1)] True
    have lb: "l1 = record_usage midnight t (usage_of_run uuid meta x) uuid None l" "b1 = snd (snd (publishRun t (event_of_run uuid meta x) b))"
      by (simp_all add: on_run_def)
    from record_usage_lands [OF assms(7,8), of t2 midnight t x] lb q(2) show ?thesis
      by (auto simp: buffer_row_def usage_of_run_def usage_record.defs publishRun_def bus_append_def Let_def)
  next
    case False
    with assms(9) x on_run_quiet [OF q(1), of midnight t uuid None meta "(l, b)"] q(3) show ?thesis by (simp add: on_run_def)
  qed
qed

definition demo_run :: dispatch where
  "demo_run = run_dispatch (\<lambda>_. None) defaultConfig \<lparr>now = 0, write_ok = True, fs_ok = True\<rparr> demo_call demo_prepared
     (\<lambda>n. quiet_world [] (Some 1) []) (start_dispatch demo_prepared (new_recording ''r'') [] (demo_state [''a'']))"

theorem run_billed_once_witness:
  "\<exists>l1 b1 row. foldl (on_run (\<lambda>_. 0) 5 ''u'' None (JObj [(''reqId'', JStr ''req1''), (''keyId'', JStr ''k1'')]))
       (new_ledger [] 0 None, new_bus None None) (ds_fired demo_run) = (l1, b1) \<and>
     rows_of ''req1'' (flush_ledger 9 None l1) = [row] \<and> u_keyId row = Some ''k1'' \<and> bus_seq b1 = 1"
proof -
  let ?meta = "JObj [(''reqId'', JStr ''req1''), (''keyId'', JStr ''k1'')]"
  let ?start = "start_dispatch demo_prepared (new_recording ''r'') [] (demo_state [''a''])"
  have pool: "pool_ids_ok (demo_state [''a''])" by (simp add: pool_ids_ok_def demo_state_def pool_eval)
  have "retry_state demo_prepared (quiet_world [] (Some 1) []) ?start = demo_state [''a'']"
    by (simp add: retry_state_def quiet_world_def clear_prompt_def demo_prepared_def start_dispatch_def)
  then have el: "\<not> none_eligible (\<lambda>_. None) t (pr_family demo_prepared) (retry_state demo_prepared (quiet_world [] (Some 1) []) ?start)" for t
    by (simp add: none_eligible_def demo_prepared_def) (simp add: pool_accounts_def demo_state_def pool_eval)
  have id: "row_id ''u'' ?meta = ''req1''" "meta_keyId ?meta = Some ''k1''"
    by (simp_all add: row_id_def meta_reqId_def meta_keyId_def or_else_def)
  obtain l1 b1 where f: "foldl (on_run (\<lambda>_. 0) 5 ''u'' None ?meta) (new_ledger [] 0 None, new_bus None None) (ds_fired demo_run) = (l1, b1)"
    by (cases "foldl (on_run (\<lambda>_. 0) 5 ''u'' None ?meta) (new_ledger [] 0 None, new_bus None None) (ds_fired demo_run)")
  have "\<forall>acc. pr_account demo_prepared = Some acc \<longrightarrow> 0 < calls_on (demo_state [''a'']) (acc_id acc)"
    by (simp add: demo_prepared_def)
  from run_billed_once [OF demo_state_ok this pool _ quiet_polite demo_run_def [symmetric] _ _ f, of 9] el id f
  show ?thesis by (auto simp: new_recording_def new_ledger_def new_bus_def)
qed

section \<open>Shutdown\<close>
























subsection \<open>Nothing is lost\<close>




definition table_ids :: "ledger \<Rightarrow> string set" where
  "table_ids l = u_requestId ` set (led_table l)"











lemma table_ids_update [simp]:
  "table_ids (l\<lparr>led_buffer := b\<rparr>) = table_ids l" "table_ids (l\<lparr>led_closed := c\<rparr>) = table_ids l" "table_ids (l\<lparr>tokensTodayCache := d\<rparr>) = table_ids l"
  by (simp_all add: table_ids_def)































end
