(* ===== verification/Sse.thy ===== *)
theory Sse
  imports Events Json
begin

text \<open>
  The server-sent-events writer, class \<open>SseWriter\<close> of \<open>src/server/sse.ts\<close>, and the reading of what it writes.
  \<open>JSON.stringify\<close> is the parameter \<open>stringify\<close>; whether the socket accepts a write without back-pressure
  is an argument of the write, and the events of the socket and the timers are operations of a history.
\<close>

section \<open>Frames\<close>

definition lf :: char where
  "lf = CHR 0x0A"

definition dataFrame :: "(json \<Rightarrow> string) \<Rightarrow> json \<Rightarrow> string" where
  "dataFrame stringify payload =
     (let body = (if payload = JStr ''[DONE]'' then ''[DONE]'' else stringify payload) in ''data: '' @ body @ [lf, lf])"

definition eventFrame :: "(json \<Rightarrow> string) \<Rightarrow> string \<Rightarrow> json \<Rightarrow> nat option \<Rightarrow> string" where
  "eventFrame stringify name payload i =
     (let idLine = (case i of Some n \<Rightarrow> ''id: '' @ show_nat n @ [lf] | None \<Rightarrow> [])
      in ''event: '' @ name @ [lf] @ idLine @ ''data: '' @ stringify payload @ [lf, lf])"

definition stallWindowMs :: "ms \<Rightarrow> ms" where
  "stallWindowMs heartbeat = (if heartbeat > 0 then max (3 * heartbeat) 180000 else 180000)"

section \<open>The writer\<close>

text \<open>
  The socket keeps the chunks of its writes. \<open>waiting_writes\<close> are the writes parked by back-pressure, each
  with its stall timer (\<open>False\<close> when it has fired).
\<close>

record sse_writer =
  wire :: "string list"
  head_sent :: "(nat \<times> (string \<times> string) list) option"
  writableEnded :: bool
  destroyed :: bool
  heartbeatMs :: ms
  stallMs :: ms
  lastSendAt :: ms
  heartbeatTimer :: bool
  sse_closed :: bool
  sse_done :: bool
  waiting_writes :: "(nat \<times> bool) list"
  next_write :: nat

definition new_writer :: "ms \<Rightarrow> ms option \<Rightarrow> sse_writer" where
  "new_writer heartbeat stall =
     \<lparr>wire = [], head_sent = None, writableEnded = False, destroyed = False, heartbeatMs = heartbeat,
      stallMs = or_else stall (stallWindowMs heartbeat), lastSendAt = 0, heartbeatTimer = False, sse_closed = False, sse_done = False,
      waiting_writes = [], next_write = 0\<rparr>"

definition open_stream :: "ms \<Rightarrow> nat \<Rightarrow> (string \<times> string) list \<Rightarrow> sse_writer \<Rightarrow> sse_writer" where
  "open_stream t st headers w =
     (if sse_closed w then w
      else w\<lparr>head_sent := Some (st, [(''content-type'', ''text/event-stream; charset=utf-8''), (''cache-control'', ''no-cache, no-transform''),
             (''connection'', ''keep-alive''), (''x-accel-buffering'', ''no'')] @ headers), lastSendAt := t, heartbeatTimer := (if heartbeatMs w > 0 then True else heartbeatTimer w)\<rparr>)"

definition writeRaw :: "bool \<Rightarrow> string \<Rightarrow> sse_writer \<Rightarrow> sse_writer" where
  "writeRaw accepted frame w =
     (if sse_closed w \<or> destroyed w \<or> writableEnded w then w
      else let w1 = w\<lparr>wire := wire w @ [frame]\<rparr>
        in if accepted then w1
           else w1\<lparr>waiting_writes := waiting_writes w1 @ [(next_write w1, True)], next_write := next_write w1 + 1\<rparr>)"

definition stopHeartbeat :: "sse_writer \<Rightarrow> sse_writer" where
  "stopHeartbeat w = w\<lparr>heartbeatTimer := False\<rparr>"

definition tick :: "string \<Rightarrow> ms \<Rightarrow> bool \<Rightarrow> sse_writer \<Rightarrow> sse_writer" where
  "tick keepalive t accepted w =
     (if sse_closed w then w
      else if t - lastSendAt w < heartbeatMs w then w
      else (writeRaw accepted keepalive w)\<lparr>lastSendAt := t\<rparr>)"

definition sse_data :: "(json \<Rightarrow> string) \<Rightarrow> ms \<Rightarrow> bool \<Rightarrow> json \<Rightarrow> sse_writer \<Rightarrow> sse_writer" where
  "sse_data stringify t accepted payload w = writeRaw accepted (dataFrame stringify payload) (w\<lparr>lastSendAt := t\<rparr>)"

definition sse_event :: "(json \<Rightarrow> string) \<Rightarrow> ms \<Rightarrow> bool \<Rightarrow> string \<times> json \<times> nat option \<Rightarrow> sse_writer \<Rightarrow> sse_writer" where
  "sse_event stringify t accepted item w =
     (case item of (name, payload, i) \<Rightarrow> writeRaw accepted (eventFrame stringify name payload i) (w\<lparr>lastSendAt := t\<rparr>))"

definition dataAll :: "(json \<Rightarrow> string) \<Rightarrow> ms \<Rightarrow> bool \<Rightarrow> json list \<Rightarrow> sse_writer \<Rightarrow> sse_writer" where
  "dataAll stringify t accepted payloads w =
     (if payloads = [] then w else writeRaw accepted (concat (map (dataFrame stringify) payloads)) (w\<lparr>lastSendAt := t\<rparr>))"

definition eventAll :: "(json \<Rightarrow> string) \<Rightarrow> ms \<Rightarrow> bool \<Rightarrow> (string \<times> json \<times> nat option) list \<Rightarrow> sse_writer \<Rightarrow> sse_writer" where
  "eventAll stringify t accepted items w =
     (if items = [] then w
      else writeRaw accepted (concat (map (\<lambda>(name, payload, i). eventFrame stringify name payload i) items)) (w\<lparr>lastSendAt := t\<rparr>))"

definition close_stream :: "sse_writer \<Rightarrow> sse_writer" where
  "close_stream w =
     (if sse_closed w then w
      else let w1 = stopHeartbeat (w\<lparr>sse_closed := True\<rparr>) in if writableEnded w1 then w1 else w1\<lparr>writableEnded := True\<rparr>)"

text \<open>A parked write settles on \<open>drain\<close>, \<open>close\<close> and \<open>error\<close>; its stall timer destroys the socket.\<close>

definition settle_writes :: "sse_writer \<Rightarrow> sse_writer" where
  "settle_writes w = w\<lparr>waiting_writes := []\<rparr>"

definition stall_fires :: "nat \<Rightarrow> sse_writer \<Rightarrow> sse_writer" where
  "stall_fires i w =
     (if (i, True) \<in> set (waiting_writes w)
      then w\<lparr>waiting_writes := map (\<lambda>(j, armed). (j, armed \<and> j \<noteq> i)) (waiting_writes w), destroyed := True\<rparr>
      else w)"

definition socket_closed :: "sse_writer \<Rightarrow> sse_writer" where
  "socket_closed w = (stopHeartbeat (settle_writes w))\<lparr>destroyed := True, sse_done := True\<rparr>"

datatype sse_op =
    SOpen ms nat "(string \<times> string) list"
  | SData ms bool json
  | SEvent ms bool "string \<times> json \<times> nat option"
  | SDataAll ms bool "json list"
  | SEventAll ms bool "(string \<times> json \<times> nat option) list"
  | STick ms bool
  | SClose
  | SDrain
  | SError
  | SStall nat
  | SSocketClosed

fun sse_step :: "(json \<Rightarrow> string) \<Rightarrow> string \<Rightarrow> sse_writer \<Rightarrow> sse_op \<Rightarrow> sse_writer" where
  "sse_step js ka w (SOpen t st hs) = open_stream t st hs w"
| "sse_step js ka w (SData t acc p) = sse_data js t acc p w"
| "sse_step js ka w (SEvent t acc it) = sse_event js t acc it w"
| "sse_step js ka w (SDataAll t acc ps) = dataAll js t acc ps w"
| "sse_step js ka w (SEventAll t acc its) = eventAll js t acc its w"
| "sse_step js ka w (STick t acc) = (if heartbeatTimer w then tick ka t acc w else w)"
| "sse_step js ka w SClose = close_stream w"
| "sse_step js ka w SDrain = settle_writes w"
| "sse_step js ka w SError = settle_writes w"
| "sse_step js ka w (SStall i) = stall_fires i w"
| "sse_step js ka w SSocketClosed = socket_closed w"

section \<open>Bytes on the wire\<close>

definition silent_wire :: "sse_writer \<Rightarrow> bool" where
  "silent_wire w = (sse_closed w \<or> destroyed w \<or> writableEnded w)"

lemma writeRaw_wire: "wire (writeRaw acc frame w) = (if silent_wire w then wire w else wire w @ [frame])"
  by (simp add: writeRaw_def silent_wire_def Let_def)

lemma writeRaw_flags:
  "sse_closed (writeRaw acc frame w) = sse_closed w" "destroyed (writeRaw acc frame w) = destroyed w"
  "writableEnded (writeRaw acc frame w) = writableEnded w" "heartbeatTimer (writeRaw acc frame w) = heartbeatTimer w"
  "silent_wire (writeRaw acc frame w) = silent_wire w"
  by (simp_all add: writeRaw_def silent_wire_def Let_def)

lemma silent_update [simp]: "silent_wire (w\<lparr>lastSendAt := t\<rparr>) = silent_wire w"
  by (simp add: silent_wire_def)

text \<open>A batch is one write with the bytes of the single writes.\<close>

lemma batch_same_bytes:
  "concat (wire (eventAll js t acc items w)) = concat (wire (foldl (\<lambda>w it. sse_event js t acc it w) w items))"
  "concat (wire (dataAll js t acc payloads w)) = concat (wire (foldl (\<lambda>w p. sse_data js t acc p w) w payloads))"
proof -
  have ev: "concat (wire (foldl (\<lambda>w it. sse_event js t acc it w) w items)) =
      concat (wire w) @ (if silent_wire w then [] else concat (map (\<lambda>(name, p, i). eventFrame js name p i) items))" for items w
  proof (induction items arbitrary: w)
    case (Cons it items)
    then show ?case by (cases it) (simp add: sse_event_def writeRaw_wire writeRaw_flags)
  qed simp
  have da: "concat (wire (foldl (\<lambda>w p. sse_data js t acc p w) w payloads)) =
      concat (wire w) @ (if silent_wire w then [] else concat (map (dataFrame js) payloads))" for payloads w
    by (induction payloads arbitrary: w) (simp_all add: sse_data_def writeRaw_wire writeRaw_flags)
  show "concat (wire (eventAll js t acc items w)) = concat (wire (foldl (\<lambda>w it. sse_event js t acc it w) w items))"
    "concat (wire (dataAll js t acc payloads w)) = concat (wire (foldl (\<lambda>w p. sse_data js t acc p w) w payloads))"
    unfolding ev da by (simp_all add: eventAll_def dataAll_def writeRaw_wire)
qed

section \<open>No write stays parked\<close>

definition sse_inv :: "sse_writer \<Rightarrow> bool" where
  "sse_inv w = ((\<forall>x \<in> set (waiting_writes w). snd x \<or> destroyed w) \<and> (sse_closed w \<longrightarrow> writableEnded w \<and> \<not> heartbeatTimer w) \<and>
     (sse_done w \<longrightarrow> destroyed w \<and> waiting_writes w = []))"

lemma writeRaw_inv: "sse_inv w \<Longrightarrow> sse_inv (writeRaw acc frame w)"
  by (auto simp: sse_inv_def writeRaw_def Let_def)

lemma sse_step_inv: "sse_inv w \<Longrightarrow> sse_inv (sse_step js ka w op)"
proof (cases op)
  case (SEvent t acc it)
  moreover assume "sse_inv w"
  moreover have "sse_inv (w\<lparr>lastSendAt := t\<rparr>) = sse_inv w" for t by (simp add: sse_inv_def)
  ultimately show ?thesis by (cases it) (simp add: sse_event_def writeRaw_inv)
next
  case (STick t acc)
  moreover assume i: "sse_inv w"
  moreover have "sse_inv (x\<lparr>lastSendAt := t\<rparr>) = sse_inv x" for t x by (simp add: sse_inv_def)
  ultimately show ?thesis by (simp add: tick_def writeRaw_inv)
next
  case (SStall i)
  then show "sse_inv w \<Longrightarrow> ?thesis" by (auto simp: sse_inv_def stall_fires_def)
qed (auto simp: sse_inv_def open_stream_def sse_data_def dataAll_def eventAll_def writeRaw_def close_stream_def stopHeartbeat_def
    settle_writes_def socket_closed_def Let_def)

interpretation sse_run: stepwise "sse_step js ka" "\<lambda>_ _. True" sse_inv for js ka
  by unfold_locales (rule sse_step_inv)

lemma new_writer_inv: "sse_inv (new_writer h s)"
  by (simp add: sse_inv_def new_writer_def)

text \<open>
  In every history a parked write is on its way out: the socket is gone, or the write's own stall timer is
  armed and destroys the socket; the close event of the socket then releases every write, none is parked
  after it, and the producer's \<open>done\<close> has resolved.
\<close>

lemma no_write_parked_forever:
  assumes "w = foldl (sse_step js ka) (new_writer h s) ops" "x \<in> set (waiting_writes w)"
  shows "(destroyed w \<or> destroyed (stall_fires (fst x) w)) \<and>
    waiting_writes (foldl (sse_step js ka) (socket_closed w) ops2) = [] \<and> sse_done (foldl (sse_step js ka) (socket_closed w) ops2)"
proof -
  have i: "sse_inv w" unfolding assms(1) by (rule sse_run.run_inv [OF new_writer_inv ok_run_True])
  have d: "sse_done (foldl (sse_step js ka) v os)" if "sse_done v" for v os
    using that
  proof (induction os arbitrary: v)
    case (Cons op os)
    have "sse_done (sse_step js ka v op)"
      using Cons.prems by (cases op) (auto simp: open_stream_def sse_data_def sse_event_def dataAll_def eventAll_def tick_def writeRaw_def
          close_stream_def stopHeartbeat_def settle_writes_def stall_fires_def socket_closed_def Let_def split: prod.splits)
    with Cons.IH show ?case by simp
  qed simp
  have c: "sse_inv (socket_closed w)" using sse_step_inv [OF i, of js ka SSocketClosed] by simp
  have "sse_done (socket_closed w)" by (simp add: socket_closed_def)
  note d = d [OF this, of ops2]
  moreover have "waiting_writes (foldl (sse_step js ka) (socket_closed w) ops2) = []"
    using sse_run.run_inv [OF c ok_run_True, of js ka ops2] d by (simp add: sse_inv_def)
  moreover have "destroyed w \<or> destroyed (stall_fires (fst x) w)"
    using i assms(2) by (cases x) (auto simp: sse_inv_def stall_fires_def)
  ultimately show ?thesis by simp
qed

section \<open>What the client reads\<close>

text \<open>
  An event-stream reader after the HTML standard, for text without carriage returns: fields by line, an
  event per blank line, the last id kept from event to event.
\<close>

record es_state =
  es_name :: string
  es_buf :: "string list"
  es_last :: string
  es_out :: "(string \<times> string \<times> string) list"

definition es_field :: "string \<Rightarrow> string \<times> string" where
  "es_field l = (let (f, v) = split_at (\<lambda>c. c = CHR '':'') l
     in (f, case v of Some (c # cs) \<Rightarrow> if c = CHR '' '' then cs else c # cs | Some [] \<Rightarrow> [] | None \<Rightarrow> []))"

definition es_line :: "es_state \<Rightarrow> string \<Rightarrow> es_state" where
  "es_line s l =
     (if l = [] then
        (if es_buf s = [] then s\<lparr>es_name := []\<rparr>
         else s\<lparr>es_out := es_out s @ [(if es_name s = [] then ''message'' else es_name s, join [lf] (es_buf s), es_last s)],
                es_name := [], es_buf := []\<rparr>)
      else (case es_field l of (f, v) \<Rightarrow>
              if f = ''event'' then s\<lparr>es_name := v\<rparr>
              else if f = ''data'' then s\<lparr>es_buf := es_buf s @ [v]\<rparr>
              else if f = ''id'' then s\<lparr>es_last := v\<rparr>
              else s))"

definition es_feed :: "es_state \<Rightarrow> string \<Rightarrow> es_state" where
  "es_feed s text = foldl es_line s (butlast (split_on (\<lambda>c. c = lf) text))"

definition es_read :: "string \<Rightarrow> (string \<times> string \<times> string) list" where
  "es_read text = es_out (es_feed \<lparr>es_name = [], es_buf = [], es_last = [], es_out = []\<rparr> text)"

definition one_line :: "string \<Rightarrow> bool" where
  "one_line s = (lf \<notin> set s)"

lemma es_feed_Nil [simp]: "es_feed s [] = s"
  by (simp add: es_feed_def)

lemma es_feed_line: "one_line l \<Longrightarrow> es_feed s (l @ lf # rest) = es_feed (es_line s l) rest"
proof -
  assume "one_line l"
  then have "split_on (\<lambda>c. c = lf) (l @ lf # rest) = l # split_on (\<lambda>c. c = lf) rest"
    by (induction l) (auto simp: one_line_def)
  then show ?thesis by (simp add: es_feed_def)
qed

lemma es_line_event: "es_line s (''event: '' @ v) = s\<lparr>es_name := v\<rparr>"
  by (simp add: es_line_def es_field_def split_at_def)

lemma es_line_data: "es_line s (''data: '' @ v) = s\<lparr>es_buf := es_buf s @ [v]\<rparr>"
  by (simp add: es_line_def es_field_def split_at_def)

lemma es_line_id: "es_line s (''id: '' @ v) = s\<lparr>es_last := v\<rparr>"
  by (simp add: es_line_def es_field_def split_at_def)

lemma es_line_comment: "es_line s (CHR '':'' # v) = s"
  by (simp add: es_line_def es_field_def split_at_def)

lemma show_nat_one_line: "one_line (show_nat n)"
  using show_nat_digits [of lf n] by (auto simp: one_line_def lf_def is_digit_def)

lemma one_line_append [simp]: "one_line (a @ b) = (one_line a \<and> one_line b)"
  by (simp add: one_line_def)

lemma one_line_fields: "one_line ''event: ''" "one_line ''data: ''" "one_line ''id: ''" "one_line ''[DONE]''" "one_line []"
  by (simp_all add: one_line_def lf_def)

text \<open>What an operation tells the client: name, text and id.\<close>

type_synonym sse_item = "string \<times> string \<times> nat option"

definition data_text :: "(json \<Rightarrow> string) \<Rightarrow> json \<Rightarrow> string" where
  "data_text js p = (if p = JStr ''[DONE]'' then ''[DONE]'' else js p)"

fun op_items :: "(json \<Rightarrow> string) \<Rightarrow> sse_op \<Rightarrow> sse_item list" where
  "op_items js (SData t acc p) = [(''message'', data_text js p, None)]"
| "op_items js (SEvent t acc (n, p, i)) = [(n, js p, i)]"
| "op_items js (SDataAll t acc ps) = map (\<lambda>p. (''message'', data_text js p, None)) ps"
| "op_items js (SEventAll t acc its) = map (\<lambda>(n, p, i). (n, js p, i)) its"
| "op_items js _ = []"

fun stamped :: "string \<Rightarrow> sse_item list \<Rightarrow> (string \<times> string \<times> string) list" where
  "stamped l0 [] = []"
| "stamped l0 ((n, d, i) # xs) = (let l = (case i of Some k \<Rightarrow> show_nat k | None \<Rightarrow> l0) in (n, d, l) # stamped l xs)"

fun told :: "es_state \<Rightarrow> sse_item list \<Rightarrow> es_state" where
  "told s [] = s"
| "told s ((n, d, i) # xs) =
     (let l = (case i of Some k \<Rightarrow> show_nat k | None \<Rightarrow> es_last s) in told (s\<lparr>es_last := l, es_out := es_out s @ [(n, d, l)]\<rparr>) xs)"

definition clean :: "es_state \<Rightarrow> bool" where
  "clean s = (es_name s = [] \<and> es_buf s = [])"

lemma told_append: "told s (xs @ ys) = told (told s xs) ys"
  by (induction s xs rule: told.induct) (simp_all add: Let_def)

lemma told_out: "es_out (told s xs) = es_out s @ stamped (es_last s) xs"
  by (induction s xs rule: told.induct) (simp_all add: Let_def split: option.splits)

lemma told_clean [simp]: "clean (told s xs) = clean s"
  by (induction s xs rule: told.induct) (simp_all add: Let_def clean_def)

text \<open>One frame, read.\<close>

definition reads_as :: "string \<Rightarrow> sse_item list \<Rightarrow> bool" where
  "reads_as txt items = (\<forall>s rest. clean s \<longrightarrow> es_feed s (txt @ rest) = es_feed (told s items) rest)"

lemma reads_as_append: "reads_as a xs \<Longrightarrow> reads_as b ys \<Longrightarrow> reads_as (a @ b) (xs @ ys)"
  by (simp add: reads_as_def told_append)

lemma reads_as_concat: "(\<And>x. x \<in> set xs \<Longrightarrow> reads_as (f x) [g x]) \<Longrightarrow> reads_as (concat (map f xs)) (map g xs)"
proof (induction xs)
  case (Cons x xs)
  then have "reads_as (f x) [g x]" "reads_as (concat (map f xs)) (map g xs)" by simp_all
  from reads_as_append [OF this] show ?case by simp
qed (simp add: reads_as_def)

lemma es_feed_blank: "es_feed s (lf # rest) = es_feed (es_line s []) rest"
  using es_feed_line [of "[]"] by (simp add: one_line_def)

lemma dataFrame_reads:
  assumes "one_line (data_text js p)"
  shows "reads_as (dataFrame js p) [(''message'', data_text js p, None)]"
proof -
  have "es_feed s (dataFrame js p @ rest) = es_feed (told s [(''message'', data_text js p, None)]) rest" if "clean s" for s rest
  proof -
    have "dataFrame js p @ rest = (''data: '' @ data_text js p) @ lf # lf # rest" by (simp add: dataFrame_def data_text_def)
    moreover have "one_line (''data: '' @ data_text js p)" using assms one_line_fields by (simp only: one_line_append)
    ultimately show ?thesis using that
      by (simp only: es_feed_line es_line_data es_feed_blank) (cases s, simp add: es_line_def clean_def)
  qed
  then show ?thesis by (simp add: reads_as_def)
qed

lemma eventFrame_reads:
  assumes "one_line (js p)" "one_line n" "n \<noteq> []"
  shows "reads_as (eventFrame js n p i) [(n, js p, i)]"
proof -
  have "es_feed s (eventFrame js n p i @ rest) = es_feed (told s [(n, js p, i)]) rest" if "clean s" for s rest
  proof -
    have e: "one_line (''event: '' @ n)" "one_line (''data: '' @ js p)" using assms(1,2) one_line_fields by (simp_all only: one_line_append)
    show ?thesis
    proof (cases i)
      case None
      have "eventFrame js n p i @ rest = (''event: '' @ n) @ lf # (''data: '' @ js p) @ lf # lf # rest" by (simp add: eventFrame_def None)
      then show ?thesis using that assms(3) e
        by (simp only: es_feed_line es_line_event es_line_data es_feed_blank) (cases s, simp add: es_line_def clean_def None)
    next
      case (Some k)
      have "eventFrame js n p i @ rest = (''event: '' @ n) @ lf # (''id: '' @ show_nat k) @ lf # (''data: '' @ js p) @ lf # lf # rest"
        by (simp add: eventFrame_def Some)
      moreover have "one_line (''id: '' @ show_nat k)" using one_line_fields show_nat_one_line by (simp only: one_line_append)
      ultimately show ?thesis using that assms(3) e
        by (simp only: es_feed_line es_line_event es_line_id es_line_data es_feed_blank) (cases s, simp add: es_line_def clean_def Some Let_def)
    qed
  qed
  then show ?thesis by (simp add: reads_as_def)
qed

lemma comment_reads:
  assumes "one_line c"
  shows "reads_as (CHR '':'' # c @ [lf, lf]) []"
proof -
  have "es_feed s ((CHR '':'' # c) @ lf # lf # rest) = es_feed s rest" if "clean s" for s rest
  proof -
    have "one_line (CHR '':'' # c)" using assms by (simp add: one_line_def lf_def)
    then show ?thesis using that
      by (simp only: es_feed_line es_line_comment es_feed_blank) (cases s, simp add: es_line_def clean_def)
  qed
  then show ?thesis by (simp add: reads_as_def)
qed

text \<open>Operations of a stream that is not ended, with names and a text of values that stay on their line.\<close>

fun op_live :: "(json \<Rightarrow> string) \<Rightarrow> sse_op \<Rightarrow> bool" where
  "op_live js (SEvent t acc (n, p, i)) = (one_line n \<and> n \<noteq> [])"
| "op_live js (SEventAll t acc its) = list_all (\<lambda>(n, p, i). one_line n \<and> n \<noteq> []) its"
| "op_live js SClose = False"
| "op_live js (SStall i) = False"
| "op_live js SSocketClosed = False"
| "op_live js _ = True"

lemma data_text_one_line: "(\<And>p. one_line (js p)) \<Longrightarrow> one_line (data_text js p)"
  using one_line_fields(4) by (simp only: data_text_def split: if_split) simp

text \<open>
  The keepalives the callers hand to the writer: a comment on the chat stream and the events of the console, a \<open>ping\<close>
  event on the messages stream, which its reader receives like any other event.
\<close>

definition comment_keepalive :: string where
  "comment_keepalive = '': ping'' @ [lf, lf]"

definition ping_text :: string where
  "ping_text = [CHR ''{'', CHR 0x22] @ ''type'' @ [CHR 0x22, CHR '':'', CHR 0x22] @ ''ping'' @ [CHR 0x22, CHR ''}'']"

definition ping_keepalive :: string where
  "ping_keepalive = ''event: ping'' @ [lf] @ ''data: '' @ ping_text @ [lf, lf]"

lemma comment_keepalive_reads: "reads_as comment_keepalive []"
  using comment_reads [of "'' ping''"] by (simp add: comment_keepalive_def one_line_def lf_def)

lemma ping_keepalive_reads: "reads_as ping_keepalive [(''ping'', ping_text, None)]"
  using eventFrame_reads [of "\<lambda>_. ping_text" JNull "''ping''" None]
  by (simp add: eventFrame_def ping_keepalive_def ping_text_def one_line_def lf_def)

text \<open>\<open>woven beats xs evs\<close>: apart from keepalives, \<open>evs\<close> are the items \<open>xs\<close>, in order.\<close>

definition woven :: "sse_item list \<Rightarrow> sse_item list \<Rightarrow> sse_item list \<Rightarrow> bool" where
  "woven beats xs evs = (\<forall>Q. (\<forall>b \<in> set beats. \<not> Q b) \<longrightarrow> filter Q evs = filter Q xs)"

lemma woven_refl: "woven beats xs xs"
  by (simp add: woven_def)

lemma woven_append: "woven beats xs evs \<Longrightarrow> woven beats ys fvs \<Longrightarrow> woven beats (xs @ ys) (evs @ fvs)"
  by (simp add: woven_def)

lemma woven_beats: "woven beats [] beats"
  by (auto simp: woven_def filter_empty_conv)

lemma op_reads:
  assumes js: "\<And>p. one_line (js p)" and ka: "reads_as ka beats" and op: "op_live js op" and w: "\<not> silent_wire w"
  shows "\<not> silent_wire (sse_step js ka w op) \<and>
    (\<exists>txt evs. concat (wire (sse_step js ka w op)) = concat (wire w) @ txt \<and> reads_as txt evs \<and> woven beats (op_items js op) evs)"
proof -
  have no_bytes: "reads_as [] []" by (simp add: reads_as_def)
  have sent: "\<not> silent_wire v \<Longrightarrow> concat (wire v) = concat (wire w) @ bytes \<Longrightarrow> reads_as bytes (op_items js op) \<Longrightarrow>
      \<not> silent_wire v \<and> (\<exists>txt evs. concat (wire v) = concat (wire w) @ txt \<and> reads_as txt evs \<and> woven beats (op_items js op) evs)" for v bytes
    using woven_refl by blast
  show ?thesis
  proof (cases op)
    case (SData t acc p)
    with w dataFrame_reads [of js p] data_text_one_line [of js p, OF js] show ?thesis
      by (intro sent [of _ "dataFrame js p"]) (simp_all add: sse_data_def writeRaw_wire writeRaw_flags)
  next
    case (SEvent t acc it)
    obtain n p i where it: "it = (n, p, i)" by (cases it)
    with SEvent op w eventFrame_reads [of js p n i, OF js] show ?thesis
      by (intro sent [of _ "eventFrame js n p i"]) (simp_all add: sse_event_def writeRaw_wire writeRaw_flags)
  next
    case (SDataAll t acc ps)
    have "reads_as (concat (map (dataFrame js) ps)) (map (\<lambda>p. (''message'', data_text js p, None)) ps)"
      by (rule reads_as_concat) (rule dataFrame_reads, rule data_text_one_line, rule js)
    with SDataAll w no_bytes show ?thesis
      by (intro sent [of _ "concat (map (dataFrame js) ps)"]) (auto simp: dataAll_def writeRaw_wire writeRaw_flags)
  next
    case (SEventAll t acc its)
    have "reads_as (concat (map (\<lambda>(n, p, i). eventFrame js n p i) its)) (map (\<lambda>(n, p, i). (n, js p, i)) its)"
    proof (rule reads_as_concat)
      fix x assume "x \<in> set its"
      moreover obtain n p i where "x = (n, p, i)" by (cases x)
      ultimately show "reads_as (case x of (n, p, i) \<Rightarrow> eventFrame js n p i) [case x of (n, p, i) \<Rightarrow> (n, js p, i)]"
        using op SEventAll eventFrame_reads [of js p n i, OF js] by (auto simp: list_all_iff)
    qed
    with SEventAll w no_bytes show ?thesis
      by (intro sent [of _ "concat (map (\<lambda>(n, p, i). eventFrame js n p i) its)"]) (auto simp: eventAll_def writeRaw_wire writeRaw_flags)
  next
    case (STick t acc)
    show ?thesis
    proof (cases "heartbeatTimer w \<and> \<not> sse_closed w \<and> \<not> t - lastSendAt w < heartbeatMs w")
      case True
      have "\<not> silent_wire (sse_step js ka w op)" "concat (wire (sse_step js ka w op)) = concat (wire w) @ ka"
        using STick True w by (simp_all add: tick_def writeRaw_wire writeRaw_flags)
      with ka woven_beats STick show ?thesis by auto
    next
      case False
      with STick w no_bytes show ?thesis by (intro sent [of _ "[]"]) (auto simp: tick_def)
    qed
  next
    case (SOpen t st hs)
    with w no_bytes show ?thesis by (intro sent [of _ "[]"]) (auto simp: open_stream_def silent_wire_def)
  qed (use op w no_bytes woven_refl [of beats "[]"] in \<open>auto simp: settle_writes_def silent_wire_def\<close>)
qed

lemma ops_read:
  assumes js: "\<And>p. one_line (js p)" and ka: "reads_as ka beats"
  shows "list_all (op_live js) ops \<Longrightarrow> \<not> silent_wire w \<Longrightarrow>
    \<exists>txt evs. concat (wire (foldl (sse_step js ka) w ops)) = concat (wire w) @ txt \<and> reads_as txt evs \<and>
      woven beats (concat (map (op_items js) ops)) evs"
proof (induction ops arbitrary: w)
  case (Cons op ops)
  from Cons.prems have o: "op_live js op" "list_all (op_live js) ops" by simp_all
  note st = op_reads [OF js ka o(1) Cons.prems(2)]
  then obtain t1 e1 where t1: "concat (wire (sse_step js ka w op)) = concat (wire w) @ t1" "reads_as t1 e1"
    "woven beats (op_items js op) e1" by blast
  from st Cons.IH [OF o(2)] obtain t2 e2 where t2: "concat (wire (foldl (sse_step js ka) (sse_step js ka w op) ops)) =
    concat (wire (sse_step js ka w op)) @ t2" "reads_as t2 e2" "woven beats (concat (map (op_items js) ops)) e2" by blast
  from reads_as_append [OF t1(2) t2(2)] woven_append [OF t1(3) t2(3)] t1(1) t2(1) show ?case
    by (intro exI [of _ "t1 @ t2"] exI [of _ "e1 @ e2"]) simp
qed (auto simp: reads_as_def intro!: exI [of _ "[]"] woven_refl)

text \<open>The whole stream, read from its start.\<close>

lemma stream_read:
  assumes "\<forall>p. one_line (js p)" "reads_as ka beats" "list_all (op_live js) ops"
  shows "\<exists>evs. es_read (concat (wire (foldl (sse_step js ka) (new_writer h st) ops))) = stamped [] evs \<and>
    woven beats (concat (map (op_items js) ops)) evs"
proof -
  let ?s = "\<lparr>es_name = [], es_buf = [], es_last = [], es_out = []\<rparr>"
  have "\<not> silent_wire (new_writer h st)" by (simp add: silent_wire_def new_writer_def)
  from ops_read [OF _ assms(2,3) this] assms(1) obtain bytes evs where t: "reads_as bytes evs"
    "concat (wire (foldl (sse_step js ka) (new_writer h st) ops)) = bytes" "woven beats (concat (map (op_items js) ops)) evs"
    by (auto simp: new_writer_def)
  have "clean ?s" by (simp add: clean_def)
  with t(1) have "es_feed ?s (bytes @ []) = es_feed (told ?s evs) []" unfolding reads_as_def by blast
  then have "es_read bytes = stamped [] evs" by (simp add: es_read_def told_out)
  with t(2,3) show ?thesis by blast
qed

text \<open>Pings carry no id, so the other events are stamped as without them.\<close>

definition no_ping :: "string \<times> string \<times> string \<Rightarrow> bool" where
  "no_ping e = (fst e \<noteq> ''ping'')"

lemma stamped_no_ping:
  "filter no_ping (stamped l xs) = filter no_ping (stamped l (filter (\<lambda>(n, d, i). \<not> (n = ''ping'' \<and> i = None)) xs))"
  by (induction l xs rule: stamped.induct) (auto simp: no_ping_def Let_def)

text \<open>
  C39. What is sent is what is read. Take any sequence of single and batched frames, heartbeats, back-pressure and
  drains on an open stream, with the text of every JSON value on one line. From the bytes of a writer whose keepalive is
  a comment (the chat stream, the events of the console) an event-stream reader recovers exactly the events sent, in
  order, each with its name, its text and the last id before it, and nothing for a heartbeat. The keepalive of the
  messages stream is itself a \<open>ping\<close> event: its reader recovers the same events, with further pings between them and
  nothing else changed. Every id a reader would send back as \<open>Last-Event-ID\<close> is read by the admin route as the number
  that was sent.
\<close>

theorem events_read_back:
  assumes "\<forall>p. one_line (js p)" "list_all (op_live js) ops"
  shows "es_read (concat (wire (foldl (sse_step js comment_keepalive) (new_writer h st) ops))) =
      stamped [] (concat (map (op_items js) ops)) \<and>
    filter no_ping (es_read (concat (wire (foldl (sse_step js ping_keepalive) (new_writer h st) ops)))) =
      filter no_ping (stamped [] (concat (map (op_items js) ops))) \<and>
    (\<forall>n. last_event_id (Some (show_nat n)) = Some n)"
proof -
  let ?xs = "concat (map (op_items js) ops)" and ?Q = "\<lambda>(n, d, i). \<not> (n = ''ping'' \<and> i = None)"
  obtain e1 where e1: "es_read (concat (wire (foldl (sse_step js comment_keepalive) (new_writer h st) ops))) = stamped [] e1"
    "woven [] ?xs e1" using stream_read [OF assms(1) comment_keepalive_reads assms(2)] by blast
  obtain e2 where e2: "es_read (concat (wire (foldl (sse_step js ping_keepalive) (new_writer h st) ops))) = stamped [] e2"
    "woven [(''ping'', ping_text, None)] ?xs e2" using stream_read [OF assms(1) ping_keepalive_reads assms(2)] by blast
  from e1(2) [unfolded woven_def, rule_format, of "\<lambda>_. True"] have "e1 = ?xs" by simp
  moreover from e2(2) [unfolded woven_def, rule_format, of ?Q] have "filter ?Q e2 = filter ?Q ?xs" by simp
  then have "filter no_ping (stamped [] e2) = filter no_ping (stamped [] ?xs)"
    using stamped_no_ping [of "[]" e2] stamped_no_ping [of "[]" ?xs] by simp
  moreover have "last_event_id (Some (show_nat n)) = Some n" for n
    using show_nat_digits by (auto simp: last_event_id_def read_show_nat list_all_iff)
  ultimately show ?thesis using e1(1) e2(1) by simp
qed

definition demo_json_text :: "json \<Rightarrow> string" where
  "demo_json_text p = (case p of JNum n \<Rightarrow> ''7'' | _ \<Rightarrow> ''{}'')"

definition demo_sends :: "sse_op list" where
  "demo_sends = [SOpen 0 200 [], SEventAll 10 False [(''snapshot'', JObj [], Some 4), (''run'', JNum 7, Some 5)], SDrain, STick 5000 True,
     SData 5001 True (JStr ''[DONE]'')]"

theorem events_read_back_witness:
  "es_read (concat (wire (foldl (sse_step demo_json_text comment_keepalive) (new_writer 1000 None) demo_sends))) =
     [(''snapshot'', ''{}'', ''4''), (''run'', ''7'', ''5''), (''message'', ''[DONE]'', ''5'')] \<and>
   filter no_ping (es_read (concat (wire (foldl (sse_step demo_json_text ping_keepalive) (new_writer 1000 None) demo_sends)))) =
     [(''snapshot'', ''{}'', ''4''), (''run'', ''7'', ''5''), (''message'', ''[DONE]'', ''5'')] \<and> last_event_id (Some ''5'') = Some 5"
proof -
  have js: "\<forall>p. one_line (demo_json_text p)" by (auto simp: demo_json_text_def one_line_def lf_def split: json.split)
  have five: "show_nat 5 = ''5''" "show_nat 4 = ''4''" by code_simp+
  have live: "list_all (op_live demo_json_text) demo_sends" by (simp add: demo_sends_def one_line_def lf_def)
  have st: "stamped [] (concat (map (op_items demo_json_text) demo_sends)) =
      [(''snapshot'', ''{}'', ''4''), (''run'', ''7'', ''5''), (''message'', ''[DONE]'', ''5'')]"
    using five by (simp add: demo_sends_def data_text_def demo_json_text_def Let_def)
  moreover from st have "filter no_ping (stamped [] (concat (map (op_items demo_json_text) demo_sends))) =
      [(''snapshot'', ''{}'', ''4''), (''run'', ''7'', ''5''), (''message'', ''[DONE]'', ''5'')]"
    by (simp add: no_ping_def)
  ultimately show ?thesis using events_read_back [OF js live, of 1000 None] five by metis
qed

end
