(* ===== verification/Media.thy ===== *)
theory Media
  imports Prompt Pool
begin

text \<open>
  Images on disk, \<open>src/host/media.ts\<close> and \<open>src/host/media-sweeper.ts\<close>, with the engine's use of them: the
  images of the live turn are written under a name of the request and referred to by path, and a sweep
  removes what has passed its time to live. The reader of image bytes and what the file system does with a
  write or an unlink are arguments.
\<close>

section \<open>Data\<close>

record image_ref =
  attachmentId :: string
  ir_mediaType :: string
  ir_bytes :: nat
  ir_width :: nat
  ir_height :: nat
  ir_name :: "string option"

record staged_image =
  si_path :: string
  si_name :: string
  si_width :: nat
  si_height :: nat
  si_bytes :: nat

record stage_result =
  promptSuffix :: string
  staged_images :: "staged_image list"
  skipped :: nat

record media_file =
  mf_data :: "nat list"
  mf_mtime :: ms
  mf_isFile :: bool

type_synonym media_files = "string \<rightharpoonup> media_file"

record stage_opts =
  sg_dir :: string
  sg_key :: string
  readImage :: "image_ref \<Rightarrow> nat list option"
  maxImages :: rat
  maxBytes :: rat
  mkdir_ok :: bool
  write_to :: "string \<Rightarrow> bool"
  sg_time :: ms

section \<open>Staging\<close>

definition EXT :: "(string \<times> string) list" where
  "EXT = [(''image/png'', ''png''), (''image/jpeg'', ''jpg''), (''image/webp'', ''webp''), (''image/gif'', ''gif'')]"

definition stagedPath :: "string \<Rightarrow> string \<Rightarrow> nat \<Rightarrow> string \<Rightarrow> string" where
  "stagedPath dir key index mt = path_join dir (key @ ''-'' @ show_nat index @ ''.'' @ or_else (map_of EXT mt) ''png'')"

definition ref_label :: "image_ref \<Rightarrow> string" where
  "ref_label r = or_else (ir_name r) (attachmentId r)"

definition quoted :: "string \<Rightarrow> string" where
  "quoted s = [CHR 0x22] @ s @ [CHR 0x22]"

definition attached_line :: "string \<Rightarrow> image_ref \<Rightarrow> string" where
  "attached_line path r = ''[image attached: '' @ quoted (ref_label r) @ '' '' @ em_dash @ '' staged at '' @ path @ '' ('' @ show_nat (ir_width r) @ ''x'' @
     show_nat (ir_height r) @ '', '' @ show_nat (ir_bytes r) @ '' bytes). Inspect it using the view_file tool with AbsolutePath: '' @ quoted path @ '']''"

definition oversize_line :: "image_ref \<Rightarrow> string" where
  "oversize_line r = ''[image skipped: '' @ quoted (ref_label r) @ '' exceeds mediaMaxBytes]''"

definition unreadable_line :: "image_ref \<Rightarrow> string" where
  "unreadable_line r = ''[image unavailable: '' @ quoted (ref_label r) @ '' could not be read]''"

definition staged_as :: "stage_opts \<Rightarrow> nat \<Rightarrow> image_ref \<Rightarrow> staged_image" where
  "staged_as p i r = \<lparr>si_path = stagedPath (sg_dir p) (sg_key p) i (ir_mediaType r), si_name = ref_label r, si_width = ir_width r,
     si_height = ir_height r, si_bytes = ir_bytes r\<rparr>"

text \<open>
  The loop: position, staged images, lines, skipped count and files; the flag says that no write was refused.
  \<open>tot\<close> is the number of all images.
\<close>

fun stage_loop ::
  "stage_opts \<Rightarrow> nat \<Rightarrow> image_ref list \<Rightarrow> nat \<Rightarrow> staged_image list \<Rightarrow> string list \<Rightarrow> nat \<Rightarrow> media_files \<Rightarrow>
   bool \<times> staged_image list \<times> string list \<times> nat \<times> media_files" where
  "stage_loop p tot [] i st ls sk fs = (True, st, ls, sk, fs)"
| "stage_loop p tot (r # rs) i st ls sk fs =
     (if of_nat (length st) \<ge> max 0 (maxImages p) then (True, st, ls, sk + (tot - length st - sk), fs)
      else if of_nat (ir_bytes r) > maxBytes p then stage_loop p tot rs (i + 1) st (ls @ [oversize_line r]) (sk + 1) fs
      else (case readImage p r of
              None \<Rightarrow> stage_loop p tot rs (i + 1) st (ls @ [unreadable_line r]) (sk + 1) fs
            | Some d \<Rightarrow>
                (let s = staged_as p i r; path = si_path s
                 in if \<not> write_to p path then (False, st, ls, sk, fs)
                    else stage_loop p tot rs (i + 1) (st @ [s]) (ls @ [attached_line path r]) sk
                           (fs(path \<mapsto> \<lparr>mf_data = d, mf_mtime = sg_time p, mf_isFile = True\<rparr>)))))"

text \<open>\<open>None\<close>: the promise rejects.\<close>

definition stageImages :: "stage_opts \<Rightarrow> image_ref list \<Rightarrow> media_files \<Rightarrow> stage_result option \<times> media_files" where
  "stageImages p refs fs =
     (if max 0 (maxImages p) > 0 \<and> refs \<noteq> [] then
        (if \<not> mkdir_ok p then (None, fs)
         else case stage_loop p (length refs) refs 0 [] [] 0 fs of
                (ok, st, ls, sk, fs1) \<Rightarrow>
                  (if ok then Some \<lparr>promptSuffix = join nl ls, staged_images = st, skipped = sk\<rparr> else None, fs1))
      else (Some \<lparr>promptSuffix = [], staged_images = [], skipped = 0\<rparr>, fs))"

section \<open>In the engine\<close>

definition UNKNOWN_DIM :: nat where
  "UNKNOWN_DIM = 0"

definition ref_of_image :: "engine_image \<Rightarrow> image_ref" where
  "ref_of_image img = \<lparr>attachmentId = or_else (img_name img) ''image'', ir_mediaType = mediaType img, ir_bytes = img_bytes img,
     ir_width = UNKNOWN_DIM, ir_height = UNKNOWN_DIM, ir_name = img_name img\<rparr>"

definition turn_images :: "engine_message list \<Rightarrow> image_ref list" where
  "turn_images trailing = concat (map (\<lambda>m. map ref_of_image (images m)) trailing)"

definition key_char :: "char \<Rightarrow> bool" where
  "key_char c = (let n = of_char c :: nat in (97 \<le> n \<and> n \<le> 122) \<or> (65 \<le> n \<and> n \<le> 90) \<or> is_digit c \<or> c = CHR ''_'' \<or> c = CHR ''-'')"

text \<open>\<open>replace(/[^a-zA-Z0-9_-]+/g, '_')\<close>; the flag says that the last character was replaced.\<close>

fun squash :: "bool \<Rightarrow> string \<Rightarrow> string" where
  "squash run [] = []"
| "squash run (c # cs) = (if key_char c then c # squash False cs else if run then squash True cs else CHR ''_'' # squash True cs)"

definition media_key :: "string \<Rightarrow> nat \<Rightarrow> string \<Rightarrow> string" where
  "media_key tenant n uuid = squash False tenant @ ''-'' @ show_nat n @ ''-'' @ uuid"

text \<open>The step of \<open>call\<close>: nothing to do without images or a reader, otherwise the suffix and the directories for the spawn.\<close>

definition stage_turn :: "stage_opts \<Rightarrow> bool \<Rightarrow> engine_message list \<Rightarrow> media_files \<Rightarrow> (string \<times> string list) option option \<times> media_files" where
  "stage_turn p has_reader trailing fs =
     (let refs = turn_images trailing
      in if refs = [] \<or> \<not> has_reader then (Some None, fs)
         else case stageImages p refs fs of
                (None, fs1) \<Rightarrow> (None, fs1)
              | (Some res, fs1) \<Rightarrow> (Some (Some (promptSuffix res, if staged_images res = [] then [] else [sg_dir p])), fs1))"

section \<open>Sweeping\<close>

text \<open>\<open>listing\<close>: the names in the directory, \<open>None\<close> if it cannot be read; \<open>unlinked\<close>: the unlink succeeds.\<close>

definition expired :: "ms \<Rightarrow> ms \<Rightarrow> media_file \<Rightarrow> bool" where
  "expired ttl t f = (mf_isFile f \<and> t - mf_mtime f > ttl)"

fun sweep_loop :: "string \<Rightarrow> ms \<Rightarrow> ms \<Rightarrow> (string \<Rightarrow> bool) \<Rightarrow> string list \<Rightarrow> nat \<Rightarrow> media_files \<Rightarrow> nat \<times> media_files" where
  "sweep_loop dir ttl t unlinked [] n fs = (n, fs)"
| "sweep_loop dir ttl t unlinked (x # xs) n fs =
     (let full = path_join dir x
      in case fs full of
           None \<Rightarrow> sweep_loop dir ttl t unlinked xs n fs
         | Some f \<Rightarrow> if expired ttl t f \<and> unlinked full then sweep_loop dir ttl t unlinked xs (n + 1) (fs(full := None))
                      else sweep_loop dir ttl t unlinked xs n fs)"

definition sweepDir :: "string \<Rightarrow> ms \<Rightarrow> ms \<Rightarrow> (string \<Rightarrow> bool) \<Rightarrow> string list option \<Rightarrow> media_files \<Rightarrow> nat \<times> media_files" where
  "sweepDir dir ttl t unlinked listing fs =
     (if ttl \<le> 0 then (0, fs)
      else case listing of None \<Rightarrow> (0, fs) | Some names \<Rightarrow> sweep_loop dir ttl t unlinked names 0 fs)"

text \<open>The timer of the sweeper: its period, \<open>None\<close> when it is disabled. Each firing, and the start, sweeps once.\<close>

definition sweeper_period :: "ms \<Rightarrow> ms \<Rightarrow> ms option" where
  "sweeper_period ttl interval = (if ttl \<le> 0 then None else Some (max 60000 interval))"

definition defaultMediaDir :: "string \<Rightarrow> string" where
  "defaultMediaDir dir = path_join dir ''media''"

section \<open>What is staged\<close>

text \<open>The reference: the images that fit and can be read, with their positions, up to the cap.\<close>

definition cap :: "stage_opts \<Rightarrow> nat" where
  "cap p = nat \<lceil>maxImages p\<rceil>"

definition stageable :: "stage_opts \<Rightarrow> nat \<times> image_ref \<Rightarrow> bool" where
  "stageable p x = (of_nat (ir_bytes (snd x)) \<le> maxBytes p \<and> readImage p (snd x) \<noteq> None)"

definition chosen :: "stage_opts \<Rightarrow> image_ref list \<Rightarrow> (nat \<times> image_ref) list" where
  "chosen p refs = take (cap p) (filter (stageable p) (enumerate 0 refs))"

definition write_image :: "stage_opts \<Rightarrow> media_files \<Rightarrow> nat \<times> image_ref \<Rightarrow> media_files" where
  "write_image p fs x = fs(stagedPath (sg_dir p) (sg_key p) (fst x) (ir_mediaType (snd x)) \<mapsto>
     \<lparr>mf_data = the (readImage p (snd x)), mf_mtime = sg_time p, mf_isFile = True\<rparr>)"

lemma cap_iff: "max 0 (maxImages p) \<le> of_nat n \<longleftrightarrow> cap p \<le> n"
  by (simp add: cap_def ceiling_le_iff flip: of_nat_le_iff [where 'a = int]) linarith?

lemma stage_loop_spec:
  assumes "stage_loop p tot rs i st ls sk fs = (True, st1, ls1, sk1, fs1)" "length st \<le> cap p" "tot = length st + sk + length rs"
  shows "st1 = st @ map (\<lambda>(i, r). staged_as p i r) (take (cap p - length st) (filter (stageable p) (enumerate i rs))) \<and>
    fs1 = foldl (write_image p) fs (take (cap p - length st) (filter (stageable p) (enumerate i rs))) \<and> sk1 = tot - length st1"
  using assms
proof (induction p tot rs i st ls sk fs rule: stage_loop.induct)
  case (2 p tot r rs i st ls sk fs)
  show ?case
  proof (cases "cap p \<le> length st")
    case True
    then have c: "max 0 (maxImages p) \<le> of_nat (length st)" by (simp only: cap_iff)
    from "2.prems"(1) c have "st1 = st \<and> fs1 = fs \<and> sk1 = sk + (tot - length st - sk)" by auto
    with True "2.prems"(3) show ?thesis by simp
  next
    case False
    then have f: "\<not> max 0 (maxImages p) \<le> of_nat (length st)" unfolding cap_iff .
    consider "of_nat (ir_bytes r) > maxBytes p" | "\<not> of_nat (ir_bytes r) > maxBytes p" "readImage p r = None" |
      d where "\<not> of_nat (ir_bytes r) > maxBytes p" "readImage p r = Some d" by fastforce
    then show ?thesis
    proof cases
      case 1
      with 2(1) [OF f] 2(4-) f show ?thesis by (simp add: stageable_def)
    next
      case 2
      with "2.IH"(2) [OF f] "2.prems" f show ?thesis by (simp add: stageable_def)
    next
      case 3
      from "2.prems"(1) f 3 have w: "write_to p (si_path (staged_as p i r))" by (auto simp: Let_def split: if_splits)
      then have st: "stage_loop p tot rs (i + 1) (st @ [staged_as p i r]) (ls @ [attached_line (si_path (staged_as p i r)) r]) sk
          (fs(si_path (staged_as p i r) \<mapsto> \<lparr>mf_data = d, mf_mtime = sg_time p, mf_isFile = True\<rparr>)) = (True, st1, ls1, sk1, fs1)"
        using "2.prems"(1) f 3 by (simp add: Let_def)
      have wi: "fs(si_path (staged_as p i r) \<mapsto> \<lparr>mf_data = d, mf_mtime = sg_time p, mf_isFile = True\<rparr>) = write_image p fs (i, r)"
        by (simp add: write_image_def staged_as_def 3)
      have "cap p - length st = Suc (cap p - Suc (length st))" using False by simp
      then have t: "take (cap p - length st) (x # xs) = x # take (cap p - Suc (length st)) xs" for x :: "nat \<times> image_ref" and xs by simp
      have u: "stageable p (i, r)" using 3 by (simp add: stageable_def)
      have "length (st @ [staged_as p i r]) \<le> cap p" "tot = length (st @ [staged_as p i r]) + sk + length rs"
        using False "2.prems"(3) by simp_all
      from "2.IH"(3) [OF f 3 refl refl _ st this] w show ?thesis by (simp add: t u wi del: fun_upd_apply)
    qed
  qed
qed simp

lemma distinct_map_fst_filter_take: "distinct (map fst (take n (filter P (enumerate k xs))))"
proof -
  have "distinct (map fst (filter P (enumerate k xs)))" by (rule distinct_map_filter) (simp add: distinct_enumerate)
  then show ?thesis by (simp add: distinct_take flip: take_map)
qed

text \<open>Names in the media directory keep requests apart.\<close>

lemma first_sep: "c \<notin> set a \<Longrightarrow> c \<notin> set b \<Longrightarrow> a @ c # x = b @ c # y \<longleftrightarrow> a = b \<and> x = y"
proof (induction a arbitrary: b)
  case Nil
  then show ?case by (cases b) auto
next
  case (Cons z a)
  then show ?case by (cases b) auto
qed

lemma last_sep:
  assumes "c \<notin> set a" "c \<notin> set b"
  shows "x @ c # a = y @ c # b \<longleftrightarrow> x = y \<and> a = b"
  using first_sep [of c "rev a" "rev b" "rev x" "rev y"] assms
  by (metis append.assoc append_Cons append_Nil rev.simps(2) rev_append rev_is_rev_conv set_rev)

lemma show_nat_inj: "show_nat i = show_nat j \<longleftrightarrow> i = j"
  using read_show_nat by metis

lemma stagedPath_eq:
  "stagedPath dir k i m = stagedPath dir k1 j m1 \<Longrightarrow> k = k1 \<and> i = j"
proof -
  assume a: "stagedPath dir k i m = stagedPath dir k1 j m1"
  let ?e = "\<lambda>m. or_else (map_of EXT m) ''png''"
  have e: "CHR ''.'' \<notin> set (?e m)" for m by (auto simp: EXT_def or_else_def split: option.splits if_splits)
  have d: "CHR ''-'' \<notin> set (show_nat n)" for n using show_nat_digits [of "CHR ''-''" n] by (auto simp: is_digit_def)
  from a have "(k @ ''-'' @ show_nat i) @ CHR ''.'' # ?e m = (k1 @ ''-'' @ show_nat j) @ CHR ''.'' # ?e m1"
    by (simp add: stagedPath_def path_join_def)
  from this [unfolded last_sep [OF e e]] have "k @ CHR ''-'' # show_nat i = k1 @ CHR ''-'' # show_nat j" by simp
  then show ?thesis using last_sep [OF d d] show_nat_inj by blast
qed

lemma media_key_eq:
  assumes "media_key tn n u = media_key tn1 n1 u1" "length u = length u1"
  shows "u = u1"
proof -
  have "(squash False tn @ ''-'' @ show_nat n @ ''-'') @ u = (squash False tn1 @ ''-'' @ show_nat n1 @ ''-'') @ u1"
    using assms(1) by (simp add: media_key_def)
  from iffD1 [OF append_eq_append_conv [OF disjI2 [OF assms(2)]] this] show ?thesis by (rule conjunct2)
qed

text \<open>
  Images reach exactly where they should. When staging succeeds it has staged, in order, the first images
  that fit the byte limit and can be read, up to the cap, each under its own name with the bytes of its
  reader; every other image is counted as skipped; no other file has changed, in particular none that another
  request, with another random id, may have staged.
\<close>

lemma staged_images_exact:
  assumes "stageImages p refs fs = (Some res, fs1)"
  shows "staged_images res = map (\<lambda>(i, r). staged_as p i r) (chosen p refs) \<and> distinct (map si_path (staged_images res)) \<and>
    (\<forall>(i, r) \<in> set (chosen p refs). map_option mf_data (fs1 (si_path (staged_as p i r))) = readImage p r) \<and>
    skipped res = (if 0 < maxImages p then length refs - length (staged_images res) else 0) \<and>
    (\<forall>path. path \<notin> si_path ` set (staged_images res) \<longrightarrow> fs1 path = fs path) \<and>
    (\<forall>tn n u tn1 n1 u1 k mt. sg_key p = media_key tn n u \<and> length u = length u1 \<and> u \<noteq> u1 \<longrightarrow>
       fs1 (stagedPath (sg_dir p) (media_key tn1 n1 u1) k mt) = fs (stagedPath (sg_dir p) (media_key tn1 n1 u1) k mt))"
proof -
  let ?path = "\<lambda>x. stagedPath (sg_dir p) (sg_key p) (fst x) (ir_mediaType (snd x))"
  have ch: "staged_images res = map (\<lambda>(i, r). staged_as p i r) (chosen p refs) \<and> fs1 = foldl (write_image p) fs (chosen p refs) \<and>
      skipped res = (if 0 < maxImages p then length refs - length (staged_images res) else 0)"
  proof (cases "0 < maxImages p \<and> refs \<noteq> []")
    case True
    with assms obtain st ls sk where l: "stage_loop p (length refs) refs 0 [] [] 0 fs = (True, st, ls, sk, fs1)"
      "staged_images res = st" "skipped res = sk" by (auto simp: stageImages_def split: if_splits prod.splits)
    from stage_loop_spec [OF l(1)] l(2,3) True show ?thesis by (simp add: chosen_def)
  next
    case False
    with assms have "res = \<lparr>promptSuffix = [], staged_images = [], skipped = 0\<rparr>" "fs1 = fs" by (auto simp: stageImages_def)
    moreover have "chosen p refs = []" using False by (auto simp: chosen_def cap_def)
    ultimately show ?thesis using False by auto
  qed
  have paths: "map si_path (staged_images res) = map ?path (chosen p refs)" using ch by (auto simp: staged_as_def)
  have "distinct (map fst (chosen p refs))"
    unfolding chosen_def by (intro distinct_map_fst_filter_take)
  then have inj: "inj_on fst (set (chosen p refs))" "distinct (chosen p refs)" by (simp_all add: distinct_map)
  have inj_path: "inj_on ?path (set (chosen p refs))"
    using inj(1) by (auto simp: inj_on_def dest: stagedPath_eq)
  have other: "foldl (write_image p) f xs q = f q" if "q \<notin> ?path ` set xs" for f xs q
    using that by (induction xs arbitrary: f) (auto simp: write_image_def)
  have own: "foldl (write_image p) f xs (?path x) = Some \<lparr>mf_data = the (readImage p (snd x)), mf_mtime = sg_time p, mf_isFile = True\<rparr>"
    if "x \<in> set xs" "inj_on ?path (set xs)" "distinct xs" for f xs x
    using that
  proof (induction xs arbitrary: f)
    case (Cons y xs)
    show ?case
    proof (cases "x = y")
      case True
      then have "?path x \<notin> ?path ` set xs" using Cons.prems by (auto simp: inj_on_def)
      from other [OF this, of "write_image p f y"] True have "foldl (write_image p) f (y # xs) (?path x) = write_image p f y (?path y)" by simp
      moreover have "write_image p f y (?path y) = Some \<lparr>mf_data = the (readImage p (snd y)), mf_mtime = sg_time p, mf_isFile = True\<rparr>"
        by (simp add: write_image_def)
      ultimately show ?thesis by (simp only: True)
    next
      case False
      with Cons show ?thesis by (auto simp: inj_on_def)
    qed
  qed simp
  have data: "\<forall>(i, r) \<in> set (chosen p refs). map_option mf_data (fs1 (si_path (staged_as p i r))) = readImage p r"
  proof (clarify)
    fix i r assume x: "(i, r) \<in> set (chosen p refs)"
    then have "stageable p (i, r)" by (auto simp: chosen_def dest: in_set_takeD)
    with own [OF x inj_path inj(2), of fs] ch show "map_option mf_data (fs1 (si_path (staged_as p i r))) = readImage p r"
      by (auto simp: staged_as_def stageable_def)
  qed
  have "fs1 q = fs q" if "q \<notin> si_path ` set (staged_images res)" for q
  proof -
    have "si_path ` set (staged_images res) = ?path ` set (chosen p refs)" using paths by (metis set_map)
    with that other ch show ?thesis by simp
  qed
  moreover have "stagedPath (sg_dir p) (media_key tn1 n1 u1) k mt \<notin> si_path ` set (staged_images res)"
    if "sg_key p = media_key tn n u" "length u = length u1" "u \<noteq> u1" for tn n u tn1 n1 u1 k mt
    using that ch by (auto simp: staged_as_def dest!: stagedPath_eq media_key_eq)
  moreover have "distinct (map si_path (staged_images res))" unfolding paths using inj_path inj(2) by (simp add: distinct_map)
  ultimately show ?thesis using ch data by blast
qed


section \<open>What is swept\<close>

definition sweeps :: "string \<Rightarrow> ms \<Rightarrow> ms \<Rightarrow> (string \<Rightarrow> bool) \<Rightarrow> media_files \<Rightarrow> string \<Rightarrow> bool" where
  "sweeps dir ttl t unlinked fs x =
     (case fs (path_join dir x) of Some f \<Rightarrow> expired ttl t f \<and> unlinked (path_join dir x) | None \<Rightarrow> False)"

lemma sweep_loop_Cons:
  "sweep_loop dir ttl t unlinked (x # xs) n fs =
     (if sweeps dir ttl t unlinked fs x then sweep_loop dir ttl t unlinked xs (n + 1) (fs(path_join dir x := None))
      else sweep_loop dir ttl t unlinked xs n fs)"
  by (simp add: sweeps_def Let_def split: option.splits)

lemma path_join_inj: "path_join dir x = path_join dir y \<longleftrightarrow> x = y"
  by (simp add: path_join_def)

lemma sweeps_del:
  "sweeps dir ttl t unlinked (fs(path_join dir x := None)) y = (y \<noteq> x \<and> sweeps dir ttl t unlinked fs y)"
  by (simp add: sweeps_def path_join_def)

text \<open>A sweep removes exactly the expired files it can unlink, and returns their number.\<close>

lemma sweep_loop_exact:
  assumes "distinct names"
  shows "sweep_loop dir ttl t unlinked names n fs =
    (n + length (filter (sweeps dir ttl t unlinked fs) names),
     \<lambda>q. if \<exists>x \<in> set names. q = path_join dir x \<and> sweeps dir ttl t unlinked fs x then None else fs q)"
  using assms
proof (induction names arbitrary: n fs)
  case (Cons x names)
  let ?P = "sweeps dir ttl t unlinked"
  show ?case
  proof (cases "?P fs x")
    case True
    have f: "filter (?P (fs(path_join dir x := None))) names = filter (?P fs) names"
      using Cons.prems by (intro filter_cong) (auto simp: sweeps_del)
    show ?thesis using True Cons.prems unfolding sweep_loop_Cons
      by (simp only: Cons.IH distinct.simps f if_True) (auto simp: sweeps_del path_join_inj fun_eq_iff)
  next
    case False
    then show ?thesis using Cons.prems unfolding sweep_loop_Cons
      by (simp only: Cons.IH distinct.simps if_False) (auto simp: fun_eq_iff)
  qed
qed (simp add: fun_eq_iff)

lemma sweep_exact:
  assumes "distinct names" "ttl > 0"
  shows "sweepDir dir ttl t unlinked (Some names) fs =
    (length (filter (sweeps dir ttl t unlinked fs) names),
     \<lambda>q. if \<exists>x \<in> set names. q = path_join dir x \<and> sweeps dir ttl t unlinked fs x then None else fs q)"
  using assms(2) by (simp add: sweepDir_def sweep_loop_exact [OF assms(1)])

end
