(* ===== verification/Poller.thy ===== *)
theory Poller
  imports Models Dispatch Runner
begin

text \<open>
  Keeping the model catalog fresh: \<open>src/host/catalog-discovery.ts\<close>, \<open>src/host/catalog-poller.ts\<close> and the
  single-flight latch of \<open>ModelCatalog\<close> in \<open>src/host/models.ts\<close>. The run of \<open>agy models\<close> is an argument;
  calls, the end of a run, the resumption of awaiting callers and timers are operations of a history.
\<close>

section \<open>Discovery\<close>

definition discovery_eligible :: "managed_account \<Rightarrow> bool" where
  "discovery_eligible a = (enabled a \<and> \<not> authRequired a \<and> acc_dir a \<noteq> [])"

definition pickDiscoveryAccount :: "managed_account list \<Rightarrow> nat \<Rightarrow> managed_account option" where
  "pickDiscoveryAccount accs cur =
     (let el = filter discovery_eligible accs in if el = [] then None else Some (el ! (cur mod length el)))"

definition TELEMETRY_OFF :: "(string \<times> string) list" where
  "TELEMETRY_OFF = map (\<lambda>k. (k, ''1'')) [''DO_NOT_TRACK'', ''DISABLE_TELEMETRY'', ''GOOGLE_CLOUD_DISABLE_TELEMETRY'', ''ANTIGRAVITY_DISABLE_TELEMETRY'']"

text \<open>Object spread: a later entry replaces the value of an earlier one.\<close>

definition spread :: "(string \<times> string option) list \<Rightarrow> (string \<times> string) list \<Rightarrow> (string \<times> string option) list" where
  "spread env kvs = foldl (\<lambda>m (k, v). jm_set k (Some v) m) env kvs"

definition discovery_env ::
  "(string list \<Rightarrow> string) \<Rightarrow> bool \<Rightarrow> (string \<times> string option) list \<Rightarrow> gateway_config \<Rightarrow> managed_account option \<Rightarrow> (string, string) jsmap" where
  "discovery_env jn win penv cfg acc =
     sanitizeChildEnv (spread penv
       ((if disableTelemetry cfg then TELEMETRY_OFF else []) @
        (case acc of Some a \<Rightarrow> if acc_dir a \<noteq> [] then isolatedHomeEnv jn win (acc_dir a) else [] | None \<Rightarrow> []) @
        (case acc of Some a \<Rightarrow> if truthy_str (proxyUrl a) then proxyEnv (or_else (proxyUrl a) []) else [] | None \<Rightarrow> [])))"

text \<open>One discovery: the binary, the accounts, the cur and the run of \<open>agy models\<close> in its environment.\<close>

definition run_models :: "run_outcome \<Rightarrow> string + string" where
  "run_models out =
     (if out_code out \<noteq> Some 0
      then Inl (if trim (stderrTail out) \<noteq> [] then trim (stderrTail out)
                else ''agy models exited with code '' @ (case out_code out of Some c \<Rightarrow> show_int c | None \<Rightarrow> ''null''))
      else Inr (out_stdout out))"

definition discover ::
  "(string list \<Rightarrow> string) \<Rightarrow> bool \<Rightarrow> string option \<Rightarrow> managed_account list \<Rightarrow> (string \<times> string option) list \<Rightarrow> gateway_config \<Rightarrow>
   (string \<Rightarrow> (string, string) jsmap \<Rightarrow> run_outcome) \<Rightarrow> nat \<Rightarrow> (string + string) \<times> nat" where
  "discover jn win bin accs penv cfg spawn cur =
     (case bin of
        None \<Rightarrow> (Inl ''agy binary not available for model discovery'', cur)
      | Some b \<Rightarrow> (run_models (spawn b (discovery_env jn win penv cfg (pickDiscoveryAccount accs cur))), cur + 1))"

text \<open>The rotation reaches every eligible account within as many discoveries as there are such accounts.\<close>

lemma discovery_rotates:
  assumes "a \<in> set accs" "discovery_eligible a"
  shows "\<exists>k < length (filter discovery_eligible accs). pickDiscoveryAccount accs (cur + k) = Some a"
proof -
  let ?el = "filter discovery_eligible accs"
  let ?n = "length ?el"
  have "a \<in> set ?el" using assms by simp
  then obtain i where i: "i < ?n" "?el ! i = a" by (auto simp only: in_set_conv_nth)
  let ?k = "(i + ?n - cur mod ?n) mod ?n"
  have n: "0 < ?n" by (rule order_le_less_trans [OF le0 i(1)])
  have "(cur + ?k) mod ?n = (cur mod ?n + (i + ?n - cur mod ?n)) mod ?n" by (simp add: mod_add_left_eq mod_add_right_eq)
  also have "cur mod ?n + (i + ?n - cur mod ?n) = i + ?n" using n by (simp add: less_imp_le trans_le_add2)
  finally have "(cur + ?k) mod ?n = i" using i(1) by simp
  then have "pickDiscoveryAccount accs (cur + ?k) = Some a" using i n by (auto simp: pickDiscoveryAccount_def Let_def)
  moreover have "?k < ?n" using n by simp
  ultimately show ?thesis by blast
qed

text \<open>No variable of the gateway itself reaches the child.\<close>

lemma discovery_env_clean: "(k, v) \<in> set (discovery_env jn win penv cfg acc) \<Longrightarrow> \<not> starts_with k ''AGY_PROXY_''"
  by (simp add: discovery_env_def sanitize_no_secret)

section \<open>The single-flight latch\<close>

text \<open>
  Callers carry the number of passes started when they called. \<open>cr_first\<close> are callers of \<open>forceRefresh\<close> at
  their first await, \<open>cr_ready\<close> those whose await has settled and who have not resumed, \<open>cr_last\<close> those
  whose own pass runs, \<open>cr_riders\<close> the callers of \<open>refreshIfNeeded\<close>. \<open>cr_returned\<close> records each return of
  \<open>forceRefresh\<close> with the number of passes ended by then.
\<close>

record catalog_run =
  cr_cat :: catalog
  refreshing :: bool
  cr_first :: "(nat \<times> nat) list"
  cr_ready :: "(nat \<times> nat) list"
  cr_last :: "(nat \<times> nat) list"
  cr_riders :: "nat list"
  cr_started :: nat
  cr_ended :: nat
  cr_returned :: "(nat \<times> nat \<times> nat) list"

definition idle_run :: "catalog \<Rightarrow> catalog_run" where
  "idle_run c = \<lparr>cr_cat = c, refreshing = False, cr_first = [], cr_ready = [], cr_last = [], cr_riders = [], cr_started = 0, cr_ended = 0,
     cr_returned = []\<rparr>"

definition start_refresh :: "catalog_run \<Rightarrow> catalog_run" where
  "start_refresh s = s\<lparr>refreshing := True, cr_started := cr_started s + 1\<rparr>"

definition refreshIfNeeded_call :: "ms \<Rightarrow> ms \<Rightarrow> nat \<Rightarrow> catalog_run \<Rightarrow> catalog_run" where
  "refreshIfNeeded_call ttlMs t c s =
     (if refreshing s then s\<lparr>cr_riders := cr_riders s @ [c]\<rparr>
      else if cat_source (cr_cat s) = Discovered \<and> t - discoveredAt (cr_cat s) < ttlMs then s
      else (start_refresh s)\<lparr>cr_riders := cr_riders s @ [c]\<rparr>)"

definition forceRefresh_call :: "nat \<Rightarrow> catalog_run \<Rightarrow> catalog_run" where
  "forceRefresh_call c s =
     (if refreshing s then s\<lparr>cr_first := cr_first s @ [(c, cr_started s)]\<rparr>
      else (start_refresh s)\<lparr>cr_last := cr_last s @ [(c, cr_started s)]\<rparr>)"

text \<open>A caller of \<open>forceRefresh\<close> goes on behind its first await.\<close>

definition forceRefresh_resume :: "catalog_run \<Rightarrow> catalog_run" where
  "forceRefresh_resume s =
     (case cr_ready s of
        [] \<Rightarrow> s
      | x # rest \<Rightarrow>
          (let s1 = s\<lparr>cr_ready := rest, cr_last := cr_last s @ [x]\<rparr> in if refreshing s then s1 else start_refresh s1))"

text \<open>The pass ends: the latch is cleared first, then the callers whose pass it was return.\<close>

definition refresh_settles :: "(string \<Rightarrow> json option) \<Rightarrow> ms \<Rightarrow> string + string \<Rightarrow> catalog_run \<Rightarrow> catalog_run" where
  "refresh_settles jparse t run s =
     (if \<not> refreshing s then s
      else s\<lparr>cr_cat := snd (refresh jparse t run (cr_cat s)), refreshing := False, cr_ended := cr_ended s + 1,
             cr_ready := cr_ready s @ cr_first s, cr_first := [], cr_riders := [],
             cr_returned := cr_returned s @ map (\<lambda>(c, n). (c, n, cr_ended s + 1)) (cr_last s), cr_last := []\<rparr>)"

datatype catalog_op = IfNeeded ms ms nat | Force nat | Resume | Settles ms "string + string"

fun catalog_step :: "(string \<Rightarrow> json option) \<Rightarrow> catalog_run \<Rightarrow> catalog_op \<Rightarrow> catalog_run" where
  "catalog_step jp s (IfNeeded ttl t c) = refreshIfNeeded_call ttl t c s"
| "catalog_step jp s (Force c) = forceRefresh_call c s"
| "catalog_step jp s Resume = forceRefresh_resume s"
| "catalog_step jp s (Settles t run) = refresh_settles jp t run s"

definition latch_inv :: "catalog_run \<Rightarrow> bool" where
  "latch_inv s =
     (cr_started s = cr_ended s + (if refreshing s then 1 else 0) \<and>
      (cr_first s \<noteq> [] \<or> cr_last s \<noteq> [] \<or> cr_riders s \<noteq> [] \<longrightarrow> refreshing s) \<and>
      (\<forall>x \<in> set (cr_first s). snd x \<le> cr_started s) \<and> (\<forall>x \<in> set (cr_ready s). snd x \<le> cr_ended s) \<and>
      (\<forall>x \<in> set (cr_last s). snd x < cr_started s) \<and> (\<forall>(c, n, e) \<in> set (cr_returned s). n < e \<and> e \<le> cr_ended s))"

lemma catalog_step_inv: "latch_inv s \<Longrightarrow> latch_inv (catalog_step jp s op)"
  by (cases op; force simp: latch_inv_def refreshIfNeeded_call_def forceRefresh_call_def forceRefresh_resume_def refresh_settles_def
      start_refresh_def Let_def split: list.splits if_splits)

interpretation catalog_life: stepwise "catalog_step jp" "\<lambda>_ _. True" latch_inv for jp
  by unfold_locales (rule catalog_step_inv)

text \<open>Nobody is forgotten.\<close>

definition force_callers :: "catalog_run \<Rightarrow> nat set" where
  "force_callers s = fst ` (set (cr_first s) \<union> set (cr_ready s) \<union> set (cr_last s)) \<union> fst ` set (cr_returned s)"

fun forced_by :: "catalog_op \<Rightarrow> nat set" where
  "forced_by (Force c) = {c}"
| "forced_by _ = {}"

lemma step_callers: "force_callers (catalog_step jp s op) = force_callers s \<union> forced_by op"
proof (cases op)
  case (Settles t run)
  have "fst ` (\<lambda>(c, n). (c, n, e)) ` A = fst ` A" for e :: nat and A :: "(nat \<times> nat) set" by force
  then show ?thesis using Settles by (auto simp: force_callers_def refresh_settles_def image_Un)
qed (auto simp: force_callers_def refreshIfNeeded_call_def forceRefresh_call_def forceRefresh_resume_def start_refresh_def Let_def
    split: list.splits)

lemma run_callers: "force_callers (foldl (catalog_step jp) s ops) = force_callers s \<union> \<Union> (forced_by ` set ops)"
  by (induction ops arbitrary: s) (auto simp: step_callers)

text \<open>One pass ends, the callers resume, and the next pass ends.\<close>

definition two_passes :: "catalog_run \<Rightarrow> ms \<Rightarrow> string + string \<Rightarrow> ms \<Rightarrow> string + string \<Rightarrow> catalog_op list" where
  "two_passes s t1 r1 t2 r2 = Settles t1 r1 # replicate (length (cr_ready s) + length (cr_first s)) Resume @ [Settles t2 r2]"

lemma resume_all:
  "cr_ready (foldl (catalog_step jp) s (replicate (length (cr_ready s)) Resume)) = [] \<and>
   cr_first (foldl (catalog_step jp) s (replicate (length (cr_ready s)) Resume)) = cr_first s"
proof (induction "cr_ready s" arbitrary: s)
  case (Cons x rest)
  from Cons.hyps(2) have "cr_ready (forceRefresh_resume s) = rest" "cr_first (forceRefresh_resume s) = cr_first s"
    by (auto simp: forceRefresh_resume_def start_refresh_def Let_def split: list.splits)
  with Cons.hyps(1) [of "forceRefresh_resume s"] show ?case by (simp flip: Cons.hyps(2))
qed simp

lemma two_passes_serve:
  assumes "latch_inv s"
  shows "let s2 = foldl (catalog_step jp) s (two_passes s t1 r1 t2 r2) in cr_first s2 = [] \<and> cr_ready s2 = [] \<and> cr_last s2 = [] \<and> cr_riders s2 = []"
proof -
  let ?s1 = "refresh_settles jp t1 r1 s"
  let ?n = "length (cr_ready s) + length (cr_first s)"
  have f: "cr_first ?s1 = []" "length (cr_ready ?s1) = ?n"
    using assms by (auto simp: refresh_settles_def latch_inv_def)
  let ?m = "foldl (catalog_step jp) ?s1 (replicate ?n Resume)"
  have m: "cr_ready ?m = []" "cr_first ?m = []" using resume_all [of jp ?s1] f by simp_all
  have "latch_inv ?m"
    using catalog_life.run_inv [OF catalog_step_inv [OF assms, of jp "Settles t1 r1"] ok_run_True] by simp
  then have "\<not> refreshing ?m \<longrightarrow> cr_last ?m = [] \<and> cr_riders ?m = []" by (auto simp: latch_inv_def)
  with m show ?thesis by (auto simp: two_passes_def refresh_settles_def Let_def)
qed

text \<open>
  C40. A forced refresh is honoured. However calls, ends of passes and resumptions interleave, at most one
  discovery runs at a time; a \<open>forceRefresh\<close> that has returned saw the end of a pass that started after its
  call; and two ends of passes later every pending caller has returned, whoever it was.
\<close>

theorem forceRefresh_honoured:
  assumes "s = foldl (catalog_step jp) (idle_run c0) ops"
  shows "cr_started s \<le> cr_ended s + 1 \<and> (refreshing s \<longleftrightarrow> cr_started s = cr_ended s + 1) \<and>
    (\<forall>(c, n, e) \<in> set (cr_returned s). n < e \<and> e \<le> cr_ended s) \<and>
    fst ` set (cr_returned (foldl (catalog_step jp) s (two_passes s t1 r1 t2 r2))) = \<Union> (forced_by ` set ops) \<and>
    cr_riders (foldl (catalog_step jp) s (two_passes s t1 r1 t2 r2)) = []"
proof -
  have "latch_inv (idle_run c0)" by (simp add: latch_inv_def idle_run_def)
  from catalog_life.run_inv [OF this ok_run_True] have i: "latch_inv s" by (simp add: assms)
  let ?s2 = "foldl (catalog_step jp) s (two_passes s t1 r1 t2 r2)"
  have "force_callers ?s2 = \<Union> (forced_by ` set ops)"
    using run_callers [of jp s "two_passes s t1 r1 t2 r2"] run_callers [of jp "idle_run c0" ops]
    by (auto simp: assms two_passes_def force_callers_def idle_run_def)
  with two_passes_serve [OF i, of jp t1 r1 t2 r2] have "fst ` set (cr_returned ?s2) = \<Union> (forced_by ` set ops)" "cr_riders ?s2 = []"
    by (simp_all add: force_callers_def Let_def)
  with i show ?thesis by (auto simp: latch_inv_def)
qed

text \<open>A forced refresh during a pass of the poller: the first pass does not serve it, the second does.\<close>

theorem forceRefresh_honoured_witness:
  "let s = foldl (catalog_step (\<lambda>_. None)) (idle_run (new_catalog [])) [IfNeeded 60000 0 1, Force 2, Settles 5 (Inl ''ENOENT'')];
       s2 = foldl (catalog_step (\<lambda>_. None)) s (two_passes s 6 (Inl ''x'') 9 (Inl ''ENOENT''))
   in cr_returned s = [] \<and> fst ` set (cr_returned s2) = {2}"
proof -
  let ?ops = "[IfNeeded 60000 0 1, Force 2, Settles 5 (Inl ''ENOENT'')]"
  let ?s = "foldl (catalog_step (\<lambda>_. None)) (idle_run (new_catalog [])) ?ops"
  have "cr_returned ?s = []"
    by (simp add: refreshIfNeeded_call_def forceRefresh_call_def refresh_settles_def start_refresh_def idle_run_def new_catalog_def)
  with forceRefresh_honoured [OF refl, of "\<lambda>_. None" "new_catalog []" ?ops] show ?thesis by (simp add: Let_def)
qed

section \<open>The poller\<close>

definition CATALOG_POLL_INTERVAL_MS :: nat where
  "CATALOG_POLL_INTERVAL_MS = 60000"

definition CATALOG_BACKOFF_MAX_MS :: nat where
  "CATALOG_BACKOFF_MAX_MS = 10 * 60000"

datatype poller_line = Info string | Warn string | Debug string

record poller =
  pl_stopped :: bool
  pl_timer :: "nat option"
  failures :: nat
  lastReported :: "string option"
  pl_ticking :: bool
  pl_log :: "poller_line list"

definition schedule_tick :: "nat \<Rightarrow> poller \<Rightarrow> poller" where
  "schedule_tick d p = (if pl_stopped p then p else p\<lparr>pl_timer := Some d\<rparr>)"

definition startCatalogPoller :: poller where
  "startCatalogPoller = schedule_tick CATALOG_POLL_INTERVAL_MS
     \<lparr>pl_stopped = False, pl_timer = None, failures = 0, lastReported = None, pl_ticking = False, pl_log = []\<rparr>"

text \<open>The timer fires: \<open>tick\<close> up to the refresh, and what follows its outcome.\<close>

definition poller_tick :: "bool \<Rightarrow> poller \<Rightarrow> poller" where
  "poller_tick canDiscover p =
     (let p1 = p\<lparr>pl_timer := None\<rparr>
      in if pl_stopped p1 then p1
         else if \<not> canDiscover then schedule_tick CATALOG_POLL_INTERVAL_MS (p1\<lparr>failures := 0, lastReported := None\<rparr>)
         else p1\<lparr>pl_ticking := True\<rparr>)"

definition poller_outcome :: "refresh_result \<Rightarrow> string option \<Rightarrow> poller \<Rightarrow> poller" where
  "poller_outcome outcome err p =
     (let p1 = p\<lparr>pl_ticking := False\<rparr>
      in if outcome \<noteq> RefreshFailed then
           (let p2 = (if failures p1 > 0 \<or> lastReported p1 \<noteq> None
                      then p1\<lparr>pl_log := pl_log p1 @ [Info (''model discovery recovered '' @ em_dash @ '' catalog serves the discovered list'')]\<rparr>
                      else p1)
            in schedule_tick CATALOG_POLL_INTERVAL_MS (p2\<lparr>failures := 0, lastReported := None\<rparr>))
         else
           (let p2 = p1\<lparr>failures := failures p1 + 1\<rparr>;
                message = or_else err ''model discovery failed'';
                p3 = (if Some message \<noteq> lastReported p2
                      then p2\<lparr>pl_log := pl_log p2 @ [Warn (''model discovery failing (consecutive '' @ show_nat (failures p2) @ ''): '' @ message)],
                              lastReported := Some message\<rparr>
                      else p2\<lparr>pl_log := pl_log p2 @ [Debug (''model discovery still failing (consecutive '' @ show_nat (failures p2) @ '')'')]\<rparr>)
            in schedule_tick (min (CATALOG_POLL_INTERVAL_MS * 2 ^ failures p3) CATALOG_BACKOFF_MAX_MS) p3))"

definition poller_stop :: "poller \<Rightarrow> poller" where
  "poller_stop p = p\<lparr>pl_stopped := True, pl_timer := None\<rparr>"

datatype poller_op = TimerFires bool | Outcome refresh_result "string option" | Stop_poller

fun poller_step :: "poller \<Rightarrow> poller_op \<Rightarrow> poller" where
  "poller_step p (TimerFires can) = (if pl_timer p = None then p else poller_tick can p)"
| "poller_step p (Outcome r err) = (if pl_ticking p then poller_outcome r err p else p)"
| "poller_step p Stop_poller = poller_stop p"

text \<open>
  The chain neither dies nor doubles: until it is stopped the poller has its timer armed or a refresh under
  way, never both, and the delay it waits is the interval, doubled with each failure in a row up to the
  ceiling. Once stopped it arms no timer again.
\<close>

definition poller_inv :: "poller \<Rightarrow> bool" where
  "poller_inv p =
     ((pl_stopped p \<longrightarrow> pl_timer p = None) \<and> (\<not> pl_stopped p \<longrightarrow> (pl_timer p = None) = pl_ticking p) \<and>
      (\<forall>d. pl_timer p = Some d \<longrightarrow> d = min (CATALOG_POLL_INTERVAL_MS * 2 ^ failures p) CATALOG_BACKOFF_MAX_MS))"

lemma poller_step_inv: "poller_inv p \<Longrightarrow> poller_inv (poller_step p op)"
  by (cases op) (auto simp: poller_inv_def poller_tick_def poller_outcome_def poller_stop_def schedule_tick_def CATALOG_POLL_INTERVAL_MS_def
      CATALOG_BACKOFF_MAX_MS_def Let_def)

interpretation poller_life: stepwise poller_step "\<lambda>_ _. True" poller_inv
  by unfold_locales (rule poller_step_inv)

lemma poller_alive: "poller_inv (foldl poller_step startCatalogPoller ops)"
proof -
  have "poller_inv startCatalogPoller"
    by (simp add: poller_inv_def startCatalogPoller_def schedule_tick_def CATALOG_POLL_INTERVAL_MS_def CATALOG_BACKOFF_MAX_MS_def)
  then show ?thesis by (rule poller_life.run_inv) (rule ok_run_True)
qed

lemma poller_delay:
  assumes "pl_timer (foldl poller_step startCatalogPoller ops) = Some d"
  shows "CATALOG_POLL_INTERVAL_MS \<le> d \<and> d \<le> CATALOG_BACKOFF_MAX_MS"
  using poller_alive [of ops] assms by (auto simp: poller_inv_def CATALOG_POLL_INTERVAL_MS_def CATALOG_BACKOFF_MAX_MS_def)

end
