(* ===== verification/Storage.thy ===== *)
theory Storage
  imports Keys Config
begin

text \<open>
  What the gateway finds and prepares on disk at boot: the schema of \<open>src/server/db.ts\<close> with its migrations,
  the web root of \<open>src/server/static.ts\<close> and the conversation files of \<open>src/host/discovery.ts\<close>. A database is
  its version, the columns of its tables and, of the key rows, the display prefixes the migration touches.
\<close>

section \<open>Schema and migrations\<close>

record db_file =
  user_version :: int
  db_columns :: "(string, string list) jsmap"
  prefixes :: "string list"

definition SCHEMA_VERSION :: int where
  "SCHEMA_VERSION = 3"

text \<open>The tables of \<open>DDL\<close>; the indexes carry no data.\<close>

definition DDL :: "(string \<times> string list) list" where
  "DDL =
     [(''api_keys'', [''id'', ''name'', ''key_hash'', ''prefix'', ''created_at'', ''disabled_at'', ''daily_token_limit'', ''rpm_limit'', ''scopes'',
         ''last_used_at'', ''secret_enc'']),
      (''usage'', [''seq'', ''request_id'', ''key_id'', ''account_id'', ''model'', ''family'', ''protocol'', ''prompt_tokens'', ''completion_tokens'',
         ''reasoning_tokens'', ''cache_read_tokens'', ''total_tokens'', ''status'', ''duration_ms'', ''created_at'']),
      (''admin_sessions'', [''token_hash'', ''created_at'', ''expires_at'']),
      (''admin_settings'', [''key'', ''value''])]"

definition create_table :: "string \<times> string list \<Rightarrow> db_file \<Rightarrow> db_file" where
  "create_table t d = (if map_of (db_columns d) (fst t) = None then d\<lparr>db_columns := db_columns d @ [t]\<rparr> else d)"

definition add_column :: "string \<Rightarrow> string \<Rightarrow> db_file \<Rightarrow> db_file" where
  "add_column t c d =
     (let cols = or_else (map_of (db_columns d) t) []
      in if c \<in> set cols then d else d\<lparr>db_columns := jm_set t (cols @ [c]) (db_columns d)\<rparr>)"

definition migrateUsageErrorText :: "db_file \<Rightarrow> db_file" where
  "migrateUsageErrorText = add_column ''usage'' ''error_text''"

definition migrateKeySecretEnc :: "db_file \<Rightarrow> db_file" where
  "migrateKeySecretEnc = add_column ''api_keys'' ''secret_enc''"

text \<open>\<open>prefix LIKE 'sk-agy-_%'\<close>: without regard to the case of letters, and with a character behind the marker.\<close>

definition has_marker :: "string \<Rightarrow> bool" where
  "has_marker p = (to_lower (take (length KEY_MARK) p) = KEY_MARK \<and> length KEY_MARK < length p)"

definition migrateKeyPrefixMarker :: "db_file \<Rightarrow> db_file" where
  "migrateKeyPrefixMarker d = d\<lparr>prefixes := map (\<lambda>p. if has_marker p then drop (length KEY_MARK) p else p) (prefixes d)\<rparr>"

definition upgrade_steps :: "(db_file \<Rightarrow> db_file) list" where
  "upgrade_steps = map create_table DDL @ [migrateUsageErrorText, migrateKeyPrefixMarker, migrateKeySecretEnc,
     \<lambda>d. d\<lparr>user_version := SCHEMA_VERSION\<rparr>]"

definition run_steps :: "(db_file \<Rightarrow> db_file) list \<Rightarrow> db_file \<Rightarrow> db_file" where
  "run_steps fs d = foldl (\<lambda>d f. f d) d fs"

definition openDb :: "db_file \<Rightarrow> db_file" where
  "openDb d = (if user_version d < SCHEMA_VERSION then run_steps upgrade_steps d else d)"

section \<open>The web root\<close>

text \<open>\<open>is_file\<close>: the path exists and is a file; \<open>entry\<close> and \<open>cwd\<close> are the parent of the entry's directory and the working directory.\<close>

definition web_candidates :: "string \<Rightarrow> env \<Rightarrow> string \<Rightarrow> string \<Rightarrow> string list option" where
  "web_candidates cfg_dist e entry cwd =
     (if cfg_dist = ''none'' then None
      else if e ''AGY_PROXY_WEB_DIST'' = Some ''none'' then None
      else Some ((if cfg_dist \<noteq> [] then [cfg_dist] else []) @
                 (case e ''AGY_PROXY_WEB_DIST'' of Some v \<Rightarrow> if v \<noteq> [] then [v] else [] | None \<Rightarrow> []) @
                 [entry @ ''/web/dist'', cwd @ ''/web/dist'']))"

definition resolveWebDist :: "(string \<Rightarrow> string) \<Rightarrow> (string \<Rightarrow> bool) \<Rightarrow> string \<Rightarrow> env \<Rightarrow> string \<Rightarrow> string \<Rightarrow> string option" where
  "resolveWebDist resolve is_file cfg_dist e entry cwd =
     Option.bind (web_candidates cfg_dist e entry cwd) (\<lambda>cs. find (\<lambda>dir. is_file (dir @ ''/index.html'')) (map resolve cs))"

section \<open>Conversation files\<close>

text \<open>\<open>listing\<close>: the names in the directory with their times (\<open>None\<close> if the file vanished), \<open>None\<close> if it cannot be read.\<close>

definition snapshotConversations :: "(string \<times> ms option) list option \<Rightarrow> (string, ms) jsmap" where
  "snapshotConversations listing =
     (case listing of
        None \<Rightarrow> []
      | Some names \<Rightarrow> concat (map (\<lambda>(x, t). if ends_with x ''.db'' then (case t of Some m \<Rightarrow> [(x, m)] | None \<Rightarrow> []) else []) names))"

definition strip_db :: "string \<Rightarrow> string" where
  "strip_db x = (if ends_with x ''.db'' then take (length x - 3) x else x)"

definition diffConversations :: "(string, ms) jsmap \<Rightarrow> (string \<times> ms option) list option \<Rightarrow> string option \<times> bool" where
  "diffConversations before listing =
     (let added = filter (\<lambda>(x, t). x \<notin> fst ` set before) (snapshotConversations listing);
          sorted_desc = sort_key (\<lambda>(x, t). - t) added
      in case sorted_desc of [] \<Rightarrow> (None, False) | (x, t) # rest \<Rightarrow> (Some (strip_db x), length added > 1))"

text \<open>The conversation found is a new one and the newest of the new ones.\<close>

lemma diff_newest:
  assumes "diffConversations before listing = (Some i, amb)"
  shows "\<exists>x t. (x, t) \<in> set (snapshotConversations listing) \<and> x \<notin> fst ` set before \<and> i = strip_db x \<and>
    (\<forall>(y, u) \<in> set (snapshotConversations listing). y \<notin> fst ` set before \<longrightarrow> u \<le> t)"
proof -
  let ?added = "filter (\<lambda>(x, t). x \<notin> fst ` set before) (snapshotConversations listing)"
  let ?f = "\<lambda>(x :: string, t :: ms). - t"
  obtain x t rest where s: "sort_key ?f ?added = (x, t) # rest" "i = strip_db x"
    using assms by (auto simp: diffConversations_def Let_def split: list.splits prod.splits)
  have set: "set ((x, t) # rest) = set ?added" using arg_cong [OF s(1), of set] by (simp only: set_sort)
  have "sorted (map ?f ((x, t) # rest))" using sorted_sort_key [of ?f ?added] unfolding s(1) .
  then have "\<forall>z \<in> set ((x, t) # rest). - t \<le> ?f z" by auto
  then have le: "\<forall>z \<in> set ?added. - t \<le> ?f z" unfolding set .
  have mem: "(x, t) \<in> set ?added" unfolding set [symmetric] by simp
  have "u \<le> t" if "(y, u) \<in> set (snapshotConversations listing)" "y \<notin> fst ` set before" for y u
    using le that by auto
  with mem s(2) show ?thesis by (intro exI [of _ x] exI [of _ t]) auto
qed

text \<open>
  The engine passes the account's home directory, while agy keeps its conversations in a directory below
  it: a directory without conversation files of its own never yields one.
\<close>

lemma home_yields_nothing:
  assumes "\<forall>(x, t) \<in> set names. \<not> ends_with x ''.db''"
  shows "diffConversations before (Some names) = (None, False)"
proof -
  have "snapshotConversations (Some names) = []" using assms by (auto simp: snapshotConversations_def)
  then show ?thesis by (simp add: diffConversations_def)
qed

section \<open>Migrations are restartable\<close>

definition columns :: "db_file \<Rightarrow> string \<Rightarrow> string list" where
  "columns d t = or_else (map_of (db_columns d) t) []"

text \<open>Prefixes that were never longer than the eight characters a key shows.\<close>

definition short_prefixes :: "db_file \<Rightarrow> bool" where
  "short_prefixes d = (\<forall>p \<in> set (prefixes d). length p \<le> 8)"

text \<open>Each step with what it establishes.\<close>

definition upgrades :: "((db_file \<Rightarrow> db_file) \<times> (db_file \<Rightarrow> bool)) list" where
  "upgrades = map (\<lambda>t. (create_table t, \<lambda>d. map_of (db_columns d) (fst t) \<noteq> None)) DDL @
     [(migrateUsageErrorText, \<lambda>d. ''error_text'' \<in> set (columns d ''usage'')),
      (migrateKeyPrefixMarker, \<lambda>d. \<forall>p \<in> set (prefixes d). \<not> has_marker p),
      (migrateKeySecretEnc, \<lambda>d. ''secret_enc'' \<in> set (columns d ''api_keys'')),
      (\<lambda>d. d\<lparr>user_version := SCHEMA_VERSION\<rparr>, \<lambda>d. user_version d = SCHEMA_VERSION)]"

lemma upgrades_steps: "map fst upgrades = upgrade_steps"
  by (simp add: upgrades_def upgrade_steps_def comp_def)

lemma create_table_keeps:
  "map_of (db_columns d) t \<noteq> None \<Longrightarrow> map_of (db_columns (create_table x d)) t = map_of (db_columns d) t"
  "map_of (db_columns (create_table x d)) (fst x) \<noteq> None"
  "prefixes (create_table x d) = prefixes d" "user_version (create_table x d) = user_version d"
  by (cases x; auto simp: create_table_def map_add_def split: option.splits)+

lemma create_table_columns: "c \<in> set (columns d t) \<Longrightarrow> c \<in> set (columns (create_table x d) t)"
  using create_table_keeps(1) [of d t x] by (cases "map_of (db_columns d) t") (auto simp: columns_def or_else_def)

lemma add_column_keeps:
  "map_of (db_columns d) u \<noteq> None \<Longrightarrow> map_of (db_columns (add_column t c d)) u \<noteq> None"
  "x \<in> set (columns d u) \<Longrightarrow> x \<in> set (columns (add_column t c d) u)"
  "c \<in> set (columns (add_column t c d) t)"
  "c \<in> set (columns d t) \<Longrightarrow> add_column t c d = d"
  "prefixes (add_column t c d) = prefixes d" "user_version (add_column t c d) = user_version d"
  by (auto simp: add_column_def columns_def or_else_def Let_def jm.get_put split: option.splits if_splits)

lemma marker_once: "short_prefixes d \<Longrightarrow> p \<in> set (prefixes (migrateKeyPrefixMarker d)) \<Longrightarrow> \<not> has_marker p \<and> length p \<le> 8"
  by (auto simp: short_prefixes_def migrateKeyPrefixMarker_def has_marker_def KEY_MARK_def)

lemma marker_keeps:
  "db_columns (migrateKeyPrefixMarker d) = db_columns d" "user_version (migrateKeyPrefixMarker d) = user_version d"
  "\<forall>p \<in> set (prefixes d). \<not> has_marker p \<Longrightarrow> migrateKeyPrefixMarker d = d"
  "columns (migrateKeyPrefixMarker d) t = columns d t"
  by (simp_all add: migrateKeyPrefixMarker_def columns_def cong: map_cong)

definition sound_step :: "(db_file \<Rightarrow> db_file) \<Rightarrow> (db_file \<Rightarrow> bool) \<Rightarrow> bool" where
  "sound_step f D = (\<forall>d. (short_prefixes d \<longrightarrow> D (f d) \<and> short_prefixes (f d)) \<and> (D d \<longrightarrow> f d = d))"

lemma upgrades_sound: "\<forall>(f, D) \<in> set upgrades. sound_step f D"
proof -
  have v: "sound_step (\<lambda>d. d\<lparr>user_version := SCHEMA_VERSION\<rparr>) (\<lambda>d. user_version d = SCHEMA_VERSION)"
    by (auto simp: sound_step_def short_prefixes_def)
  have t: "sound_step (create_table x) (\<lambda>d. map_of (db_columns d) (fst x) \<noteq> None)" for x
    using create_table_keeps(2) [of x] by (simp add: sound_step_def short_prefixes_def create_table_keeps(3)) (simp add: create_table_def)
  have a: "sound_step (add_column u c) (\<lambda>d. c \<in> set (columns d u))" for u c
    by (simp add: sound_step_def short_prefixes_def add_column_keeps)
  have m: "sound_step migrateKeyPrefixMarker (\<lambda>d. \<forall>p \<in> set (prefixes d). \<not> has_marker p)"
    unfolding sound_step_def
  proof (intro allI conjI impI)
    fix d assume s: "short_prefixes d"
    show "\<forall>p \<in> set (prefixes (migrateKeyPrefixMarker d)). \<not> has_marker p" using marker_once [OF s] by blast
    show "short_prefixes (migrateKeyPrefixMarker d)" unfolding short_prefixes_def using marker_once [OF s] by blast
  qed (rule marker_keeps(3))
  have "sound_step f D" if "(f, D) \<in> set upgrades" for f D
    using that unfolding upgrades_def migrateUsageErrorText_def migrateKeySecretEnc_def set_append set_map list.set
    by (elim UnE imageE insertE emptyE; simp only: prod.inject; elim conjE; simp only: t a m v)
  then show ?thesis by blast
qed

definition keeps_all :: "(db_file \<Rightarrow> db_file) \<Rightarrow> bool" where
  "keeps_all f = (\<forall>d. (\<forall>t. map_of (db_columns d) t \<noteq> None \<longrightarrow> map_of (db_columns (f d)) t \<noteq> None) \<and>
     (\<forall>c u. c \<in> set (columns d u) \<longrightarrow> c \<in> set (columns (f d) u)) \<and>
     ((\<forall>p \<in> set (prefixes d). \<not> has_marker p) \<longrightarrow> (\<forall>p \<in> set (prefixes (f d)). \<not> has_marker p)) \<and>
     (user_version d = SCHEMA_VERSION \<longrightarrow> user_version (f d) = SCHEMA_VERSION))"

lemma step_keeps: "(f, D) \<in> set upgrades \<Longrightarrow> keeps_all f"
proof -
  have t: "keeps_all (create_table x)" for x
    unfolding keeps_all_def using create_table_keeps(1) create_table_columns by (auto simp: create_table_keeps(3,4))
  have a: "keeps_all (add_column u c)" for u c
    unfolding keeps_all_def using add_column_keeps(1,2) by (auto simp: add_column_keeps(5,6))
  have m: "keeps_all migrateKeyPrefixMarker"
    unfolding keeps_all_def by (simp add: marker_keeps(1,2,4)) (simp add: marker_keeps(3))
  have v: "keeps_all (\<lambda>d. d\<lparr>user_version := SCHEMA_VERSION\<rparr>)" by (simp add: keeps_all_def columns_def)
  assume "(f, D) \<in> set upgrades"
  then show ?thesis using t a m v by (auto simp: upgrades_def migrateUsageErrorText_def migrateKeySecretEnc_def)
qed

lemma done_kept: "(g, D) \<in> set upgrades \<Longrightarrow> keeps_all f \<Longrightarrow> D d \<Longrightarrow> D (f d)"
  unfolding keeps_all_def upgrades_def by auto

lemma upgrades_keep: "\<forall>(f, _) \<in> set upgrades. \<forall>(_, D) \<in> set upgrades. \<forall>d. D d \<longrightarrow> D (f d)"
  using step_keeps done_kept by blast

definition all_done :: "((db_file \<Rightarrow> db_file) \<times> (db_file \<Rightarrow> bool)) list \<Rightarrow> db_file \<Rightarrow> bool" where
  "all_done ps d = (\<forall>(f, D) \<in> set ps. D d)"

lemma run_establishes:
  assumes "\<forall>(f, D) \<in> set ps. sound_step f D" "\<forall>(f, _) \<in> set ps. \<forall>(_, D) \<in> set (qs @ ps). \<forall>d. D d \<longrightarrow> D (f d)"
    and "short_prefixes d" "all_done qs d"
  shows "all_done (qs @ ps) (run_steps (map fst ps) d)"
  using assms
proof (induction ps arbitrary: qs d)
  case (Cons x ps)
  obtain f D where x: "x = (f, D)" by (cases x)
  have fd: "D (f d)" "short_prefixes (f d)" using Cons.prems(1,3) x by (auto simp: sound_step_def)
  have k: "E (f d)" if "(g, E) \<in> set (qs @ x # ps)" "E d" for g E
  proof -
    have "\<forall>(_, D) \<in> set (qs @ x # ps). \<forall>d. D d \<longrightarrow> D (f d)" using Cons.prems(2) x by simp
    from bspec [OF this that(1)] that(2) show ?thesis by simp
  qed
  have q: "all_done (qs @ [x]) (f d)" unfolding all_done_def
  proof (clarify)
    fix g E assume "(g, E) \<in> set (qs @ [x])"
    then show "E (f d)" using k [of g E] fd(1) Cons.prems(4) x by (auto simp: all_done_def)
  qed
  have p1: "\<forall>(f, D) \<in> set ps. sound_step f D" using Cons.prems(1) by simp
  have p2: "\<forall>(f, _) \<in> set ps. \<forall>(_, D) \<in> set ((qs @ [x]) @ ps). \<forall>d. D d \<longrightarrow> D (f d)" using Cons.prems(2) by simp
  from Cons.IH [OF p1 p2 fd(2) q] show ?case by (simp add: run_steps_def x)
qed (simp add: run_steps_def)

lemma run_done:
  assumes "\<forall>(f, D) \<in> set ps. sound_step f D" "all_done ps d"
  shows "run_steps (map fst ps) d = d"
  using assms
proof (induction ps)
  case (Cons x ps)
  obtain f D where x: "x = (f, D)" by (cases x)
  have "f d = d" using Cons.prems x by (auto simp: sound_step_def all_done_def)
  with Cons x show ?case by (auto simp: run_steps_def all_done_def)
qed (simp add: run_steps_def)

text \<open>
  An upgrade that was interrupted after any of its statements is completed by the next start exactly as if it
  had not been interrupted, and an upgraded database is left as it is.
\<close>

lemma upgrade_restartable:
  assumes "short_prefixes d" "user_version d < SCHEMA_VERSION"
  shows "openDb (run_steps (take k upgrade_steps) d) = openDb d"
    and "user_version (openDb d) = SCHEMA_VERSION \<and> ''error_text'' \<in> set (columns (openDb d) ''usage'') \<and>
      ''secret_enc'' \<in> set (columns (openDb d) ''api_keys'') \<and> (\<forall>p \<in> set (prefixes (openDb d)). \<not> has_marker p)"
proof -
  let ?ps = "take k upgrades"
  let ?mid = "run_steps (map fst ?ps) d"
  have sound: "\<forall>(f, D) \<in> set ?ps. sound_step f D" using upgrades_sound by (auto dest: in_set_takeD)
  have keep: "\<forall>(f, _) \<in> set ?ps. \<forall>(_, D) \<in> set ([] @ ?ps). \<forall>d. D d \<longrightarrow> D (f d)"
    using upgrades_keep by (fastforce dest: in_set_takeD)
  have "all_done ?ps ?mid" using run_establishes [OF sound keep assms(1)] by (simp add: all_done_def)
  from run_done [OF sound this] have again: "run_steps (map fst ?ps) ?mid = ?mid" .
  have split: "run_steps (map fst upgrades) x = run_steps (map fst (drop k upgrades)) (run_steps (map fst ?ps) x)" for x
    by (metis append_take_drop_id foldl_append map_append run_steps_def)
  have full: "run_steps (map fst upgrades) ?mid = run_steps (map fst upgrades) d" using split again by metis
  have all: "all_done upgrades (run_steps (map fst upgrades) d)"
    using run_establishes [OF upgrades_sound _ assms(1), of "[]"] upgrades_keep by (simp add: all_done_def)
  have o: "openDb d = run_steps (map fst upgrades) d" using assms(2) by (simp add: openDb_def upgrades_steps)
  show "openDb (run_steps (take k upgrade_steps) d) = openDb d"
  proof (cases "user_version ?mid < SCHEMA_VERSION")
    case True
    then show ?thesis using full o by (simp add: openDb_def upgrades_steps flip: take_map)
  next
    case False
    have "k \<ge> length upgrades"
    proof (rule ccontr)
      assume "\<not> ?thesis"
      then have "k \<le> length upgrades - 1" by simp
      from set_take_subset_set_take [OF this] have "set ?ps \<subseteq> set (butlast upgrades)" by (simp add: butlast_conv_take)
      have same: "user_version (f x) = user_version x" if "f \<in> fst ` set (butlast upgrades)" for f x
        using that by (auto simp: upgrades_def butlast_append migrateUsageErrorText_def migrateKeySecretEnc_def add_column_keeps(6)
            create_table_keeps(4) marker_keeps(2))
      have "user_version (run_steps fs x) = user_version x" if "set fs \<subseteq> fst ` set (butlast upgrades)" for fs x
        using that by (induction fs arbitrary: x) (auto simp: run_steps_def same)
      from this [of "map fst ?ps" d] \<open>set ?ps \<subseteq> set (butlast upgrades)\<close> False assms(2) show False by auto
    qed
    then show ?thesis using o all False by (simp add: openDb_def flip: upgrades_steps take_map)
  qed
  show "user_version (openDb d) = SCHEMA_VERSION \<and> ''error_text'' \<in> set (columns (openDb d) ''usage'') \<and>
      ''secret_enc'' \<in> set (columns (openDb d) ''api_keys'') \<and> (\<forall>p \<in> set (prefixes (openDb d)). \<not> has_marker p)"
    using all unfolding o by (auto simp: all_done_def upgrades_def)
qed

end
