(* ===== verification/Console.thy ===== *)
theory Console
  imports AdminApi
begin

text \<open>
  The client of the web console: \<open>web/src/api/client.ts\<close>, the export \<open>web/src/lib/csv.ts\<close> and the usage page
  \<open>web/src/routes/usage.tsx\<close>, against the admin API they talk to. \<open>Date.parse\<close> of the browser is \<open>dparse\<close>. Text is
  spelled by its UTF-8 bytes, as \<open>decodeURIComponent\<close> returns it.
\<close>

section \<open>Percent encoding\<close>

definition hex_upper :: "nat \<Rightarrow> char" where
  "hex_upper n = char_of (if n < 10 then 48 + n else 55 + n)"

definition percent_byte :: "char \<Rightarrow> string" where
  "percent_byte c = [CHR ''%'', hex_upper (of_char c div 16), hex_upper (of_char c mod 16)]"

definition uri_unreserved :: "char \<Rightarrow> bool" where
  "uri_unreserved c =
     (let n = of_char c :: nat in
      48 \<le> n \<and> n \<le> 57 \<or> 65 \<le> n \<and> n \<le> 90 \<or> 97 \<le> n \<and> n \<le> 122 \<or> n \<in> {45, 95, 46, 33, 126, 42, 39, 40, 41})"

definition encodeURIComponent :: "string \<Rightarrow> string" where
  "encodeURIComponent s = concat (map (\<lambda>c. if uri_unreserved c then [c] else percent_byte c) s)"

text \<open>Bytes that spell text.\<close>

function utf8_text :: "string \<Rightarrow> bool" where
  "utf8_text [] = True"
| "utf8_text (c # cs) =
     (case utf8_rest (of_char c) of
        None \<Rightarrow> False
      | Some k \<Rightarrow>
          (let ns = map of_char (take k cs) in
           length ns = k \<and> list_all (\<lambda>n. 128 \<le> n \<and> n < 192) ns \<and> utf8_first_ok (of_char c) ns \<and> utf8_text (drop k cs)))"
  by pat_completeness auto

termination
  by (relation "measure length") auto

section \<open>Requests and replies\<close>

text \<open>The value of a query parameter; \<open>ANum None\<close> is \<open>NaN\<close>.\<close>

datatype query_arg = AText string | ANum "int option" | AUndefined

definition arg_text :: "query_arg \<Rightarrow> string option" where
  "arg_text v = (case v of
     AUndefined \<Rightarrow> None
   | AText s \<Rightarrow> if s = [] then None else Some s
   | ANum n \<Rightarrow> Some (case n of None \<Rightarrow> ''NaN'' | Some i \<Rightarrow> show_int i))"

definition query_parts :: "(string \<times> query_arg) list \<Rightarrow> string list" where
  "query_parts params = map_filter_opt (\<lambda>(k, v). map_option (\<lambda>s. encodeURIComponent k @ ''='' @ encodeURIComponent s) (arg_text v)) params"

definition buildQuery :: "(string \<times> query_arg) list \<Rightarrow> string" where
  "buildQuery params = (let parts = query_parts params in if length parts > 0 then ''?'' @ join ''&'' parts else [])"

record http_answer =
  h_status :: nat
  h_text :: string

text \<open>\<open>ApiError\<close> with its status and message.\<close>

datatype api_error = ApiError nat string

definition parse_answer :: "(string \<Rightarrow> json option) \<Rightarrow> http_answer \<Rightarrow> api_error + json" where
  "parse_answer jparse res =
     (let st = h_status res; text = h_text res in
      case (if text = [] then Some JNull else jparse text) of
        None \<Rightarrow> Inl (ApiError st (if text = [] then ''HTTP '' @ show_nat st else take 200 text))
      | Some body \<Rightarrow>
          (let bodyOk = (jget body ''ok'' = Some (JBool True)) in
           if \<not> (200 \<le> st \<and> st < 300) \<and> \<not> bodyOk
           then Inl (ApiError st (case jget body ''error'' of Some (JStr m) \<Rightarrow> m | _ \<Rightarrow> ''HTTP '' @ show_nat st))
           else Inr body))"

record web_request =
  w_method :: string
  w_url :: string
  w_headers :: "(string \<times> string) list"
  w_body :: "json option"

definition apiGet :: "string \<Rightarrow> web_request" where
  "apiGet url = \<lparr>w_method = ''GET'', w_url = url, w_headers = [], w_body = None\<rparr>"

definition apiSend :: "string \<Rightarrow> string \<Rightarrow> json option \<Rightarrow> web_request" where
  "apiSend meth url body = \<lparr>w_method = meth, w_url = url,
     w_headers = (''x-requested-with'', ''agy-proxy-webui'') # (if body \<noteq> None then [(''content-type'', ''application/json'')] else []),
     w_body = body\<rparr>"

text \<open>The calls of the object \<open>api\<close>; a patch is the object it is given.\<close>

datatype api_call =
    CLogin string | CLogout | CMe | CStatus | CCatalogRefresh | CPool
  | CAuthBegin "string option" | CAuthStatus | CAuthComplete string | CAuthCancel
  | CPatchAccount string "(string \<times> json) list" | CDeleteAccount string | CClearCooldown string "string option"
  | CRefreshAccountQuota string | CRefreshQuota | CPoolMode string
  | CKeys | CCreateKey "(string \<times> json) list" | CPatchKey string "(string \<times> json) list" | CDeleteKey string
  | CRevealKeySecret string | CRotateKey string
  | CUsage string | CUsageSummary | CSettings | CPutSettings "(string \<times> json) list"

definition opt_field :: "string \<Rightarrow> string option \<Rightarrow> json" where
  "opt_field k v = JObj (case v of None \<Rightarrow> [] | Some s \<Rightarrow> [(k, JStr s)])"

definition account_url :: "string \<Rightarrow> string" where
  "account_url i = ''/admin/pool/accounts/'' @ encodeURIComponent i"

definition key_url :: "string \<Rightarrow> string" where
  "key_url i = ''/admin/keys/'' @ encodeURIComponent i"

fun api_request :: "api_call \<Rightarrow> web_request" where
  "api_request (CLogin p) = apiSend ''POST'' ''/admin/login'' (Some (JObj [(''password'', JStr p)]))"
| "api_request CLogout = apiSend ''POST'' ''/admin/logout'' None"
| "api_request CMe = apiGet ''/admin/me''"
| "api_request CStatus = apiGet ''/admin/status''"
| "api_request CCatalogRefresh = apiSend ''POST'' ''/admin/catalog/refresh'' (Some (JObj []))"
| "api_request CPool = apiGet ''/admin/pool''"
| "api_request (CAuthBegin al) = apiSend ''POST'' ''/admin/pool/auth/begin'' (Some (opt_field ''alias'' al))"
| "api_request CAuthStatus = apiGet ''/admin/pool/auth/status''"
| "api_request (CAuthComplete cd) = apiSend ''POST'' ''/admin/pool/auth/complete'' (Some (JObj [(''code'', JStr cd)]))"
| "api_request CAuthCancel = apiSend ''POST'' ''/admin/pool/auth/cancel'' (Some (JObj []))"
| "api_request (CPatchAccount i patch) = apiSend ''PATCH'' (account_url i) (Some (JObj patch))"
| "api_request (CDeleteAccount i) = apiSend ''DELETE'' (account_url i) None"
| "api_request (CClearCooldown i fam) = apiSend ''POST'' (account_url i @ ''/clear-cooldown'') (Some (opt_field ''family'' fam))"
| "api_request (CRefreshAccountQuota i) = apiSend ''POST'' (account_url i @ ''/refresh-quota'') (Some (JObj []))"
| "api_request CRefreshQuota = apiSend ''POST'' ''/admin/pool/quota/refresh'' (Some (JObj []))"
| "api_request (CPoolMode m) = apiSend ''POST'' ''/admin/pool/mode'' (Some (JObj [(''mode'', JStr m)]))"
| "api_request CKeys = apiGet ''/admin/keys''"
| "api_request (CCreateKey body) = apiSend ''POST'' ''/admin/keys'' (Some (JObj body))"
| "api_request (CPatchKey i patch) = apiSend ''PATCH'' (key_url i) (Some (JObj patch))"
| "api_request (CDeleteKey i) = apiSend ''DELETE'' (key_url i) None"
| "api_request (CRevealKeySecret i) = apiGet (key_url i @ ''/secret'')"
| "api_request (CRotateKey i) = apiSend ''POST'' (key_url i @ ''/rotate'') (Some (JObj []))"
| "api_request (CUsage query) = apiGet (''/admin/usage'' @ query)"
| "api_request CUsageSummary = apiGet ''/admin/usage/summary''"
| "api_request CSettings = apiGet ''/admin/settings''"
| "api_request (CPutSettings patch) = apiSend ''PUT'' ''/admin/settings'' (Some (JObj patch))"

section \<open>CSV export\<close>

text \<open>A cell; \<open>null\<close> and \<open>undefined\<close> are empty text.\<close>

datatype csv_cell = CellNum rat | CellText string

definition dquote :: char where
  "dquote = CHR 0x22"

definition formula_prefix :: "string \<Rightarrow> bool" where
  "formula_prefix s = (case s of [] \<Rightarrow> False | c # _ \<Rightarrow> c \<in> {CHR ''='', CHR ''+'', CHR ''@'', CHR 0x09, CHR 0x0D, CHR ''-''})"

definition needs_quotes :: "string \<Rightarrow> bool" where
  "needs_quotes s = list_ex (\<lambda>c. c \<in> {dquote, CHR '','', CHR 0x0D, CHR 0x0A}) s"

definition double_quotes :: "string \<Rightarrow> string" where
  "double_quotes s = concat (map (\<lambda>c. if c = dquote then [dquote, dquote] else [c]) s)"

fun escapeField :: "csv_cell \<Rightarrow> string" where
  "escapeField (CellNum n) = show_rat n"
| "escapeField (CellText s) =
     (let out = (if formula_prefix s then CHR 0x27 # s else s)
      in if needs_quotes out then [dquote] @ double_quotes out @ [dquote] else out)"

definition crlf :: string where
  "crlf = [CHR 0x0D, CHR 0x0A]"

definition csv_line :: "csv_cell list \<Rightarrow> string" where
  "csv_line cells = join '','' (map escapeField cells)"

definition toCsv :: "'r list \<Rightarrow> (string \<times> ('r \<Rightarrow> csv_cell)) list \<Rightarrow> string" where
  "toCsv rows columns =
     join crlf (csv_line (map (\<lambda>c. CellText (fst c)) columns) # map (\<lambda>row. csv_line (map (\<lambda>c. snd c row) columns)) rows) @ crlf"

section \<open>The usage page\<close>

definition PAGE_SIZE :: nat where
  "PAGE_SIZE = 50"

record usage_filters =
  f_keyId :: string
  f_accountId :: string
  f_model :: string
  f_family :: string
  f_protocol :: string
  f_status :: string
  f_from :: string
  f_to :: string

definition date_arg :: "(string \<Rightarrow> int option) \<Rightarrow> string \<Rightarrow> query_arg" where
  "date_arg dparse s = (if s = [] then AUndefined else ANum (dparse s))"

definition usage_page_query :: "(string \<Rightarrow> int option) \<Rightarrow> usage_filters \<Rightarrow> nat \<Rightarrow> string" where
  "usage_page_query dparse f page =
     buildQuery [(''keyId'', AText (f_keyId f)), (''accountId'', AText (f_accountId f)), (''model'', AText (f_model f)),
       (''family'', AText (f_family f)), (''protocol'', AText (f_protocol f)), (''status'', AText (f_status f)),
       (''from'', date_arg dparse (f_from f)), (''to'', date_arg dparse (f_to f)),
       (''limit'', ANum (Some (int PAGE_SIZE))), (''offset'', ANum (Some (int (page * PAGE_SIZE))))]"

definition usage_pages :: "nat \<Rightarrow> nat" where
  "usage_pages n_rows = max 1 ((n_rows + PAGE_SIZE - 1) div PAGE_SIZE)"

definition prev_page :: "nat \<Rightarrow> nat" where
  "prev_page p = p - 1"

definition next_page :: "nat \<Rightarrow> nat \<Rightarrow> nat" where
  "next_page n_rows p = (if p + 1 \<ge> usage_pages n_rows then p else p + 1)"

text \<open>A change of the filters leaves the page where it is; \<open>UNext\<close> carries the total the page has loaded.\<close>

record usage_view =
  uv_filters :: usage_filters
  uv_page :: nat

datatype usage_op = UFilter usage_filters | UPrev | UNext nat

fun usage_step :: "usage_view \<Rightarrow> usage_op \<Rightarrow> usage_view" where
  "usage_step v (UFilter f) = v\<lparr>uv_filters := f\<rparr>"
| "usage_step v UPrev = v\<lparr>uv_page := prev_page (uv_page v)\<rparr>"
| "usage_step v (UNext n_rows) = v\<lparr>uv_page := next_page n_rows (uv_page v)\<rparr>"

text \<open>Whether the export button is disabled, for the loaded rows and the total.\<close>

definition export_disabled :: "(nat \<times> 'r list) option \<Rightarrow> bool" where
  "export_disabled d = (case d of None \<Rightarrow> True | Some (n_rows, rows) \<Rightarrow> n_rows > PAGE_SIZE \<or> length rows = 0)"

definition opt_text :: "string option \<Rightarrow> csv_cell" where
  "opt_text s = CellText (or_else s [])"

definition usage_columns :: "(string \<times> (usage_row_view \<Rightarrow> csv_cell)) list" where
  "usage_columns =
     [(''request_id'', \<lambda>r. CellText (u_requestId r)),
      (''time'', \<lambda>r. CellText (or_else (toISOString (usage_row.createdAt r)) [])),
      (''key_id'', \<lambda>r. opt_text (u_keyId r)),
      (''account_id'', \<lambda>r. opt_text (u_accountId r)),
      (''account_alias'', \<lambda>r. opt_text (coalesce (accountAlias r) (coalesce (accountEmail r) (u_accountId r)))),
      (''model'', \<lambda>r. CellText (u_model r)),
      (''family'', \<lambda>r. CellText (u_family r)),
      (''protocol'', \<lambda>r. CellText (u_protocol r)),
      (''status'', \<lambda>r. CellText (u_status r)),
      (''prompt_tokens'', \<lambda>r. CellNum (u_promptTokens r)),
      (''completion_tokens'', \<lambda>r. CellNum (u_completionTokens r)),
      (''total_tokens'', \<lambda>r. CellNum (usage_row.totalTokens r)),
      (''duration_ms'', \<lambda>r. case u_durationMs r of None \<Rightarrow> CellText [] | Some n \<Rightarrow> CellNum n),
      (''error_text'', \<lambda>r. opt_text (u_errorText r))]"

text \<open>A creation time that is no date throws, so nothing is exported.\<close>

definition exportCsv :: "usage_row_view list option \<Rightarrow> string option" where
  "exportCsv rows =
     (case rows of
        None \<Rightarrow> None
      | Some rs \<Rightarrow>
          if length rs = 0 \<or> list_ex (\<lambda>r. toISOString (usage_row.createdAt r) = None) rs then None
          else Some (toCsv rs usage_columns))"

section \<open>Encoding read back\<close>

lemma hex_upper_digit: "n < 16 \<Longrightarrow> hex_digit (hex_upper n) = Some n"
  by (auto simp: hex_digit_def hex_upper_def Let_def)

lemma escaped_percent: "escaped (percent_byte c @ r) = Some (of_char c, r)"
proof -
  have "(of_char c :: nat) < 256" using range_nat_of_char by auto
  then have "(of_char c :: nat) div 16 < 16" by (simp add: less_mult_imp_div_less)
  then show ?thesis by (simp add: percent_byte_def hex_byte_def hex_upper_digit)
qed

lemma unreserved_ascii: "uri_unreserved c \<Longrightarrow> (of_char c :: nat) < 128"
  by (auto simp: uri_unreserved_def Let_def)

lemma unreserved_percent: "\<not> uri_unreserved CHR ''%''"
  by (simp add: uri_unreserved_def)

lemma continuation_percent:
  "list_all (\<lambda>c. 128 \<le> (of_char c :: nat) \<and> (of_char c :: nat) < 192) cs \<Longrightarrow>
   continuation (length cs) (encodeURIComponent cs @ r) = Some (map of_char cs, r)"
proof (induction cs)
  case (Cons c cs)
  then have "\<not> uri_unreserved c" using unreserved_ascii [of c] by auto
  with Cons show ?case by (simp add: encodeURIComponent_def escaped_percent)
qed (simp add: encodeURIComponent_def)

lemma encode_append: "encodeURIComponent (a @ b) = encodeURIComponent a @ encodeURIComponent b"
  by (simp add: encodeURIComponent_def)

lemma encode_read_back: "utf8_text s \<Longrightarrow> decodeURIComponent (encodeURIComponent s) = Some s"
proof (induction s rule: utf8_text.induct)
  case 1
  then show ?case by (simp add: encodeURIComponent_def)
next
  case (2 c cs)
  from "2.prems" obtain k where k: "utf8_rest (of_char c) = Some k" and
    len: "length (take k cs) = k" and cont: "list_all (\<lambda>n::nat. 128 \<le> n \<and> n < 192) (map of_char (take k cs))" and
    ok: "utf8_first_ok (of_char c) (map of_char (take k cs))" and rest: "utf8_text (drop k cs)"
    by (auto simp: Let_def split: option.splits)
  have IH: "decodeURIComponent (encodeURIComponent (drop k cs)) = Some (drop k cs)"
    using "2.IH" [OF k refl] rest by simp
  have enc: "encodeURIComponent cs = encodeURIComponent (take k cs) @ encodeURIComponent (drop k cs)"
    by (metis append_take_drop_id encode_append)
  show ?case
  proof (cases "uri_unreserved c")
    case True
    then have "c \<noteq> CHR ''%''" "k = 0" using unreserved_percent unreserved_ascii [OF True] k by (auto simp: utf8_rest_def)
    with True IH show ?thesis by (simp add: encodeURIComponent_def decodeURIComponent.simps(2))
  next
    case False
    have "continuation k (encodeURIComponent cs) = Some (map of_char (take k cs), encodeURIComponent (drop k cs))"
      using continuation_percent [of "take k cs" "encodeURIComponent (drop k cs)"] len cont enc by (simp add: list.pred_map comp_def)
    moreover have "encodeURIComponent (c # cs) = percent_byte c @ encodeURIComponent cs"
      using False by (simp add: encodeURIComponent_def)
    moreover obtain p where "percent_byte c = CHR ''%'' # p" by (simp add: percent_byte_def)
    ultimately show ?thesis
      using k ok IH len escaped_percent [of c "encodeURIComponent cs"]
      by (simp add: decodeURIComponent.simps(2) comp_def)
  qed
qed

section \<open>A query read back\<close>

text \<open>The parser of query strings: \<open>&\<close> between the pairs, \<open>=\<close> inside, both sides decoded.\<close>

definition query_pair :: "string \<Rightarrow> string \<times> query_value" where
  "query_pair p =
     (let (k, v) = split_at (\<lambda>c. c = CHR ''='') p; dec = (\<lambda>s. or_else (decodeURIComponent s) s)
      in (dec k, QOne (dec (or_else v []))))"

definition read_query :: "string \<Rightarrow> (string \<times> query_value) list" where
  "read_query q = (case q of [] \<Rightarrow> [] | c # r \<Rightarrow> map query_pair (split_on (\<lambda>c. c = CHR ''&'') r))"

definition sent_params :: "(string \<times> query_arg) list \<Rightarrow> (string \<times> string) list" where
  "sent_params = map_filter_opt (\<lambda>(k, v). map_option (Pair k) (arg_text v))"

lemma percent_chars: "x \<in> set (percent_byte c) \<Longrightarrow> x = CHR ''%'' \<or> uri_unreserved x"
proof -
  have "uri_unreserved (hex_upper n)" if "n < 16" for n using that by (auto simp: uri_unreserved_def hex_upper_def Let_def)
  moreover have "(of_char c :: nat) < 256" using range_nat_of_char by auto
  then have "(of_char c :: nat) div 16 < 16" "(of_char c :: nat) mod 16 < 16" by (simp_all add: less_mult_imp_div_less)
  ultimately show "x \<in> set (percent_byte c) \<Longrightarrow> ?thesis" by (auto simp: percent_byte_def)
qed

lemma encoded_chars: "x \<in> set (encodeURIComponent s) \<Longrightarrow> x = CHR ''%'' \<or> uri_unreserved x"
  by (auto simp: encodeURIComponent_def split: if_splits dest: percent_chars)

lemma encoded_no_sep: "x \<in> set (encodeURIComponent s) \<Longrightarrow> x \<notin> {CHR ''&'', CHR ''='', CHR ''?'', CHR ''/''}"
  using encoded_chars [of x s] by (auto simp: uri_unreserved_def)

lemma split_on_joined:
  "ps \<noteq> [] \<Longrightarrow> \<forall>p \<in> set ps. \<forall>c \<in> set p. c \<noteq> x \<Longrightarrow> split_on (\<lambda>c. c = x) (join [x] ps) = ps"
proof (induction ps rule: induct_list012)
  case (2 p)
  then show ?case by (induction p) auto
next
  case (3 p q ps)
  have "split_on (\<lambda>c. c = x) (p @ x # r) = p # split_on (\<lambda>c. c = x) r" if "\<forall>c \<in> set p. c \<noteq> x" for p r
    using that by (induction p) auto
  with 3 show ?case by simp
qed simp

lemma split_at_sep: "\<forall>c \<in> set a. c \<noteq> x \<Longrightarrow> split_at (\<lambda>c. c = x) (a @ x # b) = (a, Some b)"
  by (simp add: split_at_def takeWhile_append2)

lemma query_read_back:
  assumes "\<forall>(k, s) \<in> set (sent_params params). utf8_text k \<and> utf8_text s"
  shows "read_query (buildQuery params) = map (\<lambda>(k, s). (k, QOne s)) (sent_params params)"
proof -
  let ?enc = "\<lambda>(k, s). encodeURIComponent k @ ''='' @ encodeURIComponent s"
  have parts: "query_parts params = map ?enc (sent_params params)"
    unfolding query_parts_def sent_params_def by (induction params) (auto split: option.splits)
  have pair: "query_pair (?enc ks) = (\<lambda>(k, s). (k, QOne s)) ks" if "ks \<in> set (sent_params params)" for ks
    using that assms encoded_no_sep [of _ "fst ks"]
    by (auto simp: query_pair_def split_at_sep encode_read_back)
  show ?thesis
  proof (cases "sent_params params")
    case Nil
    then show ?thesis by (simp add: buildQuery_def parts read_query_def)
  next
    case (Cons p ps)
    then have ne: "query_parts params \<noteq> []" by (simp add: parts)
    have "\<forall>p \<in> set (query_parts params). \<forall>c \<in> set p. c \<noteq> CHR ''&''" using encoded_no_sep by (fastforce simp: parts)
    from split_on_joined [OF ne this] have "read_query (buildQuery params) = map query_pair (query_parts params)"
      using ne by (simp add: buildQuery_def read_query_def)
    then show ?thesis using pair by (simp add: parts case_prod_beta')
  qed
qed

section \<open>The usage page against the ledger\<close>

definition nonempty :: "string \<Rightarrow> string option" where
  "nonempty s = (if s = [] then None else Some s)"

text \<open>The rows a filter asks for.\<close>

definition filter_query :: "(string \<Rightarrow> int option) \<Rightarrow> usage_filters \<Rightarrow> usage_query" where
  "filter_query dparse f =
     \<lparr>q_keyId = nonempty (f_keyId f), q_accountId = nonempty (f_accountId f), q_model = nonempty (f_model f),
      q_family = nonempty (f_family f), q_protocol = (if f_protocol f \<in> {''openai'', ''anthropic''} then Some (f_protocol f) else None),
      q_status = nonempty (f_status f), q_from = (if f_from f = [] then None else dparse (f_from f)),
      q_to = (if f_to f = [] then None else dparse (f_to f)), q_limit = None, q_offset = None\<rparr>"

definition filters_text :: "usage_filters \<Rightarrow> bool" where
  "filters_text f = list_all utf8_text [f_keyId f, f_accountId f, f_model f, f_family f, f_protocol f, f_status f]"

lemma js_number_NaN: "js_number ''NaN'' = None"
  by (simp add: js_number_def trim_def is_space_def read_decimal_def strip_sign_def split_at_def or_else_def is_digit_def Let_def)

lemma show_int_chars: "c \<in> set (show_int i) \<Longrightarrow> is_digit c \<or> c = CHR ''-''"
  by (auto simp: show_int_def dest: show_nat_digits split: if_splits)

lemma ascii_text: "\<forall>c \<in> set s. (of_char c :: nat) < 128 \<Longrightarrow> utf8_text s"
  by (induction s) (simp_all add: utf8_rest_def utf8_first_ok_def)

declare utf8_text.simps(2) [simp del]

lemma show_int_text: "utf8_text (show_int i)"
  by (rule ascii_text) (auto dest!: show_int_chars simp: is_digit_def Let_def)

lemma read_decimal_minus:
  assumes "all_digits d"
  shows "read_decimal (CHR ''-'' # d) = Some (- of_nat (read_nat 0 d))"
proof -
  have d: "list_all is_digit d" "d \<noteq> []" using assms by (auto simp: all_digits_def)
  then have "list_all (\<lambda>c. \<not> (c = CHR ''e'' \<or> c = CHR ''E'')) d" "list_all (\<lambda>c. \<not> c = CHR ''.'') d"
    by (auto simp: list_all_iff is_digit_def)
  from split_at_none [OF this(1)] split_at_none [OF this(2)] show ?thesis
    using d by (simp add: read_decimal_def strip_sign_def all_digits_def is_digit_def)
qed

lemma js_number_show_int: "js_number (show_int i) = Some (of_int i)"
proof (cases "i < 0")
  case True
  let ?d = "show_nat (nat (- i))"
  have d: "list_all is_digit ?d" by (auto simp: list_all_iff dest: show_nat_digits)
  obtain ds x where x: "?d = ds @ [x]" using show_nat_ne [of "nat (- i)"] by (cases ?d rule: rev_cases) auto
  with d have "\<not> is_space x" by (auto simp: is_space_def is_digit_def Let_def)
  then have "trim (CHR ''-'' # ?d) = CHR ''-'' # ?d" by (simp add: trim_def x is_space_def [of "CHR ''-''"])
  with True d read_decimal_minus [of ?d] show ?thesis
    by (simp add: show_int_def js_number_def all_digits_def read_show_nat)
qed (simp add: show_int_def js_number_show_nat)

lemma show_int_ne [simp]: "show_int i \<noteq> []"
  by (simp add: show_int_def)

lemma map_of_sent:
  "distinct (map fst params) \<Longrightarrow> map_of (sent_params params) k = Option.bind (map_of params k) arg_text"
  unfolding sent_params_def
  by (induction params) (auto split: option.splits simp: map_of_eq_None_iff [THEN iffD2])

fun arg_utf8 :: "query_arg \<Rightarrow> bool" where
  "arg_utf8 (AText s) = utf8_text s"
| "arg_utf8 _ = True"

lemma arg_text_utf8: "arg_text a = Some v \<Longrightarrow> arg_utf8 a \<Longrightarrow> utf8_text v"
  by (cases a) (auto simp: arg_text_def show_int_text ascii_text split: if_splits option.splits)

lemma sent_utf8:
  "list_all (\<lambda>(k, a). utf8_text k \<and> arg_utf8 a) params \<Longrightarrow> \<forall>(k, v) \<in> set (sent_params params). utf8_text k \<and> utf8_text v"
  unfolding sent_params_def by (induction params) (auto split: option.splits dest: arg_text_utf8)

text \<open>What the server reads of the query of a page.\<close>

lemma usage_query_sent:
  assumes "filters_text f"
  shows "usage_query_of (read_query (usage_page_query dparse f p)) =
    (filter_query dparse f)\<lparr>q_limit := Some (int PAGE_SIZE), q_offset := Some (int (p * PAGE_SIZE))\<rparr>"
proof -
  let ?params = "[(''keyId'', AText (f_keyId f)), (''accountId'', AText (f_accountId f)), (''model'', AText (f_model f)),
       (''family'', AText (f_family f)), (''protocol'', AText (f_protocol f)), (''status'', AText (f_status f)),
       (''from'', date_arg dparse (f_from f)), (''to'', date_arg dparse (f_to f)),
       (''limit'', ANum (Some (int PAGE_SIZE))), (''offset'', ANum (Some (int (p * PAGE_SIZE))))]"
  have ascii: "utf8_text s" if "list_all (\<lambda>c. (of_char c :: nat) < 128) s" for s
    using that by (intro ascii_text) (simp add: list_all_iff)
  have "list_all (\<lambda>(k, a). utf8_text k \<and> arg_utf8 a) ?params"
    using assms by (simp add: ascii filters_text_def date_arg_def)
  then have "\<forall>(k, v) \<in> set (sent_params ?params). utf8_text k \<and> utf8_text v" by (rule sent_utf8)
  then have "read_query (usage_page_query dparse f p) = map (\<lambda>(k, s). (k, QOne s)) (sent_params ?params)"
    unfolding usage_page_query_def by (rule query_read_back)
  moreover have "map_of (map (\<lambda>(k, s). (k, QOne s)) kvs) k = map_option QOne (map_of kvs k)" for k and kvs :: "(string \<times> string) list"
    by (induction kvs) auto
  ultimately have g: "map_of (read_query (usage_page_query dparse f p)) k = map_option QOne (Option.bind (map_of ?params k) arg_text)" for k
    by (subst map_of_sent [symmetric]) simp_all
  have tv: "text_value (map_option QOne (Option.bind (Some (AText s)) arg_text)) = nonempty s" for s
    by (simp add: text_value_def arg_text_def nonempty_def)
  have num: "num_value (map_option QOne (Option.bind (Some (ANum (Some i))) arg_text)) = Some (of_int i)" for i
    by (simp add: num_value_def arg_text_def js_number_show_int)
  have date: "num_value (map_option QOne (Option.bind (Some (date_arg dparse s)) arg_text)) =
      (if s = [] then None else map_option of_int (dparse s))" for s
    by (auto simp: date_arg_def arg_text_def num_value_def js_number_show_int js_number_NaN split: option.splits)
  have prot: "protocol_value (map_option QOne (Option.bind (Some (AText s)) arg_text)) = (if s \<in> {''openai'', ''anthropic''} then Some s else None)" for s
    by (auto simp: protocol_value_def arg_text_def)
  have pg: "\<lfloor>rat_of_nat p * rat_of_nat n\<rfloor> = int p * int n" for n
    by (metis floor_of_nat of_nat_mult)
  show ?thesis
    unfolding usage_query_of_def Let_def g
    by (simp add: tv num date prot pg filter_query_def option.map_comp comp_def option.map_ident del: bind.simps)
qed

lemma concat_pages: "concat (map (\<lambda>p. take n (drop (p * n) xs)) [0..<m]) = take (m * n) xs"
proof (induction m)
  case (Suc m)
  then show ?case by (simp add: take_add [symmetric] add.commute)
qed simp

text \<open>What the route answers to the page's URL: the total, and one page of the rows that match.\<close>

definition usage_shown :: "(string \<Rightarrow> int option) \<Rightarrow> ledger \<Rightarrow> usage_filters \<Rightarrow> nat \<Rightarrow> nat \<times> usage_row list" where
  "usage_shown dparse l f p = query_usage (usage_query_of (read_query (usage_page_query dparse f p))) l"

lemma usage_shown_rows:
  assumes "filters_text f" "hits = filter (matches (filter_query dparse f)) (led_table l)"
  shows "usage_shown dparse l f p = (length hits, take PAGE_SIZE (drop (p * PAGE_SIZE) (rev hits)))"
proof -
  have m: "matches ((filter_query dparse f)\<lparr>q_limit := a, q_offset := b\<rparr>) = matches (filter_query dparse f)" for a b
    by (simp add: matches_def fun_eq_iff)
  show ?thesis
    by (simp add: assms usage_shown_def usage_query_sent query_usage_def m PAGE_SIZE_def nat_mult_distrib Let_def)
qed

lemma usage_pages_enough: "n \<le> usage_pages n * PAGE_SIZE"
  by (simp add: usage_pages_def PAGE_SIZE_def)

text \<open>
  A filter set on a page past the end of its matches shows none of them, however many there are: the page
  stays where it is.
\<close>

lemma filter_hides_rows:
  assumes "filters_text f" and "v = usage_step v0 (UFilter f)" and "usage_shown dparse l f 0 = (n, rows)" and "usage_pages n \<le> uv_page v0"
  shows "usage_shown dparse l (uv_filters v) (uv_page v) = (n, [])"
proof -
  have "n \<le> uv_page v0 * PAGE_SIZE" using usage_pages_enough [of n] assms(4) by (meson le_trans mult_le_mono1)
  with assms show ?thesis by (simp add: usage_shown_rows)
qed

text \<open>
  C25. The pages of the usage log, each fetched with the URL the console builds and read by the server's route, put
  together are the booked rows that match the filters of the form, every one once and newest first. This holds for
  every text in the filters, with separators or other special characters of a URL in it.
\<close>

theorem usage_pages_cover:
  assumes "filters_text f"
    and "page = (\<lambda>p. query_usage (usage_query_of (read_query (usage_page_query dparse f p))) l)"
  shows "concat (map (\<lambda>p. snd (page p)) [0..<usage_pages (fst (page 0))]) =
    rev (filter (matches (filter_query dparse f)) (led_table l))"
proof -
  have "page = usage_shown dparse l f" by (simp add: assms(2) usage_shown_def fun_eq_iff)
  then show ?thesis using usage_pages_enough by (simp add: usage_shown_rows [OF assms(1) refl] concat_pages)
qed

definition demo_row :: "string \<Rightarrow> string \<Rightarrow> usage_row" where
  "demo_row i m = \<lparr>u_requestId = i, u_keyId = None, u_accountId = None, u_model = m, u_family = ''google'', u_protocol = ''openai'',
     u_promptTokens = 3, u_completionTokens = 4, u_reasoningTokens = None, u_cacheReadTokens = None, u_status = ''OK'',
     u_durationMs = None, u_errorText = None, totalTokens = 7, createdAt = 1000, seq = 1\<rparr>"

definition no_filters :: usage_filters where
  "no_filters = \<lparr>f_keyId = [], f_accountId = [], f_model = [], f_family = [], f_protocol = [], f_status = [], f_from = [], f_to = []\<rparr>"

theorem usage_pages_cover_witness:
  "let page = (\<lambda>p. query_usage (usage_query_of (read_query (usage_page_query (\<lambda>_. None) (no_filters\<lparr>f_model := ''a&b=c''\<rparr>) p)))
        (new_ledger [demo_row ''r1'' ''a&b=c'', demo_row ''r2'' ''a'', demo_row ''r3'' ''a&b=c''] 0 None))
   in concat (map (\<lambda>p. snd (page p)) [0..<usage_pages (fst (page 0))]) = [demo_row ''r3'' ''a&b=c'', demo_row ''r1'' ''a&b=c'']"
proof -
  let ?f = "no_filters\<lparr>f_model := ''a&b=c''\<rparr>"
  let ?l = "new_ledger [demo_row ''r1'' ''a&b=c'', demo_row ''r2'' ''a'', demo_row ''r3'' ''a&b=c''] 0 None"
  have f: "filters_text ?f" by (simp add: filters_text_def no_filters_def ascii_text)
  have "rev (filter (matches (filter_query (\<lambda>_. None) ?f)) (led_table ?l)) = [demo_row ''r3'' ''a&b=c'', demo_row ''r1'' ''a&b=c'']"
    by (simp add: new_ledger_def matches_def filter_query_def no_filters_def demo_row_def nonempty_def opt_eq_def)
  from trans [OF usage_pages_cover [OF f refl, of "\<lambda>_. None" ?l] this]
  show ?thesis by (simp only: Let_def)
qed

section \<open>Every call reaches its route\<close>

text \<open>A registered path: the segments between slashes, and the parameter value a handler gets from its place.\<close>

datatype path_seg = Lit string | Param string

fun api_route :: "api_call \<Rightarrow> admin_route" where
  "api_route (CLogin p) = RLogin"
| "api_route CLogout = RLogout"
| "api_route CMe = RMe"
| "api_route CStatus = RStatus"
| "api_route CCatalogRefresh = RCatalogRefresh"
| "api_route CPool = RPool"
| "api_route (CAuthBegin al) = RAuthBegin"
| "api_route CAuthStatus = RAuthStatus"
| "api_route (CAuthComplete cd) = RAuthComplete"
| "api_route CAuthCancel = RAuthCancel"
| "api_route (CPatchAccount i patch) = RPatchAccount i"
| "api_route (CDeleteAccount i) = RDeleteAccount i"
| "api_route (CClearCooldown i fam) = RClearCooldown i"
| "api_route (CRefreshAccountQuota i) = RRefreshQuota i"
| "api_route CRefreshQuota = RRefreshAll"
| "api_route (CPoolMode m) = RMode"
| "api_route CKeys = RKeys"
| "api_route (CCreateKey body) = RCreateKey"
| "api_route (CPatchKey i patch) = RPatchKey i"
| "api_route (CDeleteKey i) = RDeleteKey i"
| "api_route (CRevealKeySecret i) = RSecret i"
| "api_route (CRotateKey i) = RRotate i"
| "api_route (CUsage query) = RUsage (read_query query)"
| "api_route CUsageSummary = RUsageSummary"
| "api_route CSettings = RSettings"
| "api_route (CPutSettings patch) = RPutSettings"

fun route_path :: "admin_route \<Rightarrow> path_seg list" where
  "route_path RLogin = [Lit ''login'']"
| "route_path RLogout = [Lit ''logout'']"
| "route_path RMe = [Lit ''me'']"
| "route_path RStatus = [Lit ''status'']"
| "route_path RCatalogRefresh = [Lit ''catalog'', Lit ''refresh'']"
| "route_path RPool = [Lit ''pool'']"
| "route_path RAuthBegin = [Lit ''pool'', Lit ''auth'', Lit ''begin'']"
| "route_path RAuthStatus = [Lit ''pool'', Lit ''auth'', Lit ''status'']"
| "route_path RAuthComplete = [Lit ''pool'', Lit ''auth'', Lit ''complete'']"
| "route_path RAuthCancel = [Lit ''pool'', Lit ''auth'', Lit ''cancel'']"
| "route_path RAuthQr = [Lit ''pool'', Lit ''auth'', Lit ''qr'']"
| "route_path (RPatchAccount i) = [Lit ''pool'', Lit ''accounts'', Param i]"
| "route_path (RDeleteAccount i) = [Lit ''pool'', Lit ''accounts'', Param i]"
| "route_path (RClearCooldown i) = [Lit ''pool'', Lit ''accounts'', Param i, Lit ''clear-cooldown'']"
| "route_path (RClearAuth i) = [Lit ''pool'', Lit ''accounts'', Param i, Lit ''clear-auth'']"
| "route_path (RRefreshQuota i) = [Lit ''pool'', Lit ''accounts'', Param i, Lit ''refresh-quota'']"
| "route_path RRefreshAll = [Lit ''pool'', Lit ''quota'', Lit ''refresh'']"
| "route_path RMode = [Lit ''pool'', Lit ''mode'']"
| "route_path RReorder = [Lit ''pool'', Lit ''reorder'']"
| "route_path RKeys = [Lit ''keys'']"
| "route_path RCreateKey = [Lit ''keys'']"
| "route_path (RPatchKey i) = [Lit ''keys'', Param i]"
| "route_path (RDeleteKey i) = [Lit ''keys'', Param i]"
| "route_path (RSecret i) = [Lit ''keys'', Param i, Lit ''secret'']"
| "route_path (RRotate i) = [Lit ''keys'', Param i, Lit ''rotate'']"
| "route_path (RUsage q) = [Lit ''usage'']"
| "route_path RUsageSummary = [Lit ''usage'', Lit ''summary'']"
| "route_path RSettings = [Lit ''settings'']"
| "route_path RPutSettings = [Lit ''settings'']"

fun seg_fits :: "path_seg \<Rightarrow> string \<Rightarrow> bool" where
  "seg_fits (Lit l) s = (s = l)"
| "seg_fits (Param i) s = (s \<noteq> [] \<and> decodeURIComponent s = Some i)"

text \<open>The router cuts the query off, splits the path at its slashes and decodes the parameters.\<close>

definition reaches :: "web_request \<Rightarrow> admin_route \<Rightarrow> bool" where
  "reaches w r =
     (let url = w_url w; p = takeWhile (\<lambda>c. c \<noteq> CHR ''?'') url; q = drop (length p) url in
      w_method w = route_method r \<and>
      list_all2 seg_fits (Lit [] # Lit ''admin'' # route_path r) (split_on (\<lambda>c. c = CHR ''/'') p) \<and>
      (case r of RUsage kvs \<Rightarrow> kvs = read_query q | _ \<Rightarrow> True))"

text \<open>What the server sees of a request the browser sends.\<close>

definition browser_request :: "string \<Rightarrow> string option \<Rightarrow> web_request \<Rightarrow> admin_request" where
  "browser_request ip cookie w = \<lparr>rq_method = w_method w, rq_ip = ip, rq_cookie = cookie,
     x_requested_with = map_of (w_headers w) ''x-requested-with'', rq_body = w_body w\<rparr>"

fun call_id :: "api_call \<Rightarrow> string option" where
  "call_id (CPatchAccount i patch) = Some i"
| "call_id (CDeleteAccount i) = Some i"
| "call_id (CClearCooldown i fam) = Some i"
| "call_id (CRefreshAccountQuota i) = Some i"
| "call_id (CPatchKey i patch) = Some i"
| "call_id (CDeleteKey i) = Some i"
| "call_id (CRevealKeySecret i) = Some i"
| "call_id (CRotateKey i) = Some i"
| "call_id _ = None"

text \<open>The id a call names is text; a query is empty or starts with a question mark.\<close>

definition api_call_ok :: "api_call \<Rightarrow> bool" where
  "api_call_ok c =
     ((case call_id c of None \<Rightarrow> True | Some i \<Rightarrow> i \<noteq> [] \<and> utf8_text i) \<and>
      (case c of CUsage q \<Rightarrow> (case q of [] \<Rightarrow> True | x # _ \<Rightarrow> x = CHR ''?'') | _ \<Rightarrow> True))"

lemma encoded_ne: "encodeURIComponent i = [] \<longleftrightarrow> i = []"
  by (cases i) (auto simp: encodeURIComponent_def percent_byte_def)

lemma split_on_encoded:
  "split_on (\<lambda>c. c = CHR ''/'') (encodeURIComponent i) = [encodeURIComponent i]"
  "split_on (\<lambda>c. c = CHR ''/'') (encodeURIComponent i @ CHR ''/'' # r) = encodeURIComponent i # split_on (\<lambda>c. c = CHR ''/'') r"
proof -
  have "\<forall>c \<in> set (encodeURIComponent i). c \<noteq> CHR ''/''" using encoded_no_sep by fastforce
  moreover have "split_on (\<lambda>c. c = CHR ''/'') p = [p]" "split_on (\<lambda>c. c = CHR ''/'') (p @ CHR ''/'' # r) = p # split_on (\<lambda>c. c = CHR ''/'') r"
    if "\<forall>c \<in> set p. c \<noteq> CHR ''/''" for p using that by (induction p) auto
  ultimately show "split_on (\<lambda>c. c = CHR ''/'') (encodeURIComponent i) = [encodeURIComponent i]"
    "split_on (\<lambda>c. c = CHR ''/'') (encodeURIComponent i @ CHR ''/'' # r) = encodeURIComponent i # split_on (\<lambda>c. c = CHR ''/'') r"
    by blast+
qed

lemma takeWhile_encoded: "takeWhile (\<lambda>c. c \<noteq> CHR ''?'') (encodeURIComponent i @ r) = encodeURIComponent i @ takeWhile (\<lambda>c. c \<noteq> CHR ''?'') r"
  by (rule takeWhile_append2) (use encoded_no_sep in fastforce)

lemma takeWhile_encoded_end: "takeWhile (\<lambda>c. c \<noteq> CHR ''?'') (encodeURIComponent i) = encodeURIComponent i"
  using takeWhile_encoded [of i "[]"] by simp

lemma call_reaches: "api_call_ok c \<Longrightarrow> reaches (api_request c) (api_route c)"
  by (cases c; simp add: reaches_def api_call_ok_def apiGet_def apiSend_def account_url_def key_url_def takeWhile_encoded
      takeWhile_encoded_end split_on_encoded encode_read_back encoded_ne Let_def split: list.splits)

text \<open>
  Every call the console can make arrives at the route it means, with the id it names, whatever characters the
  id has; it carries the header the cross-site guard asks for exactly when it has to, announces a JSON body
  exactly when it has one, and from an allowed address with a live session (or as the login) it runs the handler of that route.
\<close>

lemma console_calls_admitted:
  assumes "api_call_ok c" and "w = api_request c" and "rq = browser_request ip cookie w"
    and "ipAllowed ip (adminAllowCidr (e_cfg e))" and "signed_in e rq st \<or> api_route c = RLogin"
  shows "reaches w (api_route c) \<and>
    (x_requested_with rq \<noteq> None \<longleftrightarrow> g_mutating (route_opts (api_route c))) \<and>
    (map_of (w_headers w) ''content-type'' = (if w_body w = None then None else Some ''application/json'')) \<and>
    admin_handle e (api_route c) rq st = route_handler e (api_route c) rq st"
proof -
  have hdr: "map_of (w_headers (api_request c)) ''x-requested-with'' \<noteq> None \<longleftrightarrow> route_method (api_route c) \<noteq> ''GET''"
    by (cases c) (simp_all add: apiGet_def apiSend_def)
  have ct: "map_of (w_headers (api_request c)) ''content-type'' = (if w_body (api_request c) = None then None else Some ''application/json'')"
    by (cases c) (simp_all add: apiGet_def apiSend_def)
  have kept: "verify_session sha t tok db = (True, db') \<Longrightarrow> db' = db" for sha t tok db db'
    by (auto simp: verify_session_def split: if_splits option.splits)
  obtain ok db where v: "verify_session (e_sha e) (e_now e) (session_cookie rq) (a_db st) = (ok, db)" by fastforce
  have "guarded (e_sha e) (e_cfg e) (e_now e) (route_opts (api_route c)) rq (a_db st) = (None, a_db st)"
    using assms hdr v kept [of _ _ _ _ db]
    by (auto simp: guarded_def route_opts_def signed_in_def browser_request_def split: if_splits)
  then have "admin_handle e (api_route c) rq st = route_handler e (api_route c) rq st" by (simp add: admin_handle_def)
  with call_reaches [OF assms(1)] hdr ct show ?thesis by (simp add: assms(2,3) browser_request_def route_opts_def)
qed


section \<open>An export read back\<close>

text \<open>A reader of RFC 4180: its mode, the field it is in, the fields of the line so far and the lines before.\<close>

datatype csv_mode = FieldStart | Bare | Quoted | AfterQuote | AfterCR

type_synonym csv_state = "csv_mode \<times> string \<times> string list \<times> string list list"

fun csv_step :: "csv_state \<Rightarrow> char \<Rightarrow> csv_state" where
  "csv_step (FieldStart, f, r, rs) c =
     (if c = dquote then (Quoted, [], r, rs)
      else if c = CHR '','' then (FieldStart, [], r @ [[]], rs)
      else if c = CHR 0x0D then (AfterCR, [], r @ [[]], rs) else (Bare, [c], r, rs))"
| "csv_step (Bare, f, r, rs) c =
     (if c = CHR '','' then (FieldStart, [], r @ [f], rs)
      else if c = CHR 0x0D then (AfterCR, [], r @ [f], rs) else (Bare, f @ [c], r, rs))"
| "csv_step (Quoted, f, r, rs) c = (if c = dquote then (AfterQuote, f, r, rs) else (Quoted, f @ [c], r, rs))"
| "csv_step (AfterQuote, f, r, rs) c =
     (if c = dquote then (Quoted, f @ [dquote], r, rs)
      else if c = CHR '','' then (FieldStart, [], r @ [f], rs)
      else if c = CHR 0x0D then (AfterCR, [], r @ [f], rs) else (Bare, f @ [c], r, rs))"
| "csv_step (AfterCR, f, r, rs) c = (if c = CHR 0x0A then (FieldStart, [], [], rs @ [r]) else (Bare, [c], [], rs @ [r]))"

definition read_csv :: "string \<Rightarrow> string list list" where
  "read_csv s = (case foldl csv_step (FieldStart, [], [], []) s of
     (m, f, r, rs) \<Rightarrow> if m = FieldStart \<and> r = [] then rs else rs @ [r @ [f]])"

text \<open>What a spreadsheet shows in a cell.\<close>

fun cell_text :: "csv_cell \<Rightarrow> string" where
  "cell_text (CellNum n) = show_rat n"
| "cell_text (CellText s) = (if formula_prefix s then CHR 0x27 # s else s)"

lemma csv_quoted: "foldl csv_step (Quoted, f, r, rs) (double_quotes s) = (Quoted, f @ s, r, rs)"
  by (induction s arbitrary: f) (auto simp: double_quotes_def)

lemma csv_bare:
  "\<not> needs_quotes s \<Longrightarrow> foldl csv_step (Bare, f, r, rs) s = (Bare, f @ s, r, rs)"
  by (induction s arbitrary: f) (auto simp: needs_quotes_def)

definition after_sep :: "char \<Rightarrow> csv_mode" where
  "after_sep c = (if c = CHR '','' then FieldStart else AfterCR)"

lemma csv_plain_field:
  "\<not> needs_quotes s \<Longrightarrow> c = CHR '','' \<or> c = CHR 0x0D \<Longrightarrow>
   foldl csv_step (FieldStart, [], r, rs) (s @ [c]) = (after_sep c, [], r @ [s], rs)"
proof (cases s)
  case (Cons x xs)
  moreover assume "\<not> needs_quotes s" "c = CHR '','' \<or> c = CHR 0x0D"
  ultimately show ?thesis by (auto simp: csv_bare needs_quotes_def after_sep_def dquote_def)
qed (auto simp: after_sep_def dquote_def)

lemma csv_quoted_field:
  "c = CHR '','' \<or> c = CHR 0x0D \<Longrightarrow>
   foldl csv_step (FieldStart, [], r, rs) (([dquote] @ double_quotes s @ [dquote]) @ [c]) = (after_sep c, [], r @ [s], rs)"
  by (auto simp: csv_quoted after_sep_def dquote_def)

lemma frac_digits_chars: "0 \<le> q \<Longrightarrow> q < 1 \<Longrightarrow> c \<in> set (frac_digits k q) \<Longrightarrow> is_digit c"
proof (induction k arbitrary: q)
  case (Suc k)
  let ?d = "\<lfloor>10 * q\<rfloor>"
  have d: "0 \<le> ?d" "?d < 10" using Suc.prems by (auto simp: floor_less_iff)
  have "0 \<le> 10 * q - of_int ?d" "10 * q - of_int ?d < 1" by linarith+
  note IH = Suc.IH [OF this]
  from d obtain n where n: "?d = int n" "n < 10" using zero_le_imp_eq_int by (metis of_nat_less_numeral_iff)
  then have "is_digit (char_of (48 + nat ?d))" by (simp add: is_digit_def)
  with Suc.prems(3) IH show ?case by (auto simp: Let_def split: if_splits)
qed simp

lemma show_rat_chars: "c \<in> set (show_rat q) \<Longrightarrow> is_digit c \<or> c = CHR ''-'' \<or> c = CHR ''.''"
proof -
  have "0 \<le> \<bar>q\<bar> - of_int \<lfloor>\<bar>q\<bar>\<rfloor>" "\<bar>q\<bar> - of_int \<lfloor>\<bar>q\<bar>\<rfloor> < 1" by linarith+
  from frac_digits_chars [OF this] show "c \<in> set (show_rat q) \<Longrightarrow> ?thesis"
    by (auto simp: show_rat_def Let_def dest: show_int_chars split: if_splits)
qed

lemma csv_field:
  assumes "c = CHR '','' \<or> c = CHR 0x0D"
  shows "foldl csv_step (FieldStart, [], r, rs) (escapeField x @ [c]) = (after_sep c, [], r @ [cell_text x], rs)"
proof (cases x)
  case (CellNum n)
  have "\<not> needs_quotes (show_rat n)"
    by (auto simp: needs_quotes_def list_ex_iff dquote_def is_digit_def dest!: show_rat_chars)
  with CellNum csv_plain_field [OF _ assms] show ?thesis by simp
next
  case (CellText s)
  then show ?thesis using csv_plain_field [OF _ assms] csv_quoted_field [OF assms] by (simp add: Let_def)
qed

lemma csv_line_read:
  "cells \<noteq> [] \<Longrightarrow> foldl csv_step (FieldStart, [], r, rs) (csv_line cells @ crlf) = (FieldStart, [], [], rs @ [r @ map cell_text cells])"
proof (induction cells arbitrary: r rule: induct_list012)
  case (2 x)
  from csv_field [of "CHR 0x0D" r rs x] show ?case by (simp add: csv_line_def crlf_def after_sep_def)
next
  case (3 x y cells)
  have "foldl csv_step (FieldStart, [], r, rs) ((escapeField x @ [CHR '','']) @ csv_line (y # cells) @ crlf) =
      (FieldStart, [], [], rs @ [r @ map cell_text (x # y # cells)])"
    unfolding foldl_append [of _ _ "escapeField x @ [CHR '','']"]
    by (subst csv_field) (simp_all add: after_sep_def 3 del: foldl_append)
  then show ?case by (simp add: csv_line_def)
qed simp

lemma csv_lines_read:
  "ls \<noteq> [] \<Longrightarrow> \<forall>l \<in> set ls. l \<noteq> [] \<Longrightarrow>
   foldl csv_step (FieldStart, [], [], rs) (join crlf (map csv_line ls) @ crlf) = (FieldStart, [], [], rs @ map (map cell_text) ls)"
proof (induction ls arbitrary: rs rule: induct_list012)
  case (2 l)
  then show ?case using csv_line_read [of l "[]" rs] by simp
next
  case (3 l l' ls)
  have "foldl csv_step (FieldStart, [], [], rs) ((csv_line l @ crlf) @ join crlf (map csv_line (l' # ls)) @ crlf) =
      (FieldStart, [], [], rs @ map (map cell_text) (l # l' # ls))"
    unfolding foldl_append [of _ _ "csv_line l @ crlf"]
    by (subst csv_line_read) (use 3 in \<open>simp_all del: foldl_append\<close>)
  then show ?case by simp
qed simp

text \<open>
  A spreadsheet that opens an export reads the header and then exactly the cells of the rows, whatever commas,
  quotes and line breaks the texts have; a text that would run as a formula shows with an apostrophe in front, and no
  text cell begins with a character that starts a formula.
\<close>

lemma csv_reads_back:
  assumes "columns \<noteq> []"
  shows "read_csv (toCsv rows columns) =
      map (\<lambda>c. cell_text (CellText (fst c))) columns # map (\<lambda>row. map (\<lambda>c. cell_text (snd c row)) columns) rows \<and>
    (\<forall>s. \<not> formula_prefix (cell_text (CellText s)))"
proof -
  let ?ls = "map (\<lambda>c. CellText (fst c)) columns # map (\<lambda>row. map (\<lambda>c. snd c row) columns) rows"
  have "toCsv rows columns = join crlf (map csv_line ?ls) @ crlf" by (simp add: toCsv_def comp_def)
  with csv_lines_read [of ?ls "[]"] assms have "read_csv (toCsv rows columns) = map (map cell_text) ?ls"
    by (auto simp: read_csv_def)
  then show ?thesis by (auto simp: formula_prefix_def comp_def)
qed


end
