(* ===== verification/ConsolePages.thy ===== *)
theory ConsolePages
  imports Console Events
begin

text \<open>
  The decisions of the console's pages: the live feed \<open>web/src/sse/useAdminEvents.ts\<close>, quotas and health
  (\<open>lib/quota.ts\<close>, \<open>components/HealthBadge.tsx\<close>), the key page and its dialogs (\<open>routes/keys.tsx\<close>), the settings
  page with its confirmation (\<open>routes/settings.tsx\<close>), the dashboard figures, the route guard, the clipboard, theme and
  language. Layout and the text of labels are left out; clicks, keys and settled requests are operations of a history.
\<close>

section \<open>The live feed\<close>

datatype live_status = Connecting | Online | Offline

record events_state =
  es_status :: live_status
  es_runs :: "(run_event \<times> ms) list"
  es_pool :: "pool_data option"
  es_lastEventId :: rat

definition RUNS_BUFFER :: nat where
  "RUNS_BUFFER = 100"

definition initial_events :: events_state where
  "initial_events = \<lparr>es_status = Connecting, es_runs = [], es_pool = None, es_lastEventId = 0\<rparr>"

text \<open>A message: its data, \<open>None\<close> where it is empty or no JSON, and the text of its id.\<close>

type_synonym message = "admin_event option \<times> string"

definition with_seq :: "string \<Rightarrow> events_state \<Rightarrow> events_state" where
  "with_seq raw s = (case js_number raw of None \<Rightarrow> s | Some n \<Rightarrow> s\<lparr>es_lastEventId := n\<rparr>)"

definition on_message :: "message \<Rightarrow> events_state \<Rightarrow> events_state" where
  "on_message m s =
     (case fst m of
        None \<Rightarrow> s
      | Some ev \<Rightarrow>
          with_seq (snd m)
            (case ev_body ev of
               Snapshot p \<Rightarrow> s\<lparr>es_status := Online, es_pool := Some p\<rparr>
             | PoolEvent p \<Rightarrow> s\<lparr>es_status := Online, es_pool := Some p\<rparr>
             | RunEvent r \<Rightarrow> s\<lparr>es_status := Online, es_runs := take RUNS_BUFFER ((r, ev_at ev) # es_runs s)\<rparr>))"

definition on_open :: "events_state \<Rightarrow> events_state" where
  "on_open s = s\<lparr>es_status := Online\<rparr>"

definition on_stream_error :: "events_state \<Rightarrow> events_state" where
  "on_stream_error s = (if es_status s = Online then s\<lparr>es_status := Offline\<rparr> else s)"

section \<open>Quotas and health\<close>

text \<open>\<open>None\<close> is \<open>undefined\<close> or no finite number.\<close>

definition clampFraction :: "rat option \<Rightarrow> rat option" where
  "clampFraction v = map_option (\<lambda>r. min 1 (max 0 r)) v"

definition formatRemaining :: "rat \<Rightarrow> string" where
  "formatRemaining msec =
     (let total_s = \<lceil>msec / 1000\<rceil>; days = total_s div 86400; hours = total_s mod 86400 div 3600;
          minutes = total_s mod 3600 div 60; seconds = total_s mod 60
      in if days > 0 then show_int days @ ''d '' @ show_int hours @ ''h''
         else if hours > 0 then show_int hours @ ''h '' @ show_int minutes @ ''m''
         else if minutes > 0 then show_int minutes @ ''m '' @ show_int seconds @ ''s''
         else show_int seconds @ ''s'')"

datatype target = TText string | TMs rat

definition countdownUntil :: "(string \<Rightarrow> ms option) \<Rightarrow> target option \<Rightarrow> rat \<Rightarrow> string" where
  "countdownUntil dparse tg t =
     (if tg = None \<or> tg = Some (TText []) then []
      else case (case tg of Some (TMs m) \<Rightarrow> Some m | Some (TText s) \<Rightarrow> map_option of_int (dparse s) | None \<Rightarrow> None) of
             None \<Rightarrow> []
           | Some m \<Rightarrow> if m - t \<le> 0 then [] else formatRemaining (m - t))"

datatype badge = BadgeDisabled | BadgeAuth | BadgeCooldown string | BadgeHealthy

definition HealthBadge :: "bool \<Rightarrow> bool \<Rightarrow> rat option \<Rightarrow> rat \<Rightarrow> badge" where
  "HealthBadge is_enabled auth cooldown_until t =
     (if \<not> is_enabled then BadgeDisabled
      else if auth then BadgeAuth
      else let cd = countdownUntil (\<lambda>_. None) (map_option TMs cooldown_until) t
        in if cd \<noteq> [] then BadgeCooldown cd else BadgeHealthy)"

text \<open>The badge of an account card, which shows the cooldown of the Google family.\<close>

definition card_badge :: "managed_account \<Rightarrow> ms \<Rightarrow> badge" where
  "card_badge a t = HealthBadge (enabled a) (authRequired a) (map_option (\<lambda>c. of_int (cooldownUntil c)) (cooldowns a Google)) (of_int t)"

datatype tone = Muted | Emerald | Amber | Destructive

definition quota_tone :: "rat option \<Rightarrow> tone" where
  "quota_tone fraction =
     (case clampFraction fraction of
        None \<Rightarrow> Muted
      | Some v \<Rightarrow> if v \<ge> 1 / 2 then Emerald else if v \<ge> 1 / 5 then Amber else Destructive)"

section \<open>The key page\<close>

definition parseModels :: "string option \<Rightarrow> string list option" where
  "parseModels scopes =
     (case scopes of
        None \<Rightarrow> None
      | Some s \<Rightarrow>
          (let parts = filter (\<lambda>p. p \<noteq> []) (map trim (split_on (\<lambda>c. c \<in> set (nl @ '',;'')) s))
           in if length parts > 0 then Some parts else None))"

text \<open>The guard of both forms: the two limits, or \<open>None\<close> and the error toast.\<close>

definition form_limit :: "string \<Rightarrow> rat option" where
  "form_limit raw = (case js_number raw of None \<Rightarrow> None | Some n \<Rightarrow> if \<not> is_integer n \<or> n < 0 then None else Some n)"

definition form_limits :: "string \<Rightarrow> string \<Rightarrow> (rat \<times> rat) option" where
  "form_limits daily rpm = (case (form_limit daily, form_limit rpm) of (Some d, Some r) \<Rightarrow> Some (d, r) | _ \<Rightarrow> None)"

definition edit_call :: "string \<Rightarrow> string \<Rightarrow> string \<Rightarrow> string \<Rightarrow> api_call option" where
  "edit_call i daily rpm scopes =
     map_option (\<lambda>(d, r). CPatchKey i [(''dailyTokenLimit'', JNum d), (''rpmLimit'', JNum r), (''scopes'', JStr scopes)])
       (form_limits daily rpm)"

definition create_call :: "string \<Rightarrow> string \<Rightarrow> string \<Rightarrow> api_call option" where
  "create_call nm daily rpm =
     map_option (\<lambda>(d, r). CCreateKey ((if trim nm \<noteq> [] then [(''name'', JStr (trim nm))] else []) @
         [(''dailyTokenLimit'', JNum d), (''rpmLimit'', JNum r)]))
       (form_limits daily rpm)"

text \<open>
  The creation dialog. \<open>kd_inflight\<close> counts the requests under way; \<open>kd_dropped\<close> records the key texts that left the
  dialog, each with the state of the \<open>I saved it\<close> box at that moment.
\<close>

record key_dialog =
  kd_open :: bool
  kd_plaintext :: "string option"
  kd_saved :: bool
  kd_inflight :: nat
  kd_dropped :: "(string \<times> bool) list"

datatype dialog_op =
    KOpen
  | KSubmit
  | KCreated string
  | KRefused
  | KSaved bool
  | KEscape
  | KOutside
  | KClose

definition new_dialog :: key_dialog where
  "new_dialog = \<lparr>kd_open = False, kd_plaintext = None, kd_saved = False, kd_inflight = 0, kd_dropped = []\<rparr>"

definition drop_plaintext :: "key_dialog \<Rightarrow> key_dialog" where
  "drop_plaintext s = s\<lparr>kd_dropped := kd_dropped s @ (case kd_plaintext s of None \<Rightarrow> [] | Some p \<Rightarrow> [(p, kd_saved s)]), kd_plaintext := None\<rparr>"

definition close_dialog :: "key_dialog \<Rightarrow> key_dialog" where
  "close_dialog s = (drop_plaintext s)\<lparr>kd_open := False, kd_saved := False\<rparr>"

text \<open>\<open>guardedDismissal\<close>, in force while a key text is shown: Escape and outside clicks close only a saved dialog.\<close>

definition dismissable :: "key_dialog \<Rightarrow> bool" where
  "dismissable s = (kd_plaintext s = None \<or> kd_saved s)"

fun dialog_step :: "key_dialog \<Rightarrow> dialog_op \<Rightarrow> key_dialog" where
  "dialog_step s KOpen = s\<lparr>kd_open := True\<rparr>"
| "dialog_step s KSubmit = (if kd_open s \<and> kd_plaintext s = None then s\<lparr>kd_inflight := kd_inflight s + 1\<rparr> else s)"
| "dialog_step s (KCreated p) =
     (if kd_inflight s > 0 then (drop_plaintext s)\<lparr>kd_inflight := kd_inflight s - 1, kd_plaintext := Some p\<rparr> else s)"
| "dialog_step s KRefused = s\<lparr>kd_inflight := kd_inflight s - 1\<rparr>"
| "dialog_step s (KSaved b) = (if kd_open s \<and> kd_plaintext s \<noteq> None then s\<lparr>kd_saved := b\<rparr> else s)"
| "dialog_step s KEscape = (if kd_open s \<and> dismissable s then close_dialog s else s)"
| "dialog_step s KOutside = (if kd_open s \<and> dismissable s then close_dialog s else s)"
| "dialog_step s KClose = (if kd_open s \<and> kd_plaintext s \<noteq> None \<and> kd_saved s then close_dialog s else s)"

section \<open>The settings page\<close>

datatype field_kind = FString | FNumber "rat" | FBool | FMode

definition SETTINGS_FIELDS :: "(string \<times> field_kind) list" where
  "SETTINGS_FIELDS = [(''defaultModel'', FString), (''defaultEffort'', FString), (''timeoutMs'', FNumber 1), (''maxConcurrent'', FNumber 1),
     (''maxQueueDepth'', FNumber 0), (''quotaPollIntervalMs'', FNumber 60000), (''autoFallbackModel'', FBool), (''enabled'', FBool),
     (''permissionMode'', FMode)]"

definition NUMBER_KEYS :: "string list" where
  "NUMBER_KEYS = map fst (filter (\<lambda>f. case snd f of FNumber m \<Rightarrow> True | _ \<Rightarrow> False) SETTINGS_FIELDS)"

definition BOOL_KEYS :: "string list" where
  "BOOL_KEYS = map fst (filter (\<lambda>f. snd f = FBool) SETTINGS_FIELDS)"

text \<open>The patch of a draft; \<open>NaN\<close> is sent as \<open>null\<close>.\<close>

fun draft_patch :: "(string \<times> string) list \<Rightarrow> (string \<times> json) list" where
  "draft_patch [] = []"
| "draft_patch ((k, raw) # ds) =
     (if k \<in> set NUMBER_KEYS
      then if raw = [] then draft_patch ds
           else (k, case js_number raw of Some n \<Rightarrow> JNum n | None \<Rightarrow> JNull) # draft_patch ds
      else if k \<in> set BOOL_KEYS then (k, JBool (raw = ''true'')) # draft_patch ds
      else (k, JStr raw) # draft_patch ds)"

record settings_page =
  sp_draft :: "(string, string) jsmap"
  sp_dialog :: bool
  sp_typed :: string
  sp_effective :: "(string \<times> json) list"
  sp_sent :: "(string \<times> json) list list"

datatype settings_op =
    SEdit string string
  | SSubmit
  | STyped string
  | SCancel
  | SConfirm
  | SSaved
  | SLoaded "(string \<times> json) list"

definition new_page :: settings_page where
  "new_page = \<lparr>sp_draft = [], sp_dialog = False, sp_typed = [], sp_effective = [], sp_sent = []\<rparr>"

definition skip_mode :: "(string \<times> json) list \<Rightarrow> bool" where
  "skip_mode kvs = (map_of kvs ''permissionMode'' = Some (JStr ''skip''))"

definition page_submit :: "settings_page \<Rightarrow> settings_page" where
  "page_submit s =
     (if sp_draft s = [] then s
      else let patch = draft_patch (sp_draft s) in
        if skip_mode patch \<and> \<not> skip_mode (sp_effective s) then s\<lparr>sp_dialog := True\<rparr>
        else s\<lparr>sp_sent := sp_sent s @ [patch]\<rparr>)"

text \<open>The confirm button is disabled until the word is typed.\<close>

definition page_confirm :: "settings_page \<Rightarrow> settings_page" where
  "page_confirm s =
     (if sp_dialog s \<and> sp_typed s = ''SKIP''
      then s\<lparr>sp_dialog := False, sp_typed := [], sp_sent := sp_sent s @ [[(''permissionMode'', JStr ''skip'')]]\<rparr> else s)"

fun page_step :: "settings_page \<Rightarrow> settings_op \<Rightarrow> settings_page" where
  "page_step s (SEdit k v) = s\<lparr>sp_draft := jm_set k v (sp_draft s)\<rparr>"
| "page_step s SSubmit = page_submit s"
| "page_step s (STyped t) = (if sp_dialog s then s\<lparr>sp_typed := t\<rparr> else s)"
| "page_step s SCancel =
     (if sp_dialog s then s\<lparr>sp_dialog := False, sp_typed := [], sp_draft := jm_del ''permissionMode'' (sp_draft s)\<rparr> else s)"
| "page_step s SConfirm = page_confirm s"
| "page_step s SSaved = s\<lparr>sp_draft := []\<rparr>"
| "page_step s (SLoaded eff) = s\<lparr>sp_effective := eff\<rparr>"

section \<open>Dashboard, guard, clipboard, theme and language\<close>

definition successRate :: "nat \<Rightarrow> nat \<Rightarrow> int option" where
  "successRate totalOk totalAll = (if totalAll > 0 then Some \<lfloor>of_nat totalOk / of_nat totalAll * 100 + (1 / 2 :: rat)\<rfloor> else None)"

definition active_accounts :: "managed_account list \<Rightarrow> managed_account list" where
  "active_accounts accs =
     filter (\<lambda>a. enabled a \<and> \<not> authRequired a \<and> (\<forall>f \<in> {Google, Anthropic, Openai, UnknownFamily}. cooldowns a f = None)) accs"

definition recent_errors :: "events_state \<Rightarrow> (run_event \<times> ms) list" where
  "recent_errors s = take 8 (filter (\<lambda>(r, t). \<not> re_ok r) (es_runs s))"

datatype guard_outcome = Proceed | ToLogin | Broken api_error

definition requireAuth :: "api_error + json \<Rightarrow> guard_outcome" where
  "requireAuth me =
     (case me of Inr v \<Rightarrow> Proceed | Inl (ApiError st m) \<Rightarrow> if st = 401 then ToLogin else Broken (ApiError st m))"

text \<open>\<open>write\<close>: the outcome of the asynchronous clipboard where the browser has one; \<open>copies\<close>: what \<open>execCommand\<close> returned.\<close>

definition copyText :: "bool option \<Rightarrow> bool \<Rightarrow> bool" where
  "copyText write copies = (if write = Some True then True else copies)"

datatype theme_mode = Light | Dark | System

definition readStored :: "string option \<Rightarrow> theme_mode" where
  "readStored item =
     (if item = Some ''light'' then Light else if item = Some ''dark'' then Dark else System)"

definition dark_class :: "bool \<Rightarrow> theme_mode \<Rightarrow> bool" where
  "dark_class systemDark m = (m = Dark \<or> m = System \<and> systemDark)"

fun NEXT_THEME :: "theme_mode \<Rightarrow> theme_mode" where
  "NEXT_THEME Light = Dark"
| "NEXT_THEME Dark = System"
| "NEXT_THEME System = Light"

datatype language = ZhCN | En

fun detectNavigatorLanguage :: "string list \<Rightarrow> language" where
  "detectNavigatorLanguage [] = ZhCN"
| "detectNavigatorLanguage (l # ls) =
     (let lower = to_lower l in
      if starts_with lower ''en'' then En else if starts_with lower ''zh'' then ZhCN else detectNavigatorLanguage ls)"

definition detectLanguage :: "string option \<Rightarrow> string list \<Rightarrow> language" where
  "detectLanguage item langs =
     (if item = Some ''zh-CN'' then ZhCN else if item = Some ''en'' then En else detectNavigatorLanguage langs)"

section \<open>The pages and the server agree\<close>

lemma parseModels_server: "parseModels = parseKeyScopes"
  by (auto simp: fun_eq_iff parseModels_def parseKeyScopes_def Let_def split: option.splits)

text \<open>Limits the forms let through are never refused, and arrive as they are.\<close>

lemma form_limits_accepted:
  assumes "form_limits daily rpm = Some (d, r)"
  shows "edit_call i daily rpm sc = Some c \<Longrightarrow> rq_body rq = w_body (api_request c) \<Longrightarrow>
      \<not> limits_invalid (body_of rq) \<and> p_daily (key_patch_of rq) = Some d \<and> p_rpm (key_patch_of rq) = Some r \<and>
      p_scopes (key_patch_of rq) = Some (Some sc)"
    and "create_call nm daily rpm = Some c \<Longrightarrow> rq_body rq = w_body (api_request c) \<Longrightarrow> \<not> limits_invalid (body_of rq)"
  using assms
  by (auto simp: edit_call_def create_call_def form_limits_def form_limit_def apiSend_def body_of_def limits_invalid_def
      key_patch_of_def Let_def split: option.splits if_splits)

lemma formatRemaining_ne [simp]: "formatRemaining m \<noteq> []"
  by (auto simp: formatRemaining_def Let_def)

lemma card_badge_health:
  "card_badge a t =
     (case getAccountHealth t a Google of
        health.Disabled m \<Rightarrow> BadgeDisabled
      | health.AuthRequired m \<Rightarrow> BadgeAuth
      | health.Cooldown m left \<Rightarrow> BadgeCooldown (formatRemaining (of_int left))
      | health.Healthy \<Rightarrow> BadgeHealthy)"
  by (auto simp: card_badge_def HealthBadge_def getAccountHealth_def countdownUntil_def Let_def split: option.splits)

text \<open>An account the dashboard counts is healthy; one whose cooldown has run out is healthy and not counted.\<close>

lemma active_healthy: "a \<in> set (active_accounts accs) \<Longrightarrow> getAccountHealth t a Google = health.Healthy"
  by (auto simp: active_accounts_def getAccountHealth_def)

lemma expired_cooldown_inactive:
  assumes "enabled a" "\<not> authRequired a" "cooldowns a Google = Some c" "cooldownUntil c \<le> t"
  shows "getAccountHealth t a Google = health.Healthy" and "active_accounts [a] = []"
  using assms by (auto simp: active_accounts_def getAccountHealth_def)

section \<open>A key is not dismissed unsaved\<close>

definition dialog_ok :: "key_dialog \<Rightarrow> dialog_op \<Rightarrow> bool" where
  "dialog_ok s op = (op = KSubmit \<longrightarrow> kd_inflight s = 0)"

definition dialog_inv :: "key_dialog \<Rightarrow> bool" where
  "dialog_inv s \<longleftrightarrow> (kd_plaintext s \<noteq> None \<longrightarrow> kd_inflight s = 0) \<and> kd_inflight s \<le> 1 \<and> (\<forall>(p, b) \<in> set (kd_dropped s). b)"

interpretation dialog_run: stepwise dialog_step dialog_ok dialog_inv
proof
  show "dialog_inv s \<Longrightarrow> dialog_ok s op \<Longrightarrow> dialog_inv (dialog_step s op)" for s op
    by (cases op) (auto simp: dialog_inv_def dialog_ok_def drop_plaintext_def close_dialog_def dismissable_def split: option.splits if_splits)
qed

text \<open>One creation at a time: a key text leaves the dialog only after the box was ticked.\<close>

lemma keys_saved_first:
  assumes "ok_run dialog_step dialog_ok new_dialog ops" and "(p, b) \<in> set (kd_dropped (foldl dialog_step new_dialog ops))"
  shows b
proof -
  have "dialog_inv new_dialog" by (simp add: dialog_inv_def new_dialog_def)
  from dialog_run.run_inv [OF this assms(1)] assms(2) show b by (auto simp: dialog_inv_def)
qed

text \<open>The form does not wait for its request: submitted twice, it loses the first key unsaved.\<close>

lemma double_submit_drops_key:
  "kd_dropped (foldl dialog_step new_dialog [KOpen, KSubmit, KSubmit, KCreated ''first'', KCreated ''second'']) = [(''first'', False)]"
  by (simp add: new_dialog_def drop_plaintext_def)

section \<open>Skipping permissions is confirmed\<close>

fun typed_last :: "string \<Rightarrow> settings_op list \<Rightarrow> string" where
  "typed_last t [] = t"
| "typed_last t (STyped u # ops) = typed_last u ops"
| "typed_last t (op # ops) = typed_last t ops"

lemma typed_last_snoc: "typed_last t (ops @ [op]) = (case op of STyped u \<Rightarrow> u | _ \<Rightarrow> typed_last t ops)"
  by (induction t ops rule: typed_last.induct) (auto split: settings_op.splits)

definition page_run :: "settings_op list \<Rightarrow> settings_page" where
  "page_run ops = foldl page_step new_page ops"

lemma page_run_simps: "page_run [] = new_page" "page_run (ops @ [op]) = page_step (page_run ops) op"
  by (simp_all add: page_run_def)

text \<open>The submit after \<open>pre\<close> opened the dialog, and it has been open ever since.\<close>

definition open_since :: "settings_op list \<Rightarrow> settings_op list \<Rightarrow> settings_op list \<Rightarrow> bool" where
  "open_since ops pre mid \<longleftrightarrow> ops = pre @ SSubmit # mid \<and> \<not> sp_dialog (page_run pre) \<and>
     (\<forall>k \<le> length mid. sp_dialog (page_run (pre @ SSubmit # take k mid)))"

lemma open_since_snoc:
  assumes "open_since ops pre mid" and "sp_dialog (page_run (ops @ [op]))"
  shows "open_since (ops @ [op]) pre (mid @ [op])"
  unfolding open_since_def
proof (intro conjI allI impI)
  fix k assume k: "k \<le> length (mid @ [op])"
  show "sp_dialog (page_run (pre @ SSubmit # take k (mid @ [op])))"
  proof (cases "k \<le> length mid")
    case False
    with k have "take k (mid @ [op]) = mid @ [op]" by simp
    then show ?thesis using assms by (simp add: open_since_def)
  qed (use assms in \<open>simp add: open_since_def\<close>)
qed (use assms in \<open>auto simp: open_since_def\<close>)

lemma step_typed:
  "sp_dialog s \<Longrightarrow> sp_dialog (page_step s op) \<Longrightarrow> sp_typed (page_step s op) = (case op of STyped u \<Rightarrow> u | _ \<Rightarrow> sp_typed s)"
  "sp_dialog s \<or> sp_typed s = [] \<Longrightarrow> \<not> sp_dialog (page_step s op) \<Longrightarrow> sp_typed (page_step s op) = []"
  "\<not> sp_dialog s \<Longrightarrow> sp_dialog (page_step s op) \<Longrightarrow> op = SSubmit \<and> sp_typed (page_step s op) = sp_typed s"
  by (cases op; simp add: page_submit_def page_confirm_def Let_def split: if_splits)+

lemma dialog_opened:
  "(sp_dialog (page_run ops) \<longrightarrow> (\<exists>pre mid. open_since ops pre mid \<and> sp_typed (page_run ops) = typed_last [] mid)) \<and>
   (\<not> sp_dialog (page_run ops) \<longrightarrow> sp_typed (page_run ops) = [])"
proof (induction ops rule: rev_induct)
  case Nil
  then show ?case by (simp add: page_run_simps new_page_def)
next
  case (snoc op ops)
  let ?s = "page_run ops" and ?s' = "page_run (ops @ [op])"
  have "\<not> sp_dialog ?s' \<Longrightarrow> sp_typed ?s' = []" using snoc step_typed(2) [of ?s op] by (auto simp: page_run_simps)
  moreover have "\<exists>pre mid. open_since (ops @ [op]) pre mid \<and> sp_typed ?s' = typed_last [] mid" if d: "sp_dialog ?s'"
  proof (cases "sp_dialog ?s")
    case True
    with snoc obtain pre mid where o: "open_since ops pre mid" "sp_typed ?s = typed_last [] mid" by blast
    have "sp_typed ?s' = typed_last [] (mid @ [op])"
      using step_typed(1) [OF True] d o(2) by (simp add: page_run_simps typed_last_snoc split: settings_op.splits)
    with open_since_snoc [OF o(1) d] show ?thesis by blast
  next
    case False
    with snoc have "sp_typed ?s = []" by blast
    with step_typed(3) [OF False] d have "op = SSubmit" "sp_typed ?s' = []" by (simp_all add: page_run_simps)
    then have "open_since (ops @ [op]) ops [] \<and> sp_typed ?s' = typed_last [] []" using False d by (simp add: open_since_def)
    then show ?thesis by blast
  qed
  ultimately show ?case by blast
qed

text \<open>
  C24. The console never asks the gateway to skip permissions by accident. Whatever was done on the settings page, a
  request that sets the mode to skip while the gateway is not known to be in it is sent by the confirm button alone, after a
  submit opened the dialog, which has been open ever since, and the last text typed into it is \<open>SKIP\<close>.
\<close>

theorem skip_needs_confirmation:
  assumes "s = page_run ops" and "sp_sent (page_step s op) = sp_sent s @ [patch]"
    and "skip_mode patch" and "\<not> skip_mode (sp_effective s)"
  shows "op = SConfirm \<and> patch = [(''permissionMode'', JStr ''skip'')] \<and>
    (\<exists>pre mid. open_since ops pre mid \<and> typed_last [] mid = ''SKIP'')"
proof -
  have c: "op = SConfirm \<and> patch = [(''permissionMode'', JStr ''skip'')] \<and> sp_dialog s \<and> sp_typed s = ''SKIP''"
    using assms(2-4) by (cases op) (auto simp: page_submit_def page_confirm_def Let_def split: if_splits)
  moreover from dialog_opened [of ops] c assms(1) have "\<exists>pre mid. open_since ops pre mid \<and> sp_typed s = typed_last [] mid" by blast
  ultimately show ?thesis by (metis (no_types, lifting))
qed

definition skip_ops :: "settings_op list" where
  "skip_ops = [SLoaded [(''permissionMode'', JStr ''plan'')], SEdit ''permissionMode'' ''skip'', SSubmit, STyped ''skip'', SConfirm, STyped ''SKIP'']"

lemma skip_page:
  "page_run skip_ops = \<lparr>sp_draft = [(''permissionMode'', ''skip'')], sp_dialog = True, sp_typed = ''SKIP'',
      sp_effective = [(''permissionMode'', JStr ''plan'')], sp_sent = []\<rparr>"
  by code_simp

theorem skip_needs_confirmation_witness:
  "sp_sent (page_run (skip_ops @ [SConfirm])) = [[(''permissionMode'', JStr ''skip'')]] \<and>
   (\<exists>pre mid. open_since skip_ops pre mid \<and> typed_last [] mid = ''SKIP'')"
proof -
  have n: "sp_sent (page_step (page_run skip_ops) SConfirm) = sp_sent (page_run skip_ops) @ [[(''permissionMode'', JStr ''skip'')]]"
    "\<not> skip_mode (sp_effective (page_run skip_ops))" "skip_mode [(''permissionMode'', JStr ''skip'')]"
    by (simp_all add: skip_page page_confirm_def skip_mode_def)
  from skip_needs_confirmation [OF refl n(1) n(3) n(2)] n(1) show ?thesis by (simp add: page_run_simps skip_page)
qed

text \<open>The confirmation sends the mode alone, and the answer then clears every other edit of the draft unsent.\<close>

lemma confirmation_drops_edits:
  "let s = page_run [SEdit ''defaultModel'' ''gemini-3-pro'', SEdit ''permissionMode'' ''skip'', SSubmit, STyped ''SKIP'', SConfirm, SSaved]
   in sp_sent s = [[(''permissionMode'', JStr ''skip'')]] \<and> sp_draft s = []"
  by code_simp

section \<open>The feed over reconnects\<close>

text \<open>A bus event as a message on the wire.\<close>

definition message_of :: "admin_event \<Rightarrow> message" where
  "message_of ev = (Some ev, show_nat (ev_seq ev))"

definition runs_of :: "admin_event list \<Rightarrow> (run_event \<times> ms) list" where
  "runs_of evs = map_filter_opt (\<lambda>ev. case ev_body ev of RunEvent r \<Rightarrow> Some (r, ev_at ev) | _ \<Rightarrow> None) evs"

lemma runs_of_append: "runs_of (a @ b) = runs_of a @ runs_of b"
  by (induction a) (auto simp: runs_of_def split: event_body.splits)

lemma runs_of_filter: "runs_of (filter (\<lambda>e. \<not> is_snapshot e) evs) = runs_of evs"
  by (induction evs) (auto simp: runs_of_def split: event_body.splits)

definition feed_all :: "admin_event list \<Rightarrow> events_state \<Rightarrow> events_state" where
  "feed_all evs s = foldl (\<lambda>s ev. on_message (message_of ev) s) s evs"

lemma feed_runs: "length (es_runs s) \<le> RUNS_BUFFER \<Longrightarrow> es_runs (feed_all evs s) = take RUNS_BUFFER (rev (runs_of evs) @ es_runs s)"
proof (induction evs arbitrary: s)
  case (Cons ev evs)
  let ?s = "on_message (message_of ev) s"
  have r: "es_runs ?s = take RUNS_BUFFER (rev (runs_of [ev]) @ es_runs s)"
    using Cons.prems by (auto simp: on_message_def message_of_def with_seq_def runs_of_def js_number_show_nat RUNS_BUFFER_def split: event_body.splits)
  then have "length (es_runs ?s) \<le> RUNS_BUFFER" by simp
  from Cons.IH [OF this] r have "es_runs (feed_all (ev # evs) s) = take RUNS_BUFFER (rev (runs_of evs) @ take RUNS_BUFFER (rev (runs_of [ev]) @ es_runs s))"
    by (simp add: feed_all_def)
  also have "\<dots> = take RUNS_BUFFER (rev (runs_of evs) @ rev (runs_of [ev]) @ es_runs s)"
    by (simp add: take_append min_def)
  finally show ?case using runs_of_append [of "[ev]" evs] by simp
qed (simp add: feed_all_def runs_of_def)

lemma feed_last_id: "evs \<noteq> [] \<Longrightarrow> es_lastEventId (feed_all evs s) = of_nat (ev_seq (last evs))"
  by (induction evs rule: rev_induct)
    (auto simp: feed_all_def on_message_def message_of_def with_seq_def js_number_show_nat split: event_body.splits)

text \<open>Of a strictly increasing list, a prefix is what lies up to its last number.\<close>

lemma sorted_prefix_filter:
  assumes "sorted_wrt (<) (map f (a @ b))" "a \<noteq> []"
  shows "filter (\<lambda>x. f x \<le> (f (last a) :: nat)) (a @ b) = a"
proof -
  obtain a' x where a: "a = a' @ [x]" using assms(2) by (cases a rule: rev_cases) auto
  with assms(1) have "\<forall>y \<in> set a'. f y \<le> f x" "\<forall>y \<in> set b. \<not> f y \<le> f x" by (auto simp: sorted_wrt_append)
  then show ?thesis by (simp add: a filter_empty_conv)
qed

lemma numbered_take:
  assumes "numbered L" "k \<le> n"
  shows "filter (\<lambda>e. ev_seq e \<le> n) (drop k L) = drop k (take n L)"
proof -
  have split: "drop k L = take (n - k) (drop k L) @ drop n L"
    using append_take_drop_id [of "n - k" "drop k L"] assms(2) by simp
  have "filter (\<lambda>e. ev_seq e \<le> n) (take (n - k) (drop k L)) = take (n - k) (drop k L)"
    "filter (\<lambda>e. ev_seq e \<le> n) (drop n L) = []"
    using assms by (auto simp: filter_id_conv filter_empty_conv in_set_conv_nth numbered_nth)
  then show ?thesis by (subst split) (simp add: drop_take del: drop_drop)
qed

lemma numbered_sorted: "numbered L \<Longrightarrow> sorted_wrt (<) (map ev_seq (filter P (drop k L)))"
proof -
  assume "numbered L"
  then have "sorted_wrt (<) (map ev_seq L)" by (simp add: numbered_def del: upt_Suc)
  then have "sorted_wrt (\<lambda>a b. ev_seq a < ev_seq b) L" by (simp add: sorted_wrt_map)
  then have "sorted_wrt (\<lambda>a b. ev_seq a < ev_seq b) (filter P (drop k L))" by (intro sorted_wrt_filter sorted_wrt_drop)
  then show ?thesis by (simp add: sorted_wrt_map)
qed

text \<open>Of what a connection was sent from the event number \<open>k + 1\<close> on, a part that ends with number \<open>n\<close> has every run up to \<open>n\<close>.\<close>

lemma part_runs:
  assumes "numbered L" and "prefix got (snap # filter P (drop (Suc k) L))" and "got \<noteq> []"
    and "P = (\<lambda>e. \<not> is_snapshot e)" and "snap = L ! k" "is_snapshot snap" "k < length L"
  shows "runs_of got = runs_of (drop k (take (ev_seq (last got)) L)) \<and> k < ev_seq (last got) \<and> ev_seq (last got) \<le> length L"
proof -
  let ?n = "ev_seq (last got)"
  from assms(2) obtain b where b: "snap # filter P (drop (Suc k) L) = got @ b" by (auto simp: prefix_def)
  have cons: "drop k L = snap # drop (Suc k) L" using assms(5,7) by (simp add: Cons_nth_drop_Suc)
  have later: "e \<noteq> snap" if e: "e \<in> set (drop (Suc k) L)" for e
  proof
    assume "e = snap"
    moreover from e obtain i where "i < length (drop (Suc k) L)" "e = drop (Suc k) L ! i" by (metis in_set_conv_nth)
    then have "Suc k + i < length L" "e = L ! (Suc k + i)" by auto
    ultimately show False using numbered_nth [OF assms(1), of "Suc k + i"] numbered_nth [OF assms(1), of k] assms(5,7) by simp
  qed
  have "sorted_wrt (<) (map ev_seq (filter (\<lambda>e. e = snap \<or> P e) (drop k L)))" by (rule numbered_sorted [OF assms(1)])
  moreover have "filter (\<lambda>e. e = snap \<or> P e) (drop k L) = snap # filter (\<lambda>e. e = snap \<or> P e) (drop (Suc k) L)" by (simp add: cons)
  moreover have "filter (\<lambda>e. e = snap \<or> P e) (drop (Suc k) L) = filter P (drop (Suc k) L)"
    using later by (intro filter_cong) auto
  ultimately have srt: "sorted_wrt (<) (map ev_seq (got @ b))" by (simp add: b)
  have lst: "last got \<in> set (drop k L)"
    using assms(3) b cons by (metis (no_types, lifting) UnI1 filter_is_subset insert_mono last_in_set list.simps(15) set_append subsetD)
  then obtain j where j: "j < length (drop k L)" "last got = drop k L ! j" by (auto simp: in_set_conv_nth)
  with assms(1) have n: "?n = Suc (k + j)" "k + j < length L" by (auto simp: numbered_nth)
  have "got = filter (\<lambda>e. ev_seq e \<le> ?n) (got @ b)" using sorted_prefix_filter [OF srt assms(3)] by simp
  also have "runs_of \<dots> = runs_of (filter (\<lambda>e. \<not> is_snapshot e) (filter (\<lambda>e. ev_seq e \<le> ?n) (drop k L)))"
    unfolding b [symmetric] cons using assms(4,6)
    by (auto simp: runs_of_filter filter_filter conj_commute runs_of_def split: event_body.splits)
  also have "\<dots> = runs_of (drop k (take ?n L))"
    using numbered_take [OF assms(1), of k ?n] n by (simp add: runs_of_filter del: is_snapshot.simps)
  finally show ?thesis using n by simp
qed

lemma log_grows: "prefix (bus_log (foldl bus_step (new_history cap ttl) a)) (bus_log (foldl bus_step (new_history cap ttl) (a @ b)))"
proof -
  let ?h = "foldl bus_step (new_history cap ttl) a"
  have "bus_inv ?h" using bus_run.run_inv [OF new_history_inv ok_run_True] .
  moreover have "0 < nextId (the_bus ?h)" using served_run [OF new_history_inv, of 0 cap ttl a]
    by (simp add: served_def new_history_def new_bus_def)
  ultimately have "served 0 ?h (foldl bus_step ?h b)" by (rule served_run)
  then show ?thesis by (auto simp: served_def prefix_def)
qed

lemma snapshot_connects: "length (bus_log h) < length (bus_log (bus_step h (BConnect t p None)))"
  by (auto simp: admin_events_def subscribe_def registerClient_def publishSnapshot_def bus_append_def last_event_id_def Let_def split: prod.splits)

text \<open>
  C23. The live feed over a lost connection. The page connects, receives some part of what it was sent, loses the
  connection and reconnects with the id it received last. If the server can still replay from there, the feed shows exactly
  the last hundred of all the runs that ended since the page first connected, newest first: none is lost and none is shown twice.
\<close>

theorem feed_survives_reconnect:
  assumes "h = foldl bus_step (new_history cap ttl) before" and "s1 = nextId (the_bus h)"
    and "h1 = foldl bus_step h (BConnect t p None # mid)" and "s1 \<in> set (subscribers (the_bus h1))"
    and "prefix got (received s1 h1)" and "got \<noteq> []"
    and "h2 = foldl bus_step h1 gap" and "of_nat n = es_lastEventId (feed_all got initial_events)"
    and "replayable (Some (show_nat n)) (the_bus h2) \<noteq> None"
    and "h3 = foldl bus_step h2 (BConnect t' p' (Some (show_nat n)) # after)" and "s2 = nextId (the_bus h2)"
    and "s2 \<in> set (subscribers (the_bus h3))"
  shows "es_runs (feed_all (got @ received s2 h3) initial_events) = take 100 (rev (runs_of (drop (length (bus_log h)) (bus_log h3))))"
proof -
  let ?k = "length (bus_log h)" and ?P = "\<lambda>e. \<not> is_snapshot e"
  have h2': "h2 = foldl bus_step (new_history cap ttl) (before @ (BConnect t p None # mid) @ gap)" by (simp add: assms(1,3,7))
  have n: "n = ev_seq (last got)" using assms(8) feed_last_id [OF assms(6)] by simp
  have hd0: "replayable None b = None" for b by (simp add: replayable_def last_event_id_def)
  from resume_exact [OF assms(1-4)] hd0 obtain snap where num: "numbered (bus_log h1)" and snap: "is_snapshot snap" "snap = bus_log h1 ! ?k"
    and r1: "received s1 h1 = snap # filter ?P (drop (Suc ?k) (bus_log h1))" by auto
  have grow: "prefix (bus_log h1) (bus_log h2)" "prefix (bus_log h2) (bus_log h3)" "prefix (bus_log (bus_step h (BConnect t p None))) (bus_log h1)"
    using log_grows [of cap ttl "before @ BConnect t p None # mid" gap]
      log_grows [of cap ttl "before @ (BConnect t p None # mid) @ gap" "BConnect t' p' (Some (show_nat n)) # after"]
      log_grows [of cap ttl "before @ [BConnect t p None]" mid]
    by (simp_all add: assms(1,3,7,10))
  then have k: "?k < length (bus_log h1)" using snapshot_connects [of h t p] prefix_length_le by (metis order_less_le_trans)
  from part_runs [OF num _ assms(6) refl snap(2,1) k] r1 assms(5)
  have g: "runs_of got = runs_of (drop ?k (take n (bus_log h1)))" "?k < n" "n \<le> length (bus_log h1)" by (auto simp: n)
  have rp: "replayable (Some (show_nat n)) (the_bus h2) = Some n"
    using assms(9) by (auto simp: replayable_def last_event_id_def read_show_nat list_all_iff dest: show_nat_digits split: option.splits if_splits)
  from resume_exact [OF h2' assms(11,10,12)] rp
  have r2: "received s2 h3 = drop n (bus_log h2) @ filter ?P (drop (length (bus_log h2)) (bus_log h3))" by simp
  from grow obtain x y where x: "bus_log h2 = bus_log h1 @ x" "bus_log h3 = bus_log h2 @ y" by (auto simp: prefix_def)
  have "drop ?k (bus_log h3) = drop ?k (take n (bus_log h1)) @ drop n (bus_log h2) @ y"
    using g(2,3) by (simp add: x) (metis append_take_drop_id diff_is_0_eq' drop_0 drop_append length_take less_imp_le min_absorb2)
  then have "runs_of (got @ received s2 h3) = runs_of (drop ?k (bus_log h3))"
    using g(1) by (simp add: r2 x(2) runs_of_append runs_of_filter del: is_snapshot.simps)
  moreover have "es_runs (feed_all evs initial_events) = take 100 (rev (runs_of evs))" for evs
    using feed_runs [of initial_events evs] by (simp add: initial_events_def RUNS_BUFFER_def)
  ultimately show ?thesis by simp
qed

definition feed_history :: "bus_op list \<Rightarrow> bus_history" where
  "feed_history ops = foldl bus_step (new_history (Some 3) None) ops"

text \<open>The page receives the snapshot and run a, misses b, reconnects with the id of a, and shows c, b and a.\<close>

theorem feed_survives_reconnect_witness:
  "let h1 = feed_history [BConnect 1 defaultPoolData None, BRun 2 (demo_run_event ''a''), BRun 3 (demo_run_event ''b'')];
       h3 = foldl bus_step h1 [BConnect 4 defaultPoolData (Some ''2''), BRun 5 (demo_run_event ''c'')];
       got = take 2 (received 1 h1)
   in map (re_reqId \<circ> fst) (es_runs (feed_all (got @ received 3 h3) initial_events)) = [''c'', ''b'', ''a'']"
proof -
  let ?mid = "[BRun 2 (demo_run_event ''a''), BRun 3 (demo_run_event ''b'')]"
  let ?h = "foldl bus_step (new_history (Some 3) None) []"
  let ?h1 = "foldl bus_step ?h (BConnect 1 defaultPoolData None # ?mid)"
  let ?h3 = "foldl bus_step ?h1 (BConnect 4 defaultPoolData (Some (show_nat 2)) # [BRun 5 (demo_run_event ''c'')])"
  let ?got = "take 2 (received 1 ?h1)"
  have s: "1 = nextId (the_bus ?h)" "1 \<in> set (subscribers (the_bus ?h1))" "3 = nextId (the_bus ?h1)"
    "3 \<in> set (subscribers (the_bus ?h3))" "replayable (Some (show_nat 2)) (the_bus ?h1) \<noteq> None" "?got \<noteq> []"
    "ev_seq (last ?got) = 2"
    "map (re_reqId \<circ> fst) (rev (runs_of (drop (length (bus_log ?h)) (bus_log ?h3)))) = [''c'', ''b'', ''a'']"
    by code_simp+
  have p: "prefix ?got (received 1 ?h1)" by (rule take_is_prefix)
  have n: "of_nat 2 = es_lastEventId (feed_all ?got initial_events)" using feed_last_id [OF s(6)] s(7) by simp
  have two: "show_nat 2 = ''2''" by code_simp
  from feed_survives_reconnect [OF refl s(1) refl s(2) p s(6) foldl.simps(1) [symmetric] n s(5) refl s(3) s(4)]
  have "map (re_reqId \<circ> fst) (es_runs (feed_all (?got @ received 3 ?h3) initial_events)) =
      take 100 (map (re_reqId \<circ> fst) (rev (runs_of (drop (length (bus_log ?h)) (bus_log ?h3)))))"
    by (simp only: take_map)
  with s(8) show ?thesis by (simp add: feed_history_def two del: foldl_Cons)
qed

end
