(* ===== verification/Doctor.thy ===== *)
theory Doctor
  imports Errors Models Sessions Dates
begin

text \<open>
  Helpers at the edge of the gateway: the diagnostic report of \<open>src/host/diagnostics.ts\<close>, the tool arguments of
  \<open>src/host/mirror.ts\<close>, the choice of the outbound agent in \<open>src/host/net.ts\<close> and the options of the logger
  (\<open>src/server/logger.ts\<close>). The printing of the configuration object is the parameter \<open>cfg_text\<close>.
\<close>

section \<open>The report\<close>

record doctor_deps =
  dd_cfg :: gateway_config
  dd_bin :: "string option"
  dd_version :: "string option"
  dd_catalog :: catalog
  dd_store :: "(string, session_binding) jsmap"
  dd_recent :: "string list"

text \<open>The configuration as printed: the number of extra arguments in place of them, and no key material.\<close>

definition report_config :: "gateway_config \<Rightarrow> gateway_config \<times> nat" where
  "report_config cfg = (cfg\<lparr>extraArgs := [], apiKey := ''<redacted>'', adminPassword := ''<redacted>''\<rparr>, length (extraArgs cfg))"

definition model_line :: "catalog_entry \<Rightarrow> string" where
  "model_line m = ''  - '' @ entry_id m @ (case efforts m of Some es \<Rightarrow> '' ['' @ join ''/'' es @ '']'' | None \<Rightarrow> [])"

definition binding_line :: "string \<times> session_binding \<Rightarrow> string option" where
  "binding_line kb = map_option (\<lambda>d. ''  - '' @ fst kb @ '' -> '' @ conversationId (snd kb) @ '' @ '' @ d) (toISOString (bound_at (snd kb)))"

fun all_some :: "'a option list \<Rightarrow> 'a list option" where
  "all_some [] = Some []"
| "all_some (None # xs) = None"
| "all_some (Some x # xs) = map_option (Cons x) (all_some xs)"

definition catalog_line :: "catalog \<Rightarrow> string" where
  "catalog_line cat = ''- catalog: '' @ (case cat_source cat of Discovered \<Rightarrow> ''discovered'' | Fallback \<Rightarrow> ''fallback'') @ '' '' @ em_dash @
     '' '' @ show_nat (length (cat_models cat)) @ '' models'' @
     (case lastError cat of None \<Rightarrow> [] | Some e \<Rightarrow> '' '' @ em_dash @ '' error: '' @ e)"

text \<open>\<open>node\<close> is the text of the runtime's version, platform and architecture.\<close>

definition report_lines :: "(gateway_config \<times> nat \<Rightarrow> string) \<Rightarrow> string \<Rightarrow> string \<Rightarrow> doctor_deps \<Rightarrow> string list option" where
  "report_lines cfg_text node iso_now d =
     map_option (\<lambda>bs.
       [''# agy-proxy diagnostic report'', [],
        ''- generated: '' @ iso_now,
        ''- agy binary: '' @ or_else (dd_bin d) ''NOT FOUND'',
        ''- agy version: '' @ or_else (dd_version d) ''unknown'',
        ''- gateway config: '' @ cfg_text (report_config (dd_cfg d)),
        catalog_line (dd_catalog d)] @
       map model_line (cat_models (dd_catalog d)) @
       [''- conversation bindings: '' @ show_nat (length (dd_store d))] @ bs @
       [''- node: '' @ node, [], ''## last stream-json stdout (redacted, tail)'', [], ''```''] @
       map redactLine (slice_last 400 (dd_recent d)) @ [''```'', []])
     (all_some (map binding_line (dd_store d)))"

text \<open>The name of the file and its text; \<open>None\<close> where a time is no date.\<close>

definition writeDoctorReport ::
  "(string list \<Rightarrow> string) \<Rightarrow> string \<Rightarrow> (gateway_config \<times> nat \<Rightarrow> string) \<Rightarrow> string \<Rightarrow> ms \<Rightarrow> doctor_deps \<Rightarrow> (string \<times> string) option" where
  "writeDoctorReport jn stateDir cfg_text node t d =
     (case toISOString t of
        None \<Rightarrow> None
      | Some iso_now \<Rightarrow>
          map_option (\<lambda>ls. (jn [jn [stateDir, ''diagnostics''], ''doctor-'' @ take 14 (filter is_digit iso_now) @ ''.md''], join nl ls))
            (report_lines cfg_text node iso_now d))"

text \<open>Neither the root key nor the admin password has any influence on the report.\<close>

lemma report_keeps_secrets:
  "writeDoctorReport jn dir cfg_text node t (d\<lparr>dd_cfg := (dd_cfg d)\<lparr>apiKey := k, adminPassword := p\<rparr>\<rparr>) =
   writeDoctorReport jn dir cfg_text node t d"
  by (cases "toISOString t") (simp_all add: writeDoctorReport_def report_lines_def report_config_def)

section \<open>Tool arguments\<close>

definition MIRROR_TOOL_SCHEMA :: json where
  "MIRROR_TOOL_SCHEMA = JObj
     [(''type'', JStr ''object''),
      (''properties'', JObj
        [(''run'', JObj [(''type'', JStr ''string''), (''description'', JStr ''Recording run id.'')]),
         (''step'', JObj [(''type'', JStr ''number''), (''description'', JStr ''Recorded event index of the tool step.'')]),
         (''tool'', JObj [(''type'', JStr ''string''), (''description'', JStr ''agy tool name that ran.'')]),
         (''input'', JObj [(''type'', JStr ''object''), (''description'', JStr ''agy tool arguments as recorded.'')])]),
      (''required'', JArr [JStr ''run'', JStr ''step''])]"

definition value_of :: "json \<Rightarrow> json" where
  "value_of v = JObj [(''value'', v)]"

definition toolInput :: "(string \<Rightarrow> json option) \<Rightarrow> json option \<Rightarrow> json" where
  "toolInput jparse raw =
     (case raw of
        None \<Rightarrow> JObj []
      | Some JNull \<Rightarrow> JObj []
      | Some (JStr s) \<Rightarrow> (case jparse s of None \<Rightarrow> value_of (JStr s) | Some v \<Rightarrow> if is_object (Some v) then v else value_of v)
      | Some v \<Rightarrow> if is_object (Some v) then v else value_of v)"

fun pick_text :: "json \<Rightarrow> string list \<Rightarrow> string option" where
  "pick_text inp [] = None"
| "pick_text inp (k # ks) = (case jget inp k of Some (JStr s) \<Rightarrow> Some s | _ \<Rightarrow> pick_text inp ks)"

text \<open>Whatever a tool recorded, the projection is an object, and what was an object stays as it was, printed or not.\<close>

lemma toolInput_object: "is_object (Some (toolInput jparse raw))"
  by (auto simp: toolInput_def value_of_def split: option.splits json.splits)

lemma toolInput_printed: "is_object (Some v) \<Longrightarrow> jparse s = Some v \<Longrightarrow> toolInput jparse (Some (JStr s)) = toolInput jparse (Some v)"
  by (cases v) (simp_all add: toolInput_def)

lemma pick_first: "pick_text inp ks = Some s \<Longrightarrow> \<exists>k \<in> set ks. jget inp k = Some (JStr s)"
  by (induction ks) (auto split: option.splits json.splits)

section \<open>Outbound requests\<close>

datatype agent = EnvAgent | ProxyAgent nat

record net_state =
  perProxyAgents :: "(string, nat) jsmap"
  made_agents :: nat

definition AGY_FETCH_TIMEOUT_MS :: ms where
  "AGY_FETCH_TIMEOUT_MS = 10000"

definition agentFor :: "string option \<Rightarrow> net_state \<Rightarrow> agent \<times> net_state" where
  "agentFor url s =
     (if truthy_str url
      then case map_of (perProxyAgents s) (the url) of
             Some n \<Rightarrow> (ProxyAgent n, s)
           | None \<Rightarrow> (ProxyAgent (made_agents s),
               s\<lparr>perProxyAgents := jm_set (the url) (made_agents s) (perProxyAgents s), made_agents := made_agents s + 1\<rparr>)
      else (EnvAgent, s))"

text \<open>What aborts a request: the caller's own signal, or the timeout.\<close>

datatype 'g fetch_signal = Own 'g | Timeout ms

definition agyFetch :: "'g option \<Rightarrow> string option \<Rightarrow> ms option \<Rightarrow> net_state \<Rightarrow> (agent \<times> 'g fetch_signal) \<times> net_state" where
  "agyFetch signal url limit_ms s =
     (let (a, s1) = agentFor url s
      in ((a, case signal of Some g \<Rightarrow> Own g | None \<Rightarrow> Timeout (or_else limit_ms AGY_FETCH_TIMEOUT_MS)), s1))"

definition net_inv :: "net_state \<Rightarrow> bool" where
  "net_inv s \<longleftrightarrow> (\<forall>u n. map_of (perProxyAgents s) u = Some n \<longrightarrow> n < made_agents s) \<and>
     (\<forall>u v n. map_of (perProxyAgents s) u = Some n \<longrightarrow> map_of (perProxyAgents s) v = Some n \<longrightarrow> u = v)"

lemma agentFor_inv: "net_inv s \<Longrightarrow> net_inv (snd (agentFor url s))"
  by (auto simp: agentFor_def net_inv_def less_Suc_eq split: option.splits if_splits)

text \<open>Two proxies never share an agent, one proxy keeps its own, and a proxy never falls back to the environment's.\<close>

lemma agents_separate:
  assumes "net_inv s" "u \<noteq> []" "v \<noteq> []" "agentFor (Some u) s = (a, s1)" "agentFor (Some v) s1 = (b, s2)"
  shows "a \<noteq> EnvAgent \<and> (a = b \<longleftrightarrow> u = v)"
  using assms by (auto simp: agentFor_def truthy_str_def net_inv_def split: option.splits if_splits; metis less_irrefl)

section \<open>The logger\<close>

record logger_options =
  lo_level :: string
  lo_paths :: "string list"
  lo_censor :: string

definition REDACT_PATHS :: "string list" where
  "REDACT_PATHS = [''req.headers.authorization'', ''req.headers.cookie'',
     ''req.headers['' @ [CHR 0x22] @ ''x-api-key'' @ [CHR 0x22] @ '']'', ''*.authorization'', ''*.apiKey'', ''*.api_key'']"

definition buildLogger :: "env \<Rightarrow> logger_options" where
  "buildLogger env = \<lparr>lo_level = or_else (env ''AGY_PROXY_LOG_LEVEL'') ''info'', lo_paths = REDACT_PATHS, lo_censor = ''[redacted]''\<rparr>"

end
