(* ===== verification/Shell.thy ===== *)
theory Shell
  imports Routes Storage Auth
begin

text \<open>
  The shell of the HTTP application, the rest of \<open>buildServer\<close> in \<open>src/server/app.ts\<close> and \<open>src/server/static.ts\<close>: the
  trusted proxies, the choice of the web root, the headers of static files and the handler of unknown paths, which gives the
  pages of the console to a browser and protocol-shaped errors to everybody else. The names of the console's pages are those of
  \<open>web/src/main.tsx\<close>.
\<close>

section \<open>Proxies and static files\<close>

definition trusted_proxies :: "gateway_config \<Rightarrow> string list" where
  "trusted_proxies cfg = filter (\<lambda>s. s \<noteq> []) (map trim (split_on (\<lambda>c. c = CHR '','') (trustedProxies cfg)))"

text \<open>No entry, no option: Fastify then trusts nobody.\<close>

definition trustProxy :: "gateway_config \<Rightarrow> (string \<Rightarrow> bool) option" where
  "trustProxy cfg = (if length (trusted_proxies cfg) > 0 then Some (\<lambda>addr. addr \<in> set (trusted_proxies cfg)) else None)"

record static_options =
  so_root :: string
  so_prefix :: string
  so_wildcard :: bool
  so_index :: string
  so_preCompressed :: bool
  so_cacheControl :: bool

definition registerStaticWeb :: "string option \<Rightarrow> static_options option" where
  "registerStaticWeb webRoot = map_option (\<lambda>r. \<lparr>so_root = r, so_prefix = ''/'', so_wildcard = False, so_index = ''index.html'',
     so_preCompressed = True, so_cacheControl = False\<rparr>) webRoot"

definition cache_header :: "string \<Rightarrow> string \<Rightarrow> string" where
  "cache_header sep path =
     (if str_includes path (sep @ ''assets'' @ sep) then ''public, max-age=31536000, immutable'' else ''no-cache'')"

text \<open>A broken override of the web root, which throws (\<open>None\<close>), counts as no web root.\<close>

definition web_root :: "string option option \<Rightarrow> string option" where
  "web_root resolved = (case resolved of None \<Rightarrow> None | Some r \<Rightarrow> r)"

section \<open>Unknown paths\<close>

text \<open>\<open>/\.[\w]+$/\<close>.\<close>

definition has_extension :: "string \<Rightarrow> bool" where
  "has_extension s =
     (let w = takeWhile word_char (rev s); r = drop (length w) (rev s)
      in w \<noteq> [] \<and> (case r of [] \<Rightarrow> False | c # _ \<Rightarrow> c = CHR ''.''))"

definition spa_path :: "string \<Rightarrow> string \<Rightarrow> bool" where
  "spa_path meth rurl =
     (let url = url_path rurl in
      (meth = ''GET'' \<or> meth = ''HEAD'') \<and> \<not> starts_with url ''/v1/'' \<and> \<not> starts_with url ''/admin/'' \<and>
      url \<noteq> ''/v1'' \<and> url \<noteq> ''/admin'' \<and> url \<noteq> ''/healthz'' \<and> \<not> has_extension (last (split_on (\<lambda>c. c = CHR ''/'') url)))"

datatype not_found_reply = IndexHtml "(string \<times> string) list" | NotFoundBody "nat \<times> error_body"

definition not_found_handler :: "string option \<Rightarrow> string \<Rightarrow> string \<Rightarrow> string \<Rightarrow> not_found_reply" where
  "not_found_handler webRoot meth url rid =
     (if webRoot \<noteq> None \<and> spa_path meth url
      then IndexHtml [(''cache-control'', ''no-store''), (''content-type'', ''text/html; charset=utf-8'')]
      else NotFoundBody (onNotFound url rid))"

text \<open>The pages of the console.\<close>

definition console_paths :: "string list" where
  "console_paths = [''/'', ''/accounts'', ''/keys'', ''/usage'', ''/settings'', ''/login'']"

text \<open>An unknown API path gets its protocol's error body whether or not there is a console, with any method and query.\<close>

lemma api_paths_no_html:
  assumes "starts_with (url_path url) ''/v1/'' \<or> starts_with (url_path url) ''/admin/'' \<or> url_path url \<in> {''/v1'', ''/admin'', ''/healthz''}"
  shows "not_found_handler webRoot meth url rid = NotFoundBody (onNotFound url rid)"
  using assms by (auto simp: not_found_handler_def spa_path_def Let_def)

text \<open>Every page of the console survives a reload in the browser, with any query.\<close>

lemma console_reload:
  assumes "p \<in> set console_paths" and "q = [] \<or> hd q = CHR ''?''"
  shows "not_found_handler (Some dir) ''GET'' (p @ q) rid =
    IndexHtml [(''cache-control'', ''no-store''), (''content-type'', ''text/html; charset=utf-8'')]"
proof -
  have "\<forall>c \<in> set p. c \<noteq> CHR ''?''" using assms(1) by (auto simp: console_paths_def)
  moreover have "takeWhile (\<lambda>c. c \<noteq> CHR ''?'') q = []" using assms(2) by (cases q) auto
  ultimately have u: "url_path (p @ q) = p" by (simp add: url_path_def takeWhile_append2 cong: takeWhile_cong)
  have "spa_path ''GET'' (p @ q)"
    using assms(1) unfolding spa_path_def u console_paths_def by (auto simp: has_extension_def word_char_def Let_def)
  then show ?thesis by (simp add: not_found_handler_def)
qed

section \<open>Process metrics\<close>

text \<open>The period of the ticker; \<open>None\<close> is an interval that is no finite number.\<close>

definition startDebugMetrics :: "rat option \<Rightarrow> rat option" where
  "startDebugMetrics intervalMs =
     (case intervalMs of None \<Rightarrow> None | Some n \<Rightarrow> if n \<le> 0 then None else Some (max 250 n))"

section \<open>The warning about open doors\<close>

datatype boot_note = Unauthenticated | BootstrapOnly

definition auth_note :: "string \<Rightarrow> nat \<Rightarrow> boot_note option" where
  "auth_note root_key keyCount =
     (if root_key = [] \<and> keyCount = 0 then Some Unauthenticated else if keyCount = 0 then Some BootstrapOnly else None)"

text \<open>The log warns exactly when a request without any key would be let in.\<close>

lemma open_door_warned:
  assumes "auth_keys s = Some ks" and "apiKeyFrom q = None"
  shows "fst (authHook sha new_limiter consume midnight next_day isoDate cfg up t q s) = Admit (Some (None, ''anon'')) \<longleftrightarrow>
    auth_note (apiKey cfg) (count_keys ks) = Some Unauthenticated"
  using assms by (auto simp: authHook_def auth_note_def refuse401_def split: if_splits)

end
