(* ===== verification/Spawns.thy ===== *)
theory Spawns
  imports Poller
begin

text \<open>
  From an attempt to a process, in \<open>stream\<close> of \<open>src/host/engine.ts\<close>: the environment of the child, the abort-aware
  sleep, the spacing of spawns and the queue of each account. The engine makes one queue per account, on first use and with a
  concurrency of one. Which job a queue starts next is up to the package \<open>p-queue\<close>: it is the parameter \<open>ready\<close>, with
  the law that the package documents (\<open>pq_ok\<close>). That a timer does not fire before its time and the clock does not go back
  is a condition on the histories (\<open>spawn_ok\<close>). What the attempt does with its process is in theory Dispatch.
\<close>

section \<open>The environment of a child\<close>

definition envFor ::
  "(string list \<Rightarrow> string) \<Rightarrow> bool \<Rightarrow> (string \<times> string option) list \<Rightarrow> gateway_config \<Rightarrow> managed_account option \<Rightarrow> (string, string) jsmap" where
  "envFor jn win penv cfg acc =
     sanitizeChildEnv
       (spread
         (spread
           (spread penv
             (if disableTelemetry cfg
              then [(''DO_NOT_TRACK'', ''1''), (''DISABLE_TELEMETRY'', ''1''), (''GOOGLE_CLOUD_DISABLE_TELEMETRY'', ''1''),
                (''ANTIGRAVITY_DISABLE_TELEMETRY'', ''1'')] else []))
           (case acc of Some a \<Rightarrow> if acc_dir a \<noteq> [] then isolatedHomeEnv jn win (acc_dir a) else [] | None \<Rightarrow> []))
         (case Option.bind acc proxyUrl of
            Some u \<Rightarrow> if u \<noteq> [] then map (\<lambda>k. (k, u)) [''ALL_PROXY'', ''HTTPS_PROXY'', ''HTTP_PROXY'', ''all_proxy'', ''https_proxy'', ''http_proxy''] else []
          | None \<Rightarrow> []))"

lemma spread_append: "spread env (a @ b) = spread (spread env a) b"
  by (simp add: spread_def)

text \<open>The two copies of the composition, for a run and for a discovery, agree.\<close>

lemma envFor_discovery: "envFor jn win penv cfg acc = discovery_env jn win penv cfg acc"
  by (auto simp: envFor_def discovery_env_def spread_append TELEMETRY_OFF_def proxyEnv_def truthy_str_def spread_def split: option.splits)

lemma lookup_spread: "map_of (spread env kvs) k = (case map_of (rev kvs) k of Some v \<Rightarrow> Some (Some v) | None \<Rightarrow> map_of env k)"
  by (induction kvs arbitrary: env) (auto simp: spread_def map_add_def split: option.splits)

lemma jm_wf_spread: "jm_wf env \<Longrightarrow> jm_wf (spread env kvs)"
  by (induction kvs arbitrary: env) (auto simp: spread_def jm_wf_jm_set)

lemma map_of_sanitize:
  "jm_wf env \<Longrightarrow> map_of (sanitizeChildEnv env) k = (if starts_with k ''AGY_PROXY_'' then None else Option.bind (map_of env k) (\<lambda>v. v))"
proof (induction env)
  case (Cons kv env)
  then have wf: "jm_wf env" "fst kv \<notin> fst ` set env" by (auto simp: jm_wf_def)
  then have "map_of env (fst kv) = None" by (simp add: map_of_eq_None_iff)
  with Cons.IH [OF wf(1)] show ?case by (cases kv) (auto simp: sanitizeChildEnv_def map_add_def split: option.splits)
qed (simp add: sanitizeChildEnv_def)

text \<open>An account with a directory runs at home there, and one with a proxy goes through it, whatever the gateway's own variables say.\<close>

lemma child_isolated:
  assumes "jm_wf penv" and "acc_dir a \<noteq> []"
  shows "map_of (envFor jn win penv cfg (Some a)) ''HOME'' = Some (acc_dir a)"
    and "proxyUrl a = Some u \<Longrightarrow> u \<noteq> [] \<Longrightarrow> map_of (envFor jn win penv cfg (Some a)) ''HTTPS_PROXY'' = Some u"
    and "starts_with k ''AGY_PROXY_'' \<Longrightarrow> map_of (envFor jn win penv cfg (Some a)) k = None"
  using assms
  by (auto simp: envFor_def map_of_sanitize jm_wf_spread lookup_spread isolatedHomeEnv_def map_add_def split: option.splits)

section \<open>The sleep\<close>

text \<open>What ends a sleep first; its timer is cleared when the abort comes before it.\<close>

record sleeper =
  sl_timer :: bool
  sl_listening :: bool
  sl_resolved :: nat

definition sleepUnref :: "bool \<Rightarrow> sleeper" where
  "sleepUnref aborted = (if aborted then \<lparr>sl_timer = False, sl_listening = False, sl_resolved = 1\<rparr>
     else \<lparr>sl_timer = True, sl_listening = True, sl_resolved = 0\<rparr>)"

definition sleep_timer :: "sleeper \<Rightarrow> sleeper" where
  "sleep_timer s = (if sl_timer s then \<lparr>sl_timer = False, sl_listening = False, sl_resolved = sl_resolved s + 1\<rparr> else s)"

definition sleep_abort :: "sleeper \<Rightarrow> sleeper" where
  "sleep_abort s = (if sl_listening s then \<lparr>sl_timer = False, sl_listening = False, sl_resolved = sl_resolved s + 1\<rparr> else s)"

text \<open>However its events fall, a sleep resolves once and leaves neither timer nor listener behind.\<close>

lemma sleep_once:
  "evs \<noteq> [] \<Longrightarrow> foldl (\<lambda>s abort. if abort then sleep_abort s else sleep_timer s) (sleepUnref aborted) evs =
     \<lparr>sl_timer = False, sl_listening = False, sl_resolved = 1\<rparr>"
proof (induction evs rule: rev_induct)
  case (snoc e evs)
  then show ?case by (cases "evs = []") (auto simp: sleepUnref_def sleep_timer_def sleep_abort_def)
qed simp

section \<open>The queue of an account\<close>

datatype task_phase = Waiting | Spacing ms | Alive | Finished

text \<open>What the engine creates of \<open>p-queue\<close>: a queue with its concurrency, and the jobs handed to \<open>add\<close> in order.\<close>

record pqueue =
  concurrency :: nat
  jobs :: "task_phase list"

text \<open>\<open>sp_direct\<close> are the attempts that run outside every queue, each with its account, if it has one.\<close>

record spawner =
  lastAccountSpawnTime :: "string \<rightharpoonup> ms"
  accountQueues :: "string \<rightharpoonup> pqueue"
  sp_direct :: "(string option \<times> task_phase) list"
  sp_clock :: ms
  sp_log :: "(string \<times> ms) list"

datatype job = Queued string nat | Direct nat

definition minSpawnIntervalMs :: ms where
  "minSpawnIntervalMs = 500"

definition new_spawner :: "ms \<Rightarrow> spawner" where
  "new_spawner t = \<lparr>lastAccountSpawnTime = Map.empty, accountQueues = Map.empty, sp_direct = [], sp_clock = t, sp_log = []\<rparr>"

fun job_account :: "job \<Rightarrow> spawner \<Rightarrow> string option" where
  "job_account (Queued acc i) s = Some acc"
| "job_account (Direct i) s = fst (sp_direct s ! i)"

fun phase_of :: "job \<Rightarrow> spawner \<Rightarrow> task_phase option" where
  "phase_of (Queued acc i) s =
     (case accountQueues s acc of Some q \<Rightarrow> if i < length (jobs q) then Some (jobs q ! i) else None | None \<Rightarrow> None)"
| "phase_of (Direct i) s = (if i < length (sp_direct s) then Some (snd (sp_direct s ! i)) else None)"

fun set_phase :: "job \<Rightarrow> task_phase \<Rightarrow> spawner \<Rightarrow> spawner" where
  "set_phase (Queued acc i) ph s =
     (case accountQueues s acc of
        Some q \<Rightarrow> s\<lparr>accountQueues := (accountQueues s)(acc \<mapsto> q\<lparr>jobs := (jobs q)[i := ph]\<rparr>)\<rparr> | None \<Rightarrow> s)"
| "set_phase (Direct i) ph s = s\<lparr>sp_direct := (sp_direct s)[i := (fst (sp_direct s ! i), ph)]\<rparr>"

definition spawn_task :: "job \<Rightarrow> ms \<Rightarrow> spawner \<Rightarrow> spawner" where
  "spawn_task jb t s =
     set_phase jb Alive
       (case job_account jb s of
          Some acc \<Rightarrow> s\<lparr>lastAccountSpawnTime := (lastAccountSpawnTime s)(acc \<mapsto> t), sp_log := sp_log s @ [(acc, t)]\<rparr>
        | None \<Rightarrow> s)"

text \<open>\<open>stopped\<close>: the recording is settled, a newer prompt superseded the run or the caller has gone.\<close>

definition start_task :: "job \<Rightarrow> bool \<Rightarrow> ms \<Rightarrow> ms \<Rightarrow> spawner \<Rightarrow> spawner" where
  "start_task jb stopped jitter t s =
     (if stopped then set_phase jb Finished s
      else case job_account jb s of
             Some acc \<Rightarrow>
               (let lastSpawn = or_else (lastAccountSpawnTime s acc) 0;
                    elapsed = t - lastSpawn; targetInterval = minSpawnIntervalMs + jitter
                in if elapsed < targetInterval then set_phase jb (Spacing (t + (targetInterval - elapsed))) s else spawn_task jb t s)
           | None \<Rightarrow> spawn_task jb t s)"

definition wake_task :: "job \<Rightarrow> bool \<Rightarrow> ms \<Rightarrow> spawner \<Rightarrow> spawner" where
  "wake_task jb stopped t s = (if stopped then set_phase jb Finished s else spawn_task jb t s)"

text \<open>The queue of an account is created on its first use. An attempt without an account runs at once.\<close>

definition add_task :: "string \<Rightarrow> spawner \<Rightarrow> spawner" where
  "add_task acc s =
     (let q = (case accountQueues s acc of None \<Rightarrow> \<lparr>concurrency = 1, jobs = []\<rparr> | Some q \<Rightarrow> q)
      in s\<lparr>accountQueues := (accountQueues s)(acc \<mapsto> q\<lparr>jobs := jobs q @ [Waiting]\<rparr>)\<rparr>)"

definition queue_attempt :: "string option \<Rightarrow> bool \<Rightarrow> ms \<Rightarrow> ms \<Rightarrow> spawner \<Rightarrow> spawner" where
  "queue_attempt attemptAcc stopped jitter t s =
     (case attemptAcc of
        Some acc \<Rightarrow> add_task acc s
      | None \<Rightarrow>
          start_task (Direct (length (sp_direct s))) stopped jitter t (s\<lparr>sp_direct := sp_direct s @ [(attemptAcc, Waiting)]\<rparr>))"

datatype spawn_op =
    SAdd "string option" bool ms ms
  | SStart string nat bool ms ms
  | SWake job bool ms
  | SExit job ms

fun spawn_step :: "spawner \<Rightarrow> spawn_op \<Rightarrow> spawner" where
  "spawn_step s (SAdd attemptAcc stopped jitter t) = (queue_attempt attemptAcc stopped jitter t s)\<lparr>sp_clock := t\<rparr>"
| "spawn_step s (SStart acc i stopped jitter t) = (start_task (Queued acc i) stopped jitter t s)\<lparr>sp_clock := t\<rparr>"
| "spawn_step s (SWake jb stopped t) = (wake_task jb stopped t s)\<lparr>sp_clock := t\<rparr>"
| "spawn_step s (SExit jb t) = (set_phase jb Finished s)\<lparr>sp_clock := t\<rparr>"

text \<open>
  The documented behaviour of \<open>p-queue\<close>, as a law on the parameter \<open>ready\<close>: which job a queue of a given concurrency
  may start next, given where its jobs are. It starts jobs in the order of \<open>add\<close> and never more at a time than its
  concurrency, whatever that is; and while it has a job waiting and room to run it, it starts one.
\<close>

definition busy :: "task_phase \<Rightarrow> bool" where
  "busy ph = (ph \<noteq> Waiting \<and> ph \<noteq> Finished)"

definition running :: "task_phase list \<Rightarrow> nat" where
  "running phs = length (filter busy phs)"

definition pq_ok :: "(nat \<Rightarrow> task_phase list \<Rightarrow> nat \<Rightarrow> bool) \<Rightarrow> bool" where
  "pq_ok ready \<longleftrightarrow>
     (\<forall>c phs i. ready c phs i \<longrightarrow> i < length phs \<and> phs ! i = Waiting \<and> running phs < c \<and> (\<forall>j < i. phs ! j \<noteq> Waiting)) \<and>
     (\<forall>c phs. running phs < c \<and> Waiting \<in> set phs \<longrightarrow> (\<exists>i. ready c phs i))"

fun spawn_ok :: "(nat \<Rightarrow> task_phase list \<Rightarrow> nat \<Rightarrow> bool) \<Rightarrow> spawner \<Rightarrow> spawn_op \<Rightarrow> bool" where
  "spawn_ok ready s (SAdd attemptAcc stopped jitter t) = (sp_clock s \<le> t \<and> 0 \<le> jitter)"
| "spawn_ok ready s (SStart acc i stopped jitter t) =
     (sp_clock s \<le> t \<and> 0 \<le> jitter \<and> (case accountQueues s acc of Some q \<Rightarrow> ready (concurrency q) (jobs q) i | None \<Rightarrow> False))"
| "spawn_ok ready s (SWake jb stopped t) =
     (sp_clock s \<le> t \<and> (case phase_of jb s of Some (Spacing w) \<Rightarrow> w \<le> t \<or> stopped | _ \<Rightarrow> False))"
| "spawn_ok ready s (SExit jb t) = (sp_clock s \<le> t \<and> phase_of jb s = Some Alive)"

section \<open>One process per account, and room between spawns\<close>

fun gaps :: "ms list \<Rightarrow> bool" where
  "gaps [] = True"
| "gaps [t] = True"
| "gaps (t # u # ts) = (t + minSpawnIntervalMs \<le> u \<and> gaps (u # ts))"

definition spawns_of :: "string \<Rightarrow> spawner \<Rightarrow> ms list" where
  "spawns_of acc s = map snd (filter (\<lambda>e. fst e = acc) (sp_log s))"

text \<open>The attempts of an account that are in their spacing or have a process, in its queue or outside it.\<close>

definition live :: "string \<Rightarrow> spawner \<Rightarrow> nat" where
  "live acc s =
     (case accountQueues s acc of Some q \<Rightarrow> running (jobs q) | None \<Rightarrow> 0) +
     length (filter (\<lambda>(a, ph). a = Some acc \<and> busy ph) (sp_direct s))"

definition alone :: "task_phase list \<Rightarrow> bool" where
  "alone phs \<longleftrightarrow> (\<forall>i < length phs. \<forall>j < length phs. busy (phs ! i) \<longrightarrow> busy (phs ! j) \<longrightarrow> i = j)"

definition in_order :: "task_phase list \<Rightarrow> bool" where
  "in_order phs \<longleftrightarrow> (\<forall>i < length phs. \<forall>j < i. phs ! i \<noteq> Waiting \<longrightarrow> phs ! j \<noteq> Waiting)"

definition queues_ok :: "spawner \<Rightarrow> bool" where
  "queues_ok s \<longleftrightarrow> (\<forall>acc q. accountQueues s acc = Some q \<longrightarrow> concurrency q = 1 \<and> alone (jobs q) \<and> in_order (jobs q))"

definition direct_ok :: "spawner \<Rightarrow> bool" where
  "direct_ok s \<longleftrightarrow> (\<forall>e \<in> set (sp_direct s). fst e = None \<and> (\<forall>w. snd e \<noteq> Spacing w))"

definition spaced :: "spawner \<Rightarrow> bool" where
  "spaced s \<longleftrightarrow> (\<forall>acc i w. phase_of (Queued acc i) s = Some (Spacing w) \<longrightarrow>
     or_else (lastAccountSpawnTime s acc) 0 + minSpawnIntervalMs \<le> w)"

definition logged :: "spawner \<Rightarrow> bool" where
  "logged s \<longleftrightarrow> (\<forall>acc. gaps (spawns_of acc s) \<and>
     lastAccountSpawnTime s acc = (if spawns_of acc s = [] then None else Some (last (spawns_of acc s))))"

definition spawn_inv :: "spawner \<Rightarrow> bool" where
  "spawn_inv s \<longleftrightarrow> queues_ok s \<and> direct_ok s \<and> spaced s \<and> logged s"

lemma running_alone: "running phs \<le> 1 \<longleftrightarrow> alone phs"
proof -
  have "running phs = card {i. i < length phs \<and> busy (phs ! i)}" by (simp add: running_def length_filter_conv_card)
  then show ?thesis by (auto simp: alone_def card_le_Suc0_iff_eq)
qed

lemma running_none: "running phs = 0 \<Longrightarrow> i < length phs \<Longrightarrow> \<not> busy (phs ! i)"
  by (auto simp: running_def filter_empty_conv)

lemma gaps_snoc: "gaps (ts @ [t]) \<longleftrightarrow> gaps ts \<and> (ts \<noteq> [] \<longrightarrow> last ts + minSpawnIntervalMs \<le> t)"
  by (induction ts rule: gaps.induct) auto

lemma set_phase_simps [simp]:
  "lastAccountSpawnTime (set_phase jb ph s) = lastAccountSpawnTime s" "sp_log (set_phase jb ph s) = sp_log s"
  "sp_direct (set_phase (Queued acc i) ph s) = sp_direct s" "accountQueues (set_phase (Direct k) ph s) = accountQueues s"
  "spawns_of acc (set_phase jb ph s) = spawns_of acc s"
  by (cases jb; simp add: spawns_of_def split: option.split)+

lemma set_queued: "accountQueues s acc = Some q \<Longrightarrow>
    accountQueues (set_phase (Queued acc i) ph s) = (accountQueues s)(acc \<mapsto> q\<lparr>jobs := (jobs q)[i := ph]\<rparr>)"
  by simp

lemma set_direct: "sp_direct (set_phase (Direct i) ph s) = (sp_direct s)[i := (fst (sp_direct s ! i), ph)]"
  by simp

declare set_phase.simps [simp del]

lemma phase_queued: "accountQueues s acc = Some q \<Longrightarrow> phase_of (Queued acc i) s = (if i < length (jobs q) then Some (jobs q ! i) else None)"
  by simp

lemma spawn_inv_cong:
  assumes "spawn_inv s" "direct_ok s1" "accountQueues s1 = accountQueues s" "lastAccountSpawnTime s1 = lastAccountSpawnTime s"
    and "sp_log s1 = sp_log s"
  shows "spawn_inv s1"
proof -
  have "spaced s1" using assms(1,3,4) by (simp add: spawn_inv_def spaced_def)
  moreover have "spawns_of acc s1 = spawns_of acc s" for acc by (simp add: spawns_of_def assms(5))
  ultimately show ?thesis using assms by (simp add: spawn_inv_def queues_ok_def logged_def)
qed

lemma spawn_inv_clock [simp]: "spawn_inv (s\<lparr>sp_clock := t\<rparr>) = spawn_inv s"
  by (simp add: spawn_inv_def queues_ok_def direct_ok_def spaced_def logged_def spawns_of_def)

text \<open>A job has the turn of its queue when it is the only one that may be busy and none before it waits.\<close>

definition turn :: "string \<Rightarrow> nat \<Rightarrow> spawner \<Rightarrow> bool" where
  "turn acc i s \<longleftrightarrow> (\<exists>q. accountQueues s acc = Some q \<and> i < length (jobs q) \<and>
     (\<forall>j < length (jobs q). j \<noteq> i \<longrightarrow> \<not> busy (jobs q ! j)) \<and> (\<forall>j < i. jobs q ! j \<noteq> Waiting))"

lemma busy_turn:
  assumes "queues_ok s" "phase_of (Queued acc i) s = Some ph" "busy ph"
  shows "turn acc i s"
proof -
  from assms(2) obtain q where q: "accountQueues s acc = Some q" "i < length (jobs q)" "jobs q ! i = ph"
    by (auto split: option.splits if_splits)
  with assms(1) have o: "alone (jobs q)" "in_order (jobs q)" by (auto simp: queues_ok_def)
  have "\<not> busy (jobs q ! j)" if "j < length (jobs q)" "j \<noteq> i" for j
    using o(1) q assms(3) that unfolding alone_def by blast
  moreover have "jobs q ! j \<noteq> Waiting" if "j < i" for j
    using o(2) q assms(3) that unfolding in_order_def busy_def by blast
  ultimately show ?thesis using q by (auto simp: turn_def)
qed

lemma ready_turn:
  assumes "queues_ok s" "pq_ok ready" "accountQueues s acc = Some q" "ready (concurrency q) (jobs q) i"
  shows "turn acc i s"
proof -
  have "concurrency q = 1" using assms(1,3) by (simp add: queues_ok_def)
  with assms(2,4) have "i < length (jobs q)" "running (jobs q) < 1" "\<forall>j < i. jobs q ! j \<noteq> Waiting"
    unfolding pq_ok_def by metis+
  with assms(3) running_none show ?thesis by (auto simp: turn_def)
qed

lemma queues_write:
  assumes "queues_ok s" "turn acc i s" "ph \<noteq> Waiting"
  shows "queues_ok (set_phase (Queued acc i) ph s)"
proof -
  from assms(2) obtain q where q: "accountQueues s acc = Some q" "i < length (jobs q)"
    "\<And>j. j < length (jobs q) \<Longrightarrow> j \<noteq> i \<Longrightarrow> \<not> busy (jobs q ! j)" "\<And>j. j < i \<Longrightarrow> jobs q ! j \<noteq> Waiting"
    by (auto simp: turn_def)
  from assms(1) q(1) have o: "in_order (jobs q)" "concurrency q = 1" by (auto simp: queues_ok_def)
  have "alone ((jobs q)[i := ph])" using q(2,3) by (auto simp: alone_def nth_list_update)
  moreover have "in_order ((jobs q)[i := ph])"
    unfolding in_order_def
  proof (intro allI impI)
    fix k j assume k: "k < length ((jobs q)[i := ph])" "j < k" "(jobs q)[i := ph] ! k \<noteq> Waiting"
    show "(jobs q)[i := ph] ! j \<noteq> Waiting"
      using o(1) q(2,4) assms(3) k by (cases "k = i") (auto simp: in_order_def nth_list_update)
  qed
  ultimately show ?thesis using assms(1) q(1) o(2) by (simp add: queues_ok_def set_queued)
qed

lemma phase_cong: "accountQueues s1 = accountQueues s2 \<Longrightarrow> phase_of (Queued acc i) s1 = phase_of (Queued acc i) s2"
  by simp

lemma spaced_write:
  assumes "spaced s" "turn acc i s"
    and "\<And>w. ph = Spacing w \<Longrightarrow> or_else (lastAccountSpawnTime s1 acc) 0 + minSpawnIntervalMs \<le> w"
    and "\<And>a. a \<noteq> acc \<Longrightarrow> lastAccountSpawnTime s1 a = lastAccountSpawnTime s a"
    and "accountQueues s1 = accountQueues (set_phase (Queued acc i) ph s)"
  shows "spaced s1"
  unfolding spaced_def phase_cong [OF assms(5)]
proof (intro allI impI)
  fix a k w assume k: "phase_of (Queued a k) (set_phase (Queued acc i) ph s) = Some (Spacing w)"
  show "or_else (lastAccountSpawnTime s1 a) 0 + minSpawnIntervalMs \<le> w"
  proof (cases "a = acc")
    case True
    from assms(2) obtain q where q: "accountQueues s acc = Some q" "\<And>j. j < length (jobs q) \<Longrightarrow> j \<noteq> i \<Longrightarrow> \<not> busy (jobs q ! j)"
      by (auto simp: turn_def)
    with k True have "k < length (jobs q)" "(jobs q)[i := ph] ! k = Spacing w" by (simp_all add: set_queued split: if_splits)
    with q(2) [of k] have "ph = Spacing w" by (cases "k = i") (auto simp: busy_def)
    with assms(3) True show ?thesis by simp
  next
    case False
    then have "phase_of (Queued a k) s = Some (Spacing w)" using k assms(2) by (auto simp: turn_def set_queued)
    with assms(1,4) False show ?thesis by (auto simp: spaced_def)
  qed
qed

lemma write_inv:
  assumes "spawn_inv s" "turn acc i s" "ph \<noteq> Waiting"
    and "\<And>w. ph = Spacing w \<Longrightarrow> or_else (lastAccountSpawnTime s acc) 0 + minSpawnIntervalMs \<le> w"
  shows "spawn_inv (set_phase (Queued acc i) ph s)"
proof -
  have "spaced (set_phase (Queued acc i) ph s)"
    by (rule spaced_write [OF _ assms(2), of ph]) (use assms(1,4) in \<open>auto simp: spawn_inv_def\<close>)
  with assms queues_write show ?thesis by (simp add: spawn_inv_def direct_ok_def logged_def)
qed

text \<open>A job outside the queues belongs to no account: it is neither spaced nor logged.\<close>

lemma direct_inv:
  assumes "spawn_inv s" "i < length (sp_direct s)" "\<And>w. ph \<noteq> Spacing w"
  shows "spawn_inv (set_phase (Direct i) ph s)"
proof -
  have "direct_ok (set_phase (Direct i) ph s)"
    using assms by (fastforce simp: spawn_inv_def direct_ok_def set_direct dest!: set_update_subset_insert [THEN subsetD])
  with assms(1) show ?thesis by (rule spawn_inv_cong) simp_all
qed

lemma direct_spawn: "spawn_inv s \<Longrightarrow> i < length (sp_direct s) \<Longrightarrow> spawn_task (Direct i) t s = set_phase (Direct i) Alive s"
  by (simp add: spawn_task_def spawn_inv_def direct_ok_def)

lemma spawn_task_inv:
  assumes "spawn_inv s" "turn acc i s"
    and gap: "\<And>u. lastAccountSpawnTime s acc = Some u \<Longrightarrow> u + minSpawnIntervalMs \<le> t"
  shows "spawn_inv (spawn_task (Queued acc i) t s)"
proof -
  let ?s = "s\<lparr>lastAccountSpawnTime := (lastAccountSpawnTime s)(acc \<mapsto> t), sp_log := sp_log s @ [(acc, t)]\<rparr>"
  have t: "spawn_task (Queued acc i) t s = set_phase (Queued acc i) Alive ?s" by (simp add: spawn_task_def)
  have inv: "queues_ok s" "direct_ok s" "spaced s" "logged s" using assms(1) by (simp_all add: spawn_inv_def)
  have "queues_ok (spawn_task (Queued acc i) t s)"
    unfolding t by (rule queues_write) (use inv(1) assms(2) in \<open>simp_all add: queues_ok_def turn_def\<close>)
  moreover have "direct_ok (spawn_task (Queued acc i) t s)" using inv(2) by (simp add: t direct_ok_def)
  moreover have "spaced (spawn_task (Queued acc i) t s)"
    by (rule spaced_write [OF inv(3) assms(2), of Alive]) (use assms(2) in \<open>auto simp: t turn_def set_queued\<close>)
  moreover have "logged (spawn_task (Queued acc i) t s)"
  proof -
    have sp: "spawns_of a (spawn_task (Queued acc i) t s) = spawns_of a s @ (if a = acc then [t] else [])" for a
      by (simp add: t spawns_of_def)
    have la: "lastAccountSpawnTime (spawn_task (Queued acc i) t s) = (lastAccountSpawnTime s)(acc \<mapsto> t)" by (simp add: t)
    have "gaps (spawns_of acc s @ [t])"
      using inv(4) gap [of "last (spawns_of acc s)"] by (simp add: gaps_snoc logged_def)
    with inv(4) show ?thesis by (simp add: logged_def sp la)
  qed
  ultimately show ?thesis by (simp add: spawn_inv_def)
qed

lemma start_task_inv:
  assumes "spawn_inv s" "turn acc i s" "0 \<le> jitter"
  shows "spawn_inv (start_task (Queued acc i) stopped jitter t s)"
proof -
  let ?last = "or_else (lastAccountSpawnTime s acc) 0"
  have "spawn_inv (set_phase (Queued acc i) Finished s)" by (rule write_inv [OF assms(1,2)]) simp_all
  moreover have "spawn_inv (set_phase (Queued acc i) (Spacing (t + (minSpawnIntervalMs + jitter - (t - ?last)))) s)"
    by (rule write_inv [OF assms(1,2)]) (use assms(3) in simp_all)
  moreover have "spawn_inv (spawn_task (Queued acc i) t s)" if "\<not> t - ?last < minSpawnIntervalMs + jitter"
    by (rule spawn_task_inv [OF assms(1,2)]) (use that assms(3) in simp)
  ultimately show ?thesis by (simp add: start_task_def Let_def)
qed

lemma in_order_snoc: "in_order phs \<Longrightarrow> in_order (phs @ [Waiting])"
  by (auto simp: in_order_def nth_append less_Suc_eq)

lemma alone_snoc: "alone phs \<Longrightarrow> alone (phs @ [Waiting])"
  by (auto simp: alone_def nth_append less_Suc_eq busy_def)

lemma add_task_inv:
  assumes "spawn_inv s"
  shows "spawn_inv (add_task acc s)"
proof -
  have e: "alone []" "in_order []" by (simp_all add: alone_def in_order_def)
  define q where "q = (case accountQueues s acc of None \<Rightarrow> \<lparr>concurrency = 1, jobs = []\<rparr> | Some q \<Rightarrow> q)"
  have a: "accountQueues (add_task acc s) = (accountQueues s)(acc \<mapsto> q\<lparr>jobs := jobs q @ [Waiting]\<rparr>)" by (simp add: add_task_def q_def Let_def)
  have "concurrency q = 1 \<and> alone (jobs q) \<and> in_order (jobs q)"
    using assms e by (auto simp: q_def spawn_inv_def queues_ok_def split: option.split)
  with assms have "queues_ok (add_task acc s)" by (auto simp: spawn_inv_def queues_ok_def a in_order_snoc alone_snoc)
  moreover have "spaced (add_task acc s)"
    unfolding spaced_def
  proof (intro allI impI)
    fix a k w assume k: "phase_of (Queued a k) (add_task acc s) = Some (Spacing w)"
    have "phase_of (Queued a k) s = Some (Spacing w)"
    proof (cases "a = acc")
      case True
      with k a have "k < length (jobs q) \<and> jobs q ! k = Spacing w" by (auto simp: nth_append less_Suc_eq split: if_splits)
      with True show ?thesis by (auto simp: q_def split: option.splits)
    qed (use k a in simp)
    with assms show "or_else (lastAccountSpawnTime (add_task acc s) a) 0 + minSpawnIntervalMs \<le> w"
      by (auto simp: spawn_inv_def spaced_def add_task_def Let_def simp del: phase_of.simps)
  qed
  ultimately show ?thesis using assms by (simp add: spawn_inv_def direct_ok_def logged_def spawns_of_def add_task_def Let_def)
qed

lemma queue_attempt_inv:
  assumes "spawn_inv s"
  shows "spawn_inv (queue_attempt attemptAcc stopped jitter t s)"
proof (cases attemptAcc)
  case None
  let ?s = "s\<lparr>sp_direct := sp_direct s @ [(None, Waiting)]\<rparr>"
  let ?i = "length (sp_direct s)"
  have inv: "spawn_inv ?s" by (rule spawn_inv_cong [OF assms]) (use assms in \<open>auto simp: spawn_inv_def direct_ok_def\<close>)
  have "start_task (Direct ?i) stopped jitter t ?s = set_phase (Direct ?i) (if stopped then Finished else Alive) ?s"
    using direct_spawn [OF inv, of ?i t] by (simp add: start_task_def )
  with direct_inv [OF inv, of ?i] None show ?thesis by (simp add: queue_attempt_def)
qed (simp add: queue_attempt_def add_task_inv [OF assms])

lemma spawn_step_inv: "pq_ok ready \<Longrightarrow> spawn_inv s \<Longrightarrow> spawn_ok ready s op \<Longrightarrow> spawn_inv (spawn_step s op)"
proof (cases op)
  case (SAdd attemptAcc stopped jitter t)
  assume "spawn_inv s"
  from queue_attempt_inv [OF this] show ?thesis by (simp add: SAdd)
next
  case (SStart acc i stopped jitter t)
  assume "pq_ok ready" and inv: "spawn_inv s" and "spawn_ok ready s op"
  then have "turn acc i s" "0 \<le> jitter"
    using ready_turn [of s ready acc _ i] by (auto simp: SStart spawn_inv_def split: option.splits)
  from start_task_inv [OF inv this] show ?thesis by (simp add: SStart)
next
  case (SWake jb stopped t)
  assume inv: "spawn_inv s" and ok: "spawn_ok ready s op"
  then obtain w where w: "phase_of jb s = Some (Spacing w)" "w \<le> t \<or> stopped" by (auto simp: SWake split: option.splits task_phase.splits)
  then obtain acc i where jb: "jb = Queued acc i"
    using inv by (cases jb) (auto simp: spawn_inv_def direct_ok_def split: if_splits dest!: nth_mem)
  have tn: "turn acc i s" by (rule busy_turn) (use inv w jb in \<open>auto simp: spawn_inv_def busy_def\<close>)
  have "or_else (lastAccountSpawnTime s acc) 0 + minSpawnIntervalMs \<le> w" using inv w(1) by (auto simp: jb spawn_inv_def spaced_def)
  then have "spawn_inv (spawn_task jb t s)" if "\<not> stopped"
    unfolding jb by (intro spawn_task_inv [OF inv tn]) (use w(2) that in simp)
  moreover have "spawn_inv (set_phase jb Finished s)" unfolding jb by (rule write_inv [OF inv tn]) auto
  ultimately show ?thesis by (simp add: SWake wake_task_def)
next
  case (SExit jb t)
  assume inv: "spawn_inv s" and ok: "spawn_ok ready s op"
  then have ph: "phase_of jb s = Some Alive" by (simp add: SExit)
  have "spawn_inv (set_phase jb Finished s)"
  proof (cases jb)
    case (Queued acc i)
    have "turn acc i s" by (rule busy_turn) (use inv ph Queued in \<open>auto simp: spawn_inv_def busy_def\<close>)
    then show ?thesis unfolding Queued by (rule write_inv [OF inv]) auto
  next
    case (Direct i)
    with ph direct_inv [OF inv, of i] show ?thesis by (simp split: if_splits)
  qed
  then show ?thesis by (simp add: SExit)
qed

lemma spawn_run: "pq_ok ready \<Longrightarrow> stepwise spawn_step (spawn_ok ready) spawn_inv"
  by unfold_locales (rule spawn_step_inv)

lemma spawn_inv_start: "spawn_inv (new_spawner t)"
  by (simp add: spawn_inv_def queues_ok_def direct_ok_def spaced_def logged_def new_spawner_def spawns_of_def)

lemma live_le_1:
  assumes "spawn_inv s"
  shows "live acc s \<le> 1"
proof -
  have "filter (\<lambda>(a, ph). a = Some acc \<and> busy ph) (sp_direct s) = []"
    using assms by (fastforce simp: spawn_inv_def direct_ok_def filter_empty_conv)
  moreover have "running (jobs q) \<le> 1" if "accountQueues s acc = Some q" for q
    using assms that running_alone by (simp add: spawn_inv_def queues_ok_def)
  ultimately show ?thesis by (simp add: live_def split: option.split)
qed

text \<open>
  C5. One agent per account at a time, with room between them, however the queue package picks among the jobs it is
  given, as long as it respects the concurrency the engine created the queue with and the order of its jobs. Whatever
  attempts are made, aborted, started and ended in whatever order: at most one attempt of an account waits for its
  spacing or has a live process, the attempts of an account start in the order in which they were made, and two successive
  processes of an account are started at least half a second apart.
\<close>

theorem one_process_per_account:
  assumes "pq_ok ready" "ok_run spawn_step (spawn_ok ready) (new_spawner t0) ops" "s = foldl spawn_step (new_spawner t0) ops"
  shows "live acc s \<le> 1 \<and> gaps (spawns_of acc s) \<and>
    (\<forall>q. accountQueues s acc = Some q \<longrightarrow>
       (\<forall>i < length (jobs q). \<forall>j < i. jobs q ! i \<noteq> Waiting \<longrightarrow> jobs q ! j \<noteq> Waiting))"
proof -
  have inv: "spawn_inv s" using stepwise.run_inv [OF spawn_run [OF assms(1)] spawn_inv_start assms(2)] assms(3) by simp
  moreover have "in_order (jobs q)" if "accountQueues s acc = Some q" for q using inv that by (simp add: spawn_inv_def queues_ok_def)
  ultimately show ?thesis using live_le_1 [OF inv] by (auto simp: spawn_inv_def logged_def in_order_def)
qed

text \<open>No attempt is stuck: while one of an account is unfinished, one of that account can start, waits for a time, or has a process to end.\<close>

lemma account_progress:
  assumes "pq_ok ready" "spawn_inv s" "accountQueues s acc = Some q" "ph \<in> set (jobs q)" "ph \<noteq> Finished"
  shows "\<exists>j. spawn_ok ready s (SStart acc j False 0 (sp_clock s)) \<or> (\<exists>u. spawn_ok ready s (SWake (Queued acc j) False u)) \<or>
    spawn_ok ready s (SExit (Queued acc j) (sp_clock s))"
proof (cases "running (jobs q) = 0")
  case True
  then have "ph = Waiting" using assms(4,5) by (auto simp: running_def filter_empty_conv busy_def)
  moreover have "concurrency q = 1" using assms(2,3) by (simp add: spawn_inv_def queues_ok_def)
  ultimately have "running (jobs q) < concurrency q \<and> Waiting \<in> set (jobs q)" using True assms(4) by simp
  with assms(1) obtain i where "ready (concurrency q) (jobs q) i" unfolding pq_ok_def by blast
  with assms(3) show ?thesis by auto
next
  case False
  then obtain b where "b \<in> set (jobs q)" "busy b" by (auto simp: running_def filter_empty_conv)
  then obtain j where j: "j < length (jobs q)" "busy (jobs q ! j)" by (auto simp: in_set_conv_nth)
  then consider (spacing) w where "jobs q ! j = Spacing w" | (alive) "jobs q ! j = Alive"
    by (cases "jobs q ! j") (auto simp: busy_def)
  then show ?thesis
  proof cases
    case spacing
    then have "spawn_ok ready s (SWake (Queued acc j) False (max w (sp_clock s)))" using assms(3) j(1) by simp
    then show ?thesis by blast
  next
    case alive
    then have "spawn_ok ready s (SExit (Queued acc j) (sp_clock s))" using assms(3) j(1) by simp
    then show ?thesis by blast
  qed
qed

text \<open>A queue that starts the first waiting job as soon as there is room.\<close>

definition fifo_ready :: "nat \<Rightarrow> task_phase list \<Rightarrow> nat \<Rightarrow> bool" where
  "fifo_ready c phs i \<longleftrightarrow> running phs < c \<and> i < length phs \<and> phs ! i = Waiting \<and> list_all (\<lambda>ph. ph \<noteq> Waiting) (take i phs)"

lemma fifo_ready_ok: "pq_ok fifo_ready"
proof -
  have "\<exists>i. fifo_ready c phs i" if "running phs < c" "Waiting \<in> set phs" for c phs
  proof -
    from that(2) obtain pre post where p: "phs = pre @ Waiting # post" "Waiting \<notin> set pre" by (meson split_list_first)
    then have "fifo_ready c phs (length pre)" using that(1) by (auto simp: fifo_ready_def list_all_iff)
    then show ?thesis ..
  qed
  moreover have "j < i \<Longrightarrow> phs ! j \<noteq> Waiting" if "fifo_ready c phs i" for c phs i j
    using that by (simp add: fifo_ready_def list_all_length)
  ultimately show ?thesis by (auto simp: pq_ok_def fifo_ready_def)
qed

definition demo_spawns :: "spawn_op list" where
  "demo_spawns = [SAdd (Some ''a'') False 0 10000, SAdd (Some ''a'') False 0 10001, SAdd (Some ''b'') False 0 10001, SAdd None False 0 10001,
     SStart ''a'' 0 False 30 10001, SStart ''b'' 0 False 0 10002, SExit (Queued ''a'' 0) 10100, SStart ''a'' 1 False 120 10101,
     SWake (Queued ''a'' 1) False 10621]"

theorem one_process_per_account_witness:
  "let s = foldl spawn_step (new_spawner 10000) demo_spawns
   in map_option jobs (accountQueues s ''a'') = Some [Finished, Alive] \<and> spawns_of ''a'' s = [10001, 10621] \<and>
      live ''a'' s = 1 \<and> gaps (spawns_of ''a'' s)"
proof -
  have ok: "ok_run spawn_step (spawn_ok fifo_ready) (new_spawner 10000) demo_spawns"
    by code_simp
  have "map_option jobs (accountQueues (foldl spawn_step (new_spawner 10000) demo_spawns) ''a'') = Some [Finished, Alive] \<and>
      spawns_of ''a'' (foldl spawn_step (new_spawner 10000) demo_spawns) = [10001, 10621] \<and>
      live ''a'' (foldl spawn_step (new_spawner 10000) demo_spawns) = 1"
    by code_simp
  with one_process_per_account [OF fifo_ready_ok ok refl, of "''a''"] show ?thesis by (simp add: Let_def)
qed

end
