(* ===== verification/Spec2Isabelle.thy ===== *)
theory Spec2Isabelle
  imports Semaphore Settings Dispatch Routes Auth Events Runner ModelRoutes Quota QuotaCycle LoginFlow AdminGuard AdminApi Lifecycle Sse Media Poller Storage
    ConsolePages Doctor Shell Spawns
begin

text \<open>
  A verification library for agy-proxy, a gateway that serves the OpenAI and Anthropic HTTP protocols on top of the
  \<open>agy\<close> command line agent. It is a shallow embedding of the TypeScript under \<open>src/common\<close>, \<open>src/host\<close>,
  \<open>src/server\<close> and \<open>web/src\<close>: a class is a record and one definition per method, a union a datatype, an error a value, a loop a
  recursive function, and a component's timers, callbacks and requests the operations of a history.

  \<^bold>\<open>How the program works.\<close> A request passes the API-key hook (\<open>auth.ts\<close>, over \<open>key-store.ts\<close> and
  \<open>usage-ledger.ts\<close>), is mapped to an engine call by its adapter (\<open>openai-adapter.ts\<close>, \<open>anthropic-adapter.ts\<close>) and waits
  for a slot of the gateway semaphore (\<open>semaphore.ts\<close>). The engine (\<open>engine.ts\<close>) prepares the run: model and
  fallback, key scopes, account from the pool (\<open>pool.ts\<close>), conversation binding (\<open>sessions.ts\<close>), prompt. It dispatches
  at most two attempts of the agent (\<open>runner.ts\<close>), whose output the parser (\<open>parser.ts\<close>) turns into events that a
  recording (\<open>recording.ts\<close>) keeps. A span reads the recording through the event mapper (\<open>mapper.ts\<close>) into stream
  chunks, up to a tool call or the end; the routes (\<open>app.ts\<close>) turn chunks into reply bodies or SSE frames, with stop
  sequences and output budgets applied on the way (\<open>stream-guards.ts\<close>). Settled runs are booked in the ledger and shown on the
  admin event bus (\<open>events.ts\<close>).

  \<^bold>\<open>Theories.\<close>
  \<^item> Prelude: lists, strings, insertion-ordered maps (locale \<open>ordered_map\<close>), histories (\<open>ok_run\<close>, locale \<open>stepwise\<close>: an invariant kept by
    every allowed step holds after every history; each stateful component interprets it). Regex: backtracking matching
    of the regular expressions the code uses. Json: JSON values and JavaScript number and string conversions, where \<open>String\<close> throws
    on a value without a string form (an object with a \<open>toString\<close> property of its own). Base64: the codec that images and
    sealed secrets use, with its round trip.
  \<^item> StopGuard (\<open>stream-guards.ts\<close>): the stop-sequence holdback equals cutting the finished text at the first stop
    sequence, however it is chunked. Tokens (\<open>tokens.ts\<close>, \<open>max-tokens.ts\<close>): token estimates and output budgets.
  \<^item> Semaphore (\<open>semaphore.ts\<close>): capacity, order of service, progress.
  \<^item> Types (\<open>types.ts\<close>, \<open>pool-types.ts\<close>, \<open>stream-types.ts\<close>): chunks, usage, failure classifiers, model families.
  \<^item> Persist and Pool (\<open>pool.ts\<close>): accounts, selection, cooldowns, quotas, persistence; the invariant of every history, soundness
    of selection, reload after a crash.
  \<^item> Recording (\<open>recording.ts\<close>, part of \<open>mirror.ts\<close>), Mapper (\<open>mapper.ts\<close>), Parser (\<open>parser.ts\<close>): event logs with many readers,
    the run registry, the chunk protocol, line parsing independent of how the pipe is cut.
  \<^item> Config (\<open>config.ts\<close>), Settings (\<open>settings.ts\<close>), Models (\<open>models.ts\<close>): configuration layers, the runtime override file and its cache,
    the settings write path, the model catalogue.
  \<^item> Sessions (\<open>sessions.ts\<close>), Prompt, Spans, Engine, Dispatch (\<open>engine.ts\<close>): conversation bindings and their isolation between API keys,
    prompt building, spans and continuations, preparation of a run with every early failure, the attempt loop, retries and settlement. What other requests change in engine,
    pool and registry while a run awaits is part of the history of its attempts (\<open>aw_others\<close>, \<open>polite\<close>).
  \<^item> Errors (\<open>errors.ts\<close>), OpenAI and Completion (\<open>openai-adapter.ts\<close>), Anthropic and Message (\<open>anthropic-adapter.ts\<close>): both error tables,
    request validation and mapping in an error monad, reply bodies and stream frames.
  \<^item> Legs and Routes (\<open>app.ts\<close>): the streaming loop once, over the locales \<open>chunk_writer\<close> and \<open>failing_writer\<close> that both protocols
    interpret, then the generation routes and the error handler. Each stream refines its protocol, and streaming and non-streaming replies agree, for spans that
    stay within the token limit of their request.
  \<^item> Ledger (\<open>usage-ledger.ts\<close>), Keys (\<open>key-store.ts\<close>), Auth (\<open>auth.ts\<close>): booking, key life cycle, admission. The admission theorem
    composes the invariants of the other two. Sealed secrets have their text form over the cipher of \<open>key_vault\<close>.
  \<^item> Events (\<open>events.ts\<close> and the \<open>/admin/events\<close> route), Runner (\<open>runner.ts\<close>), ModelRoutes (\<open>models-routes.ts\<close>): resumable admin
    events, the child process with its kill ladder and bounded capture, model listing.
  \<^item> Dates, OAuth (\<open>oauth.ts\<close>), LoginFlow (\<open>pool-auth.ts\<close>): the calendar behind token files, the token endpoint and the files written from
    it, and sign-in as a transition system. Every history of it commits only codes whose state was checked, and a token file reads back as
    what was signed in.
  \<^item> Quota and QuotaCycle (\<open>quota.ts\<close>): token refresh, the endpoint chain, ingestion of quotas into the pool, what a changed identity
    discards, and the refresh pass that overlapping callers share.
  \<^item> AdminSession (\<open>admin-session.ts\<close>), AdminGuard and AdminApi (\<open>admin-api.ts\<close>): sessions as a map from tokens to expiry times, cookies, address
    allowlist, the lockout of failed logins, and every admin route over the stores it changes. No route changes anything for a caller
    without a session, and no answer but the creation, rotation or reveal of a key shows its text.
  \<^item> Lifecycle (\<open>index.ts\<close>, \<open>shutdown.ts\<close>): start-up decisions, the callback of a settled run that feeds ledger and bus, and the shutdown
    sequence: what it flushes, and in which order, when signals and the deadline arrive at any point.
  \<^item> Sse (\<open>sse.ts\<close>): the writer with back-pressure and heartbeats, and an event-stream reader that returns exactly what was sent.
  \<^item> Media (\<open>media.ts\<close>, \<open>media-sweeper.ts\<close>), Poller (\<open>catalog-discovery.ts\<close>, \<open>catalog-poller.ts\<close>), Storage (\<open>db.ts\<close>, \<open>discovery.ts\<close>, part of
    \<open>static.ts\<close>): staged images and their sweep, the single-flight refresh of the catalog, migrations that may stop half-way.
  \<^item> Spawns (\<open>engine.ts\<close>): the environment of a child, the abort-aware sleep, the queue of each account (made on first use, with a concurrency of one) and the
    spacing of its spawns. In every history an account has one process at a time, and its processes start half a second apart.
  \<^item> Doctor (\<open>diagnostics.ts\<close>, the rest of \<open>mirror.ts\<close>, \<open>net.ts\<close>, \<open>logger.ts\<close>) and Shell (the rest of \<open>buildServer\<close> in \<open>app.ts\<close>, \<open>static.ts\<close>,
    \<open>startDebugMetrics\<close>): the diagnostic report and what it leaves out, tool arguments, outbound agents, trusted proxies, static files and the
    handler of unknown paths.
  \<^item> Console (\<open>web/src/api/client.ts\<close>, \<open>lib/csv.ts\<close>, \<open>routes/usage.tsx\<close>) and ConsolePages (\<open>useAdminEvents.ts\<close>, the key, settings and dashboard pages): the web
    console against the server it talks to. Its calls reach the routes they mean, its usage pages put together are the ledger's matching rows,
    its live feed over a reconnection is what the event bus sent, and skipping permissions is confirmed.

  \<^bold>\<open>Conventions.\<close> Integers of the source are \<open>int\<close> or \<open>nat\<close>, other numbers \<open>rat\<close>: the code computes with token counts, milliseconds
  and sizes far below the range where JavaScript numbers round. Strings are lists of characters below 256; the few
  punctuation characters outside that range are written as their UTF-8 bytes. A \<open>Map\<close> is an association list in insertion order. SQLite tables
  are lists of rows with their constraints. The clock, random ids, hashes and ciphers, date parsing, the file system, the agent's
  output and packages are arguments; what is assumed of them is a hypothesis of the theorem that needs it, and its witness instantiates it.

  \<^bold>\<open>Bounds and fuel.\<close> Recursion is structural or has a measure, with three exceptions that carry fuel: \<open>classifyEvent\<close>, whose recursion in the code
  does not end on some inputs (\<open>classifyEvent_depth\<close> says which, on which others it throws, and that two nested calls are enough otherwise); the drain loop of a
  semaphore history in the progress theorem, bounded by the number of waiting calls; and the page walk of \<open>ModelRoutes\<close>,
  for which one more step than there are entries is enough.

  \<^bold>\<open>Not modelled.\<close> The layout, labels and number formats of the web console and its sign-in cards, and the development scripts: they carry
  no decision the gateway relies on. Sockets, SQLite, Fastify with its body schemas and static-file plugin, pino, undici and p-queue: packages;
  which waiting job a queue starts is a parameter of Spawns, with the law that it keeps the concurrency it is given and the order. The guard around an exception
  in the dispatch, and the construction of the objects in \<open>main\<close>. The text of JSON documents: printing and parsing are parameters, and
  values are compared. Interleavings inside one synchronous section of the event loop do not exist in the program; operations of a history are such
  sections.
\<close>

end
